(* ===== verification/Prelude.thy ===== *)
theory Prelude
  imports Main "HOL-Library.Word"
begin

text \<open>
  Shared vocabulary of the development: bytes and buffers, the errors JavaScript code
  throws, the result type of fallible code, 32-bit integer conversion, buffer slices and
  little/big endian integers.  The lemma collections \<open>bytes_simps\<close> (codecs and slices)
  and \<open>result_simps\<close> (the result type) carry most component proofs.
\<close>

unbundle bit_operations_syntax

named_theorems bytes_simps "lengths, slices and integer codecs of byte lists"
named_theorems result_simps "case analysis of fallible computations"

section \<open>Bytes\<close>

type_synonym byte = "8 word"
type_synonym bytes = "byte list"

lemma unat_byte_less [simp]: "unat (b :: byte) < 256"
  using unsigned_less [of b] by simp

lemma unat_byte_le [simp]: "unat (b :: byte) \<le> 255"
  using unat_byte_less [of b] by linarith

lemma byte_of_unat [simp]: "word_of_nat (unat b) = (b :: byte)"
  by simp

lemma unat_byte_of_nat: "unat (word_of_nat n :: byte) = n mod 256"
  by (simp add: unat_of_nat)

lemma byte_eq_iff_unat: "(a :: byte) = b \<longleftrightarrow> unat a = unat b"
  by (rule word_unat_eq_iff)

text \<open>The sign bit of a byte.\<close>

lemma byte_all: "(\<forall>b :: byte. P b) \<longleftrightarrow> list_all (\<lambda>n. P (word_of_nat n)) [0..<256]"
proof
  assume h: "list_all (\<lambda>n. P (word_of_nat n)) [0..<256]"
  show "\<forall>b :: byte. P b"
  proof
    fix b :: byte
    have "unat b < 256" using unsigned_less [of b] by simp
    then have "unat b \<in> set [0..<256]" by simp
    with h have "P (word_of_nat (unat b))" unfolding list_all_iff by blast
    then show "P b" by simp
  qed
qed (simp add: list_all_iff)

lemma nat_and_80: "n < 256 \<Longrightarrow> (n AND 128 :: nat) = 0 \<longleftrightarrow> n < 128"
proof -
  assume "n < 256"
  then have "n div 128 = (if n < 128 then 0 else 1)" by auto
  then show ?thesis using and_exp_eq_0_iff_not_bit [of n 7] by (simp add: bit_iff_odd)
qed

lemma byte_and_80: "(b AND 0x80 :: byte) = 0 \<longleftrightarrow> unat b < 128"
proof -
  have "(b AND 0x80 :: byte) = 0 \<longleftrightarrow> unat b AND 128 = 0"
    by (simp add: word_unat_eq_iff unsigned_and_eq)
  then show ?thesis using nat_and_80 [of "unat b"] unsigned_less [of b] by simp
qed

lemma byte_or_80: "unat b < 128 \<Longrightarrow> unat (b OR 0x80 :: byte) = unat b + 128"
proof -
  assume "unat b < 128"
  then have "unat b AND 128 = 0" by (subst nat_and_80) simp_all
  then have "unat b OR 128 = unat b + 128" by (rule disjunctive_add_eq_or [symmetric])
  then show ?thesis by (simp add: unsigned_or_eq)
qed

lemma byte_and_7f: "unat (b AND 0x7f :: byte) = unat b mod 128"
proof -
  have "unat (b AND 0x7f :: byte) = unat b AND mask 7"
    by (simp add: unsigned_and_eq mask_eq_exp_minus_1)
  then show ?thesis by (simp add: take_bit_eq_mask [symmetric] take_bit_eq_mod)
qed

section \<open>Errors and results\<close>

text \<open>
  The exceptions of the modelled code.  \<open>InvalidArgument\<close> and \<open>InvalidState\<close> are the
  two errors of \<^verbatim>\<open>lib/util/preconditions.js\<close>; \<open>RangeErr\<close>, \<open>TypeErr\<close> and \<open>ReferenceErr\<close>
  are the ones the language raises itself; \<open>PlainError\<close> is \<^verbatim>\<open>new Error(message)\<close>, and
  \<open>LibError\<close> names a class of \<^verbatim>\<open>lib/errors/spec.js\<close> that callers catch by its type.
\<close>

datatype js_error =
    InvalidArgument string
  | InvalidState string
  | RangeErr
  | TypeErr
  | ReferenceErr string
  | PlainError string
  | LibError string

type_synonym 'a res = "js_error + 'a"

definition rbind :: "'a res \<Rightarrow> ('a \<Rightarrow> 'b res) \<Rightarrow> 'b res" where
  "rbind m f = (case m of Inl e \<Rightarrow> Inl e | Inr x \<Rightarrow> f x)"

definition rmap :: "('a \<Rightarrow> 'b) \<Rightarrow> 'a res \<Rightarrow> 'b res" where
  "rmap f m = (case m of Inl e \<Rightarrow> Inl e | Inr x \<Rightarrow> Inr (f x))"

definition isOk :: "'a res \<Rightarrow> bool" where
  "isOk m = (case m of Inl _ \<Rightarrow> False | Inr _ \<Rightarrow> True)"

lemma rbind_simps [simp, result_simps]:
  "rbind (Inl e) f = Inl e"
  "rbind (Inr x) f = f x"
  by (simp_all add: rbind_def)

lemma rmap_simps [simp, result_simps]:
  "rmap f (Inl e) = Inl e"
  "rmap f (Inr x) = Inr (f x)"
  by (simp_all add: rmap_def)

lemma isOk_simps [simp, result_simps]:
  "\<not> isOk (Inl e)"
  "isOk (Inr x)"
  by (simp_all add: isOk_def)

lemma rbind_InrE:
  assumes "rbind m f = Inr y"
  obtains x where "m = Inr x" and "f x = Inr y"
  using assms by (cases m) auto

lemma rbind_Inr_iff: "rbind m f = Inr y \<longleftrightarrow> (\<exists>x. m = Inr x \<and> f x = Inr y)"
  by (cases m) auto

lemma rbind_cong [fundef_cong]:
  "m = m' \<Longrightarrow> (\<And>x. m' = Inr x \<Longrightarrow> f x = g x) \<Longrightarrow> rbind m f = rbind m' g"
  by (cases m') simp_all

lemma rbind_assoc: "rbind (rbind m f) g = rbind m (\<lambda>x. rbind (f x) g)"
  by (cases m) auto

lemma rmap_Inr_iff: "rmap f m = Inr y \<longleftrightarrow> (\<exists>x. m = Inr x \<and> y = f x)"
  by (cases m) auto

lemma rmap_rmap: "rmap f (rmap g m) = rmap (\<lambda>x. f (g x)) m"
  by (cases m) auto

lemma rmap_rbind: "rmap f (rbind m g) = rbind m (\<lambda>x. rmap f (g x))"
  by (cases m) auto

lemma isOk_iff: "isOk m \<longleftrightarrow> (\<exists>x. m = Inr x)"
  by (cases m) auto

text \<open>A check that throws: \<^verbatim>\<open>$.checkArgument\<close> and \<^verbatim>\<open>$.checkState\<close>.\<close>

definition checkArgument :: "bool \<Rightarrow> string \<Rightarrow> unit res" where
  "checkArgument c msg = (if c then Inr () else Inl (InvalidArgument msg))"

definition checkState :: "bool \<Rightarrow> string \<Rightarrow> unit res" where
  "checkState c msg = (if c then Inr () else Inl (InvalidState msg))"

lemma checkArgument_Inr [simp]: "checkArgument c msg = Inr u \<longleftrightarrow> c"
  by (simp add: checkArgument_def)

lemma checkState_Inr [simp]: "checkState c msg = Inr u \<longleftrightarrow> c"
  by (simp add: checkState_def)

section \<open>The 32-bit integers of JavaScript's bitwise operators\<close>

text \<open>
  JavaScript numbers are integers here; the bitwise operators first apply ToInt32 (the
  signed residue modulo \<open>2^32\<close>), except \<^verbatim>\<open>>>>\<close>, which yields the unsigned residue.
\<close>

definition to_int32 :: "int \<Rightarrow> int" where
  "to_int32 x = signed_take_bit 31 x"

definition to_uint32 :: "int \<Rightarrow> int" where
  "to_uint32 x = take_bit 32 x"

definition js_and :: "int \<Rightarrow> int \<Rightarrow> int" where
  "js_and a b = to_int32 a AND to_int32 b"

definition js_or :: "int \<Rightarrow> int \<Rightarrow> int" where
  "js_or a b = to_int32 a OR to_int32 b"

definition js_xor :: "int \<Rightarrow> int \<Rightarrow> int" where
  "js_xor a b = to_int32 a XOR to_int32 b"

definition js_shl :: "int \<Rightarrow> nat \<Rightarrow> int" where
  "js_shl a k = to_int32 (push_bit (k mod 32) (to_int32 a))"

definition js_shr :: "int \<Rightarrow> nat \<Rightarrow> int" where
  "js_shr a k = drop_bit (k mod 32) (to_int32 a)"

lemma to_int32_id: "- (2 ^ 31) \<le> x \<Longrightarrow> x < 2 ^ 31 \<Longrightarrow> to_int32 x = x"
  unfolding to_int32_def by (rule signed_take_bit_int_eq_self) simp_all

lemma to_int32_range: "- (2 ^ 31) \<le> to_int32 x \<and> to_int32 x < 2 ^ 31"
  unfolding to_int32_def
  using signed_take_bit_int_greater_eq_minus_exp [of 31 x] signed_take_bit_int_less_exp [of 31 x]
  by (intro conjI)

lemma to_int32_idem [simp]: "to_int32 (to_int32 x) = to_int32 x"
  using to_int32_range [of x] by (intro to_int32_id) simp_all

section \<open>Slices\<close>

text \<open>\<^verbatim>\<open>buf.slice(a, b)\<close> for \<open>0 \<le> a\<close>, \<open>0 \<le> b\<close>: both bounds are clamped to the buffer.\<close>

definition slice :: "'a list \<Rightarrow> nat \<Rightarrow> nat \<Rightarrow> 'a list" where
  "slice xs a b = take (b - a) (drop a xs)"

lemma length_slice [bytes_simps]: "length (slice xs a b) = min b (length xs) - a"
  by (simp add: slice_def)

lemma slice_append_exact [bytes_simps]:
  "slice (xs @ ys @ zs) (length xs) (length xs + length ys) = ys"
  by (simp add: slice_def)

lemma slice_full [simp]: "slice xs 0 (length xs) = xs"
  by (simp add: slice_def)

lemma slice_drop: "slice (drop k xs) a b = slice xs (k + a) (k + b)"
  by (simp add: slice_def add.commute)

lemma set_slice_subset: "set (slice xs a b) \<subseteq> set xs"
  unfolding slice_def using set_take_subset set_drop_subset by fastforce

text \<open>A read at an index, \<open>None\<close> for JavaScript's \<^verbatim>\<open>undefined\<close>.\<close>

definition nth_opt :: "'a list \<Rightarrow> nat \<Rightarrow> 'a option" where
  "nth_opt xs i = (if i < length xs then Some (xs ! i) else None)"

lemma nth_opt_Some [simp]: "i < length xs \<Longrightarrow> nth_opt xs i = Some (xs ! i)"
  by (simp add: nth_opt_def)

lemma nth_opt_None [simp]: "length xs \<le> i \<Longrightarrow> nth_opt xs i = None"
  by (simp add: nth_opt_def)

section \<open>Hexadecimal and decimal text\<close>

definition hex_char :: "nat \<Rightarrow> char" where
  "hex_char n = ''0123456789abcdef'' ! n"

definition hex_value :: "char \<Rightarrow> nat option" where
  "hex_value c =
     (let k = of_char c :: nat
      in if 48 \<le> k \<and> k \<le> 57 then Some (k - 48)
         else if 97 \<le> k \<and> k \<le> 102 then Some (k - 87)
         else if 65 \<le> k \<and> k \<le> 70 then Some (k - 55) else None)"

definition to_hex :: "bytes \<Rightarrow> string" where
  "to_hex bs = concat (map (\<lambda>b. [hex_char (unat b div 16), hex_char (unat b mod 16)]) bs)"

text \<open>\<^verbatim>\<open>Buffer.from(str, 'hex')\<close> stops at the first pair that is not two hex digits.\<close>

fun of_hex :: "string \<Rightarrow> bytes" where
  "of_hex (a # b # cs) =
     (case (hex_value a, hex_value b) of
        (Some x, Some y) \<Rightarrow> word_of_nat (16 * x + y) # of_hex cs
      | _ \<Rightarrow> [])"
| "of_hex _ = []"

text \<open>\<^verbatim>\<open>n.toString(16)\<close> and \<^verbatim>\<open>n.toString()\<close>.\<close>

fun nat_hex :: "nat \<Rightarrow> string" where
  "nat_hex n = (if n < 16 then [hex_char n] else nat_hex (n div 16) @ [hex_char (n mod 16)])"

fun nat_dec :: "nat \<Rightarrow> string" where
  "nat_dec n = (if n < 10 then [hex_char n] else nat_dec (n div 10) @ [hex_char (n mod 10)])"

declare nat_hex.simps [simp del] nat_dec.simps [simp del]

lemma hex_value_char [simp]: "n < 16 \<Longrightarrow> hex_value (hex_char n) = Some n"
proof -
  have "list_all (\<lambda>n. hex_value (hex_char n) = Some n) [0..<16]" by code_simp
  then show "n < 16 \<Longrightarrow> hex_value (hex_char n) = Some n"
    by (simp add: list_all_iff)
qed

lemma length_to_hex [simp]: "length (to_hex bs) = 2 * length bs"
  by (induction bs) (simp_all add: to_hex_def)

lemma of_hex_to_hex [simp]: "of_hex (to_hex bs) = bs"
proof (induction bs)
  case (Cons b bs)
  have "unat b div 16 < 16" using unat_byte_less [of b] by (simp add: div_less_iff_less_mult)
  then show ?case using Cons.IH by (simp add: to_hex_def)
qed (simp add: to_hex_def)

lemma to_hex_inj: "to_hex a = to_hex b \<longleftrightarrow> a = b"
  by (metis of_hex_to_hex)

section \<open>Little and big endian integers\<close>

primrec le_bytes :: "nat \<Rightarrow> nat \<Rightarrow> bytes" where
  "le_bytes 0 v = []"
| "le_bytes (Suc k) v = word_of_nat v # le_bytes k (v div 256)"

primrec le_val :: "bytes \<Rightarrow> nat" where
  "le_val [] = 0"
| "le_val (b # bs) = unat b + 256 * le_val bs"

definition be_bytes :: "nat \<Rightarrow> nat \<Rightarrow> bytes" where
  "be_bytes k v = rev (le_bytes k v)"

definition be_val :: "bytes \<Rightarrow> nat" where
  "be_val bs = le_val (rev bs)"

lemma length_le_bytes [simp]: "length (le_bytes k v) = k"
  by (induction k arbitrary: v) auto

lemma length_be_bytes [simp]: "length (be_bytes k v) = k"
  by (simp add: be_bytes_def)

lemma le_val_append: "le_val (xs @ ys) = le_val xs + 256 ^ length xs * le_val ys"
  by (induction xs) (auto simp: algebra_simps)

lemma le_val_less: "le_val bs < 256 ^ length bs"
proof (induction bs)
  case (Cons b bs)
  have "unat b + 256 * le_val bs < 256 * (le_val bs + 1)"
    using unat_byte_less [of b] by simp
  also have "\<dots> \<le> 256 * 256 ^ length bs"
    using Cons.IH by (intro mult_le_mono) simp_all
  finally show ?case by simp
qed simp

lemma le_val_le_bytes_mod: "le_val (le_bytes k v) = v mod 256 ^ k"
proof (induction k arbitrary: v)
  case (Suc k)
  have "v mod (256 * 256 ^ k) = 256 * (v div 256 mod 256 ^ k) + v mod 256"
    by (rule mod_mult2_eq)
  then show ?case using Suc.IH [of "v div 256"] by (simp add: unat_byte_of_nat)
qed simp

lemma le_val_le_bytes [bytes_simps]: "v < 256 ^ k \<Longrightarrow> le_val (le_bytes k v) = v"
  by (simp add: le_val_le_bytes_mod)

lemma le_bytes_le_val [bytes_simps]: "le_bytes (length bs) (le_val bs) = bs"
proof (induction bs)
  case (Cons b bs)
  have "(unat b + 256 * le_val bs) div 256 = le_val bs" by simp
  moreover have "(word_of_nat (unat b + 256 * le_val bs) :: byte) = b"
    by (rule word_unat_eq_iff [THEN iffD2]) (simp only: unat_byte_of_nat, simp)
  ultimately show ?case using Cons.IH by simp
qed simp

lemma le_val_inj:
  assumes "length xs = length ys" and "le_val xs = le_val ys"
  shows "xs = ys"
proof -
  have "xs = le_bytes (length xs) (le_val xs)" by (simp add: le_bytes_le_val)
  also have "\<dots> = le_bytes (length ys) (le_val ys)" using assms by simp
  also have "\<dots> = ys" by (simp add: le_bytes_le_val)
  finally show ?thesis .
qed

lemma be_val_be_bytes [bytes_simps]: "v < 256 ^ k \<Longrightarrow> be_val (be_bytes k v) = v"
  by (simp add: be_val_def be_bytes_def le_val_le_bytes)

lemma be_bytes_be_val [bytes_simps]: "be_bytes (length bs) (be_val bs) = bs"
  using le_bytes_le_val [of "rev bs"] by (simp add: be_val_def be_bytes_def)

lemma le_bytes_eq_Nil [simp]: "le_bytes k v = [] \<longleftrightarrow> k = 0"
  by (cases k) auto

end
