(* ===== verification/BigNum.thy ===== *)
theory BigNum
  imports Prelude
begin

text \<open>
  The buffer codecs of \<^verbatim>\<open>lib/crypto/bn.js\<close>: unsigned big endian buffers, signed magnitude
  buffers and script numbers.  The integers of the npm package \<^verbatim>\<open>bn.js\<close> are HOL's \<open>int\<close>
  (\<open>nat\<close> where the code only builds non-negative ones).  The script number theorems say
  that decoding inverts encoding, that encodings are minimal, and that a minimal buffer
  is the only one for its value.
\<close>

section \<open>Little endian bytes of a natural number without leading zeros\<close>

fun le_min :: "nat \<Rightarrow> bytes" where
  "le_min n = (if n < 256 then [word_of_nat n] else word_of_nat n # le_min (n div 256))"

declare le_min.simps [simp del]

lemma le_min_small: "n < 256 \<Longrightarrow> le_min n = [word_of_nat n]"
  by (subst le_min.simps) simp

lemma le_min_big: "256 \<le> n \<Longrightarrow> le_min n = word_of_nat n # le_min (n div 256)"
  by (subst le_min.simps) simp

lemma le_min_not_Nil [simp]: "le_min n \<noteq> []"
  by (subst le_min.simps) simp

lemma le_val_le_min [bytes_simps, simp]: "le_val (le_min n) = n"
proof (induction n rule: le_min.induct)
  case (1 n)
  show ?case
  proof (cases "n < 256")
    case True
    then show ?thesis by (simp add: le_min_small unat_byte_of_nat)
  next
    case False
    then have "le_val (le_min (n div 256)) = n div 256" by (rule "1.IH")
    with False show ?thesis by (simp add: le_min_big unat_byte_of_nat)
  qed
qed

lemma last_le_min_nonzero: "0 < n \<Longrightarrow> last (le_min n) \<noteq> 0"
proof (induction n rule: le_min.induct)
  case (1 n)
  show ?case
  proof (cases "n < 256")
    case True
    with "1.prems" show ?thesis by (simp add: le_min_small byte_eq_iff_unat unat_byte_of_nat)
  next
    case False
    then have "0 < n div 256" by simp
    with "1.IH" False show ?thesis by (simp add: le_min_big)
  qed
qed

lemma le_val_pos: "bs \<noteq> [] \<Longrightarrow> last bs \<noteq> 0 \<Longrightarrow> 0 < le_val bs"
proof (induction bs)
  case (Cons b bs)
  then show ?case
    by (cases "bs = []") (auto simp: unat_gt_0)
qed simp

lemma le_min_le_val: "bs \<noteq> [] \<Longrightarrow> last bs \<noteq> 0 \<Longrightarrow> le_min (le_val bs) = bs"
proof (induction bs)
  case (Cons b bs)
  show ?case
  proof (cases "bs = []")
    case True
    then show ?thesis by (simp add: le_min_small)
  next
    case False
    with Cons.prems have last: "last bs \<noteq> 0" by simp
    with False have pos: "0 < le_val bs" by (rule le_val_pos)
    have div: "(unat b + 256 * le_val bs) div 256 = le_val bs" by simp
    have "(word_of_nat (unat b + 256 * le_val bs) :: byte) = b"
      by (rule word_unat_eq_iff [THEN iffD2]) (simp only: unat_byte_of_nat, simp)
    with pos div Cons.IH [OF False last] show ?thesis
      by (simp add: le_min_big)
  qed
qed simp

lemma le_val_snoc_ge: "bs \<noteq> [] \<Longrightarrow> last bs \<noteq> 0 \<Longrightarrow> 256 ^ (length bs - 1) \<le> le_val bs"
proof (induction bs)
  case (Cons b bs)
  show ?case
  proof (cases "bs = []")
    case True
    with Cons.prems show ?thesis by (auto simp: unat_gt_0 Suc_le_eq)
  next
    case False
    with Cons have "256 ^ (length bs - 1) \<le> le_val bs" by simp
    then have "256 * 256 ^ (length bs - 1) \<le> 256 * le_val bs" by simp
    moreover have "256 * 256 ^ (length bs - 1) = (256 :: nat) ^ length bs"
      using False by (cases bs) simp_all
    ultimately show ?thesis by simp
  qed
qed simp

lemma length_le_min_bound: "n < 256 ^ k \<Longrightarrow> 0 < k \<Longrightarrow> length (le_min n) \<le> k"
proof (rule ccontr)
  assume n: "n < 256 ^ k" and k: "0 < k" and "\<not> length (le_min n) \<le> k"
  then have long: "k \<le> length (le_min n) - 1" by simp
  have "0 < n"
  proof (rule ccontr)
    assume "\<not> 0 < n"
    with k \<open>\<not> length (le_min n) \<le> k\<close> show False by (simp add: le_min_small)
  qed
  then have "256 ^ (length (le_min n) - 1) \<le> n"
    using le_val_snoc_ge [of "le_min n"] last_le_min_nonzero by simp
  moreover have "(256 :: nat) ^ k \<le> 256 ^ (length (le_min n) - 1)"
    using long by (intro power_increasing) simp_all
  ultimately show False using n by linarith
qed

section \<open>Unsigned buffers\<close>

text \<open>\<^verbatim>\<open>BN.fromBuffer\<close>; an empty buffer parses as 0.\<close>

datatype endian = Big | Little

definition fromBuffer :: "endian \<Rightarrow> bytes \<Rightarrow> nat" where
  "fromBuffer e buf = be_val (case e of Little \<Rightarrow> rev buf | Big \<Rightarrow> buf)"

lemma fromBuffer_simps [simp]:
  "fromBuffer Big buf = be_val buf"
  "fromBuffer Little buf = le_val buf"
  by (simp_all add: fromBuffer_def be_val_def)

text \<open>
  \<^verbatim>\<open>BN.trim\<close> slices from \<^verbatim>\<open>natlen - buf.length\<close>, which is 0 where it is called: it
  returns the buffer as it is.
\<close>

definition bn_trim :: "bytes \<Rightarrow> nat \<Rightarrow> bytes" where
  "bn_trim buf natlen = slice buf (natlen - length buf) (length buf)"

definition bn_pad :: "bytes \<Rightarrow> nat \<Rightarrow> nat \<Rightarrow> bytes" where
  "bn_pad buf natlen sz =
     (let rbuf = replicate (sz - length buf) 0 @ buf
      in replicate (sz - natlen) 0 @ drop (sz - natlen) rbuf)"

text \<open>\<^verbatim>\<open>BN.prototype.toBuffer\<close> on a non-negative number, with \<^verbatim>\<open>opts.size\<close> and \<^verbatim>\<open>opts.endian\<close>.\<close>

definition toBuffer :: "nat option \<Rightarrow> endian \<Rightarrow> nat \<Rightarrow> bytes" where
  "toBuffer sz e n =
     (let buf = rev (le_min n); natlen = length buf;
          buf' = (case sz of
              None \<Rightarrow> buf
            | Some s \<Rightarrow>
                if s = 0 \<or> natlen = s then buf
                else if natlen > s then bn_trim buf natlen
                else bn_pad buf natlen s)
      in case e of Little \<Rightarrow> rev buf' | Big \<Rightarrow> buf')"

lemma bn_pad_eq: "length buf = natlen \<Longrightarrow> natlen \<le> sz \<Longrightarrow>
    bn_pad buf natlen sz = replicate (sz - natlen) 0 @ buf"
  by (simp add: bn_pad_def)

lemma le_val_replicate_zero [simp]: "le_val (replicate k 0) = 0"
  by (induction k) simp_all

lemma bn_trim_eq [simp]: "length buf = natlen \<Longrightarrow> bn_trim buf natlen = buf"
  by (auto simp: bn_trim_def)

lemma toBuffer_value: "fromBuffer e (toBuffer sz e n) = n"
  by (cases e)
     (auto simp: toBuffer_def Let_def be_val_def bn_pad_eq le_val_append
        split: option.splits)

lemma length_toBuffer_Some:
  assumes "0 < s"
  shows "length (toBuffer (Some s) e n) = max s (length (le_min n))"
  using assms
  by (cases e) (auto simp: toBuffer_def Let_def bn_pad_eq)

lemma toBuffer_fixed: "0 < s \<Longrightarrow> n < 256 ^ s \<Longrightarrow> toBuffer (Some s) Big n = be_bytes s n"
proof -
  assume s: "0 < s" and n: "n < 256 ^ s"
  have "length (toBuffer (Some s) Big n) = s"
    using length_toBuffer_Some [OF s] length_le_min_bound [OF n s] by simp
  then have "be_bytes s (be_val (toBuffer (Some s) Big n)) = toBuffer (Some s) Big n"
    using be_bytes_be_val [of "toBuffer (Some s) Big n"] by simp
  then show ?thesis using toBuffer_value [of Big "Some s" n] by simp
qed

section \<open>Conversion to a JavaScript number\<close>

text \<open>
  \<^verbatim>\<open>BN.prototype.toNumber\<close> parses the decimal digits as a double: exact below \<open>2^53\<close>,
  rounded to the nearest representable integer (ties to even) above.
\<close>

fun double_shift :: "nat \<Rightarrow> nat" where
  "double_shift x = (if x < 2 ^ 53 then 0 else Suc (double_shift (x div 2)))"

declare double_shift.simps [simp del]

definition to_double :: "nat \<Rightarrow> nat" where
  "to_double x =
     (let k = double_shift x; q = x div 2 ^ k; r = x mod 2 ^ k; h = 2 ^ (k - 1)
      in if k = 0 then x
         else if r > h \<or> (r = h \<and> odd q) then (q + 1) * 2 ^ k else q * 2 ^ k)"

definition bn_toNumber :: "int \<Rightarrow> int" where
  "bn_toNumber n = (if n < 0 then - int (to_double (nat (- n))) else int (to_double (nat n)))"

lemma to_double_exact [simp]: "x < 2 ^ 53 \<Longrightarrow> to_double x = x"
  by (simp add: to_double_def double_shift.simps)

lemma bn_toNumber_exact: "\<bar>n\<bar> < 2 ^ 53 \<Longrightarrow> bn_toNumber n = n"
  by (auto simp: bn_toNumber_def nat_less_iff)

lemma double_shift_pos: "2 ^ 53 \<le> x \<Longrightarrow> 0 < double_shift x"
  by (subst double_shift.simps) simp

lemma double_shift_quotient: "2 ^ 53 \<le> x \<Longrightarrow> 2 ^ 52 \<le> x div 2 ^ double_shift x"
proof (induction x rule: double_shift.induct)
  case (1 x)
  show ?case
  proof (cases "x div 2 < 2 ^ 53")
    case True
    with "1.prems" have "double_shift x = Suc 0"
      by (simp add: double_shift.simps [of x] double_shift.simps [of "x div 2"])
    with "1.prems" show ?thesis by simp
  next
    case False
    with "1.prems" "1.IH" have "2 ^ 52 \<le> x div 2 div 2 ^ double_shift (x div 2)" by simp
    also have "x div 2 div 2 ^ double_shift (x div 2) = x div 2 ^ double_shift x"
      using "1.prems" by (simp add: double_shift.simps [of x] div_mult2_eq)
    finally show ?thesis .
  qed
qed

lemma to_double_ge: "2 ^ 53 \<le> x \<Longrightarrow> 2 ^ 53 \<le> to_double x"
proof -
  assume x: "2 ^ 53 \<le> x"
  let ?k = "double_shift x"
  have "2 ^ 52 \<le> x div 2 ^ ?k" using x by (rule double_shift_quotient)
  moreover have "2 \<le> (2 :: nat) ^ ?k"
    using double_shift_pos [OF x] by (cases ?k) simp_all
  ultimately have "2 ^ 52 * 2 \<le> x div 2 ^ ?k * 2 ^ ?k" by (rule mult_le_mono)
  then show ?thesis using double_shift_pos [OF x] by (auto simp: to_double_def Let_def)
qed

section \<open>Signed magnitude buffers\<close>

text \<open>
  \<^verbatim>\<open>BN.fromSM\<close>.  The sign bit is cleared in the buffer it reads; with the little endian
  option that buffer is a reversed copy, and the callers in scope all pass it.
\<close>

definition fromSM :: "endian \<Rightarrow> bytes \<Rightarrow> int" where
  "fromSM e buf =
     (if buf = [] then int (fromBuffer Big [0])
      else let buf1 = (case e of Little \<Rightarrow> rev buf | Big \<Rightarrow> buf)
           in if hd buf1 AND 0x80 \<noteq> 0
              then - int (fromBuffer Big (buf1[0 := hd buf1 AND 0x7f]))
              else int (fromBuffer Big buf1))"

definition toSMBigEndian :: "int \<Rightarrow> bytes" where
  "toSMBigEndian n =
     (let buf =
        (if n < 0
         then let m = toBuffer None Big (nat (- n))
              in if hd m AND 0x80 \<noteq> 0 then 0x80 # m else m[0 := hd m OR 0x80]
         else let m = toBuffer None Big (nat n)
              in if hd m AND 0x80 \<noteq> 0 then 0x00 # m else m)
      in if length buf = 1 \<and> hd buf = 0 then [] else buf)"

definition toSM :: "endian \<Rightarrow> int \<Rightarrow> bytes" where
  "toSM e n = (case e of Little \<Rightarrow> rev (toSMBigEndian n) | Big \<Rightarrow> toSMBigEndian n)"

section \<open>Script numbers\<close>

text \<open>The minimality test both decoders and \<^verbatim>\<open>_isMinimallyEncoded\<close> share.\<close>

definition nonminimal :: "bytes \<Rightarrow> bool" where
  "nonminimal buf \<longleftrightarrow> buf \<noteq> [] \<and> last buf AND 0x7f = 0 \<and>
     (length buf \<le> 1 \<or> buf ! (length buf - 2) AND 0x80 = 0)"

definition fromScriptNumBuffer :: "bytes \<Rightarrow> bool \<Rightarrow> nat \<Rightarrow> int res" where
  "fromScriptNumBuffer buf fRequireMinimal nMaxNumSize =
     rbind (checkArgument (length buf \<le> nMaxNumSize) ''script number overflow'') (\<lambda>_.
       if fRequireMinimal \<and> nonminimal buf
       then Inl (PlainError ''non-minimally encoded script number'')
       else Inr (fromSM Little buf))"

definition toScriptNumBuffer :: "int \<Rightarrow> bytes" where
  "toScriptNumBuffer n = toSM Little n"

section \<open>Script number lemmas\<close>

lemma fromSM_Little:
  assumes "bs \<noteq> []"
  shows "fromSM Little bs =
    (if last bs AND 0x80 \<noteq> 0 then - int (le_val (butlast bs @ [last bs AND 0x7f]))
     else int (le_val bs))"
proof -
  obtain xs x where bs: "bs = xs @ [x]" using assms by (metis append_butlast_last_id)
  show ?thesis unfolding bs by (simp add: fromSM_def be_val_def)
qed

lemma toScriptNumBuffer_0 [simp]: "toScriptNumBuffer 0 = []"
  by (simp add: toScriptNumBuffer_def toSM_def toSMBigEndian_def toBuffer_def le_min_small Let_def)

lemma hd_rev_le_min: "hd (rev (le_min n)) = last (le_min n)"
  by (simp add: hd_rev)

lemma rev_update_hd: "xs \<noteq> [] \<Longrightarrow> rev ((rev xs)[0 := y]) = butlast xs @ [y]"
  by (cases xs rule: rev_cases) simp_all

text \<open>The encoding by cases on the sign and on the top bit of the magnitude.\<close>

lemma toScriptNumBuffer_nonzero:
  assumes "n \<noteq> 0"
  defines "m \<equiv> le_min (nat \<bar>n\<bar>)"
  shows "toScriptNumBuffer n =
    (if last m AND 0x80 \<noteq> 0 then m @ [if n < 0 then 0x80 else 0]
     else if n < 0 then butlast m @ [last m OR 0x80] else m)"
proof -
  have nz: "last m \<noteq> 0" unfolding m_def using assms(1) by (intro last_le_min_nonzero) simp
  have ne: "m \<noteq> []" by (simp add: m_def)
  have z: "\<not> (length (rev m) = 1 \<and> hd (rev m) = 0)" using nz by (simp add: hd_rev)
  have or: "last m AND 0x80 = 0 \<Longrightarrow> last m OR 0x80 \<noteq> 0"
  proof -
    assume "last m AND 0x80 = 0"
    then have "unat (last m OR 0x80) = unat (last m) + 128" by (intro byte_or_80) (simp add: byte_and_80)
    then show "last m OR 0x80 \<noteq> 0" by auto
  qed
  show ?thesis
  proof (cases "n < 0")
    case True
    then have "le_min (nat (- n)) = m" by (simp add: m_def)
    with True or show ?thesis
      unfolding toScriptNumBuffer_def toSM_def toSMBigEndian_def toBuffer_def Let_def
      by (simp add: hd_rev ne rev_update_hd)
         (auto simp: hd_conv_nth ne)
  next
    case False
    then have "le_min (nat n) = m" by (simp add: m_def)
    with False z show ?thesis
      unfolding toScriptNumBuffer_def toSM_def toSMBigEndian_def toBuffer_def Let_def
      by (auto simp: hd_rev ne)
  qed
qed

lemma le_val_snoc: "le_val (xs @ [x]) = le_val xs + 256 ^ length xs * unat x"
  by (simp add: le_val_append)

lemma byte_or_and_7f: "b AND 0x80 = 0 \<Longrightarrow> (b OR 0x80) AND 0x7f = (b :: byte)"
  unfolding byte_and_80 by (rule byte_eq_iff_unat [THEN iffD2]) (simp add: byte_and_7f byte_or_80)

lemma byte_and_7f_nonzero: "x \<noteq> 0 \<Longrightarrow> x AND 0x80 = 0 \<Longrightarrow> x AND 0x7f \<noteq> (0 :: byte)"
proof -
  assume x: "x \<noteq> 0" and "x AND 0x80 = 0"
  then have "unat (x AND 0x7f) = unat x" by (simp add: byte_and_7f byte_and_80)
  moreover have "0 < unat x" using x by (simp add: unat_gt_0)
  ultimately show ?thesis by auto
qed

lemma byte_or_and_80: "b AND 0x80 = 0 \<Longrightarrow> (b OR 0x80) AND 0x80 \<noteq> (0 :: byte)"
  by (simp add: byte_and_80 byte_or_80)

lemma fromSM_toScriptNumBuffer [bytes_simps]: "fromSM Little (toScriptNumBuffer n) = n"
proof (cases "n = 0")
  case True
  then show ?thesis by (simp add: fromSM_def be_val_def)
next
  case False
  let ?m = "le_min (nat \<bar>n\<bar>)"
  have m: "butlast ?m @ [last ?m] = ?m" by simp
  show ?thesis
    using False by (auto simp: toScriptNumBuffer_nonzero fromSM_Little byte_or_and_7f
        byte_or_and_80 m le_val_append [of _ "[0]"])
qed

lemma length_toScriptNumBuffer:
  assumes "0 < k" and "\<bar>n\<bar> < 2 ^ (8 * k - 1)"
  shows "length (toScriptNumBuffer n) \<le> k"
proof (cases "n = 0")
  case False
  let ?a = "nat \<bar>n\<bar>" let ?m = "le_min ?a"
  have a: "?a < 2 ^ (8 * k - 1)" using assms(2) by (simp add: nat_less_iff)
  also have "(2 :: nat) ^ (8 * k - 1) \<le> 2 ^ (8 * k)" by (intro power_increasing) simp_all
  also have "(2 :: nat) ^ (8 * k) = 256 ^ k" by (simp add: power_mult)
  finally have len: "length ?m \<le> k" using assms(1) by (rule length_le_min_bound)
  have top: "length ?m < k" if "last ?m AND 0x80 \<noteq> 0"
  proof (rule ccontr)
    assume "\<not> length ?m < k"
    with len have lk: "length ?m = k" by simp
    obtain xs x where xs: "?m = xs @ [x]" by (cases ?m rule: rev_cases) simp_all
    have "128 * 256 ^ (k - 1) \<le> 256 ^ length xs * unat x"
      using that lk by (auto simp: xs byte_and_80 intro: mult_le_mono)
    also have "\<dots> \<le> le_val ?m" unfolding xs by (simp add: le_val_append)
    finally have "128 * 256 ^ (k - 1) \<le> ?a" by simp
    moreover have "128 * 256 ^ (k - 1) = (2 :: nat) ^ (8 * k - 1)"
    proof -
      have "8 * k - 1 = 7 + 8 * (k - 1)" using assms(1) by simp
      then have "(2 :: nat) ^ (8 * k - 1) = 2 ^ 7 * 2 ^ (8 * (k - 1))" by (simp add: power_add)
      then show ?thesis by (simp add: power_mult)
    qed
    ultimately show False using a by simp
  qed
  show ?thesis using False len top
    by (auto simp: toScriptNumBuffer_nonzero Suc_le_eq)
qed simp

lemma toScriptNumBuffer_minimal: "\<not> nonminimal (toScriptNumBuffer n)"
proof (cases "n = 0")
  case False
  let ?m = "le_min (nat \<bar>n\<bar>)"
  have nz: "last ?m \<noteq> 0" using False by (intro last_le_min_nonzero) simp
  obtain xs x where xs: "?m = xs @ [x]" by (cases ?m rule: rev_cases) simp_all
  have x: "x \<noteq> 0" using nz xs by simp
  then have "x AND 0x80 = 0 \<Longrightarrow> x AND 0x7f \<noteq> 0 \<and> (x OR 0x80) AND 0x7f \<noteq> 0"
    by (simp add: byte_or_and_7f byte_and_7f_nonzero)
  then show ?thesis
    using x unfolding toScriptNumBuffer_nonzero [OF False] xs
    by (auto simp: nonminimal_def nth_append)
qed (simp add: nonminimal_def)

lemma byte_low: "x AND 0x80 = 0 \<Longrightarrow> x AND 0x7f = (x :: byte)"
  unfolding byte_and_80 by (rule byte_eq_iff_unat [THEN iffD2]) (simp add: byte_and_7f)

lemma byte_high: "x AND 0x80 \<noteq> 0 \<Longrightarrow> (x AND 0x7f) OR 0x80 = (x :: byte)"
proof -
  assume "x AND 0x80 \<noteq> 0"
  then have ge: "128 \<le> unat x" by (simp add: byte_and_80)
  moreover have "unat x - 128 < 128" using unat_byte_less [of x] by linarith
  ultimately have "unat x mod 128 + 128 = unat x" by (simp add: le_mod_geq)
  then show ?thesis by (intro byte_eq_iff_unat [THEN iffD2]) (simp add: byte_and_7f byte_or_80)
qed

text \<open>A minimal buffer is the encoding of its value.\<close>

lemma toScriptNumBuffer_fromSM:
  assumes "\<not> nonminimal bs"
  shows "toScriptNumBuffer (fromSM Little bs) = bs"
proof (cases "bs = []")
  case True
  then show ?thesis by (simp add: fromSM_def be_val_def)
next
  case False
  then obtain xs x where bs: "bs = xs @ [x]" by (metis append_butlast_last_id)
  show ?thesis
  proof (cases "x AND 0x7f = 0")
    case True
    with assms have xs: "xs \<noteq> []" and last: "last xs AND 0x80 \<noteq> 0"
      by (auto simp: nonminimal_def bs nth_append last_conv_nth split: if_splits)
    then have lnz: "last xs \<noteq> 0" by auto
    have pos: "0 < le_val xs" using xs lnz by (rule le_val_pos)
    have min: "le_min (le_val xs) = xs" using xs lnz by (rule le_min_le_val)
    have x: "x = 0 \<or> x = 0x80"
    proof -
      have "unat x mod 128 = 0" using True by (simp flip: byte_and_7f)
      moreover have "unat x < 256" by simp
      ultimately have "unat x = 0 \<or> unat x = 128" by presburger
      then show ?thesis by (simp add: byte_eq_iff_unat)
    qed
    then show ?thesis
      using pos min last
      by (auto simp: bs fromSM_Little le_val_snoc toScriptNumBuffer_nonzero)
  next
    case False
    let ?y = "x AND 0x7f"
    have y80: "?y AND 0x80 = 0" by (simp add: byte_and_80 byte_and_7f)
    have low: "x AND 0x80 = 0 \<Longrightarrow> ?y = x" by (rule byte_low)
    have high: "x AND 0x80 \<noteq> 0 \<Longrightarrow> ?y OR 0x80 = x" by (rule byte_high)
    have min: "le_min (le_val (xs @ [?y])) = xs @ [?y]"
      using False by (intro le_min_le_val) simp_all
    have pos: "0 < le_val (xs @ [?y])" using False by (intro le_val_pos) simp_all
    show ?thesis
      using y80 low high min pos
      by (cases "x AND 0x80 = 0") (simp_all add: bs fromSM_Little toScriptNumBuffer_nonzero)
  qed
qed

lemma fromSM_Little_bound:
  assumes "0 < k" and "length bs \<le> k"
  shows "\<bar>fromSM Little bs\<bar> < 2 ^ (8 * k - 1)"
proof (cases "bs = []")
  case False
  then obtain xs x where bs: "bs = xs @ [x]" by (metis append_butlast_last_id)
  have low: "le_val (xs @ [y]) < 2 ^ (8 * k - 1)" if "unat y < 128" for y
  proof -
    have "le_val (xs @ [y]) < 256 ^ length xs * (unat y + 1)"
      using le_val_less [of xs] by (simp add: le_val_snoc algebra_simps)
    also have "\<dots> \<le> 256 ^ length xs * 128" using that by (intro mult_le_mono) simp_all
    also have "\<dots> = 2 ^ (8 * length xs + 7)" by (simp add: power_add power_mult)
    also have "\<dots> \<le> (2 :: nat) ^ (8 * k - 1)"
      using assms bs by (intro power_increasing) simp_all
    finally show ?thesis .
  qed
  have "int (le_val (xs @ [y])) < 2 ^ (8 * k - 1)" if "unat y < 128" for y
    using low [OF that] by (metis of_nat_less_iff of_nat_numeral of_nat_power)
  then show ?thesis
    by (auto simp: bs fromSM_Little byte_and_7f byte_and_80)
qed (simp add: fromSM_def be_val_def)

text \<open>The outcomes of the decoder: the length check, the minimality check, the value.\<close>

lemma fromScriptNumBuffer_cases [result_simps]:
  "fromScriptNumBuffer bs m k =
    (if length bs > k then Inl (InvalidArgument ''script number overflow'')
     else if m \<and> nonminimal bs then Inl (PlainError ''non-minimally encoded script number'')
     else Inr (fromSM Little bs))"
  by (simp add: fromScriptNumBuffer_def checkArgument_def)

section \<open>Properties\<close>

text \<open>Script numbers round-trip: every integer whose magnitude fits in \<open>8k - 1\<close> bits is
  encoded by \<^verbatim>\<open>toScriptNumBuffer\<close> in at most \<open>k\<close> bytes, and \<^verbatim>\<open>fromScriptNumBuffer\<close> with the
  size limit \<open>k\<close> reads it back, whether or not it insists on minimal encodings.\<close>

theorem scriptnum_roundtrip:
  assumes "0 < k" and "\<bar>n\<bar> < 2 ^ (8 * k - 1)"
  shows "length (toScriptNumBuffer n) \<le> k \<and>
    fromScriptNumBuffer (toScriptNumBuffer n) fRequireMinimal k = Inr n"
  using length_toScriptNumBuffer [OF assms] toScriptNumBuffer_minimal
  by (auto simp: fromScriptNumBuffer_cases fromSM_toScriptNumBuffer)

theorem scriptnum_roundtrip_witness:
  "fromScriptNumBuffer (toScriptNumBuffer (-255)) True 4 = Inr (-255) \<and>
   length (toScriptNumBuffer (-255)) \<le> 4"
  using scriptnum_roundtrip [of 4 "-255" True] by simp

text \<open>With minimal encodings required, decoding is injective and bounded: a buffer that
  decodes to \<open>n\<close> is the one buffer \<^verbatim>\<open>toScriptNumBuffer\<close> produces for \<open>n\<close>, so no two
  different stack elements denote the same number, and \<open>n\<close> stays in the signed magnitude
  range of the size limit.\<close>

theorem scriptnum_canonical:
  assumes "fromScriptNumBuffer bs True k = Inr n" and "0 < k"
  shows "toScriptNumBuffer n = bs \<and> \<bar>n\<bar> < 2 ^ (8 * k - 1)"
  using assms fromSM_Little_bound [of k bs]
  by (auto simp: fromScriptNumBuffer_cases toScriptNumBuffer_fromSM split: if_splits)

theorem scriptnum_canonical_witness:
  "toScriptNumBuffer 128 = [0x80, 0x00] \<and> \<bar>128 :: int\<bar> < 2 ^ (8 * 4 - 1)"
proof -
  have "fromScriptNumBuffer [0x80, 0x00] True 4 = Inr 128"
    by (simp add: fromScriptNumBuffer_cases nonminimal_def fromSM_def be_val_def)
  then show ?thesis using scriptnum_canonical [of "[0x80, 0x00]" 4 128] by simp
qed

end
