(* ===== verification/BufferIO.thy ===== *)
theory BufferIO
  imports BigNum
begin

text \<open>
  \<^verbatim>\<open>lib/encoding/bufferreader.js\<close>, \<^verbatim>\<open>lib/encoding/bufferwriter.js\<close> and
  \<^verbatim>\<open>lib/encoding/varint.js\<close>: a reader is a buffer with a position, a writer a list of
  buffers with their total length.  Numbers are naturals (the callers in scope pass no
  negative or fractional ones); the range and bounds errors of Node's accessors are
  \<open>RangeErr\<close>.  The locale \<open>stream_codec\<close> is the contract between a field's writer and its
  reader; every field codec below is an interpretation of it.
\<close>

section \<open>BufferReader\<close>

record reader =
  rbuf :: bytes
  rpos :: nat

definition eof :: "reader \<Rightarrow> bool" where
  "eof r \<longleftrightarrow> rpos r \<ge> length (rbuf r)"

definition read :: "nat \<Rightarrow> reader \<Rightarrow> bytes \<times> reader" where
  "read len r = (slice (rbuf r) (rpos r) (rpos r + len), r\<lparr>rpos := rpos r + len\<rparr>)"

definition readAll :: "reader \<Rightarrow> bytes \<times> reader" where
  "readAll r = (slice (rbuf r) (rpos r) (length (rbuf r)), r\<lparr>rpos := length (rbuf r)\<rparr>)"

text \<open>Node's \<^verbatim>\<open>readUIntLE\<close> and \<^verbatim>\<open>readUIntBE\<close>: all \<open>k\<close> bytes have to be inside the buffer.\<close>

definition node_readUIntLE :: "nat \<Rightarrow> bytes \<Rightarrow> nat \<Rightarrow> nat res" where
  "node_readUIntLE k buf pos =
     (if pos + k \<le> length buf then Inr (le_val (slice buf pos (pos + k))) else Inl RangeErr)"

definition node_readUIntBE :: "nat \<Rightarrow> bytes \<Rightarrow> nat \<Rightarrow> nat res" where
  "node_readUIntBE k buf pos =
     (if pos + k \<le> length buf then Inr (be_val (slice buf pos (pos + k))) else Inl RangeErr)"

definition advance :: "nat \<Rightarrow> reader \<Rightarrow> 'a \<Rightarrow> 'a \<times> reader" where
  "advance k r v = (v, r\<lparr>rpos := rpos r + k\<rparr>)"

definition readUInt8 :: "reader \<Rightarrow> (nat \<times> reader) res" where
  "readUInt8 r = rmap (advance 1 r) (node_readUIntLE 1 (rbuf r) (rpos r))"

definition readUInt16BE :: "reader \<Rightarrow> (nat \<times> reader) res" where
  "readUInt16BE r = rmap (advance 2 r) (node_readUIntBE 2 (rbuf r) (rpos r))"

definition readUInt16LE :: "reader \<Rightarrow> (nat \<times> reader) res" where
  "readUInt16LE r = rmap (advance 2 r) (node_readUIntLE 2 (rbuf r) (rpos r))"

definition readUInt32BE :: "reader \<Rightarrow> (nat \<times> reader) res" where
  "readUInt32BE r = rmap (advance 4 r) (node_readUIntBE 4 (rbuf r) (rpos r))"

definition readUInt32LE :: "reader \<Rightarrow> (nat \<times> reader) res" where
  "readUInt32LE r = rmap (advance 4 r) (node_readUIntLE 4 (rbuf r) (rpos r))"

definition readUInt48LE :: "reader \<Rightarrow> (nat \<times> reader) res" where
  "readUInt48LE r = rmap (advance 6 r) (node_readUIntLE 6 (rbuf r) (rpos r))"

definition readUInt56LEBN :: "reader \<Rightarrow> nat \<times> reader" where
  "readUInt56LEBN r =
     advance 7 r (fromBuffer Little (slice (rbuf r) (rpos r) (rpos r + 7)))"

definition readInt32LE :: "reader \<Rightarrow> (int \<times> reader) res" where
  "readInt32LE r =
     rmap (\<lambda>v. advance 4 r (to_int32 (int v))) (node_readUIntLE 4 (rbuf r) (rpos r))"

definition readUInt64BEBN :: "reader \<Rightarrow> nat \<times> reader" where
  "readUInt64BEBN r =
     advance 8 r (fromBuffer Big (slice (rbuf r) (rpos r) (rpos r + 8)))"

text \<open>The two words are combined in double arithmetic only to choose the constructor.\<close>

definition readUInt64LEBN :: "reader \<Rightarrow> (nat \<times> reader) res" where
  "readUInt64LEBN r =
     rbind (node_readUIntLE 4 (rbuf r) (rpos r)) (\<lambda>second.
     rbind (node_readUIntLE 4 (rbuf r) (rpos r + 4)) (\<lambda>first.
       let combined = to_double (first * 0x100000000 + second);
           bn = (if combined \<le> 0x1fffffffffffff then combined
                 else le_val (slice (rbuf r) (rpos r) (rpos r + 8)))
       in Inr (advance 8 r bn)))"

definition readVarintNum :: "reader \<Rightarrow> (nat \<times> reader) res" where
  "readVarintNum r =
     rbind (readUInt8 r) (\<lambda>(first, r1).
       if first = 0xFD then readUInt16LE r1
       else if first = 0xFE then readUInt32LE r1
       else if first = 0xFF then
         rbind (readUInt64LEBN r1) (\<lambda>(bn, r2).
           let n = to_double bn
           in if n \<le> 2 ^ 53 then Inr (n, r2)
              else Inl (PlainError ''number too large to retain precision - use readVarintBN''))
       else Inr (first, r1))"

definition readVarLengthBuffer :: "reader \<Rightarrow> (bytes \<times> reader) res" where
  "readVarLengthBuffer r =
     rbind (readVarintNum r) (\<lambda>(len, r1).
       let (buf, r2) = read len r1
       in rbind (checkState (length buf = len) ''Invalid length while reading varlength buffer'')
            (\<lambda>_. Inr (buf, r2)))"

definition readVarintBuf :: "reader \<Rightarrow> (bytes \<times> reader) res" where
  "readVarintBuf r =
     rbind (node_readUIntLE 1 (rbuf r) (rpos r)) (\<lambda>first.
       if first = 0xFD then Inr (read (1 + 2) r)
       else if first = 0xFE then Inr (read (1 + 4) r)
       else if first = 0xFF then Inr (read (1 + 8) r)
       else Inr (read 1 r))"

definition readVarintBN :: "reader \<Rightarrow> (nat \<times> reader) res" where
  "readVarintBN r =
     rbind (readUInt8 r) (\<lambda>(first, r1).
       if first = 0xFD then readUInt16LE r1
       else if first = 0xFE then readUInt32LE r1
       else if first = 0xFF then readUInt64LEBN r1
       else Inr (first, r1))"

definition reader_reverse :: "reader \<Rightarrow> reader" where
  "reader_reverse r = r\<lparr>rbuf := rev (rbuf r)\<rparr>"

definition readReverse :: "nat option \<Rightarrow> reader \<Rightarrow> bytes \<times> reader" where
  "readReverse len r =
     (let n = (case len of None \<Rightarrow> length (rbuf r) | Some n \<Rightarrow> n)
      in (rev (slice (rbuf r) (rpos r) (rpos r + n)), r\<lparr>rpos := rpos r + n\<rparr>))"

section \<open>BufferWriter\<close>

record writer =
  bufs :: "bytes list"
  bufLen :: nat

definition new_writer :: writer where
  "new_writer = \<lparr>bufs = [], bufLen = 0\<rparr>"

text \<open>\<^verbatim>\<open>Buffer.concat(list, totalLength)\<close> truncates or zero-fills to the total length.\<close>

definition node_concat :: "bytes list \<Rightarrow> nat \<Rightarrow> bytes" where
  "node_concat bs n = take n (concat bs) @ replicate (n - length (concat bs)) 0"

definition writer_concat :: "writer \<Rightarrow> bytes" where
  "writer_concat w = node_concat (bufs w) (bufLen w)"

definition writeBuf :: "writer \<Rightarrow> bytes \<Rightarrow> writer" where
  "writeBuf w buf = w\<lparr>bufs := bufs w @ [buf], bufLen := bufLen w + length buf\<rparr>"

definition writeReverse :: "writer \<Rightarrow> bytes \<Rightarrow> writer" where
  "writeReverse w buf = w\<lparr>bufs := bufs w @ [rev buf], bufLen := bufLen w + length buf\<rparr>"

definition node_writeUIntLE :: "nat \<Rightarrow> nat \<Rightarrow> bytes res" where
  "node_writeUIntLE k n = (if n < 256 ^ k then Inr (le_bytes k n) else Inl RangeErr)"

definition node_writeUIntBE :: "nat \<Rightarrow> nat \<Rightarrow> bytes res" where
  "node_writeUIntBE k n = (if n < 256 ^ k then Inr (be_bytes k n) else Inl RangeErr)"

definition node_writeInt32LE :: "int \<Rightarrow> bytes res" where
  "node_writeInt32LE n =
     (if - (2 ^ 31) \<le> n \<and> n < 2 ^ 31 then Inr (le_bytes 4 (nat (n mod 2 ^ 32))) else Inl RangeErr)"

definition writeUInt8 :: "writer \<Rightarrow> nat \<Rightarrow> writer res" where
  "writeUInt8 w n = rmap (writeBuf w) (node_writeUIntLE 1 n)"

definition writeUInt16BE :: "writer \<Rightarrow> nat \<Rightarrow> writer res" where
  "writeUInt16BE w n = rmap (writeBuf w) (node_writeUIntBE 2 n)"

definition writeUInt16LE :: "writer \<Rightarrow> nat \<Rightarrow> writer res" where
  "writeUInt16LE w n = rmap (writeBuf w) (node_writeUIntLE 2 n)"

definition writeUInt32BE :: "writer \<Rightarrow> nat \<Rightarrow> writer res" where
  "writeUInt32BE w n = rmap (writeBuf w) (node_writeUIntBE 4 n)"

definition writeInt32LE :: "writer \<Rightarrow> int \<Rightarrow> writer res" where
  "writeInt32LE w n = rmap (writeBuf w) (node_writeInt32LE n)"

definition writeUInt32LE :: "writer \<Rightarrow> nat \<Rightarrow> writer res" where
  "writeUInt32LE w n = rmap (writeBuf w) (node_writeUIntLE 4 n)"

definition writeUInt48LE :: "writer \<Rightarrow> nat \<Rightarrow> writer res" where
  "writeUInt48LE w n = rmap (writeBuf w) (node_writeUIntLE 6 n)"

definition writeUInt64BEBN :: "writer \<Rightarrow> nat \<Rightarrow> writer" where
  "writeUInt64BEBN w bn = writeBuf w (toBuffer (Some 8) Big bn)"

definition writeUInt56LEBN :: "writer \<Rightarrow> nat \<Rightarrow> writer" where
  "writeUInt56LEBN w bn = writeReverse w (toBuffer (Some 7) Big bn)"

definition writeUInt64LEBN :: "writer \<Rightarrow> nat \<Rightarrow> writer" where
  "writeUInt64LEBN w bn = writeReverse w (toBuffer (Some 8) Big bn)"

text \<open>\<^verbatim>\<open>Math.floor(n / 0x100000000)\<close> is exact: dividing a double by \<open>2^32\<close> only moves the exponent.\<close>

definition varintBufNum :: "nat \<Rightarrow> bytes res" where
  "varintBufNum n =
     (if n < 253 then node_writeUIntLE 1 n
      else if n < 0x10000 then rmap (\<lambda>b. 253 # b) (node_writeUIntLE 2 n)
      else if n < 0x100000000 then rmap (\<lambda>b. 254 # b) (node_writeUIntLE 4 n)
      else rbind (node_writeInt32LE (js_and (int n) (-1))) (\<lambda>lo.
           rmap (\<lambda>hi. 255 # lo @ hi) (node_writeUIntLE 4 (n div 0x100000000))))"

definition writeVarintNum :: "writer \<Rightarrow> nat \<Rightarrow> writer res" where
  "writeVarintNum w n = rmap (writeBuf w) (varintBufNum n)"

definition varintBufBN :: "nat \<Rightarrow> bytes res" where
  "varintBufBN bn =
     (let n = to_double bn
      in if n < 253 then node_writeUIntLE 1 n
         else if n < 0x10000 then rmap (\<lambda>b. 253 # b) (node_writeUIntLE 2 n)
         else if n < 0x100000000 then rmap (\<lambda>b. 254 # b) (node_writeUIntLE 4 n)
         else rmap (\<lambda>bw. writer_concat (writeUInt64LEBN bw bn)) (writeUInt8 new_writer 255))"

definition writeVarintBN :: "writer \<Rightarrow> nat \<Rightarrow> writer res" where
  "writeVarintBN w bn = rmap (writeBuf w) (varintBufBN bn)"

section \<open>Varint\<close>

text \<open>A \<^verbatim>\<open>Varint\<close> object holds the encoded buffer.\<close>

definition varint_fromBufferReader :: "reader \<Rightarrow> (bytes \<times> reader) res" where
  "varint_fromBufferReader br = readVarintBuf br"

definition varint_fromBN :: "nat \<Rightarrow> bytes res" where
  "varint_fromBN bn = rmap writer_concat (writeVarintBN new_writer bn)"

definition varint_fromNumber :: "nat \<Rightarrow> bytes res" where
  "varint_fromNumber num = rmap writer_concat (writeVarintNum new_writer num)"

definition varint_toBN :: "bytes \<Rightarrow> nat res" where
  "varint_toBN buf = rmap fst (readVarintBN \<lparr>rbuf = buf, rpos = 0\<rparr>)"

definition varint_toNumber :: "bytes \<Rightarrow> nat res" where
  "varint_toNumber buf = rmap fst (readVarintNum \<lparr>rbuf = buf, rpos = 0\<rparr>)"

section \<open>The contract of a field codec\<close>

text \<open>Reading the same field a fixed number of times, as the loops over inputs, outputs and hashes do.\<close>

primrec read_n :: "nat \<Rightarrow> (reader \<Rightarrow> ('a \<times> reader) res) \<Rightarrow> reader \<Rightarrow> ('a list \<times> reader) res" where
  "read_n 0 get r = Inr ([], r)"
| "read_n (Suc n) get r =
     rbind (get r) (\<lambda>(x, r1). rbind (read_n n get r1) (\<lambda>(xs, r2). Inr (x # xs, r2)))"

abbreviation rd :: "bytes \<Rightarrow> nat \<Rightarrow> reader" where
  "rd buf pos \<equiv> \<lparr>rbuf = buf, rpos = pos\<rparr>"

text \<open>
  \<open>put x\<close> are the bytes a writer emits for \<open>x\<close>; the reader placed before them returns
  \<open>x\<close> and stops right after them, whatever surrounds them.
\<close>

locale stream_codec =
  fixes put :: "'a \<Rightarrow> bytes"
    and get :: "reader \<Rightarrow> ('a \<times> reader) res"
    and valid :: "'a \<Rightarrow> bool"
  assumes get_put: "valid x \<Longrightarrow>
    get (rd (pre @ put x @ post) (length pre)) =
      Inr (x, rd (pre @ put x @ post) (length pre + length (put x)))"
begin

lemma get_put_start: "valid x \<Longrightarrow> get (rd (put x @ post) 0) = Inr (x, rd (put x @ post) (length (put x)))"
  using get_put [of x "[]" post] by simp

lemma put_prefix_free:
  assumes "valid x" and "valid y" and "put x @ u = put y @ v"
  shows "x = y \<and> u = v"
proof -
  from get_put_start [OF assms(1), of u] get_put_start [OF assms(2), of v] assms(3)
  have "x = y" by simp
  with assms(3) show ?thesis by simp
qed

lemma put_inj: "valid x \<Longrightarrow> valid y \<Longrightarrow> put x = put y \<Longrightarrow> x = y"
  using put_prefix_free [of x y "[]" "[]"] by simp

lemma read_n_put:
  "list_all valid xs \<Longrightarrow>
    read_n (length xs) get (rd (pre @ concat (map put xs) @ post) (length pre)) =
      Inr (xs, rd (pre @ concat (map put xs) @ post) (length pre + length (concat (map put xs))))"
proof (induction xs arbitrary: pre)
  case (Cons x xs)
  let ?rest = "concat (map put xs) @ post"
  have "get (rd (pre @ put x @ ?rest) (length pre)) =
      Inr (x, rd (pre @ put x @ ?rest) (length pre + length (put x)))"
    using Cons.prems by (intro get_put) simp
  moreover have "read_n (length xs) get (rd ((pre @ put x) @ ?rest) (length (pre @ put x))) =
      Inr (xs, rd ((pre @ put x) @ ?rest) (length (pre @ put x) + length (concat (map put xs))))"
    using Cons.prems by (intro Cons.IH) simp
  ultimately show ?case by (simp add: add.assoc)
qed simp

end

section \<open>Fixed width fields\<close>

lemma slice_at [bytes_simps]:
  "slice (pre @ xs @ post) (length pre) (length pre + length xs) = xs"
  by (rule slice_append_exact)

lemma node_readUIntLE_at:
  "length xs = k \<Longrightarrow> node_readUIntLE k (pre @ xs @ post) (length pre) = Inr (le_val xs)"
  using slice_at [of pre xs post] by (auto simp: node_readUIntLE_def)

lemma node_readUIntBE_at:
  "length xs = k \<Longrightarrow> node_readUIntBE k (pre @ xs @ post) (length pre) = Inr (be_val xs)"
  using slice_at [of pre xs post] by (auto simp: node_readUIntBE_def)

lemma node_readUIntLE_fail [simp]:
  "length buf < pos + k \<Longrightarrow> node_readUIntLE k buf pos = Inl RangeErr"
  by (simp add: node_readUIntLE_def)

lemma advance_rd [simp]: "advance k (rd b p) v = (v, rd b (p + k))"
  by (simp add: advance_def)

interpretation u8: stream_codec "le_bytes 1" readUInt8 "\<lambda>n. n < 256"
proof unfold_locales
  fix x :: nat and pre post
  assume "x < 256"
  with node_readUIntLE_at [of "[word_of_nat x]" 1 pre post]
  show "readUInt8 (rd (pre @ le_bytes 1 x @ post) (length pre)) =
      Inr (x, rd (pre @ le_bytes 1 x @ post) (length pre + length (le_bytes 1 x)))"
    by (simp add: readUInt8_def unat_byte_of_nat)
qed

interpretation u16le: stream_codec "le_bytes 2" readUInt16LE "\<lambda>n. n < 2 ^ 16"
  by unfold_locales (simp add: readUInt16LE_def node_readUIntLE_at le_val_le_bytes)

interpretation u16be: stream_codec "be_bytes 2" readUInt16BE "\<lambda>n. n < 2 ^ 16"
  by unfold_locales (simp add: readUInt16BE_def node_readUIntBE_at be_val_be_bytes)

interpretation u32le: stream_codec "le_bytes 4" readUInt32LE "\<lambda>n. n < 2 ^ 32"
  by unfold_locales (simp add: readUInt32LE_def node_readUIntLE_at le_val_le_bytes)

interpretation u32be: stream_codec "be_bytes 4" readUInt32BE "\<lambda>n. n < 2 ^ 32"
  by unfold_locales (simp add: readUInt32BE_def node_readUIntBE_at be_val_be_bytes)

interpretation u48le: stream_codec "le_bytes 6" readUInt48LE "\<lambda>n. n < 2 ^ 48"
  by unfold_locales (simp add: readUInt48LE_def node_readUIntLE_at le_val_le_bytes)

lemma to_int32_mod: "- (2 ^ 31) \<le> n \<Longrightarrow> n < 2 ^ 31 \<Longrightarrow> to_int32 (n mod 2 ^ 32) = n"
proof -
  assume n: "- (2 ^ 31) \<le> n" "n < 2 ^ 31"
  have "to_int32 (n mod 2 ^ 32) = to_int32 n"
    unfolding to_int32_def take_bit_eq_mod [symmetric]
    by (simp only: signed_take_bit_take_bit) simp
  with to_int32_id [OF n] show ?thesis by simp
qed

interpretation i32le: stream_codec "\<lambda>n. le_bytes 4 (nat (n mod 2 ^ 32))" readInt32LE
    "\<lambda>n. - (2 ^ 31) \<le> n \<and> n < 2 ^ 31"
proof unfold_locales
  fix x :: int and pre post
  assume x: "- (2 ^ 31) \<le> x \<and> x < 2 ^ 31"
  have "nat (x mod 2 ^ 32) < 256 ^ 4" by (simp add: nat_less_iff)
  then have "le_val (le_bytes 4 (nat (x mod 2 ^ 32))) = nat (x mod 2 ^ 32)" by (rule le_val_le_bytes)
  with x show "readInt32LE (rd (pre @ le_bytes 4 (nat (x mod 2 ^ 32)) @ post) (length pre)) =
      Inr (x, rd (pre @ le_bytes 4 (nat (x mod 2 ^ 32)) @ post)
        (length pre + length (le_bytes 4 (nat (x mod 2 ^ 32)))))"
    using to_int32_mod [of x] by (simp add: readInt32LE_def node_readUIntLE_at)
qed

text \<open>The 64-bit read: both constructors give the value of the eight bytes.\<close>

lemma readUInt64LEBN_at:
  assumes "length xs = 8"
  shows "readUInt64LEBN (rd (pre @ xs @ post) (length pre)) =
    Inr (le_val xs, rd (pre @ xs @ post) (length pre + 8))"
proof -
  let ?lo = "take 4 xs" and ?hi = "drop 4 xs"
  have xs: "xs = ?lo @ ?hi" and lo: "length ?lo = 4" and hi: "length ?hi = 4"
    using assms by simp_all
  have l1: "node_readUIntLE 4 (pre @ xs @ post) (length pre) = Inr (le_val ?lo)"
    using node_readUIntLE_at [of ?lo 4 pre "?hi @ post"] lo
    by (metis append.assoc append_take_drop_id)
  have l2: "node_readUIntLE 4 (pre @ xs @ post) (length pre + 4) = Inr (le_val ?hi)"
    using node_readUIntLE_at [of ?hi 4 "pre @ ?lo" post] lo hi
    by (metis append.assoc append_take_drop_id length_append)
  have val: "le_val ?hi * 0x100000000 + le_val ?lo = le_val xs"
    using le_val_append [of ?lo ?hi] lo by simp
  have sl: "slice (pre @ xs @ post) (length pre) (length pre + 8) = xs"
    using slice_at [of pre xs post] assms by simp
  have "(if to_double (le_val xs) \<le> 0x1fffffffffffff then to_double (le_val xs) else le_val xs) = le_val xs"
    using to_double_ge [of "le_val xs"] to_double_exact [of "le_val xs"]
    by (cases "le_val xs < 2 ^ 53") (auto simp: not_less)
  then show ?thesis
    unfolding readUInt64LEBN_def using l1 l2
    by (auto simp: Let_def val sl split: if_splits)
qed

interpretation u64le: stream_codec "le_bytes 8" readUInt64LEBN "\<lambda>n. n < 2 ^ 64"
  by unfold_locales (simp add: readUInt64LEBN_at le_val_le_bytes)

section \<open>Variable length integers\<close>

text \<open>The encoding as one expression; the code's four branches compute it below \<open>2^64\<close>.\<close>

definition varint_bytes :: "nat \<Rightarrow> bytes" where
  "varint_bytes n =
     (if n < 253 then [word_of_nat n]
      else if n < 0x10000 then 253 # le_bytes 2 n
      else if n < 0x100000000 then 254 # le_bytes 4 n
      else 255 # le_bytes 8 n)"

lemma le_bytes_add: "le_bytes (j + k) v = le_bytes j v @ le_bytes k (v div 256 ^ j)"
  by (induction j arbitrary: v) (simp_all add: div_mult2_eq)

lemma le_bytes_mod: "256 ^ k dvd m \<Longrightarrow> le_bytes k (v mod m) = le_bytes k v"
proof -
  assume "256 ^ k dvd m"
  then have "v mod m mod 256 ^ k = v mod 256 ^ k" by (rule mod_mod_cancel)
  then show ?thesis by (intro le_val_inj) (simp_all add: le_val_le_bytes_mod)
qed

lemma node_writeInt32LE_and:
  "node_writeInt32LE (js_and (int n) (-1)) = Inr (le_bytes 4 n)"
proof -
  have "js_and (int n) (-1) = to_int32 (int n)"
    by (simp add: js_and_def to_int32_def)
  moreover have "to_int32 (int n) mod 2 ^ 32 = int n mod 2 ^ 32"
    unfolding to_int32_def take_bit_eq_mod [symmetric]
    by (simp only: take_bit_signed_take_bit)
  moreover have "nat (int n mod 2 ^ 32) = n mod 2 ^ 32"
    by (metis nat_int of_nat_numeral of_nat_power zmod_int)
  moreover have "le_bytes 4 (n mod 2 ^ 32) = le_bytes 4 n"
    by (rule le_bytes_mod) simp
  ultimately show ?thesis
    using to_int32_range [of "int n"] by (simp add: node_writeInt32LE_def)
qed

lemma le_bytes_1 [simp]: "le_bytes (Suc 0) v = [word_of_nat v]"
  by simp

lemma varintBufNum_eq:
  assumes "n < 2 ^ 64"
  shows "varintBufNum n = Inr (varint_bytes n)"
proof -
  have "le_bytes 8 n = le_bytes 4 n @ le_bytes 4 (n div 0x100000000)"
    using le_bytes_add [of 4 4 n] by simp
  moreover have "n div 0x100000000 < 0x100000000"
    using assms by (simp add: div_less_iff_less_mult)
  ultimately show ?thesis
    by (auto simp: varintBufNum_def varint_bytes_def node_writeUIntLE_def node_writeInt32LE_and)
qed

text \<open>The writer's invariant: the recorded length is the length of what was written.\<close>

definition writer_ok :: "writer \<Rightarrow> bool" where
  "writer_ok w \<longleftrightarrow> bufLen w = length (concat (bufs w))"

lemma writer_ok_new [simp]: "writer_ok new_writer"
  by (simp add: writer_ok_def new_writer_def)

lemma writer_concat_new [simp]: "writer_concat new_writer = []"
  by (simp add: writer_concat_def new_writer_def node_concat_def)

lemma writer_ok_writeBuf [simp]: "writer_ok w \<Longrightarrow> writer_ok (writeBuf w b)"
  by (simp add: writer_ok_def writeBuf_def)

lemma writer_ok_writeReverse [simp]: "writer_ok w \<Longrightarrow> writer_ok (writeReverse w b)"
  by (simp add: writer_ok_def writeReverse_def)

lemma writer_concat_ok: "writer_ok w \<Longrightarrow> writer_concat w = concat (bufs w)"
  by (simp add: writer_ok_def writer_concat_def node_concat_def)

lemma writer_concat_writeBuf [simp]:
  "writer_ok w \<Longrightarrow> writer_concat (writeBuf w b) = writer_concat w @ b"
  by (simp add: writer_concat_ok) (simp add: writeBuf_def)

lemma writer_concat_writeReverse [simp]:
  "writer_ok w \<Longrightarrow> writer_concat (writeReverse w b) = writer_concat w @ rev b"
  by (simp add: writer_concat_ok) (simp add: writeReverse_def)

lemma writeUInt64LEBN_bytes:
  assumes "bn < 2 ^ 64"
  shows "writeUInt64LEBN w bn = writeReverse w (be_bytes 8 bn)"
  using assms toBuffer_fixed [of 8 bn] by (simp add: writeUInt64LEBN_def)

lemma varintBufBN_eq:
  assumes "bn < 2 ^ 64"
  shows "varintBufBN bn = Inr (varint_bytes bn)"
proof (cases "bn < 2 ^ 53")
  case True
  have "writer_ok (writeBuf new_writer [255])" by simp
  with True assms show ?thesis
    by (auto simp: varintBufBN_def varint_bytes_def node_writeUIntLE_def writeUInt8_def
        writeUInt64LEBN_bytes be_bytes_def Let_def)
next
  case False
  then have "2 ^ 53 \<le> to_double bn" by (intro to_double_ge) simp
  moreover have "writer_ok (writeBuf new_writer [255])" by simp
  ultimately show ?thesis using False assms
    by (auto simp: varintBufBN_def varint_bytes_def node_writeUIntLE_def writeUInt8_def
        writeUInt64LEBN_bytes be_bytes_def Let_def)
qed

lemma length_varint_bytes: "1 \<le> length (varint_bytes n) \<and> length (varint_bytes n) \<le> 9"
  by (simp add: varint_bytes_def)

lemma unat_word_of_nat_byte: "n < 256 \<Longrightarrow> unat (word_of_nat n :: byte) = n"
  by (simp add: unat_byte_of_nat)

lemma readUInt8_at: "readUInt8 (rd (pre @ b # post) (length pre)) = Inr (unat b, rd (pre @ b # post) (Suc (length pre)))"
  using u8.get_put [of "unat b" pre post] by simp

text \<open>A reader placed after a one byte tag.\<close>

lemma after_tag: "rd (pre @ t # body) (Suc (length pre)) = rd ((pre @ [t]) @ body) (length (pre @ [t]))"
  by simp

lemma tagged_reads:
  "v < 2 ^ 16 \<Longrightarrow> readUInt16LE (rd (pre @ t # le_bytes 2 v @ post) (Suc (length pre))) =
     Inr (v, rd (pre @ t # le_bytes 2 v @ post) (length pre + 3))"
  "v < 2 ^ 32 \<Longrightarrow> readUInt32LE (rd (pre @ t # le_bytes 4 v @ post) (Suc (length pre))) =
     Inr (v, rd (pre @ t # le_bytes 4 v @ post) (length pre + 5))"
  "v < 2 ^ 64 \<Longrightarrow> readUInt64LEBN (rd (pre @ t # le_bytes 8 v @ post) (Suc (length pre))) =
     Inr (v, rd (pre @ t # le_bytes 8 v @ post) (length pre + 9))"
  using u16le.get_put [of v "pre @ [t]" post] u32le.get_put [of v "pre @ [t]" post]
    u64le.get_put [of v "pre @ [t]" post]
  by simp_all

interpretation varint_bn: stream_codec varint_bytes readVarintBN "\<lambda>n. n < 2 ^ 64"
  by unfold_locales
     (auto simp: readVarintBN_def varint_bytes_def readUInt8_at tagged_reads unat_word_of_nat_byte
        simp del: le_bytes.simps)

lemma readVarintNum_at:
  assumes "n < 2 ^ 64"
  shows "readVarintNum (rd (pre @ varint_bytes n @ post) (length pre)) =
    (if n < 2 ^ 32 \<or> to_double n \<le> 2 ^ 53
     then Inr (to_double n, rd (pre @ varint_bytes n @ post) (length pre + length (varint_bytes n)))
     else Inl (PlainError ''number too large to retain precision - use readVarintBN''))"
  using assms
  by (auto simp: readVarintNum_def varint_bytes_def readUInt8_at tagged_reads unat_word_of_nat_byte
        Let_def simp del: le_bytes.simps)

lemma to_double_2_53: "to_double (2 ^ 53) = 2 ^ 53" "to_double (2 ^ 53 + 1) = 2 ^ 53"
  by (simp_all add: to_double_def double_shift.simps)

lemma to_double_above: "2 ^ 53 + 2 \<le> x \<Longrightarrow> 2 ^ 53 < to_double x"
proof -
  assume x: "2 ^ 53 + 2 \<le> x"
  then have x53: "2 ^ 53 \<le> x" by simp
  let ?k = "double_shift x"
  have ge: "x div 2 ^ ?k * 2 ^ ?k \<le> to_double x"
    using double_shift_pos [OF x53] by (simp add: to_double_def Let_def)
  show ?thesis
  proof (cases "?k = 1")
    case True
    have "2 ^ 52 + 1 \<le> x div 2" using x by simp
    with ge True show ?thesis by simp
  next
    case False
    with double_shift_pos [OF x53] have "2 ^ 2 \<le> (2 :: nat) ^ ?k"
      by (intro power_increasing) simp_all
    with double_shift_quotient [OF x53] have "2 ^ 52 * 2 ^ 2 \<le> x div 2 ^ ?k * 2 ^ ?k"
      by (rule mult_le_mono)
    with ge show ?thesis by simp
  qed
qed

lemma to_double_le_iff: "to_double x \<le> 2 ^ 53 \<longleftrightarrow> x \<le> 2 ^ 53 + 1"
proof
  assume "to_double x \<le> 2 ^ 53"
  then show "x \<le> 2 ^ 53 + 1" using to_double_above [of x] by linarith
next
  assume "x \<le> 2 ^ 53 + 1"
  then consider "x < 2 ^ 53" | "x = 2 ^ 53" | "x = 2 ^ 53 + 1" by linarith
  then show "to_double x \<le> 2 ^ 53" by cases (simp_all add: to_double_2_53 [simplified])
qed

interpretation varint_num: stream_codec varint_bytes readVarintNum "\<lambda>n. n \<le> 2 ^ 53"
proof unfold_locales
  fix n :: nat and pre post
  assume n: "n \<le> 2 ^ 53"
  then have "n < 2 ^ 64" by simp
  moreover have "to_double n = n"
    using n to_double_2_53(1) by (cases "n = 2 ^ 53") simp_all
  ultimately show "readVarintNum (rd (pre @ varint_bytes n @ post) (length pre)) =
      Inr (n, rd (pre @ varint_bytes n @ post) (length pre + length (varint_bytes n)))"
    using n by (simp add: readVarintNum_at)
qed

text \<open>A length-prefixed buffer, as scripts are stored in transactions.\<close>

definition var_bytes :: "bytes \<Rightarrow> bytes" where
  "var_bytes bs = varint_bytes (length bs) @ bs"

interpretation var_buf: stream_codec var_bytes readVarLengthBuffer "\<lambda>bs. length bs \<le> 2 ^ 53"
proof unfold_locales
  fix bs pre post :: bytes
  assume len: "length bs \<le> 2 ^ 53"
  let ?v = "varint_bytes (length bs)"
  have "readVarintNum (rd (pre @ ?v @ bs @ post) (length pre)) =
      Inr (length bs, rd (pre @ ?v @ bs @ post) (length pre + length ?v))"
    using len by (rule varint_num.get_put)
  moreover have "slice (pre @ ?v @ bs @ post) (length pre + length ?v)
      (length pre + length ?v + length bs) = bs"
    using slice_at [of "pre @ ?v" bs post] by simp
  ultimately show "readVarLengthBuffer (rd (pre @ var_bytes bs @ post) (length pre)) =
      Inr (bs, rd (pre @ var_bytes bs @ post) (length pre + length (var_bytes bs)))"
    by (simp add: readVarLengthBuffer_def var_bytes_def read_def checkState_def)
qed

lemma writeVarintNum_eq:
  "n < 2 ^ 64 \<Longrightarrow> writeVarintNum w n = Inr (writeBuf w (varint_bytes n))"
  by (simp add: writeVarintNum_def varintBufNum_eq)

lemma writeUInt32LE_eq: "n < 2 ^ 32 \<Longrightarrow> writeUInt32LE w n = Inr (writeBuf w (le_bytes 4 n))"
  by (simp add: writeUInt32LE_def node_writeUIntLE_def)

lemma writeInt32LE_eq: "- (2 ^ 31) \<le> n \<Longrightarrow> n < 2 ^ 31 \<Longrightarrow>
    writeInt32LE w n = Inr (writeBuf w (le_bytes 4 (nat (n mod 2 ^ 32))))"
  by (simp add: writeInt32LE_def node_writeInt32LE_def)

text \<open>Readers never move backwards and never touch their buffer.\<close>

definition reads_on :: "reader \<Rightarrow> reader \<Rightarrow> bool" where
  "reads_on r r' \<longleftrightarrow> rbuf r' = rbuf r \<and> rpos r \<le> rpos r'"

lemma reads_on_trans: "reads_on r r1 \<Longrightarrow> reads_on r1 r2 \<Longrightarrow> reads_on r r2"
  by (simp add: reads_on_def)

lemma rmap_advance_reads_on: "rmap (advance k r) m = Inr (v, r') \<Longrightarrow> reads_on r r'"
  by (cases m) (auto simp: advance_def reads_on_def)

lemma readUInt64LEBN_reads_on: "readUInt64LEBN r = Inr (v, r') \<Longrightarrow> reads_on r r'"
  by (auto simp: readUInt64LEBN_def Let_def advance_def reads_on_def elim!: rbind_InrE)

lemma readVarintNum_reads_on: "readVarintNum r = Inr (v, r') \<Longrightarrow> reads_on r r'"
  by (auto simp: readVarintNum_def readUInt8_def readUInt16LE_def readUInt32LE_def Let_def
      elim!: rbind_InrE split: if_splits
      dest!: rmap_advance_reads_on readUInt64LEBN_reads_on)
     (blast intro: reads_on_trans)+

lemma readVarLengthBuffer_reads_on:
  "readVarLengthBuffer r = Inr (b, r') \<Longrightarrow> reads_on r r'"
  by (auto simp: readVarLengthBuffer_def read_def reads_on_def elim!: rbind_InrE
      dest!: readVarintNum_reads_on)

section \<open>Properties\<close>

text \<open>Variable length integers: \<^verbatim>\<open>Varint.fromNumber\<close> succeeds for every number up to
  \<open>2^53\<close>, and reading the bytes back with \<^verbatim>\<open>toNumber\<close> gives the number; through \<^verbatim>\<open>fromBN\<close> and
  \<^verbatim>\<open>toBN\<close> the same holds for every 64-bit number.\<close>

theorem varint_roundtrip:
  "(n \<le> 2 ^ 53 \<longrightarrow> rbind (varint_fromNumber n) varint_toNumber = Inr n) \<and>
   (bn < 2 ^ 64 \<longrightarrow> rbind (varint_fromBN bn) varint_toBN = Inr bn)"
proof (intro conjI impI)
  assume n: "n \<le> 2 ^ 53"
  then have "varint_fromNumber n = Inr (varint_bytes n)"
    by (simp add: varint_fromNumber_def writeVarintNum_eq)
  then show "rbind (varint_fromNumber n) varint_toNumber = Inr n"
    using varint_num.get_put_start [OF n, of "[]"] by (simp add: varint_toNumber_def)
next
  assume bn: "bn < 2 ^ 64"
  then have "varint_fromBN bn = Inr (varint_bytes bn)"
    by (simp add: varint_fromBN_def writeVarintBN_def varintBufBN_eq)
  then show "rbind (varint_fromBN bn) varint_toBN = Inr bn"
    using varint_bn.get_put_start [OF bn, of "[]"] by (simp add: varint_toBN_def)
qed

theorem varint_roundtrip_witness:
  "rbind (varint_fromNumber 70000) varint_toNumber = Inr 70000 \<and>
   rbind (varint_fromBN (2 ^ 60)) varint_toBN = Inr (2 ^ 60)"
  using varint_roundtrip [of 70000 "2 ^ 60"] by simp

text \<open>What \<^verbatim>\<open>readVarintNum\<close> does with a nine byte encoding: above \<open>2^53 + 1\<close> it throws
  rather than lose precision, up to \<open>2^53\<close> it is exact, and the one value it gets wrong is
  \<open>2^53 + 1\<close>, which the check lets through after it has been rounded to \<open>2^53\<close>.\<close>

theorem varint_precision_boundary:
  assumes "2 ^ 32 \<le> n" and "n < 2 ^ 64"
  shows "varint_toNumber (varint_bytes n) =
    (if n \<le> 2 ^ 53 then Inr n
     else if n = 2 ^ 53 + 1 then Inr (2 ^ 53)
     else Inl (PlainError ''number too large to retain precision - use readVarintBN''))"
proof -
  have "varint_toNumber (varint_bytes n) =
      (if n \<le> 2 ^ 53 + 1 then Inr (to_double n)
       else Inl (PlainError ''number too large to retain precision - use readVarintBN''))"
    using readVarintNum_at [of n "[]" "[]"] assms by (simp add: varint_toNumber_def to_double_le_iff [simplified])
  moreover have "n \<le> 2 ^ 53 \<Longrightarrow> to_double n = n"
    using to_double_2_53(1) by (cases "n = 2 ^ 53") simp_all
  ultimately show ?thesis
    using to_double_2_53(2) by auto
qed

theorem varint_precision_boundary_witness:
  "varint_toNumber (varint_bytes (2 ^ 53 + 1)) = Inr (2 ^ 53)"
  using varint_precision_boundary [of "2 ^ 53 + 1"] by simp

end
