(* ===== verification/Opcodes.thy ===== *)
theory Opcodes
  imports BufferIO
begin

text \<open>
  \<^verbatim>\<open>lib/opcode.js\<close>: the opcode table with its two directions of lookup and the conversions
  of an \<^verbatim>\<open>Opcode\<close> object.  An \<^verbatim>\<open>Opcode\<close> built from a string that is not in the table holds
  \<^verbatim>\<open>undefined\<close>, here \<open>None\<close>; names of the properties every JavaScript object inherits are not
  considered.
\<close>

section \<open>The table\<close>

abbreviation (input) "OP_FALSE \<equiv> 0 :: nat"
abbreviation (input) "OP_0 \<equiv> 0 :: nat"
abbreviation (input) "OP_PUSHDATA1 \<equiv> 76 :: nat"
abbreviation (input) "OP_PUSHDATA2 \<equiv> 77 :: nat"
abbreviation (input) "OP_PUSHDATA4 \<equiv> 78 :: nat"
abbreviation (input) "OP_1NEGATE \<equiv> 79 :: nat"
abbreviation (input) "OP_RESERVED \<equiv> 80 :: nat"
abbreviation (input) "OP_TRUE \<equiv> 81 :: nat"
abbreviation (input) "OP_1 \<equiv> 81 :: nat"
abbreviation (input) "OP_2 \<equiv> 82 :: nat"
abbreviation (input) "OP_3 \<equiv> 83 :: nat"
abbreviation (input) "OP_4 \<equiv> 84 :: nat"
abbreviation (input) "OP_5 \<equiv> 85 :: nat"
abbreviation (input) "OP_6 \<equiv> 86 :: nat"
abbreviation (input) "OP_7 \<equiv> 87 :: nat"
abbreviation (input) "OP_8 \<equiv> 88 :: nat"
abbreviation (input) "OP_9 \<equiv> 89 :: nat"
abbreviation (input) "OP_10 \<equiv> 90 :: nat"
abbreviation (input) "OP_11 \<equiv> 91 :: nat"
abbreviation (input) "OP_12 \<equiv> 92 :: nat"
abbreviation (input) "OP_13 \<equiv> 93 :: nat"
abbreviation (input) "OP_14 \<equiv> 94 :: nat"
abbreviation (input) "OP_15 \<equiv> 95 :: nat"
abbreviation (input) "OP_16 \<equiv> 96 :: nat"
abbreviation (input) "OP_NOP \<equiv> 97 :: nat"
abbreviation (input) "OP_VER \<equiv> 98 :: nat"
abbreviation (input) "OP_IF \<equiv> 99 :: nat"
abbreviation (input) "OP_NOTIF \<equiv> 100 :: nat"
abbreviation (input) "OP_VERIF \<equiv> 101 :: nat"
abbreviation (input) "OP_VERNOTIF \<equiv> 102 :: nat"
abbreviation (input) "OP_ELSE \<equiv> 103 :: nat"
abbreviation (input) "OP_ENDIF \<equiv> 104 :: nat"
abbreviation (input) "OP_VERIFY \<equiv> 105 :: nat"
abbreviation (input) "OP_RETURN \<equiv> 106 :: nat"
abbreviation (input) "OP_TOALTSTACK \<equiv> 107 :: nat"
abbreviation (input) "OP_FROMALTSTACK \<equiv> 108 :: nat"
abbreviation (input) "OP_2DROP \<equiv> 109 :: nat"
abbreviation (input) "OP_2DUP \<equiv> 110 :: nat"
abbreviation (input) "OP_3DUP \<equiv> 111 :: nat"
abbreviation (input) "OP_2OVER \<equiv> 112 :: nat"
abbreviation (input) "OP_2ROT \<equiv> 113 :: nat"
abbreviation (input) "OP_2SWAP \<equiv> 114 :: nat"
abbreviation (input) "OP_IFDUP \<equiv> 115 :: nat"
abbreviation (input) "OP_DEPTH \<equiv> 116 :: nat"
abbreviation (input) "OP_DROP \<equiv> 117 :: nat"
abbreviation (input) "OP_DUP \<equiv> 118 :: nat"
abbreviation (input) "OP_NIP \<equiv> 119 :: nat"
abbreviation (input) "OP_OVER \<equiv> 120 :: nat"
abbreviation (input) "OP_PICK \<equiv> 121 :: nat"
abbreviation (input) "OP_ROLL \<equiv> 122 :: nat"
abbreviation (input) "OP_ROT \<equiv> 123 :: nat"
abbreviation (input) "OP_SWAP \<equiv> 124 :: nat"
abbreviation (input) "OP_TUCK \<equiv> 125 :: nat"
abbreviation (input) "OP_CAT \<equiv> 126 :: nat"
abbreviation (input) "OP_SPLIT \<equiv> 127 :: nat"
abbreviation (input) "OP_NUM2BIN \<equiv> 128 :: nat"
abbreviation (input) "OP_BIN2NUM \<equiv> 129 :: nat"
abbreviation (input) "OP_SIZE \<equiv> 130 :: nat"
abbreviation (input) "OP_INVERT \<equiv> 131 :: nat"
abbreviation (input) "OP_AND \<equiv> 132 :: nat"
abbreviation (input) "OP_OR \<equiv> 133 :: nat"
abbreviation (input) "OP_XOR \<equiv> 134 :: nat"
abbreviation (input) "OP_EQUAL \<equiv> 135 :: nat"
abbreviation (input) "OP_EQUALVERIFY \<equiv> 136 :: nat"
abbreviation (input) "OP_RESERVED1 \<equiv> 137 :: nat"
abbreviation (input) "OP_RESERVED2 \<equiv> 138 :: nat"
abbreviation (input) "OP_1ADD \<equiv> 139 :: nat"
abbreviation (input) "OP_1SUB \<equiv> 140 :: nat"
abbreviation (input) "OP_2MUL \<equiv> 141 :: nat"
abbreviation (input) "OP_2DIV \<equiv> 142 :: nat"
abbreviation (input) "OP_NEGATE \<equiv> 143 :: nat"
abbreviation (input) "OP_ABS \<equiv> 144 :: nat"
abbreviation (input) "OP_NOT \<equiv> 145 :: nat"
abbreviation (input) "OP_0NOTEQUAL \<equiv> 146 :: nat"
abbreviation (input) "OP_ADD \<equiv> 147 :: nat"
abbreviation (input) "OP_SUB \<equiv> 148 :: nat"
abbreviation (input) "OP_MUL \<equiv> 149 :: nat"
abbreviation (input) "OP_DIV \<equiv> 150 :: nat"
abbreviation (input) "OP_MOD \<equiv> 151 :: nat"
abbreviation (input) "OP_LSHIFT \<equiv> 152 :: nat"
abbreviation (input) "OP_RSHIFT \<equiv> 153 :: nat"
abbreviation (input) "OP_BOOLAND \<equiv> 154 :: nat"
abbreviation (input) "OP_BOOLOR \<equiv> 155 :: nat"
abbreviation (input) "OP_NUMEQUAL \<equiv> 156 :: nat"
abbreviation (input) "OP_NUMEQUALVERIFY \<equiv> 157 :: nat"
abbreviation (input) "OP_NUMNOTEQUAL \<equiv> 158 :: nat"
abbreviation (input) "OP_LESSTHAN \<equiv> 159 :: nat"
abbreviation (input) "OP_GREATERTHAN \<equiv> 160 :: nat"
abbreviation (input) "OP_LESSTHANOREQUAL \<equiv> 161 :: nat"
abbreviation (input) "OP_GREATERTHANOREQUAL \<equiv> 162 :: nat"
abbreviation (input) "OP_MIN \<equiv> 163 :: nat"
abbreviation (input) "OP_MAX \<equiv> 164 :: nat"
abbreviation (input) "OP_WITHIN \<equiv> 165 :: nat"
abbreviation (input) "OP_RIPEMD160 \<equiv> 166 :: nat"
abbreviation (input) "OP_SHA1 \<equiv> 167 :: nat"
abbreviation (input) "OP_SHA256 \<equiv> 168 :: nat"
abbreviation (input) "OP_HASH160 \<equiv> 169 :: nat"
abbreviation (input) "OP_HASH256 \<equiv> 170 :: nat"
abbreviation (input) "OP_CODESEPARATOR \<equiv> 171 :: nat"
abbreviation (input) "OP_CHECKSIG \<equiv> 172 :: nat"
abbreviation (input) "OP_CHECKSIGVERIFY \<equiv> 173 :: nat"
abbreviation (input) "OP_CHECKMULTISIG \<equiv> 174 :: nat"
abbreviation (input) "OP_CHECKMULTISIGVERIFY \<equiv> 175 :: nat"
abbreviation (input) "OP_NOP2 \<equiv> 177 :: nat"
abbreviation (input) "OP_CHECKLOCKTIMEVERIFY \<equiv> 177 :: nat"
abbreviation (input) "OP_NOP3 \<equiv> 178 :: nat"
abbreviation (input) "OP_CHECKSEQUENCEVERIFY \<equiv> 178 :: nat"
abbreviation (input) "OP_NOP1 \<equiv> 176 :: nat"
abbreviation (input) "OP_NOP4 \<equiv> 179 :: nat"
abbreviation (input) "OP_NOP5 \<equiv> 180 :: nat"
abbreviation (input) "OP_NOP6 \<equiv> 181 :: nat"
abbreviation (input) "OP_NOP7 \<equiv> 182 :: nat"
abbreviation (input) "OP_NOP8 \<equiv> 183 :: nat"
abbreviation (input) "OP_NOP9 \<equiv> 184 :: nat"
abbreviation (input) "OP_NOP10 \<equiv> 185 :: nat"
abbreviation (input) "OP_CHECKDATASIG \<equiv> 186 :: nat"
abbreviation (input) "OP_CHECKDATASIGVERIFY \<equiv> 187 :: nat"
abbreviation (input) "OP_REVERSEBYTES \<equiv> 188 :: nat"
abbreviation (input) "OP_PREFIX_BEGIN \<equiv> 240 :: nat"
abbreviation (input) "OP_PREFIX_END \<equiv> 241 :: nat"
abbreviation (input) "OP_SMALLINTEGER \<equiv> 250 :: nat"
abbreviation (input) "OP_PUBKEYS \<equiv> 251 :: nat"
abbreviation (input) "OP_PUBKEYHASH \<equiv> 253 :: nat"
abbreviation (input) "OP_PUBKEY \<equiv> 254 :: nat"
abbreviation (input) "OP_INVALIDOPCODE \<equiv> 255 :: nat"

text \<open>\<^verbatim>\<open>Opcode.map\<close> in the order of the source, which decides the reverse table.\<close>

definition Opcode_map :: "(string \<times> nat) list" where
  "Opcode_map =
    [(''OP_FALSE'', OP_FALSE), (''OP_0'', OP_0), (''OP_PUSHDATA1'', OP_PUSHDATA1), 
     (''OP_PUSHDATA2'', OP_PUSHDATA2), (''OP_PUSHDATA4'', OP_PUSHDATA4), 
     (''OP_1NEGATE'', OP_1NEGATE), (''OP_RESERVED'', OP_RESERVED), (''OP_TRUE'', OP_TRUE), 
     (''OP_1'', OP_1), (''OP_2'', OP_2), (''OP_3'', OP_3), (''OP_4'', OP_4), (''OP_5'', OP_5), 
     (''OP_6'', OP_6), (''OP_7'', OP_7), (''OP_8'', OP_8), (''OP_9'', OP_9), 
     (''OP_10'', OP_10), (''OP_11'', OP_11), (''OP_12'', OP_12), (''OP_13'', OP_13), 
     (''OP_14'', OP_14), (''OP_15'', OP_15), (''OP_16'', OP_16), (''OP_NOP'', OP_NOP), 
     (''OP_VER'', OP_VER), (''OP_IF'', OP_IF), (''OP_NOTIF'', OP_NOTIF), 
     (''OP_VERIF'', OP_VERIF), (''OP_VERNOTIF'', OP_VERNOTIF), (''OP_ELSE'', OP_ELSE), 
     (''OP_ENDIF'', OP_ENDIF), (''OP_VERIFY'', OP_VERIFY), (''OP_RETURN'', OP_RETURN), 
     (''OP_TOALTSTACK'', OP_TOALTSTACK), (''OP_FROMALTSTACK'', OP_FROMALTSTACK), 
     (''OP_2DROP'', OP_2DROP), (''OP_2DUP'', OP_2DUP), (''OP_3DUP'', OP_3DUP), 
     (''OP_2OVER'', OP_2OVER), (''OP_2ROT'', OP_2ROT), (''OP_2SWAP'', OP_2SWAP), 
     (''OP_IFDUP'', OP_IFDUP), (''OP_DEPTH'', OP_DEPTH), (''OP_DROP'', OP_DROP), 
     (''OP_DUP'', OP_DUP), (''OP_NIP'', OP_NIP), (''OP_OVER'', OP_OVER), 
     (''OP_PICK'', OP_PICK), (''OP_ROLL'', OP_ROLL), (''OP_ROT'', OP_ROT), 
     (''OP_SWAP'', OP_SWAP), (''OP_TUCK'', OP_TUCK), (''OP_CAT'', OP_CAT), 
     (''OP_SPLIT'', OP_SPLIT), (''OP_NUM2BIN'', OP_NUM2BIN), (''OP_BIN2NUM'', OP_BIN2NUM), 
     (''OP_SIZE'', OP_SIZE), (''OP_INVERT'', OP_INVERT), (''OP_AND'', OP_AND), 
     (''OP_OR'', OP_OR), (''OP_XOR'', OP_XOR), (''OP_EQUAL'', OP_EQUAL), 
     (''OP_EQUALVERIFY'', OP_EQUALVERIFY), (''OP_RESERVED1'', OP_RESERVED1), 
     (''OP_RESERVED2'', OP_RESERVED2), (''OP_1ADD'', OP_1ADD), (''OP_1SUB'', OP_1SUB), 
     (''OP_2MUL'', OP_2MUL), (''OP_2DIV'', OP_2DIV), (''OP_NEGATE'', OP_NEGATE), 
     (''OP_ABS'', OP_ABS), (''OP_NOT'', OP_NOT), (''OP_0NOTEQUAL'', OP_0NOTEQUAL), 
     (''OP_ADD'', OP_ADD), (''OP_SUB'', OP_SUB), (''OP_MUL'', OP_MUL), (''OP_DIV'', OP_DIV), 
     (''OP_MOD'', OP_MOD), (''OP_LSHIFT'', OP_LSHIFT), (''OP_RSHIFT'', OP_RSHIFT), 
     (''OP_BOOLAND'', OP_BOOLAND), (''OP_BOOLOR'', OP_BOOLOR), (''OP_NUMEQUAL'', OP_NUMEQUAL), 
     (''OP_NUMEQUALVERIFY'', OP_NUMEQUALVERIFY), (''OP_NUMNOTEQUAL'', OP_NUMNOTEQUAL), 
     (''OP_LESSTHAN'', OP_LESSTHAN), (''OP_GREATERTHAN'', OP_GREATERTHAN), 
     (''OP_LESSTHANOREQUAL'', OP_LESSTHANOREQUAL), 
     (''OP_GREATERTHANOREQUAL'', OP_GREATERTHANOREQUAL), (''OP_MIN'', OP_MIN), 
     (''OP_MAX'', OP_MAX), (''OP_WITHIN'', OP_WITHIN), (''OP_RIPEMD160'', OP_RIPEMD160), 
     (''OP_SHA1'', OP_SHA1), (''OP_SHA256'', OP_SHA256), (''OP_HASH160'', OP_HASH160), 
     (''OP_HASH256'', OP_HASH256), (''OP_CODESEPARATOR'', OP_CODESEPARATOR), 
     (''OP_CHECKSIG'', OP_CHECKSIG), (''OP_CHECKSIGVERIFY'', OP_CHECKSIGVERIFY), 
     (''OP_CHECKMULTISIG'', OP_CHECKMULTISIG), 
     (''OP_CHECKMULTISIGVERIFY'', OP_CHECKMULTISIGVERIFY), (''OP_NOP2'', OP_NOP2), 
     (''OP_CHECKLOCKTIMEVERIFY'', OP_CHECKLOCKTIMEVERIFY), (''OP_NOP3'', OP_NOP3), 
     (''OP_CHECKSEQUENCEVERIFY'', OP_CHECKSEQUENCEVERIFY), (''OP_NOP1'', OP_NOP1), 
     (''OP_NOP4'', OP_NOP4), (''OP_NOP5'', OP_NOP5), (''OP_NOP6'', OP_NOP6), 
     (''OP_NOP7'', OP_NOP7), (''OP_NOP8'', OP_NOP8), (''OP_NOP9'', OP_NOP9), 
     (''OP_NOP10'', OP_NOP10), (''OP_CHECKDATASIG'', OP_CHECKDATASIG), 
     (''OP_CHECKDATASIGVERIFY'', OP_CHECKDATASIGVERIFY), 
     (''OP_REVERSEBYTES'', OP_REVERSEBYTES), (''OP_PREFIX_BEGIN'', OP_PREFIX_BEGIN), 
     (''OP_PREFIX_END'', OP_PREFIX_END), (''OP_SMALLINTEGER'', OP_SMALLINTEGER), 
     (''OP_PUBKEYS'', OP_PUBKEYS), (''OP_PUBKEYHASH'', OP_PUBKEYHASH), 
     (''OP_PUBKEY'', OP_PUBKEY), (''OP_INVALIDOPCODE'', OP_INVALIDOPCODE)]"

definition Opcode_reverseMap :: "nat \<Rightarrow> string option" where
  "Opcode_reverseMap n = map_of (rev (map prod.swap Opcode_map)) n"

section \<open>Opcode objects\<close>

datatype opcode_arg = OpNum nat | OpStr string

definition Opcode :: "opcode_arg \<Rightarrow> nat option" where
  "Opcode a = (case a of OpNum n \<Rightarrow> Some n | OpStr s \<Rightarrow> map_of Opcode_map s)"

definition Opcode_fromString :: "string \<Rightarrow> nat res" where
  "Opcode_fromString str = (case map_of Opcode_map str of None \<Rightarrow> Inl TypeErr | Some v \<Rightarrow> Inr v)"

text \<open>\<^verbatim>\<open>Number('0x' + hex)\<close>; the empty buffer gives \<^verbatim>\<open>NaN\<close>, here \<open>None\<close>.\<close>

definition Opcode_fromBuffer :: "bytes \<Rightarrow> nat option" where
  "Opcode_fromBuffer buf = (if buf = [] then None else Some (to_double (be_val buf)))"

definition Opcode_toHex :: "nat \<Rightarrow> string" where
  "Opcode_toHex num = nat_hex num"

definition Opcode_toBuffer :: "nat \<Rightarrow> bytes" where
  "Opcode_toBuffer num = of_hex (Opcode_toHex num)"

definition Opcode_toString :: "nat \<Rightarrow> string res" where
  "Opcode_toString num =
     (case Opcode_reverseMap num of
        None \<Rightarrow> Inl (PlainError ''Opcode does not have a string representation'')
      | Some str \<Rightarrow> Inr str)"

definition smallInt :: "nat \<Rightarrow> nat res" where
  "smallInt n =
     rbind (checkArgument (n \<le> 16) ''Invalid Argument: n must be between 0 and 16'') (\<lambda>_.
       Inr (if n = 0 then OP_0 else OP_1 + n - 1))"

definition isSmallIntOp :: "nat \<Rightarrow> bool" where
  "isSmallIntOp opcode \<longleftrightarrow> opcode = OP_0 \<or> opcode \<ge> OP_1 \<and> opcode \<le> OP_16"

section \<open>Lemmas\<close>

lemma Opcode_map_distinct: "distinct (map fst Opcode_map)"
  unfolding Opcode_map_def by simp

lemma Opcode_reverseMap_map:
  assumes "Opcode_reverseMap n = Some s"
  shows "map_of Opcode_map s = Some n"
proof -
  have "(n, s) \<in> set (rev (map prod.swap Opcode_map))"
    using assms unfolding Opcode_reverseMap_def by (rule map_of_SomeD)
  then have "(s, n) \<in> set Opcode_map" by auto
  then show ?thesis using Opcode_map_distinct by simp
qed

lemma Opcode_toString_fromString: "Opcode_toString n = Inr s \<Longrightarrow> Opcode_fromString s = Inr n"
  using Opcode_reverseMap_map [of n s]
  by (auto simp: Opcode_toString_def Opcode_fromString_def split: option.splits)

lemma smallInt_Inr: "smallInt n = Inr k \<longleftrightarrow> n \<le> 16 \<and> k = (if n = 0 then 0 else 80 + n)"
  by (auto simp: smallInt_def rbind_Inr_iff)

lemma isSmallIntOp_smallInt: "smallInt n = Inr k \<Longrightarrow> isSmallIntOp k"
  by (auto simp: smallInt_Inr isSmallIntOp_def)

lemma Opcode_toBuffer_byte: "16 \<le> n \<Longrightarrow> n < 256 \<Longrightarrow> Opcode_toBuffer n = [word_of_nat n]"
proof -
  assume n: "16 \<le> n" "n < 256"
  then have "n div 16 < 16" by (simp add: div_less_iff_less_mult)
  with n have "Opcode_toHex n = [hex_char (n div 16), hex_char (n mod 16)]"
    by (simp add: Opcode_toHex_def nat_hex.simps)
  with \<open>n div 16 < 16\<close> show ?thesis by (simp add: Opcode_toBuffer_def)
qed

lemma Opcode_toBuffer_small: "n < 16 \<Longrightarrow> Opcode_toBuffer n = []"
  by (simp add: Opcode_toBuffer_def Opcode_toHex_def nat_hex.simps)

end
