(* ===== verification/DerSignature.thy ===== *)
theory DerSignature
  imports BufferIO
begin

text \<open>
  \<^verbatim>\<open>lib/crypto/signature.js\<close>: the DER, compact and transaction formats of a signature and
  the encoding predicates the script interpreter applies.  Reads past the end of a buffer
  are JavaScript's \<^verbatim>\<open>undefined\<close>, here \<open>None\<close>.
\<close>

section \<open>The signature object\<close>

text \<open>
  \<open>sig_isSig\<close> is false for the bare object that \<^verbatim>\<open>new Signature.fromDER(buf)\<close> evaluates to
  when \<^verbatim>\<open>fromDER\<close> returns its error text: it has neither values nor methods.
\<close>

record signature =
  sig_r :: "nat option"
  sig_s :: "nat option"
  sig_i :: "int option"
  sig_compressed :: "bool option"
  sig_isSchnorr :: bool
  sig_nhashtype :: "nat option"
  sig_isSig :: bool

definition mk_sig :: "nat \<Rightarrow> nat \<Rightarrow> signature" where
  "mk_sig r s = \<lparr>sig_r = Some r, sig_s = Some s, sig_i = None, sig_compressed = None,
     sig_isSchnorr = False, sig_nhashtype = None, sig_isSig = True\<rparr>"

definition no_sig :: signature where
  "no_sig = \<lparr>sig_r = None, sig_s = None, sig_i = None, sig_compressed = None,
     sig_isSchnorr = False, sig_nhashtype = None, sig_isSig = False\<rparr>"

abbreviation (input) "SIGHASH_ALL \<equiv> 0x01 :: nat"
abbreviation (input) "SIGHASH_NONE \<equiv> 0x02 :: nat"
abbreviation (input) "SIGHASH_SINGLE \<equiv> 0x03 :: nat"
abbreviation (input) "SIGHASH_FORKID \<equiv> 0x40 :: nat"
abbreviation (input) "SIGHASH_ANYONECANPAY \<equiv> 0x80 :: nat"

section \<open>DER\<close>

record der_parts =
  der_length :: nat
  der_rlength :: nat
  der_rneg :: bool
  der_r :: nat
  der_slength :: nat
  der_sneg :: bool
  der_s :: nat

definition parseDER :: "bytes \<Rightarrow> bool \<Rightarrow> der_parts res" where
  "parseDER buf strict =
     rbind (checkArgument (nth_opt buf 0 = Some 0x30) ''Header byte should be 0x30'') (\<lambda>_.
     let buflength = length (drop 2 buf);
         len = map_option unat (nth_opt buf 1)
     in
     rbind (checkArgument (\<not> strict \<or> len = Some buflength)
              ''Length byte should length of what follows'') (\<lambda>_.
     let length1 = (case len of None \<Rightarrow> buflength
                    | Some l \<Rightarrow> if l < buflength then l else buflength)
     in
     rbind (checkArgument (nth_opt buf 2 = Some 0x02) ''Integer byte for r should be 0x02'') (\<lambda>_.
     case nth_opt buf 3 of
       None \<Rightarrow> Inl (InvalidArgument ''Length of r incorrect'')
     | Some rl \<Rightarrow>
     let rlength = unat rl;
         rbuf = slice buf 4 (4 + rlength);
         r = fromBuffer Big rbuf;
         rneg = (nth_opt buf 4 = Some 0)
     in
     rbind (checkArgument (rlength = length rbuf) ''Length of r incorrect'') (\<lambda>_.
     rbind (checkArgument (nth_opt buf (4 + rlength) = Some 0x02)
              ''Integer byte for s should be 0x02'') (\<lambda>_.
     case nth_opt buf (4 + rlength + 1) of
       None \<Rightarrow> Inl (InvalidArgument ''Length of s incorrect'')
     | Some sl \<Rightarrow>
     let slength = unat sl;
         sbuf = slice buf (4 + rlength + 2) (4 + rlength + 2 + slength);
         s = fromBuffer Big sbuf;
         sneg = (nth_opt buf (4 + rlength + 4) = Some 0)
     in
     rbind (checkArgument (slength = length sbuf) ''Length of s incorrect'') (\<lambda>_.
     rbind (checkArgument (length1 = 4 + rlength + 2 + slength - 2)
              ''Length of signature incorrect'') (\<lambda>_.
       Inr \<lparr>der_length = length1, der_rlength = rlength, der_rneg = rneg, der_r = r,
            der_slength = slength, der_sneg = sneg, der_s = s\<rparr>)))))))"

definition parseSchnorrEncodedSig :: "bytes \<Rightarrow> nat \<times> nat" where
  "parseSchnorrEncodedSig buf = (fromBuffer Big (slice buf 0 32), fromBuffer Big (slice buf 32 64))"

text \<open>\<^verbatim>\<open>new Signature.fromDER(buf, strict)\<close>, as every caller in scope invokes it.\<close>

definition fromDER :: "bytes \<Rightarrow> bool \<Rightarrow> signature res" where
  "fromDER buf strict =
     (if (length buf = 64 \<or> length buf = 65) \<and> nth_opt buf 0 \<noteq> Some 0x30
      then (case parseSchnorrEncodedSig buf of (r, s) \<Rightarrow> Inr ((mk_sig r s)\<lparr>sig_isSchnorr := True\<rparr>))
      else if length buf = 64 \<and> nth_opt buf 0 = Some 0x30 then Inr no_sig
      else rmap (\<lambda>obj. mk_sig (der_r obj) (der_s obj)) (parseDER buf strict))"

text \<open>\<^verbatim>\<open>buf.readUInt8(buf.length - 1)\<close> throws on an empty buffer.\<close>

definition fromTxFormat :: "bytes \<Rightarrow> signature res" where
  "fromTxFormat buf =
     (if buf = [] then Inl RangeErr
      else rmap (\<lambda>sig. sig\<lparr>sig_nhashtype := Some (unat (last buf))\<rparr>)
             (fromDER (slice buf 0 (length buf - 1)) False))"

definition fromDataFormat :: "bytes \<Rightarrow> signature res" where
  "fromDataFormat buf = fromDER (slice buf 0 (length buf)) False"

definition toDER :: "nat \<Rightarrow> nat \<Rightarrow> bytes" where
  "toDER r s =
     (let rnbuf = toBuffer None Big r; snbuf = toBuffer None Big s;
          rbuf = (if hd rnbuf AND 0x80 \<noteq> 0 then 0x00 # rnbuf else rnbuf);
          sbuf = (if hd snbuf AND 0x80 \<noteq> 0 then 0x00 # snbuf else snbuf);
          rlength = length rbuf; slength = length sbuf;
          len = 2 + rlength + 2 + slength
      in [0x30, word_of_nat len, 0x02, word_of_nat rlength] @ rbuf
           @ [0x02, word_of_nat slength] @ sbuf)"

text \<open>The Schnorr format: the two values as 32 bytes each.\<close>

definition toSchnorr :: "nat \<Rightarrow> nat \<Rightarrow> bytes" where
  "toSchnorr r s = toBuffer (Some 32) Big r @ toBuffer (Some 32) Big s"

definition toTxFormat :: "bool \<Rightarrow> nat \<Rightarrow> nat \<Rightarrow> nat \<Rightarrow> bytes res" where
  "toTxFormat schnorr r s nhashtype =
     rmap (\<lambda>b. (if schnorr then toSchnorr r s else toDER r s) @ b) (node_writeUIntLE 1 nhashtype)"

section \<open>Compact format\<close>

definition fromCompact :: "bytes \<Rightarrow> signature res" where
  "fromCompact buf =
     (case nth_opt buf 0 of
        None \<Rightarrow> Inl (InvalidArgument ''i must be 0, 1, 2, or 3'')
      | Some b \<Rightarrow>
        let i0 = int (unat b) - 27 - 4;
            compressed = (\<not> i0 < 0);
            i = (if i0 < 0 then i0 + 4 else i0);
            b2 = slice buf 1 33; b3 = slice buf 33 65
        in rbind (checkArgument (i = 0 \<or> i = 1 \<or> i = 2 \<or> i = 3) ''i must be 0, 1, 2, or 3'') (\<lambda>_.
           rbind (checkArgument (length b2 = 32) ''r must be 32 bytes'') (\<lambda>_.
           rbind (checkArgument (length b3 = 32) ''s must be 32 bytes'') (\<lambda>_.
             Inr ((mk_sig (fromBuffer Big b2) (fromBuffer Big b3))
               \<lparr>sig_i := Some i, sig_compressed := Some compressed\<rparr>)))))"

definition toCompact :: "nat \<Rightarrow> nat \<Rightarrow> int \<Rightarrow> bool \<Rightarrow> bytes res" where
  "toCompact r s i compressed =
     (if \<not> (i = 0 \<or> i = 1 \<or> i = 2 \<or> i = 3)
      then Inl (PlainError ''i must be equal to 0, 1, 2, or 3'')
      else let val = i + 27 + 4; val' = (if compressed = False then val - 4 else val)
           in Inr ([word_of_int val'] @ toBuffer (Some 32) Big r @ toBuffer (Some 32) Big s))"

section \<open>Encoding predicates\<close>

text \<open>A bit test on a possibly missing byte: \<^verbatim>\<open>undefined & 0x80\<close> is 0.\<close>

definition top_bit :: "byte option \<Rightarrow> bool" where
  "top_bit b = (case b of None \<Rightarrow> False | Some x \<Rightarrow> x AND 0x80 \<noteq> 0)"

definition isDER :: "bytes \<Rightarrow> bool" where
  "isDER buf =
     (let n = length buf; at = nth_opt buf
      in if n < 8 \<or> n > 72 then False
         else if at 0 \<noteq> Some 0x30 then False
         else if map_option (int \<circ> unat) (at 1) \<noteq> Some (int n - 2) then False
         else if at 2 \<noteq> Some 0x02 then False
         else let lenR = unat (buf ! 3)
         in if lenR = 0 then False
         else if top_bit (at 4) then False
         else if lenR > n - 7 then False
         else if lenR > 1 \<and> at 4 = Some 0x00 \<and> \<not> top_bit (at 5) then False
         else let startS = lenR + 4
         in if at startS \<noteq> Some 0x02 then False
         else case at (startS + 1) of
           None \<Rightarrow> False
         | Some ls \<Rightarrow>
           let lenS = unat ls
           in if lenS = 0 then False
           else if top_bit (at (startS + 2)) then False
           else if startS + lenS + 2 \<noteq> n then False
           else if lenS > 1 \<and> at (startS + 2) = Some 0x00 \<and> \<not> top_bit (at (startS + 3)) then False
           else True)"

definition isTxDER :: "bytes \<Rightarrow> bool" where
  "isTxDER buf = isDER (slice buf 0 (length buf - 1))"

definition half_order :: nat where
  "half_order = 0x7FFFFFFFFFFFFFFFFFFFFFFFFFFFFFFF5D576E7357A4501DDFE92F46681B20A0"

text \<open>Methods of \<^verbatim>\<open>Signature.prototype\<close>: a \<^verbatim>\<open>TypeError\<close> on the bare object.\<close>

definition hasLowS :: "signature \<Rightarrow> bool res" where
  "hasLowS sig =
     (if \<not> sig_isSig sig then Inl TypeErr
      else case sig_s sig of None \<Rightarrow> Inl TypeErr
           | Some s \<Rightarrow> Inr (\<not> (s < 1 \<or> s > half_order)))"

definition hasDefinedHashtype :: "signature \<Rightarrow> bool res" where
  "hasDefinedHashtype sig =
     (if \<not> sig_isSig sig then Inl TypeErr
      else case sig_nhashtype sig of None \<Rightarrow> Inr False
           | Some nhashtype \<Rightarrow>
             let mask = to_uint32 (NOT (js_or (int SIGHASH_FORKID) (int SIGHASH_ANYONECANPAY)));
                 temp = js_and (int nhashtype) mask
             in Inr (\<not> (temp < int SIGHASH_ALL \<or> temp > int SIGHASH_SINGLE)))"

section \<open>The frame of a DER signature\<close>

definition der_frame :: "bytes \<Rightarrow> bytes \<Rightarrow> bytes" where
  "der_frame R S = [0x30, word_of_nat (4 + length R + length S), 0x02, word_of_nat (length R)] @ R
     @ [0x02, word_of_nat (length S)] @ S"

text \<open>A positive big endian integer without superfluous leading zeros.\<close>

definition pos_min :: "bytes \<Rightarrow> bool" where
  "pos_min R \<longleftrightarrow> R \<noteq> [] \<and> hd R AND 0x80 = 0 \<and>
     (1 < length R \<and> hd R = 0 \<longrightarrow> R ! 1 AND 0x80 \<noteq> 0)"

definition der_int :: "nat \<Rightarrow> bytes" where
  "der_int n = (let m = rev (le_min n) in if hd m AND 0x80 \<noteq> 0 then 0 # m else m)"

lemma toDER_frame: "toDER r s = der_frame (der_int r) (der_int s)"
  by (simp add: toDER_def der_frame_def der_int_def toBuffer_def Let_def)

lemma be_val_Cons_0 [simp]: "be_val (0 # bs) = be_val bs"
  by (simp add: be_val_def le_val_append)

lemma be_val_der_int [simp]: "be_val (der_int n) = n"
  by (simp add: der_int_def Let_def) (simp add: be_val_def)

lemma le_min_0: "le_min 0 = [0]"
  by (simp add: le_min_small)

lemma pos_min_der_int: "pos_min (der_int n)"
proof (cases "n = 0")
  case True
  then show ?thesis by (simp add: pos_min_def der_int_def le_min_0)
next
  case False
  then have nz: "last (le_min n) \<noteq> 0" by (intro last_le_min_nonzero) simp
  then show ?thesis
    by (auto simp: pos_min_def der_int_def Let_def hd_rev hd_conv_nth [symmetric])
qed

lemma der_int_be_val:
  assumes "pos_min R"
  shows "der_int (be_val R) = R"
proof -
  from assms obtain x xs where R: "R = x # xs" and x80: "x AND 0x80 = 0"
    by (cases R) (auto simp: pos_min_def)
  show ?thesis
  proof (cases "x = 0")
    case False
    then have "le_min (le_val (rev R)) = rev R" by (intro le_min_le_val) (simp_all add: R)
    then show ?thesis using x80 by (simp add: der_int_def be_val_def R)
  next
    case True
    show ?thesis
    proof (cases xs)
      case Nil
      with True show ?thesis by (simp add: R der_int_def be_val_def le_min_0)
    next
      case (Cons y ys)
      with True assms have y80: "y AND 0x80 \<noteq> 0" by (simp add: pos_min_def R)
      then have "y \<noteq> 0" by auto
      then have "le_min (le_val (rev xs)) = rev xs" by (intro le_min_le_val) (simp_all add: Cons)
      with True y80 show ?thesis by (simp add: R der_int_def be_val_def Cons le_val_append)
    qed
  qed
qed

lemma length_der_int: "n < 2 ^ 256 \<Longrightarrow> length (der_int n) \<le> 33"
proof -
  assume "n < 2 ^ 256"
  then have "n < 256 ^ 32" by simp
  then have "length (le_min n) \<le> 32" by (rule length_le_min_bound) simp
  then show ?thesis by (simp add: der_int_def Let_def)
qed

lemma der_int_not_Nil [simp]: "der_int n \<noteq> []"
  using pos_min_der_int [of n] by (simp add: pos_min_def)

lemma length_der_frame [simp]: "length (der_frame R S) = 6 + length R + length S"
  by (simp add: der_frame_def)

lemma der_frame_nth:
  "nth_opt (der_frame R S) 0 = Some 0x30"
  "nth_opt (der_frame R S) 1 = Some (word_of_nat (4 + length R + length S))"
  "nth_opt (der_frame R S) 2 = Some 0x02"
  "nth_opt (der_frame R S) 3 = Some (word_of_nat (length R))"
  "nth_opt (der_frame R S) (4 + length R) = Some 0x02"
  "nth_opt (der_frame R S) (4 + length R + 1) = Some (word_of_nat (length S))"
  by (simp_all add: nth_opt_def der_frame_def nth_append nth_Cons' numeral_eq_Suc)

lemma der_frame_slices:
  "slice (der_frame R S) 4 (4 + length R) = R"
  "slice (der_frame R S) (4 + length R + 2) (4 + length R + 2 + length S) = S"
  by (simp_all add: slice_def der_frame_def numeral_eq_Suc)

lemma der_frame_nth_R:
  "R \<noteq> [] \<Longrightarrow> nth_opt (der_frame R S) 4 = Some (hd R)"
  "1 < length R \<Longrightarrow> nth_opt (der_frame R S) 5 = Some (R ! 1)"
  by (simp_all add: nth_opt_def der_frame_def nth_append nth_Cons' hd_conv_nth)

lemma der_frame_nth_S:
  "S \<noteq> [] \<Longrightarrow> nth_opt (der_frame R S) (length R + 4 + 2) = Some (hd S)"
  "1 < length S \<Longrightarrow> nth_opt (der_frame R S) (length R + 4 + 3) = Some (S ! 1)"
  by (simp_all add: nth_opt_def der_frame_def nth_append nth_Cons' hd_conv_nth)

text \<open>Parsing a frame whose lengths fit in their length bytes.\<close>

lemma parseDER_frame:
  assumes "4 + length R + length S < 256"
  shows "parseDER (der_frame R S) strict = Inr
    \<lparr>der_length = 4 + length R + length S, der_rlength = length R,
     der_rneg = (nth_opt (der_frame R S) 4 = Some 0), der_r = be_val R,
     der_slength = length S, der_sneg = (nth_opt (der_frame R S) (4 + length R + 4) = Some 0),
     der_s = be_val S\<rparr>"
proof -
  have "unat (word_of_nat (length R) :: byte) = length R"
    and "unat (word_of_nat (length S) :: byte) = length S"
    and "unat (word_of_nat (4 + length R + length S) :: byte) = 4 + length R + length S"
    using assms by (simp_all only: unat_byte_of_nat) simp_all
  moreover have "length (drop 2 (der_frame R S)) = 4 + length R + length S" by simp
  ultimately show ?thesis
    unfolding parseDER_def
    by (simp only: der_frame_nth der_frame_slices checkArgument_def rbind_simps option.case
        option.map Let_def fromBuffer_simps if_True simp_thms)
       (simp add: checkArgument_def)
qed

lemma isDER_frame:
  assumes R: "pos_min R" and S: "pos_min S" and len: "length R + length S \<le> 66"
  shows "isDER (der_frame R S)"
proof -
  let ?f = "der_frame R S"
  have R0: "R \<noteq> []" and S0: "S \<noteq> []" using R S by (auto simp: pos_min_def)
  have u1: "unat (word_of_nat (length R) :: byte) = length R"
    and u2: "unat (word_of_nat (length S) :: byte) = length S"
    and u3: "unat (word_of_nat (4 + length R + length S) :: byte) = 4 + length R + length S"
    using len by (simp_all only: unat_byte_of_nat) simp_all
  have f3: "unat (?f ! 3) = length R"
    using der_frame_nth(4) [of R S] u1 by (simp add: nth_opt_def)
  have comm: "length R + 4 = 4 + length R" by simp
  have l1: "1 \<le> length R" "1 \<le> length S" using R0 S0 by (simp_all add: Suc_le_eq)
  have at1: "map_option (int \<circ> unat) (nth_opt ?f 1) = Some (int (length ?f) - 2)"
    unfolding der_frame_nth(2) option.map o_apply u3 by simp
  have t: "\<not> top_bit (nth_opt ?f 4)" "\<not> top_bit (nth_opt ?f (length R + 4 + 2))"
    unfolding der_frame_nth_R(1) [OF R0] der_frame_nth_S(1) [OF S0]
    using R S by (simp_all add: top_bit_def pos_min_def)
  have zR: "\<not> (length R > 1 \<and> nth_opt ?f 4 = Some 0x00 \<and> \<not> top_bit (nth_opt ?f 5))"
    unfolding der_frame_nth_R(1) [OF R0]
    using R der_frame_nth_R(2) [of R S] by (auto simp: top_bit_def pos_min_def)
  have zS: "\<not> (length S > 1 \<and> nth_opt ?f (length R + 4 + 2) = Some 0x00 \<and>
      \<not> top_bit (nth_opt ?f (length R + 4 + 3)))"
    unfolding der_frame_nth_S(1) [OF S0]
    using S der_frame_nth_S(2) [of S R] by (auto simp: top_bit_def pos_min_def)
  have n: "\<not> (length ?f < 8 \<or> length ?f > 72)" "\<not> length R > length ?f - 7"
    "length R \<noteq> 0" "length S \<noteq> 0" "length R + 4 + length S + 2 = length ?f"
    using len l1 by (simp_all add: R0 S0)
  have at4: "nth_opt ?f (length R + 4) = Some 0x02"
    and at5: "nth_opt ?f (length R + 4 + 1) = Some (word_of_nat (length S))"
    using der_frame_nth(5,6) [of R S] by (simp_all only: comm)
  show ?thesis
    unfolding isDER_def Let_def f3
    by (simp only: n at1 at4 at5 t zR zS der_frame_nth(1,3) u2 if_False if_True option.case simp_thms)
qed

lemma take_4: "4 \<le> length xs \<Longrightarrow> take 4 xs = [xs ! 0, xs ! 1, xs ! 2, xs ! 3]"
  by (auto simp: numeral_eq_Suc Suc_le_length_iff)

lemma take_2: "2 \<le> length xs \<Longrightarrow> take 2 xs = [xs ! 0, xs ! 1]"
  by (auto simp: numeral_eq_Suc Suc_le_length_iff)

lemma isDER_is_frame:
  assumes "isDER buf"
  obtains R S where "buf = der_frame R S" and "pos_min R" and "pos_min S"
    and "length R + length S \<le> 66"
proof -
  let ?n = "length buf" and ?at = "nth_opt buf"
  define lr where "lr = unat (buf ! 3)"
  have n: "8 \<le> ?n" "?n \<le> 72" using assms by (auto simp: isDER_def Let_def split: if_splits)
  have b: "?at 0 = Some 0x30" "map_option (int \<circ> unat) (?at 1) = Some (int ?n - 2)"
    "?at 2 = Some 0x02" "lr \<noteq> 0" "\<not> top_bit (?at 4)" "lr \<le> ?n - 7"
    "\<not> (lr > 1 \<and> ?at 4 = Some 0x00 \<and> \<not> top_bit (?at 5))" "?at (lr + 4) = Some 0x02"
    using assms unfolding isDER_def Let_def lr_def [symmetric] by (auto split: if_splits)
  obtain ls where ls: "?at (lr + 4 + 1) = Some ls"
    using assms unfolding isDER_def Let_def lr_def [symmetric]
    by (auto split: if_splits option.splits)
  have c: "unat ls \<noteq> 0" "\<not> top_bit (?at (lr + 4 + 2))" "lr + 4 + unat ls + 2 = ?n"
    "\<not> (unat ls > 1 \<and> ?at (lr + 4 + 2) = Some 0x00 \<and> \<not> top_bit (?at (lr + 4 + 3)))"
    using assms ls unfolding isDER_def Let_def lr_def [symmetric] by (auto split: if_splits)
  define R where "R = slice buf 4 (4 + lr)"
  define S where "S = drop (6 + lr) buf"
  have lR: "length R = lr" and lS: "length S = unat ls"
    using c(3) by (simp_all add: R_def S_def length_slice)
  have at: "buf ! 0 = 0x30" "buf ! 2 = 0x02" "buf ! (4 + lr) = 0x02" "buf ! (4 + lr + 1) = ls"
    using b(1,3,8) ls n c(3) by (auto simp: nth_opt_def add.commute split: if_splits)
  have "uint (buf ! 1) = int ?n - 2" using b(2) n by (simp add: nth_opt_def split: if_splits)
  then have "unat (buf ! 1) = ?n - 2" by (metis nat_diff_distrib' nat_int nat_numeral nat_uint_eq of_nat_0_le_iff zero_le_numeral)
  then have at1: "buf ! 1 = word_of_nat (4 + length R + length S)"
  proof -
    have "unat (buf ! 1) = 4 + length R + length S"
      using \<open>unat (buf ! 1) = ?n - 2\<close> c(3) lR lS by simp
    then show ?thesis by (metis byte_of_unat)
  qed
  have at3: "buf ! 3 = word_of_nat (length R)" "ls = word_of_nat (length S)"
    unfolding lR lS lr_def by simp_all
  have "take 4 buf = [buf ! 0, buf ! 1, buf ! 2, buf ! 3]"
    using n by (intro take_4) simp
  moreover have "take 2 (drop (4 + lr) buf) = [buf ! (4 + lr), buf ! (4 + lr + 1)]"
    using take_2 [of "drop (4 + lr) buf"] c(3) by simp
  moreover have "buf = take 4 buf @ R @ take 2 (drop (4 + lr) buf) @ S"
  proof -
    have "drop 4 buf = R @ drop (4 + lr) buf"
      using append_take_drop_id [of lr "drop 4 buf"] by (simp add: R_def slice_def add.commute)
    moreover have "drop (4 + lr) buf = take 2 (drop (4 + lr) buf) @ S"
      using append_take_drop_id [of 2 "drop (4 + lr) buf"] by (simp add: S_def)
    ultimately show ?thesis using append_take_drop_id [of 4 buf] by metis
  qed
  ultimately have buf: "buf = der_frame R S"
    unfolding der_frame_def at3(1) [symmetric] at3(2) [symmetric] at1 [symmetric]
    by (simp only: at append.simps append_assoc)
  have R0: "R \<noteq> []" and S0: "S \<noteq> []" using b(4) c(1) lR lS by auto
  have h: "?at 4 = Some (hd R)" "?at (lr + 4 + 2) = Some (hd S)"
    using der_frame_nth_R(1) [OF R0, of S] der_frame_nth_S(1) [OF S0, of R]
    by (simp_all only: buf [symmetric] lR)
  have k: "lr > 1 \<Longrightarrow> ?at 5 = Some (R ! 1)" "unat ls > 1 \<Longrightarrow> ?at (lr + 4 + 3) = Some (S ! 1)"
    using der_frame_nth_R(2) [of R S] der_frame_nth_S(2) [of S R]
    by (simp_all only: buf [symmetric] lR lS)
  have "pos_min R"
    using b(5,7) k(1) R0 unfolding h pos_min_def lR by (auto simp: top_bit_def)
  moreover have "pos_min S"
    using c(2,4) k(2) S0 unfolding h pos_min_def lS by (auto simp: top_bit_def)
  moreover have "length R + length S \<le> 66" using n c(3) lR lS by simp
  ultimately show ?thesis using that buf by blast
qed

text \<open>
  \<^verbatim>\<open>checkRawSignatureEncoding\<close> hands a DER signature without its hash type to \<^verbatim>\<open>fromTxFormat\<close>,
  which drops the last byte of \<open>S\<close>: the low S test then always throws.
\<close>

lemma parseDER_truncated: "S \<noteq> [] \<Longrightarrow> length R + length S \<le> 66 \<Longrightarrow>
    \<not> isOk (parseDER (slice (der_frame R S) 0 (length (der_frame R S) - 1)) strict)"
proof -
  assume S0: "S \<noteq> []" and len: "length R + length S \<le> 66"
  let ?f = "der_frame R S"
  define t where "t = slice ?f 0 (length ?f - 1)"
  have lt: "length t = 5 + length R + length S" by (simp add: t_def length_slice)
  have nth: "i < length t \<Longrightarrow> nth_opt t i = nth_opt ?f i" for i
    using lt by (simp add: t_def nth_opt_def slice_def)
  have l1: "1 \<le> length S" using S0 by (simp add: Suc_le_eq)
  have u: "unat (word_of_nat (length R) :: byte) = length R"
    "unat (word_of_nat (length S) :: byte) = length S"
    using len by (simp_all only: unat_byte_of_nat) simp_all
  have "nth_opt t 3 = Some (word_of_nat (length R))"
    and "nth_opt t (4 + length R + 1) = Some (word_of_nat (length S))"
    using lt l1 by (simp_all only: nth der_frame_nth)
  moreover have "length (slice t (4 + length R + 2) (4 + length R + 2 + length S)) \<noteq> length S"
    using lt l1 by (simp add: length_slice)
  ultimately have "\<not> isOk (parseDER t strict)"
    unfolding parseDER_def isOk_iff
    by (auto simp: Let_def u elim!: rbind_InrE)
  then show ?thesis by (simp add: t_def)
qed

lemma lowS_check_throws:
  assumes "isDER buf"
  shows "\<not> isOk (rbind (fromTxFormat buf) hasLowS)"
proof -
  from assms obtain R S where buf: "buf = der_frame R S" and S: "pos_min S"
    and len: "length R + length S \<le> 66" by (rule isDER_is_frame)
  let ?t = "slice buf 0 (length buf - 1)"
  have S0: "S \<noteq> []" using S by (simp add: pos_min_def)
  have "\<not> isOk (parseDER ?t False)"
    unfolding buf using S0 len by (rule parseDER_truncated)
  then obtain e where e: "parseDER ?t False = Inl e" by (cases "parseDER ?t False") auto
  have hd: "nth_opt ?t 0 = Some 0x30"
    using der_frame_nth(1) [of R S] by (simp add: buf nth_opt_def slice_def)
  have ne: "buf \<noteq> []" by (simp add: buf der_frame_def)
  show ?thesis
    unfolding fromTxFormat_def fromDER_def
    by (simp only: hd e ne) (simp add: hasLowS_def no_sig_def)
qed

section \<open>Properties\<close>

text \<open>DER encodings are unique: a buffer that passes \<^verbatim>\<open>isDER\<close> parses (strictly or not), and
  \<^verbatim>\<open>toDER\<close> of the two parsed values is that very buffer, so no second strict encoding of the
  same signature values exists.\<close>

theorem isDER_canonical:
  assumes "isDER buf"
  shows "\<exists>obj. parseDER buf strict = Inr obj \<and> toDER (der_r obj) (der_s obj) = buf"
proof -
  from assms obtain R S where buf: "buf = der_frame R S" and R: "pos_min R" and S: "pos_min S"
    and len: "length R + length S \<le> 66" by (rule isDER_is_frame)
  show ?thesis
    using parseDER_frame [of R S strict] len R S
    by (simp add: buf toDER_frame der_int_be_val)
qed

theorem isDER_canonical_witness:
  "\<exists>obj. parseDER [0x30, 6, 2, 1, 5, 2, 1, 7] True = Inr obj \<and>
     toDER (der_r obj) (der_s obj) = [0x30, 6, 2, 1, 5, 2, 1, 7]"
proof -
  have "isDER [0x30, 6, 2, 1, 5, 2, 1, 7]" by (simp add: isDER_def nth_opt_def top_bit_def)
  then show ?thesis by (rule isDER_canonical)
qed

text \<open>Signature values below \<open>2^256\<close> survive both transaction formats: the DER text of
  \<^verbatim>\<open>toTxFormat\<close> followed by a hash type byte passes \<^verbatim>\<open>isTxDER\<close> and \<^verbatim>\<open>fromTxFormat\<close> returns the
  values and the hash type (the one exception is a DER body of exactly 64 bytes, which the
  code refuses).\<close>

theorem txformat_roundtrip:
  assumes "r < 2 ^ 256" and "s < 2 ^ 256" and "h < 256" and "length (toDER r s) \<noteq> 64"
  shows "\<exists>buf. toTxFormat False r s h = Inr buf \<and> isTxDER buf \<and>
    fromTxFormat buf = Inr ((mk_sig r s)\<lparr>sig_nhashtype := Some h\<rparr>)"
proof -
  let ?d = "toDER r s" let ?buf = "?d @ [word_of_nat h]"
  have len: "length (der_int r) + length (der_int s) \<le> 66"
    using length_der_int [OF assms(1)] length_der_int [OF assms(2)] by simp
  have der: "isDER ?d"
    unfolding toDER_frame using pos_min_der_int pos_min_der_int len by (rule isDER_frame)
  have tx: "toTxFormat False r s h = Inr ?buf"
    using assms(3) by (simp add: toTxFormat_def node_writeUIntLE_def)
  have cut: "slice ?buf 0 (length ?buf - 1) = ?d" by (simp add: slice_def)
  have hd: "nth_opt ?d 0 = Some 0x30" unfolding toDER_frame by (rule der_frame_nth)
  have "parseDER ?d False = Inr
      \<lparr>der_length = 4 + length (der_int r) + length (der_int s), der_rlength = length (der_int r),
       der_rneg = (nth_opt ?d 4 = Some 0), der_r = r, der_slength = length (der_int s),
       der_sneg = (nth_opt ?d (4 + length (der_int r) + 4) = Some 0), der_s = s\<rparr>"
    unfolding toDER_frame using parseDER_frame [of "der_int r" "der_int s" False] len by simp
  then have "fromDER ?d False = Inr (mk_sig r s)"
    using assms(4) hd by (simp add: fromDER_def)
  then have "fromTxFormat ?buf = Inr ((mk_sig r s)\<lparr>sig_nhashtype := Some h\<rparr>)"
    using assms(3) by (simp add: fromTxFormat_def slice_def unat_byte_of_nat)
  with tx der cut show ?thesis by (simp add: isTxDER_def)
qed

theorem txformat_roundtrip_witness:
  "\<exists>buf. toTxFormat False 5 7 0x41 = Inr buf \<and> isTxDER buf \<and>
     fromTxFormat buf = Inr ((mk_sig 5 7)\<lparr>sig_nhashtype := Some 0x41\<rparr>)"
proof -
  have "length (toDER 5 7) \<noteq> 64"
    by (simp add: toDER_def toBuffer_def le_min_small Let_def)
  then show ?thesis using txformat_roundtrip [of 5 7 "0x41"] by simp
qed

lemma compact_back:
  assumes "0 \<le> i" and "i \<le> 3" and "r < 2 ^ 256" and "s < 2 ^ 256"
  shows "rbind (toCompact r s i compressed) fromCompact =
    Inr ((mk_sig r s)\<lparr>sig_i := Some i, sig_compressed := Some compressed\<rparr>)"
proof -
  have i: "i = 0 \<or> i = 1 \<or> i = 2 \<or> i = 3" using assms(1,2) by auto
  let ?R = "be_bytes 32 r" and ?S = "be_bytes 32 s"
  have RS: "toBuffer (Some 32) Big r = ?R" "toBuffer (Some 32) Big s = ?S"
    "be_val ?R = r" "be_val ?S = s"
    using assms(3,4) by (simp_all add: toBuffer_fixed be_val_be_bytes)
  have sl: "slice (b # ?R @ ?S) 1 33 = ?R" "slice (b # ?R @ ?S) 33 65 = ?S" for b
    using slice_at [of "[b]" ?R ?S] slice_at [of "b # ?R" ?S "[]"] by simp_all
  let ?val = "if compressed then i + 31 else i + 27"
  have enc: "toCompact r s i compressed = Inr (word_of_int ?val # ?R @ ?S)"
    unfolding toCompact_def RS using i by (auto simp: Let_def)
  have val: "int (unat (word_of_int ?val :: byte)) = ?val"
    using i by (elim disjE) (cases compressed; simp)+
  have dec: "fromCompact (b # ?R @ ?S) =
      Inr ((mk_sig r s)\<lparr>sig_i := Some i, sig_compressed := Some compressed\<rparr>)"
    if "int (unat b) = ?val" for b
  proof -
    have "uint b = ?val" using that by simp
    then show ?thesis
      unfolding fromCompact_def sl using i
      by (cases compressed) (auto simp: nth_opt_def checkArgument_def RS Let_def)
  qed
  show ?thesis
    unfolding enc rbind_simps using val by (rule dec)
qed

text \<open>The compact format round-trips: the recovery parameter, the compression flag and both
  values below \<open>2^256\<close> come back from \<^verbatim>\<open>fromCompact\<close>.\<close>

theorem compact_roundtrip:
  assumes "0 \<le> i" and "i \<le> 3" and "r < 2 ^ 256" and "s < 2 ^ 256"
  shows "rbind (toCompact r s i compressed) fromCompact =
    Inr ((mk_sig r s)\<lparr>sig_i := Some i, sig_compressed := Some compressed\<rparr>)"
  using assms by (rule compact_back)

theorem compact_roundtrip_witness:
  "rbind (toCompact 5 7 2 False) fromCompact =
    Inr ((mk_sig 5 7)\<lparr>sig_i := Some 2, sig_compressed := Some False\<rparr>)"
  using compact_roundtrip [of 2 5 7 False] by simp

end
