(* ===== verification/Script.thy ===== *)
theory Script
  imports Opcodes DerSignature "HOL-Library.List_Lexorder"
begin

text \<open>
  \<^verbatim>\<open>lib/script/script.js\<close>: scripts as lists of chunks, their binary form, the builders, the
  classification of standard scripts and the operations the interpreter uses.  Printing is
  characterised by \<open>chunk_bytes\<close>; the properties say that parsing and printing are inverse,
  that the interpreter's minimal push test agrees with the builder, what \<^verbatim>\<open>findAndDelete\<close>
  removes and leaves, and how signature operations are counted.
\<close>


section \<open>Chunks\<close>

text \<open>
  A chunk has an opcode number and, for data, a buffer with its declared length.  The buffer
  type is a parameter: the interpreter's chunks hold views of shared memory.  \<^verbatim>\<open>len\<close> is only
  read where the buffer is present, and is 0 in the model where it is not.
\<close>

record 'b chunk =
  chunk_buf :: "'b option"
  chunk_len :: nat
  chunk_op :: "nat option"

type_synonym script = "bytes chunk list"

definition op_chunk :: "nat option \<Rightarrow> 'b chunk" where
  "op_chunk n = \<lparr>chunk_buf = None, chunk_len = 0, chunk_op = n\<rparr>"

definition data_chunk :: "'b \<Rightarrow> nat \<Rightarrow> nat \<Rightarrow> 'b chunk" where
  "data_chunk buf len n = \<lparr>chunk_buf = Some buf, chunk_len = len, chunk_op = Some n\<rparr>"

definition is_op :: "'b chunk \<Rightarrow> nat \<Rightarrow> bool" where
  "is_op c n \<longleftrightarrow> chunk_op c = Some n"

text \<open>A comparison of a possibly undefined opcode number: false for \<^verbatim>\<open>undefined\<close>.\<close>

definition op_le :: "'b chunk \<Rightarrow> nat \<Rightarrow> bool" where
  "op_le c n = (case chunk_op c of None \<Rightarrow> False | Some k \<Rightarrow> k \<le> n)"

section \<open>Parsing and printing buffers\<close>

text \<open>
  One turn of the loop of \<^verbatim>\<open>Script.fromBuffer\<close>; \<open>mk a b\<close> is \<^verbatim>\<open>buffer.slice(a, b)\<close>.  A push whose
  data runs past the end keeps its declared length and a shorter buffer.
\<close>

definition push_chunk :: "(nat \<Rightarrow> nat \<Rightarrow> 'b) \<Rightarrow> nat \<Rightarrow> nat \<times> reader \<Rightarrow> 'b chunk \<times> reader" where
  "push_chunk mk opcodenum = (\<lambda>(len, r).
     (data_chunk (mk (rpos r) (rpos r + len)) len opcodenum, r\<lparr>rpos := rpos r + len\<rparr>))"

definition read_chunk :: "(nat \<Rightarrow> nat \<Rightarrow> 'b) \<Rightarrow> reader \<Rightarrow> ('b chunk \<times> reader) res" where
  "read_chunk mk r =
     rbind (readUInt8 r) (\<lambda>(opcodenum, r1).
       if opcodenum > 0 \<and> opcodenum < OP_PUSHDATA1
       then Inr (push_chunk mk opcodenum (opcodenum, r1))
       else if opcodenum = OP_PUSHDATA1 then rmap (push_chunk mk opcodenum) (readUInt8 r1)
       else if opcodenum = OP_PUSHDATA2 then rmap (push_chunk mk opcodenum) (readUInt16LE r1)
       else if opcodenum = OP_PUSHDATA4 then rmap (push_chunk mk opcodenum) (readUInt32LE r1)
       else Inr (op_chunk (Some opcodenum), r1))"

text \<open>The \<^verbatim>\<open>catch\<close> of the loop body.\<close>

definition invalid_buffer :: "js_error \<Rightarrow> js_error" where
  "invalid_buffer e = (if e = RangeErr then LibError ''Script.InvalidBuffer'' else e)"

lemma readUInt8_Inr: "readUInt8 r = Inr (v, r') \<Longrightarrow> rbuf r' = rbuf r \<and> rpos r' = Suc (rpos r)"
  by (auto simp: readUInt8_def advance_def rmap_Inr_iff)

lemma read_len_Inr:
  "readUInt16LE r = Inr (v, r') \<Longrightarrow> rbuf r' = rbuf r \<and> rpos r' = rpos r + 2"
  "readUInt32LE r = Inr (v, r') \<Longrightarrow> rbuf r' = rbuf r \<and> rpos r' = rpos r + 4"
  by (auto simp: readUInt16LE_def readUInt32LE_def advance_def rmap_Inr_iff)

lemma read_chunk_advances:
  "read_chunk mk r = Inr (c, r') \<Longrightarrow> rbuf r' = rbuf r \<and> rpos r < rpos r'"
  by (auto simp: read_chunk_def push_chunk_def rbind_Inr_iff rmap_Inr_iff split: if_splits
      dest!: readUInt8_Inr read_len_Inr)

function read_chunks :: "(nat \<Rightarrow> nat \<Rightarrow> 'b) \<Rightarrow> reader \<Rightarrow> 'b chunk list res" where
  "read_chunks mk r =
     (if eof r then Inr []
      else case read_chunk mk r of
             Inl e \<Rightarrow> Inl (invalid_buffer e)
           | Inr (c, r1) \<Rightarrow> rmap (\<lambda>cs. c # cs) (read_chunks mk r1))"
  by pat_completeness auto
termination
  by (relation "measure (\<lambda>(_, r). length (rbuf r) - rpos r)")
     (auto simp: eof_def dest: read_chunk_advances)

declare read_chunks.simps [simp del]

definition script_fromBuffer :: "bytes \<Rightarrow> script res" where
  "script_fromBuffer buffer = read_chunks (slice buffer) (rd buffer 0)"

text \<open>\<^verbatim>\<open>writeUInt8(undefined)\<close> writes a zero byte.\<close>

definition write_chunk :: "writer \<Rightarrow> bytes chunk \<Rightarrow> writer res" where
  "write_chunk bw chunk =
     rbind (writeUInt8 bw (case chunk_op chunk of None \<Rightarrow> 0 | Some n \<Rightarrow> n)) (\<lambda>bw.
       case (chunk_buf chunk, chunk_op chunk) of
         (Some buf, Some opcodenum) \<Rightarrow>
           if opcodenum < OP_PUSHDATA1 then Inr (writeBuf bw buf)
           else if opcodenum = OP_PUSHDATA1
             then rmap (\<lambda>bw. writeBuf bw buf) (writeUInt8 bw (chunk_len chunk))
           else if opcodenum = OP_PUSHDATA2
             then rmap (\<lambda>bw. writeBuf bw buf) (writeUInt16LE bw (chunk_len chunk))
           else if opcodenum = OP_PUSHDATA4
             then rmap (\<lambda>bw. writeBuf bw buf) (writeUInt32LE bw (chunk_len chunk))
           else Inr bw
       | _ \<Rightarrow> Inr bw)"

primrec write_chunks :: "writer \<Rightarrow> script \<Rightarrow> writer res" where
  "write_chunks bw [] = Inr bw"
| "write_chunks bw (c # cs) = rbind (write_chunk bw c) (\<lambda>bw. write_chunks bw cs)"

definition script_toBuffer :: "script \<Rightarrow> bytes res" where
  "script_toBuffer chunks = rmap writer_concat (write_chunks new_writer chunks)"

definition script_fromHex :: "string \<Rightarrow> script res" where
  "script_fromHex str = script_fromBuffer (of_hex str)"

definition script_toHex :: "script \<Rightarrow> string res" where
  "script_toHex chunks = rmap to_hex (script_toBuffer chunks)"

section \<open>What parsing and printing compute\<close>

definition chunk_bytes :: "bytes chunk \<Rightarrow> bytes" where
  "chunk_bytes c =
     (case chunk_op c of
        None \<Rightarrow> [0]
      | Some n \<Rightarrow> word_of_nat n #
         (case chunk_buf c of
            None \<Rightarrow> []
          | Some b \<Rightarrow> if n < 76 then b
                      else if n = 76 then le_bytes 1 (chunk_len c) @ b
                      else if n = 77 then le_bytes 2 (chunk_len c) @ b
                      else if n = 78 then le_bytes 4 (chunk_len c) @ b else []))"

text \<open>The chunks \<^verbatim>\<open>toBuffer\<close> can print: opcode and length fit in their fields.\<close>

definition printable :: "bytes chunk \<Rightarrow> bool" where
  "printable c \<longleftrightarrow>
     (case chunk_op c of
        None \<Rightarrow> True
      | Some n \<Rightarrow> n < 256 \<and> (chunk_buf c = None \<or>
          (n = 76 \<longrightarrow> chunk_len c < 2 ^ 8) \<and> (n = 77 \<longrightarrow> chunk_len c < 2 ^ 16) \<and>
          (n = 78 \<longrightarrow> chunk_len c < 2 ^ 32)))"

definition script_bytes :: "script \<Rightarrow> bytes" where
  "script_bytes cs = concat (map chunk_bytes cs)"

lemma write_chunk_eq:
  assumes "writer_ok w"
  shows "if printable c
    then \<exists>w'. write_chunk w c = Inr w' \<and> writer_ok w' \<and> writer_concat w' = writer_concat w @ chunk_bytes c
    else write_chunk w c = Inl RangeErr"
  using assms
  by (cases "chunk_op c"; cases "chunk_buf c")
     (auto simp: write_chunk_def printable_def chunk_bytes_def writeUInt8_def writeUInt16LE_def
        writeUInt32LE_def node_writeUIntLE_def)

lemma write_chunks_eq:
  "writer_ok w \<Longrightarrow> if list_all printable cs
    then \<exists>w'. write_chunks w cs = Inr w' \<and> writer_ok w' \<and> writer_concat w' = writer_concat w @ script_bytes cs
    else write_chunks w cs = Inl RangeErr"
proof (induction cs arbitrary: w)
  case (Cons c cs)
  note c = write_chunk_eq [OF Cons.prems, of c]
  show ?case
  proof (cases "printable c")
    case True
    with c obtain w1 where w1: "write_chunk w c = Inr w1" "writer_ok w1"
      "writer_concat w1 = writer_concat w @ chunk_bytes c" by auto
    show ?thesis using Cons.IH [OF w1(2)] w1 True by (auto simp: script_bytes_def)
  qed (use c in simp)
qed (simp add: script_bytes_def)

lemma script_toBuffer_eq [result_simps]:
  "script_toBuffer cs = (if list_all printable cs then Inr (script_bytes cs) else Inl RangeErr)"
  using write_chunks_eq [of new_writer cs] by (auto simp: script_toBuffer_def split: if_splits)

lemma script_bytes_simps [simp]:
  "script_bytes [] = []"
  "script_bytes (c # cs) = chunk_bytes c @ script_bytes cs"
  "script_bytes (as @ bs) = script_bytes as @ script_bytes bs"
  by (simp_all add: script_bytes_def)

text \<open>What a successful field read says about the buffer.\<close>

lemma slice_split: "a \<le> b \<Longrightarrow> b \<le> c \<Longrightarrow> slice xs a c = slice xs a b @ slice xs b c"
proof -
  assume "a \<le> b" "b \<le> c"
  then have "c - a = (b - a) + (c - b)" and "b = (b - a) + a" by simp_all
  then show ?thesis by (metis drop_drop slice_def take_add)
qed

lemma node_readUIntLE_Inr:
  assumes "node_readUIntLE k buf pos = Inr v"
  shows "v < 256 ^ k \<and> slice buf pos (pos + k) = le_bytes k v"
proof -
  have v: "v = le_val (slice buf pos (pos + k))" and len: "length (slice buf pos (pos + k)) = k"
    using assms by (simp_all add: node_readUIntLE_def length_slice split: if_splits)
  show ?thesis
    using le_val_less [of "slice buf pos (pos + k)"] le_bytes_le_val [of "slice buf pos (pos + k)"]
    by (simp add: v len)
qed

lemma field_Inr:
  "readUInt8 r = Inr (v, r') \<Longrightarrow>
    r' = r\<lparr>rpos := rpos r + 1\<rparr> \<and> v < 256 \<and> slice (rbuf r) (rpos r) (rpos r + 1) = [word_of_nat v]"
  "readUInt16LE r = Inr (v, r') \<Longrightarrow>
    r' = r\<lparr>rpos := rpos r + 2\<rparr> \<and> v < 65536 \<and> slice (rbuf r) (rpos r) (rpos r + 2) = le_bytes 2 v"
  "readUInt32LE r = Inr (v, r') \<Longrightarrow>
    r' = r\<lparr>rpos := rpos r + 4\<rparr> \<and> v < 4294967296 \<and> slice (rbuf r) (rpos r) (rpos r + 4) = le_bytes 4 v"
  by (auto simp: readUInt8_def readUInt16LE_def readUInt32LE_def advance_def rmap_Inr_iff
      dest: node_readUIntLE_Inr)

lemma read_chunk_bytes:
  assumes "read_chunk (slice buffer) r = Inr (c, r')" and "rbuf r = buffer"
  shows "rbuf r' = buffer \<and> rpos r < rpos r' \<and> printable c \<and>
    chunk_bytes c = slice buffer (rpos r) (rpos r')"
proof -
  obtain n r1 where r1: "readUInt8 r = Inr (n, r1)"
    and rest: "(if n > 0 \<and> n < 76 then Inr (push_chunk (slice buffer) n (n, r1))
       else if n = 76 then rmap (push_chunk (slice buffer) n) (readUInt8 r1)
       else if n = 77 then rmap (push_chunk (slice buffer) n) (readUInt16LE r1)
       else if n = 78 then rmap (push_chunk (slice buffer) n) (readUInt32LE r1)
       else Inr (op_chunk (Some n), r1)) = Inr (c, r')"
    using assms(1) by (auto simp: read_chunk_def rbind_Inr_iff)
  let ?p = "rpos r"
  have n: "r1 = r\<lparr>rpos := ?p + 1\<rparr>" "n < 256" "slice buffer ?p (?p + 1) = [word_of_nat n]"
    using field_Inr(1) [OF r1] assms(2) by simp_all
  have sp: "slice buffer ?p (?p + 1 + k + l) =
      word_of_nat n # slice buffer (?p + 1) (?p + 1 + k) @ slice buffer (?p + 1 + k) (?p + 1 + k + l)" for k l
    using slice_split [of ?p "?p + 1" "?p + 1 + k + l" buffer] n(3)
      slice_split [of "?p + 1" "?p + 1 + k" "?p + 1 + k + l" buffer] by simp
  consider (small) "n > 0" "n < 76" | (p1) "n = 76" | (p2) "n = 77" | (p4) "n = 78"
    | (op) "n = 0 \<or> 78 < n" by linarith
  then show ?thesis
  proof cases
    case small
    with rest n sp [of 0 n] assms(2) show ?thesis
      by (auto simp: push_chunk_def data_chunk_def printable_def chunk_bytes_def slice_def)
  next
    case p1
    with rest obtain l r2 where r2: "readUInt8 r1 = Inr (l, r2)"
      and c: "(c, r') = push_chunk (slice buffer) n (l, r2)" by (auto simp: rmap_Inr_iff)
    from field_Inr(1) [OF r2] c p1 n sp [of 1 l] assms(2) show ?thesis
      by (simp add: push_chunk_def data_chunk_def printable_def chunk_bytes_def)
  next
    case p2
    with rest obtain l r2 where r2: "readUInt16LE r1 = Inr (l, r2)"
      and c: "(c, r') = push_chunk (slice buffer) n (l, r2)" by (auto simp: rmap_Inr_iff)
    from field_Inr(2) [OF r2] c p2 n sp [of 2 l] assms(2) show ?thesis
      by (simp add: push_chunk_def data_chunk_def printable_def chunk_bytes_def)
  next
    case p4
    with rest obtain l r2 where r2: "readUInt32LE r1 = Inr (l, r2)"
      and c: "(c, r') = push_chunk (slice buffer) n (l, r2)" by (auto simp: rmap_Inr_iff)
    from field_Inr(3) [OF r2] c p4 n sp [of 4 l] assms(2) show ?thesis
      by (simp add: push_chunk_def data_chunk_def printable_def chunk_bytes_def)
  next
    case op
    with rest n assms(2) show ?thesis
      by (auto simp: op_chunk_def printable_def chunk_bytes_def)
  qed
qed

lemma read_chunks_bytes:
  "read_chunks (slice buffer) r = Inr cs \<Longrightarrow> rbuf r = buffer \<Longrightarrow>
    list_all printable cs \<and> script_bytes cs = drop (rpos r) buffer"
proof (induction "slice buffer" r arbitrary: cs rule: read_chunks.induct)
  case (1 r)
  show ?case
  proof (cases "eof r")
    case True
    with "1.prems" show ?thesis by (simp add: read_chunks.simps [of _ r] eof_def)
  next
    case False
    with "1.prems" obtain c r1 cs' where c: "read_chunk (slice buffer) r = Inr (c, r1)"
      and cs': "read_chunks (slice buffer) r1 = Inr cs'" and cs: "cs = c # cs'"
      by (auto simp: read_chunks.simps [of _ r] rmap_Inr_iff split: sum.splits)
    note rc = read_chunk_bytes [OF c "1.prems"(2)]
    have IH: "list_all printable cs' \<and> script_bytes cs' = drop (rpos r1) buffer"
      using "1.hyps" [OF False c refl] cs' rc by blast
    have "drop (rpos r) buffer = slice buffer (rpos r) (rpos r1) @ drop (rpos r1) buffer"
      using append_take_drop_id [of "rpos r1 - rpos r" "drop (rpos r) buffer"] rc
      by (simp add: slice_def)
    with IH rc show ?thesis by (simp add: cs)
  qed
qed

lemma script_fromBuffer_bytes:
  "script_fromBuffer bs = Inr cs \<Longrightarrow> list_all printable cs \<and> script_bytes cs = bs"
  using read_chunks_bytes [of bs "rd bs 0" cs] by (simp add: script_fromBuffer_def)

section \<open>Building\<close>

datatype script_item = AddOp nat | AddName string | AddBuf bytes | AddScript script | AddChunk "bytes chunk"

definition insertAtPosition :: "'b chunk \<Rightarrow> bool \<Rightarrow> 'b chunk list \<Rightarrow> 'b chunk list" where
  "insertAtPosition c prepend chunks = (if prepend then c # chunks else chunks @ [c])"

definition push_opcode :: "nat \<Rightarrow> nat res" where
  "push_opcode len =
     (if len < OP_PUSHDATA1 then Inr len
      else if len < 2 ^ 8 then Inr OP_PUSHDATA1
      else if len < 2 ^ 16 then Inr OP_PUSHDATA2
      else if len < 2 ^ 32 then Inr OP_PUSHDATA4
      else Inl (PlainError ''You can't push that much data''))"

definition addBuffer :: "bytes \<Rightarrow> bool \<Rightarrow> script \<Rightarrow> script res" where
  "addBuffer buf prepend chunks =
     rmap (\<lambda>n. insertAtPosition (data_chunk buf (length buf) n) prepend chunks)
       (push_opcode (length buf))"

definition addOpcode :: "opcode_arg \<Rightarrow> bool \<Rightarrow> script \<Rightarrow> script" where
  "addOpcode a prepend chunks = insertAtPosition (op_chunk (Opcode a)) prepend chunks"

definition addByType :: "script_item \<Rightarrow> bool \<Rightarrow> script \<Rightarrow> script res" where
  "addByType obj prepend chunks =
     (case obj of
        AddName s \<Rightarrow> Inr (addOpcode (OpStr s) prepend chunks)
      | AddOp n \<Rightarrow> Inr (addOpcode (OpNum n) prepend chunks)
      | AddBuf b \<Rightarrow> addBuffer b prepend chunks
      | AddScript s \<Rightarrow> Inr (chunks @ s)
      | AddChunk c \<Rightarrow> Inr (insertAtPosition c prepend chunks))"

definition script_add :: "script_item \<Rightarrow> script \<Rightarrow> script res" where
  "script_add obj chunks = addByType obj False chunks"

definition script_prepend :: "script_item \<Rightarrow> script \<Rightarrow> script res" where
  "script_prepend obj chunks = addByType obj True chunks"

text \<open>A chain of \<^verbatim>\<open>add\<close> calls.\<close>

primrec add_all :: "script_item list \<Rightarrow> script \<Rightarrow> script res" where
  "add_all [] chunks = Inr chunks"
| "add_all (x # xs) chunks = rbind (script_add x chunks) (add_all xs)"

definition script_equals :: "script \<Rightarrow> script \<Rightarrow> bool" where
  "script_equals a b \<longleftrightarrow>
     length a = length b \<and>
     list_all2 (\<lambda>c d. (case chunk_buf c of None \<Rightarrow> True | Some x \<Rightarrow> chunk_buf d = Some x) \<and>
       chunk_op c = chunk_op d) a b"

definition removeCodeseparators :: "'b chunk list \<Rightarrow> 'b chunk list" where
  "removeCodeseparators chunks = filter (\<lambda>c. \<not> is_op c OP_CODESEPARATOR) chunks"

section \<open>Classification\<close>

text \<open>
  \<^verbatim>\<open>PublicKey.isValid\<close> parses a point of the curve with the npm package \<^verbatim>\<open>elliptic\<close> and is a
  parameter.  The predicates that print the script can throw, so they are results.
\<close>

definition is_key_shape :: "bytes \<Rightarrow> bool" where
  "is_key_shape b =
     (case b of [] \<Rightarrow> False
      | version # _ \<Rightarrow>
          (version = 0x04 \<or> version = 0x06 \<or> version = 0x07) \<and> length b = 65 \<or>
          (version = 0x03 \<or> version = 0x02) \<and> length b = 33)"

definition isPublicKeyHashOut :: "script \<Rightarrow> bool" where
  "isPublicKeyHashOut chunks \<longleftrightarrow>
     length chunks = 5 \<and> is_op (chunks ! 0) OP_DUP \<and> is_op (chunks ! 1) OP_HASH160 \<and>
     map_option length (chunk_buf (chunks ! 2)) = Some 20 \<and>
     is_op (chunks ! 3) OP_EQUALVERIFY \<and> is_op (chunks ! 4) OP_CHECKSIG"

definition isPublicKeyHashIn :: "script \<Rightarrow> bool" where
  "isPublicKeyHashIn chunks =
     (if length chunks = 2
      then (case (chunk_buf (chunks ! 0), chunk_buf (chunks ! 1)) of
              (Some signatureBuf, Some pubkeyBuf) \<Rightarrow> signatureBuf \<noteq> [] \<and> is_key_shape pubkeyBuf
            | _ \<Rightarrow> False)
      else False)"

definition isPublicKeyOut :: "(bytes \<Rightarrow> bool) \<Rightarrow> script \<Rightarrow> bool" where
  "isPublicKeyOut isValid chunks =
     (if length chunks = 2 \<and> is_op (chunks ! 1) OP_CHECKSIG
      then (case chunk_buf (chunks ! 0) of
              Some pubkeyBuf \<Rightarrow> is_key_shape pubkeyBuf \<and> isValid pubkeyBuf
            | None \<Rightarrow> False)
      else False)"

definition isPublicKeyIn :: "script \<Rightarrow> bool" where
  "isPublicKeyIn chunks =
     (if length chunks = 1
      then (case chunk_buf (chunks ! 0) of
              Some signatureBuf \<Rightarrow> nth_opt signatureBuf 0 = Some 0x30
            | None \<Rightarrow> False)
      else False)"

definition isScriptHashOut :: "script \<Rightarrow> bool res" where
  "isScriptHashOut chunks =
     rmap (\<lambda>buf. length buf = 23 \<and> unat (buf ! 0) = OP_HASH160 \<and> buf ! 1 = 0x14 \<and>
             unat (buf ! (length buf - 1)) = OP_EQUAL) (script_toBuffer chunks)"

definition isMultisigOut :: "script \<Rightarrow> bool" where
  "isMultisigOut chunks \<longleftrightarrow>
     length chunks > 3 \<and>
     (case chunk_op (chunks ! 0) of Some n \<Rightarrow> isSmallIntOp n | None \<Rightarrow> False) \<and>
     list_all (\<lambda>c. chunk_buf c \<noteq> None) (slice chunks 1 (length chunks - 2)) \<and>
     (case chunk_op (chunks ! (length chunks - 2)) of Some n \<Rightarrow> isSmallIntOp n | None \<Rightarrow> False) \<and>
     is_op (chunks ! (length chunks - 1)) OP_CHECKMULTISIG"

definition isMultisigIn :: "script \<Rightarrow> bool" where
  "isMultisigIn chunks \<longleftrightarrow>
     length chunks \<ge> 2 \<and> is_op (chunks ! 0) 0 \<and>
     list_all (\<lambda>c. case chunk_buf c of Some b \<Rightarrow> isTxDER b | None \<Rightarrow> False) (tl chunks)"

definition isPushOnly :: "'b chunk list \<Rightarrow> bool" where
  "isPushOnly chunks =
     list_all (\<lambda>c. op_le c OP_16 \<or> is_op c OP_PUSHDATA1 \<or> is_op c OP_PUSHDATA2 \<or>
       is_op c OP_PUSHDATA4) chunks"

definition isDataOut :: "script \<Rightarrow> bool res" where
  "isDataOut chunks =
     (if chunks \<noteq> [] \<and> is_op (hd chunks) OP_RETURN
      then rmap (\<lambda>buf. length buf \<le> 223 \<and> isPushOnly (tl chunks)) (script_toBuffer chunks)
      else Inr False)"

datatype script_type =
    UNKNOWN | PUBKEY_OUT | PUBKEY_IN | PUBKEYHASH_OUT | PUBKEYHASH_IN | SCRIPTHASH_OUT
  | SCRIPTHASH_IN | MULTISIG_OUT | MULTISIG_IN | DATA_OUT

text \<open>The identifiers are tried in the order of the object literal.\<close>

primrec first_type :: "(script_type \<times> (script \<Rightarrow> bool res)) list \<Rightarrow> script \<Rightarrow> script_type res" where
  "first_type [] chunks = Inr UNKNOWN"
| "first_type (p # ps) chunks =
     rbind (snd p chunks) (\<lambda>b. if b then Inr (fst p) else first_type ps chunks)"

definition classifyOutput :: "(bytes \<Rightarrow> bool) \<Rightarrow> script \<Rightarrow> script_type res" where
  "classifyOutput isValid chunks =
     first_type
       [(PUBKEY_OUT, \<lambda>cs. Inr (isPublicKeyOut isValid cs)),
        (PUBKEYHASH_OUT, \<lambda>cs. Inr (isPublicKeyHashOut cs)),
        (MULTISIG_OUT, \<lambda>cs. Inr (isMultisigOut cs)),
        (SCRIPTHASH_OUT, isScriptHashOut),
        (DATA_OUT, isDataOut)] chunks"

text \<open>
  \<^verbatim>\<open>isScriptHashIn\<close> classifies the redeem script, whose input classification may look for a
  redeem script again: \<open>classifyInput\<close> and \<open>isScriptHashIn\<close> are one recursion, on the size of
  the data the chunks carry.
\<close>

definition script_weight :: "script \<Rightarrow> nat" where
  "script_weight cs =
     sum_list (map (\<lambda>c. Suc (case chunk_buf c of None \<Rightarrow> 0 | Some b \<Rightarrow> length b)) cs)"

lemma script_weight_bytes: "script_weight cs \<le> length (script_bytes cs) \<or>
    (\<exists>c \<in> set cs. chunk_buf c \<noteq> None \<and> (case chunk_op c of None \<Rightarrow> True | Some n \<Rightarrow> 78 < n))"
proof (induction cs)
  case (Cons c cs)
  then show ?case
    by (cases "chunk_op c"; cases "chunk_buf c")
       (auto simp: script_weight_def chunk_bytes_def)
qed (simp add: script_weight_def)

lemma read_chunks_pushes:
  "read_chunks mk r = Inr cs \<Longrightarrow> c \<in> set cs \<Longrightarrow> chunk_buf c \<noteq> None \<Longrightarrow>
    \<exists>n. chunk_op c = Some n \<and> 0 < n \<and> n \<le> 78"
proof (induction mk r arbitrary: cs rule: read_chunks.induct)
  case (1 mk r)
  show ?case
  proof (cases "eof r")
    case True
    with "1.prems" show ?thesis by (simp add: read_chunks.simps [of _ r])
  next
    case False
    with "1.prems"(1) obtain d r1 ds where d: "read_chunk mk r = Inr (d, r1)"
      and ds: "read_chunks mk r1 = Inr ds" and cs: "cs = d # ds"
      by (auto simp: read_chunks.simps [of _ r] rmap_Inr_iff split: sum.splits)
    show ?thesis
    proof (cases "c = d")
      case True
      with d "1.prems"(3) show ?thesis
        by (auto simp: read_chunk_def push_chunk_def data_chunk_def op_chunk_def rbind_Inr_iff
            rmap_Inr_iff split: if_splits)
    next
      case cd: False
      then show ?thesis using "1.IH" [OF False d refl ds] cs "1.prems"(2,3) by simp
    qed
  qed
qed

lemma script_fromBuffer_pushes:
  "script_fromBuffer bs = Inr cs \<Longrightarrow> c \<in> set cs \<Longrightarrow> chunk_buf c \<noteq> None \<Longrightarrow>
    \<exists>n. chunk_op c = Some n \<and> 0 < n \<and> n \<le> 78"
  unfolding script_fromBuffer_def by (rule read_chunks_pushes)

lemma redeem_weight:
  assumes "script_fromBuffer b = Inr r" and "chunk_buf (last cs) = Some b" and "cs \<noteq> []"
  shows "script_weight r < script_weight cs"
proof -
  have "script_weight r \<le> length b"
    using script_weight_bytes [of r] script_fromBuffer_bytes [OF assms(1)]
      script_fromBuffer_pushes [OF assms(1)] by fastforce
  moreover have "script_weight cs = script_weight (butlast cs) + Suc (length b)"
    using assms(2,3) by (cases cs rule: rev_cases) (simp_all add: script_weight_def)
  ultimately show ?thesis by simp
qed

function classifyInput :: "(bytes \<Rightarrow> bool) \<Rightarrow> script \<Rightarrow> script_type res" where
  "classifyInput isValid chunks =
     first_type
       [(PUBKEY_IN, \<lambda>cs. Inr (isPublicKeyIn cs)),
        (PUBKEYHASH_IN, \<lambda>cs. Inr (isPublicKeyHashIn cs)),
        (MULTISIG_IN, \<lambda>cs. Inr (isMultisigIn cs)),
        (SCRIPTHASH_IN, \<lambda>_.
           if length chunks \<le> 1 then Inr False
           else case chunk_buf (last chunks) of
             None \<Rightarrow> Inr False
           | Some redeemBuf \<Rightarrow>
             (case script_fromBuffer redeemBuf of
                Inl e \<Rightarrow> if e = LibError ''Script.InvalidBuffer'' then Inr False else Inl e
              | Inr redeemScript \<Rightarrow>
                  rbind (classifyOutput isValid redeemScript) (\<lambda>outputType.
                    if outputType \<noteq> UNKNOWN then Inr True
                    else rmap (\<lambda>t. t \<noteq> UNKNOWN) (classifyInput isValid redeemScript))))] chunks"
  by pat_completeness auto
termination
  by (relation "measure (\<lambda>(_, cs). script_weight cs)") (auto intro!: redeem_weight)

declare classifyInput.simps [simp del]

text \<open>\<^verbatim>\<open>_isInput\<close> and \<^verbatim>\<open>_isOutput\<close> are set by transaction inputs and outputs.\<close>

definition classify :: "(bytes \<Rightarrow> bool) \<Rightarrow> bool \<Rightarrow> bool \<Rightarrow> script \<Rightarrow> script_type res" where
  "classify isValid isInput isOutput chunks =
     (if isInput then classifyInput isValid chunks
      else if isOutput then classifyOutput isValid chunks
      else rbind (classifyOutput isValid chunks) (\<lambda>outputType.
        if outputType \<noteq> UNKNOWN then Inr outputType else classifyInput isValid chunks))"

definition isStandard :: "(bytes \<Rightarrow> bool) \<Rightarrow> bool \<Rightarrow> bool \<Rightarrow> script \<Rightarrow> bool res" where
  "isStandard isValid isInput isOutput chunks =
     rmap (\<lambda>t. t \<noteq> UNKNOWN) (classify isValid isInput isOutput chunks)"

definition isScriptHashIn :: "(bytes \<Rightarrow> bool) \<Rightarrow> script \<Rightarrow> bool res" where
  "isScriptHashIn isValid chunks =
     (if length chunks \<le> 1 then Inr False
      else case chunk_buf (last chunks) of
        None \<Rightarrow> Inr False
      | Some redeemBuf \<Rightarrow>
        (case script_fromBuffer redeemBuf of
           Inl e \<Rightarrow> if e = LibError ''Script.InvalidBuffer'' then Inr False else Inl e
         | Inr redeemScript \<Rightarrow>
             rmap (\<lambda>t. t \<noteq> UNKNOWN) (classify isValid False False redeemScript)))"

section \<open>Data and addresses\<close>

definition getPublicKey :: "(bytes \<Rightarrow> bool) \<Rightarrow> script \<Rightarrow> bytes res" where
  "getPublicKey isValid chunks =
     rbind (checkState (isPublicKeyOut isValid chunks)
              ''Can't retrieve PublicKey from a non-PK output'')
       (\<lambda>_. Inr (the (chunk_buf (chunks ! 0))))"

definition getPublicKeyHash :: "script \<Rightarrow> bytes res" where
  "getPublicKeyHash chunks =
     rbind (checkState (isPublicKeyHashOut chunks)
              ''Can't retrieve PublicKeyHash from a non-PKH output'')
       (\<lambda>_. Inr (the (chunk_buf (chunks ! 2))))"

text \<open>\<^verbatim>\<open>Buffer.from(undefined)\<close> is a type error.\<close>

definition node_from :: "bytes option \<Rightarrow> bytes res" where
  "node_from b = (case b of None \<Rightarrow> Inl TypeErr | Some x \<Rightarrow> Inr x)"

definition getData :: "script \<Rightarrow> bytes res" where
  "getData chunks =
     rbind (rbind (isDataOut chunks) (\<lambda>d. if d then Inr True else isScriptHashOut chunks)) (\<lambda>b.
       if b then (if length chunks \<le> 1 then Inr [] else node_from (chunk_buf (chunks ! 1)))
       else if isPublicKeyHashOut chunks then node_from (chunk_buf (chunks ! 2))
       else Inl (PlainError ''Unrecognized script type to get data from''))"

datatype address_type = PayToPublicKeyHash | PayToScriptHash

text \<open>\<open>hash160\<close> is \<^verbatim>\<open>Hash.sha256ripemd160\<close>; \<^verbatim>\<open>false\<close> is \<open>None\<close>.\<close>

definition getOutputAddressInfo :: "script \<Rightarrow> (address_type \<times> bytes) option res" where
  "getOutputAddressInfo chunks =
     rbind (isScriptHashOut chunks) (\<lambda>b.
       if b then rmap (\<lambda>h. Some (PayToScriptHash, h)) (getData chunks)
       else if isPublicKeyHashOut chunks
         then rmap (\<lambda>h. Some (PayToPublicKeyHash, h)) (getData chunks)
       else Inr None)"

definition getInputAddressInfo ::
  "(bytes \<Rightarrow> bool) \<Rightarrow> (bytes \<Rightarrow> bytes) \<Rightarrow> script \<Rightarrow> (address_type \<times> bytes) option res" where
  "getInputAddressInfo isValid hash160 chunks =
     (if isPublicKeyHashIn chunks
      then Inr (Some (PayToPublicKeyHash, hash160 (the (chunk_buf (chunks ! 1)))))
      else rmap (\<lambda>b. if b then Some (PayToScriptHash, hash160 (the (chunk_buf (last chunks)))) else None)
        (isScriptHashIn isValid chunks))"

definition getAddressInfo ::
  "(bytes \<Rightarrow> bool) \<Rightarrow> (bytes \<Rightarrow> bytes) \<Rightarrow> bool \<Rightarrow> bool \<Rightarrow> script \<Rightarrow>
     (address_type \<times> bytes) option res" where
  "getAddressInfo isValid hash160 isInput isOutput chunks =
     (if isInput then getInputAddressInfo isValid hash160 chunks
      else if isOutput then getOutputAddressInfo chunks
      else rbind (getOutputAddressInfo chunks) (\<lambda>info.
        case info of None \<Rightarrow> getInputAddressInfo isValid hash160 chunks | Some i \<Rightarrow> Inr (Some i)))"

section \<open>Script builders\<close>

definition buildPublicKeyHashOut :: "bytes \<Rightarrow> script res" where
  "buildPublicKeyHashOut hashBuffer =
     add_all [AddOp OP_DUP, AddOp OP_HASH160, AddBuf hashBuffer, AddOp OP_EQUALVERIFY,
       AddOp OP_CHECKSIG] []"

definition buildPublicKeyOut :: "bytes \<Rightarrow> script res" where
  "buildPublicKeyOut pubkey = add_all [AddBuf pubkey, AddOp OP_CHECKSIG] []"

definition buildDataOut :: "bytes option \<Rightarrow> script res" where
  "buildDataOut data =
     add_all (AddOp OP_RETURN # (case data of None \<Rightarrow> [] | Some d \<Rightarrow> [AddBuf d])) []"

definition buildScriptHashOut :: "bytes \<Rightarrow> script res" where
  "buildScriptHashOut hashBuffer =
     add_all [AddOp OP_HASH160, AddBuf hashBuffer, AddOp OP_EQUAL] []"

definition toScriptHashOut :: "(bytes \<Rightarrow> bytes) \<Rightarrow> script \<Rightarrow> script res" where
  "toScriptHashOut hash160 chunks =
     rbind (script_toBuffer chunks) (\<lambda>b. buildScriptHashOut (hash160 b))"

definition script_fromAddress :: "address_type \<Rightarrow> bytes \<Rightarrow> script res" where
  "script_fromAddress t hashBuffer =
     (case t of PayToScriptHash \<Rightarrow> buildScriptHashOut hashBuffer
      | PayToPublicKeyHash \<Rightarrow> buildPublicKeyHashOut hashBuffer)"

text \<open>
  \<^verbatim>\<open>_.sortBy\<close> is stable and compares the lower case hexadecimal texts of the keys, which
  order as the byte lists do.
\<close>

definition buildMultisigOut :: "bytes list \<Rightarrow> nat \<Rightarrow> bool \<Rightarrow> script res" where
  "buildMultisigOut publicKeys threshold noSorting =
     rbind (checkArgument (threshold \<le> length publicKeys)
       ''Number of required signatures must be less than or equal to the number of public keys'') (\<lambda>_.
     rbind (smallInt threshold) (\<lambda>m.
     rbind (add_all [AddOp m] []) (\<lambda>script.
     let sorted = (if noSorting then publicKeys else sort_key (map unat) publicKeys) in
     rbind (add_all (map AddBuf sorted) script) (\<lambda>script.
     rbind (smallInt (length publicKeys)) (\<lambda>n.
       add_all [AddOp n, AddOp OP_CHECKMULTISIG] script)))))"

text \<open>The bit field \<^verbatim>\<open>checkBits\<close>, first key first, read as a binary number.\<close>

definition bits_value :: "bool list \<Rightarrow> nat" where
  "bits_value bs = foldr (\<lambda>b acc. of_bool b + 2 * acc) bs 0"

definition checkBits_items :: "nat \<Rightarrow> nat \<Rightarrow> (nat \<Rightarrow> nat res) \<Rightarrow> script_item list res" where
  "checkBits_items N bits small =
     (if 1 \<le> N \<and> N \<le> 4 then rmap (\<lambda>n. [AddOp n]) (small bits)
      else if 5 \<le> N \<and> N \<le> 8 then
        (if bits = 0x81 then Inr [AddOp OP_1NEGATE]
         else if bits > 0x10 then Inr [AddOp 0x01, AddOp bits]
         else rmap (\<lambda>n. [AddOp n]) (small bits))
      else if 9 \<le> N \<and> N \<le> 16 then Inr [AddOp 0x02, AddOp bits]
      else if 17 \<le> N \<and> N \<le> 20 then Inr [AddOp 0x03, AddOp bits]
      else Inr [])"

definition buildMultisigIn :: "nat \<Rightarrow> bytes list \<Rightarrow> bool list option \<Rightarrow> script res" where
  "buildMultisigIn npubkeys signatures checkBits =
     rbind (case checkBits of
              Some bits \<Rightarrow> checkBits_items npubkeys (bits_value bits) Inr
            | None \<Rightarrow> Inr [AddOp OP_0]) (\<lambda>items.
       add_all (items @ map AddBuf signatures) [])"

definition buildP2SHMultisigIn ::
  "bytes list \<Rightarrow> nat \<Rightarrow> bytes list \<Rightarrow> bool list option \<Rightarrow> bool \<Rightarrow> script option \<Rightarrow> script res" where
  "buildP2SHMultisigIn pubkeys threshold signatures checkBits noSorting cachedMultisig =
     rbind (case checkBits of
              Some bits \<Rightarrow> checkBits_items (length pubkeys) (bits_value bits) smallInt
            | None \<Rightarrow> Inr [AddOp OP_0]) (\<lambda>items.
     rbind (add_all (items @ map AddBuf signatures) []) (\<lambda>s.
     rbind (case cachedMultisig of
              Some m \<Rightarrow> Inr m | None \<Rightarrow> buildMultisigOut pubkeys threshold noSorting) (\<lambda>redeem.
     rbind (script_toBuffer redeem) (\<lambda>b. script_add (AddBuf b) s))))"

definition buildPublicKeyIn :: "bytes \<Rightarrow> nat option \<Rightarrow> script res" where
  "buildPublicKeyIn signature sigtype =
     add_all [AddBuf (signature @ [word_of_nat (case sigtype of Some n \<Rightarrow> if n = 0 then SIGHASH_ALL else n
        | None \<Rightarrow> SIGHASH_ALL)])] []"

definition buildPublicKeyHashIn :: "bytes \<Rightarrow> bytes \<Rightarrow> nat option \<Rightarrow> script res" where
  "buildPublicKeyHashIn publicKey signature sigtype =
     add_all [AddBuf (signature @ [word_of_nat (case sigtype of Some n \<Rightarrow> if n = 0 then SIGHASH_ALL else n
        | None \<Rightarrow> SIGHASH_ALL)]), AddBuf publicKey] []"

section \<open>Operations of the interpreter on scripts\<close>

text \<open>
  \<^verbatim>\<open>findAndDelete\<close>: the loop index advances after \<^verbatim>\<open>splice\<close> too, so the chunk that follows a
  deleted one is kept without being looked at.
\<close>

fun delete_chunks :: "bytes \<Rightarrow> script \<Rightarrow> script res" where
  "delete_chunks buf [] = Inr []"
| "delete_chunks buf (c # cs) =
     rbind (script_toBuffer [c]) (\<lambda>buf2.
       if buf = buf2
       then (case cs of [] \<Rightarrow> Inr [] | d # ds \<Rightarrow> rmap (\<lambda>rest. d # rest) (delete_chunks buf ds))
       else rmap (\<lambda>rest. c # rest) (delete_chunks buf cs))"

definition findAndDelete :: "script \<Rightarrow> script \<Rightarrow> script res" where
  "findAndDelete chunks script = rbind (script_toBuffer script) (\<lambda>buf. delete_chunks buf chunks)"

definition minimal_push :: "bytes \<Rightarrow> nat option \<Rightarrow> bool" where
  "minimal_push buf opcodenum =
     (if length buf = 0 then opcodenum = Some OP_0
      else if length buf = 1 \<and> 1 \<le> unat (buf ! 0) \<and> unat (buf ! 0) \<le> 16 then False
      else if length buf = 1 \<and> buf ! 0 = 0x81 then False
      else if length buf \<le> 75 then opcodenum = Some (length buf)
      else if length buf \<le> 255 then opcodenum = Some OP_PUSHDATA1
      else if length buf \<le> 65535 then opcodenum = Some OP_PUSHDATA2
      else True)"

text \<open>A missing chunk is read as \<^verbatim>\<open>undefined\<close>.\<close>

definition checkMinimalPush :: "script \<Rightarrow> nat \<Rightarrow> bool res" where
  "checkMinimalPush chunks i =
     (case nth_opt chunks i of
        None \<Rightarrow> Inl TypeErr
      | Some chunk \<Rightarrow>
          (case chunk_buf chunk of
             None \<Rightarrow> Inr True
           | Some buf \<Rightarrow> Inr (minimal_push buf (chunk_op chunk))))"

definition decodeOP_N :: "nat \<Rightarrow> nat res" where
  "decodeOP_N opcode =
     (if opcode = OP_0 then Inr 0
      else if opcode \<ge> OP_1 \<and> opcode \<le> OP_16 then Inr (opcode - (OP_1 - 1))
      else Inl (PlainError ''Invalid opcode''))"

primrec sigops_from :: "bool \<Rightarrow> nat option \<Rightarrow> 'b chunk list \<Rightarrow> nat res" where
  "sigops_from accurate lastOpcode [] = Inr 0"
| "sigops_from accurate lastOpcode (c # cs) =
     rbind
       (if is_op c OP_CHECKSIG \<or> is_op c OP_CHECKSIGVERIFY then Inr 1
        else if is_op c OP_CHECKMULTISIG \<or> is_op c OP_CHECKMULTISIGVERIFY then
          (case lastOpcode of
             Some l \<Rightarrow> if accurate \<and> l \<ge> OP_1 \<and> l \<le> OP_16 then decodeOP_N l else Inr 20
           | None \<Rightarrow> Inr 20)
        else Inr 0) (\<lambda>k.
     rmap (\<lambda>n. k + n) (sigops_from accurate (chunk_op c) cs))"

definition getSignatureOperationsCount :: "bool \<Rightarrow> 'b chunk list \<Rightarrow> nat res" where
  "getSignatureOperationsCount accurate chunks = sigops_from accurate (Some OP_INVALIDOPCODE) chunks"

section \<open>Parsing inverts printing\<close>

text \<open>The chunks \<^verbatim>\<open>fromBuffer\<close> produces from a buffer with complete pushes.\<close>

definition wf_chunk :: "bytes chunk \<Rightarrow> bool" where
  "wf_chunk c \<longleftrightarrow>
     (case chunk_op c of
        None \<Rightarrow> False
      | Some n \<Rightarrow> n < 256 \<and>
         (case chunk_buf c of
            None \<Rightarrow> chunk_len c = 0 \<and> (n = 0 \<or> 78 < n)
          | Some b \<Rightarrow> chunk_len c = length b \<and>
              (0 < n \<and> n < 76 \<and> length b = n \<or> n = 76 \<and> length b < 2 ^ 8 \<or>
               n = 77 \<and> length b < 2 ^ 16 \<or> n = 78 \<and> length b < 2 ^ 32)))"

lemma wf_chunk_printable: "wf_chunk c \<Longrightarrow> printable c"
  by (auto simp: wf_chunk_def printable_def split: option.splits)

lemma readUInt8_tag: "n < 256 \<Longrightarrow> readUInt8 (rd (pre @ word_of_nat n # post) (length pre)) =
    Inr (n, rd (pre @ word_of_nat n # post) (Suc (length pre)))"
  by (simp add: readUInt8_at unat_word_of_nat_byte)

lemma read_chunk_put:
  fixes c pre post
  assumes "wf_chunk c"
  defines "buffer \<equiv> pre @ chunk_bytes c @ post"
  shows "read_chunk (slice buffer) (rd buffer (length pre)) =
    Inr (c, rd buffer (length pre + length (chunk_bytes c)))"
proof -
  obtain n where n: "chunk_op c = Some n" "n < 256"
    using assms(1) by (auto simp: wf_chunk_def split: option.splits)
  show ?thesis
  proof (cases "chunk_buf c")
    case None
    have "read_chunk mk (rd (pre @ word_of_nat n # post) (length pre)) =
        Inr (op_chunk (Some n), rd (pre @ word_of_nat n # post) (Suc (length pre)))" for mk
      using n None assms(1) by (auto simp: read_chunk_def readUInt8_tag wf_chunk_def)
    moreover have "c = op_chunk (Some n)"
      using n None assms(1) by (cases c) (simp add: op_chunk_def wf_chunk_def)
    ultimately show ?thesis using n None by (simp add: buffer_def chunk_bytes_def)
  next
    case (Some b)
    have c: "c = data_chunk b (length b) n"
      using n Some assms(1) by (cases c) (simp add: data_chunk_def wf_chunk_def)
    have len: "chunk_len c = length b" using c by (simp add: data_chunk_def)
    have push: "push_chunk (slice (p @ b @ post)) n (length b, rd (p @ b @ post) (length p)) =
        (c, rd (p @ b @ post) (length p + length b))" for p
      using slice_at [of p b post] by (simp add: push_chunk_def c)
    let ?t = "word_of_nat n :: byte"
    from n Some assms(1) consider (small) "0 < n" "n < 76" "length b = n"
      | (p1) "n = 76" "length b < 256" | (p2) "n = 77" "length b < 2 ^ 16"
      | (p4) "n = 78" "length b < 2 ^ 32" by (auto simp: wf_chunk_def)
    then show ?thesis
    proof cases
      case small
      with n Some push [of "pre @ [?t]"] show ?thesis
        by (simp add: len buffer_def chunk_bytes_def read_chunk_def readUInt8_at unat_word_of_nat_byte)
    next
      case p1
      with n Some push [of "pre @ ?t # le_bytes 1 (length b)"]
        u8.get_put [of "length b" "pre @ [?t]" "b @ post"] show ?thesis
        by (simp add: len buffer_def chunk_bytes_def read_chunk_def readUInt8_at unat_word_of_nat_byte)
    next
      case p2
      with n Some push [of "pre @ ?t # le_bytes 2 (length b)"]
        tagged_reads(1) [of "length b" pre ?t "b @ post"] show ?thesis
        by (simp add: len buffer_def chunk_bytes_def read_chunk_def readUInt8_at unat_word_of_nat_byte add.assoc)
    next
      case p4
      with n Some push [of "pre @ ?t # le_bytes 4 (length b)"]
        tagged_reads(2) [of "length b" pre ?t "b @ post"] show ?thesis
        by (simp add: len buffer_def chunk_bytes_def read_chunk_def readUInt8_at unat_word_of_nat_byte add.assoc)
    qed
  qed
qed

lemma chunk_bytes_not_Nil [simp]: "chunk_bytes c \<noteq> []"
  by (simp add: chunk_bytes_def split: option.splits)

lemma read_chunks_put:
  "list_all wf_chunk cs \<Longrightarrow>
    read_chunks (slice (pre @ script_bytes cs)) (rd (pre @ script_bytes cs) (length pre)) = Inr cs"
proof (induction cs arbitrary: pre)
  case (Cons c cs)
  let ?b = "pre @ script_bytes (c # cs)"
  have "read_chunk (slice ?b) (rd ?b (length pre)) =
      Inr (c, rd ?b (length pre + length (chunk_bytes c)))"
    using read_chunk_put [of c pre "script_bytes cs"] Cons.prems by simp
  moreover have "read_chunks (slice ?b) (rd ?b (length pre + length (chunk_bytes c))) = Inr cs"
    using Cons.IH [of "pre @ chunk_bytes c"] Cons.prems by simp
  moreover have "\<not> eof (rd ?b (length pre))" by (simp add: eof_def)
  ultimately show ?case by (subst read_chunks.simps) simp
qed (simp add: read_chunks.simps eof_def)

lemma script_fromBuffer_script_bytes: "list_all wf_chunk cs \<Longrightarrow> script_fromBuffer (script_bytes cs) = Inr cs"
  using read_chunks_put [of cs "[]"] by (simp add: script_fromBuffer_def)

text \<open>The only error of the parser: a length field is cut off.\<close>

lemma read_chunk_error: "read_chunk mk r = Inl e \<Longrightarrow> e = RangeErr"
  by (auto simp: read_chunk_def readUInt8_def readUInt16LE_def readUInt32LE_def node_readUIntLE_def
      rmap_def rbind_def split: sum.splits if_splits)

lemma read_chunks_error: "read_chunks mk r = Inl e \<Longrightarrow> e = LibError ''Script.InvalidBuffer''"
proof (induction mk r rule: read_chunks.induct)
  case (1 mk r)
  then show ?case
    by (subst (asm) read_chunks.simps)
       (auto simp: invalid_buffer_def rmap_def split: if_splits sum.splits dest: read_chunk_error)
qed

section \<open>Deleting and counting\<close>

text \<open>No two neighbouring chunks print as \<open>buf\<close>.\<close>

fun no_adjacent :: "('a \<Rightarrow> bool) \<Rightarrow> 'a list \<Rightarrow> bool" where
  "no_adjacent P (x # y # zs) = (\<not> (P x \<and> P y) \<and> no_adjacent P (y # zs))"
| "no_adjacent P _ = True"

lemma no_adjacent_tl: "no_adjacent P (x # xs) \<Longrightarrow> no_adjacent P xs"
  by (cases xs) simp_all

lemma delete_chunks_eq:
  "list_all printable cs \<Longrightarrow>
    \<exists>out. delete_chunks buf cs = Inr out \<and>
      filter (\<lambda>c. chunk_bytes c \<noteq> buf) out = filter (\<lambda>c. chunk_bytes c \<noteq> buf) cs \<and>
      2 * length (filter (\<lambda>c. chunk_bytes c = buf) out) \<le> length (filter (\<lambda>c. chunk_bytes c = buf) cs) \<and>
      (no_adjacent (\<lambda>c. chunk_bytes c = buf) cs \<longrightarrow> out = filter (\<lambda>c. chunk_bytes c \<noteq> buf) cs)"
proof (induction buf cs rule: delete_chunks.induct)
  case (2 buf c cs)
  have c: "script_toBuffer [c] = Inr (chunk_bytes c)"
    using "2.prems" by (simp add: script_toBuffer_eq)
  show ?case
  proof (cases "buf = chunk_bytes c")
    case True
    show ?thesis
    proof (cases cs)
      case Nil
      with True c show ?thesis by simp
    next
      case (Cons d ds)
      have ds: "list_all printable ds" using "2.prems" Cons by simp
      obtain out where "delete_chunks buf ds = Inr out"
        and "filter (\<lambda>c. chunk_bytes c \<noteq> buf) out = filter (\<lambda>c. chunk_bytes c \<noteq> buf) ds"
        and "2 * length (filter (\<lambda>c. chunk_bytes c = buf) out) \<le> length (filter (\<lambda>c. chunk_bytes c = buf) ds)"
        and "no_adjacent (\<lambda>c. chunk_bytes c = buf) ds \<longrightarrow> out = filter (\<lambda>c. chunk_bytes c \<noteq> buf) ds"
        using "2.IH"(1) [OF c True Cons ds] by blast
      then show ?thesis using True c Cons
        by (auto dest: no_adjacent_tl)
    qed
  next
    case False
    then show ?thesis using "2.IH"(2) [OF c False] "2.prems" c
      by (auto dest: no_adjacent_tl)
  qed
qed simp

lemma sigops_from_bound:
  "\<exists>n m. sigops_from True l cs = Inr n \<and> sigops_from False l cs = Inr m \<and> n \<le> m \<and>
    m \<le> 20 * length cs"
proof (induction cs arbitrary: l)
  case (Cons c cs)
  obtain n m where nm: "sigops_from True (chunk_op c) cs = Inr n"
    "sigops_from False (chunk_op c) cs = Inr m" "n \<le> m" "m \<le> 20 * length cs"
    using Cons.IH by blast
  then show ?case by (auto simp: decodeOP_N_def split: option.splits)
qed simp

lemma sigops_no_fail: "\<exists>n m. getSignatureOperationsCount True cs = Inr n \<and>
    getSignatureOperationsCount False cs = Inr m \<and> n \<le> m \<and> m \<le> 20 * length cs"
  unfolding getSignatureOperationsCount_def by (rule sigops_from_bound)

section \<open>What the builders produce\<close>

lemma script_add_simps [simp]:
  "script_add (AddOp n) cs = Inr (cs @ [op_chunk (Some n)])"
  "length b < 76 \<Longrightarrow> script_add (AddBuf b) cs = Inr (cs @ [data_chunk b (length b) (length b)])"
  by (simp_all add: script_add_def addByType_def addOpcode_def Opcode_def insertAtPosition_def
      addBuffer_def push_opcode_def)

lemma chunk_simps [simp]:
  "chunk_op (op_chunk n) = n" "chunk_buf (op_chunk n) = None" "chunk_len (op_chunk n) = 0"
  "chunk_op (data_chunk b l k) = Some k" "chunk_buf (data_chunk b l k) = Some b"
  "chunk_len (data_chunk b l k) = l"
  by (simp_all add: op_chunk_def data_chunk_def)

lemma chunk_bytes_simps [simp]:
  "chunk_bytes (op_chunk (Some n)) = [word_of_nat n]"
  "n < 76 \<Longrightarrow> chunk_bytes (data_chunk b l n) = word_of_nat n # b"
  by (simp_all add: chunk_bytes_def)

lemma printable_simps [simp]:
  "printable (op_chunk (Some n)) \<longleftrightarrow> n < 256"
  "n < 76 \<Longrightarrow> printable (data_chunk b l n)"
  by (simp_all add: printable_def)

definition p2pkh :: "bytes \<Rightarrow> script" where
  "p2pkh h = [op_chunk (Some OP_DUP), op_chunk (Some OP_HASH160), data_chunk h (length h) (length h),
     op_chunk (Some OP_EQUALVERIFY), op_chunk (Some OP_CHECKSIG)]"

definition p2sh :: "bytes \<Rightarrow> script" where
  "p2sh h = [op_chunk (Some OP_HASH160), data_chunk h (length h) (length h), op_chunk (Some OP_EQUAL)]"

lemma buildPublicKeyHashOut_eq: "length h = 20 \<Longrightarrow> buildPublicKeyHashOut h = Inr (p2pkh h)"
  by (simp add: buildPublicKeyHashOut_def p2pkh_def)

lemma buildScriptHashOut_eq: "length h = 20 \<Longrightarrow> buildScriptHashOut h = Inr (p2sh h)"
  by (simp add: buildScriptHashOut_def p2sh_def)

lemma p2pkh_types:
  assumes "length h = 20"
  shows "isPublicKeyOut V (p2pkh h) = False" and "isPublicKeyHashOut (p2pkh h)"
    and "isScriptHashOut (p2pkh h) = Inr False" and "isDataOut (p2pkh h) = Inr False"
  using assms by (simp_all add: p2pkh_def isPublicKeyOut_def isPublicKeyHashOut_def is_op_def
      isScriptHashOut_def script_toBuffer_eq isDataOut_def)

lemma p2sh_types:
  assumes "length h = 20"
  shows "isPublicKeyOut V (p2sh h) = False" and "isPublicKeyHashOut (p2sh h) = False"
    and "isMultisigOut (p2sh h) = False"
    and "isScriptHashOut (p2sh h) = Inr True" and "isDataOut (p2sh h) = Inr False"
  using assms by (simp_all add: p2sh_def isPublicKeyOut_def isPublicKeyHashOut_def is_op_def
      isScriptHashOut_def isMultisigOut_def script_toBuffer_eq isDataOut_def nth_append)

lemma getOutputAddressInfo_p2pkh: "length h = 20 \<Longrightarrow>
    getOutputAddressInfo (p2pkh h) = Inr (Some (PayToPublicKeyHash, h))"
  by (simp add: getOutputAddressInfo_def p2pkh_types getData_def) (simp add: p2pkh_def node_from_def)

lemma getOutputAddressInfo_p2sh: "length h = 20 \<Longrightarrow>
    getOutputAddressInfo (p2sh h) = Inr (Some (PayToScriptHash, h))"
  by (simp add: getOutputAddressInfo_def p2sh_types getData_def) (simp add: p2sh_def node_from_def)

lemma add_all_AddOp: "add_all (AddOp n # xs) cs = add_all xs (cs @ [op_chunk (Some n)])"
  by simp

lemma add_all_prefix: "add_all xs cs = Inr out \<Longrightarrow> list_all (\<lambda>x. case x of AddOp _ \<Rightarrow> True | AddBuf _ \<Rightarrow> True | _ \<Rightarrow> False) xs \<Longrightarrow> \<exists>ys. out = cs @ ys"
proof (induction xs arbitrary: cs)
  case (Cons x xs)
  from Cons.prems(1) obtain mid where mid: "script_add x cs = Inr mid" and out: "add_all xs mid = Inr out"
    by (auto simp: rbind_Inr_iff)
  have "\<exists>zs. mid = cs @ zs"
    using mid Cons.prems(2)
    by (cases x) (auto simp: script_add_def addByType_def addOpcode_def insertAtPosition_def
        addBuffer_def rmap_Inr_iff)
  moreover have "\<exists>ys. out = mid @ ys" using Cons.IH [OF out] Cons.prems(2) by simp
  ultimately show ?case by auto
qed simp

section \<open>Properties\<close>

text \<open>Printing inverts parsing with no condition: whatever buffer \<^verbatim>\<open>Script.fromBuffer\<close> accepts,
  \<^verbatim>\<open>toBuffer\<close> of the script gives the same bytes, cut-off pushes and non-minimal pushes included;
  the only way to be refused is the \<^verbatim>\<open>InvalidBuffer\<close> error.\<close>

theorem script_parse_print:
  "case script_fromBuffer bs of
     Inr cs \<Rightarrow> script_toBuffer cs = Inr bs
   | Inl e \<Rightarrow> e = LibError ''Script.InvalidBuffer''"
proof (cases "script_fromBuffer bs")
  case (Inl e)
  then have "e = LibError ''Script.InvalidBuffer''"
    unfolding script_fromBuffer_def by (rule read_chunks_error)
  with Inl show ?thesis by simp
next
  case (Inr cs)
  then show ?thesis using script_fromBuffer_bytes [of bs cs] by (simp add: script_toBuffer_eq)
qed

text \<open>Parsing inverts printing on well-formed chunks: the script prints, and its bytes parse
  to the same chunks, so two different well-formed scripts never share their bytes.\<close>

theorem script_print_parse:
  assumes "list_all wf_chunk cs"
  shows "rbind (script_toBuffer cs) script_fromBuffer = Inr cs"
proof -
  have "list_all printable cs"
    using assms by (auto simp: list_all_iff wf_chunk_printable)
  then show ?thesis
    using script_fromBuffer_script_bytes [OF assms] by (simp add: script_toBuffer_eq)
qed

theorem script_print_parse_witness:
  "rbind (script_toBuffer (p2pkh (replicate 20 7))) script_fromBuffer = Inr (p2pkh (replicate 20 7))"
proof -
  have "list_all wf_chunk (p2pkh (replicate 20 7))" by (simp add: p2pkh_def wf_chunk_def)
  then show ?thesis by (rule script_print_parse)
qed

text \<open>The minimal push test of the interpreter accepts exactly the opcode \<^verbatim>\<open>Script.add\<close> selects
  for the data, and refuses the one byte pushes that have an opcode of their own (the numbers
  1 to 16 and -1), for all data up to 65535 bytes.\<close>

theorem minimal_push_builder:
  assumes "length buf \<le> 65535"
  shows "checkMinimalPush [\<lparr>chunk_buf = Some buf, chunk_len = l, chunk_op = opn\<rparr>] 0 =
    Inr (\<not> (length buf = 1 \<and> (buf ! 0 \<in> {1..16} \<or> buf ! 0 = 0x81)) \<and>
         map_option Inr opn = Some (push_opcode (length buf)))"
proof -
  have "length buf = 1 \<Longrightarrow> buf ! 0 \<in> {1..16} \<longleftrightarrow> 1 \<le> unat (buf ! 0) \<and> unat (buf ! 0) \<le> 16"
    by (simp add: word_le_nat_alt)
  then show ?thesis
    using assms by (cases opn) (auto simp: checkMinimalPush_def minimal_push_def push_opcode_def)
qed

theorem minimal_push_builder_witness:
  "checkMinimalPush [\<lparr>chunk_buf = Some [7, 7], chunk_len = 2, chunk_op = Some 2\<rparr>] 0 = Inr True"
  using minimal_push_builder [of "[7, 7]" 2 "Some 2"] by (simp add: push_opcode_def)

text \<open>What \<^verbatim>\<open>findAndDelete\<close> removes: it never fails on printable scripts, it never touches a
  chunk with other bytes, and it removes every match when no two matches are neighbours; of
  neighbouring matches up to half survive, as in the two chunk script, which keeps one.\<close>

theorem findAndDelete_spec:
  assumes "list_all printable cs" and "list_all printable script"
  shows "\<exists>out. findAndDelete cs script = Inr out \<and>
      filter (\<lambda>c. chunk_bytes c \<noteq> script_bytes script) out =
        filter (\<lambda>c. chunk_bytes c \<noteq> script_bytes script) cs \<and>
      2 * length (filter (\<lambda>c. chunk_bytes c = script_bytes script) out) \<le>
        length (filter (\<lambda>c. chunk_bytes c = script_bytes script) cs) \<and>
      (no_adjacent (\<lambda>c. chunk_bytes c = script_bytes script) cs \<longrightarrow>
        out = filter (\<lambda>c. chunk_bytes c \<noteq> script_bytes script) cs) \<and>
      (\<forall>c. script = [c] \<and> cs = [c, c] \<longrightarrow> out = [c])"
proof -
  obtain out where "delete_chunks (script_bytes script) cs = Inr out"
    and "filter (\<lambda>c. chunk_bytes c \<noteq> script_bytes script) out =
        filter (\<lambda>c. chunk_bytes c \<noteq> script_bytes script) cs"
    and "2 * length (filter (\<lambda>c. chunk_bytes c = script_bytes script) out) \<le>
        length (filter (\<lambda>c. chunk_bytes c = script_bytes script) cs)"
    and "no_adjacent (\<lambda>c. chunk_bytes c = script_bytes script) cs \<longrightarrow>
        out = filter (\<lambda>c. chunk_bytes c \<noteq> script_bytes script) cs"
    using delete_chunks_eq [OF assms(1)] by blast
  moreover have "\<forall>c. script = [c] \<and> cs = [c, c] \<longrightarrow> delete_chunks (script_bytes script) cs = Inr [c]"
    using assms(1) by (auto simp: script_toBuffer_eq)
  ultimately show ?thesis
    using assms(2) by (auto simp: findAndDelete_def script_toBuffer_eq)
qed

theorem findAndDelete_spec_witness:
  "findAndDelete [data_chunk [7, 7] 2 2, op_chunk (Some 172)] [data_chunk [7, 7] 2 2] =
    Inr [op_chunk (Some 172)]"
proof -
  let ?cs = "[data_chunk [7, 7] 2 2, op_chunk (Some 172)]" and ?s = "[data_chunk [7, 7 :: byte] 2 2]"
  have "list_all printable ?cs" "list_all printable ?s" by simp_all
  from findAndDelete_spec [OF this] show ?thesis by auto
qed

text \<open>Counting signature operations never fails, and the accurate count never exceeds the
  legacy one, which is at most 20 per chunk.\<close>

theorem sigops_count_bounds:
  "\<exists>n m. getSignatureOperationsCount True cs = Inr n \<and>
     getSignatureOperationsCount False cs = Inr m \<and> n \<le> m \<and> m \<le> 20 * length cs"
  by (rule sigops_no_fail)

text \<open>Output scripts built from an address are recognised as their own type, whatever keys
  are valid, and give the address back.\<close>

theorem address_script_roundtrip:
  assumes "length h = 20"
  shows "\<exists>cs. script_fromAddress t h = Inr cs \<and>
     classify isValid False True cs =
       Inr (case t of PayToPublicKeyHash \<Rightarrow> PUBKEYHASH_OUT | PayToScriptHash \<Rightarrow> SCRIPTHASH_OUT) \<and>
     getAddressInfo isValid hash160 False isOutput cs = Inr (Some (t, h))"
  using assms
  by (cases t) (simp_all add: script_fromAddress_def buildPublicKeyHashOut_eq buildScriptHashOut_eq
      classify_def classifyOutput_def p2pkh_types p2sh_types getAddressInfo_def
      getOutputAddressInfo_p2pkh getOutputAddressInfo_p2sh)

theorem address_script_roundtrip_witness:
  "\<exists>cs. script_fromAddress PayToScriptHash (replicate 20 1) = Inr cs \<and>
     classify (\<lambda>_. False) False True cs = Inr SCRIPTHASH_OUT \<and>
     getAddressInfo (\<lambda>_. False) id False True cs = Inr (Some (PayToScriptHash, replicate 20 1))"
  using address_script_roundtrip [of "replicate 20 1" PayToScriptHash "\<lambda>_. False" id True] by simp

text \<open>A Schnorr multisignature input for 9 to 20 keys whose bit field needs more than one
  byte can be built but never printed: the bit field is added as an opcode number.\<close>

theorem multisig_checkbits_unprintable:
  assumes "9 \<le> npubkeys" and "npubkeys \<le> 20" and "256 \<le> bits_value bits"
    and "buildMultisigIn npubkeys signatures (Some bits) = Inr s"
  shows "script_toBuffer s = Inl RangeErr"
proof -
  let ?n = "if npubkeys \<le> 16 then 2 else 3 :: nat"
  have "checkBits_items npubkeys (bits_value bits) Inr = Inr [AddOp ?n, AddOp (bits_value bits)]"
    using assms(1,2) by (simp add: checkBits_items_def)
  then have "add_all (map AddBuf signatures) [op_chunk (Some ?n), op_chunk (Some (bits_value bits))] = Inr s"
    using assms(4) by (simp add: buildMultisigIn_def split: if_splits)
  then obtain ys where "s = [op_chunk (Some ?n), op_chunk (Some (bits_value bits))] @ ys"
    using add_all_prefix by (fastforce simp: list_all_iff)
  then show ?thesis using assms(3) by (simp add: script_toBuffer_eq)
qed

theorem multisig_checkbits_unprintable_witness:
  "\<exists>s. buildMultisigIn 9 [] (Some [False, False, False, False, False, False, False, False, True]) = Inr s \<and>
     script_toBuffer s = Inl RangeErr"
proof -
  let ?bits = "[False, False, False, False, False, False, False, False, True]"
  have v: "bits_value ?bits = 256" by (simp add: bits_value_def)
  have "buildMultisigIn 9 [] (Some ?bits) = Inr [op_chunk (Some 2), op_chunk (Some 256)]"
    unfolding buildMultisigIn_def v option.case by (simp add: checkBits_items_def)
  with multisig_checkbits_unprintable [OF _ _ _ this] v show ?thesis by simp
qed

end
