(* ===== verification/JsHeap.thy ===== *)
theory JsHeap
  imports Script
begin

text \<open>
  Node's buffers as the script interpreter uses them: a \<^verbatim>\<open>Buffer\<close> is a view of a block of
  memory, slices share their block, and a write through one view shows through every view
  that overlaps it.  The locales state what the interpreter's lemmas use of this memory.
\<close>


section \<open>Blocks and views\<close>

type_synonym heap = "bytes list"

record view =
  v_blk :: nat
  v_off :: nat
  v_len :: nat

definition view_ok :: "heap \<Rightarrow> view \<Rightarrow> bool" where
  "view_ok h v \<longleftrightarrow> v_blk v < length h \<and> v_off v + v_len v \<le> length (h ! v_blk v)"

definition bytes_of :: "heap \<Rightarrow> view \<Rightarrow> bytes" where
  "bytes_of h v = take (v_len v) (drop (v_off v) (h ! v_blk v))"

text \<open>A buffer with fresh memory, as \<^verbatim>\<open>Buffer.from\<close>, \<^verbatim>\<open>Buffer.concat\<close> and \<^verbatim>\<open>Buffer.alloc\<close> make.\<close>

definition alloc :: "bytes \<Rightarrow> heap \<Rightarrow> view \<times> heap" where
  "alloc b h = (\<lparr>v_blk = length h, v_off = 0, v_len = length b\<rparr>, h @ [b])"

text \<open>\<^verbatim>\<open>v.slice(a, b)\<close> shares the memory of \<open>v\<close>.\<close>

definition sub_view :: "view \<Rightarrow> nat \<Rightarrow> nat \<Rightarrow> view" where
  "sub_view v a b =
     \<lparr>v_blk = v_blk v, v_off = v_off v + min a (v_len v),
      v_len = min b (v_len v) - min a (v_len v)\<rparr>"

text \<open>\<^verbatim>\<open>v[i] = x\<close> for an index inside the view.\<close>

definition poke :: "heap \<Rightarrow> view \<Rightarrow> nat \<Rightarrow> byte \<Rightarrow> heap" where
  "poke h v i x = h[v_blk v := (h ! v_blk v)[v_off v + i := x]]"

definition overlap :: "view \<Rightarrow> view \<Rightarrow> bool" where
  "overlap v w \<longleftrightarrow> v_blk v = v_blk w \<and>
     v_off v < v_off w + v_len w \<and> v_off w < v_off v + v_len v"

section \<open>The contract of shared memory\<close>

text \<open>
  What code that allocates and reads buffers may rely on: a fresh buffer holds its bytes,
  and every older buffer keeps its own.
\<close>

locale memory =
  fixes mk :: "bytes \<Rightarrow> 'h \<Rightarrow> 'v \<times> 'h"
    and val :: "'h \<Rightarrow> 'v \<Rightarrow> bytes"
    and ok :: "'h \<Rightarrow> 'v \<Rightarrow> bool"
  assumes mk_ok: "mk b h = (v, h') \<Longrightarrow> ok h' v"
    and mk_val: "mk b h = (v, h') \<Longrightarrow> val h' v = b"
    and keep_ok: "mk b h = (v, h') \<Longrightarrow> ok h w \<Longrightarrow> ok h' w"
    and keep_val: "mk b h = (v, h') \<Longrightarrow> ok h w \<Longrightarrow> val h' w = val h w"
begin

lemma keep_vals: "mk b h = (v, h') \<Longrightarrow> list_all (ok h) ws \<Longrightarrow> map (val h') ws = map (val h) ws"
  by (auto simp: list_all_iff keep_val)

lemma keep_oks: "mk b h = (v, h') \<Longrightarrow> list_all (ok h) ws \<Longrightarrow> list_all (ok h') ws"
  by (auto simp: list_all_iff keep_ok)

lemma push_vals: "mk b h = (v, h') \<Longrightarrow> list_all (ok h) ws \<Longrightarrow>
    map (val h') (v # ws) = b # map (val h) ws"
  by (simp add: mk_val keep_vals)

lemma push_oks: "mk b h = (v, h') \<Longrightarrow> list_all (ok h) ws \<Longrightarrow> list_all (ok h') (v # ws)"
  by (simp add: mk_ok keep_oks)

end

text \<open>Writing to one buffer is invisible through every buffer that does not overlap it.\<close>

locale mutable_memory = memory mk val ok
  for mk :: "bytes \<Rightarrow> 'h \<Rightarrow> 'v \<times> 'h" and val :: "'h \<Rightarrow> 'v \<Rightarrow> bytes"
    and ok :: "'h \<Rightarrow> 'v \<Rightarrow> bool" +
  fixes set_at :: "'h \<Rightarrow> 'v \<Rightarrow> nat \<Rightarrow> byte \<Rightarrow> 'h"
    and shares :: "'v \<Rightarrow> 'v \<Rightarrow> bool"
  assumes set_ok: "ok h v \<Longrightarrow> ok h w \<Longrightarrow> ok (set_at h v i x) w"
    and set_val: "ok h v \<Longrightarrow> i < length (val h v) \<Longrightarrow> val (set_at h v i x) v = (val h v)[i := x]"
    and set_other: "ok h v \<Longrightarrow> ok h w \<Longrightarrow> i < length (val h v) \<Longrightarrow> \<not> shares v w \<Longrightarrow>
      val (set_at h v i x) w = val h w"
    and set_len: "ok h v \<Longrightarrow> ok h w \<Longrightarrow> length (val (set_at h v i x) w) = length (val h w)"
begin

lemma set_oks: "ok h v \<Longrightarrow> list_all (ok h) ws \<Longrightarrow> list_all (ok (set_at h v i x)) ws"
  by (auto simp: list_all_iff set_ok)

lemma set_others: "ok h v \<Longrightarrow> list_all (ok h) ws \<Longrightarrow> i < length (val h v) \<Longrightarrow>
    list_all (\<lambda>w. \<not> shares v w) ws \<Longrightarrow> map (val (set_at h v i x)) ws = map (val h) ws"
  by (auto simp: list_all_iff set_other)

end

lemma length_bytes_of [simp]: "view_ok h v \<Longrightarrow> length (bytes_of h v) = v_len v"
  by (auto simp: view_ok_def bytes_of_def min_def)

lemma alloc_append: "alloc b h = (v, h') \<Longrightarrow> h' = h @ [b] \<and> v = \<lparr>v_blk = length h, v_off = 0, v_len = length b\<rparr>"
  by (auto simp: alloc_def)

lemma view_ok_append: "view_ok h v \<Longrightarrow> view_ok (h @ xs) v"
  by (auto simp: view_ok_def nth_append)

lemma bytes_of_append: "view_ok h v \<Longrightarrow> bytes_of (h @ xs) v = bytes_of h v"
  by (auto simp: view_ok_def bytes_of_def nth_append)

lemma view_ok_poke: "view_ok (poke h v i x) w \<longleftrightarrow> view_ok h w"
  by (cases "v_blk w = v_blk v") (auto simp: view_ok_def poke_def nth_list_update)

lemma bytes_of_poke:
  assumes "view_ok h v" and "i < v_len v"
  shows "bytes_of (poke h v i x) v = (bytes_of h v)[i := x]"
  using assms by (simp add: view_ok_def bytes_of_def poke_def drop_update_swap take_update_swap)

lemma bytes_of_poke_other:
  assumes "view_ok h v" and "view_ok h w" and "i < v_len v" and "\<not> overlap v w"
  shows "bytes_of (poke h v i x) w = bytes_of h w"
proof (cases "v_blk w = v_blk v")
  case True
  show ?thesis
  proof (rule nth_equalityI)
    fix j assume "j < length (bytes_of (poke h v i x) w)"
    then have j: "j < v_len w" using assms(2) by (simp add: view_ok_poke)
    have "v_off v + i \<noteq> v_off w + j"
    proof
      assume e: "v_off v + i = v_off w + j"
      have "v_off v < v_off w + v_len w" using e j by linarith
      moreover have "v_off w < v_off v + v_len v" using e assms(3) by linarith
      ultimately show False using assms(4) True by (simp add: overlap_def)
    qed
    then show "bytes_of (poke h v i x) w ! j = bytes_of h w ! j"
      using j assms(1,2) True by (simp add: bytes_of_def poke_def view_ok_def)
  qed (use assms in \<open>simp add: view_ok_poke\<close>)
qed (simp add: bytes_of_def poke_def)

interpretation buf: mutable_memory alloc bytes_of view_ok poke overlap
proof unfold_locales
  show "alloc b h = (v, h') \<Longrightarrow> view_ok h' v" for b h v h'
    by (auto simp: alloc_def view_ok_def)
  show "alloc b h = (v, h') \<Longrightarrow> bytes_of h' v = b" for b h v h'
    by (auto simp: alloc_def bytes_of_def)
  show "alloc b h = (v, h') \<Longrightarrow> view_ok h w \<Longrightarrow> view_ok h' w" for b h v h' w
    by (auto simp: alloc_def view_ok_append)
  show "alloc b h = (v, h') \<Longrightarrow> view_ok h w \<Longrightarrow> bytes_of h' w = bytes_of h w" for b h v h' w
    by (auto simp: alloc_def bytes_of_append)
  show "view_ok h v \<Longrightarrow> view_ok h w \<Longrightarrow> view_ok (poke h v i x) w" for h v w i x
    by (simp add: view_ok_poke)
  show "view_ok h v \<Longrightarrow> i < length (bytes_of h v) \<Longrightarrow>
      bytes_of (poke h v i x) v = (bytes_of h v)[i := x]" for h v i x
    by (simp add: bytes_of_poke)
  show "view_ok h v \<Longrightarrow> view_ok h w \<Longrightarrow> i < length (bytes_of h v) \<Longrightarrow> \<not> overlap v w \<Longrightarrow>
      bytes_of (poke h v i x) w = bytes_of h w" for h v w i x
    by (simp add: bytes_of_poke_other)
  show "view_ok h v \<Longrightarrow> view_ok h w \<Longrightarrow>
      length (bytes_of (poke h v i x) w) = length (bytes_of h w)" for h v w i x
    by (simp add: view_ok_poke)
qed

lemma view_ok_sub: "view_ok h v \<Longrightarrow> view_ok h (sub_view v a b)"
  by (auto simp: view_ok_def sub_view_def)

lemma bytes_of_sub: "view_ok h v \<Longrightarrow> bytes_of h (sub_view v a b) = slice (bytes_of h v) a b"
proof -
  assume v: "view_ok h v"
  let ?m = "h ! v_blk v"
  have "slice (bytes_of h v) a b = take (b - a) (drop a (take (v_len v) (drop (v_off v) ?m)))"
    by (simp add: slice_def bytes_of_def)
  also have "\<dots> = take (min (b - a) (v_len v - a)) (drop (v_off v + a) ?m)"
    by (simp add: drop_take add.commute)
  also have "\<dots> = bytes_of h (sub_view v a b)"
  proof (cases "a \<le> v_len v")
    case True
    then have "min b (v_len v) - a = min (b - a) (v_len v - a)" by simp
    with True show ?thesis by (simp add: bytes_of_def sub_view_def)
  qed (simp add: bytes_of_def sub_view_def)
  finally show ?thesis by simp
qed

end
