(* ===== verification/Interpreter.thy ===== *)
theory Interpreter
  imports JsHeap "HOL-Library.Signed_Division"
begin

text \<open>
  \<^verbatim>\<open>lib/script/interpreter.js\<close>: the script interpreter over shared memory.  Each opcode group of
  the \<^verbatim>\<open>switch\<close> in \<^verbatim>\<open>step\<close> is a definition from states to outcomes; \<open>step\<close>, \<open>evaluate\<close> and
  \<open>verify\<close> compose them as the code does.  The transaction and the cryptography are the
  fields of \<open>env\<close>.  The lemmas at the end say what every handler keeps.
\<close>


section \<open>Flags and errors\<close>

abbreviation (input) "SCRIPT_VERIFY_P2SH \<equiv> 2 ^ 0 :: nat"
abbreviation (input) "SCRIPT_VERIFY_STRICTENC \<equiv> 2 ^ 1 :: nat"
abbreviation (input) "SCRIPT_VERIFY_DERSIG \<equiv> 2 ^ 2 :: nat"
abbreviation (input) "SCRIPT_VERIFY_LOW_S \<equiv> 2 ^ 3 :: nat"
abbreviation (input) "SCRIPT_VERIFY_NULLDUMMY \<equiv> 2 ^ 4 :: nat"
abbreviation (input) "SCRIPT_VERIFY_SIGPUSHONLY \<equiv> 2 ^ 5 :: nat"
abbreviation (input) "SCRIPT_VERIFY_MINIMALDATA \<equiv> 2 ^ 6 :: nat"
abbreviation (input) "SCRIPT_VERIFY_DISCOURAGE_UPGRADABLE_NOPS \<equiv> 2 ^ 7 :: nat"
abbreviation (input) "SCRIPT_VERIFY_CLEANSTACK \<equiv> 2 ^ 8 :: nat"
abbreviation (input) "SCRIPT_VERIFY_CHECKLOCKTIMEVERIFY \<equiv> 2 ^ 9 :: nat"
abbreviation (input) "SCRIPT_VERIFY_CHECKSEQUENCEVERIFY \<equiv> 2 ^ 10 :: nat"
abbreviation (input) "SCRIPT_VERIFY_MINIMALIF \<equiv> 2 ^ 13 :: nat"
abbreviation (input) "SCRIPT_VERIFY_NULLFAIL \<equiv> 2 ^ 14 :: nat"
abbreviation (input) "SCRIPT_ENABLE_SIGHASH_FORKID \<equiv> 2 ^ 16 :: nat"
abbreviation (input) "SCRIPT_ENABLE_SCHNORR_MULTISIG \<equiv> 2 ^ 21 :: nat"

abbreviation (input) "MAX_SCRIPT_ELEMENT_SIZE \<equiv> 520 :: nat"
abbreviation (input) "MAXIMUM_ELEMENT_SIZE \<equiv> 4 :: nat"
abbreviation (input) "LOCKTIME_THRESHOLD \<equiv> 500000000 :: nat"

text \<open>\<^verbatim>\<open>(this.flags & Interpreter.FLAG) !== 0\<close>; the flags are single bits below 32.\<close>

definition has_flag :: "nat \<Rightarrow> nat \<Rightarrow> bool" where
  "has_flag flags flag \<longleftrightarrow> flags AND flag \<noteq> 0"

text \<open>The values of \<^verbatim>\<open>errstr\<close>.\<close>

datatype script_error =
    NO_ERROR | SCRIPT_ERR_SIG_PUSHONLY | SCRIPT_ERR_EVAL_FALSE_NO_RESULT
  | SCRIPT_ERR_EVAL_FALSE_IN_STACK | SCRIPT_ERR_EVAL_FALSE_NO_P2SH_STACK
  | SCRIPT_ERR_EVAL_FALSE_IN_P2SH_STACK | SCRIPT_ERR_CLEANSTACK
  | SCRIPT_ERR_SIG_DER_INVALID_FORMAT | SCRIPT_ERR_SIG_DER_HIGH_S | SCRIPT_ERR_SIG_HASHTYPE
  | SCRIPT_ERR_ILLEGAL_FORKID | SCRIPT_ERR_MUST_USE_FORKID | SCRIPT_ERR_PUBKEYTYPE
  | SCRIPT_ERR_SCRIPT_SIZE | SCRIPT_ERR_STACK_SIZE | SCRIPT_ERR_UNKNOWN_ERROR js_error
  | SCRIPT_ERR_UNBALANCED_CONDITIONAL | SCRIPT_ERR_UNDEFINED_OPCODE | SCRIPT_ERR_PUSH_SIZE
  | SCRIPT_ERR_OP_COUNT | SCRIPT_ERR_DISABLED_OPCODE | SCRIPT_ERR_MINIMALDATA
  | SCRIPT_ERR_DISCOURAGE_UPGRADABLE_NOPS | SCRIPT_ERR_INVALID_STACK_OPERATION
  | SCRIPT_ERR_NEGATIVE_LOCKTIME | SCRIPT_ERR_UNSATISFIED_LOCKTIME | SCRIPT_ERR_MINIMALIF
  | SCRIPT_ERR_VERIFY | SCRIPT_ERR_OP_RETURN | SCRIPT_ERR_INVALID_ALTSTACK_OPERATION
  | SCRIPT_ERR_INVALID_OPERAND_SIZE | SCRIPT_ERR_EQUALVERIFY | SCRIPT_ERR_DIV_BY_ZERO
  | SCRIPT_ERR_NUMEQUALVERIFY | SCRIPT_ERR_NULLFAIL | SCRIPT_ERR_CHECKSIGVERIFY
  | SCRIPT_ERR_CHECKDATASIGVERIFY | SCRIPT_ERR_PUBKEY_COUNT | SCRIPT_ERR_SIG_COUNT
  | SCRIPT_ERR_SIG_NULLDUMMY | SCRIPT_ERR_CHECKMULTISIGVERIFY | SCRIPT_ERR_INVALID_SPLIT_RANGE
  | SCRIPT_ERR_IMPOSSIBLE_ENCODING | SCRIPT_ERR_INVALID_NUMBER_RANGE | SCRIPT_ERR_BAD_OPCODE
  | INVALID_BIT_COUNT | INVALID_BIT_RANGE | WRONG | PUBKEY_COUNT | SIG_NULLFAIL

section \<open>State\<close>

text \<open>
  The transaction and the cryptography the interpreter consults.  \<open>tx_sequence\<close> is the
  sequence number of the input being verified, \<open>None\<close> if there is no such input.
  \<open>key_fromBuffer\<close> is \<^verbatim>\<open>PublicKey.fromBuffer(buf, false)\<close>, \<open>tx_verifySignature\<close> is
  \<^verbatim>\<open>tx.verifySignature\<close> with the flags and whether the signing method is \<^verbatim>\<open>"schnorr"\<close>, and
  \<open>data_verify\<close> is \<^verbatim>\<open>Schnorr.verify\<close> or \<^verbatim>\<open>ECDSA.verify\<close> of a hash.
\<close>

record 'k env =
  tx_nLockTime :: nat
  tx_version :: int
  tx_sequence :: "nat option"
  has_satoshis :: bool
  key_isValid :: "bytes \<Rightarrow> bool"
  key_fromBuffer :: "bytes \<Rightarrow> 'k res"
  tx_verifySignature :: "signature \<Rightarrow> 'k \<Rightarrow> script \<Rightarrow> nat \<Rightarrow> bool \<Rightarrow> bool res"
  data_verify :: "bool \<Rightarrow> bytes \<Rightarrow> signature \<Rightarrow> 'k \<Rightarrow> bool res"
  hash_sha1 :: "bytes \<Rightarrow> bytes"
  hash_sha256 :: "bytes \<Rightarrow> bytes"
  hash_ripemd160 :: "bytes \<Rightarrow> bytes"

definition sha256ripemd160 :: "'k env \<Rightarrow> bytes \<Rightarrow> bytes" where
  "sha256ripemd160 E b = hash_ripemd160 E (hash_sha256 E b)"

definition sha256sha256 :: "'k env \<Rightarrow> bytes \<Rightarrow> bytes" where
  "sha256sha256 E b = hash_sha256 E (hash_sha256 E b)"

text \<open>
  The fields of an \<^verbatim>\<open>Interpreter\<close> with the memory its buffers live in.  The stacks are lists
  with the top element first, and so is \<^verbatim>\<open>vfExec\<close>.
\<close>

record istate =
  st_heap :: heap
  st_script :: "view chunk list"
  st_stack :: "view list"
  st_alt :: "view list"
  st_pc :: nat
  st_begincode :: nat
  st_nOpCount :: nat
  st_vfExec :: "bool list"
  st_errstr :: script_error
  st_flags :: nat

definition initialize :: "heap \<Rightarrow> view chunk list \<Rightarrow> view list \<Rightarrow> nat \<Rightarrow> istate" where
  "initialize h script stack flags =
     \<lparr>st_heap = h, st_script = script, st_stack = stack, st_alt = [], st_pc = 0,
      st_begincode = 0, st_nOpCount = 0, st_vfExec = [], st_errstr = NO_ERROR,
      st_flags = flags\<rparr>"

text \<open>The shared buffers \<^verbatim>\<open>Interpreter.true\<close> and \<^verbatim>\<open>Interpreter.false\<close> are blocks 0 and 1.\<close>

definition true_view :: view where
  "true_view = \<lparr>v_blk = 0, v_off = 0, v_len = 1\<rparr>"

definition false_view :: view where
  "false_view = \<lparr>v_blk = 1, v_off = 0, v_len = 0\<rparr>"

definition bool_view :: "bool \<Rightarrow> view" where
  "bool_view b = (if b then true_view else false_view)"

text \<open>A handler goes on, returns \<^verbatim>\<open>false\<close> with \<^verbatim>\<open>errstr\<close> set, or throws.\<close>

datatype outcome = Go istate | Fail istate | Throw js_error istate

definition fail :: "script_error \<Rightarrow> istate \<Rightarrow> outcome" where
  "fail e s = Fail (s\<lparr>st_errstr := e\<rparr>)"

definition val :: "istate \<Rightarrow> view \<Rightarrow> bytes" where
  "val s v = bytes_of (st_heap s) v"

definition resolve :: "heap \<Rightarrow> view chunk list \<Rightarrow> script" where
  "resolve h cs = map (\<lambda>c. \<lparr>chunk_buf = map_option (bytes_of h) (chunk_buf c),
     chunk_len = chunk_len c, chunk_op = chunk_op c\<rparr>) cs"

definition set_stack :: "view list \<Rightarrow> istate \<Rightarrow> istate" where
  "set_stack vs s = s\<lparr>st_stack := vs\<rparr>"

text \<open>\<^verbatim>\<open>stack\<close> becomes a new buffer on top of the given elements.\<close>

definition push_new :: "bytes \<Rightarrow> view list \<Rightarrow> istate \<Rightarrow> istate" where
  "push_new b vs s = (case alloc b (st_heap s) of (v, h) \<Rightarrow> s\<lparr>st_heap := h, st_stack := v # vs\<rparr>)"

definition fRequireMinimal :: "istate \<Rightarrow> bool" where
  "fRequireMinimal s = has_flag (st_flags s) SCRIPT_VERIFY_MINIMALDATA"

text \<open>Reading a number from the stack; the exceptions of the decoder leave \<^verbatim>\<open>step\<close>.\<close>

definition with_num :: "nat \<Rightarrow> view \<Rightarrow> istate \<Rightarrow> (int \<Rightarrow> outcome) \<Rightarrow> outcome" where
  "with_num k v s f =
     (case fromScriptNumBuffer (val s v) (fRequireMinimal s) k of
        Inl e \<Rightarrow> Throw e s
      | Inr n \<Rightarrow> f n)"

fun castToBool :: "bytes \<Rightarrow> bool" where
  "castToBool [] = False"
| "castToBool (b # bs) = (if b \<noteq> 0 then \<not> (bs = [] \<and> b = 0x80) else castToBool bs)"

section \<open>Encoding checks\<close>

text \<open>The result is \<open>None\<close> for \<^verbatim>\<open>true\<close> and the \<^verbatim>\<open>errstr\<close> for \<^verbatim>\<open>false\<close>.\<close>

definition isSchnorrSig :: "bytes \<Rightarrow> bool" where
  "isSchnorrSig buf \<longleftrightarrow> (length buf = 64 \<or> length buf = 65) \<and> nth_opt buf 0 \<noteq> Some 0x30"

definition checkRawSignatureEncoding :: "nat \<Rightarrow> bytes \<Rightarrow> script_error option res" where
  "checkRawSignatureEncoding flags buf =
     (if isSchnorrSig buf then Inr None
      else if has_flag flags (SCRIPT_VERIFY_DERSIG OR SCRIPT_VERIFY_LOW_S OR SCRIPT_VERIFY_STRICTENC)
              \<and> \<not> isDER buf
      then Inr (Some SCRIPT_ERR_SIG_DER_INVALID_FORMAT)
      else if has_flag flags SCRIPT_VERIFY_LOW_S
      then rbind (fromTxFormat buf) (\<lambda>sig. rmap (\<lambda>low.
             if low then None else Some SCRIPT_ERR_SIG_DER_HIGH_S) (hasLowS sig))
      else Inr None)"

definition checkTxSignatureEncoding :: "nat \<Rightarrow> bytes \<Rightarrow> script_error option res" where
  "checkTxSignatureEncoding flags buf =
     (if buf = [] then Inr None
      else rbind (checkRawSignatureEncoding flags (slice buf 0 (length buf - 1))) (\<lambda>err.
        case err of
          Some e \<Rightarrow> Inr (Some e)
        | None \<Rightarrow>
          if has_flag flags SCRIPT_VERIFY_STRICTENC
          then rbind (fromTxFormat buf) (\<lambda>sig.
               rbind (hasDefinedHashtype sig) (\<lambda>defined.
                 let forkid = (case sig_nhashtype sig of None \<Rightarrow> False
                               | Some n \<Rightarrow> n AND SIGHASH_FORKID \<noteq> 0)
                 in if \<not> defined then Inr (Some SCRIPT_ERR_SIG_HASHTYPE)
                    else if \<not> has_flag flags SCRIPT_ENABLE_SIGHASH_FORKID \<and> forkid
                    then Inr (Some SCRIPT_ERR_ILLEGAL_FORKID)
                    else if has_flag flags SCRIPT_ENABLE_SIGHASH_FORKID \<and> \<not> forkid
                    then Inr (Some SCRIPT_ERR_MUST_USE_FORKID)
                    else Inr None))
          else Inr None))"

definition checkDataSignatureEncoding :: "nat \<Rightarrow> bytes \<Rightarrow> script_error option res" where
  "checkDataSignatureEncoding flags buf =
     (if buf = [] then Inr None else checkRawSignatureEncoding flags buf)"

definition IsCompressedOrUncompressedPubkey :: "bytes \<Rightarrow> bool" where
  "IsCompressedOrUncompressedPubkey b =
     (if length b = 33 then b ! 0 = 0x02 \<or> b ! 0 = 0x03
      else if length b = 64 then b ! 0 = 0x04 else False)"

definition checkPubkeyEncoding :: "'k env \<Rightarrow> nat \<Rightarrow> bytes \<Rightarrow> script_error option" where
  "checkPubkeyEncoding E flags buf =
     (if has_flag flags SCRIPT_VERIFY_STRICTENC \<and>
         \<not> (key_isValid E buf \<or> IsCompressedOrUncompressedPubkey buf)
      then Some SCRIPT_ERR_PUBKEYTYPE else None)"

text \<open>\<^verbatim>\<open>!check(sig) || !this.checkPubkeyEncoding(key)\<close>: the second check only after the first.\<close>

definition then_pubkey :: "script_error option res \<Rightarrow> script_error option \<Rightarrow> script_error option res" where
  "then_pubkey m p = rmap (\<lambda>err. case err of Some e \<Rightarrow> Some e | None \<Rightarrow> p) m"

section \<open>Number encodings in place\<close>

definition isMinimallyEncoded :: "bytes \<Rightarrow> nat \<Rightarrow> bool" where
  "isMinimallyEncoded buf nMaxNumSize = (if length buf > nMaxNumSize then False else \<not> nonminimal buf)"

text \<open>
  The loop of \<^verbatim>\<open>_minimallyEncode\<close>, \<open>i\<close> counting down; \<^verbatim>\<open>buf[i++] = last\<close> and \<^verbatim>\<open>buf[i - 1] |= last\<close>
  write into the buffer the stack element was made of.
\<close>

primrec minimal_loop :: "view \<Rightarrow> byte \<Rightarrow> nat \<Rightarrow> heap \<Rightarrow> view \<times> heap" where
  "minimal_loop v lst 0 h = alloc [] h"
| "minimal_loop v lst (Suc j) h =
     (let b = bytes_of h v ! j
      in if b \<noteq> 0
         then (if b AND 0x80 \<noteq> 0 then (sub_view v 0 (j + 2), poke h v (j + 1) lst)
               else (sub_view v 0 (j + 1), poke h v j (b OR lst)))
         else minimal_loop v lst j h)"

definition minimallyEncode :: "view \<Rightarrow> heap \<Rightarrow> view \<times> heap" where
  "minimallyEncode v h =
     (let buf = bytes_of h v
      in if buf = [] then (v, h)
         else if last buf AND 0x7f \<noteq> 0 then (v, h)
         else if length buf = 1 then alloc [] h
         else if buf ! (length buf - 2) AND 0x80 \<noteq> 0 then (v, h)
         else minimal_loop v (last buf) (length buf - 1) h)"

text \<open>\<^verbatim>\<open>buf1[i] op= buf2[i]\<close> for \<open>k\<close> indices from \<open>i\<close> on.\<close>

primrec zip_into :: "(byte \<Rightarrow> byte \<Rightarrow> byte) \<Rightarrow> view \<Rightarrow> view \<Rightarrow> nat \<Rightarrow> nat \<Rightarrow> heap \<Rightarrow> heap" where
  "zip_into f v w i 0 h = h"
| "zip_into f v w i (Suc k) h =
     zip_into f v w (Suc i) k (poke h v i (f (bytes_of h v ! i) (bytes_of h w ! i)))"

section \<open>Time locks\<close>

text \<open>\<^verbatim>\<open>this.tx.inputs[this.nin]\<close> is only read once the comparisons have passed; \<^verbatim>\<open>isFinal\<close> is true
  for every sequence number but the largest.\<close>

definition checkLockTime :: "'k env \<Rightarrow> int \<Rightarrow> bool res" where
  "checkLockTime E nLockTime =
     (if \<not> (tx_nLockTime E < LOCKTIME_THRESHOLD \<and> nLockTime < int LOCKTIME_THRESHOLD \<or>
            tx_nLockTime E \<ge> LOCKTIME_THRESHOLD \<and> nLockTime \<ge> int LOCKTIME_THRESHOLD)
      then Inr False
      else if nLockTime > int (tx_nLockTime E) then Inr False
      else case tx_sequence E of
        None \<Rightarrow> Inl TypeErr
      | Some seq \<Rightarrow> Inr (seq \<noteq> 4294967295))"

text \<open>
  \<^verbatim>\<open>checkSequence\<close> names \<^verbatim>\<open>SEQUENCE_LOCKTIME_DISABLE_FLAG\<close> without \<^verbatim>\<open>Interpreter.\<close>, an undeclared
  variable, so its comparisons are never reached.
\<close>

definition checkSequence :: "'k env \<Rightarrow> int \<Rightarrow> bool res" where
  "checkSequence E nSequence =
     (case tx_sequence E of
        None \<Rightarrow> Inl TypeErr
      | Some txToSequence \<Rightarrow>
          if tx_version E < 2 then Inr False
          else Inl (ReferenceErr ''SEQUENCE_LOCKTIME_DISABLE_FLAG''))"

section \<open>Handlers\<close>

text \<open>\<open>stacktop s k\<close> is \<^verbatim>\<open>stacktop(-k)\<close>.\<close>

definition stacktop :: "istate \<Rightarrow> nat \<Rightarrow> view" where
  "stacktop s k = st_stack s ! (k - 1)"

definition needs :: "nat \<Rightarrow> istate \<Rightarrow> outcome \<Rightarrow> outcome" where
  "needs n s k = (if length (st_stack s) < n then fail SCRIPT_ERR_INVALID_STACK_OPERATION s else k)"

definition op_number :: "nat \<Rightarrow> istate \<Rightarrow> outcome" where
  "op_number opcodenum s =
     Go (push_new (toScriptNumBuffer (int opcodenum - (int OP_1 - 1))) (st_stack s) s)"

definition op_checklocktimeverify :: "'k env \<Rightarrow> istate \<Rightarrow> outcome" where
  "op_checklocktimeverify E s =
     (if \<not> has_flag (st_flags s) SCRIPT_VERIFY_CHECKLOCKTIMEVERIFY
      then if has_flag (st_flags s) SCRIPT_VERIFY_DISCOURAGE_UPGRADABLE_NOPS
           then fail SCRIPT_ERR_DISCOURAGE_UPGRADABLE_NOPS s else Go s
      else needs 1 s
        (with_num 5 (stacktop s 1) s (\<lambda>nLockTime.
           if nLockTime < 0 then fail SCRIPT_ERR_NEGATIVE_LOCKTIME s
           else case checkLockTime E nLockTime of
             Inl e \<Rightarrow> Throw e s
           | Inr ok \<Rightarrow> if \<not> ok then fail SCRIPT_ERR_UNSATISFIED_LOCKTIME s else Go s)))"

definition op_checksequenceverify :: "'k env \<Rightarrow> istate \<Rightarrow> outcome" where
  "op_checksequenceverify E s =
     (if \<not> has_flag (st_flags s) SCRIPT_VERIFY_CHECKSEQUENCEVERIFY
      then if has_flag (st_flags s) SCRIPT_VERIFY_DISCOURAGE_UPGRADABLE_NOPS
           then fail SCRIPT_ERR_DISCOURAGE_UPGRADABLE_NOPS s else Go s
      else needs 1 s
        (with_num 5 (stacktop s 1) s (\<lambda>nSequence.
           if nSequence < 0 then fail SCRIPT_ERR_NEGATIVE_LOCKTIME s
           else if js_and nSequence (- (2 ^ 31)) \<noteq> 0 then Go s
           else case checkSequence E nSequence of
             Inl e \<Rightarrow> Throw e s
           | Inr ok \<Rightarrow> if \<not> ok then fail SCRIPT_ERR_UNSATISFIED_LOCKTIME s else Go s)))"

definition op_upgradable_nop :: "istate \<Rightarrow> outcome" where
  "op_upgradable_nop s =
     (if has_flag (st_flags s) SCRIPT_VERIFY_DISCOURAGE_UPGRADABLE_NOPS
      then fail SCRIPT_ERR_DISCOURAGE_UPGRADABLE_NOPS s else Go s)"

definition op_if :: "bool \<Rightarrow> nat \<Rightarrow> istate \<Rightarrow> outcome" where
  "op_if fExec opcodenum s =
     (if fExec
      then if st_stack s = [] then fail SCRIPT_ERR_UNBALANCED_CONDITIONAL s
           else let buf = val s (stacktop s 1)
           in if has_flag (st_flags s) SCRIPT_VERIFY_MINIMALIF \<and>
                 (length buf > 1 \<or> length buf = 1 \<and> buf ! 0 \<noteq> 1)
              then fail SCRIPT_ERR_MINIMALIF s
              else let fValue = (if opcodenum = OP_NOTIF then \<not> castToBool buf else castToBool buf)
              in Go (s\<lparr>st_stack := tl (st_stack s), st_vfExec := fValue # st_vfExec s\<rparr>)
      else Go (s\<lparr>st_vfExec := False # st_vfExec s\<rparr>))"

definition op_else :: "istate \<Rightarrow> outcome" where
  "op_else s =
     (case st_vfExec s of
        [] \<Rightarrow> fail SCRIPT_ERR_UNBALANCED_CONDITIONAL s
      | b # bs \<Rightarrow> Go (s\<lparr>st_vfExec := (\<not> b) # bs\<rparr>))"

definition op_endif :: "istate \<Rightarrow> outcome" where
  "op_endif s =
     (case st_vfExec s of
        [] \<Rightarrow> fail SCRIPT_ERR_UNBALANCED_CONDITIONAL s
      | b # bs \<Rightarrow> Go (s\<lparr>st_vfExec := bs\<rparr>))"

definition op_verify :: "istate \<Rightarrow> outcome" where
  "op_verify s =
     needs 1 s
       (if castToBool (val s (stacktop s 1)) then Go (set_stack (tl (st_stack s)) s)
        else fail SCRIPT_ERR_VERIFY s)"

definition op_return :: "istate \<Rightarrow> outcome" where
  "op_return s = fail SCRIPT_ERR_OP_RETURN s"

definition op_toaltstack :: "istate \<Rightarrow> outcome" where
  "op_toaltstack s =
     needs 1 s (Go (s\<lparr>st_stack := tl (st_stack s), st_alt := stacktop s 1 # st_alt s\<rparr>))"

definition op_fromaltstack :: "istate \<Rightarrow> outcome" where
  "op_fromaltstack s =
     (case st_alt s of
        [] \<Rightarrow> fail SCRIPT_ERR_INVALID_ALTSTACK_OPERATION s
      | x # xs \<Rightarrow> Go (s\<lparr>st_stack := x # st_stack s, st_alt := xs\<rparr>))"

text \<open>
  The operations that only rearrange the stack, on the stack with the top first; the number
  is the depth they require.
\<close>

fun rearrange :: "nat \<Rightarrow> 'a list \<Rightarrow> 'a list" where
  "rearrange opcodenum st =
     (if opcodenum = OP_2DROP then drop 2 st
      else if opcodenum = OP_2DUP then st ! 0 # st ! 1 # st
      else if opcodenum = OP_3DUP then st ! 0 # st ! 1 # st ! 2 # st
      else if opcodenum = OP_2OVER then st ! 2 # st ! 3 # st
      else if opcodenum = OP_2ROT then st ! 4 # st ! 5 # take 4 st @ drop 6 st
      else if opcodenum = OP_2SWAP then st ! 2 # st ! 3 # take 2 st @ drop 4 st
      else if opcodenum = OP_DROP then drop 1 st
      else if opcodenum = OP_DUP then st ! 0 # st
      else if opcodenum = OP_NIP then st ! 0 # drop 2 st
      else if opcodenum = OP_OVER then st ! 1 # st
      else if opcodenum = OP_ROT then st ! 2 # st ! 0 # st ! 1 # drop 3 st
      else if opcodenum = OP_SWAP then st ! 1 # st ! 0 # drop 2 st
      else if opcodenum = OP_TUCK then st ! 0 # st ! 1 # st ! 0 # drop 2 st
      else st)"

declare rearrange.simps [simp del]

definition rearrange_depth :: "nat \<Rightarrow> nat option" where
  "rearrange_depth opcodenum =
     (if opcodenum = OP_2DROP \<or> opcodenum = OP_2DUP \<or> opcodenum = OP_NIP \<or> opcodenum = OP_OVER \<or>
         opcodenum = OP_SWAP \<or> opcodenum = OP_TUCK then Some 2
      else if opcodenum = OP_3DUP \<or> opcodenum = OP_ROT then Some 3
      else if opcodenum = OP_2OVER \<or> opcodenum = OP_2SWAP then Some 4
      else if opcodenum = OP_2ROT then Some 6
      else if opcodenum = OP_DROP \<or> opcodenum = OP_DUP then Some 1
      else None)"

definition op_rearrange :: "nat \<Rightarrow> nat \<Rightarrow> istate \<Rightarrow> outcome" where
  "op_rearrange depth opcodenum s =
     needs depth s (Go (set_stack (rearrange opcodenum (st_stack s)) s))"

definition op_ifdup :: "istate \<Rightarrow> outcome" where
  "op_ifdup s =
     needs 1 s
       (if castToBool (val s (stacktop s 1)) then Go (set_stack (stacktop s 1 # st_stack s) s)
        else Go s)"

definition op_depth :: "istate \<Rightarrow> outcome" where
  "op_depth s = Go (push_new (toScriptNumBuffer (int (length (st_stack s)))) (st_stack s) s)"

text \<open>\<^verbatim>\<open>toNumber\<close> is exact on the at most five byte numbers read here and below.\<close>

definition op_pick_roll :: "nat \<Rightarrow> istate \<Rightarrow> outcome" where
  "op_pick_roll opcodenum s =
     needs 2 s
       (with_num MAXIMUM_ELEMENT_SIZE (stacktop s 1) s (\<lambda>bn.
          let st = tl (st_stack s); n = nat bn; s1 = set_stack st s
          in if bn < 0 \<or> bn \<ge> int (length st) then fail SCRIPT_ERR_INVALID_STACK_OPERATION s1
             else if opcodenum = OP_ROLL
             then Go (set_stack (st ! n # take n st @ drop (Suc n) st) s1)
             else Go (set_stack (st ! n # st) s1)))"

definition op_size :: "istate \<Rightarrow> outcome" where
  "op_size s =
     needs 1 s (Go (push_new (toScriptNumBuffer (int (length (val s (stacktop s 1))))) (st_stack s) s))"

definition op_bitwise :: "nat \<Rightarrow> istate \<Rightarrow> outcome" where
  "op_bitwise opcodenum s =
     needs 2 s
       (let buf1 = stacktop s 2; buf2 = stacktop s 1;
            f = (if opcodenum = OP_AND then (AND) else if opcodenum = OP_OR then (OR) else (XOR))
        in if length (val s buf1) \<noteq> length (val s buf2) then fail SCRIPT_ERR_INVALID_OPERAND_SIZE s
           else Go (s\<lparr>st_heap := zip_into f buf1 buf2 0 (length (val s buf1)) (st_heap s),
                     st_stack := tl (st_stack s)\<rparr>))"

definition op_equal :: "nat \<Rightarrow> istate \<Rightarrow> outcome" where
  "op_equal opcodenum s =
     needs 2 s
       (let fEqual = (to_hex (val s (stacktop s 2)) = to_hex (val s (stacktop s 1)));
            st = drop 2 (st_stack s);
            s1 = set_stack (bool_view fEqual # st) s
        in if opcodenum = OP_EQUALVERIFY
           then if fEqual then Go (set_stack st s) else fail SCRIPT_ERR_EQUALVERIFY s1
           else Go s1)"

definition unary_num :: "nat \<Rightarrow> int \<Rightarrow> int" where
  "unary_num opcodenum bn =
     (if opcodenum = OP_1ADD then bn + 1
      else if opcodenum = OP_1SUB then bn - 1
      else if opcodenum = OP_NEGATE then - bn
      else if opcodenum = OP_ABS then (if bn < 0 then - bn else bn)
      else if opcodenum = OP_NOT then of_bool (bn = 0)
      else if opcodenum = OP_0NOTEQUAL then of_bool (bn \<noteq> 0)
      else bn)"

definition op_unary :: "nat \<Rightarrow> istate \<Rightarrow> outcome" where
  "op_unary opcodenum s =
     needs 1 s
       (with_num MAXIMUM_ELEMENT_SIZE (stacktop s 1) s (\<lambda>bn.
          Go (push_new (toScriptNumBuffer (unary_num opcodenum bn)) (tl (st_stack s)) s)))"

text \<open>\<^verbatim>\<open>div\<close> and \<^verbatim>\<open>mod\<close> of \<^verbatim>\<open>bn.js\<close> truncate towards zero; \<open>None\<close> is the division by zero.\<close>

definition binary_num :: "nat \<Rightarrow> int \<Rightarrow> int \<Rightarrow> int option" where
  "binary_num opcodenum a b =
     (if opcodenum = OP_ADD then Some (a + b)
      else if opcodenum = OP_SUB then Some (a - b)
      else if opcodenum = OP_DIV then (if b = 0 then None else Some (a sdiv b))
      else if opcodenum = OP_MOD then (if b = 0 then None else Some (a smod b))
      else if opcodenum = OP_BOOLAND then Some (of_bool (a \<noteq> 0 \<and> b \<noteq> 0))
      else if opcodenum = OP_BOOLOR then Some (of_bool (a \<noteq> 0 \<or> b \<noteq> 0))
      else if opcodenum = OP_NUMEQUAL \<or> opcodenum = OP_NUMEQUALVERIFY then Some (of_bool (a = b))
      else if opcodenum = OP_NUMNOTEQUAL then Some (of_bool (a \<noteq> b))
      else if opcodenum = OP_LESSTHAN then Some (of_bool (a < b))
      else if opcodenum = OP_GREATERTHAN then Some (of_bool (a > b))
      else if opcodenum = OP_LESSTHANOREQUAL then Some (of_bool (a \<le> b))
      else if opcodenum = OP_GREATERTHANOREQUAL then Some (of_bool (a \<ge> b))
      else if opcodenum = OP_MIN then Some (if a < b then a else b)
      else if opcodenum = OP_MAX then Some (if a > b then a else b)
      else Some 0)"

definition op_binary :: "nat \<Rightarrow> istate \<Rightarrow> outcome" where
  "op_binary opcodenum s =
     needs 2 s
       (with_num MAXIMUM_ELEMENT_SIZE (stacktop s 2) s (\<lambda>bn1.
        with_num MAXIMUM_ELEMENT_SIZE (stacktop s 1) s (\<lambda>bn2.
          case binary_num opcodenum bn1 bn2 of
            None \<Rightarrow> fail SCRIPT_ERR_DIV_BY_ZERO s
          | Some bn \<Rightarrow>
              let s1 = push_new (toScriptNumBuffer bn) (drop 2 (st_stack s)) s
              in if opcodenum = OP_NUMEQUALVERIFY
                 then if castToBool (val s1 (stacktop s1 1)) then Go (set_stack (tl (st_stack s1)) s1)
                      else fail SCRIPT_ERR_NUMEQUALVERIFY s1
                 else Go s1)))"

definition op_within :: "istate \<Rightarrow> outcome" where
  "op_within s =
     needs 3 s
       (with_num MAXIMUM_ELEMENT_SIZE (stacktop s 3) s (\<lambda>bn1.
        with_num MAXIMUM_ELEMENT_SIZE (stacktop s 2) s (\<lambda>bn2.
        with_num MAXIMUM_ELEMENT_SIZE (stacktop s 1) s (\<lambda>bn3.
          Go (set_stack (bool_view (bn2 \<le> bn1 \<and> bn1 < bn3) # drop 3 (st_stack s)) s)))))"

definition hash_op :: "'k env \<Rightarrow> nat \<Rightarrow> bytes \<Rightarrow> bytes" where
  "hash_op E opcodenum buf =
     (if opcodenum = OP_RIPEMD160 then hash_ripemd160 E buf
      else if opcodenum = OP_SHA1 then hash_sha1 E buf
      else if opcodenum = OP_SHA256 then hash_sha256 E buf
      else if opcodenum = OP_HASH160 then sha256ripemd160 E buf
      else sha256sha256 E buf)"

definition op_hash :: "'k env \<Rightarrow> nat \<Rightarrow> istate \<Rightarrow> outcome" where
  "op_hash E opcodenum s =
     needs 1 s (Go (push_new (hash_op E opcodenum (val s (stacktop s 1))) (tl (st_stack s)) s))"

definition op_codeseparator :: "istate \<Rightarrow> outcome" where
  "op_codeseparator s = Go (s\<lparr>st_begincode := st_pc s\<rparr>)"

text \<open>The script from the last executed code separator on, with its bytes read.\<close>

definition subscript :: "istate \<Rightarrow> script" where
  "subscript s = resolve (st_heap s) (drop (st_begincode s) (st_script s))"

definition delete_signature :: "bytes \<Rightarrow> script \<Rightarrow> script res" where
  "delete_signature bufSig sub = rbind (script_add (AddBuf bufSig) []) (findAndDelete sub)"

text \<open>The \<^verbatim>\<open>try\<close> block: any exception counts as a failed signature.\<close>

definition catch_false :: "bool res \<Rightarrow> bool" where
  "catch_false m = (case m of Inl _ \<Rightarrow> False | Inr b \<Rightarrow> b)"

definition verify_tx_sig :: "'k env \<Rightarrow> nat \<Rightarrow> script \<Rightarrow> bytes \<Rightarrow> bytes \<Rightarrow> bool res" where
  "verify_tx_sig E flags sub bufSig bufPubkey =
     rbind (fromTxFormat bufSig) (\<lambda>sig.
     rbind (key_fromBuffer E bufPubkey) (\<lambda>pubkey.
       tx_verifySignature E sig pubkey sub flags (sig_isSchnorr sig)))"

text \<open>What \<^verbatim>\<open>CHECKSIG\<close> and \<^verbatim>\<open>CHECKDATASIG\<close> do with the outcome of the verification.\<close>

definition finish_sig :: "bool \<Rightarrow> script_error \<Rightarrow> bytes \<Rightarrow> nat \<Rightarrow> bool \<Rightarrow> istate \<Rightarrow> outcome" where
  "finish_sig verify err bufSig n fSuccess s =
     (if \<not> fSuccess \<and> has_flag (st_flags s) SCRIPT_VERIFY_NULLFAIL \<and> bufSig \<noteq> []
      then fail SCRIPT_ERR_NULLFAIL s
      else let st = drop n (st_stack s); s1 = set_stack (bool_view fSuccess # st) s
      in if verify then if fSuccess then Go (set_stack st s) else fail err s1 else Go s1)"

definition op_checksig :: "'k env \<Rightarrow> nat \<Rightarrow> istate \<Rightarrow> outcome" where
  "op_checksig E opcodenum s =
     needs 2 s
       (let bufSig = val s (stacktop s 2); bufPubkey = val s (stacktop s 1)
        in case then_pubkey (checkTxSignatureEncoding (st_flags s) bufSig)
                  (checkPubkeyEncoding E (st_flags s) bufPubkey) of
             Inl e \<Rightarrow> Throw e s
           | Inr (Some err) \<Rightarrow> fail err s
           | Inr None \<Rightarrow>
             (case delete_signature bufSig (subscript s) of
                Inl e \<Rightarrow> Throw e s
              | Inr sub \<Rightarrow>
                  finish_sig (opcodenum = OP_CHECKSIGVERIFY) SCRIPT_ERR_CHECKSIGVERIFY bufSig 2
                    (catch_false (verify_tx_sig E (st_flags s) sub bufSig bufPubkey)) s))"

definition op_checkdatasig :: "'k env \<Rightarrow> nat \<Rightarrow> istate \<Rightarrow> outcome" where
  "op_checkdatasig E opcodenum s =
     needs 3 s
       (let bufSig = val s (stacktop s 3); bufMessage = val s (stacktop s 2);
            bufPubkey = val s (stacktop s 1)
        in case then_pubkey (checkDataSignatureEncoding (st_flags s) bufSig)
                  (checkPubkeyEncoding E (st_flags s) bufPubkey) of
             Inl e \<Rightarrow> Throw e s
           | Inr (Some err) \<Rightarrow> fail err s
           | Inr None \<Rightarrow>
               finish_sig (opcodenum = OP_CHECKDATASIGVERIFY) SCRIPT_ERR_CHECKDATASIGVERIFY bufSig 3
                 (catch_false
                   (rbind (fromDataFormat bufSig) (\<lambda>sig.
                    rbind (key_fromBuffer E bufPubkey) (\<lambda>pubkey.
                      data_verify E (sig_isSchnorr sig) (hash_sha256 E bufMessage) sig pubkey)))) s)"

definition op_reversebytes :: "istate \<Rightarrow> outcome" where
  "op_reversebytes s =
     needs 1 s (Go (push_new (rev (val s (stacktop s 1))) (tl (st_stack s)) s))"

definition op_cat :: "istate \<Rightarrow> outcome" where
  "op_cat s =
     needs 2 s
       (let buf1 = val s (stacktop s 2); buf2 = val s (stacktop s 1)
        in if length buf1 + length buf2 > MAX_SCRIPT_ELEMENT_SIZE then fail SCRIPT_ERR_PUSH_SIZE s
           else Go (push_new (buf1 @ buf2) (drop 2 (st_stack s)) s))"

definition op_split :: "istate \<Rightarrow> outcome" where
  "op_split s =
     needs 2 s
       (let buf1 = val s (stacktop s 2)
        in with_num MAXIMUM_ELEMENT_SIZE (stacktop s 1) s (\<lambda>position.
             if position < 0 \<or> position > int (length buf1)
             then fail SCRIPT_ERR_INVALID_SPLIT_RANGE s
             else case alloc buf1 (st_heap s) of (n1, h) \<Rightarrow>
               Go (s\<lparr>st_heap := h,
                     st_stack := sub_view n1 (nat position) (length buf1) #
                       sub_view n1 0 (nat position) # drop 2 (st_stack s)\<rparr>)))"

definition op_num2bin :: "istate \<Rightarrow> outcome" where
  "op_num2bin s =
     needs 2 s
       (with_num MAXIMUM_ELEMENT_SIZE (stacktop s 1) s (\<lambda>sz.
          if sz > int MAX_SCRIPT_ELEMENT_SIZE then fail SCRIPT_ERR_PUSH_SIZE s
          else case minimallyEncode (stacktop s 2) (st_heap s) of (rawnum, h) \<Rightarrow>
            let st = drop 2 (st_stack s);
                s1 = s\<lparr>st_heap := h, st_stack := tl (st_stack s)\<rparr>;
                raw = bytes_of h rawnum
            in if int (length raw) > sz then fail SCRIPT_ERR_IMPOSSIBLE_ENCODING s1
               else if int (length raw) = sz then Go (set_stack (rawnum # st) s1)
               else let signbit = (if raw = [] then 0 else last raw AND 0x80);
                        h1 = (if raw = [] then h
                              else poke h rawnum (length raw - 1) (last raw AND 0x7f));
                        num = bytes_of h1 rawnum @ replicate (nat sz - length raw) 0
                    in Go (push_new (num[nat sz - 1 := signbit]) st (s1\<lparr>st_heap := h1\<rparr>))))"

definition op_bin2num :: "istate \<Rightarrow> outcome" where
  "op_bin2num s =
     needs 1 s
       (case minimallyEncode (stacktop s 1) (st_heap s) of (buf2, h) \<Rightarrow>
          let s1 = s\<lparr>st_heap := h, st_stack := buf2 # tl (st_stack s)\<rparr>
          in if \<not> isMinimallyEncoded (bytes_of h buf2) MAXIMUM_ELEMENT_SIZE
             then fail SCRIPT_ERR_INVALID_NUMBER_RANGE s1 else Go s1)"

section \<open>Multisignatures\<close>

text \<open>\<^verbatim>\<open>DecodeBitfield\<close> runs without a \<^verbatim>\<open>this\<close>, so where it means to report an error it throws.\<close>

definition DecodeBitfield :: "bytes \<Rightarrow> nat \<Rightarrow> int res" where
  "DecodeBitfield dummy sz =
     (if sz > 32 then Inl TypeErr
      else let bitfieldSize = (sz + 7) div 8
      in if length dummy \<noteq> bitfieldSize then Inl TypeErr
         else let bitfield = fold (\<lambda>i acc. js_or acc (js_shl (int (unat (dummy ! i))) (8 * i)))
                               [0..<bitfieldSize] 0;
                  m = js_shl 1 sz - 1
              in if js_and bitfield m \<noteq> bitfield then Inl TypeErr else Inr bitfield)"

definition countBits :: "int \<Rightarrow> int" where
  "countBits v =
     (let v1 = v - js_and (js_shr v 1) 0x55555555;
          v2 = js_and v1 0x33333333 + js_and (js_shr v1 2) 0x33333333
      in js_shr (js_and (v2 + js_shr v2 4) 0xF0F0F0F * 0x1010101) 24)"

text \<open>The inner \<^verbatim>\<open>while\<close>: the next set bit, and whether it gave up at the number of keys.\<close>

function skip_keys :: "int \<Rightarrow> nat \<Rightarrow> nat \<Rightarrow> nat \<times> bool" where
  "skip_keys bitfield nKeysCount iKey =
     (if js_and (js_shr bitfield iKey) 1 = 0
      then if iKey \<ge> nKeysCount then (iKey, True) else skip_keys bitfield nKeysCount (Suc iKey)
      else (iKey, False))"
  by pat_completeness auto
termination by (relation "measure (\<lambda>(_, n, i). n - i)") auto

declare skip_keys.simps [simp del]

text \<open>An index past the top of the stack reads \<^verbatim>\<open>undefined\<close>, here \<open>None\<close>.\<close>

definition check_key_opt :: "'k env \<Rightarrow> nat \<Rightarrow> bytes option \<Rightarrow> script_error option res" where
  "check_key_opt E flags key =
     (case key of
        Some k \<Rightarrow> Inr (checkPubkeyEncoding E flags k)
      | None \<Rightarrow> if has_flag flags SCRIPT_VERIFY_STRICTENC then Inl TypeErr else Inr None)"

definition key_from_opt :: "'k env \<Rightarrow> bytes option \<Rightarrow> 'k res" where
  "key_from_opt E key =
     (case key of
        Some k \<Rightarrow> key_fromBuffer E k
      | None \<Rightarrow> Inl (InvalidArgument ''Must be a hex buffer of DER encoded public key''))"

text \<open>
  The Schnorr loop, over the stack with the top first: \<open>n\<close> signatures are left, the flag and
  \<^verbatim>\<open>errstr\<close> are carried along, and the loop never stops early except by an exception.
\<close>

primrec schnorr_loop ::
  "'k env \<Rightarrow> nat \<Rightarrow> script \<Rightarrow> bytes list \<Rightarrow> int \<Rightarrow> nat \<Rightarrow> nat \<Rightarrow> nat \<Rightarrow> nat \<Rightarrow>
     bool \<times> script_error \<Rightarrow> (nat \<times> bool \<times> script_error) res" where
  "schnorr_loop E flags sub st bitfield nKeysCount bottomSig 0 iKey r = Inr (iKey, r)"
| "schnorr_loop E flags sub st bitfield nKeysCount bottomSig (Suc n) iKey r =
     (let r1 = (if js_shr bitfield iKey = 0 then (False, INVALID_BIT_RANGE) else r);
          (iKey1, gaveup) = skip_keys bitfield nKeysCount iKey;
          r2 = (if gaveup then (False, WRONG) else r1);
          r3 = (if iKey1 \<ge> nKeysCount then (False, PUBKEY_COUNT) else r2);
          bufsig = st ! (bottomSig - 1);
          bufPubkey = (if iKey1 \<le> nKeysCount then Some (st ! (nKeysCount - iKey1)) else None)
      in rbind (checkRawSignatureEncoding flags bufsig) (\<lambda>err1.
         rbind (case err1 of Some e \<Rightarrow> Inr (Some e) | None \<Rightarrow> check_key_opt E flags bufPubkey) (\<lambda>err.
         let r4 = (case err of Some e \<Rightarrow> (False, e) | None \<Rightarrow> r3) in
         rbind (fromTxFormat bufsig) (\<lambda>sig.
         rbind (key_from_opt E bufPubkey) (\<lambda>pubkey.
         rbind (tx_verifySignature E sig pubkey sub flags True) (\<lambda>fOk.
           schnorr_loop E flags sub st bitfield nKeysCount (bottomSig - 1) n (Suc iKey1)
             (if fOk then r4 else (False, SIG_NULLFAIL))))))))"

definition schnorr_multisig ::
  "'k env \<Rightarrow> nat \<Rightarrow> script \<Rightarrow> bytes list \<Rightarrow> bytes \<Rightarrow> nat \<Rightarrow> nat \<Rightarrow> script_error \<Rightarrow>
     (bool \<times> script_error) res" where
  "schnorr_multisig E flags sub st dummy nKeysCount nSigsCount err0 =
     rbind (DecodeBitfield dummy nKeysCount) (\<lambda>bitfield.
       let r0 = (if countBits bitfield \<noteq> int nSigsCount then (False, INVALID_BIT_COUNT)
                 else (True, err0));
           bottomSig = nKeysCount + 2 + nSigsCount
       in rmap (\<lambda>(iKey, r). if js_shr bitfield iKey \<noteq> 0 then (False, INVALID_BIT_COUNT) else r)
            (schnorr_loop E flags sub st bitfield nKeysCount bottomSig nSigsCount 0 r0))"

text \<open>The signatures are deleted from the script one after the other.\<close>

fun delete_signatures :: "bytes list \<Rightarrow> script \<Rightarrow> script res" where
  "delete_signatures [] sub = Inr sub"
| "delete_signatures (b # bs) sub = rbind (delete_signature b sub) (delete_signatures bs)"

text \<open>
  The ECDSA loop, on the signatures and keys that are left, topmost first; the left result is
  \<^verbatim>\<open>return false\<close> with its error.  There are never more signatures than keys.
\<close>

fun multisig_loop ::
  "(bytes \<Rightarrow> bytes \<Rightarrow> script_error option res) \<Rightarrow> (bytes \<Rightarrow> bytes \<Rightarrow> bool) \<Rightarrow>
     bytes list \<Rightarrow> bytes list \<Rightarrow> (script_error + bool) res" where
  "multisig_loop check verify [] keys = Inr (Inr True)"
| "multisig_loop check verify (b # bs) [] = Inr (Inr False)"
| "multisig_loop check verify (b # bs) (k # ks) =
     rbind (check b k) (\<lambda>err. case err of
         Some e \<Rightarrow> Inr (Inl e)
       | None \<Rightarrow>
           let sigs = (if verify b k then bs else b # bs)
           in if length sigs > length ks then Inr (Inr False)
              else multisig_loop check verify sigs ks)"

text \<open>
  The clean up: \<open>n\<close> elements are popped; once \<open>ikey2\<close> of them are gone the rest are
  signatures, which have to be empty under \<^verbatim>\<open>NULLFAIL\<close> if the check failed.
\<close>

primrec clean_stack :: "bool \<Rightarrow> nat \<Rightarrow> nat \<Rightarrow> istate \<Rightarrow> outcome" where
  "clean_stack strict 0 ikey2 s = Go s"
| "clean_stack strict (Suc n) ikey2 s =
     (if strict \<and> ikey2 = 0 \<and> val s (stacktop s 1) \<noteq> [] then fail SCRIPT_ERR_NULLFAIL s
      else clean_stack strict n (ikey2 - 1) (set_stack (tl (st_stack s)) s))"

definition finish_multisig :: "nat \<Rightarrow> nat \<Rightarrow> nat \<Rightarrow> bool \<Rightarrow> istate \<Rightarrow> outcome" where
  "finish_multisig opcodenum nKeysCount nSigsCount fSuccess s =
     (case clean_stack (\<not> fSuccess \<and> has_flag (st_flags s) SCRIPT_VERIFY_NULLFAIL)
             (nKeysCount + nSigsCount + 2) (nKeysCount + 2) s of
        Go s1 \<Rightarrow>
          if st_stack s1 = [] then fail SCRIPT_ERR_INVALID_STACK_OPERATION s1
          else if has_flag (st_flags s1) SCRIPT_VERIFY_NULLDUMMY \<and> val s1 (stacktop s1 1) \<noteq> []
          then fail SCRIPT_ERR_SIG_NULLDUMMY s1
          else let st = tl (st_stack s1); s2 = set_stack (bool_view fSuccess # st) s1
          in if opcodenum = OP_CHECKMULTISIGVERIFY
             then if fSuccess then Go (set_stack st s1) else fail SCRIPT_ERR_CHECKMULTISIGVERIFY s2
             else Go s2
      | r \<Rightarrow> r)"

definition multisig_verify ::
  "'k env \<Rightarrow> nat \<Rightarrow> nat \<Rightarrow> istate \<Rightarrow> (script_error + bool \<times> script_error) res" where
  "multisig_verify E nKeysCount nSigsCount s =
     (let flags = st_flags s; st = map (val s) (st_stack s);
          dummy = st ! (nKeysCount + nSigsCount + 2)
      in if has_flag flags SCRIPT_ENABLE_SCHNORR_MULTISIG \<and> dummy \<noteq> []
         then rmap Inr (schnorr_multisig E flags (subscript s) st dummy nKeysCount nSigsCount (st_errstr s))
         else let sigs = take nSigsCount (drop (nKeysCount + 2) st);
                  keys = take nKeysCount (drop 1 st)
         in rbind (delete_signatures sigs (subscript s)) (\<lambda>sub.
            rmap (map_sum id (\<lambda>b. (b, st_errstr s)))
              (multisig_loop
                (\<lambda>b k. then_pubkey (checkTxSignatureEncoding flags b) (checkPubkeyEncoding E flags k))
                (\<lambda>b k. catch_false (rbind (fromTxFormat b) (\<lambda>sig. rbind (key_fromBuffer E k) (\<lambda>pubkey.
                   tx_verifySignature E sig pubkey sub flags False))))
                sigs keys)))"

definition op_checkmultisig :: "'k env \<Rightarrow> nat \<Rightarrow> istate \<Rightarrow> outcome" where
  "op_checkmultisig E opcodenum s =
     needs 1 s
       (with_num MAXIMUM_ELEMENT_SIZE (stacktop s 1) s (\<lambda>nKeys.
          if nKeys < 0 \<or> nKeys > 20 then fail SCRIPT_ERR_PUBKEY_COUNT s
          else let nKeysCount = nat nKeys; s1 = s\<lparr>st_nOpCount := st_nOpCount s + nKeysCount\<rparr>
          in if st_nOpCount s1 > 201 then fail SCRIPT_ERR_OP_COUNT s1
          else needs (nKeysCount + 2) s1
            (with_num MAXIMUM_ELEMENT_SIZE (stacktop s1 (nKeysCount + 2)) s1 (\<lambda>nSigs.
               if nSigs < 0 \<or> nSigs > nKeys then fail SCRIPT_ERR_SIG_COUNT s1
               else let nSigsCount = nat nSigs
               in needs (nKeysCount + nSigsCount + 3) s1
                 (case multisig_verify E nKeysCount nSigsCount s1 of
                    Inl e \<Rightarrow> Throw e s1
                  | Inr (Inl err) \<Rightarrow> fail err s1
                  | Inr (Inr (fSuccess, err)) \<Rightarrow>
                      finish_multisig opcodenum nKeysCount nSigsCount fSuccess
                        (s1\<lparr>st_errstr := err\<rparr>))))))"

section \<open>One step\<close>

definition isOpcodeDisabled :: "nat \<Rightarrow> bool" where
  "isOpcodeDisabled opcode \<longleftrightarrow>
     opcode = OP_INVERT \<or> opcode = OP_2MUL \<or> opcode = OP_2DIV \<or> opcode = OP_MUL \<or>
     opcode = OP_LSHIFT \<or> opcode = OP_RSHIFT"

text \<open>The \<^verbatim>\<open>switch\<close> over the opcode.\<close>

definition exec_op :: "'k env \<Rightarrow> bool \<Rightarrow> nat \<Rightarrow> istate \<Rightarrow> outcome" where
  "exec_op E fExec n s =
     (if n = OP_1NEGATE \<or> OP_1 \<le> n \<and> n \<le> OP_16 then op_number n s
      else if n = OP_NOP then Go s
      else if n = OP_CHECKLOCKTIMEVERIFY then op_checklocktimeverify E s
      else if n = OP_CHECKSEQUENCEVERIFY then op_checksequenceverify E s
      else if n = OP_NOP1 \<or> OP_NOP4 \<le> n \<and> n \<le> OP_NOP10 then op_upgradable_nop s
      else if n = OP_IF \<or> n = OP_NOTIF then op_if fExec n s
      else if n = OP_ELSE then op_else s
      else if n = OP_ENDIF then op_endif s
      else if n = OP_VERIFY then op_verify s
      else if n = OP_RETURN then op_return s
      else if n = OP_TOALTSTACK then op_toaltstack s
      else if n = OP_FROMALTSTACK then op_fromaltstack s
      else case rearrange_depth n of Some depth \<Rightarrow> op_rearrange depth n s | None \<Rightarrow>
           if n = OP_IFDUP then op_ifdup s
      else if n = OP_DEPTH then op_depth s
      else if n = OP_PICK \<or> n = OP_ROLL then op_pick_roll n s
      else if n = OP_SIZE then op_size s
      else if n = OP_AND \<or> n = OP_OR \<or> n = OP_XOR then op_bitwise n s
      else if n = OP_EQUAL \<or> n = OP_EQUALVERIFY then op_equal n s
      else if n = OP_1ADD \<or> n = OP_1SUB \<or> n = OP_NEGATE \<or> n = OP_ABS \<or> n = OP_NOT \<or> n = OP_0NOTEQUAL
        then op_unary n s
      else if n = OP_ADD \<or> n = OP_SUB \<or> n = OP_MOD \<or> n = OP_DIV \<or> OP_BOOLAND \<le> n \<and> n \<le> OP_MAX
        then op_binary n s
      else if n = OP_WITHIN then op_within s
      else if OP_RIPEMD160 \<le> n \<and> n \<le> OP_HASH256 then op_hash E n s
      else if n = OP_CODESEPARATOR then op_codeseparator s
      else if n = OP_CHECKSIG \<or> n = OP_CHECKSIGVERIFY then op_checksig E n s
      else if n = OP_CHECKDATASIG \<or> n = OP_CHECKDATASIGVERIFY then op_checkdatasig E n s
      else if n = OP_REVERSEBYTES then op_reversebytes s
      else if n = OP_CHECKMULTISIG \<or> n = OP_CHECKMULTISIGVERIFY then op_checkmultisig E n s
      else if n = OP_CAT then op_cat s
      else if n = OP_SPLIT then op_split s
      else if n = OP_NUM2BIN then op_num2bin s
      else if n = OP_BIN2NUM then op_bin2num s
      else fail SCRIPT_ERR_BAD_OPCODE s)"

definition push_data :: "view chunk \<Rightarrow> istate \<Rightarrow> outcome" where
  "push_data chunk s =
     (if fRequireMinimal s \<and>
         (case chunk_buf chunk of None \<Rightarrow> False | Some v \<Rightarrow> \<not> minimal_push (val s v) (chunk_op chunk))
      then fail SCRIPT_ERR_MINIMALDATA s
      else case chunk_buf chunk of
        None \<Rightarrow> Go (set_stack (false_view # st_stack s) s)
      | Some v \<Rightarrow>
          if chunk_len chunk \<noteq> length (val s v)
          then Throw (PlainError ''Length of push value not equal to length of data'') s
          else Go (set_stack (v # st_stack s) s))"

definition step :: "'k env \<Rightarrow> istate \<Rightarrow> outcome" where
  "step E s0 =
     (let fExec = (False \<notin> set (st_vfExec s0));
          chunk = st_script s0 ! st_pc s0;
          s = s0\<lparr>st_pc := st_pc s0 + 1\<rparr>
      in case chunk_op chunk of
        None \<Rightarrow> fail SCRIPT_ERR_UNDEFINED_OPCODE s
      | Some opcodenum \<Rightarrow>
        if (case chunk_buf chunk of None \<Rightarrow> False
            | Some v \<Rightarrow> length (val s v) > MAX_SCRIPT_ELEMENT_SIZE)
        then fail SCRIPT_ERR_PUSH_SIZE s
        else let s1 = (if opcodenum > OP_16 then s\<lparr>st_nOpCount := st_nOpCount s + 1\<rparr> else s)
        in if opcodenum > OP_16 \<and> st_nOpCount s1 > 201 then fail SCRIPT_ERR_OP_COUNT s1
        else if isOpcodeDisabled opcodenum then fail SCRIPT_ERR_DISABLED_OPCODE s1
        else if fExec \<and> opcodenum \<le> OP_PUSHDATA4 then push_data chunk s1
        else if fExec \<or> OP_IF \<le> opcodenum \<and> opcodenum \<le> OP_ENDIF then exec_op E fExec opcodenum s1
        else Go s1)"

section \<open>What no step changes\<close>

definition post :: "(istate \<Rightarrow> bool) \<Rightarrow> outcome \<Rightarrow> bool" where
  "post P r = (case r of Go s \<Rightarrow> P s | Fail s \<Rightarrow> P s | Throw e s \<Rightarrow> P s)"

lemma post_simps [simp]:
  "post P (Go s) = P s" "post P (Fail s) = P s" "post P (Throw e s) = P s"
  "post P (fail err s) = P (s\<lparr>st_errstr := err\<rparr>)"
  by (simp_all add: post_def fail_def)

text \<open>A handler keeps the script, the program counter and the flags.\<close>

definition same :: "istate \<Rightarrow> istate \<Rightarrow> bool" where
  "same s t \<longleftrightarrow> st_script t = st_script s \<and> st_pc t = st_pc s \<and> st_flags t = st_flags s"

lemma same_upd [simp]:
  "same s (t\<lparr>st_heap := h\<rparr>) = same s t" "same s (t\<lparr>st_stack := st\<rparr>) = same s t"
  "same s (t\<lparr>st_alt := st\<rparr>) = same s t" "same s (t\<lparr>st_errstr := e\<rparr>) = same s t"
  "same s (t\<lparr>st_vfExec := v\<rparr>) = same s t" "same s (t\<lparr>st_nOpCount := n\<rparr>) = same s t"
  "same s (t\<lparr>st_begincode := n\<rparr>) = same s t" "same s (set_stack st t) = same s t"
  "same s (push_new b st t) = same s t" "same s s"
  by (simp_all add: same_def set_stack_def push_new_def split: prod.splits)

lemma post_needs: "post P (needs n s k) \<longleftrightarrow>
    (if length (st_stack s) < n then P (s\<lparr>st_errstr := SCRIPT_ERR_INVALID_STACK_OPERATION\<rparr>) else post P k)"
  by (simp add: needs_def)

lemma post_with_num: "post P (with_num k v s f) \<longleftrightarrow>
    (case fromScriptNumBuffer (val s v) (fRequireMinimal s) k of Inl e \<Rightarrow> P s | Inr n \<Rightarrow> post P (f n))"
  by (simp add: with_num_def split: sum.splits)

lemmas post_rules = post_needs post_with_num

lemma same_clean_stack: "same s t \<Longrightarrow> post (same s) (clean_stack strict n k t)"
  by (induction n arbitrary: k t) simp_all

lemma same_finish_multisig: "same s t \<Longrightarrow> post (same s) (finish_multisig opc nk ns f t)"
  using same_clean_stack [of s t "\<not> f \<and> has_flag (st_flags t) SCRIPT_VERIFY_NULLFAIL" "nk + ns + 2" "nk + 2"]
  by (auto simp: finish_multisig_def Let_def split: outcome.splits)

lemma same_finish_sig: "same s t \<Longrightarrow> post (same s) (finish_sig vf err b n f t)"
  by (auto simp: finish_sig_def Let_def)

lemma same_op_checkmultisig: "post (same s) (op_checkmultisig E n s)"
  by (auto simp: op_checkmultisig_def post_rules Let_def split: sum.splits
      intro!: same_finish_multisig)

lemma same_handlers:
  "post (same s) (op_number n s)" "post (same s) (op_checklocktimeverify E s)"
  "post (same s) (op_checksequenceverify E s)" "post (same s) (op_upgradable_nop s)"
  "post (same s) (op_if fe n s)" "post (same s) (op_else s)" "post (same s) (op_endif s)"
  "post (same s) (op_verify s)" "post (same s) (op_return s)" "post (same s) (op_toaltstack s)"
  "post (same s) (op_fromaltstack s)" "post (same s) (op_rearrange d n s)" "post (same s) (op_ifdup s)"
  "post (same s) (op_depth s)" "post (same s) (op_pick_roll n s)" "post (same s) (op_size s)"
  "post (same s) (op_bitwise n s)" "post (same s) (op_equal n s)" "post (same s) (op_unary n s)"
  "post (same s) (op_binary n s)" "post (same s) (op_within s)" "post (same s) (op_hash E n s)"
  "post (same s) (op_codeseparator s)" "post (same s) (op_checksig E n s)"
  "post (same s) (op_checkdatasig E n s)" "post (same s) (op_reversebytes s)"
  "post (same s) (op_cat s)" "post (same s) (op_split s)" "post (same s) (op_num2bin s)"
  "post (same s) (op_bin2num s)"
  by (auto simp: post_rules Let_def op_number_def op_checklocktimeverify_def
      op_checksequenceverify_def op_upgradable_nop_def op_if_def op_else_def op_endif_def
      op_verify_def op_return_def op_toaltstack_def op_fromaltstack_def op_rearrange_def
      op_ifdup_def op_depth_def op_pick_roll_def op_size_def op_bitwise_def op_equal_def
      op_unary_def op_binary_def op_within_def op_hash_def op_codeseparator_def op_checksig_def
      op_checkdatasig_def op_reversebytes_def op_cat_def op_split_def op_num2bin_def
      op_bin2num_def split: sum.splits option.splits list.splits prod.splits
      intro!: same_finish_sig)

lemma P_if: "(c \<Longrightarrow> P a) \<Longrightarrow> (\<not> c \<Longrightarrow> P b) \<Longrightarrow> P (if c then a else b)"
  by simp

lemma P_option: "P a \<Longrightarrow> (\<And>x. m = Some x \<Longrightarrow> P (f x)) \<Longrightarrow> P (case m of None \<Rightarrow> a | Some x \<Rightarrow> f x)"
  by (cases m) simp_all

text \<open>A property of every handler is one of the \<^verbatim>\<open>switch\<close>.\<close>

lemma exec_op_cases:
  assumes "P (Go s)" and "P (fail SCRIPT_ERR_BAD_OPCODE s)"
    and "P (op_number n s)" and "P (op_checklocktimeverify E s)" and "P (op_checksequenceverify E s)"
    and "P (op_upgradable_nop s)" and "P (op_if fe n s)" and "P (op_else s)" and "P (op_endif s)"
    and "P (op_verify s)" and "P (op_return s)" and "P (op_toaltstack s)" and "P (op_fromaltstack s)"
    and "\<And>d. rearrange_depth n = Some d \<Longrightarrow> P (op_rearrange d n s)" and "P (op_ifdup s)" and "P (op_depth s)"
    and "P (op_pick_roll n s)" and "P (op_size s)" and "P (op_bitwise n s)" and "P (op_equal n s)"
    and "P (op_unary n s)" and "P (op_binary n s)" and "P (op_within s)" and "P (op_hash E n s)"
    and "P (op_codeseparator s)" and "P (op_checksig E n s)" and "P (op_checkdatasig E n s)"
    and "P (op_reversebytes s)" and "P (op_checkmultisig E n s)" and "P (op_cat s)"
    and "P (op_split s)" and "P (op_num2bin s)" and "P (op_bin2num s)"
  shows "P (exec_op E fe n s)"
  unfolding exec_op_def
  by (intro P_if [where P = P] P_option [where P = P] assms)

lemma same_exec_op: "post (same s) (exec_op E fe n s)"
  by (rule exec_op_cases) (simp_all add: same_handlers same_op_checkmultisig)

lemma same_push_data: "post (same s) (push_data c s)"
  by (auto simp: push_data_def split: option.splits)

lemma post_if: "post P (if c then a else b) \<longleftrightarrow> (if c then post P a else post P b)"
  by simp

text \<open>\<open>step\<close> after the program counter has moved, with the opcode counted.\<close>

definition counted :: "nat \<Rightarrow> istate \<Rightarrow> istate" where
  "counted n s = (if n > 96 then s\<lparr>st_nOpCount := st_nOpCount s + 1\<rparr> else s)"

lemma step_cases:
  assumes "\<And>e t. same (s\<lparr>st_pc := st_pc s + 1\<rparr>) t \<Longrightarrow> st_heap t = st_heap s \<Longrightarrow> st_stack t = st_stack s \<Longrightarrow>
      st_alt t = st_alt s \<Longrightarrow> P (fail e t)"
    and "\<And>n t. t = counted n (s\<lparr>st_pc := st_pc s + 1\<rparr>) \<Longrightarrow> st_nOpCount t \<le> 201 \<or> n \<le> 96 \<Longrightarrow>
      P (Go t) \<and> P (exec_op E True n t) \<and> P (exec_op E False n t) \<and>
      P (push_data (st_script s ! st_pc s) t)"
  shows "P (step E s)"
proof (cases "chunk_op (st_script s ! st_pc s)")
  case None
  then show ?thesis using assms(1) by (simp add: step_def Let_def same_def)
next
  case (Some n)
  let ?s = "s\<lparr>st_pc := st_pc s + 1\<rparr>" let ?t = "counted n ?s"
  have f: "P (fail e ?s)" "P (fail e ?t)" for e
    using assms(1) by (simp_all add: same_def counted_def)
  have e: "step E s =
     (if (case chunk_buf (st_script s ! st_pc s) of None \<Rightarrow> False
            | Some v \<Rightarrow> length (val ?s v) > 520)
      then fail SCRIPT_ERR_PUSH_SIZE ?s
      else if n > 96 \<and> st_nOpCount ?t > 201 then fail SCRIPT_ERR_OP_COUNT ?t
      else if isOpcodeDisabled n then fail SCRIPT_ERR_DISABLED_OPCODE ?t
      else if False \<notin> set (st_vfExec s) \<and> n \<le> 78 then push_data (st_script s ! st_pc s) ?t
      else if False \<notin> set (st_vfExec s) \<or> 99 \<le> n \<and> n \<le> 104
        then exec_op E (False \<notin> set (st_vfExec s)) n ?t
      else Go ?t)"
    unfolding step_def Let_def counted_def by (simp only: Some option.case)
  have g: "\<not> (n > 96 \<and> st_nOpCount ?t > 201) \<Longrightarrow> P (Go ?t) \<and> P (exec_op E b n ?t) \<and>
      P (push_data (st_script s ! st_pc s) ?t)" for b
    using assms(2) [of ?t n] by (cases b) auto
  show ?thesis unfolding e
    by (intro P_if [where P = P] f) (use g in blast)+
qed

lemma step_advances:
  "post (\<lambda>t. st_script t = st_script s \<and> st_pc t = Suc (st_pc s) \<and> st_flags t = st_flags s) (step E s)"
proof -
  have *: "post (same t) r \<Longrightarrow> t = counted n (s\<lparr>st_pc := st_pc s + 1\<rparr>) \<Longrightarrow>
      post (\<lambda>t. st_script t = st_script s \<and> st_pc t = Suc (st_pc s) \<and> st_flags t = st_flags s) r" for t r n
    by (cases r) (auto simp: same_def counted_def)
  show ?thesis
    by (rule step_cases)
       (auto simp: same_def counted_def intro: * [OF same_exec_op] * [OF same_push_data])
qed

section \<open>Running a script\<close>

function eval_loop :: "'k env \<Rightarrow> istate \<Rightarrow> outcome" where
  "eval_loop E s =
     (if st_pc s < length (st_script s)
      then (case step E s of Go t \<Rightarrow> eval_loop E t | Fail t \<Rightarrow> Fail t | Throw e t \<Rightarrow> Throw e t)
      else Go s)"
  by pat_completeness auto
termination
proof (relation "measure (\<lambda>(_, s). length (st_script s) - st_pc s)")
  fix E :: "'k env" and s t
  assume "st_pc s < length (st_script s)" and "step E s = Go t"
  then show "((E, t), E, s) \<in> measure (\<lambda>(_, s). length (st_script s) - st_pc s)"
    using step_advances [of s E] by simp
qed simp

declare eval_loop.simps [simp del]

text \<open>\<^verbatim>\<open>evaluate\<close>: only the size test, outside the \<^verbatim>\<open>try\<close> block, lets an exception out.\<close>

definition evaluate :: "'k env \<Rightarrow> istate \<Rightarrow> outcome" where
  "evaluate E s =
     (case script_toBuffer (resolve (st_heap s) (st_script s)) of
        Inl e \<Rightarrow> Throw e s
      | Inr buf \<Rightarrow>
        if length buf > 10000 then fail SCRIPT_ERR_SCRIPT_SIZE s
        else case eval_loop E s of
          Throw e t \<Rightarrow> fail (SCRIPT_ERR_UNKNOWN_ERROR e) t
        | Fail t \<Rightarrow> Fail t
        | Go t \<Rightarrow>
          if length (st_stack t) + length (st_alt t) > 1000 then fail SCRIPT_ERR_STACK_SIZE t
          else if st_vfExec t \<noteq> [] then fail SCRIPT_ERR_UNBALANCED_CONDITIONAL t
          else Go t)"

text \<open>A script parsed from a buffer shares its memory.\<close>

definition script_of_view :: "heap \<Rightarrow> view \<Rightarrow> view chunk list res" where
  "script_of_view h v = read_chunks (sub_view v) (rd (bytes_of h v) 0)"

text \<open>
  \<^verbatim>\<open>verify\<close> on a fresh interpreter.  \<^verbatim>\<open>stackCopy\<close> is the stack after \<^verbatim>\<open>scriptSig\<close>; for a pay to script
  hash output it is the array the redeem script runs on.
\<close>

definition verify_flags :: "nat \<Rightarrow> nat" where
  "verify_flags flags =
     (if has_flag flags SCRIPT_ENABLE_SIGHASH_FORKID then flags OR SCRIPT_VERIFY_STRICTENC else flags)"

definition bind_outcome :: "outcome \<Rightarrow> (istate \<Rightarrow> outcome) \<Rightarrow> outcome" where
  "bind_outcome r f = (case r of Go s \<Rightarrow> f s | Fail s \<Rightarrow> Fail s | Throw e s \<Rightarrow> Throw e s)"

definition check_cleanstack :: "nat \<Rightarrow> view list \<Rightarrow> istate \<Rightarrow> outcome" where
  "check_cleanstack flags stackCopy s =
     (if has_flag flags SCRIPT_VERIFY_CLEANSTACK
      then if \<not> has_flag flags SCRIPT_VERIFY_P2SH
           then Throw (PlainError ''internal error - CLEANSTACK without P2SH'') s
           else if length stackCopy \<noteq> 1 then fail SCRIPT_ERR_CLEANSTACK s else Go s
      else Go s)"

definition verify_p2sh :: "'k env \<Rightarrow> view chunk list \<Rightarrow> nat \<Rightarrow> view list \<Rightarrow> istate \<Rightarrow> outcome" where
  "verify_p2sh E scriptSig flags stackCopy s =
     (if \<not> isPushOnly scriptSig then fail SCRIPT_ERR_SIG_PUSHONLY s
      else case stackCopy of
        [] \<Rightarrow> Throw (PlainError ''internal error - stack copy empty'') s
      | redeemScriptSerialized # rest \<Rightarrow>
        (case script_of_view (st_heap s) redeemScriptSerialized of
           Inl e \<Rightarrow> Throw e s
         | Inr redeemScript \<Rightarrow>
             bind_outcome (evaluate E (initialize (st_heap s) redeemScript rest flags)) (\<lambda>t.
               case st_stack t of
                 [] \<Rightarrow> fail SCRIPT_ERR_EVAL_FALSE_NO_P2SH_STACK t
               | tp # _ \<Rightarrow>
                   if \<not> castToBool (val t tp) then fail SCRIPT_ERR_EVAL_FALSE_IN_P2SH_STACK t
                   else check_cleanstack flags (st_stack t) t)))"

definition verify :: "'k env \<Rightarrow> heap \<Rightarrow> view chunk list \<Rightarrow> view chunk list \<Rightarrow> nat \<Rightarrow> outcome" where
  "verify E h scriptSig scriptPubkey flags0 =
     (let flags = verify_flags flags0; s0 = initialize h scriptSig [] flags
      in if has_flag flags0 SCRIPT_ENABLE_SIGHASH_FORKID \<and> \<not> has_satoshis E
         then Throw (PlainError ''internal error - need satoshisBN to verify FORKID transactions'') s0
         else if has_flag flags SCRIPT_VERIFY_SIGPUSHONLY \<and> \<not> isPushOnly scriptSig
         then fail SCRIPT_ERR_SIG_PUSHONLY s0
         else bind_outcome (evaluate E s0) (\<lambda>s1.
           let stackCopy = st_stack s1 in
           bind_outcome (evaluate E (initialize (st_heap s1) scriptPubkey stackCopy flags)) (\<lambda>s2.
             case st_stack s2 of
               [] \<Rightarrow> fail SCRIPT_ERR_EVAL_FALSE_NO_RESULT s2
             | buf # _ \<Rightarrow>
                 if \<not> castToBool (val s2 buf) then fail SCRIPT_ERR_EVAL_FALSE_IN_STACK s2
                 else if has_flag flags SCRIPT_VERIFY_P2SH
                 then case isScriptHashOut (resolve (st_heap s2) scriptPubkey) of
                        Inl e \<Rightarrow> Throw e s2
                      | Inr True \<Rightarrow> verify_p2sh E scriptSig flags stackCopy s2
                      | Inr False \<Rightarrow> check_cleanstack flags stackCopy s2
                 else check_cleanstack flags stackCopy s2)))"

text \<open>An environment in which no key parses and no signature holds, for concrete runs.\<close>

definition demo_env :: "unit env" where
  "demo_env = \<lparr>tx_nLockTime = 0, tx_version = 2, tx_sequence = Some 0, has_satoshis = True,
     key_isValid = (\<lambda>_. False), key_fromBuffer = (\<lambda>_. Inl TypeErr),
     tx_verifySignature = (\<lambda>_ _ _ _ _. Inr False), data_verify = (\<lambda>_ _ _ _. Inr False),
     hash_sha1 = id, hash_sha256 = id, hash_ripemd160 = id\<rparr>"

text \<open>The memory of a fresh process: \<^verbatim>\<open>Interpreter.true\<close> and \<^verbatim>\<open>Interpreter.false\<close>.\<close>

definition boot_heap :: heap where
  "boot_heap = [[1], []]"

end
