(* ===== verification/InterpreterSafety.thy ===== *)
theory InterpreterSafety
  imports Interpreter
begin

text \<open>
  What holds in every state the script interpreter reaches: all its buffers lie inside
  allocated memory, at most 201 counted opcodes have run, and the stacks have grown by at
  most three elements a step.  \<open>runs\<close> is the step relation of successful steps; its
  invariants are proved by rule induction from one lemma per handler.
\<close>


section \<open>Memory safety\<close>

definition grows :: "heap \<Rightarrow> heap \<Rightarrow> bool" where
  "grows h h' \<longleftrightarrow> (\<forall>v. view_ok h v \<longrightarrow> view_ok h' v)"

definition script_ok :: "heap \<Rightarrow> view chunk list \<Rightarrow> bool" where
  "script_ok h cs \<longleftrightarrow> (\<forall>c \<in> set cs. \<forall>v. chunk_buf c = Some v \<longrightarrow> view_ok h v)"

text \<open>Every buffer the interpreter can reach lies inside its block.\<close>

definition wf :: "istate \<Rightarrow> bool" where
  "wf s \<longleftrightarrow> list_all (view_ok (st_heap s)) (st_stack s) \<and> list_all (view_ok (st_heap s)) (st_alt s) \<and>
     script_ok (st_heap s) (st_script s) \<and> view_ok (st_heap s) true_view \<and>
     view_ok (st_heap s) false_view"

definition mem_ok :: "istate \<Rightarrow> istate \<Rightarrow> bool" where
  "mem_ok s t \<longleftrightarrow> grows (st_heap s) (st_heap t) \<and> list_all (view_ok (st_heap t)) (st_stack t) \<and>
     list_all (view_ok (st_heap t)) (st_alt t)"

lemma grows_refl [simp]: "grows h h"
  by (simp add: grows_def)

lemma grows_trans: "grows h1 h2 \<Longrightarrow> grows h2 h3 \<Longrightarrow> grows h1 h3"
  by (simp add: grows_def)

lemma grows_ok: "grows h h' \<Longrightarrow> view_ok h v \<Longrightarrow> view_ok h' v"
  by (simp add: grows_def)

lemma grows_alloc: "grows h (snd (alloc b h))"
  using buf.keep_ok by (fastforce simp: grows_def alloc_def)

lemma alloc_grows: "alloc b h = (v, h') \<Longrightarrow> grows h h' \<and> view_ok h' v"
  using grows_alloc [of h b] by (auto intro: buf.mk_ok)

lemma grows_poke [simp]: "grows h (poke h v i x)"
  by (simp add: grows_def view_ok_poke)

lemma list_all_parts [simp]:
  "list_all P xs \<Longrightarrow> list_all P (drop n xs)" "list_all P xs \<Longrightarrow> list_all P (take n xs)"
  "list_all P xs \<Longrightarrow> list_all P (tl xs)"
  by (auto simp: list_all_iff dest: in_set_dropD in_set_takeD) (cases xs; simp)

lemma list_all_nth: "list_all P xs \<Longrightarrow> k < length xs \<Longrightarrow> P (xs ! k)"
  by (simp add: list_all_length)

lemma mem_ok_refl: "wf s \<Longrightarrow> mem_ok s s"
  by (simp add: wf_def mem_ok_def)

lemma mem_ok_same_heap: "wf s \<Longrightarrow> st_heap t = st_heap s \<Longrightarrow>
    list_all (view_ok (st_heap s)) (st_stack t) \<Longrightarrow> st_alt t = st_alt s \<Longrightarrow> mem_ok s t"
  by (simp add: mem_ok_def wf_def)

lemma wf_mem_ok: "wf s \<Longrightarrow> same s t \<Longrightarrow> mem_ok s t \<Longrightarrow> wf t"
  by (auto simp: wf_def mem_ok_def same_def script_ok_def dest: grows_ok)

lemma ok_grows: "grows h h' \<Longrightarrow> list_all (view_ok h) vs \<Longrightarrow> list_all (view_ok h') vs"
  by (auto simp: list_all_iff grows_def)

lemma mem_okI: "wf s \<Longrightarrow> grows (st_heap s) (st_heap t) \<Longrightarrow>
    list_all (\<lambda>v. v \<in> set (st_stack s) \<or> view_ok (st_heap t) v) (st_stack t) \<Longrightarrow>
    st_alt t = st_alt s \<Longrightarrow> mem_ok s t"
  by (auto simp: wf_def mem_ok_def grows_def list_all_iff)

lemma old_parts [simp]:
  "list_all (\<lambda>v. v \<in> set st \<or> P v) st"
  "list_all (\<lambda>v. v \<in> set st \<or> P v) (drop k st)" "list_all (\<lambda>v. v \<in> set st \<or> P v) (tl st)"
  by (auto simp: list_all_iff dest: in_set_dropD) (cases st; simp)

lemma set_tl_parts: "set (take k (tl st)) \<subseteq> set st" "set (drop k (tl st)) \<subseteq> set st"
  using set_take_subset [of k "tl st"] set_drop_subset [of k "tl st"] by (cases st; auto)+

lemma old_tl_parts [simp]:
  "list_all (\<lambda>v. v \<in> set st \<or> P v) (take k (tl st))" "list_all (\<lambda>v. v \<in> set st \<or> P v) (drop k (tl st))"
  using set_tl_parts [of k st] by (auto simp: list_all_iff)

lemma nth_tl_set: "k < length st - Suc 0 \<Longrightarrow> tl st ! k \<in> set st"
  by (cases st) auto

lemma mem_ok_push_new: "wf s \<Longrightarrow> st_heap t = st_heap s \<Longrightarrow> st_alt t = st_alt s \<Longrightarrow>
    list_all (view_ok (st_heap s)) vs \<Longrightarrow> mem_ok s (push_new b vs t)"
  using grows_alloc [of "st_heap s" b]
  by (auto simp: mem_ok_def push_new_def wf_def ok_grows split: prod.splits intro: buf.mk_ok)

lemma mem_ok_push_self [simp]: "wf s \<Longrightarrow> list_all (view_ok (st_heap s)) vs \<Longrightarrow> mem_ok s (push_new b vs s)"
  by (rule mem_ok_push_new) simp_all

lemma view_ok_bool: "wf s \<Longrightarrow> view_ok (st_heap s) (bool_view b)"
  by (simp add: wf_def bool_view_def)

lemma grows_zip_into: "grows h (zip_into f v w i k h)"
proof (induction k arbitrary: i h)
  case (Suc k)
  show ?case using grows_trans [OF grows_poke Suc.IH] by simp
qed simp

lemma minimal_loop_ok: "view_ok h v \<Longrightarrow> minimal_loop v l j h = (w, h') \<Longrightarrow> view_ok h' w \<and> grows h h'"
proof (induction j)
  case 0
  then show ?case using grows_alloc [of h "[]"] by (auto intro: buf.mk_ok)
next
  case (Suc j)
  then show ?case
    by (auto simp: Let_def view_ok_poke view_ok_sub split: if_splits)
qed

lemma minimallyEncode_ok: "view_ok h v \<Longrightarrow> minimallyEncode v h = (w, h') \<Longrightarrow> view_ok h' w \<and> grows h h'"
  using grows_alloc [of h "[]"]
  by (auto simp: minimallyEncode_def Let_def split: if_splits dest: minimal_loop_ok intro: buf.mk_ok)

lemma rearrange_set:
  assumes "rearrange_depth n = Some d" and "d \<le> length st"
  shows "set (rearrange n st) \<subseteq> set st"
proof -
  have nth: "k < d \<Longrightarrow> st ! k \<in> set st" for k using assms(2) by simp
  show ?thesis
    using assms(1) nth set_drop_subset [of _ st] set_take_subset [of _ st]
    by (fastforce simp: rearrange.simps rearrange_depth_def split: if_splits
        dest: in_set_dropD in_set_takeD)
qed

lemma mem_ok_clean_stack: "mem_ok s t \<Longrightarrow> post (mem_ok s) (clean_stack strict n k t)"
  by (induction n arbitrary: k t) (simp_all add: mem_ok_def set_stack_def)

lemma wf_tops: "wf s \<Longrightarrow> k \<le> length (st_stack s) \<Longrightarrow> 0 < k \<Longrightarrow> view_ok (st_heap s) (stacktop s k)"
  by (simp add: wf_def stacktop_def list_all_length)

lemma wf_top [simp]: "wf s \<Longrightarrow> st_stack s \<noteq> [] \<Longrightarrow> view_ok (st_heap s) (stacktop s (Suc 0))"
  by (rule wf_tops) (simp_all add: Suc_le_eq)

lemma mem_ok_simps [simp]:
  "mem_ok s (t\<lparr>st_errstr := e\<rparr>) = mem_ok s t" "mem_ok s (t\<lparr>st_vfExec := v\<rparr>) = mem_ok s t"
  "mem_ok s (t\<lparr>st_nOpCount := n\<rparr>) = mem_ok s t" "mem_ok s (t\<lparr>st_begincode := n\<rparr>) = mem_ok s t"
  by (simp_all add: mem_ok_def)

lemma mem_ok_set_stack: "wf s \<Longrightarrow> list_all (view_ok (st_heap s)) vs \<Longrightarrow> mem_ok s (set_stack vs s)"
  by (simp add: mem_ok_def set_stack_def wf_def)

lemma wf_stack [simp]: "wf s \<Longrightarrow> list_all (view_ok (st_heap s)) (st_stack s)"
  by (simp add: wf_def)

lemma mem_ok_finish_sig: "wf s \<Longrightarrow> post (mem_ok s) (finish_sig vf err b n f s)"
  by (auto simp: finish_sig_def Let_def mem_ok_refl view_ok_bool intro!: mem_ok_set_stack)

lemma mem_ok_finish_multisig: "wf s \<Longrightarrow> mem_ok s t \<Longrightarrow> post (mem_ok s) (finish_multisig opc nk ns f t)"
  using mem_ok_clean_stack [of s t "\<not> f \<and> has_flag (st_flags t) SCRIPT_VERIFY_NULLFAIL" "nk + ns + 2" "nk + 2"]
  by (auto simp: finish_multisig_def Let_def mem_ok_def set_stack_def split: outcome.splits
      dest: grows_ok [OF _ view_ok_bool])

lemma mem_ok_op_checkmultisig: "wf s \<Longrightarrow> post (mem_ok s) (op_checkmultisig E n s)"
  by (auto simp: op_checkmultisig_def post_rules Let_def mem_ok_refl split: sum.splits
      intro!: mem_ok_finish_multisig)

lemma mem_ok_op_rearrange: "wf s \<Longrightarrow> rearrange_depth n = Some d \<Longrightarrow> post (mem_ok s) (op_rearrange d n s)"
  using rearrange_set [of n d "st_stack s"]
  by (auto simp: op_rearrange_def post_rules mem_ok_refl set_stack_def list_all_iff intro!: mem_okI)

lemma mem_ok_op_pick_roll: "wf s \<Longrightarrow> post (mem_ok s) (op_pick_roll n s)"
  by (auto simp: op_pick_roll_def post_rules Let_def mem_ok_refl set_stack_def split: sum.splits
      intro!: mem_okI nth_tl_set)

lemma mem_ok_op_split: "wf s \<Longrightarrow> post (mem_ok s) (op_split s)"
  by (auto simp: op_split_def post_rules Let_def mem_ok_refl split: sum.splits prod.splits
      dest!: alloc_grows intro!: mem_okI view_ok_sub)

lemma mem_ok_op_bitwise: "wf s \<Longrightarrow> post (mem_ok s) (op_bitwise n s)"
  by (auto simp: op_bitwise_def post_rules Let_def mem_ok_refl grows_zip_into intro!: mem_okI)

lemma mem_ok_op_bin2num: "wf s \<Longrightarrow> post (mem_ok s) (op_bin2num s)"
proof -
  assume s: "wf s"
  show ?thesis
  proof (cases "length (st_stack s) < 1")
    case False
    obtain r h where r: "minimallyEncode (stacktop s 1) (st_heap s) = (r, h)" by fastforce
    have "view_ok h r" "grows (st_heap s) h"
      using minimallyEncode_ok [OF _ r] wf_tops [OF s, of 1] False by simp_all
    then have "mem_ok s (s\<lparr>st_heap := h, st_stack := r # tl (st_stack s)\<rparr>)"
      using s by (auto intro!: mem_okI)
    with r s show ?thesis by (simp add: op_bin2num_def post_rules mem_ok_refl Let_def)
  qed (use s in \<open>simp add: op_bin2num_def post_rules mem_ok_refl\<close>)
qed

lemma mem_ok_op_num2bin: "wf s \<Longrightarrow> post (mem_ok s) (op_num2bin s)"
proof -
  assume s: "wf s"
  have *: "mem_ok s (push_new b (drop 2 (st_stack s)) t)"
    if "grows (st_heap s) (st_heap t)" and "st_alt t = st_alt s" for b t
    using s that by (auto simp: push_new_def split: prod.splits dest!: alloc_grows
        intro!: mem_okI intro: grows_trans)
  show ?thesis
  proof (cases "length (st_stack s) < 2")
    case False
    obtain r h where r: "minimallyEncode (stacktop s 2) (st_heap s) = (r, h)" by fastforce
    have ok: "view_ok h r" "grows (st_heap s) h"
      using minimallyEncode_ok [OF _ r] wf_tops [OF s, of 2] False by simp_all
    then have g: "grows (st_heap s) (poke h r i x)" for i x
      using grows_trans by fastforce
    have m: "mem_ok s (s\<lparr>st_heap := h, st_stack := tl (st_stack s)\<rparr>)"
      "mem_ok s (s\<lparr>st_heap := h, st_stack := r # drop 2 (st_stack s)\<rparr>)"
      using s ok by (auto intro!: mem_okI)
    show ?thesis
      using s r m ok g
      by (auto simp: op_num2bin_def post_rules Let_def mem_ok_refl set_stack_def split: sum.splits
          intro!: *)
  qed (use s in \<open>simp add: op_num2bin_def post_rules mem_ok_refl\<close>)
qed

lemma mem_ok_small_handlers:
  assumes "wf s"
  shows "post (mem_ok s) (op_number n s)" "post (mem_ok s) (op_checklocktimeverify E s)"
    "post (mem_ok s) (op_checksequenceverify E s)" "post (mem_ok s) (op_upgradable_nop s)"
    "post (mem_ok s) (op_if fe n s)" "post (mem_ok s) (op_else s)" "post (mem_ok s) (op_endif s)"
    "post (mem_ok s) (op_verify s)" "post (mem_ok s) (op_return s)" "post (mem_ok s) (op_ifdup s)"
    "post (mem_ok s) (op_depth s)" "post (mem_ok s) (op_size s)" "post (mem_ok s) (op_unary n s)"
    "post (mem_ok s) (op_within s)" "post (mem_ok s) (op_hash E n s)"
    "post (mem_ok s) (op_codeseparator s)" "post (mem_ok s) (op_reversebytes s)"
    "post (mem_ok s) (op_cat s)"
  using assms
  by (auto simp: post_rules Let_def mem_ok_refl op_number_def op_checklocktimeverify_def
      op_checksequenceverify_def op_upgradable_nop_def op_if_def op_else_def op_endif_def
      op_verify_def op_return_def op_ifdup_def op_depth_def op_size_def op_unary_def op_within_def
      op_hash_def op_codeseparator_def op_reversebytes_def op_cat_def set_stack_def view_ok_bool
      split: sum.splits list.splits intro!: mem_okI)

lemma mem_ok_alt_handlers:
  assumes "wf s"
  shows "post (mem_ok s) (op_toaltstack s)" "post (mem_ok s) (op_fromaltstack s)"
  using assms wf_top [OF assms]
  by (auto simp: op_toaltstack_def op_fromaltstack_def post_rules mem_ok_refl split: list.splits)
     (auto simp: mem_ok_def wf_def)

lemma mem_ok_compare_handlers:
  assumes "wf s"
  shows "post (mem_ok s) (op_equal n s)" "post (mem_ok s) (op_checksig E n s)"
    "post (mem_ok s) (op_checkdatasig E n s)"
  using assms
  by (auto simp: op_equal_def op_checksig_def op_checkdatasig_def post_rules Let_def mem_ok_refl
      set_stack_def view_ok_bool split: sum.splits option.splits
      intro!: mem_ok_finish_sig mem_okI)

lemma mem_ok_op_binary: "wf s \<Longrightarrow> post (mem_ok s) (op_binary n s)"
proof -
  assume s: "wf s"
  have p: "mem_ok s (push_new b (drop 2 (st_stack s)) s)" for b
    using s by (intro mem_ok_push_new) simp_all
  have q: "mem_ok s (set_stack (drop 2 (st_stack s)) (push_new b (drop 2 (st_stack s)) s))" for b
    using p [of b] by (simp add: mem_ok_def set_stack_def push_new_def split: prod.splits)
  have st: "tl (st_stack (push_new b vs t)) = vs" for b vs t
    by (simp add: push_new_def split: prod.splits)
  show ?thesis using s p q
    by (auto simp: op_binary_def post_rules Let_def mem_ok_refl st split: sum.splits option.splits)
qed

lemma mem_ok_exec_op: "wf s \<Longrightarrow> post (mem_ok s) (exec_op E fe n s)"
  by (rule exec_op_cases)
     (simp_all add: mem_ok_refl mem_ok_small_handlers mem_ok_alt_handlers mem_ok_compare_handlers
        mem_ok_op_binary mem_ok_op_rearrange mem_ok_op_pick_roll mem_ok_op_bitwise
        mem_ok_op_checkmultisig mem_ok_op_split mem_ok_op_num2bin mem_ok_op_bin2num)

lemma wf_upd [simp]:
  "wf (s\<lparr>st_pc := n\<rparr>) = wf s" "wf (s\<lparr>st_nOpCount := n\<rparr>) = wf s" "wf (s\<lparr>st_errstr := e\<rparr>) = wf s"
  by (simp_all add: wf_def)

lemma post_wf: "wf s \<Longrightarrow> post (same s) r \<Longrightarrow> post (mem_ok s) r \<Longrightarrow> post wf r"
  by (cases r) (auto dest: wf_mem_ok)

lemma mem_ok_push_data:
  assumes "wf s" and "c \<in> set (st_script s)"
  shows "post (mem_ok s) (push_data c s)"
proof -
  have "chunk_buf c = Some v \<Longrightarrow> view_ok (st_heap s) v" for v
    using assms by (auto simp: wf_def script_ok_def)
  moreover have "view_ok (st_heap s) false_view" using assms(1) by (simp add: wf_def)
  ultimately show ?thesis using assms(1)
    by (auto simp: push_data_def mem_ok_refl set_stack_def split: option.splits intro!: mem_okI)
qed

lemma wf_exec_op: "wf s \<Longrightarrow> post wf (exec_op E fe n s)"
  by (rule post_wf [OF _ same_exec_op mem_ok_exec_op])

lemma wf_step:
  assumes "wf s" and "st_pc s < length (st_script s)"
  shows "post wf (step E s)"
proof (rule step_cases)
  fix e t
  assume "same (s\<lparr>st_pc := st_pc s + 1\<rparr>) t" "st_heap t = st_heap s" "st_stack t = st_stack s" "st_alt t = st_alt s"
  then show "post wf (fail e t)" using assms(1) by (simp add: wf_def same_def)
next
  fix n t
  assume t: "t = counted n (s\<lparr>st_pc := st_pc s + 1\<rparr>)"
  then have w: "wf t" using assms(1) by (simp add: counted_def)
  have c: "st_script s ! st_pc s \<in> set (st_script t)" using assms(2) by (simp add: t counted_def)
  show "post wf (Go t) \<and> post wf (exec_op E True n t) \<and> post wf (exec_op E False n t) \<and>
      post wf (push_data (st_script s ! st_pc s) t)"
    using w wf_exec_op [OF w, of E]
      post_wf [OF w same_push_data mem_ok_push_data [OF w c]] by simp
qed

lemma wf_eval_loop: "wf s \<Longrightarrow> post wf (eval_loop E s)"
proof (induction E s rule: eval_loop.induct)
  case (1 E s)
  show ?case
  proof (cases "st_pc s < length (st_script s)")
    case True
    note st = wf_step [OF "1.prems" True, of E]
    show ?thesis
    proof (cases "step E s")
      case (Go t)
      with st have "wf t" by simp
      with "1.IH" True Go show ?thesis by (subst eval_loop.simps) simp
    qed (use True st in \<open>subst eval_loop.simps, simp\<close>)+
  qed (use "1.prems" in \<open>subst eval_loop.simps, simp\<close>)
qed

lemma wf_evaluate: "wf s \<Longrightarrow> post wf (evaluate E s)"
  using wf_eval_loop [of s E]
  by (auto simp: evaluate_def split: sum.splits outcome.splits)

section \<open>Resource limits\<close>

definition depth :: "istate \<Rightarrow> nat" where
  "depth s = length (st_stack s) + length (st_alt s)"

definition go :: "(istate \<Rightarrow> bool) \<Rightarrow> outcome \<Rightarrow> bool" where
  "go P r = (case r of Go s \<Rightarrow> P s | _ \<Rightarrow> True)"

lemma go_simps [simp]:
  "go P (Go s) = P s" "go P (Fail s)" "go P (Throw e s)" "go P (fail err s)"
  by (simp_all add: go_def fail_def)

lemma go_needs: "go P (needs n s k) \<longleftrightarrow> (length (st_stack s) < n \<or> go P k)"
  by (simp add: needs_def)

lemma go_with_num: "go P (with_num k v s f) \<longleftrightarrow>
    (\<forall>n. fromScriptNumBuffer (val s v) (fRequireMinimal s) k = Inr n \<longrightarrow> go P (f n))"
  by (simp add: with_num_def split: sum.splits)

text \<open>What a handler may use up: three elements, and opcodes only below the limit.\<close>

definition modest :: "istate \<Rightarrow> istate \<Rightarrow> bool" where
  "modest s t \<longleftrightarrow> (st_nOpCount t = st_nOpCount s \<or> st_nOpCount t \<le> 201) \<and> depth t \<le> depth s + 3"

lemma push_new_simps [simp]:
  "st_stack (push_new b vs s) = v # vs \<longleftrightarrow> v = \<lparr>v_blk = length (st_heap s), v_off = 0, v_len = length b\<rparr>"
  "length (st_stack (push_new b vs s)) = Suc (length vs)" "tl (st_stack (push_new b vs s)) = vs"
  "st_alt (push_new b vs s) = st_alt s" "st_nOpCount (push_new b vs s) = st_nOpCount s"
  "st_heap (push_new b vs s) = st_heap s @ [b]" "st_vfExec (push_new b vs s) = st_vfExec s"
  by (auto simp: push_new_def alloc_def)

lemma modest_clean_stack: "go (\<lambda>t. st_nOpCount t = st_nOpCount s \<and> depth t \<le> depth s) (clean_stack strict n k s)"
proof (induction n arbitrary: k s)
  case (Suc n)
  have "go (\<lambda>t. st_nOpCount t = st_nOpCount s \<and> depth t \<le> depth s)
      (clean_stack strict n (k - 1) (set_stack (tl (st_stack s)) s))"
    using Suc.IH [of "set_stack (tl (st_stack s)) s" "k - 1"]
    by (auto simp: go_def set_stack_def depth_def split: outcome.splits)
  then show ?case by simp
qed simp

lemma modest_finish_multisig: "go (\<lambda>t. st_nOpCount t = st_nOpCount s \<and> depth t \<le> depth s)
    (finish_multisig opc nk ns f s)"
  using modest_clean_stack [of s "\<not> f \<and> has_flag (st_flags s) SCRIPT_VERIFY_NULLFAIL" "nk + ns + 2" "nk + 2"]
  by (auto simp: finish_multisig_def Let_def depth_def set_stack_def neq_Nil_conv split: outcome.splits)

lemma modest_op_checkmultisig: "go (modest s) (op_checkmultisig E n s)"
proof -
  have *: "go (modest s) (finish_multisig opc nk ns f (s\<lparr>st_nOpCount := k, st_errstr := e\<rparr>))"
    if "k \<le> 201" for opc nk ns f k e
    using modest_finish_multisig [of "s\<lparr>st_nOpCount := k, st_errstr := e\<rparr>" opc nk ns f] that
    by (auto simp: go_def modest_def depth_def split: outcome.splits)
  then show ?thesis
    by (auto simp: op_checkmultisig_def go_needs go_with_num Let_def not_less split: sum.splits)
qed

lemma modest_handlers:
  "go (modest s) (op_number n s)" "go (modest s) (op_checklocktimeverify E s)"
  "go (modest s) (op_checksequenceverify E s)" "go (modest s) (op_upgradable_nop s)"
  "go (modest s) (op_if fe n s)" "go (modest s) (op_else s)" "go (modest s) (op_endif s)"
  "go (modest s) (op_verify s)" "go (modest s) (op_return s)" "go (modest s) (op_toaltstack s)"
  "go (modest s) (op_fromaltstack s)" "go (modest s) (op_ifdup s)"
  "go (modest s) (op_depth s)" "go (modest s) (op_pick_roll n s)" "go (modest s) (op_size s)"
  "go (modest s) (op_bitwise n s)" "go (modest s) (op_equal n s)" "go (modest s) (op_unary n s)"
  "go (modest s) (op_binary n s)" "go (modest s) (op_within s)" "go (modest s) (op_hash E n s)"
  "go (modest s) (op_codeseparator s)" "go (modest s) (op_checksig E n s)"
  "go (modest s) (op_checkdatasig E n s)" "go (modest s) (op_reversebytes s)"
  "go (modest s) (op_cat s)" "go (modest s) (op_split s)" "go (modest s) (op_num2bin s)"
  "go (modest s) (op_bin2num s)"
  by (auto simp: go_needs go_with_num Let_def op_number_def op_checklocktimeverify_def
      op_checksequenceverify_def op_upgradable_nop_def op_if_def op_else_def op_endif_def
      op_verify_def op_return_def op_toaltstack_def op_fromaltstack_def
      op_ifdup_def op_depth_def op_pick_roll_def op_size_def op_bitwise_def op_equal_def
      op_unary_def op_binary_def op_within_def op_hash_def op_codeseparator_def op_checksig_def
      op_checkdatasig_def op_reversebytes_def op_cat_def op_split_def op_num2bin_def
      op_bin2num_def finish_sig_def modest_def depth_def set_stack_def
      split: sum.splits option.splits list.splits prod.splits)

lemma modest_op_rearrange: "rearrange_depth n = Some d \<Longrightarrow> go (modest s) (op_rearrange d n s)"
  by (auto simp: op_rearrange_def go_needs modest_def depth_def set_stack_def rearrange.simps
      rearrange_depth_def split: if_splits)

lemma modest_exec_op: "go (modest s) (exec_op E fe n s)"
  by (rule exec_op_cases)
     (simp_all add: modest_handlers modest_op_checkmultisig modest_op_rearrange,
      simp add: modest_def)

lemma modest_push_data: "go (modest s) (push_data c s)"
  by (auto simp: push_data_def modest_def depth_def set_stack_def split: option.splits)

lemma step_modest:
  assumes "st_nOpCount s \<le> 201"
  shows "go (\<lambda>t. st_nOpCount t \<le> 201 \<and> depth t \<le> depth s + 3) (step E s)"
proof (rule step_cases)
  fix n t
  assume t: "t = counted n (s\<lparr>st_pc := st_pc s + 1\<rparr>)" and "st_nOpCount t \<le> 201 \<or> n \<le> 96"
  then have n: "st_nOpCount t \<le> 201" and d: "depth t = depth s"
    using assms by (auto simp: counted_def depth_def)
  have *: "go (modest t) r \<Longrightarrow> go (\<lambda>t. st_nOpCount t \<le> 201 \<and> depth t \<le> depth s + 3) r" for r
    using n d by (auto simp: go_def modest_def split: outcome.splits)
  show "go (\<lambda>t. st_nOpCount t \<le> 201 \<and> depth t \<le> depth s + 3) (Go t) \<and>
      go (\<lambda>t. st_nOpCount t \<le> 201 \<and> depth t \<le> depth s + 3) (exec_op E True n t) \<and>
      go (\<lambda>t. st_nOpCount t \<le> 201 \<and> depth t \<le> depth s + 3) (exec_op E False n t) \<and>
      go (\<lambda>t. st_nOpCount t \<le> 201 \<and> depth t \<le> depth s + 3) (push_data (st_script s ! st_pc s) t)"
    using n d * [OF modest_exec_op [of t E]] * [OF modest_push_data] by simp
qed simp

section \<open>Runs\<close>

text \<open>The states the interpreter passes through while every step succeeds.\<close>

inductive runs :: "'k env \<Rightarrow> istate \<Rightarrow> istate \<Rightarrow> bool" for E :: "'k env" and s :: istate where
  start: "runs E s s"
| next_step: "runs E s t \<Longrightarrow> st_pc t < length (st_script t) \<Longrightarrow> step E t = Go u \<Longrightarrow> runs E s u"

lemma runs_trans: "runs E t u \<Longrightarrow> runs E s t \<Longrightarrow> runs E s u"
  by (induction rule: runs.induct) (auto intro: runs.intros)

lemma eval_loop_runs: "eval_loop E s = Go t \<Longrightarrow> runs E s t \<and> length (st_script t) \<le> st_pc t"
proof (induction E s arbitrary: t rule: eval_loop.induct)
  case (1 E s)
  show ?case
  proof (cases "st_pc s < length (st_script s)")
    case True
    with "1.prems" obtain u where u: "step E s = Go u" "eval_loop E u = Go t"
      by (subst (asm) eval_loop.simps) (auto split: outcome.splits)
    then have "runs E s u" using True by (auto intro: runs.intros)
    with "1.IH" [OF True u] show ?thesis using runs_trans by blast
  next
    case False
    then show ?thesis using "1.prems" by (subst (asm) eval_loop.simps) (auto intro: runs.intros)
  qed
qed

lemma step_GoD:
  assumes "step E s = Go t"
  shows "st_script t = st_script s \<and> st_pc t = Suc (st_pc s) \<and> st_flags t = st_flags s"
  using step_advances [of s E] assms by simp

lemma runs_invariant:
  assumes "runs E s t" and "wf s" and "st_nOpCount s \<le> 201" and "st_pc s = 0"
  shows "wf t \<and> st_nOpCount t \<le> 201 \<and> depth t \<le> depth s + 3 * st_pc t \<and>
    st_pc t \<le> length (st_script t) \<and> st_script t = st_script s \<and> st_flags t = st_flags s"
  using assms
proof (induction rule: runs.induct)
  case (next_step t u)
  note st = step_GoD [OF next_step.hyps(3)]
  have "wf u" using wf_step [of t E] next_step by simp
  moreover have "st_nOpCount u \<le> 201 \<and> depth u \<le> depth t + 3"
    using step_modest [of t E] next_step by simp
  ultimately show ?case using next_step st by auto
qed simp

lemma evaluate_Go:
  assumes "evaluate E s = Go t"
  shows "runs E s t \<and> depth t \<le> 1000 \<and> st_vfExec t = [] \<and> length (st_script t) \<le> st_pc t"
  using assms eval_loop_runs [of E s t]
  by (auto simp: evaluate_def depth_def fail_def split: sum.splits if_splits outcome.splits)

lemma initialize_simps [simp]:
  "st_heap (initialize h script stack flags) = h" "st_script (initialize h script stack flags) = script"
  "st_stack (initialize h script stack flags) = stack" "st_alt (initialize h script stack flags) = []"
  "st_pc (initialize h script stack flags) = 0" "st_nOpCount (initialize h script stack flags) = 0"
  "st_flags (initialize h script stack flags) = flags" "st_vfExec (initialize h script stack flags) = []"
  "depth (initialize h script stack flags) = length stack"
  by (simp_all add: initialize_def depth_def)

section \<open>Properties\<close>

text \<open>C24. Memory safety and resources along every run: starting from a fresh interpreter whose
  buffers are valid, every state reached has only valid buffers on its stacks and in its
  script, has counted at most 201 opcodes (multisignature keys included), has a stack at most
  three elements deeper per step, and has never left the script, which no step changes.\<close>

theorem run_is_safe:
  assumes "runs E (initialize h script stack flags) t" and "wf (initialize h script stack flags)"
  shows "wf t \<and> st_nOpCount t \<le> 201 \<and> depth t \<le> length stack + 3 * st_pc t \<and>
    st_pc t \<le> length script \<and> st_script t = script \<and> st_flags t = flags"
  using runs_invariant [OF assms] by auto

theorem run_is_safe_witness:
  "\<exists>t. step demo_env (initialize boot_heap [op_chunk (Some 81)] [] 0) = Go t \<and>
     wf t \<and> depth t \<le> 3 * st_pc t"
proof -
  let ?s = "initialize boot_heap [op_chunk (Some 81)] [] 0"
  have wf: "wf ?s"
    by (simp add: wf_def initialize_def boot_heap_def script_ok_def true_view_def false_view_def view_ok_def)
  have "\<exists>t. step demo_env ?s = Go t"
    by (simp add: step_def initialize_def exec_op_def op_number_def isOpcodeDisabled_def)
  then obtain t where t: "step demo_env ?s = Go t" ..
  have "runs demo_env ?s t"
    by (rule next_step [OF start _ t]) (simp add: initialize_def)
  from run_is_safe [OF this wf] t show ?thesis by simp
qed

text \<open>When \<^verbatim>\<open>evaluate\<close> succeeds on a fresh interpreter, the whole script has run, every
  conditional is closed, both stacks together hold at most 1000 elements and at most 201
  opcodes were counted.\<close>

theorem evaluate_limits:
  assumes "evaluate E (initialize h script stack flags) = Go t"
    and "wf (initialize h script stack flags)"
  shows "st_pc t = length script \<and> st_vfExec t = [] \<and>
    length (st_stack t) + length (st_alt t) \<le> 1000 \<and> st_nOpCount t \<le> 201 \<and> wf t"
proof -
  have e: "runs E (initialize h script stack flags) t \<and> depth t \<le> 1000 \<and> st_vfExec t = [] \<and>
      length (st_script t) \<le> st_pc t"
    using assms(1) by (rule evaluate_Go)
  then have i: "wf t \<and> st_nOpCount t \<le> 201 \<and> st_pc t \<le> length (st_script t)" "st_script t = script"
    using runs_invariant [of E "initialize h script stack flags" t] assms(2) by auto
  then have "st_pc t \<le> length script" by simp
  with e i show ?thesis by (simp add: depth_def [of t])
qed

theorem evaluate_limits_witness:
  "\<exists>t. evaluate demo_env (initialize boot_heap [op_chunk (Some 97)] [] 0) = Go t \<and>
     st_pc t = 1 \<and> st_nOpCount t \<le> 201"
proof -
  let ?s = "initialize boot_heap [op_chunk (Some 97)] [] 0"
  have wf: "wf ?s"
    by (simp add: wf_def initialize_def boot_heap_def script_ok_def true_view_def false_view_def view_ok_def)
  have "\<exists>t. evaluate demo_env ?s = Go t"
    by (simp add: evaluate_def eval_loop.simps step_def initialize_def exec_op_def
        isOpcodeDisabled_def resolve_def script_toBuffer_eq printable_def chunk_bytes_def)
  then obtain t where t: "evaluate demo_env ?s = Go t" ..
  from evaluate_limits [OF t wf] t show ?thesis by simp
qed

end
