(* ===== verification/InterpreterSpec.thy ===== *)
theory InterpreterSpec
  imports InterpreterSafety "HOL-Library.Sublist"
begin

text \<open>
  An abstract specification of the opcodes on plain byte strings, and the proof that the
  interpreter over shared memory implements it: for the opcodes that only look at and build
  stack elements this holds in every state.  The opcodes that write into their operands are
  treated apart: what number conversion yields, and what the sharing does.
\<close>


section \<open>Booleans and numbers\<close>

lemma le_val_0_iff: "le_val bs = 0 \<longleftrightarrow> list_all (\<lambda>b. b = 0) bs"
  by (induction bs) (auto simp: unat_eq_0)

lemma castToBool_snoc: "castToBool (xs @ [x]) \<longleftrightarrow> \<not> list_all (\<lambda>b. b = 0) xs \<or> x \<noteq> 0 \<and> x \<noteq> 0x80"
  by (induction xs) auto

lemma byte_7f_0: "x AND 0x7f = 0 \<longleftrightarrow> x = 0 \<or> x = (0x80 :: byte)"
proof
  assume "x AND 0x7f = 0"
  then have "unat x mod 128 = 0" by (simp flip: byte_and_7f)
  then obtain k where k: "unat x = 128 * k" by auto
  with unat_byte_less [of x] have "k = 0 \<or> k = 1" by auto
  then show "x = 0 \<or> x = 0x80"
    using k by (auto intro!: byte_eq_iff_unat [THEN iffD2])
qed auto

lemma castToBool_fromSM: "castToBool b \<longleftrightarrow> fromSM Little b \<noteq> 0"
proof (cases b rule: rev_cases)
  case Nil
  then show ?thesis by (simp add: fromSM_def be_val_def)
next
  case (snoc xs x)
  show ?thesis
  proof (cases "x AND 0x80 = 0")
    case True
    then have "x \<noteq> 0x80" by auto
    with True show ?thesis by (simp add: snoc castToBool_snoc fromSM_Little le_val_0_iff)
  next
    case False
    then have "x \<noteq> 0" by auto
    with False show ?thesis
      by (simp add: snoc castToBool_snoc fromSM_Little le_val_0_iff byte_7f_0)
  qed
qed

lemma castToBool_toScriptNumBuffer [simp]: "castToBool (toScriptNumBuffer n) \<longleftrightarrow> n \<noteq> 0"
  by (simp add: castToBool_fromSM fromSM_toScriptNumBuffer)

section \<open>Script numbers\<close>

text \<open>
  What a byte string means as a number, and how a number is written: little endian with the sign in the top bit of
  the last byte, in as few bytes as possible.  Stated apart from the code, which goes through big numbers.
\<close>

definition script_number :: "bytes \<Rightarrow> int" where
  "script_number b =
     (if b = [] then 0
      else let k = unat (last b); m = int (le_val (butlast b @ [word_of_nat (k mod 128)])) in if k < 128 then m else - m)"

fun magnitude_bytes :: "nat \<Rightarrow> bytes" where
  "magnitude_bytes n = (if n = 0 then [] else word_of_nat n # magnitude_bytes (n div 256))"

declare magnitude_bytes.simps [simp del]

definition number_bytes :: "int \<Rightarrow> bytes" where
  "number_bytes k =
     (let m = magnitude_bytes (nat \<bar>k\<bar>); sign = (if k < 0 then 128 else 0)
      in if m = [] then [] else if unat (last m) < 128 then butlast m @ [last m + sign] else m @ [sign])"

lemma magnitude_le_min: "0 < n \<Longrightarrow> magnitude_bytes n = le_min n"
proof (induction n rule: less_induct)
  case (less n)
  show ?case
  proof (cases "n < 256")
    case True
    then show ?thesis using less.prems magnitude_bytes.simps [of 0] by (simp add: magnitude_bytes.simps [of n] le_min_small)
  next
    case False
    then have "magnitude_bytes (n div 256) = le_min (n div 256)" by (intro less.IH) simp_all
    then show ?thesis using False by (simp add: magnitude_bytes.simps [of n] le_min_big)
  qed
qed

lemma byte_sign_bit: "x AND 0x80 = 0 \<longleftrightarrow> unat (x :: byte) < 128"
  by (simp add: byte_and_80)

lemma byte_set_sign: "unat x < 128 \<Longrightarrow> x OR 0x80 = (x :: byte) + 128"
  by (intro byte_eq_iff_unat [THEN iffD2]) (simp add: byte_or_80 unat_word_ariths)

lemma script_number_eq: "fromSM Little b = script_number b"
proof (cases "b = []")
  case True
  then show ?thesis by (simp add: fromSM_def be_val_def script_number_def)
next
  case False
  have m: "word_of_nat (unat (last b) mod 128) = last b AND 0x7f"
    by (intro byte_eq_iff_unat [THEN iffD2]) (simp add: byte_and_7f unat_of_nat)
  have "last b AND 0x7f = last b" if "unat (last b) < 128" using that by (simp add: byte_sign_bit byte_low)
  then have "butlast b @ [last b AND 0x7f] = b" if "unat (last b) < 128" using that False by simp
  then show ?thesis using False by (simp add: fromSM_Little script_number_def Let_def m byte_sign_bit)
qed

lemma number_bytes_eq: "toScriptNumBuffer k = number_bytes k"
proof (cases "k = 0")
  case True
  then show ?thesis by (simp add: number_bytes_def magnitude_bytes.simps)
next
  case False
  then have "magnitude_bytes (nat \<bar>k\<bar>) = le_min (nat \<bar>k\<bar>)" by (intro magnitude_le_min) simp
  then show ?thesis
    using False by (auto simp: toScriptNumBuffer_nonzero number_bytes_def Let_def byte_sign_bit byte_set_sign le_min_not_Nil)
qed

lemma minimal_is_shortest: "nonminimal b \<longleftrightarrow> number_bytes (script_number b) \<noteq> b"
  using toScriptNumBuffer_fromSM [of b] toScriptNumBuffer_minimal [of "fromSM Little b"]
  by (auto simp: number_bytes_eq script_number_eq)

section \<open>What the opcodes promise\<close>

text \<open>
  The specification works on the bytes of the stack, top first, with no memory; \<open>None\<close> is a
  failure of the script, of whatever kind.  It is written opcode by opcode after the published table of the language and
  uses nothing of the interpreter.
\<close>

definition spec_num :: "bool \<Rightarrow> bytes \<Rightarrow> int option" where
  "spec_num m b =
     (if 4 < length b \<or> m \<and> number_bytes (script_number b) \<noteq> b then None else Some (script_number b))"

definition bool_bytes :: "bool \<Rightarrow> bytes" where
  "bool_bytes b = (if b then [1] else [])"

definition spec_1 :: "(bytes \<Rightarrow> bytes list \<Rightarrow> bytes list option) \<Rightarrow> bytes list \<Rightarrow> bytes list option" where
  "spec_1 f st = (case st of x # xs \<Rightarrow> f x xs | _ \<Rightarrow> None)"

definition spec_2 :: "(bytes \<Rightarrow> bytes \<Rightarrow> bytes list \<Rightarrow> bytes list option) \<Rightarrow> bytes list \<Rightarrow> bytes list option" where
  "spec_2 f st = (case st of y # x # xs \<Rightarrow> f x y xs | _ \<Rightarrow> None)"

definition spec_pick_roll :: "bool \<Rightarrow> nat \<Rightarrow> bytes list \<Rightarrow> bytes list option" where
  "spec_pick_roll m n =
     spec_1 (\<lambda>x xs. Option.bind (spec_num m x) (\<lambda>k.
       if 0 \<le> k \<and> k < int (length xs)
       then Some (xs ! nat k # (if n = OP_ROLL then take (nat k) xs @ drop (Suc (nat k)) xs else xs))
       else None))"

definition spec_equal :: "nat \<Rightarrow> bytes list \<Rightarrow> bytes list option" where
  "spec_equal n =
     spec_2 (\<lambda>x y xs. if n = OP_EQUALVERIFY then if x = y then Some xs else None
                      else Some (bool_bytes (x = y) # xs))"

definition spec_unary :: "bool \<Rightarrow> (int \<Rightarrow> int) \<Rightarrow> bytes list \<Rightarrow> bytes list option" where
  "spec_unary m f = spec_1 (\<lambda>x xs. map_option (\<lambda>k. number_bytes (f k) # xs) (spec_num m x))"

definition spec_binary :: "bool \<Rightarrow> (int \<Rightarrow> int \<Rightarrow> bytes list \<Rightarrow> bytes list option) \<Rightarrow> bytes list \<Rightarrow> bytes list option" where
  "spec_binary m f = spec_2 (\<lambda>x y xs. Option.bind (spec_num m x) (\<lambda>a. Option.bind (spec_num m y) (\<lambda>b. f a b xs)))"

definition spec_arith :: "bool \<Rightarrow> nat \<Rightarrow> bytes list \<Rightarrow> bytes list option" where
  "spec_arith m n =
     (if n = OP_1ADD then spec_unary m (\<lambda>k. k + 1)
      else if n = OP_1SUB then spec_unary m (\<lambda>k. k - 1)
      else if n = OP_NEGATE then spec_unary m uminus
      else if n = OP_ABS then spec_unary m abs
      else if n = OP_NOT then spec_unary m (\<lambda>k. if k = 0 then 1 else 0)
      else if n = OP_0NOTEQUAL then spec_unary m (\<lambda>k. if k = 0 then 0 else 1)
      else if n = OP_ADD then spec_binary m (\<lambda>a b xs. Some (number_bytes (a + b) # xs))
      else if n = OP_SUB then spec_binary m (\<lambda>a b xs. Some (number_bytes (a - b) # xs))
      else if n = OP_DIV then
        spec_binary m (\<lambda>a b xs. if b = 0 then None else Some (number_bytes (sgn a * sgn b * (\<bar>a\<bar> div \<bar>b\<bar>)) # xs))
      else if n = OP_MOD then
        spec_binary m (\<lambda>a b xs. if b = 0 then None else Some (number_bytes (sgn a * (\<bar>a\<bar> mod \<bar>b\<bar>)) # xs))
      else if n = OP_BOOLAND then spec_binary m (\<lambda>a b xs. Some (bool_bytes (a \<noteq> 0 \<and> b \<noteq> 0) # xs))
      else if n = OP_BOOLOR then spec_binary m (\<lambda>a b xs. Some (bool_bytes (a \<noteq> 0 \<or> b \<noteq> 0) # xs))
      else if n = OP_NUMEQUAL then spec_binary m (\<lambda>a b xs. Some (bool_bytes (a = b) # xs))
      else if n = OP_NUMEQUALVERIFY then spec_binary m (\<lambda>a b xs. if a = b then Some xs else None)
      else if n = OP_NUMNOTEQUAL then spec_binary m (\<lambda>a b xs. Some (bool_bytes (a \<noteq> b) # xs))
      else if n = OP_LESSTHAN then spec_binary m (\<lambda>a b xs. Some (bool_bytes (a < b) # xs))
      else if n = OP_GREATERTHAN then spec_binary m (\<lambda>a b xs. Some (bool_bytes (b < a) # xs))
      else if n = OP_LESSTHANOREQUAL then spec_binary m (\<lambda>a b xs. Some (bool_bytes (a \<le> b) # xs))
      else if n = OP_GREATERTHANOREQUAL then spec_binary m (\<lambda>a b xs. Some (bool_bytes (b \<le> a) # xs))
      else if n = OP_MIN then spec_binary m (\<lambda>a b xs. Some (number_bytes (min a b) # xs))
      else if n = OP_MAX then spec_binary m (\<lambda>a b xs. Some (number_bytes (max a b) # xs))
      else (\<lambda>st. None))"

text \<open>The letters name the elements in the order in which the table writes them, so that the last one is on top.\<close>

definition spec_moves :: "nat \<Rightarrow> bytes list \<Rightarrow> bytes list option" where
  "spec_moves n st =
     (if n = OP_DROP then (case st of a # r \<Rightarrow> Some r | _ \<Rightarrow> None)
      else if n = OP_DUP then (case st of a # r \<Rightarrow> Some (a # a # r) | _ \<Rightarrow> None)
      else if n = OP_NIP then (case st of b # a # r \<Rightarrow> Some (b # r) | _ \<Rightarrow> None)
      else if n = OP_OVER then (case st of b # a # r \<Rightarrow> Some (a # b # a # r) | _ \<Rightarrow> None)
      else if n = OP_SWAP then (case st of b # a # r \<Rightarrow> Some (a # b # r) | _ \<Rightarrow> None)
      else if n = OP_TUCK then (case st of b # a # r \<Rightarrow> Some (b # a # b # r) | _ \<Rightarrow> None)
      else if n = OP_2DROP then (case st of b # a # r \<Rightarrow> Some r | _ \<Rightarrow> None)
      else if n = OP_2DUP then (case st of b # a # r \<Rightarrow> Some (b # a # b # a # r) | _ \<Rightarrow> None)
      else if n = OP_ROT then (case st of c # b # a # r \<Rightarrow> Some (a # c # b # r) | _ \<Rightarrow> None)
      else if n = OP_3DUP then (case st of c # b # a # r \<Rightarrow> Some (c # b # a # c # b # a # r) | _ \<Rightarrow> None)
      else if n = OP_2OVER then (case st of d # c # b # a # r \<Rightarrow> Some (b # a # d # c # b # a # r) | _ \<Rightarrow> None)
      else if n = OP_2SWAP then (case st of d # c # b # a # r \<Rightarrow> Some (b # a # d # c # r) | _ \<Rightarrow> None)
      else if n = OP_2ROT then (case st of f # e # d # c # b # a # r \<Rightarrow> Some (b # a # f # e # d # c # r) | _ \<Rightarrow> None)
      else None)"

definition spec_hash :: "'k env \<Rightarrow> nat \<Rightarrow> bytes \<Rightarrow> bytes option" where
  "spec_hash E n x =
     (if n = OP_RIPEMD160 then Some (hash_ripemd160 E x)
      else if n = OP_SHA1 then Some (hash_sha1 E x)
      else if n = OP_SHA256 then Some (hash_sha256 E x)
      else if n = OP_HASH160 then Some (hash_ripemd160 E (hash_sha256 E x))
      else if n = OP_HASH256 then Some (hash_sha256 E (hash_sha256 E x))
      else None)"

definition spec_within :: "bool \<Rightarrow> bytes list \<Rightarrow> bytes list option" where
  "spec_within m st =
     (case st of c # b # a # xs \<Rightarrow>
        Option.bind (spec_num m a) (\<lambda>x. Option.bind (spec_num m b) (\<lambda>lo. Option.bind (spec_num m c) (\<lambda>hi.
          Some (bool_bytes (lo \<le> x \<and> x < hi) # xs))))
      | _ \<Rightarrow> None)"

definition spec_cat :: "bytes list \<Rightarrow> bytes list option" where
  "spec_cat = spec_2 (\<lambda>x y xs. if length x + length y \<le> 520 then Some ((x @ y) # xs) else None)"

definition spec_split :: "bool \<Rightarrow> bytes list \<Rightarrow> bytes list option" where
  "spec_split m =
     spec_2 (\<lambda>x p xs. Option.bind (spec_num m p) (\<lambda>k.
       if 0 \<le> k \<and> k \<le> int (length x) then Some (drop (nat k) x # take (nat k) x # xs) else None))"

definition spec_op :: "'k env \<Rightarrow> bool \<Rightarrow> nat \<Rightarrow> bytes list \<Rightarrow> bytes list option" where
  "spec_op E m n st =
     (if n = OP_1NEGATE then Some ([0x81] # st)
      else if OP_1 \<le> n \<and> n \<le> OP_16 then Some ([word_of_nat (n - OP_1 + 1)] # st)
      else if n = OP_NOP \<or> n = OP_CODESEPARATOR then Some st
      else if n = OP_RETURN then None
      else if n = OP_VERIFY then spec_1 (\<lambda>x xs. if script_number x \<noteq> 0 then Some xs else None) st
      else if n = OP_IFDUP then spec_1 (\<lambda>x xs. Some (if script_number x \<noteq> 0 then x # x # xs else x # xs)) st
      else if n = OP_DEPTH then Some (number_bytes (int (length st)) # st)
      else if n = OP_PICK \<or> n = OP_ROLL then spec_pick_roll m n st
      else if n = OP_SIZE then spec_1 (\<lambda>x xs. Some (number_bytes (int (length x)) # x # xs)) st
      else if n = OP_EQUAL \<or> n = OP_EQUALVERIFY then spec_equal n st
      else if n = OP_WITHIN then spec_within m st
      else if OP_1ADD \<le> n \<and> n \<le> OP_MAX then spec_arith m n st
      else if OP_RIPEMD160 \<le> n \<and> n \<le> OP_HASH256 then
        spec_1 (\<lambda>x xs. map_option (\<lambda>h. h # xs) (spec_hash E n x)) st
      else if n = OP_REVERSEBYTES then spec_1 (\<lambda>x xs. Some (rev x # xs)) st
      else if n = OP_CAT then spec_cat st
      else if n = OP_SPLIT then spec_split m st
      else spec_moves n st)"

text \<open>The opcodes that only look at and build stack elements.\<close>

definition pure_op :: "nat \<Rightarrow> bool" where
  "pure_op n \<longleftrightarrow>
     n = OP_1NEGATE \<or> OP_1 \<le> n \<and> n \<le> OP_16 \<or> OP_BOOLAND \<le> n \<and> n \<le> OP_MAX \<or>
     OP_RIPEMD160 \<le> n \<and> n \<le> OP_HASH256 \<or>
     n \<in>
      {OP_2DROP, OP_2DUP, OP_3DUP, OP_2OVER, OP_2ROT, OP_2SWAP, OP_DROP, OP_DUP, OP_NIP,
       OP_OVER, OP_ROT, OP_SWAP, OP_TUCK} \<or>
     n \<in>
      {OP_NOP, OP_VERIFY, OP_RETURN, OP_IFDUP, OP_DEPTH, OP_PICK, OP_ROLL, OP_CAT, OP_SPLIT,
       OP_SIZE, OP_EQUAL, OP_EQUALVERIFY, OP_1ADD, OP_1SUB, OP_NEGATE, OP_ABS, OP_NOT,
       OP_0NOTEQUAL, OP_ADD, OP_SUB, OP_DIV, OP_MOD, OP_WITHIN, OP_CODESEPARATOR,
       OP_REVERSEBYTES}"

section \<open>Refinement\<close>

definition absv :: "istate \<Rightarrow> bytes list" where
  "absv s = map (val s) (st_stack s)"

definition refines :: "istate \<Rightarrow> outcome \<Rightarrow> bytes list option \<Rightarrow> bool" where
  "refines s r sp =
     (case r of
        Go t \<Rightarrow> sp = Some (absv t) \<and> map (val t) (st_alt t) = map (val s) (st_alt s) \<and>
          val t true_view = val s true_view
      | _ \<Rightarrow> sp = None)"

lemma refines_simps [simp]:
  "refines s (Go t) sp \<longleftrightarrow> sp = Some (absv t) \<and> map (val t) (st_alt t) = map (val s) (st_alt s) \<and>
     val t true_view = val s true_view"
  "refines s (Fail t) sp \<longleftrightarrow> sp = None" "refines s (Throw e t) sp \<longleftrightarrow> sp = None"
  "refines s (fail err t) sp \<longleftrightarrow> sp = None"
  by (simp_all add: refines_def fail_def)

lemma absv_push_new [simp]:
  "list_all (view_ok (st_heap s)) vs \<Longrightarrow> absv (push_new b vs s) = b # map (val s) vs"
proof -
  assume vs: "list_all (view_ok (st_heap s)) vs"
  obtain v h where a: "alloc b (st_heap s) = (v, h)" by fastforce
  from buf.push_vals [OF a vs] show ?thesis
    by (simp add: absv_def push_new_def a val_def cong: map_cong)
qed

lemma val_push_new [simp]: "view_ok (st_heap s) v \<Longrightarrow> val (push_new b vs s) v = val s v"
  by (simp add: val_def bytes_of_append)

lemma vals_push_new [simp]: "list_all (view_ok (st_heap s)) ws \<Longrightarrow>
    map (val (push_new b vs s)) ws = map (val s) ws"
  by (auto simp: list_all_iff)

lemma absv_set_stack [simp]: "absv (set_stack vs s) = map (val s) vs"
  by (simp add: absv_def set_stack_def val_def cong: map_cong)

lemma val_upd [simp]:
  "val (s\<lparr>st_stack := x\<rparr>) = val s" "val (s\<lparr>st_begincode := n\<rparr>) = val s" "val (set_stack vs s) = val s"
  "st_alt (set_stack vs s) = st_alt s" "st_stack (set_stack vs s) = vs"
  by (simp_all add: val_def set_stack_def fun_eq_iff)

lemma wf_alt [simp]: "wf s \<Longrightarrow> list_all (view_ok (st_heap s)) (st_alt s)"
  unfolding wf_def by blast

lemma wf_true [simp]: "wf s \<Longrightarrow> view_ok (st_heap s) true_view"
  unfolding wf_def by blast

lemma absv_fold [simp]: "map (val s) (st_stack s) = absv s" "length (absv s) = length (st_stack s)"
  by (simp_all add: absv_def)

lemma val_bool_view: "val s true_view = [1] \<Longrightarrow> val s (bool_view b) = bool_bytes b"
  by (simp add: bool_view_def bool_bytes_def false_view_def val_def bytes_of_def)

lemma spec_num_with_num:
  "refines s (with_num 4 v s f) sp \<longleftrightarrow>
     (case spec_num (fRequireMinimal s) (val s v) of None \<Rightarrow> sp = None | Some n \<Rightarrow> refines s (f n) sp)"
  by (auto simp: with_num_def spec_num_def fromScriptNumBuffer_cases minimal_is_shortest script_number_eq split: sum.splits if_splits)

lemma rearrange_spec:
  assumes "rearrange_depth n = Some d"
  shows "spec_moves n st = (if d \<le> length st then Some (rearrange n st) else None)"
proof -
  have "n \<in> {109, 110, 111, 112, 113, 114, 117, 118, 119, 120, 123, 124, 125}"
    using assms by (auto simp: rearrange_depth_def split: if_splits)
  then show ?thesis
    using assms
    by (elim insertE)
       (auto simp: rearrange_depth_def spec_moves_def rearrange.simps numeral_eq_Suc split: list.split)
qed

lemma hash_spec: "OP_RIPEMD160 \<le> n \<Longrightarrow> n \<le> OP_HASH256 \<Longrightarrow> spec_hash E n x = Some (hash_op E n x)"
  by (auto simp: spec_hash_def hash_op_def sha256ripemd160_def sha256sha256_def)

lemma spec_1_abs: "spec_1 f (absv s) =
    (if length (st_stack s) < 1 then None else f (val s (stacktop s 1)) (map (val s) (tl (st_stack s))))"
  by (cases "st_stack s") (simp_all add: spec_1_def absv_def stacktop_def)

lemma spec_2_abs: "spec_2 f (absv s) =
    (if length (st_stack s) < 2 then None
     else f (val s (stacktop s 2)) (val s (stacktop s 1)) (map (val s) (drop 2 (st_stack s))))"
  by (cases "st_stack s"; cases "tl (st_stack s)") (auto simp: spec_2_def absv_def stacktop_def)

lemma needs_refines: "refines s (needs n s k) sp \<longleftrightarrow>
    (if length (st_stack s) < n then sp = None else refines s k sp)"
  by (simp add: needs_def)

lemmas refine_rules = needs_refines spec_num_with_num spec_1_abs spec_2_abs

lemma absv_begincode [simp]: "absv (s\<lparr>st_begincode := n\<rparr>) = absv s"
  unfolding absv_def by (simp del: absv_fold)

lemma absv_Cons [simp]: "\<not> length (st_stack s) < Suc 0 \<Longrightarrow>
    val s (stacktop s (Suc 0)) # map (val s) (tl (st_stack s)) = absv s"
  by (cases "st_stack s") (simp_all add: absv_def stacktop_def)

lemma refine_simple:
  assumes "wf s"
  shows "refines s (op_number n s) (Some (number_bytes (int n - 80) # absv s))"
    and "refines s (op_verify s) (spec_1 (\<lambda>x xs. if script_number x \<noteq> 0 then Some xs else None) (absv s))"
    and "refines s (op_ifdup s) (spec_1 (\<lambda>x xs. Some (if script_number x \<noteq> 0 then x # x # xs else x # xs)) (absv s))"
    and "refines s (op_depth s) (Some (number_bytes (int (length (st_stack s))) # absv s))"
    and "refines s (op_size s) (spec_1 (\<lambda>x xs. Some (number_bytes (int (length x)) # x # xs)) (absv s))"
    and "refines s (op_hash E n s) (spec_1 (\<lambda>x xs. Some (hash_op E n x # xs)) (absv s))"
    and "refines s (op_reversebytes s) (spec_1 (\<lambda>x xs. Some (rev x # xs)) (absv s))"
    and "refines s (op_unary n s) (spec_unary (fRequireMinimal s) (unary_num n) (absv s))"
    and "refines s (op_cat s) (spec_cat (absv s))"
  using assms
  by (simp_all add: op_number_def op_verify_def op_ifdup_def op_depth_def op_size_def op_hash_def
      op_reversebytes_def op_unary_def op_cat_def spec_unary_def spec_cat_def refine_rules
      number_bytes_eq castToBool_fromSM script_number_eq
      Let_def split: option.splits)

lemma refine_equal:
  assumes "wf s" and "val s true_view = [1]"
  shows "refines s (op_equal n s) (spec_equal n (absv s))"
  using assms
  by (simp add: op_equal_def spec_equal_def refine_rules Let_def to_hex_inj val_bool_view)

lemma refine_within:
  assumes "wf s" and "val s true_view = [1]"
  shows "refines s (op_within s) (spec_within (fRequireMinimal s) (absv s))"
proof -
  have "spec_within m (absv s) =
     (if length (st_stack s) < 3 then None
      else Option.bind (spec_num m (val s (stacktop s 3))) (\<lambda>x.
           Option.bind (spec_num m (val s (stacktop s 2))) (\<lambda>lo.
           Option.bind (spec_num m (val s (stacktop s 1))) (\<lambda>hi.
             Some (bool_bytes (lo \<le> x \<and> x < hi) # map (val s) (drop 3 (st_stack s)))))))" for m
    by (cases "st_stack s"; cases "tl (st_stack s)"; cases "tl (tl (st_stack s))")
       (auto simp: spec_within_def stacktop_def numeral_3_eq_3 absv_def simp del: absv_fold)
  with assms show ?thesis
    by (simp add: op_within_def refine_rules val_bool_view split: option.splits)
qed

text \<open>What the code computes, as an argument of the specification of two operands.\<close>

definition binary_result :: "nat \<Rightarrow> int \<Rightarrow> int \<Rightarrow> bytes list \<Rightarrow> bytes list option" where
  "binary_result n a b xs = Option.bind (binary_num n a b) (\<lambda>r.
     if n = OP_NUMEQUALVERIFY then if r \<noteq> 0 then Some xs else None else Some (number_bytes r # xs))"

lemma refine_binary:
  assumes "wf s"
  shows "refines s (op_binary n s) (spec_binary (fRequireMinimal s) (binary_result n) (absv s))"
proof -
  have top: "val (push_new b vs s) (stacktop (push_new b vs s) (Suc 0)) = b" for b vs
    by (simp add: val_def stacktop_def push_new_def alloc_def bytes_of_def)
  have truth: "castToBool (number_bytes k) \<longleftrightarrow> k \<noteq> 0" for k by (simp flip: number_bytes_eq)
  show ?thesis using assms
    by (simp add: op_binary_def spec_binary_def binary_result_def refine_rules Let_def top number_bytes_eq truth split: option.splits)
qed

lemma bool_number: "number_bytes (of_bool p) = bool_bytes p"
  by (simp add: number_bytes_def bool_bytes_def magnitude_bytes.simps [of 0] magnitude_bytes.simps [of "Suc 0"] Let_def)

lemma arith_unary:
  assumes "n \<in> {139, 140, 143, 144, 145, 146}"
  shows "spec_arith m n = spec_unary m (unary_num n)"
proof -
  have "unary_num 139 = (\<lambda>k. k + 1)" "unary_num 140 = (\<lambda>k. k - 1)" "unary_num 143 = uminus" "unary_num 144 = abs"
    "unary_num 145 = (\<lambda>k. if k = 0 then 1 else 0)" "unary_num 146 = (\<lambda>k. if k = 0 then 0 else 1)"
    by (auto simp: unary_num_def fun_eq_iff)
  then show ?thesis using assms by (elim insertE) (simp_all add: spec_arith_def)
qed

lemma arith_binary:
  assumes "n = OP_ADD \<or> n = OP_SUB \<or> n = OP_DIV \<or> n = OP_MOD \<or> OP_BOOLAND \<le> n \<and> n \<le> OP_MAX"
  shows "spec_arith m n = spec_binary m (binary_result n)"
proof -
  have "n \<in> {147, 148, 150, 151, 154, 155, 156, 157, 158, 159, 160, 161, 162, 163, 164}"
    using assms by (simp, presburger)
  moreover have "binary_result 150 = (\<lambda>a b xs. if b = 0 then None else Some (number_bytes (sgn a * sgn b * (\<bar>a\<bar> div \<bar>b\<bar>)) # xs))"
    "binary_result 151 = (\<lambda>a b xs. if b = 0 then None else Some (number_bytes (sgn a * (\<bar>a\<bar> mod \<bar>b\<bar>)) # xs))"
    "binary_result 163 = (\<lambda>a b xs. Some (number_bytes (min a b) # xs))" "binary_result 164 = (\<lambda>a b xs. Some (number_bytes (max a b) # xs))"
    by (auto simp: fun_eq_iff binary_result_def binary_num_def signed_divide_int_def signed_modulo_int_def min_def max_def)
  moreover have "binary_result n = (\<lambda>a b xs. binary_result n a b xs)" for n by (intro ext refl)
  ultimately show ?thesis
    by (elim insertE)
       (simp_all add: spec_arith_def binary_result_def [abs_def] binary_num_def bool_number)
qed

lemma refine_pick_roll:
  assumes "wf s"
  shows "refines s (op_pick_roll n s) (spec_pick_roll (fRequireMinimal s) n (absv s))"
proof -
  have one: "length (st_stack s) = Suc 0 \<Longrightarrow> tl (st_stack s) = []" by (cases "st_stack s") simp_all
  show ?thesis using assms
    by (auto simp: op_pick_roll_def spec_pick_roll_def refine_rules Let_def one
        take_map drop_map split: option.splits)
qed

lemma split_views:
  fixes b :: bytes and i :: nat
  assumes "wf s"
  defines "v \<equiv> \<lparr>v_blk = length (st_heap s), v_off = 0, v_len = length b\<rparr>"
  defines "t \<equiv> s\<lparr>st_heap := st_heap s @ [b], st_stack := sub_view v i (length b) # sub_view v 0 i # drop 2 (st_stack s)\<rparr>"
  shows "absv t = drop i b # take i b # map (val s) (drop 2 (st_stack s)) \<and>
    map (val t) (st_alt t) = map (val s) (st_alt s) \<and> val t true_view = val s true_view"
proof -
  have ok: "view_ok (st_heap s @ [b]) v" and b: "bytes_of (st_heap s @ [b]) v = b"
    by (simp_all add: v_def view_ok_def bytes_of_def)
  have sub: "bytes_of (st_heap s @ [b]) (sub_view v k l) = slice b k l" for k l
    using bytes_of_sub [OF ok] b by simp
  have old: "list_all (view_ok (st_heap s)) vs \<Longrightarrow> map (val t) vs = map (val s) vs" for vs
    by (auto simp: list_all_iff bytes_of_append t_def val_def)
  have "val t (sub_view v i (length b)) = drop i b" "val t (sub_view v 0 i) = take i b"
    using sub by (simp_all add: t_def val_def slice_def)
  moreover have "val t true_view = val s true_view"
    using wf_true [OF assms(1)] by (simp add: t_def val_def bytes_of_append)
  moreover have "map (val t) (drop 2 (st_stack s)) = map (val s) (drop 2 (st_stack s))"
    "map (val t) (st_alt s) = map (val s) (st_alt s)"
    using assms(1) by (simp_all only: old wf_alt wf_stack list_all_parts)
  ultimately show ?thesis unfolding absv_def by (simp add: t_def)
qed

lemma refine_split:
  assumes "wf s"
  shows "refines s (op_split s) (spec_split (fRequireMinimal s) (absv s))"
  using split_views [OF assms]
  by (simp add: op_split_def spec_split_def refine_rules Let_def alloc_def split: option.splits)

lemma map_rearrange: "rearrange_depth n = Some d \<Longrightarrow> d \<le> length st \<Longrightarrow> map f (rearrange n st) = rearrange n (map f st)"
proof -
  assume d: "rearrange_depth n = Some d" "d \<le> length st"
  then have "k < d \<Longrightarrow> map f st ! k = f (st ! k)" for k by simp
  with d(1) show ?thesis
    by (auto simp: rearrange.simps rearrange_depth_def take_map drop_map split: if_splits)
qed

lemma refine_rearrange:
  assumes "wf s" and "rearrange_depth n = Some d"
  shows "refines s (op_rearrange d n s) (spec_moves n (absv s))"
  using assms map_rearrange [OF assms(2), of "st_stack s" "val s"]
  by (auto simp: op_rearrange_def refine_rules rearrange_spec [OF assms(2)])

lemma small_number: "number_bytes (- 1) = [0x81]" "1 \<le> k \<Longrightarrow> k \<le> 16 \<Longrightarrow> number_bytes (int k) = [word_of_nat k]"
proof -
  have m: "0 < k \<Longrightarrow> k < 256 \<Longrightarrow> magnitude_bytes k = [word_of_nat k]" for k
    by (simp add: magnitude_bytes.simps [of k] magnitude_bytes.simps [of 0])
  show "number_bytes (- 1) = [0x81]" using m [of 1] by (simp add: number_bytes_def)
  show "1 \<le> k \<Longrightarrow> k \<le> 16 \<Longrightarrow> number_bytes (int k) = [word_of_nat k]"
    using m [of k] by (simp add: number_bytes_def unat_of_nat)
qed

lemma refine_exec_op:
  assumes "wf s" and "val s true_view = [1]" and "pure_op n"
  shows "refines s (exec_op E fe n s) (spec_op E (fRequireMinimal s) n (absv s))"
proof -
  note [simp] = refine_simple [OF assms(1)] refine_equal [OF assms(1,2)] refine_within [OF assms(1,2)]
    refine_binary [OF assms(1)] refine_pick_roll [OF assms(1)] refine_split [OF assms(1)]
  note simps = exec_op_def spec_op_def rearrange_depth_def
  consider (neg) "n = 79" | (num) "81 \<le> n \<and> n \<le> 96" | (un) "n \<in> {139, 140, 143, 144, 145, 146}"
    | (bin) "n = 147 \<or> n = 148 \<or> n = 150 \<or> n = 151 \<or> 154 \<le> n \<and> n \<le> 164" | (hash) "166 \<le> n \<and> n \<le> 170"
    | (re) "n \<in> {109, 110, 111, 112, 113, 114, 117, 118, 119, 120, 123, 124, 125}"
    | (misc) "n \<in> {97, 105, 106, 115, 116, 121, 122, 126, 127, 130, 135, 136, 165, 171, 188}"
    using assms(3) unfolding pure_op_def by blast
  then show ?thesis
  proof cases
    case neg
    then show ?thesis using refine_simple(1) [OF assms(1), of 79] small_number(1) by (simp add: simps)
  next
    case num
    then have "exec_op E fe n s = op_number n s" by (simp add: exec_op_def)
    moreover have "spec_op E (fRequireMinimal s) n (absv s) = Some (number_bytes (int n - 80) # absv s)"
      using num small_number(2) [of "n - 80"] by (auto simp: spec_op_def)
    ultimately show ?thesis by simp
  next
    case un
    then have "exec_op E fe n s = op_unary n s" by (elim insertE) (simp_all add: simps)
    moreover have "spec_op E (fRequireMinimal s) n (absv s) = spec_arith (fRequireMinimal s) n (absv s)"
      using un by (elim insertE) (simp_all add: simps)
    ultimately show ?thesis using arith_unary [OF un] by simp
  next
    case bin
    then have "exec_op E fe n s = op_binary n s" unfolding simps by auto
    moreover have "spec_op E (fRequireMinimal s) n (absv s) = spec_arith (fRequireMinimal s) n (absv s)"
      using bin unfolding simps by auto
    ultimately show ?thesis using arith_binary [OF bin] by simp
  next
    case hash
    then have "exec_op E fe n s = op_hash E n s" unfolding simps by simp
    moreover have "spec_op E (fRequireMinimal s) n (absv s) = spec_1 (\<lambda>x xs. Some (hash_op E n x # xs)) (absv s)"
      using hash hash_spec [of n E] unfolding simps by simp
    ultimately show ?thesis by simp
  next
    case re
    then obtain d where d: "rearrange_depth n = Some d" "exec_op E fe n s = op_rearrange d n s"
      and "spec_op E (fRequireMinimal s) n (absv s) = spec_moves n (absv s)"
      by (elim insertE) (simp_all add: simps)
    then show ?thesis using refine_rearrange [OF assms(1) d(1)] by (simp only:)
  next
    case misc
    then show ?thesis
      by (elim insertE) (simp_all add: simps op_return_def op_codeseparator_def)
  qed
qed

section \<open>Number conversion in place\<close>

lemma pow256: "(256 :: nat) ^ n > 0"
  by simp

text \<open>A signed magnitude buffer whose last byte is only the sign.\<close>

lemma fromSM_sign_byte: "x = 0 \<or> x = 0x80 \<Longrightarrow> fromSM Little (xs @ [x]) = (if x = 0 then int (le_val xs) else - int (le_val xs))"
  by (auto simp: fromSM_Little le_val_append)

lemma le_val_zeros: "list_all (\<lambda>b. b = 0) zs \<Longrightarrow> le_val (xs @ zs) = le_val xs"
  using le_val_0_iff [of zs] by (simp add: le_val_append)

lemma or_sign_byte: "b AND 0x80 = 0 \<Longrightarrow> x = 0 \<or> x = 0x80 \<Longrightarrow>
    (b OR x) AND 0x7f = (b :: byte) \<and> ((b OR x) AND 0x80 = 0 \<longleftrightarrow> x = 0)"
  using byte_or_and_7f [of b] byte_or_and_80 [of b] byte_low [of b] by auto

text \<open>The value of the loop: the trimmed bytes are the canonical encoding of the same number.\<close>

definition trimmed :: "bytes \<Rightarrow> byte \<Rightarrow> bytes" where
  "trimmed xs x = (if last xs AND 0x80 \<noteq> 0 then xs @ [x] else butlast xs @ [last xs OR x])"

lemma trimmed_canonical:
  assumes "xs \<noteq> []" and "last xs \<noteq> 0" and "x = 0 \<or> x = 0x80"
  shows "trimmed xs x = toScriptNumBuffer (if x = 0 then int (le_val xs) else - int (le_val xs))"
proof -
  obtain ys b where xs: "xs = ys @ [b]" using assms(1) by (metis append_butlast_last_id)
  let ?v = "if x = 0 then int (le_val xs) else - int (le_val xs)"
  have "\<not> nonminimal (trimmed xs x) \<and> fromSM Little (trimmed xs x) = ?v"
  proof (cases "b AND 0x80 = 0")
    case True
    have o: "(b OR x) AND 0x7f = b" "(b OR x) AND 0x80 = 0 \<longleftrightarrow> x = 0"
      using or_sign_byte [OF True assms(3)] by simp_all
    have t: "trimmed xs x = ys @ [b OR x]" using True by (simp add: trimmed_def xs)
    have "\<not> nonminimal (ys @ [b OR x])" using o(1) assms(2) by (simp add: nonminimal_def xs)
    moreover have "fromSM Little (ys @ [b OR x]) = ?v"
      using o assms(3) by (auto simp: fromSM_Little xs)
    ultimately show ?thesis unfolding t by simp
  next
    case False
    have t: "trimmed xs x = xs @ [x]" using False by (simp add: trimmed_def xs)
    have "\<not> nonminimal (xs @ [x])" using False by (simp add: nonminimal_def xs nth_append)
    then show ?thesis unfolding t using fromSM_sign_byte [OF assms(3)] by simp
  qed
  then show ?thesis using toScriptNumBuffer_fromSM [of "trimmed xs x"] by simp
qed

lemma bytes_of_poke_sub:
  assumes "view_ok h v" and "i < k" and "k \<le> v_len v"
  shows "bytes_of (poke h v i x) (sub_view v 0 k) = (take k (bytes_of h v))[i := x]"
proof -
  have "view_ok (poke h v i x) v" using assms(1) by (simp add: view_ok_poke)
  from bytes_of_sub [OF this, of 0 k] show ?thesis
    using assms by (simp add: bytes_of_poke slice_def take_update_swap)
qed

lemma minimal_loop_value:
  assumes "view_ok h v" and "bytes_of h v = xs @ zs @ [x]" and "list_all (\<lambda>b. b = 0) zs"
    and "x = 0 \<or> x = 0x80" and "minimal_loop v x (length xs) h = (w, h')"
    and "zs = [] \<longrightarrow> xs = [] \<or> last xs AND 0x80 = 0"
  shows "bytes_of h' w = toScriptNumBuffer (if x = 0 then int (le_val xs) else - int (le_val xs))"
  using assms
proof (induction xs arbitrary: zs rule: rev_induct)
  case Nil
  then show ?case by (auto simp: alloc_def bytes_of_def)
next
  case (snoc b ys)
  have nth: "bytes_of h v ! length ys = b" using snoc.prems(2) by (simp add: nth_append)
  have len: "length ys + length zs + 2 = v_len v"
    using snoc.prems(1,2) length_bytes_of [OF snoc.prems(1)] by simp
  show ?case
  proof (cases "b = 0")
    case True
    have "minimal_loop v x (length ys) h = (w, h')" using snoc.prems(5) nth True by simp
    then have "bytes_of h' w = toScriptNumBuffer (if x = 0 then int (le_val ys) else - int (le_val ys))"
      using snoc.prems True by (intro snoc.IH [of "0 # zs"]) simp_all
    then show ?thesis using True by (simp add: le_val_append)
  next
    case False
    have c: "trimmed (ys @ [b]) x = toScriptNumBuffer
        (if x = 0 then int (le_val (ys @ [b])) else - int (le_val (ys @ [b])))"
      using False snoc.prems(4) by (intro trimmed_canonical) simp_all
    show ?thesis
    proof (cases "b AND 0x80 = 0")
      case True
      then have "w = sub_view v 0 (length ys + 1)" "h' = poke h v (length ys) (b OR x)"
        using snoc.prems(5) nth False by simp_all
      moreover have "bytes_of (poke h v (length ys) (b OR x)) (sub_view v 0 (length ys + 1)) = ys @ [b OR x]"
        using len by (subst bytes_of_poke_sub [OF snoc.prems(1)]) (simp_all add: snoc.prems(2))
      ultimately show ?thesis using c True by (simp add: trimmed_def)
    next
      case f: False
      then have w: "w = sub_view v 0 (length ys + 2)" "h' = poke h v (length ys + 1) x"
        using snoc.prems(5) nth False by simp_all
      have "take (length ys + 2) (bytes_of h v) = ys @ [b, hd (zs @ [x])]"
        using snoc.prems(2) by (cases zs) simp_all
      then have "bytes_of (poke h v (length ys + 1) x) (sub_view v 0 (length ys + 2)) = ys @ [b, x]"
        using len by (subst bytes_of_poke_sub [OF snoc.prems(1)])
          (simp_all add: list_update_append)
      then show ?thesis using c f by (simp add: trimmed_def w)
    qed
  qed
qed

lemma minimallyEncode_value:
  assumes "view_ok h v" and "minimallyEncode v h = (w, h')"
  shows "bytes_of h' w = toScriptNumBuffer (fromSM Little (bytes_of h v))"
proof -
  let ?b = "bytes_of h v"
  show ?thesis
  proof (cases "nonminimal ?b")
    case False
    have "w = v \<and> h' = h"
    proof (cases "?b = []")
      case ne: False
      then have "last ?b AND 0x7f \<noteq> 0 \<or> length ?b > 1 \<and> ?b ! (length ?b - 2) AND 0x80 \<noteq> 0"
        using False by (auto simp: nonminimal_def)
      then show ?thesis using assms(2) ne
        by (auto simp: minimallyEncode_def Let_def split: if_splits)
    qed (use assms(2) in \<open>simp add: minimallyEncode_def Let_def\<close>)
    then show ?thesis using toScriptNumBuffer_fromSM [OF False] by simp
  next
    case True
    then obtain xs x where b: "?b = xs @ [x]" by (metis append_butlast_last_id nonminimal_def)
    have x: "x = 0 \<or> x = 0x80" using True by (simp add: nonminimal_def b byte_7f_0)
    have top: "xs = [] \<or> last xs AND 0x80 = 0"
      using True by (cases xs rule: rev_cases) (simp_all add: nonminimal_def b nth_append)
    have v: "fromSM Little ?b = (if x = 0 then int (le_val xs) else - int (le_val xs))"
      unfolding b using x by (rule fromSM_sign_byte)
    have m: "minimal_loop v x (length xs) h = (w, h')"
    proof (cases "xs = []")
      case True
      then show ?thesis using assms(2) x b by (auto simp: minimallyEncode_def Let_def)
    next
      case False
      then have "xs ! (length xs - 1) AND 0x80 = 0" using top by (simp add: last_conv_nth)
      then show ?thesis using assms(2) x False
        by (auto simp: minimallyEncode_def Let_def b nth_append split: if_splits)
    qed
    show ?thesis
      unfolding v using minimal_loop_value [OF assms(1), of xs "[]" x w h'] b x m top by simp
  qed
qed

end
