(* ===== verification/InterpreterResults.thy ===== *)
theory InterpreterResults
  imports InterpreterSpec
begin

text \<open>
  Results about the script interpreter: what the number conversions, the multisignature
  loop, conditionals and \<^verbatim>\<open>verify\<close> promise, and where shared buffers and undeclared names make
  the code do something else.
\<close>

section \<open>Number conversions\<close>


lemma length_enc_le_iff: "0 < k \<Longrightarrow> length (toScriptNumBuffer n) \<le> k \<longleftrightarrow> \<bar>n\<bar> < 2 ^ (8 * k - 1)"
  using length_toScriptNumBuffer [of k n] fromSM_Little_bound [of k "toScriptNumBuffer n"]
  by (auto simp: fromSM_toScriptNumBuffer)

lemma op_bin2num_result:
  assumes "wf s" and "st_stack s = v # vs"
  defines "n \<equiv> fromSM Little (val s v)"
  shows "if \<bar>n\<bar> < 2 ^ 31
    then \<exists>t w. op_bin2num s = Go t \<and> st_stack t = w # vs \<and> val t w = toScriptNumBuffer n
    else \<exists>t. op_bin2num s = Fail t \<and> st_errstr t = SCRIPT_ERR_INVALID_NUMBER_RANGE"
proof -
  obtain w h where r: "minimallyEncode v (st_heap s) = (w, h)" by fastforce
  have v: "view_ok (st_heap s) v" using wf_stack [OF assms(1)] by (simp add: assms(2))
  have b: "bytes_of h w = toScriptNumBuffer n"
    using minimallyEncode_value [OF v r] by (simp add: n_def val_def)
  have "isMinimallyEncoded (bytes_of h w) 4 \<longleftrightarrow> \<bar>n\<bar> < 2 ^ 31"
    using toScriptNumBuffer_minimal [of n] length_enc_le_iff [of 4 n]
    by (auto simp: b isMinimallyEncoded_def)
  with b show ?thesis
    by (simp add: op_bin2num_def needs_def assms(2) stacktop_def r fail_def val_def)
qed

lemma pad_value:
  assumes "length raw < k"
  defines "x \<equiv> (if raw = [] then 0 else last raw AND 0x80)"
    and "cleared \<equiv> (if raw = [] then raw else raw[length raw - 1 := last raw AND 0x7f])"
  shows "fromSM Little ((cleared @ replicate (k - length raw) 0)[k - 1 := x]) = fromSM Little raw"
proof -
  define j where "j = k - length raw - 1"
  have len: "length cleared = length raw" by (simp add: cleared_def)
  have k: "k = length raw + Suc j" using assms(1) by (simp add: j_def)
  have pad: "(cleared @ replicate (k - length raw) 0)[k - 1 := x] = (cleared @ replicate j 0) @ [x]"
  proof -
    have "replicate (k - length raw) (0 :: byte) = replicate j 0 @ [0]"
      using k by (simp add: replicate_append_same)
    then show ?thesis using k len by (simp add: list_update_append)
  qed
  have x: "x = 0 \<or> x = 0x80"
  proof (cases "raw = []")
    case False
    have "last raw AND 0x80 = 0 \<or> last raw AND 0x80 = 0x80"
    proof -
      have "\<forall>b :: byte. b AND 0x80 = 0 \<or> b AND 0x80 = 0x80"
        unfolding byte_all by code_simp
      then show ?thesis by blast
    qed
    with False show ?thesis by (simp add: x_def)
  qed (simp add: x_def)
  have z: "le_val (cleared @ replicate j 0) = le_val cleared"
    by (rule le_val_zeros) (simp add: list_all_iff)
  show ?thesis
  proof (cases raw rule: rev_cases)
    case Nil
    then show ?thesis
      unfolding pad fromSM_sign_byte [OF x] z by (simp add: cleared_def x_def fromSM_def be_val_def)
  next
    case (snoc ys b)
    have c: "cleared = ys @ [b AND 0x7f]" by (simp add: cleared_def snoc)
    have "fromSM Little raw = (if b AND 0x80 \<noteq> 0 then - int (le_val cleared) else int (le_val cleared))"
      using byte_low [of b] by (simp add: snoc fromSM_Little c)
    then show ?thesis
      unfolding pad fromSM_sign_byte [OF x] z using x by (auto simp: x_def snoc)
  qed
qed

lemma op_num2bin_result:
  assumes "wf s" and "st_stack s = a # b # vs"
    and "fromScriptNumBuffer (val s a) (fRequireMinimal s) 4 = Inr sz"
  defines "n \<equiv> fromSM Little (val s b)"
  shows "if sz > 520 then \<exists>t. op_num2bin s = Fail t \<and> st_errstr t = SCRIPT_ERR_PUSH_SIZE
    else if int (length (toScriptNumBuffer n)) > sz
    then \<exists>t. op_num2bin s = Fail t \<and> st_errstr t = SCRIPT_ERR_IMPOSSIBLE_ENCODING
    else \<exists>t w. op_num2bin s = Go t \<and> st_stack t = w # vs \<and>
           int (length (val t w)) = sz \<and> fromSM Little (val t w) = n"
proof -
  obtain r h where r: "minimallyEncode b (st_heap s) = (r, h)" by fastforce
  have b: "view_ok (st_heap s) b" using wf_stack [OF assms(1)] by (simp add: assms(2))
  have raw: "bytes_of h r = toScriptNumBuffer n"
    using minimallyEncode_value [OF b r] by (simp add: n_def val_def)
  have ok: "view_ok h r" using minimallyEncode_ok [OF b r] by simp
  let ?raw = "toScriptNumBuffer n"
  let ?x = "if ?raw = [] then 0 else last ?raw AND 0x80"
  let ?h1 = "if ?raw = [] then h else poke h r (length ?raw - 1) (last ?raw AND 0x7f)"
  let ?cleared = "if ?raw = [] then ?raw else ?raw[length ?raw - 1 := last ?raw AND 0x7f]"
  have len: "length ?raw = v_len r" using length_bytes_of [OF ok] by (simp add: raw)
  have h1: "bytes_of ?h1 r = ?cleared"
  proof (cases "?raw = []")
    case False
    then have "length ?raw - 1 < v_len r" by (simp only: len [symmetric]) simp
    from bytes_of_poke [OF ok this] False show ?thesis by (simp add: raw)
  qed (simp add: raw)
  have unf: "op_num2bin s =
     (if sz > 520 then fail SCRIPT_ERR_PUSH_SIZE s
      else let s1 = s\<lparr>st_heap := h, st_stack := b # vs\<rparr>
      in if int (length ?raw) > sz then fail SCRIPT_ERR_IMPOSSIBLE_ENCODING s1
         else if int (length ?raw) = sz then Go (set_stack (r # vs) s1)
         else Go (push_new ((?cleared @ replicate (nat sz - length ?raw) 0)[nat sz - 1 := ?x]) vs
                   (s1\<lparr>st_heap := ?h1\<rparr>)))"
    using h1 assms(2,3)
    by (cases "?raw = []") (simp_all add: op_num2bin_def needs_def with_num_def stacktop_def r raw Let_def)
  have new: "\<exists>w. st_stack (push_new q vs t) = w # vs \<and> val (push_new q vs t) w = q" for q t
    by (simp add: push_new_def alloc_def val_def bytes_of_def)
  consider "sz > 520" | "sz \<le> 520" "int (length ?raw) > sz" | "sz \<le> 520" "int (length ?raw) = sz"
    | "sz \<le> 520" "int (length ?raw) < sz" by linarith
  then show ?thesis
  proof cases
    case 1
    then show ?thesis by (simp add: unf fail_def)
  next
    case 2
    then show ?thesis by (simp add: unf fail_def Let_def)
  next
    case 3
    then show ?thesis
      by (simp add: unf Let_def set_stack_def val_def raw fromSM_toScriptNumBuffer)
  next
    case 4
    then have lt: "length ?raw < nat sz" by simp
    let ?q = "(?cleared @ replicate (nat sz - length ?raw) 0)[nat sz - 1 := ?x]"
    have "fromSM Little ?q = n"
      using pad_value [OF lt] by (simp add: fromSM_toScriptNumBuffer)
    moreover have "int (length ?q) = sz" using lt by simp
    moreover have "op_num2bin s = Go (push_new ?q vs (s\<lparr>st_stack := b # vs, st_heap := ?h1\<rparr>))"
      using 4 by (simp add: unf Let_def)
    ultimately show ?thesis
      using 4 new [of ?q "s\<lparr>st_stack := b # vs, st_heap := ?h1\<rparr>"] by auto
  qed
qed

section \<open>Multisignature matching\<close>

lemma list_emb_greedy:
  "list_emb P (x # xs) (y # ys) \<longleftrightarrow> (if P x y then list_emb P xs ys else list_emb P (x # xs) ys)"
  by (auto dest: list_emb_ConsD)

lemma multisig_loop_emb:
  "(\<forall>b \<in> set sigs. \<forall>k \<in> set keys. check b k = Inr None) \<Longrightarrow>
    multisig_loop check ver sigs keys = Inr (Inr (list_emb ver sigs keys))"
proof (induction check ver sigs keys rule: multisig_loop.induct)
  case (3 check ver b bs k ks)
  have c: "check b k = Inr None" using "3.prems" by simp
  let ?sigs = "if ver b k then bs else b # bs"
  have e: "list_emb ver (b # bs) (k # ks) \<longleftrightarrow> list_emb ver ?sigs ks"
    by (simp add: list_emb_greedy)
  show ?case
  proof (cases "length ?sigs > length ks")
    case True
    then have "\<not> list_emb ver ?sigs ks" using list_emb_length [of ver ?sigs ks] by linarith
    then show ?thesis using True e c by (simp add: Let_def)
  next
    case False
    have "multisig_loop check ver ?sigs ks = Inr (Inr (list_emb ver ?sigs ks))"
      using "3.IH" [OF c refl refl False] "3.prems" by simp
    then show ?thesis using False e c by (simp add: Let_def)
  qed
qed simp_all

section \<open>Conditionals\<close>

definition untouched :: "istate \<Rightarrow> istate \<Rightarrow> bool" where
  "untouched s t \<longleftrightarrow> st_heap t = st_heap s \<and> st_stack t = st_stack s \<and> st_alt t = st_alt s \<and>
     st_begincode t = st_begincode s"

lemma step_skipped:
  assumes "False \<in> set (st_vfExec s)"
  shows "post (untouched s) (step E s)"
proof -
  have "\<not> (False \<notin> set (st_vfExec s))" using assms by simp
  moreover have "99 \<le> n \<Longrightarrow> n \<le> 104 \<Longrightarrow> untouched s t \<Longrightarrow> post (untouched s) (exec_op E False n t)" for n t
  proof -
    assume n: "99 \<le> n" "n \<le> 104" and t: "untouched s t"
    then consider "n = 99" | "n = 100" | "n = 101" | "n = 102" | "n = 103" | "n = 104" by linarith
    then show ?thesis using t
      by cases (simp_all add: exec_op_def rearrange_depth_def op_if_def op_else_def op_endif_def
          untouched_def split: list.splits)
  qed
  ultimately show ?thesis
    by (auto simp: step_def Let_def untouched_def split: option.splits)
qed

section \<open>Verification\<close>

lemma bind_outcome_Go: "bind_outcome r f = Go t \<longleftrightarrow> (\<exists>s. r = Go s \<and> f s = Go t)"
  by (cases r) (simp_all add: bind_outcome_def)

lemma fail_not_Go [simp]: "fail e s \<noteq> Go t"
  by (simp add: fail_def)

lemma check_cleanstack_Go: "check_cleanstack flags vs s = Go t \<longleftrightarrow>
    t = s \<and> (has_flag flags SCRIPT_VERIFY_CLEANSTACK \<longrightarrow> has_flag flags SCRIPT_VERIFY_P2SH \<and> length vs = 1)"
  by (auto simp: check_cleanstack_def)

definition accepts :: "istate \<Rightarrow> bool" where
  "accepts t \<longleftrightarrow> st_stack t \<noteq> [] \<and> castToBool (val t (hd (st_stack t)))"

lemma verify_p2sh_Go:
  assumes "verify_p2sh E scriptSig flags stackCopy s = Go t"
  shows "isPushOnly scriptSig \<and> stackCopy \<noteq> [] \<and> accepts t \<and>
    (has_flag flags SCRIPT_VERIFY_CLEANSTACK \<longrightarrow> length (st_stack t) = 1) \<and>
    (\<exists>redeem. script_of_view (st_heap s) (hd stackCopy) = Inr redeem \<and>
       evaluate E (initialize (st_heap s) redeem (tl stackCopy) flags) = Go t)"
proof -
  have push: "isPushOnly scriptSig" using assms by (cases "isPushOnly scriptSig") (simp_all add: verify_p2sh_def)
  obtain b rest where copy: "stackCopy = b # rest" using assms push by (cases stackCopy) (simp_all add: verify_p2sh_def)
  obtain redeem where redeem: "script_of_view (st_heap s) b = Inr redeem"
    using assms push copy by (cases "script_of_view (st_heap s) b") (simp_all add: verify_p2sh_def)
  obtain t' where run: "evaluate E (initialize (st_heap s) redeem rest flags) = Go t'"
    and fin: "(case st_stack t' of
                 [] \<Rightarrow> fail SCRIPT_ERR_EVAL_FALSE_NO_P2SH_STACK t'
               | tp # _ \<Rightarrow>
                   if \<not> castToBool (val t' tp) then fail SCRIPT_ERR_EVAL_FALSE_IN_P2SH_STACK t'
                   else check_cleanstack flags (st_stack t') t') = Go t"
    using assms push copy redeem by (auto simp: verify_p2sh_def bind_outcome_Go)
  have "t = t' \<and> accepts t' \<and> (has_flag flags SCRIPT_VERIFY_CLEANSTACK \<longrightarrow> length (st_stack t') = 1)"
    using fin by (cases "st_stack t'") (auto simp: check_cleanstack_Go accepts_def split: if_splits)
  then show ?thesis using push copy redeem run by simp
qed

lemma verify_GoD:
  assumes "verify E h scriptSig scriptPubkey flags0 = Go t"
  defines "flags \<equiv> verify_flags flags0"
  shows "\<exists>s1 s2. evaluate E (initialize h scriptSig [] flags) = Go s1 \<and>
    evaluate E (initialize (st_heap s1) scriptPubkey (st_stack s1) flags) = Go s2 \<and> accepts s2 \<and>
    (has_flag flags SCRIPT_VERIFY_SIGPUSHONLY \<longrightarrow> isPushOnly scriptSig) \<and>
    (if has_flag flags SCRIPT_VERIFY_P2SH \<and> isScriptHashOut (resolve (st_heap s2) scriptPubkey) = Inr True
     then verify_p2sh E scriptSig flags (st_stack s1) s2 = Go t
     else t = s2 \<and> (has_flag flags SCRIPT_VERIFY_CLEANSTACK \<longrightarrow> length (st_stack s1) = 1))"
proof -
  let ?second = "\<lambda>s1 s2. case st_stack s2 of
               [] \<Rightarrow> fail SCRIPT_ERR_EVAL_FALSE_NO_RESULT s2
             | buf # _ \<Rightarrow>
                 if \<not> castToBool (val s2 buf) then fail SCRIPT_ERR_EVAL_FALSE_IN_STACK s2
                 else if has_flag flags SCRIPT_VERIFY_P2SH
                 then case isScriptHashOut (resolve (st_heap s2) scriptPubkey) of
                        Inl e \<Rightarrow> Throw e s2
                      | Inr True \<Rightarrow> verify_p2sh E scriptSig flags (st_stack s1) s2
                      | Inr False \<Rightarrow> check_cleanstack flags (st_stack s1) s2
                 else check_cleanstack flags (st_stack s1) s2"
  have push: "has_flag flags SCRIPT_VERIFY_SIGPUSHONLY \<longrightarrow> isPushOnly scriptSig"
    and "bind_outcome (evaluate E (initialize h scriptSig [] flags)) (\<lambda>s1.
           bind_outcome (evaluate E (initialize (st_heap s1) scriptPubkey (st_stack s1) flags)) (?second s1)) = Go t"
    using assms(1) unfolding verify_def Let_def flags_def [symmetric] by (simp_all split: if_splits)
  then obtain s1 s2 where run: "evaluate E (initialize h scriptSig [] flags) = Go s1"
    "evaluate E (initialize (st_heap s1) scriptPubkey (st_stack s1) flags) = Go s2"
    and fin: "?second s1 s2 = Go t"
    unfolding bind_outcome_Go by blast
  have "accepts s2 \<and>
    (if has_flag flags SCRIPT_VERIFY_P2SH \<and> isScriptHashOut (resolve (st_heap s2) scriptPubkey) = Inr True
     then verify_p2sh E scriptSig flags (st_stack s1) s2 = Go t
     else t = s2 \<and> (has_flag flags SCRIPT_VERIFY_CLEANSTACK \<longrightarrow> length (st_stack s1) = 1))"
    using fin
    by (cases "st_stack s2")
      (auto simp: check_cleanstack_Go accepts_def split: if_splits sum.splits bool.splits)
  then show ?thesis using push run by blast
qed


section \<open>Writing into operands\<close>

lemma zip_into_val:
  assumes "view_ok h v" and "view_ok h w" and "v = w \<or> \<not> overlap v w" and "v_len w = v_len v"
    and "i + k \<le> v_len v"
  shows "bytes_of (zip_into f v w i k h) v =
      take i (bytes_of h v) @ take k (drop i (map2 f (bytes_of h v) (bytes_of h w))) @
      drop (i + k) (bytes_of h v) \<and>
    (\<forall>u. view_ok h u \<longrightarrow> \<not> overlap v u \<longrightarrow> bytes_of (zip_into f v w i k h) u = bytes_of h u)"
  using assms
proof (induction k arbitrary: i h)
  case (Suc k)
  let ?a = "bytes_of h v" and ?b = "bytes_of h w"
  let ?h = "poke h v i (f (?a ! i) (?b ! i))"
  have i: "i < v_len v" using Suc.prems(5) by simp
  have v: "bytes_of ?h v = ?a[i := f (?a ! i) (?b ! i)]" using Suc.prems(1) i by (rule bytes_of_poke)
  have w: "drop (Suc i) (bytes_of ?h w) = drop (Suc i) ?b"
    using Suc.prems(1-3) i bytes_of_poke_other [of h v w i] v by (cases "v = w") auto
  have IH: "bytes_of (zip_into f v w (Suc i) k ?h) v =
      take (Suc i) (bytes_of ?h v) @ take k (drop (Suc i) (map2 f (bytes_of ?h v) (bytes_of ?h w))) @
      drop (Suc i + k) (bytes_of ?h v) \<and>
    (\<forall>u. view_ok ?h u \<longrightarrow> \<not> overlap v u \<longrightarrow> bytes_of (zip_into f v w (Suc i) k ?h) u = bytes_of ?h u)"
    using Suc.prems by (intro Suc.IH) (simp_all add: view_ok_poke)
  have la: "length ?a = v_len v" "length ?b = v_len v" using Suc.prems by simp_all
  have "drop (Suc i) (map2 f (bytes_of ?h v) (bytes_of ?h w)) = drop (Suc i) (map2 f ?a ?b)"
    using w by (simp add: drop_map drop_zip v)
  moreover have "take (Suc i) (bytes_of ?h v) = take i ?a @ [f (?a ! i) (?b ! i)]"
    using i la by (simp add: v take_Suc_conv_app_nth)
  moreover have "take (Suc k) (drop i (map2 f ?a ?b)) =
      f (?a ! i) (?b ! i) # take k (drop (Suc i) (map2 f ?a ?b))"
    using i la by (simp add: Cons_nth_drop_Suc [symmetric])
  moreover have "\<forall>u. view_ok h u \<longrightarrow> \<not> overlap v u \<longrightarrow> bytes_of ?h u = bytes_of h u"
    using Suc.prems(1) i bytes_of_poke_other by blast
  ultimately show ?case using IH by (auto simp: v view_ok_poke)
qed simp

definition bit_fun :: "nat \<Rightarrow> byte \<Rightarrow> byte \<Rightarrow> byte" where
  "bit_fun n = (if n = OP_AND then (AND) else if n = OP_OR then (OR) else (XOR))"

lemma op_bitwise_Go:
  assumes "wf s" and "st_stack s = w # v # vs" and "v = w \<or> \<not> overlap v w"
    and "length (val s w) = length (val s v)"
  shows "\<exists>t. op_bitwise n s = Go t \<and> st_stack t = v # vs \<and>
    val t v = map2 (bit_fun n) (val s v) (val s w) \<and>
    (\<forall>u. view_ok (st_heap s) u \<longrightarrow> \<not> overlap v u \<longrightarrow> val t u = val s u)"
proof -
  have ok: "view_ok (st_heap s) v" "view_ok (st_heap s) w"
    using wf_stack [OF assms(1)] by (simp_all add: assms(2))
  have len: "v_len w = v_len v" using assms(4) ok by (simp add: val_def)
  have z: "map2 f (bytes_of (st_heap s) v) (bytes_of (st_heap s) w) =
      take (v_len v) (drop 0 (map2 f (bytes_of (st_heap s) v) (bytes_of (st_heap s) w)))" for f
    using ok len by simp
  show ?thesis
    using zip_into_val [OF ok assms(3) len, of 0 "v_len v" "bit_fun n"] assms(2,4) ok len
    by (simp add: op_bitwise_def needs_def stacktop_def bit_fun_def val_def Let_def)
qed

section \<open>Concrete runs\<close>

text \<open>Scripts made of opcodes, and the bytes or the error a run ends with.\<close>

definition ops :: "nat list \<Rightarrow> view chunk list" where
  "ops ns = map (\<lambda>n. op_chunk (Some n)) ns"

definition outcome_of :: "outcome \<Rightarrow> (bytes list + script_error) option" where
  "outcome_of r = (case r of Go t \<Rightarrow> Some (Inl (map (val t) (st_stack t)))
     | Fail t \<Rightarrow> Some (Inr (st_errstr t)) | Throw _ _ \<Rightarrow> None)"


lemma exec_simps:
  "exec_op E fe 81 s = op_number 81 s" "exec_op E fe 135 s = op_equal 135 s"
  "exec_op E fe 134 s = op_bitwise 134 s" "exec_op E fe 82 s = op_number 82 s"
  by (simp_all add: exec_op_def rearrange_depth_def)

lemma sm_1: "toScriptNumBuffer 1 = [1]" "toScriptNumBuffer (1 + 0) = [1]"
  by code_simp+

lemmas run_simps = sm_1 Let_def outcome.case evaluate_def step_def initialize_def isOpcodeDisabled_def resolve_def
  script_toBuffer_eq printable_def chunk_bytes_def exec_simps ops_def op_number_def push_new_def alloc_def
  op_equal_def needs_def stacktop_def set_stack_def val_def bytes_of_def boot_heap_def
  bool_view_def true_view_def false_view_def to_hex_inj op_bitwise_def poke_def
  bind_outcome_def

lemmas verify_simps = verify_def verify_flags_def has_flag_def run_simps eval_loop.simps outcome_of_def
  fail_def isScriptHashOut_def nth_opt_def check_cleanstack_def

section \<open>Properties\<close>

text \<open>C40. The opcodes that only look at and build stack elements implement the specification on
  plain byte strings, which names the result of each opcode on its own: on a valid state whose shared \<^verbatim>\<open>true\<close> is intact the handler succeeds
  exactly when the specification has a result, with that result on the stack, and neither
  the alternate stack nor the shared \<^verbatim>\<open>true\<close> changes.\<close>

theorem pure_ops_refine:
  assumes "wf s" and "val s true_view = [1]" and "pure_op n"
  shows "case exec_op E fe n s of
      Go t \<Rightarrow> spec_op E (fRequireMinimal s) n (map (val s) (st_stack s)) = Some (map (val t) (st_stack t)) \<and>
        map (val t) (st_alt t) = map (val s) (st_alt s) \<and> val t true_view = [1]
    | Fail t \<Rightarrow> spec_op E (fRequireMinimal s) n (map (val s) (st_stack s)) = None
    | Throw e t \<Rightarrow> spec_op E (fRequireMinimal s) n (map (val s) (st_stack s)) = None"
proof (cases "exec_op E fe n s")
qed (use refine_exec_op [OF assms, of E fe] in \<open>simp_all add: assms(2)\<close>)

theorem pure_ops_refine_witness:
  "case exec_op demo_env True OP_CAT (initialize [[1], [], [5, 6], [7]] []
       [\<lparr>v_blk = 3, v_off = 0, v_len = 1\<rparr>, \<lparr>v_blk = 2, v_off = 0, v_len = 2\<rparr>] 0) of
      Go t \<Rightarrow> map (val t) (st_stack t) = [[5, 6, 7]]
    | _ \<Rightarrow> False"
proof -
  let ?s = "initialize [[1], [], [5, 6], [7]] []
       [\<lparr>v_blk = 3, v_off = 0, v_len = 1\<rparr>, \<lparr>v_blk = 2, v_off = 0, v_len = 2\<rparr>] 0"
  have wf: "wf ?s"
    by (simp add: wf_def initialize_def script_ok_def true_view_def false_view_def view_ok_def)
  have t: "val ?s true_view = [1]" by (simp add: val_def initialize_def true_view_def bytes_of_def)
  have p: "pure_op OP_CAT" by (simp add: pure_op_def)
  have "spec_op demo_env (fRequireMinimal ?s) OP_CAT (map (val ?s) (st_stack ?s)) = Some [[5, 6, 7]]"
    by (simp add: spec_op_def spec_cat_def spec_2_def val_def initialize_def bytes_of_def)
  with pure_ops_refine [OF wf t p, of demo_env True] show ?thesis
    by (simp split: outcome.splits)
qed

text \<open>\<^verbatim>\<open>castToBool\<close> and the number decoder agree on every buffer: it is true if and only if
  the buffer, read as a script number of any length, is not zero.\<close>

theorem truth_is_nonzero: "castToBool b \<longleftrightarrow> fromSM Little b \<noteq> 0"
  by (rule castToBool_fromSM)

text \<open>\<^verbatim>\<open>BIN2NUM\<close> replaces the top element by the canonical encoding of the number it
  stands for if that fits in 31 bits and sign, and fails with
  \<^verbatim>\<open>INVALID_NUMBER_RANGE\<close> otherwise.\<close>

theorem bin2num_result:
  assumes "wf s" and "st_stack s = v # vs"
  shows "if \<bar>fromSM Little (val s v)\<bar> < 2 ^ 31
    then \<exists>t w. op_bin2num s = Go t \<and> st_stack t = w # vs \<and>
           val t w = toScriptNumBuffer (fromSM Little (val s v))
    else \<exists>t. op_bin2num s = Fail t \<and> st_errstr t = SCRIPT_ERR_INVALID_NUMBER_RANGE"
  using op_bin2num_result [OF assms] .

theorem bin2num_result_witness:
  "\<exists>t w. op_bin2num (initialize (boot_heap @ [[5, 0, 0x80]]) [] [\<lparr>v_blk = 2, v_off = 0, v_len = 3\<rparr>] 0) = Go t \<and>
     st_stack t = [w] \<and> val t w = toScriptNumBuffer (- 5)"
proof -
  let ?v = "\<lparr>v_blk = 2, v_off = 0, v_len = 3\<rparr>"
  let ?s = "initialize (boot_heap @ [[5, 0, 0x80]]) [] [?v] 0"
  have "wf ?s"
    by (simp add: wf_def initialize_def script_ok_def true_view_def false_view_def view_ok_def boot_heap_def)
  moreover have "st_stack ?s = [?v]" by (simp add: initialize_def)
  moreover have "fromSM Little (val ?s ?v) = - 5"
    by (simp add: val_def initialize_def bytes_of_def boot_heap_def) code_simp
  ultimately show ?thesis using bin2num_result [of ?s ?v "[]"] by simp
qed

text \<open>\<^verbatim>\<open>NUM2BIN\<close> keeps the number: with a size of at most 520 bytes that is large enough
  it leaves a buffer of exactly that size which stands for the same number; the only other
  outcomes are \<^verbatim>\<open>PUSH_SIZE\<close> and \<^verbatim>\<open>IMPOSSIBLE_ENCODING\<close>.\<close>

theorem num2bin_result:
  assumes "wf s" and "st_stack s = a # b # vs"
    and "fromScriptNumBuffer (val s a) (fRequireMinimal s) 4 = Inr sz"
  shows "if sz > 520 then \<exists>t. op_num2bin s = Fail t \<and> st_errstr t = SCRIPT_ERR_PUSH_SIZE
    else if int (length (toScriptNumBuffer (fromSM Little (val s b)))) > sz
    then \<exists>t. op_num2bin s = Fail t \<and> st_errstr t = SCRIPT_ERR_IMPOSSIBLE_ENCODING
    else \<exists>t w. op_num2bin s = Go t \<and> st_stack t = w # vs \<and>
           int (length (val t w)) = sz \<and> fromSM Little (val t w) = fromSM Little (val s b)"
  using op_num2bin_result [OF assms] .

theorem num2bin_result_witness:
  "\<exists>t w. op_num2bin (initialize (boot_heap @ [[0x85], [4]]) []
       [\<lparr>v_blk = 3, v_off = 0, v_len = 1\<rparr>, \<lparr>v_blk = 2, v_off = 0, v_len = 1\<rparr>] 0) = Go t \<and>
     st_stack t = [w] \<and> length (val t w) = 4 \<and> fromSM Little (val t w) = - 5"
proof -
  let ?a = "\<lparr>v_blk = 3, v_off = 0, v_len = 1\<rparr>" and ?b = "\<lparr>v_blk = 2, v_off = 0, v_len = 1\<rparr>"
  let ?s = "initialize (boot_heap @ [[0x85], [4]]) [] [?a, ?b] 0"
  have "wf ?s"
    by (simp add: wf_def initialize_def script_ok_def true_view_def false_view_def view_ok_def boot_heap_def)
  moreover have "st_stack ?s = [?a, ?b]" by (simp add: initialize_def)
  moreover have "fromScriptNumBuffer (val ?s ?a) (fRequireMinimal ?s) 4 = Inr 4"
    by (simp add: val_def initialize_def bytes_of_def boot_heap_def fRequireMinimal_def has_flag_def) code_simp
  moreover have "fromSM Little (val ?s ?b) = - 5"
    by (simp add: val_def initialize_def bytes_of_def boot_heap_def) code_simp
  moreover have "length (toScriptNumBuffer (- 5)) = 1" by code_simp
  ultimately show ?thesis using num2bin_result [of ?s ?a ?b "[]" 4] by simp
qed

text \<open>Multisignature checking without the Schnorr extension: if the signatures can be deleted
  from the script and no encoding check fails, the outcome is whether the signatures can be
  matched to keys in order, each key used at most once: an order preserving embedding of the
  list of signatures in the list of keys.\<close>

theorem multisig_is_embedding:
  assumes "\<not> has_flag (st_flags s) SCRIPT_ENABLE_SCHNORR_MULTISIG"
    and "delete_signatures (take m (drop (n + 2) (map (val s) (st_stack s)))) (subscript s) = Inr sub"
    and "\<forall>b \<in> set (take m (drop (n + 2) (map (val s) (st_stack s)))).
      \<forall>k \<in> set (take n (drop 1 (map (val s) (st_stack s)))).
        then_pubkey (checkTxSignatureEncoding (st_flags s) b) (checkPubkeyEncoding E (st_flags s) k) = Inr None"
  shows "multisig_verify E n m s = Inr (Inr (list_emb
      (\<lambda>b k. catch_false (rbind (fromTxFormat b) (\<lambda>sig. rbind (key_fromBuffer E k) (\<lambda>pubkey.
         tx_verifySignature E sig pubkey sub (st_flags s) False))))
      (take m (drop (n + 2) (map (val s) (st_stack s))))
      (take n (drop 1 (map (val s) (st_stack s)))), st_errstr s))"
  using assms(1,2) multisig_loop_emb [OF assms(3)]
  by (simp add: multisig_verify_def Let_def)

theorem multisig_is_embedding_witness:
  "multisig_verify (demo_env\<lparr>key_fromBuffer := \<lambda>_. Inr ()\<rparr>) 1 1
     (initialize boot_heap [] [true_view, true_view, true_view, false_view, false_view] 0) =
   Inr (Inr (False, NO_ERROR))"
proof -
  let ?E = "demo_env\<lparr>key_fromBuffer := \<lambda>_. Inr ()\<rparr>"
  let ?s = "initialize boot_heap [] [true_view, true_view, true_view, false_view, false_view] 0"
  have st: "map (val ?s) (st_stack ?s) = [[1], [1], [1], [], []]"
    by (simp add: val_def initialize_def bytes_of_def boot_heap_def true_view_def false_view_def)
  have f: "\<not> has_flag (st_flags ?s) SCRIPT_ENABLE_SCHNORR_MULTISIG"
    by (simp add: has_flag_def initialize_def)
  have d: "delete_signatures (take 1 (drop (1 + 2) (map (val ?s) (st_stack ?s)))) (subscript ?s) = Inr []"
    unfolding st
    by (simp add: delete_signature_def subscript_def initialize_def resolve_def) code_simp
  have c: "\<forall>b \<in> set (take 1 (drop (1 + 2) (map (val ?s) (st_stack ?s)))).
      \<forall>k \<in> set (take 1 (drop 1 (map (val ?s) (st_stack ?s)))).
        then_pubkey (checkTxSignatureEncoding (st_flags ?s) b) (checkPubkeyEncoding ?E (st_flags ?s) k) = Inr None"
    unfolding st
    by (simp add: checkTxSignatureEncoding_def checkPubkeyEncoding_def has_flag_def initialize_def
        then_pubkey_def rmap_def)
  from multisig_is_embedding [OF f d c] show ?thesis
    unfolding st by (simp add: initialize_def demo_env_def catch_false_def rbind_def split: sum.splits)
qed

text \<open>In a branch that is not taken a step only moves the program counter and tracks nested
  conditionals: it writes to no buffer and leaves both stacks and the code separator alone.\<close>

theorem skipped_branch_has_no_effect:
  assumes "False \<in> set (st_vfExec s)" and "step E s = Go t"
  shows "st_heap t = st_heap s \<and> st_stack t = st_stack s \<and> st_alt t = st_alt s \<and>
    st_begincode t = st_begincode s \<and> st_pc t = Suc (st_pc s)"
  using step_skipped [OF assms(1), of E] step_GoD [OF assms(2)] assms(2)
  by (simp add: untouched_def)

theorem skipped_branch_has_no_effect_witness:
  "\<exists>t. step demo_env ((initialize boot_heap [op_chunk (Some OP_RETURN)] [true_view] 0)\<lparr>st_vfExec := [False]\<rparr>) = Go t \<and>
     st_stack t = [true_view] \<and> st_pc t = 1"
proof -
  let ?s = "(initialize boot_heap [op_chunk (Some OP_RETURN)] [true_view] 0)\<lparr>st_vfExec := [False]\<rparr>"
  obtain t where "step demo_env ?s = Go t"
    by (simp add: step_def initialize_def isOpcodeDisabled_def)
  moreover from this have "st_stack t = [true_view] \<and> st_pc t = 1"
    using skipped_branch_has_no_effect [of ?s demo_env t] by (simp add: initialize_def)
  ultimately show ?thesis by blast
qed

text \<open>\<^verbatim>\<open>CHECKLOCKTIMEVERIFY\<close> is sound: when it is enforced and lets a script go on, the top
  element is a number of at most five bytes between zero and the lock time of the
  transaction, both are block heights or both are times, the input is not final, and nothing
  in the state has changed.\<close>

theorem cltv_sound:
  assumes "has_flag (st_flags s) SCRIPT_VERIFY_CHECKLOCKTIMEVERIFY"
    and "op_checklocktimeverify E s = Go t"
  shows "t = s \<and> (\<exists>v vs n q. st_stack s = v # vs \<and> length (val s v) \<le> 5 \<and> n = fromSM Little (val s v) \<and>
    0 \<le> n \<and> n \<le> int (tx_nLockTime E) \<and>
    (n < int LOCKTIME_THRESHOLD \<longleftrightarrow> tx_nLockTime E < LOCKTIME_THRESHOLD) \<and>
    tx_sequence E = Some q \<and> q \<noteq> 4294967295)"
proof -
  have "\<not> length (st_stack s) < 1" using assms by (auto simp: op_checklocktimeverify_def needs_def fail_def)
  then obtain v vs where st: "st_stack s = v # vs" by (cases "st_stack s") simp_all
  obtain n where n: "fromScriptNumBuffer (val s v) (fRequireMinimal s) 5 = Inr n"
    using assms st
    by (cases "fromScriptNumBuffer (val s v) (fRequireMinimal s) 5")
      (simp_all add: op_checklocktimeverify_def needs_def with_num_def stacktop_def)
  then have "n \<ge> 0" "checkLockTime E n = Inr True" "t = s"
    using assms st
    by (auto simp: op_checklocktimeverify_def needs_def with_num_def stacktop_def fail_def
        split: sum.splits if_splits)
  moreover from n have "length (val s v) \<le> 5 \<and> n = fromSM Little (val s v)"
    by (auto simp: fromScriptNumBuffer_def checkArgument_def rbind_def split: if_splits)
  ultimately show ?thesis
    using st by (auto simp: checkLockTime_def split: if_splits option.splits)
qed

theorem cltv_sound_witness:
  "op_checklocktimeverify (demo_env\<lparr>tx_nLockTime := 7\<rparr>) (initialize boot_heap [] [true_view] (2 ^ 9)) =
     Go (initialize boot_heap [] [true_view] (2 ^ 9)) \<and> fromSM Little [1] \<le> 7"
proof -
  let ?s = "initialize boot_heap [] [true_view] (2 ^ 9)" and ?E = "demo_env\<lparr>tx_nLockTime := 7\<rparr>"
  have f: "has_flag (st_flags ?s) SCRIPT_VERIFY_CHECKLOCKTIMEVERIFY" by (simp add: has_flag_def initialize_def)
  have v: "val ?s true_view = [1]" by (simp add: val_def initialize_def bytes_of_def boot_heap_def true_view_def)
  have "fromScriptNumBuffer [1] False 5 = Inr 1" by code_simp
  moreover have "checkLockTime ?E 1 = Inr True" by (simp add: checkLockTime_def demo_env_def)
  moreover have "st_stack ?s = [true_view]" "\<not> fRequireMinimal ?s"
    by (simp_all add: initialize_def fRequireMinimal_def has_flag_def)
  ultimately have g: "op_checklocktimeverify ?E ?s = Go ?s"
    using v f by (simp add: op_checklocktimeverify_def needs_def with_num_def stacktop_def)
  from cltv_sound [OF f g] g v show ?thesis by (simp add: initialize_def demo_env_def)
qed

text \<open>\<^verbatim>\<open>CHECKSEQUENCEVERIFY\<close> cannot be satisfied: in a transaction of version 2 or
  more a number that is in range and asks for a relative lock time always ends in a
  \<^verbatim>\<open>ReferenceError\<close>, because \<^verbatim>\<open>checkSequence\<close> names \<^verbatim>\<open>SEQUENCE_LOCKTIME_DISABLE_FLAG\<close>
  without \<^verbatim>\<open>Interpreter\<close>.\<close>

theorem csv_always_throws:
  assumes "has_flag (st_flags s) SCRIPT_VERIFY_CHECKSEQUENCEVERIFY" and "st_stack s = v # vs"
    and "fromScriptNumBuffer (val s v) (fRequireMinimal s) 5 = Inr n" and "0 \<le> n"
    and "js_and n (- (2 ^ 31)) = 0" and "tx_sequence E = Some q" and "2 \<le> tx_version E"
  shows "op_checksequenceverify E s = Throw (ReferenceErr ''SEQUENCE_LOCKTIME_DISABLE_FLAG'') s"
  using assms by (simp add: op_checksequenceverify_def needs_def with_num_def stacktop_def checkSequence_def)

theorem csv_always_throws_witness:
  "op_checksequenceverify demo_env (initialize boot_heap [] [true_view] (2 ^ 10)) =
     Throw (ReferenceErr ''SEQUENCE_LOCKTIME_DISABLE_FLAG'') (initialize boot_heap [] [true_view] (2 ^ 10))"
proof (rule csv_always_throws [of _ true_view "[]" 1 demo_env 0])
  let ?s = "initialize boot_heap [] [true_view] (2 ^ 10)"
  show "has_flag (st_flags ?s) SCRIPT_VERIFY_CHECKSEQUENCEVERIFY" by (simp add: has_flag_def initialize_def)
  show "fromScriptNumBuffer (val ?s true_view) (fRequireMinimal ?s) 5 = Inr 1"
    by (simp add: val_def initialize_def bytes_of_def boot_heap_def true_view_def fRequireMinimal_def has_flag_def)
      code_simp
  show "js_and 1 (- (2 ^ 31)) = 0" by code_simp
qed (simp_all add: initialize_def demo_env_def)

text \<open>With \<^verbatim>\<open>LOW_S\<close> no DER encoded transaction signature can pass: the check parses the buffer as if a
  hash type followed, but its caller has already removed it, so \<^verbatim>\<open>CHECKSIG\<close> throws.\<close>

theorem lowS_rejects_der:
  assumes "has_flag (st_flags s) SCRIPT_VERIFY_LOW_S" and "st_stack s = k # b # vs"
    and "isDER (slice (val s b) 0 (length (val s b) - 1))"
    and "\<not> isSchnorrSig (slice (val s b) 0 (length (val s b) - 1))"
  shows "\<exists>err. op_checksig E n s = Throw err s"
proof -
  let ?raw = "slice (val s b) 0 (length (val s b) - 1)"
  have ne: "val s b \<noteq> []" using assms(3) by (auto simp: slice_def isDER_def Let_def)
  obtain err where "rbind (fromTxFormat ?raw) hasLowS = Inl err"
    using lowS_check_throws [OF assms(3)] by (cases "rbind (fromTxFormat ?raw) hasLowS") auto
  then have "rbind (fromTxFormat ?raw) (\<lambda>sig. rmap (\<lambda>low.
             if low then None else Some SCRIPT_ERR_SIG_DER_HIGH_S) (hasLowS sig)) = Inl err"
    by (cases "fromTxFormat ?raw") (auto simp: rmap_def rbind_def split: sum.splits)
  then have "checkRawSignatureEncoding (st_flags s) ?raw = Inl err"
    using assms(1,3,4) by (simp add: checkRawSignatureEncoding_def)
  then show ?thesis
    using assms(2) ne
    by (simp add: op_checksig_def needs_def stacktop_def checkTxSignatureEncoding_def then_pubkey_def Let_def)
qed

theorem lowS_rejects_der_witness:
  "\<exists>err. op_checksig demo_env OP_CHECKSIG (initialize (boot_heap @ [[0x30, 6, 2, 1, 1, 2, 1, 1, 0x41]]) []
       [true_view, \<lparr>v_blk = 2, v_off = 0, v_len = 9\<rparr>] (2 ^ 3)) =
     Throw err (initialize (boot_heap @ [[0x30, 6, 2, 1, 1, 2, 1, 1, 0x41]]) []
       [true_view, \<lparr>v_blk = 2, v_off = 0, v_len = 9\<rparr>] (2 ^ 3))"
proof (rule lowS_rejects_der)
  let ?v = "\<lparr>v_blk = 2, v_off = 0, v_len = 9\<rparr>"
  let ?s = "initialize (boot_heap @ [[0x30, 6, 2, 1, 1, 2, 1, 1, 0x41]]) [] [true_view, ?v] (2 ^ 3)"
  have v: "val ?s ?v = [0x30, 6, 2, 1, 1, 2, 1, 1, 0x41]"
    by (simp add: val_def initialize_def bytes_of_def boot_heap_def)
  show "has_flag (st_flags ?s) SCRIPT_VERIFY_LOW_S" by (simp add: has_flag_def initialize_def)
  show "st_stack ?s = true_view # ?v # []" by (simp add: initialize_def)
  show "isDER (slice (val ?s ?v) 0 (length (val ?s ?v) - 1))" unfolding v by code_simp
  show "\<not> isSchnorrSig (slice (val ?s ?v) 0 (length (val ?s ?v) - 1))" unfolding v by code_simp
qed

text \<open>A bitwise opcode writes its result into the buffer of its first operand: that element
  becomes the bytewise result, every other occurrence of the same buffer on the stacks or in
  the script (a \<^verbatim>\<open>DUP\<close> of it) changes with it, and buffers that share no memory with it
  keep their bytes.\<close>

theorem bitwise_writes_operand:
  assumes "wf s" and "st_stack s = w # v # vs" and "v = w \<or> \<not> overlap v w"
    and "length (val s w) = length (val s v)"
  shows "\<exists>t. op_bitwise n s = Go t \<and> st_stack t = v # vs \<and>
    (\<forall>u \<in> set (st_stack t). u = v \<longrightarrow> val t u = map2 (bit_fun n) (val s v) (val s w)) \<and>
    (\<forall>u \<in> set (st_stack t) \<union> set (st_alt s). \<not> overlap v u \<longrightarrow> u \<noteq> v \<longrightarrow> val t u = val s u)"
proof -
  obtain t where t: "op_bitwise n s = Go t" "st_stack t = v # vs"
      "val t v = map2 (bit_fun n) (val s v) (val s w)"
    and others: "\<forall>u. view_ok (st_heap s) u \<longrightarrow> \<not> overlap v u \<longrightarrow> val t u = val s u"
    using op_bitwise_Go [OF assms, of n] by blast
  have "view_ok (st_heap s) u" if "u \<in> set (st_stack t) \<union> set (st_alt s)" for u
    using that wf_stack [OF assms(1)] wf_alt [OF assms(1)] by (auto simp: t(2) assms(2) list_all_iff)
  with t others show ?thesis by auto
qed

theorem bitwise_writes_operand_witness:
  "\<exists>t. op_bitwise OP_AND (initialize [[1], [], [0x0f], [0x03]] []
       [\<lparr>v_blk = 3, v_off = 0, v_len = 1\<rparr>, \<lparr>v_blk = 2, v_off = 0, v_len = 1\<rparr>,
        \<lparr>v_blk = 2, v_off = 0, v_len = 1\<rparr>] 0) = Go t \<and>
     map (val t) (st_stack t) = [[0x03], [0x03]]"
proof -
  let ?w = "\<lparr>v_blk = 3, v_off = 0, v_len = 1\<rparr>" and ?v = "\<lparr>v_blk = 2, v_off = 0, v_len = 1\<rparr>"
  let ?s = "initialize [[1], [], [0x0f], [0x03]] [] [?w, ?v, ?v] 0"
  have wf: "wf ?s"
    by (simp add: wf_def initialize_def script_ok_def true_view_def false_view_def view_ok_def)
  have st: "st_stack ?s = ?w # ?v # [?v]" by (simp add: initialize_def)
  have o: "?v = ?w \<or> \<not> overlap ?v ?w" by (simp add: overlap_def)
  have v: "val ?s ?w = [0x03]" "val ?s ?v = [0x0f]"
    by (simp_all add: val_def initialize_def bytes_of_def)
  then have "length (val ?s ?w) = length (val ?s ?v)" by simp
  from bitwise_writes_operand [OF wf st o this, of OP_AND] v show ?thesis
    by (auto simp: bit_fun_def absv_def simp del: absv_fold)
qed

text \<open>C23. What a successful \<^verbatim>\<open>verify\<close> has checked: both scripts ran to the end, the second on
  the stack of the first, and left a true element on top; with \<^verbatim>\<open>SIGPUSHONLY\<close> the input script
  only pushes; and for a pay to script hash output, with \<^verbatim>\<open>P2SH\<close>, the input script only
  pushes, its last element parses as a script, and that script ran to the end on the rest of
  the stack with a true element on top, alone there under \<^verbatim>\<open>CLEANSTACK\<close>.\<close>

theorem verify_success:
  assumes "verify E h scriptSig scriptPubkey flags = Go t"
  shows "\<exists>s1 s2. evaluate E (initialize h scriptSig [] (verify_flags flags)) = Go s1 \<and>
    evaluate E (initialize (st_heap s1) scriptPubkey (st_stack s1) (verify_flags flags)) = Go s2 \<and>
    accepts s2 \<and> accepts t \<and>
    (has_flag (verify_flags flags) SCRIPT_VERIFY_SIGPUSHONLY \<longrightarrow> isPushOnly scriptSig) \<and>
    (has_flag (verify_flags flags) SCRIPT_VERIFY_P2SH \<longrightarrow>
     isScriptHashOut (resolve (st_heap s2) scriptPubkey) = Inr True \<longrightarrow>
     isPushOnly scriptSig \<and> st_stack s1 \<noteq> [] \<and>
     (has_flag (verify_flags flags) SCRIPT_VERIFY_CLEANSTACK \<longrightarrow> length (st_stack t) = 1) \<and>
     (\<exists>redeem. script_of_view (st_heap s2) (hd (st_stack s1)) = Inr redeem \<and>
        evaluate E (initialize (st_heap s2) redeem (tl (st_stack s1)) (verify_flags flags)) = Go t))"
proof -
  obtain s1 s2 where r: "evaluate E (initialize h scriptSig [] (verify_flags flags)) = Go s1"
      "evaluate E (initialize (st_heap s1) scriptPubkey (st_stack s1) (verify_flags flags)) = Go s2"
      "accepts s2" "has_flag (verify_flags flags) SCRIPT_VERIFY_SIGPUSHONLY \<longrightarrow> isPushOnly scriptSig"
    and c: "if has_flag (verify_flags flags) SCRIPT_VERIFY_P2SH \<and>
        isScriptHashOut (resolve (st_heap s2) scriptPubkey) = Inr True
     then verify_p2sh E scriptSig (verify_flags flags) (st_stack s1) s2 = Go t
     else t = s2 \<and> (has_flag (verify_flags flags) SCRIPT_VERIFY_CLEANSTACK \<longrightarrow> length (st_stack s1) = 1)"
    using verify_GoD [OF assms] by blast
  show ?thesis
  proof (cases "has_flag (verify_flags flags) SCRIPT_VERIFY_P2SH \<and>
        isScriptHashOut (resolve (st_heap s2) scriptPubkey) = Inr True")
    case True
    with c have "verify_p2sh E scriptSig (verify_flags flags) (st_stack s1) s2 = Go t" by simp
    from verify_p2sh_Go [OF this] r show ?thesis by blast
  next
    case False
    with c have "t = s2" by simp
    with False r show ?thesis by blast
  qed
qed

theorem verify_success_witness:
  "\<exists>t. verify demo_env boot_heap (ops [OP_1]) (ops [OP_1, OP_EQUAL]) 0 = Go t \<and> accepts t"
proof -
  have "\<exists>t. verify demo_env boot_heap (ops [OP_1]) (ops [OP_1, OP_EQUAL]) 0 = Go t"
    by (simp add: verify_simps)
  then obtain t where t: "verify demo_env boot_heap (ops [OP_1]) (ops [OP_1, OP_EQUAL]) 0 = Go t" ..
  from verify_success [OF t] t show ?thesis by blast
qed

text \<open>The buffer \<^verbatim>\<open>Interpreter.true\<close> that \<^verbatim>\<open>EQUAL\<close> pushes is shared by all interpreters, and
  the bitwise opcodes write into their operand: the script \<^verbatim>\<open>1 1 EQUAL 1 XOR\<close> leaves zero in
  \<^verbatim>\<open>Interpreter.true\<close>, and from then on \<^verbatim>\<open>1 1 EQUAL\<close>, which verifies in a fresh process, is
  refused.\<close>

theorem shared_true_is_poisoned:
  "outcome_of (verify demo_env boot_heap [] (ops [OP_1, OP_1, OP_EQUAL]) 0) = Some (Inl [[1]]) \<and>
   (\<exists>t. evaluate demo_env (initialize boot_heap (ops [OP_1, OP_1, OP_EQUAL, OP_1, OP_XOR]) [] 0) = Go t \<and>
     outcome_of (verify demo_env (st_heap t) [] (ops [OP_1, OP_1, OP_EQUAL]) 0) =
       Some (Inr SCRIPT_ERR_EVAL_FALSE_IN_STACK))"
proof
  show "outcome_of (verify demo_env boot_heap [] (ops [OP_1, OP_1, OP_EQUAL]) 0) = Some (Inl [[1]])"
    by (simp add: verify_simps)
  show "\<exists>t. evaluate demo_env (initialize boot_heap (ops [OP_1, OP_1, OP_EQUAL, OP_1, OP_XOR]) [] 0) = Go t \<and>
     outcome_of (verify demo_env (st_heap t) [] (ops [OP_1, OP_1, OP_EQUAL]) 0) =
       Some (Inr SCRIPT_ERR_EVAL_FALSE_IN_STACK)"
    by (simp add: verify_simps)
qed

text \<open>\<^verbatim>\<open>CLEANSTACK\<close> looks at the wrong stack when the output is not pay to script hash: it
  accepts \<^verbatim>\<open>1\<close> against \<^verbatim>\<open>1 1\<close>, which leaves three elements, and refuses \<^verbatim>\<open>1 1\<close> against
  \<^verbatim>\<open>EQUAL\<close>, which leaves one; without the flag the second pair verifies with that one
  element.\<close>

theorem cleanstack_checks_input_stack:
  "outcome_of (verify demo_env boot_heap (ops [OP_1]) (ops [OP_1, OP_1]) 257) = Some (Inl [[1], [1], [1]]) \<and>
   outcome_of (verify demo_env boot_heap (ops [OP_1, OP_1]) (ops [OP_EQUAL]) 257) = Some (Inr SCRIPT_ERR_CLEANSTACK) \<and>
   outcome_of (verify demo_env boot_heap (ops [OP_1, OP_1]) (ops [OP_EQUAL]) 1) = Some (Inl [[1]])"
proof (intro conjI)
  show "outcome_of (verify demo_env boot_heap (ops [OP_1]) (ops [OP_1, OP_1]) 257) = Some (Inl [[1], [1], [1]])"
    by (simp add: verify_simps)
  show "outcome_of (verify demo_env boot_heap (ops [OP_1, OP_1]) (ops [OP_EQUAL]) 257) = Some (Inr SCRIPT_ERR_CLEANSTACK)"
    by (simp add: verify_simps)
  show "outcome_of (verify demo_env boot_heap (ops [OP_1, OP_1]) (ops [OP_EQUAL]) 1) = Some (Inl [[1]])"
    by (simp add: verify_simps)
qed

end
