(* ===== verification/JsText.thy ===== *)
theory JsText
  imports Prelude "HOL-Library.AList"
begin

text \<open>
  What the services and the desktop process use of the language's text and containers:
  \<^verbatim>\<open>split\<close> and \<^verbatim>\<open>join\<close>, percent encoding, and \<^verbatim>\<open>Map\<close> with its insertion order.  A string is the
  list of its UTF-8 bytes, so that text of any script is a \<open>string\<close>.  The locale \<open>kv_store\<close> is
  the contract the stores rely on.
\<close>


section \<open>Splitting and joining\<close>

fun split_on :: "char \<Rightarrow> string \<Rightarrow> string list" where
  "split_on sep [] = [[]]"
| "split_on sep (c # cs) =
     (if c = sep then [] # split_on sep cs
      else (case split_on sep cs of x # xs \<Rightarrow> (c # x) # xs | [] \<Rightarrow> [[c]]))"

fun join_with :: "string \<Rightarrow> string list \<Rightarrow> string" where
  "join_with sep [] = []"
| "join_with sep [x] = x"
| "join_with sep (x # y # ys) = x @ sep @ join_with sep (y # ys)"

lemma split_on_ne [simp]: "split_on sep cs \<noteq> []"
  by (induction cs) (auto split: list.splits)

lemma join_split: "join_with [sep] (split_on sep cs) = cs"
proof (induction cs)
  case (Cons c cs)
  obtain x xs where s: "split_on sep cs = x # xs" by (cases "split_on sep cs") auto
  with Cons.IH show ?case by (cases xs) auto
qed simp

lemma split_on_plain: "sep \<notin> set cs \<Longrightarrow> split_on sep cs = [cs]"
  by (induction cs) auto

lemma split_on_append: "sep \<notin> set cs \<Longrightarrow> split_on sep (cs @ sep # ds) = cs # split_on sep ds"
  by (induction cs) auto

section \<open>Texts and bytes\<close>

text \<open>\<^verbatim>\<open>Buffer.from(text)\<close>, and the text whose UTF-8 form a buffer holds.\<close>

definition text_bytes :: "string \<Rightarrow> bytes" where
  "text_bytes s = map (\<lambda>c. word_of_nat (of_char c)) s"

definition bytes_text :: "bytes \<Rightarrow> string" where
  "bytes_text bs = map (\<lambda>b. char_of (unat b)) bs"

lemma bytes_text_bytes [simp]: "bytes_text (text_bytes s) = s"
  by (simp add: bytes_text_def text_bytes_def comp_def unat_byte_of_nat)

lemma length_text_bytes [simp]: "length (text_bytes s) = length s"
  by (simp add: text_bytes_def)

section \<open>Percent encoding\<close>

text \<open>
  \<^verbatim>\<open>encodeURIComponent\<close> keeps the unreserved characters and writes every other byte of the
  UTF-8 text as \<^verbatim>\<open>%XX\<close>, with capital digits.
\<close>

definition unreserved :: "char \<Rightarrow> bool" where
  "unreserved c \<longleftrightarrow>
     (let k = of_char c :: nat
      in 97 \<le> k \<and> k \<le> 122 \<or> 65 \<le> k \<and> k \<le> 90 \<or> 48 \<le> k \<and> k \<le> 57 \<or> c \<in> set ''-_.!~*'' \<or>
         c \<in> {CHR 0x27, CHR ''('', CHR '')''})"

definition hex_capital :: "nat \<Rightarrow> char" where
  "hex_capital n = ''0123456789ABCDEF'' ! n"

definition percent :: "char \<Rightarrow> string" where
  "percent c = (let k = of_char c :: nat in [CHR ''%'', hex_capital (k div 16), hex_capital (k mod 16)])"

definition encodeURIComponent :: "string \<Rightarrow> string" where
  "encodeURIComponent s = concat (map (\<lambda>c. if unreserved c then [c] else percent c) s)"

text \<open>One byte of an escape.\<close>

definition escape :: "string \<Rightarrow> (nat \<times> string) option" where
  "escape s =
     (case s of
        p # a # b # rest \<Rightarrow>
          if p = CHR ''%''
          then (case (hex_value a, hex_value b) of (Some x, Some y) \<Rightarrow> Some (16 * x + y, rest) | _ \<Rightarrow> None)
          else None
      | _ \<Rightarrow> None)"

text \<open>The bytes that may follow the first byte of a UTF-8 sequence: how many, and the range of the
  next one.\<close>

definition utf8_lead :: "nat \<Rightarrow> (nat \<times> nat \<times> nat) option" where
  "utf8_lead b =
     (if 0xC2 \<le> b \<and> b \<le> 0xDF then Some (1, 0x80, 0xBF)
      else if b = 0xE0 then Some (2, 0xA0, 0xBF)
      else if b = 0xED then Some (2, 0x80, 0x9F)
      else if 0xE1 \<le> b \<and> b \<le> 0xEF then Some (2, 0x80, 0xBF)
      else if b = 0xF0 then Some (3, 0x90, 0xBF)
      else if b = 0xF4 then Some (3, 0x80, 0x8F)
      else if 0xF1 \<le> b \<and> b \<le> 0xF3 then Some (3, 0x80, 0xBF)
      else None)"

primrec escapes :: "nat \<Rightarrow> nat \<Rightarrow> nat \<Rightarrow> string \<Rightarrow> (string \<times> string) option" where
  "escapes 0 lo hi s = Some ([], s)"
| "escapes (Suc n) lo hi s =
     (case escape s of
        None \<Rightarrow> None
      | Some (b, rest) \<Rightarrow>
          if lo \<le> b \<and> b \<le> hi
          then map_option (\<lambda>(cs, r). (char_of b # cs, r)) (escapes n 0x80 0xBF rest)
          else None)"

lemma escape_shorter: "escape s = Some (b, r) \<Longrightarrow> length r < length s"
  by (auto simp: escape_def split: list.splits if_splits option.splits)

lemma escapes_shorter: "escapes n lo hi s = Some (cs, r) \<Longrightarrow> length r \<le> length s"
  by (induction n arbitrary: lo hi s cs r)
    (fastforce split: option.splits if_splits dest: escape_shorter)+

text \<open>\<^verbatim>\<open>decodeURIComponent\<close>; \<open>None\<close> is its \<^verbatim>\<open>URIError\<close>.\<close>

function decodeURIComponent :: "string \<Rightarrow> string option" where
  "decodeURIComponent [] = Some []"
| "decodeURIComponent (c # cs) =
     (if c \<noteq> CHR ''%'' then map_option ((#) c) (decodeURIComponent cs)
      else case escape (c # cs) of
        None \<Rightarrow> None
      | Some (b, rest) \<Rightarrow>
          if b < 0x80 then map_option ((#) (char_of b)) (decodeURIComponent rest)
          else (case utf8_lead b of
              None \<Rightarrow> None
            | Some (n, lo, hi) \<Rightarrow>
                (case escapes n lo hi rest of
                   None \<Rightarrow> None
                 | Some (ds, r) \<Rightarrow> map_option (\<lambda>t. char_of b # ds @ t) (decodeURIComponent r))))"
  by pat_completeness auto
termination
  by (relation "measure length")
    (auto dest!: escape_shorter escapes_shorter)

text \<open>An encoded text holds no separator, and different texts have different encodings.\<close>

lemma hex_capital_set: "n < 16 \<Longrightarrow> hex_capital n \<in> set ''0123456789ABCDEF''"
  unfolding hex_capital_def by (rule nth_mem) simp

lemma percent_safe: "set (percent c) \<subseteq> set ''%0123456789ABCDEF''"
proof -
  have "of_char c < (256 :: nat)" by simp
  then have "of_char c div 16 < (16 :: nat)" by (simp add: div_less_iff_less_mult)
  with hex_capital_set [of "of_char c div 16"] hex_capital_set [of "of_char c mod 16"] show ?thesis
    by (auto simp: percent_def Let_def)
qed

lemma slash_not_unreserved: "\<not> unreserved CHR ''/''"
  by code_simp

lemma percent_not_unreserved: "\<not> unreserved CHR ''%''"
  by code_simp

lemma encode_Cons: "encodeURIComponent (c # s) = (if unreserved c then [c] else percent c) @ encodeURIComponent s"
  by (simp add: encodeURIComponent_def)

lemma encode_no_slash: "CHR ''/'' \<notin> set (encodeURIComponent s)"
proof (induction s)
  case (Cons c s)
  then show ?case using percent_safe [of c] slash_not_unreserved by (auto simp: encode_Cons)
qed (simp add: encodeURIComponent_def)

lemma hex_capital_value: "n < 16 \<Longrightarrow> hex_value (hex_capital n) = Some n"
proof -
  have "list_all (\<lambda>n. hex_value (hex_capital n) = Some n) [0..<16]" by code_simp
  then show "n < 16 \<Longrightarrow> hex_value (hex_capital n) = Some n"
    by (simp add: list_all_iff)
qed

lemma escape_percent: "escape (percent c @ s) = Some (of_char c, s)"
proof -
  have "of_char c < (256 :: nat)" by simp
  then have "of_char c div 16 < (16 :: nat)" by (simp add: div_less_iff_less_mult)
  then show ?thesis by (simp add: escape_def percent_def Let_def hex_capital_value)
qed

lemma percent_inj:
  assumes "percent c @ s = percent d @ t"
  shows "c = d \<and> s = t"
proof -
  have "Some (of_char c :: nat, s) = Some (of_char d, t)"
    using escape_percent [of c s] escape_percent [of d t] assms by (simp only: option.inject)
  then show ?thesis by simp
qed

lemma encode_ne: "c \<noteq> [] \<Longrightarrow> encodeURIComponent c \<noteq> []"
  by (cases c) (auto simp: encode_Cons percent_def Let_def)

lemma encode_inj: "encodeURIComponent s = encodeURIComponent t \<longleftrightarrow> s = t"
proof
  show "encodeURIComponent s = encodeURIComponent t \<Longrightarrow> s = t"
  proof (induction s arbitrary: t)
    case Nil
    then show ?case using encode_ne [of t] by (auto simp: encodeURIComponent_def)
  next
    case (Cons c s)
    then obtain d u where t: "t = d # u" using encode_ne [of "c # s"] by (cases t) (auto simp: encodeURIComponent_def)
    have p: "percent x = CHR ''%'' # tl (percent x)" for x by (simp add: percent_def Let_def)
    have "c = d \<and> encodeURIComponent s = encodeURIComponent u"
    proof (cases "unreserved c \<longleftrightarrow> unreserved d")
      case True
      then show ?thesis using Cons.prems by (auto simp: t encode_Cons dest: percent_inj split: if_splits)
    next
      case False
      then show ?thesis using Cons.prems percent_not_unreserved p [of c] p [of d]
        by (auto simp: t encode_Cons split: if_splits) (metis list.inject append_Cons)+
    qed
    with Cons.IH [of u] show ?case by (simp add: t)
  qed
qed simp

section \<open>UTF-8 decoding\<close>

text \<open>\<^verbatim>\<open>buffer.toString('utf8')\<close>: a maximal part of a sequence that is not UTF-8 becomes U+FFFD.\<close>

primrec continuation :: "nat \<Rightarrow> nat \<Rightarrow> nat \<Rightarrow> bytes \<Rightarrow> bytes \<times> bool" where
  "continuation 0 lo hi bs = ([], True)"
| "continuation (Suc n) lo hi bs =
     (case bs of
        [] \<Rightarrow> ([], False)
      | b # rest \<Rightarrow>
          if lo \<le> unat b \<and> unat b \<le> hi
          then (let (cs, whole) = continuation n 0x80 0xBF rest in (b # cs, whole))
          else ([], False))"

definition REPLACEMENT :: bytes where
  "REPLACEMENT = [0xEF, 0xBF, 0xBD]"

function utf8_decode :: "bytes \<Rightarrow> string" where
  "utf8_decode [] = []"
| "utf8_decode (b # bs) =
     (if unat b < 0x80 then char_of (unat b) # utf8_decode bs
      else case utf8_lead (unat b) of
        None \<Rightarrow> bytes_text REPLACEMENT @ utf8_decode bs
      | Some (n, lo, hi) \<Rightarrow>
          (let (cs, whole) = continuation n lo hi bs
           in (if whole then bytes_text (b # cs) else bytes_text REPLACEMENT) @
              utf8_decode (drop (length cs) bs)))"
  by pat_completeness auto
termination by (relation "measure length") auto

definition ascii :: "string \<Rightarrow> bool" where
  "ascii s \<longleftrightarrow> list_all (\<lambda>c. (of_char c :: nat) < 128) s"

lemma ascii_simps [simp]: "ascii []" "ascii (c # s) \<longleftrightarrow> (of_char c :: nat) < 128 \<and> ascii s"
  "ascii (s @ t) \<longleftrightarrow> ascii s \<and> ascii t"
  by (simp_all add: ascii_def)

lemma utf8_decode_ascii: "ascii s \<Longrightarrow> utf8_decode (text_bytes s) = s"
  by (induction s) (auto simp: text_bytes_def unat_byte_of_nat)

section \<open>Maps and the contract of a store\<close>

text \<open>\<^verbatim>\<open>Map\<close>: entries in insertion order; \<^verbatim>\<open>set\<close> of a present key keeps its place.\<close>

type_synonym ('k, 'v) js_map = "('k \<times> 'v) list"

definition map_get :: "('k, 'v) js_map \<Rightarrow> 'k \<Rightarrow> 'v option" where
  "map_get m k = map_of m k"

definition map_set :: "'k \<Rightarrow> 'v \<Rightarrow> ('k, 'v) js_map \<Rightarrow> ('k, 'v) js_map" where
  "map_set k v m = AList.update k v m"

definition map_del :: "'k \<Rightarrow> ('k, 'v) js_map \<Rightarrow> ('k, 'v) js_map" where
  "map_del k m = AList.delete k m"

datatype ('k, 'v) batch_op = Put 'k 'v | Del 'k

fun op_key :: "('k, 'v) batch_op \<Rightarrow> 'k" where
  "op_key (Put k v) = k"
| "op_key (Del k) = k"

fun op_value :: "('k, 'v) batch_op \<Rightarrow> 'v option" where
  "op_value (Put k v) = Some v"
| "op_value (Del k) = None"

text \<open>
  The laws of a store: what a lookup returns after an insertion of a value the store can hold
  or a deletion.  \<open>batch\<close> applies operations in order.
\<close>

locale kv_store =
  fixes get :: "'m \<Rightarrow> 'k \<Rightarrow> 'v option"
    and put :: "'k \<Rightarrow> 'v \<Rightarrow> 'm \<Rightarrow> 'm"
    and del :: "'k \<Rightarrow> 'm \<Rightarrow> 'm"
    and holds :: "'v \<Rightarrow> bool"
  assumes get_put: "holds v \<Longrightarrow> get (put k v m) k' = (if k' = k then Some v else get m k')"
    and get_del: "get (del k m) k' = (if k' = k then None else get m k')"
begin

definition run :: "('k, 'v) batch_op \<Rightarrow> 'm \<Rightarrow> 'm" where
  "run ope = (case ope of Put k v \<Rightarrow> put k v | Del k \<Rightarrow> del k)"

definition batch :: "('k, 'v) batch_op list \<Rightarrow> 'm \<Rightarrow> 'm" where
  "batch opes m = fold run opes m"

definition storable :: "('k, 'v) batch_op \<Rightarrow> bool" where
  "storable ope \<longleftrightarrow> (\<forall>v. op_value ope = Some v \<longrightarrow> holds v)"

lemma get_run: "storable x \<Longrightarrow> get (run x m) k = (if op_key x = k then op_value x else get m k)"
  by (cases x) (auto simp: run_def storable_def get_put get_del)

text \<open>A batch decides a key by its last operation on it and leaves the others alone.\<close>

lemma get_batch: "list_all storable opes \<Longrightarrow> get (batch opes m) k =
    (case find (\<lambda>x. op_key x = k) (rev opes) of Some x \<Rightarrow> op_value x | None \<Rightarrow> get m k)"
proof (induction opes rule: rev_induct)
  case (snoc x opes)
  then show ?case by (auto simp: batch_def get_run)
qed (simp add: batch_def)

lemma get_batch_untouched: "list_all storable opes \<Longrightarrow> k \<notin> op_key ` set opes \<Longrightarrow> get (batch opes m) k = get m k"
proof -
  assume s: "list_all storable opes" and "k \<notin> op_key ` set opes"
  then have "find (\<lambda>x. op_key x = k) (rev opes) = None" by (auto simp: find_None_iff)
  with s show ?thesis by (simp add: get_batch)
qed

lemma batch_append: "batch (xs @ ys) m = batch ys (batch xs m)"
  by (simp add: batch_def)

end

interpretation jsmap: kv_store map_get map_set map_del "\<lambda>_. True"
  by unfold_locales (simp_all add: map_get_def map_set_def map_del_def update_conv' delete_conv)

lemma map_set_new: "map_get m k = None \<Longrightarrow> map_set k v m = m @ [(k, v)]"
  unfolding map_get_def map_set_def by (induction m) auto

lemma map_get_set [simp]: "map_get (map_set k v m) k' = (if k' = k then Some v else map_get m k')"
  by (simp add: jsmap.get_put)

lemma map_get_del [simp]: "map_get (map_del k m) k' = (if k' = k then None else map_get m k')"
  by (rule jsmap.get_del)

lemma map_get_Nil [simp]: "map_get [] k = None"
  by (simp add: map_get_def)

end
