(* ===== verification/Relay.thy ===== *)
theory Relay
  imports JsText
begin

text \<open>
  \<^verbatim>\<open>local-services/server.js\<close>: the local relay and registry.  A request is what Node's HTTP
  and URL parsers deliver; a handler takes the tables of the process to new tables, the
  messages sent to web sockets, and a response or an exception, which \<open>safeHandler\<close> turns into
  one.  Protocol buffers, elliptic curve keys and transactions are the fields of \<open>relay_env\<close>.
\<close>


section \<open>Messages and requests\<close>

text \<open>A relay message; \<open>msg_rest\<close> stands for the fields the relay only passes on, \<open>msg_stamp\<close> has
  the transactions of the stamp with the output indices it claims.\<close>

record message =
  destinationPublicKey :: bytes
  payload :: bytes
  payloadDigest :: bytes
  receivedTime :: int
  msg_stamp :: "(bytes \<times> nat list) list option"
  msg_rest :: bytes

text \<open>A JavaScript number, as far as it is compared with integers: \<open>Dyadic m k\<close> is \<open>m * 2 ^ k\<close>.\<close>

datatype number = NaN | Infinite bool | Dyadic int int

fun num_le :: "number \<Rightarrow> int \<Rightarrow> bool" where
  "num_le NaN t = False"
| "num_le (Infinite positive) t = (\<not> positive)"
| "num_le (Dyadic m k) t = (if 0 \<le> k then m * 2 ^ nat k \<le> t else m \<le> t * 2 ^ nat (- k))"

fun num_ge :: "number \<Rightarrow> int \<Rightarrow> bool" where
  "num_ge NaN t = False"
| "num_ge (Infinite positive) t = positive"
| "num_ge (Dyadic m k) t = (if 0 \<le> k then m * 2 ^ nat k \<ge> t else m \<ge> t * 2 ^ nat (- k))"

fun num_truthy :: "number \<Rightarrow> bool" where
  "num_truthy NaN = False"
| "num_truthy (Infinite positive) = True"
| "num_truthy (Dyadic m k) = (m \<noteq> 0)"

definition MAX_SAFE_INTEGER :: number where
  "MAX_SAFE_INTEGER = Dyadic (2 ^ 53 - 1) 0"

record request =
  rq_method :: string
  rq_path :: string
  rq_query :: "(string \<times> string) list"
  rq_auth :: "string option"
  rq_body :: "bytes list"

definition search_param :: "request \<Rightarrow> string \<Rightarrow> string option" where
  "search_param req name = map_of (rq_query req) name"

text \<open>\<^verbatim>\<open>searchParams.get(name) || ''\<close>.\<close>

definition param_or_empty :: "request \<Rightarrow> string \<Rightarrow> string" where
  "param_or_empty req name = (case search_param req name of None \<Rightarrow> [] | Some v \<Rightarrow> v)"

record page =
  pg_messages :: "message list"
  pg_start_time :: int
  pg_end_time :: int
  pg_start_digest :: bytes
  pg_end_digest :: bytes

datatype body = Raw bytes | Text string | Health string "(string \<times> nat) list" | ErrorText js_error

record response =
  rs_status :: nat
  rs_body :: body

text \<open>
  What the services call outside their file.  \<open>stampKey\<close> is the key derived from a payload
  digest and a destination key (\<^verbatim>\<open>HDPublicKey\<close> derived along \<^verbatim>\<open>44/145\<close>), \<open>deriveChild\<close> its children,
  \<open>keyAddress\<close> the address bytes of a derived key, and \<open>txOutputs\<close> the outputs of a parsed
  transaction with the address bytes of their script.
\<close>

record ('hd, 'item) relay_env =
  TOKEN :: string
  to_Number :: "string \<Rightarrow> number"
  sha256 :: "bytes \<Rightarrow> bytes"
  addressFromPubKey :: "bytes \<Rightarrow> string res"
  stampKey :: "bytes \<Rightarrow> bytes \<Rightarrow> 'hd res"
  deriveChild :: "'hd \<Rightarrow> nat \<Rightarrow> 'hd res"
  keyAddress :: "'hd \<Rightarrow> bytes res"
  txOutputs :: "bytes \<Rightarrow> (bytes res \<times> nat) list res"
  parseMessageSet :: "bytes \<Rightarrow> message list res"
  printMessage :: "message \<Rightarrow> bytes"
  printPage :: "page \<Rightarrow> bytes"
  parseSigned :: "bytes \<Rightarrow> 'item res"
  itemPayload :: "'item \<Rightarrow> bytes"
  printItem :: "'item \<Rightarrow> bytes"
  printItems :: "'item list \<Rightarrow> bytes"
  socketOpen :: "nat \<Rightarrow> bool"

section \<open>The tables of the process\<close>

record 'item server =
  profiles :: "(string, bytes) js_map"
  mailboxes :: "(string, message list) js_map"
  payloads :: "(string, bytes) js_map"
  registryKeys :: "(string, bytes) js_map"
  forumMessages :: "(string, 'item) js_map"
  sockets :: "(string, nat list) js_map"

definition fresh_server :: "'item server" where
  "fresh_server = \<lparr>profiles = [], mailboxes = [], payloads = [], registryKeys = [],
     forumMessages = [], sockets = []\<rparr>"

text \<open>An exception carries the \<^verbatim>\<open>statusCode\<close> it was given, if any.\<close>

type_synonym failure = "nat option \<times> js_error"
type_synonym sent = "(nat \<times> bytes) list"
type_synonym 'item reply = "'item server \<times> sent \<times> (failure + response)"

definition send :: "'item server \<Rightarrow> nat \<Rightarrow> body \<Rightarrow> 'item reply" where
  "send s status b = (s, [], Inr \<lparr>rs_status = status, rs_body = b\<rparr>)"

definition throw :: "'item server \<Rightarrow> js_error \<Rightarrow> 'item reply" where
  "throw s err = (s, [], Inl (None, err))"

section \<open>Reading requests\<close>

definition MAX_PROFILE_BYTES :: nat where "MAX_PROFILE_BYTES = 2 * 1024 * 1024"
definition MAX_MESSAGE_SET_BYTES :: nat where "MAX_MESSAGE_SET_BYTES = 8 * 1024 * 1024"
definition MAX_REGISTRY_BYTES :: nat where "MAX_REGISTRY_BYTES = 2 * 1024 * 1024"
definition MAX_FORUM_BYTES :: nat where "MAX_FORUM_BYTES = 2 * 1024 * 1024"

definition isAuthorized :: "('hd, 'item) relay_env \<Rightarrow> request \<Rightarrow> bool" where
  "isAuthorized P req \<longleftrightarrow> rq_auth req = Some (TOKEN P) \<or> search_param req ''access_token'' = Some (TOKEN P)"

text \<open>The chunks of the body arrive one after the other; the first one that exceeds the limit
  rejects the request.\<close>

fun read_chunks_from :: "nat \<Rightarrow> bytes \<Rightarrow> bytes list \<Rightarrow> failure + bytes" where
  "read_chunks_from maxBytes acc [] = Inr acc"
| "read_chunks_from maxBytes acc (c # cs) =
     (if length acc + length c > maxBytes then Inl (Some 413, PlainError ''request too large'')
      else read_chunks_from maxBytes (acc @ c) cs)"

definition readBody :: "request \<Rightarrow> nat \<Rightarrow> failure + bytes" where
  "readBody req maxBytes = read_chunks_from maxBytes [] (rq_body req)"

definition with_body :: "request \<Rightarrow> nat \<Rightarrow> 'item server \<Rightarrow> (bytes \<Rightarrow> 'item reply) \<Rightarrow> 'item reply" where
  "with_body req maxBytes s f = (case readBody req maxBytes of Inl e \<Rightarrow> (s, [], Inl e) | Inr raw \<Rightarrow> f raw)"

definition parsed :: "'item server \<Rightarrow> 'a res \<Rightarrow> ('a \<Rightarrow> 'item reply) \<Rightarrow> 'item reply" where
  "parsed s m f = (case m of Inl e \<Rightarrow> throw s e | Inr x \<Rightarrow> f x)"

definition normalizeAddress :: "string \<Rightarrow> string" where
  "normalizeAddress raw = (case decodeURIComponent raw of None \<Rightarrow> raw | Some s \<Rightarrow> s)"

definition path_parts :: "request \<Rightarrow> string list" where
  "path_parts req = filter (\<lambda>p. p \<noteq> []) (split_on CHR ''/'' (rq_path req))"

definition path_address :: "string list \<Rightarrow> string" where
  "path_address ps = normalizeAddress (join_with ''/'' ps)"

definition payload_key :: "string \<Rightarrow> string \<Rightarrow> string" where
  "payload_key address digest = address @ '':'' @ digest"

section \<open>Validation\<close>

text \<open>The digest and the message, whose digest is filled in.\<close>

definition verifyMessageEnvelope ::
  "('hd, 'item) relay_env \<Rightarrow> message \<Rightarrow> string \<Rightarrow> (string \<times> message) res" where
  "verifyMessageEnvelope P m destinationAddress =
     (if destinationPublicKey m = [] then Inl (PlainError ''missing destination public key'')
      else rbind (addressFromPubKey P (destinationPublicKey m)) (\<lambda>a.
        if a \<noteq> destinationAddress
        then Inl (PlainError ''destination address does not match message public key'')
        else if payload m \<noteq> [] \<and> payloadDigest m \<noteq> [] \<and> sha256 P (payload m) \<noteq> payloadDigest m
        then Inl (PlainError ''payload digest mismatch'')
        else let m' = (if payload m \<noteq> [] \<and> payloadDigest m = []
                       then m\<lparr>payloadDigest := sha256 P (payload m)\<rparr> else m)
             in Inr (to_hex (payloadDigest m'), m')))"

text \<open>The outputs of one stamp transaction: the running total and count.\<close>

fun stamp_outputs ::
  "('hd, 'item) relay_env \<Rightarrow> 'hd \<Rightarrow> (bytes res \<times> nat) list \<Rightarrow> nat \<Rightarrow> nat list \<Rightarrow> nat \<times> nat \<Rightarrow> (nat \<times> nat) res" where
  "stamp_outputs P txKey outs ordinal [] acc = Inr acc"
| "stamp_outputs P txKey outs ordinal (vout # vouts) (tot, n) =
     (if vout \<ge> length outs then Inl (PlainError ''stamp output index out of range'')
      else rbind (deriveChild P txKey ordinal) (\<lambda>derived.
        rbind (keyAddress P derived) (\<lambda>expected.
        rbind (fst (outs ! vout)) (\<lambda>actual.
          if actual \<noteq> expected
          then Inl (PlainError ''stamp output does not match recipient commitment'')
          else stamp_outputs P txKey outs (Suc ordinal) vouts (tot + snd (outs ! vout), n + 1)))))"

fun stamp_txs ::
  "('hd, 'item) relay_env \<Rightarrow> 'hd \<Rightarrow> nat \<Rightarrow> (bytes \<times> nat list) list \<Rightarrow> nat \<times> nat \<Rightarrow> (nat \<times> nat) res" where
  "stamp_txs P key txIndex [] acc = Inr acc"
| "stamp_txs P key txIndex ((tx, vouts) # rest) acc =
     rbind (txOutputs P tx) (\<lambda>outs.
     rbind (deriveChild P key txIndex) (\<lambda>txKey.
     rbind (stamp_outputs P txKey outs 0 vouts acc) (\<lambda>acc'.
       stamp_txs P key (Suc txIndex) rest acc')))"

definition verifyStampCommitment :: "('hd, 'item) relay_env \<Rightarrow> message \<Rightarrow> (nat \<times> nat) res" where
  "verifyStampCommitment P m =
     (case msg_stamp m of
        None \<Rightarrow> Inr (0, 0)
      | Some [] \<Rightarrow> Inr (0, 0)
      | Some txs \<Rightarrow>
          rbind (stampKey P (payloadDigest m) (destinationPublicKey m)) (\<lambda>key. stamp_txs P key 0 txs (0, 0)))"

section \<open>Delivery\<close>

definition messagePage :: "message list \<Rightarrow> page" where
  "messagePage ms =
     (if ms = [] then \<lparr>pg_messages = [], pg_start_time = 0, pg_end_time = 0, pg_start_digest = [], pg_end_digest = []\<rparr>
      else \<lparr>pg_messages = ms, pg_start_time = receivedTime (hd ms), pg_end_time = receivedTime (last ms),
            pg_start_digest = payloadDigest (hd ms), pg_end_digest = payloadDigest (last ms)\<rparr>)"

definition notifyMailbox :: "('hd, 'item) relay_env \<Rightarrow> 'item server \<Rightarrow> string \<Rightarrow> message \<Rightarrow> sent" where
  "notifyMailbox P s address m =
     (case map_get (sockets s) address of
        None \<Rightarrow> []
      | Some clients \<Rightarrow> map (\<lambda>ws. (ws, printMessage P m)) (filter (socketOpen P) clients))"

text \<open>What the loop over the incoming messages has changed so far.\<close>

record delivery =
  dl_payloads :: "(string, bytes) js_map"
  dl_mailbox :: "message list"
  dl_sent :: sent

text \<open>\<open>clock i\<close> is \<^verbatim>\<open>Date.now()\<close> for the \<open>i\<close>th message.  An exception leaves what was done before it.\<close>

fun deliver ::
  "('hd, 'item) relay_env \<Rightarrow> 'item server \<Rightarrow> string \<Rightarrow> (nat \<Rightarrow> int) \<Rightarrow> nat \<Rightarrow> message list \<Rightarrow> delivery \<Rightarrow>
     js_error option \<times> delivery" where
  "deliver P s address clock i [] d = (None, d)"
| "deliver P s address clock i (m # ms) d =
     (case verifyMessageEnvelope P m address of
        Inl e \<Rightarrow> (Some e, d)
      | Inr (digest, m1) \<Rightarrow>
        (case verifyStampCommitment P m1 of
           Inl e \<Rightarrow> (Some e, d)
         | Inr stamp \<Rightarrow>
           let m2 = m1\<lparr>receivedTime := clock i\<rparr>;
               d1 = (if digest \<noteq> [] \<and> payload m2 \<noteq> []
                     then d\<lparr>dl_payloads := map_set (payload_key address digest) (payload m2) (dl_payloads d)\<rparr>
                     else d);
               found = list_ex (\<lambda>x. payloadDigest x = payloadDigest m2) (dl_mailbox d)
           in deliver P s address clock (Suc i) ms
                (if found then d1
                 else d1\<lparr>dl_mailbox := dl_mailbox d1 @ [m2],
                        dl_sent := dl_sent d1 @ notifyMailbox P s address m2\<rparr>)))"

text \<open>
  \<^verbatim>\<open>mailbox\<close> is the stored array itself if there is one, so what was pushed before an exception
  stays; a new array is only stored at the end.
\<close>

definition put_messages ::
  "('hd, 'item) relay_env \<Rightarrow> (nat \<Rightarrow> int) \<Rightarrow> string \<Rightarrow> message list \<Rightarrow> 'item server \<Rightarrow> 'item reply" where
  "put_messages P clock address incoming s =
     (let d0 = \<lparr>dl_payloads = payloads s,
               dl_mailbox = (case map_get (mailboxes s) address of None \<Rightarrow> [] | Some ms \<Rightarrow> ms), dl_sent = []\<rparr>
      in case deliver P s address clock 0 incoming d0 of
           (Some e, d) \<Rightarrow>
             (s\<lparr>payloads := dl_payloads d,
               mailboxes := (if map_get (mailboxes s) address = None then mailboxes s
                             else map_set address (dl_mailbox d) (mailboxes s))\<rparr>,
              dl_sent d, Inl (None, e))
         | (None, d) \<Rightarrow>
             (s\<lparr>payloads := dl_payloads d, mailboxes := map_set address (dl_mailbox d) (mailboxes s)\<rparr>,
              dl_sent d, Inr \<lparr>rs_status = 204, rs_body = Raw []\<rparr>))"

text \<open>The preflight loop.\<close>

fun validate_messages :: "('hd, 'item) relay_env \<Rightarrow> string \<Rightarrow> message list \<Rightarrow> js_error option" where
  "validate_messages P address [] = None"
| "validate_messages P address (m # ms) =
     (case verifyMessageEnvelope P m address of
        Inl e \<Rightarrow> Some e
      | Inr (digest, m1) \<Rightarrow>
        (case verifyStampCommitment P m1 of Inl e \<Rightarrow> Some e | Inr stamp \<Rightarrow> validate_messages P address ms))"

section \<open>Handlers\<close>

definition health :: "string \<Rightarrow> (string \<times> nat) list \<Rightarrow> 'item server \<Rightarrow> 'item reply" where
  "health service counts s = send s 200 (Health service counts)"

text \<open>\<^verbatim>\<open>raw ? send(200, raw) : send(404)\<close>; a buffer is true even when it is empty.\<close>

definition found_or_404 :: "'item server \<Rightarrow> bytes option \<Rightarrow> 'item reply" where
  "found_or_404 s raw = (case raw of None \<Rightarrow> send s 404 (Raw []) | Some b \<Rightarrow> send s 200 (Raw b))"

definition not_found :: "'item server \<Rightarrow> 'item reply" where
  "not_found s = send s 404 (Raw [])"

definition put_profile :: "('hd, 'item) relay_env \<Rightarrow> request \<Rightarrow> string \<Rightarrow> 'item server \<Rightarrow> 'item reply" where
  "put_profile P req address s =
     (if \<not> isAuthorized P req then send s 401 (Raw [])
      else with_body req MAX_PROFILE_BYTES s (\<lambda>raw.
        parsed s (parseSigned P raw) (\<lambda>_.
          send (s\<lparr>profiles := map_set address raw (profiles s)\<rparr>) 204 (Raw []))))"

definition validate_handler :: "('hd, 'item) relay_env \<Rightarrow> request \<Rightarrow> string \<Rightarrow> 'item server \<Rightarrow> 'item reply" where
  "validate_handler P req address s =
     with_body req MAX_MESSAGE_SET_BYTES s (\<lambda>raw.
       parsed s (parseMessageSet P raw) (\<lambda>incoming.
         if incoming = [] then send s 400 (Text ''empty message set'')
         else case validate_messages P address incoming of
           Some e \<Rightarrow> throw s e
         | None \<Rightarrow> send s 204 (Raw [])))"

definition number_param :: "('hd, 'item) relay_env \<Rightarrow> request \<Rightarrow> string \<Rightarrow> number \<Rightarrow> number" where
  "number_param P req name dflt = (case param_or_empty req name of [] \<Rightarrow> dflt | v \<Rightarrow> to_Number P v)"

definition get_messages :: "('hd, 'item) relay_env \<Rightarrow> request \<Rightarrow> string \<Rightarrow> 'item server \<Rightarrow> 'item reply" where
  "get_messages P req address s =
     (if \<not> isAuthorized P req then send s 401 (Raw [])
      else let start = number_param P req ''start_time'' (Dyadic 0 0);
               stop = number_param P req ''end_time'' MAX_SAFE_INTEGER;
               mailbox = (case map_get (mailboxes s) address of None \<Rightarrow> [] | Some ms \<Rightarrow> ms);
               selected = filter (\<lambda>m. num_le start (receivedTime m) \<and> num_ge stop (receivedTime m)) mailbox
      in send s 200 (Raw (printPage P (messagePage selected))))"

definition put_handler ::
  "('hd, 'item) relay_env \<Rightarrow> (nat \<Rightarrow> int) \<Rightarrow> request \<Rightarrow> string \<Rightarrow> 'item server \<Rightarrow> 'item reply" where
  "put_handler P clock req address s =
     with_body req MAX_MESSAGE_SET_BYTES s (\<lambda>raw.
       parsed s (parseMessageSet P raw) (\<lambda>incoming.
         if incoming = [] then send s 400 (Text ''empty message set'')
         else put_messages P clock address incoming s))"

definition delete_handler :: "('hd, 'item) relay_env \<Rightarrow> request \<Rightarrow> string \<Rightarrow> 'item server \<Rightarrow> 'item reply" where
  "delete_handler P req address s =
     (if \<not> isAuthorized P req then send s 401 (Raw [])
      else let digest = param_or_empty req ''digest'';
               mailbox = (case map_get (mailboxes s) address of None \<Rightarrow> [] | Some ms \<Rightarrow> ms)
      in send (s\<lparr>mailboxes := map_set address (filter (\<lambda>m. to_hex (payloadDigest m) \<noteq> digest) mailbox) (mailboxes s),
               payloads := map_del (payload_key address digest) (payloads s)\<rparr>) 204 (Raw []))"

definition get_payload :: "('hd, 'item) relay_env \<Rightarrow> request \<Rightarrow> string \<Rightarrow> 'item server \<Rightarrow> 'item reply" where
  "get_payload P req address s =
     (if \<not> isAuthorized P req then send s 401 (Raw [])
      else found_or_404 s (map_get (payloads s) (payload_key address (param_or_empty req ''digest''))))"

text \<open>The relay's routes in the order the handler tries them.\<close>

definition relayHandler :: "('hd, 'item) relay_env \<Rightarrow> (nat \<Rightarrow> int) \<Rightarrow> request \<Rightarrow> 'item server \<Rightarrow> 'item reply" where
  "relayHandler P clock req s =
     (let parts = path_parts req; first = nth_opt parts 0; meth = rq_method req
      in if meth = ''OPTIONS'' then send s 204 (Raw [])
      else if meth = ''GET'' \<and> rq_path req = ''/health''
      then health ''finney-local-relay''
             [(''profiles'', length (profiles s)), (''mailboxes'', length (mailboxes s))] s
      else if first = Some ''profiles'' \<and> length parts > 1 \<and> meth = ''GET''
      then found_or_404 s (map_get (profiles s) (path_address (tl parts)))
      else if first = Some ''profiles'' \<and> length parts > 1 \<and> meth = ''PUT''
      then put_profile P req (path_address (tl parts)) s
      else if first = Some ''validate'' \<and> nth_opt parts 1 = Some ''messages'' \<and> length parts > 2 \<and> meth = ''PUT''
      then validate_handler P req (path_address (drop 2 parts)) s
      else if first = Some ''messages'' \<and> length parts > 1 \<and> meth = ''GET''
      then get_messages P req (path_address (tl parts)) s
      else if first = Some ''messages'' \<and> length parts > 1 \<and> meth = ''PUT''
      then put_handler P clock req (path_address (tl parts)) s
      else if first = Some ''messages'' \<and> length parts > 1 \<and> meth = ''DELETE''
      then delete_handler P req (path_address (tl parts)) s
      else if first = Some ''payloads'' \<and> length parts > 1 \<and> meth = ''GET''
      then get_payload P req (path_address (tl parts)) s
      else not_found s)"

section \<open>The registry\<close>

definition put_key :: "('hd, 'item) relay_env \<Rightarrow> request \<Rightarrow> string \<Rightarrow> 'item server \<Rightarrow> 'item reply" where
  "put_key P req address s =
     (if \<not> isAuthorized P req then send s 401 (Raw [])
      else with_body req MAX_REGISTRY_BYTES s (\<lambda>raw.
        parsed s (parseSigned P raw) (\<lambda>_.
          send (s\<lparr>registryKeys := map_set address raw (registryKeys s)\<rparr>) 204 (Raw []))))"

definition forum_list :: "('hd, 'item) relay_env \<Rightarrow> request \<Rightarrow> 'item server \<Rightarrow> 'item reply" where
  "forum_list P req s =
     (let from = number_param P req ''from'' (Dyadic 0 0);
          to = number_param P req ''to'' MAX_SAFE_INTEGER;
          topic = param_or_empty req ''topic''
      in send s 200 (Raw (printItems P
           (filter (\<lambda>item. topic \<noteq> [] \<or> num_truthy from \<or> num_truthy to) (map snd (forumMessages s))))))"

definition put_forum :: "('hd, 'item) relay_env \<Rightarrow> request \<Rightarrow> 'item server \<Rightarrow> 'item reply" where
  "put_forum P req s =
     with_body req MAX_FORUM_BYTES s (\<lambda>raw.
       parsed s (parseSigned P raw) (\<lambda>item.
         let digest = to_hex (sha256 P (if itemPayload P item \<noteq> [] then itemPayload P item else raw))
         in send (s\<lparr>forumMessages := map_set digest item (forumMessages s)\<rparr>) 204 (Raw [])))"

definition registryHandler :: "('hd, 'item) relay_env \<Rightarrow> request \<Rightarrow> 'item server \<Rightarrow> 'item reply" where
  "registryHandler P req s =
     (let parts = path_parts req; first = nth_opt parts 0; meth = rq_method req
      in if meth = ''OPTIONS'' then send s 204 (Raw [])
      else if meth = ''GET'' \<and> rq_path req = ''/health''
      then health ''finney-local-registry''
             [(''keys'', length (registryKeys s)), (''forumMessages'', length (forumMessages s))] s
      else if first = Some ''keys'' \<and> length parts > 1 \<and> meth = ''GET''
      then found_or_404 s (map_get (registryKeys s) (path_address (tl parts)))
      else if first = Some ''keys'' \<and> length parts > 1 \<and> meth = ''PUT''
      then put_key P req (path_address (tl parts)) s
      else if first = Some ''messages'' \<and> length parts = 1 \<and> meth = ''GET'' then forum_list P req s
      else if first = Some ''messages'' \<and> length parts = 1 \<and> meth = ''PUT'' then put_forum P req s
      else if first = Some ''messages'' \<and> length parts > 1 \<and> meth = ''GET''
      then found_or_404 s (map_option (printItem P) (map_get (forumMessages s) (parts ! 1)))
      else not_found s)"

text \<open>\<^verbatim>\<open>safeHandler\<close> answers an exception with its status, or 400, and its message.\<close>

definition safeHandler :: "'item reply \<Rightarrow> 'item server \<times> sent \<times> response" where
  "safeHandler r =
     (case r of (s, out, answer) \<Rightarrow>
        (s, out, case answer of
           Inr resp \<Rightarrow> resp
         | Inl (status, err) \<Rightarrow>
             \<lparr>rs_status = (case status of None \<Rightarrow> 400 | Some n \<Rightarrow> n), rs_body = ErrorText err\<rparr>))"

section \<open>Web sockets\<close>

text \<open>The upgrade; \<open>None\<close> is the refusal with status 401.\<close>

definition ws_upgrade :: "('hd, 'item) relay_env \<Rightarrow> request \<Rightarrow> string option" where
  "ws_upgrade P req =
     (let parts = path_parts req
      in if nth_opt parts 0 \<noteq> Some ''ws'' \<or> length parts < 2 \<or> \<not> isAuthorized P req then None
         else Some (path_address (tl parts)))"

definition ws_connection :: "nat \<Rightarrow> string \<Rightarrow> 'item server \<Rightarrow> 'item server" where
  "ws_connection ws address s =
     s\<lparr>sockets := map_set address
        (case map_get (sockets s) address of None \<Rightarrow> [ws]
         | Some clients \<Rightarrow> if ws \<in> set clients then clients else clients @ [ws]) (sockets s)\<rparr>"

definition ws_close :: "nat \<Rightarrow> string \<Rightarrow> 'item server \<Rightarrow> 'item server" where
  "ws_close ws address s =
     (case map_get (sockets s) address of
        None \<Rightarrow> s
      | Some clients \<Rightarrow>
          let rest = removeAll ws clients
          in s\<lparr>sockets := (if rest = [] then map_del address (sockets s) else map_set address rest (sockets s))\<rparr>)"

end
