(* ===== verification/RelayResults.thy ===== *)
theory RelayResults
  imports Relay
begin

text \<open>
  What the relay keeps and promises: an invariant of its tables over every sequence of
  requests and socket events, the preflight as an exact rehearsal of delivery, safe retries,
  what a request without the token can do, and where a failed delivery and the keys of the
  payload table break the expectation.
\<close>


section \<open>Delivery\<close>

text \<open>The digest a message is stored under.\<close>

definition digest_of :: "('hd, 'item) relay_env \<Rightarrow> message \<Rightarrow> bytes" where
  "digest_of P m = (if payload m \<noteq> [] \<and> payloadDigest m = [] then sha256 P (payload m) else payloadDigest m)"

definition envelope_ok :: "('hd, 'item) relay_env \<Rightarrow> string \<Rightarrow> message \<Rightarrow> bool" where
  "envelope_ok P a m \<longleftrightarrow> addressFromPubKey P (destinationPublicKey m) = Inr a \<and>
     (payload m \<noteq> [] \<longrightarrow> payloadDigest m = sha256 P (payload m)) \<and> isOk (verifyStampCommitment P m)"

lemma verifyMessageEnvelope_Inr:
  assumes "verifyMessageEnvelope P m a = Inr (d, m1)"
  shows "d = to_hex (digest_of P m) \<and> m1 = m\<lparr>payloadDigest := digest_of P m\<rparr> \<and>
    addressFromPubKey P (destinationPublicKey m) = Inr a \<and>
    (payload m \<noteq> [] \<longrightarrow> digest_of P m = sha256 P (payload m))"
  using assms
  by (cases "addressFromPubKey P (destinationPublicKey m)")
    (auto simp: verifyMessageEnvelope_def digest_of_def Let_def split: if_splits)

lemma stamp_receivedTime [simp]:
  "verifyStampCommitment P (m\<lparr>receivedTime := t\<rparr>) = verifyStampCommitment P m"
  by (simp add: verifyStampCommitment_def split: option.splits list.splits)

text \<open>One round of the loop, when it goes on.\<close>

definition stored :: "('hd, 'item) relay_env \<Rightarrow> (nat \<Rightarrow> int) \<Rightarrow> nat \<Rightarrow> message \<Rightarrow> message" where
  "stored P clock i m = m\<lparr>payloadDigest := digest_of P m, receivedTime := clock i\<rparr>"

definition accepted ::
  "('hd, 'item) relay_env \<Rightarrow> 'item server \<Rightarrow> string \<Rightarrow> (nat \<Rightarrow> int) \<Rightarrow> nat \<Rightarrow> message \<Rightarrow> delivery \<Rightarrow> delivery" where
  "accepted P s a clock i m d =
     (let d1 = (if digest_of P m \<noteq> [] \<and> payload m \<noteq> []
                then d\<lparr>dl_payloads := map_set (payload_key a (to_hex (digest_of P m))) (payload m) (dl_payloads d)\<rparr>
                else d)
      in if digest_of P m \<in> payloadDigest ` set (dl_mailbox d) then d1
         else d1\<lparr>dl_mailbox := dl_mailbox d1 @ [stored P clock i m],
                dl_sent := dl_sent d1 @ notifyMailbox P s a (stored P clock i m)\<rparr>)"

definition message_error :: "('hd, 'item) relay_env \<Rightarrow> string \<Rightarrow> message \<Rightarrow> js_error option" where
  "message_error P a m =
     (case verifyMessageEnvelope P m a of
        Inl e \<Rightarrow> Some e
      | Inr (d, m1) \<Rightarrow> (case verifyStampCommitment P m1 of Inl e \<Rightarrow> Some e | Inr st \<Rightarrow> None))"

lemma to_hex_Nil [simp]: "to_hex b = [] \<longleftrightarrow> b = []"
  by (cases b) (simp_all add: to_hex_def)

lemma deliver_Cons: "deliver P s a clock i (m # ms) d =
    (case message_error P a m of
       Some e \<Rightarrow> (Some e, d)
     | None \<Rightarrow> deliver P s a clock (Suc i) ms (accepted P s a clock i m d))"
proof (cases "verifyMessageEnvelope P m a")
  case (Inr r)
  obtain x m1 where r: "verifyMessageEnvelope P m a = Inr (x, m1)" using Inr by (cases r) simp
  note v = verifyMessageEnvelope_Inr [OF r]
  have ex: "list_ex (\<lambda>y. payloadDigest y = q) (dl_mailbox d) \<longleftrightarrow> q \<in> payloadDigest ` set (dl_mailbox d)" for q
    by (auto simp: list_ex_iff)
  show ?thesis
    using v by (auto simp: r message_error_def accepted_def stored_def Let_def ex split: sum.splits)
qed (simp add: message_error_def)

lemma validate_messages_Cons: "validate_messages P a (m # ms) =
    (case message_error P a m of Some e \<Rightarrow> Some e | None \<Rightarrow> validate_messages P a ms)"
  by (auto simp: message_error_def split: sum.splits prod.splits)

declare deliver.simps(2) [simp del] validate_messages.simps(2) [simp del]

lemma message_ok:
  assumes "message_error P a m = None"
  shows "envelope_ok P a (stored P clock i m)"
proof -
  obtain x m1 st where r: "verifyMessageEnvelope P m a = Inr (x, m1)"
    and st: "verifyStampCommitment P m1 = Inr st"
    using assms by (auto simp: message_error_def split: sum.splits prod.splits)
  note v = verifyMessageEnvelope_Inr [OF r]
  have "verifyStampCommitment P (stored P clock i m) = Inr st"
    using st v by (simp add: stored_def)
  then show ?thesis using v by (simp add: envelope_ok_def) (simp add: stored_def)
qed

section \<open>The invariant\<close>

definition mailbox_ok :: "('hd, 'item) relay_env \<Rightarrow> string \<Rightarrow> message list \<Rightarrow> bool" where
  "mailbox_ok P a ms \<longleftrightarrow> distinct (map payloadDigest ms) \<and> list_all (envelope_ok P a) ms"

definition payloads_ok :: "('hd, 'item) relay_env \<Rightarrow> (string, bytes) js_map \<Rightarrow> bool" where
  "payloads_ok P t \<longleftrightarrow> (\<forall>k b. map_get t k = Some b \<longrightarrow> (\<exists>a. k = payload_key a (to_hex (sha256 P b))))"

definition server_ok :: "('hd, 'item) relay_env \<Rightarrow> 'item server \<Rightarrow> bool" where
  "server_ok P s \<longleftrightarrow>
     (\<forall>a ms. map_get (mailboxes s) a = Some ms \<longrightarrow> mailbox_ok P a ms) \<and> payloads_ok P (payloads s) \<and>
     (\<forall>a ws. map_get (sockets s) a = Some ws \<longrightarrow> ws \<noteq> [] \<and> distinct ws)"

lemma accepted_ok:
  assumes "message_error P a m = None" and "mailbox_ok P a (dl_mailbox d)" and "payloads_ok P (dl_payloads d)"
  shows "mailbox_ok P a (dl_mailbox (accepted P s a clock i m d)) \<and>
    payloads_ok P (dl_payloads (accepted P s a clock i m d))"
proof -
  have e: "envelope_ok P a (stored P clock i m)" using assms(1) by (rule message_ok)
  then have "payload m \<noteq> [] \<longrightarrow> digest_of P m = sha256 P (payload m)"
    by (simp add: envelope_ok_def stored_def)
  then have "digest_of P m \<noteq> [] \<and> payload m \<noteq> [] \<Longrightarrow>
      payloads_ok P (map_set (payload_key a (to_hex (digest_of P m))) (payload m) (dl_payloads d))"
    using assms(3) by (auto simp: payloads_ok_def)
  moreover have "payloadDigest (stored P clock i m) = digest_of P m" by (simp add: stored_def)
  ultimately show ?thesis
    using assms(2,3) e by (auto simp: accepted_def mailbox_ok_def Let_def)
qed

lemma deliver_ok:
  "deliver P s a clock i ms d = (r, d') \<Longrightarrow> mailbox_ok P a (dl_mailbox d) \<Longrightarrow> payloads_ok P (dl_payloads d) \<Longrightarrow>
    mailbox_ok P a (dl_mailbox d') \<and> payloads_ok P (dl_payloads d')"
proof (induction ms arbitrary: i d)
  case (Cons m ms)
  show ?case
  proof (cases "message_error P a m")
    case None
    then show ?thesis
      using Cons.IH [of "Suc i" "accepted P s a clock i m d"] Cons.prems
        accepted_ok [OF None Cons.prems(2,3), of s clock i] by (simp add: deliver_Cons)
  next
    case (Some e)
    then show ?thesis using Cons.prems by (simp add: deliver_Cons)
  qed
qed simp

text \<open>A property of the tables that every handler keeps is kept by the routes.\<close>

lemma relay_cases:
  assumes "\<And>n b. Q (send s n b)" and "\<And>a. Q (put_profile P req a s)" and "\<And>a. Q (validate_handler P req a s)"
    and "\<And>a. Q (get_messages P req a s)" and "\<And>a. Q (put_handler P clock req a s)"
    and "\<And>a. Q (delete_handler P req a s)" and "\<And>a. Q (get_payload P req a s)"
  shows "Q (relayHandler P clock req s)"
proof -
  have f: "Q (found_or_404 s r)" for r by (simp add: found_or_404_def assms(1) split: option.splits)
  show ?thesis
    unfolding relayHandler_def Let_def health_def not_found_def
    by (simp only: split: if_splits) (intro conjI impI assms f)
qed

lemma registry_cases:
  assumes "\<And>n b. Q (send s n b)" and "\<And>a. Q (put_key P req a s)" and "Q (put_forum P req s)"
  shows "Q (registryHandler P req s)"
proof -
  have f: "Q (found_or_404 s r)" for r by (simp add: found_or_404_def assms(1) split: option.splits)
  have l: "Q (forum_list P req s)" by (simp add: forum_list_def Let_def assms(1))
  show ?thesis
    unfolding registryHandler_def Let_def health_def not_found_def
    by (simp only: split: if_splits) (intro conjI impI assms f l)
qed

lemma fst_send [simp]: "fst (send s n b) = s" "fst (throw s e) = s"
  by (simp_all add: send_def throw_def)

lemma fst_with_body: "fst (with_body req k s f) = (case readBody req k of Inl e \<Rightarrow> s | Inr raw \<Rightarrow> fst (f raw))"
  by (simp add: with_body_def split: sum.splits)

lemma fst_parsed: "fst (parsed s m f) = (case m of Inl e \<Rightarrow> s | Inr x \<Rightarrow> fst (f x))"
  by (simp add: parsed_def split: sum.splits)

lemmas reply_rules = fst_with_body fst_parsed

lemma server_ok_other:
  assumes "server_ok P s" and "mailboxes t = mailboxes s" and "payloads t = payloads s" and "sockets t = sockets s"
  shows "server_ok P t"
  using assms by (simp add: server_ok_def)

lemma put_messages_ok:
  assumes "server_ok P s"
  shows "server_ok P (fst (put_messages P clock a ms s))"
proof -
  let ?d = "\<lparr>dl_payloads = payloads s,
               dl_mailbox = (case map_get (mailboxes s) a of None \<Rightarrow> [] | Some ms \<Rightarrow> ms), dl_sent = []\<rparr>"
  obtain r d where r: "deliver P s a clock 0 ms ?d = (r, d)" by fastforce
  have "mailbox_ok P a (dl_mailbox ?d)" "payloads_ok P (dl_payloads ?d)"
    using assms by (auto simp: server_ok_def mailbox_ok_def split: option.splits)
  from deliver_ok [OF r this] assms show ?thesis
    by (cases r) (auto simp: put_messages_def r server_ok_def Let_def)
qed

lemma mailbox_ok_filter: "mailbox_ok P a ms \<Longrightarrow> mailbox_ok P a (filter Q ms)"
  by (auto simp: mailbox_ok_def list_all_iff distinct_map_filter)

lemma delete_ok: "server_ok P s \<Longrightarrow> server_ok P (fst (delete_handler P req a s))"
proof -
  assume s: "server_ok P s"
  have m: "mailbox_ok P a (filter Q (case map_get (mailboxes s) a of None \<Rightarrow> [] | Some ms \<Rightarrow> ms))" for Q
    using s by (intro mailbox_ok_filter) (auto simp: server_ok_def mailbox_ok_def split: option.splits)
  show ?thesis
    using s m by (auto simp: delete_handler_def server_ok_def payloads_ok_def Let_def)
qed

lemma relay_ok: "server_ok P s \<Longrightarrow> server_ok P (fst (relayHandler P clock req s))"
proof (rule relay_cases [where Q = "\<lambda>r. server_ok P (fst r)"])
  fix a assume s: "server_ok P s"
  show "server_ok P (fst (put_profile P req a s))"
    using s by (auto simp: put_profile_def reply_rules split: sum.splits intro!: server_ok_other [OF s])
  show "server_ok P (fst (validate_handler P req a s))"
    using s by (auto simp: validate_handler_def reply_rules split: sum.splits option.splits)
  show "server_ok P (fst (put_handler P clock req a s))"
    using s by (auto simp: put_handler_def reply_rules put_messages_ok split: sum.splits)
  show "server_ok P (fst (get_messages P req a s))" "server_ok P (fst (get_payload P req a s))"
    using s by (simp_all add: get_messages_def get_payload_def found_or_404_def Let_def split: option.splits)
qed (simp_all add: delete_ok)

lemma registry_ok: "server_ok P s \<Longrightarrow> server_ok P (fst (registryHandler P req s))"
proof (rule registry_cases [where Q = "\<lambda>r. server_ok P (fst r)"])
  fix a assume s: "server_ok P s"
  show "server_ok P (fst (put_key P req a s))" "server_ok P (fst (put_forum P req s))"
    using s by (auto simp: put_key_def put_forum_def reply_rules Let_def split: sum.splits intro!: server_ok_other [OF s])
qed simp_all

lemma ws_ok:
  "server_ok P s \<Longrightarrow> server_ok P (ws_connection ws a s)" "server_ok P s \<Longrightarrow> server_ok P (ws_close ws a s)"
  by (auto simp: server_ok_def ws_connection_def ws_close_def Let_def distinct_removeAll
      split: option.splits if_splits)

text \<open>The events of the two servers, in any order.\<close>

inductive serves :: "('hd, 'item) relay_env \<Rightarrow> 'item server \<Rightarrow> bool" for P :: "('hd, 'item) relay_env" where
  boot: "serves P fresh_server"
| relay_request: "serves P s \<Longrightarrow> serves P (fst (relayHandler P clock req s))"
| registry_request: "serves P s \<Longrightarrow> serves P (fst (registryHandler P req s))"
| socket_opened: "serves P s \<Longrightarrow> ws_upgrade P req = Some a \<Longrightarrow> serves P (ws_connection ws a s)"
| socket_closed: "serves P s \<Longrightarrow> serves P (ws_close ws a s)"

lemma serves_ok: "serves P s \<Longrightarrow> server_ok P s"
proof (induction rule: serves.induct)
  case boot
  then show ?case by (simp add: server_ok_def fresh_server_def payloads_ok_def)
qed (simp_all add: relay_ok registry_ok ws_ok)

section \<open>Rehearsal, retries and failures\<close>

lemma deliver_validate: "fst (deliver P s a clock i ms d) = validate_messages P a ms"
  by (induction ms arbitrary: i d) (simp_all add: deliver_Cons validate_messages_Cons split: option.splits)

lemma put_messages_answer: "snd (snd (put_messages P clock a ms s)) =
    (case validate_messages P a ms of Some e \<Rightarrow> Inl (None, e) | None \<Rightarrow> Inr \<lparr>rs_status = 204, rs_body = Raw []\<rparr>)"
proof -
  let ?d = "\<lparr>dl_payloads = payloads s,
               dl_mailbox = (case map_get (mailboxes s) a of None \<Rightarrow> [] | Some ms \<Rightarrow> ms), dl_sent = []\<rparr>"
  obtain r d where r: "deliver P s a clock 0 ms ?d = (r, d)" by fastforce
  then have "r = validate_messages P a ms" using deliver_validate [of P s a clock 0 ms ?d] by simp
  then show ?thesis by (auto simp: put_messages_def r Let_def split: option.splits)
qed

lemma handlers_agree:
  "snd (snd (validate_handler P req a s)) = snd (snd (put_handler P clock req a t)) \<and>
   fst (validate_handler P req a s) = s \<and> fst (snd (validate_handler P req a s)) = []"
  by (auto simp: validate_handler_def put_handler_def with_body_def parsed_def send_def throw_def
      put_messages_answer split: sum.splits option.splits)

lemma safe_answer: "snd (snd (safeHandler r)) =
    (case snd (snd r) of
       Inr resp \<Rightarrow> resp
     | Inl (status, err) \<Rightarrow>
         \<lparr>rs_status = (case status of None \<Rightarrow> 400 | Some n \<Rightarrow> n), rs_body = ErrorText err\<rparr>)"
  "fst (safeHandler r) = fst r" "fst (snd (safeHandler r)) = fst (snd r)"
  by (cases r; simp add: safeHandler_def)+

lemma split_messages: "filter (\<lambda>p. p \<noteq> []) (split_on CHR ''/'' (''/messages/'' @ x)) =
    ''messages'' # filter (\<lambda>p. p \<noteq> []) (split_on CHR ''/'' x)"
  by simp

lemma handlers_body: "validate_handler P (req\<lparr>rq_path := p\<rparr>) a s = validate_handler P req a s"
  "put_handler P clock (req\<lparr>rq_path := p\<rparr>) a s = put_handler P clock req a s"
  by (simp_all add: validate_handler_def put_handler_def with_body_def readBody_def)

lemma route_put:
  assumes "rq_method req = ''PUT''" and "filter (\<lambda>p. p \<noteq> []) (split_on CHR ''/'' x) = p # ps"
  shows "rq_path req = ''/messages/'' @ x \<Longrightarrow> relayHandler P clock req s = put_handler P clock req (path_address (p # ps)) s"
    and "rq_path req = ''/validate/messages/'' @ x \<Longrightarrow> relayHandler P clock req s = validate_handler P req (path_address (p # ps)) s"
  using assms by (simp_all add: relayHandler_def path_parts_def Let_def)

lemma deliver_known:
  assumes "\<forall>m \<in> set ms. message_error P a m = None \<and> digest_of P m \<in> payloadDigest ` set (dl_mailbox d)"
  shows "\<exists>d'. deliver P s a clock i ms d = (None, d') \<and> dl_mailbox d' = dl_mailbox d \<and> dl_sent d' = dl_sent d"
  using assms
proof (induction ms arbitrary: i d)
  case (Cons m ms)
  let ?d = "accepted P s a clock i m d"
  have d: "dl_mailbox ?d = dl_mailbox d \<and> dl_sent ?d = dl_sent d"
    using Cons.prems by (simp add: accepted_def)
  with Cons.prems have "\<forall>m \<in> set ms. message_error P a m = None \<and> digest_of P m \<in> payloadDigest ` set (dl_mailbox ?d)"
    by simp
  from Cons.IH [OF this, of "Suc i"] d Cons.prems show ?case by (simp add: deliver_Cons)
qed simp

lemma deliver_stores:
  "deliver P s a clock i ms d = (None, d') \<Longrightarrow>
    (\<forall>m \<in> set ms. message_error P a m = None \<and> digest_of P m \<in> payloadDigest ` set (dl_mailbox d')) \<and>
    set (dl_mailbox d) \<subseteq> set (dl_mailbox d')"
proof (induction ms arbitrary: i d)
  case (Cons m ms)
  let ?d = "accepted P s a clock i m d"
  have ok: "message_error P a m = None" using Cons.prems by (simp add: deliver_Cons split: option.splits)
  then have "deliver P s a clock (Suc i) ms ?d = (None, d')" using Cons.prems by (simp add: deliver_Cons)
  note IH = Cons.IH [OF this]
  have "digest_of P m \<in> payloadDigest ` set (dl_mailbox ?d) \<and> set (dl_mailbox d) \<subseteq> set (dl_mailbox ?d)"
    by (auto simp: accepted_def stored_def Let_def)
  with IH ok show ?case by auto
qed simp

lemma deliver_append: "deliver P s a clock i (xs @ ys) d =
    (case deliver P s a clock i xs d of
       (Some e, d1) \<Rightarrow> (Some e, d1)
     | (None, d1) \<Rightarrow> deliver P s a clock (i + length xs) ys d1)"
  by (induction xs arbitrary: i d) (auto simp: deliver_Cons split: option.splits prod.splits)

lemma deliver_grows: "deliver P s a clock i ms d = (r, d') \<Longrightarrow>
    (\<exists>new. dl_mailbox d' = dl_mailbox d @ new) \<and>
    (\<forall>k. map_get (dl_payloads d) k \<noteq> None \<longrightarrow> map_get (dl_payloads d') k \<noteq> None)"
proof (induction ms arbitrary: i d)
  case (Cons m ms)
  show ?case
  proof (cases "message_error P a m")
    case None
    let ?d = "accepted P s a clock i m d"
    have "deliver P s a clock (Suc i) ms ?d = (r, d')" using Cons.prems None by (simp add: deliver_Cons)
    note IH = Cons.IH [OF this]
    have "(\<exists>new. dl_mailbox ?d = dl_mailbox d @ new) \<and>
      (\<forall>k. map_get (dl_payloads d) k \<noteq> None \<longrightarrow> map_get (dl_payloads ?d) k \<noteq> None)"
      by (auto simp: accepted_def Let_def)
    with IH show ?thesis by (metis append.assoc)
  next
    case (Some e)
    then show ?thesis using Cons.prems by (simp add: deliver_Cons)
  qed
qed simp

text \<open>What a request without the token may do to the tables.\<close>

definition only_adds :: "'item server \<Rightarrow> 'item server \<Rightarrow> bool" where
  "only_adds s t \<longleftrightarrow> profiles t = profiles s \<and> registryKeys t = registryKeys s \<and> sockets t = sockets s \<and>
     (\<forall>a ms. map_get (mailboxes s) a = Some ms \<longrightarrow> (\<exists>new. map_get (mailboxes t) a = Some (ms @ new))) \<and>
     (\<forall>k. map_get (payloads s) k \<noteq> None \<longrightarrow> map_get (payloads t) k \<noteq> None)"

lemma only_adds_refl [simp]: "only_adds s s"
  by (simp add: only_adds_def)

lemma put_messages_adds: "only_adds s (fst (put_messages P clock a ms s))"
proof -
  let ?d = "\<lparr>dl_payloads = payloads s,
               dl_mailbox = (case map_get (mailboxes s) a of None \<Rightarrow> [] | Some ms \<Rightarrow> ms), dl_sent = []\<rparr>"
  obtain r d where r: "deliver P s a clock 0 ms ?d = (r, d)" by fastforce
  from deliver_grows [OF r] show ?thesis
    by (cases r) (auto simp: put_messages_def r only_adds_def Let_def)
qed

lemma relay_unauthorized: "\<not> isAuthorized P req \<Longrightarrow> only_adds s (fst (relayHandler P clock req s))"
proof (rule relay_cases [where Q = "\<lambda>r. only_adds s (fst r)"])
  fix a assume no: "\<not> isAuthorized P req"
  show "only_adds s (fst (put_profile P req a s))" "only_adds s (fst (get_messages P req a s))"
    "only_adds s (fst (delete_handler P req a s))" "only_adds s (fst (get_payload P req a s))"
    using no by (simp_all add: put_profile_def get_messages_def delete_handler_def get_payload_def)
  show "only_adds s (fst (validate_handler P req a s))"
    by (auto simp: validate_handler_def reply_rules split: sum.splits option.splits)
  show "only_adds s (fst (put_handler P clock req a s))"
    by (auto simp: put_handler_def reply_rules put_messages_adds split: sum.splits)
qed simp

lemma registry_unauthorized: "\<not> isAuthorized P req \<Longrightarrow> only_adds s (fst (registryHandler P req s))"
proof (rule registry_cases [where Q = "\<lambda>r. only_adds s (fst r)"])
  fix a assume "\<not> isAuthorized P req"
  then show "only_adds s (fst (put_key P req a s))" by (simp add: put_key_def)
  show "only_adds s (fst (put_forum P req s))"
    by (auto simp: put_forum_def reply_rules only_adds_def Let_def split: sum.splits)
qed simp

text \<open>An environment for concrete runs: keys are addresses, a body is one message to \<open>k\<close> with its
  text as payload, followed, after a zero byte, by one to nobody.\<close>

definition text_of :: "bytes \<Rightarrow> string" where
  "text_of b = map (\<lambda>x. char_of (unat x)) b"

definition plain_message :: "bytes \<Rightarrow> bytes \<Rightarrow> message" where
  "plain_message k p = \<lparr>destinationPublicKey = k, payload = p, payloadDigest = [], receivedTime = 0,
     msg_stamp = None, msg_rest = []\<rparr>"

definition demo_relay :: "(unit, bytes) relay_env" where
  "demo_relay = \<lparr>TOKEN = ''t'', to_Number = (\<lambda>_. NaN), sha256 = id, addressFromPubKey = (\<lambda>b. Inr (text_of b)),
     stampKey = (\<lambda>_ _. Inr ()), deriveChild = (\<lambda>_ _. Inr ()), keyAddress = (\<lambda>_. Inr []),
     txOutputs = (\<lambda>_. Inr []),
     parseMessageSet = (\<lambda>b. Inr (plain_message [0x6b] b # (if b = [0] then [plain_message [] b] else []))),
     printMessage = payload, printPage = (\<lambda>p. concat (map payload (pg_messages p))),
     parseSigned = Inr, itemPayload = id, printItem = id, printItems = concat, socketOpen = (\<lambda>_. True)\<rparr>"

definition put_request :: "string \<Rightarrow> bytes \<Rightarrow> request" where
  "put_request path b = \<lparr>rq_method = ''PUT'', rq_path = path, rq_query = [], rq_auth = None, rq_body = [b]\<rparr>"

lemma demo_accepts: "message_error demo_relay ''k'' (plain_message [0x6b] p) = None"
proof -
  have "text_of [0x6b] = ''k''" by code_simp
  then show ?thesis
    by (simp add: message_error_def verifyMessageEnvelope_def demo_relay_def plain_message_def
        verifyStampCommitment_def Let_def)
qed

lemma demo_refuses: "message_error demo_relay a (plain_message [] p) = Some (PlainError ''missing destination public key'')"
  by (simp add: message_error_def verifyMessageEnvelope_def plain_message_def)

lemma demo_put: "length b < 1000 \<Longrightarrow> put_handler demo_relay clock (put_request path b) a s =
    put_messages demo_relay clock a (plain_message [0x6b] b # (if b = [0] then [plain_message [] b] else [])) s"
  by (simp add: put_handler_def with_body_def readBody_def put_request_def MAX_MESSAGE_SET_BYTES_def
      parsed_def demo_relay_def)

section \<open>Properties\<close>

text \<open>C33. In every state the services reach, whatever requests and socket events they get:
  the messages of a mailbox have different digests, each is addressed to the mailbox by its
  key, has the hash of its payload as digest and a stamp that commits to the recipient; each
  stored payload lies under the key with its own hash; and no socket table entry is empty.\<close>

theorem relay_invariant:
  assumes "serves P s"
  shows "(\<forall>a ms. map_get (mailboxes s) a = Some ms \<longrightarrow>
      distinct (map payloadDigest ms) \<and>
      (\<forall>m \<in> set ms. addressFromPubKey P (destinationPublicKey m) = Inr a \<and>
        (payload m \<noteq> [] \<longrightarrow> payloadDigest m = sha256 P (payload m)) \<and>
        isOk (verifyStampCommitment P m))) \<and>
    (\<forall>k b. map_get (payloads s) k = Some b \<longrightarrow> (\<exists>a. k = payload_key a (to_hex (sha256 P b)))) \<and>
    (\<forall>a ws. map_get (sockets s) a = Some ws \<longrightarrow> ws \<noteq> [] \<and> distinct ws)"
  using serves_ok [OF assms]
  by (simp add: server_ok_def mailbox_ok_def payloads_ok_def list_all_iff envelope_ok_def)

theorem relay_invariant_witness:
  "\<exists>s m. serves demo_relay s \<and> map_get (mailboxes s) ''k'' = Some [m] \<and> payload m = [7] \<and>
     payloadDigest m = sha256 demo_relay (payload m)"
proof -
  let ?s = "fst (relayHandler demo_relay (\<lambda>_. 5) (put_request ''/messages/k'' [7]) fresh_server)"
  have s: "serves demo_relay ?s" by (rule relay_request [OF boot])
  have "relayHandler demo_relay (\<lambda>_. 5) (put_request ''/messages/k'' [7]) fresh_server =
      put_handler demo_relay (\<lambda>_. 5) (put_request ''/messages/k'' [7]) ''k'' fresh_server"
    by (simp add: relayHandler_def put_request_def path_parts_def path_address_def normalizeAddress_def)
  then have "\<exists>m. map_get (mailboxes ?s) ''k'' = Some [m] \<and> payload m = [7]"
    by (simp add: demo_put put_messages_def fresh_server_def deliver_Cons demo_accepts accepted_def
        stored_def Let_def) (simp add: plain_message_def)
  then obtain m where m: "map_get (mailboxes ?s) ''k'' = Some [m]" "payload m = [7]" by blast
  have "payloadDigest m = sha256 demo_relay (payload m)" using relay_invariant [OF s] m by simp
  with m s show ?thesis by blast
qed

text \<open>C34. The preflight is an exact rehearsal of delivery: \<^verbatim>\<open>PUT /validate/messages/X\<close> gives the
  response, of success or of whatever failure, that \<^verbatim>\<open>PUT /messages/X\<close> with the same body gives in
  any state and at any time, and it changes no table and notifies nobody.\<close>

theorem preflight_matches_delivery:
  fixes P :: "('hd, 'b) relay_env" and s t :: "'b server"
  assumes "rq_method req = ''PUT''" and "rq_path req = ''/messages/'' @ x"
    and "filter (\<lambda>p. p \<noteq> []) (split_on CHR ''/'' x) \<noteq> []"
  shows "fst (safeHandler (relayHandler P clock (req\<lparr>rq_path := ''/validate/messages/'' @ x\<rparr>) s)) = s \<and>
    fst (snd (safeHandler (relayHandler P clock (req\<lparr>rq_path := ''/validate/messages/'' @ x\<rparr>) s))) = [] \<and>
    snd (snd (safeHandler (relayHandler P clock (req\<lparr>rq_path := ''/validate/messages/'' @ x\<rparr>) s))) =
      snd (snd (safeHandler (relayHandler P clock' req t)))"
proof -
  obtain p ps where x: "filter (\<lambda>p. p \<noteq> []) (split_on CHR ''/'' x) = p # ps"
    using assms(3) by (cases "filter (\<lambda>p. p \<noteq> []) (split_on CHR ''/'' x)") auto
  let ?v = "validate_handler P req (path_address (p # ps)) s"
  have pre: "relayHandler P clock (req\<lparr>rq_path := ''/validate/messages/'' @ x\<rparr>) s = ?v"
    by (subst route_put(2) [OF _ x]) (simp_all add: assms(1) handlers_body)
  have post: "relayHandler P clock' req t = put_handler P clock' req (path_address (p # ps)) t"
    by (rule route_put(1) [OF assms(1) x assms(2)])
  have sh: "snd (snd r) = snd (snd r') \<Longrightarrow> snd (snd (safeHandler r)) = snd (snd (safeHandler r'))"
    "fst (safeHandler r) = fst r" "fst (snd (safeHandler r)) = fst (snd r)" for r r' :: "'b reply"
    by (simp_all add: safe_answer)
  show ?thesis
    unfolding pre post sh(2,3)
    using handlers_agree [of P req "path_address (p # ps)" s clock' t] sh(1) by blast
qed

theorem preflight_matches_delivery_witness:
  "snd (snd (safeHandler (relayHandler demo_relay (\<lambda>_. 5)
       ((put_request ''/messages/k'' [7])\<lparr>rq_path := ''/validate/messages/'' @ ''k''\<rparr>) fresh_server))) =
   \<lparr>rs_status = 204, rs_body = Raw []\<rparr>"
proof -
  let ?r = "put_request ''/messages/k'' [7]"
  have r: "rq_method ?r = ''PUT''" "rq_path ?r = ''/messages/'' @ ''k''" by (simp_all add: put_request_def)
  have x: "filter (\<lambda>p. p \<noteq> []) (split_on CHR ''/'' ''k'') \<noteq> []" by simp
  have p: "filter (\<lambda>p. p \<noteq> []) (split_on CHR ''/'' ''k'') = [''k'']" by simp
  have "relayHandler demo_relay (\<lambda>_. 5) ?r fresh_server =
      put_messages demo_relay (\<lambda>_. 5) ''k'' [plain_message [0x6b] [7]] fresh_server"
    by (subst route_put(1) [OF r(1) p r(2)]) (simp add: demo_put path_address_def normalizeAddress_def)
  then have "snd (snd (safeHandler (relayHandler demo_relay (\<lambda>_. 5) ?r fresh_server))) =
      \<lparr>rs_status = 204, rs_body = Raw []\<rparr>"
    using put_messages_answer [of demo_relay "\<lambda>_. 5" "''k''" "[plain_message [0x6b] [7]]" fresh_server]
    by (simp add: safe_answer validate_messages_Cons demo_accepts)
  with preflight_matches_delivery [OF r x, of demo_relay "\<lambda>_. 5" fresh_server "\<lambda>_. 5" fresh_server]
  show ?thesis by simp
qed

text \<open>Retries are safe: once a delivery has succeeded, delivering the same messages again, at
  any time, succeeds, leaves the mailbox as it is and notifies nobody.\<close>

theorem retry_is_idempotent:
  assumes "snd (snd (put_messages P clock a ms s)) = Inr resp" and t_def: "t = fst (put_messages P clock a ms s)"
  shows "map_get (mailboxes (fst (put_messages P clock' a ms t))) a = map_get (mailboxes t) a \<and>
    snd (put_messages P clock' a ms t) = ([], Inr resp)"
proof -
  let ?d = "\<lparr>dl_payloads = payloads s,
               dl_mailbox = (case map_get (mailboxes s) a of None \<Rightarrow> [] | Some ms \<Rightarrow> ms), dl_sent = []\<rparr>"
  have v: "validate_messages P a ms = None"
    using assms(1) by (simp add: put_messages_answer split: option.splits)
  obtain r d where "deliver P s a clock 0 ms ?d = (r, d)" by fastforce
  then have del: "deliver P s a clock 0 ms ?d = (None, d)"
    using deliver_validate [of P s a clock 0 ms ?d] v by simp
  then have t: "t = s\<lparr>payloads := dl_payloads d, mailboxes := map_set a (dl_mailbox d) (mailboxes s)\<rparr>"
    by (simp add: t_def put_messages_def Let_def)
  let ?e = "\<lparr>dl_payloads = payloads t, dl_mailbox = dl_mailbox d, dl_sent = []\<rparr>"
  have "\<forall>m \<in> set ms. message_error P a m = None \<and> digest_of P m \<in> payloadDigest ` set (dl_mailbox ?e)"
    using deliver_stores [OF del] by simp
  from deliver_known [OF this, of t clock' 0] obtain d' where
    "deliver P t a clock' 0 ms ?e = (None, d')" "dl_mailbox d' = dl_mailbox d" "dl_sent d' = []" by auto
  moreover have "resp = \<lparr>rs_status = 204, rs_body = Raw []\<rparr>"
    using assms(1) v by (simp add: put_messages_answer)
  ultimately show ?thesis by (simp add: put_messages_def t)
qed

theorem retry_is_idempotent_witness:
  "\<exists>t. t = fst (put_messages demo_relay (\<lambda>_. 5) ''k'' [plain_message [0x6b] [7]] fresh_server) \<and>
     snd (put_messages demo_relay (\<lambda>_. 9) ''k'' [plain_message [0x6b] [7]] t) =
       ([], Inr \<lparr>rs_status = 204, rs_body = Raw []\<rparr>)"
proof -
  have "snd (snd (put_messages demo_relay (\<lambda>_. 5) ''k'' [plain_message [0x6b] [7]] fresh_server)) =
      Inr \<lparr>rs_status = 204, rs_body = Raw []\<rparr>"
    by (simp add: put_messages_answer validate_messages_Cons demo_accepts)
  from retry_is_idempotent [OF this refl, of "\<lambda>_. 9"] show ?thesis by simp
qed

text \<open>Without the token a request to either server never changes a profile, a registered
  key or a socket, removes no message from a mailbox and no payload; it can only append
  messages and payloads.\<close>

theorem unauthorized_only_adds:
  assumes "\<not> isAuthorized P req"
    and "t = fst (relayHandler P clock req s) \<or> t = fst (registryHandler P req s)"
  shows "profiles t = profiles s \<and> registryKeys t = registryKeys s \<and> sockets t = sockets s \<and>
    (\<forall>a ms. map_get (mailboxes s) a = Some ms \<longrightarrow> (\<exists>new. map_get (mailboxes t) a = Some (ms @ new))) \<and>
    (\<forall>k. map_get (payloads s) k \<noteq> None \<longrightarrow> map_get (payloads t) k \<noteq> None)"
  using assms(2) relay_unauthorized [OF assms(1), of s clock] registry_unauthorized [OF assms(1), of s]
  unfolding only_adds_def by blast

theorem unauthorized_only_adds_witness:
  "profiles (fst (relayHandler demo_relay (\<lambda>_. 5) (put_request ''/messages/k'' [7]) fresh_server)) = []"
proof -
  have "\<not> isAuthorized demo_relay (put_request ''/messages/k'' [7])"
    by (simp add: isAuthorized_def put_request_def search_param_def)
  from unauthorized_only_adds [OF this disjI1 [OF refl], of "\<lambda>_. 5" fresh_server]
  show ?thesis by (simp add: fresh_server_def)
qed

text \<open>A delivery that fails is not undone: when the messages before the bad one were
  accepted, their payloads stay stored and their notifications are sent although the response
  is the failure; the messages themselves stay if the mailbox existed before, and are lost if
  it did not.\<close>

theorem failed_delivery_keeps_prefix:
  assumes "deliver P s a clock 0 good \<lparr>dl_payloads = payloads s,
      dl_mailbox = (case map_get (mailboxes s) a of None \<Rightarrow> [] | Some ms \<Rightarrow> ms), dl_sent = []\<rparr> = (None, d)"
    and "message_error P a bad = Some err"
  shows "put_messages P clock a (good @ bad # rest) s =
    (s\<lparr>payloads := dl_payloads d,
       mailboxes := (if map_get (mailboxes s) a = None then mailboxes s
                     else map_set a (dl_mailbox d) (mailboxes s))\<rparr>,
     dl_sent d, Inl (None, err))"
  using assms by (simp add: put_messages_def deliver_append deliver_Cons Let_def)

theorem failed_delivery_keeps_prefix_witness:
  "\<exists>s out. put_messages demo_relay (\<lambda>_. 5) ''k'' [plain_message [0x6b] [0], plain_message [] [0]]
       (fresh_server\<lparr>sockets := [(''k'', [3])]\<rparr>) =
     (s, out, Inl (None, PlainError ''missing destination public key'')) \<and>
   map_get (mailboxes s) ''k'' = None \<and> map_get (payloads s) ''k:00'' = Some [0] \<and> out = [(3, [0])]"
proof -
  let ?s = "(fresh_server :: bytes server)\<lparr>sockets := [(''k'', [3])]\<rparr>" and ?m = "plain_message [0x6b] [0]"
  let ?d = "\<lparr>dl_payloads = payloads ?s,
      dl_mailbox = (case map_get (mailboxes ?s) ''k'' of None \<Rightarrow> [] | Some ms \<Rightarrow> ms), dl_sent = []\<rparr>"
  have hex: "to_hex [0] = ''00''" by code_simp
  have d: "deliver demo_relay ?s ''k'' (\<lambda>_. 5) 0 [?m] ?d = (None, accepted demo_relay ?s ''k'' (\<lambda>_. 5) 0 ?m ?d)"
    by (simp add: deliver_Cons demo_accepts)
  have acc: "accepted demo_relay ?s ''k'' (\<lambda>_. 5) 0 ?m ?d =
      \<lparr>dl_payloads = [(''k:00'', [0])], dl_mailbox = [stored demo_relay (\<lambda>_. 5) 0 ?m], dl_sent = [(3, [0])]\<rparr>"
    by (simp add: accepted_def fresh_server_def digest_of_def plain_message_def demo_relay_def stored_def
        notifyMailbox_def payload_key_def hex map_set_def Let_def) (simp add: map_get_def)
  from failed_delivery_keeps_prefix [OF d demo_refuses, of "[0]" "[]"] acc
  show ?thesis by (simp add: fresh_server_def) (simp add: map_get_def)
qed

text \<open>The keys of the payload table join address and digest with a colon, which addresses
  contain: a deletion at the address before the colon, with the rest of the address prefixed
  to the digest, removes the payload of another mailbox and leaves its message behind.\<close>

theorem delete_crosses_mailboxes:
  assumes "isAuthorized P req" and "search_param req ''digest'' = Some (rest @ '':'' @ digest)"
  shows "map_get (payloads (fst (delete_handler P req pre s))) (payload_key (pre @ '':'' @ rest) digest) = None \<and>
    map_get (mailboxes (fst (delete_handler P req pre s))) (pre @ '':'' @ rest) =
      map_get (mailboxes s) (pre @ '':'' @ rest)"
proof -
  have "payload_key (pre @ '':'' @ rest) digest = payload_key pre (rest @ '':'' @ digest)"
    by (simp add: payload_key_def)
  with assms show ?thesis
    by (simp add: delete_handler_def param_or_empty_def Let_def)
qed

theorem delete_crosses_mailboxes_witness:
  "map_get (payloads (fst (delete_handler demo_relay
       \<lparr>rq_method = ''DELETE'', rq_path = ''/messages/ecash'', rq_query = [(''digest'', ''q:00'')],
        rq_auth = Some ''t'', rq_body = []\<rparr> ''ecash''
       (fresh_server\<lparr>payloads := [(''ecash:q:00'', [7])]\<rparr>)))) ''ecash:q:00'' = None"
proof -
  let ?r = "\<lparr>rq_method = ''DELETE'', rq_path = ''/messages/ecash'', rq_query = [(''digest'', ''q:00'')],
        rq_auth = Some ''t'', rq_body = []\<rparr>"
  have "isAuthorized demo_relay ?r" by (simp add: isAuthorized_def demo_relay_def)
  moreover have "search_param ?r ''digest'' = Some (''q'' @ '':'' @ ''00'')" by (simp add: search_param_def)
  ultimately show ?thesis
    using delete_crosses_mailboxes [of demo_relay ?r "''q''" "''00''" "''ecash''"]
    by (simp add: payload_key_def)
qed

end
