(* ===== verification/Json.thy ===== *)
theory Json
  imports JsText
begin

text \<open>
  JSON as the services and the desktop process use it: the values, \<^verbatim>\<open>JSON.stringify\<close> and
  \<^verbatim>\<open>JSON.parse\<close>, and the proof that printing and parsing lose nothing.  Texts are UTF-8, so a
  lone surrogate escape, which no UTF-8 text can hold, is refused by the parser.
\<close>


section \<open>Values and printing\<close>

text \<open>\<open>JFloat\<close> is a number that is not an integer, by its text.\<close>

datatype json =
    JNull
  | JBool bool
  | JInt int
  | JFloat string
  | JStr string
  | JArr "json list"
  | JObj "(string \<times> json) list"

definition quote_char :: "char \<Rightarrow> string" where
  "quote_char c =
     (let k = of_char c :: nat
      in if k = 34 then [CHR 0x5C, c] else if k = 92 then [CHR 0x5C, c]
         else if k = 8 then [CHR 0x5C, CHR ''b''] else if k = 9 then [CHR 0x5C, CHR ''t'']
         else if k = 10 then [CHR 0x5C, CHR ''n''] else if k = 12 then [CHR 0x5C, CHR ''f'']
         else if k = 13 then [CHR 0x5C, CHR ''r'']
         else if k < 32 then [CHR 0x5C, CHR ''u'', CHR ''0'', CHR ''0'', hex_char (k div 16), hex_char (k mod 16)]
         else [c])"

definition quote :: "string \<Rightarrow> string" where
  "quote s = CHR 0x22 # concat (map quote_char s) @ [CHR 0x22]"

definition int_text :: "int \<Rightarrow> string" where
  "int_text n = (if n < 0 then CHR ''-'' # nat_dec (nat (- n)) else nat_dec (nat n))"

fun JSON_stringify :: "json \<Rightarrow> string" where
  "JSON_stringify JNull = ''null''"
| "JSON_stringify (JBool b) = (if b then ''true'' else ''false'')"
| "JSON_stringify (JInt n) = int_text n"
| "JSON_stringify (JFloat t) = t"
| "JSON_stringify (JStr s) = quote s"
| "JSON_stringify (JArr xs) = CHR ''['' # join_with '','' (map JSON_stringify xs) @ '']''"
| "JSON_stringify (JObj kvs) =
     CHR ''{'' # join_with '','' (map (\<lambda>(k, v). quote k @ '':'' @ JSON_stringify v) kvs) @ ''}''"

section \<open>Parsing\<close>

definition is_space :: "char \<Rightarrow> bool" where
  "is_space c \<longleftrightarrow> c \<in> {CHR 0x20, CHR 0x09, CHR 0x0A, CHR 0x0D}"

definition skip_ws :: "string \<Rightarrow> string" where
  "skip_ws s = dropWhile is_space s"

definition is_digit :: "char \<Rightarrow> bool" where
  "is_digit c \<longleftrightarrow> 48 \<le> (of_char c :: nat) \<and> (of_char c :: nat) \<le> 57"

definition digit_value :: "char \<Rightarrow> nat" where
  "digit_value c = of_char c - 48"

definition dec_value :: "string \<Rightarrow> nat" where
  "dec_value ds = foldl (\<lambda>n c. 10 * n + digit_value c) 0 ds"

text \<open>The characters of a number, and the grammar its text has to follow; a number without
  fraction and exponent is an integer, the others are read by \<open>toFloat\<close>.\<close>

definition number_char :: "char \<Rightarrow> bool" where
  "number_char c \<longleftrightarrow> is_digit c \<or> c \<in> set ''+-.eE''"

definition digits1 :: "string \<Rightarrow> string option" where
  "digits1 s = (if takeWhile is_digit s = [] then None else Some (dropWhile is_digit s))"

definition number_ok :: "string \<Rightarrow> bool" where
  "number_ok s =
     (let t = (case s of c # cs \<Rightarrow> if c = CHR ''-'' then cs else s | [] \<Rightarrow> s);
          after_int = (case t of c # cs \<Rightarrow> if c = CHR ''0'' then Some cs else digits1 t | [] \<Rightarrow> None);
          after_frac = (case after_int of
             Some (c # cs) \<Rightarrow> if c = CHR ''.'' then digits1 cs else after_int
           | r \<Rightarrow> r)
      in case after_frac of
           None \<Rightarrow> False
         | Some [] \<Rightarrow> True
         | Some (c # cs) \<Rightarrow>
             c \<in> {CHR ''e'', CHR ''E''} \<and>
             digits1 (case cs of d # ds \<Rightarrow> if d \<in> {CHR ''+'', CHR ''-''} then ds else cs | [] \<Rightarrow> cs) = Some [])"

definition number_value :: "(string \<Rightarrow> json) \<Rightarrow> string \<Rightarrow> json option" where
  "number_value toFloat s =
     (if \<not> number_ok s then None
      else if list_all is_digit s then Some (JInt (int (dec_value s)))
      else if s \<noteq> [] \<and> hd s = CHR ''-'' \<and> list_all is_digit (tl s) then Some (JInt (- int (dec_value (tl s))))
      else Some (toFloat s))"

text \<open>The UTF-8 bytes of a code point that is not a surrogate.\<close>

definition utf8_of :: "nat \<Rightarrow> string" where
  "utf8_of n =
     (if n < 0x80 then [char_of n]
      else if n < 0x800 then [char_of (0xC0 + n div 64), char_of (0x80 + n mod 64)]
      else if n < 0x10000 then [char_of (0xE0 + n div 4096), char_of (0x80 + n div 64 mod 64), char_of (0x80 + n mod 64)]
      else [char_of (0xF0 + n div 262144), char_of (0x80 + n div 4096 mod 64),
            char_of (0x80 + n div 64 mod 64), char_of (0x80 + n mod 64)])"

fun hex4 :: "string \<Rightarrow> (nat \<times> string) option" where
  "hex4 (a # b # c # d # rest) =
     (case (hex_value a, hex_value b, hex_value c, hex_value d) of
        (Some w, Some x, Some y, Some z) \<Rightarrow> Some (((w * 16 + x) * 16 + y) * 16 + z, rest)
      | _ \<Rightarrow> None)"
| "hex4 _ = None"

text \<open>What follows a backslash.\<close>

definition unescape :: "string \<Rightarrow> (string \<times> string) option" where
  "unescape s =
     (case s of
        [] \<Rightarrow> None
      | c # r \<Rightarrow>
          if c = CHR 0x22 \<or> c = CHR 0x5C \<or> c = CHR ''/'' then Some ([c], r)
          else if c = CHR ''b'' then Some ([CHR 0x08], r) else if c = CHR ''t'' then Some ([CHR 0x09], r)
          else if c = CHR ''n'' then Some ([CHR 0x0A], r) else if c = CHR ''f'' then Some ([CHR 0x0C], r)
          else if c = CHR ''r'' then Some ([CHR 0x0D], r)
          else if c = CHR ''u''
          then (case hex4 r of
                  None \<Rightarrow> None
                | Some (n, r1) \<Rightarrow>
                    if n < 0xD800 \<or> 0xE000 \<le> n then Some (utf8_of n, r1)
                    else (case r1 of
                            x # y # r2 \<Rightarrow>
                              if n < 0xDC00 \<and> x = CHR 0x5C \<and> y = CHR ''u''
                              then (case hex4 r2 of
                                      Some (m, r3) \<Rightarrow>
                                        if 0xDC00 \<le> m \<and> m < 0xE000
                                        then Some (utf8_of (0x10000 + (n - 0xD800) * 0x400 + (m - 0xDC00)), r3)
                                        else None
                                    | None \<Rightarrow> None)
                              else None
                          | _ \<Rightarrow> None))
          else None)"

text \<open>The rest of a string literal, with fuel: every step reads a character.\<close>

primrec parse_chars :: "nat \<Rightarrow> string \<Rightarrow> (string \<times> string) option" where
  "parse_chars 0 s = None"
| "parse_chars (Suc n) s =
     (case s of
        [] \<Rightarrow> None
      | c # r \<Rightarrow>
          if c = CHR 0x22 then Some ([], r)
          else if (of_char c :: nat) < 32 then None
          else if c = CHR 0x5C
          then (case unescape r of
                  None \<Rightarrow> None
                | Some (t, r1) \<Rightarrow> map_option (\<lambda>(u, q). (t @ u, q)) (parse_chars n r1))
          else map_option (\<lambda>(u, q). (c # u, q)) (parse_chars n r))"

definition parse_string :: "string \<Rightarrow> (string \<times> string) option" where
  "parse_string s = (case s of c # r \<Rightarrow> if c = CHR 0x22 then parse_chars (length s) r else None | [] \<Rightarrow> None)"

definition expect :: "string \<Rightarrow> json \<Rightarrow> string \<Rightarrow> (json \<times> string) option" where
  "expect w v s = (if take (length w) s = w then Some (v, drop (length w) s) else None)"

definition eat :: "char \<Rightarrow> string \<Rightarrow> string option" where
  "eat c s = (case s of [] \<Rightarrow> None | x # r \<Rightarrow> if x = c then Some r else None)"

text \<open>Values, the elements of an array and the members of an object; the fuel bounds the nesting and
  the number of elements, and twice the length of the text is always enough.\<close>

fun parse_value :: "(string \<Rightarrow> json) \<Rightarrow> nat \<Rightarrow> string \<Rightarrow> (json \<times> string) option"
  and parse_elements :: "(string \<Rightarrow> json) \<Rightarrow> nat \<Rightarrow> string \<Rightarrow> (json list \<times> string) option"
  and parse_members ::
    "(string \<Rightarrow> json) \<Rightarrow> nat \<Rightarrow> (string \<times> json) list \<Rightarrow> string \<Rightarrow> ((string \<times> json) list \<times> string) option" where
  "parse_value F 0 s = None"
| "parse_value F (Suc n) s =
     (case skip_ws s of
        [] \<Rightarrow> None
      | c # r \<Rightarrow>
          if c = CHR ''{''
          then (case eat CHR ''}'' (skip_ws r) of
                  Some q \<Rightarrow> Some (JObj [], q)
                | None \<Rightarrow> map_option (\<lambda>(kvs, t). (JObj kvs, t)) (parse_members F n [] (skip_ws r)))
          else if c = CHR ''[''
          then (case eat CHR '']'' (skip_ws r) of
                  Some q \<Rightarrow> Some (JArr [], q)
                | None \<Rightarrow> map_option (\<lambda>(xs, t). (JArr xs, t)) (parse_elements F n (skip_ws r)))
          else if c = CHR 0x22 then map_option (\<lambda>(t, q). (JStr t, q)) (parse_string (c # r))
          else if c = CHR ''t'' then expect ''true'' (JBool True) (c # r)
          else if c = CHR ''f'' then expect ''false'' (JBool False) (c # r)
          else if c = CHR ''n'' then expect ''null'' JNull (c # r)
          else map_option (\<lambda>v. (v, dropWhile number_char (c # r)))
                 (number_value F (takeWhile number_char (c # r))))"
| "parse_elements F 0 s = None"
| "parse_elements F (Suc n) s =
     (case parse_value F n s of
        None \<Rightarrow> None
      | Some (v, r) \<Rightarrow>
          (case eat CHR '','' (skip_ws r) of
             Some q \<Rightarrow> map_option (\<lambda>(vs, t). (v # vs, t)) (parse_elements F n q)
           | None \<Rightarrow> map_option (\<lambda>q. ([v], q)) (eat CHR '']'' (skip_ws r))))"
| "parse_members F 0 acc s = None"
| "parse_members F (Suc n) acc s =
     (case parse_string (skip_ws s) of
        None \<Rightarrow> None
      | Some (k, r) \<Rightarrow>
          (case eat CHR '':'' (skip_ws r) of
             None \<Rightarrow> None
           | Some q \<Rightarrow>
               (case parse_value F n q of
                  None \<Rightarrow> None
                | Some (v, t) \<Rightarrow>
                    (case eat CHR '','' (skip_ws t) of
                       Some u \<Rightarrow> parse_members F n (map_set k v acc) u
                     | None \<Rightarrow> map_option (\<lambda>u. (map_set k v acc, u)) (eat CHR ''}'' (skip_ws t))))))"

text \<open>\<^verbatim>\<open>JSON.parse\<close>; \<open>None\<close> is its \<^verbatim>\<open>SyntaxError\<close>.\<close>

definition JSON_parse :: "(string \<Rightarrow> json) \<Rightarrow> string \<Rightarrow> json option" where
  "JSON_parse toFloat s =
     (case parse_value toFloat (2 * length s) s of
        None \<Rightarrow> None
      | Some (v, r) \<Rightarrow> if skip_ws r = [] then Some v else None)"

section \<open>Printing and parsing lose nothing\<close>

text \<open>The values a JavaScript program prints: object keys are different, and the numbers here are
  integers.\<close>

fun plain_json :: "json \<Rightarrow> bool" where
  "plain_json (JFloat t) \<longleftrightarrow> False"
| "plain_json (JArr xs) \<longleftrightarrow> list_all plain_json xs"
| "plain_json (JObj kvs) \<longleftrightarrow> distinct (map fst kvs) \<and> list_all plain_json (map snd kvs)"
| "plain_json _ \<longleftrightarrow> True"

lemma code_eq:
  "(of_char c :: nat) = 34 \<longleftrightarrow> c = CHR 0x22" "(of_char c :: nat) = 92 \<longleftrightarrow> c = CHR 0x5C"
  "(of_char c :: nat) = 8 \<longleftrightarrow> c = CHR 0x08" "(of_char c :: nat) = 9 \<longleftrightarrow> c = CHR 0x09"
  "(of_char c :: nat) = 10 \<longleftrightarrow> c = CHR 0x0A" "(of_char c :: nat) = 12 \<longleftrightarrow> c = CHR 0x0C"
  "(of_char c :: nat) = 13 \<longleftrightarrow> c = CHR 0x0D"
proof -
  have *: "(of_char c :: nat) = of_char d \<longleftrightarrow> c = d" for d by (rule of_char_eq_iff)
  show "(of_char c :: nat) = 34 \<longleftrightarrow> c = CHR 0x22" using * [of "CHR 0x22"] by simp
  show "(of_char c :: nat) = 92 \<longleftrightarrow> c = CHR 0x5C" using * [of "CHR 0x5C"] by simp
  show "(of_char c :: nat) = 8 \<longleftrightarrow> c = CHR 0x08" using * [of "CHR 0x08"] by simp
  show "(of_char c :: nat) = 9 \<longleftrightarrow> c = CHR 0x09" using * [of "CHR 0x09"] by simp
  show "(of_char c :: nat) = 10 \<longleftrightarrow> c = CHR 0x0A" using * [of "CHR 0x0A"] by simp
  show "(of_char c :: nat) = 12 \<longleftrightarrow> c = CHR 0x0C" using * [of "CHR 0x0C"] by simp
  show "(of_char c :: nat) = 13 \<longleftrightarrow> c = CHR 0x0D" using * [of "CHR 0x0D"] by simp
qed

lemma hex4_control: "k < 32 \<Longrightarrow> hex4 (CHR ''0'' # CHR ''0'' # hex_char (k div 16) # hex_char (k mod 16) # r) = Some (k, r)"
proof -
  assume k: "k < 32"
  have z: "hex_value CHR ''0'' = Some 0" by code_simp
  have d: "hex_value (hex_char (k div 16)) = Some (k div 16)" using k by (intro hex_value_char) simp
  have m: "hex_value (hex_char (k mod 16)) = Some (k mod 16)" by (intro hex_value_char) simp
  show ?thesis by (simp add: z d m)
qed

lemma parse_quote_char: "parse_chars (Suc n) (quote_char c @ r) = map_option (\<lambda>(u, q). (c # u, q)) (parse_chars n r)"
proof -
  let ?k = "of_char c :: nat"
  consider "?k \<in> {34, 92, 8, 9, 10, 12, 13}" | "?k \<notin> {34, 92, 8, 9, 10, 12, 13}" "?k < 32"
    | "?k \<notin> {34, 92, 8, 9, 10, 12, 13}" "32 \<le> ?k" by fastforce
  then show ?thesis
  proof cases
    case 1
    then show ?thesis
      unfolding insert_iff empty_iff code_eq by (elim disjE) (simp_all add: quote_char_def unescape_def)
  next
    case 2
    then have "quote_char c = CHR 0x5C # CHR ''u'' # CHR ''0'' # CHR ''0'' # [hex_char (?k div 16), hex_char (?k mod 16)]"
      by (simp add: quote_char_def Let_def)
    moreover have "unescape (CHR ''u'' # CHR ''0'' # CHR ''0'' # hex_char (?k div 16) # hex_char (?k mod 16) # r) = Some ([c], r)"
      using 2(2) hex4_control [OF 2(2), of r] by (simp add: unescape_def utf8_of_def)
    ultimately show ?thesis by (simp del: hex4.simps)
  next
    case 3
    then have "quote_char c = [c]" "c \<noteq> CHR 0x22" "c \<noteq> CHR 0x5C"
      by (auto simp: quote_char_def Let_def code_eq)
    then show ?thesis using 3(2) by simp
  qed
qed

lemma parse_quoted: "length s < n \<Longrightarrow> parse_chars n (concat (map quote_char s) @ CHR 0x22 # r) = Some (s, r)"
proof (induction s arbitrary: n)
  case Nil
  then show ?case by (cases n) simp_all
next
  case (Cons c s)
  then obtain k where n: "n = Suc k" by (cases n) simp_all
  with Cons show ?case using parse_quote_char [of k c "concat (map quote_char s) @ CHR 0x22 # r"] by simp
qed

lemma length_quoted: "length s \<le> length (concat (map quote_char s))"
proof (induction s)
  case (Cons c s)
  have "1 \<le> length (quote_char c)" by (simp add: quote_char_def Let_def)
  with Cons show ?case by simp
qed simp

lemma parse_string_quote: "parse_string (quote s @ r) = Some (s, r)"
  using parse_quoted [of s "length (quote s @ r)" r] length_quoted [of s]
  by (simp add: parse_string_def quote_def)

lemma hex_char_digit: "n < 10 \<Longrightarrow> is_digit (hex_char n) \<and> digit_value (hex_char n) = n \<and> (hex_char n = CHR ''0'' \<longleftrightarrow> n = 0)"
proof -
  have "list_all (\<lambda>n. is_digit (hex_char n) \<and> digit_value (hex_char n) = n \<and> (hex_char n = CHR ''0'' \<longleftrightarrow> n = 0)) [0..<10]"
    by code_simp
  then show "n < 10 \<Longrightarrow> is_digit (hex_char n) \<and> digit_value (hex_char n) = n \<and> (hex_char n = CHR ''0'' \<longleftrightarrow> n = 0)"
    by (simp add: list_all_iff)
qed

lemma nat_dec_facts:
  "list_all is_digit (nat_dec n) \<and> nat_dec n \<noteq> [] \<and> dec_value (nat_dec n) = n \<and>
   (hd (nat_dec n) = CHR ''0'' \<longrightarrow> n = 0) \<and> (n = 0 \<longrightarrow> nat_dec n = ''0'')"
proof (induction n rule: nat_dec.induct)
  case (1 n)
  have zero: "nat_dec 0 = ''0''" using hex_char_digit [of 0] by (subst nat_dec.simps) simp
  show ?case
  proof (cases "n < 10")
    case True
    then show ?thesis using hex_char_digit [of n] zero
      by (auto simp: nat_dec.simps [of n] dec_value_def)
  next
    case False
    then have "n div 10 \<noteq> 0" by simp
    with 1 False show ?thesis using hex_char_digit [of "n mod 10"]
      by (auto simp: nat_dec.simps [of n] dec_value_def)
  qed
qed

lemma is_digit_number: "is_digit c \<Longrightarrow> number_char c \<and> c \<noteq> CHR ''-'' \<and> c \<noteq> CHR ''.'' \<and> \<not> is_space c"
  by (auto simp: number_char_def is_digit_def is_space_def)

lemma nat_text_ok:
  assumes "list_all is_digit t" and "t \<noteq> []" and "hd t = CHR ''0'' \<longrightarrow> t = ''0''"
  shows "number_ok t \<and> number_ok (CHR ''-'' # t)"
proof -
  obtain c cs where t: "t = c # cs" using assms(2) by (cases t) simp_all
  have c: "is_digit c" "list_all is_digit cs" using assms(1) t by simp_all
  then have m: "c \<noteq> CHR ''-''" using is_digit_number by blast
  have "digits1 (c # cs) = Some []" using c by (simp add: digits1_def list_all_iff)
  with assms(3) c m show ?thesis
    by (cases "c = CHR ''0''") (simp_all add: t number_ok_def Let_def)
qed

text \<open>What may follow a number.\<close>

definition ends_number :: "string \<Rightarrow> bool" where
  "ends_number r \<longleftrightarrow> (case r of [] \<Rightarrow> True | c # cs \<Rightarrow> \<not> number_char c)"

lemma take_number:
  assumes "list_all number_char t" and "ends_number r"
  shows "takeWhile number_char (t @ r) = t" and "dropWhile number_char (t @ r) = r"
proof -
  have "takeWhile number_char r = [] \<and> dropWhile number_char r = r"
    using assms(2) by (cases r) (simp_all add: ends_number_def)
  with assms(1) show "takeWhile number_char (t @ r) = t" "dropWhile number_char (t @ r) = r"
    by (simp_all add: takeWhile_append2 dropWhile_append2 list_all_iff)
qed

lemma number_value_int: "number_value F (int_text n) = Some (JInt n) \<and> list_all number_char (int_text n) \<and>
    int_text n \<noteq> [] \<and> (is_digit (hd (int_text n)) \<or> hd (int_text n) = CHR ''-'')"
proof -
  let ?t = "nat_dec (nat \<bar>n\<bar>)"
  note t = nat_dec_facts [of "nat \<bar>n\<bar>"]
  have ok: "number_ok ?t \<and> number_ok (CHR ''-'' # ?t)"
    using t by (intro nat_text_ok) blast+
  have d: "list_all is_digit ?t" "?t \<noteq> []" "dec_value ?t = nat \<bar>n\<bar>" using t by blast+
  have ch: "list_all number_char ?t" "is_digit (hd ?t)"
    using d(1,2) is_digit_number by (auto simp: list_all_iff)
  have minus: "number_char CHR ''-''" "\<not> is_digit CHR ''-''" by (simp_all add: number_char_def is_digit_def)
  show ?thesis
  proof (cases "n < 0")
    case True
    then have "int_text n = CHR ''-'' # ?t" by (simp add: int_text_def)
    with ok d ch minus True show ?thesis by (simp add: number_value_def)
  next
    case False
    then have "int_text n = ?t" by (simp add: int_text_def)
    with ok d ch False show ?thesis by (simp add: number_value_def)
  qed
qed

lemma skip_ws_head: "\<not> is_space c \<Longrightarrow> skip_ws (c # r) = c # r"
  by (simp add: skip_ws_def)

lemma eat_Cons: "eat c (x # r) = (if x = c then Some r else None)"
  by (simp add: eat_def)

lemma expect_text: "expect w v (w @ r) = Some (v, r)"
  by (simp add: expect_def)

text \<open>Every printed value starts with a character that says what it is.\<close>

lemma stringify_head:
  assumes "plain_json v"
  shows "\<exists>c cs. JSON_stringify v = c # cs \<and> \<not> is_space c \<and> c \<notin> {CHR '']'', CHR ''}''}"
proof (cases v)
  case (JInt n)
  then have "\<exists>c cs. JSON_stringify v = c # cs \<and> (is_digit c \<or> c = CHR ''-'')"
    using number_value_int [of undefined n] by (cases "int_text n") auto
  then show ?thesis using is_digit_number by (auto simp: is_space_def is_digit_def)
qed (use assms in \<open>auto simp: is_space_def quote_def\<close>)

lemma join_Cons: "xs \<noteq> [] \<Longrightarrow> join_with sep (x # xs) = x @ sep @ join_with sep xs"
  by (cases xs) simp_all

lemma parse_scalar:
  assumes "ends_number r"
  shows "parse_value F (Suc n) (JSON_stringify JNull @ r) = Some (JNull, r)"
    and "parse_value F (Suc n) (JSON_stringify (JBool b) @ r) = Some (JBool b, r)"
    and "parse_value F (Suc n) (JSON_stringify (JInt i) @ r) = Some (JInt i, r)"
    and "parse_value F (Suc n) (JSON_stringify (JStr s) @ r) = Some (JStr s, r)"
proof -
  note sp = is_space_def skip_ws_head
  show "parse_value F (Suc n) (JSON_stringify JNull @ r) = Some (JNull, r)"
    using expect_text [of "''null''" JNull r] by (simp add: sp)
  show "parse_value F (Suc n) (JSON_stringify (JBool b) @ r) = Some (JBool b, r)"
    using expect_text [of "''true''" "JBool True" r] expect_text [of "''false''" "JBool False" r]
    by (cases b) (simp_all add: sp)
  show "parse_value F (Suc n) (JSON_stringify (JStr s) @ r) = Some (JStr s, r)"
    using parse_string_quote [of s r] by (simp add: sp quote_def)
  obtain c cs where t: "int_text i = c # cs" "is_digit c \<or> c = CHR ''-''"
    using number_value_int [of F i] by (cases "int_text i") auto
  then have "c \<notin> {CHR ''{'', CHR ''['', CHR 0x22, CHR ''t'', CHR ''f'', CHR ''n''} \<and> \<not> is_space c"
    by (auto simp: is_digit_def is_space_def)
  moreover have "takeWhile number_char (int_text i @ r) = int_text i" "dropWhile number_char (int_text i @ r) = r"
    using take_number [of "int_text i" r] number_value_int [of F i] assms by simp_all
  ultimately show "parse_value F (Suc n) (JSON_stringify (JInt i) @ r) = Some (JInt i, r)"
    using number_value_int [of F i] t(1) by (simp add: skip_ws_head del: takeWhile.simps dropWhile.simps)
qed

text \<open>The induction: what is needed of a value inside an array or an object.\<close>

definition parses :: "json \<Rightarrow> bool" where
  "parses v \<longleftrightarrow> (\<forall>F n r. 2 * length (JSON_stringify v) \<le> n \<longrightarrow> ends_number r \<longrightarrow>
     parse_value F n (JSON_stringify v @ r) = Some (v, r))"

lemma ends_number_punct [simp]: "ends_number (CHR '','' # r)" "ends_number (CHR '']'' # r)"
  "ends_number (CHR ''}'' # r)"
  by (simp_all add: ends_number_def number_char_def is_digit_def)

lemma skip_punct [simp]: "skip_ws (CHR '','' # r) = CHR '','' # r" "skip_ws (CHR '']'' # r) = CHR '']'' # r"
  "skip_ws (CHR ''}'' # r) = CHR ''}'' # r" "skip_ws (CHR '':'' # r) = CHR '':'' # r"
  "skip_ws (CHR 0x22 # r) = CHR 0x22 # r"
  by (simp_all add: skip_ws_head is_space_def)

lemma parse_elements_text:
  assumes "list_all parses vs" and "vs \<noteq> []" and "2 * length (join_with '','' (map JSON_stringify vs)) + 1 \<le> n"
  shows "parse_elements F n (join_with '','' (map JSON_stringify vs) @ CHR '']'' # r) = Some (vs, r)"
  using assms
proof (induction vs arbitrary: n)
  case (Cons v vs)
  then obtain k where n: "n = Suc k" by (cases n) simp_all
  have v: "parses v" using Cons.prems(1) by simp
  show ?case
  proof (cases "vs = []")
    case True
    then have "parse_value F k (JSON_stringify v @ CHR '']'' # r) = Some (v, CHR '']'' # r)"
      using v Cons.prems(3) n by (simp add: parses_def)
    then show ?thesis using True n by (simp add: eat_Cons)
  next
    case False
    let ?rest = "join_with '','' (map JSON_stringify vs)"
    have j: "join_with '','' (map JSON_stringify (v # vs)) = JSON_stringify v @ CHR '','' # ?rest"
      using False by (simp add: join_Cons)
    have "parse_value F k (JSON_stringify v @ CHR '','' # ?rest @ CHR '']'' # r) =
        Some (v, CHR '','' # ?rest @ CHR '']'' # r)"
      using v Cons.prems(3) n unfolding j by (simp add: parses_def)
    moreover have "parse_elements F k (?rest @ CHR '']'' # r) = Some (vs, r)"
      using Cons.IH [of k] Cons.prems(1,3) False n unfolding j by simp
    ultimately show ?thesis unfolding j n by (simp add: eat_Cons)
  qed
qed simp

lemma parse_members_text:
  assumes "list_all parses (map snd kvs)" and "kvs \<noteq> []" and "distinct (map fst acc @ map fst kvs)"
    and "2 * length (join_with '','' (map (\<lambda>(k, v). quote k @ '':'' @ JSON_stringify v) kvs)) + 1 \<le> n"
  shows "parse_members F n acc (join_with '','' (map (\<lambda>(k, v). quote k @ '':'' @ JSON_stringify v) kvs) @ CHR ''}'' # r) =
    Some (acc @ kvs, r)"
  using assms
proof (induction kvs arbitrary: n acc)
  case (Cons kv kvs)
  obtain key v where kv: "kv = (key, v)" by (cases kv)
  from Cons obtain k where n: "n = Suc k" by (cases n) simp_all
  have v: "parses v" using Cons.prems(1) by (simp add: kv)
  have "map_get acc key = None" using Cons.prems(3) by (auto simp: kv map_get_def map_of_eq_None_iff)
  then have acc: "map_set key v acc = acc @ [(key, v)]" by (rule map_set_new)
  have q: "skip_ws (quote key @ x) = quote key @ x" for x by (simp add: quote_def)
  note step = parse_string_quote acc q eat_Cons
  show ?case
  proof (cases "kvs = []")
    case True
    then have "parse_value F k (JSON_stringify v @ CHR ''}'' # r) = Some (v, CHR ''}'' # r)"
      using v Cons.prems(4) n by (simp add: parses_def kv)
    then show ?thesis using True n by (simp add: kv step)
  next
    case False
    let ?rest = "join_with '','' (map (\<lambda>(k, v). quote k @ '':'' @ JSON_stringify v) kvs)"
    have j: "join_with '','' (map (\<lambda>(k, v). quote k @ '':'' @ JSON_stringify v) (kv # kvs)) =
        quote key @ CHR '':'' # JSON_stringify v @ CHR '','' # ?rest"
      using False by (simp add: join_Cons kv)
    have "parse_value F k (JSON_stringify v @ CHR '','' # ?rest @ CHR ''}'' # r) =
        Some (v, CHR '','' # ?rest @ CHR ''}'' # r)"
      using v Cons.prems(4) n unfolding j by (simp add: parses_def)
    moreover have "parse_members F k (acc @ [(key, v)]) (?rest @ CHR ''}'' # r) = Some (acc @ kv # kvs, r)"
      using Cons.IH [of "acc @ [(key, v)]" k] Cons.prems(1,3,4) False n unfolding j by (auto simp: kv)
    ultimately show ?thesis unfolding j n by (simp add: step kv)
  qed
qed simp

lemma plain_parses: "plain_json v \<Longrightarrow> parses v"
proof (induction v rule: plain_json.induct [case_names float array object null boolean number str])
  case (array xs)
  then have xs: "list_all parses xs" by (auto simp: list_all_iff)
  show ?case unfolding parses_def
  proof (intro allI impI)
    fix F n and r :: string
    assume n: "2 * length (JSON_stringify (JArr xs)) \<le> n"
    then obtain k where k: "n = Suc k" by (cases n) simp_all
    show "parse_value F n (JSON_stringify (JArr xs) @ r) = Some (JArr xs, r)"
    proof (cases xs)
      case Nil
      then show ?thesis by (simp add: k skip_ws_head is_space_def eat_Cons)
    next
      case (Cons x ys)
      let ?t = "join_with '','' (map JSON_stringify xs)"
      obtain c cs where c: "JSON_stringify x = c # cs" "\<not> is_space c" "c \<notin> {CHR '']'', CHR ''}''}"
        using stringify_head [of x] array Cons by auto
      obtain ds where t: "?t = c # ds" using c(1) Cons by (cases ys) auto
      have "parse_elements F k (?t @ CHR '']'' # r) = Some (xs, r)"
        by (rule parse_elements_text [OF xs]) (use Cons n k in simp_all)
      then show ?thesis
        using c by (simp add: k t skip_ws_head is_space_def eat_Cons)
    qed
  qed
next
  case (object kvs)
  then have kvs: "list_all parses (map snd kvs)" by (auto simp: list_all_iff)
  show ?case unfolding parses_def
  proof (intro allI impI)
    fix F n and r :: string
    assume n: "2 * length (JSON_stringify (JObj kvs)) \<le> n"
    then obtain k where k: "n = Suc k" by (cases n) simp_all
    show "parse_value F n (JSON_stringify (JObj kvs) @ r) = Some (JObj kvs, r)"
    proof (cases kvs)
      case Nil
      then show ?thesis by (simp add: k skip_ws_head is_space_def eat_Cons)
    next
      case (Cons x ys)
      let ?t = "join_with '','' (map (\<lambda>(k, v). quote k @ '':'' @ JSON_stringify v) kvs)"
      obtain ds where t: "?t = CHR 0x22 # ds"
        using Cons by (cases x; cases ys) (auto simp: quote_def)
      have "parse_members F k [] (?t @ CHR ''}'' # r) = Some ([] @ kvs, r)"
        by (rule parse_members_text [OF kvs]) (use Cons n k object in simp_all)
      then show ?thesis
        by (simp add: k t [simplified append_Cons append_Nil] skip_ws_head is_space_def eat_Cons)
    qed
  qed
next
  case null
  show ?case unfolding parses_def
  proof (intro allI impI)
    fix F n and r :: string
    assume "2 * length (JSON_stringify JNull) \<le> n" "ends_number r"
    then show "parse_value F n (JSON_stringify JNull @ r) = Some (JNull, r)"
      using parse_scalar(1) [of r F] by (cases n) simp_all
  qed
next
  case (boolean b)
  show ?case unfolding parses_def
  proof (intro allI impI)
    fix F n and r :: string
    assume "2 * length (JSON_stringify (JBool b)) \<le> n" "ends_number r"
    then show "parse_value F n (JSON_stringify (JBool b) @ r) = Some (JBool b, r)"
      using parse_scalar(2) [of r F _ b] by (cases n) (auto split: if_splits)
  qed
next
  case (number i)
  show ?case unfolding parses_def
  proof (intro allI impI)
    fix F n and r :: string
    assume "2 * length (JSON_stringify (JInt i)) \<le> n" "ends_number r"
    moreover have "int_text i \<noteq> []" using number_value_int [of undefined i] by simp
    ultimately show "parse_value F n (JSON_stringify (JInt i) @ r) = Some (JInt i, r)"
      using parse_scalar(3) [of r F _ i] by (cases n) simp_all
  qed
next
  case (str t)
  show ?case unfolding parses_def
  proof (intro allI impI)
    fix F n and r :: string
    assume "2 * length (JSON_stringify (JStr t)) \<le> n" "ends_number r"
    then show "parse_value F n (JSON_stringify (JStr t) @ r) = Some (JStr t, r)"
      using parse_scalar(4) [of r F _ t] by (cases n) (simp_all add: quote_def)
  qed
qed simp

lemma JSON_parse_stringify: "plain_json v \<Longrightarrow> JSON_parse F (JSON_stringify v) = Some v"
proof -
  assume "plain_json v"
  then have "parses v" by (rule plain_parses)
  moreover have "ends_number []" by (simp add: ends_number_def)
  ultimately have "parse_value F (2 * length (JSON_stringify v)) (JSON_stringify v @ []) = Some (v, [])"
    unfolding parses_def by blast
  then show ?thesis by (simp add: JSON_parse_def skip_ws_def)
qed

end
