(* ===== verification/PrivateState.thy ===== *)
theory PrivateState
  imports Json
begin

text \<open>
  \<^verbatim>\<open>src-electron/private-state.js\<close>: the encrypted key-value store of the desktop application,
  with the base64 text it is made of.  The platform's safe storage is the fields of \<open>vault\<close>;
  the locale \<open>vault_laws\<close> states that what is sealed can be opened, and gives the contract of a
  store.
\<close>


section \<open>Properties of values\<close>

text \<open>\<^verbatim>\<open>v.name\<close>: \<open>None\<close> is \<^verbatim>\<open>undefined\<close>, and \<^verbatim>\<open>null\<close> has no properties.  \<open>opt_prop\<close> is \<^verbatim>\<open>v?.name\<close>.\<close>

definition get_prop :: "json option \<Rightarrow> string \<Rightarrow> json option res" where
  "get_prop v name =
     (case v of
        None \<Rightarrow> Inl TypeErr
      | Some JNull \<Rightarrow> Inl TypeErr
      | Some (JObj kvs) \<Rightarrow> Inr (map_of kvs name)
      | Some _ \<Rightarrow> Inr None)"

definition opt_prop :: "json option \<Rightarrow> string \<Rightarrow> json option" where
  "opt_prop v name = (case v of Some (JObj kvs) \<Rightarrow> map_of kvs name | _ \<Rightarrow> None)"

section \<open>Base64\<close>

definition b64_char :: "nat \<Rightarrow> char" where
  "b64_char n = char_of (if n < 26 then n + 65 else if n < 52 then n + 71 else if n < 62 then n - 4
     else if n = 62 then 43 else 47)"

text \<open>\<^verbatim>\<open>toString('base64')\<close>.\<close>

fun to_base64 :: "bytes \<Rightarrow> string" where
  "to_base64 [] = []"
| "to_base64 [a] =
     (let n = unat a * 65536
      in [b64_char (n div 262144), b64_char (n div 4096 mod 64), CHR ''='', CHR ''=''])"
| "to_base64 [a, b] =
     (let n = unat a * 65536 + unat b * 256
      in [b64_char (n div 262144), b64_char (n div 4096 mod 64), b64_char (n div 64 mod 64), CHR ''=''])"
| "to_base64 (a # b # c # ds) =
     (let n = unat a * 65536 + unat b * 256 + unat c
      in b64_char (n div 262144) # b64_char (n div 4096 mod 64) # b64_char (n div 64 mod 64) #
         b64_char (n mod 64) # to_base64 ds)"

definition b64_value :: "char \<Rightarrow> nat" where
  "b64_value c =
     (let k = of_char c :: nat
      in if 65 \<le> k \<and> k \<le> 90 then k - 65 else if 97 \<le> k \<and> k \<le> 122 then k - 71
         else if 48 \<le> k \<and> k \<le> 57 then k + 4 else if k = 43 then 62 else 63)"

text \<open>A decoder of the texts that \<open>to_base64\<close> makes, to instantiate the library's.\<close>

fun of_base64 :: "string \<Rightarrow> bytes" where
  "of_base64 (w # x # y # z # cs) =
     (if z = CHR ''='' then
        if y = CHR ''=''
        then [word_of_nat ((b64_value w * 64 + b64_value x) div 16)]
        else (let n = (b64_value w * 64 + b64_value x) * 64 + b64_value y
              in [word_of_nat (n div 1024), word_of_nat (n div 4)])
      else (let n = ((b64_value w * 64 + b64_value x) * 64 + b64_value y) * 64 + b64_value z
            in word_of_nat (n div 65536) # word_of_nat (n div 256) # word_of_nat n # of_base64 cs))"
| "of_base64 _ = []"

lemma b64_value_char [simp]: "n < 64 \<Longrightarrow> b64_value (b64_char n) = n"
  by (auto simp: b64_value_def b64_char_def Let_def)

lemma b64_char_pad [simp]: "n < 64 \<Longrightarrow> b64_char n \<noteq> CHR ''=''"
proof
  assume n: "n < 64" and "b64_char n = CHR ''=''"
  then have "(of_char (b64_char n) :: nat) = 61" by simp
  then show False using n by (auto simp: b64_char_def split: if_splits)
qed

text \<open>Four digits of base 64 and their number.\<close>

lemma b64_digits:
  fixes n :: nat
  assumes "n < 16777216"
  shows "n div 262144 < 64"
    and "((n div 262144 * 64 + n div 4096 mod 64) * 64 + n div 64 mod 64) * 64 + n mod 64 = n"
    and "(n div 262144 * 64 + n div 4096 mod 64) * 64 + n div 64 mod 64 = n div 64"
    and "n div 262144 * 64 + n div 4096 mod 64 = n div 4096"
proof -
  show "n div 262144 < 64" using assms by (simp add: div_less_iff_less_mult)
  show c: "n div 262144 * 64 + n div 4096 mod 64 = n div 4096"
    using div_mult_mod_eq [of "n div 4096" 64] by (simp add: div_mult2_eq [symmetric])
  show d: "(n div 262144 * 64 + n div 4096 mod 64) * 64 + n div 64 mod 64 = n div 64"
    unfolding c using div_mult_mod_eq [of "n div 64" 64] by (simp add: div_mult2_eq [symmetric])
  show "((n div 262144 * 64 + n div 4096 mod 64) * 64 + n div 64 mod 64) * 64 + n mod 64 = n"
    unfolding d by (rule div_mult_mod_eq)
qed

lemma byte3:
  fixes a b c :: byte
  defines "n \<equiv> unat a * 65536 + unat b * 256 + unat c"
  shows "n < 16777216" and "word_of_nat (n div 65536) = a" and "word_of_nat (n div 256) = b"
    and "word_of_nat n = c"
proof -
  have a: "unat a < 256" "unat b < 256" "unat c < 256" by simp_all
  have bc: "unat b * 256 + unat c < 65536" using a by linarith
  show "n < 16777216" unfolding n_def using a by linarith
  have "n div 65536 = unat a" unfolding n_def by (intro div_nat_eqI) (use a bc in simp_all)
  then show "word_of_nat (n div 65536) = a" by simp
  have "n div 256 = unat a * 256 + unat b" unfolding n_def by (intro div_nat_eqI) (use a bc in simp_all)
  then show "word_of_nat (n div 256) = b"
    by (simp add: byte_eq_iff_unat unat_byte_of_nat del: of_nat_add of_nat_mult)
  have "n = unat c + 256 * (unat a * 256 + unat b)" unfolding n_def by simp
  then have "n mod 256 = unat c" by (simp only: mod_mult_self2 mod_less unat_byte_less)
  then show "word_of_nat n = c" by (simp only: byte_eq_iff_unat unat_byte_of_nat)
qed

lemma of_base64_groups:
  fixes n :: nat
  assumes "n < 16777216"
  defines "w \<equiv> b64_char (n div 262144)" and "x \<equiv> b64_char (n div 4096 mod 64)"
    and "y \<equiv> b64_char (n div 64 mod 64)" and "z \<equiv> b64_char (n mod 64)"
  shows "of_base64 [w, x, CHR ''='', CHR ''=''] = [word_of_nat (n div 65536)]"
    and "of_base64 [w, x, y, CHR ''=''] = [word_of_nat (n div 65536), word_of_nat (n div 256)]"
    and "of_base64 (w # x # y # z # cs) =
      word_of_nat (n div 65536) # word_of_nat (n div 256) # word_of_nat n # of_base64 cs"
proof -
  note d = b64_digits [OF assms(1)]
  have e: "n div 4096 * 64 + n div 64 mod 64 = n div 64" "n div 64 * 64 + n mod 64 = n"
    using d(2,3) unfolding d(4) by simp_all
  have v: "b64_value w = n div 262144" "b64_value x = n div 4096 mod 64" "b64_value y = n div 64 mod 64"
    "b64_value z = n mod 64" "y \<noteq> CHR ''=''" "z \<noteq> CHR ''=''"
    using d(1) by (simp_all add: w_def x_def y_def z_def)
  have q: "n div 4096 div 16 = n div 65536" "n div 64 div 1024 = n div 65536" "n div 64 div 4 = n div 256"
    by (simp_all add: div_mult2_eq [symmetric])
  show "of_base64 [w, x, CHR ''='', CHR ''=''] = [word_of_nat (n div 65536)]"
    by (simp only: of_base64.simps v d(4) e q simp_thms if_True)
  show "of_base64 [w, x, y, CHR ''=''] = [word_of_nat (n div 65536), word_of_nat (n div 256)]"
    by (simp only: of_base64.simps v d(4) e q simp_thms if_True if_False Let_def)
  show "of_base64 (w # x # y # z # cs) =
      word_of_nat (n div 65536) # word_of_nat (n div 256) # word_of_nat n # of_base64 cs"
    by (simp only: of_base64.simps v d(4) e q simp_thms if_False Let_def)
qed

lemma of_base64_to_base64: "of_base64 (to_base64 bs) = bs"
proof (induction bs rule: to_base64.induct)
  case (2 a)
  note n = byte3 [of a 0 0, simplified unsigned_0 mult_zero_left add_0_right]
  show ?case unfolding to_base64.simps Let_def using of_base64_groups(1) [OF n(1)] n(2) by (simp only:)
next
  case (3 a b)
  note n = byte3 [of a b 0, simplified unsigned_0 add_0_right]
  show ?case unfolding to_base64.simps Let_def using of_base64_groups(2) [OF n(1)] n(2,3) by (simp only:)
next
  case (4 a b c ds)
  note n = byte3 [of a b c]
  show ?case unfolding to_base64.simps Let_def
    using of_base64_groups(3) [OF n(1), of "to_base64 ds"] n(2-4) "4.IH" by (simp only:)
qed simp

lemma to_base64_inj: "to_base64 a = to_base64 b \<longleftrightarrow> a = b"
  by (metis of_base64_to_base64)

lemma length_to_base64: "length (to_base64 bs) = 4 * ((length bs + 2) div 3)"
proof (induction bs rule: to_base64.induct)
  case (4 a b c ds)
  have "(5 + length ds) div 3 = Suc (Suc (Suc (length ds)) div 3)" by simp
  with 4 show ?case by (simp add: Let_def)
qed (simp_all add: Let_def)

section \<open>Encrypted records\<close>

text \<open>
  The platform's safe storage, the library's base64 decoder, and its reading of the numbers
  that have a fraction or an exponent.
  \<open>selectedBackend\<close> is \<open>None\<close> where the platform has no such method.
\<close>

record vault =
  encryptionAvailable :: bool
  selectedBackend :: "string option"
  encryptString :: "string \<Rightarrow> bytes"
  decryptString :: "bytes \<Rightarrow> string res"
  toFloat :: "string \<Rightarrow> json"
  from_base64 :: "string \<Rightarrow> bytes"

definition recordVersion :: int where
  "recordVersion = 1"

text \<open>\<^verbatim>\<open>key.length\<close> counts UTF-16 units: one for every first byte of a character, and another for
  the characters of four bytes.\<close>

definition js_length :: "string \<Rightarrow> nat" where
  "js_length s =
     length (filter (\<lambda>c. \<not> (128 \<le> (of_char c :: nat) \<and> (of_char c :: nat) < 192)) s) +
     length (filter (\<lambda>c. 240 \<le> (of_char c :: nat)) s)"

definition assertKey :: "string \<Rightarrow> unit res" where
  "assertKey key =
     (if js_length key = 0 \<or> js_length key > 1024 \<or> char_of (0 :: nat) \<in> set key
      then Inl (PlainError ''Invalid private-state key'') else Inr ())"

definition assertSafeStorage :: "vault option \<Rightarrow> string \<Rightarrow> unit res" where
  "assertSafeStorage safeStorage platform =
     (case safeStorage of
        None \<Rightarrow> Inl (PlainError ''Protected local storage is unavailable'')
      | Some V \<Rightarrow>
          if \<not> encryptionAvailable V then Inl (PlainError ''Protected local storage is unavailable'')
          else if platform = ''linux'' \<and> (selectedBackend V = Some ''basic_text'' \<or> selectedBackend V = Some ''unknown'')
          then Inl (PlainError ''Protected local storage backend is unavailable'')
          else Inr ())"

definition encrypt :: "vault \<Rightarrow> json option \<Rightarrow> string res" where
  "encrypt V value =
     (case value of
        None \<Rightarrow> Inl (PlainError ''Private-state values must be defined'')
      | Some v \<Rightarrow>
          Inr (to_base64 (encryptString V (JSON_stringify
            (JObj [(''version'', JInt recordVersion), (''value'', v)])))))"

text \<open>Only an object has a \<^verbatim>\<open>version\<close>, so the other values all fail the same test.\<close>

definition decrypt :: "vault \<Rightarrow> string \<Rightarrow> json res" where
  "decrypt V value =
     (case rmap (JSON_parse (toFloat V)) (decryptString V (from_base64 V value)) of
        Inl _ \<Rightarrow> Inl (PlainError ''Unable to decrypt private-state record'')
      | Inr None \<Rightarrow> Inl (PlainError ''Unable to decrypt private-state record'')
      | Inr (Some record) \<Rightarrow>
          (case record of
             JObj kvs \<Rightarrow>
               if map_of kvs ''version'' = Some (JInt recordVersion)
               then (case map_of kvs ''value'' of
                       Some v \<Rightarrow> Inr v
                     | None \<Rightarrow> Inl (PlainError ''Invalid private-state record''))
               else Inl (PlainError ''Invalid private-state record'')
           | _ \<Rightarrow> Inl (PlainError ''Invalid private-state record'')))"

section \<open>The store\<close>

text \<open>The database holds the encrypted texts; a missing key is \<^verbatim>\<open>undefined\<close>.\<close>

type_synonym database = "(string, string) js_map"

definition private_get :: "vault \<Rightarrow> database \<Rightarrow> string \<Rightarrow> json option res" where
  "private_get V db key =
     rbind (assertKey key) (\<lambda>_.
       case map_get db key of None \<Rightarrow> Inr None | Some c \<Rightarrow> rmap Some (decrypt V c))"

fun private_getMany :: "vault \<Rightarrow> database \<Rightarrow> string list \<Rightarrow> json option list res" where
  "private_getMany V db [] = Inr []"
| "private_getMany V db (k # ks) =
     rbind (private_get V db k) (\<lambda>v. rmap ((#) v) (private_getMany V db ks))"

definition private_put :: "vault \<Rightarrow> string \<Rightarrow> json option \<Rightarrow> database \<Rightarrow> database res" where
  "private_put V key value db =
     rbind (assertKey key) (\<lambda>_. rmap (\<lambda>c. map_set key c db) (encrypt V value))"

definition private_del :: "string \<Rightarrow> database \<Rightarrow> database res" where
  "private_del key db = rbind (assertKey key) (\<lambda>_. Inr (map_del key db))"

text \<open>An operation of a batch: \<open>OtherOp\<close> has a type that is neither \<^verbatim>\<open>put\<close> nor \<^verbatim>\<open>del\<close>.\<close>

datatype state_op = PutOp string "json option" | DelOp string | OtherOp string

definition encrypt_op :: "vault \<Rightarrow> state_op \<Rightarrow> (string, string) batch_op res" where
  "encrypt_op V ope =
     (case ope of
        DelOp key \<Rightarrow> rbind (assertKey key) (\<lambda>_. Inr (Del key))
      | PutOp key value \<Rightarrow> rbind (assertKey key) (\<lambda>_. rmap (Put key) (encrypt V value))
      | OtherOp key \<Rightarrow> rbind (assertKey key) (\<lambda>_. Inl (PlainError ''Invalid private-state batch operation'')))"

fun encrypt_ops :: "vault \<Rightarrow> state_op list \<Rightarrow> (string, string) batch_op list res" where
  "encrypt_ops V [] = Inr []"
| "encrypt_ops V (x # xs) = rbind (encrypt_op V x) (\<lambda>y. rmap ((#) y) (encrypt_ops V xs))"

text \<open>The whole batch is encrypted first; \<open>jsmap.batch\<close> is the database's atomic batch.\<close>

definition private_batch :: "vault \<Rightarrow> state_op list \<Rightarrow> database \<Rightarrow> database res" where
  "private_batch V opes db = rmap (\<lambda>es. jsmap.batch es db) (encrypt_ops V opes)"

definition createPrivateStateStore :: "vault option \<Rightarrow> string \<Rightarrow> database res" where
  "createPrivateStateStore safeStorage platform = rmap (\<lambda>_. []) (assertSafeStorage safeStorage platform)"

section \<open>The contract of the store\<close>

text \<open>What the platform promises: what was encrypted, printed or encoded is read back.\<close>

locale vault_laws =
  fixes V :: vault
  assumes decrypt_encrypt: "decryptString V (encryptString V t) = Inr t"
    and decode_encode: "from_base64 V (to_base64 b) = b"
begin

definition sealed :: "json \<Rightarrow> string" where
  "sealed v = to_base64 (encryptString V (JSON_stringify (JObj [(''version'', JInt recordVersion), (''value'', v)])))"

definition opened :: "database \<Rightarrow> string \<Rightarrow> json option" where
  "opened db k = (case map_get db k of None \<Rightarrow> None | Some c \<Rightarrow> (case decrypt V c of Inl _ \<Rightarrow> None | Inr v \<Rightarrow> Some v))"

lemma decrypt_sealed [simp]: "plain_json v \<Longrightarrow> decrypt V (sealed v) = Inr v"
proof -
  assume "plain_json v"
  then have "plain_json (JObj [(''version'', JInt recordVersion), (''value'', v)])" by simp
  from JSON_parse_stringify [OF this, of "toFloat V"] show ?thesis
    by (simp add: sealed_def decrypt_def decode_encode decrypt_encrypt)
qed

lemma encrypt_sealed: "encrypt V (Some v) = Inr (sealed v)"
  by (simp add: encrypt_def sealed_def)

end

text \<open>Seen through the vault the database is a store of values.\<close>

sublocale vault_laws \<subseteq> vaulted: kv_store opened "\<lambda>k v. map_set k (sealed v)" map_del plain_json
  by unfold_locales (simp_all add: opened_def)

text \<open>The operations of a batch that encrypts without error.\<close>

definition plain_op :: "state_op \<Rightarrow> (string, json) batch_op option" where
  "plain_op ope = (case ope of PutOp k (Some v) \<Rightarrow> Some (Put k v) | DelOp k \<Rightarrow> Some (Del k) | _ \<Rightarrow> None)"

lemma plain_op_put: "plain_op y = Some x \<Longrightarrow> op_value x = Some v \<Longrightarrow> y = PutOp (op_key x) (Some v)"
  by (cases y) (auto simp: plain_op_def split: option.splits)

lemma mem_map_filter: "x \<in> set (List.map_filter f xs) \<longleftrightarrow> (\<exists>y \<in> set xs. f y = Some x)"
  by (induction xs) (auto simp: List.map_filter_simps split: option.splits)

definition valid_op :: "state_op \<Rightarrow> bool" where
  "valid_op ope \<longleftrightarrow>
     (case ope of
        PutOp k v \<Rightarrow> assertKey k = Inr () \<and> v \<noteq> None
      | DelOp k \<Rightarrow> assertKey k = Inr ()
      | OtherOp k \<Rightarrow> False)"

lemma encrypt_op_Inr: "(\<exists>y. encrypt_op V x = Inr y) \<longleftrightarrow> valid_op x"
proof (cases x)
  case (PutOp k v)
  then show ?thesis by (cases "assertKey k"; cases v) (simp_all add: encrypt_op_def valid_op_def encrypt_def)
next
  case (DelOp k)
  then show ?thesis by (cases "assertKey k") (simp_all add: encrypt_op_def valid_op_def)
next
  case (OtherOp k)
  then show ?thesis by (cases "assertKey k") (simp_all add: encrypt_op_def valid_op_def)
qed

lemma encrypt_ops_Inr: "(\<exists>es. encrypt_ops V xs = Inr es) \<longleftrightarrow> list_all valid_op xs"
proof (induction xs)
  case (Cons x xs)
  then show ?case using encrypt_op_Inr [of V x]
    by (cases "encrypt_op V x"; cases "encrypt_ops V xs") simp_all
qed simp

context vault_laws begin

definition sealed_op :: "(string, json) batch_op \<Rightarrow> (string, string) batch_op" where
  "sealed_op ope = (case ope of Put k v \<Rightarrow> Put k (sealed v) | Del k \<Rightarrow> Del k)"

lemma encrypt_op_plain: "encrypt_op V x = Inr y \<Longrightarrow> \<exists>p. plain_op x = Some p \<and> y = sealed_op p"
  by (cases x) (auto simp: encrypt_op_def plain_op_def sealed_op_def encrypt_def sealed_def
      rbind_def rmap_def split: sum.splits option.splits)

lemma encrypt_ops_plain: "encrypt_ops V xs = Inr es \<Longrightarrow> es = map sealed_op (List.map_filter plain_op xs)"
proof (induction xs arbitrary: es)
  case (Cons x xs)
  then obtain y ys where y: "encrypt_op V x = Inr y" and ys: "encrypt_ops V xs = Inr ys" and "es = y # ys"
    by (cases "encrypt_op V x"; cases "encrypt_ops V xs") auto
  with Cons.IH [OF ys] encrypt_op_plain [OF y] show ?case by (auto simp: List.map_filter_simps)
qed (simp add: List.map_filter_simps)

lemma batch_sealed: "jsmap.batch (map sealed_op ps) db = vaulted.batch ps db"
proof (induction ps arbitrary: db)
  case (Cons p ps)
  then show ?case
    by (cases p) (simp_all add: jsmap.batch_def vaulted.batch_def jsmap.run_def vaulted.run_def sealed_op_def)
qed (simp add: jsmap.batch_def vaulted.batch_def)

lemma private_batch_text:
  assumes "private_batch V xs db = Inr db'"
  shows "map_get db' k = (case find (\<lambda>x. op_key x = k) (rev (List.map_filter plain_op xs)) of
      Some x \<Rightarrow> map_option sealed (op_value x) | None \<Rightarrow> map_get db k)"
proof -
  let ?ps = "List.map_filter plain_op xs"
  obtain es where es: "encrypt_ops V xs = Inr es" "db' = jsmap.batch es db"
    using assms by (cases "encrypt_ops V xs") (auto simp: private_batch_def)
  have k: "op_key (sealed_op p) = op_key p" "op_value (sealed_op p) = map_option sealed (op_value p)" for p
    by (cases p; simp add: sealed_op_def)+
  have f: "find (\<lambda>x. op_key x = k) (map sealed_op ps) = map_option sealed_op (find (\<lambda>x. op_key x = k) ps)" for ps
    by (induction ps) (simp_all add: k)
  have "list_all jsmap.storable (map sealed_op ?ps)" by (simp add: list_all_iff jsmap.storable_def)
  then show ?thesis
    unfolding es(2) encrypt_ops_plain [OF es(1)]
    by (subst jsmap.get_batch) (simp_all add: rev_map f k split: option.splits)
qed

lemma private_batch_get:
  assumes "private_batch V xs db = Inr db'" and "assertKey k = Inr ()"
    and "\<forall>k v. PutOp k (Some v) \<in> set xs \<longrightarrow> plain_json v"
  shows "private_get V db' k = (case find (\<lambda>x. op_key x = k) (rev (List.map_filter plain_op xs)) of
      Some x \<Rightarrow> Inr (op_value x) | None \<Rightarrow> private_get V db k)"
proof (cases "find (\<lambda>x. op_key x = k) (rev (List.map_filter plain_op xs))")
  case None
  then show ?thesis using private_batch_text [OF assms(1), of k] by (simp add: private_get_def)
next
  case (Some x)
  then have "x \<in> set (rev (List.map_filter plain_op xs))" unfolding find_Some_iff by (metis nth_mem)
  then have "x \<in> set (List.map_filter plain_op xs)" by simp
  then obtain y where y: "y \<in> set xs" "plain_op y = Some x" by (auto simp: mem_map_filter)
  then have "op_value x = Some v \<Longrightarrow> plain_json v" for v
    using plain_op_put [of y x v] assms(3) by blast
  then show ?thesis
    using private_batch_text [OF assms(1), of k] Some assms(2) by (cases "op_value x") (simp_all add: private_get_def)
qed

lemma private_put_get:
  assumes "private_put V key (Some v) db = Inr db'" and "plain_json v" and "assertKey k = Inr ()"
  shows "private_get V db' k = (if k = key then Inr (Some v) else private_get V db k)"
proof -
  have "db' = map_set key (sealed v) db"
    using assms(1) by (cases "assertKey key") (auto simp: private_put_def encrypt_sealed)
  with assms(2,3) show ?thesis by (simp add: private_get_def)
qed

end

text \<open>A vault for concrete runs.\<close>

definition demo_vault :: vault where
  "demo_vault = \<lparr>encryptionAvailable = True, selectedBackend = None,
     encryptString = text_bytes, decryptString = (\<lambda>b. Inr (bytes_text b)),
     toFloat = JFloat, from_base64 = of_base64\<rparr>"

interpretation demo: vault_laws demo_vault
proof unfold_locales
  fix t b
  show "decryptString demo_vault (encryptString demo_vault t) = Inr t"
    by (simp add: demo_vault_def)
  show "from_base64 demo_vault (to_base64 b) = b"
    by (simp add: demo_vault_def of_base64_to_base64)
qed

end
