(* ===== verification/ProfileBundle.thy ===== *)
theory ProfileBundle
  imports PrivateState
begin

text \<open>
  \<^verbatim>\<open>src-electron/signal-profile-bundle.js\<close>: the public bundle of pre-keys a profile publishes,
  its validation and its strict text form.  The Signal library is the fields of
  \<open>signal_keys\<close>.
\<close>


section \<open>Bundles\<close>

definition MAX_REGISTRATION_ID :: int where "MAX_REGISTRATION_ID = 16380"
definition MAX_RECORD_ID :: int where "MAX_RECORD_ID = 0xffffffff"
definition BUNDLE_VERSION :: int where "BUNDLE_VERSION = 1"
definition BUNDLE_KIND :: string where "BUNDLE_KIND = ''signal-v2''"
definition DEVICE_ID :: int where "DEVICE_ID = 1"
definition KEY_LENGTH :: nat where "KEY_LENGTH = 33"
definition SIGNATURE_LENGTH :: nat where "SIGNATURE_LENGTH = 64"
definition KYBER_KEY_LENGTH :: nat where "KYBER_KEY_LENGTH = 1569"
definition MAX_SERIALIZED_LENGTH :: nat where "MAX_SERIALIZED_LENGTH = 4096"

text \<open>A bundle before validation: the numbers are values of any kind, or \<^verbatim>\<open>undefined\<close>.\<close>

record 'n prekey_bundle =
  registrationId :: 'n
  deviceId :: 'n
  identity_key :: bytes
  preKey_id :: 'n
  preKey :: bytes
  signedPreKey_id :: 'n
  signedPreKey :: bytes
  signedPreKey_signature :: bytes
  kyberPreKey_id :: 'n
  kyberPreKey :: bytes
  kyberPreKey_signature :: bytes

type_synonym raw_bundle = "json option prekey_bundle"
type_synonym public_bundle = "int prekey_bundle"

definition assertInteger :: "json option \<Rightarrow> string \<Rightarrow> int \<Rightarrow> int res" where
  "assertInteger value name mx =
     (case value of
        Some (JInt n) \<Rightarrow> if n < 1 \<or> n > mx then Inl (PlainError (''Invalid '' @ name)) else Inr n
      | _ \<Rightarrow> Inl (PlainError (''Invalid '' @ name)))"

fun check_lengths :: "(string \<times> bytes \<times> nat) list \<Rightarrow> unit res" where
  "check_lengths [] = Inr ()"
| "check_lengths ((name, value, len) # rest) =
     (if length value \<noteq> len then Inl (PlainError (''Invalid '' @ name)) else check_lengths rest)"

definition validateBundle :: "raw_bundle \<Rightarrow> public_bundle res" where
  "validateBundle b =
     rbind (assertInteger (registrationId b) ''registration id'' MAX_REGISTRATION_ID) (\<lambda>rid.
     if deviceId b \<noteq> Some (JInt DEVICE_ID) then Inl (PlainError ''Unsupported Signal device id'')
     else rbind (assertInteger (preKey_id b) ''pre-key id'' MAX_RECORD_ID) (\<lambda>pid.
     rbind (assertInteger (signedPreKey_id b) ''signed pre-key id'' MAX_RECORD_ID) (\<lambda>sid.
     rbind (assertInteger (kyberPreKey_id b) ''Kyber pre-key id'' MAX_RECORD_ID) (\<lambda>kid.
     rbind (check_lengths
       [(''identity key'', identity_key b, KEY_LENGTH),
        (''pre-key'', preKey b, KEY_LENGTH),
        (''signed pre-key'', signedPreKey b, KEY_LENGTH),
        (''signed pre-key signature'', signedPreKey_signature b, SIGNATURE_LENGTH),
        (''Kyber pre-key'', kyberPreKey b, KYBER_KEY_LENGTH),
        (''Kyber pre-key signature'', kyberPreKey_signature b, SIGNATURE_LENGTH)]) (\<lambda>_.
     Inr \<lparr>registrationId = rid, deviceId = DEVICE_ID, identity_key = identity_key b,
          preKey_id = pid, preKey = preKey b,
          signedPreKey_id = sid, signedPreKey = signedPreKey b,
          signedPreKey_signature = signedPreKey_signature b,
          kyberPreKey_id = kid, kyberPreKey = kyberPreKey b,
          kyberPreKey_signature = kyberPreKey_signature b\<rparr>)))))"

section \<open>Text form\<close>

definition bundle_json :: "public_bundle \<Rightarrow> json" where
  "bundle_json n =
     JObj [(''kind'', JStr BUNDLE_KIND), (''version'', JInt BUNDLE_VERSION),
       (''registrationId'', JInt (registrationId n)), (''deviceId'', JInt (deviceId n)),
       (''identityKey'', JStr (to_base64 (identity_key n))),
       (''preKey'', JObj [(''id'', JInt (preKey_id n)), (''publicKey'', JStr (to_base64 (preKey n)))]),
       (''signedPreKey'', JObj [(''id'', JInt (signedPreKey_id n)),
          (''publicKey'', JStr (to_base64 (signedPreKey n))),
          (''signature'', JStr (to_base64 (signedPreKey_signature n)))]),
       (''kyberPreKey'', JObj [(''id'', JInt (kyberPreKey_id n)),
          (''publicKey'', JStr (to_base64 (kyberPreKey n))),
          (''signature'', JStr (to_base64 (kyberPreKey_signature n)))])]"

definition serializePublicBundle :: "raw_bundle \<Rightarrow> bytes res" where
  "serializePublicBundle b = rmap (\<lambda>n. text_bytes (JSON_stringify (bundle_json n))) (validateBundle b)"

text \<open>The library's lenient base64 decoder, tamed: only the canonical text of the right length
  passes.\<close>

definition decode :: "vault \<Rightarrow> json option \<Rightarrow> string \<Rightarrow> nat \<Rightarrow> bytes res" where
  "decode V value name len =
     (case value of
        Some (JStr t) \<Rightarrow>
          (let decoded = from_base64 V t
           in if length decoded \<noteq> len \<or> to_base64 decoded \<noteq> t then Inl (PlainError (''Invalid '' @ name))
              else Inr decoded)
      | _ \<Rightarrow> Inl (PlainError (''Invalid '' @ name)))"

definition parsePublicBundle :: "vault \<Rightarrow> bytes \<Rightarrow> public_bundle res" where
  "parsePublicBundle V raw =
     (if raw = [] \<or> length raw > MAX_SERIALIZED_LENGTH
      then Inl (PlainError ''Invalid Signal profile bundle length'')
      else case JSON_parse (toFloat V) (utf8_decode raw) of
        None \<Rightarrow> Inl (PlainError ''Invalid Signal profile bundle encoding'')
      | Some value \<Rightarrow>
          let v = opt_prop (Some value) in
          if \<not> (case value of JObj kvs \<Rightarrow> True | _ \<Rightarrow> False) \<or> v ''kind'' \<noteq> Some (JStr BUNDLE_KIND) \<or>
             v ''version'' \<noteq> Some (JInt BUNDLE_VERSION)
          then Inl (PlainError ''Unsupported Signal profile bundle'')
          else let pre = opt_prop (v ''preKey''); spre = opt_prop (v ''signedPreKey'');
                   kyb = opt_prop (v ''kyberPreKey'')
          in rbind (decode V (v ''identityKey'') ''identity key'' KEY_LENGTH) (\<lambda>ik.
             rbind (decode V (pre ''publicKey'') ''pre-key'' KEY_LENGTH) (\<lambda>pk.
             rbind (decode V (spre ''publicKey'') ''signed pre-key'' KEY_LENGTH) (\<lambda>sk.
             rbind (decode V (spre ''signature'') ''signed pre-key signature'' SIGNATURE_LENGTH) (\<lambda>ss.
             rbind (decode V (kyb ''publicKey'') ''Kyber pre-key'' KYBER_KEY_LENGTH) (\<lambda>kk.
             rbind (decode V (kyb ''signature'') ''Kyber pre-key signature'' SIGNATURE_LENGTH) (\<lambda>ks.
               validateBundle
                 \<lparr>registrationId = v ''registrationId'', deviceId = v ''deviceId'', identity_key = ik,
                  preKey_id = pre ''id'', preKey = pk,
                  signedPreKey_id = spre ''id'', signedPreKey = sk, signedPreKey_signature = ss,
                  kyberPreKey_id = kyb ''id'', kyberPreKey = kk, kyberPreKey_signature = ks\<rparr>)))))))"

section \<open>Bundles for the Signal library\<close>

record ('k, 'b) signal_keys =
  pub_deserialize :: "bytes \<Rightarrow> 'k res"
  kem_deserialize :: "bytes \<Rightarrow> 'k res"
  pub_verify :: "'k \<Rightarrow> bytes \<Rightarrow> bytes \<Rightarrow> bool res"
  new_PreKeyBundle :: "public_bundle \<Rightarrow> 'k \<Rightarrow> 'k \<Rightarrow> 'k \<Rightarrow> 'k \<Rightarrow> 'b res"

definition toPreKeyBundle :: "('k, 'b) signal_keys \<Rightarrow> raw_bundle \<Rightarrow> 'b res" where
  "toPreKeyBundle S b =
     rbind (validateBundle b) (\<lambda>n.
     rbind (pub_deserialize S (identity_key n)) (\<lambda>ik.
     rbind (pub_deserialize S (preKey n)) (\<lambda>pk.
     rbind (pub_deserialize S (signedPreKey n)) (\<lambda>sk.
     rbind (kem_deserialize S (kyberPreKey n)) (\<lambda>kk.
     rbind (pub_verify S ik (signedPreKey n) (signedPreKey_signature n)) (\<lambda>ok1.
     rbind (if ok1 then pub_verify S ik (kyberPreKey n) (kyberPreKey_signature n) else Inr False) (\<lambda>ok2.
       if \<not> ok2 then Inl (PlainError ''Invalid Signal profile bundle signature'')
       else new_PreKeyBundle S n pk sk ik kk)))))))"

section \<open>Lengths and encodings\<close>

fun ascii_json :: "json \<Rightarrow> bool" where
  "ascii_json (JFloat t) \<longleftrightarrow> ascii t"
| "ascii_json (JStr s) \<longleftrightarrow> ascii s"
| "ascii_json (JArr xs) \<longleftrightarrow> list_all ascii_json xs"
| "ascii_json (JObj kvs) \<longleftrightarrow> list_all ascii (map fst kvs) \<and> list_all ascii_json (map snd kvs)"
| "ascii_json _ \<longleftrightarrow> True"

lemma hex_char_ascii: "n < 16 \<Longrightarrow> (of_char (hex_char n) :: nat) < 128"
proof -
  have "list_all (\<lambda>n. (of_char (hex_char n) :: nat) < 128) [0..<16]" by code_simp
  then show "n < 16 \<Longrightarrow> (of_char (hex_char n) :: nat) < 128" by (simp add: list_all_iff)
qed

lemma ascii_quote: "ascii s \<Longrightarrow> ascii (quote s)"
proof -
  have "(of_char c :: nat) < 128 \<Longrightarrow> ascii (quote_char c)" for c
    by (auto simp: quote_char_def Let_def intro!: hex_char_ascii)
  then show "ascii s \<Longrightarrow> ascii (quote s)" by (induction s) (simp_all add: quote_def)
qed

lemma ascii_nat_dec: "ascii (nat_dec n)"
  by (induction n rule: nat_dec.induct) (subst nat_dec.simps, simp add: hex_char_ascii)

lemma ascii_join: "ascii sep \<Longrightarrow> list_all ascii xs \<Longrightarrow> ascii (join_with sep xs)"
  by (induction sep xs rule: join_with.induct) simp_all

lemma ascii_stringify: "ascii_json v \<Longrightarrow> ascii (JSON_stringify v)"
proof (induction v rule: ascii_json.induct)
  case (3 xs)
  then show ?case by (auto simp: list_all_iff intro!: ascii_join)
next
  case (4 kvs)
  then have "list_all ascii (map (\<lambda>(k, v). quote k @ '':'' @ JSON_stringify v) kvs)"
    by (fastforce simp: list_all_iff ascii_quote)
  then show ?case by (simp add: ascii_join)
qed (auto simp: ascii_quote int_text_def ascii_nat_dec)

lemma b64_char_plain: "n < 64 \<Longrightarrow> (of_char (b64_char n) :: nat) < 128 \<and> quote_char (b64_char n) = [b64_char n]"
proof -
  have *: "quote_char (char_of k) = [char_of k]" if "k \<in> {43, 47} \<union> {48..122}" "k \<noteq> 92" for k :: nat
    using that by (auto simp: quote_char_def Let_def)
  assume "n < 64"
  then show ?thesis
    by (auto simp: b64_char_def intro!: *)
qed

lemma base64_plain: "list_all (\<lambda>c. (of_char c :: nat) < 128 \<and> quote_char c = [c]) (to_base64 bs)"
proof (induction bs rule: to_base64.induct)
  case (2 a)
  have "unat a * 65536 div 262144 < 64"
    using unat_byte_less [of a] by (simp add: div_less_iff_less_mult)
  then show ?case using b64_char_plain by (simp add: Let_def quote_char_def)
next
  case (3 a b)
  have "(unat a * 65536 + unat b * 256) div 262144 < 64"
    using byte3(1) [of a b 0] by (simp add: div_less_iff_less_mult)
  then show ?case using b64_char_plain by (simp add: Let_def quote_char_def)
next
  case (4 a b c ds)
  have "(unat a * 65536 + unat b * 256 + unat c) div 262144 < 64"
    using byte3(1) [of a b c] by (simp add: div_less_iff_less_mult)
  then show ?case using 4 b64_char_plain by (simp add: Let_def)
qed simp

lemma ascii_base64 [simp]: "ascii (to_base64 bs)"
  using base64_plain [of bs] by (auto simp: ascii_def list_all_iff)

lemma length_quote_base64: "length (quote (to_base64 bs)) = length (to_base64 bs) + 2"
proof -
  have "list_all (\<lambda>c. quote_char c = [c]) s \<Longrightarrow> concat (map quote_char s) = s" for s
    by (induction s) simp_all
  moreover have "list_all (\<lambda>c. quote_char c = [c]) (to_base64 bs)"
    using base64_plain [of bs] by (auto simp: list_all_iff)
  ultimately show ?thesis by (simp add: quote_def)
qed

lemma length_nat_dec: "0 < k \<Longrightarrow> n < 10 ^ k \<Longrightarrow> length (nat_dec n) \<le> k"
proof (induction n arbitrary: k rule: nat_dec.induct)
  case (1 n)
  show ?case
  proof (cases "n < 10")
    case True
    then show ?thesis using "1.prems" by (subst nat_dec.simps) simp
  next
    case False
    then obtain j where k: "k = Suc j" "0 < j" using "1.prems" by (cases k; cases "k - 1") auto
    then have "n div 10 < 10 ^ j" using "1.prems" by (simp add: div_less_iff_less_mult)
    from "1.IH" [OF False k(2) this] False k show ?thesis by (subst nat_dec.simps) simp
  qed
qed

definition valid_bundle :: "public_bundle \<Rightarrow> bool" where
  "valid_bundle n \<longleftrightarrow> 1 \<le> registrationId n \<and> registrationId n \<le> MAX_REGISTRATION_ID \<and> deviceId n = DEVICE_ID \<and>
     1 \<le> preKey_id n \<and> preKey_id n \<le> MAX_RECORD_ID \<and> 1 \<le> signedPreKey_id n \<and> signedPreKey_id n \<le> MAX_RECORD_ID \<and>
     1 \<le> kyberPreKey_id n \<and> kyberPreKey_id n \<le> MAX_RECORD_ID \<and>
     length (identity_key n) = KEY_LENGTH \<and> length (preKey n) = KEY_LENGTH \<and> length (signedPreKey n) = KEY_LENGTH \<and>
     length (signedPreKey_signature n) = SIGNATURE_LENGTH \<and> length (kyberPreKey n) = KYBER_KEY_LENGTH \<and>
     length (kyberPreKey_signature n) = SIGNATURE_LENGTH"

definition raw_of :: "public_bundle \<Rightarrow> raw_bundle" where
  "raw_of n = \<lparr>registrationId = Some (JInt (registrationId n)), deviceId = Some (JInt (deviceId n)),
     identity_key = identity_key n, preKey_id = Some (JInt (preKey_id n)), preKey = preKey n,
     signedPreKey_id = Some (JInt (signedPreKey_id n)), signedPreKey = signedPreKey n,
     signedPreKey_signature = signedPreKey_signature n, kyberPreKey_id = Some (JInt (kyberPreKey_id n)),
     kyberPreKey = kyberPreKey n, kyberPreKey_signature = kyberPreKey_signature n\<rparr>"

lemma assertInteger_Inr: "assertInteger v name mx = Inr n \<longleftrightarrow> v = Some (JInt n) \<and> 1 \<le> n \<and> n \<le> mx"
  by (auto simp: assertInteger_def split: option.splits json.splits)

lemma rbind_Inr: "rbind m f = Inr y \<longleftrightarrow> (\<exists>x. m = Inr x \<and> f x = Inr y)"
  by (cases m) simp_all

lemma validateBundle_Inr: "validateBundle b = Inr n \<longleftrightarrow> b = raw_of n \<and> valid_bundle n"
proof
  assume v: "validateBundle b = Inr n"
  have c: "(if P then Inl e else m) = Inr y \<longleftrightarrow> \<not> P \<and> m = Inr y" for P e and m :: "'x res" and y by simp
  show "b = raw_of n \<and> valid_bundle n"
    using v unfolding validateBundle_def rbind_Inr check_lengths.simps c assertInteger_Inr
    by (elim exE conjE) (cases b; cases n; simp add: raw_of_def valid_bundle_def)
next
  assume "b = raw_of n \<and> valid_bundle n"
  then show "validateBundle b = Inr n"
    by (cases n) (simp add: raw_of_def valid_bundle_def validateBundle_def assertInteger_def)
qed

lemma length_int_text: "1 \<le> n \<Longrightarrow> n \<le> MAX_RECORD_ID \<Longrightarrow> length (int_text n) \<le> 10"
  using length_nat_dec [of 10 "nat n"] by (simp add: int_text_def MAX_RECORD_ID_def)

lemma length_bundle_text:
  assumes "valid_bundle n"
  shows "length (JSON_stringify (bundle_json n)) \<le> MAX_SERIALIZED_LENGTH"
proof -
  have i: "length (int_text (registrationId n)) \<le> 10" "length (int_text (preKey_id n)) \<le> 10"
    "length (int_text (signedPreKey_id n)) \<le> 10" "length (int_text (kyberPreKey_id n)) \<le> 10"
    using assms by (auto simp: valid_bundle_def MAX_REGISTRATION_ID_def MAX_RECORD_ID_def intro!: length_int_text)
  have one: "length (int_text 1) = 1" by code_simp
  have k: "length (quote ''kind'') = 6" "length (quote ''version'') = 9" "length (quote ''registrationId'') = 16"
    "length (quote ''deviceId'') = 10" "length (quote ''identityKey'') = 13" "length (quote ''preKey'') = 8"
    "length (quote ''signedPreKey'') = 14" "length (quote ''kyberPreKey'') = 13" "length (quote ''id'') = 4"
    "length (quote ''publicKey'') = 11" "length (quote ''signature'') = 11" "length (quote BUNDLE_KIND) = 11"
    by code_simp+
  have b: "length (to_base64 (identity_key n)) = 44" "length (to_base64 (preKey n)) = 44"
    "length (to_base64 (signedPreKey n)) = 44" "length (to_base64 (signedPreKey_signature n)) = 88"
    "length (to_base64 (kyberPreKey n)) = 2092" "length (to_base64 (kyberPreKey_signature n)) = 88"
    using assms by (simp_all add: valid_bundle_def length_to_base64 KEY_LENGTH_def SIGNATURE_LENGTH_def KYBER_KEY_LENGTH_def)
  have d: "deviceId n = 1" using assms by (simp add: valid_bundle_def DEVICE_ID_def)
  show ?thesis
    using i by (simp add: bundle_json_def BUNDLE_VERSION_def k b d one length_quote_base64 MAX_SERIALIZED_LENGTH_def)
qed

lemma bundle_json_plain: "plain_json (bundle_json n)" "ascii_json (bundle_json n)"
  by (simp_all add: bundle_json_def BUNDLE_KIND_def)

lemma decode_canonical: "from_base64 V (to_base64 d) = d \<Longrightarrow> length d = len \<Longrightarrow>
    decode V (Some (JStr (to_base64 d))) name len = Inr d"
  by (simp add: decode_def)

lemma parse_bundle_text:
  assumes "valid_bundle n" and law: "\<forall>d. from_base64 V (to_base64 d) = d"
  shows "parsePublicBundle V (text_bytes (JSON_stringify (bundle_json n))) = Inr n"
proof -
  let ?t = "JSON_stringify (bundle_json n)"
  have u: "utf8_decode (text_bytes ?t) = ?t"
    by (intro utf8_decode_ascii ascii_stringify bundle_json_plain)
  have l: "text_bytes ?t \<noteq> []" "length (text_bytes ?t) \<le> MAX_SERIALIZED_LENGTH"
    using length_bundle_text [OF assms(1)] by (simp_all add: text_bytes_def bundle_json_def)
  have p: "JSON_parse (toFloat V) ?t = Some (bundle_json n)"
    by (rule JSON_parse_stringify [OF bundle_json_plain(1)])
  have dec: "length d = len \<Longrightarrow> decode V (Some (JStr (to_base64 d))) name len = Inr d" for d len name
    using law by (intro decode_canonical) simp_all
  have v: "validateBundle (raw_of n) = Inr n" using assms(1) by (simp add: validateBundle_Inr)
  show ?thesis
    unfolding parsePublicBundle_def u p using l assms(1) v
    by (simp add: bundle_json_def opt_prop_def Let_def dec valid_bundle_def raw_of_def)
qed

section \<open>Properties\<close>

text \<open>The text form of a profile bundle loses nothing and always fits: whatever bundle
  passes validation is serialised to at most 4096 bytes, which the strict parser accepts and
  turns back into the validated bundle.  The one thing asked of the platform's lenient base64
  decoder is that it reads canonical base64.\<close>

theorem bundle_roundtrip:
  assumes "validateBundle b = Inr n" and "\<forall>d. from_base64 V (to_base64 d) = d"
  shows "\<exists>raw. serializePublicBundle b = Inr raw \<and> length raw \<le> MAX_SERIALIZED_LENGTH \<and>
    parsePublicBundle V raw = Inr n"
proof -
  have "valid_bundle n" using assms(1) by (simp add: validateBundle_Inr)
  from parse_bundle_text [OF this assms(2)] length_bundle_text [OF this] assms(1) show ?thesis
    by (simp add: serializePublicBundle_def)
qed

definition demo_bundle :: public_bundle where
  "demo_bundle = \<lparr>registrationId = 7, deviceId = 1, identity_key = replicate 33 1, preKey_id = 1,
     preKey = replicate 33 2, signedPreKey_id = 2, signedPreKey = replicate 33 3,
     signedPreKey_signature = replicate 64 4, kyberPreKey_id = 3, kyberPreKey = replicate 1569 5,
     kyberPreKey_signature = replicate 64 6\<rparr>"

lemma demo_bundle_valid: "valid_bundle demo_bundle"
  by (simp add: valid_bundle_def demo_bundle_def MAX_REGISTRATION_ID_def MAX_RECORD_ID_def DEVICE_ID_def
      KEY_LENGTH_def SIGNATURE_LENGTH_def KYBER_KEY_LENGTH_def)

theorem bundle_roundtrip_witness:
  "\<exists>raw. serializePublicBundle (raw_of demo_bundle) = Inr raw \<and> parsePublicBundle demo_vault raw = Inr demo_bundle"
proof -
  have "validateBundle (raw_of demo_bundle) = Inr demo_bundle"
    using demo_bundle_valid by (simp add: validateBundle_Inr)
  moreover have "\<forall>d. from_base64 demo_vault (to_base64 d) = d" using demo.decode_encode by blast
  ultimately show ?thesis using bundle_roundtrip by blast
qed

end
