(* ===== verification/SignalStore.thy ===== *)
theory SignalStore
  imports ProfileBundle
begin

text \<open>
  \<^verbatim>\<open>src-electron/signal-store.js\<close> and \<^verbatim>\<open>signal-profile.js\<close>: the staged store of messaging keys and
  sessions over the private state, committed in one batch or discarded, and the provisioning
  of a profile.  The Signal library's objects are the type \<open>'k\<close>, known by their serialised
  form.
\<close>


section \<open>Keys\<close>

definition keyPart :: "string \<Rightarrow> string" where
  "keyPart value = encodeURIComponent value"

definition identityKey :: "string \<Rightarrow> string" where
  "identityKey identityId = ''identity/'' @ keyPart identityId"

definition peerKey :: "string \<Rightarrow> string \<Rightarrow> string" where
  "peerKey identityId address = ''peer/'' @ keyPart identityId @ ''/'' @ keyPart address"

definition sessionKey :: "string \<Rightarrow> string \<Rightarrow> string" where
  "sessionKey identityId address = ''session/'' @ keyPart identityId @ ''/'' @ keyPart address"

definition preKeyKey :: "string \<Rightarrow> nat \<Rightarrow> string" where
  "preKeyKey identityId n = ''prekey/'' @ keyPart identityId @ ''/'' @ nat_dec n"

definition signedPreKeyKey :: "string \<Rightarrow> nat \<Rightarrow> string" where
  "signedPreKeyKey identityId n = ''signed-prekey/'' @ keyPart identityId @ ''/'' @ nat_dec n"

definition kyberPreKeyKey :: "string \<Rightarrow> nat \<Rightarrow> string" where
  "kyberPreKeyKey identityId n = ''kyber-prekey/'' @ keyPart identityId @ ''/'' @ nat_dec n"

definition usedKyberPreKey :: "string \<Rightarrow> nat \<Rightarrow> string" where
  "usedKyberPreKey identityId n = ''prekey-used/'' @ keyPart identityId @ ''/'' @ nat_dec n"

section \<open>The staged store\<close>

text \<open>
  \<open>pending\<close> holds the operations that were staged, by key: \<open>Some v\<close> for a \<^verbatim>\<open>put\<close>, \<open>None\<close> for a
  \<^verbatim>\<open>del\<close>.
\<close>

record staged =
  identityId :: string
  localIdentity :: json
  pending :: "(string, json option) js_map"
  finalized :: bool

definition truthy :: "json option \<Rightarrow> bool" where
  "truthy v \<longleftrightarrow> v \<notin> {None, Some JNull, Some (JBool False), Some (JInt 0), Some (JStr [])}"

definition createStagedSignalStore :: "vault \<Rightarrow> database \<Rightarrow> string \<Rightarrow> staged res" where
  "createStagedSignalStore V db identity =
     rbind (private_get V db (identityKey identity)) (\<lambda>v.
       case v of
         Some w \<Rightarrow>
           if truthy v \<and> truthy (opt_prop v ''privateKey'') \<and> truthy (opt_prop v ''registrationId'')
           then Inr \<lparr>identityId = identity, localIdentity = w, pending = [], finalized = False\<rparr>
           else Inl (PlainError ''Missing private messaging identity'')
       | None \<Rightarrow> Inl (PlainError ''Missing private messaging identity''))"

definition assertActive :: "staged \<Rightarrow> unit res" where
  "assertActive s = (if finalized s then Inl (PlainError ''Signal state adapter is finalized'') else Inr ())"

definition load :: "vault \<Rightarrow> database \<Rightarrow> staged \<Rightarrow> string \<Rightarrow> json option res" where
  "load V db s key = (case map_get (pending s) key of Some v \<Rightarrow> Inr v | None \<Rightarrow> private_get V db key)"

definition stage_put :: "string \<Rightarrow> json \<Rightarrow> staged \<Rightarrow> staged res" where
  "stage_put key value s = rmap (\<lambda>_. s\<lparr>pending := map_set key (Some value) (pending s)\<rparr>) (assertActive s)"

definition stage_del :: "string \<Rightarrow> staged \<Rightarrow> staged res" where
  "stage_del key s = rmap (\<lambda>_. s\<lparr>pending := map_set key None (pending s)\<rparr>) (assertActive s)"

definition pending_op :: "string \<times> json option \<Rightarrow> state_op" where
  "pending_op kv = (case kv of (k, Some v) \<Rightarrow> PutOp k (Some v) | (k, None) \<Rightarrow> DelOp k)"

definition commit :: "vault \<Rightarrow> state_op list \<Rightarrow> staged \<Rightarrow> database \<Rightarrow> (staged \<times> database) res" where
  "commit V additional s db =
     rbind (assertActive s) (\<lambda>_.
     rmap (\<lambda>db'. (s\<lparr>finalized := True\<rparr>, db')) (private_batch V (map pending_op (pending s) @ additional) db))"

definition discard :: "staged \<Rightarrow> staged res" where
  "discard s = rmap (\<lambda>_. s\<lparr>pending := [], finalized := True\<rparr>) (assertActive s)"

section \<open>The interface of the Signal library\<close>

text \<open>
  A stored value is an object with the base64 text of a serialised object; a value without
  that text makes \<^verbatim>\<open>Buffer.from\<close> throw.
\<close>

record 'k signal_lib =
  serialize :: "'k \<Rightarrow> bytes"
  read_private :: "bytes \<Rightarrow> 'k res"
  read_public :: "bytes \<Rightarrow> 'k res"
  read_session :: "bytes \<Rightarrow> 'k res"
  read_prekey :: "bytes \<Rightarrow> 'k res"
  read_signed :: "bytes \<Rightarrow> 'k res"
  read_kyber :: "bytes \<Rightarrow> 'k res"
  same_key :: "'k \<Rightarrow> 'k \<Rightarrow> bool"

definition encoded :: "'k signal_lib \<Rightarrow> string \<Rightarrow> 'k \<Rightarrow> json" where
  "encoded L name x = JObj [(name, JStr (to_base64 (serialize L x)))]"

definition decoded :: "vault \<Rightarrow> (bytes \<Rightarrow> 'k res) \<Rightarrow> string \<Rightarrow> json option \<Rightarrow> 'k res" where
  "decoded V rdr name v =
     (case opt_prop v name of Some (JStr t) \<Rightarrow> rdr (from_base64 V t) | _ \<Rightarrow> Inl TypeErr)"

definition getIdentityKey :: "vault \<Rightarrow> 'k signal_lib \<Rightarrow> staged \<Rightarrow> 'k res" where
  "getIdentityKey V L s = decoded V (read_private L) ''privateKey'' (Some (localIdentity s))"

definition getLocalRegistrationId :: "staged \<Rightarrow> json option" where
  "getLocalRegistrationId s = opt_prop (Some (localIdentity s)) ''registrationId''"

definition getIdentity :: "vault \<Rightarrow> 'k signal_lib \<Rightarrow> database \<Rightarrow> staged \<Rightarrow> string \<Rightarrow> 'k option res" where
  "getIdentity V L db s address =
     rbind (load V db s (peerKey (identityId s) address)) (\<lambda>v.
       if truthy v then rmap Some (decoded V (read_public L) ''publicKey'' v) else Inr None)"

definition isTrustedIdentity :: "vault \<Rightarrow> 'k signal_lib \<Rightarrow> database \<Rightarrow> staged \<Rightarrow> string \<Rightarrow> 'k \<Rightarrow> bool res" where
  "isTrustedIdentity V L db s address key =
     rmap (\<lambda>known. case known of None \<Rightarrow> True | Some k \<Rightarrow> same_key L k key) (getIdentity V L db s address)"

datatype identity_change = ReplacedExisting | NewOrUnchanged

definition saveIdentity ::
  "vault \<Rightarrow> 'k signal_lib \<Rightarrow> database \<Rightarrow> string \<Rightarrow> 'k \<Rightarrow> staged \<Rightarrow> (identity_change \<times> staged) res" where
  "saveIdentity V L db address key s =
     rbind (getIdentity V L db s address) (\<lambda>known.
     rmap (\<lambda>s'. (case known of Some k \<Rightarrow> if same_key L k key then NewOrUnchanged else ReplacedExisting
                  | None \<Rightarrow> NewOrUnchanged, s'))
       (stage_put (peerKey (identityId s) address) (encoded L ''publicKey'' key) s))"

definition saveSession :: "'k signal_lib \<Rightarrow> string \<Rightarrow> 'k \<Rightarrow> staged \<Rightarrow> staged res" where
  "saveSession L address rec s = stage_put (sessionKey (identityId s) address) (encoded L ''record'' rec) s"

definition getSession :: "vault \<Rightarrow> 'k signal_lib \<Rightarrow> database \<Rightarrow> staged \<Rightarrow> string \<Rightarrow> 'k option res" where
  "getSession V L db s address =
     rbind (load V db s (sessionKey (identityId s) address)) (\<lambda>v.
       if truthy v then rmap Some (decoded V (read_session L) ''record'' v) else Inr None)"

text \<open>The sessions there are; the first failure is the result.\<close>

fun getExistingSessions :: "vault \<Rightarrow> 'k signal_lib \<Rightarrow> database \<Rightarrow> staged \<Rightarrow> string list \<Rightarrow> 'k list res" where
  "getExistingSessions V L db s [] = Inr []"
| "getExistingSessions V L db s (a # as) =
     rbind (getSession V L db s a) (\<lambda>x.
     rmap (\<lambda>xs. case x of None \<Rightarrow> xs | Some y \<Rightarrow> y # xs) (getExistingSessions V L db s as))"

definition get_record ::
  "vault \<Rightarrow> (bytes \<Rightarrow> 'k res) \<Rightarrow> string \<Rightarrow> database \<Rightarrow> staged \<Rightarrow> string \<Rightarrow> 'k res" where
  "get_record V rdr missing db s key =
     rbind (load V db s key) (\<lambda>v.
       if truthy v then decoded V rdr ''record'' v else Inl (PlainError missing))"

definition savePreKey :: "'k signal_lib \<Rightarrow> nat \<Rightarrow> 'k \<Rightarrow> staged \<Rightarrow> staged res" where
  "savePreKey L n rec s = stage_put (preKeyKey (identityId s) n) (encoded L ''record'' rec) s"

definition getPreKey :: "vault \<Rightarrow> 'k signal_lib \<Rightarrow> database \<Rightarrow> staged \<Rightarrow> nat \<Rightarrow> 'k res" where
  "getPreKey V L db s n = get_record V (read_prekey L) ''Missing prekey'' db s (preKeyKey (identityId s) n)"

definition removePreKey :: "nat \<Rightarrow> staged \<Rightarrow> staged res" where
  "removePreKey n s = stage_del (preKeyKey (identityId s) n) s"

definition saveSignedPreKey :: "'k signal_lib \<Rightarrow> nat \<Rightarrow> 'k \<Rightarrow> staged \<Rightarrow> staged res" where
  "saveSignedPreKey L n rec s = stage_put (signedPreKeyKey (identityId s) n) (encoded L ''record'' rec) s"

definition getSignedPreKey :: "vault \<Rightarrow> 'k signal_lib \<Rightarrow> database \<Rightarrow> staged \<Rightarrow> nat \<Rightarrow> 'k res" where
  "getSignedPreKey V L db s n =
     get_record V (read_signed L) ''Missing signed prekey'' db s (signedPreKeyKey (identityId s) n)"

definition saveKyberPreKey :: "'k signal_lib \<Rightarrow> nat \<Rightarrow> 'k \<Rightarrow> staged \<Rightarrow> staged res" where
  "saveKyberPreKey L n rec s = stage_put (kyberPreKeyKey (identityId s) n) (encoded L ''record'' rec) s"

definition getKyberPreKey :: "vault \<Rightarrow> 'k signal_lib \<Rightarrow> database \<Rightarrow> staged \<Rightarrow> nat \<Rightarrow> 'k res" where
  "getKyberPreKey V L db s n =
     get_record V (read_kyber L) ''Missing Kyber prekey'' db s (kyberPreKeyKey (identityId s) n)"

definition markKyberPreKeyUsed :: "'k signal_lib \<Rightarrow> nat \<Rightarrow> nat \<Rightarrow> 'k \<Rightarrow> staged \<Rightarrow> staged res" where
  "markKyberPreKeyUsed L n signedPreKeyId baseKey s =
     stage_put (usedKyberPreKey (identityId s) n)
       (JObj [(''signedPreKeyId'', JInt (int signedPreKeyId)), (''baseKey'', JStr (to_base64 (serialize L baseKey)))]) s"

section \<open>Provisioning a profile\<close>

text \<open>
  The fresh keys of a provisioning and what is made of them: the serialised private identity
  key, the registration id, the three records, and the public parts with their signatures.
  \<open>sign\<close> is given the identity key that was read back from the store.
\<close>

record 'k fresh_keys =
  fk_identity :: 'k
  fk_registrationId :: nat
  fk_preKeyRecord :: 'k
  fk_signedPreKeyRecord :: "bytes \<Rightarrow> 'k"
  fk_kyberPreKeyRecord :: "bytes \<Rightarrow> 'k"
  fk_preKeyPublic :: bytes
  fk_signedPreKeyPublic :: bytes
  fk_kyberPreKeyPublic :: bytes
  fk_publicOf :: "'k \<Rightarrow> bytes"
  fk_sign :: "'k \<Rightarrow> bytes \<Rightarrow> bytes"

text \<open>\<^verbatim>\<open>toString('base64url')\<close>: the two special digits are replaced and the padding is left out.\<close>

definition to_base64url :: "bytes \<Rightarrow> string" where
  "to_base64url bs =
     map (\<lambda>c. if c = CHR ''+'' then CHR ''-'' else if c = CHR ''/'' then CHR ''_'' else c)
       (filter (\<lambda>c. c \<noteq> CHR ''='') (to_base64 bs))"

definition publicProfileKey :: "string \<Rightarrow> string res" where
  "publicProfileKey identity =
     (if identity = [] then Inl (PlainError ''Invalid Signal identity id'')
      else Inr (''signal-profile/'' @ to_base64url (text_bytes identity)))"

text \<open>The part inside the \<^verbatim>\<open>try\<close> block; its changes to the store are lost when it fails.\<close>

definition build_profile ::
  "vault \<Rightarrow> 'k signal_lib \<Rightarrow> 'k fresh_keys \<Rightarrow> string \<Rightarrow> json \<Rightarrow> staged \<Rightarrow> database \<Rightarrow> (public_bundle \<times> database) res" where
  "build_profile V L K profileKey localIdent s db =
     rbind (getIdentityKey V L s) (\<lambda>ident.
     let sig1 = fk_sign K ident (fk_signedPreKeyPublic K);
         sig2 = fk_sign K ident (fk_kyberPreKeyPublic K)
     in rbind (savePreKey L 1 (fk_preKeyRecord K) s) (\<lambda>s1.
        rbind (saveSignedPreKey L 2 (fk_signedPreKeyRecord K sig1) s1) (\<lambda>s2.
        rbind (saveKyberPreKey L 3 (fk_kyberPreKeyRecord K sig2) s2) (\<lambda>s3.
        let b = \<lparr>registrationId = opt_prop (Some localIdent) ''registrationId'', deviceId = Some (JInt 1),
                 identity_key = fk_publicOf K ident, preKey_id = Some (JInt 1), preKey = fk_preKeyPublic K,
                 signedPreKey_id = Some (JInt 2), signedPreKey = fk_signedPreKeyPublic K,
                 signedPreKey_signature = sig1, kyberPreKey_id = Some (JInt 3),
                 kyberPreKey = fk_kyberPreKeyPublic K, kyberPreKey_signature = sig2\<rparr>
        in rbind (serializePublicBundle b) (\<lambda>serialized.
           rbind (commit V [PutOp profileKey (Some (JObj [(''bundle'', JStr (to_base64 serialized))]))] s3 db)
             (\<lambda>(s4, db').
             rmap (\<lambda>n. (n, db')) (validateBundle b)))))))"

text \<open>
  The identity is written at once; the returned bundle has the fields of the validated one.
  The second component is the private state, whether the provisioning succeeded or not.
\<close>

definition provisionSignalProfile ::
  "vault \<Rightarrow> 'k signal_lib \<Rightarrow> 'k fresh_keys \<Rightarrow> string \<Rightarrow> database \<Rightarrow> public_bundle res \<times> database" where
  "provisionSignalProfile V L K identity db =
     (case rbind (publicProfileKey identity) (\<lambda>key. rmap (Pair key) (private_get V db key)) of
        Inl e \<Rightarrow> (Inl e, db)
      | Inr (profileKey, existing) \<Rightarrow>
        if truthy existing
        then (case opt_prop existing ''bundle'' of
                Some (JStr t) \<Rightarrow> (parsePublicBundle V (from_base64 V t), db)
              | _ \<Rightarrow> (Inl (PlainError ''Invalid stored Signal profile bundle''), db))
        else
          (case private_get V db (identityKey identity) of
             Inl e \<Rightarrow> (Inl e, db)
           | Inr stored \<Rightarrow>
             let fresh = JObj [(''privateKey'', JStr (to_base64 (serialize L (fk_identity K)))),
                               (''registrationId'', JInt (int (fk_registrationId K)))];
                 localIdent = (if truthy stored then the stored else fresh)
             in case (if truthy stored then Inr db else private_put V (identityKey identity) (Some fresh) db) of
                  Inl e \<Rightarrow> (Inl e, db)
                | Inr db1 \<Rightarrow>
                  (case rbind (createStagedSignalStore V db1 identity) (\<lambda>s.
                          build_profile V L K profileKey localIdent s db1) of
                     Inl e \<Rightarrow> (Inl e, db1)
                   | Inr (b, db2) \<Rightarrow> (Inr b, db2))))"

section \<open>What the staged store guarantees\<close>

text \<open>All the keys the adapter uses.\<close>

datatype signal_key =
    Identity string
  | Peer string string
  | Session string string
  | PreKey string nat
  | SignedPreKey string nat
  | KyberPreKey string nat
  | UsedKyberPreKey string nat

fun key_text :: "signal_key \<Rightarrow> string" where
  "key_text (Identity i) = identityKey i"
| "key_text (Peer i a) = peerKey i a"
| "key_text (Session i a) = sessionKey i a"
| "key_text (PreKey i n) = preKeyKey i n"
| "key_text (SignedPreKey i n) = signedPreKeyKey i n"
| "key_text (KyberPreKey i n) = kyberPreKeyKey i n"
| "key_text (UsedKyberPreKey i n) = usedKyberPreKey i n"

fun key_parts :: "signal_key \<Rightarrow> string list" where
  "key_parts (Identity i) = [''identity'', keyPart i]"
| "key_parts (Peer i a) = [''peer'', keyPart i, keyPart a]"
| "key_parts (Session i a) = [''session'', keyPart i, keyPart a]"
| "key_parts (PreKey i n) = [''prekey'', keyPart i, nat_dec n]"
| "key_parts (SignedPreKey i n) = [''signed-prekey'', keyPart i, nat_dec n]"
| "key_parts (KyberPreKey i n) = [''kyber-prekey'', keyPart i, nat_dec n]"
| "key_parts (UsedKyberPreKey i n) = [''prekey-used'', keyPart i, nat_dec n]"

lemma nat_dec_inj: "nat_dec m = nat_dec n \<longleftrightarrow> m = n"
  by (metis nat_dec_facts)

lemma no_slash: "CHR ''/'' \<notin> set (keyPart s)" "CHR ''/'' \<notin> set (nat_dec n)"
proof -
  show "CHR ''/'' \<notin> set (keyPart s)" unfolding keyPart_def by (rule encode_no_slash)
  have "list_all is_digit (nat_dec n)" using nat_dec_facts by blast
  then show "CHR ''/'' \<notin> set (nat_dec n)" by (auto simp: list_all_iff is_digit_def)
qed

lemma split_key: "split_on CHR ''/'' (key_text k) = key_parts k"
  by (cases k) (simp_all add: identityKey_def peerKey_def sessionKey_def preKeyKey_def signedPreKeyKey_def
      kyberPreKeyKey_def usedKyberPreKey_def no_slash split_on_append split_on_plain)

lemma key_parts_inj: "key_parts k = key_parts k' \<longleftrightarrow> k = k'"
  by (cases k; cases k') (simp_all add: keyPart_def encode_inj nat_dec_inj)

text \<open>The states of an adapter before it is committed or discarded: every write goes through
  \<open>stage_put\<close> and \<open>stage_del\<close>.\<close>

inductive stages :: "vault \<Rightarrow> database \<Rightarrow> string \<Rightarrow> staged \<Rightarrow> bool" for V :: vault and db :: database and i :: string where
  created: "createStagedSignalStore V db i = Inr s \<Longrightarrow> stages V db i s"
| staged_put: "stages V db i s \<Longrightarrow> plain_json v \<Longrightarrow> stage_put k v s = Inr t \<Longrightarrow> stages V db i t"
| staged_del: "stages V db i s \<Longrightarrow> stage_del k s = Inr t \<Longrightarrow> stages V db i t"

definition staged_ok :: "staged \<Rightarrow> bool" where
  "staged_ok s \<longleftrightarrow> distinct (map fst (pending s)) \<and> (\<forall>k v. (k, Some v) \<in> set (pending s) \<longrightarrow> plain_json v)"

lemma map_set_entries: "distinct (map fst m) \<Longrightarrow>
    distinct (map fst (map_set k v m)) \<and> set (map_set k v m) \<subseteq> insert (k, v) (set m)"
  unfolding map_set_def by (induction m) (auto simp: distinct_update)

lemma stages_ok: "stages V db i s \<Longrightarrow> staged_ok s"
proof (induction rule: stages.induct)
  case (created s)
  then have "pending s = []"
    by (auto simp: createStagedSignalStore_def rbind_def split: sum.splits option.splits if_splits)
  then show ?case by (simp add: staged_ok_def)
next
  case (staged_put s v k t)
  then have "pending t = map_set k (Some v) (pending s)"
    by (cases "assertActive s") (auto simp: stage_put_def)
  then show ?case using map_set_entries [of "pending s" k "Some v"] staged_put by (fastforce simp: staged_ok_def)
next
  case (staged_del s k t)
  then have "pending t = map_set k None (pending s)"
    by (cases "assertActive s") (auto simp: stage_del_def)
  then show ?case using map_set_entries [of "pending s" k None] staged_del by (fastforce simp: staged_ok_def)
qed

definition pend :: "string \<times> json option \<Rightarrow> (string, json) batch_op" where
  "pend kv = (case kv of (k, Some v) \<Rightarrow> Put k v | (k, None) \<Rightarrow> Del k)"

lemma pend_simps [simp]: "op_key (pend kv) = fst kv" "op_value (pend kv) = snd kv"
  by (cases kv; cases "snd kv"; simp add: pend_def)+

lemma plain_pending: "List.map_filter plain_op (map pending_op kvs @ xs) = map pend kvs @ List.map_filter plain_op xs"
  by (induction kvs) (auto simp: List.map_filter_simps pending_op_def plain_op_def pend_def split: option.splits)

lemma find_snoc: "find P (xs @ [x]) = (case find P xs of None \<Rightarrow> if P x then Some x else None | Some y \<Rightarrow> Some y)"
  by (induction xs) simp_all

lemma find_pending: "distinct (map fst kvs) \<Longrightarrow>
    find (\<lambda>x. op_key x = k) (rev (map pend kvs)) = map_option (\<lambda>v. pend (k, v)) (map_of kvs k)"
proof (induction kvs)
  case (Cons kv kvs)
  obtain k' v where kv: "kv = (k', v)" by (cases kv)
  have "k = k' \<Longrightarrow> map_of kvs k = None" using Cons.prems by (auto simp: kv map_of_eq_None_iff)
  with Cons show ?case by (auto simp: kv find_snoc split: option.splits)
qed simp

lemma find_append: "find P (xs @ ys) = (case find P xs of None \<Rightarrow> find P ys | Some y \<Rightarrow> Some y)"
  by (induction xs) simp_all

context vault_laws begin

lemma commit_get:
  assumes "commit V xs s db = Inr (s', db')" and "staged_ok s" and "assertKey k = Inr ()"
    and "\<forall>k v. PutOp k (Some v) \<in> set xs \<longrightarrow> plain_json v"
  shows "private_get V db' k = (case find (\<lambda>x. op_key x = k) (rev (List.map_filter plain_op xs)) of
      Some x \<Rightarrow> Inr (op_value x) | None \<Rightarrow> load V db s k)"
proof -
  have b: "private_batch V (map pending_op (pending s) @ xs) db = Inr db'"
    using assms(1) unfolding commit_def by (auto simp: rbind_def rmap_def split: sum.splits)
  have p: "\<forall>k v. PutOp k (Some v) \<in> set (map pending_op (pending s) @ xs) \<longrightarrow> plain_json v"
    using assms(2,4) by (fastforce simp: staged_ok_def pending_op_def split: option.splits)
  have d: "distinct (map fst (pending s))" using assms(2) by (simp add: staged_ok_def)
  show ?thesis
    using private_batch_get [OF b assms(3) p]
    by (simp add: plain_pending find_append find_pending [OF d] load_def map_get_def split: option.splits)
qed

end

lemma encoded_plain [simp]: "plain_json (encoded L name x)"
  by (simp add: encoded_def)

lemma commit_finalizes: "commit V xs s db = Inr (s', db') \<Longrightarrow> \<not> finalized s \<and> s' = s\<lparr>finalized := True\<rparr>"
  by (cases "finalized s") (auto simp: commit_def assertActive_def rbind_def rmap_def split: sum.splits)

definition stored_bundle :: "public_bundle \<Rightarrow> json" where
  "stored_bundle n = JObj [(''bundle'', JStr (to_base64 (text_bytes (JSON_stringify (bundle_json n)))))]"

lemma build_profile_Inr:
  assumes "build_profile V L K key li s db = Inr (n, db')" and "stages V db i s"
  shows "valid_bundle n \<and>
    (\<exists>t t'. stages V db i t \<and> commit V [PutOp key (Some (stored_bundle n))] t db = Inr (t', db'))"
proof -
  from assms(1) obtain ident s1 s2 s3 ser b t' db'' where
    puts: "savePreKey L 1 (fk_preKeyRecord K) s = Inr s1"
      "saveSignedPreKey L 2 (fk_signedPreKeyRecord K (fk_sign K ident (fk_signedPreKeyPublic K))) s1 = Inr s2"
      "saveKyberPreKey L 3 (fk_kyberPreKeyRecord K (fk_sign K ident (fk_kyberPreKeyPublic K))) s2 = Inr s3"
    and b: "serializePublicBundle b = Inr ser" "validateBundle b = Inr n"
    and c: "commit V [PutOp key (Some (JObj [(''bundle'', JStr (to_base64 ser))]))] s3 db = Inr (t', db')"
    unfolding build_profile_def Let_def rbind_Inr_iff rmap_Inr_iff by (auto simp: rmap_Inr_iff)
  have "stages V db i s3"
    using staged_put [OF staged_put [OF staged_put [OF assms(2) _ puts(1) [unfolded savePreKey_def]]
      _ puts(2) [unfolded saveSignedPreKey_def]] _ puts(3) [unfolded saveKyberPreKey_def]] by simp
  with b c show ?thesis by (auto simp: serializePublicBundle_def stored_bundle_def validateBundle_Inr)
qed

lemma provision_Inr:
  assumes "provisionSignalProfile V L K i db = (Inr n, db')"
  shows "\<exists>key e. publicProfileKey i = Inr key \<and> private_get V db key = Inr e \<and>
    (truthy e \<and> db' = db \<and> (\<exists>t. opt_prop e ''bundle'' = Some (JStr t) \<and> parsePublicBundle V (from_base64 V t) = Inr n) \<or>
     \<not> truthy e \<and> (\<exists>db1 s li. createStagedSignalStore V db1 i = Inr s \<and> build_profile V L K key li s db1 = Inr (n, db')))"
  using assms unfolding provisionSignalProfile_def
  by (auto simp: rbind_Inr_iff rmap_Inr_iff Let_def split: sum.splits prod.splits if_splits option.splits json.splits)

lemma provision_writes:
  assumes "vault_laws V" and "provisionSignalProfile V L K i db = (Inr n, db')"
  shows "\<exists>key e t. publicProfileKey i = Inr key \<and> private_get V db' key = Inr e \<and> truthy e \<and>
    opt_prop e ''bundle'' = Some (JStr t) \<and> parsePublicBundle V (from_base64 V t) = Inr n"
proof -
  from provision_Inr [OF assms(2)] obtain key e where
    k: "publicProfileKey i = Inr key" "private_get V db key = Inr e"
    and c: "truthy e \<and> db' = db \<and> (\<exists>t. opt_prop e ''bundle'' = Some (JStr t) \<and> parsePublicBundle V (from_base64 V t) = Inr n) \<or>
     \<not> truthy e \<and> (\<exists>db1 s li. createStagedSignalStore V db1 i = Inr s \<and> build_profile V L K key li s db1 = Inr (n, db'))"
    by blast
  from c show ?thesis
  proof
    assume "truthy e \<and> db' = db \<and> (\<exists>t. opt_prop e ''bundle'' = Some (JStr t) \<and> parsePublicBundle V (from_base64 V t) = Inr n)"
    with k show ?thesis by blast
  next
    assume "\<not> truthy e \<and> (\<exists>db1 s li. createStagedSignalStore V db1 i = Inr s \<and> build_profile V L K key li s db1 = Inr (n, db'))"
    then obtain db1 s li where s: "createStagedSignalStore V db1 i = Inr s" "build_profile V L K key li s db1 = Inr (n, db')"
      by blast
    from build_profile_Inr [OF s(2) created [OF s(1)]] obtain t t' where
      n: "valid_bundle n" and t: "stages V db1 i t" "commit V [PutOp key (Some (stored_bundle n))] t db1 = Inr (t', db')"
      by blast
    have ak: "assertKey key = Inr ()" using k(2) by (cases "assertKey key") (simp_all add: private_get_def)
    have p: "plain_json (stored_bundle n)" by (simp add: stored_bundle_def)
    have "private_get V db' key = Inr (Some (stored_bundle n))"
      using vault_laws.commit_get [OF assms(1) t(2) stages_ok [OF t(1)] ak] p
      by (simp add: plain_op_def List.map_filter_simps)
    moreover have "parsePublicBundle V (text_bytes (JSON_stringify (bundle_json n))) = Inr n"
      using n vault_laws.decode_encode [OF assms(1)] by (intro parse_bundle_text) simp_all
    ultimately show ?thesis
      using k(1) vault_laws.decode_encode [OF assms(1)] by (simp add: stored_bundle_def opt_prop_def truthy_def get_prop_def)
  qed
qed

section \<open>A concrete provisioning\<close>
definition demo_lib :: "bytes signal_lib" where
  "demo_lib = \<lparr>serialize = id, read_private = Inr, read_public = Inr, read_session = Inr, read_prekey = Inr,
     read_signed = Inr, read_kyber = Inr, same_key = (=)\<rparr>"

definition demo_keys :: "bytes \<Rightarrow> bytes fresh_keys" where
  "demo_keys k = \<lparr>fk_identity = k, fk_registrationId = 7, fk_preKeyRecord = [1], fk_signedPreKeyRecord = id,
     fk_kyberPreKeyRecord = id, fk_preKeyPublic = replicate 33 2, fk_signedPreKeyPublic = replicate 33 3,
     fk_kyberPreKeyPublic = replicate 1569 5, fk_publicOf = (\<lambda>_. replicate 33 1),
     fk_sign = (\<lambda>_ p. replicate 64 (if length p = 33 then 4 else 6))\<rparr>"


lemma b64_char_Q_Y: "b64_char 24 = CHR ''Y''" "b64_char 16 = CHR ''Q''"
  by code_simp+
lemma demo_keys_ok:
  "assertKey ''identity/a'' = Inr ()" "assertKey ''signal-profile/YQ'' = Inr ()" "assertKey ''prekey/a/1'' = Inr ()"
  "assertKey ''signed-prekey/a/2'' = Inr ()"  "assertKey ''kyber-prekey/a/3'' = Inr ()"
  by (simp_all add: assertKey_def js_length_def char_of_def)

lemma demo_keys_are: "identityKey ''a'' = ''identity/a''" "preKeyKey ''a'' 1 = ''prekey/a/1''"
  "signedPreKeyKey ''a'' 2 = ''signed-prekey/a/2''" "kyberPreKeyKey ''a'' 3 = ''kyber-prekey/a/3''"
  "publicProfileKey ''a'' = Inr ''signal-profile/YQ''"
proof -
  show "publicProfileKey ''a'' = Inr ''signal-profile/YQ''"
    by (simp add: publicProfileKey_def to_base64url_def text_bytes_def b64_char_Q_Y)
qed code_simp+

lemma demo_created:
  fixes k :: bytes
  defines "v \<equiv> JObj [(''privateKey'', JStr (to_base64 k)), (''registrationId'', JInt 7)]"
  assumes "k \<noteq> []"
  shows "\<exists>db1. private_put demo_vault ''identity/a'' (Some v) [] = Inr db1 \<and>
     createStagedSignalStore demo_vault db1 ''a'' =
       Inr \<lparr>identityId = ''a'', localIdentity = v, pending = [], finalized = False\<rparr>"
proof -
  let ?db = "map_set ''identity/a'' (demo.sealed v) []"
  have ne: "to_base64 k \<noteq> []" using assms(2) by (metis of_base64_to_base64 to_base64_inj to_base64.simps(1))
  have p: "private_put demo_vault ''identity/a'' (Some v) [] = Inr ?db"
    by (simp add: private_put_def demo.encrypt_sealed demo_keys_ok)
  have "private_get demo_vault ?db ''identity/a'' = Inr (Some v)"
    using demo.private_put_get [OF p _ demo_keys_ok(1)] by (simp add: v_def)
  with p ne show ?thesis by (simp add: createStagedSignalStore_def truthy_def opt_prop_def demo_keys_are v_def)
qed

lemma private_get_empty: "assertKey k = Inr () \<Longrightarrow> private_get V [] k = Inr None"
  by (simp add: private_get_def map_get_def)

lemma commit_Inr:
  assumes "\<not> finalized s" and "list_all valid_op (map pending_op (pending s) @ xs)"
  shows "\<exists>db'. commit V xs s db = Inr (s\<lparr>finalized := True\<rparr>, db')"
  using encrypt_ops_Inr [of V "map pending_op (pending s) @ xs"] assms
  by (auto simp: commit_def assertActive_def private_batch_def)

lemma stage_put_active: "\<not> finalized s \<Longrightarrow> stage_put k v s = Inr (s\<lparr>pending := map_set k (Some v) (pending s)\<rparr>)"
  by (simp add: stage_put_def assertActive_def)

lemma demo_provisions:
  assumes "k \<noteq> []" shows "\<exists>db. provisionSignalProfile demo_vault demo_lib (demo_keys k) ''a'' [] = (Inr demo_bundle, db)"
proof -
  let ?v = "JObj [(''privateKey'', JStr (to_base64 k)), (''registrationId'', JInt 7)]"
  let ?s = "\<lparr>identityId = ''a'', localIdentity = ?v, pending = [], finalized = False\<rparr>"
  from demo_created [OF assms] obtain db1 where d:
    "private_put demo_vault ''identity/a'' (Some ?v) [] = Inr db1"
    "createStagedSignalStore demo_vault db1 ''a'' = Inr ?s"
    by blast
  have b: "validateBundle (raw_of demo_bundle) = Inr demo_bundle" 
    using demo_bundle_valid by (simp add: validateBundle_Inr)
  have raw: "raw_of demo_bundle = \<lparr>registrationId = Some (JInt 7), deviceId = Some (JInt 1), identity_key = replicate 33 1,
     preKey_id = Some (JInt 1), preKey = replicate 33 2, signedPreKey_id = Some (JInt 2), signedPreKey = replicate 33 3,
     signedPreKey_signature = replicate 64 4, kyberPreKey_id = Some (JInt 3), kyberPreKey = replicate 1569 5,
     kyberPreKey_signature = replicate 64 6\<rparr>"
    by (simp add: raw_of_def demo_bundle_def)
  have "\<exists>db2. build_profile demo_vault demo_lib (demo_keys k) ''signal-profile/YQ'' ?v ?s db1 = Inr (demo_bundle, db2)"
  proof -
    have i: "getIdentityKey demo_vault demo_lib ?s = Inr k"
      by (simp add: getIdentityKey_def decoded_def opt_prop_def demo_lib_def demo.decode_encode)
    have "serializePublicBundle (raw_of demo_bundle) = Inr (text_bytes (JSON_stringify (bundle_json demo_bundle)))"
      by (simp add: serializePublicBundle_def b)
    note ser = this [unfolded raw]
    let ?sig = "fk_sign (demo_keys k) k"
    define s1 where "s1 = ?s\<lparr>pending := map_set ''prekey/a/1'' (Some (encoded demo_lib ''record'' [1])) []\<rparr>"
    define s2 where "s2 = s1\<lparr>pending := map_set ''signed-prekey/a/2''
      (Some (encoded demo_lib ''record'' (?sig (fk_signedPreKeyPublic (demo_keys k))))) (pending s1)\<rparr>"
    define s3 where "s3 = s2\<lparr>pending := map_set ''kyber-prekey/a/3''
      (Some (encoded demo_lib ''record'' (?sig (fk_kyberPreKeyPublic (demo_keys k))))) (pending s2)\<rparr>"
    have s: "savePreKey demo_lib 1 (fk_preKeyRecord (demo_keys k)) ?s = Inr s1"
      "saveSignedPreKey demo_lib 2 (fk_signedPreKeyRecord (demo_keys k) (?sig (fk_signedPreKeyPublic (demo_keys k)))) s1 = Inr s2"
      "saveKyberPreKey demo_lib 3 (fk_kyberPreKeyRecord (demo_keys k) (?sig (fk_kyberPreKeyPublic (demo_keys k)))) s2 = Inr s3"
      by (simp_all add: savePreKey_def saveSignedPreKey_def saveKyberPreKey_def stage_put_active s1_def s2_def s3_def
          demo_keys_are [unfolded One_nat_def] demo_keys_are demo_keys_def)
    let ?xs = "[PutOp ''signal-profile/YQ'' (Some (stored_bundle demo_bundle))]"
    have "\<not> finalized s3 \<and> list_all valid_op (map pending_op (pending s3) @ ?xs)"
      by (simp add: s1_def s2_def s3_def map_set_def pending_op_def valid_op_def demo_keys_ok)
    then obtain db2 where c: "commit demo_vault ?xs s3 db1 = Inr (s3\<lparr>finalized := True\<rparr>, db2)"
      using commit_Inr by blast
    have id: "opt_prop (Some ?v) ''registrationId'' = Some (JInt 7)" by (simp add: opt_prop_def)
    have f: "fk_publicOf (demo_keys k) k = replicate 33 1" "fk_preKeyPublic (demo_keys k) = replicate 33 2"
      "fk_signedPreKeyPublic (demo_keys k) = replicate 33 3" "fk_kyberPreKeyPublic (demo_keys k) = replicate 1569 5"
      "?sig (replicate 33 3) = replicate 64 4" "?sig (replicate 1569 5) = replicate 64 6"
      by (simp_all add: demo_keys_def)
    show ?thesis unfolding build_profile_def Let_def i id rbind_simps s
      using c [unfolded stored_bundle_def] by (simp add: f ser b [unfolded raw])
  qed
  then show ?thesis
    using d by (auto simp: provisionSignalProfile_def demo_keys_are demo_keys_ok private_get_empty truthy_def demo_lib_def demo_keys_def Let_def)
qed

section \<open>Properties\<close>

text \<open>No two things the adapter stores share a key, whatever the identities, addresses
  and ids are: the percent-encoding of the parts keeps the separators unambiguous.\<close>

theorem signal_keys_distinct: "key_text k = key_text k' \<longleftrightarrow> k = k'"
  by (metis split_key key_parts_inj)

text \<open>C39. Committing an adapter makes its view permanent: whatever a load through the adapter
  returned just before, the private state returns afterwards, for keys that were staged and for
  those that were not; and the adapter accepts no operation after that.\<close>

theorem commit_publishes_staged_view:
  assumes "\<forall>t. decryptString V (encryptString V t) = Inr t" and "\<forall>b. from_base64 V (to_base64 b) = b"
    and "stages V db i s" and "commit V [] s db = Inr (s', db')" and "assertKey k = Inr ()"
  shows "private_get V db' k = load V db s k \<and>
    stage_put k v s' = Inl (PlainError ''Signal state adapter is finalized'') \<and>
    stage_del k s' = Inl (PlainError ''Signal state adapter is finalized'') \<and>
    commit V xs s' db' = Inl (PlainError ''Signal state adapter is finalized'') \<and>
    discard s' = Inl (PlainError ''Signal state adapter is finalized'')"
proof -
  have "vault_laws V" using assms(1,2) by (simp add: vault_laws.intro)
  note g = vault_laws.commit_get [OF this assms(4) stages_ok [OF assms(3)] assms(5)]
  have f: "assertActive s' = Inl (PlainError ''Signal state adapter is finalized'')"
    using commit_finalizes [OF assms(4)] by (simp add: assertActive_def)
  with g show ?thesis by (simp add: List.map_filter_simps stage_put_def stage_del_def commit_def discard_def)
qed

theorem commit_publishes_staged_view_witness:
  "\<exists>db s s' db'. stages demo_vault db ''a'' s \<and> commit demo_vault [] s db = Inr (s', db') \<and>
     private_get demo_vault db' ''prekey/a/1'' = Inr (Some (JInt 5)) \<and>
     stage_del ''prekey/a/1'' s' = Inl (PlainError ''Signal state adapter is finalized'')"
proof -
  obtain db s where s: "createStagedSignalStore demo_vault db ''a'' = Inr s" "\<not> finalized s" "pending s = []"
    using demo_created [of "[1]"] by auto
  let ?t = "s\<lparr>pending := map_set ''prekey/a/1'' (Some (JInt 5)) []\<rparr>"
  have t: "stages demo_vault db ''a'' ?t"
    by (rule staged_put [OF created [OF s(1)]]) (simp_all add: stage_put_active s)
  have "list_all valid_op (map pending_op (pending ?t) @ [])"
    by (simp add: map_set_def pending_op_def valid_op_def demo_keys_ok)
  with s(2) obtain db' where c: "commit demo_vault [] ?t db = Inr (?t\<lparr>finalized := True\<rparr>, db')"
    using commit_Inr [of ?t "[]"] by auto
  have "load demo_vault db ?t ''prekey/a/1'' = Inr (Some (JInt 5))" by (simp add: load_def map_get_def map_set_def)
  with commit_publishes_staged_view [OF _ _ t c demo_keys_ok(3), of JNull "[]"] t c show ?thesis
    by (auto simp: demo.decrypt_encrypt demo.decode_encode)
qed

text \<open>Provisioning is idempotent: after a success, provisioning the same identity again
  returns the same bundle and leaves the store alone, whatever keys a second generation would
  have made.\<close>

theorem provision_is_stable:
  assumes "\<forall>t. decryptString V (encryptString V t) = Inr t" and "\<forall>b. from_base64 V (to_base64 b) = b"
    and "provisionSignalProfile V L K i db = (Inr n, db')"
  shows "provisionSignalProfile V L' K' i db' = (Inr n, db')"
proof -
  have "vault_laws V" using assms(1,2) by (simp add: vault_laws.intro)
  from provision_writes [OF this assms(3)] show ?thesis by (auto simp: provisionSignalProfile_def)
qed

theorem provision_is_stable_witness:
  "\<exists>db. provisionSignalProfile demo_vault demo_lib (demo_keys [1]) ''a'' [] = (Inr demo_bundle, db) \<and>
     provisionSignalProfile demo_vault demo_lib (demo_keys [2]) ''a'' db = (Inr demo_bundle, db)"
proof -
  obtain db where p: "provisionSignalProfile demo_vault demo_lib (demo_keys [1]) ''a'' [] = (Inr demo_bundle, db)"
    using demo_provisions [of "[1]"] by auto
  have "provisionSignalProfile demo_vault demo_lib (demo_keys [2]) ''a'' db = (Inr demo_bundle, db)"
    by (rule provision_is_stable [OF _ _ p]) (simp_all add: demo.decrypt_encrypt demo.decode_encode)
  with p show ?thesis by blast
qed

end
