(* ===== verification/UtxoStore.thy ===== *)
theory UtxoStore
  imports BigNum JsText "HOL-Library.List_Lexorder"
begin

text \<open>
  \<^verbatim>\<open>cashweb/wallet/storage/level-storage.ts\<close>, \<^verbatim>\<open>types/utxo.ts\<close> and \<^verbatim>\<open>wallet/helpers.ts\<close>: the store of
  unspent outputs, a cache in memory with tombstones for deleted outputs and a database behind
  it.  The database keeps the outputs as values; the JSON text of a private key comes back as a
  plain object, which is the parameter \<open>reload\<close> of \<open>loadData\<close>.
\<close>

section \<open>Unspent outputs\<close>

record 'k utxo =
  address :: string
  privKey :: 'k
  amount_sats :: nat
  txId :: string
  vout :: nat
  utype :: string
  frozen :: bool

text \<open>The guard of \<^verbatim>\<open>calcUtxoId\<close> compares a truth value with \<^verbatim>\<open>undefined\<close> and never throws.\<close>

definition calcId :: "string \<Rightarrow> nat \<Rightarrow> string" where
  "calcId t k = t @ ''_'' @ nat_dec k"

definition calcUtxoId :: "'k utxo \<Rightarrow> string" where
  "calcUtxoId u = calcId (txId u) (vout u)"

definition stampPrice :: "'k utxo list \<Rightarrow> nat" where
  "stampPrice us = foldl (\<lambda>a u. to_double (amount_sats u + a)) 0 (filter (\<lambda>u. utype u = ''stamp'') us)"

section \<open>The store\<close>

record 'k utxo_store =
  cache :: "(string, 'k utxo) js_map"
  deletedUtxos :: "string set"
  outpoints :: "(string, 'k utxo) js_map"

definition empty_store :: "(string, 'k utxo) js_map \<Rightarrow> 'k utxo_store" where
  "empty_store db = \<lparr>cache = [], deletedUtxos = {}, outpoints = db\<rparr>"

definition getById :: "string \<Rightarrow> 'k utxo_store \<Rightarrow> 'k utxo option" where
  "getById i s = map_get (cache s) i"

definition deleteById :: "string \<Rightarrow> 'k utxo_store \<Rightarrow> 'k utxo_store" where
  "deleteById i s =
     s\<lparr>cache := map_del i (cache s), deletedUtxos := insert i (deletedUtxos s), outpoints := map_del i (outpoints s)\<rparr>"

definition put :: "'k utxo \<Rightarrow> 'k utxo_store \<Rightarrow> 'k utxo_store" where
  "put u s =
     (let i = calcUtxoId u
      in if i \<in> deletedUtxos s then s
         else s\<lparr>cache := map_set i u (cache s), outpoints := map_set i u (outpoints s)\<rparr>)"

text \<open>The flag is set in the cached object, which is then stored again.\<close>

definition set_frozen :: "bool \<Rightarrow> string \<Rightarrow> 'k utxo_store \<Rightarrow> 'k utxo_store" where
  "set_frozen b i s =
     (case getById i s of
        None \<Rightarrow> s
      | Some u \<Rightarrow> let v = u\<lparr>frozen := b\<rparr> in put v (s\<lparr>cache := map_set i v (cache s)\<rparr>))"

definition freezeById :: "string \<Rightarrow> 'k utxo_store \<Rightarrow> 'k utxo_store" where
  "freezeById i s = (if i \<in> deletedUtxos s then s else set_frozen True i s)"

definition unfreezeById :: "string \<Rightarrow> 'k utxo_store \<Rightarrow> 'k utxo_store" where
  "unfreezeById i s = set_frozen False i s"

definition getUtxoMap :: "'k utxo_store \<Rightarrow> (string, 'k utxo) js_map" where
  "getUtxoMap s = cache s"

text \<open>The database is read in the order of its keys; \<open>onlyFrozen\<close> selects one half of it.\<close>

definition outpoint_iter :: "bool \<Rightarrow> 'k utxo_store \<Rightarrow> 'k utxo list" where
  "outpoint_iter onlyFrozen s =
     filter (\<lambda>u. frozen u = onlyFrozen)
       (map snd (sort_key (\<lambda>(i, u). map (of_char :: char \<Rightarrow> nat) i) (outpoints s)))"

definition loadData :: "('k \<Rightarrow> 'k) \<Rightarrow> 'k utxo_store \<Rightarrow> 'k utxo_store" where
  "loadData reload s =
     s\<lparr>cache := foldl (\<lambda>c u. map_set (calcUtxoId u) (u\<lparr>privKey := reload (privKey u)\<rparr>) c) (cache s)
         (outpoint_iter False s)\<rparr>"

definition clear_store :: "'k utxo_store \<Rightarrow> 'k utxo_store" where
  "clear_store s = \<lparr>cache = [], deletedUtxos = {}, outpoints = []\<rparr>"

section \<open>Invariant\<close>

text \<open>
  Keys are unique and are the ids of their outputs, nothing deleted is cached, and the
  database holds what is cached, up to the object of the private key.
\<close>

definition well_keyed :: "(string, 'k utxo) js_map \<Rightarrow> bool" where
  "well_keyed m \<longleftrightarrow> distinct (map fst m) \<and> (\<forall>(i, u) \<in> set m. calcUtxoId u = i)"

definition store_ok :: "'k utxo_store \<Rightarrow> bool" where
  "store_ok s \<longleftrightarrow>
     well_keyed (cache s) \<and> well_keyed (outpoints s) \<and>
     (\<forall>i \<in> deletedUtxos s. map_get (cache s) i = None \<and> map_get (outpoints s) i = None) \<and>
     (\<forall>i u. map_get (cache s) i = Some u \<longrightarrow> (\<exists>k. map_get (outpoints s) i = Some (u\<lparr>privKey := k\<rparr>)))"

lemma calcUtxoId_frozen [simp]: "calcUtxoId (u\<lparr>frozen := b\<rparr>) = calcUtxoId u"
  by (simp add: calcUtxoId_def)

lemma calcUtxoId_key [simp]: "calcUtxoId (u\<lparr>privKey := k\<rparr>) = calcUtxoId u"
  by (simp add: calcUtxoId_def)

lemma set_map_set: "set (map_set i u m) \<subseteq> insert (i, u) (set m)"
  unfolding map_set_def by (induction m) auto

lemma set_map_del: "set (map_del i m) = {(j, u) \<in> set m. j \<noteq> i}"
  unfolding map_del_def by (auto simp: AList.delete_eq)

lemma well_keyed_set: "well_keyed m \<Longrightarrow> calcUtxoId u = i \<Longrightarrow> well_keyed (map_set i u m)"
  using set_map_set [of i u m] unfolding well_keyed_def
  by (auto simp: map_set_def distinct_update)

lemma well_keyed_del: "well_keyed m \<Longrightarrow> well_keyed (map_del i m)"
  unfolding well_keyed_def by (auto simp: set_map_del) (simp add: map_del_def distinct_delete)

lemma well_keyed_id: "well_keyed m \<Longrightarrow> map_get m i = Some u \<Longrightarrow> calcUtxoId u = i"
  unfolding well_keyed_def map_get_def by (auto dest: map_of_SomeD)

lemma map_set_id: "map_get m i = Some u \<Longrightarrow> map_set i u m = m"
  unfolding map_get_def map_set_def by (induction m) (auto split: if_splits)

lemma map_set_set [simp]: "map_set i u (map_set i v m) = map_set i u m"
  unfolding map_set_def by (induction m) auto

lemma store_ok_empty: "well_keyed db \<Longrightarrow> store_ok (empty_store db)"
  by (simp add: store_ok_def empty_store_def well_keyed_def)

lemma deleteById_ok: "store_ok s \<Longrightarrow> store_ok (deleteById i s)"
  by (auto simp: store_ok_def deleteById_def well_keyed_del)

lemma same_key [simp]: "u = u\<lparr>privKey := k\<rparr> \<longleftrightarrow> k = privKey u"
  by (cases u) auto

lemma put_ok: "store_ok s \<Longrightarrow> store_ok (put u s)"
  by (auto simp: store_ok_def put_def Let_def well_keyed_set)

text \<open>Loading the cache again keeps the store well formed and its tombstones, whatever becomes of the keys.\<close>

lemma clear_store_ok: "store_ok (clear_store s)"
  by (simp add: store_ok_def clear_store_def well_keyed_def)

lemma loadData_ok:
  assumes "store_ok s"
  shows "store_ok (loadData reload s)"
proof -
  have one: "store_ok (t\<lparr>cache := map_set (calcUtxoId u) (u\<lparr>privKey := k\<rparr>) (cache t)\<rparr>)"
    if "store_ok t" "map_get (outpoints t) (calcUtxoId u) = Some u" for t :: "'a utxo_store" and u k
    using that by (auto simp: store_ok_def well_keyed_set)
  have "store_ok (s\<lparr>cache := foldl (\<lambda>c u. map_set (calcUtxoId u) (u\<lparr>privKey := reload (privKey u)\<rparr>) c) (cache s) us\<rparr>)"
    if "\<forall>u \<in> set us. map_get (outpoints s) (calcUtxoId u) = Some u" for us
    using that
  proof (induction us rule: rev_induct)
    case (snoc u us)
    then show ?case using one [of "s\<lparr>cache := foldl (\<lambda>c u. map_set (calcUtxoId u) (u\<lparr>privKey := reload (privKey u)\<rparr>) c) (cache s) us\<rparr>" u] by simp
  qed (use assms in simp)
  moreover have "map_get (outpoints s) (calcUtxoId u) = Some u" if "u \<in> set (outpoint_iter False s)" for u
    using that assms by (auto simp: outpoint_iter_def store_ok_def well_keyed_def map_get_def)
  ultimately show ?thesis by (simp add: loadData_def)
qed

lemma deleted_load [simp]: "deletedUtxos (loadData reload s) = deletedUtxos s"
  by (simp add: loadData_def)

lemma set_frozen_put:
  assumes "store_ok s" and "getById i s = Some u"
  shows "set_frozen b i s = put (u\<lparr>frozen := b\<rparr>) s" and "calcUtxoId u = i" and "i \<notin> deletedUtxos s"
proof -
  from assms show i: "calcUtxoId u = i" by (auto simp: store_ok_def getById_def dest: well_keyed_id)
  from assms show "i \<notin> deletedUtxos s" by (auto simp: store_ok_def getById_def)
  with i assms(2) show "set_frozen b i s = put (u\<lparr>frozen := b\<rparr>) s"
    by (simp add: set_frozen_def put_def Let_def)
qed

lemma set_frozen_None: "getById i s = None \<Longrightarrow> set_frozen b i s = s"
  by (simp add: set_frozen_def)

lemma set_frozen_ok: "store_ok s \<Longrightarrow> store_ok (set_frozen b i s)"
  by (cases "getById i s") (simp_all add: set_frozen_None set_frozen_put put_ok)

lemma freezeById_ok: "store_ok s \<Longrightarrow> store_ok (freezeById i s)"
  by (simp add: freezeById_def set_frozen_ok)

lemma unfreezeById_ok: "store_ok s \<Longrightarrow> store_ok (unfreezeById i s)"
  by (simp add: unfreezeById_def set_frozen_ok)

lemmas store_ops_ok = deleteById_ok put_ok freezeById_ok unfreezeById_ok

subsection \<open>Lookups and tombstones\<close>

lemma getById_put: "getById i (put u s) = (if i = calcUtxoId u \<and> i \<notin> deletedUtxos s then Some u else getById i s)"
  by (auto simp: getById_def put_def Let_def)

lemma getById_delete [simp]: "getById i (deleteById j s) = (if i = j then None else getById i s)"
  by (simp add: getById_def deleteById_def)

lemma getById_set_frozen: "store_ok s \<Longrightarrow>
    getById i (set_frozen b j s) = (if i = j then map_option (frozen_update (\<lambda>_. b)) (getById i s) else getById i s)"
  by (cases "getById j s") (auto simp: set_frozen_None set_frozen_put getById_put)

lemma getById_freeze: "store_ok s \<Longrightarrow>
    getById i (freezeById j s) = (if i = j then map_option (frozen_update (\<lambda>_. True)) (getById i s) else getById i s)"
  by (auto simp: freezeById_def getById_set_frozen) (auto simp: store_ok_def getById_def)

lemma getById_unfreeze: "store_ok s \<Longrightarrow>
    getById i (unfreezeById j s) = (if i = j then map_option (frozen_update (\<lambda>_. False)) (getById i s) else getById i s)"
  by (simp add: unfreezeById_def getById_set_frozen)

lemma deleted_put [simp]: "deletedUtxos (put u s) = deletedUtxos s"
  by (simp add: put_def Let_def)

lemma deleted_delete [simp]: "deletedUtxos (deleteById i s) = insert i (deletedUtxos s)"
  by (simp add: deleteById_def)

lemma deleted_set_frozen [simp]: "deletedUtxos (set_frozen b i s) = deletedUtxos s"
  by (simp add: set_frozen_def Let_def split: option.splits)

lemma deleted_freeze [simp]: "deletedUtxos (freezeById i s) = deletedUtxos s"
  by (simp add: freezeById_def)

lemma deleted_unfreeze [simp]: "deletedUtxos (unfreezeById i s) = deletedUtxos s"
  by (simp add: unfreezeById_def)

lemma put_deleted: "calcUtxoId u \<in> deletedUtxos s \<Longrightarrow> put u s = s"
  by (simp add: put_def)

lemma getById_cache: "store_ok s \<Longrightarrow> getById i s = Some u \<longleftrightarrow> (i, u) \<in> set (cache s)"
  by (auto simp: getById_def store_ok_def well_keyed_def map_get_def)

text \<open>Freezing the same coin twice changes nothing, and unfreezing undoes it.\<close>

lemma freeze_idem: "store_ok s \<Longrightarrow> freezeById i (freezeById i s) = freezeById i s"
proof (cases "getById i s")
  case (Some u)
  assume "store_ok s"
  note f = set_frozen_put [OF this Some]
  have "store_ok (put (u\<lparr>frozen := True\<rparr>) s)" using \<open>store_ok s\<close> by (rule put_ok)
  moreover have "getById i (put (u\<lparr>frozen := True\<rparr>) s) = Some (u\<lparr>frozen := True\<rparr>)"
    using f(2,3) by (simp add: getById_put)
  ultimately show ?thesis
    using f by (simp add: freezeById_def set_frozen_put) (simp add: put_def Let_def)
qed (simp add: freezeById_def set_frozen_None)

section \<open>The contract of the store\<close>

text \<open>
  \<^verbatim>\<open>storage.ts\<close>: the interface \<^verbatim>\<open>UtxoStore\<close> the wallet is written against, with what it relies on: what
  a lookup returns after each operation, and that a deleted id is refused from then on.
\<close>

datatype 'k store_op = OpPut "'k utxo" | OpDelete string | OpFreeze string | OpUnfreeze string

locale utxo_api =
  fixes ok :: "'s \<Rightarrow> bool"
    and dead :: "'s \<Rightarrow> string set"
    and lookup :: "string \<Rightarrow> 's \<Rightarrow> 'k utxo option"
    and put_utxo :: "'k utxo \<Rightarrow> 's \<Rightarrow> 's"
    and delete :: "string \<Rightarrow> 's \<Rightarrow> 's"
    and freeze :: "string \<Rightarrow> 's \<Rightarrow> 's"
    and unfreeze :: "string \<Rightarrow> 's \<Rightarrow> 's"
  assumes ok_ops: "ok s \<Longrightarrow> ok (put_utxo u s)" "ok s \<Longrightarrow> ok (delete i s)" "ok s \<Longrightarrow> ok (freeze i s)"
      "ok s \<Longrightarrow> ok (unfreeze i s)"
    and dead_ops: "dead (put_utxo u s) = dead s" "dead (delete i s) = insert i (dead s)"
      "dead (freeze i s) = dead s" "dead (unfreeze i s) = dead s"
    and lookup_put: "ok s \<Longrightarrow>
      lookup i (put_utxo u s) = (if i = calcUtxoId u \<and> i \<notin> dead s then Some u else lookup i s)"
    and lookup_delete: "ok s \<Longrightarrow> lookup i (delete j s) = (if i = j then None else lookup i s)"
    and lookup_freeze: "ok s \<Longrightarrow>
      lookup i (freeze j s) = (if i = j then map_option (frozen_update (\<lambda>_. True)) (lookup i s) else lookup i s)"
    and lookup_unfreeze: "ok s \<Longrightarrow>
      lookup i (unfreeze j s) = (if i = j then map_option (frozen_update (\<lambda>_. False)) (lookup i s) else lookup i s)"
    and lookup_id: "ok s \<Longrightarrow> lookup i s = Some u \<Longrightarrow> calcUtxoId u = i"
    and lookup_dead: "ok s \<Longrightarrow> i \<in> dead s \<Longrightarrow> lookup i s = None"
begin

definition run_op :: "'k store_op \<Rightarrow> 's \<Rightarrow> 's" where
  "run_op x = (case x of OpPut u \<Rightarrow> put_utxo u | OpDelete i \<Rightarrow> delete i | OpFreeze i \<Rightarrow> freeze i | OpUnfreeze i \<Rightarrow> unfreeze i)"

definition run_ops :: "'k store_op list \<Rightarrow> 's \<Rightarrow> 's" where
  "run_ops xs s = fold run_op xs s"

text \<open>A state some operations of the interface lead to.\<close>

definition reached :: "'s \<Rightarrow> 's \<Rightarrow> bool" where
  "reached s t \<longleftrightarrow> (\<exists>xs. t = run_ops xs s)"

lemma run_ops_simps [simp]: "run_ops [] s = s" "run_ops (x # xs) s = run_ops xs (run_op x s)"
  "run_ops (xs @ ys) s = run_ops ys (run_ops xs s)"
  by (simp_all add: run_ops_def)

lemma reached_refl [simp]: "reached s s"
  unfolding reached_def by (rule exI [of _ "[]"]) simp

lemma reached_trans: "reached s t \<Longrightarrow> reached t u \<Longrightarrow> reached s u"
  unfolding reached_def by (metis run_ops_simps(3))

lemma reached_ops: "reached s t \<Longrightarrow> reached s (put_utxo u t)" "reached s t \<Longrightarrow> reached s (delete i t)"
  "reached s t \<Longrightarrow> reached s (freeze i t)" "reached s t \<Longrightarrow> reached s (unfreeze i t)"
proof -
  have "reached t (run_op x t)" for x
    unfolding reached_def by (rule exI [of _ "[x]"]) simp
  then have step: "reached s t \<Longrightarrow> reached s (run_op x t)" for x using reached_trans by blast
  show "reached s t \<Longrightarrow> reached s (put_utxo u t)" using step [of "OpPut u"] by (simp add: run_op_def)
  show "reached s t \<Longrightarrow> reached s (delete i t)" using step [of "OpDelete i"] by (simp add: run_op_def)
  show "reached s t \<Longrightarrow> reached s (freeze i t)" using step [of "OpFreeze i"] by (simp add: run_op_def)
  show "reached s t \<Longrightarrow> reached s (unfreeze i t)" using step [of "OpUnfreeze i"] by (simp add: run_op_def)
qed

lemma reached_fold: "(\<And>x s. reached s (f x s)) \<Longrightarrow> reached s (fold f xs s)"
  by (induction xs arbitrary: s) (auto intro: reached_trans)

lemma run_op_ok: "ok s \<Longrightarrow> ok (run_op x s)"
  by (cases x) (simp_all add: run_op_def ok_ops)

lemma reached_ok: "reached s t \<Longrightarrow> ok s \<Longrightarrow> ok t"
proof -
  have "ok s \<Longrightarrow> ok (run_ops xs s)" for xs by (induction xs arbitrary: s) (simp_all add: run_op_ok)
  then show "reached s t \<Longrightarrow> ok s \<Longrightarrow> ok t" by (auto simp: reached_def)
qed

lemma dead_run_op: "dead s \<subseteq> dead (run_op x s)"
  by (cases x) (auto simp: run_op_def dead_ops)

lemma reached_dead: "reached s t \<Longrightarrow> dead s \<subseteq> dead t"
proof -
  have "dead s \<subseteq> dead (run_ops xs s)" for xs
    by (induction xs arbitrary: s) (simp, metis dead_run_op order_trans run_ops_simps(2))
  then show "reached s t \<Longrightarrow> dead s \<subseteq> dead t" by (auto simp: reached_def)
qed

text \<open>A coin that was deleted once is never looked up again.\<close>

lemma deleted_forever: "ok s \<Longrightarrow> reached (delete i s) t \<Longrightarrow> lookup i t = None"
proof -
  assume s: "ok s" and r: "reached (delete i s) t"
  have "i \<in> dead t" using reached_dead [OF r] by (auto simp: dead_ops)
  then show "lookup i t = None" using reached_ok [OF r] s by (simp add: ok_ops lookup_dead)
qed

lemma lookup_fold_delete: "ok s \<Longrightarrow> lookup i (fold delete xs s) = (if i \<in> set xs then None else lookup i s)"
  by (induction xs arbitrary: s) (auto simp: ok_ops lookup_delete)

lemma lookup_fold_freeze: "ok s \<Longrightarrow> lookup i (fold freeze xs s) =
    (if i \<in> set xs then map_option (frozen_update (\<lambda>_. True)) (lookup i s) else lookup i s)"
  by (induction xs arbitrary: s) (auto simp: ok_ops lookup_freeze option.map_comp comp_def cong: option.map_cong)

end

interpretation store: utxo_api store_ok deletedUtxos getById put deleteById freezeById unfreezeById
  by unfold_locales
    (auto simp: store_ops_ok getById_put getById_freeze getById_unfreeze, auto simp: store_ok_def getById_def dest: well_keyed_id)

end
