(* ===== verification/WalletSync.thy ===== *)
theory WalletSync
  imports UtxoStore Script
begin

text \<open>
  \<^verbatim>\<open>cashweb/wallet/index.ts\<close>, the side that follows the chain: addresses, the handlers of Chronik's
  answers and messages and the repair of the stored coins.  Every \<^verbatim>\<open>await\<close> splits an operation into
  what happens before the answer and what the answer causes; the answers are arguments.  \<open>updateHDUTXOs\<close>,
  \<open>fixUtxos\<close> and \<open>updateAllOutpoints\<close> are such parts run one after the other with nothing in between.
\<close>

section \<open>State\<close>

record 'k address_data =
  ad_address :: string
  ad_change :: bool
  ad_privKey :: 'k

text \<open>
  \<open>key_address\<close> and \<open>key_pkh\<close> are \<^verbatim>\<open>toAddress().toCashAddress()\<close> and the hash in it, \<open>derive\<close> the child
  \<open>m/44'/899'/0'/change/index\<close> of the wallet's extended key.
\<close>

record 'k keyring =
  derive :: "bool \<Rightarrow> nat \<Rightarrow> 'k"
  key_address :: "'k \<Rightarrow> string"
  key_pkh :: "'k \<Rightarrow> bytes"

record 'k wallet =
  storage :: "'k utxo_store"
  walletKeys :: "'k list"
  changeKeys :: "'k list"
  addressDataByPkh :: "(string, 'k address_data) js_map"
  txIdHandled :: "string set"

definition addAddressData :: "'k keyring \<Rightarrow> bool \<Rightarrow> 'k \<Rightarrow> 'k wallet \<Rightarrow> 'k wallet" where
  "addAddressData K change key w =
     w\<lparr>addressDataByPkh := map_set (to_hex (key_pkh K key))
         \<lparr>ad_address = key_address K key, ad_change = change, ad_privKey = key\<rparr> (addressDataByPkh w)\<rparr>"

definition initAddresses :: "'k keyring \<Rightarrow> nat \<Rightarrow> nat \<Rightarrow> 'k wallet \<Rightarrow> 'k wallet" where
  "initAddresses K numAddresses numChangeAddresses w =
     (let ks = map (derive K False) [0..<numAddresses]; cs = map (derive K True) [0..<numChangeAddresses];
          w1 = w\<lparr>walletKeys := ks, changeKeys := cs, addressDataByPkh := []\<rparr>
      in fold (addAddressData K True) cs (fold (addAddressData K False) ks w1))"

definition wallet_init :: "'k keyring \<Rightarrow> nat \<Rightarrow> nat \<Rightarrow> 'k wallet \<Rightarrow> 'k wallet" where
  "wallet_init K numAddresses numChangeAddresses w =
     initAddresses K numAddresses numChangeAddresses (w\<lparr>txIdHandled := {}\<rparr>)"

section \<open>Answers of Chronik\<close>

record chain_output =
  co_script :: string
  co_sats :: nat

record chain_input =
  ci_script :: "string option"
  ci_txid :: string
  ci_index :: nat

record chain_tx =
  ct_outputs :: "chain_output list"
  ct_inputs :: "chain_input list"

record chain_utxo =
  cu_txid :: string
  cu_index :: nat
  cu_sats :: nat

section \<open>Refreshing an address\<close>

text \<open>
  The loop over the stored coins: \<open>ids\<close> are the reported ids, \<open>found\<close> the stored ids seen so far.
  A stored coin that is not reported is deleted, and \<^verbatim>\<open>ids.splice(-1, 1)\<close> drops the last reported id.
\<close>

primrec refresh_loop ::
  "string \<Rightarrow> (string \<times> 'k utxo) list \<Rightarrow> string list \<Rightarrow> string list \<Rightarrow> 'k utxo_store \<Rightarrow> string list \<times> 'k utxo_store" where
  "refresh_loop addr [] ids found s = (found, s)"
| "refresh_loop addr (e # es) ids found s =
     (if address (snd e) \<noteq> addr then refresh_loop addr es ids found s
      else if fst e \<in> set ids then refresh_loop addr es ids (found @ [fst e]) s
      else refresh_loop addr es (butlast ids) (found @ [fst e]) (deleteById (fst e) s))"

definition put_missing :: "string list \<Rightarrow> 'k utxo list \<Rightarrow> 'k utxo_store \<Rightarrow> 'k utxo_store" where
  "put_missing found us s = fold put (filter (\<lambda>u. calcUtxoId u \<notin> set found) us) s"

definition refreshUTXOsByAddr :: "string \<Rightarrow> 'k utxo list \<Rightarrow> 'k utxo_store \<Rightarrow> 'k utxo_store" where
  "refreshUTXOsByAddr addr us s =
     (let (found, s1) = refresh_loop addr (getUtxoMap s) (map calcUtxoId us) [] s
      in put_missing found us s1)"

definition chain_coin :: "'k address_data \<Rightarrow> chain_utxo \<Rightarrow> 'k utxo" where
  "chain_coin d c =
     \<lparr>address = ad_address d, privKey = ad_privKey d, amount_sats = cu_sats c, txId = cu_txid c,
      vout = cu_index c, utype = ''p2pkh'', frozen = False\<rparr>"

text \<open>An unknown key hash and a failed request are caught and logged.\<close>

definition updateUTXOsFromPkh :: "string \<Rightarrow> chain_utxo list option \<Rightarrow> 'k wallet \<Rightarrow> 'k wallet" where
  "updateUTXOsFromPkh pkh answer w =
     (case (map_get (addressDataByPkh w) pkh, answer) of
        (Some d, Some cs) \<Rightarrow>
          w\<lparr>storage := refreshUTXOsByAddr (ad_address d) (map (chain_coin d) cs) (storage w)\<rparr>
      | _ \<Rightarrow> w)"

definition updateHDUTXOs :: "(string \<Rightarrow> chain_utxo list option) \<Rightarrow> 'k wallet \<Rightarrow> 'k wallet" where
  "updateHDUTXOs answers w = fold (\<lambda>pkh. updateUTXOsFromPkh pkh (answers pkh)) (map fst (addressDataByPkh w)) w"

section \<open>Following a transaction\<close>

text \<open>The address data of a hexadecimal output script, if it pays to a key hash of the wallet.\<close>

definition own_address :: "'k wallet \<Rightarrow> string \<Rightarrow> 'k address_data option res" where
  "own_address w hex =
     rbind (script_fromHex hex) (\<lambda>script.
       if \<not> isPublicKeyHashOut script then Inr None
       else rmap (\<lambda>h. map_get (addressDataByPkh w) (to_hex h)) (getPublicKeyHash script))"

definition add_output :: "string \<Rightarrow> nat \<times> chain_output \<Rightarrow> 'k wallet \<Rightarrow> 'k wallet res" where
  "add_output tid io w =
     rmap (\<lambda>d. case d of
        None \<Rightarrow> w
      | Some d \<Rightarrow> w\<lparr>storage := put (chain_coin d \<lparr>cu_txid = tid, cu_index = fst io, cu_sats = co_sats (snd io)\<rparr>) (storage w)\<rparr>)
       (own_address w (co_script (snd io)))"

definition delete_input :: "chain_input \<Rightarrow> 'k wallet \<Rightarrow> 'k wallet res" where
  "delete_input i w =
     (case ci_script i of
        None \<Rightarrow> Inr w
      | Some hex \<Rightarrow>
          if hex = [] then Inr w
          else rmap (\<lambda>d. case d of
                 None \<Rightarrow> w
               | Some d \<Rightarrow> w\<lparr>storage := deleteById (calcId (ci_txid i) (ci_index i)) (storage w)\<rparr>)
                (own_address w hex))"

text \<open>A loop whose body may throw: the state it leaves and the error, if any.\<close>

primrec try_each :: "('a \<Rightarrow> 'w \<Rightarrow> 'w res) \<Rightarrow> 'a list \<Rightarrow> 'w \<Rightarrow> 'w \<times> js_error option" where
  "try_each f [] w = (w, None)"
| "try_each f (x # xs) w = (case f x w of Inl e \<Rightarrow> (w, Some e) | Inr w1 \<Rightarrow> try_each f xs w1)"

text \<open>Before the request: the transaction is marked as handled, unless it already was.\<close>

definition tx_hit :: "string \<Rightarrow> 'k wallet \<Rightarrow> 'k wallet option" where
  "tx_hit tid w = (if tid \<in> txIdHandled w then None else Some (w\<lparr>txIdHandled := insert tid (txIdHandled w)\<rparr>))"

text \<open>After it: outputs first, then inputs; on an error the mark is taken back.\<close>

definition tx_answer :: "string \<Rightarrow> chain_tx res \<Rightarrow> 'k wallet \<Rightarrow> 'k wallet \<times> js_error option" where
  "tx_answer tid answer w =
     (let (w1, e) = (case answer of
          Inl e \<Rightarrow> (w, Some e)
        | Inr t \<Rightarrow>
            let (w1, e) = try_each (add_output tid) (List.enumerate 0 (ct_outputs t)) w
            in if e = None then try_each delete_input (ct_inputs t) w1 else (w1, e))
      in if e = None then (w1, None) else (w1\<lparr>txIdHandled := txIdHandled w1 - {tid}\<rparr>, e))"

section \<open>Messages\<close>

datatype tx_event = TX_ADDED_TO_MEMPOOL | TX_CONFIRMED | TX_FINALIZED | TX_REMOVED_FROM_MEMPOOL
  | TX_INVALIDATED | TX_OTHER

datatype ws_message = Tx tx_event string | WsError string | Block

datatype reaction = FollowTx string | RefreshAll | Nothing

definition addressUpdated :: "ws_message \<Rightarrow> reaction" where
  "addressUpdated msg =
     (case msg of
        Tx ev tid \<Rightarrow>
          (case ev of
             TX_ADDED_TO_MEMPOOL \<Rightarrow> FollowTx tid | TX_CONFIRMED \<Rightarrow> FollowTx tid | TX_FINALIZED \<Rightarrow> FollowTx tid
           | TX_REMOVED_FROM_MEMPOOL \<Rightarrow> RefreshAll | TX_INVALIDATED \<Rightarrow> RefreshAll | TX_OTHER \<Rightarrow> Nothing)
      | WsError _ \<Rightarrow> Nothing
      | Block \<Rightarrow> Nothing)"

section \<open>Repairing stored coins\<close>

text \<open>\<open>unspent addr\<close> are the ids Chronik reports for an address; a failed request comes first.\<close>

primrec check_coins :: "(string \<Rightarrow> string set) \<Rightarrow> bool \<Rightarrow> 'k utxo list \<Rightarrow> 'k utxo_store \<Rightarrow> bool list \<times> 'k utxo_store" where
  "check_coins unspent unfreeze [] s = ([], s)"
| "check_coins unspent unfreeze (u # us) s =
     (let i = calcUtxoId u; alive = i \<in> unspent (address u);
          s1 = (if alive then (if unfreeze then unfreezeById i s else s) else deleteById i s);
          (bs, s2) = check_coins unspent unfreeze us s1
      in (alive # bs, s2))"

definition checkAndFixUtxos ::
  "(string \<Rightarrow> string set res) \<Rightarrow> bool \<Rightarrow> 'k utxo list \<Rightarrow> 'k utxo_store \<Rightarrow> (bool list \<times> 'k utxo_store) res" where
  "checkAndFixUtxos answers unfreeze us s =
     (case find (\<lambda>u. \<not> isOk (answers (address u))) us of
        Some u \<Rightarrow> (case answers (address u) of Inl e \<Rightarrow> Inl e | Inr _ \<Rightarrow> Inl TypeErr)
      | None \<Rightarrow> Inr (check_coins (\<lambda>a. case answers a of Inr ids \<Rightarrow> ids | Inl _ \<Rightarrow> {}) unfreeze us s))"

text \<open>
  The repair looks the coins up, has them checked, and unfreezes those that are unspent.  The results are those of the
  coins found in the store, the ids those of all coins asked for.  \<open>fixUtxos\<close> is the repair that nothing interrupts.
\<close>

definition fix_stored :: "'k utxo list \<Rightarrow> 'k utxo_store \<Rightarrow> 'k utxo list" where
  "fix_stored us s = List.map_filter (\<lambda>i. getById i s) (map calcUtxoId us)"

definition fix_unfreeze :: "'k utxo list \<Rightarrow> bool list \<Rightarrow> 'k utxo_store \<Rightarrow> 'k utxo_store" where
  "fix_unfreeze us bs s = fold (\<lambda>(b, i). if b then unfreezeById i else id) (zip bs (map calcUtxoId us)) s"

definition fixUtxos :: "(string \<Rightarrow> string set res) \<Rightarrow> 'k utxo list \<Rightarrow> 'k utxo_store \<Rightarrow> 'k utxo_store res" where
  "fixUtxos answers us s =
     rmap (\<lambda>(bs, s1). fix_unfreeze us bs s1) (checkAndFixUtxos answers False (fix_stored us s) s)"

definition updateAllOutpoints :: "(string \<Rightarrow> string set res) \<Rightarrow> 'k utxo_store \<Rightarrow> 'k utxo_store res" where
  "updateAllOutpoints answers s = fixUtxos answers (map snd (getUtxoMap s)) s"

section \<open>Emptying and loading\<close>

definition clearUtxos :: "'k wallet \<Rightarrow> 'k wallet" where
  "clearUtxos w = w\<lparr>storage := clear_store (storage w)\<rparr>"

section \<open>What the handlers do to the store\<close>

lemmas reached_once [simp] = store.reached_ops [OF store.reached_refl]

lemma refresh_loop_reached: "refresh_loop addr es ids found s = (found1, s1) \<Longrightarrow> store.reached s s1"
  by (induction es arbitrary: ids found s)
     (auto split: if_splits intro: store.reached_trans [OF reached_once(2)])

lemma put_missing_reached: "store.reached s (put_missing found us s)"
  unfolding put_missing_def by (intro store.reached_fold store.reached_ops store.reached_refl)

lemma refresh_reached: "store.reached s (refreshUTXOsByAddr addr us s)"
  unfolding refreshUTXOsByAddr_def
  by (auto simp: Let_def split: prod.split dest!: refresh_loop_reached intro: store.reached_trans [OF _ put_missing_reached])

lemma updateUTXOsFromPkh_reached: "store.reached (storage w) (storage (updateUTXOsFromPkh pkh answer w))"
  by (auto simp: updateUTXOsFromPkh_def refresh_reached split: option.splits)

lemma updateHDUTXOs_reached: "store.reached (storage w) (storage (updateHDUTXOs answers w))"
proof -
  have "store.reached (storage w) (storage (fold (\<lambda>pkh. updateUTXOsFromPkh pkh (answers pkh)) ps w))" for ps
    by (induction ps arbitrary: w) (auto intro: store.reached_trans [OF updateUTXOsFromPkh_reached])
  then show ?thesis by (simp add: updateHDUTXOs_def)
qed

lemma try_each_invariant:
  assumes "\<And>x w w1. f x w = Inr w1 \<Longrightarrow> R w w1" and "\<And>w. R w w" and "\<And>a b c. R a b \<Longrightarrow> R b c \<Longrightarrow> R a c"
  shows "R w (fst (try_each f xs w))"
  using assms by (induction xs arbitrary: w) (auto split: sum.split, metis)

lemma add_output_reached: "add_output tid io w = Inr w1 \<Longrightarrow> store.reached (storage w) (storage w1)"
  by (auto simp: add_output_def rmap_Inr_iff split: option.splits)

lemma delete_input_reached: "delete_input i w = Inr w1 \<Longrightarrow> store.reached (storage w) (storage w1)"
  by (auto simp: delete_input_def rmap_Inr_iff split: option.splits if_splits)

lemma try_outputs_reached: "store.reached (storage w) (storage (fst (try_each (add_output tid) xs w)))"
  by (rule try_each_invariant [where R = "\<lambda>w v. store.reached (storage w) (storage v)"])
     (auto intro: add_output_reached store.reached_trans)

lemma try_inputs_reached: "store.reached (storage w) (storage (fst (try_each delete_input xs w)))"
  by (rule try_each_invariant [where R = "\<lambda>w v. store.reached (storage w) (storage v)"])
     (auto intro: delete_input_reached store.reached_trans)

lemma tx_answer_reached: "store.reached (storage w) (storage (fst (tx_answer tid answer w)))"
proof (cases answer)
  case (Inr t)
  obtain w1 e where 1: "try_each (add_output tid) (List.enumerate 0 (ct_outputs t)) w = (w1, e)" by fastforce
  obtain w2 e2 where 2: "try_each delete_input (ct_inputs t) w1 = (w2, e2)" by fastforce
  have "store.reached (storage w) (storage w1)" using try_outputs_reached [of w tid "List.enumerate 0 (ct_outputs t)"] 1 by simp
  moreover have "store.reached (storage w1) (storage w2)" using try_inputs_reached [of w1 "ct_inputs t"] 2 by simp
  ultimately show ?thesis
    using store.reached_trans by (auto simp: tx_answer_def Inr 1 2)
qed (simp add: tx_answer_def)

lemma check_coins_reached: "check_coins unspent unfreeze us s = (bs, s1) \<Longrightarrow> store.reached s s1"
proof (induction us arbitrary: s bs)
  case (Cons u us)
  let ?i = "calcUtxoId u"
  let ?s = "if ?i \<in> unspent (address u) then if unfreeze then unfreezeById ?i s else s else deleteById ?i s"
  obtain bs2 where "check_coins unspent unfreeze us ?s = (bs2, s1)"
    using Cons.prems by (auto simp: Let_def split: prod.splits)
  then have "store.reached ?s s1" by (rule Cons.IH)
  moreover have "store.reached s ?s" by (auto intro: store.reached_ops)
  ultimately show ?case by (rule store.reached_trans [rotated])
qed simp

lemma unfreeze_marked_reached: "store.reached s (fold (\<lambda>(b, i). if b then unfreezeById i else id) xs s)"
  by (rule store.reached_fold) (auto intro: store.reached_ops split: prod.split)

lemma checkAndFixUtxos_reached: "checkAndFixUtxos answers unfreeze us s = Inr (bs, s1) \<Longrightarrow> store.reached s s1"
  by (auto simp: checkAndFixUtxos_def check_coins_reached split: option.splits sum.splits)

lemma fixUtxos_reached: "fixUtxos answers us s = Inr s1 \<Longrightarrow> store.reached s s1"
  by (auto simp: fixUtxos_def fix_unfreeze_def rmap_Inr_iff dest!: checkAndFixUtxos_reached
      intro: store.reached_trans [OF _ unfreeze_marked_reached])

lemmas sync_reached = updateUTXOsFromPkh_reached updateHDUTXOs_reached tx_answer_reached checkAndFixUtxos_reached
  fixUtxos_reached

subsection \<open>Refreshing\<close>

text \<open>A coin of the address that is not among the ids when its turn comes is deleted for good.\<close>

lemma refresh_loop_found: "refresh_loop addr es ids found s = (found1, s1) \<Longrightarrow>
    set found1 = set found \<union> fst ` {e \<in> set es. address (snd e) = addr}"
  by (induction es arbitrary: ids found s) (auto split: if_splits)

lemma set_butlast: "set (butlast xs) \<subseteq> set xs"
  by (auto dest: in_set_butlastD)

lemma refresh_loop_absent:
  assumes "refresh_loop addr es ids found s = (found1, s1)" and "(i, u) \<in> set es" and "address u = addr"
    and "i \<notin> set ids"
  shows "i \<in> deletedUtxos s1"
  using assms
proof (induction es arbitrary: ids found s)
  case (Cons e es)
  show ?case
  proof (cases "e = (i, u)")
    case True
    with Cons.prems have "store.reached (deleteById i s) s1" by (auto dest: refresh_loop_reached)
    from store.reached_dead [OF this] show ?thesis by simp
  next
    case False
    with Cons.prems(2) have e: "(i, u) \<in> set es" by simp
    have "i \<notin> set (butlast ids)" using Cons.prems(4) set_butlast by fastforce
    with Cons.prems Cons.IH [OF _ e Cons.prems(3)] show ?thesis by (auto split: if_splits)
  qed
qed simp

lemma refresh_loop_delete: "store_ok s \<Longrightarrow> refresh_loop addr es ids found s = (found1, s1) \<Longrightarrow>
    getById i s1 = Some u \<Longrightarrow> getById i s = Some u"
proof (induction es arbitrary: ids found s)
  case (Cons e es)
  show ?case
  proof (cases "address (snd e) \<noteq> addr \<or> fst e \<in> set ids")
    case True
    with Cons show ?thesis by (auto split: if_splits)
  next
    case False
    with Cons.prems have "refresh_loop addr es (butlast ids) (found @ [fst e]) (deleteById (fst e) s) = (found1, s1)" by simp
    from Cons.IH [OF deleteById_ok [OF Cons.prems(1)] this Cons.prems(3)] show ?thesis by (simp split: if_splits)
  qed
qed simp

lemma getById_put_fold: "store_ok s \<Longrightarrow> getById i (fold put us s) = Some u \<Longrightarrow>
    getById i s = Some u \<or> u \<in> set us \<and> i = calcUtxoId u"
proof (induction us arbitrary: s)
  case (Cons v us)
  have "getById i (fold put us (put v s)) = Some u" using Cons.prems(2) by simp
  from Cons.IH [OF put_ok [OF Cons.prems(1)] this] show ?case by (auto simp: getById_put split: if_splits)
qed simp

lemma refresh_reported:
  assumes ok: "store_ok s" and g: "getById i (refreshUTXOsByAddr addr us s) = Some u" and a: "address u = addr"
  shows "i \<in> calcUtxoId ` set us"
proof -
  obtain found s1 where l: "refresh_loop addr (cache s) (map calcUtxoId us) [] s = (found, s1)" by fastforce
  have ok1: "store_ok s1" using store.reached_ok [OF refresh_loop_reached [OF l] ok] .
  have "getById i (fold put (filter (\<lambda>u. calcUtxoId u \<notin> set found) us) s1) = Some u"
    using g l by (simp add: refreshUTXOsByAddr_def getUtxoMap_def put_missing_def)
  from getById_put_fold [OF ok1 this] show ?thesis
  proof
    assume g1: "getById i s1 = Some u"
    with ok l have "(i, u) \<in> set (cache s)" using refresh_loop_delete getById_cache by metis
    then have "i \<in> set (map calcUtxoId us) \<or> i \<in> deletedUtxos s1" using refresh_loop_absent [OF l _ a] by blast
    with g1 store.lookup_dead [OF ok1] show ?thesis by auto
  qed auto
qed

lemma refresh_loses:
  assumes "cache s = pre @ (x, ux) # mid @ (b, ub) # rest" and "address ux = addr" and "address ub = addr"
    and "x \<notin> calcUtxoId ` set us" and "map calcUtxoId us = ids @ [b]" and "b \<notin> set ids"
  shows "b \<in> deletedUtxos (refreshUTXOsByAddr addr us s)"
proof -
  obtain found s1 where l: "refresh_loop addr (cache s) (map calcUtxoId us) [] s = (found, s1)" by fastforce
  have x: "x \<notin> set (ids @ [b])" using assms(4) by (simp flip: assms(5))
  text \<open>The ids that are left are a prefix, and once \<open>x\<close> was seen a proper one.\<close>
  have gone: "refresh_loop addr (pre @ (x, ux) # mid @ (b, ub) # rest) is found s = (found1, s1) \<Longrightarrow>
      is = ids @ [b] \<or> set is \<subseteq> set ids \<Longrightarrow> b \<in> deletedUtxos s1" for pre "is" found s found1 s1
  proof (induction pre arbitrary: "is" found s)
    case Nil
    from Nil.prems(2) x have x': "x \<notin> set is" and b: "b \<notin> set (butlast is)"
      using assms(6) set_butlast [of "is"] by auto
    from Nil.prems(1) x' assms(2) have
      "refresh_loop addr (mid @ (b, ub) # rest) (butlast is) (found @ [x]) (deleteById x s) = (found1, s1)" by simp
    from refresh_loop_absent [OF this _ assms(3) b] show ?case by simp
  next
    case (Cons e pre)
    have "is = ids @ [b] \<or> set is \<subseteq> set ids \<Longrightarrow> set (butlast is) \<subseteq> set ids"
      using set_butlast [of "is"] by auto
    with Cons show ?case by (auto split: if_splits)
  qed
  have "b \<in> deletedUtxos s1" using gone [of pre "ids @ [b]" "[]" s found s1] l assms(1,5) by simp
  then show ?thesis
    using l store.reached_dead [OF put_missing_reached, of s1 found us]
    by (auto simp: refreshUTXOsByAddr_def getUtxoMap_def)
qed

subsection \<open>Repairing\<close>

lemma check_coins_length: "check_coins unspent unfreeze us s = (bs, s1) \<Longrightarrow> length bs = length us"
  by (induction us arbitrary: s bs) (auto simp: Let_def split: prod.splits)

lemma check_coins_keep: "store_ok s \<Longrightarrow> check_coins unspent False us s = (bs, s1) \<Longrightarrow>
    getById i s1 = Some u \<Longrightarrow> getById i s = Some u"
proof (induction us arbitrary: s bs)
  case (Cons v us)
  let ?s = "if calcUtxoId v \<in> unspent (address v) then s else deleteById (calcUtxoId v) s"
  obtain bs2 where "check_coins unspent False us ?s = (bs2, s1)"
    using Cons.prems(2) by (auto simp: Let_def split: prod.splits if_splits)
  moreover have "store_ok ?s" using Cons.prems(1) by (simp add: deleteById_ok)
  ultimately have "getById i ?s = Some u" using Cons.IH Cons.prems(3) by blast
  then show ?case by (simp split: if_splits)
qed simp

lemma unfreeze_marked_other: "store_ok s \<Longrightarrow> i \<notin> snd ` set xs \<Longrightarrow>
    getById i (fold (\<lambda>(b, i). if b then unfreezeById i else id) xs s) = getById i s"
proof (induction xs arbitrary: s)
  case (Cons x xs)
  then show ?case by (cases x) (auto simp: unfreezeById_ok getById_unfreeze)
qed simp

lemma map_filter_shorter: "x \<in> set xs \<Longrightarrow> f x = None \<Longrightarrow> length (List.map_filter f xs) < length xs"
proof (induction xs)
  case (Cons y xs)
  have "length (List.map_filter f xs) \<le> length xs" by (induction xs) (auto simp: map_filter_simps split: option.split)
  with Cons show ?case by (auto simp: map_filter_simps split: option.split)
qed simp

section \<open>Events\<close>

text \<open>
  What can change a running wallet, in any order: the parts of the handlers between two of their \<^verbatim>\<open>await\<close>s, the
  operations other components call, a new initialisation, and loading the cache from the database.  A repair is its
  check and, later, its unfreezing.  Emptying the store is a step of its own.
\<close>

inductive wallet_step :: "'k wallet \<Rightarrow> 'k wallet \<Rightarrow> bool" where
  init: "wallet_step w (wallet_init K n m w)"
| refresh: "wallet_step w (updateUTXOsFromPkh pkh answer w)"
| refresh_all: "wallet_step w (updateHDUTXOs answers w)"
| tx_hit: "tx_hit tid w = Some v \<Longrightarrow> wallet_step w v"
| tx_answer: "wallet_step w (fst (tx_answer tid answer w))"
| check: "checkAndFixUtxos found unfreeze us (storage w) = Inr (bs, s) \<Longrightarrow> wallet_step w (w\<lparr>storage := s\<rparr>)"
| repaired: "wallet_step w (w\<lparr>storage := fix_unfreeze us bs (storage w)\<rparr>)"
| freeze: "wallet_step w (w\<lparr>storage := freezeById i (storage w)\<rparr>)"
| unfreeze: "wallet_step w (w\<lparr>storage := unfreezeById i (storage w)\<rparr>)"
| put: "wallet_step w (w\<lparr>storage := put u (storage w)\<rparr>)"
| delete: "wallet_step w (w\<lparr>storage := deleteById i (storage w)\<rparr>)"
| load: "wallet_step w (w\<lparr>storage := loadData reload (storage w)\<rparr>)"

inductive session_step :: "'k wallet \<Rightarrow> 'k wallet \<Rightarrow> bool" where
  running: "wallet_step w v \<Longrightarrow> session_step w v"
| clear: "session_step w (clearUtxos w)"

inductive_cases wallet_stepE: "wallet_step w v"

text \<open>What every step keeps: the store stays well formed and remembers what was deleted.\<close>

definition store_kept :: "'k utxo_store \<Rightarrow> 'k utxo_store \<Rightarrow> bool" where
  "store_kept s t \<longleftrightarrow> (store_ok s \<longrightarrow> store_ok t) \<and> deletedUtxos s \<subseteq> deletedUtxos t"

lemma store_kept_trans: "store_kept s t \<Longrightarrow> store_kept t u \<Longrightarrow> store_kept s u"
  by (auto simp: store_kept_def)

lemma reached_kept: "store.reached s t \<Longrightarrow> store_kept s t"
  unfolding store_kept_def using store.reached_ok store.reached_dead by blast

lemma storage_add_address [simp]: "storage (addAddressData K c k w) = storage w"
  by (simp add: addAddressData_def)

lemma storage_init [simp]: "storage (wallet_init K n m w) = storage w"
proof -
  have "storage (fold (addAddressData K c) ks v) = storage v" for c ks and v :: "'a wallet"
    by (induction ks arbitrary: v) simp_all
  then show ?thesis by (simp add: wallet_init_def initAddresses_def Let_def)
qed

lemma wallet_step_kept: "wallet_step w v \<Longrightarrow> store_kept (storage w) (storage v)"
proof (induction rule: wallet_step.induct)
  case (load w reload)
  then show ?case by (simp add: store_kept_def loadData_ok)
qed (auto simp: sync_reached tx_hit_def fix_unfreeze_def unfreeze_marked_reached intro!: reached_kept intro: store.reached_ops split: if_splits)

lemma wallet_steps_kept: "wallet_step\<^sup>*\<^sup>* w v \<Longrightarrow> store_kept (storage w) (storage v)"
  by (induction rule: rtranclp_induct) (simp add: store_kept_def, blast intro: store_kept_trans wallet_step_kept)

lemma session_steps_ok: "session_step\<^sup>*\<^sup>* w v \<Longrightarrow> store_ok (storage w) \<Longrightarrow> store_ok (storage v)"
proof (induction rule: rtranclp_induct)
  case (step u v)
  from step(2) show ?case
    using step(3,4) wallet_step_kept by cases (auto simp: store_kept_def clearUtxos_def clear_store_ok)
qed

section \<open>Properties\<close>

text \<open>C35. In every order of answers, messages, user actions, loads and clearings the store stays well formed; and a coin
  that is deleted at any moment is held neither in the cache nor in the database from then on, as long as the store
  is not cleared.\<close>

theorem deleted_coin_stays_away:
  assumes "store_ok (storage w)" and "session_step\<^sup>*\<^sup>* w u" and "wallet_step\<^sup>*\<^sup>* (u\<lparr>storage := deleteById i (storage u)\<rparr>) v"
  shows "store_ok (storage v) \<and> getById i (storage v) = None \<and> map_get (outpoints (storage v)) i = None"
proof -
  have u: "store_ok (deleteById i (storage u))" using deleteById_ok [OF session_steps_ok [OF assms(2,1)]] .
  have "store_kept (deleteById i (storage u)) (storage v)" using wallet_steps_kept [OF assms(3)] by simp
  with u have "store_ok (storage v)" "i \<in> deletedUtxos (storage v)" by (auto simp: store_kept_def)
  then show ?thesis by (simp add: store_ok_def getById_def)
qed

definition demo_coin :: "string \<Rightarrow> nat \<Rightarrow> nat utxo" where
  "demo_coin t n = \<lparr>address = ''a'', privKey = 0, amount_sats = n, txId = t, vout = 0, utype = ''p2pkh'', frozen = False\<rparr>"

definition demo_wallet :: "nat wallet" where
  "demo_wallet = \<lparr>storage = put (demo_coin ''bb'' 2000) (put (demo_coin ''aa'' 1000) (empty_store [])),
     walletKeys = [], changeKeys = [], addressDataByPkh = [], txIdHandled = {}\<rparr>"

lemma demo_wallet_ok: "store_ok (storage demo_wallet)"
  by (simp add: demo_wallet_def put_ok store_ok_empty well_keyed_def)

theorem deleted_coin_stays_away_witness:
  "getById (calcId ''aa'' 0) (loadData Suc (put (demo_coin ''aa'' 7) (deleteById (calcId ''aa'' 0) (put (demo_coin ''aa'' 5) (clear_store (storage demo_wallet)))))) = None"
proof -
  let ?c = "clearUtxos demo_wallet" and ?k = "calcId ''aa'' 0"
  let ?u = "?c\<lparr>storage := put (demo_coin ''aa'' 5) (storage ?c)\<rparr>"
  let ?w = "?u\<lparr>storage := deleteById ?k (storage ?u)\<rparr>"
  have "session_step\<^sup>*\<^sup>* demo_wallet ?u"
    by (rule rtranclp.rtrancl_into_rtrancl [where b = ?c], rule r_into_rtranclp, rule session_step.clear)
      (rule session_step.running, rule wallet_step.put)
  moreover have "wallet_step\<^sup>*\<^sup>* ?w (?w\<lparr>storage := put (demo_coin ''aa'' 7) (storage ?w)\<rparr>)"
    by (rule r_into_rtranclp) (rule wallet_step.put)
  then have "wallet_step\<^sup>*\<^sup>* ?w (?w\<lparr>storage := loadData Suc (put (demo_coin ''aa'' 7) (storage ?w))\<rparr>)"
    using wallet_step.load [of "?w\<lparr>storage := put (demo_coin ''aa'' 7) (storage ?w)\<rparr>" Suc] by (simp add: rtranclp.rtrancl_into_rtrancl)
  ultimately show ?thesis using deleted_coin_stays_away [OF demo_wallet_ok] by (fastforce simp: clearUtxos_def)
qed

text \<open>After a refresh, the store holds no coin of the address that Chronik did not report.\<close>

theorem refresh_leaves_no_phantoms:
  assumes "store_ok s"
  shows "list_all (\<lambda>(i, u). address u = addr \<longrightarrow> i \<in> calcUtxoId ` set us) (getUtxoMap (refreshUTXOsByAddr addr us s))"
proof -
  have ok: "store_ok (refreshUTXOsByAddr addr us s)" using store.reached_ok [OF refresh_reached assms] .
  show ?thesis
    unfolding list_all_iff getUtxoMap_def
  proof clarify
    fix i u
    assume "(i, u) \<in> set (cache (refreshUTXOsByAddr (address u) us s))" and "addr = address u"
    with ok show "i \<in> calcUtxoId ` set us" by (intro refresh_reported [OF assms, of i "address u" us u]) (simp_all add: getById_cache)
  qed
qed

theorem refresh_leaves_no_phantoms_witness:
  "list_all (\<lambda>(i, u). address u = ''a'' \<longrightarrow> i \<in> calcUtxoId ` set [demo_coin ''bb'' 2000])
     (getUtxoMap (refreshUTXOsByAddr ''a'' [demo_coin ''bb'' 2000] (storage demo_wallet)))"
  by (rule refresh_leaves_no_phantoms [OF demo_wallet_ok])

text \<open>A refresh can lose a coin that is reported as unspent.  When a stored coin of the address
  is gone from the chain, \<^verbatim>\<open>ids.splice(index, 1)\<close> runs with index -1 and drops the last reported id;
  if that coin is stored after the missing one, it is deleted too, and no later event brings it
  back while the wallet runs.\<close>

theorem refresh_loses_reported_coin:
  assumes "store_ok (storage w)" and "cache (storage w) = pre @ (x, ux) # mid @ (b, ub) # rest"
    and "address ux = addr" and "address ub = addr"
    and "x \<notin> calcUtxoId ` set us" and "map calcUtxoId us = ids @ [b]" and "b \<notin> set ids"
    and "wallet_step\<^sup>*\<^sup>* (w\<lparr>storage := refreshUTXOsByAddr addr us (storage w)\<rparr>) v"
  shows "b \<in> calcUtxoId ` set us \<and> getById b (storage w) = Some ub \<and> getById b (storage v) = None"
proof -
  let ?s = "refreshUTXOsByAddr addr us (storage w)"
  have r: "store_kept ?s (storage v)" using wallet_steps_kept [OF assms(8)] by simp
  have "b \<in> deletedUtxos ?s" by (rule refresh_loses [OF assms(2-7)])
  with r have "b \<in> deletedUtxos (storage v)" by (auto simp: store_kept_def)
  moreover have "store_ok (storage v)" using r store.reached_ok [OF refresh_reached assms(1)] by (simp add: store_kept_def)
  ultimately have "getById b (storage v) = None" by (simp add: store_ok_def getById_def)
  moreover have "b \<in> set (map calcUtxoId us)" by (simp add: assms(6))
  moreover have "getById b (storage w) = Some ub" using getById_cache [OF assms(1)] assms(2) by simp
  ultimately show ?thesis by simp
qed

lemma demo_wallet_cache: "cache (storage demo_wallet) =
    [(calcId ''aa'' 0, demo_coin ''aa'' 1000), (calcId ''bb'' 0, demo_coin ''bb'' 2000)]"
  by (simp add: demo_wallet_def put_def empty_store_def demo_coin_def calcUtxoId_def calcId_def map_set_def Let_def
      del: nat_dec.simps)

theorem refresh_loses_reported_coin_witness:
  "getById (calcId ''bb'' 0) (refreshUTXOsByAddr ''a'' [demo_coin ''bb'' 2000] (storage demo_wallet)) = None \<and>
   getById (calcId ''bb'' 0) (storage demo_wallet) = Some (demo_coin ''bb'' 2000)"
proof -
  let ?w = "demo_wallet\<lparr>storage := refreshUTXOsByAddr ''a'' [demo_coin ''bb'' 2000] (storage demo_wallet)\<rparr>"
  have id: "calcUtxoId (demo_coin t n) = calcId t 0" for t n by (simp add: demo_coin_def calcUtxoId_def)
  have "calcId ''aa'' 0 \<noteq> calcId ''bb'' 0" by (simp add: calcId_def del: nat_dec.simps)
  then show ?thesis
    using refresh_loses_reported_coin [OF demo_wallet_ok, of "[]" "calcId ''aa'' 0" "demo_coin ''aa'' 1000" "[]"
        "calcId ''bb'' 0" "demo_coin ''bb'' 2000" "[]" "''a''" "[demo_coin ''bb'' 2000]" "[]" ?w]
    by (simp add: demo_wallet_cache id) (simp add: demo_coin_def)
qed

text \<open>The repair pairs the results of the coins it found with the ids of all it was asked for:
  when one of them is not stored, the last coin stays as it was, frozen although it is unspent.\<close>

theorem repair_skips_last_coin:
  assumes "store_ok s" and "map calcUtxoId us = ids @ [c]" and "c \<notin> set ids" and "i \<in> set ids"
    and "getById i s = None" and "fixUtxos answers us s = Inr s1" and "getById c s1 = Some u"
  shows "getById c s = Some u"
proof -
  let ?st = "List.map_filter (\<lambda>i. getById i s) (ids @ [c])"
  obtain bs s2 where chk: "checkAndFixUtxos answers False ?st s = Inr (bs, s2)"
    and s1: "s1 = fold (\<lambda>(b, i). if b then unfreezeById i else id) (zip bs (ids @ [c])) s2"
    using assms(6) unfolding fixUtxos_def fix_unfreeze_def fix_stored_def assms(2) by (auto simp: rmap_Inr_iff)
  from chk obtain unspent where cc: "check_coins unspent False ?st s = (bs, s2)"
    by (auto simp: checkAndFixUtxos_def split: option.splits sum.splits)
  have ok2: "store_ok s2" using store.reached_ok [OF check_coins_reached [OF cc] assms(1)] .
  have "length bs < length (ids @ [c])"
    using check_coins_length [OF cc] map_filter_shorter [of i "ids @ [c]" "\<lambda>i. getById i s"] assms(4,5) by simp
  then have "zip bs (ids @ [c]) = zip bs ids" by (simp add: zip_append2)
  then have "c \<notin> snd ` set (zip bs (ids @ [c]))" using assms(3) by (auto dest: set_zip_rightD)
  then have "getById c s1 = getById c s2" unfolding s1 using ok2 by (rule unfreeze_marked_other [rotated])
  with check_coins_keep [OF assms(1) cc] assms(7) show ?thesis by simp
qed

theorem repair_skips_last_coin_witness:
  "\<exists>s1. fixUtxos (\<lambda>_. Inr {calcId ''bb'' 0}) [demo_coin ''cc'' 1, demo_coin ''bb'' 2000]
      (freezeById (calcId ''bb'' 0) (storage demo_wallet)) = Inr s1 \<and>
    map_option frozen (getById (calcId ''bb'' 0) s1) = Some True"
proof -
  let ?s = "freezeById (calcId ''bb'' 0) (storage demo_wallet)"
    and ?us = "[demo_coin ''cc'' 1, demo_coin ''bb'' 2000]"
  have ok: "store_ok ?s" by (rule freezeById_ok [OF demo_wallet_ok])
  have id: "calcUtxoId (demo_coin t n) = calcId t 0" for t n by (simp add: demo_coin_def calcUtxoId_def)
  have ne: "calcId ''cc'' 0 \<noteq> calcId ''bb'' 0" "calcId ''cc'' 0 \<noteq> calcId ''aa'' 0"
    by (simp_all add: calcId_def del: nat_dec.simps)
  have ne2: "calcId ''aa'' 0 \<noteq> calcId ''bb'' 0" by (simp add: calcId_def del: nat_dec.simps)
  have g: "getById (calcId ''bb'' 0) ?s = Some ((demo_coin ''bb'' 2000)\<lparr>frozen := True\<rparr>)"
    "getById (calcId ''cc'' 0) ?s = None"
    using ne ne2 unfolding getById_freeze [OF demo_wallet_ok]
    by (simp_all add: getById_def demo_wallet_cache map_get_def)
  have st: "List.map_filter (\<lambda>i. getById i ?s) (map calcUtxoId ?us) = [(demo_coin ''bb'' 2000)\<lparr>frozen := True\<rparr>]"
    by (simp add: map_filter_simps id g)
  have "fixUtxos (\<lambda>_. Inr {calcId ''bb'' 0}) ?us ?s = Inr (unfreezeById (calcId ''cc'' 0) ?s)"
    by (simp add: fixUtxos_def fix_unfreeze_def fix_stored_def checkAndFixUtxos_def id g map_filter_simps Let_def)
  moreover from this have "getById (calcId ''bb'' 0) (unfreezeById (calcId ''cc'' 0) ?s) =
      Some ((demo_coin ''bb'' 2000)\<lparr>frozen := True\<rparr>)"
    using repair_skips_last_coin [OF ok, of ?us "[calcId ''cc'' 0]" "calcId ''bb'' 0" "calcId ''cc'' 0"
        "\<lambda>_. Inr {calcId ''bb'' 0}" "unfreezeById (calcId ''cc'' 0) ?s"] ne
      getById_unfreeze [OF ok, of "calcId ''bb'' 0" "calcId ''cc'' 0"] g
    by (simp add: id)
  ultimately show ?thesis by simp
qed

end
