(* ===== verification/Transaction.thy ===== *)
theory Transaction
  imports Script JsText "HOL-Library.List_Lexorder" "HOL-Library.Product_Lexorder"
begin

text \<open>
  \<^verbatim>\<open>lib/transaction/transaction.js\<close>, \<^verbatim>\<open>output.js\<close> and \<^verbatim>\<open>input/input.js\<close>: outputs, inputs and
  transactions with their wire format, the bookkeeping of amounts, inputs and outputs, the
  sanity checks and the checks before serialisation.  The state is a transaction without a
  change script and without a fee rate of its own; the hash functions are parameters.
\<close>

section \<open>Outputs\<close>

text \<open>
  The amount is kept twice, as a number and as a big number.  A number is a natural number
  below \<open>2^53\<close> here, as \<^verbatim>\<open>BN.fromNumber\<close> throws for others; the number of a big one is rounded.
\<close>

record tx_output =
  satoshis :: nat
  satoshisBN :: nat
  out_script :: bytes

definition set_satoshis :: "int \<Rightarrow> tx_output \<Rightarrow> tx_output res" where
  "set_satoshis num out =
     rbind (checkArgument (0 \<le> num) ''Output satoshis is not a natural number'') (\<lambda>_.
       if num < 2 ^ 53 then Inr (out\<lparr>satoshisBN := nat num, satoshis := nat num\<rparr>)
       else Inl (PlainError ''Assertion failed''))"

definition set_satoshis_bn :: "nat \<Rightarrow> tx_output \<Rightarrow> tx_output" where
  "set_satoshis_bn num out = out\<lparr>satoshisBN := num, satoshis := to_double num\<rparr>"

definition mk_output :: "int \<Rightarrow> bytes \<Rightarrow> tx_output res" where
  "mk_output num script = set_satoshis num \<lparr>satoshis = 0, satoshisBN = 0, out_script = script\<rparr>"

definition mk_output_bn :: "nat \<Rightarrow> bytes \<Rightarrow> tx_output" where
  "mk_output_bn num script = set_satoshis_bn num \<lparr>satoshis = 0, satoshisBN = 0, out_script = script\<rparr>"

definition MAX_SAFE_INTEGER :: nat where
  "MAX_SAFE_INTEGER = 0x1fffffffffffff"

definition invalidSatoshis :: "tx_output \<Rightarrow> bool" where
  "invalidSatoshis out \<longleftrightarrow> satoshis out > MAX_SAFE_INTEGER \<or> satoshis out \<noteq> to_double (satoshisBN out)"

definition output_fromBufferReader :: "reader \<Rightarrow> (tx_output \<times> reader) res" where
  "output_fromBufferReader br =
     rbind (readUInt64LEBN br) (\<lambda>(num, r1).
     rbind (readVarintNum r1) (\<lambda>(len, r2).
       let (script, r3) = (if len \<noteq> 0 then read len r2 else ([], r2))
       in Inr (mk_output_bn num script, r3)))"

definition output_toBufferWriter :: "writer \<Rightarrow> tx_output \<Rightarrow> writer res" where
  "output_toBufferWriter w out =
     rmap (\<lambda>w1. writeBuf w1 (out_script out))
       (writeVarintNum (writeUInt64LEBN w (satoshisBN out)) (length (out_script out)))"

text \<open>\<^verbatim>\<open>script\<close>: a script that does not parse is \<^verbatim>\<open>null\<close>.\<close>

definition output_script :: "tx_output \<Rightarrow> script option res" where
  "output_script out =
     (case script_fromBuffer (out_script out) of
        Inr s \<Rightarrow> Inr (Some s)
      | Inl e \<Rightarrow> if e = LibError ''Script.InvalidBuffer'' then Inr None else Inl e)"

section \<open>Inputs\<close>

text \<open>The class of an input decides how it is signed: \<open>Plain\<close> is the abstract class.\<close>

datatype input_kind = Plain | PublicKeyHashInput | PublicKeyInput

record tx_input =
  prevTxId :: bytes
  outputIndex :: nat
  sequenceNumber :: nat
  in_script :: bytes
  in_output :: "tx_output option"
  in_kind :: input_kind

definition DEFAULT_SEQNUMBER :: nat where "DEFAULT_SEQNUMBER = 0xffffffff"
definition DEFAULT_LOCKTIME_SEQNUMBER :: nat where "DEFAULT_LOCKTIME_SEQNUMBER = 0xffffffff - 1"

definition isNull :: "tx_input \<Rightarrow> bool" where
  "isNull i \<longleftrightarrow> to_hex (prevTxId i) = replicate 64 CHR ''0'' \<and> outputIndex i = 0xffffffff"

text \<open>\<^verbatim>\<open>isFinal\<close> as it is written: true unless the sequence number is the final one.\<close>

definition isFinal :: "tx_input \<Rightarrow> bool" where
  "isFinal i \<longleftrightarrow> sequenceNumber i \<noteq> 4294967295"

text \<open>\<^verbatim>\<open>script\<close>: \<open>None\<close> is the \<^verbatim>\<open>null\<close> of a coinbase input.\<close>

definition input_script :: "tx_input \<Rightarrow> script option res" where
  "input_script i = (if isNull i then Inr None else rmap Some (script_fromBuffer (in_script i)))"

definition input_fromBufferReader :: "reader \<Rightarrow> (tx_input \<times> reader) res" where
  "input_fromBufferReader br =
     (let (txid, r1) = readReverse (Some 32) br
      in rbind (readUInt32LE r1) (\<lambda>(index, r2).
         rbind (readVarLengthBuffer r2) (\<lambda>(script, r3).
         rbind (readUInt32LE r3) (\<lambda>(seqn, r4).
           Inr (\<lparr>prevTxId = txid, outputIndex = index, sequenceNumber = seqn, in_script = script,
                 in_output = None, in_kind = Plain\<rparr>, r4)))))"

definition input_toBufferWriter :: "writer \<Rightarrow> tx_input \<Rightarrow> writer res" where
  "input_toBufferWriter w i =
     rbind (writeUInt32LE (writeReverse w (prevTxId i)) (outputIndex i)) (\<lambda>w1.
     rbind (writeVarintNum w1 (length (in_script i))) (\<lambda>w2.
       writeUInt32LE (writeBuf w2 (in_script i)) (sequenceNumber i)))"

definition lockForSeconds :: "int \<Rightarrow> tx_input \<Rightarrow> tx_input res" where
  "lockForSeconds seconds i =
     (if seconds < 0 \<or> seconds \<ge> 512 * 0xffff then Inl (LibError ''Transaction.Input.LockTimeRange'')
      else Inr (i\<lparr>sequenceNumber := nat (js_or (seconds div 512) (2 ^ 22))\<rparr>))"

definition input_lockUntilBlockHeight :: "int \<Rightarrow> tx_input \<Rightarrow> tx_input res" where
  "input_lockUntilBlockHeight heightDiff i =
     (if heightDiff < 0 \<or> heightDiff \<ge> 2 ^ 16 - 1 then Inl (LibError ''Transaction.Input.BlockHeightOutOfRange'')
      else Inr (i\<lparr>sequenceNumber := nat heightDiff\<rparr>))"

text \<open>\<open>None\<close> is \<^verbatim>\<open>null\<close>: the lock is disabled.\<close>

definition input_getLockTime :: "tx_input \<Rightarrow> int option" where
  "input_getLockTime i =
     (let s = int (sequenceNumber i)
      in if js_and s (2 ^ 31) \<noteq> 0 then None
         else if js_and s (2 ^ 22) \<noteq> 0 then Some (512 * js_and s 0xffff)
         else Some (js_and s 0xffff))"

section \<open>Transactions\<close>

text \<open>\<open>inputAmount\<close> and \<open>outputAmount\<close> are the cached sums, \<open>None\<close> while they are unknown.\<close>

record tx =
  version :: int
  inputs :: "tx_input list"
  outputs :: "tx_output list"
  nLockTime :: nat
  cachedInput :: "nat option"
  cachedOutput :: "nat option"
  tx_fee :: "nat option"

definition new_tx :: tx where
  "new_tx = \<lparr>version = 2, inputs = [], outputs = [], nLockTime = 0, cachedInput = None,
     cachedOutput = None, tx_fee = None\<rparr>"

primrec write_all :: "(writer \<Rightarrow> 'a \<Rightarrow> writer res) \<Rightarrow> writer \<Rightarrow> 'a list \<Rightarrow> writer res" where
  "write_all f w [] = Inr w"
| "write_all f w (x # xs) = rbind (f w x) (\<lambda>w1. write_all f w1 xs)"

definition tx_toBufferWriter :: "writer \<Rightarrow> tx \<Rightarrow> writer res" where
  "tx_toBufferWriter w t =
     rbind (writeInt32LE w (version t)) (\<lambda>w1.
     rbind (writeVarintNum w1 (length (inputs t))) (\<lambda>w2.
     rbind (write_all input_toBufferWriter w2 (inputs t)) (\<lambda>w3.
     rbind (writeVarintNum w3 (length (outputs t))) (\<lambda>w4.
     rbind (write_all output_toBufferWriter w4 (outputs t)) (\<lambda>w5.
       writeUInt32LE w5 (nLockTime t))))))"

definition tx_toBuffer :: "tx \<Rightarrow> bytes res" where
  "tx_toBuffer t = rmap writer_concat (tx_toBufferWriter new_writer t)"

definition uncheckedSerialize :: "tx \<Rightarrow> string res" where
  "uncheckedSerialize t = rmap to_hex (tx_toBuffer t)"

text \<open>The fields are read into a transaction that may have inputs and outputs already.\<close>

definition tx_fromBufferReader :: "tx \<Rightarrow> reader \<Rightarrow> (tx \<times> reader) res" where
  "tx_fromBufferReader t r =
     rbind (checkArgument (\<not> eof r) ''No transaction data received'') (\<lambda>_.
     rbind (readInt32LE r) (\<lambda>(v, r1).
     rbind (readVarintNum r1) (\<lambda>(n, r2).
     rbind (read_n n input_fromBufferReader r2) (\<lambda>(ins, r3).
     rbind (readVarintNum r3) (\<lambda>(m, r4).
     rbind (read_n m output_fromBufferReader r4) (\<lambda>(outs, r5).
     rbind (readUInt32LE r5) (\<lambda>(lock, r6).
       Inr (t\<lparr>version := v, inputs := inputs t @ ins, outputs := outputs t @ outs, nLockTime := lock\<rparr>, r6))))))))"

text \<open>\<^verbatim>\<open>new Transaction(buffer)\<close>.\<close>

definition tx_fromBuffer :: "bytes \<Rightarrow> tx res" where
  "tx_fromBuffer buffer = rmap fst (tx_fromBufferReader new_tx (rd buffer 0))"

definition shallowCopy :: "tx \<Rightarrow> tx res" where
  "shallowCopy t = rbind (tx_toBuffer t) tx_fromBuffer"

definition tx_getHash :: "(bytes \<Rightarrow> bytes) \<Rightarrow> tx \<Rightarrow> bytes res" where
  "tx_getHash sha256d t = rmap sha256d (tx_toBuffer t)"

definition txid :: "(bytes \<Rightarrow> bytes) \<Rightarrow> tx \<Rightarrow> string res" where
  "txid sha256d t = rmap (\<lambda>h. to_hex (rev h)) (tx_getHash sha256d t)"

section \<open>Amounts\<close>

definition add_double :: "nat \<Rightarrow> nat \<Rightarrow> nat" where
  "add_double a b = to_double (a + b)"

definition getOutputAmount :: "tx \<Rightarrow> nat \<times> tx" where
  "getOutputAmount t =
     (case cachedOutput t of
        Some n \<Rightarrow> (n, t)
      | None \<Rightarrow>
          let n = foldl (\<lambda>a out. add_double a (satoshis out)) 0 (outputs t)
          in (n, t\<lparr>cachedOutput := Some n\<rparr>))"

text \<open>An input without its output ends the sum with an error.\<close>

primrec sum_inputs :: "nat \<Rightarrow> tx_input list \<Rightarrow> nat res" where
  "sum_inputs a [] = Inr a"
| "sum_inputs a (i # is) =
     (case in_output i of
        None \<Rightarrow> Inl (LibError ''Transaction.Input.MissingPreviousOutput'')
      | Some out \<Rightarrow> sum_inputs (add_double a (satoshis out)) is)"

definition getInputAmount :: "tx \<Rightarrow> (nat \<times> tx) res" where
  "getInputAmount t =
     (case cachedInput t of
        Some n \<Rightarrow> Inr (n, t)
      | None \<Rightarrow> rmap (\<lambda>n. (n, t\<lparr>cachedInput := Some n\<rparr>)) (sum_inputs 0 (inputs t)))"

definition getUnspentValue :: "tx \<Rightarrow> (int \<times> tx) res" where
  "getUnspentValue t =
     rmap (\<lambda>(i, t1). let (out, t2) = getOutputAmount t1 in (bn_toNumber (int i - int out), t2)) (getInputAmount t)"

section \<open>Inputs and outputs of a transaction\<close>

definition addOutput :: "tx_output \<Rightarrow> tx \<Rightarrow> tx" where
  "addOutput out t = t\<lparr>outputs := outputs t @ [out], cachedOutput := None\<rparr>"

definition uncheckedAddInput :: "tx_input \<Rightarrow> tx \<Rightarrow> tx" where
  "uncheckedAddInput i t = t\<lparr>inputs := inputs t @ [i], cachedInput := None\<rparr>"

text \<open>Without the two optional arguments the input has to bring its output along.\<close>

definition addInput :: "tx_input \<Rightarrow> tx \<Rightarrow> tx res" where
  "addInput i t =
     (if in_output i = None then Inl (LibError ''Transaction.NeedMoreInfo'') else Inr (uncheckedAddInput i t))"

definition hasAllUtxoInfo :: "tx \<Rightarrow> bool" where
  "hasAllUtxoInfo t \<longleftrightarrow> list_all (\<lambda>i. in_output i \<noteq> None) (inputs t)"

text \<open>An unspent output as the wallet hands it over; \<open>u_script\<close> is the script's buffer.\<close>

record utxo_info =
  u_txId :: string
  u_outputIndex :: nat
  u_script :: bytes
  u_satoshis :: nat

definition isHexa :: "string \<Rightarrow> bool" where
  "isHexa s \<longleftrightarrow> s \<noteq> [] \<and> list_all (\<lambda>c. hex_value c \<noteq> None) s"

definition fromNonP2SH :: "(bytes \<Rightarrow> bool) \<Rightarrow> utxo_info \<Rightarrow> tx \<Rightarrow> tx res" where
  "fromNonP2SH isValid u t =
     (if \<not> isHexa (u_txId u) \<or> length (u_txId u) > 64 then Inl (PlainError ''Invalid TXID in object'')
      else rbind (script_fromBuffer (u_script u)) (\<lambda>script.
           let kind = (if isPublicKeyHashOut script then PublicKeyHashInput
                       else if isPublicKeyOut isValid script then PublicKeyInput else Plain)
           in rbind (mk_output (int (u_satoshis u)) []) (\<lambda>out.
              rbind (script_toBuffer script) (\<lambda>b.
                addInput \<lparr>prevTxId = of_hex (u_txId u), outputIndex = u_outputIndex u,
                   sequenceNumber = DEFAULT_SEQNUMBER, in_script = [],
                   in_output = Some (out\<lparr>out_script := b\<rparr>), in_kind = kind\<rparr> t))))"

definition from_utxo :: "(bytes \<Rightarrow> bool) \<Rightarrow> utxo_info \<Rightarrow> tx \<Rightarrow> tx res" where
  "from_utxo isValid u t =
     (if list_ex (\<lambda>i. to_hex (prevTxId i) = u_txId u \<and> outputIndex i = u_outputIndex u) (inputs t)
      then Inr t else fromNonP2SH isValid u t)"

primrec from_utxos :: "(bytes \<Rightarrow> bool) \<Rightarrow> utxo_info list \<Rightarrow> tx \<Rightarrow> tx res" where
  "from_utxos isValid [] t = Inr t"
| "from_utxos isValid (u # us) t = rbind (from_utxo isValid u t) (from_utxos isValid us)"

text \<open>The list without its element at an index; there is none past the end.\<close>

definition without_nth :: "nat \<Rightarrow> 'a list \<Rightarrow> 'a list" where
  "without_nth k xs = take k xs @ drop (Suc k) xs"

definition removeOutput :: "nat \<Rightarrow> tx \<Rightarrow> tx" where
  "removeOutput k t = t\<lparr>outputs := without_nth k (outputs t), cachedOutput := None\<rparr>"

fun find_index :: "('a \<Rightarrow> bool) \<Rightarrow> 'a list \<Rightarrow> nat option" where
  "find_index P [] = None"
| "find_index P (x # xs) = (if P x then Some 0 else map_option Suc (find_index P xs))"

definition removeInput :: "string \<Rightarrow> nat \<Rightarrow> tx \<Rightarrow> tx res" where
  "removeInput txId k t =
     (case find_index (\<lambda>i. to_hex (prevTxId i) = txId \<and> outputIndex i = k) (inputs t) of
        None \<Rightarrow> Inl (LibError ''Transaction.InvalidIndex'')
      | Some n \<Rightarrow> Inr (t\<lparr>inputs := without_nth n (inputs t), cachedInput := None\<rparr>))"

definition clear_signature :: "tx_input \<Rightarrow> tx_input res" where
  "clear_signature i =
     (if in_kind i = Plain then Inl (LibError ''AbstractMethodInvoked'') else Inr (i\<lparr>in_script := []\<rparr>))"

primrec clear_signatures :: "tx_input list \<Rightarrow> tx_input list res" where
  "clear_signatures [] = Inr []"
| "clear_signatures (i # is) = rbind (clear_signature i) (\<lambda>j. rmap ((#) j) (clear_signatures is))"

definition clearOutputs :: "tx \<Rightarrow> tx res" where
  "clearOutputs t =
     rmap (\<lambda>is. t\<lparr>inputs := is, outputs := [], cachedOutput := None\<rparr>) (clear_signatures (inputs t))"

text \<open>BIP69: inputs by outpoint, outputs by amount and script, ties in their old order.\<close>

definition sortInputs :: "tx_input list \<Rightarrow> tx_input list" where
  "sortInputs is = sort_key (\<lambda>i. (map unat (prevTxId i), outputIndex i)) is"

definition sortOutputs :: "tx_output list \<Rightarrow> tx_output list" where
  "sortOutputs outs = sort_key (\<lambda>out. (satoshis out, map unat (out_script out))) outs"

definition lockUntilBlockHeight :: "int \<Rightarrow> tx \<Rightarrow> tx res" where
  "lockUntilBlockHeight height t =
     (if height \<ge> 500000000 then Inl (LibError ''Transaction.BlockHeightTooHigh'')
      else if height < 0 then Inl (LibError ''Transaction.NLockTimeOutOfRange'')
      else Inr (t\<lparr>inputs := map (\<lambda>i. if sequenceNumber i = DEFAULT_SEQNUMBER
                    then i\<lparr>sequenceNumber := DEFAULT_LOCKTIME_SEQNUMBER\<rparr> else i) (inputs t),
                  nLockTime := nat height\<rparr>))"

section \<open>Sanity checks\<close>

definition MAX_MONEY :: nat where "MAX_MONEY = 2100000000000000"
definition MAX_BLOCK_SIZE :: nat where "MAX_BLOCK_SIZE = 1000000"

definition isCoinbase :: "tx \<Rightarrow> bool" where
  "isCoinbase t \<longleftrightarrow> length (inputs t) = 1 \<and> isNull (inputs t ! 0)"

text \<open>The checks of the outputs from number \<open>k\<close> on; the sum so far is \<open>acc\<close>.\<close>

primrec check_outputs :: "nat \<Rightarrow> nat \<Rightarrow> tx_output list \<Rightarrow> string option" where
  "check_outputs k acc [] = None"
| "check_outputs k acc (out # outs) =
     (if invalidSatoshis out then Some (''transaction txout '' @ nat_dec k @ '' satoshis is invalid'')
      else if satoshisBN out > MAX_MONEY then Some (''transaction txout '' @ nat_dec k @ '' greater than MAX_MONEY'')
      else if acc + satoshisBN out > MAX_MONEY
      then Some (''transaction txout '' @ nat_dec k @ '' total output greater than MAX_MONEY'')
      else check_outputs (Suc k) (acc + satoshisBN out) outs)"

text \<open>The key of an input is \<^verbatim>\<open>txin.prevTxId + ':' + txin.outputIndex\<close>, a buffer read as UTF-8.\<close>

definition input_id :: "tx_input \<Rightarrow> string" where
  "input_id i = utf8_decode (prevTxId i) @ '':'' @ nat_dec (outputIndex i)"

primrec check_duplicates :: "nat \<Rightarrow> string list \<Rightarrow> tx_input list \<Rightarrow> string option" where
  "check_duplicates k seen [] = None"
| "check_duplicates k seen (i # is) =
     (if input_id i \<in> set seen then Some (''transaction input '' @ nat_dec k @ '' duplicate input'')
      else check_duplicates (Suc k) (input_id i # seen) is)"

primrec check_null :: "nat \<Rightarrow> tx_input list \<Rightarrow> string option" where
  "check_null k [] = None"
| "check_null k (i # is) =
     (if isNull i then Some (''transaction input '' @ nat_dec k @ '' has null input'') else check_null (Suc k) is)"

definition or_else :: "'a option \<Rightarrow> 'a option \<Rightarrow> 'a option" where
  "or_else a b = (case a of None \<Rightarrow> b | Some x \<Rightarrow> Some x)"

text \<open>\<open>None\<close> is \<^verbatim>\<open>true\<close>, and \<open>Some\<close> the description of the error.\<close>

definition tx_verify :: "tx \<Rightarrow> string option res" where
  "tx_verify t =
     (if inputs t = [] then Inr (Some ''transaction txins empty'')
      else if outputs t = [] then Inr (Some ''transaction txouts empty'')
      else case check_outputs 0 0 (outputs t) of
        Some e \<Rightarrow> Inr (Some e)
      | None \<Rightarrow>
          rmap (\<lambda>b. if length b > MAX_BLOCK_SIZE then Some ''transaction over the maximum block size''
                    else or_else (check_duplicates 0 [] (inputs t))
                      (if isCoinbase t
                       then (let n = length (in_script (inputs t ! 0))
                             in if n < 2 \<or> n > 100 then Some ''coinbase transaction script size invalid'' else None)
                       else check_null 0 (inputs t)))
            (tx_toBuffer t))"

section \<open>Checks before serialisation\<close>

record serialize_opts =
  disableAll :: bool
  disableLargeFees :: bool
  disableSmallFees :: bool
  disableIsFullySigned :: bool
  disableDustOutputs :: bool
  disableMoreOutputThanInput :: bool

definition DUST_AMOUNT :: nat where "DUST_AMOUNT = 546"
definition FEE_SECURITY_MARGIN :: nat where "FEE_SECURITY_MARGIN = 150"

definition input_estimateSize :: "tx_input \<Rightarrow> nat res" where
  "input_estimateSize i =
     (case in_kind i of
        PublicKeyHashInput \<Rightarrow> Inr (73 + 34)
      | PublicKeyInput \<Rightarrow> Inr 73
      | Plain \<Rightarrow> rmap (\<lambda>w. length (writer_concat w)) (input_toBufferWriter new_writer i))"

primrec inputs_size :: "nat \<Rightarrow> tx_input list \<Rightarrow> nat res" where
  "inputs_size n [] = Inr n"
| "inputs_size n (i # is) =
     rbind (input_estimateSize i) (\<lambda>len.
     rbind (varintBufNum len) (\<lambda>v. inputs_size (n + 36 + length v + len) is))"

primrec outputs_size :: "nat \<Rightarrow> tx_output list \<Rightarrow> nat res" where
  "outputs_size n [] = Inr n"
| "outputs_size n (out # outs) =
     rbind (output_script out) (\<lambda>s. case s of
       None \<Rightarrow> Inl TypeErr
     | Some script \<Rightarrow> rbind (script_toBuffer script) (\<lambda>b. outputs_size (n + length b + 9) outs))"

definition estimateSize :: "tx \<Rightarrow> nat res" where
  "estimateSize t = rbind (inputs_size (4 + 9 + 9 + 4) (inputs t)) (\<lambda>n. outputs_size n (outputs t))"

text \<open>\<^verbatim>\<open>FEE_PER_KB / 1000\<close> is 100 satoshis a byte.\<close>

definition estimateFee :: "tx \<Rightarrow> nat res" where
  "estimateFee t = rbind (estimateSize t) (\<lambda>n. rmap (\<lambda>_. 100 * n) (getUnspentValue t))"

text \<open>The fee of a transaction without a change script.\<close>

definition getFee :: "tx \<Rightarrow> int res" where
  "getFee t =
     (if isCoinbase t then Inr 0
      else case tx_fee t of Some f \<Rightarrow> Inr (int f) | None \<Rightarrow> rmap fst (getUnspentValue t))"

definition hasFeeError :: "serialize_opts \<Rightarrow> tx \<Rightarrow> int \<Rightarrow> js_error option res" where
  "hasFeeError opts t unspent =
     (if tx_fee t \<noteq> None \<and> map_option int (tx_fee t) \<noteq> Some unspent
      then Inr (Some (LibError ''Transaction.FeeError.Different''))
      else rbind (if disableLargeFees opts then Inr None
             else rmap (\<lambda>f. if unspent > int (FEE_SECURITY_MARGIN * f)
                            then Some (LibError ''Transaction.ChangeAddressMissing'') else None) (estimateFee t)) (\<lambda>e.
           case e of Some x \<Rightarrow> Inr (Some x)
           | None \<Rightarrow>
             if disableSmallFees opts then Inr None
             else rmap (\<lambda>f. if unspent < int ((f + FEE_SECURITY_MARGIN - 1) div FEE_SECURITY_MARGIN)
                            then Some (LibError ''Transaction.FeeError.TooSmall'') else None) (estimateFee t)))"

primrec hasDustOutputs :: "tx_output list \<Rightarrow> js_error option res" where
  "hasDustOutputs [] = Inr None"
| "hasDustOutputs (out # outs) =
     (if satoshis out < DUST_AMOUNT
      then rbind (output_script out) (\<lambda>s. case s of
             None \<Rightarrow> Inl TypeErr
           | Some script \<Rightarrow> rbind (isDataOut script) (\<lambda>d.
               if \<not> d then Inr (Some (LibError ''Transaction.DustOutputs'')) else hasDustOutputs outs))
      else hasDustOutputs outs)"

definition input_isFullySigned :: "tx_input \<Rightarrow> bool res" where
  "input_isFullySigned i =
     rbind (input_script i) (\<lambda>s. case s of
       None \<Rightarrow> Inl TypeErr
     | Some script \<Rightarrow>
         Inr (if in_kind i = PublicKeyHashInput then isPublicKeyHashIn script else isPublicKeyIn script))"

primrec all_signed :: "tx_input list \<Rightarrow> bool res" where
  "all_signed [] = Inr True"
| "all_signed (i # is) = rbind (input_isFullySigned i) (\<lambda>b. rmap (\<lambda>c. b \<and> c) (all_signed is))"

definition isFullySigned :: "tx \<Rightarrow> bool res" where
  "isFullySigned t =
     (if list_ex (\<lambda>i. in_kind i = Plain) (inputs t) then Inl (LibError ''Transaction.UnableToVerifySignature'')
      else all_signed (inputs t))"

definition getSerializationError :: "serialize_opts \<Rightarrow> tx \<Rightarrow> js_error option res" where
  "getSerializationError opts t =
     (if list_ex invalidSatoshis (outputs t) then Inr (Some (LibError ''Transaction.InvalidSatoshis''))
      else rbind (getUnspentValue t) (\<lambda>(unspent, t1).
        rbind (if unspent < 0
               then Inr (if disableMoreOutputThanInput opts then None
                         else Some (LibError ''Transaction.InvalidOutputAmountSum''))
               else hasFeeError opts t1 unspent) (\<lambda>e1.
        case e1 of Some x \<Rightarrow> Inr (Some x)
        | None \<Rightarrow>
          rbind (if disableDustOutputs opts then Inr None else hasDustOutputs (outputs t)) (\<lambda>e2.
          case e2 of Some x \<Rightarrow> Inr (Some x)
          | None \<Rightarrow>
            if disableIsFullySigned opts then Inr None
            else rmap (\<lambda>b. if b then None else Some (LibError ''Transaction.MissingSignatures'')) (isFullySigned t)))))"

definition checkedSerialize :: "serialize_opts \<Rightarrow> tx \<Rightarrow> string res" where
  "checkedSerialize opts t =
     rbind (getSerializationError opts t) (\<lambda>e.
       case e of Some x \<Rightarrow> Inl x | None \<Rightarrow> uncheckedSerialize t)"

definition serialize :: "serialize_opts \<Rightarrow> tx \<Rightarrow> string res" where
  "serialize opts t = (if disableAll opts then uncheckedSerialize t else checkedSerialize opts t)"

section \<open>The wire format\<close>

definition output_bytes :: "tx_output \<Rightarrow> bytes" where
  "output_bytes out = le_bytes 8 (satoshisBN out) @ var_bytes (out_script out)"

definition valid_output :: "tx_output \<Rightarrow> bool" where
  "valid_output out \<longleftrightarrow>
     satoshisBN out < 2 ^ 64 \<and> satoshis out = to_double (satoshisBN out) \<and> length (out_script out) \<le> 2 ^ 53"

definition input_bytes :: "tx_input \<Rightarrow> bytes" where
  "input_bytes i =
     rev (prevTxId i) @ le_bytes 4 (outputIndex i) @ var_bytes (in_script i) @ le_bytes 4 (sequenceNumber i)"

definition valid_input :: "tx_input \<Rightarrow> bool" where
  "valid_input i \<longleftrightarrow>
     length (prevTxId i) = 32 \<and> outputIndex i < 2 ^ 32 \<and> sequenceNumber i < 2 ^ 32 \<and>
     length (in_script i) \<le> 2 ^ 53 \<and> in_output i = None \<and> in_kind i = Plain"

definition tx_bytes :: "tx \<Rightarrow> bytes" where
  "tx_bytes t =
     le_bytes 4 (nat (version t mod 2 ^ 32)) @
     varint_bytes (length (inputs t)) @ concat (map input_bytes (inputs t)) @
     varint_bytes (length (outputs t)) @ concat (map output_bytes (outputs t)) @
     le_bytes 4 (nLockTime t)"

text \<open>The fields that fit their width, and then those that reading brings back.\<close>

definition fits :: "tx \<Rightarrow> bool" where
  "fits t \<longleftrightarrow>
     - (2 ^ 31) \<le> version t \<and> version t < 2 ^ 31 \<and> nLockTime t < 2 ^ 32 \<and>
     length (inputs t) \<le> 2 ^ 53 \<and> length (outputs t) \<le> 2 ^ 53 \<and>
     list_all (\<lambda>i. length (prevTxId i) = 32 \<and> outputIndex i < 2 ^ 32 \<and> sequenceNumber i < 2 ^ 32 \<and>
       length (in_script i) \<le> 2 ^ 53) (inputs t) \<and>
     list_all (\<lambda>out. satoshisBN out < 2 ^ 64 \<and> length (out_script out) \<le> 2 ^ 53) (outputs t)"

definition valid_tx :: "tx \<Rightarrow> bool" where
  "valid_tx t \<longleftrightarrow> fits t \<and> list_all valid_input (inputs t) \<and> list_all valid_output (outputs t) \<and>
     cachedInput t = None \<and> cachedOutput t = None \<and> tx_fee t = None"

interpretation output_codec: stream_codec output_bytes output_fromBufferReader valid_output
proof unfold_locales
  fix out pre post
  assume v: "valid_output out"
  let ?sc = "out_script out" and ?n = "satoshisBN out"
  have "readUInt64LEBN (rd (pre @ le_bytes 8 ?n @ var_bytes ?sc @ post) (length pre)) =
      Inr (?n, rd (pre @ le_bytes 8 ?n @ var_bytes ?sc @ post) (length pre + 8))"
    using v u64le.get_put [of ?n pre "var_bytes ?sc @ post"] by (simp add: valid_output_def del: le_bytes.simps)
  moreover have "readVarintNum (rd ((pre @ le_bytes 8 ?n) @ varint_bytes (length ?sc) @ ?sc @ post) (length (pre @ le_bytes 8 ?n))) =
      Inr (length ?sc, rd ((pre @ le_bytes 8 ?n) @ varint_bytes (length ?sc) @ ?sc @ post)
        (length (pre @ le_bytes 8 ?n) + length (varint_bytes (length ?sc))))"
    using v by (intro varint_num.get_put) (simp add: valid_output_def)
  moreover have "slice ((pre @ le_bytes 8 ?n @ varint_bytes (length ?sc)) @ ?sc @ post)
      (length (pre @ le_bytes 8 ?n @ varint_bytes (length ?sc)))
      (length (pre @ le_bytes 8 ?n @ varint_bytes (length ?sc)) + length ?sc) = ?sc"
    by (rule slice_at)
  ultimately show "output_fromBufferReader (rd (pre @ output_bytes out @ post) (length pre)) =
      Inr (out, rd (pre @ output_bytes out @ post) (length pre + length (output_bytes out)))"
    using v by (cases out)
      (auto simp: output_fromBufferReader_def output_bytes_def var_bytes_def read_def mk_output_bn_def
        set_satoshis_bn_def valid_output_def add.assoc simp del: le_bytes.simps)
qed

lemma readReverse_at: "readReverse (Some (length xs)) (rd (pre @ xs @ post) (length pre)) =
    (rev xs, rd (pre @ xs @ post) (length pre + length xs))"
  by (simp add: readReverse_def slice_at)

interpretation input_codec: stream_codec input_bytes input_fromBufferReader valid_input
proof unfold_locales
  fix i pre post
  assume v: "valid_input i"
  let ?p = "rev (prevTxId i)" and ?k = "le_bytes 4 (outputIndex i)" and ?sc = "var_bytes (in_script i)"
    and ?q = "le_bytes 4 (sequenceNumber i)"
  have "readReverse (Some 32) (rd (pre @ ?p @ ?k @ ?sc @ ?q @ post) (length pre)) =
      (prevTxId i, rd (pre @ ?p @ ?k @ ?sc @ ?q @ post) (length pre + 32))"
    using v readReverse_at [of ?p pre "?k @ ?sc @ ?q @ post"] by (simp add: valid_input_def del: le_bytes.simps)
  moreover have "readUInt32LE (rd ((pre @ ?p) @ ?k @ ?sc @ ?q @ post) (length (pre @ ?p))) =
      Inr (outputIndex i, rd ((pre @ ?p) @ ?k @ ?sc @ ?q @ post) (length (pre @ ?p) + length ?k))"
    using v by (intro u32le.get_put) (simp add: valid_input_def)
  moreover have "readVarLengthBuffer (rd ((pre @ ?p @ ?k) @ ?sc @ ?q @ post) (length (pre @ ?p @ ?k))) =
      Inr (in_script i, rd ((pre @ ?p @ ?k) @ ?sc @ ?q @ post) (length (pre @ ?p @ ?k) + length ?sc))"
    using v by (intro var_buf.get_put) (simp add: valid_input_def)
  moreover have "readUInt32LE (rd ((pre @ ?p @ ?k @ ?sc) @ ?q @ post) (length (pre @ ?p @ ?k @ ?sc))) =
      Inr (sequenceNumber i, rd ((pre @ ?p @ ?k @ ?sc) @ ?q @ post) (length (pre @ ?p @ ?k @ ?sc) + length ?q))"
    using v by (intro u32le.get_put) (simp add: valid_input_def)
  ultimately show "input_fromBufferReader (rd (pre @ input_bytes i @ post) (length pre)) =
      Inr (i, rd (pre @ input_bytes i @ post) (length pre + length (input_bytes i)))"
    using v by (cases i) (simp add: input_fromBufferReader_def input_bytes_def valid_input_def add.assoc del: le_bytes.simps)
qed

interpretation tx_codec: stream_codec tx_bytes "tx_fromBufferReader new_tx" valid_tx
proof unfold_locales
  fix t pre post
  assume v: "valid_tx t"
  let ?v = "le_bytes 4 (nat (version t mod 2 ^ 32))" and ?n = "varint_bytes (length (inputs t))"
    and ?is = "concat (map input_bytes (inputs t))" and ?m = "varint_bytes (length (outputs t))"
    and ?os = "concat (map output_bytes (outputs t))" and ?l = "le_bytes 4 (nLockTime t)"
  have f: "fits t" using v by (simp add: valid_tx_def)
  have "readInt32LE (rd (pre @ ?v @ ?n @ ?is @ ?m @ ?os @ ?l @ post) (length pre)) =
      Inr (version t, rd (pre @ ?v @ ?n @ ?is @ ?m @ ?os @ ?l @ post) (length pre + length ?v))"
    using f by (intro i32le.get_put) (simp add: fits_def)
  moreover have "readVarintNum (rd ((pre @ ?v) @ ?n @ ?is @ ?m @ ?os @ ?l @ post) (length (pre @ ?v))) =
      Inr (length (inputs t), rd ((pre @ ?v) @ ?n @ ?is @ ?m @ ?os @ ?l @ post) (length (pre @ ?v) + length ?n))"
    using f by (intro varint_num.get_put) (simp add: fits_def)
  moreover have "read_n (length (inputs t)) input_fromBufferReader
        (rd ((pre @ ?v @ ?n) @ ?is @ ?m @ ?os @ ?l @ post) (length (pre @ ?v @ ?n))) =
      Inr (inputs t, rd ((pre @ ?v @ ?n) @ ?is @ ?m @ ?os @ ?l @ post) (length (pre @ ?v @ ?n) + length ?is))"
    using v by (intro input_codec.read_n_put) (simp add: valid_tx_def)
  moreover have "readVarintNum (rd ((pre @ ?v @ ?n @ ?is) @ ?m @ ?os @ ?l @ post) (length (pre @ ?v @ ?n @ ?is))) =
      Inr (length (outputs t), rd ((pre @ ?v @ ?n @ ?is) @ ?m @ ?os @ ?l @ post)
        (length (pre @ ?v @ ?n @ ?is) + length ?m))"
    using f by (intro varint_num.get_put) (simp add: fits_def)
  moreover have "read_n (length (outputs t)) output_fromBufferReader
        (rd ((pre @ ?v @ ?n @ ?is @ ?m) @ ?os @ ?l @ post) (length (pre @ ?v @ ?n @ ?is @ ?m))) =
      Inr (outputs t, rd ((pre @ ?v @ ?n @ ?is @ ?m) @ ?os @ ?l @ post)
        (length (pre @ ?v @ ?n @ ?is @ ?m) + length ?os))"
    using v by (intro output_codec.read_n_put) (simp add: valid_tx_def)
  moreover have "readUInt32LE (rd ((pre @ ?v @ ?n @ ?is @ ?m @ ?os) @ ?l @ post) (length (pre @ ?v @ ?n @ ?is @ ?m @ ?os))) =
      Inr (nLockTime t, rd ((pre @ ?v @ ?n @ ?is @ ?m @ ?os) @ ?l @ post)
        (length (pre @ ?v @ ?n @ ?is @ ?m @ ?os) + length ?l))"
    using f by (intro u32le.get_put) (simp add: fits_def)
  ultimately show "tx_fromBufferReader new_tx (rd (pre @ tx_bytes t @ post) (length pre)) =
      Inr (t, rd (pre @ tx_bytes t @ post) (length pre + length (tx_bytes t)))"
    using v by (cases t)
      (simp add: tx_fromBufferReader_def tx_bytes_def valid_tx_def eof_def new_tx_def checkArgument_def add.assoc
        del: le_bytes.simps)
qed

subsection \<open>What the writers emit\<close>

text \<open>\<open>emits f b\<close>: whatever was written before, \<open>f\<close> appends the bytes \<open>b\<close>.\<close>

definition emits :: "(writer \<Rightarrow> writer res) \<Rightarrow> bytes \<Rightarrow> bool" where
  "emits f b \<longleftrightarrow> (\<forall>w. writer_ok w \<longrightarrow> (\<exists>w'. f w = Inr w' \<and> writer_ok w' \<and> writer_concat w' = writer_concat w @ b))"

lemma emits_bind: "emits f a \<Longrightarrow> emits g b \<Longrightarrow> emits (\<lambda>w. rbind (f w) g) (a @ b)"
  unfolding emits_def by fastforce

lemma emits_map: "emits f a \<Longrightarrow> emits (\<lambda>w. rmap (\<lambda>w1. writeBuf w1 b) (f w)) (a @ b)"
  unfolding emits_def by fastforce

lemma emits_after: "emits f a \<Longrightarrow> emits (\<lambda>w. f (writeBuf w b)) (b @ a)"
  "emits f a \<Longrightarrow> emits (\<lambda>w. f (writeReverse w b)) (rev b @ a)"
  unfolding emits_def
  by (metis append.assoc writer_concat_writeBuf writer_ok_writeBuf,
      metis append.assoc writer_concat_writeReverse writer_ok_writeReverse)

lemma emits_u32: "n < 2 ^ 32 \<Longrightarrow> emits (\<lambda>w. writeUInt32LE w n) (le_bytes 4 n)"
  by (simp add: emits_def writeUInt32LE_eq)

lemma emits_i32: "- (2 ^ 31) \<le> n \<Longrightarrow> n < 2 ^ 31 \<Longrightarrow> emits (\<lambda>w. writeInt32LE w n) (le_bytes 4 (nat (n mod 2 ^ 32)))"
  by (simp add: emits_def writeInt32LE_eq)

lemma emits_varint: "n \<le> 2 ^ 53 \<Longrightarrow> emits (\<lambda>w. writeVarintNum w n) (varint_bytes n)"
  by (simp add: emits_def writeVarintNum_eq)

lemma emits_all: "(\<And>x. x \<in> set xs \<Longrightarrow> emits (\<lambda>w. f w x) (b x)) \<Longrightarrow> emits (\<lambda>w. write_all f w xs) (concat (map b xs))"
proof (induction xs)
  case Nil
  show ?case by (simp add: emits_def)
next
  case (Cons x xs)
  then show ?case using emits_bind [of "\<lambda>w. f w x" "b x" "\<lambda>w. write_all f w xs"] by simp
qed

lemma emits_output:
  assumes "satoshisBN out < 2 ^ 64" and "length (out_script out) \<le> 2 ^ 53"
  shows "emits (\<lambda>w. output_toBufferWriter w out) (output_bytes out)"
proof -
  have "rev (be_bytes 8 (satoshisBN out)) = le_bytes 8 (satoshisBN out)" by (simp add: be_bytes_def)
  then show ?thesis
    using emits_after(2) [OF emits_map [OF emits_varint [OF assms(2)], of "out_script out"], of "be_bytes 8 (satoshisBN out)"]
      assms(1)
    by (simp add: output_toBufferWriter_def output_bytes_def var_bytes_def writeUInt64LEBN_bytes del: le_bytes.simps)
qed

lemma emits_input:
  assumes "outputIndex i < 2 ^ 32" and "sequenceNumber i < 2 ^ 32" and "length (in_script i) \<le> 2 ^ 53"
  shows "emits (\<lambda>w. input_toBufferWriter w i) (input_bytes i)"
proof -
  have "emits (\<lambda>w. input_toBufferWriter w i)
      ((rev (prevTxId i) @ le_bytes 4 (outputIndex i)) @ varint_bytes (length (in_script i)) @
        in_script i @ le_bytes 4 (sequenceNumber i))"
    unfolding input_toBufferWriter_def
    by (intro emits_bind emits_after emits_varint emits_u32 assms)
  then show ?thesis by (simp add: input_bytes_def var_bytes_def)
qed

lemma emits_tx: "fits t \<Longrightarrow> emits (\<lambda>w. tx_toBufferWriter w t) (tx_bytes t)"
  unfolding tx_toBufferWriter_def tx_bytes_def
  by (intro emits_bind emits_i32 emits_varint emits_u32 emits_all emits_input emits_output)
     (auto simp: fits_def list_all_iff)

lemma tx_toBuffer_bytes: "fits t \<Longrightarrow> tx_toBuffer t = Inr (tx_bytes t)"
proof -
  assume "fits t"
  from emits_tx [OF this] obtain w where "tx_toBufferWriter new_writer t = Inr w" "writer_concat w = tx_bytes t"
    unfolding emits_def by (metis append_Nil writer_concat_new writer_ok_new)
  then show ?thesis by (simp add: tx_toBuffer_def)
qed

section \<open>Sanity\<close>

lemma check_outputs_None:
  assumes "check_outputs k acc outs = None"
  shows "acc \<le> MAX_MONEY \<Longrightarrow> acc + sum_list (map satoshisBN outs) \<le> MAX_MONEY \<and>
    (\<forall>out \<in> set outs. satoshis out = satoshisBN out)"
  using assms
proof (induction outs arbitrary: k acc)
  case (Cons out outs)
  then have ok: "\<not> invalidSatoshis out" "acc + satoshisBN out \<le> MAX_MONEY"
    and r: "check_outputs (Suc k) (acc + satoshisBN out) outs = None"
    by (auto split: if_splits)
  from ok have "satoshisBN out < 2 ^ 53" by (simp add: MAX_MONEY_def)
  then have "satoshis out = satoshisBN out" using ok(1) by (simp add: invalidSatoshis_def)
  with Cons.IH [OF ok(2) r] show ?case by simp
qed simp

lemma check_duplicates_None: "check_duplicates k seen is = None \<Longrightarrow>
    distinct (map input_id is) \<and> set (map input_id is) \<inter> set seen = {}"
proof (induction "is" arbitrary: k seen)
  case (Cons i "is")
  then have "input_id i \<notin> set seen" and r: "check_duplicates (Suc k) (input_id i # seen) is = None"
    by (simp_all split: if_splits)
  with Cons.IH [OF r] show ?case by auto
qed simp

lemma input_id_outpoint: "distinct (map input_id is) \<Longrightarrow> distinct (map (\<lambda>i. (prevTxId i, outputIndex i)) is)"
  by (induction "is") (force simp: input_id_def simp del: nat_dec.simps)+

lemma check_null_None: "check_null k is = None \<Longrightarrow> \<forall>i \<in> set is. \<not> isNull i"
  by (induction "is" arbitrary: k) (auto split: if_splits)

lemma or_else_None [simp]: "or_else a b = None \<longleftrightarrow> a = None \<and> b = None"
  by (cases a) (simp_all add: or_else_def)

lemma utf8_decode_stray:
  assumes "0x80 \<le> unat b" and "unat b \<le> 0xBF"
  shows "utf8_decode (b # bs) = bytes_text REPLACEMENT @ utf8_decode bs"
  using assms by (simp add: utf8_lead_def)

section \<open>Properties\<close>

text \<open>C27. A transaction whose fields fit their widths survives serialisation: it is written
  without error, and reading the bytes back gives the same version, inputs, outputs and lock
  time, whatever bytes follow.\<close>

theorem tx_roundtrip:
  assumes "valid_tx t"
  shows "\<exists>b. tx_toBuffer t = Inr b \<and> tx_fromBuffer (b @ extra) = Inr t"
proof -
  have "tx_toBuffer t = Inr (tx_bytes t)" using assms by (intro tx_toBuffer_bytes) (simp add: valid_tx_def)
  moreover have "tx_fromBuffer (tx_bytes t @ extra) = Inr t"
    using tx_codec.get_put_start [OF assms, of extra] by (simp add: tx_fromBuffer_def)
  ultimately show ?thesis by blast
qed

definition demo_input :: "byte \<Rightarrow> tx_input" where
  "demo_input b = \<lparr>prevTxId = b # replicate 31 0, outputIndex = 1, sequenceNumber = 0xffffffff,
     in_script = [0x51], in_output = None, in_kind = Plain\<rparr>"

definition demo_tx :: tx where
  "demo_tx = new_tx\<lparr>inputs := [demo_input 0x80, demo_input 0x81], outputs := [mk_output_bn 1000 [0x6a]]\<rparr>"

lemma demo_tx_valid: "valid_tx demo_tx"
  by (simp add: demo_tx_def demo_input_def valid_tx_def valid_input_def valid_output_def fits_def new_tx_def
      mk_output_bn_def set_satoshis_bn_def)

theorem tx_roundtrip_witness: "\<exists>b. tx_toBuffer demo_tx = Inr b \<and> tx_fromBuffer (b @ [7]) = Inr demo_tx"
  by (rule tx_roundtrip [OF demo_tx_valid])

text \<open>C29. What \<^verbatim>\<open>verify\<close> guarantees when it returns true: there are inputs and outputs, the amounts
  are exact and sum to at most the money supply, no outpoint is spent twice, the serialised
  transaction fits a block, and a null outpoint only occurs as the single input of a coinbase
  whose script has between 2 and 100 bytes.\<close>

theorem verified_tx:
  assumes "tx_verify t = Inr None"
  shows "inputs t \<noteq> [] \<and> outputs t \<noteq> [] \<and>
    (\<forall>out \<in> set (outputs t). satoshis out = satoshisBN out) \<and>
    sum_list (map satoshisBN (outputs t)) \<le> MAX_MONEY \<and>
    distinct (map (\<lambda>i. (prevTxId i, outputIndex i)) (inputs t)) \<and>
    (\<exists>b. tx_toBuffer t = Inr b \<and> length b \<le> MAX_BLOCK_SIZE) \<and>
    ((\<forall>i \<in> set (inputs t). \<not> isNull i) \<or>
     (\<exists>i. inputs t = [i] \<and> isNull i \<and> 2 \<le> length (in_script i) \<and> length (in_script i) \<le> 100))"
proof -
  have c: "check_outputs 0 0 (outputs t) = None" and ne: "inputs t \<noteq> []" "outputs t \<noteq> []"
    using assms by (auto simp: tx_verify_def split: if_splits option.splits)
  then obtain b where b: "tx_toBuffer t = Inr b" "length b \<le> MAX_BLOCK_SIZE"
    and d: "check_duplicates 0 [] (inputs t) = None"
    and n: "if isCoinbase t then (let n = length (in_script (inputs t ! 0)) in 2 \<le> n \<and> n \<le> 100)
      else check_null 0 (inputs t) = None"
    using assms by (cases "tx_toBuffer t") (auto simp: tx_verify_def Let_def split: if_splits)
  have "distinct (map (\<lambda>i. (prevTxId i, outputIndex i)) (inputs t))"
    using check_duplicates_None [OF d] by (intro input_id_outpoint) simp
  moreover have "(\<forall>i \<in> set (inputs t). \<not> isNull i) \<or>
     (\<exists>i. inputs t = [i] \<and> isNull i \<and> 2 \<le> length (in_script i) \<and> length (in_script i) \<le> 100)"
  proof (cases "isCoinbase t")
    case True
    with n show ?thesis by (cases "inputs t") (simp_all add: isCoinbase_def Let_def)
  next
    case False
    with n check_null_None [of 0 "inputs t"] show ?thesis by simp
  qed
  ultimately show ?thesis using check_outputs_None [OF c] b ne by simp
qed

definition simple_tx :: tx where
  "simple_tx = new_tx\<lparr>inputs := [demo_input 0x80], outputs := [mk_output_bn 1000 [0x6a]]\<rparr>"

lemma simple_tx_bytes: "\<exists>b. tx_toBuffer simple_tx = Inr b \<and> length b \<le> MAX_BLOCK_SIZE"
proof -
  have "fits simple_tx"
    by (simp add: simple_tx_def demo_input_def fits_def new_tx_def mk_output_bn_def set_satoshis_bn_def)
  moreover have "length (tx_bytes simple_tx) \<le> MAX_BLOCK_SIZE"
    by (simp add: simple_tx_def demo_input_def tx_bytes_def new_tx_def mk_output_bn_def set_satoshis_bn_def
        input_bytes_def output_bytes_def var_bytes_def varint_bytes_def MAX_BLOCK_SIZE_def)
  ultimately show ?thesis using tx_toBuffer_bytes by blast
qed

theorem verified_tx_witness:
  "tx_verify simple_tx = Inr None \<and> sum_list (map satoshisBN (outputs simple_tx)) \<le> MAX_MONEY"
proof -
  obtain b where b: "tx_toBuffer simple_tx = Inr b" "length b \<le> MAX_BLOCK_SIZE" using simple_tx_bytes by blast
  have "tx_verify simple_tx = Inr None"
    using b unfolding tx_verify_def
    by (simp add: simple_tx_def demo_input_def new_tx_def mk_output_bn_def set_satoshis_bn_def
      invalidSatoshis_def MAX_SAFE_INTEGER_def MAX_MONEY_def isCoinbase_def isNull_def)
  with verified_tx [OF this] show ?thesis by blast
qed

text \<open>The converse fails: \<^verbatim>\<open>verify\<close> builds the key of an input by reading the transaction id as
  UTF-8 text, so two inputs with different ids whose stray bytes both decode to U+FFFD are
  reported as duplicates, although nothing else is wrong.\<close>

theorem distinct_inputs_refused:
  assumes "0x80 \<le> unat a" and "unat a \<le> 0xBF" and "0x80 \<le> unat b" and "unat b \<le> 0xBF"
    and "outputs t = [mk_output_bn 1000 script]" and "inputs t = [i\<lparr>prevTxId := a # p\<rparr>, i\<lparr>prevTxId := b # p\<rparr>]"
    and "tx_toBuffer t = Inr d" and "length d \<le> MAX_BLOCK_SIZE"
  shows "tx_verify t = Inr (Some ''transaction input 1 duplicate input'')"
  using assms
  by (simp add: tx_verify_def input_id_def utf8_decode_stray or_else_def mk_output_bn_def set_satoshis_bn_def
      invalidSatoshis_def MAX_SAFE_INTEGER_def MAX_MONEY_def del: utf8_decode.simps) (simp add: nat_dec.simps hex_char_def)

theorem distinct_inputs_refused_witness:
  "tx_verify demo_tx = Inr (Some ''transaction input 1 duplicate input'') \<and>
   prevTxId (demo_input 0x80) \<noteq> prevTxId (demo_input 0x81)"
proof -
  have "tx_toBuffer demo_tx = Inr (tx_bytes demo_tx)" using demo_tx_valid by (intro tx_toBuffer_bytes) (simp add: valid_tx_def)
  moreover have "length (tx_bytes demo_tx) \<le> MAX_BLOCK_SIZE"
    by (simp add: demo_tx_def demo_input_def tx_bytes_def new_tx_def mk_output_bn_def set_satoshis_bn_def
        input_bytes_def output_bytes_def var_bytes_def varint_bytes_def MAX_BLOCK_SIZE_def)
  ultimately have "tx_verify demo_tx = Inr (Some ''transaction input 1 duplicate input'')"
    by (intro distinct_inputs_refused [of "0x80" "0x81" demo_tx "[0x6a]" "replicate 31 0" "demo_input 0x80"])
      (simp_all add: demo_tx_def demo_input_def)
  then show ?thesis by (simp add: demo_input_def)
qed

end
