(* ===== verification/Sighash.thy ===== *)
theory Sighash
  imports Transaction Interpreter
begin

text \<open>
  \<^verbatim>\<open>lib/transaction/sighash.js\<close>: the digest that a signature of an input commits to, in its
  original form and in the form with a fork id, and the signing and checking of digests.
  The double SHA-256 and the two signature schemes are parameters.
\<close>

abbreviation (input) "SCRIPT_ENABLE_REPLAY_PROTECTION \<equiv> 2 ^ 17 :: nat"

section \<open>The digest with a fork id\<close>

definition js_flag :: "int \<Rightarrow> nat \<Rightarrow> bool" where
  "js_flag sighashType k \<longleftrightarrow> js_and sighashType (int k) \<noteq> 0"

text \<open>Some writers in a row and the bytes they produce.\<close>

definition written :: "(writer \<Rightarrow> writer res) \<Rightarrow> bytes res" where
  "written f = rmap writer_concat (f new_writer)"

definition prevouts_of :: "tx_input list \<Rightarrow> bytes res" where
  "prevouts_of is = written (\<lambda>w. write_all (\<lambda>w i. writeUInt32LE (writeReverse w (prevTxId i)) (outputIndex i)) w is)"

definition sequences_of :: "tx_input list \<Rightarrow> bytes res" where
  "sequences_of is = written (\<lambda>w. write_all (\<lambda>w i. writeUInt32LE w (sequenceNumber i)) w is)"

definition outputs_of :: "tx_output list \<Rightarrow> bytes res" where
  "outputs_of outs = written (\<lambda>w. write_all output_toBufferWriter w outs)"

definition emptyBuffer :: bytes where
  "emptyBuffer = replicate 32 0"

text \<open>\<open>base\<close> is \<^verbatim>\<open>sighashType & 31\<close>.\<close>

definition sighash_base :: "int \<Rightarrow> int" where
  "sighash_base sighashType = js_and sighashType 31"

definition hash_prevouts :: "(bytes \<Rightarrow> bytes) \<Rightarrow> int \<Rightarrow> tx \<Rightarrow> bytes res" where
  "hash_prevouts H sighashType t =
     (if js_flag sighashType SIGHASH_ANYONECANPAY then Inr emptyBuffer else rmap H (prevouts_of (inputs t)))"

definition hash_sequence :: "(bytes \<Rightarrow> bytes) \<Rightarrow> int \<Rightarrow> tx \<Rightarrow> bytes res" where
  "hash_sequence H sighashType t =
     (if \<not> js_flag sighashType SIGHASH_ANYONECANPAY \<and> sighash_base sighashType \<noteq> int SIGHASH_SINGLE \<and>
         sighash_base sighashType \<noteq> int SIGHASH_NONE
      then rmap H (sequences_of (inputs t)) else Inr emptyBuffer)"

definition hash_outputs :: "(bytes \<Rightarrow> bytes) \<Rightarrow> int \<Rightarrow> nat \<Rightarrow> tx \<Rightarrow> bytes res" where
  "hash_outputs H sighashType inputNumber t =
     (if sighash_base sighashType \<noteq> int SIGHASH_SINGLE \<and> sighash_base sighashType \<noteq> int SIGHASH_NONE
      then rmap H (outputs_of (outputs t))
      else if sighash_base sighashType = int SIGHASH_SINGLE \<and> inputNumber < length (outputs t)
      then rmap H (outputs_of [outputs t ! inputNumber])
      else Inr emptyBuffer)"

text \<open>The fields before the digest is taken; \<open>script\<close> are the bytes of the subscript.\<close>

definition forkid_preimage ::
  "int \<Rightarrow> nat \<Rightarrow> int \<Rightarrow> bytes \<Rightarrow> bytes \<Rightarrow> bytes \<Rightarrow> tx_input \<Rightarrow> bytes \<Rightarrow> nat \<Rightarrow> bytes res" where
  "forkid_preimage ver lock sighashType hp hs ho input script sats =
     written (\<lambda>w.
       rbind (writeInt32LE w ver) (\<lambda>w.
       rbind (writeUInt32LE (writeReverse (writeBuf (writeBuf w hp) hs) (prevTxId input)) (outputIndex input)) (\<lambda>w.
       rbind (writeVarintNum w (length script)) (\<lambda>w.
       rbind (writeUInt32LE (writeUInt64LEBN (writeBuf w script) sats) (sequenceNumber input)) (\<lambda>w.
       rbind (writeUInt32LE (writeBuf w ho) lock) (\<lambda>w.
         writeUInt32LE w (nat (to_uint32 sighashType))))))))"

definition sighashForForkId ::
  "(bytes \<Rightarrow> bytes) \<Rightarrow> tx \<Rightarrow> int \<Rightarrow> nat \<Rightarrow> script \<Rightarrow> nat option \<Rightarrow> bytes res" where
  "sighashForForkId H t sighashType inputNumber sub satsBN =
     rbind (checkArgument (satsBN \<noteq> None)
       ''For ForkId=0 signatures, satoshis or complete input must be provided'') (\<lambda>_.
     rbind (hash_prevouts H sighashType t) (\<lambda>hp.
     rbind (hash_sequence H sighashType t) (\<lambda>hs.
     rbind (hash_outputs H sighashType inputNumber t) (\<lambda>ho.
       if inputNumber < length (inputs t)
       then rbind (script_toBuffer sub) (\<lambda>script.
            rmap (\<lambda>p. rev (H p))
              (forkid_preimage (version t) (nLockTime t) sighashType hp hs ho (inputs t ! inputNumber) script (the satsBN)))
       else Inl TypeErr))))"

section \<open>The original digest\<close>

definition SIGHASH_SINGLE_BUG :: bytes where
  "SIGHASH_SINGLE_BUG = replicate 31 0 @ [1]"

text \<open>
  \<^verbatim>\<open>new Input(input).setScript(script)\<close> reads the script of the input first.  The blanked output
  has the big number \<open>2^64 - 1\<close>.
\<close>

definition with_script :: "bytes \<Rightarrow> tx_input \<Rightarrow> tx_input res" where
  "with_script b i =
     rbind (input_script i) (\<lambda>s.
     rbind (case s of None \<Rightarrow> Inr [] | Some script \<Rightarrow> script_toBuffer script) (\<lambda>_.
       Inr (i\<lparr>in_script := b\<rparr>)))"

primrec with_scripts :: "bytes \<Rightarrow> tx_input list \<Rightarrow> tx_input list res" where
  "with_scripts b [] = Inr []"
| "with_scripts b (i # is) = rbind (with_script b i) (\<lambda>j. rmap ((#) j) (with_scripts b is))"

definition blank_output :: tx_output where
  "blank_output = mk_output_bn (2 ^ 64 - 1) []"

text \<open>The copy whose serialisation is signed, for an input that exists.\<close>

definition legacy_inputs :: "int \<Rightarrow> nat \<Rightarrow> tx_input list \<Rightarrow> tx_input list" where
  "legacy_inputs sighashType inputNumber is =
     (let js = (if sighash_base sighashType = int SIGHASH_NONE \<or> sighash_base sighashType = int SIGHASH_SINGLE
                then map (\<lambda>k. if k \<noteq> inputNumber then (is ! k)\<lparr>sequenceNumber := 0\<rparr> else is ! k) [0..<length is]
                else is)
      in if js_flag sighashType SIGHASH_ANYONECANPAY then [js ! inputNumber] else js)"

definition legacy_outputs :: "int \<Rightarrow> nat \<Rightarrow> tx_output list \<Rightarrow> tx_output list" where
  "legacy_outputs sighashType inputNumber outs =
     (if sighash_base sighashType = int SIGHASH_NONE then []
      else if sighash_base sighashType = int SIGHASH_SINGLE
      then replicate inputNumber blank_output @ [outs ! inputNumber]
      else outs)"

definition legacy_sighash :: "(bytes \<Rightarrow> bytes) \<Rightarrow> tx \<Rightarrow> int \<Rightarrow> nat \<Rightarrow> script \<Rightarrow> bytes res" where
  "legacy_sighash H t sighashType inputNumber sub =
     rbind (with_scripts [] (inputs t)) (\<lambda>is.
     rbind (script_toBuffer (removeCodeseparators sub)) (\<lambda>script.
       if inputNumber \<ge> length (inputs t)
       then (if length (inputs t) < inputNumber \<and>
                (sighash_base sighashType = int SIGHASH_NONE \<or> sighash_base sighashType = int SIGHASH_SINGLE)
             then Inl TypeErr
             else if sighash_base sighashType = int SIGHASH_SINGLE \<and> inputNumber \<ge> length (outputs t)
             then Inr SIGHASH_SINGLE_BUG
             else if inputNumber = length (inputs t) \<or> js_flag sighashType SIGHASH_ANYONECANPAY
             then Inl (PlainError ''AssertionError'') else Inl TypeErr)
       else if sighash_base sighashType = int SIGHASH_SINGLE \<and> inputNumber \<ge> length (outputs t)
       then Inr SIGHASH_SINGLE_BUG
       else let is' = is[inputNumber := (is ! inputNumber)\<lparr>in_script := script\<rparr>];
                copy = t\<lparr>inputs := legacy_inputs sighashType inputNumber is',
                         outputs := legacy_outputs sighashType inputNumber (outputs t)\<rparr>
            in rbind (tx_toBuffer copy) (\<lambda>b.
               rmap (\<lambda>p. rev (H p)) (written (\<lambda>w. writeInt32LE (writeBuf w b) sighashType)))))"

text \<open>\<open>flags = None\<close> stands for an undefined argument; \<^verbatim>\<open>subscript\<close> is copied through its bytes.\<close>

definition sighash ::
  "(bytes \<Rightarrow> bytes) \<Rightarrow> tx \<Rightarrow> int \<Rightarrow> nat \<Rightarrow> script \<Rightarrow> nat option \<Rightarrow> nat option \<Rightarrow> bytes res" where
  "sighash H t sighashType0 inputNumber sub0 satsBN flags0 =
     (let flags = (case flags0 of None \<Rightarrow> SCRIPT_ENABLE_SIGHASH_FORKID | Some f \<Rightarrow> f) in
      rbind (shallowCopy t) (\<lambda>copy.
      rbind (rbind (script_toBuffer sub0) script_fromBuffer) (\<lambda>sub.
        let sighashType =
              (if has_flag flags SCRIPT_ENABLE_REPLAY_PROTECTION
               then js_or (js_shl (js_or 0xff0000 (js_xor (js_shr sighashType0 8) 0xdead)) 8) (js_and sighashType0 0xff)
               else sighashType0)
        in if js_flag sighashType SIGHASH_FORKID \<and> has_flag flags SCRIPT_ENABLE_SIGHASH_FORKID
           then sighashForForkId H copy sighashType inputNumber sub satsBN
           else legacy_sighash H copy sighashType inputNumber sub)))"

section \<open>Signing\<close>

datatype signing_method = Ecdsa | Schnorr

record ('k, 'p) scheme =
  sc_sign :: "signing_method \<Rightarrow> bytes \<Rightarrow> 'k \<Rightarrow> signature res"
  sc_verify :: "signing_method \<Rightarrow> bytes \<Rightarrow> signature \<Rightarrow> 'p \<Rightarrow> bool res"

definition sighash_sign ::
  "(bytes \<Rightarrow> bytes) \<Rightarrow> ('k, 'p) scheme \<Rightarrow> tx \<Rightarrow> 'k \<Rightarrow> nat \<Rightarrow> nat \<Rightarrow> script \<Rightarrow> nat option \<Rightarrow> nat option \<Rightarrow>
     signing_method \<Rightarrow> signature res" where
  "sighash_sign H C t privateKey sighashType inputIndex sub satsBN flags m =
     rbind (sighash H t (int sighashType) inputIndex sub satsBN flags) (\<lambda>hashbuf.
     rmap (\<lambda>sig. sig\<lparr>sig_nhashtype := Some sighashType\<rparr>) (sc_sign C m hashbuf privateKey))"

definition sighash_verify ::
  "(bytes \<Rightarrow> bytes) \<Rightarrow> ('k, 'p) scheme \<Rightarrow> tx \<Rightarrow> signature \<Rightarrow> 'p \<Rightarrow> nat \<Rightarrow> script \<Rightarrow> nat option \<Rightarrow> nat option \<Rightarrow>
     signing_method \<Rightarrow> bool res" where
  "sighash_verify H C t sig publicKey inputIndex sub satsBN flags m =
     (case sig_nhashtype sig of
        None \<Rightarrow> Inl (InvalidArgument [])
      | Some n \<Rightarrow>
          rbind (sighash H t (int n) inputIndex sub satsBN flags) (\<lambda>hashbuf.
            sc_verify C m hashbuf sig publicKey))"


section \<open>What the digest is taken of\<close>

lemma written_emits: "emits f b \<Longrightarrow> written f = Inr b"
  unfolding emits_def written_def
  by (metis append_Nil rmap_simps(2) writer_concat_new writer_ok_new)

definition outpoint_bytes :: "tx_input \<Rightarrow> bytes" where
  "outpoint_bytes i = rev (prevTxId i) @ le_bytes 4 (outputIndex i)"

definition forkid_bytes :: "int \<Rightarrow> nat \<Rightarrow> int \<Rightarrow> bytes \<Rightarrow> bytes \<Rightarrow> bytes \<Rightarrow> tx_input \<Rightarrow> bytes \<Rightarrow> nat \<Rightarrow> bytes" where
  "forkid_bytes ver lock ty hp hs ho i script sats =
     le_bytes 4 (nat (ver mod 2 ^ 32)) @ hp @ hs @ outpoint_bytes i @ var_bytes script @
     le_bytes 8 sats @ le_bytes 4 (sequenceNumber i) @ ho @ le_bytes 4 lock @ le_bytes 4 (nat (to_uint32 ty))"

lemma prevouts_of_eq: "fits t \<Longrightarrow> prevouts_of (inputs t) = Inr (concat (map outpoint_bytes (inputs t)))"
  unfolding prevouts_of_def
  by (intro written_emits emits_all)
     (auto simp: outpoint_bytes_def fits_def list_all_iff simp del: le_bytes.simps intro!: emits_after emits_u32)

lemma sequences_of_eq: "fits t \<Longrightarrow>
    sequences_of (inputs t) = Inr (concat (map (\<lambda>i. le_bytes 4 (sequenceNumber i)) (inputs t)))"
  unfolding sequences_of_def
  by (intro written_emits emits_all) (auto simp: fits_def list_all_iff intro!: emits_u32)

lemma outputs_of_eq: "\<forall>out \<in> set outs. satoshisBN out < 2 ^ 64 \<and> length (out_script out) \<le> 2 ^ 53 \<Longrightarrow>
    outputs_of outs = Inr (concat (map output_bytes outs))"
  unfolding outputs_of_def by (intro written_emits emits_all) (auto intro!: emits_output)

lemma to_uint32_range: "nat (to_uint32 x) < 2 ^ 32"
  by (simp add: to_uint32_def nat_less_iff take_bit_eq_mod)

lemma rev_be_bytes: "rev (be_bytes k n) = le_bytes k n"
  by (simp add: be_bytes_def)

lemma emits_after_u64: "sats < 2 ^ 64 \<Longrightarrow> emits f b \<Longrightarrow> emits (\<lambda>w. f (writeUInt64LEBN w sats)) (le_bytes 8 sats @ b)"
  using emits_after(2) [of f b "be_bytes 8 sats"] by (simp add: writeUInt64LEBN_bytes rev_be_bytes del: le_bytes.simps)

lemma forkid_preimage_eq:
  assumes "- (2 ^ 31) \<le> ver" "ver < 2 ^ 31" "lock < 2 ^ 32" "outputIndex i < 2 ^ 32" "sequenceNumber i < 2 ^ 32"
    and "length script \<le> 2 ^ 53" "sats < 2 ^ 64"
  shows "forkid_preimage ver lock ty hp hs ho i script sats = Inr (forkid_bytes ver lock ty hp hs ho i script sats)"
proof -
  let ?f = "\<lambda>w. rbind (writeInt32LE w ver) (\<lambda>w.
       rbind (writeUInt32LE (writeReverse (writeBuf (writeBuf w hp) hs) (prevTxId i)) (outputIndex i)) (\<lambda>w.
       rbind (writeVarintNum w (length script)) (\<lambda>w.
       rbind (writeUInt32LE (writeUInt64LEBN (writeBuf w script) sats) (sequenceNumber i)) (\<lambda>w.
       rbind (writeUInt32LE (writeBuf w ho) lock) (\<lambda>w.
         writeUInt32LE w (nat (to_uint32 ty)))))))"
  have "emits ?f (le_bytes 4 (nat (ver mod 2 ^ 32)) @
      (hp @ hs @ rev (prevTxId i) @ le_bytes 4 (outputIndex i)) @ varint_bytes (length script) @
      (script @ le_bytes 8 sats @ le_bytes 4 (sequenceNumber i)) @ (ho @ le_bytes 4 lock) @ le_bytes 4 (nat (to_uint32 ty)))"
  proof (intro emits_bind)
    show "emits (\<lambda>w. writeInt32LE w ver) (le_bytes 4 (nat (ver mod 2 ^ 32)))"
      using assms by (intro emits_i32)
    show "emits (\<lambda>w. writeUInt32LE (writeReverse (writeBuf (writeBuf w hp) hs) (prevTxId i)) (outputIndex i))
        (hp @ hs @ rev (prevTxId i) @ le_bytes 4 (outputIndex i))"
      using emits_after(1) [OF emits_after(1) [OF emits_after(2) [OF emits_u32 [OF assms(4)]]]] .
    show "emits (\<lambda>w. writeVarintNum w (length script)) (varint_bytes (length script))"
      using assms by (intro emits_varint)
    show "emits (\<lambda>w. writeUInt32LE (writeUInt64LEBN (writeBuf w script) sats) (sequenceNumber i))
        (script @ le_bytes 8 sats @ le_bytes 4 (sequenceNumber i))"
      using emits_after(1) [OF emits_after_u64 [OF assms(7) emits_u32 [OF assms(5)]]] .
    show "emits (\<lambda>w. writeUInt32LE (writeBuf w ho) lock) (ho @ le_bytes 4 lock)"
      using emits_after(1) [OF emits_u32 [OF assms(3)]] .
    show "emits (\<lambda>w. writeUInt32LE w (nat (to_uint32 ty))) (le_bytes 4 (nat (to_uint32 ty)))"
      by (rule emits_u32 [OF to_uint32_range])
  qed
  from written_emits [OF this] show ?thesis
    by (simp add: forkid_preimage_def forkid_bytes_def outpoint_bytes_def var_bytes_def del: le_bytes.simps)
qed

text \<open>The copy that is signed has lost everything but the wire fields.\<close>

definition strip :: "tx \<Rightarrow> tx" where
  "strip t = t\<lparr>inputs := map (\<lambda>i. i\<lparr>in_output := None, in_kind := Plain\<rparr>) (inputs t),
     outputs := map (\<lambda>out. out\<lparr>satoshis := to_double (satoshisBN out)\<rparr>) (outputs t),
     cachedInput := None, cachedOutput := None, tx_fee := None\<rparr>"

lemma strip_simps [simp]:
  "version (strip t) = version t" "nLockTime (strip t) = nLockTime t"
  "length (inputs (strip t)) = length (inputs t)" "length (outputs (strip t)) = length (outputs t)"
  by (simp_all add: strip_def)

lemma strip_valid: "fits t \<Longrightarrow> valid_tx (strip t)"
  by (simp add: strip_def valid_tx_def fits_def list_all_iff valid_input_def valid_output_def)

lemma tx_bytes_strip: "tx_bytes (strip t) = tx_bytes t"
  by (simp add: tx_bytes_def strip_def comp_def input_bytes_def [abs_def] output_bytes_def [abs_def])

lemma shallowCopy_eq: "fits t \<Longrightarrow> shallowCopy t = Inr (strip t)"
  using tx_codec.get_put_start [OF strip_valid [of t], of "[]"]
  by (simp add: shallowCopy_def tx_toBuffer_bytes tx_fromBuffer_def tx_bytes_strip)

lemma fits_strip: "fits t \<Longrightarrow> fits (strip t)"
  using strip_valid by (simp add: valid_tx_def)

section \<open>What the digest binds\<close>

lemma concat_fixed_inj:
  assumes "concat (map f xs) = concat (map g ys)" and "0 < k"
    and "\<forall>x \<in> set xs. length (f x) = k" and "\<forall>y \<in> set ys. length (g y) = k"
  shows "map f xs = map g ys"
  using assms
proof (induction xs arbitrary: ys)
  case Nil
  then show ?case by (cases ys) auto
next
  case (Cons x xs)
  then obtain y ys' where ys: "ys = y # ys'" by (cases ys) auto
  with Cons.prems have "f x = g y" "concat (map f xs) = concat (map g ys')"
    using append_eq_append_conv [of "f x" "g y"] by auto
  with Cons.IH [of ys'] Cons.prems show ?case by (simp add: ys)
qed

lemma concat_output_inj:
  assumes "list_all valid_output xs" and "list_all valid_output ys"
    and "concat (map output_bytes xs) = concat (map output_bytes ys)"
  shows "xs = ys"
  using assms
proof (induction xs arbitrary: ys)
  case Nil
  then show ?case by (cases ys) (auto simp: output_bytes_def)
next
  case (Cons x xs)
  have "output_bytes x \<noteq> []" by (simp add: output_bytes_def)
  with Cons.prems obtain y ys' where ys: "ys = y # ys'" by (cases ys) auto
  from Cons.prems have "x = y \<and> concat (map output_bytes xs) = concat (map output_bytes ys')"
    by (intro output_codec.put_prefix_free) (simp_all add: ys)
  with Cons.IH [of ys'] Cons.prems show ?case by (simp add: ys)
qed

lemma forkid_bytes_inj:
  assumes e: "forkid_bytes v l ty hp hs ho i sc n = forkid_bytes v' l' ty' hp' hs' ho' i' sc' n'"
    and len: "length hp = 32" "length hp' = 32" "length hs = 32" "length hs' = 32" "length ho = 32" "length ho' = 32"
      "length (prevTxId i) = 32" "length (prevTxId i') = 32" "length sc \<le> 2 ^ 53" "length sc' \<le> 2 ^ 53"
  shows "le_bytes 4 (nat (v mod 2 ^ 32)) = le_bytes 4 (nat (v' mod 2 ^ 32)) \<and> hp = hp' \<and> hs = hs' \<and> ho = ho' \<and>
    outpoint_bytes i = outpoint_bytes i' \<and> sc = sc' \<and> le_bytes 8 n = le_bytes 8 n' \<and>
    le_bytes 4 (sequenceNumber i) = le_bytes 4 (sequenceNumber i') \<and> le_bytes 4 l = le_bytes 4 l' \<and>
    le_bytes 4 (nat (to_uint32 ty)) = le_bytes 4 (nat (to_uint32 ty'))"
proof -
  have o: "length (outpoint_bytes i) = 36" "length (outpoint_bytes i') = 36"
    using len by (simp_all add: outpoint_bytes_def)
  let ?r = "le_bytes 8 n @ le_bytes 4 (sequenceNumber i) @ ho @ le_bytes 4 l @ le_bytes 4 (nat (to_uint32 ty))"
  let ?r' = "le_bytes 8 n' @ le_bytes 4 (sequenceNumber i') @ ho' @ le_bytes 4 l' @ le_bytes 4 (nat (to_uint32 ty'))"
  have "le_bytes 4 (nat (v mod 2 ^ 32)) = le_bytes 4 (nat (v' mod 2 ^ 32)) \<and> hp = hp' \<and> hs = hs' \<and>
      outpoint_bytes i = outpoint_bytes i' \<and> var_bytes sc @ ?r = var_bytes sc' @ ?r'"
    using e len o unfolding forkid_bytes_def by (simp del: le_bytes.simps)
  moreover from this have "sc = sc' \<and> ?r = ?r'" using len by (intro var_buf.put_prefix_free) simp_all
  ultimately show ?thesis using len by (simp del: le_bytes.simps)
qed

lemma le_bytes_inj: "le_bytes k a = le_bytes k b \<Longrightarrow> a < 256 ^ k \<Longrightarrow> b < 256 ^ k \<Longrightarrow> a = b"
  by (metis le_val_le_bytes)

lemma sighash_forkid_path:
  assumes "fits t" and "js_flag (int n) SIGHASH_FORKID" and "sighash H t (int n) k sub sats None = Inr h"
  shows "\<exists>sc s. script_toBuffer sub = Inr sc \<and> script_toBuffer s = Inr sc \<and>
    sighashForForkId H (strip t) (int n) k s sats = Inr h"
proof -
  have f: "has_flag 65536 65536" "\<not> has_flag 65536 131072" by (simp_all add: has_flag_def)
  from assms obtain sc s where s: "script_toBuffer sub = Inr sc" "script_fromBuffer sc = Inr s"
    "sighashForForkId H (strip t) (int n) k s sats = Inr h"
    by (auto simp: sighash_def shallowCopy_eq f Let_def elim!: rbind_InrE)
  with script_fromBuffer_bytes [OF s(2)] have "script_toBuffer s = Inr sc" by (simp add: script_toBuffer_eq)
  with s show ?thesis by blast
qed

lemma sighash_forkid_parts:
  assumes "fits t" and "js_flag (int n) SIGHASH_FORKID" and "sighash H t (int n) k sub (Some v) None = Inr h"
    and "length sc \<le> 2 ^ 53" and "script_toBuffer sub = Inr sc" and "v < 2 ^ 64"
  obtains hp hs ho where "k < length (inputs t)"
    "hash_prevouts H (int n) (strip t) = Inr hp" "hash_sequence H (int n) (strip t) = Inr hs"
    "hash_outputs H (int n) k (strip t) = Inr ho"
    "h = rev (H (forkid_bytes (version t) (nLockTime t) (int n) hp hs ho (inputs t ! k) sc v))"
proof -
  from sighash_forkid_path [OF assms(1-3)] assms(5) obtain s where
    s: "script_toBuffer s = Inr sc" "sighashForForkId H (strip t) (int n) k s (Some v) = Inr h" by auto
  from s(2) obtain hp hs ho where p: "k < length (inputs t)"
    "hash_prevouts H (int n) (strip t) = Inr hp" "hash_sequence H (int n) (strip t) = Inr hs"
    "hash_outputs H (int n) k (strip t) = Inr ho"
    and r: "rmap (\<lambda>p. rev (H p)) (forkid_preimage (version t) (nLockTime t) (int n) hp hs ho (inputs (strip t) ! k) sc v) = Inr h"
    by (auto simp: sighashForForkId_def s(1) elim!: rbind_InrE split: if_splits)
  let ?i = "inputs (strip t) ! k"
  have i: "prevTxId ?i = prevTxId (inputs t ! k)" "outputIndex ?i = outputIndex (inputs t ! k)"
    "sequenceNumber ?i = sequenceNumber (inputs t ! k)"
    using p(1) by (simp_all add: strip_def)
  have "inputs t ! k \<in> set (inputs t)" using p(1) by simp
  then have b: "outputIndex ?i < 2 ^ 32" "sequenceNumber ?i < 2 ^ 32" "- (2 ^ 31) \<le> version t" "version t < 2 ^ 31"
    "nLockTime t < 2 ^ 32"
    using assms(1) by (auto simp: i fits_def list_all_iff)
  have "h = rev (H (forkid_bytes (version t) (nLockTime t) (int n) hp hs ho ?i sc v))"
    using r forkid_preimage_eq [OF b(3,4,5,1,2) assms(4,6)] by simp
  with p that show ?thesis by (simp add: forkid_bytes_def outpoint_bytes_def i)
qed

lemma outpoint_bytes_eq:
  assumes "outpoint_bytes i = outpoint_bytes j" and "length (prevTxId i) = 32" "length (prevTxId j) = 32"
    and "outputIndex i < 2 ^ 32" "outputIndex j < 2 ^ 32"
  shows "prevTxId i = prevTxId j \<and> outputIndex i = outputIndex j"
  using assms le_bytes_inj [of 4 "outputIndex i" "outputIndex j"]
  by (simp add: outpoint_bytes_def del: le_bytes.simps)

lemma nat_mod_inj: "nat (a mod 2 ^ 32) = nat (b mod 2 ^ 32) \<Longrightarrow> - (2 ^ 31) \<le> a \<Longrightarrow> a < 2 ^ 31 \<Longrightarrow>
    - (2 ^ 31) \<le> b \<Longrightarrow> b < 2 ^ 31 \<Longrightarrow> a = (b :: int)"
  by (metis eq_nat_nat_iff pos_mod_sign to_int32_mod zero_less_numeral zero_less_power)

definition signs_all :: "nat \<Rightarrow> bool" where
  "signs_all n \<longleftrightarrow> n < 2 ^ 32 \<and> js_flag (int n) SIGHASH_FORKID \<and> \<not> js_flag (int n) SIGHASH_ANYONECANPAY \<and>
     sighash_base (int n) \<noteq> int SIGHASH_NONE \<and> sighash_base (int n) \<noteq> int SIGHASH_SINGLE"

definition outpoint :: "tx_input \<Rightarrow> bytes \<times> nat" where
  "outpoint i = (prevTxId i, outputIndex i)"

lemma signs_all_hashes:
  assumes "fits t" and "signs_all n"
  shows "hash_prevouts H (int n) (strip t) = Inr (H (concat (map outpoint_bytes (inputs t))))"
    "hash_sequence H (int n) (strip t) = Inr (H (concat (map (\<lambda>i. le_bytes 4 (sequenceNumber i)) (inputs t))))"
    "hash_outputs H (int n) k (strip t) = Inr (H (concat (map output_bytes (outputs t))))"
proof -
  have o: "\<forall>out \<in> set (outputs (strip t)). satoshisBN out < 2 ^ 64 \<and> length (out_script out) \<le> 2 ^ 53"
    using fits_strip [OF assms(1)] by (auto simp: fits_def list_all_iff)
  show "hash_prevouts H (int n) (strip t) = Inr (H (concat (map outpoint_bytes (inputs t))))"
    using assms(2) prevouts_of_eq [OF fits_strip [OF assms(1)]]
    by (simp add: hash_prevouts_def signs_all_def strip_def comp_def outpoint_bytes_def [abs_def])
  show "hash_sequence H (int n) (strip t) = Inr (H (concat (map (\<lambda>i. le_bytes 4 (sequenceNumber i)) (inputs t))))"
    using assms(2) sequences_of_eq [OF fits_strip [OF assms(1)]]
    by (simp add: hash_sequence_def signs_all_def strip_def comp_def)
  show "hash_outputs H (int n) k (strip t) = Inr (H (concat (map output_bytes (outputs t))))"
    using assms(2) outputs_of_eq [OF o]
    by (simp add: hash_outputs_def signs_all_def strip_def comp_def output_bytes_def [abs_def])
qed

definition wire_output :: "tx_output \<Rightarrow> nat \<times> bytes" where
  "wire_output out = (satoshisBN out, out_script out)"

lemma wire_outputs_inj:
  assumes "fits t" and "fits t'" and "concat (map output_bytes (outputs t)) = concat (map output_bytes (outputs t'))"
  shows "map wire_output (outputs t) = map wire_output (outputs t')"
proof -
  have o: "concat (map output_bytes (outputs (strip u))) = concat (map output_bytes (outputs u))" for u
    by (simp add: strip_def comp_def output_bytes_def [abs_def])
  have "list_all valid_output (outputs (strip u))" if "fits u" for u
    using strip_valid [OF that] by (simp add: valid_tx_def)
  with assms have "outputs (strip t) = outputs (strip t')" by (intro concat_output_inj) (simp_all add: o)
  then have "map wire_output (outputs (strip t)) = map wire_output (outputs (strip t'))" by simp
  then show ?thesis by (simp add: strip_def comp_def wire_output_def [abs_def])
qed

lemma outpoints_inj:
  assumes "fits t" and "fits t'" and "concat (map outpoint_bytes (inputs t)) = concat (map outpoint_bytes (inputs t'))"
  shows "map outpoint (inputs t) = map outpoint (inputs t')"
proof -
  have l: "\<forall>i \<in> set (inputs u). length (outpoint_bytes i) = 36" if "fits u" for u
    using that by (auto simp: fits_def list_all_iff outpoint_bytes_def)
  have m: "map outpoint_bytes (inputs t) = map outpoint_bytes (inputs t')"
    using concat_fixed_inj [OF assms(3), of 36] l assms(1,2) by simp
  show ?thesis
  proof (rule nth_equalityI)
    show "length (map outpoint (inputs t)) = length (map outpoint (inputs t'))" using map_eq_imp_length_eq [OF m] by simp
  next
    fix k assume "k < length (map outpoint (inputs t))"
    then have k: "k < length (inputs t)" "k < length (inputs t')" using map_eq_imp_length_eq [OF m] by simp_all
    then have "outpoint_bytes (inputs t ! k) = outpoint_bytes (inputs t' ! k)" using arg_cong [OF m, of "\<lambda>xs. xs ! k"] by simp
    moreover have "inputs t ! k \<in> set (inputs t)" "inputs t' ! k \<in> set (inputs t')" using k by simp_all
    ultimately have "outpoint (inputs t ! k) = outpoint (inputs t' ! k)"
      using assms(1,2) by (auto simp: fits_def list_all_iff outpoint_def dest!: outpoint_bytes_eq)
    with k show "map outpoint (inputs t) ! k = map outpoint (inputs t') ! k" by simp
  qed
qed

lemma sequences_inj:
  assumes "fits t" and "fits t'"
    and "concat (map (\<lambda>i. le_bytes 4 (sequenceNumber i)) (inputs t)) = concat (map (\<lambda>i. le_bytes 4 (sequenceNumber i)) (inputs t'))"
  shows "map sequenceNumber (inputs t) = map sequenceNumber (inputs t')"
proof -
  have m: "map (\<lambda>i. le_bytes 4 (sequenceNumber i)) (inputs t) = map (\<lambda>i. le_bytes 4 (sequenceNumber i)) (inputs t')"
    using concat_fixed_inj [OF assms(3), of 4] by simp
  have "map le_val (map (\<lambda>i. le_bytes 4 (sequenceNumber i)) (inputs u)) = map sequenceNumber (inputs u)" if "fits u" for u
    using that by (auto simp: fits_def list_all_iff le_val_le_bytes simp del: le_bytes.simps)
  then show ?thesis using m assms(1,2) by metis
qed

text \<open>The bytes whose digest signs everything.\<close>

definition all_preimage :: "(bytes \<Rightarrow> bytes) \<Rightarrow> tx \<Rightarrow> nat \<Rightarrow> nat \<Rightarrow> bytes \<Rightarrow> nat \<Rightarrow> bytes" where
  "all_preimage H t n k sc v =
     forkid_bytes (version t) (nLockTime t) (int n) (H (concat (map outpoint_bytes (inputs t))))
       (H (concat (map (\<lambda>i. le_bytes 4 (sequenceNumber i)) (inputs t)))) (H (concat (map output_bytes (outputs t))))
       (inputs t ! k) sc v"

text \<open>All that is hashed for it, and when a hash function tells two such lists apart wherever they differ.\<close>

definition hashed_strings :: "(bytes \<Rightarrow> bytes) \<Rightarrow> tx \<Rightarrow> nat \<Rightarrow> nat \<Rightarrow> bytes \<Rightarrow> nat \<Rightarrow> bytes list" where
  "hashed_strings H t n k sc v =
     [concat (map outpoint_bytes (inputs t)), concat (map (\<lambda>i. le_bytes 4 (sequenceNumber i)) (inputs t)),
      concat (map output_bytes (outputs t)), all_preimage H t n k sc v]"

definition told_apart :: "(bytes \<Rightarrow> bytes) \<Rightarrow> bytes list \<Rightarrow> bytes list \<Rightarrow> bool" where
  "told_apart H xs ys \<longleftrightarrow> list_all2 (\<lambda>a b. H a = H b \<longrightarrow> a = b) xs ys"

lemma sighash_all_digest:
  assumes "fits t" and "signs_all n" and "script_toBuffer sub = Inr sc" and "length sc \<le> 2 ^ 53" and "v < 2 ^ 64"
    and "sighash H t (int n) k sub (Some v) None = Inr h"
  shows "k < length (inputs t) \<and> h = rev (H (all_preimage H t n k sc v))"
proof -
  have flag: "js_flag (int n) SIGHASH_FORKID" using assms(2) by (simp add: signs_all_def)
  show ?thesis
    using sighash_forkid_parts [OF assms(1) flag assms(6,4,3,5)] signs_all_hashes [OF assms(1,2), of H]
    unfolding all_preimage_def by (metis sum.inject(2))
qed

lemma sighash_all_eq:
  assumes "fits t" and "signs_all n" and "k < length (inputs t)" and "script_toBuffer sub = Inr sc"
    and "script_fromBuffer sc = Inr s" and "length sc \<le> 2 ^ 53" and "v < 2 ^ 64"
  shows "sighash H t (int n) k sub (Some v) None = Inr (rev (H (all_preimage H t n k sc v)))"
proof -
  have f: "has_flag 65536 65536" "\<not> has_flag 65536 131072" by (simp_all add: has_flag_def)
  have flag: "js_flag (int n) 64" using assms(2) by (simp add: signs_all_def)
  let ?i = "inputs (strip t) ! k"
  have i: "prevTxId ?i = prevTxId (inputs t ! k)" "outputIndex ?i = outputIndex (inputs t ! k)"
    "sequenceNumber ?i = sequenceNumber (inputs t ! k)"
    using assms(3) by (simp_all add: strip_def)
  have "inputs t ! k \<in> set (inputs t)" using assms(3) by simp
  then have b: "outputIndex ?i < 2 ^ 32" "sequenceNumber ?i < 2 ^ 32" "- (2 ^ 31) \<le> version t" "version t < 2 ^ 31"
    "nLockTime t < 2 ^ 32"
    using assms(1) by (auto simp: i fits_def list_all_iff)
  have "script_toBuffer s = Inr sc"
    using script_fromBuffer_bytes [OF assms(5)] by (simp add: script_toBuffer_eq)
  then have "sighashForForkId H (strip t) (int n) k s (Some v) = Inr (rev (H (all_preimage H t n k sc v)))"
    using assms(3) forkid_preimage_eq [OF b(3,4,5,1,2) assms(6,7)] signs_all_hashes [OF assms(1,2), of H]
    by (simp add: sighashForForkId_def checkArgument_def all_preimage_def forkid_bytes_def outpoint_bytes_def i)
  then show ?thesis
    using assms(4,5) by (simp add: sighash_def shallowCopy_eq [OF assms(1)] f Let_def flag)
qed

section \<open>Properties\<close>

text \<open>C28. What a signature of the whole transaction commits to: if the digests of two
  transactions agree for a hash type that signs everything, then the version, the lock time,
  the outpoints and sequence numbers of all inputs, all outputs, the signed input's outpoint,
  the spent amount, the script and the hash type agree, provided that the double SHA-256 tells apart the four strings
  that are hashed for the one transaction from those that are hashed in their place for the other.\<close>

theorem sighash_binds:
  assumes "\<forall>b. length (H b) = 32" and "fits t" and "fits t'" and "signs_all n" and "signs_all n'"
    and "script_toBuffer sub = Inr sc" and "script_toBuffer sub' = Inr sc'"
    and "length sc \<le> 2 ^ 53" and "length sc' \<le> 2 ^ 53" and "v < 2 ^ 64" and "v' < 2 ^ 64"
    and "sighash H t (int n) k sub (Some v) None = Inr h" and "sighash H t' (int n') k' sub' (Some v') None = Inr h"
    and "told_apart H (hashed_strings H t n k sc v) (hashed_strings H t' n' k' sc' v')"
  shows "version t = version t' \<and> nLockTime t = nLockTime t' \<and>
      map outpoint (inputs t) = map outpoint (inputs t') \<and>
      map sequenceNumber (inputs t) = map sequenceNumber (inputs t') \<and>
      map wire_output (outputs t) = map wire_output (outputs t') \<and>
      outpoint (inputs t ! k) = outpoint (inputs t' ! k') \<and> v = v' \<and> sc = sc' \<and> n = n'"
proof -
  note H = assms(14) [unfolded told_apart_def hashed_strings_def list_all2_Cons list_all2_Nil2]
  have d: "k < length (inputs t)" "h = rev (H (all_preimage H t n k sc v))"
    using sighash_all_digest [OF assms(2,4,6,8,10,12)] by simp_all
  have d': "k' < length (inputs t')" "h = rev (H (all_preimage H t' n' k' sc' v'))"
    using sighash_all_digest [OF assms(3,5,7,9,11,13)] by simp_all
  have e: "all_preimage H t n k sc v = all_preimage H t' n' k' sc' v'" using d(2) d'(2) H by simp
  have mem: "inputs t ! k \<in> set (inputs t)" "inputs t' ! k' \<in> set (inputs t')" using d(1) d'(1) by simp_all
  then have w: "length (prevTxId (inputs t ! k)) = 32" "length (prevTxId (inputs t' ! k')) = 32"
    "outputIndex (inputs t ! k) < 2 ^ 32" "outputIndex (inputs t' ! k') < 2 ^ 32"
    using assms(2,3) by (auto simp: fits_def list_all_iff)
  have f: "le_bytes 4 (nat (version t mod 2 ^ 32)) = le_bytes 4 (nat (version t' mod 2 ^ 32))"
    "concat (map outpoint_bytes (inputs t)) = concat (map outpoint_bytes (inputs t'))"
    "concat (map (\<lambda>i. le_bytes 4 (sequenceNumber i)) (inputs t)) = concat (map (\<lambda>i. le_bytes 4 (sequenceNumber i)) (inputs t'))"
    "concat (map output_bytes (outputs t)) = concat (map output_bytes (outputs t'))" "outpoint_bytes (inputs t ! k) = outpoint_bytes (inputs t' ! k')"
    "sc = sc'" "le_bytes 8 v = le_bytes 8 v'" "le_bytes 4 (nLockTime t) = le_bytes 4 (nLockTime t')"
    "le_bytes 4 (nat (to_uint32 (int n))) = le_bytes 4 (nat (to_uint32 (int n')))"
    using forkid_bytes_inj [OF e [unfolded all_preimage_def]] assms(1,8,9) w H by simp_all
  have "nat (version u mod 2 ^ 32) < 256 ^ 4" for u :: tx by (simp add: nat_less_iff)
  with f(1) have "nat (version t mod 2 ^ 32) = nat (version t' mod 2 ^ 32)" by (intro le_bytes_inj)
  then have ver: "version t = version t'" using assms(2,3) by (intro nat_mod_inj) (simp_all add: fits_def)
  have lock: "nLockTime t = nLockTime t'" using le_bytes_inj [OF f(8)] assms(2,3) by (simp add: fits_def)
  have val: "v = v'" using le_bytes_inj [OF f(7)] assms(10,11) by simp
  have "to_uint32 (int m) = int m" if "m < 2 ^ 32" for m :: nat
    using that by (simp add: to_uint32_def take_bit_int_eq_self)
  then have ty: "n = n'" using le_bytes_inj [OF f(9)] assms(4,5) by (simp add: signs_all_def)
  have "outpoint (inputs t ! k) = outpoint (inputs t' ! k')"
    using outpoint_bytes_eq [OF f(5)] w by (simp add: outpoint_def)
  with ver lock val ty f(6) outpoints_inj [OF assms(2,3) f(2)] sequences_inj [OF assms(2,3) f(3)]
    wire_outputs_inj [OF assms(2,3) f(4)]
  show ?thesis by simp
qed

definition demo_hash :: "bytes \<Rightarrow> bytes" where
  "demo_hash b = take 32 (b @ replicate 32 0)"

text \<open>Two transactions that differ in the script of an input, which is signed by neither.\<close>

definition resigned_tx :: tx where
  "resigned_tx = simple_tx\<lparr>inputs := [(demo_input 0x80)\<lparr>in_script := [0x52]\<rparr>]\<rparr>"

theorem sighash_binds_witness:
  "\<exists>h. sighash demo_hash simple_tx 0x41 0 [] (Some 5) None = Inr h \<and> sighash demo_hash resigned_tx 0x41 0 [] (Some 5) None = Inr h \<and>
     map in_script (inputs simple_tx) \<noteq> map in_script (inputs resigned_tx) \<and>
     map wire_output (outputs simple_tx) = map wire_output (outputs resigned_tx)"
proof -
  let ?t = "resigned_tx"
  have f: "fits simple_tx" "fits ?t"
    by (simp_all add: resigned_tx_def simple_tx_def demo_input_def fits_def new_tx_def mk_output_bn_def set_satoshis_bn_def)
  have n: "signs_all 0x41"
    by (simp add: signs_all_def js_flag_def js_and_def sighash_base_def to_int32_def)
  have s: "script_toBuffer [] = Inr []" "script_fromBuffer [] = Inr []"
    by (simp_all add: script_toBuffer_eq script_fromBuffer_def read_chunks.simps eof_def)
  have l: "length (inputs simple_tx) = 1" "length (inputs ?t) = 1" by (simp_all add: simple_tx_def resigned_tx_def)
  have e1: "sighash demo_hash simple_tx (int 0x41) 0 [] (Some 5) None = Inr (rev (demo_hash (all_preimage demo_hash simple_tx 0x41 0 [] 5)))"
    by (rule sighash_all_eq [OF f(1) n _ s]) (simp_all add: l)
  have e2: "sighash demo_hash ?t (int 0x41) 0 [] (Some 5) None = Inr (rev (demo_hash (all_preimage demo_hash ?t 0x41 0 [] 5)))"
    by (rule sighash_all_eq [OF f(2) n _ s]) (simp_all add: l)
  have same: "all_preimage demo_hash ?t 0x41 0 [] 5 = all_preimage demo_hash simple_tx 0x41 0 [] 5"
    by (simp add: all_preimage_def forkid_bytes_def resigned_tx_def simple_tx_def outpoint_bytes_def new_tx_def)
  with e2 have e2': "sighash demo_hash ?t (int 0x41) 0 [] (Some 5) None = Inr (rev (demo_hash (all_preimage demo_hash simple_tx 0x41 0 [] 5)))"
    by simp
  have len: "\<forall>b. length (demo_hash b) = 32" by (auto simp: demo_hash_def)
  have "hashed_strings demo_hash ?t 0x41 0 [] 5 = hashed_strings demo_hash simple_tx 0x41 0 [] 5"
    unfolding hashed_strings_def same by (simp add: resigned_tx_def simple_tx_def outpoint_bytes_def new_tx_def)
  then have apart: "told_apart demo_hash (hashed_strings demo_hash simple_tx 0x41 0 [] 5) (hashed_strings demo_hash ?t 0x41 0 [] 5)"
    by (simp add: told_apart_def list_all2_same)
  have "map wire_output (outputs simple_tx) = map wire_output (outputs ?t)"
    using sighash_binds [OF len f n n s(1) s(1) _ _ _ _ e1 e2' apart] by simp
  moreover have "map in_script (inputs simple_tx) \<noteq> map in_script (inputs ?t)"
    by (simp add: resigned_tx_def simple_tx_def demo_input_def)
  ultimately show ?thesis using e1 e2' by auto
qed

end
