(* ===== verification/Signing.thy ===== *)
theory Signing
  imports Sighash
begin

text \<open>
  Signing a transaction: \<^verbatim>\<open>Transaction.sign\<close> with the two input classes that can be signed with
  one key, \<^verbatim>\<open>input/publickeyhash.js\<close> and \<^verbatim>\<open>input/publickey.js\<close>.  Keys, their serialisation and
  hashes and the signature schemes are parameters.
\<close>

record ('k, 'p) signer = "('k, 'p) scheme" +
  public_key :: "'k \<Rightarrow> 'p"
  key_bytes :: "'p \<Rightarrow> bytes"
  key_hash160 :: "bytes \<Rightarrow> bytes"
  key_valid :: "bytes \<Rightarrow> bool"
  sha256d :: "bytes \<Rightarrow> bytes"

record 'p tx_signature =
  ts_publicKey :: 'p
  ts_inputIndex :: nat
  ts_signature :: signature
  ts_sigtype :: nat

text \<open>The output an input spends, and its script.\<close>

definition spent_output :: "tx_input \<Rightarrow> tx_output res" where
  "spent_output i = (case in_output i of None \<Rightarrow> Inl (InvalidState []) | Some out \<Rightarrow> Inr out)"

definition spent_script :: "tx_input \<Rightarrow> script res" where
  "spent_script i =
     rbind (spent_output i) (\<lambda>out.
     rbind (output_script out) (\<lambda>s. case s of None \<Rightarrow> Inl TypeErr | Some script \<Rightarrow> Inr script))"

definition spent_value :: "tx_input \<Rightarrow> nat option" where
  "spent_value i = map_option satoshisBN (in_output i)"

definition input_getSignatures ::
  "('k, 'p) signer \<Rightarrow> tx \<Rightarrow> 'k \<Rightarrow> nat \<Rightarrow> nat \<Rightarrow> signing_method \<Rightarrow> tx_input \<Rightarrow> 'p tx_signature list res" where
  "input_getSignatures S t privateKey index sigtype m i =
     (if in_kind i = Plain then Inl (LibError ''AbstractMethodInvoked'')
      else rbind (spent_script i) (\<lambda>script.
           rbind (if in_kind i = PublicKeyHashInput
                  then rmap (\<lambda>h. key_hash160 S (key_bytes S (public_key S privateKey)) = h) (getPublicKeyHash script)
                  else rmap (\<lambda>k. key_bytes S (public_key S privateKey) = k) (getPublicKey (key_valid S) script)) (\<lambda>mine.
             if mine
             then rmap (\<lambda>sig. [\<lparr>ts_publicKey = public_key S privateKey, ts_inputIndex = index,
                                ts_signature = sig, ts_sigtype = sigtype\<rparr>])
                    (sighash_sign (sha256d S) (scheme.truncate S) t privateKey sigtype index script (spent_value i) None m)
             else Inr [])))"

primrec getSignatures_from ::
  "('k, 'p) signer \<Rightarrow> tx \<Rightarrow> 'k \<Rightarrow> nat \<Rightarrow> signing_method \<Rightarrow> nat \<Rightarrow> tx_input list \<Rightarrow> 'p tx_signature list res" where
  "getSignatures_from S t privateKey sigtype m index [] = Inr []"
| "getSignatures_from S t privateKey sigtype m index (i # is) =
     rbind (input_getSignatures S t privateKey index sigtype m i) (\<lambda>xs.
     rmap (\<lambda>ys. xs @ ys) (getSignatures_from S t privateKey sigtype m (Suc index) is))"

text \<open>\<open>0\<close> is an absent hash type, for which everything is signed.\<close>

definition getSignatures ::
  "('k, 'p) signer \<Rightarrow> 'k \<Rightarrow> nat \<Rightarrow> signing_method \<Rightarrow> tx \<Rightarrow> 'p tx_signature list res" where
  "getSignatures S privateKey sigtype m t =
     getSignatures_from S t privateKey (if sigtype = 0 then 0x41 else sigtype) m 0 (inputs t)"

definition isValidSignature ::
  "('k, 'p) signer \<Rightarrow> tx \<Rightarrow> 'p tx_signature \<Rightarrow> signing_method \<Rightarrow> tx_input \<Rightarrow> bool res" where
  "isValidSignature S t sg m i =
     rbind (spent_script i) (\<lambda>script.
       sighash_verify (sha256d S) (scheme.truncate S) t ((ts_signature sg)\<lparr>sig_nhashtype := Some (ts_sigtype sg)\<rparr>)
         (ts_publicKey sg) (ts_inputIndex sg) script (spent_value i) None m)"

definition signature_bytes :: "signing_method \<Rightarrow> signature \<Rightarrow> bytes res" where
  "signature_bytes m sig =
     (case (sig_r sig, sig_s sig) of
        (Some r, Some s) \<Rightarrow> Inr (case m of Schnorr \<Rightarrow> toSchnorr r s | Ecdsa \<Rightarrow> toDER r s)
      | _ \<Rightarrow> Inl TypeErr)"

definition addSignature ::
  "('k, 'p) signer \<Rightarrow> tx \<Rightarrow> 'p tx_signature \<Rightarrow> signing_method \<Rightarrow> tx_input \<Rightarrow> tx_input res" where
  "addSignature S t sg m i =
     (if in_kind i = Plain then Inl (LibError ''AbstractMethodInvoked'')
      else rbind (isValidSignature S t sg m i) (\<lambda>ok.
           rbind (checkState ok ''Signature is invalid'') (\<lambda>_.
           rbind (signature_bytes m (ts_signature sg)) (\<lambda>b.
           rbind (if in_kind i = PublicKeyHashInput
                  then buildPublicKeyHashIn (key_bytes S (ts_publicKey sg)) b (Some (ts_sigtype sg))
                  else buildPublicKeyIn b (Some (ts_sigtype sg))) (\<lambda>script.
           rmap (\<lambda>c. i\<lparr>in_script := c\<rparr>) (script_toBuffer script))))))"

definition applySignature ::
  "('k, 'p) signer \<Rightarrow> signing_method \<Rightarrow> 'p tx_signature \<Rightarrow> tx \<Rightarrow> tx res" where
  "applySignature S m sg t =
     (case nth_opt (inputs t) (ts_inputIndex sg) of
        None \<Rightarrow> Inl TypeErr
      | Some i \<Rightarrow> rmap (\<lambda>j. t\<lparr>inputs := (inputs t)[ts_inputIndex sg := j]\<rparr>) (addSignature S t sg m i))"

primrec applySignatures ::
  "('k, 'p) signer \<Rightarrow> signing_method \<Rightarrow> 'p tx_signature list \<Rightarrow> tx \<Rightarrow> tx res" where
  "applySignatures S m [] t = Inr t"
| "applySignatures S m (sg # sgs) t = rbind (applySignature S m sg t) (applySignatures S m sgs)"

definition tx_sign_key :: "('k, 'p) signer \<Rightarrow> nat \<Rightarrow> signing_method \<Rightarrow> 'k \<Rightarrow> tx \<Rightarrow> tx res" where
  "tx_sign_key S sigtype m privateKey t =
     rbind (checkState (hasAllUtxoInfo t) ''Not all utxo information is available to sign the transaction.'') (\<lambda>_.
     rbind (getSignatures S privateKey sigtype m t) (\<lambda>sgs. applySignatures S m sgs t))"

primrec tx_sign_keys :: "('k, 'p) signer \<Rightarrow> nat \<Rightarrow> signing_method \<Rightarrow> 'k list \<Rightarrow> tx \<Rightarrow> tx res" where
  "tx_sign_keys S sigtype m [] t = Inr t"
| "tx_sign_keys S sigtype m (k # ks) t = rbind (tx_sign_key S sigtype m k t) (tx_sign_keys S sigtype m ks)"

definition tx_sign :: "('k, 'p) signer \<Rightarrow> nat \<Rightarrow> signing_method \<Rightarrow> 'k list \<Rightarrow> tx \<Rightarrow> tx res" where
  "tx_sign S sigtype m keys t =
     rbind (checkState (hasAllUtxoInfo t) ''Not all utxo information is available to sign the transaction.'') (\<lambda>_.
       tx_sign_keys S sigtype m keys t)"

section \<open>What signing leaves alone\<close>

text \<open>Two transactions that differ in their input scripts only.\<close>

definition same_but_scripts :: "tx \<Rightarrow> tx \<Rightarrow> bool" where
  "same_but_scripts t u \<longleftrightarrow>
     u = t\<lparr>inputs := inputs u\<rparr> \<and> map (in_script_update (\<lambda>_. [])) (inputs u) = map (in_script_update (\<lambda>_. [])) (inputs t)"

lemma same_but_scripts_refl [simp]: "same_but_scripts t t"
  by (simp add: same_but_scripts_def)

lemma same_but_scripts_trans: "same_but_scripts t u \<Longrightarrow> same_but_scripts u v \<Longrightarrow> same_but_scripts t v"
  unfolding same_but_scripts_def by (metis tx.surjective tx.update_convs(2))

lemma addSignature_script: "addSignature S t sg m i = Inr j \<Longrightarrow> in_script_update (\<lambda>_. []) j = in_script_update (\<lambda>_. []) i"
  by (auto simp: addSignature_def rmap_Inr_iff split: if_splits elim!: rbind_InrE)

lemma applySignature_same: "applySignature S m sg t = Inr u \<Longrightarrow> same_but_scripts t u"
  by (auto simp: applySignature_def same_but_scripts_def rmap_Inr_iff nth_opt_def map_update addSignature_script
      split: if_splits option.splits) (metis list_update_id map_update nth_map)

lemma applySignatures_same: "applySignatures S m sgs t = Inr u \<Longrightarrow> same_but_scripts t u"
  by (induction sgs arbitrary: t)
     (auto elim!: rbind_InrE dest!: applySignature_same intro: same_but_scripts_trans)

lemma tx_sign_keys_same: "tx_sign_keys S sigtype m keys t = Inr u \<Longrightarrow> same_but_scripts t u"
proof (induction keys arbitrary: t)
  case (Cons k ks)
  then obtain v where "tx_sign_key S sigtype m k t = Inr v" "tx_sign_keys S sigtype m ks v = Inr u"
    by (auto elim!: rbind_InrE)
  with Cons.IH [of v] show ?case
    by (auto simp: tx_sign_key_def elim!: rbind_InrE dest!: applySignatures_same intro: same_but_scripts_trans)
qed simp

lemma tx_sign_same: "tx_sign S sigtype m keys t = Inr u \<Longrightarrow> same_but_scripts t u"
  by (auto simp: tx_sign_def elim!: rbind_InrE dest: tx_sign_keys_same)

end
