(* ===== verification/WalletBuild.thy ===== *)
theory WalletBuild
  imports WalletSync Signing
begin

text \<open>
  \<^verbatim>\<open>cashweb/wallet/index.ts\<close>, the side that spends: coin selection, change outputs, shuffling and
  signing, over the transactions of \<^verbatim>\<open>bitcore-lib-xec\<close>.  Amounts are whole numbers and the sums that
  JavaScript rounds are rounded; \<^verbatim>\<open>Math.random()\<close> is a stream of numerators over \<open>2^53\<close>.
\<close>

section \<open>Constants and parameters\<close>

definition standardUtxoSize :: nat where "standardUtxoSize = 34"
definition standardInputSize :: nat where "standardInputSize = 175"
definition minimumNewInputAmount :: nat where "minimumNewInputAmount = 5120"
definition dustLimit :: nat where "dustLimit = 546"
definition minFeePerByte :: nat where "minFeePerByte = 2"
definition maxFeePerByte :: nat where "maxFeePerByte = 3"
definition maximumTransactionSize :: nat where "maximumTransactionSize = 100000"

lemmas wallet_constants = standardUtxoSize_def standardInputSize_def minimumNewInputAmount_def dustLimit_def
  minFeePerByte_def maxFeePerByte_def maximumTransactionSize_def

text \<open>
  \<open>oom\<close> is \<^verbatim>\<open>Math.floor(Math.log2(amount))\<close>, whose precision the language leaves open, and
  \<open>address_hash\<close> the hash in the address a text stands for.
\<close>

record ('k, 'p) wallet_env = "('k, 'p) signer" +
  oom :: "int \<Rightarrow> int"
  address_hash :: "string \<Rightarrow> bytes res"

section \<open>Randomness\<close>

text \<open>\<^verbatim>\<open>Math.floor(Math.random() * n)\<close>: the product is rounded to a double first.\<close>

definition rand_index :: "(nat \<Rightarrow> nat) \<Rightarrow> nat \<Rightarrow> nat \<Rightarrow> nat" where
  "rand_index rnd p n = to_double (rnd p * n) div 2 ^ 53"

definition swap :: "nat \<Rightarrow> nat \<Rightarrow> 'a list \<Rightarrow> 'a list" where
  "swap i j xs = xs[i := xs ! j, j := xs ! i]"

primrec shuffle_from :: "(nat \<Rightarrow> nat) \<Rightarrow> nat \<Rightarrow> nat \<Rightarrow> 'a list \<Rightarrow> 'a list" where
  "shuffle_from rnd p 0 xs = xs"
| "shuffle_from rnd p (Suc i) xs = shuffle_from rnd (Suc p) i (swap (Suc i) (rand_index rnd p (Suc i)) xs)"

text \<open>The shuffled array and the \<^verbatim>\<open>swaps\<close> it returns; it draws one number less than there are elements.\<close>

definition shuffleArray :: "(nat \<Rightarrow> nat) \<Rightarrow> nat \<Rightarrow> 'a list \<Rightarrow> 'a list \<times> nat list" where
  "shuffleArray rnd p xs =
     (shuffle_from rnd p (length xs - 1) xs, shuffle_from rnd p (length xs - 1) [0..<length xs])"

text \<open>
  \<^verbatim>\<open>Math.ceil(randomSplit * x)\<close> for \<^verbatim>\<open>randomSplit = Math.random() * 0.2 + 0.4\<close>, every operation rounded
  to a double, with numerators over \<open>2^107\<close>: \<open>0.2\<close> is \<open>3602879701896397 / 2^54\<close>.
\<close>

definition random_split :: "nat \<Rightarrow> nat" where
  "random_split r = to_double (to_double (r * 3602879701896397) + 7205759403792794 * 2 ^ 53)"

definition split_amount :: "nat \<Rightarrow> int \<Rightarrow> int" where
  "split_amount r x =
     (if 0 \<le> x then int ((to_double (random_split r * nat x) + 2 ^ 107 - 1) div 2 ^ 107)
      else - int (to_double (random_split r * nat (- x)) div 2 ^ 107))"

section \<open>Sizes, scripts and amounts\<close>

definition wallet_size :: "tx \<Rightarrow> nat" where
  "wallet_size t =
     4 + 9 + 9 + 4 + length (outputs t) * 35 + length (inputs t) * (32 + 4 + 1 + 1 + 73 + 33 + 4)"

definition p2pkh_bytes :: "bytes \<Rightarrow> bytes res" where
  "p2pkh_bytes h = rbind (buildPublicKeyHashOut h) script_toBuffer"

definition key_script :: "('k, 'p) wallet_env \<Rightarrow> 'p \<Rightarrow> bytes res" where
  "key_script E pub = p2pkh_bytes (key_hash160 E (key_bytes E pub))"

text \<open>\<^verbatim>\<open>transaction.inputAmount\<close> and \<^verbatim>\<open>transaction.outputAmount\<close>, in the order they are read.\<close>

definition tx_amounts :: "tx \<Rightarrow> (nat \<times> nat \<times> tx) res" where
  "tx_amounts t = rmap (\<lambda>(i, t1). let (out, t2) = getOutputAmount t1 in (i, out, t2)) (getInputAmount t)"

definition stage_input :: "('k, 'p) wallet_env \<Rightarrow> 'k utxo \<Rightarrow> tx \<Rightarrow> tx res" where
  "stage_input E u t =
     rbind (address_hash E (address u)) (\<lambda>h.
     rbind (p2pkh_bytes h) (\<lambda>b.
       from_utxos (key_valid E)
         [\<lparr>u_txId = txId u, u_outputIndex = vout u, u_script = b, u_satoshis = amount_sats u\<rparr>] t))"

section \<open>Change outputs and signing\<close>

text \<open>The loop over the change keys: \<open>k0\<close> is the order of magnitude of the first output.\<close>

primrec change_loop ::
  "('k, 'p) wallet_env \<Rightarrow> (nat \<Rightarrow> nat) \<Rightarrow> int \<Rightarrow> nat \<Rightarrow> int \<Rightarrow> 'k list \<Rightarrow> tx \<Rightarrow> (tx \<times> nat) res" where
  "change_loop E rnd k0 p skip [] t = Inr (t, p)"
| "change_loop E rnd k0 p skip (k # ks) t =
     rbind (tx_amounts t) (\<lambda>(ia, oa, t1).
       let fee = int ((wallet_size t1 + standardUtxoSize) * minFeePerByte);
           delta = int ia - int oa - skip
       in if delta < int dustLimit + fee then Inr (t1, p)
          else
            let amount = split_amount (rnd p) (delta - fee - skip - int dustLimit) + skip + int dustLimit
            in if k0 = oom E amount then change_loop E rnd k0 (Suc p) (skip + amount) ks t1
               else rbind (key_script E (public_key E k)) (\<lambda>b.
                    rbind (mk_output amount b) (\<lambda>out.
                      change_loop E rnd k0 (Suc p) 0 ks (addOutput out t1))))"

text \<open>One change output when the loop made none and enough is left.\<close>

definition one_change :: "('k, 'p) wallet_env \<Rightarrow> 'k list \<Rightarrow> tx \<Rightarrow> tx res" where
  "one_change E ks t =
     rbind (tx_amounts t) (\<lambda>(ia, oa, t1).
       let amount = int ia - int oa - int ((wallet_size t1 + standardUtxoSize) * minFeePerByte)
       in if amount \<ge> int minimumNewInputAmount
          then (case ks of
                  [] \<Rightarrow> Inl TypeErr
                | k # _ \<Rightarrow> rbind (key_script E (public_key E k)) (\<lambda>b.
                           rmap (\<lambda>out. addOutput out t1) (mk_output amount b)))
          else Inr t1)"

text \<open>What the fee leaves is added to a random output other than the first.\<close>

definition sweep :: "(nat \<Rightarrow> nat) \<Rightarrow> nat \<Rightarrow> tx \<Rightarrow> tx res" where
  "sweep rnd p t =
     rbind (tx_amounts t) (\<lambda>(ia, oa, t1).
       let k = rand_index rnd p (length (outputs t1) - 1) + 1;
           add = int ia - int oa - int (wallet_size t1 * minFeePerByte)
       in rmap (\<lambda>out. t1\<lparr>outputs := (outputs t1)[k := out], cachedOutput := Some (nat (int oa + add))\<rparr>)
            (set_satoshis (int (satoshis (outputs t1 ! k)) + add) (outputs t1 ! k)))"

text \<open>The result is the transaction, the index of its first output and the random numbers drawn.\<close>

definition finalizeTransaction ::
  "('k, 'p) wallet_env \<Rightarrow> (nat \<Rightarrow> nat) \<Rightarrow> nat \<Rightarrow> 'k list \<Rightarrow> 'k list \<Rightarrow> bool \<Rightarrow> tx \<Rightarrow> (tx \<times> nat \<times> nat) res" where
  "finalizeTransaction E rnd p cks keys shuffleChange t =
     (let ks = fst (shuffleArray rnd p cks)
      in case outputs t of
        [] \<Rightarrow> Inl TypeErr
      | out0 # _ \<Rightarrow>
          rbind (change_loop E rnd (oom E (int (satoshis out0))) (p + (length cks - 1)) 0 ks t) (\<lambda>(t1, p1).
          rbind (if length (outputs t1) = 1 then rmap (\<lambda>t2. (t2, p1)) (one_change E ks t1)
                 else rmap (\<lambda>t2. (t2, Suc p1)) (sweep rnd p1 t1)) (\<lambda>(t2, p2).
            let n = length (outputs t2);
                (outs, swaps) = shuffleArray rnd p2 (outputs t2);
                (t3, k, p3) = (if shuffleChange
                               then (t2\<lparr>outputs := outs\<rparr>, the (find_index (\<lambda>v. v = 0) swaps), p2 + (n - 1))
                               else (t2, 0, p2))
            in rmap (\<lambda>t4. (t4, k, p3)) (tx_sign (signer.truncate E) 0 Ecdsa keys t3))))"

section \<open>Coin selection for a set of transactions\<close>

text \<open>The first coin with an id is taken out of the list.\<close>

primrec take_coin :: "string \<Rightarrow> 'k utxo list \<Rightarrow> 'k utxo list" where
  "take_coin i [] = []"
| "take_coin i (u # us) = (if calcUtxoId u = i then us else u # take_coin i us)"

text \<open>The biggest coin below the wanted size, or else the smallest one.\<close>

definition coin_to_use :: "int \<Rightarrow> 'k utxo list \<Rightarrow> 'k utxo" where
  "coin_to_use requisite us =
     (let smaller = filter (\<lambda>u. int (amount_sats u) < requisite) us
      in if smaller \<noteq> [] then last smaller else hd us)"

definition requisite_size :: "nat \<Rightarrow> nat \<Rightarrow> nat \<Rightarrow> nat \<Rightarrow> int" where
  "requisite_size amountLeft maxUsable sats txnSize =
     int (min amountLeft maxUsable) - int sats +
     int ((txnSize + standardUtxoSize + standardInputSize) * maxFeePerByte)"

text \<open>Whether the inputs chosen so far make a transaction: the three tests before \<^verbatim>\<open>break\<close>.\<close>

definition enough_inputs :: "nat \<Rightarrow> nat \<Rightarrow> nat \<Rightarrow> bool" where
  "enough_inputs amountLeft sats txnSize =
     (let fee = (txnSize + standardUtxoSize) * minFeePerByte
      in if sats < dustLimit + fee then False
         else
           let toUse = min amountLeft (sats - fee);
               forChange = int sats - int toUse - int fee
           in if forChange > int ((txnSize + standardUtxoSize) * maxFeePerByte) \<and>
                 forChange < int (dustLimit + standardUtxoSize * minFeePerByte) then False
              else \<not> (0 < amountLeft - toUse \<and> amountLeft - toUse < minimumNewInputAmount))"

lemma take_coin_length: "u \<in> set us \<Longrightarrow> length (take_coin (calcUtxoId u) us) < length us"
  by (induction us) auto

lemma coin_to_use_in: "us \<noteq> [] \<Longrightarrow> coin_to_use r us \<in> set us"
proof -
  assume "us \<noteq> []"
  let ?s = "filter (\<lambda>u. int (amount_sats u) < r) us"
  show ?thesis
  proof (cases "?s = []")
    case False
    then have "last ?s \<in> set ?s" by (rule last_in_set)
    with False show ?thesis by (simp add: coin_to_use_def)
  qed (simp add: coin_to_use_def \<open>us \<noteq> []\<close>)
qed

text \<open>The inner loop; it ends because every round takes a coin.\<close>

function pick_inputs ::
  "('k, 'p) wallet_env \<Rightarrow> nat \<Rightarrow> nat \<Rightarrow> 'k utxo list \<Rightarrow> tx \<Rightarrow> nat \<Rightarrow> 'k utxo list \<Rightarrow>
   (tx \<times> nat \<times> 'k utxo list \<times> 'k utxo list) res" where
  "pick_inputs E amountLeft maxUsable us t sats used =
     (if us = [] then Inl RangeErr
      else
        let u = coin_to_use (requisite_size amountLeft maxUsable sats (wallet_size t)) us;
            us1 = take_coin (calcUtxoId u) us
        in rbind (stage_input E u t) (\<lambda>t1.
           let sats1 = add_double sats (amount_sats u)
           in if enough_inputs amountLeft sats1 (wallet_size t1) then Inr (t1, sats1, used @ [u], us1)
              else pick_inputs E amountLeft maxUsable us1 t1 sats1 (used @ [u])))"
  by pat_completeness auto
termination
  by (relation "measure (\<lambda>(E, l, m, us, t, s, used). length us)")
     (simp_all add: take_coin_length coin_to_use_in)

declare pick_inputs.simps [simp del]

text \<open>
  The invariant rule of the loop: what holds at the start and is kept by every round holds for the
  result, which has passed the tests and has used a coin.
\<close>

lemma pick_inputs_invariant:
  assumes "pick_inputs E l m us t s used = Inr (t1, s1, used1, us1)"
    and "\<And>u us t s used t'. P us t s used \<Longrightarrow> u \<in> set us \<Longrightarrow> stage_input E u t = Inr t' \<Longrightarrow>
      P (take_coin (calcUtxoId u) us) t' (add_double s (amount_sats u)) (used @ [u])"
    and "P us t s used"
  shows "P us1 t1 s1 used1 \<and> enough_inputs l s1 (wallet_size t1) \<and> length us1 < length us"
  using assms
proof (induction E l m us t s used rule: pick_inputs.induct [case_names round])
  case (round E l m us t s used)
  note eq = pick_inputs.simps [of E l m us t s used]
  from round.prems(1) have ne: "us \<noteq> []" by (simp add: eq split: if_splits)
  define u where "u = coin_to_use (requisite_size l m s (wallet_size t)) us"
  let ?s = "add_double s (amount_sats u)" and ?us = "take_coin (calcUtxoId u) us"
  have u: "u \<in> set us" unfolding u_def using ne by (rule coin_to_use_in)
  obtain t' where st: "stage_input E u t = Inr t'"
    using round.prems(1) ne unfolding eq u_def by (auto simp: Let_def elim: rbind_InrE)
  have r: "(if enough_inputs l ?s (wallet_size t') then Inr (t', ?s, used @ [u], ?us)
      else pick_inputs E l m ?us t' ?s (used @ [u])) = Inr (t1, s1, used1, us1)"
    using round.prems(1) ne st unfolding eq by (simp add: Let_def u_def [symmetric])
  have P: "P ?us t' ?s (used @ [u])" by (rule round.prems(2) [OF round.prems(3) u st])
  show ?case
  proof (cases "enough_inputs l ?s (wallet_size t')")
    case True
    with r P u show ?thesis by (auto simp: take_coin_length)
  next
    case False
    with r have rec: "pick_inputs E l m ?us t' ?s (used @ [u]) = Inr (t1, s1, used1, us1)" by simp
    have "P us1 t1 s1 used1 \<and> enough_inputs l s1 (wallet_size t1) \<and> length us1 < length ?us"
      using round.prems(2) P by (rule round.IH [OF ne u_def refl st refl False rec])
    with take_coin_length [OF u] show ?thesis by simp
  qed
qed

lemmas pick_inputs_shorter = pick_inputs_invariant [where P = "\<lambda>_ _ _ _. True", simplified, THEN conjunct2]

section \<open>A set of transactions for an amount\<close>

record 'k tx_bundle =
  b_tx :: tx
  b_vout :: nat
  b_used :: "'k utxo list"

function build_set ::
  "('k, 'p) wallet_env \<Rightarrow> (nat \<Rightarrow> nat) \<Rightarrow> 'k list \<Rightarrow> (nat \<Rightarrow> 'p res) \<Rightarrow> nat \<Rightarrow> nat \<Rightarrow> nat \<Rightarrow> nat \<Rightarrow> 'k utxo list \<Rightarrow>
   'k tx_bundle list res" where
  "build_set E rnd cks addressGenerator maxUsable p number amountLeft us =
     (if amountLeft = 0 then Inr []
      else rbind (pick_inputs E amountLeft maxUsable us new_tx 0 []) (\<lambda>(t, sats, used, us1).
        let toUse = min amountLeft (sats - (wallet_size t + standardUtxoSize) * minFeePerByte)
        in rbind (rbind (addressGenerator number) (key_script E)) (\<lambda>b.
           rbind (mk_output (int toUse) b) (\<lambda>out.
           rbind (finalizeTransaction E rnd p cks (map privKey used) True (addOutput out t)) (\<lambda>(u, k, p1).
             if wallet_size u > maximumTransactionSize then Inl RangeErr
             else rmap (\<lambda>bs. \<lparr>b_tx = u, b_vout = k, b_used = used\<rparr> # bs)
               (build_set E rnd cks addressGenerator maxUsable p1 (Suc number) (amountLeft - toUse) us1))))))"
  by pat_completeness auto
termination
  by (relation "measure (\<lambda>(E, rnd, cks, g, m, p, n, l, us). length us)") (auto dest: pick_inputs_shorter)

declare build_set.simps [simp del]

text \<open>\<^verbatim>\<open>_buildTransactionSetForExplicitAmount\<close> with the two transactions it aims for by default.\<close>

definition buildTransactionSetForExplicitAmount ::
  "('k, 'p) wallet_env \<Rightarrow> (nat \<Rightarrow> nat) \<Rightarrow> 'k list \<Rightarrow> (nat \<Rightarrow> 'p res) \<Rightarrow> nat \<Rightarrow> 'k utxo list \<Rightarrow> 'k tx_bundle list res" where
  "buildTransactionSetForExplicitAmount E rnd cks addressGenerator amount us =
     build_set E rnd cks addressGenerator (max ((amount + 1) div 2) minimumNewInputAmount) 0 0 amount us"

definition usable_coins :: "'k utxo_store \<Rightarrow> 'k utxo list" where
  "usable_coins s = filter (\<lambda>u. \<not> frozen u) (map snd (getUtxoMap s))"

definition freeze_all :: "'k utxo list \<Rightarrow> 'k utxo_store \<Rightarrow> 'k utxo_store" where
  "freeze_all us s = fold freezeById (map calcUtxoId us) s"

definition constructTransactionSet ::
  "('k, 'p) wallet_env \<Rightarrow> (nat \<Rightarrow> nat) \<Rightarrow> (nat \<Rightarrow> 'p res) \<Rightarrow> nat \<Rightarrow> 'k wallet \<Rightarrow> ('k tx_bundle list \<times> 'k wallet) res" where
  "constructTransactionSet E rnd addressGenerator amount w =
     rmap (\<lambda>bs. (bs, w\<lparr>storage := freeze_all (concat (map b_used bs)) (storage w)\<rparr>))
       (buildTransactionSetForExplicitAmount E rnd (changeKeys w) addressGenerator amount
         (sort_key amount_sats (usable_coins (storage w))))"

section \<open>A transaction for given outputs\<close>

text \<open>The loop over the coins: it stops once the sum exceeds the amount and the fee so far.\<close>

primrec add_coins ::
  "('k, 'p) wallet_env \<Rightarrow> nat \<Rightarrow> 'k utxo list \<Rightarrow> tx \<Rightarrow> nat \<Rightarrow> 'k utxo list \<Rightarrow> (tx \<times> nat \<times> 'k utxo list) res" where
  "add_coins E required [] t sats used = Inr (t, sats, used)"
| "add_coins E required (u # us) t sats used =
     (if sats > required + wallet_size t * minFeePerByte then Inr (t, sats, used)
      else rbind (stage_input E u t) (\<lambda>t1.
             add_coins E required us t1 (add_double sats (amount_sats u)) (used @ [u])))"

definition constructTransaction ::
  "('k, 'p) wallet_env \<Rightarrow> (nat \<Rightarrow> nat) \<Rightarrow> tx_output list \<Rightarrow> 'k wallet \<Rightarrow>
   ((tx \<times> 'k utxo list) res) \<times> 'k wallet" where
  "constructTransaction E rnd outs w =
     (let (required, t0) = getOutputAmount (fold addOutput outs new_tx);
          sorted = sort_key (\<lambda>u. - int (amount_sats u)) (usable_coins (storage w));
          bigger = filter (\<lambda>u. amount_sats u \<ge> required +
            (wallet_size t0 + standardUtxoSize + standardInputSize) * minFeePerByte) sorted
      in case add_coins E required (if bigger \<noteq> [] then [last bigger] else sorted) t0 0 [] of
           Inl e \<Rightarrow> (Inl e, w)
         | Inr (t, sats, used) \<Rightarrow>
             if sats < required then (Inl (PlainError ''insufficient funds''), w)
             else (rbind (finalizeTransaction E rnd 0 (changeKeys w) (map privKey used) False t) (\<lambda>(u, _, _).
                     rmap (\<lambda>_. (u, used)) (estimateSize u)),
                   w\<lparr>storage := freeze_all used (storage w)\<rparr>))"

section \<open>Forwarding coins\<close>

primrec stage_coins ::
  "('k, 'p) wallet_env \<Rightarrow> bool \<Rightarrow> 'k utxo_store \<Rightarrow> 'k utxo list \<Rightarrow> tx \<Rightarrow> nat \<Rightarrow> 'k utxo list \<Rightarrow>
   (tx \<times> nat \<times> 'k utxo list) res" where
  "stage_coins E allowUnstored s [] t sats used = Inr (t, sats, used)"
| "stage_coins E allowUnstored s (c # cs) t sats used =
     (case (getById (calcUtxoId c) s, allowUnstored) of
        (None, False) \<Rightarrow> stage_coins E allowUnstored s cs t sats used
      | (o1, _) \<Rightarrow>
          let u = (case o1 of Some u \<Rightarrow> u | None \<Rightarrow> c)
          in rbind (stage_input E u t) (\<lambda>t1.
               stage_coins E allowUnstored s cs t1 (add_double sats (amount_sats u)) (used @ [u])))"

text \<open>
  The transaction that pays all coins to one key, before it is sent; \<open>None\<close> if there are no coins.
\<close>

definition forward_tx ::
  "('k, 'p) wallet_env \<Rightarrow> bool \<Rightarrow> 'k utxo list \<Rightarrow> 'p \<Rightarrow> 'k utxo_store \<Rightarrow> (tx \<times> 'k utxo list) option res" where
  "forward_tx E allowUnstored cs pubkey s =
     rbind (stage_coins E allowUnstored s cs new_tx 0 []) (\<lambda>(t, sats, used).
       if used = [] then Inr None
       else rbind (key_script E pubkey) (\<lambda>b.
            rbind (mk_output (int sats - int ((wallet_size t + 35) * minFeePerByte)) b) (\<lambda>out.
            rmap (\<lambda>u. Some (u, used))
              (tx_sign (signer.truncate E) 0 Ecdsa (map privKey used) (addOutput out t)))))"

text \<open>After the broadcast: the coins are deleted, or repaired before the error is thrown.\<close>

definition forward_done ::
  "bool \<Rightarrow> (string \<Rightarrow> string set res) \<Rightarrow> 'k utxo list \<Rightarrow> 'k utxo_store \<Rightarrow> 'k utxo_store \<times> js_error option" where
  "forward_done sent answers used s =
     (if sent then (fold deleteById (map calcUtxoId used) s, None)
      else case fixUtxos answers used s of
        Inl e \<Rightarrow> (s, Some e)
      | Inr s1 \<Rightarrow> (s1, Some (PlainError ''Error broadcasting forwarding transaction'')))"

end
