(* ===== verification/Doubles.thy ===== *)
theory Doubles
  imports BigNum
begin

text \<open>
  Facts about rounding a natural number to a double: it is monotone, exact on numbers with at most
  53 significant bits, and so cannot leave an interval with such bounds.
\<close>

lemma double_shift_less: "x < 2 ^ 53 * 2 ^ double_shift x"
proof (induction x rule: double_shift.induct)
  case (1 x)
  show ?case
  proof (cases "x < 2 ^ 53")
    case False
    then have "double_shift x = Suc (double_shift (x div 2))" by (subst double_shift.simps) simp
    with False "1.IH" show ?thesis by simp
  qed (subst double_shift.simps, simp)
qed

lemma double_shift_bounds: "double_shift x = 0 \<and> x < 2 ^ 53 \<or>
    0 < double_shift x \<and> 2 ^ 52 \<le> x div 2 ^ double_shift x \<and> x div 2 ^ double_shift x < 2 ^ 53"
proof (cases "x < 2 ^ 53")
  case True
  then show ?thesis by (subst double_shift.simps) simp
next
  case False
  then show ?thesis
    using double_shift_pos [of x] double_shift_quotient [of x] double_shift_less [of x]
    by (simp add: less_mult_imp_div_less)
qed

lemma double_shift_mono: "x \<le> y \<Longrightarrow> double_shift x \<le> double_shift y"
proof (rule ccontr)
  assume xy: "x \<le> y" and "\<not> double_shift x \<le> double_shift y"
  then have k: "Suc (double_shift y) \<le> double_shift x" by simp
  with double_shift_bounds [of x] have "2 ^ 52 \<le> x div 2 ^ double_shift x" by auto
  then have "2 ^ 52 * 2 ^ double_shift x \<le> x"
    by (metis div_times_less_eq_dividend mult_le_mono1 order_trans)
  moreover have "(2 :: nat) ^ 52 * 2 ^ Suc (double_shift y) \<le> 2 ^ 52 * 2 ^ double_shift x"
    using k by (intro mult_le_mono2 power_increasing) simp_all
  moreover have "y < 2 ^ 53 * 2 ^ double_shift y" by (rule double_shift_less)
  ultimately show False using xy by simp
qed

text \<open>Rounding stays between the neighbours on the grid.\<close>

lemma to_double_grid:
  "x div 2 ^ double_shift x * 2 ^ double_shift x \<le> to_double x \<and>
   to_double x \<le> (x div 2 ^ double_shift x + 1) * 2 ^ double_shift x"
  by (auto simp: to_double_def Let_def)

lemma to_double_mono: "x \<le> y \<Longrightarrow> to_double x \<le> to_double y"
proof -
  assume xy: "x \<le> y"
  let ?k = "double_shift x" and ?l = "double_shift y"
  show ?thesis
  proof (cases "?k = ?l")
    case False
    with double_shift_mono [OF xy] have kl: "Suc ?k \<le> ?l" by simp
    with double_shift_bounds [of y] have "2 ^ 52 \<le> y div 2 ^ ?l" by auto
    moreover have "x div 2 ^ ?k + 1 \<le> 2 ^ 53" using double_shift_bounds [of x] by auto
    then have "(x div 2 ^ ?k + 1) * 2 ^ ?k \<le> 2 ^ 53 * 2 ^ ?k" by (rule mult_le_mono1)
    moreover have "(2 :: nat) ^ 53 * 2 ^ ?k = 2 ^ 52 * 2 ^ Suc ?k" by simp
    moreover have "(2 :: nat) ^ 52 * 2 ^ Suc ?k \<le> 2 ^ 52 * 2 ^ ?l"
      using kl by (intro mult_le_mono2 power_increasing) simp_all
    moreover have "2 ^ 52 * 2 ^ ?l \<le> y div 2 ^ ?l * 2 ^ ?l" using calculation(1) by (rule mult_le_mono1)
    ultimately show ?thesis using to_double_grid [of x] to_double_grid [of y] by linarith
  next
    case True
    have q: "x div 2 ^ ?k \<le> y div 2 ^ ?k" using xy by (rule div_le_mono)
    show ?thesis
    proof (cases "x div 2 ^ ?k = y div 2 ^ ?k")
      case same: True
      have "x mod 2 ^ ?k \<le> y mod 2 ^ ?k"
        using xy same by (metis add_le_cancel_left div_mult_mod_eq)
      with True same xy show ?thesis by (auto simp: to_double_def Let_def)
    next
      case False
      with q have "(x div 2 ^ ?k + 1) * 2 ^ ?k \<le> y div 2 ^ ?k * 2 ^ ?k" by (intro mult_le_mono1) simp
      then show ?thesis using to_double_grid [of x] to_double_grid [of y] True by simp
    qed
  qed
qed

lemma double_shift_le: "m < 2 ^ 53 \<Longrightarrow> double_shift (m * 2 ^ k) \<le> k"
proof (induction k)
  case 0
  then show ?case by (subst double_shift.simps) simp
next
  case (Suc k)
  show ?case
  proof (cases "m * 2 ^ Suc k < 2 ^ 53")
    case True
    then show ?thesis by (subst double_shift.simps) simp
  next
    case False
    then have "double_shift (m * 2 ^ Suc k) = Suc (double_shift (m * 2 ^ k))"
      by (subst double_shift.simps) simp
    with Suc show ?thesis by simp
  qed
qed

lemma to_double_scaled [simp]: "m < 2 ^ 53 \<Longrightarrow> to_double (m * 2 ^ k) = m * 2 ^ k"
proof -
  assume "m < 2 ^ 53"
  then obtain d where "k = double_shift (m * 2 ^ k) + d" using double_shift_le [of m k] le_Suc_ex by blast
  then have "2 ^ double_shift (m * 2 ^ k) dvd m * 2 ^ k" by (metis dvd_triv_left dvd_mult power_add)
  then show ?thesis by (simp add: to_double_def Let_def dvd_imp_mod_0)
qed

lemma to_double_zero [simp]: "to_double 0 = 0"
  by simp

text \<open>A product of a double below 1 and a whole number rounds to less than that number.\<close>

lemma to_double_fraction:
  assumes "r < 2 ^ 53" and "0 < n" and "n < 2 ^ 53"
  shows "to_double (r * n) < 2 ^ 53 * n"
proof -
  let ?x = "r * n" and ?k = "double_shift (r * n)"
  have x: "?x + n \<le> 2 ^ 53 * n" using assms(1) mult_le_mono1 [of "Suc r" "2 ^ 53" n] by simp
  show ?thesis
  proof (cases "?k = 0")
    case True
    then show ?thesis using x assms(2) by (simp add: to_double_def)
  next
    case False
    then obtain j where j: "?k = Suc j" by (cases ?k) auto
    define q where "q = ?x div 2 ^ ?k"
    define m where "m = ?x mod 2 ^ ?k"
    have xq: "?x = q * 2 ^ ?k + m" by (simp only: q_def m_def div_mult_mod_eq)
    have q: "2 ^ 52 \<le> q" using double_shift_bounds [of ?x] False by (auto simp: q_def)
    text \<open>Rounding up means the remainder is at least half the grid, and then \<open>n\<close> is above it.\<close>
    have half: "2 ^ j < n"
    proof -
      have "2 ^ 52 * 2 ^ ?k \<le> ?x" using q xq mult_le_mono1 [OF q, of "2 ^ ?k"] by linarith
      with x assms(2) have "2 ^ 52 * 2 ^ ?k < 2 ^ 53 * n" by linarith
      then show ?thesis by (simp add: j)
    qed
    show ?thesis
    proof (cases "to_double ?x = q * 2 ^ ?k")
      case True
      then show ?thesis using xq x assms(2) by linarith
    next
      case up: False
      then have d: "to_double ?x = (q + 1) * 2 ^ ?k" and m: "2 ^ j \<le> m"
        using False by (auto simp: to_double_def Let_def q_def m_def j split: if_splits)
      have "to_double ?x = ?x - m + 2 ^ ?k" using d xq by simp
      moreover have "?x - m + 2 ^ ?k \<le> ?x + 2 ^ j" using m xq j by simp
      ultimately show ?thesis using half x by linarith
    qed
  qed
qed

end
