(* ===== verification/WalletResults.thy ===== *)
theory WalletResults
  imports WalletBuild Doubles "HOL-Library.Multiset"
begin

text \<open>
  Correctness of the spending side of the wallet: what shuffling, change outputs, coin selection and
  the construction of transaction sets guarantee.  The lemmas follow the calls: randomness, amounts
  of a transaction, the change loop, the finished transaction, coin selection, sets.
\<close>

section \<open>Randomness\<close>

text \<open>Every draw is below 1.\<close>

definition random_ok :: "(nat \<Rightarrow> nat) \<Rightarrow> bool" where
  "random_ok rnd \<longleftrightarrow> (\<forall>p. rnd p < 2 ^ 53)"

lemma rand_index_less: "random_ok rnd \<Longrightarrow> 0 < n \<Longrightarrow> n < 2 ^ 53 \<Longrightarrow> rand_index rnd p n < n"
  using to_double_fraction [of "rnd p" n]
  by (simp add: rand_index_def random_ok_def less_mult_imp_div_less mult.commute)

lemma length_swap [simp]: "length (swap i j xs) = length xs"
  by (simp add: swap_def)

lemma nth_swap: "i < length xs \<Longrightarrow> j < length xs \<Longrightarrow>
    swap i j xs ! k = (if k = j then xs ! i else if k = i then xs ! j else xs ! k)"
  by (auto simp: swap_def nth_list_update)

lemma mset_swap_list: "i < length xs \<Longrightarrow> j < length xs \<Longrightarrow> mset (swap i j xs) = mset xs"
  unfolding swap_def by (metis mset_swap)

lemma map_swap: "i < length xs \<Longrightarrow> j < length xs \<Longrightarrow> map f (swap i j xs) = swap i j (map f xs)"
  by (simp add: swap_def map_update)

lemma length_shuffle_from [simp]: "length (shuffle_from rnd p i xs) = length xs"
  by (induction i arbitrary: p xs) simp_all

lemma shuffle_index: "random_ok rnd \<Longrightarrow> Suc i < length xs \<Longrightarrow> length xs < 2 ^ 53 \<Longrightarrow> rand_index rnd p (Suc i) < Suc i"
  by (rule rand_index_less) simp_all

lemma mset_shuffle_from: "random_ok rnd \<Longrightarrow> i < length xs \<Longrightarrow> length xs < 2 ^ 53 \<Longrightarrow> mset (shuffle_from rnd p i xs) = mset xs"
proof (induction i arbitrary: p xs)
  case (Suc i)
  then show ?case using shuffle_index [of rnd i xs p] by (simp add: mset_swap_list)
qed simp

lemma map_shuffle_from: "random_ok rnd \<Longrightarrow> i < length xs \<Longrightarrow> length xs < 2 ^ 53 \<Longrightarrow>
    map f (shuffle_from rnd p i xs) = shuffle_from rnd p i (map f xs)"
proof (induction i arbitrary: p xs)
  case (Suc i)
  then show ?case using shuffle_index [of rnd i xs p] by (simp add: map_swap)
qed simp

text \<open>Positions above the loop index are not touched.\<close>

lemma shuffle_from_above: "random_ok rnd \<Longrightarrow> i < k \<Longrightarrow> k < length xs \<Longrightarrow> length xs < 2 ^ 53 \<Longrightarrow> shuffle_from rnd p i xs ! k = xs ! k"
proof (induction i arbitrary: p xs)
  case (Suc i)
  then show ?case using shuffle_index [of rnd i xs p] by (simp add: nth_swap)
qed simp

text \<open>The element that starts at index 0 never ends there.\<close>

lemma shuffle_from_moves_first: "random_ok rnd \<Longrightarrow> 0 < i \<Longrightarrow> i < length xs \<Longrightarrow> length xs < 2 ^ 53 \<Longrightarrow> distinct xs \<Longrightarrow>
    shuffle_from rnd p i xs ! 0 \<noteq> xs ! 0"
proof (induction i arbitrary: p xs)
  case (Suc i)
  let ?j = "rand_index rnd p (Suc i)"
  let ?ys = "swap (Suc i) ?j xs"
  have ne: "xs \<noteq> []" using Suc.prems by auto
  have j: "?j < Suc i" using Suc.prems by (intro shuffle_index) simp_all
  have d: "distinct ?ys" using Suc.prems j mset_swap_list [of "Suc i" xs ?j]
    by (metis less_trans mset_eq_imp_distinct_iff)
  show ?case
  proof (cases "?j = 0")
    case True
    text \<open>The first element has gone to a position that stays as it is.\<close>
    have "?ys ! Suc i = xs ! 0" using Suc.prems True by (subst nth_swap) auto
    then have "shuffle_from rnd (Suc p) i ?ys ! Suc i = xs ! 0"
      using Suc.prems by (simp add: shuffle_from_above)
    moreover have "distinct (shuffle_from rnd (Suc p) i ?ys)"
      using d Suc.prems mset_shuffle_from [of rnd i ?ys "Suc p"] mset_eq_imp_distinct_iff by (metis Suc_lessD length_swap)
    ultimately show ?thesis
      using ne Suc.prems nth_eq_iff_index_eq [of "shuffle_from rnd (Suc p) i ?ys" 0 "Suc i"] by simp
  next
    case False
    then have "0 < i" using j by simp
    from Suc.IH [OF Suc.prems(1) this, of ?ys] d ne Suc.prems False j show ?thesis by (simp add: nth_swap)
  qed
qed simp

lemma find_index_Some: "find_index P xs = Some k \<Longrightarrow> k < length xs \<and> P (xs ! k)"
  by (induction xs arbitrary: k) (auto split: if_splits)

lemma find_index_None: "find_index P xs = None \<longleftrightarrow> (\<forall>x \<in> set xs. \<not> P x)"
  by (induction xs) auto

lemma random_split_le: "r < 2 ^ 53 \<Longrightarrow> random_split r \<le> 2 ^ 107"
proof -
  assume "r < 2 ^ 53"
  then have "r * 3602879701896397 \<le> 3602879701896397 * 2 ^ 53" by simp
  then have "to_double (r * 3602879701896397) \<le> to_double (3602879701896397 * 2 ^ 53)" by (rule to_double_mono)
  also have "to_double (3602879701896397 * 2 ^ 53) = 3602879701896397 * 2 ^ 53" by (rule to_double_scaled) simp
  finally have "to_double (r * 3602879701896397) + 7205759403792794 * 2 ^ 53 \<le> 1 * 2 ^ 107" by simp
  then have "random_split r \<le> to_double (1 * 2 ^ 107)" unfolding random_split_def by (rule to_double_mono)
  also have "to_double (1 * 2 ^ 107) = 1 * 2 ^ 107" by (rule to_double_scaled) simp
  finally show ?thesis by simp
qed

lemma split_product: "r < 2 ^ 53 \<Longrightarrow> n < 2 ^ 53 \<Longrightarrow> to_double (random_split r * n) \<le> n * 2 ^ 107"
proof -
  assume r: "r < 2 ^ 53" and n: "n < 2 ^ 53"
  have "random_split r * n \<le> 2 ^ 107 * n" by (rule mult_le_mono1) (rule random_split_le [OF r])
  then have "to_double (random_split r * n) \<le> to_double (n * 2 ^ 107)" by (intro to_double_mono) (simp add: mult.commute)
  with to_double_scaled [OF n, of 107] show ?thesis by simp
qed

text \<open>The random part of a positive amount lies between nothing and all of it, and likewise below zero.\<close>

lemma split_amount_bounds:
  assumes "r < 2 ^ 53" and "\<bar>x\<bar> < 2 ^ 53"
  shows "0 \<le> x \<Longrightarrow> 0 \<le> split_amount r x \<and> split_amount r x \<le> x"
    and "x < 0 \<Longrightarrow> x \<le> split_amount r x \<and> split_amount r x \<le> 0"
proof -
  have ceil: "(m + 2 ^ 107 - 1) div 2 ^ 107 \<le> n" if "m \<le> n * 2 ^ 107" for m n :: nat
  proof -
    have "m + 2 ^ 107 - 1 < Suc n * 2 ^ 107" using that by simp
    then have "(m + 2 ^ 107 - 1) div 2 ^ 107 < Suc n" by (rule less_mult_imp_div_less)
    then show ?thesis by simp
  qed
  {
    assume x: "0 \<le> x"
    then have "nat x < 2 ^ 53" using assms(2) by (simp add: nat_less_iff)
    from ceil [OF split_product [OF assms(1) this]] x show "0 \<le> split_amount r x \<and> split_amount r x \<le> x"
      by (simp add: split_amount_def le_nat_iff del: div_le_dividend)
  }
  {
    assume x: "x < 0"
    then have "nat (- x) < 2 ^ 53" using assms(2) by (simp add: nat_less_iff)
    from div_le_mono [OF split_product [OF assms(1) this], of "2 ^ 107"] x
    show "x \<le> split_amount r x \<and> split_amount r x \<le> 0" by (simp add: split_amount_def le_nat_iff)
  }
qed

section \<open>Amounts of a transaction\<close>

definition input_sats :: "tx_input \<Rightarrow> nat" where
  "input_sats i = (case in_output i of None \<Rightarrow> 0 | Some out \<Rightarrow> satoshis out)"

definition in_sum :: "tx \<Rightarrow> nat" where
  "in_sum t = sum_list (map input_sats (inputs t))"

definition out_sum :: "tx \<Rightarrow> nat" where
  "out_sum t = sum_list (map satoshis (outputs t))"

text \<open>The outputs spent are known, the sums are exact and the cached sums are theirs.\<close>

definition amounts_ok :: "tx \<Rightarrow> bool" where
  "amounts_ok t \<longleftrightarrow> hasAllUtxoInfo t \<and> in_sum t < 2 ^ 53 \<and> out_sum t < 2 ^ 53 \<and>
     (cachedInput t = None \<or> cachedInput t = Some (in_sum t)) \<and>
     (cachedOutput t = None \<or> cachedOutput t = Some (out_sum t))"

lemma foldl_add_double: "a + sum_list (map satoshis outs) < 2 ^ 53 \<Longrightarrow>
    foldl (\<lambda>a out. add_double a (satoshis out)) a outs = a + sum_list (map satoshis outs)"
  by (induction outs arbitrary: a) (simp_all add: add_double_def)

lemma sum_inputs_exact: "list_all (\<lambda>i. in_output i \<noteq> None) is \<Longrightarrow> a + sum_list (map input_sats is) < 2 ^ 53 \<Longrightarrow>
    sum_inputs a is = Inr (a + sum_list (map input_sats is))"
  by (induction "is" arbitrary: a) (auto simp: add_double_def input_sats_def)

lemma tx_amounts_eq: "amounts_ok t \<Longrightarrow>
    tx_amounts t = Inr (in_sum t, out_sum t, t\<lparr>cachedInput := Some (in_sum t), cachedOutput := Some (out_sum t)\<rparr>)"
  using sum_inputs_exact [of "inputs t" 0] foldl_add_double [of 0 "outputs t"]
  by (cases "cachedInput t"; cases "cachedOutput t")
    (auto simp: amounts_ok_def tx_amounts_def getInputAmount_def getOutputAmount_def hasAllUtxoInfo_def
      in_sum_def out_sum_def Let_def)

lemma amounts_ok_cached: "amounts_ok t \<Longrightarrow>
    amounts_ok (t\<lparr>cachedInput := Some (in_sum t), cachedOutput := Some (out_sum t)\<rparr>)"
  by (simp add: amounts_ok_def in_sum_def out_sum_def hasAllUtxoInfo_def)

lemma addOutput_simps [simp]:
  "inputs (addOutput out t) = inputs t" "outputs (addOutput out t) = outputs t @ [out]"
  "cachedInput (addOutput out t) = cachedInput t" "cachedOutput (addOutput out t) = None"
  by (simp_all add: addOutput_def)

lemma amounts_ok_addOutput: "amounts_ok t \<Longrightarrow> out_sum t + satoshis out < 2 ^ 53 \<Longrightarrow> amounts_ok (addOutput out t)"
  by (simp add: amounts_ok_def in_sum_def out_sum_def hasAllUtxoInfo_def)

lemma mk_output_Inr: "mk_output n b = Inr out \<longleftrightarrow>
    0 \<le> n \<and> n < 2 ^ 53 \<and> out = \<lparr>satoshis = nat n, satoshisBN = nat n, out_script = b\<rparr>"
  by (auto simp: mk_output_def set_satoshis_def rbind_Inr_iff)

section \<open>Change\<close>

text \<open>
  What the loop over the change keys guarantees: it only appends outputs of at least the dust
  limit, and once it has appended one the rest covers the fee up to two satoshis.
\<close>

definition covers_fee :: "tx \<Rightarrow> bool" where
  "covers_fee t \<longleftrightarrow> int (in_sum t) - int (out_sum t) \<ge> 2 * int (wallet_size t) - 2"

definition extends :: "tx \<Rightarrow> tx \<Rightarrow> bool" where
  "extends t u \<longleftrightarrow> inputs u = inputs t \<and>
     (\<exists>outs. outputs u = outputs t @ outs \<and> list_all (\<lambda>out. satoshis out \<ge> dustLimit) outs \<and> (outs \<noteq> [] \<longrightarrow> covers_fee u))"

lemma covers_fee_cong: "inputs u = inputs t \<Longrightarrow> outputs u = outputs t \<Longrightarrow> covers_fee u = covers_fee t"
  by (simp add: covers_fee_def in_sum_def out_sum_def wallet_size_def)

lemma extends_refl: "inputs u = inputs t \<Longrightarrow> outputs u = outputs t \<Longrightarrow> extends t u"
  by (simp add: extends_def)

lemma extends_trans: "extends t u \<Longrightarrow> extends u v \<Longrightarrow> extends t v"
proof -
  assume "extends t u" and "extends u v"
  then obtain a b where i: "inputs u = inputs t" "inputs v = inputs u"
    and a: "outputs u = outputs t @ a" "list_all (\<lambda>out. satoshis out \<ge> dustLimit) a" "a \<noteq> [] \<longrightarrow> covers_fee u"
    and b: "outputs v = outputs u @ b" "list_all (\<lambda>out. satoshis out \<ge> dustLimit) b" "b \<noteq> [] \<longrightarrow> covers_fee v"
    unfolding extends_def by blast
  have "a @ b \<noteq> [] \<longrightarrow> covers_fee v"
    using a(3) b(1,3) covers_fee_cong [OF i(2)] by (cases "b = []") auto
  with i a b show ?thesis unfolding extends_def by auto
qed

lemma change_amount_bounds:
  fixes fee skip :: int
  assumes "r < 2 ^ 53" and "0 \<le> skip" and "0 \<le> fee" and "rest < 2 ^ 53"
    and "rest - skip \<ge> int dustLimit + fee"
  defines "amount \<equiv> split_amount r (rest - skip - fee - skip - int dustLimit) + skip + int dustLimit"
  shows "int dustLimit \<le> amount \<and> amount \<le> rest - fee"
proof -
  let ?x = "rest - skip - fee - skip - int dustLimit"
  have "\<bar>?x\<bar> < 2 ^ 53" using assms(2-5) by (simp add: dustLimit_def)
  note b = split_amount_bounds [OF assms(1) this]
  show ?thesis
    using b assms(2-5) unfolding amount_def by (cases "0 \<le> ?x") (auto simp: dustLimit_def)
qed

lemma change_loop_spec:
  assumes "random_ok rnd" and "amounts_ok t" and "0 \<le> skip" and "change_loop E rnd k0 p skip ks t = Inr (u, p1)"
  shows "amounts_ok u \<and> extends t u"
  using assms(2-4)
proof (induction ks arbitrary: t skip p)
  case Nil
  then show ?case by (auto intro: extends_refl)
next
  case (Cons k ks)
  define t1 where "t1 = t\<lparr>cachedInput := Some (in_sum t), cachedOutput := Some (out_sum t)\<rparr>"
  define fee where "fee = int ((wallet_size t1 + standardUtxoSize) * minFeePerByte)"
  define rest where "rest = int (in_sum t) - int (out_sum t)"
  define amount where
    "amount = split_amount (rnd p) (rest - skip - fee - skip - int dustLimit) + skip + int dustLimit"
  have ok1: "amounts_ok t1" unfolding t1_def using Cons.prems(1) by (rule amounts_ok_cached)
  have e1: "extends t t1" by (rule extends_refl) (simp_all add: t1_def)
  have r: "(if rest - skip < int dustLimit + fee then Inr (t1, p)
      else if k0 = oom E amount then change_loop E rnd k0 (Suc p) (skip + amount) ks t1
      else rbind (key_script E (public_key E k)) (\<lambda>b. rbind (mk_output amount b) (\<lambda>out.
        change_loop E rnd k0 (Suc p) 0 ks (addOutput out t1)))) = Inr (u, p1)"
    using Cons.prems(3)
    by (simp only: change_loop.simps tx_amounts_eq [OF Cons.prems(1)] rbind_simps prod.case Let_def
        flip: t1_def fee_def rest_def amount_def)
  show ?case
  proof (cases "rest - skip < int dustLimit + fee")
    case True
    with r ok1 e1 show ?thesis by simp
  next
    case False
    have bounds: "int dustLimit \<le> amount \<and> amount \<le> rest - fee"
      unfolding amount_def
      using assms(1) Cons.prems(1,2) False
      by (intro change_amount_bounds) (auto simp: random_ok_def rest_def fee_def amounts_ok_def dustLimit_def)
    show ?thesis
    proof (cases "k0 = oom E amount")
      case True
      then have "change_loop E rnd k0 (Suc p) (skip + amount) ks t1 = Inr (u, p1)" using r False by simp
      from Cons.IH [OF ok1 _ this] e1 bounds Cons.prems(2) show ?thesis
        using extends_trans by (simp add: dustLimit_def)
    next
      case no: False
      then obtain b out where out: "mk_output amount b = Inr out"
        and c: "change_loop E rnd k0 (Suc p) 0 ks (addOutput out t1) = Inr (u, p1)"
        using r False by (auto elim!: rbind_InrE)
      have s: "int (satoshis out) = amount" using out bounds by (auto simp: mk_output_Inr)
      have sums: "in_sum t1 = in_sum t" "out_sum t1 = out_sum t" "in_sum (addOutput out t1) = in_sum t"
        "out_sum (addOutput out t1) = out_sum t + satoshis out"
        by (simp_all add: t1_def in_sum_def out_sum_def)
      have "out_sum t1 + satoshis out < 2 ^ 53"
        using s bounds Cons.prems(1) sums by (simp add: rest_def fee_def amounts_ok_def wallet_constants)
      then have ok2: "amounts_ok (addOutput out t1)" using ok1 by (rule amounts_ok_addOutput [rotated])
      have "covers_fee (addOutput out t1)"
        using s bounds sums
        by (simp add: covers_fee_def rest_def fee_def wallet_size_def wallet_constants)
      then have "extends t1 (addOutput out t1)" using s bounds by (simp add: extends_def)
      with e1 Cons.IH [OF ok2 _ c] show ?thesis using extends_trans by (metis order_refl)
    qed
  qed
qed

lemma one_change_spec:
  assumes "amounts_ok t" and "one_change E ks t = Inr u"
  shows "amounts_ok u \<and> extends t u \<and> length (outputs u) \<le> Suc (length (outputs t)) \<and>
    (if outputs u = outputs t
     then int (in_sum u) - int (out_sum u) < 2 * (int (wallet_size u) + 34) + 5120
     else int (in_sum u) - int (out_sum u) = 2 * int (wallet_size u) - 2)"
proof -
  define t1 where "t1 = t\<lparr>cachedInput := Some (in_sum t), cachedOutput := Some (out_sum t)\<rparr>"
  define amount where "amount = int (in_sum t) - int (out_sum t) - int ((wallet_size t1 + standardUtxoSize) * minFeePerByte)"
  have ok1: "amounts_ok t1" unfolding t1_def using assms(1) by (rule amounts_ok_cached)
  have sums: "in_sum t1 = in_sum t" "out_sum t1 = out_sum t" "inputs t1 = inputs t" "outputs t1 = outputs t"
    by (simp_all add: t1_def in_sum_def out_sum_def)
  have r: "(if amount \<ge> int minimumNewInputAmount
      then (case ks of [] \<Rightarrow> Inl TypeErr
            | k # _ \<Rightarrow> rbind (key_script E (public_key E k)) (\<lambda>b. rmap (\<lambda>out. addOutput out t1) (mk_output amount b)))
      else Inr t1) = Inr u"
    using assms(2)
    by (simp only: one_change_def tx_amounts_eq [OF assms(1)] rbind_simps prod.case Let_def flip: t1_def amount_def)
  show ?thesis
  proof (cases "amount \<ge> int minimumNewInputAmount")
    case False
    with r have "u = t1" by simp
    with False ok1 sums show ?thesis
      by (simp add: extends_refl amount_def wallet_constants)
  next
    case True
    with r obtain b out where out: "mk_output amount b = Inr out" and u: "u = addOutput out t1"
      by (auto simp: rmap_Inr_iff elim!: rbind_InrE split: list.splits)
    have s: "int (satoshis out) = amount" using out by (auto simp: mk_output_Inr)
    have "out_sum t1 + satoshis out < 2 ^ 53"
      using s assms(1) sums by (simp add: amount_def amounts_ok_def wallet_constants)
    then have "amounts_ok u" unfolding u using ok1 by (rule amounts_ok_addOutput [rotated])
    moreover have fee: "int (in_sum u) - int (out_sum u) = 2 * int (wallet_size u) - 2"
      using s sums by (simp add: u in_sum_def out_sum_def amount_def wallet_size_def wallet_constants)
    moreover have "extends t u"
      using True s sums(3,4) fee unfolding extends_def u
      by (simp add: covers_fee_def dustLimit_def minimumNewInputAmount_def)
    ultimately show ?thesis using sums(4) by (simp add: u)
  qed
qed

lemma out_sum_update: "k < length outs \<Longrightarrow>
    int (sum_list (map satoshis (outs[k := out]))) =
      int (sum_list (map satoshis outs)) - int (satoshis (outs ! k)) + int (satoshis out)"
  by (induction outs arbitrary: k) (auto split: nat.split)

text \<open>The sweep makes the fee exact and touches one output, never the first.\<close>

lemma sweep_spec:
  assumes "random_ok rnd" and "amounts_ok t" and "2 \<le> length (outputs t)" and "length (outputs t) < 2 ^ 53"
    and "sweep rnd p t = Inr u"
  shows "inputs u = inputs t \<and> int (in_sum u) - int (out_sum u) = 2 * int (wallet_size u) \<and>
    length (outputs u) = length (outputs t) \<and>
    (\<exists>k add. 1 \<le> k \<and> k < length (outputs t) \<and> (\<forall>j. j \<noteq> k \<longrightarrow> outputs u ! j = outputs t ! j) \<and>
      out_script (outputs u ! k) = out_script (outputs t ! k) \<and>
      int (satoshis (outputs u ! k)) = int (satoshis (outputs t ! k)) + add \<and>
      add = int (in_sum t) - int (out_sum t) - 2 * int (wallet_size t))"
proof -
  define t1 where "t1 = t\<lparr>cachedInput := Some (in_sum t), cachedOutput := Some (out_sum t)\<rparr>"
  define k where "k = rand_index rnd p (length (outputs t1) - 1) + 1"
  define add where "add = int (in_sum t) - int (out_sum t) - int (wallet_size t1 * minFeePerByte)"
  have o: "outputs t1 = outputs t" "inputs t1 = inputs t" by (simp_all add: t1_def)
  have k: "1 \<le> k" "k < length (outputs t)"
  proof -
    have "rand_index rnd p (length (outputs t) - 1) < length (outputs t) - 1"
      by (rule rand_index_less [OF assms(1)]) (use assms(3,4) in linarith)+
    then show "1 \<le> k" "k < length (outputs t)" by (simp_all add: k_def o)
  qed
  from assms(5) obtain out
    where out: "set_satoshis (int (satoshis (outputs t ! k)) + add) (outputs t ! k) = Inr out"
      and u: "u = t1\<lparr>outputs := (outputs t)[k := out], cachedOutput := Some (nat (int (out_sum t) + add))\<rparr>"
    by (simp only: sweep_def tx_amounts_eq [OF assms(2)] rbind_simps prod.case Let_def rmap_Inr_iff
        flip: t1_def k_def add_def) (auto simp: o)
  have s: "int (satoshis out) = int (satoshis (outputs t ! k)) + add" "out_script out = out_script (outputs t ! k)"
    using out by (auto simp: set_satoshis_def rbind_Inr_iff split: if_splits)
  have "int (in_sum u) - int (out_sum u) = 2 * int (wallet_size u)"
    using out_sum_update [OF k(2), of out] s
    by (simp add: u in_sum_def out_sum_def add_def wallet_size_def t1_def wallet_constants)
  then show ?thesis
    using k s by (auto simp: u o add_def wallet_size_def wallet_constants intro!: exI [of _ k])
qed

section \<open>The finished transaction\<close>

lemma change_loop_length: "change_loop E rnd k0 p skip ks t = Inr (u, p1) \<Longrightarrow>
    length (outputs u) \<le> length (outputs t) + length ks"
proof (induction ks arbitrary: t skip p)
  case (Cons k ks)
  obtain ia oa t1 where a: "tx_amounts t = Inr (ia, oa, t1)" using Cons.prems by (auto elim!: rbind_InrE)
  then have "outputs t1 = outputs t"
    by (auto simp: tx_amounts_def rmap_Inr_iff getInputAmount_def getOutputAmount_def Let_def split: option.splits)
  with Cons.prems a Cons.IH show ?case
    by (fastforce simp: Let_def split: if_splits elim!: rbind_InrE)
qed simp

lemma same_but_scripts_facts:
  assumes "same_but_scripts t u"
  shows "outputs u = outputs t" and "in_sum u = in_sum t" and "out_sum u = out_sum t" and "wallet_size u = wallet_size t"
proof -
  have "map input_sats (map (in_script_update (\<lambda>_. [])) is) = map input_sats is" for "is"
    by (simp add: input_sats_def)
  then have i: "map input_sats (inputs u) = map input_sats (inputs t)"
    using assms unfolding same_but_scripts_def by metis
  from assms show o: "outputs u = outputs t" unfolding same_but_scripts_def by (metis tx.select_convs(3) tx.surjective tx.update_convs(2))
  from i show "in_sum u = in_sum t" by (simp add: in_sum_def)
  from o show "out_sum u = out_sum t" by (simp add: out_sum_def)
  from o map_eq_imp_length_eq [OF i] show "wallet_size u = wallet_size t" by (simp add: wallet_size_def)
qed

lemma shuffleArray_spec:
  assumes "random_ok rnd" and "xs \<noteq> []" and "length xs < 2 ^ 53" and "shuffleArray rnd p xs = (ys, swaps)"
  shows "mset ys = mset xs \<and> (\<exists>k. find_index (\<lambda>v. v = 0) swaps = Some k \<and> k < length ys \<and> ys ! k = xs ! 0 \<and>
    (2 \<le> length xs \<longrightarrow> 0 < k))"
proof -
  let ?n = "length xs"
  have ys: "ys = shuffle_from rnd p (?n - 1) xs" and sw: "swaps = shuffle_from rnd p (?n - 1) [0..<?n]"
    using assms(4) by (simp_all add: shuffleArray_def)
  have n: "?n - 1 < ?n" using assms(2) by simp
  have "map (\<lambda>i. xs ! i) swaps = ys"
    unfolding sw ys using n assms(1,3) by (simp add: map_shuffle_from map_nth)
  moreover have m: "mset swaps = mset [0..<?n]" unfolding sw using n assms(1,3) by (intro mset_shuffle_from) simp_all
  then have "set swaps = {0..<?n}" by (metis mset_eq_setD set_upt)
  then have "0 \<in> set swaps" using assms(2) by simp
  then have "find_index (\<lambda>v. v = 0) swaps \<noteq> None" unfolding find_index_None by blast
  then obtain k where k: "find_index (\<lambda>v. v = 0) swaps = Some k" by blast
  moreover have "k < length swaps \<and> swaps ! k = 0" using find_index_Some [OF k] by simp
  moreover have "0 < k" if "2 \<le> ?n"
  proof (rule ccontr)
    assume "\<not> 0 < k"
    with \<open>k < length swaps \<and> swaps ! k = 0\<close> have "swaps ! 0 = [0..<?n] ! 0" using assms(2) by simp
    moreover have "swaps ! 0 \<noteq> [0..<?n] ! 0"
      unfolding sw using that assms(1,3) n by (intro shuffle_from_moves_first) simp_all
    ultimately show False by simp
  qed
  moreover have "mset ys = mset xs" unfolding ys using n assms(1,3) by (intro mset_shuffle_from) simp_all
  ultimately show ?thesis by auto
qed

text \<open>\<open>fee_of\<close> is what a transaction leaves to the miners.\<close>

definition fee_of :: "tx \<Rightarrow> int" where
  "fee_of t = int (in_sum t) - int (out_sum t)"

text \<open>The transaction before shuffling and signing.\<close>

lemma change_outputs_spec:
  assumes "random_ok rnd" and "amounts_ok t" and "outputs t \<noteq> []"
    and "length (outputs t) + length ks < 2 ^ 53 - 1"
    and "change_loop E rnd k0 p 0 ks t = Inr (t1, p1)"
    and "(if length (outputs t1) = 1 then rmap (\<lambda>t2. (t2, p1)) (one_change E ks t1)
          else rmap (\<lambda>t2. (t2, Suc p1)) (sweep rnd p1 t1)) = Inr (t2, p2)"
  shows "inputs t2 = inputs t \<and> length (outputs t2) < 2 ^ 53 \<and> outputs t2 ! 0 = outputs t ! 0 \<and> outputs t2 \<noteq> [] \<and>
    (if length (outputs t2) = 1 then fee_of t2 < 2 * (int (wallet_size t2) + 34) + 5120
     else fee_of t2 = 2 * int (wallet_size t2) \<or> fee_of t2 = 2 * int (wallet_size t2) - 2) \<and>
    (length (outputs t) = 1 \<longrightarrow> (\<forall>j. 1 \<le> j \<and> j < length (outputs t2) \<longrightarrow> satoshis (outputs t2 ! j) \<ge> 544))"
proof -
  have ok1: "amounts_ok t1" and e1: "extends t t1" using change_loop_spec [OF assms(1,2) _ assms(5)] by auto
  have len: "length (outputs t1) \<le> length (outputs t) + length ks" by (rule change_loop_length [OF assms(5)])
  from e1 obtain outs where i1: "inputs t1 = inputs t" and o1: "outputs t1 = outputs t @ outs"
    and big: "list_all (\<lambda>out. satoshis out \<ge> dustLimit) outs" and cover: "outs \<noteq> [] \<Longrightarrow> covers_fee t1"
    by (auto simp: extends_def)
  show ?thesis
  proof (cases "length (outputs t1) = 1")
    case True
    then have one: "one_change E ks t1 = Inr t2" using assms(6) by (auto simp: rmap_Inr_iff)
    have outs: "outs = []" using True o1 assms(3) by (cases "outputs t") auto
    note s = one_change_spec [OF ok1 one]
    then obtain more where m: "inputs t2 = inputs t" "outputs t2 = outputs t @ more"
      "list_all (\<lambda>out. satoshis out \<ge> dustLimit) more"
      using i1 o1 outs by (auto simp: extends_def)
    have l1: "length (outputs t) = 1" using True o1 outs by simp
    have "length (outputs t2) < 2 ^ 53" using s True by simp
    moreover have "satoshis (outputs t2 ! j) \<ge> 544" if "1 \<le> j \<and> j < length (outputs t2)" for j
    proof -
      have "outputs t2 ! j \<in> set more" using that m(2) l1 by (auto simp: nth_append intro: nth_mem)
      with m(3) show ?thesis by (auto simp: list_all_iff dustLimit_def)
    qed
    moreover have "if length (outputs t2) = 1 then fee_of t2 < 2 * (int (wallet_size t2) + 34) + 5120
       else fee_of t2 = 2 * int (wallet_size t2) \<or> fee_of t2 = 2 * int (wallet_size t2) - 2"
      using s m l1 o1 outs by (auto simp: fee_of_def split: if_splits)
    ultimately show ?thesis using m assms(3) by (auto simp: nth_append)
  next
    case False
    then have sw: "sweep rnd p1 t1 = Inr t2" using assms(6) by (auto simp: rmap_Inr_iff)
    have two: "2 \<le> length (outputs t1)" using False o1 assms(3) by (cases "outputs t"; cases "tl (outputs t)"; cases outs) auto
    have lt: "length (outputs t1) < 2 ^ 53" using len assms(4) by simp
    from sweep_spec [OF assms(1) ok1 two lt sw] obtain k add
      where s: "inputs t2 = inputs t1" "fee_of t2 = 2 * int (wallet_size t2)" "length (outputs t2) = length (outputs t1)"
      and k: "1 \<le> k" "k < length (outputs t1)" "\<And>j. j \<noteq> k \<Longrightarrow> outputs t2 ! j = outputs t1 ! j"
        "int (satoshis (outputs t2 ! k)) = int (satoshis (outputs t1 ! k)) + add"
        "add = int (in_sum t1) - int (out_sum t1) - 2 * int (wallet_size t1)"
      by (auto simp: fee_of_def)
    have "satoshis (outputs t2 ! j) \<ge> 544" if l1: "length (outputs t) = 1" and j: "1 \<le> j \<and> j < length (outputs t2)" for j
    proof -
      have ne: "outs \<noteq> []" using two o1 l1 by auto
      have "outputs t1 ! j \<in> set outs" using j l1 o1 s(3) by (auto simp: nth_append intro: nth_mem)
      then have b: "satoshis (outputs t1 ! j) \<ge> 546" using big by (auto simp: list_all_iff dustLimit_def)
      have "add \<ge> - 2" using cover [OF ne] k(5) by (simp add: covers_fee_def)
      with b k(3,4) show ?thesis by (cases "j = k") auto
    qed
    moreover have "outputs t2 ! 0 = outputs t ! 0" using k(1) k(3) [of 0] o1 assms(3) by (simp add: nth_append)
    moreover have "outputs t2 \<noteq> []" "length (outputs t2) \<noteq> 1" using s(3) two by auto
    ultimately show ?thesis using s lt i1 by auto
  qed
qed

lemma finalizeTransaction_spec:
  assumes "random_ok rnd" and "amounts_ok t" and "length (outputs t) + length cks < 2 ^ 53 - 1"
    and "finalizeTransaction E rnd p cks keys shuffled t = Inr (u, k, p3)"
  shows "map (in_script_update (\<lambda>_. [])) (inputs u) = map (in_script_update (\<lambda>_. [])) (inputs t) \<and>
    k < length (outputs u) \<and>
    (if length (outputs u) = 1 then fee_of u < 2 * (int (wallet_size u) + 34) + 5120
     else fee_of u = 2 * int (wallet_size u) \<or> fee_of u = 2 * int (wallet_size u) - 2) \<and>
    outputs u ! k = outputs t ! 0 \<and>
    (shuffled \<and> 2 \<le> length (outputs u) \<longrightarrow> 0 < k) \<and>
    (length (outputs t) = 1 \<longrightarrow> filter_mset (\<lambda>out. satoshis out < 544) (mset (outputs u)) \<subseteq># {# outputs t ! 0 #})"
proof -
  obtain out0 outs where o: "outputs t = out0 # outs"
    using assms(4) by (cases "outputs t") (simp_all add: finalizeTransaction_def Let_def)
  let ?ks = "fst (shuffleArray rnd p cks)"
  from assms(4) o obtain t1 p1 t2 p2 where
    c: "change_loop E rnd (oom E (int (satoshis out0))) (p + (length cks - 1)) 0 ?ks t = Inr (t1, p1)"
    and d: "(if length (outputs t1) = 1 then rmap (\<lambda>t2. (t2, p1)) (one_change E ?ks t1)
          else rmap (\<lambda>t2. (t2, Suc p1)) (sweep rnd p1 t1)) = Inr (t2, p2)"
    and f: "(let n = length (outputs t2); (outs, swaps) = shuffleArray rnd p2 (outputs t2);
                (t3, k, p3) = (if shuffled then (t2\<lparr>outputs := outs\<rparr>, the (find_index (\<lambda>v. v = 0) swaps), p2 + (n - 1))
                               else (t2, 0, p2))
            in rmap (\<lambda>t4. (t4, k, p3)) (tx_sign (signer.truncate E) 0 Ecdsa keys t3)) = Inr (u, k, p3)"
    unfolding finalizeTransaction_def Let_def by (auto elim!: rbind_InrE)
  have len: "length (outputs t) + length ?ks < 2 ^ 53 - 1" using assms(3) by (simp add: shuffleArray_def)
  note spec = change_outputs_spec [OF assms(1,2) _ len c d]
  obtain outs2 swaps where sh: "shuffleArray rnd p2 (outputs t2) = (outs2, swaps)" by fastforce
  define t3 where "t3 = (if shuffled then t2\<lparr>outputs := outs2\<rparr> else t2)"
  have sgn: "tx_sign (signer.truncate E) 0 Ecdsa keys t3 = Inr u"
    and k: "k = (if shuffled then the (find_index (\<lambda>v. v = 0) swaps) else 0)"
    using f sh by (auto simp: t3_def Let_def rmap_Inr_iff split: if_splits)
  have same: "same_but_scripts t3 u" by (rule tx_sign_same [OF sgn])
  note facts = same_but_scripts_facts [OF same]
  have ne: "outputs t2 \<noteq> []" and lt: "length (outputs t2) < 2 ^ 53" using spec o by auto
  from shuffleArray_spec [OF assms(1) ne lt sh] obtain k2 where
    m: "mset outs2 = mset (outputs t2)" and k2: "find_index (\<lambda>v. v = 0) swaps = Some k2" "k2 < length outs2"
      "outs2 ! k2 = outputs t2 ! 0" "2 \<le> length (outputs t2) \<longrightarrow> 0 < k2" by blast
  have l2: "length outs2 = length (outputs t2)" using m mset_eq_length by blast
  have m3: "mset (outputs t3) = mset (outputs t2)" using m by (simp add: t3_def)
  have "sum_list (map satoshis outs2) = sum_list (map satoshis (outputs t2))" using m by (metis mset_map sum_mset_sum_list)
  then have sums: "fee_of t3 = fee_of t2" "wallet_size t3 = wallet_size t2"
    using l2 by (simp_all add: t3_def fee_of_def in_sum_def out_sum_def wallet_size_def)
  have fee: "fee_of u = fee_of t2" "wallet_size u = wallet_size t2"
    using facts sums by (simp_all add: fee_of_def)
  have lu: "length (outputs u) = length (outputs t2)" using facts(1) m3 mset_eq_length by metis
  have dust: "filter_mset (\<lambda>out. satoshis out < 544) (mset (outputs u)) \<subseteq># {# outputs t ! 0 #}" if "length (outputs t) = 1"
  proof -
    obtain x xs where x: "outputs t2 = x # xs" using ne by (cases "outputs t2") auto
    have "satoshis y \<ge> 544" if "y \<in> set xs" for y
      using spec o \<open>length (outputs t) = 1\<close> that x by (fastforce simp: in_set_conv_nth)
    then have "filter_mset (\<lambda>out. satoshis out < 544) (mset xs) = {#}"
      by (auto simp: filter_mset_eq_conv not_less)
    moreover have "mset (outputs u) = add_mset (outputs t ! 0) (mset xs)" using facts(1) m3 spec o x by simp
    moreover have "filter_mset P (add_mset y M) \<subseteq># add_mset y (filter_mset P M)" for P :: "tx_output \<Rightarrow> bool" and y M
      by simp
    ultimately show ?thesis by metis
  qed
  have "map (in_script_update (\<lambda>_. [])) (inputs u) = map (in_script_update (\<lambda>_. [])) (inputs t)"
    using same spec o by (auto simp: same_but_scripts_def t3_def split: if_splits)
  moreover have "k < length (outputs u) \<and> outputs u ! k = outputs t ! 0 \<and> (shuffled \<and> 2 \<le> length (outputs u) \<longrightarrow> 0 < k)"
    using k k2 facts(1) spec o lu l2 ne by (auto simp: t3_def)
  ultimately show ?thesis using spec o fee lu dust by auto
qed

section \<open>Coin selection\<close>

lemma stage_input_spec:
  assumes "stage_input E u t = Inr t1"
  shows "outputs t1 = outputs t \<and> cachedOutput t1 = cachedOutput t \<and>
    (t1 = t \<or> cachedInput t1 = None \<and>
      (\<exists>i out. inputs t1 = inputs t @ [i] \<and> in_output i = Some out \<and> satoshis out = amount_sats u))"
  using assms
  by (auto simp: stage_input_def from_utxo_def fromNonP2SH_def addInput_def uncheckedAddInput_def mk_output_Inr
      Let_def elim!: rbind_InrE split: if_splits)

lemma take_coin_mset: "u \<in> set us \<Longrightarrow> distinct (map calcUtxoId us) \<Longrightarrow>
    add_mset u (mset (take_coin (calcUtxoId u) us)) = mset us"
  by (induction us) (auto simp: rev_image_eqI)

lemma take_coin_set: "set (take_coin i us) \<subseteq> set us"
  by (induction us) auto

lemma distinct_take_coin: "distinct (map calcUtxoId us) \<Longrightarrow> distinct (map calcUtxoId (take_coin i us))"
  by (induction us) (auto dest: take_coin_set [THEN subsetD])

definition total_sats :: "'k utxo list \<Rightarrow> nat" where
  "total_sats us = sum_list (map amount_sats us)"

lemma total_sats_mset: "mset us + mset vs = mset ws \<Longrightarrow> total_sats us + total_sats vs = total_sats ws"
  unfolding total_sats_def by (metis map_append mset_append mset_map sum_list_append sum_mset_sum_list)

text \<open>The transaction under construction holds the staged coins, as far as they are different outpoints.\<close>

definition staging :: "'k utxo list \<Rightarrow> 'k utxo list \<Rightarrow> tx \<Rightarrow> nat \<Rightarrow> 'k utxo list \<Rightarrow> bool" where
  "staging us0 us t sats used \<longleftrightarrow>
     mset us + mset used = mset us0 \<and> distinct (map calcUtxoId us) \<and> sats = total_sats used \<and>
     outputs t = [] \<and> cachedInput t = None \<and> cachedOutput t = None \<and> hasAllUtxoInfo t \<and>
     in_sum t \<le> sats"

lemma staging_step:
  assumes "total_sats us0 < 2 ^ 53" and "staging us0 us t s used" and "u \<in> set us" and "stage_input E u t = Inr t1"
  shows "staging us0 (take_coin (calcUtxoId u) us) t1 (add_double s (amount_sats u)) (used @ [u])"
proof -
  note st = assms(2) [unfolded staging_def]
  have m: "mset (take_coin (calcUtxoId u) us) + mset (used @ [u]) = mset us0"
    using st take_coin_mset [OF assms(3)] by (metis add_mset_add_single mset_append mset_single_iff_right union_mset_add_mset_left union_mset_add_mset_right mset.simps)
  from total_sats_mset [OF m] have "total_sats (used @ [u]) < 2 ^ 53" using assms(1) by simp
  then have s: "add_double s (amount_sats u) = total_sats (used @ [u])"
    using st by (simp add: add_double_def total_sats_def)
  moreover have "in_sum t1 \<le> total_sats (used @ [u]) \<and> hasAllUtxoInfo t1 \<and> cachedInput t1 = None"
    using stage_input_spec [OF assms(4)] st
    by (auto simp: in_sum_def total_sats_def input_sats_def hasAllUtxoInfo_def)
  ultimately show ?thesis
    using st m stage_input_spec [OF assms(4)] by (simp add: staging_def distinct_take_coin)
qed

lemma pick_inputs_spec:
  assumes "total_sats us < 2 ^ 53" and "distinct (map calcUtxoId us)"
    and "pick_inputs E l m us new_tx 0 [] = Inr (t, sats, used, us1)"
  shows "staging us us1 t sats used \<and> enough_inputs l sats (wallet_size t) \<and> length us1 < length us"
proof (rule pick_inputs_invariant [OF assms(3)])
  show "staging us us new_tx 0 []"
    using assms(2) by (simp add: staging_def new_tx_def total_sats_def hasAllUtxoInfo_def in_sum_def)
qed (rule staging_step [OF assms(1)])

section \<open>Sets of transactions\<close>

definition paid :: "'k tx_bundle \<Rightarrow> nat" where
  "paid b = satoshis (outputs (b_tx b) ! b_vout b)"

definition bundle_ok :: "'k tx_bundle \<Rightarrow> bool" where
  "bundle_ok b \<longleftrightarrow>
     (let u = b_tx b; n = length (outputs u)
      in b_vout b < n \<and> (2 \<le> n \<longrightarrow> 0 < b_vout b) \<and> wallet_size u \<le> maximumTransactionSize \<and>
         (if n = 1 then fee_of u < 2 * (int (wallet_size u) + 34) + 5120
          else fee_of u = 2 * int (wallet_size u) \<or> fee_of u = 2 * int (wallet_size u) - 2))"

text \<open>The output of a bundle pays the generated address.\<close>

definition pays :: "('k, 'p) wallet_env \<Rightarrow> 'p res \<Rightarrow> 'k tx_bundle \<Rightarrow> bool" where
  "pays E a b \<longleftrightarrow> rbind a (key_script E) = Inr (out_script (outputs (b_tx b) ! b_vout b))"

lemma build_set_step:
  assumes "random_ok rnd" and "length cks < 2 ^ 53 - 2" and "total_sats us < 2 ^ 53" and "distinct (map calcUtxoId us)"
    and "l \<noteq> 0" and "build_set E rnd cks gen m p n l us = Inr bs"
  obtains b bs1 p1 us1 where "bs = b # bs1" and "bundle_ok b" and "b_used b \<noteq> []" and "paid b \<le> l" and "pays E (gen n) b"
    and "build_set E rnd cks gen m p1 (Suc n) (l - paid b) us1 = Inr bs1"
    and "mset us1 + mset (b_used b) = mset us" and "distinct (map calcUtxoId us1)" and "length us1 < length us"
proof -
  have "build_set E rnd cks gen m p n l us =
      rbind (pick_inputs E l m us new_tx 0 []) (\<lambda>(t, sats, used, us1).
        let toUse = min l (sats - (wallet_size t + standardUtxoSize) * minFeePerByte)
        in rbind (rbind (gen n) (key_script E)) (\<lambda>b.
           rbind (mk_output (int toUse) b) (\<lambda>out.
           rbind (finalizeTransaction E rnd p cks (map privKey used) True (addOutput out t)) (\<lambda>(u, k, p1).
             if wallet_size u > maximumTransactionSize then Inl RangeErr
             else rmap (\<lambda>bs. \<lparr>b_tx = u, b_vout = k, b_used = used\<rparr> # bs)
               (build_set E rnd cks gen m p1 (Suc n) (l - toUse) us1)))))"
    using assms(5) by (subst build_set.simps) simp
  with assms(6) obtain t sats used us1 b out u k p1 bs1 where
    pick: "pick_inputs E l m us new_tx 0 [] = Inr (t, sats, used, us1)"
    and gen: "rbind (gen n) (key_script E) = Inr b"
    and out: "mk_output (int (min l (sats - (wallet_size t + standardUtxoSize) * minFeePerByte))) b = Inr out"
    and fin: "finalizeTransaction E rnd p cks (map privKey used) True (addOutput out t) = Inr (u, k, p1)"
    and sz: "wallet_size u \<le> maximumTransactionSize"
    and rec: "build_set E rnd cks gen m p1 (Suc n) (l - min l (sats - (wallet_size t + standardUtxoSize) * minFeePerByte)) us1 = Inr bs1"
    and bs: "bs = \<lparr>b_tx = u, b_vout = k, b_used = used\<rparr> # bs1"
    by (auto simp: Let_def rmap_Inr_iff rbind_Inr_iff [of "gen n"] not_less elim!: rbind_InrE split: if_splits)
  let ?b = "\<lparr>b_tx = u, b_vout = k, b_used = used\<rparr>"
  from pick_inputs_spec [OF assms(3,4) pick]
  have st: "staging us us1 t sats used" and en: "enough_inputs l sats (wallet_size t)" and sh: "length us1 < length us" by auto
  have m: "mset us1 + mset used = mset us" using st by (simp add: staging_def)
  have sats: "sats < 2 ^ 53" using total_sats_mset [OF m] st assms(3) by (simp add: staging_def)
  have s: "satoshis out = min l (sats - (wallet_size t + standardUtxoSize) * minFeePerByte)"
    using out by (auto simp: mk_output_Inr)
  have "amounts_ok (addOutput out t)"
    using st sats s by (auto simp: staging_def amounts_ok_def hasAllUtxoInfo_def in_sum_def out_sum_def)
  from finalizeTransaction_spec [OF assms(1) this _ fin] st assms(2)
  have f: "k < length (outputs u) \<and>
    (if length (outputs u) = 1 then fee_of u < 2 * (int (wallet_size u) + 34) + 5120
     else fee_of u = 2 * int (wallet_size u) \<or> fee_of u = 2 * int (wallet_size u) - 2) \<and>
    outputs u ! k = out \<and> (2 \<le> length (outputs u) \<longrightarrow> 0 < k)"
    by (auto simp: staging_def)
  show thesis
  proof (rule that [OF bs])
    show "bundle_ok ?b" using f sz by (auto simp: bundle_ok_def Let_def split: if_splits)
    show "b_used ?b \<noteq> []" using en st by (auto simp: staging_def enough_inputs_def total_sats_def Let_def dustLimit_def)
    show "paid ?b \<le> l" using f s by (simp add: paid_def)
    show "pays E (gen n) ?b" using f gen out by (auto simp: pays_def mk_output_Inr)
    show "build_set E rnd cks gen m p1 (Suc n) (l - paid ?b) us1 = Inr bs1" using rec f s by (simp add: paid_def)
  qed (use st sh m in \<open>simp_all add: staging_def\<close>)
qed

lemma build_set_spec:
  assumes "random_ok rnd" and "length cks < 2 ^ 53 - 2" and "total_sats us < 2 ^ 53" and "distinct (map calcUtxoId us)"
    and "build_set E rnd cks gen m p n l us = Inr bs"
  shows "sum_list (map paid bs) = l \<and> mset (concat (map b_used bs)) \<subseteq># mset us \<and> length bs \<le> length us \<and>
    list_all bundle_ok bs \<and> (\<forall>i < length bs. pays E (gen (n + i)) (bs ! i))"
  using assms(3-5)
proof (induction "length us" arbitrary: us p n l bs rule: less_induct)
  case less
  show ?case
  proof (cases "l = 0")
    case True
    with less.prems(3) have "bs = []" by (subst (asm) build_set.simps) simp
    with True show ?thesis by simp
  next
    case False
    from build_set_step [OF assms(1,2) less.prems(1,2) False less.prems(3)] obtain b bs1 p1 us1 where
      bs: "bs = b # bs1" "bundle_ok b" "paid b \<le> l" "pays E (gen n) b"
      and rec: "build_set E rnd cks gen m p1 (Suc n) (l - paid b) us1 = Inr bs1"
      and us1: "mset us1 + mset (b_used b) = mset us" "distinct (map calcUtxoId us1)" "length us1 < length us" .
    have "total_sats us1 < 2 ^ 53" using total_sats_mset [OF us1(1)] less.prems(1) by simp
    from less.hyps [OF us1(3) this us1(2) rec] have ih: "sum_list (map paid bs1) = l - paid b"
      "mset (concat (map b_used bs1)) \<subseteq># mset us1" "length bs1 \<le> length us1" "list_all bundle_ok bs1"
      and pay: "\<And>i. i < length bs1 \<Longrightarrow> pays E (gen (Suc n + i)) (bs1 ! i)" by auto
    have "pays E (gen (n + i)) ((b # bs1) ! i)" if "i < length (b # bs1)" for i
      using that pay bs(4) by (cases i) auto
    moreover from ih(2) have "mset (b_used b) + mset (concat (map b_used bs1)) \<subseteq># mset (b_used b) + mset us1" by simp
    ultimately show ?thesis using bs ih us1 by (auto simp: union_commute)
  qed
qed

subsection \<open>Coins of the store\<close>

lemma usable_coins_iff: "store_ok s \<Longrightarrow> u \<in> set (usable_coins s) \<longleftrightarrow> getById (calcUtxoId u) s = Some u \<and> \<not> frozen u"
proof -
  assume ok: "store_ok s"
  then have "(i, u) \<in> set (cache s) \<Longrightarrow> i = calcUtxoId u" for i
    by (auto simp: store_ok_def well_keyed_def)
  then have "u \<in> snd ` set (cache s) \<longleftrightarrow> (calcUtxoId u, u) \<in> set (cache s)" by force
  then show ?thesis using getById_cache [OF ok] by (auto simp: usable_coins_def getUtxoMap_def)
qed

lemma usable_coins_distinct: "store_ok s \<Longrightarrow> distinct (map calcUtxoId (usable_coins s))"
proof -
  assume "store_ok s"
  then have w: "well_keyed (cache s)" by (simp add: store_ok_def)
  then have "map calcUtxoId (map snd (cache s)) = map fst (cache s)" by (auto simp: well_keyed_def)
  with w have "distinct (map calcUtxoId (map snd (cache s)))" by (simp only: well_keyed_def)
  then show ?thesis by (simp add: usable_coins_def getUtxoMap_def distinct_map_filter)
qed

lemma freeze_all_get: "store_ok s \<Longrightarrow> getById i (freeze_all us s) =
    (if i \<in> calcUtxoId ` set us then map_option (frozen_update (\<lambda>_. True)) (getById i s) else getById i s)"
  unfolding freeze_all_def using store.lookup_fold_freeze [of s i "map calcUtxoId us"] by simp

lemma freeze_all_ok: "store_ok s \<Longrightarrow> store_ok (freeze_all us s)"
  unfolding freeze_all_def by (induction us arbitrary: s) (simp_all add: freezeById_ok)

lemma frozen_not_usable: "store_ok s \<Longrightarrow> u \<in> set us \<Longrightarrow> v \<in> set (usable_coins (freeze_all us s)) \<Longrightarrow> calcUtxoId u \<noteq> calcUtxoId v"
proof
  assume "store_ok s" and "u \<in> set us" and v: "v \<in> set (usable_coins (freeze_all us s))"
    and eq: "calcUtxoId u = calcUtxoId v"
  then have "calcUtxoId v \<in> calcUtxoId ` set us" by (metis imageI)
  with v show False using \<open>store_ok s\<close> by (auto simp: usable_coins_iff freeze_all_ok freeze_all_get)
qed

text \<open>The coins used are among those offered, whatever they are.\<close>

lemma pick_inputs_used:
  "pick_inputs E l m us t s used = Inr (t1, s1, used1, us1) \<Longrightarrow> set us1 \<union> set used1 \<subseteq> set us \<union> set used"
  using pick_inputs_invariant [of E l m us t s used t1 s1 used1 us1
      "\<lambda>vs _ _ ws. set vs \<union> set ws \<subseteq> set us \<union> set used"] take_coin_set by fastforce

lemma build_set_used: "build_set E rnd cks gen m p n l us = Inr bs \<Longrightarrow> set (concat (map b_used bs)) \<subseteq> set us"
proof (induction "length us" arbitrary: us p n l bs rule: less_induct)
  case less
  show ?case
  proof (cases "l = 0")
    case True
    with less.prems show ?thesis by (subst (asm) build_set.simps) simp
  next
    case False
    with less.prems obtain t sats used us1 u k p1 l1 bs1 where
      pick: "pick_inputs E l m us new_tx 0 [] = Inr (t, sats, used, us1)"
      and bs: "build_set E rnd cks gen m p1 (Suc n) l1 us1 = Inr bs1" "bs = \<lparr>b_tx = u, b_vout = k, b_used = used\<rparr> # bs1"
      by (subst (asm) build_set.simps) (auto simp: Let_def rmap_Inr_iff elim!: rbind_InrE split: if_splits)
    from less.hyps [OF pick_inputs_shorter [OF pick] bs(1)] pick_inputs_used [OF pick] bs(2) show ?thesis by auto
  qed
qed

lemma add_coins_used: "add_coins E r us t s used = Inr (t1, s1, used1) \<Longrightarrow> set used1 \<subseteq> set us \<union> set used"
  by (induction us arbitrary: t s used) (auto split: if_splits elim!: rbind_InrE, fastforce+)

lemma constructTransactionSet_used:
  "constructTransactionSet E rnd gen amount w = Inr (bs, v) \<Longrightarrow>
    set (concat (map b_used bs)) \<subseteq> set (usable_coins (storage w)) \<and>
    v = w\<lparr>storage := freeze_all (concat (map b_used bs)) (storage w)\<rparr>"
  by (auto simp: constructTransactionSet_def buildTransactionSetForExplicitAmount_def rmap_Inr_iff dest!: build_set_used)
    blast

lemma constructTransaction_used:
  assumes "constructTransaction E rnd outs w = (Inr (u, used), v)"
  shows "set used \<subseteq> set (usable_coins (storage w))"
proof -
  obtain r t0 where a: "getOutputAmount (fold addOutput outs new_tx) = (r, t0)" by fastforce
  let ?sorted = "sort_key (\<lambda>u. - int (amount_sats u)) (usable_coins (storage w))"
  let ?bigger = "filter (\<lambda>u. amount_sats u \<ge> r + (wallet_size t0 + standardUtxoSize + standardInputSize) * minFeePerByte) ?sorted"
  let ?us = "if ?bigger \<noteq> [] then [last ?bigger] else ?sorted"
  from assms obtain t s where "add_coins E r ?us t0 0 [] = Inr (t, s, used)"
    by (auto simp: constructTransaction_def a Let_def rmap_Inr_iff elim!: rbind_InrE split: sum.splits if_splits)
  then have "set used \<subseteq> set ?us" using add_coins_used by fastforce
  moreover have "?bigger \<noteq> [] \<Longrightarrow> last ?bigger \<in> set ?bigger" by (rule last_in_set)
  ultimately show ?thesis by (auto split: if_splits)
qed

subsection \<open>Keeping a coin out of use\<close>

definition out_of_use :: "string \<Rightarrow> 'k utxo_store \<Rightarrow> bool" where
  "out_of_use i s \<longleftrightarrow> store_ok s \<and> (i \<in> deletedUtxos s \<or> (\<exists>u. getById i s = Some u \<and> frozen u))"

text \<open>
  Steps that release no coin: further constructions, freezing, deleting and checking coins, new coins, and refreshes whose
  answer names no coin that is stored under another address.
\<close>

definition own_answer :: "string \<Rightarrow> chain_utxo list \<Rightarrow> 'k utxo_store \<Rightarrow> bool" where
  "own_answer a cs s \<longleftrightarrow> (\<forall>c \<in> set cs. \<forall>u. getById (calcId (cu_txid c) (cu_index c)) s = Some u \<longrightarrow> address u = a)"

inductive keeping_step :: "('k, 'p) wallet_env \<Rightarrow> 'k wallet \<Rightarrow> 'k wallet \<Rightarrow> bool" for E where
  set: "constructTransactionSet E rnd gen amount w = Inr (bs, v) \<Longrightarrow> keeping_step E w v"
| transaction: "constructTransaction E rnd outs w = (r, v) \<Longrightarrow> keeping_step E w v"
| freeze: "keeping_step E w (w\<lparr>storage := freezeById i (storage w)\<rparr>)"
| delete: "keeping_step E w (w\<lparr>storage := deleteById i (storage w)\<rparr>)"
| check: "checkAndFixUtxos found False us (storage w) = Inr (bs, s) \<Longrightarrow> keeping_step E w (w\<lparr>storage := s\<rparr>)"
| arrive: "getById (calcUtxoId c) (storage w) = None \<Longrightarrow> keeping_step E w (w\<lparr>storage := put c (storage w)\<rparr>)"
| hit: "tx_hit tid w = Some v \<Longrightarrow> keeping_step E w v"
| refresh: "map_get (addressDataByPkh w) pkh = Some d \<Longrightarrow> own_answer (ad_address d) cs (storage w) \<Longrightarrow>
    keeping_step E w (updateUTXOsFromPkh pkh (Some cs) w)"

lemma out_of_use_not_usable: "out_of_use i s \<Longrightarrow> c \<in> set (usable_coins s) \<Longrightarrow> calcUtxoId c \<noteq> i"
  by (auto simp: out_of_use_def usable_coins_iff) (auto simp: store_ok_def getById_def)

lemma out_of_use_freeze: "out_of_use i s \<Longrightarrow> out_of_use i (freezeById j s)"
  by (auto simp: out_of_use_def freezeById_ok getById_freeze)

lemma out_of_use_freeze_all: "out_of_use i s \<Longrightarrow> out_of_use i (freeze_all us s)"
  unfolding freeze_all_def by (induction us arbitrary: s) (simp_all add: out_of_use_freeze)

lemma out_of_use_delete: "out_of_use i s \<Longrightarrow> out_of_use i (deleteById j s)"
  by (auto simp: out_of_use_def deleteById_ok)

lemma out_of_use_put: "out_of_use i s \<Longrightarrow> calcUtxoId c \<noteq> i \<or> getById i s = None \<Longrightarrow> out_of_use i (put c s)"
  by (auto simp: out_of_use_def put_ok getById_put)

lemma out_of_use_check: "out_of_use i s \<Longrightarrow> check_coins unspent False us s = (bs, t) \<Longrightarrow> out_of_use i t"
  by (induction us arbitrary: s bs) (auto simp: Let_def split: prod.splits if_splits dest: out_of_use_delete)

lemma out_of_use_refresh_loop: "out_of_use i s \<Longrightarrow> refresh_loop a es ids found s = (found1, t) \<Longrightarrow> out_of_use i t"
  by (induction es arbitrary: ids found s) (auto split: if_splits dest: out_of_use_delete)

lemma out_of_use_put_missing:
  assumes "out_of_use i s" and "i \<notin> deletedUtxos s \<Longrightarrow> \<forall>c \<in> set us. calcUtxoId c \<in> set found \<or> calcUtxoId c \<noteq> i"
  shows "out_of_use i (put_missing found us s)"
proof -
  have one: "out_of_use i (put c t) \<and> deletedUtxos (put c t) = deletedUtxos t"
    if "out_of_use i t" "calcUtxoId c \<noteq> i \<or> i \<in> deletedUtxos t" for c and t :: "'a utxo_store"
    using that out_of_use_put [of i t c] by (auto simp: out_of_use_def store_ok_def getById_def)
  have "out_of_use i (fold put cs t)" if "out_of_use i t" "\<forall>c \<in> set cs. calcUtxoId c \<noteq> i \<or> i \<in> deletedUtxos t" for cs and t :: "'a utxo_store"
    using that by (induction cs arbitrary: t) (simp_all add: one)
  moreover have "\<forall>c \<in> set (filter (\<lambda>u. calcUtxoId u \<notin> set found) us). calcUtxoId c \<noteq> i \<or> i \<in> deletedUtxos s" using assms(2) by auto
  ultimately show ?thesis using assms(1) unfolding put_missing_def by blast
qed

lemma out_of_use_refresh:
  assumes out: "out_of_use i s" and own: "\<forall>c \<in> set us. \<forall>u. getById (calcUtxoId c) s = Some u \<longrightarrow> address u = a"
  shows "out_of_use i (refreshUTXOsByAddr a us s)"
proof -
  obtain found t where l: "refresh_loop a (cache s) (map calcUtxoId us) [] s = (found, t)" by fastforce
  have ok: "store_ok s" using out by (simp add: out_of_use_def)
  have "\<forall>c \<in> set us. calcUtxoId c \<in> set found \<or> calcUtxoId c \<noteq> i" if alive: "i \<notin> deletedUtxos t"
  proof -
    have "i \<notin> deletedUtxos s" using alive store.reached_dead [OF refresh_loop_reached [OF l]] by blast
    with out obtain u where u: "getById i s = Some u" by (auto simp: out_of_use_def)
    then have "(i, u) \<in> set (cache s)" using getById_cache [OF ok] by simp
    then have "address u = a \<Longrightarrow> i \<in> set found" using refresh_loop_found [OF l] by force
    with own u show ?thesis by metis
  qed
  then show ?thesis
    using out_of_use_put_missing [OF out_of_use_refresh_loop [OF out l], of us found] l
    by (simp add: refreshUTXOsByAddr_def getUtxoMap_def)
qed

lemma keeping_step_out: "keeping_step E w v \<Longrightarrow> out_of_use i (storage w) \<Longrightarrow> out_of_use i (storage v)"
proof (induction rule: keeping_step.induct)
  case (set rnd gen amount w bs v)
  then show ?case using constructTransactionSet_used [OF set(1)] by (simp add: out_of_use_freeze_all)
next
  case (transaction rnd outs w r v)
  then show ?case
    by (auto simp: constructTransaction_def Let_def out_of_use_freeze_all split: prod.splits sum.splits if_splits)
next
  case (check found us w bs s)
  then show ?case by (auto simp: checkAndFixUtxos_def split: option.splits sum.splits intro: out_of_use_check)
next
  case (arrive c w)
  then show ?case using out_of_use_put [of i "storage w" c] by auto
next
  case (hit tid w v)
  then show ?case by (auto simp: tx_hit_def split: if_splits)
next
  case (refresh w pkh d cs)
  then show ?case
    using out_of_use_refresh [of i "storage w" "map (chain_coin d) cs" "ad_address d"]
    by (simp add: updateUTXOsFromPkh_def own_answer_def calcUtxoId_def chain_coin_def)
qed (simp_all add: out_of_use_freeze out_of_use_delete)

lemma keeping_steps_out: "(keeping_step E)\<^sup>*\<^sup>* w v \<Longrightarrow> out_of_use i (storage w) \<Longrightarrow> out_of_use i (storage v)"
  by (induction rule: rtranclp_induct) (blast intro: keeping_step_out)+

subsection \<open>Staging a coin\<close>

lemma p2pkh_bytes_eq: "length h = 20 \<Longrightarrow> p2pkh_bytes h = Inr (script_bytes (p2pkh h)) \<and>
    script_fromBuffer (script_bytes (p2pkh h)) = Inr (p2pkh h)"
proof -
  assume h: "length h = 20"
  then have wf: "list_all wf_chunk (p2pkh h)" by (simp add: p2pkh_def wf_chunk_def)
  then have "list_all printable (p2pkh h)" by (auto simp: list_all_iff wf_chunk_printable)
  then show ?thesis
    using h script_fromBuffer_script_bytes [OF wf] by (simp add: p2pkh_bytes_def buildPublicKeyHashOut_eq script_toBuffer_eq)
qed

text \<open>A coin of the wallet becomes an input that can be signed, if its outpoint is not there yet.\<close>

lemma stage_input_eq:
  assumes "address_hash E (address u) = Inr h" and "length h = 20" and "isHexa (txId u)" and "length (txId u) \<le> 64"
    and "amount_sats u < 2 ^ 53"
    and "\<not> list_ex (\<lambda>i. to_hex (prevTxId i) = txId u \<and> outputIndex i = vout u) (inputs t)"
  shows "stage_input E u t = Inr (uncheckedAddInput
    \<lparr>prevTxId = of_hex (txId u), outputIndex = vout u, sequenceNumber = DEFAULT_SEQNUMBER, in_script = [],
     in_output = Some \<lparr>satoshis = amount_sats u, satoshisBN = amount_sats u, out_script = script_bytes (p2pkh h)\<rparr>,
     in_kind = PublicKeyHashInput\<rparr> t)"
proof -
  have "mk_output (int (amount_sats u)) [] = Inr \<lparr>satoshis = amount_sats u, satoshisBN = amount_sats u, out_script = []\<rparr>"
    using assms(5) by (simp add: mk_output_Inr)
  moreover have "script_toBuffer (p2pkh h) = Inr (script_bytes (p2pkh h))"
    using p2pkh_bytes_eq [OF assms(2)] buildPublicKeyHashOut_eq [OF assms(2)] by (simp add: p2pkh_bytes_def)
  ultimately show ?thesis
    using assms p2pkh_bytes_eq [OF assms(2)] p2pkh_types(2) [OF assms(2)]
    by (simp add: stage_input_def from_utxo_def fromNonP2SH_def addInput_def Let_def)
qed

section \<open>Properties\<close>

text \<open>\<^verbatim>\<open>shuffleArray\<close> permutes the array and the returned indices lead to the element that was
  first, but that element never stays first: the index is drawn below \<open>i\<close> instead of up to \<open>i\<close>.\<close>

theorem shuffle_moves_first:
  assumes "random_ok rnd" and "2 \<le> length xs" and "length xs < 2 ^ 53" and "shuffleArray rnd p xs = (ys, swaps)"
  shows "mset ys = mset xs \<and> (\<exists>k. find_index (\<lambda>v. v = 0) swaps = Some k \<and> 0 < k \<and> k < length ys \<and> ys ! k = xs ! 0)"
  using shuffleArray_spec [OF assms(1) _ assms(3,4)] assms(2) by (cases xs) auto

theorem shuffle_moves_first_witness:
  "find_index (\<lambda>v. v = 0) (snd (shuffleArray (\<lambda>_. 2 ^ 53 - 1) 0 [7 :: nat, 8, 9])) \<noteq> Some 0"
proof -
  have "random_ok (\<lambda>_. 2 ^ 53 - 1)" by (simp add: random_ok_def)
  from shuffle_moves_first [OF this, of "[7 :: nat, 8, 9]" 0 "fst (shuffleArray (\<lambda>_. 2 ^ 53 - 1) 0 [7 :: nat, 8, 9])"
      "snd (shuffleArray (\<lambda>_. 2 ^ 53 - 1) 0 [7 :: nat, 8, 9])"]
  show ?thesis by auto
qed

text \<open>C26. What \<^verbatim>\<open>finalizeTransaction\<close> returns: the inputs are the same but for their scripts; the index
  is that of the recipient's output, which keeps its amount and script and is never first when the
  outputs were shuffled; with a change output the fee is two satoshis a byte of the estimated size or two
  satoshis less, and without one it is bounded; and no added output is below 544 satoshis.\<close>

theorem finalize_pays_recipient_and_fee:
  assumes "random_ok rnd" and "amounts_ok t" and "length (outputs t) + length cks < 2 ^ 53 - 1"
    and "finalizeTransaction E rnd p cks keys shuffled t = Inr (u, k, p3)"
  shows "map (in_script_update (\<lambda>_. [])) (inputs u) = map (in_script_update (\<lambda>_. [])) (inputs t) \<and>
    k < length (outputs u) \<and>
    (if length (outputs u) = 1 then fee_of u < 2 * (int (wallet_size u) + 34) + 5120
     else fee_of u = 2 * int (wallet_size u) \<or> fee_of u = 2 * int (wallet_size u) - 2) \<and>
    outputs u ! k = outputs t ! 0 \<and>
    (shuffled \<and> 2 \<le> length (outputs u) \<longrightarrow> 0 < k) \<and>
    (length (outputs t) = 1 \<longrightarrow> filter_mset (\<lambda>out. satoshis out < 544) (mset (outputs u)) \<subseteq># {# outputs t ! 0 #})"
  using assms by (rule finalizeTransaction_spec)

definition wallet_demo :: "(nat, nat) wallet_env" where
  "wallet_demo = \<lparr>sc_sign = \<lambda>_ _ _. Inl TypeErr, sc_verify = \<lambda>_ _ _ _. Inr False, public_key = id,
     key_bytes = \<lambda>k. [word_of_nat k], key_hash160 = \<lambda>_. replicate 20 0, key_valid = \<lambda>_. True,
     sha256d = \<lambda>_. replicate 32 0, oom = \<lambda>n. n, address_hash = \<lambda>_. Inr (replicate 20 1)\<rparr>"

definition spender :: "nat \<Rightarrow> nat wallet" where
  "spender n = demo_wallet\<lparr>storage := put (demo_coin ''aa'' n) (empty_store [])\<rparr>"

definition demo_output :: "nat \<Rightarrow> tx_output" where
  "demo_output n = \<lparr>satoshis = n, satoshisBN = n, out_script = [0x6a]\<rparr>"

lemma demo_output_sats [simp]: "satoshis (demo_output n) = n"
  by (simp add: demo_output_def)

definition funded :: "nat \<Rightarrow> tx_output list \<Rightarrow> tx" where
  "funded n outs = new_tx\<lparr>inputs := [(demo_input 0x80)\<lparr>in_output := Some (demo_output n), in_kind := PublicKeyHashInput\<rparr>],
     outputs := outs\<rparr>"

lemma funded_ok: "n < 2 ^ 53 \<Longrightarrow> sum_list (map satoshis outs) < 2 ^ 53 \<Longrightarrow> amounts_ok (funded n outs)"
  by (simp add: funded_def amounts_ok_def new_tx_def hasAllUtxoInfo_def in_sum_def out_sum_def input_sats_def demo_output_def)

lemma funded_sums: "in_sum (funded n outs) = n" "out_sum (funded n outs) = sum_list (map satoshis outs)"
  "wallet_size (funded n outs) = 174 + 35 * length outs"
  by (simp_all add: funded_def in_sum_def out_sum_def input_sats_def demo_output_def wallet_size_def)

lemma tx_sign_no_keys: "hasAllUtxoInfo t \<Longrightarrow> tx_sign S n m [] t = Inr t"
  by (simp add: tx_sign_def checkState_def)

lemma finalize_without_change:
  assumes "amounts_ok t" and "outputs t = [out]" and "fee_of t < 546 + 2 * (int (wallet_size t) + 34)"
    and "\<And>v. inputs v = inputs t \<Longrightarrow> tx_sign (signer.truncate E) 0 Ecdsa keys v = Inr v"
  shows "\<exists>u. finalizeTransaction E rnd p [] keys shuffled t = Inr (u, 0, p) \<and> outputs u = [out] \<and>
    wallet_size u = wallet_size t \<and> inputs u = inputs t \<and> version u = version t \<and> nLockTime u = nLockTime t"
proof -
  define t1 where "t1 = t\<lparr>cachedInput := Some (in_sum t), cachedOutput := Some (out_sum t)\<rparr>"
  have o: "outputs t1 = [out]" using assms(2) by (simp add: t1_def)
  have i: "inputs t1 = inputs t" by (simp add: t1_def)
  have w: "wallet_size t1 = wallet_size t" by (simp add: t1_def wallet_size_def)
  have "one_change E [] t = Inr t1"
    using assms(3) by (simp add: one_change_def tx_amounts_eq [OF assms(1)] t1_def [symmetric] Let_def w fee_of_def wallet_constants)
  then show ?thesis
    using assms(2,4) o i
    by (cases shuffled) (simp_all add: finalizeTransaction_def shuffleArray_def Let_def wallet_size_def, simp_all add: t1_def)
qed

theorem finalize_pays_recipient_and_fee_witness:
  "\<exists>u. finalizeTransaction wallet_demo (\<lambda>_. 0) 0 [] [] True (funded 10000 [demo_output 9000]) = Inr (u, 0, 0) \<and>
    outputs u ! 0 = demo_output 9000"
proof -
  let ?t = "funded 10000 [demo_output 9000]"
  have ok: "amounts_ok ?t" by (rule funded_ok) (simp_all add: demo_output_def)
  have o: "outputs ?t = [demo_output 9000]" by (simp add: funded_def)
  have "fee_of ?t < 546 + 2 * (int (wallet_size ?t) + 34)" by (simp add: fee_of_def funded_sums demo_output_def)
  moreover have "tx_sign (signer.truncate wallet_demo) 0 Ecdsa [] v = Inr v" if "inputs v = inputs ?t" for v
    using that by (intro tx_sign_no_keys) (simp add: hasAllUtxoInfo_def funded_def)
  ultimately obtain u where u: "finalizeTransaction wallet_demo (\<lambda>_. 0) 0 [] [] True ?t = Inr (u, 0, 0)"
    using finalize_without_change [OF ok o] by blast
  have r: "random_ok (\<lambda>_. 0)" by (simp add: random_ok_def)
  have "length (outputs ?t) + length ([] :: nat list) < 2 ^ 53 - 1" by (simp add: o)
  from finalize_pays_recipient_and_fee [OF r ok this u] o u show ?thesis by auto
qed

text \<open>A transaction for given outputs can change an output that was asked for: when two outputs are
  requested and no change output is made, what the fee leaves, which may be negative, is added to the
  second one.\<close>

theorem requested_output_absorbs_rest:
  assumes "random_ok rnd" and "amounts_ok t" and "outputs t = [a, b]"
    and "fee_of t < 546 + 2 * (int (wallet_size t) + 34)" and "length cks < 2 ^ 53 - 3"
    and "finalizeTransaction E rnd p cks keys False t = Inr (u, k, p3)"
  shows "length (outputs u) = 2 \<and> outputs u ! 0 = a \<and> out_script (outputs u ! 1) = out_script b \<and>
    int (satoshis (outputs u ! 1)) = int (satoshis b) + (fee_of t - 2 * int (wallet_size t))"
proof -
  define t1 where "t1 = t\<lparr>cachedInput := Some (in_sum t), cachedOutput := Some (out_sum t)\<rparr>"
  let ?ks = "fst (shuffleArray rnd p cks)"
  have w: "wallet_size t1 = wallet_size t" "in_sum t1 = in_sum t" "out_sum t1 = out_sum t" "outputs t1 = [a, b]"
    using assms(3) by (simp_all add: t1_def wallet_size_def in_sum_def out_sum_def)
  have ok1: "amounts_ok t1" unfolding t1_def by (rule amounts_ok_cached [OF assms(2)])
  obtain v q where v: "change_loop E rnd (oom E (int (satoshis a))) (p + (length cks - 1)) 0 ?ks t = Inr (v, q)"
    and v1: "v = t \<or> v = t1"
  proof (cases ?ks)
    case Nil
    then show ?thesis using that by simp
  next
    case (Cons c cs)
    then show ?thesis
      using that assms(4)
      by (simp add: tx_amounts_eq [OF assms(2)] t1_def [symmetric] Let_def w fee_of_def wallet_constants)
  qed
  have ok: "amounts_ok v" and ov: "outputs v = [a, b]" and sv: "fee_of v = fee_of t" "wallet_size v = wallet_size t"
    using v1 ok1 assms(2,3) w by (auto simp: fee_of_def)
  from assms(6) obtain t2 where sw: "sweep rnd q v = Inr t2" and sgn: "tx_sign (signer.truncate E) 0 Ecdsa keys t2 = Inr u"
    unfolding finalizeTransaction_def assms(3) Let_def
    by (auto simp: v ov rmap_Inr_iff simp del: One_nat_def elim!: rbind_InrE split: prod.splits)
  from sweep_spec [OF assms(1) ok _ _ sw] ov obtain j add where
    s: "length (outputs t2) = 2" "1 \<le> j" "j < 2" "\<And>i. i \<noteq> j \<Longrightarrow> outputs t2 ! i = [a, b] ! i"
      "out_script (outputs t2 ! j) = out_script ([a, b] ! j)"
      "int (satoshis (outputs t2 ! j)) = int (satoshis ([a, b] ! j)) + (fee_of v - 2 * int (wallet_size v))"
    by (auto simp: fee_of_def)
  have j: "j = 1" using s(2,3) by simp
  have "outputs u = outputs t2" by (rule same_but_scripts_facts [OF tx_sign_same [OF sgn]])
  then show ?thesis using s [unfolded j] s(4) [of 0] j sv by simp
qed

theorem requested_output_absorbs_rest_witness:
  "\<exists>u. finalizeTransaction wallet_demo (\<lambda>_. 0) 0 [] [] False (funded 3000 [demo_output 1000, demo_output 1900]) = Inr (u, 0, 1) \<and>
    satoshis (outputs u ! 1) = 1512"
proof -
  let ?t = "funded 3000 [demo_output 1000, demo_output 1900]"
  have ok: "amounts_ok ?t" by (rule funded_ok) (simp_all add: demo_output_def)
  have o: "outputs ?t = [demo_output 1000, demo_output 1900]" by (simp add: funded_def)
  have r: "random_ok (\<lambda>_. 0)" by (simp add: random_ok_def)
  have f: "fee_of ?t < 546 + 2 * (int (wallet_size ?t) + 34)" "fee_of ?t - 2 * int (wallet_size ?t) = - 388"
    by (simp_all add: fee_of_def funded_sums demo_output_def)
  have "\<exists>u. sweep (\<lambda>_. 0) 0 ?t = Inr u \<and> hasAllUtxoInfo u"
    by (simp add: sweep_def tx_amounts_eq [OF ok] funded_sums Let_def wallet_size_def wallet_constants rand_index_def o
        set_satoshis_def checkArgument_def) (simp add: funded_def hasAllUtxoInfo_def)
  then obtain u where u: "finalizeTransaction wallet_demo (\<lambda>_. 0) 0 [] [] False ?t = Inr (u, 0, 1)"
    by (auto simp: finalizeTransaction_def o shuffleArray_def Let_def tx_sign_no_keys)
  from requested_output_absorbs_rest [OF r ok o f(1) _ u] f(2) u show ?thesis by (auto simp: demo_output_def)
qed

lemma transaction_set_facts:
  assumes "store_ok (storage w)" and "random_ok rnd" and "length (changeKeys w) < 2 ^ 53 - 2"
    and "total_sats (usable_coins (storage w)) < 2 ^ 53"
    and "constructTransactionSet E rnd addressGenerator amount w = Inr (bs, v)"
  shows "sum_list (map paid bs) = amount \<and> list_all bundle_ok bs \<and>
    set (concat (map b_used bs)) \<subseteq> set (usable_coins (storage w)) \<and>
    distinct (map calcUtxoId (concat (map b_used bs))) \<and> length bs \<le> length (usable_coins (storage w)) \<and>
    (\<forall>i < length bs. pays E (addressGenerator i) (bs ! i))"
proof -
  let ?us = "sort_key amount_sats (usable_coins (storage w))"
  have m: "mset ?us = mset (usable_coins (storage w))" by simp
  from assms(5) have "build_set E rnd (changeKeys w) addressGenerator (max ((amount + 1) div 2) minimumNewInputAmount) 0 0
      amount ?us = Inr bs"
    by (auto simp: constructTransactionSet_def buildTransactionSetForExplicitAmount_def rmap_Inr_iff)
  moreover have "total_sats ?us < 2 ^ 53" using total_sats_mset [of ?us "[]" "usable_coins (storage w)"] m assms(4)
    by (simp add: total_sats_def)
  moreover have d: "distinct (map calcUtxoId ?us)"
    using usable_coins_distinct [OF assms(1)] m mset_eq_imp_distinct_iff by (metis mset_map)
  ultimately have b: "sum_list (map paid bs) = amount" "mset (concat (map b_used bs)) \<subseteq># mset ?us"
      "length bs \<le> length ?us" "list_all bundle_ok bs" "\<forall>i < length bs. pays E (addressGenerator i) (bs ! i)"
    using build_set_spec [OF assms(2,3), of ?us E addressGenerator _ 0 0 amount bs] by fastforce+
  have "image_mset calcUtxoId (mset (concat (map b_used bs))) \<subseteq># image_mset calcUtxoId (mset ?us)"
    using b(2) by (rule image_mset_subseteq_mono)
  then have "mset (map calcUtxoId (concat (map b_used bs))) \<subseteq># mset (map calcUtxoId ?us)" by (simp only: mset_map)
  then have "distinct (map calcUtxoId (concat (map b_used bs)))"
    using d by (metis distinct_append mset_append mset_eq_imp_distinct_iff mset_subset_eq_exists_conv ex_mset)
  moreover have "set (concat (map b_used bs)) \<subseteq> set (usable_coins (storage w))"
    using constructTransactionSet_used [OF assms(5)] by blast
  ultimately show ?thesis using b by simp
qed

text \<open>C25. A transaction set pays the asked amount exactly.  Its coins are usable coins of the wallet, none
  is used twice, there are no more transactions than coins, and every transaction keeps the
  size limit and the fee, and has its recipient where the set says; the i-th one pays the i-th address.\<close>

theorem transaction_set_pays_amount:
  assumes "store_ok (storage w)" and "random_ok rnd" and "length (changeKeys w) < 2 ^ 53 - 2"
    and "total_sats (usable_coins (storage w)) < 2 ^ 53"
    and "constructTransactionSet E rnd addressGenerator amount w = Inr (bs, v)"
  shows "sum_list (map paid bs) = amount \<and> list_all bundle_ok bs \<and>
    set (concat (map b_used bs)) \<subseteq> set (usable_coins (storage w)) \<and>
    distinct (map calcUtxoId (concat (map b_used bs))) \<and> length bs \<le> length (usable_coins (storage w)) \<and>
    (\<forall>i < length bs. pays E (addressGenerator i) (bs ! i))"
  using assms by (rule transaction_set_facts)


text \<open>Following a transaction does release a used coin: an output of the wallet is stored again as not frozen.\<close>

theorem followed_transaction_releases_coin:
  assumes "store_ok (storage w)" and "getById (calcId tid k) (storage w) = Some u" and "own_address w (co_script o1) = Inr (Some d)"
    and "add_output tid (k, o1) w = Inr v"
  shows "\<exists>c. getById (calcId tid k) (storage v) = Some c \<and> \<not> frozen c"
proof -
  have "calcId tid k \<notin> deletedUtxos (storage w)" using assms(1,2) by (auto simp: store_ok_def getById_def)
  with assms(3,4) show ?thesis by (auto simp: add_output_def getById_put calcUtxoId_def chain_coin_def)
qed

lemma demo_coin_sats [simp]: "amount_sats (demo_coin t n) = n" "privKey (demo_coin t n) = 0"
  by (simp_all add: demo_coin_def)

definition holder :: "string \<Rightarrow> nat \<Rightarrow> nat wallet" where
  "holder t n = demo_wallet\<lparr>storage := put (demo_coin t n) (empty_store [])\<rparr>"

lemma spender_holder: "spender n = holder ''aa'' n"
  by (simp add: spender_def holder_def)

lemma holder_coins: "usable_coins (storage (holder t n)) = [demo_coin t n]"
  by (simp add: holder_def usable_coins_def getUtxoMap_def put_def empty_store_def Let_def map_set_def)
    (simp add: demo_coin_def)

lemma holder_ok: "store_ok (storage (holder t n))"
  by (simp add: holder_def put_ok store_ok_empty well_keyed_def)

lemmas spender_coins = holder_coins [of "''aa''", folded spender_holder]
  and spender_ok = holder_ok [of "''aa''", folded spender_holder]

text \<open>One coin of 10,000 satoshis pays 9,000 of them with one transaction that has no change.\<close>

lemma set_of_one:
  fixes E :: "(nat, 'p) wallet_env"
  assumes a: "\<And>a. address_hash E a = Inr (replicate 20 1)" and other: "key_hash160 E (key_bytes E (public_key E 0)) \<noteq> replicate 20 1"
    and hex: "isHexa tid" "length tid \<le> 64" and b: "rbind (gen 0) (key_script E) = Inr b"
  shows "\<exists>u v. constructTransactionSet E (\<lambda>_. 0) gen 9000 (holder tid 10000) =
      Inr ([\<lparr>b_tx = u, b_vout = 0, b_used = [demo_coin tid 10000]\<rparr>], v) \<and>
    inputs u = [\<lparr>prevTxId = of_hex tid, outputIndex = 0, sequenceNumber = DEFAULT_SEQNUMBER, in_script = [],
     in_output = Some \<lparr>satoshis = 10000, satoshisBN = 10000, out_script = script_bytes (p2pkh (replicate 20 1))\<rparr>,
     in_kind = PublicKeyHashInput\<rparr>] \<and>
    outputs u = [\<lparr>satoshis = 9000, satoshisBN = 9000, out_script = b\<rparr>] \<and>
    version u = version new_tx \<and> nLockTime u = nLockTime new_tx"
proof -
  let ?c = "demo_coin tid 10000"
  let ?in = "\<lparr>prevTxId = of_hex tid, outputIndex = 0, sequenceNumber = DEFAULT_SEQNUMBER, in_script = [],
     in_output = Some \<lparr>satoshis = 10000, satoshisBN = 10000, out_script = script_bytes (p2pkh (replicate 20 1))\<rparr>,
     in_kind = PublicKeyHashInput\<rparr>"
  define t where "t = uncheckedAddInput ?in new_tx"
  have st: "stage_input E ?c new_tx = Inr t"
    using stage_input_eq [OF a, of "?c" new_tx] hex unfolding t_def by (simp add: demo_coin_def new_tx_def)
  have w: "wallet_size t = 174" by (simp add: t_def uncheckedAddInput_def new_tx_def wallet_size_def)
  have "enough_inputs 9000 10000 174" by (simp add: enough_inputs_def wallet_constants Let_def)
  then have pick: "pick_inputs E 9000 5120 [?c] new_tx 0 [] = Inr (t, 10000, [?c], [])"
    by (subst pick_inputs.simps)
      (simp add: Let_def coin_to_use_def st add_double_def w)
  let ?out = "\<lparr>satoshis = 9000, satoshisBN = 9000, out_script = b\<rparr>"
  let ?t = "addOutput ?out t"
  have o: "outputs ?t = [?out]" by (simp add: t_def uncheckedAddInput_def new_tx_def)
  have sums: "in_sum ?t = 10000" "out_sum ?t = 9000" "wallet_size ?t = 209"
    by (simp_all add: in_sum_def out_sum_def wallet_size_def t_def uncheckedAddInput_def new_tx_def input_sats_def)
  have ok: "amounts_ok ?t" using sums by (simp add: amounts_ok_def) (simp add: t_def uncheckedAddInput_def new_tx_def hasAllUtxoInfo_def)
  have fee: "fee_of ?t < 546 + 2 * (int (wallet_size ?t) + 34)" by (simp add: fee_of_def sums)
  have hash: "getPublicKeyHash (p2pkh (replicate 20 1)) = Inr (replicate 20 1)"
    by (simp add: getPublicKeyHash_def p2pkh_types checkState_def) (simp add: p2pkh_def)
  have sign: "tx_sign (signer.truncate E) 0 Ecdsa [0] v = Inr v" if "inputs v = inputs ?t" for v
    using that p2pkh_bytes_eq [of "replicate 20 1"] hash other
    by (simp add: tx_sign_def tx_sign_key_def hasAllUtxoInfo_def checkState_def t_def uncheckedAddInput_def new_tx_def
        getSignatures_def input_getSignatures_def spent_script_def spent_output_def output_script_def signer.defs)
  obtain u where u: "finalizeTransaction E (\<lambda>_. 0) 0 [] [0] True ?t = Inr (u, 0, 0)" "wallet_size u = 209"
      "outputs u = [?out]" "inputs u = inputs ?t" "version u = version ?t" "nLockTime u = nLockTime ?t"
    using finalize_without_change [OF ok o fee sign, of "\<lambda>_. 0" 0 True] sums by auto
  have "build_set E (\<lambda>_. 0) [] gen 5120 0 0 9000 [?c] =
      Inr [\<lparr>b_tx = u, b_vout = 0, b_used = [?c]\<rparr>]"
    by (subst build_set.simps)
      (simp add: pick Let_def w b mk_output_Inr [THEN iffD2] u wallet_constants build_set.simps [of _ _ _ _ _ _ _ 0])
  moreover have "inputs u = [?in]" "outputs u = [?out]" "version u = version new_tx" "nLockTime u = nLockTime new_tx"
    using u(3-) by (simp_all add: t_def uncheckedAddInput_def addOutput_def new_tx_def)
  ultimately show ?thesis
    by (simp add: constructTransactionSet_def buildTransactionSetForExplicitAmount_def holder_coins)
      (simp add: holder_def demo_wallet_def wallet_constants)
qed

lemma spender_set: "\<exists>u v. constructTransactionSet wallet_demo (\<lambda>_. 0) (\<lambda>_. Inr 5) 9000 (spender 10000) =
    Inr ([\<lparr>b_tx = u, b_vout = 0, b_used = [demo_coin ''aa'' 10000]\<rparr>], v)"
proof -
  have hex: "isHexa ''aa''" by code_simp
  obtain b where b: "rbind (Inr 5) (key_script wallet_demo) = Inr b"
    using p2pkh_bytes_eq [of "replicate 20 0"] by (auto simp: key_script_def wallet_demo_def)
  have a: "address_hash wallet_demo a = Inr (replicate 20 1)" for a by (simp add: wallet_demo_def)
  have "key_hash160 wallet_demo (key_bytes wallet_demo (public_key wallet_demo 0)) \<noteq> replicate 20 1"
    by (simp add: wallet_demo_def)
  from set_of_one [OF a this hex _, of "\<lambda>_. Inr 5"] b show ?thesis unfolding spender_holder by fastforce
qed

lemma spender_random: "random_ok (\<lambda>_. 0)"
  by (simp add: random_ok_def)

theorem transaction_set_pays_amount_witness:
  "\<exists>bs v. constructTransactionSet wallet_demo (\<lambda>_. 0) (\<lambda>_. Inr 5) 9000 (spender 10000) = Inr (bs, v) \<and>
    bs \<noteq> [] \<and> sum_list (map paid bs) = 9000"
proof -
  obtain u v where c: "constructTransactionSet wallet_demo (\<lambda>_. 0) (\<lambda>_. Inr 5) 9000 (spender 10000) =
    Inr ([\<lparr>b_tx = u, b_vout = 0, b_used = [demo_coin ''aa'' 10000]\<rparr>], v)" using spender_set by blast
  have "length (changeKeys (spender 10000)) < 2 ^ 53 - 2" by (simp add: spender_def demo_wallet_def)
  moreover have "total_sats (usable_coins (storage (spender 10000))) < 2 ^ 53" by (simp add: spender_coins total_sats_def)
  ultimately show ?thesis using transaction_set_pays_amount [OF spender_ok spender_random _ _ c] c by blast
qed


end
