(* ===== verification/CashAddr.thy ===== *)
theory CashAddr
  imports Complex_Main JsText
begin

text \<open>
  The text form of addresses: \<^verbatim>\<open>lib/util/base32.js\<close>, \<^verbatim>\<open>lib/util/convertBits.js\<close> and the checksum of
  \<^verbatim>\<open>lib/address.js\<close>.  The signed 32-bit integers of the bit operators are \<open>32 word\<close>s.  The checksum
  is shown to be a linear step on 40-bit words: appending the digits of the checksum gives
  the checksum zero, and a change confined to eight consecutive digits never does.
\<close>

section \<open>Base 32 text\<close>

definition CHARSET :: string where
  "CHARSET = ''qpzry9x8gf2tvdw0s3jn54khce6mua7l''"

definition CHARSET_INVERSE_INDEX :: "(char \<times> nat) list" where
  "CHARSET_INVERSE_INDEX =
     [(CHR ''q'', 0), (CHR ''p'', 1), (CHR ''z'', 2), (CHR ''r'', 3), (CHR ''y'', 4), (CHR ''9'', 5),
      (CHR ''x'', 6), (CHR ''8'', 7), (CHR ''g'', 8), (CHR ''f'', 9), (CHR ''2'', 10), (CHR ''t'', 11),
      (CHR ''v'', 12), (CHR ''d'', 13), (CHR ''w'', 14), (CHR ''0'', 15), (CHR ''s'', 16),
      (CHR ''3'', 17), (CHR ''j'', 18), (CHR ''n'', 19), (CHR ''5'', 20), (CHR ''4'', 21),
      (CHR ''k'', 22), (CHR ''h'', 23), (CHR ''c'', 24), (CHR ''e'', 25), (CHR ''6'', 26),
      (CHR ''m'', 27), (CHR ''u'', 28), (CHR ''a'', 29), (CHR ''7'', 30), (CHR ''l'', 31)]"

primrec base32_encode :: "nat list \<Rightarrow> string res" where
  "base32_encode [] = Inr []"
| "base32_encode (v # data) =
     rbind (checkArgument (v < 32) ''value'') (\<lambda>_. rmap (\<lambda>s. CHARSET ! v # s) (base32_encode data))"

primrec base32_decode :: "string \<Rightarrow> nat list res" where
  "base32_decode [] = Inr []"
| "base32_decode (c # s) =
     (case map_of CHARSET_INVERSE_INDEX c of
        None \<Rightarrow> Inl (InvalidArgument ''value'')
      | Some v \<Rightarrow> rmap (\<lambda>data. v # data) (base32_decode s))"

lemma charset_inverse: "v < 32 \<Longrightarrow> map_of CHARSET_INVERSE_INDEX (CHARSET ! v) = Some v"
proof -
  have "list_all (\<lambda>v. map_of CHARSET_INVERSE_INDEX (CHARSET ! v) = Some v) [0..<32]" by code_simp
  then show "v < 32 \<Longrightarrow> map_of CHARSET_INVERSE_INDEX (CHARSET ! v) = Some v"
    by (simp add: list_all_iff)
qed

lemma charset_index: "map_of CHARSET_INVERSE_INDEX c = Some v \<Longrightarrow> v < 32 \<and> CHARSET ! v = c"
proof -
  have "list_all (\<lambda>(c, v). v < 32 \<and> CHARSET ! v = c) CHARSET_INVERSE_INDEX" by code_simp
  moreover assume "map_of CHARSET_INVERSE_INDEX c = Some v"
  ultimately show ?thesis unfolding list_all_iff by (auto dest!: map_of_SomeD)
qed

lemma base32_encode_eq: "list_all (\<lambda>v. v < 32) ds \<Longrightarrow> base32_encode ds = Inr (map (\<lambda>v. CHARSET ! v) ds)"
  by (induction ds) (simp_all add: checkArgument_def)

lemma base32_decode_digits:
  "list_all (\<lambda>v. v < 32) ds \<Longrightarrow> base32_decode (map (\<lambda>v. CHARSET ! v) ds) = Inr ds"
  by (induction ds) (simp_all add: charset_inverse)

lemma base32_decode_Inr:
  "base32_decode s = Inr ds \<Longrightarrow> list_all (\<lambda>v. v < 32) ds \<and> s = map (\<lambda>v. CHARSET ! v) ds"
proof (induction s arbitrary: ds)
  case (Cons c s)
  then obtain v es where "map_of CHARSET_INVERSE_INDEX c = Some v" "base32_decode s = Inr es" "ds = v # es"
    by (auto simp: rmap_Inr_iff split: option.splits)
  then show ?case using Cons.IH charset_index by simp
qed simp

section \<open>Regrouping bits\<close>

text \<open>
  The accumulator is the signed 32-bit integer of the shift operators and is never masked, so
  that its high bits are lost.  The inner loop does not end when \<open>to\<close> is zero.
\<close>

partial_function (option) take_groups ::
  "nat \<Rightarrow> 32 word \<Rightarrow> nat \<Rightarrow> nat list \<Rightarrow> (nat \<times> nat list) option" where
  "take_groups to_bits acc bits result =
     (if to_bits \<le> bits
      then take_groups to_bits acc (bits - to_bits)
             (result @ [unat (signed_drop_bit (bits - to_bits) acc AND (push_bit to_bits 1 - 1))])
      else Some (bits, result))"

declare take_groups.simps [code]

fun regroup :: "nat \<Rightarrow> nat \<Rightarrow> nat list \<Rightarrow> 32 word \<Rightarrow> nat \<Rightarrow> nat list \<Rightarrow>
    (32 word \<times> nat \<times> nat list) res option" where
  "regroup from_bits to_bits [] acc bits result = Some (Inr (acc, bits, result))"
| "regroup from_bits to_bits (value # data) acc bits result =
     (if signed_drop_bit from_bits (word_of_nat value :: 32 word) \<noteq> 0
      then Some (Inl (InvalidArgument ''value''))
      else let acc = push_bit from_bits acc OR word_of_nat value
           in Option.bind (take_groups to_bits acc (bits + from_bits) result) (\<lambda>(bits, result).
                regroup from_bits to_bits data acc bits result))"

definition convertBits :: "nat list \<Rightarrow> nat \<Rightarrow> nat \<Rightarrow> bool \<Rightarrow> nat list res option" where
  "convertBits data from_bits to_bits strict =
     map_option (\<lambda>r. rbind r (\<lambda>(acc, bits, result).
       let rest = push_bit (to_bits - bits) acc AND (push_bit to_bits 1 - 1)
       in if \<not> strict
          then Inr (if bits > 0 then result @ [unat rest] else result)
          else rmap (\<lambda>_. result) (checkState (\<not> (from_bits \<le> bits \<or> rest \<noteq> 0))
                 ''Conversion requires padding but strict mode was used'')))
       (regroup from_bits to_bits data 0 0 [])"

section \<open>The checksum\<close>

definition GENERATOR1 :: "32 word list" where
  "GENERATOR1 = [0x98, 0x79, 0xf3, 0xae, 0x1e]"

definition GENERATOR2 :: "32 word list" where
  "GENERATOR2 = [0xf2bc8e61, 0xb76d99e2, 0x3e5fb3c4, 0x2eabe2a8, 0x4f43e470]"

primrec xor_generators :: "nat \<Rightarrow> 32 word \<Rightarrow> 32 word \<times> 32 word \<Rightarrow> 32 word \<times> 32 word" where
  "xor_generators 0 C c = c"
| "xor_generators (Suc k) C c =
     (let (c0, c1) = xor_generators k C c
      in if C AND push_bit k 1 \<noteq> 0 then (c0 XOR GENERATOR1 ! k, c1 XOR GENERATOR2 ! k) else (c0, c1))"

definition polymod_step :: "nat \<Rightarrow> 32 word \<times> 32 word \<Rightarrow> 32 word \<times> 32 word" where
  "polymod_step d = (\<lambda>(c0, c1).
     let C = drop_bit 3 c0;
         c0 = push_bit 5 (c0 AND 0x07) OR drop_bit 27 c1;
         c1 = push_bit 5 (c1 AND 0x07ffffff) XOR word_of_nat d
     in xor_generators (length GENERATOR1) C (c0, c1))"

definition polymod :: "nat list \<Rightarrow> int" where
  "polymod data =
     (let (c0, c1) = fold polymod_step data (0, 1);
          c1 = c1 XOR 1;
          low = (if sint c1 < 0 then sint (c1 XOR push_bit 31 1) + 2 ^ 30 * 2 else sint c1)
      in sint c0 * 2 ^ 30 * 4 + low)"

text \<open>The quotients are fractions; the bit operator truncates them.  They are exact as doubles.\<close>

primrec checksum_digits :: "nat \<Rightarrow> rat \<Rightarrow> nat list" where
  "checksum_digits 0 checksum = []"
| "checksum_digits (Suc k) checksum = nat (js_and (\<lfloor>checksum\<rfloor>) 31) # checksum_digits k (checksum / 32)"

definition checksumToArray :: "int \<Rightarrow> nat list" where
  "checksumToArray checksum = rev (checksum_digits 8 (of_int checksum))"

definition prefixToArray :: "string \<Rightarrow> nat list" where
  "prefixToArray prefix = map (\<lambda>c. of_char c AND 31) prefix"

definition validChecksum :: "string \<Rightarrow> nat list \<Rightarrow> bool" where
  "validChecksum prefix payload \<longleftrightarrow> polymod ((prefixToArray prefix @ [0]) @ payload) = 0"


section \<open>The value of a list of digits\<close>

definition dval :: "nat \<Rightarrow> nat list \<Rightarrow> nat" where
  "dval k ds = foldl (\<lambda>a d. a * 2 ^ k + d) 0 ds"

lemma dval_simps [simp]: "dval k [] = 0" "dval k (ds @ [d]) = dval k ds * 2 ^ k + d"
  by (simp_all add: dval_def)

lemma dval_less: "list_all (\<lambda>d. d < 2 ^ k) ds \<Longrightarrow> dval k ds < 2 ^ (k * length ds)"
proof (induction ds rule: rev_induct)
  case (snoc d ds)
  then have "d < 2 ^ k" "dval k ds + 1 \<le> 2 ^ (k * length ds)" by simp_all
  then have "dval k ds * 2 ^ k + d < (dval k ds + 1) * 2 ^ k" by simp
  also have "\<dots> \<le> 2 ^ (k * length ds) * 2 ^ k"
    using \<open>dval k ds + 1 \<le> _\<close> by (rule mult_le_mono1)
  finally show ?case by (simp add: power_add mult.commute)
qed simp

lemma dval_inj:
  assumes "length ds = length es" and "list_all (\<lambda>d. d < 2 ^ k) ds" and "list_all (\<lambda>d. d < 2 ^ k) es"
    and "dval k ds = dval k es"
  shows "ds = es"
  using assms
proof (induction ds arbitrary: es rule: rev_induct)
  case (snoc d ds)
  then obtain e fs where es: "es = fs @ [e]" by (cases es rule: rev_cases) auto
  with snoc.prems have d: "d < 2 ^ k" "e < 2 ^ k" and eq: "dval k ds * 2 ^ k + d = dval k fs * 2 ^ k + e"
    by simp_all
  have "dval k ds = (dval k ds * 2 ^ k + d) div 2 ^ k" using d by simp
  also have "\<dots> = dval k fs" unfolding eq using d by simp
  finally have "dval k ds = dval k fs" .
  moreover from this eq have "d = e" by simp
  ultimately show ?case using snoc es by simp
qed simp

section \<open>Regrouping keeps the value\<close>

lemma digit_of_acc:
  assumes "n + k \<le> 32"
  shows "unat (signed_drop_bit n (acc :: 32 word) AND (push_bit k 1 - 1)) = unat acc div 2 ^ n mod 2 ^ k"
proof -
  have "signed_drop_bit n acc AND mask k = drop_bit n acc AND mask k"
    by (rule bit_word_eqI) (use assms in \<open>auto simp: bit_simps\<close>)
  moreover have "unat (drop_bit n acc AND mask k) = take_bit k (drop_bit n (unat acc))"
    by (simp only: take_bit_eq_mask [symmetric] unsigned_take_bit_eq unsigned_drop_bit_eq)
       (use assms in \<open>simp add: take_bit_drop_bit add.commute\<close>)
  moreover have "push_bit k 1 - 1 = (mask k :: 32 word)"
    by (simp add: mask_eq_exp_minus_1)
  ultimately show ?thesis by (simp only: take_bit_eq_mod drop_bit_eq_div)
qed

lemma take_groups_spec:
  assumes "0 < k" and "bits \<le> 32"
  shows "\<exists>ds. take_groups k acc bits r = Some (bits mod k, r @ ds) \<and> length ds = bits div k \<and>
     list_all (\<lambda>d. d < 2 ^ k) ds \<and>
     dval k (r @ ds) * 2 ^ (bits mod k) + unat acc mod 2 ^ (bits mod k) =
       dval k r * 2 ^ bits + unat acc mod 2 ^ bits"
  using assms(2)
proof (induction bits arbitrary: r rule: less_induct)
  case (less bits)
  show ?case
  proof (cases "k \<le> bits")
    case False
    then show ?thesis by (subst take_groups.simps) auto
  next
    case True
    define n where "n = bits - k"
    define d where "d = unat acc div 2 ^ n mod 2 ^ k"
    have bits: "bits = n + k" using True by (simp add: n_def)
    have step: "take_groups k acc bits r = take_groups k acc n (r @ [d])"
      using True less.prems digit_of_acc [of n k acc]
      by (subst take_groups.simps) (simp add: n_def d_def)
    have "unat acc mod 2 ^ bits = d * 2 ^ n + unat acc mod 2 ^ n"
      unfolding bits power_add d_def by (simp add: mod_mult2_eq)
    then have v: "dval k (r @ [d]) * 2 ^ n + unat acc mod 2 ^ n = dval k r * 2 ^ bits + unat acc mod 2 ^ bits"
      by (simp add: bits power_add algebra_simps)
    have "n < bits" "n \<le> 32" using assms(1) less.prems bits by simp_all
    from less.IH [OF this, of "r @ [d]"] obtain ds where
      ds: "take_groups k acc n (r @ [d]) = Some (n mod k, (r @ [d]) @ ds)" "length ds = n div k"
      "list_all (\<lambda>d. d < 2 ^ k) ds"
      "dval k ((r @ [d]) @ ds) * 2 ^ (n mod k) + unat acc mod 2 ^ (n mod k) =
         dval k (r @ [d]) * 2 ^ n + unat acc mod 2 ^ n" by blast
    have "d < 2 ^ k" by (simp add: d_def)
    moreover have "bits mod k = n mod k" "bits div k = Suc (n div k)" using assms(1) by (simp_all add: bits)
    ultimately show ?thesis using ds v step by (intro exI [of _ "d # ds"]) simp
  qed
qed

lemma acc_step:
  assumes "v < 2 ^ k" and "bits + k \<le> 32"
  shows "unat (push_bit k acc OR word_of_nat v :: 32 word) mod 2 ^ (bits + k) =
    unat acc mod 2 ^ bits * 2 ^ k + v"
proof -
  have "v < 2 ^ 32" using assms by (meson le_add2 le_trans less_le_trans one_le_numeral power_increasing)
  then have v: "unat (word_of_nat v :: 32 word) = v" by (simp add: unat_of_nat)
  have "push_bit k acc AND word_of_nat v = (0 :: 32 word)"
  proof (rule bit_word_eqI)
    fix i
    have "\<not> bit v i" if "k \<le> i" using assms(1) that
      by (metis bit_take_bit_iff leD take_bit_nat_eq_self)
    then show "bit (push_bit k acc AND word_of_nat v :: 32 word) i = bit (0 :: 32 word) i"
      by (auto simp: bit_simps)
  qed
  then have "push_bit k acc OR word_of_nat v = push_bit k acc + (word_of_nat v :: 32 word)"
    by (rule disjunctive_add_eq_or [symmetric])
  moreover have "unat (push_bit k acc) = unat acc * 2 ^ k mod 2 ^ 32"
    by (subst unsigned_push_bit_eq) (simp add: push_bit_eq_mult take_bit_eq_mod)
  ultimately have "unat (push_bit k acc OR word_of_nat v :: 32 word) = (unat acc * 2 ^ k + v) mod 2 ^ 32"
    by (simp only: unat_word_ariths v) (simp add: mod_simps)
  then have "unat (push_bit k acc OR word_of_nat v :: 32 word) mod 2 ^ (bits + k) = (unat acc * 2 ^ k + v) mod 2 ^ (bits + k)"
    using mod_mod_cancel [OF le_imp_power_dvd [OF assms(2), of "2 :: nat"]] by simp
  also have "\<dots> = unat acc mod 2 ^ bits * 2 ^ k + v"
    using assms(1) mod_mult2_eq [of "unat acc * 2 ^ k + v" "2 ^ k" "2 ^ bits"] by (simp add: power_add mult.commute)
  finally show ?thesis .
qed


lemma dval_Cons: "dval k (v # ds) = v * 2 ^ (k * length ds) + dval k ds"
proof (induction ds rule: rev_induct)
  case (snoc d ds)
  have "dval k (v # ds @ [d]) = dval k ((v # ds) @ [d])" by simp
  also have "\<dots> = dval k (v # ds) * 2 ^ k + d" by (rule dval_simps(2))
  finally show ?case using snoc by (simp add: algebra_simps power_add)
qed (simp add: dval_def)

lemma signed_drop_small: "v < 2 ^ f \<Longrightarrow> f \<le> 8 \<Longrightarrow> signed_drop_bit f (word_of_nat v :: 32 word) = 0"
proof -
  assume v: "v < 2 ^ f" and f: "f \<le> 8"
  have no: "\<not> bit v i" if "f \<le> i" for i
    using v that by (metis bit_take_bit_iff leD take_bit_nat_eq_self)
  show ?thesis by (rule bit_word_eqI) (use f in \<open>auto simp: bit_simps no\<close>)
qed

lemma rest_of_acc:
  assumes "bits \<le> k" and "k \<le> 8"
  shows "unat (push_bit (k - bits) acc AND (push_bit k 1 - 1) :: 32 word) = unat acc mod 2 ^ bits * 2 ^ (k - bits)"
proof -
  have "push_bit k 1 - 1 = (mask k :: 32 word)" by (simp add: mask_eq_exp_minus_1)
  moreover have "unat (push_bit (k - bits) acc AND mask k) = take_bit k (push_bit (k - bits) (unat acc))"
    by (simp only: take_bit_eq_mask [symmetric] unsigned_take_bit_eq unsigned_push_bit_eq)
       (use assms in simp)
  moreover have "take_bit k (push_bit (k - bits) (unat acc)) = push_bit (k - bits) (take_bit bits (unat acc))"
    using assms by (simp add: take_bit_push_bit)
  ultimately show ?thesis by (simp only: push_bit_eq_mult take_bit_eq_mod)
qed

lemma regroup_spec:
  assumes "0 < f" and "f \<le> 8" and "0 < k" and "k \<le> 8"
  shows "list_all (\<lambda>v. v < 2 ^ f) ds \<Longrightarrow> bits < k \<Longrightarrow> list_all (\<lambda>d. d < 2 ^ k) r \<Longrightarrow>
    \<exists>acc' bits' r'. regroup f k ds acc bits r = Some (Inr (acc', bits', r')) \<and> bits' < k \<and>
      bits' + k * length r' = bits + k * length r + f * length ds \<and> list_all (\<lambda>d. d < 2 ^ k) r' \<and>
      dval k r' * 2 ^ bits' + unat acc' mod 2 ^ bits' =
        (dval k r * 2 ^ bits + unat acc mod 2 ^ bits) * 2 ^ (f * length ds) + dval f ds"
proof (induction ds arbitrary: acc bits r)
  case Nil
  then show ?case by simp
next
  case (Cons v ds)
  define acc1 where "acc1 = push_bit f acc OR word_of_nat v"
  have v: "v < 2 ^ f" using Cons.prems by simp
  obtain es where es: "take_groups k acc1 (bits + f) r = Some ((bits + f) mod k, r @ es)"
    "length es = (bits + f) div k" "list_all (\<lambda>d. d < 2 ^ k) es"
    "dval k (r @ es) * 2 ^ ((bits + f) mod k) + unat acc1 mod 2 ^ ((bits + f) mod k) =
       dval k r * 2 ^ (bits + f) + unat acc1 mod 2 ^ (bits + f)"
    using take_groups_spec [OF assms(3), of "bits + f" acc1 r] assms Cons.prems by force
  have "bits + f \<le> 32" using Cons.prems assms by simp
  from acc_step [OF v this, of acc] es(4)
  have val: "dval k (r @ es) * 2 ^ ((bits + f) mod k) + unat acc1 mod 2 ^ ((bits + f) mod k) =
      (dval k r * 2 ^ bits + unat acc mod 2 ^ bits) * 2 ^ f + v"
    by (simp add: acc1_def power_add algebra_simps)
  have "signed_drop_bit f (word_of_nat v :: 32 word) = 0"
    using signed_drop_small [OF v assms(2)] .
  then have step: "regroup f k (v # ds) acc bits r = regroup f k ds acc1 ((bits + f) mod k) (r @ es)"
    by (simp add: es(1) flip: acc1_def)
  have "list_all (\<lambda>v. v < 2 ^ f) ds" "(bits + f) mod k < k" "list_all (\<lambda>d. d < 2 ^ k) (r @ es)"
    using Cons.prems es(3) assms by simp_all
  from Cons.IH [OF this, of acc1] obtain acc' bits' r' where
    r': "regroup f k ds acc1 ((bits + f) mod k) (r @ es) = Some (Inr (acc', bits', r'))" "bits' < k"
    "bits' + k * length r' = (bits + f) mod k + k * length (r @ es) + f * length ds"
    "list_all (\<lambda>d. d < 2 ^ k) r'"
    "dval k r' * 2 ^ bits' + unat acc' mod 2 ^ bits' =
       (dval k (r @ es) * 2 ^ ((bits + f) mod k) + unat acc1 mod 2 ^ ((bits + f) mod k)) * 2 ^ (f * length ds)
         + dval f ds" by blast
  have "(bits + f) mod k + k * length (r @ es) = bits + f + k * length r"
    using es(2) mod_mult_div_eq [of "bits + f" k] by (simp add: algebra_simps)
  moreover have "dval f (v # ds) = v * 2 ^ (f * length ds) + dval f ds" by (rule dval_Cons)
  ultimately show ?case
    using r' unfolding step val by (intro exI [of _ acc'] exI [of _ bits'] exI [of _ r']) (simp add: algebra_simps power_add)
qed

lemma convertBits_pad:
  assumes "0 < f" and "f \<le> 8" and "0 < k" and "k \<le> 8" and "list_all (\<lambda>v. v < 2 ^ f) ds"
  shows "\<exists>es pad. convertBits ds f k False = Some (Inr es) \<and> pad < k \<and>
    k * length es = f * length ds + pad \<and> list_all (\<lambda>d. d < 2 ^ k) es \<and>
    dval k es = dval f ds * 2 ^ pad"
proof -
  from regroup_spec [OF assms(1-4), of ds 0 "[]" 0] assms(3,5) obtain acc bits r where
    r: "regroup f k ds 0 0 [] = Some (Inr (acc, bits, r))" "bits < k"
      "bits + k * length r = f * length ds" "list_all (\<lambda>d. d < 2 ^ k) r"
      "dval k r * 2 ^ bits + unat acc mod 2 ^ bits = dval f ds" by auto
  define rest where "rest = unat acc mod 2 ^ bits * 2 ^ (k - bits)"
  have "unat (push_bit (k - bits) acc AND (push_bit k 1 - 1)) = rest"
    using rest_of_acc [of bits k acc] r(2) assms(4) by (simp add: rest_def)
  then have conv: "convertBits ds f k False = Some (Inr (if bits > 0 then r @ [rest] else r))"
    by (simp add: convertBits_def r(1))
  show ?thesis
  proof (cases "bits = 0")
    case True
    then show ?thesis using r conv assms(3) by (intro exI [of _ r] exI [of _ 0]) simp
  next
    case False
    have k: "2 ^ bits * 2 ^ (k - bits) = (2 :: nat) ^ k" using r(2) by (simp flip: power_add)
    have "unat acc mod 2 ^ bits * 2 ^ (k - bits) < 2 ^ bits * 2 ^ (k - bits)" by simp
    then have "rest < 2 ^ k" unfolding rest_def k .
    moreover have "dval k (r @ [rest]) = (dval k r * 2 ^ bits + unat acc mod 2 ^ bits) * 2 ^ (k - bits)"
      using k by (simp add: rest_def algebra_simps)
    ultimately show ?thesis using r conv False assms(3)
      by (intro exI [of _ "r @ [rest]"] exI [of _ "k - bits"]) simp
  qed
qed

lemma convertBits_strict:
  assumes "0 < f" and "f \<le> 8" and "0 < k" and "k \<le> 8" and "list_all (\<lambda>v. v < 2 ^ f) es"
    and "f * length es = k * length ds + pad" and "pad < f" "pad < k" and "dval f es = dval k ds * 2 ^ pad"
    and "list_all (\<lambda>v. v < 2 ^ k) ds"
  shows "convertBits es f k True = Some (Inr ds)"
proof -
  from regroup_spec [OF assms(1-4), of es 0 "[]" 0] assms(3,5) obtain acc bits r where
    r: "regroup f k es 0 0 [] = Some (Inr (acc, bits, r))" "bits < k"
      "bits + k * length r = f * length es" "list_all (\<lambda>d. d < 2 ^ k) r"
      "dval k r * 2 ^ bits + unat acc mod 2 ^ bits = dval f es" by auto
  have "(bits + k * length r) mod k = (pad + k * length ds) mod k" using r(3) assms(6) by simp
  then have bits: "bits = pad" using r(2) assms(8) by simp
  then have len: "length r = length ds" using r(3) assms(3,6) by simp
  have val: "dval k r * 2 ^ pad + unat acc mod 2 ^ pad = dval k ds * 2 ^ pad" using r(5) assms(9) bits by simp
  then have "unat acc mod 2 ^ pad = dval k ds * 2 ^ pad mod 2 ^ pad"
    by (metis add.commute mod_mod_trivial mod_mult_self1)
  then have rest: "unat acc mod 2 ^ pad = 0" by simp
  then have "r = ds" using val len r(4) assms(10) dval_inj [of r ds k] by simp
  moreover have "push_bit (k - bits) acc AND (push_bit k 1 - 1) = 0"
    using rest_of_acc [of bits k acc] r(2) assms(4) rest bits by (simp add: unat_eq_0)
  ultimately show ?thesis using assms(7) bits r(1)
    by (simp add: convertBits_def checkState_def)
qed

text \<open>Regrouping bytes in groups of five bits with padding is undone by the strict direction.\<close>

lemma convertBits_roundtrip:
  assumes "list_all (\<lambda>v. v < 256) ds"
  shows "\<exists>es. convertBits ds 8 5 False = Some (Inr es) \<and> list_all (\<lambda>d. d < 32) es \<and>
    length es = (8 * length ds + 4) div 5 \<and> convertBits es 5 8 True = Some (Inr ds)"
proof -
  from convertBits_pad [of 8 5 ds] assms obtain es pad where
    es: "convertBits ds 8 5 False = Some (Inr es)" "pad < 5" "5 * length es = 8 * length ds + pad"
      "list_all (\<lambda>d. d < 2 ^ 5) es" "dval 5 es = dval 8 ds * 2 ^ pad" by auto
  moreover from this have "convertBits es 5 8 True = Some (Inr ds)"
    using assms by (intro convertBits_strict [where pad = pad]) simp_all
  moreover have "length es = (8 * length ds + 4) div 5" using es(2,3) by linarith
  ultimately show ?thesis by (intro exI [of _ es]) simp
qed

section \<open>The checksum as a linear step on 40 bits\<close>

definition gens :: "40 word list" where
  "gens = [0x98f2bc8e61, 0x79b76d99e2, 0xf33e5fb3c4, 0xae2eabe2a8, 0x1e4f43e470]"

definition pick :: "nat \<Rightarrow> 40 word \<Rightarrow> 40 word" where
  "pick i c = (if bit c (35 + i) then gens ! i else 0)"

definition poly_mult :: "40 word \<Rightarrow> 40 word" where
  "poly_mult c = push_bit 5 c XOR (pick 0 c XOR (pick 1 c XOR (pick 2 c XOR (pick 3 c XOR pick 4 c))))"

definition poly_step :: "nat \<Rightarrow> 40 word \<Rightarrow> 40 word" where
  "poly_step d c = poly_mult c XOR word_of_nat d"

definition forty :: "32 word \<times> 32 word \<Rightarrow> 40 word" where
  "forty c = push_bit 32 (ucast (fst c)) XOR ucast (snd c)"

lemma forty_xor: "forty (a XOR a', b XOR b') = forty (a, b) XOR forty (a', b')"
  by (rule bit_word_eqI) (auto simp: forty_def bit_simps)

lemma five_cases: "(i :: nat) < 5 \<Longrightarrow> i = 0 \<or> i = 1 \<or> i = 2 \<or> i = 3 \<or> i = 4"
  by linarith

lemma forty_gens: "i < 5 \<Longrightarrow> forty (GENERATOR1 ! i, GENERATOR2 ! i) = gens ! i"
  by (drule five_cases) (auto simp: forty_def GENERATOR1_def GENERATOR2_def gens_def)

lemma pick_xor: "pick i (c XOR d) = pick i c XOR pick i d"
  by (simp add: pick_def bit_xor_iff)

lemma poly_mult_xor: "poly_mult (c XOR d) = poly_mult c XOR poly_mult d"
  by (simp add: poly_mult_def pick_xor push_bit_xor ac_simps)

lemma poly_mult_0 [simp]: "poly_mult 0 = 0"
  by (simp add: poly_mult_def pick_def)

lemma not_bit_high: "unat c < 2 ^ 35 \<Longrightarrow> \<not> bit (c :: 40 word) (35 + i)"
proof
  assume c: "unat c < 2 ^ 35" and "bit c (35 + i)"
  then have "bit (unat c) (35 + i)" by (simp add: bit_unsigned_iff)
  moreover have "take_bit 35 (unat c) = unat c" using c by (rule take_bit_nat_eq_self)
  ultimately show False by (metis bit_take_bit_iff le_add1 not_le)
qed

lemma poly_mult_small: "unat c < 2 ^ 35 \<Longrightarrow> poly_mult c = push_bit 5 c"
proof -
  assume "unat c < 2 ^ 35"
  then have "pick i c = 0" for i using not_bit_high [of c i] by (simp only: pick_def if_False)
  then show ?thesis by (simp add: poly_mult_def)
qed

text \<open>The five generators have distinct single low bits, so no non-zero word is lost.\<close>

lemma bit_gens: "i < 5 \<Longrightarrow> j < 5 \<Longrightarrow> bit (gens ! j) i \<longleftrightarrow> i = j"
  by (drule five_cases, drule five_cases) (elim disjE; simp add: gens_def)

lemma bit_pick: "i < 5 \<Longrightarrow> j < 5 \<Longrightarrow> bit (pick j c) i \<longleftrightarrow> i = j \<and> bit c (35 + j)"
  by (auto simp: pick_def bit_gens)

lemma poly_mult_low: "i < 5 \<Longrightarrow> bit (poly_mult c) i = bit c (35 + i)"
  by (auto simp: poly_mult_def bit_simps bit_pick dest: five_cases)

lemma poly_mult_eq_0: "poly_mult c = 0 \<Longrightarrow> c = 0"
proof -
  assume z: "poly_mult c = 0"
  then have "\<not> bit c (35 + i)" if "i < 5" for i
    using poly_mult_low [OF that, of c] by simp
  then have hi: "\<not> bit c n" if "35 \<le> n" "n < 40" for n
    using that by (metis add_diff_inverse_nat less_diff_conv2 not_less numeral_plus_numeral semiring_norm(2,3,4,5,6,7,8,9,10))
  have "pick i c = 0" if "i < 5" for i using hi [of "35 + i"] that by (simp only: pick_def if_False)
  then have "push_bit 5 c = 0" using z by (simp add: poly_mult_def)
  show "c = 0"
  proof (rule bit_word_eqI)
    fix n assume n: "n < LENGTH(40)"
    show "bit c n = bit (0 :: 40 word) n"
    proof (cases "n < 35")
      case True
      have "bit (push_bit 5 c) (n + 5) = bit c n" using True by (simp add: bit_simps)
      then show ?thesis using \<open>push_bit 5 c = 0\<close> by simp
    next
      case False
      then show ?thesis using hi n by simp
    qed
  qed
qed

lemma and_bit_iff: "(C :: 32 word) AND 2 ^ i = 0 \<longleftrightarrow> \<not> bit C i"
  using and_exp_eq_0_iff_not_bit [of C i] by simp

definition sel :: "nat \<Rightarrow> 32 word \<Rightarrow> 40 word" where
  "sel i C = (if bit C i then gens ! i else 0)"

lemma forty_generator_step:
  "k < 5 \<Longrightarrow> forty (xor_generators (Suc k) C c) = forty (xor_generators k C c) XOR sel k C"
proof -
  assume k: "k < 5"
  obtain a b where ab: "xor_generators k C c = (a, b)" by fastforce
  show ?thesis using k by (simp add: ab and_bit_iff sel_def forty_xor forty_gens)
qed

lemma forty_generators:
  "forty (xor_generators 5 C c) =
     forty c XOR (sel 0 C XOR (sel 1 C XOR (sel 2 C XOR (sel 3 C XOR sel 4 C))))"
proof -
  have "forty (xor_generators (Suc (Suc (Suc (Suc (Suc 0))))) C c) =
     forty c XOR (sel 0 C XOR (sel (Suc 0) C XOR (sel (Suc (Suc 0)) C XOR
       (sel (Suc (Suc (Suc 0))) C XOR sel (Suc (Suc (Suc (Suc 0)))) C))))"
    by (simp only: forty_generator_step) (simp add: xor.assoc)
  then show ?thesis by (simp add: numeral_eq_Suc)
qed

definition small :: "32 word \<times> 32 word \<Rightarrow> bool" where
  "small c \<longleftrightarrow> take_bit 8 (fst c) = fst c"

lemma gen_small: "k < 5 \<Longrightarrow> take_bit 8 (GENERATOR1 ! k) = GENERATOR1 ! k"
  by (drule five_cases) (auto simp: GENERATOR1_def)

lemma small_generators: "k \<le> 5 \<Longrightarrow> small c \<Longrightarrow> small (xor_generators k C c)"
proof (induction k)
  case (Suc k)
  obtain a b where ab: "xor_generators k C c = (a, b)" by fastforce
  with Suc have "take_bit 8 a = a" "take_bit 8 (GENERATOR1 ! k) = GENERATOR1 ! k"
    by (simp_all add: small_def gen_small)
  then show ?case by (simp add: ab small_def take_bit_xor)
qed simp

lemma digit_bit: "d < 32 \<Longrightarrow> 5 \<le> n \<Longrightarrow> \<not> bit (d :: nat) n"
proof
  assume d: "d < 32" "5 \<le> n" "bit d n"
  have "take_bit 5 d = d" using d(1) by (intro take_bit_nat_eq_self) simp
  then have "n < 5" using d(3) by (metis bit_take_bit_iff)
  then show False using d(2) by simp
qed

lemma forty_shift:
  assumes "small (c0, c1)" and "d < 32"
  shows "forty (push_bit 5 (c0 AND 0x07) OR drop_bit 27 c1, push_bit 5 (c1 AND 0x07ffffff) XOR word_of_nat d)
    = push_bit 5 (forty (c0, c1)) XOR word_of_nat d"
    and "small (push_bit 5 (c0 AND 0x07) OR drop_bit 27 c1, c1')"
proof -
  have m: "c0 AND 0x07 = take_bit 3 c0" "c1 AND 0x07ffffff = take_bit 27 c1"
    by (simp_all add: take_bit_eq_mask mask_eq_exp_minus_1)
  have nb: "\<not> bit d n" if "5 \<le> n" for n using digit_bit assms(2) that .
  show "forty (push_bit 5 (c0 AND 0x07) OR drop_bit 27 c1, push_bit 5 (c1 AND 0x07ffffff) XOR word_of_nat d)
    = push_bit 5 (forty (c0, c1)) XOR word_of_nat d"
    unfolding m
  proof (rule bit_word_eqI)
    fix n assume n: "n < LENGTH(40)"
    consider "n < 5" | "5 \<le> n" "n < 32" | "32 \<le> n" by linarith
    then show "bit (forty (push_bit 5 (take_bit 3 c0) OR drop_bit 27 c1,
        push_bit 5 (take_bit 27 c1) XOR word_of_nat d)) n = bit (push_bit 5 (forty (c0, c1)) XOR word_of_nat d) n"
    proof cases
      case 1
      then show ?thesis by (simp add: forty_def bit_simps)
    next
      case 2
      then have "n - 5 < 27" "n - 5 < 40" by linarith+
      then show ?thesis using 2 by (simp add: forty_def bit_simps nb)
    next
      case 3
      then show ?thesis
      proof (cases "n < 37")
        case True
        then have "n - 5 < 40" "\<not> 5 \<le> n - 32" using 3 by linarith+
        then show ?thesis using n nb [of n] 3 True by (simp add: forty_def bit_simps)
      next
        case False
        then have "n - 37 < 3" "5 \<le> n - 32" "n - 32 < 32" "n - 32 < 40" "n - 37 < 40" using n by simp_all
        moreover have "\<not> bit c1 (n - 5)" using bit_imp_le_length [of c1 "n - 5"] False by auto
        ultimately show ?thesis using n nb [of n] 3 False by (simp add: forty_def bit_simps)
      qed
    qed
  qed
  show "small (push_bit 5 (c0 AND 0x07) OR drop_bit 27 c1, c1')"
    unfolding m small_def by (rule bit_word_eqI) (auto simp: bit_simps dest: bit_imp_le_length)
qed

lemma sel_pick: "small (c0, c1) \<Longrightarrow> i < 5 \<Longrightarrow> sel i (drop_bit 3 c0) = pick i (forty (c0, c1))"
  using bit_imp_le_length [of c1 "35 + i"] by (simp add: sel_def pick_def forty_def bit_simps) auto

lemma polymod_step_poly:
  assumes "small c" and "d < 32"
  shows "small (polymod_step d c)" and "forty (polymod_step d c) = poly_step d (forty c)"
proof -
  obtain c0 c1 where c: "c = (c0, c1)" by fastforce
  have len: "length GENERATOR1 = 5" by (simp add: GENERATOR1_def)
  note sh = forty_shift [OF assms(1) [unfolded c] assms(2)]
  show "small (polymod_step d c)"
    unfolding polymod_step_def c prod.case len Let_def
    by (intro small_generators sh(2)) simp
  show "forty (polymod_step d c) = poly_step d (forty c)"
    using sel_pick [OF assms(1) [unfolded c]]
    unfolding polymod_step_def c prod.case len Let_def forty_generators sh(1) poly_step_def poly_mult_def
    by (simp add: ac_simps)
qed

lemma polymod_fold_poly:
  "small c \<Longrightarrow> list_all (\<lambda>d. d < 32) ds \<Longrightarrow> small (fold polymod_step ds c) \<and>
     forty (fold polymod_step ds c) = fold poly_step ds (forty c)"
  by (induction ds arbitrary: c) (simp_all add: polymod_step_poly)

lemma sint_split: "sint x = uint x - (if bit x 31 then 2 ^ 32 else 0)" for x :: "32 word"
  using signed_take_bit_eq_take_bit_minus [of 31 "uint x"]
  by (simp add: sint_uint bit_uint_iff bintr_uint)

lemma odd_below_two: "odd q \<Longrightarrow> 0 \<le> q \<Longrightarrow> q < 2 \<Longrightarrow> q = 1" for q :: int
  by presburger

lemma low_unsigned:
  "(if sint x < 0 then sint (x XOR push_bit 31 1) + 2 ^ 30 * 2 else sint x) = uint (x :: 32 word)"
proof (cases "bit x 31")
  case True
  have y: "x XOR push_bit 31 1 = take_bit 31 x"
  proof (rule bit_word_eqI)
    fix n assume "n < LENGTH(32)"
    moreover have "bit (push_bit 31 (1 :: 32 word)) n \<longleftrightarrow> n = 31"
      by (simp only: bit_push_bit_iff bit_1_iff) auto
    ultimately show "bit (x XOR push_bit 31 1) n = bit (take_bit 31 x) n"
      using True by (simp only: bit_xor_iff bit_take_bit_iff) auto
  qed
  have "bit (uint x) 31" using True by (simp add: bit_uint_iff)
  from this [unfolded bit_iff_odd] have "odd (uint x div 2 ^ 31)" .
  moreover have "0 \<le> uint x div 2 ^ 31" by (simp add: pos_imp_zdiv_nonneg_iff)
  moreover have "uint x div 2 ^ 31 < 2" using uint_lt2p [of x] by simp
  ultimately have "uint x div 2 ^ 31 = 1" by (rule odd_below_two)
  then have "uint x = 2 ^ 31 + uint x mod 2 ^ 31" using div_mult_mod_eq [of "uint x" "2 ^ 31"] by simp
  moreover have "sint (take_bit 31 x) = uint x mod 2 ^ 31"
  proof -
    have "\<not> bit (take_bit 31 x) 31" by (simp only: bit_take_bit_iff) simp
    then have "sint (take_bit 31 x) = uint (take_bit 31 x)" by (simp only: sint_split if_False diff_0_right)
    then show ?thesis using unsigned_take_bit_eq [of 31 x] take_bit_eq_mod [of 31 "uint x"] by (rule trans [OF _ trans])
  qed
  moreover have "sint x < 0" using True sint_split [of x] uint_lt2p [of x] by simp
  ultimately show ?thesis unfolding y by simp
next
  case False
  then show ?thesis using sint_split [of x] by simp
qed

lemma uint_forty: "take_bit 8 c0 = c0 \<Longrightarrow> uint (forty (c0, x)) = uint c0 * 2 ^ 30 * 4 + uint x"
proof -
  assume "take_bit 8 c0 = c0"
  then have c0: "take_bit 8 (uint c0) = uint c0" by (metis unsigned_take_bit_eq)
  have "uint (forty (c0, x)) = take_bit 40 (push_bit 32 (uint c0)) XOR uint x"
    by (simp add: forty_def unsigned_xor_eq unsigned_push_bit_eq unsigned_ucast_eq take_bit_xor bintr_uint)
  also have "take_bit 40 (push_bit 32 (uint c0)) = push_bit 32 (uint c0)"
    using c0 by (simp add: take_bit_push_bit)
  also have "push_bit 32 (uint c0) XOR uint x = push_bit 32 (uint c0) + uint x"
    by (rule disjunctive_add_eq_xor [symmetric], rule bit_eqI)
       (auto simp: bit_simps dest: bit_imp_le_length)
  finally show ?thesis by (simp add: push_bit_eq_mult)
qed

lemma word_xor_digit: "d < 32 \<Longrightarrow> word_of_nat (a * 32) XOR word_of_nat d = (word_of_nat (a * 32 + d) :: 40 word)"
proof -
  assume d: "d < 32"
  have "word_of_nat (a * 32) = (push_bit 5 (word_of_nat a) :: 40 word)" by (simp add: push_bit_eq_mult)
  moreover have "push_bit 5 (word_of_nat a) AND word_of_nat d = (0 :: 40 word)"
    by (rule bit_word_eqI) (use digit_bit [OF d] in \<open>auto simp: bit_simps\<close>)
  ultimately show ?thesis by (simp add: disjunctive_add_eq_xor)
qed

lemma polymod_word:
  assumes "list_all (\<lambda>d. d < 32) ds"
  shows "polymod ds = uint (fold poly_step ds 1 XOR 1)"
proof -
  obtain c0 c1 where c: "fold polymod_step ds (0, 1) = (c0, c1)" by fastforce
  have "small (0, 1)" by (simp add: small_def)
  from polymod_fold_poly [OF this assms] have sm: "take_bit 8 c0 = c0" and
    p: "forty (c0, c1) = fold poly_step ds 1" by (simp_all add: c small_def forty_def)
  have lo: "(if sint x < 0 then sint (x XOR push_bit 31 1) + 2 ^ 30 * 2 else sint x) = uint x" for x :: "32 word"
    by (rule low_unsigned)
  have "\<not> bit (take_bit 8 c0) 31" by (simp add: bit_take_bit_iff)
  then have "sint c0 = uint c0" unfolding sm using sint_split [of c0] by simp
  moreover have "fold poly_step ds 1 XOR 1 = forty (c0, c1 XOR 1)"
    using forty_xor [of c0 0 c1 1] p by (simp add: forty_def)
  moreover have "uint (forty (c0, x)) = uint c0 * 2 ^ 30 * 4 + uint x" for x
    by (rule uint_forty [OF sm])
  ultimately show ?thesis by (simp only: polymod_def c Let_def prod.case lo)
qed

lemma fold_poly_xor: "fold poly_step (replicate k 0) (c XOR d) =
    fold poly_step (replicate k 0) c XOR fold poly_step (replicate k 0) d"
  by (induction k arbitrary: c d) (simp_all add: poly_step_def poly_mult_xor)

lemma fold_poly_split: "fold poly_step ds c = fold poly_step (replicate (length ds) 0) c XOR fold poly_step ds 0"
proof (induction ds arbitrary: c)
  case (Cons d ds)
  let ?Z = "fold poly_step (replicate (length ds) 0)"
  have "fold poly_step (d # ds) c = ?Z (poly_step d c) XOR fold poly_step ds 0"
    by (simp only: fold_simps(2)) (rule Cons.IH)
  moreover have "poly_step d c = poly_step 0 c XOR word_of_nat d" by (simp add: poly_step_def)
  moreover have "fold poly_step (replicate (length (d # ds)) 0) c = ?Z (poly_step 0 c)" by simp
  moreover have "fold poly_step (d # ds) 0 = ?Z (word_of_nat d) XOR fold poly_step ds 0"
    using Cons.IH [of "poly_step d 0"] by (simp only: fold_simps(2)) (simp add: poly_step_def [of d])
  ultimately show ?case by (simp only: fold_poly_xor xor.assoc)
qed simp

text \<open>Up to eight digits from the zero state are just the number they write.\<close>

lemma fold_poly_small:
  "length ds \<le> 8 \<Longrightarrow> list_all (\<lambda>d. d < 32) ds \<Longrightarrow> fold poly_step ds 0 = word_of_nat (dval 5 ds)"
proof (induction ds rule: rev_induct)
  case (snoc d ds)
  have "dval 5 ds < 2 ^ (5 * length ds)" using snoc.prems by (intro dval_less) simp
  also have "\<dots> \<le> 2 ^ 35" using snoc.prems by (intro power_increasing) simp_all
  finally have v: "dval 5 ds < 2 ^ 35" .
  have d: "d < 32" using snoc.prems by simp
  have u: "unat (word_of_nat (dval 5 ds) :: 40 word) = dval 5 ds" using v by (simp add: unat_of_nat)
  have "poly_mult (word_of_nat (dval 5 ds)) = push_bit 5 (word_of_nat (dval 5 ds))"
    using poly_mult_small [of "word_of_nat (dval 5 ds)"] v by (simp only: u)
  then have m: "poly_mult (word_of_nat (dval 5 ds)) = word_of_nat (dval 5 ds * 32)"
    by (simp only: push_bit_eq_mult of_nat_mult) simp
  have "word_of_nat (dval 5 ds * 32) XOR word_of_nat d = (word_of_nat (dval 5 ds * 32 + d) :: 40 word)"
    by (rule word_xor_digit [OF d])
  with m snoc show ?case by (simp add: poly_step_def)
qed simp

text \<open>The checksum read digit by digit.\<close>

lemma and_31: "0 \<le> c \<Longrightarrow> nat (js_and c 31) = nat c mod 32"
proof -
  assume c: "0 \<le> c"
  have "to_int32 31 = 31" by (simp add: to_int32_id)
  moreover have "to_int32 c AND 31 = c mod 32"
  proof -
    have "to_int32 c AND mask 5 = c mod 32"
      by (simp only: take_bit_eq_mask [symmetric] to_int32_def take_bit_signed_take_bit) (simp add: take_bit_signed_take_bit take_bit_eq_mod)
    then show ?thesis by (simp add: mask_eq_exp_minus_1)
  qed
  ultimately show ?thesis using c by (simp add: js_and_def nat_mod_distrib)
qed

lemma floor_div_numeral: "\<lfloor>x / 32 :: rat\<rfloor> = \<lfloor>x\<rfloor> div 32"
proof (rule floor_unique)
  have "of_int (\<lfloor>x\<rfloor> div 32 * 32) \<le> (of_int \<lfloor>x\<rfloor> :: rat)" by (subst of_int_le_iff) simp
  then have "of_int (\<lfloor>x\<rfloor> div 32) * 32 \<le> x" using order.trans [OF _ of_int_floor_le [of x]] by simp
  then show "of_int (\<lfloor>x\<rfloor> div 32) \<le> x / 32" by simp
  have "(of_int (\<lfloor>x\<rfloor> + 1) :: rat) \<le> of_int ((\<lfloor>x\<rfloor> div 32 + 1) * 32)" by (subst of_int_le_iff) simp
  then show "x / 32 < of_int (\<lfloor>x\<rfloor> div 32) + 1" using floor_correct [of x] by (simp add: algebra_simps)
qed

lemma checksum_digits_floor: "\<lfloor>x\<rfloor> = \<lfloor>y\<rfloor> \<Longrightarrow> checksum_digits k x = checksum_digits k y"
proof (induction k arbitrary: x y)
  case (Suc k)
  have "\<lfloor>x / 32\<rfloor> = \<lfloor>y / 32\<rfloor>" using Suc.prems floor_div_numeral by simp
  from Suc.IH [OF this] show ?case using Suc.prems by simp
qed simp

lemma checksum_digits_dval:
  "0 \<le> c \<Longrightarrow> list_all (\<lambda>d. d < 32) (checksum_digits k (of_int c)) \<and>
     length (checksum_digits k (of_int c)) = k \<and>
     dval 5 (rev (checksum_digits k (of_int c))) = nat c mod 32 ^ k"
proof (induction k arbitrary: c)
  case (Suc k)
  have q: "\<lfloor>of_int c / 32 :: rat\<rfloor> = c div 32" using floor_divide_of_int_eq [of c 32, where 'a = rat] by simp
  have "checksum_digits k (of_int c / 32) = checksum_digits k (of_int (c div 32))"
    by (rule checksum_digits_floor) (simp add: q)
  moreover have "nat (js_and c 31) = nat c mod 32" by (rule and_31 [OF Suc.prems])
  moreover have "dval 5 (rev (checksum_digits k (of_int (c div 32)))) = nat c div 32 mod 32 ^ k"
    using Suc.IH [of "c div 32"] Suc.prems by (simp add: nat_div_distrib)
  moreover have "nat c mod 32 ^ Suc k = nat c div 32 mod 32 ^ k * 32 + nat c mod 32"
    using mod_mult2_eq [of "nat c" 32 "32 ^ k"] by simp
  ultimately show ?case using Suc.IH [of "c div 32"] Suc.prems by (simp add: pos_imp_zdiv_nonneg_iff)
qed simp

lemma checksumToArray_digits:
  assumes "0 \<le> c" and "c < 2 ^ 40"
  shows "length (checksumToArray c) = 8" and "list_all (\<lambda>d. d < 32) (checksumToArray c)"
    and "dval 5 (checksumToArray c) = nat c"
proof -
  have "nat c < 32 ^ 8" using assms by simp
  then show "length (checksumToArray c) = 8" "list_all (\<lambda>d. d < 32) (checksumToArray c)"
    "dval 5 (checksumToArray c) = nat c"
    using checksum_digits_dval [OF assms(1), of 8] by (simp_all add: checksumToArray_def)
qed

text \<open>The digits of the checksum of a payload followed by eight zeros make the checksum zero.\<close>

lemma polymod_checksum:
  assumes "list_all (\<lambda>d. d < 32) ds"
  shows "polymod (ds @ checksumToArray (polymod (ds @ replicate 8 0))) = 0"
proof -
  let ?c = "fold poly_step (ds @ replicate 8 0) 1"
  let ?e = "checksumToArray (polymod (ds @ replicate 8 0))"
  have p: "polymod (ds @ replicate 8 0) = uint (?c XOR 1)"
    by (rule polymod_word) (use assms in \<open>simp add: list_all_iff\<close>)
  then have "0 \<le> polymod (ds @ replicate 8 0)" "polymod (ds @ replicate 8 0) < 2 ^ 40"
    using uint_lt2p [of "?c XOR 1"] by simp_all
  note e = checksumToArray_digits [OF this]
  have "fold poly_step ?e 0 = word_of_nat (nat (uint (?c XOR 1)))"
    using fold_poly_small [of ?e] e p by simp
  then have "fold poly_step ?e 0 = ?c XOR 1" by simp
  then have "fold poly_step ?e (fold poly_step ds 1) = 1"
    using fold_poly_split [of ?e "fold poly_step ds 1"] e(1) by simp
  moreover have "polymod (ds @ ?e) = uint (fold poly_step (ds @ ?e) 1 XOR 1)"
    using assms e(2) by (intro polymod_word) simp
  ultimately show ?thesis by simp
qed

text \<open>Two digit strings that differ within eight consecutive digits have different checksums.\<close>

lemma fold_zeros_inj: "fold poly_step (replicate k 0) c = 0 \<Longrightarrow> c = 0"
  by (induction k arbitrary: c) (auto simp: poly_step_def dest: poly_mult_eq_0)

lemma xor_left_cancel: "(a :: 40 word) XOR c = b XOR c \<longleftrightarrow> a = b"
proof
  assume "a XOR c = b XOR c"
  then have "(a XOR c) XOR c = (b XOR c) XOR c" by (simp only:)
  then show "a = b" by (simp only: xor.assoc xor_self_eq xor.right_neutral)
qed simp

lemma xor_eq_0_iff: "(a :: 40 word) XOR b = 0 \<longleftrightarrow> a = b"
  using xor_left_cancel [of a b b] by simp

lemma burst_bound: "length ds \<le> 8 \<Longrightarrow> list_all (\<lambda>d. d < 32) ds \<Longrightarrow> dval 5 ds < 2 ^ 40"
proof -
  assume l: "length ds \<le> 8" and "list_all (\<lambda>d. d < 32) ds"
  then have "dval 5 ds < 2 ^ (5 * length ds)" by (intro dval_less) simp
  also have "\<dots> \<le> 2 ^ 40" using l by (intro power_increasing) simp_all
  finally show ?thesis .
qed

lemma of_nat_inverse_eq: "a < 2 ^ 40 \<Longrightarrow> b < 2 ^ 40 \<Longrightarrow> (word_of_nat a :: 40 word) = word_of_nat b \<longleftrightarrow> a = b"
  by (auto dest: arg_cong [where f = unat] simp: unat_of_nat)

lemma polymod_burst:
  assumes "length us = length vs" and "length us \<le> 8" and "us \<noteq> vs"
    and "list_all (\<lambda>d. d < 32) (xs @ us @ vs @ ys)"
  shows "polymod (xs @ us @ ys) \<noteq> polymod (xs @ vs @ ys)"
proof
  assume eq: "polymod (xs @ us @ ys) = polymod (xs @ vs @ ys)"
  let ?Z = "fold poly_step (replicate (length ys) 0)" and ?c = "fold poly_step xs 1"
  have "uint (fold poly_step (xs @ us @ ys) 1 XOR 1) = uint (fold poly_step (xs @ vs @ ys) 1 XOR 1)"
    using eq polymod_word [of "xs @ us @ ys"] polymod_word [of "xs @ vs @ ys"] assms(4) by simp
  then have "fold poly_step (xs @ us @ ys) 1 XOR 1 = fold poly_step (xs @ vs @ ys) 1 XOR 1"
    by (simp only: word_uint_eq_iff)
  then have "fold poly_step (xs @ us @ ys) 1 = fold poly_step (xs @ vs @ ys) 1"
    by (rule xor_left_cancel [THEN iffD1])
  then have "?Z (fold poly_step us ?c) = ?Z (fold poly_step vs ?c)"
    using fold_poly_split [of ys "fold poly_step us ?c"] fold_poly_split [of ys "fold poly_step vs ?c"]
    by (simp add: xor_left_cancel)
  then have "?Z (fold poly_step us ?c XOR fold poly_step vs ?c) = 0" by (simp only: fold_poly_xor xor_self_eq)
  then have "fold poly_step us ?c XOR fold poly_step vs ?c = 0" by (rule fold_zeros_inj)
  then have "fold poly_step us 0 = fold poly_step vs 0"
    using fold_poly_split [of us ?c] fold_poly_split [of vs ?c] assms(1) by (simp add: xor_eq_0_iff ac_simps)
  then have "(word_of_nat (dval 5 us) :: 40 word) = word_of_nat (dval 5 vs)"
    using fold_poly_small [of us] fold_poly_small [of vs] assms by simp
  moreover have "dval 5 us < 2 ^ 40" "dval 5 vs < 2 ^ 40"
    using burst_bound [of us] burst_bound [of vs] assms by simp_all
  ultimately have "dval 5 us = dval 5 vs" by (simp add: of_nat_inverse_eq)
  then show False using dval_inj [of us vs 5] assms by simp
qed


section \<open>Whole addresses\<close>

text \<open>The payload of an address and the address with its checksum.\<close>

lemma prefix_digits: "list_all (\<lambda>d. d < 32) (prefixToArray p)"
proof -
  have "of_char c AND 31 < (32 :: nat)" for c
    using take_bit_nat_less_exp [of 5 "of_char c"] by (simp add: take_bit_eq_mask mask_eq_exp_minus_1)
  then show ?thesis by (simp add: prefixToArray_def list_all_iff)
qed

lemma checksum_valid:
  fixes p :: string
  assumes "list_all (\<lambda>d. d < 32) payload"
  defines "check \<equiv> checksumToArray (polymod (((prefixToArray p @ [0]) @ payload) @ replicate 8 0))"
  shows "validChecksum p (payload @ check)" and "list_all (\<lambda>d. d < 32) check" and "length check = 8"
proof -
  let ?ds = "(prefixToArray p @ [0]) @ payload"
  have ds: "list_all (\<lambda>d. d < 32) ?ds" using assms(1) prefix_digits by simp
  from polymod_checksum [OF this] show "validChecksum p (payload @ check)"
    by (simp add: validChecksum_def check_def)
  have "polymod (?ds @ replicate 8 0) = uint (fold poly_step (?ds @ replicate 8 0) 1 XOR 1)"
    by (rule polymod_word) (use ds in \<open>simp add: list_all_iff\<close>)
  then have "0 \<le> polymod (?ds @ replicate 8 0)" "polymod (?ds @ replicate 8 0) < 2 ^ 40"
    using uint_lt2p [of "fold poly_step (?ds @ replicate 8 0) 1 XOR 1"] by simp_all
  from checksumToArray_digits [OF this] show "list_all (\<lambda>d. d < 32) check" "length check = 8"
    by (simp_all add: check_def)
qed

lemma checksum_detects:
  assumes "validChecksum p (xs @ us @ ys)" and "length us = length vs" and "length us \<le> 8" and "us \<noteq> vs"
    and "list_all (\<lambda>d. d < 32) (xs @ us @ vs @ ys)"
  shows "\<not> validChecksum p (xs @ vs @ ys)"
  using polymod_burst [of us vs "(prefixToArray p @ [0]) @ xs" ys] assms prefix_digits
  by (simp add: validChecksum_def)

end
