(* ===== verification/Networks.thy ===== *)
theory Networks
  imports JsText CashAddr
begin

text \<open>
  \<^verbatim>\<open>lib/networks.js\<close>: the table of networks and its index.  A network is an object, so it carries
  the position of its creation (\<open>net_object\<close>) and two networks are the same only if that agrees.
  The index is a plain object: a key it does not hold itself is looked up in
  \<^verbatim>\<open>Object.prototype\<close>, and what is found there is \<open>Inherited\<close>.
\<close>

record network =
  net_object :: nat
  net_name :: string
  net_alias :: "string option"
  net_pubkeyhash :: nat
  net_privatekey :: nat
  net_scripthash :: nat
  net_xpubkey :: nat
  net_xprivkey :: nat
  net_prefix :: "string option"
  net_prefixArray :: "nat list"
  net_networkbyte :: "string option"
  net_networkMagic :: "bytes option"
  net_port :: "nat option"
  net_dnsSeeds :: "string list option"

record network_data =
  nd_name :: string
  nd_alias :: "string option"
  nd_prefix :: "string option"
  nd_networkbyte :: "string option"
  nd_pubkeyhash :: nat
  nd_privatekey :: nat
  nd_scripthash :: nat
  nd_xpubkey :: nat
  nd_xprivkey :: nat
  nd_networkMagic :: "nat option"
  nd_port :: "nat option"
  nd_dnsSeeds :: "string list option"
  nd_indexBy :: "string list option"

datatype net_ref = Net network | Inherited string

datatype net_arg = NetRef net_ref | NetText string | NetNumber nat

record net_state =
  created :: nat
  networks :: "network list"
  networkMaps :: "(string, network) js_map"
  regtestEnabled :: "bool option"

definition object_keys :: "string list" where
  "object_keys = [''constructor'', ''__defineGetter__'', ''__defineSetter__'', ''hasOwnProperty'',
     ''__lookupGetter__'', ''__lookupSetter__'', ''isPrototypeOf'', ''propertyIsEnumerable'',
     ''toString'', ''valueOf'', ''__proto__'', ''toLocaleString'']"

definition lookup_key :: "net_state \<Rightarrow> string \<Rightarrow> net_ref option" where
  "lookup_key N key =
     (case map_get (networkMaps N) key of
        Some n \<Rightarrow> Some (Net n)
      | None \<Rightarrow> if key \<in> set object_keys then Some (Inherited key) else None)"

text \<open>
  The text of an inherited value, its own \<^verbatim>\<open>name\<close>, and the text an argument has as a key.
\<close>

definition inherited_name :: "string \<Rightarrow> string option" where
  "inherited_name key =
     (if key = ''constructor'' then Some ''Object'' else if key = ''__proto__'' then None else Some key)"

definition inherited_text :: "string \<Rightarrow> string" where
  "inherited_text key =
     (case inherited_name key of
        None \<Rightarrow> ''[object Object]''
      | Some f \<Rightarrow> ''function '' @ f @ ''() { [native code] }'')"

fun net_ref_name :: "net_ref \<Rightarrow> string option" where
  "net_ref_name (Net n) = Some (net_name n)"
| "net_ref_name (Inherited key) = inherited_name key"

fun net_text :: "net_ref \<Rightarrow> string" where
  "net_text (Net n) = net_name n"
| "net_text (Inherited key) = inherited_text key"

fun arg_key :: "net_arg \<Rightarrow> string" where
  "arg_key (NetRef r) = net_text r"
| "arg_key (NetText t) = t"
| "arg_key (NetNumber k) = nat_dec k"

definition networks_get :: "net_state \<Rightarrow> net_arg option \<Rightarrow> net_ref option" where
  "networks_get N arg =
     (case arg of
        None \<Rightarrow> lookup_key N ''undefined''
      | Some (NetRef (Net n)) \<Rightarrow>
          if n \<in> set (networks N) then Some (Net n) else lookup_key N (arg_key (NetRef (Net n)))
      | Some a \<Rightarrow> lookup_key N (arg_key a))"

text \<open>With a key, the first network whose value under it is the number.\<close>

definition networks_get_by :: "net_state \<Rightarrow> (network \<Rightarrow> nat) \<Rightarrow> nat \<Rightarrow> network option" where
  "networks_get_by N field k = find (\<lambda>n. field n = k) (networks N)"

definition integerAsBuffer :: "nat \<Rightarrow> bytes" where
  "integerAsBuffer n = be_bytes 4 n"

text \<open>What a property of a network is in the index: the text of its value, nothing for objects.\<close>

definition indexed_value :: "network \<Rightarrow> string \<Rightarrow> string option" where
  "indexed_value n key =
     (if key = ''name'' then Some (net_name n)
      else if key = ''alias'' then net_alias n
      else if key = ''pubkeyhash'' then Some (nat_dec (net_pubkeyhash n))
      else if key = ''privatekey'' then Some (nat_dec (net_privatekey n))
      else if key = ''scripthash'' then Some (nat_dec (net_scripthash n))
      else if key = ''xpubkey'' then Some (nat_dec (net_xpubkey n))
      else if key = ''xprivkey'' then Some (nat_dec (net_xprivkey n))
      else if key = ''prefix'' then net_prefix n
      else if key = ''networkbyte'' then net_networkbyte n
      else if key = ''port'' then map_option nat_dec (net_port n)
      else None)"

definition indexNetworkBy :: "network \<Rightarrow> string list \<Rightarrow> (string, network) js_map \<Rightarrow> (string, network) js_map" where
  "indexNetworkBy n keys m =
     fold (\<lambda>key m. case indexed_value n key of None \<Rightarrow> m | Some v \<Rightarrow> map_set v n m) keys m"

definition data_keys :: "network_data \<Rightarrow> string list" where
  "data_keys d =
     [''name''] @ (if nd_alias d = None then [] else [''alias'']) @ [''prefix'', ''networkbyte'', ''pubkeyhash'',
        ''privatekey'', ''scripthash'', ''xpubkey'', ''xprivkey'', ''networkMagic'', ''port'', ''dnsSeeds'']"

text \<open>An empty prefix or network byte and the port or magic zero count as absent.\<close>

definition make_network :: "nat \<Rightarrow> network_data \<Rightarrow> network" where
  "make_network k d =
     \<lparr>net_object = k, net_name = nd_name d, net_alias = nd_alias d, net_pubkeyhash = nd_pubkeyhash d,
      net_privatekey = nd_privatekey d, net_scripthash = nd_scripthash d, net_xpubkey = nd_xpubkey d,
      net_xprivkey = nd_xprivkey d,
      net_prefix = (if nd_prefix d = Some [] then None else nd_prefix d),
      net_prefixArray = (case nd_prefix d of None \<Rightarrow> [] | Some p \<Rightarrow> prefixToArray p),
      net_networkbyte = (if nd_networkbyte d = Some [] then None else nd_networkbyte d),
      net_networkMagic = (case nd_networkMagic d of None \<Rightarrow> None
         | Some m \<Rightarrow> if m = 0 then None else Some (integerAsBuffer m)),
      net_port = (if nd_port d = Some 0 then None else nd_port d),
      net_dnsSeeds = nd_dnsSeeds d\<rparr>"

definition addNetwork :: "network_data \<Rightarrow> net_state \<Rightarrow> network \<times> net_state" where
  "addNetwork d N =
     (let n = make_network (created N) d;
          indexBy = (case nd_indexBy d of None \<Rightarrow> data_keys d | Some ks \<Rightarrow> ks)
      in (n, N\<lparr>created := Suc (created N), networks := networks N @ [n],
               networkMaps := indexNetworkBy n indexBy (networkMaps N)\<rparr>))"

text \<open>The loop of \<^verbatim>\<open>removeNetwork\<close> moves on after a \<^verbatim>\<open>splice\<close>, so it skips the element that moved up.\<close>

fun remove_loop :: "network \<Rightarrow> network list \<Rightarrow> network list" where
  "remove_loop n [] = []"
| "remove_loop n (m # ms) =
     (if m = n then (case ms of [] \<Rightarrow> [] | m' # ms' \<Rightarrow> m' # remove_loop n ms') else m # remove_loop n ms)"

definition unindexNetworkBy :: "network \<Rightarrow> string list \<Rightarrow> (string, network) js_map \<Rightarrow> (string, network) js_map" where
  "unindexNetworkBy n values m =
     fold (\<lambda>v m. if map_get m v = Some n then map_del v m else m) values m"

definition removeNetwork :: "network \<Rightarrow> net_state \<Rightarrow> net_state" where
  "removeNetwork n N =
     N\<lparr>networks := remove_loop n (networks N),
       networkMaps := unindexNetworkBy n (map fst (networkMaps N)) (networkMaps N)\<rparr>"

definition enableRegtest :: "net_state \<Rightarrow> net_state" where
  "enableRegtest N = N\<lparr>regtestEnabled := Some True\<rparr>"

definition disableRegtest :: "net_state \<Rightarrow> net_state" where
  "disableRegtest N = N\<lparr>regtestEnabled := Some False\<rparr>"

section \<open>The networks of the module\<close>

definition dnsSeeds :: "string list" where
  "dnsSeeds = [''mainnet.seeds.cash'', ''seed.be.cash'']"

definition liveNetwork :: network_data where
  "liveNetwork = \<lparr>nd_name = ''livenet'', nd_alias = Some ''mainnet'', nd_prefix = Some ''ecash'',
     nd_networkbyte = Some ''_'', nd_pubkeyhash = 0, nd_privatekey = 0x80, nd_scripthash = 5,
     nd_xpubkey = 0x0488b21e, nd_xprivkey = 0x0488ade4, nd_networkMagic = Some 0xe3e1f3e8,
     nd_port = Some 8333, nd_dnsSeeds = Some dnsSeeds, nd_indexBy = None\<rparr>"

definition testNetwork :: network_data where
  "testNetwork = \<lparr>nd_name = ''testnet'', nd_alias = None, nd_prefix = Some ''ectest'',
     nd_networkbyte = Some ''T'', nd_pubkeyhash = 0x6f, nd_privatekey = 0xef, nd_scripthash = 0xc4,
     nd_xpubkey = 0x043587cf, nd_xprivkey = 0x04358394, nd_networkMagic = Some 0xecf4f3f4,
     nd_port = Some 18333, nd_dnsSeeds = Some dnsSeeds, nd_indexBy = None\<rparr>"

definition regtestNetwork :: network_data where
  "regtestNetwork = \<lparr>nd_name = ''regtest'', nd_alias = None, nd_prefix = Some ''bchreg'',
     nd_networkbyte = Some ''R'', nd_pubkeyhash = 0x6f, nd_privatekey = 0xef, nd_scripthash = 0xc4,
     nd_xpubkey = 0x043587cf, nd_xprivkey = 0x04358394, nd_networkMagic = Some 0xecf2e5e7,
     nd_port = Some 12605, nd_dnsSeeds = Some [],
     nd_indexBy = Some [''port'', ''name'', ''prefix'', ''networkMagic'']\<rparr>"

definition no_networks :: net_state where
  "no_networks = \<lparr>created = 0, networks = [], networkMaps = [], regtestEnabled = None\<rparr>"

definition default_networks :: net_state where
  "default_networks = snd (addNetwork liveNetwork (snd (addNetwork regtestNetwork
     (snd (addNetwork testNetwork no_networks)))))"

definition testnet :: network where "testnet = make_network 0 testNetwork"
definition regtest :: network where "regtest = make_network 1 regtestNetwork"
definition livenet :: network where "livenet = make_network 2 liveNetwork"

definition digit_char :: "char \<Rightarrow> bool" where
  "digit_char c \<longleftrightarrow> 48 \<le> (of_char c :: nat) \<and> (of_char c :: nat) \<le> 57"

lemma digit_hex_char: "d < 10 \<Longrightarrow> digit_char (hex_char d)"
proof -
  have "list_all (\<lambda>d. digit_char (hex_char d)) [0..<10]" by code_simp
  then show "d < 10 \<Longrightarrow> digit_char (hex_char d)" by (simp add: list_all_iff)
qed

lemma nat_dec_digits: "list_all digit_char (nat_dec n)"
proof (induction n rule: nat_dec.induct)
  case (1 n)
  then show ?case by (subst nat_dec.simps) (simp add: digit_hex_char)
qed

lemma nat_dec_ne [simp]: "\<not> digit_char c \<Longrightarrow> c # cs \<noteq> nat_dec n"
  using nat_dec_digits [of n] by (metis list.pred_inject(2))

lemma get_index: "map_get (indexNetworkBy n keys m) k =
    (if Some k \<in> indexed_value n ` set keys then Some n else map_get m k)"
proof (induction keys arbitrary: m)
  case (Cons key keys)
  then show ?case by (cases "indexed_value n key") (auto simp: indexNetworkBy_def)
qed (simp add: indexNetworkBy_def)

lemma index_keys:
  "nd_indexBy liveNetwork = None" "nd_indexBy testNetwork = None"
  "nd_indexBy regtestNetwork = Some [''port'', ''name'', ''prefix'', ''networkMagic'']"
  by (simp_all add: liveNetwork_def testNetwork_def regtestNetwork_def)

lemma default_maps: "networkMaps default_networks =
    indexNetworkBy livenet (data_keys liveNetwork)
      (indexNetworkBy regtest [''port'', ''name'', ''prefix'', ''networkMagic'']
        (indexNetworkBy testnet (data_keys testNetwork) []))"
  by (simp add: default_networks_def addNetwork_def no_networks_def Let_def index_keys
      livenet_def testnet_def regtest_def numeral_2_eq_2)

lemma default_list: "networks default_networks = [testnet, regtest, livenet]"
  by (simp add: default_networks_def addNetwork_def no_networks_def Let_def
      livenet_def testnet_def regtest_def numeral_2_eq_2)

lemmas network_data_defs = liveNetwork_def testNetwork_def regtestNetwork_def

lemmas network_defs = livenet_def testnet_def regtest_def make_network_def network_data_defs

lemma live_values: "indexed_value livenet ` set (data_keys liveNetwork) =
    {Some ''livenet'', Some ''mainnet'', Some ''ecash'', Some ''_'', Some (nat_dec 0), Some (nat_dec 0x80),
     Some (nat_dec 5), Some (nat_dec 0x0488b21e), Some (nat_dec 0x0488ade4), Some (nat_dec 8333), None}"
  by (simp add: network_defs data_keys_def indexed_value_def) auto

lemma regtest_values: "indexed_value regtest ` set [''port'', ''name'', ''prefix'', ''networkMagic''] =
    {Some (nat_dec 12605), Some ''regtest'', Some ''bchreg'', None}"
  by (simp add: network_defs indexed_value_def) auto

lemma testnet_values: "indexed_value testnet ` set (data_keys testNetwork) =
    {Some ''testnet'', Some ''ectest'', Some ''T'', Some (nat_dec 0x6f), Some (nat_dec 0xef),
     Some (nat_dec 0xc4), Some (nat_dec 0x043587cf), Some (nat_dec 0x04358394), Some (nat_dec 18333), None}"
  by (simp add: network_defs data_keys_def indexed_value_def) auto

lemma default_get [simp]:
  "lookup_key default_networks ''livenet'' = Some (Net livenet)"
  "lookup_key default_networks ''testnet'' = Some (Net testnet)"
  "lookup_key default_networks ''regtest'' = Some (Net regtest)"
  "lookup_key default_networks ''ecash'' = Some (Net livenet)"
  "lookup_key default_networks ''ectest'' = Some (Net testnet)"
  "lookup_key default_networks ''bchreg'' = Some (Net regtest)"
  "lookup_key default_networks ''constructor'' = Some (Inherited ''constructor'')"
  "lookup_key default_networks ''undefined'' = None"
  by (simp_all only: lookup_key_def default_maps get_index live_values regtest_values testnet_values)
     (simp_all add: object_keys_def digit_char_def)

text \<open>Every network a default table holds under a text is one of its three.\<close>

lemma default_lookup_known: "lookup_key default_networks k = Some (Net n) \<Longrightarrow> n \<in> {testnet, regtest, livenet}"
  by (auto simp: lookup_key_def default_maps get_index split: if_splits option.splits)

end
