(* ===== verification/XAddress.thy ===== *)
theory XAddress
  imports Networks Script Transaction
begin

text \<open>
  \<^verbatim>\<open>lib/encoding/base58check.js\<close> and \<^verbatim>\<open>lib/xaddress.js\<close>.  The base 58 coder is the package \<^verbatim>\<open>bs58\<close> and
  a parameter, as are the hashes.  Texts are ASCII: a character is one byte and one UTF-16 unit.
\<close>

record coder =
  b58_encode :: "bytes \<Rightarrow> string"
  b58_decode :: "string \<Rightarrow> bytes res"
  sha256 :: "bytes \<Rightarrow> bytes"
  sha256ripemd160 :: "bytes \<Rightarrow> bytes"

text \<open>What the development relies on: \<^verbatim>\<open>bs58\<close> inverts itself, writes letters and digits only, and
  SHA-256 has 32 bytes.\<close>

definition alnum :: "char \<Rightarrow> bool" where
  "alnum c \<longleftrightarrow> (let k = of_char c :: nat in 48 \<le> k \<and> k \<le> 57 \<or> 65 \<le> k \<and> k \<le> 90 \<or> 97 \<le> k \<and> k \<le> 122)"

definition coder_ok :: "coder \<Rightarrow> bool" where
  "coder_ok K \<longleftrightarrow> (\<forall>b. b58_decode K (b58_encode K b) = Inr b) \<and> (\<forall>b. list_all alnum (b58_encode K b)) \<and>
     (\<forall>b. length (sha256 K b) = 32)"

section \<open>Base58Check\<close>

definition base58check_checksum :: "coder \<Rightarrow> bytes \<Rightarrow> bytes" where
  "base58check_checksum K buf = take 4 (sha256 K (sha256 K buf))"

definition base58check_encode :: "coder \<Rightarrow> bytes \<Rightarrow> string" where
  "base58check_encode K buf = b58_encode K (buf @ base58check_checksum K buf)"

definition base58check_decode :: "coder \<Rightarrow> string \<Rightarrow> bytes res" where
  "base58check_decode K s =
     rbind (b58_decode K s) (\<lambda>buf.
       if length buf < 4 then Inl (PlainError ''Input string too short'')
       else let data = take (length buf - 4) buf;
                csum = drop (length buf - 4) buf;
                hash4 = take 4 (sha256 K (sha256 K data))
            in if to_hex csum \<noteq> to_hex hash4 then Inl (PlainError ''Checksum mismatch'') else Inr data)"

text \<open>\<open>data\<close> and \<open>checksum\<close> may be texts, which are decoded first; no checksum means the last four bytes.\<close>

datatype check_input = CText string | CBuffer bytes

definition check_bytes :: "coder \<Rightarrow> check_input \<Rightarrow> bytes res" where
  "check_bytes K x = (case x of CText s \<Rightarrow> b58_decode K s | CBuffer b \<Rightarrow> Inr b)"

definition validChecksum58 :: "coder \<Rightarrow> check_input \<Rightarrow> check_input option \<Rightarrow> bool res" where
  "validChecksum58 K data checksum =
     rbind (check_bytes K data) (\<lambda>d.
     rmap (\<lambda>(d, c). to_hex (base58check_checksum K d) = to_hex c)
       (case checksum of
          None \<Rightarrow> Inr (take (length d - 4) d, drop (length d - 4) d)
        | Some x \<Rightarrow> rmap (\<lambda>c. (d, c)) (check_bytes K x)))"

section \<open>The parts of an extended address\<close>

definition TOKEN_NAME :: string where "TOKEN_NAME = ''lotus''"

text \<open>\<^verbatim>\<open>buf.slice(a, b)\<close> with a bound that may be negative counts it from the end.\<close>

definition from_end :: "'a list \<Rightarrow> int \<Rightarrow> nat" where
  "from_end xs i = nat (if i < 0 then i + int (length xs) else i)"

definition js_slice :: "'a list \<Rightarrow> int \<Rightarrow> int \<Rightarrow> 'a list" where
  "js_slice xs a b = slice xs (from_end xs a) (from_end xs b)"

text \<open>
  The number \<^verbatim>\<open>writeUInt8\<close> makes of a buffer of at most one byte: its text is a number only for a
  digit, white space is 0, and \<^verbatim>\<open>NaN\<close> is written as 0.
\<close>

definition byte_number :: "bytes \<Rightarrow> nat" where
  "byte_number b = (case b of [x] \<Rightarrow> if 48 \<le> unat x \<and> unat x \<le> 57 then unat x - 48 else 0 | _ \<Rightarrow> 0)"

definition createChecksum :: "coder \<Rightarrow> string \<Rightarrow> bytes \<Rightarrow> bytes \<Rightarrow> bytes \<Rightarrow> bytes" where
  "createChecksum K prefix networkByte typeByte payload =
     take 4 (sha256 K (text_bytes prefix @ networkByte @ typeByte @ payload))"

definition createChecksumLegacy :: "coder \<Rightarrow> string \<Rightarrow> bytes \<Rightarrow> bytes \<Rightarrow> bytes \<Rightarrow> bytes res" where
  "createChecksumLegacy K prefix networkByte typeByte payload =
     rbind (writeVarintNum new_writer (length prefix)) (\<lambda>bw.
     rbind (writeUInt8 (writeBuf bw (text_bytes prefix)) (byte_number networkByte)) (\<lambda>bw.
     rbind (writeUInt8 bw (byte_number typeByte)) (\<lambda>bw.
     rbind (writeVarintNum bw (length payload)) (\<lambda>bw.
       Inr (take 4 (sha256 K (writer_concat (writeBuf bw payload))))))))"

text \<open>Both functions name a single type whatever they are given.\<close>

definition xaddress_getType :: "nat option \<Rightarrow> string" where
  "xaddress_getType typeByte = ''pubkeyhash''"

definition getTypeByte :: "string \<Rightarrow> nat" where
  "getTypeByte t = 0"

definition getNetwork :: "net_state \<Rightarrow> string \<Rightarrow> net_ref option res" where
  "getNetwork N networkChar =
     (if networkChar = ''_'' then Inr (networks_get N (Some (NetText ''livenet'')))
      else if networkChar = ''T'' then Inr (networks_get N (Some (NetText ''testnet'')))
      else if networkChar = ''R'' then Inr (networks_get N (Some (NetText ''regtest'')))
      else Inl TypeErr)"

definition getNetworkChar :: "net_arg \<Rightarrow> string res" where
  "getNetworkChar n =
     (if n = NetRef (Net livenet) then Inr ''_''
      else if n = NetRef (Net testnet) then Inr ''T''
      else if n = NetRef (Net regtest) then Inr ''R''
      else Inl TypeErr)"

definition encodePayload :: "coder \<Rightarrow> bytes \<Rightarrow> bytes \<Rightarrow> bytes \<Rightarrow> string res" where
  "encodePayload K typeByte payload checksum =
     rmap (\<lambda>bw. b58_encode K (writer_concat (writeBuf (writeBuf bw payload) checksum)))
       (writeUInt8 new_writer (byte_number typeByte))"

text \<open>The first capital letter or underscore.\<close>

definition split_char :: "char \<Rightarrow> bool" where
  "split_char c \<longleftrightarrow> (let k = of_char c :: nat in 65 \<le> k \<and> k \<le> 90 \<or> c = CHR ''_'')"

definition split_location :: "string \<Rightarrow> nat" where
  "split_location s = (let k = length (takeWhile (\<lambda>c. \<not> split_char c) s) in if k < length s then k else 0)"

record xinfo =
  x_prefix :: "string option"
  x_hashBuffer :: bytes
  x_network :: "net_arg option"
  x_type :: "string option"

definition xaddress_decode :: "coder \<Rightarrow> net_state \<Rightarrow> string \<Rightarrow> xinfo res" where
  "xaddress_decode K N address =
     (let splitLocation = split_location address;
          prefix = slice address 0 splitLocation;
          networkChar = slice address splitLocation (splitLocation + 1);
          networkByte = text_bytes networkChar
      in rbind (b58_decode K (drop (splitLocation + 1) address)) (\<lambda>decodedBytes.
         let typeByte = slice decodedBytes 0 1;
             len = int (length decodedBytes);
             payload = js_slice decodedBytes 1 (len - 4);
             decodedChecksum = js_slice decodedBytes (len - 4) len;
             checksum = createChecksum K prefix networkByte typeByte payload
         in rbind (createChecksumLegacy K prefix networkByte typeByte payload) (\<lambda>legacyChecksum.
            rbind (checkArgument (to_hex checksum = to_hex decodedChecksum \<or>
                     to_hex legacyChecksum = to_hex decodedChecksum) ''Invalid checksum'') (\<lambda>_.
            rbind (getNetwork N networkChar) (\<lambda>network.
              Inr \<lparr>x_prefix = Some prefix, x_hashBuffer = payload, x_network = map_option NetRef network,
                   x_type = Some (xaddress_getType (map_option unat (nth_opt typeByte 0)))\<rparr>)))))"

section \<open>Extended addresses\<close>

definition js_space :: "char \<Rightarrow> bool" where
  "js_space c \<longleftrightarrow> (let k = of_char c :: nat in k = 32 \<or> 9 \<le> k \<and> k \<le> 13)"

definition trim :: "string \<Rightarrow> string" where
  "trim s = rev (dropWhile js_space (rev (dropWhile js_space s)))"

text \<open>A network argument counts when it is an object or a text that is not empty.\<close>

definition truthy_net :: "net_arg option \<Rightarrow> bool" where
  "truthy_net n = (n \<noteq> None \<and> n \<noteq> Some (NetText []) \<and> n \<noteq> Some (NetNumber 0))"

definition mismatched :: "net_ref option \<Rightarrow> net_ref option \<Rightarrow> bool" where
  "mismatched networkObj found \<longleftrightarrow>
     (case found of None \<Rightarrow> True
      | Some f \<Rightarrow> (case networkObj of None \<Rightarrow> False | Some n \<Rightarrow> net_ref_name n \<noteq> net_ref_name f))"

definition arg_ref :: "net_arg option \<Rightarrow> net_ref option" where
  "arg_ref a = (case a of Some (NetRef r) \<Rightarrow> Some r | _ \<Rightarrow> None)"

definition xaddress_transformString :: "coder \<Rightarrow> net_state \<Rightarrow> string \<Rightarrow> net_arg option \<Rightarrow> xinfo res" where
  "xaddress_transformString K N data network =
     (let networkObj = networks_get N network
      in if truthy_net network \<and> networkObj = None then Inl TypeErr
         else rbind (xaddress_decode K N (trim data)) (\<lambda>info.
           if mismatched networkObj (arg_ref (x_network info)) then Inl TypeErr else Inr info))"

definition xaddress_transformBuffer ::
  "net_state \<Rightarrow> bytes \<Rightarrow> net_arg option \<Rightarrow> string option \<Rightarrow> xinfo res" where
  "xaddress_transformBuffer N buffer network type =
     (if truthy_net network \<and> networks_get N network = None then Inl TypeErr
      else if type = None then Inl TypeErr
      else Inr \<lparr>x_prefix = Some TOKEN_NAME, x_hashBuffer = buffer, x_network = network, x_type = type\<rparr>)"

text \<open>An object with the properties of an address; \<^verbatim>\<open>hash\<close> is hexadecimal.\<close>

record address_object =
  o_hash :: "string option"
  o_hashBuffer :: "bytes option"
  o_network :: "net_arg option"
  o_type :: "string option"
  o_prefix :: "string option"

definition truthy_text :: "string option \<Rightarrow> bool" where
  "truthy_text t = (t \<noteq> None \<and> t \<noteq> Some [])"

definition net_or :: "net_state \<Rightarrow> net_arg option \<Rightarrow> net_ref" where
  "net_or N a = (case networks_get N a of Some r \<Rightarrow> r | None \<Rightarrow> Net livenet)"

definition xaddress_transformObject :: "net_state \<Rightarrow> address_object \<Rightarrow> xinfo res" where
  "xaddress_transformObject N ob =
     rbind (checkArgument (truthy_text (o_hash ob) \<or> o_hashBuffer ob \<noteq> None)
       ''Must provide a `hash` or `hashBuffer` property'') (\<lambda>_.
     rbind (checkArgument (truthy_text (o_type ob)) ''Must provide a `type` property'') (\<lambda>_.
       Inr \<lparr>x_prefix = o_prefix ob,
            x_hashBuffer = (if truthy_text (o_hash ob) then of_hex (the (o_hash ob)) else the (o_hashBuffer ob)),
            x_network = Some (NetRef (net_or N (o_network ob))), x_type = o_type ob\<rparr>))"

record xaddress =
  xa_prefix :: "string option"
  xa_hashBuffer :: bytes
  xa_network :: net_arg
  xa_type :: string

datatype xdata = XText string | XBuffer bytes | XObject address_object | XAddr xaddress

definition PayToPublicKeyHash_text :: string where "PayToPublicKeyHash_text = ''pubkeyhash''"
definition PayToScriptHash_text :: string where "PayToScriptHash_text = ''scripthash''"

definition known_type :: "string option \<Rightarrow> bool" where
  "known_type t \<longleftrightarrow> t \<in> {None, Some [], Some PayToPublicKeyHash_text, Some PayToScriptHash_text}"

definition xaddress_classify ::
  "coder \<Rightarrow> net_state \<Rightarrow> xdata \<Rightarrow> net_arg option \<Rightarrow> string option \<Rightarrow> xinfo res" where
  "xaddress_classify K N data network type =
     (case data of
        XText s \<Rightarrow> xaddress_transformString K N s network
      | XBuffer b \<Rightarrow> xaddress_transformBuffer N b network type
      | XObject ob \<Rightarrow> xaddress_transformObject N ob
      | XAddr a \<Rightarrow> Inl TypeErr)"

definition xaddress_new ::
  "coder \<Rightarrow> net_state \<Rightarrow> xdata \<Rightarrow> net_arg option \<Rightarrow> string option \<Rightarrow> xaddress res" where
  "xaddress_new K N data network type =
     (case data of XAddr a \<Rightarrow> Inr a
      | _ \<Rightarrow>
        rbind (checkArgument (data \<noteq> XText []) ''First argument is required, please include address data.'') (\<lambda>_.
        if truthy_net network \<and> networks_get N network = None then Inl TypeErr
        else if \<not> known_type type then Inl TypeErr
        else rbind (xaddress_classify K N data network type) (\<lambda>info.
          Inr \<lparr>xa_prefix = x_prefix info, xa_hashBuffer = x_hashBuffer info,
               xa_network = (if truthy_net (x_network info) then the (x_network info)
                             else NetRef (net_or N network)),
               xa_type = (if truthy_text (x_type info) then the (x_type info)
                          else if truthy_text type then the type else PayToPublicKeyHash_text)\<rparr>)))"

text \<open>The prefix of the text is dropped: the constructor is called with the buffer, which names \<^verbatim>\<open>lotus\<close>.\<close>

definition xaddress_fromString ::
  "coder \<Rightarrow> net_state \<Rightarrow> string \<Rightarrow> net_arg option \<Rightarrow> xaddress res" where
  "xaddress_fromString K N str network =
     rbind (xaddress_transformString K N str network) (\<lambda>info.
       xaddress_new K N (XBuffer (x_hashBuffer info)) (x_network info) (x_type info))"

definition xaddress_fromObject :: "coder \<Rightarrow> net_state \<Rightarrow> address_object \<Rightarrow> xaddress res" where
  "xaddress_fromObject K N ob =
     rbind (checkState (case o_hash ob of None \<Rightarrow> False | Some h \<Rightarrow> isHexa h) ''Unexpected hash property'') (\<lambda>_.
       xaddress_new K N (XBuffer (of_hex (the (o_hash ob)))) (o_network ob) (o_type ob))"

definition toXAddress :: "coder \<Rightarrow> xaddress \<Rightarrow> string res" where
  "toXAddress K a =
     rbind (getNetworkChar (xa_network a)) (\<lambda>networkChar.
     let prefix = (case xa_prefix a of None \<Rightarrow> ''undefined'' | Some p \<Rightarrow> p);
         networkByte = text_bytes networkChar;
         typeByte = [word_of_nat (getTypeByte (xa_type a))];
         payload = xa_hashBuffer a
     in rbind (case xa_prefix a of None \<Rightarrow> Inl TypeErr
               | Some p \<Rightarrow> Inr (createChecksum K p networkByte typeByte payload)) (\<lambda>checksum.
        rmap (\<lambda>e. prefix @ networkChar @ e) (encodePayload K typeByte payload checksum)))"

definition xaddress_getValidationError ::
  "coder \<Rightarrow> net_state \<Rightarrow> xdata \<Rightarrow> net_arg option \<Rightarrow> string option \<Rightarrow> js_error option" where
  "xaddress_getValidationError K N data network type =
     (case xaddress_new K N data network type of Inl e \<Rightarrow> Some e | Inr _ \<Rightarrow> None)"

definition xaddress_isValid ::
  "coder \<Rightarrow> net_state \<Rightarrow> xdata \<Rightarrow> net_arg option \<Rightarrow> string option \<Rightarrow> bool" where
  "xaddress_isValid K N data network type = (xaddress_getValidationError K N data network type = None)"

text \<open>
  The byte a network has for a type; \<^verbatim>\<open>Buffer.from([undefined])\<close> is a zero byte.  A type that is
  the name of another property of a network is not considered.
\<close>

definition version_byte :: "net_ref \<Rightarrow> string \<Rightarrow> byte" where
  "version_byte r t =
     (case r of Inherited _ \<Rightarrow> 0
      | Net n \<Rightarrow> if t = PayToPublicKeyHash_text then word_of_nat (net_pubkeyhash n)
                 else if t = PayToScriptHash_text then word_of_nat (net_scripthash n) else 0)"

definition xaddress_toBuffer :: "xaddress \<Rightarrow> bytes" where
  "xaddress_toBuffer a =
     (case xa_network a of NetRef r \<Rightarrow> version_byte r (xa_type a) | _ \<Rightarrow> 0) # xa_hashBuffer a"

definition xaddress_toObject :: "xaddress \<Rightarrow> address_object" where
  "xaddress_toObject a =
     \<lparr>o_hash = Some (to_hex (xa_hashBuffer a)), o_hashBuffer = None,
      o_network = Some (NetText (arg_key (xa_network a))), o_type = Some (xa_type a), o_prefix = xa_prefix a\<rparr>"

definition xaddress_inspect :: "coder \<Rightarrow> xaddress \<Rightarrow> string res" where
  "xaddress_inspect K a =
     rmap (\<lambda>t. ''<XAddress: '' @ t @ '', prefix: '' @ (case xa_prefix a of None \<Rightarrow> ''undefined'' | Some p \<Rightarrow> p) @
         '', type: '' @ xa_type a @ '', network: '' @ arg_key (xa_network a) @ ''>'') (toXAddress K a)"

end
