(* ===== verification/Address.thy ===== *)
theory Address
  imports XAddress
begin

text \<open>
  \<^verbatim>\<open>lib/address.js\<close>: reading and writing addresses in the three text forms, from hashes, public
  keys, scripts and objects.  The network of an address is what the table of networks gave for
  its prefix, which need not be a network.
\<close>

record address =
  hashBuffer :: bytes
  addr_network :: net_ref
  addr_type :: string

text \<open>What the constructor's helpers return; a property they do not set is \<open>None\<close>.\<close>

record info =
  i_hashBuffer :: "bytes option"
  i_network :: "net_ref option"
  i_type :: "string option"

section \<open>The form with a checksum of 40 bits\<close>

definition lower_char :: "char \<Rightarrow> char" where
  "lower_char c = (let k = of_char c :: nat in if 65 \<le> k \<and> k \<le> 90 then char_of (k + 32) else c)"

definition upper_char :: "char \<Rightarrow> char" where
  "upper_char c = (let k = of_char c :: nat in if 97 \<le> k \<and> k \<le> 122 then char_of (k - 32) else c)"

definition hasSingleCase :: "string \<Rightarrow> bool" where
  "hasSingleCase s \<longleftrightarrow> s = map lower_char s \<or> s = map upper_char s"

definition getHashSize :: "nat \<Rightarrow> nat" where
  "getHashSize versionByte = [160, 192, 224, 256, 320, 384, 448, 512] ! (versionByte AND 7)"

definition getType :: "nat \<Rightarrow> string res" where
  "getType versionByte =
     (if versionByte AND 120 = 0 then Inr PayToPublicKeyHash_text
      else if versionByte AND 120 = 8 then Inr PayToScriptHash_text
      else Inl (PlainError ''Invalid address type in version byte''))"

text \<open>Without a prefix the prefixes of the three networks are tried in turn.\<close>

fun guess_prefix :: "net_state \<Rightarrow> string list \<Rightarrow> nat list \<Rightarrow> string option res" where
  "guess_prefix N [] payload = Inr None"
| "guess_prefix N (name # names) payload =
     (case networks_get N (Some (NetText name)) of
        Some (Net n) \<Rightarrow>
          (case net_prefix n of
             None \<Rightarrow> Inl TypeErr
           | Some p \<Rightarrow> if validChecksum p payload \<and> p \<noteq> [] then Inr (Some p)
                       else guess_prefix N names payload)
      | _ \<Rightarrow> Inl TypeErr)"

text \<open>\<^verbatim>\<open>convertBits\<close> returns for groups of 5 and 8 bits; the error of the other case is never raised.\<close>

definition converted :: "nat list res option \<Rightarrow> nat list res" where
  "converted r = (case r of None \<Rightarrow> Inl (PlainError ''endless loop'') | Some x \<Rightarrow> x)"

definition network_choice :: "net_state \<Rightarrow> string \<Rightarrow> nat list \<Rightarrow> string res" where
  "network_choice N prefix payload =
     (if prefix \<noteq> [] then rmap (\<lambda>_. prefix) (checkArgument (validChecksum prefix payload) ''Invalid checksum'')
      else rbind (guess_prefix N [''livenet'', ''testnet'', ''regtest''] payload) (\<lambda>p.
             case p of None \<Rightarrow> Inl (InvalidArgument ''Invalid checksum'') | Some p \<Rightarrow> Inr p))"

definition hash_info :: "net_state \<Rightarrow> string \<Rightarrow> nat list \<Rightarrow> info res" where
  "hash_info N prefix convertedBits =
     (let (versionByte, hash) = (case convertedBits of [] \<Rightarrow> (0, []) | v # h \<Rightarrow> (v, h))
      in rbind (checkArgument (getHashSize versionByte = length hash * 8) ''Invalid hash size'') (\<lambda>_.
         rmap (\<lambda>type. \<lparr>i_hashBuffer = Some (map word_of_nat hash),
                       i_network = networks_get N (Some (NetText prefix)), i_type = Some type\<rparr>)
           (getType versionByte)))"

definition decodeCashAddress :: "net_state \<Rightarrow> string \<Rightarrow> info res" where
  "decodeCashAddress N address =
     rbind (checkArgument (hasSingleCase address) ''Mixed case'') (\<lambda>_.
     let pieces = split_on CHR '':'' (map lower_char address)
     in rbind (checkArgument (length pieces \<le> 2) ''Invalid format'') (\<lambda>_.
        let (prefix, encodedPayload) =
              (if length pieces = 2 then (pieces ! 0, pieces ! 1) else ([], pieces ! 0))
        in rbind (base32_decode (map lower_char encodedPayload)) (\<lambda>payload.
           rbind (network_choice N prefix payload) (\<lambda>prefix.
           rbind (converted (convertBits (take (length payload - 8) payload) 5 8 True)) (hash_info N prefix)))))"

definition getTypeBits :: "string \<Rightarrow> nat res" where
  "getTypeBits t =
     (if t = PayToPublicKeyHash_text then Inr 0 else if t = PayToScriptHash_text then Inr 8
      else Inl (PlainError ''Invalid type''))"

definition getHashSizeBits :: "bytes \<Rightarrow> nat res" where
  "getHashSizeBits hash =
     (case map_of [(160, 0), (192, 1), (224, 2), (256, 3), (320, 4), (384, 5), (448, 6), (512, 7)]
             (length hash * 8) of
        Some b \<Rightarrow> Inr b | None \<Rightarrow> Inl (PlainError ''Invalid hash size''))"

definition toCashAddress :: "bool \<Rightarrow> address \<Rightarrow> string res" where
  "toCashAddress stripPrefix a =
     (case addr_network a of
        Inherited _ \<Rightarrow> Inl TypeErr
      | Net n \<Rightarrow>
        (case net_prefix n of
           None \<Rightarrow> Inl TypeErr
         | Some p \<Rightarrow>
           let prefixData = net_prefixArray n @ [0]
           in rbind (getTypeBits (addr_type a)) (\<lambda>t.
              rbind (getHashSizeBits (hashBuffer a)) (\<lambda>h.
              rbind (converted (convertBits ((t + h) # map unat (hashBuffer a)) 8 5 False)) (\<lambda>payloadData.
                let checksumData = (prefixData @ payloadData) @ replicate 8 0;
                    payload = payloadData @ checksumToArray (polymod checksumData)
                in rmap (\<lambda>s. if stripPrefix then s else p @ '':'' @ s) (base32_encode payload))))))"

section \<open>The form with a script\<close>

definition decodeXAddress :: "coder \<Rightarrow> net_state \<Rightarrow> string \<Rightarrow> info res" where
  "decodeXAddress K N address =
     rbind (xaddress_decode K N address) (\<lambda>x.
     rbind (script_fromBuffer (x_hashBuffer x)) (\<lambda>script.
       if isPublicKeyHashOut script
       then Inr \<lparr>i_hashBuffer = chunk_buf (script ! 2), i_network = arg_ref (x_network x),
                 i_type = Some PayToPublicKeyHash_text\<rparr>
       else rmap (\<lambda>b. if b then \<lparr>i_hashBuffer = chunk_buf (script ! 1), i_network = arg_ref (x_network x),
                                i_type = Some PayToScriptHash_text\<rparr>
                     else \<lparr>i_hashBuffer = None, i_network = arg_ref (x_network x), i_type = None\<rparr>)
              (isScriptHashOut script)))"

section \<open>Version bytes\<close>

definition classifyFromVersion :: "net_state \<Rightarrow> bytes \<Rightarrow> network option \<times> string option" where
  "classifyFromVersion N buffer =
     (case nth_opt buffer 0 of
        None \<Rightarrow> (None, None)
      | Some v \<Rightarrow>
        (case networks_get_by N net_pubkeyhash (unat v) of
           Some n \<Rightarrow> (Some n, Some PayToPublicKeyHash_text)
         | None \<Rightarrow>
           (case networks_get_by N net_scripthash (unat v) of
              Some n \<Rightarrow> (Some n, Some PayToScriptHash_text)
            | None \<Rightarrow> (None, None))))"

definition transformHash :: "bytes \<Rightarrow> info res" where
  "transformHash h =
     (if length h \<noteq> 20 then Inl TypeErr
      else Inr \<lparr>i_hashBuffer = Some h, i_network = None, i_type = None\<rparr>)"

definition type_mismatch :: "string option \<Rightarrow> string option \<Rightarrow> bool" where
  "type_mismatch type found \<longleftrightarrow> \<not> truthy_text found \<or> truthy_text type \<and> type \<noteq> found"

definition transformBuffer :: "net_state \<Rightarrow> bytes \<Rightarrow> net_arg option \<Rightarrow> string option \<Rightarrow> info res" where
  "transformBuffer N buffer network type =
     (if length buffer \<noteq> 1 + 20 then Inl TypeErr
      else let networkObj = networks_get N network; (vnet, vtype) = classifyFromVersion N buffer
           in if truthy_net network \<and> networkObj = None then Inl TypeErr
              else if vnet = None \<or> networkObj \<noteq> None \<and> networkObj \<noteq> map_option Net vnet then Inl TypeErr
              else if type_mismatch type vtype then Inl TypeErr
              else Inr \<lparr>i_hashBuffer = Some (drop 1 buffer), i_network = map_option Net vnet, i_type = vtype\<rparr>)"

text \<open>Any exception of the first decoder is caught.\<close>

definition decode_long :: "coder \<Rightarrow> net_state \<Rightarrow> string \<Rightarrow> info res" where
  "decode_long K N data =
     (case decodeXAddress K N data of Inr i \<Rightarrow> Inr i | Inl _ \<Rightarrow> decodeCashAddress N data)"

definition transformString ::
  "coder \<Rightarrow> net_state \<Rightarrow> string \<Rightarrow> net_arg option \<Rightarrow> string option \<Rightarrow> info res" where
  "transformString K N data network type =
     (if length data < 34 then Inl (PlainError ''Invalid Address string provided'')
      else if length data > 100 then Inl TypeErr
      else let data = trim data; networkObj = networks_get N network
           in if truthy_net network \<and> networkObj = None then Inl TypeErr
              else if length data > 35
              then rbind (decode_long K N data) (\<lambda>info.
                     if mismatched networkObj (i_network info) then Inl TypeErr
                     else if type_mismatch type (i_type info) then Inl TypeErr
                     else Inr info)
              else rbind (base58check_decode K data) (\<lambda>b. transformBuffer N b network type))"

definition transformObject :: "net_state \<Rightarrow> address_object \<Rightarrow> info res" where
  "transformObject N ob =
     rbind (checkArgument (truthy_text (o_hash ob) \<or> o_hashBuffer ob \<noteq> None)
       ''Must provide a `hash` or `hashBuffer` property'') (\<lambda>_.
     rbind (checkArgument (truthy_text (o_type ob)) ''Must provide a `type` property'') (\<lambda>_.
       Inr \<lparr>i_hashBuffer = (if truthy_text (o_hash ob) then Some (of_hex (the (o_hash ob))) else o_hashBuffer ob),
            i_network = Some (net_or N (o_network ob)), i_type = o_type ob\<rparr>))"

definition transformPublicKey :: "coder \<Rightarrow> bytes \<Rightarrow> info" where
  "transformPublicKey K pubkey =
     \<lparr>i_hashBuffer = Some (sha256ripemd160 K pubkey), i_network = None, i_type = Some PayToPublicKeyHash_text\<rparr>"

definition type_text :: "address_type \<Rightarrow> string" where
  "type_text t = (case t of PayToPublicKeyHash \<Rightarrow> PayToPublicKeyHash_text | PayToScriptHash \<Rightarrow> PayToScriptHash_text)"

definition transformScript :: "(bytes \<Rightarrow> bool) \<Rightarrow> coder \<Rightarrow> bool \<Rightarrow> bool \<Rightarrow> script \<Rightarrow> info res" where
  "transformScript isValid K isInput isOutput script =
     rbind (getAddressInfo isValid (sha256ripemd160 K) isInput isOutput script) (\<lambda>i.
       case i of None \<Rightarrow> Inl (LibError ''Script.CantDeriveAddress'')
       | Some (t, h) \<Rightarrow> Inr \<lparr>i_hashBuffer = Some h, i_network = None, i_type = Some (type_text t)\<rparr>)"

section \<open>The constructor\<close>

datatype addr_data =
    AddrText string
  | AddrBuffer bytes
  | AddrPublicKey bytes
  | AddrScript bool bool script
  | AddrObject address_object
  | AddrAddress address

text \<open>A buffer of any other length is an object without the properties of an address.\<close>

definition no_object :: address_object where
  "no_object = \<lparr>o_hash = None, o_hashBuffer = None, o_network = None, o_type = None, o_prefix = None\<rparr>"

definition classifyArguments ::
  "(bytes \<Rightarrow> bool) \<Rightarrow> coder \<Rightarrow> net_state \<Rightarrow> addr_data \<Rightarrow> net_arg option \<Rightarrow> string option \<Rightarrow> info res" where
  "classifyArguments V K N data network type =
     (case data of
        AddrBuffer b \<Rightarrow> if length b = 20 then transformHash b
                        else if length b = 21 then transformBuffer N b network type
                        else transformObject N no_object
      | AddrPublicKey p \<Rightarrow> Inr (transformPublicKey K p)
      | AddrScript isInput isOutput script \<Rightarrow> transformScript V K isInput isOutput script
      | AddrText s \<Rightarrow> transformString K N s network type
      | AddrObject ob \<Rightarrow> transformObject N ob
      | AddrAddress a \<Rightarrow> Inl TypeErr)"

definition address_new ::
  "(bytes \<Rightarrow> bool) \<Rightarrow> coder \<Rightarrow> net_state \<Rightarrow> addr_data \<Rightarrow> net_arg option \<Rightarrow> string option \<Rightarrow> address res" where
  "address_new V K N data network type =
     (case data of AddrAddress a \<Rightarrow> Inr a
      | _ \<Rightarrow>
        rbind (checkArgument (data \<noteq> AddrText []) ''First argument is required, please include address data.'') (\<lambda>_.
        if truthy_net network \<and> networks_get N network = None then Inl TypeErr
        else if \<not> known_type type then Inl TypeErr
        else rbind (classifyArguments V K N data network type) (\<lambda>info.
          rmap (\<lambda>h. \<lparr>hashBuffer = h,
                     addr_network = (case i_network info of Some r \<Rightarrow> r | None \<Rightarrow> net_or N network),
                     addr_type = (if truthy_text (i_type info) then the (i_type info)
                                  else if truthy_text type then the type else PayToPublicKeyHash_text)\<rparr>)
            (case i_hashBuffer info of None \<Rightarrow> Inl TypeErr | Some h \<Rightarrow> Inr h))))"

definition net_default :: "net_arg option \<Rightarrow> net_arg option" where
  "net_default n = (if truthy_net n then n else Some (NetRef (Net livenet)))"

definition fromPublicKey :: "(bytes \<Rightarrow> bool) \<Rightarrow> coder \<Rightarrow> net_state \<Rightarrow> bytes \<Rightarrow> net_arg option \<Rightarrow> address res" where
  "fromPublicKey V K N data network =
     (let info = transformPublicKey K data
      in address_new V K N (AddrBuffer (the (i_hashBuffer info))) (net_default network) (i_type info))"

definition fromPublicKeyHash :: "(bytes \<Rightarrow> bool) \<Rightarrow> coder \<Rightarrow> net_state \<Rightarrow> bytes \<Rightarrow> net_arg option \<Rightarrow> address res" where
  "fromPublicKeyHash V K N h network =
     rbind (transformHash h) (\<lambda>_. address_new V K N (AddrBuffer h) network (Some PayToPublicKeyHash_text))"

definition fromScriptHash :: "(bytes \<Rightarrow> bool) \<Rightarrow> coder \<Rightarrow> net_state \<Rightarrow> bytes \<Rightarrow> net_arg option \<Rightarrow> address res" where
  "fromScriptHash V K N h network =
     rbind (transformHash h) (\<lambda>_. address_new V K N (AddrBuffer h) network (Some PayToScriptHash_text))"

definition payingTo :: "(bytes \<Rightarrow> bool) \<Rightarrow> coder \<Rightarrow> net_state \<Rightarrow> script \<Rightarrow> net_arg option \<Rightarrow> address res" where
  "payingTo V K N script network =
     rbind (script_toBuffer script) (\<lambda>b. fromScriptHash V K N (sha256ripemd160 K b) network)"

text \<open>Every public key object has a network, the default one if none was given.\<close>

definition createMultisig ::
  "(bytes \<Rightarrow> bool) \<Rightarrow> coder \<Rightarrow> net_state \<Rightarrow> (bytes \<times> net_arg) list \<Rightarrow> nat \<Rightarrow> net_arg option \<Rightarrow> address res" where
  "createMultisig V K N publicKeys threshold network =
     rbind (if truthy_net network then Inr network
            else case publicKeys of [] \<Rightarrow> Inl TypeErr | k # _ \<Rightarrow> Inr (Some (snd k))) (\<lambda>network.
     rbind (buildMultisigOut (map fst publicKeys) threshold False) (\<lambda>script. payingTo V K N script network))"

definition fromScript ::
  "(bytes \<Rightarrow> bool) \<Rightarrow> coder \<Rightarrow> net_state \<Rightarrow> bool \<Rightarrow> bool \<Rightarrow> script \<Rightarrow> net_arg option \<Rightarrow> address res" where
  "fromScript V K N isInput isOutput script network =
     rbind (transformScript V K isInput isOutput script) (\<lambda>info.
       address_new V K N (AddrBuffer (the (i_hashBuffer info))) network (i_type info))"

definition address_fromBuffer ::
  "(bytes \<Rightarrow> bool) \<Rightarrow> coder \<Rightarrow> net_state \<Rightarrow> bytes \<Rightarrow> net_arg option \<Rightarrow> string option \<Rightarrow> address res" where
  "address_fromBuffer V K N buffer network type =
     rbind (transformBuffer N buffer network type) (\<lambda>info.
       address_new V K N (AddrBuffer (the (i_hashBuffer info))) (map_option NetRef (i_network info)) (i_type info))"

text \<open>A text with a hash of another length than 20 or 21 bytes is refused here, where the
  constructor accepts it.\<close>

definition address_fromString ::
  "(bytes \<Rightarrow> bool) \<Rightarrow> coder \<Rightarrow> net_state \<Rightarrow> string \<Rightarrow> net_arg option \<Rightarrow> string option \<Rightarrow> address res" where
  "address_fromString V K N str network type =
     rbind (transformString K N str network type) (\<lambda>info.
     rbind (case i_hashBuffer info of None \<Rightarrow> Inl TypeErr | Some h \<Rightarrow> Inr h) (\<lambda>h.
       address_new V K N (AddrBuffer h) (map_option NetRef (i_network info)) (i_type info)))"

definition address_fromObject ::
  "(bytes \<Rightarrow> bool) \<Rightarrow> coder \<Rightarrow> net_state \<Rightarrow> address_object \<Rightarrow> address res" where
  "address_fromObject V K N ob =
     rbind (checkState (case o_hash ob of None \<Rightarrow> False | Some h \<Rightarrow> isHexa h) ''Unexpected hash property'') (\<lambda>_.
       address_new V K N (AddrBuffer (of_hex (the (o_hash ob)))) (o_network ob) (o_type ob))"

definition getValidationError ::
  "(bytes \<Rightarrow> bool) \<Rightarrow> coder \<Rightarrow> net_state \<Rightarrow> addr_data \<Rightarrow> net_arg option \<Rightarrow> string option \<Rightarrow> js_error option" where
  "getValidationError V K N data network type =
     (case address_new V K N data network type of Inl e \<Rightarrow> Some e | Inr _ \<Rightarrow> None)"

definition address_isValid ::
  "(bytes \<Rightarrow> bool) \<Rightarrow> coder \<Rightarrow> net_state \<Rightarrow> addr_data \<Rightarrow> net_arg option \<Rightarrow> string option \<Rightarrow> bool" where
  "address_isValid V K N data network type = (getValidationError V K N data network type = None)"

section \<open>Reading an address\<close>

definition isPayToPublicKeyHash :: "address \<Rightarrow> bool" where
  "isPayToPublicKeyHash a = (addr_type a = PayToPublicKeyHash_text)"

definition isPayToScriptHash :: "address \<Rightarrow> bool" where
  "isPayToScriptHash a = (addr_type a = PayToScriptHash_text)"

definition address_toBuffer :: "address \<Rightarrow> bytes" where
  "address_toBuffer a = version_byte (addr_network a) (addr_type a) # hashBuffer a"

definition toCashBuffer :: "address \<Rightarrow> bytes" where
  "toCashBuffer a = version_byte (addr_network a) (addr_type a) # hashBuffer a"

definition address_toObject :: "address \<Rightarrow> address_object" where
  "address_toObject a =
     \<lparr>o_hash = Some (to_hex (hashBuffer a)), o_hashBuffer = None,
      o_network = Some (NetText (net_text (addr_network a))), o_type = Some (addr_type a), o_prefix = None\<rparr>"

definition toLegacyAddress :: "coder \<Rightarrow> address \<Rightarrow> string" where
  "toLegacyAddress K a = base58check_encode K (address_toBuffer a)"

definition script_of_address :: "address \<Rightarrow> script res" where
  "script_of_address a =
     (if isPayToScriptHash a then script_fromAddress PayToScriptHash (hashBuffer a)
      else if isPayToPublicKeyHash a then script_fromAddress PayToPublicKeyHash (hashBuffer a)
      else Inl (LibError ''Script.UnrecognizedAddress''))"

definition address_toXAddress :: "coder \<Rightarrow> net_state \<Rightarrow> address \<Rightarrow> string res" where
  "address_toXAddress K N a =
     rbind (script_of_address a) (\<lambda>script.
     rbind (script_toBuffer script) (\<lambda>b.
     rbind (xaddress_new K N (XBuffer b) (Some (NetRef (addr_network a))) (Some (addr_type a))) (toXAddress K)))"

definition address_inspect :: "address \<Rightarrow> string res" where
  "address_inspect a =
     rmap (\<lambda>t. ''<Address: '' @ t @ '', type: '' @ addr_type a @ '', network: '' @ net_text (addr_network a) @ ''>'')
       (toCashAddress False a)"

end
