(* ===== verification/AddressResults.thy ===== *)
theory AddressResults
  imports Address
begin

text \<open>
  Results about addresses: an address printed with its checksum is read back, a text whose change
  is confined to eight consecutive characters is refused, the form with a script is read back, and
  a prefix that no network has is accepted when every object inherits a property of that name.
\<close>

section \<open>Characters of the encoding\<close>

definition plain :: "char \<Rightarrow> bool" where
  "plain c \<longleftrightarrow> lower_char c = c \<and> \<not> split_char c \<and> \<not> js_space c \<and> c \<noteq> CHR '':''"

lemma charset_plain: "v < 32 \<Longrightarrow> plain (CHARSET ! v)"
proof -
  have "list_all (\<lambda>v. plain (CHARSET ! v)) [0..<32]" by code_simp
  then show "v < 32 \<Longrightarrow> plain (CHARSET ! v)" by (simp add: list_all_iff)
qed

definition chars32 :: "nat list \<Rightarrow> string" where
  "chars32 ds = map (\<lambda>v. CHARSET ! v) ds"

lemma chars32_plain: "list_all (\<lambda>d. d < 32) ds \<Longrightarrow> list_all plain (chars32 ds)"
  by (induction ds) (simp_all add: chars32_def charset_plain)

lemma length_chars32 [simp]: "length (chars32 ds) = length ds"
  by (simp add: chars32_def)

lemma plain_lower: "list_all plain s \<Longrightarrow> map lower_char s = s"
  by (induction s) (simp_all add: plain_def)

lemma plain_no_colon: "list_all plain s \<Longrightarrow> CHR '':'' \<notin> set s"
  by (induction s) (auto simp: plain_def)

lemma lower_idem [simp]: "lower_char (lower_char c) = lower_char c"
  by (simp add: lower_char_def Let_def)

lemma colon_lower [simp]: "lower_char CHR '':'' = CHR '':''"
  by (simp add: lower_char_def)

lemma lower_colon: "lower_char c = CHR '':'' \<longleftrightarrow> c = CHR '':''"
proof
  assume h: "lower_char c = CHR '':''"
  show "c = CHR '':''"
  proof (rule ccontr)
    assume ne: "c \<noteq> CHR '':''"
    then have k: "65 \<le> (of_char c :: nat) \<and> of_char c \<le> (90 :: nat)" and eq: "char_of (of_char c + 32 :: nat) = CHR '':''"
      using h by (simp_all add: lower_char_def Let_def split: if_splits)
    from arg_cong [OF eq, of "of_char :: char \<Rightarrow> nat"] k show False by (simp add: take_bit_eq_mod)
  qed
qed simp

lemma no_colon_lower: "CHR '':'' \<notin> set s \<Longrightarrow> CHR '':'' \<notin> set (map lower_char s)"
proof
  assume "CHR '':'' \<notin> set s" "CHR '':'' \<in> set (map lower_char s)"
  then obtain c where c: "c \<in> set s" "lower_char c = CHR '':''" unfolding set_map image_iff by metis
  from c(2) have "c = CHR '':''" by (rule lower_colon [THEN iffD1])
  with c(1) \<open>CHR '':'' \<notin> set s\<close> show False by (simp only:)
qed

lemma trim_plain: "list_all (\<lambda>c. \<not> js_space c) s \<Longrightarrow> trim s = s"
proof -
  have id: "dropWhile js_space s = s" if "list_all (\<lambda>c. \<not> js_space c) s" for s
    using that by (cases s) simp_all
  assume "list_all (\<lambda>c. \<not> js_space c) s"
  then show ?thesis using id [of s] id [of "rev s"] by (simp add: trim_def list_all_iff)
qed

section \<open>The decoder on a well-formed text\<close>

definition encoded :: "string \<Rightarrow> nat list \<Rightarrow> nat list" where
  "encoded p payload =
     payload @ checksumToArray (polymod (((prefixToArray p @ [0]) @ payload) @ replicate 8 0))"

lemma encoded_props:
  assumes "list_all (\<lambda>d. d < 32) payload"
  shows "validChecksum p (encoded p payload)" and "list_all (\<lambda>d. d < 32) (encoded p payload)"
    and "length (encoded p payload) = length payload + 8"
    and "take (length (encoded p payload) - 8) (encoded p payload) = payload"
  using checksum_valid [OF assms, of p] assms by (simp_all add: encoded_def)

definition prefixed :: "string \<Rightarrow> string \<Rightarrow> string" where
  "prefixed p s = (if p = [] then s else p @ '':'' @ s)"

lemma decode_pieces:
  assumes "hasSingleCase (prefixed p s)" and "CHR '':'' \<notin> set p" and "CHR '':'' \<notin> set s"
  shows "decodeCashAddress N (prefixed p s) =
    rbind (base32_decode (map lower_char s)) (\<lambda>payload.
    rbind (network_choice N (map lower_char p) payload) (\<lambda>prefix.
    rbind (converted (convertBits (take (length payload - 8) payload) 5 8 True)) (hash_info N prefix)))"
proof -
  have nc: "CHR '':'' \<notin> set (map lower_char p)" "CHR '':'' \<notin> set (map lower_char s)"
    by (rule no_colon_lower [OF assms(2)], rule no_colon_lower [OF assms(3)])
  have sp: "split_on CHR '':'' (map lower_char (prefixed p s)) =
      (if p = [] then [map lower_char s] else [map lower_char p, map lower_char s])"
    using nc by (simp add: prefixed_def split_on_append split_on_plain)
  have ll: "map lower_char (map lower_char s) = map lower_char s" by simp
  have ok: "checkArgument (hasSingleCase (prefixed p s)) m = Inr ()" for m
    using assms(1) by (simp add: checkArgument_def)
  show ?thesis
    unfolding decodeCashAddress_def Let_def sp ok
    by (simp only: rbind_simps ll split: if_split) (simp add: checkArgument_def comp_def)
qed

lemma single_lower: "map lower_char s = s \<Longrightarrow> hasSingleCase s"
  by (simp add: hasSingleCase_def)

lemma decode_encoded:
  assumes "map lower_char p = p" and "CHR '':'' \<notin> set p" and "list_all (\<lambda>v. v < 256) ds"
    and "network_choice N p (encoded q payload) = Inr q" and "convertBits ds 8 5 False = Some (Inr payload)"
  shows "decodeCashAddress N (prefixed p (chars32 (encoded q payload))) = hash_info N q ds"
proof -
  from convertBits_roundtrip [OF assms(3)] assms(5) have
    pl: "list_all (\<lambda>d. d < 32) payload" "convertBits payload 5 8 True = Some (Inr ds)" by auto
  let ?s = "chars32 (encoded q payload)"
  note enc = encoded_props [OF pl(1), of q]
  have s: "map lower_char ?s = ?s" "CHR '':'' \<notin> set ?s"
    using plain_lower plain_no_colon chars32_plain [OF enc(2)] by blast+
  have single: "hasSingleCase (prefixed p ?s)" using assms(1) s(1) by (intro single_lower) (simp add: prefixed_def)
  have b: "base32_decode ?s = Inr (encoded q payload)"
    unfolding chars32_def by (rule base32_decode_digits [OF enc(2)])
  show ?thesis
    unfolding decode_pieces [OF single assms(2) s(2)] s(1) b assms(1)
    by (simp only: rbind_simps assms(4) enc(4) pl(2) converted_def option.case)
qed

section \<open>The three prefixes exclude each other\<close>

definition net_prefixes :: "string list" where
  "net_prefixes = [''ecash'', ''ectest'', ''bchreg'']"

definition prefix_state :: "string \<Rightarrow> nat" where
  "prefix_state p = dval 5 (1 # prefixToArray p @ [0])"

lemma poly_prefix: "length p \<le> 6 \<Longrightarrow>
    fold poly_step (prefixToArray p @ [0]) 1 = word_of_nat (prefix_state p) \<and> prefix_state p < 2 ^ 40"
proof
  let ?ds = "1 # prefixToArray p @ [0]"
  assume l: "length p \<le> 6"
  then have ds: "length ?ds \<le> 8" "list_all (\<lambda>d. d < 32) ?ds"
    using prefix_digits [of p] by (simp_all add: prefixToArray_def)
  have "fold poly_step ?ds 0 = fold poly_step (prefixToArray p @ [0]) (poly_step 1 0)" by simp
  also have "poly_step 1 0 = 1" by (simp add: poly_step_def)
  finally show "fold poly_step (prefixToArray p @ [0]) 1 = word_of_nat (prefix_state p)"
    using fold_poly_small [OF ds] by (simp only: prefix_state_def)
  show "prefix_state p < 2 ^ 40" unfolding prefix_state_def by (rule burst_bound [OF ds])
qed

lemma prefix_states: "\<forall>p \<in> set net_prefixes. \<forall>q \<in> set net_prefixes. prefix_state p = prefix_state q \<longrightarrow> p = q"
  by (simp add: net_prefixes_def prefix_state_def prefixToArray_def dval_def)

lemma prefix_lengths: "p \<in> set net_prefixes \<Longrightarrow> length p \<le> 6"
  by (auto simp: net_prefixes_def)

lemma checksum_state:
  assumes "list_all (\<lambda>d. d < 32) payload"
  shows "validChecksum p payload \<longleftrightarrow> fold poly_step payload (fold poly_step (prefixToArray p @ [0]) 1) = 1"
proof -
  have "list_all (\<lambda>d. d < 32) ((prefixToArray p @ [0]) @ payload)" using assms prefix_digits by simp
  from polymod_word [OF this] have "polymod ((prefixToArray p @ [0]) @ payload) =
      uint (fold poly_step payload (fold poly_step (prefixToArray p @ [0]) 1) XOR 1)"
    by (simp only: fold_append comp_apply)
  then show ?thesis unfolding validChecksum_def by (simp only: uint_0_iff xor_eq_0_iff)
qed

lemma prefix_unique:
  assumes "p \<in> set net_prefixes" and "q \<in> set net_prefixes" and "list_all (\<lambda>d. d < 32) payload"
    and "validChecksum p payload" and "validChecksum q payload"
  shows "p = q"
proof -
  let ?s = "\<lambda>p. fold poly_step (prefixToArray p @ [0]) (1 :: 40 word)"
  let ?Z = "fold poly_step (replicate (length payload) 0)"
  have "fold poly_step payload (?s p) = fold poly_step payload (?s q)"
    using assms(3-5) by (simp only: checksum_state)
  then have "?Z (?s p) = ?Z (?s q)"
    using fold_poly_split [of payload "?s p"] fold_poly_split [of payload "?s q"] by (simp only: xor_left_cancel)
  then have "?Z (?s p XOR ?s q) = 0" by (simp only: fold_poly_xor xor_self_eq)
  then have "?s p = ?s q" by (simp only: fold_zeros_inj [THEN xor_eq_0_iff [THEN iffD1]])
  then have "(word_of_nat (prefix_state p) :: 40 word) = word_of_nat (prefix_state q)"
    using poly_prefix prefix_lengths assms(1,2) by metis
  then have "prefix_state p = prefix_state q"
    using of_nat_inverse_eq poly_prefix prefix_lengths assms(1,2) by metis
  then show ?thesis using prefix_states assms(1,2) by blast
qed

lemma guess_default:
  assumes "p \<in> set net_prefixes" and "list_all (\<lambda>d. d < 32) payload" and "validChecksum p payload"
  shows "network_choice default_networks [] payload = Inr p"
proof -
  have no: "\<not> validChecksum q payload" if "q \<in> set net_prefixes" "q \<noteq> p" for q
    using prefix_unique [OF assms(1) that(1) assms(2,3)] that(2) by blast
  have pf: "net_prefix livenet = Some ''ecash''" "net_prefix testnet = Some ''ectest''"
    "net_prefix regtest = Some ''bchreg''"
    by (simp_all add: network_defs)
  from assms(1) consider "p = ''ecash''" | "p = ''ectest''" | "p = ''bchreg''" by (auto simp: net_prefixes_def)
  then show ?thesis
    using no [of "''ecash''"] no [of "''ectest''"] no [of "''bchreg''"] assms(3)
    by cases (simp_all add: network_choice_def networks_get_def pf net_prefixes_def)
qed

section \<open>Printing and reading\<close>

lemma byte_list_bound: "list_all (\<lambda>v. v < 256) (map unat (h :: bytes))"
  by (simp add: list_all_iff)

lemma known_prefixes:
  "net_prefix livenet = Some ''ecash''" "net_prefix testnet = Some ''ectest''"
  "net_prefix regtest = Some ''bchreg''"
  "net_prefixArray livenet = prefixToArray ''ecash''" "net_prefixArray testnet = prefixToArray ''ectest''"
  "net_prefixArray regtest = prefixToArray ''bchreg''"
  by (simp_all add: network_defs)

lemma known_network_prefix:
  assumes "n \<in> {livenet, testnet, regtest}"
  obtains p where "net_prefix n = Some p" and "net_prefixArray n = prefixToArray p"
    and "p \<in> set net_prefixes" and "networks_get default_networks (Some (NetText p)) = Some (Net n)"
proof -
  from assms consider "n = livenet" | "n = testnet" | "n = regtest" by blast
  then show thesis
  proof cases
    case 1
    show ?thesis by (rule that [of "''ecash''"]) (simp_all add: 1 known_prefixes net_prefixes_def networks_get_def)
  next
    case 2
    show ?thesis by (rule that [of "''ectest''"]) (simp_all add: 2 known_prefixes net_prefixes_def networks_get_def)
  next
    case 3
    show ?thesis by (rule that [of "''bchreg''"]) (simp_all add: 3 known_prefixes net_prefixes_def networks_get_def)
  qed
qed

text \<open>The version byte splits into the bits of the type and of the size of the hash.\<close>

lemma version_bits:
  assumes "t \<in> {0, 8 :: nat}" and "b < 8"
  shows "(t + b) AND 7 = b" and "(t + b) AND 120 = t" and "t + b < 256"
proof -
  have "\<forall>t \<in> set [0, 8 :: nat]. \<forall>b \<in> set [0, 1, 2, 3, 4, 5, 6, 7 :: nat].
      (t + b) AND 7 = b \<and> (t + b) AND 120 = t" by code_simp
  moreover have "b \<in> set [0, 1, 2, 3, 4, 5, 6, 7]" using assms(2) by auto
  moreover have "t \<in> set [0, 8]" using assms(1) by simp
  ultimately show "(t + b) AND 7 = b" "(t + b) AND 120 = t" by blast+
  show "t + b < 256" using assms by auto
qed

definition hash_sizes :: "nat list" where
  "hash_sizes = [20, 24, 28, 32, 40, 48, 56, 64]"

lemma size_bits:
  assumes "length h \<in> set hash_sizes"
  obtains b where "getHashSizeBits h = Inr b" and "b < 8"
    and "[160, 192, 224, 256, 320, 384, 448, 512] ! b = length h * 8"
proof -
  from assms consider "length h = 20" | "length h = 24" | "length h = 28" | "length h = 32" | "length h = 40"
    | "length h = 48" | "length h = 56" | "length h = 64" by (auto simp: hash_sizes_def)
  then show thesis
    by cases (rule that, (simp add: getHashSizeBits_def)+)+
qed

lemma type_bits:
  assumes "t \<in> {PayToPublicKeyHash_text, PayToScriptHash_text}"
  obtains tb where "getTypeBits t = Inr tb" and "tb \<in> {0, 8}"
    and "\<And>b. b < 8 \<Longrightarrow> getType (tb + b) = Inr t"
proof (cases "t = PayToPublicKeyHash_text")
  case True
  show ?thesis by (rule that [of 0]) (simp_all add: True getTypeBits_def getType_def version_bits(2) [of 0, simplified])
next
  case False
  then have t: "t = PayToScriptHash_text" using assms by simp
  show ?thesis
    by (rule that [of 8]) (simp_all add: t getTypeBits_def getType_def version_bits(2)
        PayToPublicKeyHash_text_def PayToScriptHash_text_def)
qed

lemma hash_info_version:
  assumes "tb \<in> {0, 8}" and "b < 8" and "[160, 192, 224, 256, 320, 384, 448, 512] ! b = length h * 8"
    and "getType (tb + b) = Inr t"
  shows "hash_info N p ((tb + b) # map unat (h :: bytes)) =
    Inr \<lparr>i_hashBuffer = Some h, i_network = networks_get N (Some (NetText p)), i_type = Some t\<rparr>"
  using assms by (simp add: hash_info_def getHashSize_def version_bits(1) checkArgument_def comp_def)

lemma toCashAddress_text:
  assumes "n \<in> {livenet, testnet, regtest}" and "t \<in> {PayToPublicKeyHash_text, PayToScriptHash_text}"
    and "length h \<in> set hash_sizes"
  obtains p ds payload where
    "toCashAddress strip \<lparr>hashBuffer = h, addr_network = Net n, addr_type = t\<rparr> =
       Inr (prefixed (if strip then [] else p) (chars32 (encoded p payload)))"
    and "p \<in> set net_prefixes" and "net_prefix n = Some p"
    and "list_all (\<lambda>v. v < 256) ds" and "convertBits ds 8 5 False = Some (Inr payload)"
    and "length payload = (8 * (length h + 1) + 4) div 5" and "list_all (\<lambda>d. d < 32) payload"
    and "hash_info default_networks p ds = Inr \<lparr>i_hashBuffer = Some h, i_network = Some (Net n), i_type = Some t\<rparr>"
proof -
  from known_network_prefix [OF assms(1)] obtain p where
    p: "net_prefix n = Some p" "net_prefixArray n = prefixToArray p" "p \<in> set net_prefixes"
      "networks_get default_networks (Some (NetText p)) = Some (Net n)" by blast
  from size_bits [OF assms(3)] obtain b where
    b: "getHashSizeBits h = Inr b" "b < 8" "[160, 192, 224, 256, 320, 384, 448, 512] ! b = length h * 8" by blast
  from type_bits [OF assms(2)] obtain tb where
    tb: "getTypeBits t = Inr tb" "tb \<in> {0, 8}" "\<And>b. b < 8 \<Longrightarrow> getType (tb + b) = Inr t" by blast
  define ds where "ds = (tb + b) # map unat h"
  have ds: "list_all (\<lambda>v. v < 256) ds" using version_bits(3) [OF tb(2) b(2)] byte_list_bound by (simp add: ds_def)
  from convertBits_roundtrip [OF ds] obtain payload where
    pl: "convertBits ds 8 5 False = Some (Inr payload)" "list_all (\<lambda>d. d < 32) payload"
      "length payload = (8 * length ds + 4) div 5" by blast
  have info: "hash_info default_networks p ds = Inr \<lparr>i_hashBuffer = Some h, i_network = Some (Net n), i_type = Some t\<rparr>"
    using hash_info_version [OF tb(2) b(2,3) tb(3) [OF b(2)], of default_networks p] p(4) by (simp only: ds_def)
  have ne: "p \<noteq> []" using p(3) by (auto simp: net_prefixes_def)
  have "toCashAddress strip \<lparr>hashBuffer = h, addr_network = Net n, addr_type = t\<rparr> =
      rmap (\<lambda>s. if strip then s else p @ '':'' @ s) (base32_encode (encoded p payload))"
    using pl(1) by (simp add: toCashAddress_def p(1,2) tb(1) b(1) converted_def encoded_def Let_def flip: ds_def)
  also have "base32_encode (encoded p payload) = Inr (chars32 (encoded p payload))"
    unfolding chars32_def by (rule base32_encode_eq [OF encoded_props(2) [OF pl(2)]])
  finally have printed: "toCashAddress strip \<lparr>hashBuffer = h, addr_network = Net n, addr_type = t\<rparr> =
      Inr (prefixed (if strip then [] else p) (chars32 (encoded p payload)))"
    using ne by (simp add: prefixed_def)
  show thesis
    by (rule that [OF printed p(3,1) ds pl(1) _ pl(2) info]) (use pl(3) in \<open>simp add: ds_def\<close>)
qed

section \<open>The first decoder refuses lower case\<close>

lemma decodeX_plain:
  assumes "list_all (\<lambda>c. \<not> split_char c) s" and "s \<noteq> []"
  shows "\<exists>e. decodeXAddress K N s = Inl e"
proof -
  have loc: "split_location s = 0" using assms(1) by (simp add: split_location_def list_all_iff takeWhile_eq_all_conv [THEN iffD2])
  obtain c cs where s: "s = c # cs" using assms(2) by (cases s) auto
  have "\<not> split_char c" using assms(1) s by simp
  then have "c \<noteq> CHR ''_''" "c \<noteq> CHR ''T''" "c \<noteq> CHR ''R''" by (auto simp: split_char_def)
  then have "getNetwork N (slice s 0 (0 + 1)) = Inl TypeErr" by (simp add: s slice_def getNetwork_def)
  then have "\<not> isOk (xaddress_decode K N s)"
    unfolding xaddress_decode_def loc Let_def isOk_iff by (auto simp: rbind_Inr_iff)
  then show ?thesis by (cases "xaddress_decode K N s") (simp_all add: decodeXAddress_def)
qed

section \<open>Properties\<close>

lemma text_of_plain:
  assumes "p \<in> set net_prefixes" and "list_all (\<lambda>d. d < 32) ds" and "q \<in> {[], p}"
  shows "list_all (\<lambda>c. \<not> split_char c) (prefixed q (chars32 ds))"
    and "trim (prefixed q (chars32 ds)) = prefixed q (chars32 ds)"
    and "map lower_char q = q" and "CHR '':'' \<notin> set q"
    and "length (prefixed q (chars32 ds)) \<ge> length ds"
proof -
  have "list_all (list_all plain) net_prefixes" by code_simp
  then have p: "list_all plain q" using assms(1,3) by (auto simp: list_all_iff)
  then show "map lower_char q = q" "CHR '':'' \<notin> set q" by (rule plain_lower, rule plain_no_colon)
  have "\<not> split_char CHR '':''" "\<not> js_space CHR '':''" by code_simp+
  with p chars32_plain [OF assms(2)]
  have "list_all (\<lambda>c. \<not> split_char c \<and> \<not> js_space c) (prefixed q (chars32 ds))"
    by (auto simp: prefixed_def list_all_iff plain_def)
  then show "list_all (\<lambda>c. \<not> split_char c) (prefixed q (chars32 ds))"
    "trim (prefixed q (chars32 ds)) = prefixed q (chars32 ds)"
    using trim_plain [of "prefixed q (chars32 ds)"] by (simp_all add: list_all_iff)
  show "length (prefixed q (chars32 ds)) \<ge> length ds" by (simp add: prefixed_def)
qed

lemma get_known: "n \<in> {livenet, testnet, regtest} \<Longrightarrow>
    networks_get default_networks (Some (NetRef (Net n))) = Some (Net n)"
  by (auto simp: networks_get_def default_list)

lemma get_none: "networks_get default_networks None = None"
  by (simp add: networks_get_def)

lemma transform_printed:
  assumes "n \<in> {livenet, testnet, regtest}" and "t \<in> {PayToPublicKeyHash_text, PayToScriptHash_text}"
    and "length h \<in> set hash_sizes" and "network \<in> {None, Some (NetRef (Net n))}" and "type \<in> {None, Some t}"
  obtains s where "toCashAddress strip \<lparr>hashBuffer = h, addr_network = Net n, addr_type = t\<rparr> = Inr s"
    and "transformString K default_networks s network type =
      (if length s \<le> 100 then Inr \<lparr>i_hashBuffer = Some h, i_network = Some (Net n), i_type = Some t\<rparr>
       else Inl TypeErr)" and "s \<noteq> []"
proof -
  from toCashAddress_text [OF assms(1-3), of strip] obtain p ds payload where
    c: "toCashAddress strip \<lparr>hashBuffer = h, addr_network = Net n, addr_type = t\<rparr> =
         Inr (prefixed (if strip then [] else p) (chars32 (encoded p payload)))"
    and p: "p \<in> set net_prefixes" "net_prefix n = Some p"
    and ds: "list_all (\<lambda>v. v < 256) ds" "convertBits ds 8 5 False = Some (Inr payload)"
    and pl: "length payload = (8 * (length h + 1) + 4) div 5" "list_all (\<lambda>d. d < 32) payload"
    and info: "hash_info default_networks p ds = Inr \<lparr>i_hashBuffer = Some h, i_network = Some (Net n), i_type = Some t\<rparr>"
    by blast
  define q where "q = (if strip then [] else p)"
  define s where "s = prefixed q (chars32 (encoded p payload))"
  note enc = encoded_props [OF pl(2), of p]
  have "q \<in> {[], p}" by (simp add: q_def)
  note tx = text_of_plain [OF p(1) enc(2) this, folded s_def]
  have "20 \<le> length h" using assms(3) by (auto simp: hash_sizes_def)
  then have "172 div 5 \<le> length payload" unfolding pl(1) by (intro div_le_mono) simp
  then have len: "35 < length s" using tx(5) enc(3) by simp
  have ne: "p \<noteq> []" using p(1) by (auto simp: net_prefixes_def)
  have choice: "network_choice default_networks q (encoded p payload) = Inr p"
    using guess_default [OF p(1) enc(2,1)] enc(1) ne
    by (simp add: q_def network_choice_def checkArgument_def)
  have "s \<noteq> []" using len by auto
  with decodeX_plain [OF tx(1)] obtain e where "decodeXAddress K default_networks s = Inl e" by blast
  then have long: "decode_long K default_networks s = Inr \<lparr>i_hashBuffer = Some h, i_network = Some (Net n), i_type = Some t\<rparr>"
    using decode_encoded [OF tx(3,4) ds(1) choice ds(2)] info by (simp add: decode_long_def s_def)
  have net: "networks_get default_networks network = map_option (\<lambda>_. Net n) network"
    using assms(4) get_known [OF assms(1)] get_none by auto
  have "truthy_text (Some t)" using assms(2) by (auto simp: truthy_text_def PayToPublicKeyHash_text_def PayToScriptHash_text_def)
  then have ty: "\<not> type_mismatch type (Some t)" using assms(5) by (auto simp: type_mismatch_def truthy_text_def)
  have mm: "\<not> mismatched (map_option (\<lambda>_. Net n) network) (Some (Net n))"
    by (simp add: mismatched_def split: option.splits)
  have "transformString K default_networks s network type =
      (if length s \<le> 100 then Inr \<lparr>i_hashBuffer = Some h, i_network = Some (Net n), i_type = Some t\<rparr> else Inl TypeErr)"
    using len ty mm by (auto simp: transformString_def Let_def tx(2) long net truthy_net_def)
  moreover have "toCashAddress strip \<lparr>hashBuffer = h, addr_network = Net n, addr_type = t\<rparr> = Inr s"
    using c by (simp only: s_def q_def)
  ultimately show thesis using \<open>s \<noteq> []\<close> by (intro that) simp_all
qed

text \<open>C37. An address of one of the three networks, printed with or without its prefix, is read back as
  the same address, whatever the base 58 coder and the hash do on its text, also when its network and
  type are asked for; only a text of more than 100 characters, which the longest hashes have, is
  refused.  \<^verbatim>\<open>Address.fromString\<close> reads back the hashes of 20 bytes only.\<close>

theorem cash_address_roundtrip:
  assumes "n \<in> {livenet, testnet, regtest}" and "t \<in> {PayToPublicKeyHash_text, PayToScriptHash_text}"
    and "length h \<in> set hash_sizes" and "network \<in> {None, Some (NetRef (Net n))}" and "type \<in> {None, Some t}"
  defines "a \<equiv> \<lparr>hashBuffer = h, addr_network = Net n, addr_type = t\<rparr>"
  shows "\<exists>s. toCashAddress strip a = Inr s \<and>
    address_new V K default_networks (AddrText s) network type = (if length s \<le> 100 then Inr a else Inl TypeErr) \<and>
    isOk (address_fromString V K default_networks s network type) = (length s \<le> 100 \<and> length h = 20)"
proof -
  from transform_printed [OF assms(1-5), of strip K] obtain s where
    s: "toCashAddress strip a = Inr s" "s \<noteq> []"
    and tr: "transformString K default_networks s network type =
      (if length s \<le> 100 then Inr \<lparr>i_hashBuffer = Some h, i_network = Some (Net n), i_type = Some t\<rparr>
       else Inl TypeErr)" unfolding a_def by blast
  have net: "truthy_net network \<longrightarrow> networks_get default_networks network \<noteq> None" and kt: "known_type type" "known_type (Some t)"
    and tt: "truthy_text (Some t)"
    using assms(2,4,5) get_known [OF assms(1)]
    by (auto simp: known_type_def truthy_text_def truthy_net_def PayToPublicKeyHash_text_def PayToScriptHash_text_def)
  have "address_new V K default_networks (AddrText s) network type = (if length s \<le> 100 then Inr a else Inl TypeErr)"
    using net kt tt s(2) by (auto simp: address_new_def checkArgument_def classifyArguments_def tr a_def)
  moreover have "length h \<noteq> 21" using assms(3) by (auto simp: hash_sizes_def)
  then have "isOk (address_new V K default_networks (AddrBuffer h) (Some (NetRef (Net n))) (Some t)) = (length h = 20)"
    using get_known [OF assms(1)] kt tt
    by (simp add: address_new_def checkArgument_def classifyArguments_def transformHash_def transformObject_def
        no_object_def truthy_text_def isOk_def)
  then have "isOk (address_fromString V K default_networks s network type) = (length s \<le> 100 \<and> length h = 20)"
    by (simp add: address_fromString_def tr)
  ultimately show ?thesis using s(1) by blast
qed

theorem cash_address_roundtrip_witness:
  "\<exists>s. toCashAddress False \<lparr>hashBuffer = replicate 20 7, addr_network = Net livenet, addr_type = PayToScriptHash_text\<rparr> = Inr s \<and>
     length s = 48 \<and>
     address_new (\<lambda>_. False) \<lparr>b58_encode = \<lambda>_. [], b58_decode = \<lambda>_. Inl TypeErr, sha256 = id, sha256ripemd160 = id\<rparr>
       default_networks (AddrText s) None None =
     Inr \<lparr>hashBuffer = replicate 20 7, addr_network = Net livenet, addr_type = PayToScriptHash_text\<rparr>"
proof -
  let ?K = "\<lparr>b58_encode = \<lambda>_. [], b58_decode = \<lambda>_. Inl TypeErr, sha256 = id, sha256ripemd160 = id\<rparr>"
  have pre: "livenet \<in> {livenet, testnet, regtest}"
    "PayToScriptHash_text \<in> {PayToPublicKeyHash_text, PayToScriptHash_text}"
    "length (replicate 20 (7 :: byte)) \<in> set hash_sizes" "None \<in> {None, Some (NetRef (Net livenet))}"
    "None \<in> {None, Some PayToScriptHash_text}" by (simp_all add: hash_sizes_def)
  from toCashAddress_text [OF pre(1-3), of False] obtain p ds payload where
    c: "toCashAddress False \<lparr>hashBuffer = replicate 20 7, addr_network = Net livenet, addr_type = PayToScriptHash_text\<rparr> =
       Inr (prefixed (if False then [] else p) (chars32 (encoded p payload)))"
    "net_prefix livenet = Some p" "length payload = (8 * (length (replicate 20 (7 :: byte)) + 1) + 4) div 5"
    "list_all (\<lambda>d. d < 32) payload" by blast
  then have "p = ''ecash''" using known_prefixes(1) by simp
  then have "length (prefixed p (chars32 (encoded p payload))) = 48"
    using encoded_props(3) [OF c(4), of p] c(3) by (simp add: prefixed_def)
  then show ?thesis
    using cash_address_roundtrip [OF pre, of False "\<lambda>_. False" ?K] c(1) by auto
qed

section \<open>Changed texts\<close>

lemma base32_decode_append:
  "base32_decode (s @ t) = rbind (base32_decode s) (\<lambda>x. rmap (\<lambda>y. x @ y) (base32_decode t))"
  by (induction s) (auto simp: rbind_def rmap_def split: option.splits sum.splits)

lemma decode_InrD:
  assumes "decodeCashAddress N (p @ CHR '':'' # s) = Inr i" and "p \<noteq> []" and "CHR '':'' \<notin> set p"
  shows "\<exists>payload. base32_decode (map lower_char s) = Inr payload \<and> validChecksum (map lower_char p) payload"
proof -
  have nc: "CHR '':'' \<notin> set (map lower_char p)" by (rule no_colon_lower [OF assms(3)])
  have sp: "split_on CHR '':'' (map lower_char (p @ CHR '':'' # s)) = map lower_char p # split_on CHR '':'' (map lower_char s)"
    by (simp only: map_append list.map colon_lower split_on_append [OF nc])
  obtain x xs where x: "split_on CHR '':'' (map lower_char s) = x # xs"
    by (cases "split_on CHR '':'' (map lower_char s)") auto
  from assms(1) have xs: "xs = []"
    unfolding decodeCashAddress_def Let_def sp x by (auto simp: rbind_Inr_iff)
  then have xe: "x = map lower_char s"
    using join_split [of "CHR '':''" "map lower_char s"] x by simp
  from assms(1,2) show ?thesis
    unfolding decodeCashAddress_def Let_def sp x xs xe
    by (auto simp: rbind_Inr_iff network_choice_def rmap_Inr_iff comp_def)
qed

text \<open>C38. A change confined to eight consecutive characters of the payload of a prefixed address
  never yields an address: if a text is read, every text of the same length that differs from it,
  beyond the case of letters, only within such a stretch is refused.\<close>

theorem corrupted_address_refused:
  assumes "decodeCashAddress N (p @ CHR '':'' # xs @ us @ ys) = Inr i" and "p \<noteq> []" and "CHR '':'' \<notin> set p"
    and "length vs = length us" and "length us \<le> 8" and "map lower_char vs \<noteq> map lower_char us"
  shows "\<not> isOk (decodeCashAddress N (p @ CHR '':'' # xs @ vs @ ys))"
proof
  assume "isOk (decodeCashAddress N (p @ CHR '':'' # xs @ vs @ ys))"
  then obtain j where j: "decodeCashAddress N (p @ CHR '':'' # xs @ vs @ ys) = Inr j" by (auto simp: isOk_iff)
  from decode_InrD [OF assms(1-3)] obtain P where
    P: "base32_decode (map lower_char (xs @ us @ ys)) = Inr P" "validChecksum (map lower_char p) P" by blast
  from decode_InrD [OF j assms(2,3)] obtain Q where
    Q: "base32_decode (map lower_char (xs @ vs @ ys)) = Inr Q" "validChecksum (map lower_char p) Q" by blast
  from P(1) obtain A U B where A: "base32_decode (map lower_char xs) = Inr A"
    and U: "base32_decode (map lower_char us) = Inr U" and B: "base32_decode (map lower_char ys) = Inr B"
    and PU: "P = A @ U @ B" by (auto simp: base32_decode_append rbind_Inr_iff rmap_Inr_iff)
  from Q(1) A B obtain V where V: "base32_decode (map lower_char vs) = Inr V" and QV: "Q = A @ V @ B"
    by (auto simp: base32_decode_append rbind_Inr_iff rmap_Inr_iff)
  note d = base32_decode_Inr [OF A] base32_decode_Inr [OF U] base32_decode_Inr [OF V] base32_decode_Inr [OF B]
  have len: "length U = length us" "length V = length vs"
    using d by (metis length_map)+
  have "U \<noteq> V" using d(2,3) assms(6) by metis
  then have "\<not> validChecksum (map lower_char p) (A @ V @ B)"
    using checksum_detects [of "map lower_char p" A U B V] P(2) d len assms(4,5) by (simp add: PU)
  with Q(2) QV show False by simp
qed

text \<open>What a script hash encodes to under any prefix without capitals, colons and such.\<close>

lemma printed_under_prefix:
  assumes "list_all plain p" and "p \<noteq> []" and "length h = 20"
  obtains payload where "list_all (\<lambda>d. d < 32) (encoded p payload)" and "length (encoded p payload) = 42"
    and "decodeCashAddress N (p @ CHR '':'' # chars32 (encoded p payload)) =
      Inr \<lparr>i_hashBuffer = Some h, i_network = networks_get N (Some (NetText p)), i_type = Some PayToPublicKeyHash_text\<rparr>"
proof -
  define ds where "ds = (0 + 0) # map unat h"
  have ds: "list_all (\<lambda>v. v < 256) ds" using byte_list_bound by (simp add: ds_def)
  from convertBits_roundtrip [OF ds] obtain payload where
    pl: "convertBits ds 8 5 False = Some (Inr payload)" "list_all (\<lambda>d. d < 32) payload"
      "length payload = (8 * length ds + 4) div 5" by blast
  note enc = encoded_props [OF pl(2), of p]
  have "network_choice N p (encoded p payload) = Inr p"
    using enc(1) assms(2) by (simp add: network_choice_def checkArgument_def)
  from decode_encoded [OF plain_lower [OF assms(1)] plain_no_colon [OF assms(1)] ds this pl(1)]
  have "decodeCashAddress N (p @ CHR '':'' # chars32 (encoded p payload)) = hash_info N p ds"
    using assms(2) by (simp add: prefixed_def)
  also have "\<dots> = Inr \<lparr>i_hashBuffer = Some h, i_network = networks_get N (Some (NetText p)),
      i_type = Some PayToPublicKeyHash_text\<rparr>"
    unfolding ds_def using assms(3) by (intro hash_info_version) (simp_all add: getType_def)
  finally show thesis using enc(2,3) pl(3) assms(3) by (intro that) (simp_all add: ds_def)
qed

theorem corrupted_address_refused_witness:
  "\<exists>s c. isOk (decodeCashAddress default_networks (''ecash'' @ CHR '':'' # s)) \<and>
     \<not> isOk (decodeCashAddress default_networks (''ecash'' @ CHR '':'' # c # tl s))"
proof -
  have "list_all plain ''ecash''" by code_simp
  define i where "i = \<lparr>i_hashBuffer = Some (replicate 20 (1 :: byte)),
    i_network = networks_get default_networks (Some (NetText ''ecash'')), i_type = Some PayToPublicKeyHash_text\<rparr>"
  obtain payload where e: "length (encoded ''ecash'' payload) = 42"
    "decodeCashAddress default_networks (''ecash'' @ CHR '':'' # chars32 (encoded ''ecash'' payload)) = Inr i"
    unfolding i_def by (rule printed_under_prefix [OF \<open>list_all plain ''ecash''\<close> _ length_replicate]) simp
  then obtain d t where s: "chars32 (encoded ''ecash'' payload) = d # t"
    by (cases "chars32 (encoded ''ecash'' payload)") (auto dest: arg_cong [where f = length])
  define c where "c = (if lower_char d = CHR ''q'' then CHR ''p'' else CHR ''q'')"
  have "lower_char c \<noteq> lower_char d" by (auto simp: c_def lower_char_def)
  then have "\<not> isOk (decodeCashAddress default_networks (''ecash'' @ CHR '':'' # [] @ [c] @ t))"
    using e(2) s by (intro corrupted_address_refused [where us = "[d]" and i = i]) simp_all
  then show ?thesis using e(2) s by (intro exI [of _ "d # t"] exI [of _ c]) simp
qed

text \<open>The networks are looked up in a plain object.  Some text with the prefix \<^verbatim>\<open>constructor\<close> is
  accepted as an address, whose network is the function every object inherits under that name, and
  which can be printed no more.\<close>

theorem inherited_prefix_accepted:
  assumes "length h = 20"
  shows "\<exists>s. address_new V K default_networks (AddrText (''constructor:'' @ s)) None None =
      Inr \<lparr>hashBuffer = h, addr_network = Inherited ''constructor'', addr_type = PayToPublicKeyHash_text\<rparr> \<and>
    toCashAddress strip \<lparr>hashBuffer = h, addr_network = Inherited ''constructor'', addr_type = PayToPublicKeyHash_text\<rparr> =
      Inl TypeErr"
proof -
  have pc: "list_all plain ''constructor''" by code_simp
  from printed_under_prefix [OF this _ assms, of default_networks] obtain payload where
    e: "list_all (\<lambda>d. d < 32) (encoded ''constructor'' payload)" "length (encoded ''constructor'' payload) = 42"
    "decodeCashAddress default_networks (''constructor'' @ CHR '':'' # chars32 (encoded ''constructor'' payload)) =
      Inr \<lparr>i_hashBuffer = Some h, i_network = Some (Inherited ''constructor''), i_type = Some PayToPublicKeyHash_text\<rparr>"
    by (auto simp: networks_get_def)
  define s where "s = ''constructor:'' @ chars32 (encoded ''constructor'' payload)"
  have "\<not> split_char CHR '':''" "\<not> js_space CHR '':''" by code_simp+
  then have ok: "list_all (\<lambda>c. \<not> split_char c \<and> \<not> js_space c) s"
    using chars32_plain [OF e(1)] pc by (auto simp: s_def list_all_iff plain_def)
  then have tr: "trim s = s" and "list_all (\<lambda>c. \<not> split_char c) s"
    using trim_plain [of s] by (simp_all add: list_all_iff)
  moreover have len: "length s = 54" using e(2) by (simp add: s_def)
  ultimately obtain x where "decodeXAddress K default_networks s = Inl x"
    using decodeX_plain [of s K default_networks] by force
  then have "decode_long K default_networks s =
      Inr \<lparr>i_hashBuffer = Some h, i_network = Some (Inherited ''constructor''), i_type = Some PayToPublicKeyHash_text\<rparr>"
    using e(3) by (simp add: decode_long_def s_def)
  then have "address_new V K default_networks (AddrText s) None None =
      Inr \<lparr>hashBuffer = h, addr_network = Inherited ''constructor'', addr_type = PayToPublicKeyHash_text\<rparr>"
    using len tr by (auto simp: address_new_def checkArgument_def known_type_def classifyArguments_def
        transformString_def Let_def get_none truthy_net_def mismatched_def type_mismatch_def truthy_text_def
        PayToPublicKeyHash_text_def)
  then show ?thesis by (intro exI [of _ "chars32 (encoded ''constructor'' payload)"]) (simp add: s_def toCashAddress_def)
qed

theorem inherited_prefix_accepted_witness:
  "\<exists>s. address_isValid (\<lambda>_. False) \<lparr>b58_encode = \<lambda>_. [], b58_decode = \<lambda>_. Inl TypeErr, sha256 = id, sha256ripemd160 = id\<rparr>
     default_networks (AddrText (''constructor:'' @ s)) None None"
proof -
  let ?K = "\<lparr>b58_encode = \<lambda>_. [], b58_decode = \<lambda>_. Inl TypeErr, sha256 = id, sha256ripemd160 = id\<rparr>"
  obtain s where "address_new (\<lambda>_. False) ?K default_networks (AddrText (''constructor:'' @ s)) None None =
      Inr \<lparr>hashBuffer = replicate 20 0, addr_network = Inherited ''constructor'', addr_type = PayToPublicKeyHash_text\<rparr>"
    using inherited_prefix_accepted [of "replicate 20 0" "\<lambda>_. False" ?K True] by auto
  then have "address_isValid (\<lambda>_. False) ?K default_networks (AddrText (''constructor:'' @ s)) None None"
    unfolding address_isValid_def getValidationError_def by (simp only: sum.case)
  then show ?thesis by blast
qed

section \<open>The form with a script\<close>

definition network_chars :: "(network \<times> char) list" where
  "network_chars = [(livenet, CHR ''_''), (testnet, CHR ''T''), (regtest, CHR ''R'')]"

lemma networks_distinct: "livenet \<noteq> testnet" "livenet \<noteq> regtest" "testnet \<noteq> regtest"
  by (auto simp: livenet_def testnet_def regtest_def make_network_def)

lemma char_of_network: "(n, c) \<in> set network_chars \<Longrightarrow> getNetworkChar (NetRef (Net n)) = Inr [c] \<and>
    getNetwork default_networks [c] = Inr (Some (Net n)) \<and> split_char c \<and> byte_number (text_bytes [c]) = 0"
  using networks_distinct
  by (auto simp: network_chars_def getNetworkChar_def getNetwork_def networks_get_def split_char_def
      byte_number_def text_bytes_def unat_byte_of_nat)

lemma split_location_prefix: "list_all (\<lambda>c. \<not> split_char c) p \<Longrightarrow> split_char c \<Longrightarrow>
    split_location (p @ c # s) = length p"
  by (simp add: split_location_def list_all_iff takeWhile_append2)

lemma createChecksumLegacy_ok:
  assumes "length prefix < 2 ^ 64" and "length payload < 2 ^ 64"
  shows "\<exists>b. createChecksumLegacy K prefix nb tb payload = Inr b"
proof -
  have "byte_number x < 256" for x
    using unat_byte_less by (auto simp: byte_number_def split: list.splits)
  then have "writeUInt8 w (byte_number x) = Inr (writeBuf w (le_bytes 1 (byte_number x)))" for w x
    by (simp add: writeUInt8_def node_writeUIntLE_def)
  then show ?thesis using assms by (simp add: createChecksumLegacy_def writeVarintNum_eq)
qed

lemma xaddress_decode_encoded:
  assumes "coder_ok K" and "list_all (\<lambda>c. \<not> split_char c) p" and "length p < 2 ^ 64" and "length b < 2 ^ 64"
    and "(n, c) \<in> set network_chars"
  defines "check \<equiv> createChecksum K p (text_bytes [c]) [0] b"
  shows "xaddress_decode K default_networks (p @ c # b58_encode K ([0] @ b @ check)) =
    Inr \<lparr>x_prefix = Some p, x_hashBuffer = b, x_network = Some (NetRef (Net n)), x_type = Some ''pubkeyhash''\<rparr>"
proof -
  note c = char_of_network [OF assms(5)]
  let ?a = "p @ c # b58_encode K ([0] @ b @ check)"
  let ?d = "[0] @ b @ check"
  have loc: "split_location ?a = length p" using split_location_prefix assms(2) c by blast
  have parts: "slice ?a 0 (length p) = p" "slice ?a (length p) (length p + 1) = [c]"
    "drop (length p + 1) ?a = b58_encode K ?d" by (simp_all add: slice_def)
  have dec: "b58_decode K (b58_encode K ?d) = Inr ?d" using assms(1) by (simp add: coder_ok_def)
  have lc: "length check = 4" using assms(1) by (simp add: check_def createChecksum_def coder_ok_def)
  have sl: "slice ?d 0 1 = [0]" "js_slice ?d 1 (int (length ?d) - 4) = b"
    "js_slice ?d (int (length ?d) - 4) (int (length ?d)) = check"
    using lc by (simp_all add: slice_def js_slice_def from_end_def nat_add_distrib nat_diff_distrib)
  obtain l where "createChecksumLegacy K p (text_bytes [c]) [0] b = Inr l"
    using createChecksumLegacy_ok [OF assms(3,4)] by blast
  then show ?thesis
    unfolding xaddress_decode_def Let_def loc parts dec rbind_simps sl
    using c by (simp add: checkArgument_def check_def xaddress_getType_def)
qed

lemma wf_p2pkh: "length h = 20 \<Longrightarrow> list_all wf_chunk (p2pkh h)"
  by (simp add: p2pkh_def wf_chunk_def)

lemma wf_p2sh: "length h = 20 \<Longrightarrow> list_all wf_chunk (p2sh h)"
  by (simp add: p2sh_def wf_chunk_def)

lemma reread_script:
  assumes "list_all wf_chunk cs"
  shows "script_toBuffer cs = Inr (script_bytes cs)" and "script_fromBuffer (script_bytes cs) = Inr cs"
  using assms script_fromBuffer_script_bytes
  by (auto simp: script_toBuffer_eq list_all_iff wf_chunk_printable)

lemma script_lengths: "length h = 20 \<Longrightarrow> length (script_bytes (p2pkh h)) = 25 \<and> length (script_bytes (p2sh h)) = 23"
  by (simp add: script_bytes_def p2pkh_def p2sh_def chunk_bytes_def)

text \<open>The script of an address, and what the first decoder makes of that script.\<close>

lemma address_script:
  assumes "length h = 20" and "t \<in> {PayToPublicKeyHash_text, PayToScriptHash_text}"
  obtains cs where "script_of_address \<lparr>hashBuffer = h, addr_network = net, addr_type = t\<rparr> = Inr cs"
    and "list_all wf_chunk cs" and "length (script_bytes cs) = (if t = PayToPublicKeyHash_text then 25 else 23)"
    and "\<And>s x. x_hashBuffer x = script_bytes cs \<Longrightarrow> xaddress_decode K N s = Inr x \<Longrightarrow>
      decodeXAddress K N s = Inr \<lparr>i_hashBuffer = Some h, i_network = arg_ref (x_network x), i_type = Some t\<rparr>"
proof (cases "t = PayToPublicKeyHash_text")
  case True
  have ne: "PayToPublicKeyHash_text \<noteq> PayToScriptHash_text"
    by (simp add: PayToPublicKeyHash_text_def PayToScriptHash_text_def)
  note sc = wf_p2pkh [OF assms(1)]
  show ?thesis
  proof (rule that [of "p2pkh h"])
    show "script_of_address \<lparr>hashBuffer = h, addr_network = net, addr_type = t\<rparr> = Inr (p2pkh h)"
      using ne assms(1) True by (simp add: script_of_address_def isPayToScriptHash_def isPayToPublicKeyHash_def
          script_fromAddress_def buildPublicKeyHashOut_eq)
    show "decodeXAddress K N s = Inr \<lparr>i_hashBuffer = Some h, i_network = arg_ref (x_network x), i_type = Some t\<rparr>"
      if "x_hashBuffer x = script_bytes (p2pkh h)" "xaddress_decode K N s = Inr x" for s x
      using that reread_script(2) [OF sc] p2pkh_types(2) [OF assms(1)] True
      by (simp add: decodeXAddress_def) (simp add: p2pkh_def)
  qed (use sc script_lengths [OF assms(1)] True in simp_all)
next
  case False
  then have t: "t = PayToScriptHash_text" using assms(2) by simp
  note sc = wf_p2sh [OF assms(1)]
  show ?thesis
  proof (rule that [of "p2sh h"])
    show "script_of_address \<lparr>hashBuffer = h, addr_network = net, addr_type = t\<rparr> = Inr (p2sh h)"
      using assms(1) t by (simp add: script_of_address_def isPayToScriptHash_def
          script_fromAddress_def buildScriptHashOut_eq)
    show "decodeXAddress K N s = Inr \<lparr>i_hashBuffer = Some h, i_network = arg_ref (x_network x), i_type = Some t\<rparr>"
      if "x_hashBuffer x = script_bytes (p2sh h)" "xaddress_decode K N s = Inr x" for s x
      using that reread_script(2) [OF sc] p2sh_types(2,4) [OF assms(1)] t
      by (simp add: decodeXAddress_def) (simp add: p2sh_def)
  qed (use sc script_lengths [OF assms(1)] False in simp_all)
qed

text \<open>An address of a known network, printed in the form that carries its script, is read back as
  the same address whenever its text has between 36 and 100 characters.\<close>

theorem script_address_roundtrip:
  assumes "coder_ok K" and "(n, c) \<in> set network_chars" and "t \<in> {PayToPublicKeyHash_text, PayToScriptHash_text}"
    and "length h = 20"
  defines "a \<equiv> \<lparr>hashBuffer = h, addr_network = Net n, addr_type = t\<rparr>"
  shows "\<exists>s b check. address_toXAddress K default_networks a = Inr s \<and>
    s = TOKEN_NAME @ c # b58_encode K ([0] @ b @ check) \<and> length check = 4 \<and>
    length b = (if t = PayToPublicKeyHash_text then 25 else 23) \<and>
    (35 < length s \<and> length s \<le> 100 \<longrightarrow> address_new V K default_networks (AddrText s) None None = Inr a)"
proof -
  have n: "n \<in> {livenet, testnet, regtest}" using assms(2) by (auto simp: network_chars_def)
  note c = char_of_network [OF assms(2)]
  obtain cs where cs: "script_of_address a = Inr cs" "list_all wf_chunk cs" "length (script_bytes cs) = (if t = PayToPublicKeyHash_text then 25 else 23)"
    and dx: "\<And>s x. x_hashBuffer x = script_bytes cs \<Longrightarrow> xaddress_decode K default_networks s = Inr x \<Longrightarrow>
      decodeXAddress K default_networks s = Inr \<lparr>i_hashBuffer = Some h, i_network = arg_ref (x_network x), i_type = Some t\<rparr>"
    unfolding a_def by (rule address_script [OF assms(4,3), where net = "Net n" and K = K and N = default_networks]) blast
  let ?b = "script_bytes cs"
  define check where "check = createChecksum K TOKEN_NAME (text_bytes [c]) [0] ?b"
  define s where "s = TOKEN_NAME @ c # b58_encode K ([0] @ ?b @ check)"
  have kt: "known_type (Some t)" "truthy_text (Some t)"
    using assms(3) by (auto simp: known_type_def truthy_text_def PayToPublicKeyHash_text_def PayToScriptHash_text_def)
  have new: "xaddress_new K default_networks (XBuffer ?b) (Some (NetRef (Net n))) (Some t) =
      Inr \<lparr>xa_prefix = Some TOKEN_NAME, xa_hashBuffer = ?b, xa_network = NetRef (Net n), xa_type = t\<rparr>"
    using get_known [OF n] kt
    by (simp add: xaddress_new_def checkArgument_def xaddress_classify_def xaddress_transformBuffer_def truthy_net_def)
  have "toXAddress K \<lparr>xa_prefix = Some TOKEN_NAME, xa_hashBuffer = ?b, xa_network = NetRef (Net n), xa_type = t\<rparr> = Inr s"
    using c by (simp add: toXAddress_def Let_def getTypeByte_def encodePayload_def byte_number_def writeUInt8_def
        node_writeUIntLE_def s_def check_def)
  then have printed: "address_toXAddress K default_networks a = Inr s"
    using cs(1) reread_script(1) [OF cs(2)] new by (simp add: address_toXAddress_def a_def)
  have tok: "list_all (\<lambda>c. \<not> split_char c) TOKEN_NAME" "list_all (\<lambda>c. \<not> js_space c) TOKEN_NAME" by code_simp+
  have "length TOKEN_NAME = 5" by (simp add: TOKEN_NAME_def)
  then have "xaddress_decode K default_networks s = Inr \<lparr>x_prefix = Some TOKEN_NAME, x_hashBuffer = ?b,
      x_network = Some (NetRef (Net n)), x_type = Some ''pubkeyhash''\<rparr>"
    unfolding s_def check_def by (intro xaddress_decode_encoded assms(1,2) tok(1)) (use cs(3) in simp_all)
  from dx [OF _ this] have dec: "decodeXAddress K default_networks s =
      Inr \<lparr>i_hashBuffer = Some h, i_network = Some (Net n), i_type = Some t\<rparr>" by (simp add: arg_ref_def)
  have "\<not> js_space c" using assms(2) by (auto simp: network_chars_def js_space_def)
  moreover have "\<And>d. alnum d \<Longrightarrow> \<not> js_space d" by (auto simp: alnum_def js_space_def Let_def)
  ultimately have "list_all (\<lambda>c. \<not> js_space c) s"
    using tok(2) assms(1) by (auto simp: s_def coder_ok_def list_all_iff)
  then have tr: "trim s = s" by (rule trim_plain)
  have "address_new V K default_networks (AddrText s) None None = Inr a" if "35 < length s" "length s \<le> 100"
    using that kt tr dec by (auto simp: address_new_def checkArgument_def known_type_def classifyArguments_def
        transformString_def decode_long_def Let_def get_none truthy_net_def mismatched_def type_mismatch_def truthy_text_def a_def)
  moreover have "length check = 4" using assms(1) by (simp add: check_def createChecksum_def coder_ok_def)
  ultimately show ?thesis using printed s_def cs(3) by blast
qed

text \<open>A coder for the witness: two letters for each byte, and a hash that pads to 32 bytes.\<close>

definition hex_coder :: coder where
  "hex_coder = \<lparr>b58_encode = to_hex, b58_decode = \<lambda>s. Inr (of_hex s),
     sha256 = \<lambda>b. take 32 (b @ replicate 32 0), sha256ripemd160 = \<lambda>b. take 20 (b @ replicate 20 0)\<rparr>"

lemma hex_coder_ok: "coder_ok hex_coder"
proof -
  have "list_all (\<lambda>n. alnum (hex_char n)) [0..<16]" by code_simp
  then have h: "n < 16 \<Longrightarrow> alnum (hex_char n)" for n by (simp add: list_all_iff)
  have "list_all alnum (to_hex b)" for b
  proof (induction b)
    case (Cons x b)
    have "unat x div 16 < 16" using unat_byte_less [of x] by (simp add: div_less_iff_less_mult)
    then show ?case using Cons.IH by (simp add: to_hex_def h)
  qed (simp add: to_hex_def)
  then show ?thesis by (auto simp: coder_ok_def hex_coder_def min_def)
qed

theorem script_address_roundtrip_witness:
  "\<exists>s. address_toXAddress hex_coder default_networks
      \<lparr>hashBuffer = replicate 20 9, addr_network = Net testnet, addr_type = PayToPublicKeyHash_text\<rparr> = Inr s \<and>
    length s = 66 \<and>
    address_new (\<lambda>_. False) hex_coder default_networks (AddrText s) None None =
      Inr \<lparr>hashBuffer = replicate 20 9, addr_network = Net testnet, addr_type = PayToPublicKeyHash_text\<rparr>"
  using script_address_roundtrip [OF hex_coder_ok, of testnet "CHR ''T''" PayToPublicKeyHash_text "replicate 20 9" "\<lambda>_. False"]
  by (auto simp: network_chars_def TOKEN_NAME_def hex_coder_def)

end
