(* ===== verification/BnEuclid.thy ===== *)
theory BnEuclid
  imports Prelude
begin

text \<open>
  The Euclidean routines of \<^verbatim>\<open>local_modules/bn.js/lib/bn.js\<close>: \<^verbatim>\<open>egcd\<close>, \<^verbatim>\<open>_invmp\<close>, \<^verbatim>\<open>gcd\<close>, \<^verbatim>\<open>invm\<close> and
  \<^verbatim>\<open>pow\<close>.  A big number is the integer it stands for; its low word is the residue modulo \<open>2^26\<close>.
  \<^verbatim>\<open>iushrn(1)\<close> halves the magnitude, which on the even numbers it is applied to is exact.
\<close>

section \<open>The inner loops\<close>

text \<open>The number of zero bits at the low end of the first word, 26 when the word is zero.\<close>

fun zeros :: "nat \<Rightarrow> int \<Rightarrow> nat" where
  "zeros 0 x = 0"
| "zeros (Suc k) x = (if odd x then 0 else Suc (zeros k (x div 2)))"

definition low_zeros :: "int \<Rightarrow> nat" where
  "low_zeros x = zeros 26 x"

text \<open>\<open>n\<close> rounds of the loop that halves a pair of coefficients.\<close>

fun halve_pair :: "nat \<Rightarrow> int \<Rightarrow> int \<Rightarrow> int \<times> int \<Rightarrow> int \<times> int" where
  "halve_pair 0 xp yp AB = AB"
| "halve_pair (Suc n) xp yp (A, B) =
     (let (A, B) = (if odd A \<or> odd B then (A + yp, B - xp) else (A, B))
      in halve_pair n xp yp (A div 2, B div 2))"

fun halve_one :: "nat \<Rightarrow> int \<Rightarrow> int \<Rightarrow> int" where
  "halve_one 0 delta x = x"
| "halve_one (Suc n) delta x = halve_one n delta ((if odd x then x + delta else x) div 2)"

section \<open>egcd\<close>

text \<open>The common powers of two, counted in \<open>g\<close>.\<close>

function common_twos :: "int \<Rightarrow> int \<Rightarrow> nat \<Rightarrow> int \<times> int \<times> nat" where
  "common_twos x y g =
     (if 0 < y \<and> even x \<and> even y then common_twos (x div 2) (y div 2) (Suc g) else (x, y, g))"
  by pat_completeness auto
termination by (relation "measure (\<lambda>(x, y, g). nat y)") auto

record egcd_state =
  e_x :: int
  e_y :: int
  e_A :: int
  e_B :: int
  e_C :: int
  e_D :: int

text \<open>One round of the loop on \<open>x\<close>.\<close>

definition egcd_step :: "int \<Rightarrow> int \<Rightarrow> egcd_state \<Rightarrow> egcd_state" where
  "egcd_step xp yp s =
     (let i = low_zeros (e_x s);
          x = e_x s div 2 ^ i;
          (A, B) = halve_pair i xp yp (e_A s, e_B s);
          j = low_zeros (e_y s);
          y = e_y s div 2 ^ j;
          (C, D) = halve_pair j xp yp (e_C s, e_D s)
      in if y \<le> x then \<lparr>e_x = x - y, e_y = y, e_A = A - C, e_B = B - D, e_C = C, e_D = D\<rparr>
         else \<lparr>e_x = x, e_y = y - x, e_A = A, e_B = B, e_C = C - A, e_D = D - B\<rparr>)"

lemma zeros_dvd: "2 ^ zeros k x dvd x"
proof (induction k x rule: zeros.induct)
  case (2 k x)
  then show ?case by (auto elim!: evenE)
qed simp

lemma zeros_less: "0 < x \<Longrightarrow> 0 < x div 2 ^ zeros k x \<and> x div 2 ^ zeros k x \<le> x"
proof -
  assume x: "0 < x"
  have "x = x div 2 ^ zeros k x * 2 ^ zeros k x" using zeros_dvd by simp
  with x show ?thesis
    by (metis (no_types, opaque_lifting) div_by_1 mult_eq_0_iff order_less_le pos_imp_zdiv_nonneg_iff
        zdiv_mono2 one_le_power one_less_numeral_iff less_imp_le semiring_norm(76) zero_less_numeral zero_less_one zero_less_power)
qed

function egcd_loop :: "int \<Rightarrow> int \<Rightarrow> egcd_state \<Rightarrow> egcd_state" where
  "egcd_loop xp yp s =
     (if 0 < e_x s \<and> 0 < e_y s then egcd_loop xp yp (egcd_step xp yp s) else s)"
  by pat_completeness auto
termination
proof (relation "measure (\<lambda>(xp, yp, s). nat (e_x s + e_y s))")
  fix xp yp :: int and s :: egcd_state
  assume "0 < e_x s \<and> 0 < e_y s"
  then show "((xp, yp, egcd_step xp yp s), (xp, yp, s)) \<in> measure (\<lambda>(xp, yp, s). nat (e_x s + e_y s))"
    using zeros_less [of "e_x s" 26] zeros_less [of "e_y s" 26]
    by (auto simp: egcd_step_def low_zeros_def Let_def split: prod.split)
qed simp

declare egcd_loop.simps [simp del] common_twos.simps [simp del]

text \<open>\<open>None\<close> is the failed assertion that the modulus is positive.\<close>

definition egcd :: "int \<Rightarrow> int \<Rightarrow> (int \<times> int \<times> int) option" where
  "egcd this p =
     (if p \<le> 0 then None
      else let (x, y, g) = common_twos (if this < 0 then this mod p else this) p 0;
               s = egcd_loop x y \<lparr>e_x = x, e_y = y, e_A = 1, e_B = 0, e_C = 0, e_D = 1\<rparr>
           in Some (e_C s, e_D s, e_y s * 2 ^ g))"

definition invm :: "int \<Rightarrow> int \<Rightarrow> int option" where
  "invm this num = map_option (\<lambda>(a, b, gcd). a mod num) (egcd this num)"


lemma halve_pair_bezout:
  assumes "odd xp \<or> odd yp"
  shows "A * xp + B * yp = 2 ^ n * x \<Longrightarrow> halve_pair n xp yp (A, B) = (A', B') \<Longrightarrow> A' * xp + B' * yp = x"
proof (induction n arbitrary: A B)
  case (Suc n)
  define A1 where "A1 = (if odd A \<or> odd B then A + yp else A)"
  define B1 where "B1 = (if odd A \<or> odd B then B - xp else B)"
  have "even (A * xp + B * yp)" using Suc.prems(1) by simp
  with assms have ev: "even A1" "even B1" unfolding A1_def B1_def by auto
  have "A1 * xp + B1 * yp = A * xp + B * yp" by (simp add: A1_def B1_def algebra_simps)
  with ev Suc.prems(1) have "2 * ((A1 div 2) * xp + (B1 div 2) * yp) = 2 * (2 ^ n * x)"
    by (auto elim!: evenE simp: algebra_simps)
  then have "(A1 div 2) * xp + (B1 div 2) * yp = 2 ^ n * x" by simp
  moreover have "halve_pair n xp yp (A1 div 2, B1 div 2) = (A', B')"
    using Suc.prems(2) by (cases "odd A \<or> odd B") (simp_all add: A1_def B1_def Let_def)
  ultimately show ?case by (rule Suc.IH)
qed simp

lemma odd_gcd_strip:
  fixes x y :: int
  assumes "odd (gcd x y)"
  shows "gcd (x div 2 ^ low_zeros x) y = gcd x y"
proof -
  have x: "x = 2 ^ low_zeros x * (x div 2 ^ low_zeros x)"
    using zeros_dvd [of 26 x] by (simp add: low_zeros_def)
  have "coprime (gcd x y) (2 ^ low_zeros x)" using assms by simp
  then have "gcd x y dvd x div 2 ^ low_zeros x"
    by (metis gcd_dvd1 x coprime_dvd_mult_right_iff)
  then have "gcd x y dvd gcd (x div 2 ^ low_zeros x) y" by simp
  moreover have "gcd (x div 2 ^ low_zeros x) y dvd gcd x y"
    by (metis dvd_mult gcd_dvd1 gcd_dvd2 gcd_greatest x)
  ultimately show ?thesis by (intro zdvd_antisym_nonneg) simp_all
qed

lemma gcd_less_step: "gcd (x - y) y = gcd x (y :: int)" "gcd x (y - x) = gcd x (y :: int)"
  using gcd_diff1 [of x y] gcd_diff1 [of y x] by (simp_all add: gcd.commute)

definition egcd_inv :: "int \<Rightarrow> int \<Rightarrow> egcd_state \<Rightarrow> bool" where
  "egcd_inv xp yp s \<longleftrightarrow> 0 \<le> e_x s \<and> 0 < e_y s \<and> gcd (e_x s) (e_y s) = gcd xp yp \<and>
     e_A s * xp + e_B s * yp = e_x s \<and> e_C s * xp + e_D s * yp = e_y s"

lemma odd_gcd_odd: "odd (gcd x (y :: int)) \<Longrightarrow> odd x \<or> odd y"
  by auto

lemma egcd_step_inv:
  assumes "odd (gcd xp yp)" and "egcd_inv xp yp s" and "0 < e_x s"
  shows "egcd_inv xp yp (egcd_step xp yp s)"
proof -
  let ?i = "low_zeros (e_x s)" and ?j = "low_zeros (e_y s)"
  define x where "x = e_x s div 2 ^ ?i"
  define y where "y = e_y s div 2 ^ ?j"
  obtain A B where AB: "halve_pair ?i xp yp (e_A s, e_B s) = (A, B)" by fastforce
  obtain C D where CD: "halve_pair ?j xp yp (e_C s, e_D s) = (C, D)" by fastforce
  have inv: "0 < e_y s" "gcd (e_x s) (e_y s) = gcd xp yp"
    "e_A s * xp + e_B s * yp = e_x s" "e_C s * xp + e_D s * yp = e_y s"
    using assms(2) by (simp_all add: egcd_inv_def)
  have ex: "e_x s = 2 ^ ?i * x" and ey: "e_y s = 2 ^ ?j * y"
    using zeros_dvd [of 26] by (simp_all add: x_def y_def low_zeros_def)
  have odd: "odd xp \<or> odd yp" using assms(1) by (rule odd_gcd_odd)
  have x1: "A * xp + B * yp = x" using halve_pair_bezout [OF odd _ AB] inv(3) ex by simp
  have y1: "C * xp + D * yp = y" using halve_pair_bezout [OF odd _ CD] inv(4) ey by simp
  have "gcd x (e_y s) = gcd xp yp" using odd_gcd_strip [of "e_x s" "e_y s"] assms(1) inv(2) by (simp add: x_def)
  then have g: "gcd x y = gcd xp yp"
    using odd_gcd_strip [of "e_y s" x] assms(1) by (simp add: y_def gcd.commute)
  have pos: "0 < x" "0 < y"
    using zeros_less [of "e_x s" 26] zeros_less [of "e_y s" 26] assms(3) inv(1)
    by (simp_all add: x_def y_def low_zeros_def)
  have "egcd_step xp yp s =
    (if y \<le> x then \<lparr>e_x = x - y, e_y = y, e_A = A - C, e_B = B - D, e_C = C, e_D = D\<rparr>
         else \<lparr>e_x = x, e_y = y - x, e_A = A, e_B = B, e_C = C - A, e_D = D - B\<rparr>)"
    using AB CD by (simp add: egcd_step_def Let_def x_def y_def)
  then show ?thesis
    using pos g x1 y1 by (auto simp: egcd_inv_def gcd_less_step algebra_simps)
qed

lemma egcd_loop_inv:
  "odd (gcd xp yp) \<Longrightarrow> egcd_inv xp yp s \<Longrightarrow> egcd_inv xp yp (egcd_loop xp yp s) \<and> e_x (egcd_loop xp yp s) = 0"
proof (induction xp yp s rule: egcd_loop.induct)
  case (1 xp yp s)
  note IH = 1(1) and odd = 1(2) and inv = 1(3)
  show ?case
  proof (cases "0 < e_x s")
    case True
    then have "0 < e_x s \<and> 0 < e_y s" using inv by (simp add: egcd_inv_def)
    then show ?thesis
      using IH [OF _ odd egcd_step_inv [OF odd inv True]] by (simp add: egcd_loop.simps [of xp yp s])
  next
    case False
    then have "egcd_loop xp yp s = s" by (simp add: egcd_loop.simps [of xp yp s])
    moreover have "e_x s = 0" using inv False by (simp add: egcd_inv_def)
    ultimately show ?thesis using inv by simp
  qed
qed


lemma common_twos_spec:
  "common_twos x y g = (x', y', g') \<Longrightarrow> 0 < y \<Longrightarrow> 0 \<le> x \<Longrightarrow>
     \<exists>k. g' = g + k \<and> x = 2 ^ k * x' \<and> y = 2 ^ k * y' \<and> 0 < y' \<and> 0 \<le> x' \<and> (odd x' \<or> odd y')"
proof (induction x y g rule: common_twos.induct)
  case (1 x y g)
  show ?case
  proof (cases "even x \<and> even y")
    case True
    then have "common_twos (x div 2) (y div 2) (Suc g) = (x', y', g')"
      using 1(2,3) by (simp add: common_twos.simps [of x y g])
    moreover have "0 < y div 2" "0 \<le> x div 2" using True 1(3,4) by (auto elim!: evenE)
    ultimately obtain k where "g' = Suc g + k" "x div 2 = 2 ^ k * x'" "y div 2 = 2 ^ k * y'"
        "0 < y'" "0 \<le> x'" "odd x' \<or> odd y'"
      using 1(1) [OF conjI] 1(3) True by auto
    then show ?thesis using True by (intro exI [of _ "Suc k"]) (auto elim!: evenE)
  next
    case False
    then show ?thesis using 1(2-4) by (auto simp: common_twos.simps [of x y g])
  qed
qed

text \<open>The result: a greatest common divisor with its B\'ezout coefficients, up to the common power of two.\<close>

lemma egcd_correct:
  assumes "0 < p" and "0 \<le> this"
  obtains a b k where "egcd this p = Some (a, b, gcd this p)" and "a * this + b * p = gcd this p"
proof -
  obtain x y g where t: "common_twos this p 0 = (x, y, g)" by (cases "common_twos this p 0") auto
  from common_twos_spec [OF t assms] have xy: "this = 2 ^ g * x" "p = 2 ^ g * y" "0 < y" "0 \<le> x" "odd x \<or> odd y"
    by auto
  define s where "s = egcd_loop x y \<lparr>e_x = x, e_y = y, e_A = 1, e_B = 0, e_C = 0, e_D = 1\<rparr>"
  have "odd (gcd x y)" using xy(5) by auto
  moreover have "egcd_inv x y \<lparr>e_x = x, e_y = y, e_A = 1, e_B = 0, e_C = 0, e_D = 1\<rparr>"
    using xy by (simp add: egcd_inv_def)
  ultimately have s: "egcd_inv x y s" "e_x s = 0"
    using egcd_loop_inv unfolding s_def by blast+
  then have y: "e_y s = gcd x y" "e_C s * x + e_D s * y = e_y s" by (auto simp: egcd_inv_def)
  have "gcd this p = gcd x y * 2 ^ g"
    unfolding xy(1,2) using gcd_mult_distrib_int [of "2 ^ g" x y] by (simp add: mult.commute)
  then have "egcd this p = Some (e_C s, e_D s, gcd this p)"
    using assms t y(1) by (simp add: egcd_def s_def Let_def)
  moreover have "e_C s * this + e_D s * p = gcd this p"
  proof -
    have "e_C s * this + e_D s * p = 2 ^ g * (e_C s * x + e_D s * y)"
      unfolding xy(1,2) by (simp add: algebra_simps)
    then show ?thesis using y \<open>gcd this p = gcd x y * 2 ^ g\<close> by simp
  qed
  ultimately show thesis by (rule that)
qed

text \<open>The modular inverse: the binary Euclidean loop ends, and for a number coprime to the modulus the
  result is its inverse, reduced.\<close>

theorem invm_inverts:
  assumes "0 < p" and "0 \<le> this" and "coprime this p"
  shows "\<exists>i. invm this p = Some i \<and> 0 \<le> i \<and> i < p \<and> (this * i) mod p = 1 mod p"
proof -
  obtain a b k where "egcd this p = Some (a, b, gcd this p)" and ab: "a * this + b * p = gcd this p"
    using egcd_correct [OF assms(1,2)] .
  then have "invm this p = Some (a mod p)" by (simp add: invm_def)
  moreover have "(this * (a mod p)) mod p = (a * this + b * p) mod p"
    by (simp add: mod_mult_right_eq mult.commute)
  then have "(this * (a mod p)) mod p = 1 mod p" using ab assms(3) by (simp add: coprime_iff_gcd_eq_1)
  ultimately show ?thesis using assms(1) by simp
qed

theorem invm_inverts_witness: "invm 3 7 = Some 5 \<and> (3 * 5) mod 7 = (1 :: int)"
proof -
  have "coprime (3 :: int) 7" unfolding coprime_iff_gcd_eq_1 by code_simp
  from invm_inverts [OF _ _ this] obtain i where "invm 3 7 = Some i" by auto
  moreover have "invm 3 7 = Some 5" by code_simp
  ultimately show ?thesis by simp
qed

section \<open>_invmp\<close>

text \<open>The reduced form for an odd modulus keeps one coefficient of each side.\<close>

record invmp_state =
  p_a :: int
  p_b :: int
  p_x1 :: int
  p_x2 :: int

definition invmp_step :: "int \<Rightarrow> invmp_state \<Rightarrow> invmp_state" where
  "invmp_step delta s =
     (let i = low_zeros (p_a s);
          a = p_a s div 2 ^ i;
          x1 = halve_one i delta (p_x1 s);
          j = low_zeros (p_b s);
          b = p_b s div 2 ^ j;
          x2 = halve_one j delta (p_x2 s)
      in if b \<le> a then \<lparr>p_a = a - b, p_b = b, p_x1 = x1 - x2, p_x2 = x2\<rparr>
         else \<lparr>p_a = a, p_b = b - a, p_x1 = x1, p_x2 = x2 - x1\<rparr>)"

function invmp_loop :: "int \<Rightarrow> invmp_state \<Rightarrow> invmp_state" where
  "invmp_loop delta s =
     (if 1 < p_a s \<and> 1 < p_b s then invmp_loop delta (invmp_step delta s) else s)"
  by pat_completeness auto
termination
proof (relation "measure (\<lambda>(delta, s). nat (p_a s + p_b s))")
  fix delta :: int and s :: invmp_state
  assume "1 < p_a s \<and> 1 < p_b s"
  then show "((delta, invmp_step delta s), (delta, s)) \<in> measure (\<lambda>(delta, s). nat (p_a s + p_b s))"
    using zeros_less [of "p_a s" 26] zeros_less [of "p_b s" 26]
    by (auto simp: invmp_step_def low_zeros_def Let_def)
qed simp

declare invmp_loop.simps [simp del]

definition invmp :: "int \<Rightarrow> int \<Rightarrow> int option" where
  "invmp this p =
     (if p \<le> 0 then None
      else let s = invmp_loop p \<lparr>p_a = (if this < 0 then this mod p else this), p_b = p, p_x1 = 1, p_x2 = 0\<rparr>;
               res = (if p_a s = 1 then p_x1 s else p_x2 s)
           in Some (if res < 0 then res + p else res))"

lemma halve_one_dvd:
  fixes p :: int
  assumes "odd p"
  shows "p dvd x * t - 2 ^ n * a \<Longrightarrow> p dvd halve_one n p x * t - a"
proof (induction n arbitrary: x)
  case (Suc n)
  define x' where "x' = (if odd x then x + p else x)"
  have "even x'" using assms by (simp add: x'_def)
  have "p dvd x' * t - 2 ^ Suc n * a"
  proof (cases "odd x")
    case True
    have "x' * t - 2 ^ Suc n * a = (x * t - 2 ^ Suc n * a) + p * t" using True by (simp add: x'_def algebra_simps)
    then show ?thesis using Suc.prems by (simp only: dvd_add_left_iff dvd_triv_left)
  qed (use Suc.prems in \<open>simp add: x'_def\<close>)
  then have "p dvd 2 * (x' div 2 * t - 2 ^ n * a)" using \<open>even x'\<close> by (auto elim!: evenE simp: algebra_simps)
  then have "p dvd x' div 2 * t - 2 ^ n * a"
    using assms by (subst (asm) coprime_dvd_mult_right_iff) simp_all
  then show ?case using Suc.IH by (simp add: x'_def)
qed simp

definition invmp_inv :: "int \<Rightarrow> int \<Rightarrow> invmp_state \<Rightarrow> bool" where
  "invmp_inv t p s \<longleftrightarrow> 0 \<le> p_a s \<and> 0 < p_b s \<and> gcd (p_a s) (p_b s) = 1 \<and>
     p dvd p_x1 s * t - p_a s \<and> p dvd p_x2 s * t - p_b s"

lemma invmp_step_inv:
  assumes "odd p" and "invmp_inv t p s" and "0 < p_a s"
  shows "invmp_inv t p (invmp_step p s)"
proof -
  let ?i = "low_zeros (p_a s)" and ?j = "low_zeros (p_b s)"
  define a where "a = p_a s div 2 ^ ?i"
  define b where "b = p_b s div 2 ^ ?j"
  define x1 where "x1 = halve_one ?i p (p_x1 s)"
  define x2 where "x2 = halve_one ?j p (p_x2 s)"
  have inv: "0 < p_b s" "gcd (p_a s) (p_b s) = 1" "p dvd p_x1 s * t - p_a s" "p dvd p_x2 s * t - p_b s"
    using assms(2) by (auto simp: invmp_inv_def)
  have ea: "p_a s = 2 ^ ?i * a" and eb: "p_b s = 2 ^ ?j * b"
    using zeros_dvd [of 26] by (simp_all add: a_def b_def low_zeros_def)
  have x: "p dvd x1 * t - a" "p dvd x2 * t - b"
    using halve_one_dvd [OF assms(1)] inv(3,4) ea eb unfolding x1_def x2_def by metis+
  have "gcd a (p_b s) = 1" using odd_gcd_strip [of "p_a s" "p_b s"] inv(2) by (simp add: a_def)
  then have g: "gcd a b = 1" using odd_gcd_strip [of "p_b s" a] by (simp add: b_def gcd.commute)
  have pos: "0 < a" "0 < b"
    using zeros_less [of "p_a s" 26] zeros_less [of "p_b s" 26] assms(3) inv(1)
    by (simp_all add: a_def b_def low_zeros_def)
  have d: "p dvd (x1 - x2) * t - (a - b)" "p dvd (x2 - x1) * t - (b - a)"
    using dvd_diff [OF x] dvd_diff [OF x(2) x(1)] by (simp_all add: algebra_simps)
  have "invmp_step p s = (if b \<le> a then \<lparr>p_a = a - b, p_b = b, p_x1 = x1 - x2, p_x2 = x2\<rparr>
         else \<lparr>p_a = a, p_b = b - a, p_x1 = x1, p_x2 = x2 - x1\<rparr>)"
    by (simp add: invmp_step_def Let_def a_def b_def x1_def x2_def)
  then show ?thesis using pos g x d by (auto simp: invmp_inv_def gcd_less_step)
qed

lemma invmp_loop_inv:
  "odd p \<Longrightarrow> invmp_inv t p s \<Longrightarrow>
     invmp_inv t p (invmp_loop p s) \<and> \<not> (1 < p_a (invmp_loop p s) \<and> 1 < p_b (invmp_loop p s))"
proof (induction p s rule: invmp_loop.induct)
  case (1 p s)
  show ?case
  proof (cases "1 < p_a s \<and> 1 < p_b s")
    case True
    then have "invmp_inv t p (invmp_step p s)" using invmp_step_inv 1(2,3) by simp
    then show ?thesis using 1(1) [OF True 1(2)] True by (simp add: invmp_loop.simps [of p s])
  next
    case False
    then have "invmp_loop p s = s" by (simp only: invmp_loop.simps [of p s] if_False)
    then show ?thesis using 1(3) False by simp
  qed
qed

theorem invmp_inverts:
  assumes "0 < p" and "odd p" and "0 \<le> this" and "coprime this p"
  shows "\<exists>i. invmp this p = Some i \<and> (this * i) mod p = 1 mod p"
proof -
  define s0 where "s0 = \<lparr>p_a = this, p_b = p, p_x1 = 1, p_x2 = 0\<rparr>"
  define s where "s = invmp_loop p s0"
  have "invmp_inv this p s0" using assms by (simp add: invmp_inv_def s0_def)
  then have s: "invmp_inv this p s" "\<not> (1 < p_a s \<and> 1 < p_b s)"
    using invmp_loop_inv assms(2) unfolding s_def by blast+
  define r where "r = (if p_a s = 1 then p_x1 s else p_x2 s)"
  have "p_a s = 1 \<or> p_b s = 1"
  proof (cases "p_a s = 0")
    case True
    then show ?thesis using s(1) by (auto simp: invmp_inv_def)
  next
    case False
    then show ?thesis using s by (auto simp: invmp_inv_def)
  qed
  then have "p dvd r * this - 1" using s(1) by (auto simp: invmp_inv_def r_def)
  then have m: "(this * r) mod p = 1 mod p" by (simp add: mod_eq_dvd_iff mult.commute)
  have "invmp this p = Some (if r < 0 then r + p else r)"
    using assms by (simp add: invmp_def s_def s0_def r_def Let_def)
  moreover have "(this * (if r < 0 then r + p else r)) mod p = 1 mod p"
    using m by (simp add: distrib_left)
  ultimately show ?thesis by simp
qed

section \<open>gcd\<close>

text \<open>The loop that removes the factors of two; the numbers it is called on are positive.\<close>

function strip_twos :: "int \<Rightarrow> int" where
  "strip_twos a = (if 0 < a \<and> even a then strip_twos (a div 2) else a)"
  by pat_completeness auto
termination by (relation "measure nat") auto

declare strip_twos.simps [simp del]

lemma strip_twos_bounds: "0 < a \<Longrightarrow> 0 < strip_twos a \<and> strip_twos a \<le> a \<and> odd (strip_twos a)"
proof (induction a rule: strip_twos.induct)
  case (1 a)
  show ?case
  proof (cases "even a")
    case True
    then have "strip_twos a = strip_twos (a div 2)" "0 < a div 2" "a div 2 \<le> a"
      using 1(2) by (auto simp: strip_twos.simps [of a] elim!: evenE)
    then show ?thesis using 1 True by auto
  next
    case False
    then have "strip_twos a = a" by (simp add: strip_twos.simps [of a])
    then show ?thesis using 1(2) False by simp
  qed
qed

function gcd_loop :: "int \<Rightarrow> int \<Rightarrow> int" where
  "gcd_loop a b =
     (if 0 < a \<and> 0 < b
      then let a1 = strip_twos a; b1 = strip_twos b;
               (a2, b2) = (if a1 < b1 then (b1, a1) else (a1, b1))
           in if \<not> a1 < b1 \<and> (a1 = b1 \<or> b1 = 1) then b1
              else gcd_loop (a2 - b2) b2
      else b)"
  by pat_completeness auto
termination
proof (relation "measure (\<lambda>(a, b). nat (a + b))")
  fix a b a1 b1 a2 b2 :: int and pair
  assume "0 < a \<and> 0 < b" "a1 = strip_twos a" "b1 = strip_twos b"
    "pair = (if a1 < b1 then (b1, a1) else (a1, b1))" "(a2, b2) = pair"
  then show "((a2 - b2, b2), (a, b)) \<in> measure (\<lambda>(a, b). nat (a + b))"
    using strip_twos_bounds [of a] strip_twos_bounds [of b] by (auto split: if_splits)
qed simp

declare gcd_loop.simps [simp del]

definition bn_gcd :: "int \<Rightarrow> int \<Rightarrow> int" where
  "bn_gcd this num =
     (if this = 0 then \<bar>num\<bar> else if num = 0 then \<bar>this\<bar>
      else let (a, b, shift) = common_twos \<bar>this\<bar> \<bar>num\<bar> 0 in gcd_loop a b * 2 ^ shift)"

lemma strip_twos_gcd: "odd b \<Longrightarrow> gcd (strip_twos a) b = gcd a b"
proof (induction a rule: strip_twos.induct)
  case (1 a)
  show ?case
  proof (cases "0 < a \<and> even a")
    case True
    have "coprime 2 b" using 1(2) by simp
    then have "gcd (2 * (a div 2)) b = gcd (a div 2) b" by (simp add: gcd_mult_left_left_cancel)
    then show ?thesis using 1 True by (simp add: strip_twos.simps [of a])
  next
    case False
    then have "strip_twos a = a" by (subst strip_twos.simps) (simp only: if_False)
    then show ?thesis by simp
  qed
qed

lemma gcd_loop_gcd: "0 < a \<Longrightarrow> 0 < b \<Longrightarrow> odd a \<or> odd b \<Longrightarrow> gcd_loop a b = gcd a b"
proof (induction a b rule: gcd_loop.induct)
  case (1 a b)
  define a1 where "a1 = strip_twos a"
  define b1 where "b1 = strip_twos b"
  have b: "0 < a1" "odd a1" "0 < b1" "odd b1"
    using strip_twos_bounds [of a] strip_twos_bounds [of b] 1(2,3) by (simp_all add: a1_def b1_def)
  have g: "gcd a1 b1 = gcd a b"
  proof (cases "odd b")
    case True
    have "strip_twos b = b" using True by (simp add: strip_twos.simps [of b])
    then show ?thesis using strip_twos_gcd [OF True, of a] by (simp add: a1_def b1_def)
  next
    case False
    then have "odd a" using 1(4) by simp
    then have "strip_twos a = a" by (simp add: strip_twos.simps [of a])
    then show ?thesis using strip_twos_gcd [OF \<open>odd a\<close>, of b] by (simp add: a1_def b1_def gcd.commute)
  qed
  have step: "gcd_loop a b = (if a1 < b1 then gcd_loop (b1 - a1) a1
     else if a1 = b1 \<or> b1 = 1 then b1 else gcd_loop (a1 - b1) b1)"
    using 1(2,3) by (simp add: gcd_loop.simps [of a b] a1_def b1_def Let_def)
  consider "a1 < b1" | "a1 = b1 \<or> b1 = 1" | "b1 < a1" "b1 \<noteq> 1" by linarith
  then show ?case
  proof cases
    case 1
    have "gcd_loop (b1 - a1) a1 = gcd (b1 - a1) a1"
      using 1 "1.IH" [OF conjI a1_def b1_def refl] \<open>0 < a\<close> \<open>0 < b\<close> b by simp
    then show ?thesis using 1 step g by (simp add: gcd_less_step gcd.commute)
  next
    case 2
    then show ?thesis using b step g by auto
  next
    case 3
    have "gcd_loop (a1 - b1) b1 = gcd (a1 - b1) b1"
      using 3 "1.IH" [OF conjI a1_def b1_def refl] \<open>0 < a\<close> \<open>0 < b\<close> b by simp
    then show ?thesis using 3 step g by (simp add: gcd_less_step)
  qed
qed

text \<open>The binary algorithm computes the greatest common divisor, of any signs and with zero.\<close>

theorem bn_gcd_is_gcd: "bn_gcd this num = gcd this num"
proof (cases "this = 0 \<or> num = 0")
  case False
  obtain x y g where t: "common_twos \<bar>this\<bar> \<bar>num\<bar> 0 = (x, y, g)" by (cases "common_twos \<bar>this\<bar> \<bar>num\<bar> 0") auto
  from common_twos_spec [OF t] False
  have xy: "\<bar>this\<bar> = 2 ^ g * x" "\<bar>num\<bar> = 2 ^ g * y" "0 < y" "0 \<le> x" "odd x \<or> odd y" by auto
  have "0 < x" using xy(1,4) False by (cases "x = 0") auto
  have "gcd this num = gcd \<bar>this\<bar> \<bar>num\<bar>" by simp
  also have "\<dots> = 2 ^ g * gcd x y" unfolding xy(1,2) using gcd_mult_distrib_int [of "2 ^ g" x y] by simp
  finally show ?thesis
    using False t gcd_loop_gcd [OF \<open>0 < x\<close> xy(3,5)] by (simp add: bn_gcd_def)
qed (auto simp: bn_gcd_def)

section \<open>Powers\<close>

text \<open>\<^verbatim>\<open>toBitArray\<close> lists the bits from the lowest.\<close>

fun toBitArray :: "nat \<Rightarrow> bool list" where
  "toBitArray n = (if n = 0 then [] else odd n # toBitArray (n div 2))"

declare toBitArray.simps [simp del]

lemma toBitArray_Nil [simp]: "toBitArray n = [] \<longleftrightarrow> n = 0"
  by (simp add: toBitArray.simps [of n])

fun pow_skip :: "int \<Rightarrow> bool list \<Rightarrow> int \<times> bool list" where
  "pow_skip res [] = (res, [])"
| "pow_skip res (b # bs) = (if b then (res, bs) else pow_skip (res * res) bs)"

fun pow_mul :: "int \<Rightarrow> int \<Rightarrow> bool list \<Rightarrow> int" where
  "pow_mul res q [] = res"
| "pow_mul res q (b # bs) = pow_mul (if b then res * q else res) (q * q) bs"

definition bn_pow :: "int \<Rightarrow> nat \<Rightarrow> int" where
  "bn_pow this num =
     (let w = toBitArray num
      in if w = [] then 1 else let (res, ws) = pow_skip this w in pow_mul res (res * res) ws)"

fun bits_val :: "bool list \<Rightarrow> nat" where
  "bits_val [] = 0"
| "bits_val (b # bs) = (if b then 1 else 0) + 2 * bits_val bs"

lemma toBitArray_val: "bits_val (toBitArray n) = n"
 proof (induction n rule: toBitArray.induct)
  case (1 n)
  show ?case
  proof (cases "n = 0")
    case False
    have "bits_val (toBitArray n) = (if odd n then 1 else 0) + 2 * bits_val (toBitArray (n div 2))"
      using False by (subst toBitArray.simps) simp
    then show ?thesis using 1 [OF False] by simp
  qed (simp add: toBitArray.simps [of 0])
qed

lemma pow_mul_val: "pow_mul res q bs = res * q ^ bits_val bs"
  by (induction res q bs rule: pow_mul.induct) (auto simp: power_add power_mult power2_eq_square algebra_simps)

lemma pow_skip_val: "0 < bits_val bs \<Longrightarrow> pow_skip r bs = (res, ws) \<Longrightarrow> res * (res * res) ^ bits_val ws = r ^ bits_val bs"
  by (induction r bs rule: pow_skip.induct) (auto simp: power_mult power2_eq_square split: if_splits)

theorem bn_pow_is_power: "bn_pow this num = this ^ num"
proof (cases "num = 0")
  case False
  then have ne: "toBitArray num \<noteq> []" by simp
  obtain res ws where s: "pow_skip this (toBitArray num) = (res, ws)" by fastforce
  have "res * (res * res) ^ bits_val ws = this ^ num"
    using pow_skip_val [OF _ s] False by (simp add: toBitArray_val)
  then show ?thesis using ne s by (simp add: bn_pow_def pow_mul_val Let_def)
qed (simp add: bn_pow_def)

text \<open>
  \<^verbatim>\<open>Red.prototype.pow\<close>: the bits from the highest, in windows of four that start at a set bit.  \<open>None\<close>
  is the table's first entry, which the code recognises by its identity and does not square.
\<close>

fun window_table :: "int \<Rightarrow> int \<Rightarrow> nat \<Rightarrow> int" where
  "window_table m a 0 = 1 mod m"
| "window_table m a (Suc 0) = a"
| "window_table m a (Suc (Suc i)) = (window_table m a (Suc i) * a) mod m"

definition red_value :: "int \<Rightarrow> int option \<Rightarrow> int" where
  "red_value m res = (case res of None \<Rightarrow> 1 mod m | Some r \<Rightarrow> r)"

fun red_pow_loop :: "int \<Rightarrow> int \<Rightarrow> bool list \<Rightarrow> int option \<Rightarrow> nat \<Rightarrow> nat \<Rightarrow> int option" where
  "red_pow_loop m a [] res current currentLen = res"
| "red_pow_loop m a (b # bs) res current currentLen =
     (let res = map_option (\<lambda>r. (r * r) mod m) res
      in if \<not> b \<and> current = 0 then red_pow_loop m a bs res current 0
         else let current = 2 * current + (if b then 1 else 0);
                  currentLen = Suc currentLen
              in if currentLen \<noteq> 4 \<and> bs \<noteq> [] then red_pow_loop m a bs res current currentLen
                 else red_pow_loop m a bs (Some ((red_value m res * window_table m a current) mod m)) 0 0)"

definition red_pow :: "int \<Rightarrow> int \<Rightarrow> nat \<Rightarrow> int" where
  "red_pow m a num =
     (if num = 0 then 1 mod m else if num = 1 then a
      else red_value m (red_pow_loop m a (rev (toBitArray num)) None 0 0))"

fun msb_val :: "nat \<Rightarrow> bool list \<Rightarrow> nat" where
  "msb_val k [] = k"
| "msb_val k (b # bs) = msb_val (2 * k + (if b then 1 else 0)) bs"

lemma window_table_val: "a mod m = a \<Longrightarrow> window_table m a i = a ^ i mod m"
  by (induction m a i rule: window_table.induct) (simp_all add: mod_simps mult.commute)

lemma red_pow_loop_val:
  assumes "a mod m = a"
  shows "(bs = [] \<Longrightarrow> current = 0) \<Longrightarrow> red_value m res = a ^ e mod m \<Longrightarrow> (res = None \<Longrightarrow> e = 0) \<Longrightarrow>
     red_value m (red_pow_loop m a bs res current len) = a ^ msb_val (e + current) bs mod m"
proof (induction bs arbitrary: res current len e)
  case (Cons b bs)
  define res1 where "res1 = map_option (\<lambda>r. (r * r) mod m) res"
  have r1: "red_value m res1 = a ^ (2 * e) mod m"
  proof (cases res)
    case None
    then show ?thesis using Cons.prems(2,3) by (simp add: res1_def red_value_def)
  next
    case (Some r)
    then have "r = a ^ e mod m" using Cons.prems(2) by (simp add: red_value_def)
    then show ?thesis using Some by (simp add: res1_def red_value_def mod_simps flip: power_add mult_2)
  qed
  have n1: "res1 = None \<Longrightarrow> 2 * e = 0" using Cons.prems(3) by (simp add: res1_def)
  define c where "c = 2 * current + (if b then 1 else 0 :: nat)"
  have goal: "msb_val (e + current) (b # bs) = msb_val (2 * e + c) bs" by (simp add: c_def algebra_simps)
  consider "\<not> b \<and> current = 0" | "\<not> (\<not> b \<and> current = 0)" "Suc len \<noteq> 4 \<and> bs \<noteq> []"
    | "\<not> (\<not> b \<and> current = 0)" "\<not> (Suc len \<noteq> 4 \<and> bs \<noteq> [])" by blast
  then show ?case
  proof cases
    case 1
    have "red_value m (red_pow_loop m a bs res1 0 0) = a ^ msb_val (2 * e + 0) bs mod m"
      using Cons.IH [OF _ r1 n1] by simp
    then show ?thesis using 1 by (simp add: res1_def Let_def)
  next
    case 2
    have "red_value m (red_pow_loop m a bs res1 c (Suc len)) = a ^ msb_val (2 * e + c) bs mod m"
      using Cons.IH [OF _ r1 n1] 2 by simp
    then show ?thesis using 2 unfolding goal by (auto simp add: res1_def c_def Let_def)
  next
    case 3
    define r2 where "r2 = Some ((red_value m res1 * window_table m a c) mod m)"
    have "red_value m r2 = a ^ (2 * e + c) mod m"
      by (simp add: r2_def red_value_def [of m "Some _"] r1 window_table_val [OF assms] mod_simps flip: power_add)
    then have "red_value m (red_pow_loop m a bs r2 0 0) = a ^ msb_val (2 * e + c + 0) bs mod m"
      by (rule Cons.IH [rotated]) (simp_all add: r2_def)
    then show ?thesis using 3 unfolding goal by (auto simp add: res1_def c_def r2_def Let_def)
  qed
qed simp

lemma msb_val_rev: "msb_val k (rev bs) = k * 2 ^ length bs + bits_val bs"
proof -
  have app: "msb_val k (xs @ [b]) = 2 * msb_val k xs + (if b then 1 else 0)" for k xs b
    by (induction xs arbitrary: k) simp_all
  show ?thesis by (induction bs) (simp_all add: app)
qed

text \<open>The sliding-window power of a reduced number is its power, reduced.\<close>

theorem red_pow_is_power: "a mod m = a \<Longrightarrow> red_pow m a num = a ^ num mod m"
proof -
  assume a: "a mod m = a"
  have "red_value m (red_pow_loop m a (rev (toBitArray num)) None 0 0) = a ^ num mod m"
    using red_pow_loop_val [OF a, of "rev (toBitArray num)" 0 None 0 0]
    by (simp add: msb_val_rev toBitArray_val red_value_def)
  then show ?thesis using a by (simp add: red_pow_def)
qed
theorem red_pow_is_power_witness: "red_pow 1000 7 77 = 7 ^ 77 mod 1000"
  by (rule red_pow_is_power) simp

end
