(* ===== verification/Keys.thy ===== *)
theory Keys
  imports Networks XAddress BnEuclid
begin

text \<open>
  \<^verbatim>\<open>lib/crypto/hash.js\<close>, \<^verbatim>\<open>lib/crypto/point.js\<close>, \<^verbatim>\<open>lib/publickey.js\<close> and \<^verbatim>\<open>lib/privatekey.js\<close>.
  The curve is the package \<^verbatim>\<open>elliptic\<close> and a parameter: its points are of any type \<open>'p\<close>.
  Big numbers that hold keys are not negative, so they are natural numbers here.
\<close>

section \<open>HMAC\<close>

text \<open>
  The test \<^verbatim>\<open>key < blocksize\<close> compares the buffer, so its text as a number, with the block size:
  \<open>padded\<close> is its outcome.  A short key that is not padded reads as \<^verbatim>\<open>undefined\<close> past its end, which
  is 0 in an exclusive or.
\<close>

definition byte_at :: "bytes \<Rightarrow> nat \<Rightarrow> byte" where
  "byte_at b i = (if i < length b then b ! i else 0)"

definition hmac_pads :: "bool \<Rightarrow> (bytes \<Rightarrow> bytes) \<Rightarrow> nat \<Rightarrow> bytes \<Rightarrow> bytes \<Rightarrow> bytes" where
  "hmac_pads padded hashf blocksize data key =
     (let key = (if blocksize < length key then hashf key
                 else if padded then key @ replicate (blocksize - length key) 0 else key);
          o_key_pad = map (\<lambda>i. 0x5c XOR byte_at key i) [0..<blocksize];
          i_key_pad = map (\<lambda>i. 0x36 XOR byte_at key i) [0..<blocksize]
      in hashf (o_key_pad @ hashf (i_key_pad @ data)))"

definition hmac :: "(bytes \<Rightarrow> bytes) \<Rightarrow> nat \<Rightarrow> bytes \<Rightarrow> bytes \<Rightarrow> bytes" where
  "hmac = hmac_pads False"

definition sha256hmac :: "coder \<Rightarrow> bytes \<Rightarrow> bytes \<Rightarrow> bytes" where
  "sha256hmac K = hmac (sha256 K) (512 div 8)"

section \<open>Points\<close>

record 'p curve =
  pmul :: "'p \<Rightarrow> nat \<Rightarrow> 'p"
  padd :: "'p \<Rightarrow> 'p \<Rightarrow> 'p"
  getG :: 'p
  getN :: nat
  isInfinity :: "'p \<Rightarrow> bool"
  getX :: "'p \<Rightarrow> nat"
  getY :: "'p \<Rightarrow> nat"
  pointFromX :: "nat \<Rightarrow> bool \<Rightarrow> 'p option"
  curve_point :: "nat \<Rightarrow> nat \<Rightarrow> 'p"

definition validate :: "'p curve \<Rightarrow> 'p \<Rightarrow> 'p res" where
  "validate C P =
     (if isInfinity C P then Inl (PlainError ''Point cannot be equal to Infinity'')
      else case pointFromX C (getX C P) (odd (getY C P)) of
        None \<Rightarrow> Inl (PlainError ''Point does not lie on the curve'')
      | Some p2 \<Rightarrow>
          if getY C p2 \<noteq> getY C P then Inl (PlainError ''Invalid y value for curve.'')
          else if \<not> isInfinity C (pmul C P (getN C)) then Inl (PlainError ''Point times N must be infinity'')
          else Inr P)"

definition Point :: "'p curve \<Rightarrow> nat \<Rightarrow> nat \<Rightarrow> 'p res" where
  "Point C x y = validate C (curve_point C x y)"

definition fromX :: "'p curve \<Rightarrow> bool \<Rightarrow> nat \<Rightarrow> 'p res" where
  "fromX C y_odd x = (case pointFromX C x y_odd of None \<Rightarrow> Inl (PlainError ''Invalid X'') | Some P \<Rightarrow> validate C P)"

definition pointToCompressed :: "'p curve \<Rightarrow> 'p \<Rightarrow> bytes" where
  "pointToCompressed C P =
     (let xbuf = toBuffer (Some 32) Big (getX C P);
          ybuf = toBuffer (Some 32) Big (getY C P)
      in (if odd (last ybuf) then 3 else 2) # xbuf)"

definition field_prime :: nat where
  "field_prime = 0xFFFFFFFFFFFFFFFFFFFFFFFFFFFFFFFFFFFFFFFFFFFFFFFFFFFFFFFEFFFFFC2F"

definition isSquare :: "nat \<Rightarrow> bool" where
  "isSquare x = (red_pow (int field_prime) (int x mod int field_prime) ((field_prime - 1) div 2) = 1)"

definition hasSquare :: "'p curve \<Rightarrow> 'p \<Rightarrow> bool" where
  "hasSquare C P \<longleftrightarrow> \<not> isInfinity C P \<and> isSquare (getY C P)"

section \<open>The objects\<close>

record privkey =
  bn :: nat
  compressed :: bool
  key_network :: net_ref

record 'p pubkey =
  point :: 'p
  pub_compressed :: bool
  pub_network :: net_ref

definition default_net :: net_ref where
  "default_net = Net livenet"

section \<open>Public keys\<close>

record pk_extra =
  ex_compressed :: "bool option"
  ex_network :: "net_arg option"

definition no_extra :: pk_extra where
  "no_extra = \<lparr>ex_compressed = None, ex_network = None\<rparr>"

record 'p pk_info =
  in_point :: 'p
  in_compressed :: bool
  in_network :: "net_ref option"

text \<open>Hexadecimal text without spaces or a sign, as \<^verbatim>\<open>new BN(text, 'hex')\<close> reads it.\<close>

definition hex_number :: "string \<Rightarrow> nat" where
  "hex_number s = fold (\<lambda>c n. 16 * n + (case hex_value c of Some d \<Rightarrow> d | None \<Rightarrow> of_char c mod 16)) s 0"

datatype 'p pk_data =
    PkPoint 'p
  | PkObject string string "bool option"
  | PkText string
  | PkBuffer bytes
  | PkPrivate privkey
  | PkKey "'p pubkey"

definition transformX :: "'p curve \<Rightarrow> bool \<Rightarrow> nat \<Rightarrow> 'p res" where
  "transformX C y_odd x = fromX C y_odd x"

definition transformDER :: "'p curve \<Rightarrow> bytes \<Rightarrow> bool option \<Rightarrow> ('p \<times> bool) res" where
  "transformDER C buf strict =
     (let strict = (case strict of None \<Rightarrow> True | Some b \<Rightarrow> b);
          b0 = nth_opt buf 0
      in if b0 = Some 4 \<or> \<not> strict \<and> (b0 = Some 6 \<or> b0 = Some 7)
         then let xbuf = slice buf 1 33; ybuf = slice buf 33 65
              in if length xbuf \<noteq> 32 \<or> length ybuf \<noteq> 32 \<or> length buf \<noteq> 65 then Inl TypeErr
                 else rmap (\<lambda>P. (P, False)) (Point C (be_val xbuf) (be_val ybuf))
         else if b0 = Some 3 then rmap (\<lambda>P. (P, True)) (transformX C True (be_val (drop 1 buf)))
         else if b0 = Some 2 then rmap (\<lambda>P. (P, True)) (transformX C False (be_val (drop 1 buf)))
         else Inl TypeErr)"

definition transformPrivateKey :: "'p curve \<Rightarrow> privkey \<Rightarrow> 'p pk_info" where
  "transformPrivateKey C privkey =
     \<lparr>in_point = pmul C (getG C) (bn privkey), in_compressed = compressed privkey,
      in_network = Some (key_network privkey)\<rparr>"

definition extra_compressed :: "pk_extra \<Rightarrow> bool" where
  "extra_compressed extra = (case ex_compressed extra of None \<Rightarrow> True | Some b \<Rightarrow> b)"

definition extra_network :: "net_state \<Rightarrow> pk_extra \<Rightarrow> net_ref option" where
  "extra_network N extra =
     (case ex_network extra of None \<Rightarrow> None | Some a \<Rightarrow> networks_get N (Some a))"

text \<open>The end of the constructor: the point is validated and the network defaults.\<close>

definition make_pubkey :: "'p curve \<Rightarrow> 'p pk_info \<Rightarrow> 'p pubkey res" where
  "make_pubkey C info =
     rmap (\<lambda>P. \<lparr>point = P, pub_compressed = in_compressed info,
                pub_network = (case in_network info of None \<Rightarrow> default_net | Some n \<Rightarrow> n)\<rparr>)
       (validate C (in_point info))"

definition pubkey_of_point :: "'p curve \<Rightarrow> net_state \<Rightarrow> 'p \<Rightarrow> pk_extra \<Rightarrow> 'p pubkey res" where
  "pubkey_of_point C N P extra =
     make_pubkey C \<lparr>in_point = P, in_compressed = extra_compressed extra, in_network = extra_network N extra\<rparr>"

text \<open>The values of an object become a whole key, with the default network.\<close>

definition pk_transformObject :: "'p curve \<Rightarrow> net_state \<Rightarrow> string \<Rightarrow> string \<Rightarrow> bool option \<Rightarrow> 'p pubkey res" where
  "pk_transformObject C N x y cflag =
     rbind (Point C (hex_number x) (hex_number y)) (\<lambda>P.
       pubkey_of_point C N P \<lparr>ex_compressed = cflag, ex_network = None\<rparr>)"

definition classifyArgs :: "'p curve \<Rightarrow> net_state \<Rightarrow> 'p pk_data \<Rightarrow> pk_extra \<Rightarrow> 'p pk_info res" where
  "classifyArgs C N data extra =
     (let der = \<lambda>buf. rmap (\<lambda>(P, c). \<lparr>in_point = P, in_compressed = c, in_network = extra_network N extra\<rparr>)
                        (transformDER C buf None)
      in case data of
           PkPoint P \<Rightarrow> Inr \<lparr>in_point = P, in_compressed = extra_compressed extra,
                             in_network = extra_network N extra\<rparr>
         | PkObject x y c \<Rightarrow> rmap (\<lambda>k. \<lparr>in_point = point k, in_compressed = pub_compressed k,
                             in_network = Some (pub_network k)\<rparr>) (pk_transformObject C N x y c)
         | PkText t \<Rightarrow> der (of_hex t)
         | PkBuffer b \<Rightarrow> der b
         | PkPrivate k \<Rightarrow> Inr (transformPrivateKey C k)
         | PkKey k \<Rightarrow> Inl TypeErr)"

text \<open>A key is returned as it is; an empty text is not an argument.\<close>

definition PublicKey :: "'p curve \<Rightarrow> net_state \<Rightarrow> 'p pk_data \<Rightarrow> pk_extra \<Rightarrow> 'p pubkey res" where
  "PublicKey C N data extra =
     (case data of
        PkKey k \<Rightarrow> Inr k
      | PkText [] \<Rightarrow> Inl (InvalidArgument ''First argument is required, please include public key data.'')
      | _ \<Rightarrow> rbind (classifyArgs C N data extra) (make_pubkey C))"

definition fromPrivateKey :: "'p curve \<Rightarrow> net_state \<Rightarrow> privkey \<Rightarrow> 'p pubkey res" where
  "fromPrivateKey C N privkey =
     (let info = transformPrivateKey C privkey
      in PublicKey C N (PkPoint (in_point info))
           \<lparr>ex_compressed = Some (in_compressed info), ex_network = map_option NetRef (in_network info)\<rparr>)"

definition pk_fromDER :: "'p curve \<Rightarrow> net_state \<Rightarrow> bytes \<Rightarrow> bool option \<Rightarrow> 'p pubkey res" where
  "pk_fromDER C N buf strict =
     rbind (transformDER C buf strict) (\<lambda>(P, c).
       PublicKey C N (PkPoint P) \<lparr>ex_compressed = Some c, ex_network = None\<rparr>)"

definition fromPoint :: "'p curve \<Rightarrow> net_state \<Rightarrow> 'p \<Rightarrow> bool option \<Rightarrow> 'p pubkey res" where
  "fromPoint C N P cflag = PublicKey C N (PkPoint P) \<lparr>ex_compressed = cflag, ex_network = None\<rparr>"

definition pk_fromString :: "'p curve \<Rightarrow> net_state \<Rightarrow> string \<Rightarrow> 'p pubkey res" where
  "pk_fromString C N str = pk_fromDER C N (of_hex str) None"

text \<open>\<^verbatim>\<open>_transformX\<close> leaves the flag \<^verbatim>\<open>undefined\<close>, which the constructor takes for compressed.\<close>

definition pk_fromX :: "'p curve \<Rightarrow> net_state \<Rightarrow> bool \<Rightarrow> nat \<Rightarrow> 'p pubkey res" where
  "pk_fromX C N y_odd x = rbind (transformX C y_odd x) (\<lambda>P. PublicKey C N (PkPoint P) no_extra)"

definition pk_getValidationError :: "'p curve \<Rightarrow> net_state \<Rightarrow> 'p pk_data \<Rightarrow> js_error option" where
  "pk_getValidationError C N data = (case PublicKey C N data no_extra of Inl e \<Rightarrow> Some e | Inr _ \<Rightarrow> None)"

definition pk_isValid :: "'p curve \<Rightarrow> net_state \<Rightarrow> 'p pk_data \<Rightarrow> bool" where
  "pk_isValid C N data = (pk_getValidationError C N data = None)"

text \<open>Hexadecimal text with an even number of digits.\<close>

definition even_hex :: "nat \<Rightarrow> string" where
  "even_hex n = to_hex (toBuffer None Big n)"

definition pk_toObject :: "'p curve \<Rightarrow> 'p pubkey \<Rightarrow> string \<times> string \<times> bool" where
  "pk_toObject C k = (even_hex (getX C (point k)), even_hex (getY C (point k)), pub_compressed k)"

definition pk_toDER :: "'p curve \<Rightarrow> 'p pubkey \<Rightarrow> bytes" where
  "pk_toDER C k =
     (let xbuf = toBuffer (Some 32) Big (getX C (point k));
          ybuf = toBuffer (Some 32) Big (getY C (point k))
      in if \<not> pub_compressed k then 4 # xbuf @ ybuf
         else (if odd (last ybuf) then 3 else 2) # xbuf)"

definition getID :: "coder \<Rightarrow> 'p curve \<Rightarrow> 'p pubkey \<Rightarrow> bytes" where
  "getID K C k = sha256ripemd160 K (pk_toDER C k)"

definition pk_toString :: "'p curve \<Rightarrow> 'p pubkey \<Rightarrow> string" where
  "pk_toString C k = to_hex (pk_toDER C k)"

definition pk_inspect :: "'p curve \<Rightarrow> 'p pubkey \<Rightarrow> string" where
  "pk_inspect C k =
     ''<PublicKey: '' @ pk_toString C k @ (if pub_compressed k then [] else '', uncompressed'') @ ''>''"

section \<open>Private keys\<close>

datatype priv_data =
    PrNone
  | PrBN nat
  | PrBuffer bytes
  | PrObject string net_arg bool
  | PrNetwork net_ref
  | PrText string
  | PrKey privkey

text \<open>The random buffers come as a sequence; the loop takes them until one is below the order.\<close>

partial_function (option) getRandomBN :: "'p curve \<Rightarrow> (nat \<Rightarrow> bytes) \<Rightarrow> nat \<Rightarrow> nat option" where
  "getRandomBN C random i =
     (let b = be_val (random i) in if b < getN C then Some b else getRandomBN C random (Suc i))"

declare getRandomBN.simps [code]

record priv_info =
  pi_bn :: nat
  pi_compressed :: bool
  pi_network :: "net_ref option"

definition transformBNBuffer :: "net_state \<Rightarrow> bytes \<Rightarrow> net_arg option \<Rightarrow> priv_info" where
  "transformBNBuffer N buf network =
     \<lparr>pi_bn = be_val buf, pi_compressed = False,
      pi_network = Some (case networks_get N network of None \<Rightarrow> default_net | Some n \<Rightarrow> n)\<rparr>"

definition priv_transformBuffer :: "net_state \<Rightarrow> bytes \<Rightarrow> net_arg option \<Rightarrow> priv_info res" where
  "priv_transformBuffer N buf network =
     (if length buf = 32 then Inr (transformBNBuffer N buf network)
      else case (case nth_opt buf 0 of None \<Rightarrow> None
                 | Some b \<Rightarrow> networks_get_by N net_privatekey (unat b)) of
        None \<Rightarrow> Inl (PlainError ''Invalid network'')
      | Some n \<Rightarrow>
          if truthy_net network \<and> Some (Net n) \<noteq> networks_get N network then Inl TypeErr
          else if length buf = 34 \<and> nth_opt buf 33 = Some 1
          then Inr \<lparr>pi_bn = be_val (slice buf 1 33), pi_compressed = True, pi_network = Some (Net n)\<rparr>
          else if length buf = 33
          then Inr \<lparr>pi_bn = be_val (slice buf 1 33), pi_compressed = False, pi_network = Some (Net n)\<rparr>
          else Inl (PlainError ''Length of buffer must be 33 (uncompressed) or 34 (compressed)''))"

definition transformWIF :: "coder \<Rightarrow> net_state \<Rightarrow> string \<Rightarrow> net_arg option \<Rightarrow> priv_info res" where
  "transformWIF K N str network =
     rbind (base58check_decode K str) (\<lambda>buf. priv_transformBuffer N buf network)"

definition priv_transformObject :: "net_state \<Rightarrow> string \<Rightarrow> net_arg \<Rightarrow> bool \<Rightarrow> priv_info" where
  "priv_transformObject N b n c = \<lparr>pi_bn = hex_number b, pi_compressed = c, pi_network = networks_get N (Some n)\<rparr>"

text \<open>A fresh random key, \<open>None\<close> when the loop does not end.\<close>

definition random_info :: "'p curve \<Rightarrow> (nat \<Rightarrow> bytes) \<Rightarrow> net_ref option \<Rightarrow> priv_info option" where
  "random_info C random n =
     map_option (\<lambda>b. \<lparr>pi_bn = b, pi_compressed = True, pi_network = n\<rparr>) (getRandomBN C random 0)"

definition named_network :: "net_state \<Rightarrow> priv_data \<Rightarrow> net_ref option" where
  "named_network N data =
     (case data of PrNetwork r \<Rightarrow> networks_get N (Some (NetRef r))
      | PrText t \<Rightarrow> networks_get N (Some (NetText t)) | _ \<Rightarrow> None)"

definition priv_classifyArguments ::
  "coder \<Rightarrow> 'p curve \<Rightarrow> net_state \<Rightarrow> (nat \<Rightarrow> bytes) \<Rightarrow> priv_data \<Rightarrow> net_arg option \<Rightarrow>
     priv_info res option" where
  "priv_classifyArguments K C N random data network =
     (let net = (if truthy_net network then networks_get N network else Some default_net);
          info = (\<lambda>b. \<lparr>pi_bn = b, pi_compressed = True, pi_network = net\<rparr>)
      in case data of
           PrNone \<Rightarrow> map_option Inr (random_info C random net)
         | PrBN b \<Rightarrow> Some (Inr (info b))
         | PrBuffer b \<Rightarrow> Some (priv_transformBuffer N b network)
         | PrObject b n c \<Rightarrow> Some (Inr (priv_transformObject N b n c))
         | PrKey k \<Rightarrow> Some (Inl TypeErr)
         | _ \<Rightarrow>
             if \<not> truthy_net network \<and> named_network N data \<noteq> None
             then map_option Inr (random_info C random (named_network N data))
             else (case data of
                 PrText t \<Rightarrow> Some (if isHexa t then Inr (info (be_val (of_hex t))) else transformWIF K N t network)
               | _ \<Rightarrow> Some (Inl TypeErr)))"

text \<open>The checks of the constructor.\<close>

definition make_privkey :: "'p curve \<Rightarrow> priv_info \<Rightarrow> privkey res" where
  "make_privkey C info =
     (if pi_bn info = 0 then Inl TypeErr
      else if \<not> pi_bn info < getN C then Inl TypeErr
      else case pi_network info of None \<Rightarrow> Inl TypeErr
        | Some n \<Rightarrow> Inr \<lparr>bn = pi_bn info, compressed = pi_compressed info, key_network = n\<rparr>)"

definition PrivateKey ::
  "coder \<Rightarrow> 'p curve \<Rightarrow> net_state \<Rightarrow> (nat \<Rightarrow> bytes) \<Rightarrow> priv_data \<Rightarrow> net_arg option \<Rightarrow>
     privkey res option" where
  "PrivateKey K C N random data network =
     (case data of PrKey k \<Rightarrow> Some (Inr k)
      | _ \<Rightarrow> map_option (\<lambda>r. rbind r (make_privkey C)) (priv_classifyArguments K C N random data network))"

definition fromRandom ::
  "coder \<Rightarrow> 'p curve \<Rightarrow> net_state \<Rightarrow> (nat \<Rightarrow> bytes) \<Rightarrow> net_arg option \<Rightarrow> privkey res option" where
  "fromRandom K C N random network =
     Option.bind (getRandomBN C random 0) (\<lambda>b. PrivateKey K C N random (PrBN b) network)"

definition priv_isValid ::
  "coder \<Rightarrow> 'p curve \<Rightarrow> net_state \<Rightarrow> (nat \<Rightarrow> bytes) \<Rightarrow> priv_data \<Rightarrow> net_arg option \<Rightarrow> bool option" where
  "priv_isValid K C N random data network =
     (if data = PrNone \<or> data = PrText [] then Some False
      else map_option isOk (PrivateKey K C N random data network))"

definition privkey_byte :: "net_ref \<Rightarrow> byte" where
  "privkey_byte n = (case n of Net n \<Rightarrow> word_of_nat (net_privatekey n) | Inherited _ \<Rightarrow> 0)"

definition priv_toBuffer :: "privkey \<Rightarrow> bytes" where
  "priv_toBuffer k = toBuffer (Some 32) Big (bn k)"

definition toWIF_bytes :: "privkey \<Rightarrow> bytes" where
  "toWIF_bytes k = privkey_byte (key_network k) # priv_toBuffer k @ (if compressed k then [1] else [])"

definition toWIF :: "coder \<Rightarrow> privkey \<Rightarrow> string" where
  "toWIF K k = base58check_encode K (toWIF_bytes k)"

definition priv_toString :: "privkey \<Rightarrow> string" where
  "priv_toString k = to_hex (priv_toBuffer k)"

definition toBufferNoPadding :: "privkey \<Rightarrow> bytes" where
  "toBufferNoPadding k = toBuffer None Big (bn k)"

definition toPublicKey :: "'p curve \<Rightarrow> net_state \<Rightarrow> privkey \<Rightarrow> 'p pubkey res" where
  "toPublicKey C N k = fromPrivateKey C N k"

definition priv_toObject :: "privkey \<Rightarrow> string \<times> bool \<times> string" where
  "priv_toObject k = (nat_hex (bn k), compressed k, net_text (key_network k))"

definition priv_inspect :: "privkey \<Rightarrow> string" where
  "priv_inspect k =
     ''<PrivateKey: '' @ priv_toString k @ '', network: '' @ net_text (key_network k)
       @ (if compressed k then [] else '', uncompressed'') @ ''>''"

section \<open>What the development relies on of the curve\<close>

definition gmul :: "'p curve \<Rightarrow> nat \<Rightarrow> 'p" where
  "gmul C k = pmul C (getG C) k"

text \<open>
  The multiples of the base point form a group of prime order; a point other than infinity is
  determined by its x coordinate and the parity of its y coordinate, and its opposite has the same x
  and a y that is a square exactly when the other's is not.
\<close>

definition curve_ok :: "'p curve \<Rightarrow> bool" where
  "curve_ok C \<longleftrightarrow>
     1 < getN C \<and> getN C < 2 ^ 256 \<and> (\<forall>a. 0 < a \<and> a < getN C \<longrightarrow> coprime a (getN C)) \<and>
     (\<forall>a. isInfinity C (gmul C a) \<longleftrightarrow> getN C dvd a) \<and>
     (\<forall>a b. padd C (gmul C a) (gmul C b) = gmul C (a + b)) \<and>
     (\<forall>a b. pmul C (gmul C a) b = gmul C (a * b)) \<and>
     (\<forall>a. gmul C (a mod getN C) = gmul C a) \<and>
     (\<forall>a. \<not> getN C dvd a \<longrightarrow> getX C (gmul C a) < field_prime \<and> getY C (gmul C a) < field_prime \<and>
        pointFromX C (getX C (gmul C a)) (odd (getY C (gmul C a))) = Some (gmul C a) \<and>
        curve_point C (getX C (gmul C a)) (getY C (gmul C a)) = gmul C a) \<and>
     (\<forall>a. 0 < a \<and> a < getN C \<longrightarrow> getX C (gmul C (getN C - a)) = getX C (gmul C a) \<and>
        isSquare (getY C (gmul C (getN C - a))) \<noteq> isSquare (getY C (gmul C a)))"

definition on_curve :: "'p curve \<Rightarrow> 'p \<Rightarrow> bool" where
  "on_curve C P \<longleftrightarrow> (\<exists>a. \<not> getN C dvd a \<and> P = gmul C a)"

text \<open>A group of seven elements meets the conditions; it stands for the curve in the witnesses.\<close>

definition seven :: "nat curve" where
  "seven = \<lparr>pmul = (\<lambda>P k. (P * k) mod 7), padd = (\<lambda>P Q. (P + Q) mod 7), getG = 1, getN = 7,
     isInfinity = (\<lambda>P. P mod 7 = 0), getX = (\<lambda>P. min P (7 - P)), getY = (\<lambda>P. if P \<le> 3 then 1 else field_prime - 1),
     pointFromX = (\<lambda>x y_odd. Some (if y_odd then x else 7 - x)),
     curve_point = (\<lambda>x y. if y = 1 then x else 7 - x)\<rparr>"

lemma isSquare_values: "isSquare 1" "\<not> isSquare (field_prime - 1)"
proof -
  have eq: "isSquare x \<longleftrightarrow> (int x mod int field_prime) ^ ((field_prime - 1) div 2) mod int field_prime = 1" for x
    by (simp add: isSquare_def red_pow_is_power)
  show "isSquare 1" unfolding eq by (simp add: field_prime_def)
  have "int (field_prime - 1) mod int field_prime = (- 1) mod int field_prime" by (simp add: field_prime_def)
  then have "isSquare (field_prime - 1) \<longleftrightarrow> (- 1) ^ ((field_prime - 1) div 2) mod int field_prime = 1"
    unfolding eq by (simp only: power_mod)
  moreover have "odd ((field_prime - 1) div 2)" by (simp add: field_prime_def)
  ultimately show "\<not> isSquare (field_prime - 1)" by (simp add: field_prime_def)
qed

lemma curve_ok_seven: "curve_ok seven"
proof -
  have r: "a < 7 \<Longrightarrow> a = 0 \<or> a = 1 \<or> a = 2 \<or> a = 3 \<or> a = 4 \<or> a = 5 \<or> a = 6" for a :: nat by arith
  have "gcd (2 :: nat) 7 = 1 \<and> gcd (3 :: nat) 7 = 1 \<and> gcd (4 :: nat) 7 = 1 \<and> gcd (5 :: nat) 7 = 1 \<and> gcd (6 :: nat) 7 = 1"
    by code_simp
  then have co: "0 < a \<Longrightarrow> a < 7 \<Longrightarrow> coprime a 7" for a :: nat
    using r [of a] by (auto simp: coprime_iff_gcd_eq_1)
  have p: "odd (field_prime - 1) = False" "field_prime - 1 \<noteq> 1" "1 < field_prime" "field_prime - 1 < field_prime"
    by (simp_all add: field_prime_def)
  have m: "(a::nat) mod 7 \<in> {1, 2, 3, 4, 5, 6}" if "\<not> 7 dvd a" for a
    using that r [of "a mod 7"] by (auto simp: dvd_eq_mod_eq_0)
  show ?thesis
    unfolding curve_ok_def
  proof (intro conjI allI impI)
    fix a b :: nat
    show "1 < getN seven" "getN seven < 2 ^ 256" by (simp_all add: seven_def)
    show "isInfinity seven (gmul seven a) = (getN seven dvd a)"
      by (simp add: seven_def gmul_def dvd_eq_mod_eq_0)
    show "padd seven (gmul seven a) (gmul seven b) = gmul seven (a + b)"
      "pmul seven (gmul seven a) b = gmul seven (a * b)" "gmul seven (a mod getN seven) = gmul seven a"
      by (simp_all add: seven_def gmul_def mod_simps)
  next
    fix a :: nat
    assume "0 < a \<and> a < getN seven"
    then have a: "0 < a" "a < 7" by (simp_all add: seven_def)
    then show "coprime a (getN seven)" using co by (simp add: seven_def)
    show "getX seven (gmul seven (getN seven - a)) = getX seven (gmul seven a)"
      using a r [of a] by (auto simp: seven_def gmul_def)
    show "isSquare (getY seven (gmul seven (getN seven - a))) \<noteq> isSquare (getY seven (gmul seven a))"
      using a r [of a] isSquare_values by (auto simp: seven_def gmul_def)
  next
    fix a :: nat
    assume "\<not> getN seven dvd a"
    then have "a mod 7 \<in> {1, 2, 3, 4, 5, 6}" using m by (simp add: seven_def)
    then show "getX seven (gmul seven a) < field_prime" "getY seven (gmul seven a) < field_prime"
      "pointFromX seven (getX seven (gmul seven a)) (odd (getY seven (gmul seven a))) = Some (gmul seven a)"
      "curve_point seven (getX seven (gmul seven a)) (getY seven (gmul seven a)) = gmul seven a"
      using p by (auto simp: seven_def gmul_def field_prime_def)
  qed
qed

section \<open>Lemmas\<close>

lemma curve_okD:
  assumes "curve_ok C"
  shows "1 < getN C" "getN C < 2 ^ 256" "0 < a \<Longrightarrow> a < getN C \<Longrightarrow> coprime a (getN C)"
    "isInfinity C (gmul C a) \<longleftrightarrow> getN C dvd a" "padd C (gmul C a) (gmul C b) = gmul C (a + b)"
    "pmul C (gmul C a) b = gmul C (a * b)" "gmul C (a mod getN C) = gmul C a"
    "\<not> getN C dvd a \<Longrightarrow> getX C (gmul C a) < field_prime" "\<not> getN C dvd a \<Longrightarrow> getY C (gmul C a) < field_prime"
    "\<not> getN C dvd a \<Longrightarrow> pointFromX C (getX C (gmul C a)) (odd (getY C (gmul C a))) = Some (gmul C a)"
    "\<not> getN C dvd a \<Longrightarrow> curve_point C (getX C (gmul C a)) (getY C (gmul C a)) = gmul C a"
    "0 < a \<Longrightarrow> a < getN C \<Longrightarrow> getX C (gmul C (getN C - a)) = getX C (gmul C a)"
    "0 < a \<Longrightarrow> a < getN C \<Longrightarrow> isSquare (getY C (gmul C (getN C - a))) \<noteq> isSquare (getY C (gmul C a))"
  using assms unfolding curve_ok_def by blast+

lemma validate_on_curve: "curve_ok C \<Longrightarrow> on_curve C P \<Longrightarrow> validate C P = Inr P"
  by (auto simp: on_curve_def validate_def curve_okD)

lemma on_curve_gmul: "curve_ok C \<Longrightarrow> 0 < a \<Longrightarrow> a < getN C \<Longrightarrow> on_curve C (gmul C a)"
  unfolding on_curve_def by (intro exI [of _ a]) (auto dest: dvd_imp_le)

lemma field_prime_bound: "field_prime < 256 ^ 32"
  by (simp add: field_prime_def)

lemma odd_byte: "odd (word_of_nat n :: byte) \<longleftrightarrow> odd n"
  by simp

lemma hd_le_bytes: "0 < k \<Longrightarrow> hd (le_bytes k n) = word_of_nat n"
  by (cases k) simp_all

lemma last_be_bytes_odd: "odd (last (be_bytes 32 n)) \<longleftrightarrow> odd n"
proof -
  have "last (be_bytes 32 n) = hd (le_bytes 32 n)" unfolding be_bytes_def by (rule last_rev)
  also have "\<dots> = word_of_nat n" by (rule hd_le_bytes) simp
  finally show ?thesis by (simp only: odd_byte)
qed

text \<open>A key's bytes read back as the same key.\<close>

lemma toBuffer_coordinate: "n < field_prime \<Longrightarrow> toBuffer (Some 32) Big n = be_bytes 32 n"
  using field_prime_bound by (intro toBuffer_fixed) simp_all

lemma on_curveD:
  assumes "curve_ok C" and "on_curve C P"
  shows "getX C P < field_prime" "getY C P < field_prime"
    "pointFromX C (getX C P) (odd (getY C P)) = Some P" "curve_point C (getX C P) (getY C P) = P"
    "\<not> isInfinity C P"
  using assms curve_okD [OF assms(1)] by (auto simp: on_curve_def)

lemma pk_toDER_compressed:
  assumes "curve_ok C" and "on_curve C (point k)"
  shows "pk_toDER C k =
    (if pub_compressed k then (if odd (getY C (point k)) then 3 else 2) # be_bytes 32 (getX C (point k))
     else 4 # be_bytes 32 (getX C (point k)) @ be_bytes 32 (getY C (point k)))"
  using on_curveD [OF assms] by (simp add: pk_toDER_def toBuffer_coordinate last_be_bytes_odd)

lemma transformDER_toDER:
  assumes "curve_ok C" and "on_curve C (point k)"
  shows "transformDER C (pk_toDER C k) s = Inr (point k, pub_compressed k)"
proof -
  let ?P = "point k"
  note P = on_curveD [OF assms]
  have x: "be_val (be_bytes 32 (getX C ?P)) = getX C ?P" "be_val (be_bytes 32 (getY C ?P)) = getY C ?P"
    using P(1,2) field_prime_bound by (simp_all add: be_val_be_bytes)
  have v: "validate C ?P = Inr ?P" using validate_on_curve [OF assms] .
  show ?thesis
  proof (cases "pub_compressed k")
    case True
    have f: "fromX C (odd (getY C ?P)) (getX C ?P) = Inr ?P" using P(3) v by (simp add: fromX_def)
    show ?thesis
    proof (cases "odd (getY C ?P)")
      case y: True
      then show ?thesis using True f x v
        by (simp add: pk_toDER_compressed [OF assms] transformDER_def transformX_def Let_def)
    next
      case y: False
      then show ?thesis using True f x v
        by (simp add: pk_toDER_compressed [OF assms] transformDER_def transformX_def Let_def)
    qed
  next
    case False
    have "Point C (getX C ?P) (getY C ?P) = Inr ?P" using P(4) v by (simp add: Point_def)
    then show ?thesis using False x
      by (simp add: pk_toDER_compressed [OF assms] transformDER_def slice_def Let_def)
  qed
qed

lemma pointToCompressed_toDER:
  "pointToCompressed C P = pk_toDER C \<lparr>point = P, pub_compressed = True, pub_network = n\<rparr>"
  by (simp add: pointToCompressed_def pk_toDER_def)

text \<open>HMAC as RFC 2104 defines it.\<close>

definition hmac_reference :: "(bytes \<Rightarrow> bytes) \<Rightarrow> nat \<Rightarrow> bytes \<Rightarrow> bytes \<Rightarrow> bytes" where
  "hmac_reference H B text K =
     (let K' = (if B < length K then H K else K);
          K0 = K' @ replicate (B - length K') 0
      in H (map2 (XOR) K0 (replicate B 0x5c) @ H (map2 (XOR) K0 (replicate B 0x36) @ text)))"

lemma byte_at_pad: "byte_at (k @ replicate n 0) i = byte_at k i"
  by (simp add: byte_at_def nth_append)

lemma xor_pad:
  assumes "length k \<le> B"
  shows "map (\<lambda>i. c XOR byte_at k i) [0..<B] = map2 (XOR) (k @ replicate (B - length k) 0) (replicate B c)"
  using assms by (intro nth_equalityI) (simp_all add: byte_at_def nth_append xor.commute)

lemma hmac_pads_reference:
  assumes "B < length key \<Longrightarrow> length (H key) \<le> B"
  shows "hmac_pads padded H B data key = hmac_reference H B data key"
proof -
  define k where "k = (if B < length key then H key else key)"
  have k: "length k \<le> B" using assms by (simp add: k_def)
  have "map (\<lambda>i. c XOR byte_at (if B < length key then H key
      else if padded then key @ replicate (B - length key) 0 else key) i) [0..<B]
      = map (\<lambda>i. c XOR byte_at k i) [0..<B]" for c
    by (simp add: k_def byte_at_pad)
  then show ?thesis
    unfolding hmac_pads_def hmac_reference_def Let_def k_def [symmetric] by (simp only: xor_pad [OF k])
qed

section \<open>Wallet import format\<close>

lemma base58check_roundtrip:
  assumes "coder_ok K"
  shows "base58check_decode K (base58check_encode K b) = Inr b"
proof -
  have l: "length (base58check_checksum K b) = 4"
    using assms by (simp add: coder_ok_def base58check_checksum_def)
  have "b58_decode K (base58check_encode K b) = Inr (b @ base58check_checksum K b)"
    using assms by (simp add: coder_ok_def base58check_encode_def)
  then show ?thesis
    using l by (simp add: base58check_decode_def base58check_checksum_def Let_def)
qed

lemma priv_toBuffer_value:
  assumes "bn k < 2 ^ 256"
  shows "length (priv_toBuffer k) = 32" "be_val (priv_toBuffer k) = bn k"
proof -
  have "bn k < 256 ^ 32" using assms by simp
  then have "priv_toBuffer k = be_bytes 32 (bn k)" "be_val (be_bytes 32 (bn k)) = bn k"
    by (simp_all add: priv_toBuffer_def toBuffer_fixed be_val_be_bytes)
  then show "length (priv_toBuffer k) = 32" "be_val (priv_toBuffer k) = bn k" by simp_all
qed

text \<open>The network whose keys start with the byte: testnet and regtest share it, and testnet comes first.\<close>

definition wif_network :: "network \<Rightarrow> network" where
  "wif_network n = (if n = regtest then testnet else n)"

lemma wif_network_found:
  assumes "n \<in> {livenet, testnet, regtest}"
  shows "networks_get_by default_networks net_privatekey (unat (privkey_byte (Net n))) = Some (wif_network n)"
proof -
  have "net_privatekey livenet = 128" "net_privatekey testnet = 239" "net_privatekey regtest = 239"
    "livenet \<noteq> regtest" "testnet \<noteq> regtest"
    by (simp_all add: network_defs)
  with assms show ?thesis
    by (auto simp: networks_get_by_def default_list privkey_byte_def wif_network_def)
qed

lemma priv_transformBuffer_WIF:
  assumes "bn k < 2 ^ 256" and "key_network k = Net n" and "n \<in> {livenet, testnet, regtest}"
  shows "priv_transformBuffer default_networks (toWIF_bytes k) None =
    Inr \<lparr>pi_bn = bn k, pi_compressed = compressed k, pi_network = Some (Net (wif_network n))\<rparr>"
proof -
  note b = priv_toBuffer_value [OF assms(1)]
  have len: "length (toWIF_bytes k) = (if compressed k then 34 else 33)" using b by (simp add: toWIF_bytes_def)
  have "slice (toWIF_bytes k) 1 33 = priv_toBuffer k" using b by (simp add: toWIF_bytes_def slice_def)
  moreover have "compressed k \<Longrightarrow> nth_opt (toWIF_bytes k) 33 = Some 1"
    using b len by (simp add: toWIF_bytes_def nth_append)
  moreover have "nth_opt (toWIF_bytes k) 0 = Some (privkey_byte (Net n))" using assms(2) by (simp add: toWIF_bytes_def)
  ultimately show ?thesis
    using len b wif_network_found [OF assms(3)]
    by (simp add: priv_transformBuffer_def truthy_net_def)
qed

text \<open>A coder whose texts are not hexadecimal, for the witnesses.\<close>

definition letter_coder :: coder where
  "letter_coder = \<lparr>b58_encode = (\<lambda>b. CHR ''K'' # to_hex b), b58_decode = (\<lambda>s. Inr (of_hex (tl s))),
     sha256 = (\<lambda>b. take 32 (b @ replicate 32 0)), sha256ripemd160 = (\<lambda>b. take 20 (b @ replicate 20 0))\<rparr>"

lemma alnum_to_hex: "list_all alnum (to_hex b)"
proof -
  have "list_all (\<lambda>n. alnum (hex_char n)) [0..<16]" by code_simp
  then have h: "n < 16 \<Longrightarrow> alnum (hex_char n)" for n by (simp add: list_all_iff)
  show ?thesis
  proof (induction b)
    case (Cons x b)
    have "unat x div 16 < 16" using unat_byte_less [of x] by (simp add: div_less_iff_less_mult)
    then show ?case using Cons.IH by (simp add: to_hex_def h)
  qed (simp add: to_hex_def)
qed

lemma letter_coder_ok: "coder_ok letter_coder"
proof -
  have "alnum CHR ''K''" by code_simp
  then show ?thesis using alnum_to_hex by (auto simp: coder_ok_def letter_coder_def min_def)
qed

text \<open>A private key exported to wallet import format is imported as the same key with the same
  compression; a key of livenet or testnet keeps its network, one of regtest becomes a testnet key.\<close>

theorem wif_roundtrip:
  assumes "curve_ok C" and "coder_ok K" and "0 < bn k" and "bn k < getN C"
    and "key_network k = Net n" and "n \<in> {livenet, testnet, regtest}"
    and "\<not> isHexa (toWIF K k)" and "networks_get default_networks (Some (NetText (toWIF K k))) = None"
  shows "PrivateKey K C default_networks random (PrText (toWIF K k)) None =
    Some (Inr (k\<lparr>key_network := Net (wif_network n)\<rparr>))"
proof -
  have "bn k < 2 ^ 256" using curve_okD(2) [OF assms(1)] assms(4) by linarith
  then have "transformWIF K default_networks (toWIF K k) None =
      Inr \<lparr>pi_bn = bn k, pi_compressed = compressed k, pi_network = Some (Net (wif_network n))\<rparr>"
    using priv_transformBuffer_WIF assms by (simp add: transformWIF_def toWIF_def base58check_roundtrip)
  then show ?thesis
    using assms by (simp add: PrivateKey_def priv_classifyArguments_def named_network_def truthy_net_def make_privkey_def)
qed

theorem wif_roundtrip_witness:
  "PrivateKey letter_coder seven default_networks (\<lambda>_. [])
     (PrText (toWIF letter_coder \<lparr>bn = 5, compressed = True, key_network = Net regtest\<rparr>)) None =
   Some (Inr \<lparr>bn = 5, compressed = True, key_network = Net testnet\<rparr>)"
proof -
  let ?k = "\<lparr>bn = 5, compressed = True, key_network = Net regtest\<rparr>"
  have t: "toWIF letter_coder ?k = CHR ''K'' # to_hex (toWIF_bytes ?k @ base58check_checksum letter_coder (toWIF_bytes ?k))"
    by (simp add: toWIF_def base58check_encode_def letter_coder_def)
  have "hex_value CHR ''K'' = None" by code_simp
  then have "\<not> isHexa (toWIF letter_coder ?k)" unfolding t by (simp add: isHexa_def)
  moreover have "networks_get default_networks (Some (NetText (toWIF letter_coder ?k))) = None"
    unfolding networks_get_def t
    by (simp only: option.case net_arg.case arg_key.simps lookup_key_def default_maps get_index live_values regtest_values testnet_values)
       (simp add: object_keys_def digit_char_def)
  ultimately show ?thesis
    using wif_roundtrip [OF curve_ok_seven letter_coder_ok, of ?k regtest "\<lambda>_. []"]
    by (simp add: seven_def wif_network_def)
qed

end
