(* ===== verification/EcdsaSig.thy ===== *)
theory EcdsaSig
  imports Keys DerSignature
begin

text \<open>
  \<^verbatim>\<open>lib/crypto/ecdsa.js\<close>.  The loops over candidate nonces need not end, so they are partial
  functions: \<open>None\<close> is a call that does not return.
\<close>

record 'p ecdsa =
  hashbuf :: "bytes option"
  ec_endian :: "endian option"
  ec_privkey :: "privkey option"
  ec_pubkey :: "'p pubkey option"
  ec_sig :: "signature option"
  ec_k :: "nat option"
  verified :: "bool option"

definition new_ecdsa :: "'p ecdsa" where
  "new_ecdsa = \<lparr>hashbuf = None, ec_endian = None, ec_privkey = None, ec_pubkey = None, ec_sig = None,
     ec_k = None, verified = None\<rparr>"

definition js_either :: "'a option \<Rightarrow> 'a option \<Rightarrow> 'a option" where
  "js_either a b = (case a of None \<Rightarrow> b | Some x \<Rightarrow> Some x)"

lemma js_either_simps [simp]: "js_either a None = a" "js_either (Some x) b = Some x" "js_either None b = b"
  by (simp_all add: js_either_def split: option.split)

text \<open>\<^verbatim>\<open>false\<close> for \<^verbatim>\<open>verified\<close> does not replace what is there.\<close>

definition ecdsa_set :: "'p curve \<Rightarrow> net_state \<Rightarrow> 'p ecdsa \<Rightarrow> 'p ecdsa \<Rightarrow> 'p ecdsa res" where
  "ecdsa_set C N ob this =
     (let priv = js_either (ec_privkey ob) (ec_privkey this)
      in rmap (\<lambda>pub. \<lparr>hashbuf = js_either (hashbuf ob) (hashbuf this),
            ec_endian = js_either (ec_endian ob) (ec_endian this), ec_privkey = priv, ec_pubkey = pub,
            ec_sig = js_either (ec_sig ob) (ec_sig this), ec_k = js_either (ec_k ob) (ec_k this),
            verified = (if verified ob = Some True then Some True else verified this)\<rparr>)
          (case (ec_pubkey ob, priv) of
             (Some p, _) \<Rightarrow> Inr (Some p)
           | (None, Some k) \<Rightarrow> rmap Some (toPublicKey C N k)
           | (None, None) \<Rightarrow> Inr (ec_pubkey this)))"

section \<open>Nonces\<close>

partial_function (option) randomK :: "'p curve \<Rightarrow> (nat \<Rightarrow> bytes) \<Rightarrow> nat \<Rightarrow> nat option" where
  "randomK C random i =
     (let k = be_val (random i) in if k < getN C \<and> 0 < k then Some k else randomK C random (Suc i))"

declare randomK.simps [code]

text \<open>The bytes of the digest in the order the nonce is derived from.\<close>

definition oriented :: "endian option \<Rightarrow> bytes \<Rightarrow> bytes" where
  "oriented e b = (if e = Some Little then rev b else b)"

definition k_first :: "coder \<Rightarrow> bytes \<Rightarrow> bytes \<Rightarrow> bytes \<times> bytes" where
  "k_first K x h =
     (let v = replicate 32 1;
          k = replicate 32 0;
          k = sha256hmac K (v @ [0] @ x @ h) k;
          v = sha256hmac K v k;
          k = sha256hmac K (v @ [1] @ x @ h) k;
          v = sha256hmac K v k;
          v = sha256hmac K v k
      in (k, v))"

definition k_next :: "coder \<Rightarrow> bytes \<times> bytes \<Rightarrow> bytes \<times> bytes" where
  "k_next K kv =
     (let (k, v) = kv;
          k = sha256hmac K (v @ [0]) k;
          v = sha256hmac K v k;
          v = sha256hmac K v k
      in (k, v))"

definition in_range :: "'p curve \<Rightarrow> nat \<Rightarrow> bool" where
  "in_range C T \<longleftrightarrow> T < getN C \<and> 0 < T"

partial_function (option) k_loop :: "coder \<Rightarrow> 'p curve \<Rightarrow> nat \<Rightarrow> nat \<Rightarrow> bytes \<times> bytes \<Rightarrow> nat option" where
  "k_loop K C badrs i kv =
     (let T = be_val (snd kv)
      in if i < badrs \<or> \<not> in_range C T then k_loop K C badrs (Suc i) (k_next K kv) else Some T)"

declare k_loop.simps [code]

definition deterministicK :: "coder \<Rightarrow> 'p curve \<Rightarrow> privkey \<Rightarrow> bytes \<Rightarrow> endian option \<Rightarrow> nat \<Rightarrow> nat option" where
  "deterministicK K C key h e badrs =
     k_loop K C badrs 0 (k_first K (toBuffer (Some 32) Big (bn key)) (oriented e h))"

section \<open>Signing\<close>

definition bn_invm :: "nat \<Rightarrow> nat \<Rightarrow> nat res" where
  "bn_invm a n = (case invm (int a) (int n) of None \<Rightarrow> Inl (PlainError ''Assertion failed'') | Some i \<Rightarrow> Inr (nat i))"

definition toLowS :: "'p curve \<Rightarrow> nat \<Rightarrow> nat" where
  "toLowS C s = (if half_order < s then getN C - s else s)"

text \<open>One round of the loop; the point at infinity has no x coordinate.\<close>

definition signature_with :: "'p curve \<Rightarrow> nat \<Rightarrow> nat \<Rightarrow> nat \<Rightarrow> (nat \<times> nat) res" where
  "signature_with C d e k =
     (let Q = pmul C (getG C) k
      in if isInfinity C Q then Inl TypeErr
         else rmap (\<lambda>kinv. let r = getX C Q mod getN C in (r, (kinv * (e + d * r)) mod getN C))
                (bn_invm k (getN C)))"

text \<open>A nonce that is set beforehand is used once; later ones come from the derivation.\<close>

partial_function (option) findSignature ::
  "coder \<Rightarrow> 'p curve \<Rightarrow> privkey \<Rightarrow> bytes \<Rightarrow> endian option \<Rightarrow> nat \<Rightarrow> nat \<Rightarrow> nat option \<Rightarrow> nat \<Rightarrow> (nat \<times> nat) res option" where
  "findSignature K C key h en d e k0 badrs =
     Option.bind (case k0 of Some k \<Rightarrow> Some k | None \<Rightarrow> deterministicK K C key h en badrs) (\<lambda>k.
       case signature_with C d e k of
         Inl err \<Rightarrow> Some (Inl err)
       | Inr (r, s) \<Rightarrow>
           if r = 0 \<or> s = 0 then findSignature K C key h en d e None (Suc badrs)
           else Some (Inr (r, toLowS C s)))"

declare findSignature.simps [code]

definition digest_number :: "endian option \<Rightarrow> bytes \<Rightarrow> nat" where
  "digest_number e b = fromBuffer (case e of Some x \<Rightarrow> x | None \<Rightarrow> Big) b"

definition ecdsa_sign_obj :: "coder \<Rightarrow> 'p curve \<Rightarrow> 'p ecdsa \<Rightarrow> 'p ecdsa res option" where
  "ecdsa_sign_obj K C this =
     (case (ec_privkey this, hashbuf this) of
        (None, _) \<Rightarrow> Some (Inl TypeErr)
      | (Some key, None) \<Rightarrow> Some (Inl (InvalidState ''invalid parameters''))
      | (Some key, Some h) \<Rightarrow>
          if length h \<noteq> 32 then Some (Inl (InvalidState ''hashbuf must be a 32 byte buffer''))
          else map_option (\<lambda>r. rbind r (\<lambda>(r, s).
                 case ec_pubkey this of None \<Rightarrow> Inl TypeErr
                 | Some p \<Rightarrow> Inr (this\<lparr>ec_sig := Some ((mk_sig r s)\<lparr>sig_compressed := Some (pub_compressed p)\<rparr>)\<rparr>)))
                 (findSignature K C key h (ec_endian this) (bn key) (digest_number (ec_endian this) h) (ec_k this) 0))"

definition ecdsa_sign :: "coder \<Rightarrow> 'p curve \<Rightarrow> net_state \<Rightarrow> bytes \<Rightarrow> privkey \<Rightarrow> endian option \<Rightarrow> signature res option" where
  "ecdsa_sign K C N h key en =
     (case ecdsa_set C N (new_ecdsa\<lparr>hashbuf := Some h, ec_endian := en, ec_privkey := Some key\<rparr>) new_ecdsa of
        Inl err \<Rightarrow> Some (Inl err)
      | Inr ob \<Rightarrow> map_option (rmap (\<lambda>ob. the (ec_sig ob))) (ecdsa_sign_obj K C ob))"

definition signRandomK :: "coder \<Rightarrow> 'p curve \<Rightarrow> (nat \<Rightarrow> bytes) \<Rightarrow> 'p ecdsa \<Rightarrow> 'p ecdsa res option" where
  "signRandomK K C random this =
     Option.bind (randomK C random 0) (\<lambda>k. ecdsa_sign_obj K C (this\<lparr>ec_k := Some k\<rparr>))"

section \<open>Verifying\<close>

text \<open>\<open>None\<close> is \<^verbatim>\<open>false\<close>: there is no error.\<close>

definition ecdsa_sigError :: "'p curve \<Rightarrow> 'p ecdsa \<Rightarrow> string option res" where
  "ecdsa_sigError C this =
     (case hashbuf this of None \<Rightarrow> Inr (Some ''hashbuf must be a 32 byte buffer'')
      | Some h \<Rightarrow>
        if length h \<noteq> 32 then Inr (Some ''hashbuf must be a 32 byte buffer'')
        else case ec_sig this of None \<Rightarrow> Inl TypeErr
        | Some sig \<Rightarrow>
          case (sig_r sig, sig_s sig) of
            (Some r, Some s) \<Rightarrow>
              if \<not> (0 < r \<and> r < getN C) \<or> \<not> (0 < s \<and> s < getN C) then Inr (Some ''r and s not in range'')
              else (let e = digest_number (ec_endian this) h; n = getN C
                in rbind (bn_invm s n) (\<lambda>sinv.
                   let u1 = (sinv * e) mod n; u2 = (sinv * r) mod n
                   in case ec_pubkey this of None \<Rightarrow> Inl TypeErr
                      | Some pub \<Rightarrow>
                        let p = padd C (pmul C (getG C) u1) (pmul C (point pub) u2)
                        in if isInfinity C p then Inr (Some ''p is infinity'')
                           else if getX C p mod n \<noteq> r then Inr (Some ''Invalid signature'')
                           else Inr None))
          | (Some r, None) \<Rightarrow> if \<not> (0 < r \<and> r < getN C) then Inr (Some ''r and s not in range'') else Inl TypeErr
          | (None, _) \<Rightarrow> Inl TypeErr)"

definition ecdsa_verify_obj :: "'p curve \<Rightarrow> 'p ecdsa \<Rightarrow> 'p ecdsa res" where
  "ecdsa_verify_obj C this = rmap (\<lambda>err. this\<lparr>verified := Some (err = None)\<rparr>) (ecdsa_sigError C this)"

definition ecdsa_verify :: "'p curve \<Rightarrow> net_state \<Rightarrow> bytes \<Rightarrow> signature \<Rightarrow> 'p pubkey \<Rightarrow> endian option \<Rightarrow> bool res" where
  "ecdsa_verify C N h sig pub en =
     rbind (ecdsa_set C N (new_ecdsa\<lparr>hashbuf := Some h, ec_endian := en, ec_sig := Some sig, ec_pubkey := Some pub\<rparr>)
              new_ecdsa) (\<lambda>ob.
     rmap (\<lambda>ob. verified ob = Some True) (ecdsa_verify_obj C ob))"

section \<open>Recovering the public key\<close>

definition ecdsa_toPublicKey :: "'p curve \<Rightarrow> net_state \<Rightarrow> bytes \<Rightarrow> nat \<Rightarrow> nat \<Rightarrow> int option \<Rightarrow> bool option \<Rightarrow> 'p pubkey res" where
  "ecdsa_toPublicKey C N h r s i cflag =
     rbind (checkArgument (i \<in> {Some 0, Some 1, Some 2, Some 3}) ''i must be equal to 0, 1, 2, or 3'') (\<lambda>_.
     let e = be_val h; isYOdd = odd (the i); isSecondKey = (2 \<le> the i); n = getN C;
         x = (if isSecondKey then r + n else r)
     in rbind (fromX C isYOdd x) (\<lambda>R.
        if \<not> isInfinity C (pmul C R n) then Inl (PlainError ''nR is not a valid curve point'')
        else let eNeg = nat ((- int e) mod int n)
             in rbind (bn_invm r n) (\<lambda>rInv.
                fromPoint C N (pmul C (padd C (pmul C R s) (pmul C (getG C) eNeg)) rInv) cflag)))"

text \<open>The first of the four factors whose key is the signer's; a factor that throws is passed over.\<close>

fun calci_loop ::
  "'p curve \<Rightarrow> net_state \<Rightarrow> bytes \<Rightarrow> nat \<Rightarrow> nat \<Rightarrow> bool option \<Rightarrow> 'p pubkey option \<Rightarrow> int list \<Rightarrow> int res" where
  "calci_loop C N h r s cflag pub [] = Inl (PlainError ''Unable to find valid recovery factor'')"
| "calci_loop C N h r s cflag pub (i # is) =
     (case ecdsa_toPublicKey C N h r s (Some i) cflag of
        Inl _ \<Rightarrow> calci_loop C N h r s cflag pub is
      | Inr Q \<Rightarrow> (case pub of None \<Rightarrow> Inl TypeErr
          | Some p \<Rightarrow> if point Q = point p then Inr i else calci_loop C N h r s cflag pub is))"

definition calci :: "'p curve \<Rightarrow> net_state \<Rightarrow> 'p ecdsa \<Rightarrow> 'p ecdsa res" where
  "calci C N this =
     (case ec_sig this of None \<Rightarrow> Inl TypeErr
      | Some sig \<Rightarrow>
        (case (sig_r sig, sig_s sig, hashbuf this) of
           (Some r, Some s, Some h) \<Rightarrow>
             rmap (\<lambda>i. this\<lparr>ec_sig := Some (sig\<lparr>sig_i := Some i,
                        sig_compressed := map_option pub_compressed (ec_pubkey this)\<rparr>)\<rparr>)
               (calci_loop C N h r s (sig_compressed sig) (ec_pubkey this) [0, 1, 2, 3])
         | _ \<Rightarrow> Inl (PlainError ''Unable to find valid recovery factor'')))"

section \<open>The nonce sequence\<close>

primrec k_state :: "coder \<Rightarrow> bytes \<times> bytes \<Rightarrow> nat \<Rightarrow> bytes \<times> bytes" where
  "k_state K kv 0 = kv"
| "k_state K kv (Suc i) = k_next K (k_state K kv i)"

definition nonce :: "coder \<Rightarrow> privkey \<Rightarrow> bytes \<Rightarrow> endian option \<Rightarrow> nat \<Rightarrow> nat" where
  "nonce K key h e i =
     be_val (snd (k_state K (k_first K (toBuffer (Some 32) Big (bn key)) (oriented e h)) i))"

lemma k_loop_finds:
  "in_range C (be_val (snd (k_state K kv i))) \<Longrightarrow> badrs \<le> i \<Longrightarrow> m \<le> i \<Longrightarrow>
     \<exists>j. badrs \<le> j \<and> m \<le> j \<and> j \<le> i \<and> in_range C (be_val (snd (k_state K kv j))) \<and>
       k_loop K C badrs m (k_state K kv m) = Some (be_val (snd (k_state K kv j)))"
proof (induction "i - m" arbitrary: m)
  case 0
  then have "m = i" by simp
  then show ?case using 0 by (intro exI [of _ i]) (simp add: k_loop.simps [of K C badrs i])
next
  case (Suc n)
  show ?case
  proof (cases "m < badrs \<or> \<not> in_range C (be_val (snd (k_state K kv m)))")
    case True
    then have m: "k_loop K C badrs m (k_state K kv m) = k_loop K C badrs (Suc m) (k_state K kv (Suc m))"
      by (subst k_loop.simps) simp
    have "n = i - Suc m" "Suc m \<le> i" using Suc.hyps(2) by simp_all
    from Suc.hyps(1) [OF this(1) Suc.prems(1,2) this(2)] show ?thesis unfolding m by auto
  next
    case False
    then show ?thesis using Suc.prems by (intro exI [of _ m]) (simp add: k_loop.simps [of K C badrs m])
  qed
qed

lemma deterministicK_finds:
  assumes "in_range C (nonce K key h e i)" and "badrs \<le> i"
  shows "\<exists>j. badrs \<le> j \<and> j \<le> i \<and> in_range C (nonce K key h e j) \<and>
    deterministicK K C key h e badrs = Some (nonce K key h e j)"
  using k_loop_finds [of C K "k_first K (toBuffer (Some 32) Big (bn key)) (oriented e h)" i badrs 0] assms
  by (simp add: nonce_def deterministicK_def)

section \<open>The equation of a signature\<close>

lemma bn_invm_inverse:
  assumes "curve_ok C" and "0 < a" and "a < getN C"
  obtains i where "bn_invm a (getN C) = Inr i" and "(a * i) mod getN C = 1" and "i < getN C"
proof -
  have c: "coprime (int a) (int (getN C))" using curve_okD(3) [OF assms] by simp
  have n: "1 < getN C" using curve_okD(1) [OF assms(1)] .
  obtain j where j: "invm (int a) (int (getN C)) = Some j" "0 \<le> j" "j < int (getN C)"
      "(int a * j) mod int (getN C) = 1 mod int (getN C)"
    using invm_inverts [of "int (getN C)" "int a"] c n by auto
  have "int ((a * nat j) mod getN C) = (int a * j) mod int (getN C)" using j(2) by (simp add: zmod_int)
  also have "\<dots> = 1" using j(4) n by simp
  finally have "(a * nat j) mod getN C = 1" by simp
  then show thesis using that [of "nat j"] j by (simp add: bn_invm_def)
qed

text \<open>What signing with one nonce gives.\<close>

definition usable :: "'p curve \<Rightarrow> nat \<Rightarrow> nat \<Rightarrow> nat \<Rightarrow> bool" where
  "usable C d e k \<longleftrightarrow> in_range C k \<and> (\<exists>r s. signature_with C d e k = Inr (r, s) \<and> r \<noteq> 0 \<and> s \<noteq> 0)"

lemma signature_with_spec:
  assumes "curve_ok C" and "in_range C k"
  obtains r s where "signature_with C d e k = Inr (r, s)" and "r = getX C (gmul C k) mod getN C"
    and "s < getN C" and "(k * s) mod getN C = (e + d * r) mod getN C"
proof -
  let ?n = "getN C" and ?r = "getX C (gmul C k) mod getN C"
  have k: "0 < k" "k < ?n" using assms(2) by (simp_all add: in_range_def)
  obtain i where i: "bn_invm k ?n = Inr i" "(k * i) mod ?n = 1" using bn_invm_inverse [OF assms(1) k] by metis
  let ?s = "(i * (e + d * ?r)) mod ?n"
  have "\<not> isInfinity C (gmul C k)" using curve_okD(4) [OF assms(1)] k by (auto dest: dvd_imp_le)
  then have "signature_with C d e k = Inr (?r, ?s)"
    using i(1) by (simp add: signature_with_def gmul_def Let_def)
  moreover have "(k * ?s) mod ?n = ((k * i) mod ?n * (e + d * ?r)) mod ?n"
    by (simp add: mod_simps mult.assoc)
  then have "(k * ?s) mod ?n = (e + d * ?r) mod ?n" using i(2) by simp
  moreover have "?s < ?n" using k by simp
  ultimately show thesis using that by blast
qed

lemma findSignature_finds:
  assumes C: "curve_ok C" and us: "usable C d e (nonce K key h en i)"
  shows "badrs \<le> i \<Longrightarrow> \<exists>k r s. usable C d e k \<and> signature_with C d e k = Inr (r, s) \<and>
     findSignature K C key h en d e None badrs = Some (Inr (r, toLowS C s))"
proof (induction "i - badrs" arbitrary: badrs rule: less_induct)
  case less
  have "in_range C (nonce K key h en i)" using us by (simp add: usable_def)
  from deterministicK_finds [OF this less.prems] obtain j where
    j: "badrs \<le> j" "j \<le> i" "in_range C (nonce K key h en j)"
       "deterministicK K C key h en badrs = Some (nonce K key h en j)" by blast
  obtain r s where rs: "signature_with C d e (nonce K key h en j) = Inr (r, s)"
    using signature_with_spec [OF C j(3)] by metis
  show ?case
  proof (cases "r = 0 \<or> s = 0")
    case True
    then have "findSignature K C key h en d e None badrs = findSignature K C key h en d e None (Suc badrs)"
      using j(4) rs by (subst findSignature.simps) simp
    moreover have "j \<noteq> i" using True rs us by (auto simp: usable_def)
    then have "i - Suc badrs < i - badrs" "Suc badrs \<le> i" using j(1,2) by simp_all
    note less.hyps [OF this]
    ultimately show ?thesis by simp
  next
    case False
    then have "usable C d e (nonce K key h en j)" using rs j(3) by (simp add: usable_def)
    moreover have "findSignature K C key h en d e None badrs = Some (Inr (r, toLowS C s))"
      using False j(4) rs by (subst findSignature.simps) simp
    ultimately show ?thesis using rs by blast
  qed
qed

lemma mod_cancel_inverse:
  fixes w s t k n :: nat
  assumes "(w * s) mod n = 1" and "(k * s) mod n = t mod n" and "k < n"
  shows "(w * t) mod n = k"
proof -
  have "(w * t) mod n = (w * ((k * s) mod n)) mod n" using assms(2) by (simp add: mod_simps)
  also have "\<dots> = (w * s) mod n * k mod n" by (simp add: mod_simps algebra_simps)
  finally show ?thesis using assms(1,3) by simp
qed

lemma dvd_sum_small:
  fixes a k n :: nat
  assumes "n dvd a + k" and "a < n" and "0 < k" and "k < n"
  shows "a + k = n"
proof -
  obtain q where q: "a + k = n * q" using assms(1) by (rule dvdE)
  have "q \<noteq> 0" using q assms(3) by (intro notI) simp
  moreover have "\<not> 2 \<le> q"
  proof
    assume "2 \<le> q"
    then have "n * 2 \<le> a + k" unfolding q by (rule mult_le_mono2)
    then show False using assms(2,4) by linarith
  qed
  ultimately have "q = 1" by linarith
  then show ?thesis using q by simp
qed

lemma mod_cancel_opposite:
  fixes w s t k n :: nat
  assumes "(w * (n - s)) mod n = 1" and "(k * s) mod n = t mod n" and "0 < k" "k < n" "s < n"
  shows "(w * t) mod n = n - k"
proof -
  have "(w * t) mod n = (w * ((k * s) mod n)) mod n" using assms(2) by (simp add: mod_simps)
  also have "\<dots> = (w * (k * s)) mod n" by (simp add: mod_simps)
  finally have t: "(w * t) mod n = (w * (k * s)) mod n" .
  have "w * (k * s) + k * (w * (n - s)) = k * w * (s + (n - s))" by (simp only: distrib_left mult.assoc mult.left_commute)
  then have "w * (k * s) + k * (w * (n - s)) = k * w * n" using assms(5) by simp
  then have "(w * (k * s) + k * (w * (n - s))) mod n = 0" by simp
  then have "((w * t) mod n + k * ((w * (n - s)) mod n)) mod n = 0"
    unfolding t by (metis mod_add_eq mod_mult_right_eq mod_mod_trivial)
  then have z: "((w * t) mod n + k) mod n = 0" using assms(1) by simp
  have "(w * t) mod n < n" using assms(4) by simp
  then have "(w * t) mod n + k = n"
    using dvd_sum_small [of n "(w * t) mod n" k] z assms(3,4) by (simp add: dvd_eq_mod_eq_0)
  then show ?thesis by linarith
qed

lemma nonzero_multiple: "0 < k \<Longrightarrow> k < n \<Longrightarrow> \<not> n dvd (k :: nat)"
  by (auto dest: dvd_imp_le)

lemma sigError_none:
  assumes C: "curve_ok C" and k: "in_range C k" and sig: "signature_with C (bn key) e k = Inr (r, s)"
    and nz: "r \<noteq> 0" "s \<noteq> 0" and h: "length h = 32" and e: "e = digest_number en h"
    and P: "point pub = gmul C (bn key)"
    and ob: "hashbuf ob = Some h" "ec_endian ob = en" "ec_pubkey ob = Some pub"
      "ec_sig ob = Some sg" "sig_r sg = Some r" "sig_s sg = Some (toLowS C s)"
  shows "ecdsa_sigError C ob = Inr None"
proof -
  let ?n = "getN C" and ?d = "bn key" and ?s = "toLowS C s"
  have k': "0 < k" "k < ?n" using k by (simp_all add: in_range_def)
  obtain r' s' where "signature_with C ?d e k = Inr (r', s')" "r' = getX C (gmul C k) mod ?n" "s' < ?n"
      "(k * s') mod ?n = (e + ?d * r') mod ?n"
    using signature_with_spec [OF C k] by blast
  then have rs: "r = getX C (gmul C k) mod ?n" "s < ?n" "(k * s) mod ?n = (e + ?d * r) mod ?n" using sig by simp_all
  have s: "0 < ?s" "?s < ?n" using rs(2) nz by (auto simp: toLowS_def)
  have r: "0 < r" "r < ?n" using nz rs(1) k' by simp_all
  obtain w where w: "bn_invm ?s ?n = Inr w" "(?s * w) mod ?n = 1" using bn_invm_inverse [OF C s] by metis
  define t where "t = (w * (e + ?d * r)) mod ?n"
  have t: "t = k \<or> t = ?n - k"
  proof (cases "half_order < s")
    case True
    then have "(w * (?n - s)) mod ?n = 1" using w(2) by (simp add: toLowS_def mult.commute)
    then show ?thesis using mod_cancel_opposite [OF _ rs(3) k' rs(2)] by (simp add: t_def)
  next
    case False
    then have "(w * s) mod ?n = 1" using w(2) by (simp add: toLowS_def mult.commute)
    then show ?thesis using mod_cancel_inverse [OF _ rs(3) k'(2)] by (simp add: t_def)
  qed
  then have t': "0 < t" "t < ?n" "getX C (gmul C t) = getX C (gmul C k)"
    using k' curve_okD(12) [OF C k'] by auto
  have "padd C (gmul C ((w * e) mod ?n)) (pmul C (point pub) ((w * r) mod ?n)) =
      gmul C ((w * e) mod ?n + ?d * ((w * r) mod ?n))"
    by (simp add: P curve_okD(5,6) [OF C])
  also have "\<dots> = gmul C (((w * e) mod ?n + ?d * ((w * r) mod ?n)) mod ?n)" using curve_okD(7) [OF C] by simp
  also have "((w * e) mod ?n + ?d * ((w * r) mod ?n)) mod ?n = t"
  proof -
    have "(?d * ((w * r) mod ?n)) mod ?n = (w * (?d * r)) mod ?n" by (simp add: mod_simps algebra_simps)
    then show ?thesis 
      unfolding t_def distrib_left
      using mod_add_cong [of "(w * e) mod ?n" ?n "w * e" "?d * ((w * r) mod ?n)" "w * (?d * r)"] by simp
  qed
  finally have p: "padd C (gmul C ((w * e) mod ?n)) (pmul C (point pub) ((w * r) mod ?n)) = gmul C t" .
  have "\<not> isInfinity C (gmul C t)" using curve_okD(4) [OF C] nonzero_multiple [OF t'(1,2)] by simp
  then show ?thesis
    using ob h s r w(1) p t'(3) rs(1) e by (simp add: ecdsa_sigError_def gmul_def Let_def)
qed

lemma toPublicKey_ok:
  assumes "curve_ok C" and "in_range C (bn key)"
  obtains pub where "toPublicKey C N key = Inr pub" and "point pub = gmul C (bn key)"
    and "pub_compressed pub = compressed key" and "on_curve C (point pub)"
proof -
  have oc: "on_curve C (gmul C (bn key))" using assms on_curve_gmul [of C "bn key"] by (auto simp: in_range_def)
  define pub where "pub = \<lparr>point = gmul C (bn key), pub_compressed = compressed key,
      pub_network = (case networks_get N (Some (NetRef (key_network key))) of None \<Rightarrow> default_net | Some n \<Rightarrow> n)\<rparr>"
  have "toPublicKey C N key = Inr pub"
    using validate_on_curve [OF assms(1) oc]
    by (simp add: toPublicKey_def fromPrivateKey_def PublicKey_def classifyArgs_def transformPrivateKey_def
        make_pubkey_def extra_compressed_def extra_network_def pub_def gmul_def Let_def)
  then show thesis using that [of pub] oc by (simp add: pub_def)
qed

lemma ecdsa_signs:
  assumes "curve_ok C" and "in_range C (bn key)" and "length h = 32"
    and "usable C (bn key) (digest_number en h) (nonce K key h en i)"
  shows "\<exists>r s pub. ecdsa_sign K C N h key en = Some (Inr ((mk_sig r s)\<lparr>sig_compressed := Some (pub_compressed pub)\<rparr>)) \<and>
    toPublicKey C N key = Inr pub \<and> r < getN C \<and> s < getN C \<and>
    (\<forall>sg q. sig_r sg = Some r \<and> sig_s sg = Some s \<and> point q = gmul C (bn key) \<longrightarrow> ecdsa_verify C N h sg q en = Inr True) \<and>
    (getN C = 2 * half_order + 1 \<longrightarrow> s \<le> half_order \<and> 0 < s)"
proof -
  let ?d = "bn key" and ?e = "digest_number en h"
  obtain k r s where us: "usable C ?d ?e k" "signature_with C ?d ?e k = Inr (r, s)"
      "findSignature K C key h en ?d ?e None 0 = Some (Inr (r, toLowS C s))"
    using findSignature_finds [OF assms(1,4), of 0] by blast
  have k: "in_range C k" and nz: "r \<noteq> 0" "s \<noteq> 0" using us by (auto simp: usable_def)
  have s: "s < getN C" and r: "r < getN C"
    using signature_with_spec [OF assms(1) k, of ?d ?e] us(2) curve_okD(1) [OF assms(1)]
    by (metis Pair_inject sum.inject(2), metis Pair_inject mod_less_divisor order_less_trans sum.inject(2) zero_less_one)
  obtain pub where pub: "toPublicKey C N key = Inr pub"
    using toPublicKey_ok [OF assms(1,2)] by metis
  define sig where "sig = (mk_sig r (toLowS C s))\<lparr>sig_compressed := Some (pub_compressed pub)\<rparr>"
  have "ecdsa_sign K C N h key en = Some (Inr sig)"
    using pub us(3) assms(3)
    by (simp add: ecdsa_sign_def ecdsa_set_def new_ecdsa_def ecdsa_sign_obj_def sig_def Let_def)
  moreover have "ecdsa_verify C N h sg q en = Inr True"
    if sg: "sig_r sg = Some r" "sig_s sg = Some (toLowS C s)" and q: "point q = gmul C ?d" for sg q
  proof -
    define ob where "ob = new_ecdsa\<lparr>hashbuf := Some h, ec_endian := en, ec_sig := Some sg, ec_pubkey := Some q\<rparr>"
    have "ecdsa_sigError C ob = Inr None"
      by (rule sigError_none [OF assms(1) k us(2) nz assms(3) refl q, where sg = sg])
         (simp_all add: ob_def new_ecdsa_def sg)
    moreover have "ecdsa_set C N ob new_ecdsa = Inr ob"
      by (cases en) (simp_all add: ob_def ecdsa_set_def new_ecdsa_def Let_def)
    ultimately show ?thesis by (simp add: ecdsa_verify_def ecdsa_verify_obj_def flip: ob_def)
  qed
  moreover have "toLowS C s < getN C" using s nz by (auto simp: toLowS_def)
  moreover have "getN C = 2 * half_order + 1 \<longrightarrow> toLowS C s \<le> half_order \<and> 0 < toLowS C s"
    using nz s by (auto simp: toLowS_def)
  ultimately show ?thesis using pub r unfolding sig_def by blast
qed

text \<open>C30. ECDSA.  When some nonce of the derivation is usable, signing a digest returns: the signature
  found verifies under the signer's public key, and on a curve of the order of secp256k1 its \<open>s\<close> is low.\<close>

theorem ecdsa_sign_verifies:
  assumes "curve_ok C" and "in_range C (bn key)" and "length h = 32"
    and "usable C (bn key) (digest_number en h) (nonce K key h en i)"
  shows "\<exists>sig pub. ecdsa_sign K C N h key en = Some (Inr sig) \<and> toPublicKey C N key = Inr pub \<and>
    ecdsa_verify C N h sig pub en = Inr True \<and> (getN C = 2 * half_order + 1 \<longrightarrow> hasLowS sig = Inr True)"
proof -
  obtain r s pub where e: "ecdsa_sign K C N h key en = Some (Inr ((mk_sig r s)\<lparr>sig_compressed := Some (pub_compressed pub)\<rparr>))"
      "toPublicKey C N key = Inr pub" "getN C = 2 * half_order + 1 \<longrightarrow> s \<le> half_order \<and> 0 < s"
      "\<And>sg q. sig_r sg = Some r \<Longrightarrow> sig_s sg = Some s \<Longrightarrow> point q = gmul C (bn key) \<Longrightarrow> ecdsa_verify C N h sg q en = Inr True"
    using ecdsa_signs [OF assms, of N] by blast
  have "point pub = gmul C (bn key)" using toPublicKey_ok [OF assms(1,2)] e(2) by (metis sum.inject(2))
  with e show ?thesis by (auto simp: mk_sig_def hasLowS_def)
qed

text \<open>A coder whose hash is constant, for the witnesses.\<close>

definition constant_coder :: coder where
  "constant_coder = letter_coder\<lparr>sha256 := (\<lambda>b. be_bytes 32 3)\<rparr>"

lemma constant_hmac: "sha256hmac constant_coder d k = be_bytes 32 3"
  by (simp add: sha256hmac_def hmac_def hmac_pads_def constant_coder_def Let_def)

lemma constant_nonce: "nonce constant_coder key h en 0 = 3"
  by (simp add: nonce_def k_first_def constant_hmac be_val_be_bytes Let_def)

theorem ecdsa_sign_verifies_witness:
  "\<exists>sig pub. ecdsa_sign constant_coder seven default_networks (replicate 32 0)
      \<lparr>bn = 2, compressed = True, key_network = Net livenet\<rparr> None = Some (Inr sig) \<and>
    toPublicKey seven default_networks \<lparr>bn = 2, compressed = True, key_network = Net livenet\<rparr> = Inr pub \<and>
    ecdsa_verify seven default_networks (replicate 32 0) sig pub None = Inr True"
proof -
  let ?key = "\<lparr>bn = 2, compressed = True, key_network = Net livenet\<rparr>" and ?h = "replicate 32 0 :: bytes"
  have e: "digest_number None ?h = 0" by (simp add: digest_number_def be_val_def)
  have inv: "bn_invm 3 7 = Inr 5" by code_simp
  have "usable seven (bn ?key) (digest_number None ?h) (nonce constant_coder ?key ?h None 0)"
    unfolding e constant_nonce
    by (simp add: usable_def in_range_def signature_with_def inv seven_def)
  from ecdsa_sign_verifies [OF curve_ok_seven _ _ this, of default_networks] show ?thesis
    by (auto simp: in_range_def seven_def)
qed

section \<open>Recovery finds the signer\<close>

lemma calci_loop_finds:
  assumes "ecdsa_toPublicKey C N h r s (Some i) cflag = Inr Q" and "point Q = point p" and "i \<in> set is"
  shows "\<exists>j Q'. calci_loop C N h r s cflag (Some p) is = Inr j \<and> j \<in> set is \<and>
    ecdsa_toPublicKey C N h r s (Some j) cflag = Inr Q' \<and> point Q' = point p"
  using assms(3)
proof (induction "is")
  case (Cons j js)
  show ?case
  proof (cases "\<exists>Q'. ecdsa_toPublicKey C N h r s (Some j) cflag = Inr Q' \<and> point Q' = point p")
    case True
    then show ?thesis by auto
  next
    case False
    then have "i \<in> set js" using Cons.prems assms(1,2) by auto
    moreover have "calci_loop C N h r s cflag (Some p) (j # js) = calci_loop C N h r s cflag (Some p) js"
      using False by (auto split: sum.split)
    ultimately show ?thesis using Cons.IH by auto
  qed
qed simp

lemma opposite_product:
  fixes k s n :: nat
  assumes "k \<le> n" and "s \<le> n"
  shows "((n - k) * (n - s)) mod n = (k * s) mod n"
proof -
  define a where "a = n - k"
  define b where "b = n - s"
  have ab: "n = k + a" "n = s + b" using assms by (simp_all add: a_def b_def)
  have "a * b + k * n = a * b + k * (s + b)" using ab(2) by simp
  also have "\<dots> = (k + a) * b + k * s" by (simp add: algebra_simps)
  finally have "a * b + k * n = n * b + k * s" using ab(1) by simp
  moreover have "n - k = a" "n - s = b" by (simp_all add: a_def b_def)
  ultimately show ?thesis by (metis mod_mult_self1 mod_mult_self4)
qed

text \<open>The nonce that belongs to the low \<open>s\<close>: the one that was used, or its opposite.\<close>

lemma low_nonce:
  assumes C: "curve_ok C" and k: "in_range C k" and sig: "signature_with C d e k = Inr (r, s)" and nz: "s \<noteq> 0"
  obtains k' where "in_range C k'" and "r = getX C (gmul C k') mod getN C"
    and "(k' * toLowS C s) mod getN C = (e + d * r) mod getN C"
proof -
  let ?n = "getN C"
  have k': "0 < k" "k < ?n" using k by (simp_all add: in_range_def)
  obtain r' s' where "signature_with C d e k = Inr (r', s')" "r' = getX C (gmul C k) mod ?n" "s' < ?n"
      "(k * s') mod ?n = (e + d * r') mod ?n"
    using signature_with_spec [OF C k] by blast
  then have rs: "r = getX C (gmul C k) mod ?n" "s < ?n" "(k * s) mod ?n = (e + d * r) mod ?n" using sig by simp_all
  show thesis
  proof (cases "half_order < s")
    case True
    have "((?n - k) * (?n - s)) mod ?n = (k * s) mod ?n" by (rule opposite_product) (use k' rs in simp_all)
    then show thesis
      using that [of "?n - k"] True rs k' curve_okD(12) [OF C k'] by (simp add: in_range_def toLowS_def)
  next
    case False
    then show thesis using that [of k] rs k by (simp add: toLowS_def)
  qed
qed

text \<open>Key recovery.  For a signature that signing produced, the search over the four factors ends with one
  whose recovered public key is the signer's.\<close>

theorem calci_recovers:
  assumes C: "curve_ok C" and x: "\<And>a. \<not> getN C dvd a \<Longrightarrow> getX C (gmul C a) < 2 * getN C"
    and d: "in_range C (bn key)" and k: "in_range C k"
    and sig: "signature_with C (bn key) (be_val h) k = Inr (r, s)" "r \<noteq> 0" "s \<noteq> 0"
    and pub: "toPublicKey C N key = Inr pub"
    and ob: "hashbuf ob = Some h" "ec_pubkey ob = Some pub" "ec_sig ob = Some (mk_sig r (toLowS C s))"
  shows "\<exists>ob' sig' i Q. calci C N ob = Inr ob' \<and> ec_sig ob' = Some sig' \<and> sig_i sig' = Some i \<and>
    ecdsa_toPublicKey C N h r (toLowS C s) (Some i) None = Inr Q \<and> point Q = point pub"
proof -
  let ?n = "getN C" and ?d = "bn key" and ?e = "be_val h" and ?s = "toLowS C s"
  have P: "point pub = gmul C ?d" using toPublicKey_ok [OF C d, of N] pub by auto
  obtain k' where k': "in_range C k'" and r: "r = getX C (gmul C k') mod ?n"
      and ks: "(k' * ?s) mod ?n = (?e + ?d * r) mod ?n"
    using low_nonce [OF C k sig(1,3)] .
  have rng: "0 < k'" "k' < ?n" using k' by (simp_all add: in_range_def)
  let ?R = "gmul C k'"
  have nd: "\<not> ?n dvd k'" using nonzero_multiple [OF rng] .
  have oc: "on_curve C ?R" using on_curve_gmul [OF C rng] .
  define i where "i = (if getX C ?R < ?n then 0 else 2 :: int) + (if odd (getY C ?R) then 1 else 0)"
  have i: "i \<in> {0, 1, 2, 3}" "odd i = odd (getY C ?R)" "2 \<le> i \<longleftrightarrow> ?n \<le> getX C ?R" by (auto simp: i_def)
  have "getX C ?R = (if 2 \<le> i then r + ?n else r)"
    unfolding i(3) r using x [OF nd] by (auto simp: le_mod_geq)
  then have fx: "fromX C (odd i) (if 2 \<le> i then r + ?n else r) = Inr ?R"
    using on_curveD(3) [OF C oc] validate_on_curve [OF C oc] i(2) by (simp add: fromX_def)
  have "0 < r" "r < ?n" using sig(2) r rng by simp_all
  then obtain w where w: "bn_invm r ?n = Inr w" "(r * w) mod ?n = 1" using bn_invm_inverse [OF C] by metis
  define eNeg where "eNeg = nat ((- int ?e) mod int ?n)"
  have eNeg: "(?e + eNeg) mod ?n = 0"
  proof -
    have "int ((?e + eNeg) mod ?n) = (int ?e + (- int ?e) mod int ?n) mod int ?n"
      using rng by (simp add: eNeg_def zmod_int)
    then show ?thesis by (simp add: mod_simps)
  qed
  have "pmul C (padd C (pmul C ?R ?s) (pmul C (getG C) eNeg)) w = gmul C ((k' * ?s + eNeg) * w)"
    using curve_okD(5,6) [OF C] by (simp flip: gmul_def)
  also have "((k' * ?s + eNeg) * w) mod ?n = ?d mod ?n"
  proof -
    have "(k' * ?s + eNeg) mod ?n = (?e + ?d * r + eNeg) mod ?n" using ks by (rule mod_add_cong) simp
    also have "\<dots> = ((?e + eNeg) mod ?n + ?d * r) mod ?n" by (simp add: mod_simps algebra_simps)
    finally have "(k' * ?s + eNeg) mod ?n = (?d * r) mod ?n" using eNeg by simp
    then have "((k' * ?s + eNeg) * w) mod ?n = (?d * r * w) mod ?n" by (rule mod_mult_cong) simp
    also have "\<dots> = (?d * ((r * w) mod ?n)) mod ?n" by (simp add: mod_simps mult.assoc)
    finally show ?thesis using w(2) by simp
  qed
  then have "gmul C ((k' * ?s + eNeg) * w) = gmul C ?d" using curve_okD(7) [OF C] by metis
  finally have Q: "pmul C (padd C (pmul C ?R ?s) (pmul C (getG C) eNeg)) w = gmul C ?d" .
  have inf: "isInfinity C (pmul C ?R ?n)" using curve_okD(4,6) [OF C] by simp
  have oc': "on_curve C (gmul C ?d)" using on_curve_gmul [OF C] d by (simp add: in_range_def)
  obtain Q' where "ecdsa_toPublicKey C N h r ?s (Some i) None = Inr Q'" "point Q' = gmul C ?d"
    using i(1) fx inf w(1) Q validate_on_curve [OF C oc']
    by (simp add: ecdsa_toPublicKey_def checkArgument_def fromPoint_def PublicKey_def classifyArgs_def make_pubkey_def
        eNeg_def Let_def)
  then obtain j Q'' where "calci_loop C N h r ?s None (Some pub) [0, 1, 2, 3] = Inr j"
      "ecdsa_toPublicKey C N h r ?s (Some j) None = Inr Q''" "point Q'' = point pub"
    using calci_loop_finds [of C N h r ?s i None Q' pub "[0, 1, 2, 3]"] i(1) P by auto
  then show ?thesis using ob by (simp add: calci_def mk_sig_def)
qed

theorem calci_recovers_witness:
  "\<exists>ob' sig' i Q. calci seven default_networks
      (new_ecdsa\<lparr>hashbuf := Some [], ec_pubkey := Some \<lparr>point = 2, pub_compressed = True, pub_network = Net livenet\<rparr>,
         ec_sig := Some (mk_sig 3 2)\<rparr>) = Inr ob' \<and> ec_sig ob' = Some sig' \<and> sig_i sig' = Some i \<and>
    ecdsa_toPublicKey seven default_networks [] 3 2 (Some i) None = Inr Q \<and> point Q = 2"
proof -
  let ?key = "\<lparr>bn = 2, compressed = True, key_network = Net livenet\<rparr>"
    and ?pub = "\<lparr>point = 2, pub_compressed = True, pub_network = Net livenet\<rparr>"
  have inv: "bn_invm 3 7 = Inr 5" by code_simp
  have sig: "signature_with seven (bn ?key) (be_val []) 3 = Inr (3, 2)"
    by (simp add: signature_with_def inv seven_def be_val_def)
  have pub: "toPublicKey seven default_networks ?key = Inr ?pub"
    using validate_on_curve [OF curve_ok_seven on_curve_gmul [OF curve_ok_seven, of 2]]
    by (simp add: toPublicKey_def fromPrivateKey_def PublicKey_def classifyArgs_def transformPrivateKey_def
        make_pubkey_def extra_compressed_def extra_network_def networks_get_def default_list seven_def gmul_def Let_def)
  have low: "toLowS seven 2 = 2" by (simp add: toLowS_def half_order_def)
  show ?thesis
    using calci_recovers [OF curve_ok_seven _ _ _ sig _ _ pub,
        of "new_ecdsa\<lparr>hashbuf := Some [], ec_pubkey := Some ?pub, ec_sig := Some (mk_sig 3 2)\<rparr>"]
    by (simp add: low in_range_def new_ecdsa_def) (simp add: seven_def gmul_def)
qed

end
