(* ===== verification/SchnorrSig.thy ===== *)
theory SchnorrSig
  imports EcdsaSig
begin

text \<open>\<^verbatim>\<open>lib/crypto/schnorr.js\<close>.\<close>

text \<open>At least 32 bytes: \<^verbatim>\<open>getrBuffer\<close> and \<^verbatim>\<open>getsBuffer\<close>.\<close>

definition getrBuffer :: "nat \<Rightarrow> bytes" where
  "getrBuffer r =
     (if length (toBuffer None Big r) < 32 then toBuffer (Some 32) Big r else toBuffer None Big r)"

definition getsBuffer :: "nat \<Rightarrow> bytes" where
  "getsBuffer s =
     (if length (toBuffer None Big s) < 32 then toBuffer (Some 32) Big s else toBuffer None Big s)"

record 'p schnorr =
  sn_hashbuf :: "bytes option"
  sn_endian :: "endian option"
  sn_privkey :: "privkey option"
  sn_pubkey :: "'p pubkey option"
  sn_sig :: "signature option"
  sn_verified :: "bool option"

definition new_schnorr :: "'p schnorr" where
  "new_schnorr = \<lparr>sn_hashbuf = None, sn_endian = None, sn_privkey = None, sn_pubkey = None, sn_sig = None,
     sn_verified = None\<rparr>"

definition schnorr_set :: "'p curve \<Rightarrow> net_state \<Rightarrow> 'p schnorr \<Rightarrow> 'p schnorr \<Rightarrow> 'p schnorr res" where
  "schnorr_set C N ob this =
     (let priv = js_either (sn_privkey ob) (sn_privkey this)
      in rmap (\<lambda>pub. \<lparr>sn_hashbuf = js_either (sn_hashbuf ob) (sn_hashbuf this),
            sn_endian = js_either (sn_endian ob) (sn_endian this), sn_privkey = priv, sn_pubkey = pub,
            sn_sig = js_either (sn_sig ob) (sn_sig this),
            sn_verified = (if sn_verified ob = Some True then Some True else sn_verified this)\<rparr>)
          (case (sn_pubkey ob, priv) of
             (Some p, _) \<Rightarrow> Inr (Some p)
           | (None, Some k) \<Rightarrow> rmap Some (toPublicKey C N k)
           | (None, None) \<Rightarrow> Inr (sn_pubkey this)))"

section \<open>The nonce\<close>

text \<open>The 16 characters \<^verbatim>\<open>Schnorr+SHA256\<close> and two spaces.\<close>

definition algo16 :: bytes where
  "algo16 = text_bytes ''Schnorr+SHA256  ''"

text \<open>The state of the loop is the pair of \<^verbatim>\<open>V\<close> and \<^verbatim>\<open>K\<close>.\<close>

partial_function (option) rfc6979_loop :: "coder \<Rightarrow> 'p curve \<Rightarrow> bytes \<Rightarrow> bytes \<Rightarrow> nat res option" where
  "rfc6979_loop H C V K =
     (let V = sha256hmac H V K;
          k = be_val V
      in if length V < 32 then Some (Inl (InvalidState ''V length should be >= 32''))
         else if 0 < k \<and> k < getN C then Some (Inr k)
         else let K = sha256hmac H (V @ [0]) K
              in rfc6979_loop H C (hmac (sha256 H) (512 div 8) V K) K)"

declare rfc6979_loop.simps [code]

definition rfc6979_start :: "coder \<Rightarrow> bytes \<Rightarrow> bytes \<Rightarrow> bytes \<times> bytes" where
  "rfc6979_start H privkey msgbuf =
     (let V = replicate 32 1;
          K = replicate 32 0;
          blob = privkey @ msgbuf @ [] @ algo16;
          K = sha256hmac H (V @ [0] @ blob) K;
          V = sha256hmac H V K;
          K = sha256hmac H (V @ [1] @ blob) K;
          V = sha256hmac H V K
      in (V, K))"

definition nonceFunctionRFC6979 :: "coder \<Rightarrow> 'p curve \<Rightarrow> bytes \<Rightarrow> bytes \<Rightarrow> nat res option" where
  "nonceFunctionRFC6979 H C privkey msgbuf = (let (V, K) = rfc6979_start H privkey msgbuf in rfc6979_loop H C V K)"

section \<open>Signing\<close>

definition schnorr_challenge :: "coder \<Rightarrow> 'p curve \<Rightarrow> nat \<Rightarrow> 'p \<Rightarrow> bytes \<Rightarrow> nat" where
  "schnorr_challenge H C r P msg = be_val (sha256 H (getrBuffer r @ pointToCompressed C P @ msg))"

definition schnorr_findSignature :: "coder \<Rightarrow> 'p curve \<Rightarrow> nat \<Rightarrow> nat \<Rightarrow> (nat \<times> nat) res option" where
  "schnorr_findSignature H C d e =
     (if d = 0 \<or> getN C \<le> d then Some (Inl (InvalidState ''privkey out of field of curve''))
      else map_option (rmap (\<lambda>k.
          let P = pmul C (getG C) d;
              R = pmul C (getG C) k;
              k' = (if hasSquare C R then k else getN C - k);
              r = getX C R;
              e0 = schnorr_challenge H C r P (toBuffer (Some 32) Big e)
          in (r, (e0 * d + k') mod getN C)))
        (nonceFunctionRFC6979 H C (toBuffer (Some 32) Big d) (toBuffer (Some 32) Big e)))"

definition schnorr_sign_obj :: "coder \<Rightarrow> 'p curve \<Rightarrow> 'p schnorr \<Rightarrow> 'p schnorr res option" where
  "schnorr_sign_obj H C this =
     (case (sn_privkey this, sn_hashbuf this) of
        (None, _) \<Rightarrow> Some (Inl TypeErr)
      | (Some key, None) \<Rightarrow> Some (Inl (InvalidState ''invalid parameters''))
      | (Some key, Some h) \<Rightarrow>
          if length h \<noteq> 32 then Some (Inl (InvalidState ''hashbuf must be a 32 byte buffer''))
          else map_option (\<lambda>x. rbind x (\<lambda>(r, s).
                 case sn_pubkey this of None \<Rightarrow> Inl TypeErr
                 | Some p \<Rightarrow> Inr (this\<lparr>sn_sig := Some ((mk_sig r s)\<lparr>sig_compressed := Some (pub_compressed p),
                                    sig_isSchnorr := True\<rparr>)\<rparr>)))
                 (schnorr_findSignature H C (bn key) (digest_number (sn_endian this) h)))"

definition schnorr_sign :: "coder \<Rightarrow> 'p curve \<Rightarrow> net_state \<Rightarrow> bytes \<Rightarrow> privkey \<Rightarrow> endian option \<Rightarrow> signature res option" where
  "schnorr_sign H C N h key en =
     (case schnorr_set C N (new_schnorr\<lparr>sn_hashbuf := Some h, sn_endian := en, sn_privkey := Some key\<rparr>) new_schnorr of
        Inl err \<Rightarrow> Some (Inl err)
      | Inr ob \<Rightarrow> map_option (rmap (\<lambda>ob. the (sn_sig ob))) (schnorr_sign_obj H C ob))"

section \<open>Verifying\<close>

text \<open>Whether there is an error: \<^verbatim>\<open>false\<close> or a value that counts as true.\<close>

definition schnorr_sigError :: "coder \<Rightarrow> 'p curve \<Rightarrow> 'p schnorr \<Rightarrow> bool res" where
  "schnorr_sigError H C this =
     (case sn_hashbuf this of None \<Rightarrow> Inr True
      | Some h \<Rightarrow>
        if length h \<noteq> 32 then Inr True
        else case sn_sig this of None \<Rightarrow> Inl TypeErr
        | Some sig \<Rightarrow>
          case (sig_r sig, sig_s sig, sn_pubkey this) of
            (Some r, Some s, pub) \<Rightarrow>
              if length (getrBuffer r) + length (getsBuffer s) \<notin> {64, 65} then Inr True
              else (case pub of None \<Rightarrow> Inl TypeErr
                | Some pub \<Rightarrow>
                  let hashbuf = oriented (sn_endian this) h;
                      P = point pub; n = getN C
                  in if isInfinity C P then Inr True
                     else if field_prime \<le> r \<or> n \<le> s then Inr True
                     else let e = schnorr_challenge H C r P hashbuf mod n;
                              sG = pmul C (getG C) s;
                              eP = pmul C P (n - e);
                              R = padd C sG eP
                          in Inr (isInfinity C R \<or> \<not> hasSquare C R \<or> getX C R \<noteq> r))
          | _ \<Rightarrow> Inl TypeErr)"

definition schnorr_verify_obj :: "coder \<Rightarrow> 'p curve \<Rightarrow> 'p schnorr \<Rightarrow> 'p schnorr res" where
  "schnorr_verify_obj H C this = rmap (\<lambda>err. this\<lparr>sn_verified := Some (\<not> err)\<rparr>) (schnorr_sigError H C this)"

definition schnorr_verify :: "coder \<Rightarrow> 'p curve \<Rightarrow> net_state \<Rightarrow> bytes \<Rightarrow> signature \<Rightarrow> 'p pubkey \<Rightarrow> endian option \<Rightarrow> bool res" where
  "schnorr_verify H C N h sig pub en =
     rbind (schnorr_set C N (new_schnorr\<lparr>sn_hashbuf := Some h, sn_endian := en, sn_sig := Some sig,
              sn_pubkey := Some pub\<rparr>) new_schnorr) (\<lambda>ob.
     rmap (\<lambda>ob. sn_verified ob = Some True) (schnorr_verify_obj H C ob))"

section \<open>A signature verifies\<close>

lemma length_getrBuffer: "n < 256 ^ 32 \<Longrightarrow> length (getrBuffer n) = 32" "n < 256 ^ 32 \<Longrightarrow> length (getsBuffer n) = 32"
proof -
  assume n: "n < 256 ^ 32"
  have "length (toBuffer None Big n) \<le> 32"
    using length_le_min_bound [OF n] by (simp add: toBuffer_def Let_def)
  moreover have "length (toBuffer (Some 32) Big n) = 32" using n by (simp add: toBuffer_fixed)
  ultimately show "length (getrBuffer n) = 32" "length (getsBuffer n) = 32"
    by (simp_all add: getrBuffer_def getsBuffer_def)
qed

text \<open>The candidates of the loop.\<close>

primrec rfc6979_state :: "coder \<Rightarrow> bytes \<times> bytes \<Rightarrow> nat \<Rightarrow> bytes \<times> bytes" where
  "rfc6979_state H VK 0 = VK"
| "rfc6979_state H VK (Suc i) =
     (let (V, K) = rfc6979_state H VK i; V = sha256hmac H V K; K = sha256hmac H (V @ [0]) K
      in (sha256hmac H V K, K))"

definition schnorr_candidate :: "coder \<Rightarrow> nat \<Rightarrow> nat \<Rightarrow> nat \<Rightarrow> nat" where
  "schnorr_candidate H d e i =
     (let (V, K) = rfc6979_state H (rfc6979_start H (toBuffer (Some 32) Big d) (toBuffer (Some 32) Big e)) i
      in be_val (sha256hmac H V K))"

lemma length_sha256hmac: "coder_ok H \<Longrightarrow> length (sha256hmac H d k) = 32"
  by (simp add: sha256hmac_def hmac_def hmac_pads_def coder_ok_def Let_def)

lemma rfc6979_loop_finds:
  assumes H: "coder_ok H"
    and i: "in_range C (case rfc6979_state H VK i of (V, K) \<Rightarrow> be_val (sha256hmac H V K))"
  shows "m \<le> i \<Longrightarrow> \<exists>k. in_range C k \<and> (case rfc6979_state H VK m of (V, K) \<Rightarrow> rfc6979_loop H C V K) = Some (Inr k)"
proof (induction "i - m" arbitrary: m)
  case 0
  obtain V K where VK: "rfc6979_state H VK m = (V, K)" by fastforce
  have "m = i" using 0 by simp
  then have "in_range C (be_val (sha256hmac H V K))" using i VK by simp
  moreover from this have "rfc6979_loop H C V K = Some (Inr (be_val (sha256hmac H V K)))"
    using length_sha256hmac [OF H] by (subst rfc6979_loop.simps) (auto simp: in_range_def Let_def)
  ultimately show ?case using VK by auto
next
  case (Suc n)
  obtain V K where VK: "rfc6979_state H VK m = (V, K)" by fastforce
  show ?case
  proof (cases "in_range C (be_val (sha256hmac H V K))")
    case True
    then have "rfc6979_loop H C V K = Some (Inr (be_val (sha256hmac H V K)))"
      using length_sha256hmac [OF H] by (subst rfc6979_loop.simps) (auto simp: in_range_def Let_def)
    then show ?thesis using VK True by auto
  next
    case False
    have "rfc6979_loop H C V K = (case rfc6979_state H VK (Suc m) of (V, K) \<Rightarrow> rfc6979_loop H C V K)"
      using False VK length_sha256hmac [OF H]
      by (subst rfc6979_loop.simps) (auto simp: in_range_def Let_def sha256hmac_def)
    moreover have "n = i - Suc m" "Suc m \<le> i" using Suc.hyps(2) by simp_all
    ultimately show ?thesis using Suc.hyps(1) [of "Suc m"] VK by simp
  qed
qed

lemma schnorr_sigError_none:
  assumes C: "curve_ok C" and k: "in_range C k" and d: "in_range C (bn key)" and h: "length h = 32"
    and P: "point pub = gmul C (bn key)"
    and k': "k' = (if hasSquare C (gmul C k) then k else getN C - k)"
    and r: "r = getX C (gmul C k)"
    and s: "s = (schnorr_challenge H C r (gmul C (bn key)) (oriented en h) * bn key + k') mod getN C"
    and ob: "sn_hashbuf ob = Some h" "sn_endian ob = en" "sn_pubkey ob = Some pub"
      "sn_sig ob = Some sg" "sig_r sg = Some r" "sig_s sg = Some s"
  shows "schnorr_sigError H C ob = Inr False"
proof -
  let ?n = "getN C" and ?d = "bn key"
  have rng: "0 < k" "k < ?n" "0 < ?d" "?d < ?n" using k d by (simp_all add: in_range_def)
  have k1: "0 < k'" "k' < ?n" "getX C (gmul C k') = r"
    using rng curve_okD(12) [OF C rng(1,2)] by (simp_all add: k' r)
  have sq: "hasSquare C (gmul C k')"
  proof -
    have inf: "\<not> isInfinity C (gmul C a)" if "0 < a" "a < ?n" for a
      using curve_okD(4) [OF C] nonzero_multiple [OF that] by simp
    show ?thesis using curve_okD(13) [OF C rng(1,2)] inf [OF rng(1,2)] inf [OF k1(1,2)]
      by (auto simp: hasSquare_def k')
  qed
  have rp: "r < field_prime" using curve_okD(8) [OF C nonzero_multiple [OF rng(1,2)]] by (simp add: r)
  have sn: "s < ?n" using rng by (simp add: s)
  have "?n < 256 ^ 32" using curve_okD(2) [OF C] by simp
  then have len: "length (getrBuffer r) + length (getsBuffer s) = 64"
    using length_getrBuffer rp sn field_prime_bound by (metis numeral_Bit0 order.strict_trans)
  define e where "e = schnorr_challenge H C r (gmul C ?d) (oriented en h)"
  have "padd C (gmul C s) (pmul C (gmul C ?d) (?n - e mod ?n)) = gmul C (s + ?d * (?n - e mod ?n))"
    using curve_okD(5,6) [OF C] by simp
  also have "(s + ?d * (?n - e mod ?n)) mod ?n = k' mod ?n"
  proof -
    have "e mod ?n + (?n - e mod ?n) = ?n" using rng by simp
    then have z: "?d * (e mod ?n) + ?d * (?n - e mod ?n) = ?d * ?n" by (metis distrib_left)
    have "(s + ?d * (?n - e mod ?n)) mod ?n = (e * ?d + k' + ?d * (?n - e mod ?n)) mod ?n"
      by (simp add: s e_def mod_simps)
    also have "\<dots> = (?d * (e mod ?n) + ?d * (?n - e mod ?n) + k') mod ?n"
    proof -
      have "(e * ?d) mod ?n = (?d * (e mod ?n)) mod ?n" by (simp add: mod_simps mult.commute)
      from mod_add_cong [OF this, of "k' + ?d * (?n - e mod ?n)" "k' + ?d * (?n - e mod ?n)"] show ?thesis
        by (simp add: algebra_simps)
    qed
    also have "\<dots> = k' mod ?n" unfolding z by simp
    finally show ?thesis .
  qed
  then have "gmul C (s + ?d * (?n - e mod ?n)) = gmul C k'" using curve_okD(7) [OF C] by metis
  finally have R: "padd C (gmul C s) (pmul C (gmul C ?d) (?n - e mod ?n)) = gmul C k'" .
  have inf: "\<not> isInfinity C (gmul C k')" "\<not> isInfinity C (gmul C ?d)"
    using curve_okD(4) [OF C] nonzero_multiple k1 rng by simp_all
  show ?thesis
    using ob h len rp sn R sq k1(3) inf P
    by (simp add: schnorr_sigError_def gmul_def [symmetric] e_def Let_def)
qed

lemma be_val_bound: "be_val b < 256 ^ length b"
  using le_val_less [of "rev b"] by (simp add: be_val_def)

lemma digest_number_oriented:
  assumes "length h = 32"
  shows "toBuffer (Some 32) Big (digest_number en h) = oriented en h"
proof (cases "en = Some Little")
  case True
  have "be_val (rev h) < 256 ^ 32" using be_val_bound [of "rev h"] assms by simp
  then show ?thesis using True be_bytes_be_val [of "rev h"] assms
    by (simp add: toBuffer_fixed digest_number_def oriented_def be_val_def)
next
  case False
  then have "digest_number en h = be_val h" by (cases en; cases "the en") (auto simp: digest_number_def)
  moreover have "be_val h < 256 ^ 32" using be_val_bound [of h] assms by simp
  ultimately show ?thesis using False be_bytes_be_val [of h] assms by (simp add: toBuffer_fixed oriented_def)
qed

text \<open>C31. Schnorr.  When some nonce candidate is in range, signing a digest returns, and the signature
  verifies under the signer's public key; it serializes to 64 bytes.\<close>

theorem schnorr_sign_verifies:
  assumes "curve_ok C" and "coder_ok H" and "in_range C (bn key)" and "length h = 32"
    and "in_range C (schnorr_candidate H (bn key) (digest_number en h) i)"
  shows "\<exists>sig pub. schnorr_sign H C N h key en = Some (Inr sig) \<and> toPublicKey C N key = Inr pub \<and>
    schnorr_verify H C N h sig pub en = Inr True \<and>
    length (toSchnorr (the (sig_r sig)) (the (sig_s sig))) = 64"
proof -
  let ?d = "bn key" and ?e = "digest_number en h" and ?n = "getN C"
  have d: "?d \<noteq> 0" "?d < ?n" using assms(3) by (simp_all add: in_range_def)
  obtain k where k: "in_range C k"
      "nonceFunctionRFC6979 H C (toBuffer (Some 32) Big ?d) (toBuffer (Some 32) Big ?e) = Some (Inr k)"
    using rfc6979_loop_finds [OF assms(2) , of C "rfc6979_start H (toBuffer (Some 32) Big ?d) (toBuffer (Some 32) Big ?e)" i 0]
      assms(5) by (auto simp: nonceFunctionRFC6979_def schnorr_candidate_def Let_def split: prod.splits)
  define k' where "k' = (if hasSquare C (gmul C k) then k else ?n - k)"
  define r where "r = getX C (gmul C k)"
  have msg: "toBuffer (Some 32) Big ?e = oriented en h" using assms(4) by (rule digest_number_oriented)
  define s where "s = (schnorr_challenge H C r (gmul C ?d) (oriented en h) * ?d + k') mod ?n"
  have find: "schnorr_findSignature H C ?d ?e = Some (Inr (r, s))"
    using d k(2) msg by (simp add: schnorr_findSignature_def r_def s_def k'_def gmul_def Let_def)
  obtain pub where pub: "toPublicKey C N key = Inr pub" "point pub = gmul C ?d"
    using toPublicKey_ok [OF assms(1,3)] by metis
  define sig where "sig = (mk_sig r s)\<lparr>sig_compressed := Some (pub_compressed pub), sig_isSchnorr := True\<rparr>"
  have "schnorr_sign H C N h key en = Some (Inr sig)"
    using pub(1) find assms(4)
    by (simp add: schnorr_sign_def schnorr_set_def new_schnorr_def schnorr_sign_obj_def sig_def Let_def)
  moreover have "schnorr_verify H C N h sig pub en = Inr True"
  proof -
    define ob where "ob = new_schnorr\<lparr>sn_hashbuf := Some h, sn_endian := en, sn_sig := Some sig, sn_pubkey := Some pub\<rparr>"
    have "schnorr_sigError H C ob = Inr False"
      by (rule schnorr_sigError_none [OF assms(1) k(1) assms(3,4) pub(2) k'_def r_def s_def, where sg = sig])
         (simp_all add: ob_def new_schnorr_def sig_def mk_sig_def)
    moreover have "schnorr_set C N ob new_schnorr = Inr ob"
      by (simp add: ob_def schnorr_set_def new_schnorr_def Let_def)
    ultimately show ?thesis by (simp add: schnorr_verify_def schnorr_verify_obj_def flip: ob_def)
  qed
  moreover have "length (toSchnorr (the (sig_r sig)) (the (sig_s sig))) = 64"
  proof -
    have "r < 256 ^ 32"
      using curve_okD(8) [OF assms(1) nonzero_multiple] k(1) field_prime_bound
      by (auto simp: r_def in_range_def intro: order.strict_trans)
    moreover have "s < 256 ^ 32" using curve_okD(2) [OF assms(1)] d by (simp add: s_def order.strict_trans [OF mod_less_divisor])
    ultimately show ?thesis by (simp add: toSchnorr_def sig_def mk_sig_def toBuffer_fixed)
  qed
  ultimately show ?thesis using pub(1) by blast
qed

lemma constant_coder_ok: "coder_ok constant_coder"
  using letter_coder_ok by (simp add: coder_ok_def constant_coder_def)

theorem schnorr_sign_verifies_witness:
  "\<exists>sig pub. schnorr_sign constant_coder seven default_networks (replicate 32 0)
      \<lparr>bn = 2, compressed = True, key_network = Net livenet\<rparr> None = Some (Inr sig) \<and>
    schnorr_verify constant_coder seven default_networks (replicate 32 0) sig pub None = Inr True"
proof -
  let ?key = "\<lparr>bn = 2, compressed = True, key_network = Net livenet\<rparr>" and ?h = "replicate 32 0 :: bytes"
  have "in_range seven (schnorr_candidate constant_coder (bn ?key) (digest_number None ?h) 0)"
    by (simp add: schnorr_candidate_def rfc6979_start_def constant_hmac be_val_be_bytes in_range_def seven_def Let_def)
  from schnorr_sign_verifies [OF curve_ok_seven constant_coder_ok _ _ this, of default_networks] show ?thesis
    by (auto simp: in_range_def seven_def)
qed

end
