(* ===== verification/HDKeys.thy ===== *)
theory HDKeys
  imports SchnorrSig JsText
begin

text \<open>
  \<^verbatim>\<open>lib/hdprivatekey.js\<close>, \<^verbatim>\<open>lib/hdpublickey.js\<close> and the integers of \<^verbatim>\<open>lib/util/buffer.js\<close>: hierarchical keys,
  their derivation and their serialized form.  An index is an integer.
\<close>

record 'p hd_env =
  he_coder :: coder
  he_sha512 :: "bytes \<Rightarrow> bytes"
  he_curve :: "'p curve"
  he_nets :: net_state

definition sha512hmac :: "'p hd_env \<Rightarrow> bytes \<Rightarrow> bytes \<Rightarrow> bytes" where
  "sha512hmac E = hmac (he_sha512 E) (1024 div 8)"

section \<open>Integers in buffers\<close>

definition int_buffer :: "int \<Rightarrow> bytes" where
  "int_buffer n = be_bytes 4 (nat (to_uint32 n))"

definition integerFromBuffer :: "bytes \<Rightarrow> int" where
  "integerFromBuffer b = to_int32 (int (be_val (take 4 b)))"

definition integerAsSingleByteBuffer :: "int \<Rightarrow> bytes" where
  "integerAsSingleByteBuffer n = [word_of_int n]"

definition integerFromSingleByteBuffer :: "bytes \<Rightarrow> nat" where
  "integerFromSingleByteBuffer b = unat (hd b)"

section \<open>Paths\<close>

definition Hardened :: int where "Hardened = 0x80000000"
definition MaxIndex :: int where "MaxIndex = 2 * Hardened"

definition apostrophe :: char where "apostrophe = CHR 0x27"

definition RootElementAlias :: "string list" where
  "RootElementAlias = [''m'', ''M'', [CHR ''m'', apostrophe], [CHR ''M'', apostrophe]]"

text \<open>
  \<^verbatim>\<open>+step\<close>: a text of digits is the number it writes; \<open>coerce\<close> is the conversion of any other text, with
  \<open>None\<close> for \<^verbatim>\<open>NaN\<close>.
\<close>

definition digits_value :: "string \<Rightarrow> nat" where
  "digits_value s = fold (\<lambda>c n. 10 * n + (of_char c - 48)) s 0"

definition step_number :: "(string \<Rightarrow> int option) \<Rightarrow> string \<Rightarrow> int option" where
  "step_number coerce s = (if s \<noteq> [] \<and> list_all digit_char s then Some (int (digits_value s)) else coerce s)"

definition step_index :: "(string \<Rightarrow> int option) \<Rightarrow> string \<Rightarrow> int option" where
  "step_index coerce step =
     (let isHardened = (step \<noteq> [] \<and> last step = apostrophe);
          step = (if isHardened then butlast step else step)
      in if step = [] \<or> hd step = CHR ''-'' then None
         else map_option (\<lambda>index. if isHardened then index + Hardened else index) (step_number coerce step))"

definition getDerivationIndexes :: "(string \<Rightarrow> int option) \<Rightarrow> string \<Rightarrow> int list option" where
  "getDerivationIndexes coerce path =
     (let steps = split_on (CHR ''/'') path
      in if path \<in> set RootElementAlias then Some []
         else if hd steps \<notin> set RootElementAlias then None
         else those (map (step_index coerce) (tl steps)))"

definition isValidIndex :: "int \<Rightarrow> bool \<Rightarrow> bool" where
  "isValidIndex arg hardened =
     (let arg = (if arg < Hardened \<and> hardened then arg + Hardened else arg) in 0 \<le> arg \<and> arg < MaxIndex)"

definition isValidPath :: "(string \<Rightarrow> int option) \<Rightarrow> string \<Rightarrow> bool" where
  "isValidPath coerce path =
     (case getDerivationIndexes coerce path of None \<Rightarrow> False
      | Some indexes \<Rightarrow> list_all (\<lambda>i. isValidIndex i False) indexes)"

section \<open>The data of a key\<close>

record hd_buffers =
  hb_version :: bytes
  hb_depth :: bytes
  hb_parentFingerPrint :: bytes
  hb_childIndex :: bytes
  hb_chainCode :: bytes
  hb_key :: bytes
  hb_checksum :: bytes

record 'p hdpriv =
  pr_buffers :: hd_buffers
  xprivkey :: string
  pr_network :: "net_ref option"
  pr_depth :: nat
  pr_privateKey :: privkey
  pr_publicKey :: "'p pubkey"
  pr_fingerPrint :: bytes

record 'p hdpub =
  pb_buffers :: hd_buffers
  xpubkey :: string
  pb_network :: "net_ref option"
  pb_depth :: nat
  pb_publicKey :: "'p pubkey"
  pb_fingerPrint :: bytes

text \<open>A property of the object a key is built from.\<close>

datatype 'p hd_value = HNum int | HText string | HBuf bytes | HKey "'p pubkey" | HUndef

record 'p hd_object =
  ho_network :: "net_arg option"
  ho_version :: "'p hd_value"
  ho_depth :: "'p hd_value"
  ho_parentFingerPrint :: "'p hd_value"
  ho_childIndex :: "'p hd_value"
  ho_chainCode :: "'p hd_value"
  ho_key :: "'p hd_value"
  ho_checksum :: "'p hd_value"

text \<open>\<^verbatim>\<open>checkBuffer\<close>, and the checksum, which counts only when it has a length.\<close>

definition checkBuffer :: "nat \<Rightarrow> 'p hd_value \<Rightarrow> bytes res" where
  "checkBuffer n v =
     (case v of HBuf b \<Rightarrow> if length b = n then Inr b else Inl (LibError ''AssertionError'')
      | _ \<Rightarrow> Inl (LibError ''AssertionError''))"

definition check_checksum :: "'p hd_value \<Rightarrow> bytes option res" where
  "check_checksum v =
     (case v of HUndef \<Rightarrow> Inr None | HNum _ \<Rightarrow> Inr None | HKey _ \<Rightarrow> Inr None
      | HText t \<Rightarrow> if t = [] then Inr None else Inl (LibError ''AssertionError'')
      | HBuf b \<Rightarrow> if b = [] then Inr None else if length b = 4 then Inr (Some b)
                  else Inl (LibError ''AssertionError''))"

definition number_buffer :: "'p hd_value \<Rightarrow> 'p hd_value" where
  "number_buffer v = (case v of HNum n \<Rightarrow> HBuf (int_buffer n) | _ \<Rightarrow> v)"

definition depth_buffer :: "'p hd_value \<Rightarrow> 'p hd_value" where
  "depth_buffer v = (case v of HNum n \<Rightarrow> HBuf (integerAsSingleByteBuffer n) | _ \<Rightarrow> v)"

definition text_buffer :: "'p hd_value \<Rightarrow> 'p hd_value" where
  "text_buffer v = (case v of HText t \<Rightarrow> HBuf (of_hex t) | _ \<Rightarrow> v)"

text \<open>The network a version names, and the versions a network has.\<close>

definition net_of_version :: "net_state \<Rightarrow> bytes \<Rightarrow> net_ref option" where
  "net_of_version N ver =
     (let v = integerFromBuffer ver
      in if v < 0 then lookup_key N (CHR ''-'' # nat_dec (nat (- v))) else networks_get N (Some (NetNumber (nat v))))"

definition ref_version :: "(network \<Rightarrow> nat) \<Rightarrow> net_ref option \<Rightarrow> bytes res" where
  "ref_version field r =
     (case r of None \<Rightarrow> Inl TypeErr
      | Some (Inherited _) \<Rightarrow> Inl (LibError ''InvalidArgumentType'')
      | Some (Net n) \<Rightarrow> Inr (int_buffer (int (field n))))"

definition object_version :: "net_state \<Rightarrow> (network \<Rightarrow> nat) \<Rightarrow> 'p hd_object \<Rightarrow> 'p hd_value res" where
  "object_version N field arg =
     (if truthy_net (ho_network arg) then rmap HBuf (ref_version field (networks_get N (ho_network arg)))
      else Inr (ho_version arg))"

section \<open>Building a private key\<close>

text \<open>\<^verbatim>\<open>new PrivateKey(bn, network)\<close> for a big number.\<close>

definition priv_of_BN :: "'p curve \<Rightarrow> net_state \<Rightarrow> nat \<Rightarrow> net_arg option \<Rightarrow> privkey res" where
  "priv_of_BN C N b network =
     make_privkey C \<lparr>pi_bn = b, pi_compressed = True,
       pi_network = (if truthy_net network then networks_get N network else Some default_net)\<rparr>"

lemma PrivateKey_BN: "PrivateKey K C N random (PrBN b) network = Some (priv_of_BN C N b network)"
  by (simp add: PrivateKey_def priv_classifyArguments_def priv_of_BN_def)

definition key_fingerPrint :: "'p hd_env \<Rightarrow> 'p pubkey \<Rightarrow> bytes" where
  "key_fingerPrint E pub = take 4 (sha256ripemd160 (he_coder E) (pk_toDER (he_curve E) pub))"

definition priv_sequence :: "hd_buffers \<Rightarrow> bytes" where
  "priv_sequence b = hb_version b @ hb_depth b @ hb_parentFingerPrint b @ hb_childIndex b @ hb_chainCode b @ [0] @ hb_key b"

definition pub_sequence :: "hd_buffers \<Rightarrow> bytes" where
  "pub_sequence b = hb_version b @ hb_depth b @ hb_parentFingerPrint b @ hb_childIndex b @ hb_chainCode b @ hb_key b"

text \<open>The sizes are checked in order; \<open>k\<close> is the size of the key.\<close>

definition validateBufferArguments :: "nat \<Rightarrow> 'p hd_object \<Rightarrow> (hd_buffers \<times> bytes option) res" where
  "validateBufferArguments k arg =
     rbind (checkBuffer 4 (ho_version arg)) (\<lambda>ver.
     rbind (checkBuffer 1 (ho_depth arg)) (\<lambda>depth.
     rbind (checkBuffer 4 (ho_parentFingerPrint arg)) (\<lambda>parent.
     rbind (checkBuffer 4 (ho_childIndex arg)) (\<lambda>child.
     rbind (checkBuffer 32 (ho_chainCode arg)) (\<lambda>chain.
     rbind (checkBuffer k (ho_key arg)) (\<lambda>key.
     rmap (\<lambda>c. (\<lparr>hb_version = ver, hb_depth = depth, hb_parentFingerPrint = parent, hb_childIndex = child,
                 hb_chainCode = chain, hb_key = key, hb_checksum = []\<rparr>, c)) (check_checksum (ho_checksum arg))))))))"

text \<open>A private key's checksum is compared as UTF-8 text, a public key's as hexadecimal.\<close>

definition pr_buildFromBuffers :: "'p hd_env \<Rightarrow> 'p hd_object \<Rightarrow> 'p hdpriv res" where
  "pr_buildFromBuffers E arg =
     rbind (validateBufferArguments 32 arg) (\<lambda>(b, c).
     let sum = base58check_checksum (he_coder E) (priv_sequence b)
     in if c \<noteq> None \<and> utf8_decode (the c) \<noteq> utf8_decode sum then Inl (LibError ''InvalidB58Checksum'')
        else let b = b\<lparr>hb_checksum := (case c of None \<Rightarrow> sum | Some x \<Rightarrow> x)\<rparr>;
                 network = net_of_version (he_nets E) (hb_version b)
             in rbind (priv_of_BN (he_curve E) (he_nets E) (be_val (hb_key b)) (map_option NetRef network)) (\<lambda>key.
                rmap (\<lambda>pub. \<lparr>pr_buffers = b, xprivkey = base58check_encode (he_coder E) (priv_sequence b),
                            pr_network = network, pr_depth = integerFromSingleByteBuffer (hb_depth b),
                            pr_privateKey = key, pr_publicKey = pub, pr_fingerPrint = key_fingerPrint E pub\<rparr>)
                  (toPublicKey (he_curve E) (he_nets E) key)))"

definition pr_checksum_value :: "'p hd_value \<Rightarrow> 'p hd_value res" where
  "pr_checksum_value v =
     (case v of HNum n \<Rightarrow> Inr (if n = 0 then HUndef else HBuf (int_buffer n))
      | HText t \<Rightarrow> Inr (if t = [] then HUndef else HText t)
      | HBuf b \<Rightarrow> if b = [] then Inl (LibError ''InvalidArgumentType'') else Inr (HBuf b)
      | HKey _ \<Rightarrow> Inl (LibError ''InvalidArgumentType'')
      | HUndef \<Rightarrow> Inr HUndef)"

definition pr_key_value :: "'p hd_value \<Rightarrow> 'p hd_value" where
  "pr_key_value v = (case v of HText t \<Rightarrow> if isHexa t then HBuf (of_hex t) else v | _ \<Rightarrow> v)"

definition pr_buildFromObject :: "'p hd_env \<Rightarrow> 'p hd_object \<Rightarrow> 'p hdpriv res" where
  "pr_buildFromObject E arg =
     rbind (object_version (he_nets E) net_xprivkey arg) (\<lambda>ver.
     rbind (pr_checksum_value (ho_checksum arg)) (\<lambda>checksum.
       pr_buildFromBuffers E (arg\<lparr>ho_version := ver, ho_depth := depth_buffer (ho_depth arg),
         ho_parentFingerPrint := number_buffer (ho_parentFingerPrint arg),
         ho_childIndex := number_buffer (ho_childIndex arg), ho_chainCode := text_buffer (ho_chainCode arg),
         ho_key := pr_key_value (ho_key arg), ho_checksum := checksum\<rparr>)))"

text \<open>The slices of a decoded text: the one after byte 78 is empty.\<close>

definition serialized_object :: "nat \<Rightarrow> bytes \<Rightarrow> 'p hd_object" where
  "serialized_object keyStart decoded =
     \<lparr>ho_network = None, ho_version = HBuf (slice decoded 0 4), ho_depth = HBuf (slice decoded 4 5),
      ho_parentFingerPrint = HBuf (slice decoded 5 9), ho_childIndex = HBuf (slice decoded 9 13),
      ho_chainCode = HBuf (slice decoded 13 45), ho_key = HBuf (slice decoded keyStart 78),
      ho_checksum = HBuf (slice decoded 78 82)\<rparr>"

definition pr_buildFromSerialized :: "'p hd_env \<Rightarrow> string \<Rightarrow> 'p hdpriv res" where
  "pr_buildFromSerialized E arg =
     rbind (base58check_decode (he_coder E) arg) (\<lambda>decoded. pr_buildFromBuffers E (serialized_object 46 decoded))"

section \<open>Serialized keys\<close>

definition ALPHABET :: string where
  "ALPHABET = ''123456789ABCDEFGHJKLMNPQRSTUVWXYZabcdefghijkmnopqrstuvwxyz''"

definition validCharacters :: "string \<Rightarrow> bool" where
  "validCharacters chars = list_all (\<lambda>c. c \<in> set ALPHABET) chars"

definition validateNetwork :: "net_state \<Rightarrow> (network \<Rightarrow> nat) \<Rightarrow> bytes \<Rightarrow> net_arg option \<Rightarrow> js_error option" where
  "validateNetwork N field data networkArg =
     (case networks_get N networkArg of
        None \<Rightarrow> Some (LibError ''InvalidNetworkArgument'')
      | Some (Inherited _) \<Rightarrow> Some (LibError ''InvalidNetwork'')
      | Some (Net n) \<Rightarrow>
          if integerFromBuffer (slice data 0 4) \<noteq> int (field n) then Some (LibError ''InvalidNetwork'') else None)"

text \<open>Of a text; the outer \<open>None\<close> of the network is \<^verbatim>\<open>undefined\<close>, which skips the check.\<close>

definition serialized_error ::
  "'p hd_env \<Rightarrow> (network \<Rightarrow> nat) \<Rightarrow> string \<Rightarrow> net_arg option \<Rightarrow> js_error option \<times> bytes" where
  "serialized_error E field data network =
     (if \<not> validCharacters data then (Some (LibError ''InvalidB58Char''), [])
      else case base58check_decode (he_coder E) data of
        Inl _ \<Rightarrow> (Some (LibError ''InvalidB58Checksum''), [])
      | Inr d \<Rightarrow>
          if length d \<noteq> 78 then (Some (LibError ''InvalidLength''), d)
          else (case network of None \<Rightarrow> None | Some a \<Rightarrow> validateNetwork (he_nets E) field d (Some a), d))"

definition pr_getSerializedError :: "'p hd_env \<Rightarrow> string \<Rightarrow> net_arg option \<Rightarrow> js_error option" where
  "pr_getSerializedError E data network = fst (serialized_error E net_xprivkey data network)"

definition pr_isValidSerialized :: "'p hd_env \<Rightarrow> string \<Rightarrow> net_arg option \<Rightarrow> bool" where
  "pr_isValidSerialized E data network = (pr_getSerializedError E data network = None)"

text \<open>A text that is a private key of livenet or testnet is not a public key.\<close>

definition pb_getSerializedError :: "'p hd_env \<Rightarrow> string \<Rightarrow> net_arg option \<Rightarrow> js_error option" where
  "pb_getSerializedError E data network =
     (case serialized_error E net_xpubkey data network of
        (Some err, _) \<Rightarrow> Some err
      | (None, d) \<Rightarrow>
          let ver = integerFromBuffer (slice d 0 4)
          in if ver = int (net_xprivkey livenet) \<or> ver = int (net_xprivkey testnet)
             then Some (LibError ''ArgumentIsPrivateExtended'') else None)"

definition pb_isValidSerialized :: "'p hd_env \<Rightarrow> string \<Rightarrow> net_arg option \<Rightarrow> bool" where
  "pb_isValidSerialized E data network = (pb_getSerializedError E data network = None)"

section \<open>Constructors of private keys\<close>

text \<open>\<open>parse\<close> reads a JSON text as an object, \<open>None\<close> when it is not one.\<close>

datatype 'p hd_data = HdText string | HdBuffer bytes | HdObject "'p hd_object" | HdPriv "'p hdpriv" | HdPub "'p hdpub"

definition hd_fields :: "net_arg option \<Rightarrow> int \<Rightarrow> 'p hd_value \<Rightarrow> int \<Rightarrow> bytes \<Rightarrow> 'p hd_value \<Rightarrow> 'p hd_object" where
  "hd_fields network depth parent child chain key =
     \<lparr>ho_network = network, ho_version = HUndef, ho_depth = HNum depth, ho_parentFingerPrint = parent,
      ho_childIndex = HNum child, ho_chainCode = HBuf chain, ho_key = key, ho_checksum = HUndef\<rparr>"

definition hd_fromSeed :: "'p hd_env \<Rightarrow> string + bytes \<Rightarrow> net_arg option \<Rightarrow> 'p hdpriv res" where
  "hd_fromSeed E hexa network =
     (case (case hexa of Inl t \<Rightarrow> if isHexa t then Some (of_hex t) else None | Inr b \<Rightarrow> Some b) of
        None \<Rightarrow> Inl (LibError ''InvalidEntropyArgument'')
      | Some b \<Rightarrow>
          if length b < 16 then Inl (LibError ''NotEnoughEntropy'')
          else if 64 < length b then Inl (LibError ''TooMuchEntropy'')
          else let hash = sha512hmac E b (text_bytes ''Bitcoin seed'');
                   net = (case networks_get (he_nets E) network of None \<Rightarrow> default_net | Some n \<Rightarrow> n)
               in pr_buildFromObject E (hd_fields (Some (NetRef net)) 0 (HNum 0) 0 (slice hash 32 64) (HBuf (slice hash 0 32))))"

text \<open>The text must not name a network; that and no argument at all ask for a random key.\<close>

definition HDPrivateKey :: "'p hd_env \<Rightarrow> (string \<Rightarrow> 'p hd_object option) \<Rightarrow> bytes \<Rightarrow> 'p hd_data option \<Rightarrow> 'p hdpriv res" where
  "HDPrivateKey E parse random arg =
     (case arg of
        None \<Rightarrow> hd_fromSeed E (Inr random) None
      | Some (HdPriv k) \<Rightarrow> Inr k
      | Some (HdPub k) \<Rightarrow> Inl (LibError ''AssertionError'')
      | Some (HdText t) \<Rightarrow>
          if t = [] then hd_fromSeed E (Inr random) None
          else if networks_get (he_nets E) (Some (NetText t)) \<noteq> None then hd_fromSeed E (Inr random) (Some (NetText t))
          else if pr_isValidSerialized E t None then pr_buildFromSerialized E t
          else (case parse t of Some ob \<Rightarrow> pr_buildFromObject E ob
                | None \<Rightarrow> Inl (case pr_getSerializedError E t None of Some e \<Rightarrow> e | None \<Rightarrow> TypeErr))
      | Some (HdBuffer b) \<Rightarrow>
          let t = utf8_decode b
          in if networks_get (he_nets E) (Some (NetText t)) \<noteq> None then hd_fromSeed E (Inr random) (Some (NetText t))
             else if pr_isValidSerialized E t None then pr_buildFromSerialized E t
             else Inl (LibError (if validCharacters t then ''InvalidB58Checksum'' else ''InvalidB58Char''))
      | Some (HdObject ob) \<Rightarrow> pr_buildFromObject E ob)"

definition pr_toObject :: "'p hd_env \<Rightarrow> 'p hdpriv \<Rightarrow> 'p hd_object res" where
  "pr_toObject E k =
     (let b = pr_buffers k; v = integerFromBuffer (hb_version b)
      in case (if v < 0 then None else networks_get_by (he_nets E) net_xprivkey (nat v)) of
           None \<Rightarrow> Inl TypeErr
         | Some n \<Rightarrow> Inr \<lparr>ho_network = Some (NetText (net_name n)), ho_version = HUndef,
             ho_depth = HNum (int (integerFromSingleByteBuffer (hb_depth b))),
             ho_parentFingerPrint = HNum (integerFromBuffer (hb_parentFingerPrint b)),
             ho_childIndex = HNum (integerFromBuffer (hb_childIndex b)), ho_chainCode = HText (to_hex (hb_chainCode b)),
             ho_key = HText (priv_toString (pr_privateKey k)), ho_checksum = HNum (integerFromBuffer (hb_checksum b))\<rparr>)"

definition pr_toBuffer :: "'p hdpriv \<Rightarrow> bytes" where
  "pr_toBuffer k = text_bytes (xprivkey k)"

section \<open>Deriving private keys\<close>

definition hd_error :: "string \<Rightarrow> 'a res" where
  "hd_error name = Inl (LibError name)"

text \<open>The index that is used, and the data that is hashed with the chain code.\<close>

definition effective_index :: "int \<Rightarrow> bool \<Rightarrow> int" where
  "effective_index index hardened = (if index < Hardened \<and> hardened then index + Hardened else index)"

definition pr_derive_data :: "'p hd_env \<Rightarrow> 'p hdpriv \<Rightarrow> int \<Rightarrow> bool \<Rightarrow> bool \<Rightarrow> bytes res" where
  "pr_derive_data E k index hardened nonCompliant =
     (let indexBuffer = int_buffer index; d = bn (pr_privateKey k)
      in if hardened \<and> nonCompliant then Inr ([0] @ toBuffer None Big d @ indexBuffer)
         else if hardened
         then if length (toBuffer (Some 32) Big d) = 32 then Inr ([0] @ toBuffer (Some 32) Big d @ indexBuffer)
              else Inl (LibError ''AssertionError'')
         else Inr (pk_toDER (he_curve E) (pr_publicKey k) @ indexBuffer))"

definition pr_child_key :: "'p hd_env \<Rightarrow> 'p hdpriv \<Rightarrow> bytes \<Rightarrow> bytes" where
  "pr_child_key E k hash =
     toBuffer (Some 32) Big ((be_val (slice hash 0 32) + bn (pr_privateKey k)) mod getN (he_curve E))"

text \<open>\<^verbatim>\<open>PrivateKey.isValid\<close> of the 32 bytes.\<close>

definition child_valid :: "'p hd_env \<Rightarrow> bytes \<Rightarrow> bool" where
  "child_valid E b = isOk (rbind (priv_transformBuffer (he_nets E) b None) (make_privkey (he_curve E)))"

function pr_deriveWithNumber :: "'p hd_env \<Rightarrow> 'p hdpriv \<Rightarrow> int \<Rightarrow> bool \<Rightarrow> bool \<Rightarrow> 'p hdpriv res" where
  "pr_deriveWithNumber E k index hardened nonCompliant =
     (if \<not> isValidIndex index hardened then hd_error ''InvalidPath''
      else let hardened = (index \<ge> Hardened \<or> hardened);
               index = effective_index index hardened
           in case pr_derive_data E k index hardened nonCompliant of
                Inl e \<Rightarrow> Inl e
              | Inr data \<Rightarrow>
                  let hash = sha512hmac E data (hb_chainCode (pr_buffers k));
                      privateKey = pr_child_key E k hash
                  in if \<not> child_valid E privateKey then pr_deriveWithNumber E k (index + 1) False nonCompliant
                     else pr_buildFromObject E (hd_fields (map_option NetRef (pr_network k)) (int (pr_depth k) + 1)
                            (HBuf (pr_fingerPrint k)) index (slice hash 32 64) (HBuf privateKey)))"
  by pat_completeness auto
termination
  by (relation "measure (\<lambda>(E, k, index, hardened, nonCompliant). nat (MaxIndex - index))")
     (auto simp: isValidIndex_def effective_index_def MaxIndex_def Hardened_def)

declare pr_deriveWithNumber.simps [simp del]

definition fold_res :: "('a \<Rightarrow> 'b \<Rightarrow> 'b res) \<Rightarrow> 'a list \<Rightarrow> 'b \<Rightarrow> 'b res" where
  "fold_res f xs b = fold (\<lambda>x r. rbind r (f x)) xs (Inr b)"

definition pr_deriveFromString :: "'p hd_env \<Rightarrow> (string \<Rightarrow> int option) \<Rightarrow> 'p hdpriv \<Rightarrow> string \<Rightarrow> bool \<Rightarrow> 'p hdpriv res" where
  "pr_deriveFromString E coerce k path nonCompliant =
     (if \<not> isValidPath coerce path then hd_error ''InvalidPath''
      else case getDerivationIndexes coerce path of None \<Rightarrow> Inl TypeErr
        | Some indexes \<Rightarrow> fold_res (\<lambda>index prev. pr_deriveWithNumber E prev index False nonCompliant) indexes k)"

datatype hd_path = PathNumber int | PathText string

definition pr_deriveChild :: "'p hd_env \<Rightarrow> (string \<Rightarrow> int option) \<Rightarrow> 'p hdpriv \<Rightarrow> hd_path \<Rightarrow> bool \<Rightarrow> 'p hdpriv res" where
  "pr_deriveChild E coerce k arg hardened =
     (case arg of PathNumber i \<Rightarrow> pr_deriveWithNumber E k i hardened False
      | PathText t \<Rightarrow> pr_deriveFromString E coerce k t False)"

definition deriveNonCompliantChild :: "'p hd_env \<Rightarrow> (string \<Rightarrow> int option) \<Rightarrow> 'p hdpriv \<Rightarrow> hd_path \<Rightarrow> bool \<Rightarrow> 'p hdpriv res" where
  "deriveNonCompliantChild E coerce k arg hardened =
     (case arg of PathNumber i \<Rightarrow> pr_deriveWithNumber E k i hardened True
      | PathText t \<Rightarrow> pr_deriveFromString E coerce k t True)"

section \<open>Public keys\<close>

definition pb_buildFromBuffers :: "'p hd_env \<Rightarrow> 'p hd_object \<Rightarrow> 'p hdpub res" where
  "pb_buildFromBuffers E arg =
     rbind (validateBufferArguments 33 arg) (\<lambda>(b, c).
     let sum = base58check_checksum (he_coder E) (pub_sequence b)
     in if c \<noteq> None \<and> to_hex (the c) \<noteq> to_hex sum then Inl (LibError ''InvalidB58Checksum'')
        else let b = b\<lparr>hb_checksum := (case c of None \<Rightarrow> sum | Some x \<Rightarrow> x)\<rparr>;
                 network = net_of_version (he_nets E) (hb_version b)
             in rmap (\<lambda>pub. \<lparr>pb_buffers = b, xpubkey = base58check_encode (he_coder E) (pub_sequence b),
                            pb_network = network, pb_depth = integerFromSingleByteBuffer (hb_depth b),
                            pb_publicKey = pub, pb_fingerPrint = key_fingerPrint E pub\<rparr>)
                  (PublicKey (he_curve E) (he_nets E) (PkBuffer (hb_key b))
                     \<lparr>ex_compressed = None, ex_network = map_option NetRef network\<rparr>))"

definition pb_key_value :: "'p curve \<Rightarrow> 'p hd_value \<Rightarrow> 'p hd_value res" where
  "pb_key_value C v =
     (case v of HText t \<Rightarrow> Inr (HBuf (of_hex t)) | HBuf b \<Rightarrow> Inr v | HKey k \<Rightarrow> Inr (HBuf (pk_toDER C k)) | _ \<Rightarrow> Inl TypeErr)"

definition pb_buildFromObject :: "'p hd_env \<Rightarrow> 'p hd_object \<Rightarrow> 'p hdpub res" where
  "pb_buildFromObject E arg =
     rbind (object_version (he_nets E) net_xpubkey arg) (\<lambda>ver.
     rbind (pb_key_value (he_curve E) (ho_key arg)) (\<lambda>key.
       pb_buildFromBuffers E (arg\<lparr>ho_version := ver, ho_depth := depth_buffer (ho_depth arg),
         ho_parentFingerPrint := number_buffer (ho_parentFingerPrint arg),
         ho_childIndex := number_buffer (ho_childIndex arg), ho_chainCode := text_buffer (ho_chainCode arg),
         ho_key := key, ho_checksum := number_buffer (ho_checksum arg)\<rparr>)))"

definition pb_buildFromSerialized :: "'p hd_env \<Rightarrow> string \<Rightarrow> 'p hdpub res" where
  "pb_buildFromSerialized E arg =
     rbind (base58check_decode (he_coder E) arg) (\<lambda>decoded. pb_buildFromBuffers E (serialized_object 45 decoded))"

text \<open>The public form of a private key keeps every buffer but the version, the key and the checksum.\<close>

definition pb_buildFromPrivate :: "'p hd_env \<Rightarrow> 'p hdpriv \<Rightarrow> 'p hdpub res" where
  "pb_buildFromPrivate E k =
     (let b = pr_buffers k; C = he_curve E
      in rbind (ref_version net_xpubkey (net_of_version (he_nets E) (hb_version b))) (\<lambda>ver.
         pb_buildFromBuffers E \<lparr>ho_network = None, ho_version = HBuf ver, ho_depth = HBuf (hb_depth b),
           ho_parentFingerPrint = HBuf (hb_parentFingerPrint b), ho_childIndex = HBuf (hb_childIndex b),
           ho_chainCode = HBuf (hb_chainCode b),
           ho_key = HBuf (pointToCompressed C (pmul C (getG C) (be_val (hb_key b)))), ho_checksum = HUndef\<rparr>))"

definition HDPublicKey :: "'p hd_env \<Rightarrow> (string \<Rightarrow> 'p hd_object option) \<Rightarrow> bytes \<Rightarrow> 'p hd_data option \<Rightarrow> 'p hdpub res" where
  "HDPublicKey E parse random arg =
     (case arg of
        None \<Rightarrow> Inl (LibError ''MustSupplyArgument'')
      | Some (HdPub k) \<Rightarrow> Inr k
      | Some (HdPriv k) \<Rightarrow> pb_buildFromPrivate E k
      | Some (HdObject ob) \<Rightarrow> pb_buildFromObject E ob
      | Some (HdText t) \<Rightarrow>
          if t = [] then Inl (LibError ''MustSupplyArgument'')
          else (case pb_getSerializedError E t None of
              None \<Rightarrow> pb_buildFromSerialized E t
            | Some err \<Rightarrow>
                if err = LibError ''ArgumentIsPrivateExtended''
                then rbind (HDPrivateKey E parse random (Some (HdText t))) (pb_buildFromPrivate E)
                else Inl err)
      | Some (HdBuffer b) \<Rightarrow>
          let t = utf8_decode b
          in if pb_getSerializedError E t None = None then pb_buildFromSerialized E t
             else Inl (LibError (if validCharacters t then ''InvalidB58Checksum'' else ''InvalidB58Char'')))"

definition pb_toBuffer :: "'p hdpub \<Rightarrow> bytes" where
  "pb_toBuffer k = text_bytes (xpubkey k)"

definition hdPublicKey :: "'p hd_env \<Rightarrow> 'p hdpriv \<Rightarrow> 'p hdpub res" where
  "hdPublicKey E k = pb_buildFromPrivate E k"

definition pb_isValidIndex :: "int \<Rightarrow> bool" where
  "pb_isValidIndex arg \<longleftrightarrow> 0 \<le> arg \<and> arg < Hardened"

definition pb_isValidPath :: "(string \<Rightarrow> int option) \<Rightarrow> string \<Rightarrow> bool" where
  "pb_isValidPath coerce path =
     (case getDerivationIndexes coerce path of None \<Rightarrow> False | Some indexes \<Rightarrow> list_all pb_isValidIndex indexes)"

text \<open>A point that is not valid moves on to the next index, like a private key that is not.\<close>

function pb_deriveWithNumber :: "'p hd_env \<Rightarrow> 'p hdpub \<Rightarrow> int \<Rightarrow> bool \<Rightarrow> 'p hdpub res" where
  "pb_deriveWithNumber E k index hardened =
     (if Hardened \<le> index \<or> hardened then hd_error ''InvalidIndexCantDeriveHardened''
      else if index < 0 then hd_error ''InvalidPath''
      else let C = he_curve E;
               data = pk_toDER C (pb_publicKey k) @ int_buffer index;
               hash = sha512hmac E data (hb_chainCode (pb_buffers k));
               leftPart = be_val (slice hash 0 32)
           in case fromPoint C (he_nets E) (padd C (pmul C (getG C) leftPart) (point (pb_publicKey k))) None of
                Inl _ \<Rightarrow> pb_deriveWithNumber E k (index + 1) False
              | Inr publicKey \<Rightarrow>
                  pb_buildFromObject E (hd_fields (map_option NetRef (pb_network k)) (int (pb_depth k) + 1)
                     (HBuf (pb_fingerPrint k)) index (slice hash 32 64) (HKey publicKey)))"
  by pat_completeness auto
termination
  by (relation "measure (\<lambda>(E, k, index, hardened). nat (Hardened - index))") auto

declare pb_deriveWithNumber.simps [simp del]

definition pb_deriveFromString :: "'p hd_env \<Rightarrow> (string \<Rightarrow> int option) \<Rightarrow> 'p hdpub \<Rightarrow> string \<Rightarrow> 'p hdpub res" where
  "pb_deriveFromString E coerce k path =
     (if apostrophe \<in> set path then hd_error ''InvalidIndexCantDeriveHardened''
      else if \<not> pb_isValidPath coerce path then hd_error ''InvalidPath''
      else case getDerivationIndexes coerce path of None \<Rightarrow> Inl TypeErr
        | Some indexes \<Rightarrow> fold_res (\<lambda>index prev. pb_deriveWithNumber E prev index False) indexes k)"

definition pb_deriveChild :: "'p hd_env \<Rightarrow> (string \<Rightarrow> int option) \<Rightarrow> 'p hdpub \<Rightarrow> hd_path \<Rightarrow> bool \<Rightarrow> 'p hdpub res" where
  "pb_deriveChild E coerce k arg hardened =
     (case arg of PathNumber i \<Rightarrow> pb_deriveWithNumber E k i hardened
      | PathText t \<Rightarrow> pb_deriveFromString E coerce k t)"

end
