(* ===== verification/AppNetworks.thy ===== *)
theory AppNetworks
  imports Networks
begin

text \<open>
  \<^verbatim>\<open>src/boot/network-prefix.ts\<close>: the application adds the networks of eCash to those of the library.
  They have the versions of the library's networks, so afterwards a version or a prefix names them.
\<close>

definition xec_live_data :: network_data where
  "xec_live_data = \<lparr>nd_name = ''xec-livenet'', nd_alias = Some ''xec-mainnet'', nd_prefix = Some ''ecash'',
     nd_networkbyte = None, nd_pubkeyhash = 0, nd_privatekey = 0x80, nd_scripthash = 5,
     nd_xpubkey = 0x0488b21e, nd_xprivkey = 0x0488ade4, nd_networkMagic = Some 0xe3e1f3e8,
     nd_port = Some 8333,
     nd_dnsSeeds = Some [''seed.bitcoinabc.org'', ''seeder.fabien.cash'', ''seeder.status.cash''], nd_indexBy = None\<rparr>"

definition xec_test_data :: network_data where
  "xec_test_data = \<lparr>nd_name = ''xec-testnet'', nd_alias = None, nd_prefix = Some ''ectest'',
     nd_networkbyte = None, nd_pubkeyhash = 0x6f, nd_privatekey = 0xef, nd_scripthash = 0xc4,
     nd_xpubkey = 0x043587cf, nd_xprivkey = 0x04358394, nd_networkMagic = Some 0xecf4f3f4,
     nd_port = Some 18333,
     nd_dnsSeeds = Some [''testnet-seed.bitcoinabc.org'', ''testnet-seeder.fabien.cash'',
       ''testnet-seeder.status.cash''], nd_indexBy = None\<rparr>"

definition add_missing :: "network_data \<Rightarrow> net_state \<Rightarrow> net_state" where
  "add_missing d N = (if networks_get N (Some (NetText (nd_name d))) = None then snd (addNetwork d N) else N)"

definition boot_networks :: "net_state \<Rightarrow> net_state" where
  "boot_networks N = add_missing xec_test_data (add_missing xec_live_data N)"

definition app_networks :: net_state where
  "app_networks = boot_networks default_networks"

definition xec_livenet :: network where "xec_livenet = make_network 3 xec_live_data"
definition xec_testnet :: network where "xec_testnet = make_network 4 xec_test_data"

lemmas xec_defs = xec_livenet_def xec_testnet_def xec_live_data_def xec_test_data_def make_network_def

lemma xec_live_values: "indexed_value xec_livenet ` set (data_keys xec_live_data) =
    {Some ''xec-livenet'', Some ''xec-mainnet'', Some ''ecash'', Some (nat_dec 0), Some (nat_dec 0x80),
     Some (nat_dec 5), Some (nat_dec 0x0488b21e), Some (nat_dec 0x0488ade4), Some (nat_dec 8333), None}"
  by (simp add: xec_defs data_keys_def indexed_value_def) auto

lemma xec_test_values: "indexed_value xec_testnet ` set (data_keys xec_test_data) =
    {Some ''xec-testnet'', Some ''ectest'', Some (nat_dec 0x6f), Some (nat_dec 0xef),
     Some (nat_dec 0xc4), Some (nat_dec 0x043587cf), Some (nat_dec 0x04358394), Some (nat_dec 18333), None}"
  by (simp add: xec_defs data_keys_def indexed_value_def) auto

lemma not_yet: "lookup_key default_networks ''xec-livenet'' = None" "lookup_key default_networks ''xec-testnet'' = None"
  by (simp_all only: lookup_key_def default_maps get_index live_values regtest_values testnet_values)
     (simp_all add: object_keys_def digit_char_def)

lemma created_default: "created default_networks = 3"
  by (simp add: default_networks_def addNetwork_def no_networks_def Let_def)

lemma app_state:
  "networks app_networks = [testnet, regtest, livenet, xec_livenet, xec_testnet]"
  "networkMaps app_networks = indexNetworkBy xec_testnet (data_keys xec_test_data)
     (indexNetworkBy xec_livenet (data_keys xec_live_data) (networkMaps default_networks))"
proof -
  have l: "add_missing xec_live_data default_networks = snd (addNetwork xec_live_data default_networks)"
    using not_yet by (simp add: add_missing_def networks_get_def xec_live_data_def)
  have lv: "snd (addNetwork xec_live_data default_networks) = default_networks\<lparr>created := 4,
      networks := networks default_networks @ [xec_livenet],
      networkMaps := indexNetworkBy xec_livenet (data_keys xec_live_data) (networkMaps default_networks)\<rparr>"
    by (simp add: addNetwork_def created_default xec_livenet_def Let_def) (simp add: xec_live_data_def)
  have m: "networkMaps (snd (addNetwork xec_live_data default_networks)) =
      indexNetworkBy xec_livenet (data_keys xec_live_data) (networkMaps default_networks)" by (simp add: lv)
  have no: "map_get (networkMaps default_networks) ''xec-testnet'' = None" "''xec-testnet'' \<notin> set object_keys"
    using not_yet(2) by (auto simp: lookup_key_def split: option.splits if_splits)
  have "Some ''xec-testnet'' \<notin> indexed_value xec_livenet ` set (data_keys xec_live_data)"
    unfolding xec_live_values by (simp add: digit_char_def)
  then have "lookup_key (snd (addNetwork xec_live_data default_networks)) ''xec-testnet'' = None"
    using no by (simp add: lookup_key_def m get_index)
  then have t: "boot_networks default_networks = snd (addNetwork xec_test_data (snd (addNetwork xec_live_data default_networks)))"
    by (simp add: boot_networks_def l) (simp add: add_missing_def networks_get_def xec_test_data_def)
  have tv: "snd (addNetwork xec_test_data (snd (addNetwork xec_live_data default_networks))) =
      default_networks\<lparr>created := 5, networks := networks default_networks @ [xec_livenet, xec_testnet],
      networkMaps := indexNetworkBy xec_testnet (data_keys xec_test_data)
        (indexNetworkBy xec_livenet (data_keys xec_live_data) (networkMaps default_networks))\<rparr>"
    unfolding lv by (simp add: addNetwork_def [of xec_test_data] xec_testnet_def Let_def) (simp add: xec_test_data_def)
  show "networks app_networks = [testnet, regtest, livenet, xec_livenet, xec_testnet]"
    "networkMaps app_networks = indexNetworkBy xec_testnet (data_keys xec_test_data)
       (indexNetworkBy xec_livenet (data_keys xec_live_data) (networkMaps default_networks))"
    by (simp_all add: app_networks_def t tv default_list)
qed

lemma app_get [simp]:
  "lookup_key app_networks ''xec-livenet'' = Some (Net xec_livenet)"
  "lookup_key app_networks ''xec-testnet'' = Some (Net xec_testnet)"
  "lookup_key app_networks ''ecash'' = Some (Net xec_livenet)"
  "lookup_key app_networks ''livenet'' = Some (Net livenet)"
  "lookup_key app_networks ''undefined'' = None"
  by (simp_all only: lookup_key_def app_state get_index xec_live_values xec_test_values default_maps live_values
      regtest_values testnet_values)
     (simp_all add: object_keys_def digit_char_def)

lemma app_lookup_known: "lookup_key app_networks k = Some (Net n) \<Longrightarrow> n \<in> {testnet, regtest, livenet, xec_livenet, xec_testnet}"
  by (auto simp: lookup_key_def app_state get_index default_maps split: if_splits option.splits)

end
