(* ===== verification/HDResults.thy ===== *)
theory HDResults
  imports HDKeys AppNetworks
begin

text \<open>
  Hierarchical keys: the invariant of a private key, its public form, and the agreement of the two
  derivations.
\<close>

section \<open>Versions\<close>

lemma length_int_buffer [simp]: "length (int_buffer n) = 4"
  by (simp add: int_buffer_def)

lemma integerFromBuffer_int_buffer:
  assumes "0 \<le> n" and "n < 2 ^ 31"
  shows "integerFromBuffer (int_buffer n) = n"
proof -
  have "to_uint32 n = n" using assms by (simp add: to_uint32_def take_bit_int_eq_self)
  then show ?thesis
    using assms by (simp add: int_buffer_def integerFromBuffer_def be_val_be_bytes to_int32_id)
qed

text \<open>
  A network whose two versions name it, and the tables of networks in which every network that is found
  writes the versions of such a network.
\<close>

definition hd_network :: "net_state \<Rightarrow> network \<Rightarrow> bool" where
  "hd_network N n \<longleftrightarrow> n \<in> set (networks N) \<and>
     net_of_version N (int_buffer (int (net_xprivkey n))) = Some (Net n) \<and>
     net_of_version N (int_buffer (int (net_xpubkey n))) = Some (Net n) \<and>
     (net_xprivkey n, net_xpubkey n) \<in> {(76066276, 76067358), (70615956, 70617039)}"

definition nets_ok :: "net_state \<Rightarrow> bool" where
  "nets_ok N \<longleftrightarrow> (\<forall>a n. networks_get N a = Some (Net n) \<longrightarrow>
     (\<exists>m. hd_network N m \<and> net_xprivkey n = net_xprivkey m \<and> net_xpubkey n = net_xpubkey m))"

lemma net_versions: "net_xprivkey livenet = 76066276" "net_xprivkey testnet = 70615956"
  "net_xpubkey livenet = 76067358" "net_xpubkey testnet = 70617039"
  by (simp_all add: network_defs)

lemma version_texts: "nat_dec 76066276 = ''76066276''" "nat_dec 70615956 = ''70615956''"
  "nat_dec 76067358 = ''76067358''" "nat_dec 70617039 = ''70617039''"
  "nat_dec 0 = ''0''" "nat_dec 5 = ''5''" "nat_dec 128 = ''128''" "nat_dec 8333 = ''8333''" "nat_dec 12605 = ''12605''"
  "nat_dec 111 = ''111''" "nat_dec 239 = ''239''" "nat_dec 196 = ''196''" "nat_dec 18333 = ''18333''"
  by (simp_all add: nat_dec.simps hex_char_def)

lemma version_networks:
  "networks_get default_networks (Some (NetNumber 76066276)) = Some (Net livenet)"
  "networks_get default_networks (Some (NetNumber 76067358)) = Some (Net livenet)"
  "networks_get default_networks (Some (NetNumber 70615956)) = Some (Net testnet)"
  "networks_get default_networks (Some (NetNumber 70617039)) = Some (Net testnet)"
  unfolding networks_get_def
  by (simp_all only: option.case net_arg.case arg_key.simps version_texts lookup_key_def default_maps get_index
      live_values regtest_values testnet_values)
     (simp_all add: object_keys_def digit_char_def version_texts)


lemma hd_network_versions:
  assumes "hd_network N n"
  shows "net_of_version N (int_buffer (int (net_xprivkey n))) = Some (Net n)"
    "net_of_version N (int_buffer (int (net_xpubkey n))) = Some (Net n)"
    "networks_get N (Some (NetRef (Net n))) = Some (Net n)"
  using assms by (simp_all add: hd_network_def networks_get_def)

lemma default_hd_network: "n \<in> {livenet, testnet} \<Longrightarrow> hd_network default_networks n"
  using version_networks
  by (auto simp: hd_network_def net_of_version_def integerFromBuffer_int_buffer net_versions default_list)

lemma regtest_versions: "net_xprivkey regtest = net_xprivkey testnet" "net_xpubkey regtest = net_xpubkey testnet"
  by (simp_all add: network_defs)

lemma nets_okI:
  assumes "\<And>a n. networks_get N a = Some (Net n) \<Longrightarrow> n \<in> S"
    and "\<And>n. n \<in> S \<Longrightarrow> \<exists>m. hd_network N m \<and> net_xprivkey n = net_xprivkey m \<and> net_xpubkey n = net_xpubkey m"
  shows "nets_ok N"
  using assms unfolding nets_ok_def by blast

lemma nets_ok_default: "nets_ok default_networks"
proof (rule nets_okI)
  show "networks_get default_networks a = Some (Net n) \<Longrightarrow> n \<in> {testnet, regtest, livenet}" for a n
    using default_lookup_known
    by (auto simp: networks_get_def default_list split: option.splits net_arg.splits net_ref.splits if_splits)
  show "\<exists>m. hd_network default_networks m \<and> net_xprivkey n = net_xprivkey m \<and> net_xpubkey n = net_xpubkey m"
    if "n \<in> {testnet, regtest, livenet}" for n
    using that default_hd_network [of livenet] default_hd_network [of testnet] regtest_versions by auto
qed

lemma xec_versions: "net_xprivkey xec_livenet = 76066276" "net_xprivkey xec_testnet = 70615956"
  "net_xpubkey xec_livenet = 76067358" "net_xpubkey xec_testnet = 70617039"
  by (simp_all add: xec_defs)

lemma app_version_networks:
  "networks_get app_networks (Some (NetNumber 76066276)) = Some (Net xec_livenet)"
  "networks_get app_networks (Some (NetNumber 76067358)) = Some (Net xec_livenet)"
  "networks_get app_networks (Some (NetNumber 70615956)) = Some (Net xec_testnet)"
  "networks_get app_networks (Some (NetNumber 70617039)) = Some (Net xec_testnet)"
  unfolding networks_get_def
  by (simp_all only: option.case net_arg.case arg_key.simps version_texts lookup_key_def app_state get_index
      xec_live_values xec_test_values)
     (simp_all add: digit_char_def version_texts)

lemma app_hd_network: "n \<in> {xec_livenet, xec_testnet} \<Longrightarrow> hd_network app_networks n"
  using app_version_networks
  by (auto simp: hd_network_def net_of_version_def integerFromBuffer_int_buffer xec_versions app_state)

lemma nets_ok_app: "nets_ok app_networks"
proof (rule nets_okI)
  show "networks_get app_networks a = Some (Net n) \<Longrightarrow> n \<in> {testnet, regtest, livenet, xec_livenet, xec_testnet}" for a n
    using app_lookup_known
    by (auto simp: networks_get_def app_state split: option.splits net_arg.splits net_ref.splits if_splits)
  show "\<exists>m. hd_network app_networks m \<and> net_xprivkey n = net_xprivkey m \<and> net_xpubkey n = net_xpubkey m"
    if "n \<in> {testnet, regtest, livenet, xec_livenet, xec_testnet}" for n
    using that app_hd_network [of xec_livenet] app_hd_network [of xec_testnet] regtest_versions
    by (auto simp: net_versions xec_versions)
qed

lemma truthy_ref [simp]: "truthy_net (Some (NetRef r))"
  by (simp add: truthy_net_def)

section \<open>Keys that were built\<close>

definition env_ok :: "'p hd_env \<Rightarrow> bool" where
  "env_ok E \<longleftrightarrow> curve_ok (he_curve E) \<and> nets_ok (he_nets E) \<and>
     (\<forall>b. length (he_sha512 E b) = 64) \<and> (\<forall>b. 4 \<le> length (sha256ripemd160 (he_coder E) b))"

text \<open>The key a big number below the order gives, and its public key.\<close>

definition plain_privkey :: "network \<Rightarrow> nat \<Rightarrow> privkey" where
  "plain_privkey n d = \<lparr>bn = d, compressed = True, key_network = Net n\<rparr>"

definition plain_pubkey :: "'p curve \<Rightarrow> network \<Rightarrow> nat \<Rightarrow> 'p pubkey" where
  "plain_pubkey C n d = \<lparr>point = gmul C d, pub_compressed = True, pub_network = Net n\<rparr>"

lemma plain_keys:
  assumes "env_ok E" and "hd_network (he_nets E) n" and "in_range (he_curve E) d"
  shows "priv_of_BN (he_curve E) (he_nets E) d (Some (NetRef (Net n))) = Inr (plain_privkey n d)"
    "toPublicKey (he_curve E) (he_nets E) (plain_privkey n d) = Inr (plain_pubkey (he_curve E) n d)"
proof -
  let ?C = "he_curve E"
  have C: "curve_ok ?C" and N: "nets_ok (he_nets E)" using assms(1) by (simp_all add: env_ok_def)
  have "on_curve ?C (gmul ?C d)" using on_curve_gmul [OF C] assms(3) by (auto simp: in_range_def)
  then have v: "validate ?C (gmul ?C d) = Inr (gmul ?C d)" using validate_on_curve [OF C] by blast
  show "priv_of_BN ?C (he_nets E) d (Some (NetRef (Net n))) = Inr (plain_privkey n d)"
    using assms(3) hd_network_versions [OF assms(2)]
    by (simp add: priv_of_BN_def make_privkey_def plain_privkey_def in_range_def)
  show "toPublicKey ?C (he_nets E) (plain_privkey n d) = Inr (plain_pubkey ?C n d)"
    using v hd_network_versions [OF assms(2)]
    by (simp add: toPublicKey_def fromPrivateKey_def PublicKey_def classifyArgs_def transformPrivateKey_def
        make_pubkey_def extra_compressed_def extra_network_def plain_pubkey_def plain_privkey_def gmul_def Let_def)
qed

text \<open>A private key of network \<open>n\<close> with the given fields, and its public form.\<close>

definition priv_buffers :: "'p hd_env \<Rightarrow> network \<Rightarrow> bytes \<Rightarrow> bytes \<Rightarrow> bytes \<Rightarrow> bytes \<Rightarrow> nat \<Rightarrow> hd_buffers" where
  "priv_buffers E n dep fp child chain d =
     (let b = \<lparr>hb_version = int_buffer (int (net_xprivkey n)), hb_depth = dep, hb_parentFingerPrint = fp,
               hb_childIndex = child, hb_chainCode = chain, hb_key = be_bytes 32 d, hb_checksum = []\<rparr>
      in b\<lparr>hb_checksum := base58check_checksum (he_coder E) (priv_sequence b)\<rparr>)"

definition pub_buffers :: "'p hd_env \<Rightarrow> network \<Rightarrow> bytes \<Rightarrow> bytes \<Rightarrow> bytes \<Rightarrow> bytes \<Rightarrow> nat \<Rightarrow> hd_buffers" where
  "pub_buffers E n dep fp child chain d =
     (let b = \<lparr>hb_version = int_buffer (int (net_xpubkey n)), hb_depth = dep, hb_parentFingerPrint = fp,
               hb_childIndex = child, hb_chainCode = chain,
               hb_key = pk_toDER (he_curve E) (plain_pubkey (he_curve E) n d), hb_checksum = []\<rparr>
      in b\<lparr>hb_checksum := base58check_checksum (he_coder E) (pub_sequence b)\<rparr>)"

definition priv_key :: "'p hd_env \<Rightarrow> network \<Rightarrow> bytes \<Rightarrow> bytes \<Rightarrow> bytes \<Rightarrow> bytes \<Rightarrow> nat \<Rightarrow> 'p hdpriv" where
  "priv_key E n dep fp child chain d =
     (let b = priv_buffers E n dep fp child chain d; pub = plain_pubkey (he_curve E) n d
      in \<lparr>pr_buffers = b, xprivkey = base58check_encode (he_coder E) (priv_sequence b), pr_network = Some (Net n),
          pr_depth = unat (hd dep), pr_privateKey = plain_privkey n d, pr_publicKey = pub,
          pr_fingerPrint = key_fingerPrint E pub\<rparr>)"

definition pub_key :: "'p hd_env \<Rightarrow> network \<Rightarrow> bytes \<Rightarrow> bytes \<Rightarrow> bytes \<Rightarrow> bytes \<Rightarrow> nat \<Rightarrow> 'p hdpub" where
  "pub_key E n dep fp child chain d =
     (let b = pub_buffers E n dep fp child chain d; pub = plain_pubkey (he_curve E) n d
      in \<lparr>pb_buffers = b, xpubkey = base58check_encode (he_coder E) (pub_sequence b), pb_network = Some (Net n),
          pb_depth = unat (hd dep), pb_publicKey = pub, pb_fingerPrint = key_fingerPrint E pub\<rparr>)"

definition fields_ok :: "'p hd_env \<Rightarrow> network \<Rightarrow> bytes \<Rightarrow> bytes \<Rightarrow> bytes \<Rightarrow> bytes \<Rightarrow> nat \<Rightarrow> bool" where
  "fields_ok E n dep fp child chain d \<longleftrightarrow> hd_network (he_nets E) n \<and> length dep = 1 \<and> length fp = 4 \<and> length child = 4 \<and>
     length chain = 32 \<and> in_range (he_curve E) d"

lemma priv_key_sel [simp]:
  "pr_network (priv_key E n dep fp child chain d) = Some (Net n)"
  "pr_depth (priv_key E n dep fp child chain d) = unat (hd dep)"
  "pr_privateKey (priv_key E n dep fp child chain d) = plain_privkey n d"
  "pr_publicKey (priv_key E n dep fp child chain d) = plain_pubkey (he_curve E) n d"
  "pr_fingerPrint (priv_key E n dep fp child chain d) = key_fingerPrint E (plain_pubkey (he_curve E) n d)"
  "hb_chainCode (pr_buffers (priv_key E n dep fp child chain d)) = chain"
  by (simp_all add: priv_key_def priv_buffers_def Let_def)

lemma pub_key_sel [simp]:
  "pb_network (pub_key E n dep fp child chain d) = Some (Net n)"
  "pb_depth (pub_key E n dep fp child chain d) = unat (hd dep)"
  "pb_publicKey (pub_key E n dep fp child chain d) = plain_pubkey (he_curve E) n d"
  "pb_fingerPrint (pub_key E n dep fp child chain d) = key_fingerPrint E (plain_pubkey (he_curve E) n d)"
  "hb_chainCode (pb_buffers (pub_key E n dep fp child chain d)) = chain"
  by (simp_all add: pub_key_def pub_buffers_def Let_def)

lemma in_range_32:
  assumes "env_ok E" and "in_range (he_curve E) d"
  shows "d < 256 ^ 32" "be_val (be_bytes 32 d) = d"
proof -
  have "curve_ok (he_curve E)" using assms(1) by (simp add: env_ok_def)
  from curve_okD(2) [OF this] show "d < 256 ^ 32" using assms(2) by (simp add: in_range_def)
  then show "be_val (be_bytes 32 d) = d" by (rule be_val_be_bytes)
qed

lemma pr_build:
  assumes E: "env_ok E" and f: "fields_ok E n dep fp child chain d"
    and ob: "ho_version ob = HBuf (int_buffer (int (net_xprivkey n)))" "ho_depth ob = HBuf dep"
      "ho_parentFingerPrint ob = HBuf fp" "ho_childIndex ob = HBuf child" "ho_chainCode ob = HBuf chain"
      "ho_key ob = HBuf (be_bytes 32 d)" "ho_checksum ob = HUndef \<or> ho_checksum ob = HBuf []"
  shows "pr_buildFromBuffers E ob = Inr (priv_key E n dep fp child chain d)"
proof -
  have l: "hd_network (he_nets E) n" "length dep = 1" "length fp = 4" "length child = 4" "length chain = 32"
      "in_range (he_curve E) d" using f by (simp_all add: fields_ok_def)
  define b where "b = \<lparr>hb_version = int_buffer (int (net_xprivkey n)), hb_depth = dep, hb_parentFingerPrint = fp,
      hb_childIndex = child, hb_chainCode = chain, hb_key = be_bytes 32 d, hb_checksum = []\<rparr>"
  have "validateBufferArguments 32 ob = Inr (b, None)"
    using ob l by (auto simp: validateBufferArguments_def checkBuffer_def check_checksum_def b_def)
  moreover have "net_of_version (he_nets E) (hb_version b) = Some (Net n)"
    using hd_network_versions [OF l(1)] by (simp add: b_def)
  moreover have "be_val (hb_key b) = d" using in_range_32 [OF E l(6)] by (simp add: b_def)
  ultimately show ?thesis
    using plain_keys [OF E l(1,6)]
    by (simp add: pr_buildFromBuffers_def priv_key_def priv_buffers_def b_def integerFromSingleByteBuffer_def
        key_fingerPrint_def Let_def)
qed

lemma pb_build:
  assumes E: "env_ok E" and f: "fields_ok E n dep fp child chain d"
    and ob: "ho_version ob = HBuf (int_buffer (int (net_xpubkey n)))" "ho_depth ob = HBuf dep"
      "ho_parentFingerPrint ob = HBuf fp" "ho_childIndex ob = HBuf child" "ho_chainCode ob = HBuf chain"
      "ho_key ob = HBuf (pk_toDER (he_curve E) (plain_pubkey (he_curve E) n d))"
      "ho_checksum ob = HUndef \<or> ho_checksum ob = HBuf []"
  shows "pb_buildFromBuffers E ob = Inr (pub_key E n dep fp child chain d)"
proof -
  let ?C = "he_curve E"
  have C: "curve_ok ?C" and N: "nets_ok (he_nets E)" using E by (simp_all add: env_ok_def)
  have l: "hd_network (he_nets E) n" "length dep = 1" "length fp = 4" "length child = 4" "length chain = 32"
      "in_range ?C d" using f by (simp_all add: fields_ok_def)
  have oc: "on_curve ?C (point (plain_pubkey ?C n d))"
    using on_curve_gmul [OF C] l(6) by (auto simp: in_range_def plain_pubkey_def)
  have len: "length (pk_toDER ?C (plain_pubkey ?C n d)) = 33"
    by (simp add: pk_toDER_compressed [OF C oc]) (simp add: plain_pubkey_def)
  define b where "b = \<lparr>hb_version = int_buffer (int (net_xpubkey n)), hb_depth = dep, hb_parentFingerPrint = fp,
      hb_childIndex = child, hb_chainCode = chain, hb_key = pk_toDER ?C (plain_pubkey ?C n d), hb_checksum = []\<rparr>"
  have "validateBufferArguments 33 ob = Inr (b, None)"
    using ob l len by (auto simp: validateBufferArguments_def checkBuffer_def check_checksum_def b_def)
  moreover have "net_of_version (he_nets E) (hb_version b) = Some (Net n)"
    using hd_network_versions [OF l(1)] by (simp add: b_def)
  moreover have "PublicKey ?C (he_nets E) (PkBuffer (hb_key b))
      \<lparr>ex_compressed = None, ex_network = Some (NetRef (Net n))\<rparr> = Inr (plain_pubkey ?C n d)"
    using transformDER_toDER [OF C oc] hd_network_versions [OF l(1)] validate_on_curve [OF C oc]
    by (simp add: b_def PublicKey_def classifyArgs_def make_pubkey_def extra_network_def Let_def)
       (simp add: plain_pubkey_def)
  ultimately show ?thesis
    by (simp add: pb_buildFromBuffers_def pub_key_def pub_buffers_def b_def integerFromSingleByteBuffer_def
        key_fingerPrint_def Let_def)
qed

text \<open>The public form of a private key.\<close>

lemma hdPublicKey_priv_key:
  assumes E: "env_ok E" and f: "fields_ok E n dep fp child chain d"
  shows "hdPublicKey E (priv_key E n dep fp child chain d) = Inr (pub_key E n dep fp child chain d)"
proof -
  have l: "hd_network (he_nets E) n" "in_range (he_curve E) d" using f by (simp_all add: fields_ok_def)
  have "net_of_version (he_nets E) (int_buffer (int (net_xprivkey n))) = Some (Net n)"
    using hd_network_versions [OF l(1)] by simp
  moreover have "pointToCompressed (he_curve E) (gmul (he_curve E) d) = pk_toDER (he_curve E) (plain_pubkey (he_curve E) n d)"
    using pointToCompressed_toDER by (simp add: plain_pubkey_def)
  ultimately show ?thesis
    using in_range_32 [OF E l(2)]
    by (simp add: hdPublicKey_def pb_buildFromPrivate_def priv_key_def priv_buffers_def ref_version_def Let_def
        gmul_def [symmetric] pb_build [OF E f])
qed

section \<open>The two derivations agree\<close>

lemma length_sha512hmac: "env_ok E \<Longrightarrow> length (sha512hmac E data key) = 64"
  by (simp add: env_ok_def sha512hmac_def hmac_def hmac_pads_def Let_def)

lemma build_fields:
  assumes E: "env_ok E" and f: "fields_ok E n [word_of_int dep] fp (int_buffer child) chain d"
  shows "pr_buildFromObject E (hd_fields (Some (NetRef (Net n))) dep (HBuf fp) child chain (HBuf (be_bytes 32 d))) =
      Inr (priv_key E n [word_of_int dep] fp (int_buffer child) chain d)"
    "pb_buildFromObject E (hd_fields (Some (NetRef (Net n))) dep (HBuf fp) child chain
        (HKey (plain_pubkey (he_curve E) m d))) =
      Inr (pub_key E n [word_of_int dep] fp (int_buffer child) chain d)"
proof -
  have n: "networks_get (he_nets E) (Some (NetRef (Net n))) = Some (Net n)"
    using hd_network_versions f by (simp add: fields_ok_def)
  show "pr_buildFromObject E (hd_fields (Some (NetRef (Net n))) dep (HBuf fp) child chain (HBuf (be_bytes 32 d))) =
      Inr (priv_key E n [word_of_int dep] fp (int_buffer child) chain d)"
    using n by (simp add: pr_buildFromObject_def object_version_def hd_fields_def ref_version_def pr_checksum_value_def
        depth_buffer_def number_buffer_def text_buffer_def pr_key_value_def integerAsSingleByteBuffer_def pr_build [OF E f])
  have "pk_toDER (he_curve E) (plain_pubkey (he_curve E) m d) = pk_toDER (he_curve E) (plain_pubkey (he_curve E) n d)"
    by (simp add: pk_toDER_def plain_pubkey_def)
  then show "pb_buildFromObject E (hd_fields (Some (NetRef (Net n))) dep (HBuf fp) child chain
        (HKey (plain_pubkey (he_curve E) m d))) = Inr (pub_key E n [word_of_int dep] fp (int_buffer child) chain d)"
    using n by (simp add: pb_buildFromObject_def object_version_def hd_fields_def ref_version_def pb_key_value_def
        depth_buffer_def number_buffer_def text_buffer_def integerAsSingleByteBuffer_def pb_build [OF E f])
qed

text \<open>The scalar and chain code of the child at an index that is not hardened.\<close>

definition child_hash :: "'p hd_env \<Rightarrow> bytes \<Rightarrow> nat \<Rightarrow> int \<Rightarrow> bytes" where
  "child_hash E chain d index =
     sha512hmac E (pk_toDER (he_curve E) (plain_pubkey (he_curve E) livenet d) @ int_buffer index) chain"

definition child_scalar :: "'p hd_env \<Rightarrow> bytes \<Rightarrow> nat \<Rightarrow> int \<Rightarrow> nat" where
  "child_scalar E chain d index = (be_val (slice (child_hash E chain d index) 0 32) + d) mod getN (he_curve E)"

lemma child_valid_iff:
  assumes "env_ok E" and "d < getN (he_curve E)"
  shows "child_valid E (be_bytes 32 d) \<longleftrightarrow> d \<noteq> 0"
proof -
  have "curve_ok (he_curve E)" using assms(1) by (simp add: env_ok_def)
  from curve_okD(2) [OF this] have "d < 256 ^ 32" using assms(2) by simp
  then show ?thesis
    using assms(2) by (simp add: child_valid_def priv_transformBuffer_def transformBNBuffer_def make_privkey_def be_val_be_bytes)
qed

lemma fromPoint_gmul:
  assumes "env_ok E"
  shows "fromPoint (he_curve E) (he_nets E) (gmul (he_curve E) a) None =
    (if a mod getN (he_curve E) = 0 then Inl (PlainError ''Point cannot be equal to Infinity'')
     else Inr (plain_pubkey (he_curve E) livenet (a mod getN (he_curve E))))"
proof -
  let ?C = "he_curve E"
  have C: "curve_ok ?C" using assms by (simp add: env_ok_def)
  show ?thesis
  proof (cases "a mod getN ?C = 0")
    case True
    then have "validate ?C (gmul ?C a) = Inl (PlainError ''Point cannot be equal to Infinity'')"
      using curve_okD(4) [OF C] by (simp add: validate_def mod_eq_0_iff_dvd)
    then show ?thesis
      using True by (simp add: fromPoint_def PublicKey_def classifyArgs_def make_pubkey_def)
  next
    case False
    have "on_curve ?C (gmul ?C a)" using False by (auto simp: on_curve_def mod_eq_0_iff_dvd)
    then show ?thesis
      using False validate_on_curve [OF C] curve_okD(7) [OF C]
      by (simp add: fromPoint_def PublicKey_def classifyArgs_def make_pubkey_def plain_pubkey_def
          extra_compressed_def extra_network_def default_net_def)
  qed
qed

lemma pr_derive_step:
  assumes E: "env_ok E" and f: "fields_ok E n dep fp child chain d" and i: "0 \<le> i" "i < Hardened"
  shows "pr_deriveWithNumber E (priv_key E n dep fp child chain d) i False nc =
    (if child_scalar E chain d i = 0 then pr_deriveWithNumber E (priv_key E n dep fp child chain d) (i + 1) False nc
     else Inr (priv_key E n [word_of_int (int (unat (hd dep)) + 1)] (key_fingerPrint E (plain_pubkey (he_curve E) n d))
       (int_buffer i) (slice (child_hash E chain d i) 32 64) (child_scalar E chain d i)))"
proof -
  let ?k = "priv_key E n dep fp child chain d" and ?C = "he_curve E" and ?s = "child_scalar E chain d i"
  let ?h = "child_hash E chain d i"
  have C: "curve_ok ?C" and r4: "4 \<le> length (sha256ripemd160 (he_coder E) b)" for b
    using E by (simp_all add: env_ok_def)
  have n: "hd_network (he_nets E) n" using f by (simp add: fields_ok_def)
  have N: "?s < getN ?C" "getN ?C < 256 ^ 32" using curve_okD(1,2) [OF C] by (simp_all add: child_scalar_def)
  have v: "isValidIndex i False" "effective_index i False = i" "\<not> Hardened \<le> i"
    using i by (simp_all add: isValidIndex_def effective_index_def MaxIndex_def Hardened_def)
  have der: "pk_toDER ?C (plain_pubkey ?C n d) = pk_toDER ?C (plain_pubkey ?C livenet d)"
    by (simp add: pk_toDER_def plain_pubkey_def)
  have data: "pr_derive_data E ?k i False nc = Inr (pk_toDER ?C (plain_pubkey ?C livenet d) @ int_buffer i)"
    by (simp add: pr_derive_data_def der Let_def)
  have key: "pr_child_key E ?k ?h = be_bytes 32 ?s"
    using N by (simp add: pr_child_key_def plain_privkey_def child_scalar_def toBuffer_fixed Let_def)
  have "fields_ok E n [word_of_int (int (unat (hd dep)) + 1)] (key_fingerPrint E (plain_pubkey ?C n d)) (int_buffer i)
      (slice ?h 32 64) ?s" if "?s \<noteq> 0"
    using that n N(1) r4 length_sha512hmac [OF E]
    by (simp add: fields_ok_def key_fingerPrint_def length_slice child_hash_def in_range_def)
  note b = build_fields(1) [OF E this]
  show ?thesis
    using b by (subst pr_deriveWithNumber.simps)
      (simp add: v data key child_valid_iff [OF E N(1)] child_hash_def [symmetric] Let_def)
qed

lemma pb_derive_step:
  assumes E: "env_ok E" and f: "fields_ok E n dep fp child chain d" and i: "0 \<le> i" "i < Hardened"
  shows "pb_deriveWithNumber E (pub_key E n dep fp child chain d) i False =
    (if child_scalar E chain d i = 0 then pb_deriveWithNumber E (pub_key E n dep fp child chain d) (i + 1) False
     else Inr (pub_key E n [word_of_int (int (unat (hd dep)) + 1)] (key_fingerPrint E (plain_pubkey (he_curve E) n d))
       (int_buffer i) (slice (child_hash E chain d i) 32 64) (child_scalar E chain d i)))"
proof -
  let ?k = "pub_key E n dep fp child chain d" and ?C = "he_curve E" and ?s = "child_scalar E chain d i"
  let ?h = "child_hash E chain d i"
  have C: "curve_ok ?C" and r4: "4 \<le> length (sha256ripemd160 (he_coder E) b)" for b
    using E by (simp_all add: env_ok_def)
  have n: "hd_network (he_nets E) n" using f by (simp add: fields_ok_def)
  have N: "?s < getN ?C" using curve_okD(1) [OF C] by (simp add: child_scalar_def)
  have der: "pk_toDER ?C (plain_pubkey ?C n d) = pk_toDER ?C (plain_pubkey ?C livenet d)"
    by (simp add: pk_toDER_def plain_pubkey_def)
  have pt: "padd ?C (pmul ?C (getG ?C) (be_val (slice ?h 0 32))) (point (plain_pubkey ?C n d)) =
      gmul ?C (be_val (slice ?h 0 32) + d)"
    using curve_okD(5) [OF C] by (simp add: plain_pubkey_def flip: gmul_def)
  have "fields_ok E n [word_of_int (int (unat (hd dep)) + 1)] (key_fingerPrint E (plain_pubkey ?C n d)) (int_buffer i)
      (slice ?h 32 64) ?s" if "?s \<noteq> 0"
    using that n N r4 length_sha512hmac [OF E]
    by (simp add: fields_ok_def key_fingerPrint_def length_slice child_hash_def in_range_def)
  note b = build_fields(2) [OF E this, of livenet]
  show ?thesis
    using b i by (subst pb_deriveWithNumber.simps)
      (simp add: der child_hash_def [symmetric] pt fromPoint_gmul [OF E] child_scalar_def [symmetric] Let_def)
qed

section \<open>Every key that is generated or derived has the form\<close>

definition hd_key :: "'p hd_env \<Rightarrow> 'p hdpriv \<Rightarrow> bool" where
  "hd_key E k \<longleftrightarrow> (\<exists>n dep fp child chain d. fields_ok E n dep fp child chain d \<and> k = priv_key E n dep fp child chain d)"

inductive hd_reachable :: "'p hd_env \<Rightarrow> 'p hdpriv \<Rightarrow> bool" for E where
  seed: "hd_fromSeed E s network = Inr k \<Longrightarrow> hd_reachable E k"
| child: "hd_reachable E k \<Longrightarrow> pr_deriveWithNumber E k i hardened nonCompliant = Inr c \<Longrightarrow> hd_reachable E c"

lemma build_fields_inv:
  fixes E :: "'p hd_env"
  assumes E: "env_ok E" and len: "length key = 32" "length chain = 32" "length fp = 4"
    and parent: "number_buffer parent = HBuf fp"
    and b: "pr_buildFromObject E (hd_fields (Some (NetRef r)) dep parent child chain (HBuf key)) = Inr k"
  shows "hd_key E k"
proof -
  have N: "nets_ok (he_nets E)" using E by (simp add: env_ok_def)
  let ?d = "be_val key"
  obtain n where n: "networks_get (he_nets E) (Some (NetRef r)) = Some (Net n)"
    using b by (cases "networks_get (he_nets E) (Some (NetRef r))")
      (auto simp: pr_buildFromObject_def object_version_def hd_fields_def ref_version_def split: net_ref.splits)
  obtain m where m: "hd_network (he_nets E) m" "net_xprivkey n = net_xprivkey m"
    using N n unfolding nets_ok_def by blast
  have key: "key = be_bytes 32 ?d" using be_bytes_be_val [of key] len by simp
  define ob :: "'p hd_object" where "ob = \<lparr>ho_network = Some (NetRef r), ho_version = HBuf (int_buffer (int (net_xprivkey m))),
      ho_depth = HBuf [word_of_int dep], ho_parentFingerPrint = HBuf fp, ho_childIndex = HBuf (int_buffer child),
      ho_chainCode = HBuf chain, ho_key = HBuf key, ho_checksum = HUndef\<rparr>"
  have bb: "pr_buildFromBuffers E ob = Inr k"
    using b n m(2) parent
    by (simp add: pr_buildFromObject_def object_version_def hd_fields_def ref_version_def pr_checksum_value_def
        depth_buffer_def number_buffer_def [of "HNum _"] text_buffer_def pr_key_value_def integerAsSingleByteBuffer_def ob_def)
  show ?thesis
  proof (cases "in_range (he_curve E) ?d")
    case True
    then have f: "fields_ok E m [word_of_int dep] fp (int_buffer child) chain ?d" using m len by (simp add: fields_ok_def)
    have "pr_buildFromBuffers E ob = Inr (priv_key E m [word_of_int dep] fp (int_buffer child) chain ?d)"
      using key by (intro pr_build [OF E f]) (simp_all add: ob_def)
    then show ?thesis using bb f unfolding hd_key_def by fastforce
  next
    case False
    have no: "priv_of_BN (he_curve E) (he_nets E) ?d net \<noteq> Inr x" for net x
      using False by (auto simp: priv_of_BN_def make_privkey_def in_range_def)
    then have "\<nexists>k. pr_buildFromBuffers E ob = Inr k"
      using len by (auto simp: pr_buildFromBuffers_def validateBufferArguments_def checkBuffer_def check_checksum_def
          ob_def rbind_Inr_iff no Let_def)
    then show ?thesis using bb by blast
  qed
qed

lemma derive_hd_key:
  assumes E: "env_ok E" and k: "hd_key E k"
  shows "pr_deriveWithNumber E k i hardened nc = Inr c \<Longrightarrow> hd_key E c"
proof (induction "nat (MaxIndex - i)" arbitrary: i hardened rule: less_induct)
  case less
  obtain n dep fp child chain d where f: "fields_ok E n dep fp child chain d" and kf: "k = priv_key E n dep fp child chain d"
    using k by (auto simp: hd_key_def)
  let ?hd = "Hardened \<le> i \<or> hardened" and ?i = "effective_index i hardened"
  have valid: "isValidIndex i hardened"
    using less.prems by (subst (asm) pr_deriveWithNumber.simps) (auto simp: hd_error_def split: if_splits)
  have ei: "effective_index i ?hd = ?i" by (auto simp: effective_index_def)
  obtain data where data: "pr_derive_data E k ?i ?hd nc = Inr data"
    using less.prems valid by (subst (asm) pr_deriveWithNumber.simps) (auto simp: ei Let_def split: sum.splits)
  let ?hash = "sha512hmac E data (hb_chainCode (pr_buffers k))"
  let ?key = "pr_child_key E k ?hash"
  have C: "curve_ok (he_curve E)" and r4: "4 \<le> length (sha256ripemd160 (he_coder E) b)" for b
    using E by (simp_all add: env_ok_def)
  have lkey: "length ?key = 32"
  proof -
    have "getN (he_curve E) < 256 ^ 32" "0 < getN (he_curve E)" using curve_okD(1,2) [OF C] by simp_all
    then have "(be_val (slice ?hash 0 32) + bn (pr_privateKey k)) mod getN (he_curve E) < 256 ^ 32"
      by (meson mod_less_divisor order.strict_trans)
    then show ?thesis by (simp add: pr_child_key_def toBuffer_fixed)
  qed
  show ?case
  proof (cases "child_valid E ?key")
    case True
    have "pr_buildFromObject E (hd_fields (Some (NetRef (Net n))) (int (pr_depth k) + 1) (HBuf (pr_fingerPrint k)) ?i
        (slice ?hash 32 64) (HBuf ?key)) = Inr c"
      using less.prems valid data True
      by (subst (asm) pr_deriveWithNumber.simps) (simp add: ei kf Let_def)
    then show ?thesis
      by (rule build_fields_inv [OF E lkey, rotated 3])
         (use length_sha512hmac [OF E] r4 in \<open>simp_all add: length_slice number_buffer_def kf key_fingerPrint_def\<close>)
  next
    case False
    have "pr_deriveWithNumber E k (?i + 1) False nc = Inr c"
      using less.prems valid data False by (subst (asm) pr_deriveWithNumber.simps) (simp add: ei Let_def)
    moreover have "nat (MaxIndex - (?i + 1)) < nat (MaxIndex - i)"
      using valid by (auto simp: isValidIndex_def effective_index_def MaxIndex_def Hardened_def Let_def split: if_splits)
    ultimately show ?thesis using less.hyps by blast
  qed
qed

lemma seed_hd_key:
  assumes E: "env_ok E" and b: "hd_fromSeed E s network = Inr k"
  shows "hd_key E k"
proof -
  obtain b where b': "pr_buildFromObject E (hd_fields (Some (NetRef
        (case networks_get (he_nets E) network of None \<Rightarrow> default_net | Some n \<Rightarrow> n))) 0 (HNum 0) 0
      (slice (sha512hmac E b (text_bytes ''Bitcoin seed'')) 32 64)
      (HBuf (slice (sha512hmac E b (text_bytes ''Bitcoin seed'')) 0 32))) = Inr k"
    using b by (auto simp: hd_fromSeed_def Let_def split: option.splits if_splits)
  show ?thesis
    by (rule build_fields_inv [OF E _ _ _ _ b', of "int_buffer 0"])
       (use length_sha512hmac [OF E] in \<open>simp_all add: length_slice number_buffer_def\<close>)
qed

lemma reachable_hd_key: "hd_reachable E k \<Longrightarrow> env_ok E \<Longrightarrow> hd_key E k"
  by (induction rule: hd_reachable.induct) (blast intro: seed_hd_key derive_hd_key)+

lemma derive_agree:
  assumes E: "env_ok E" and f: "fields_ok E n dep fp child chain d" and i: "0 \<le> i" "i < Hardened"
  shows "pb_deriveWithNumber E (pub_key E n dep fp child chain d) i False =
      rbind (pr_deriveWithNumber E (priv_key E n dep fp child chain d) i False nc) (hdPublicKey E) \<or>
     pb_deriveWithNumber E (pub_key E n dep fp child chain d) i False = hd_error ''InvalidIndexCantDeriveHardened'' \<and>
     pr_deriveWithNumber E (priv_key E n dep fp child chain d) i False nc =
       pr_deriveWithNumber E (priv_key E n dep fp child chain d) Hardened False nc"
  using i
proof (induction "nat (Hardened - i)" arbitrary: i rule: less_induct)
  case less
  let ?k = "priv_key E n dep fp child chain d" and ?p = "pub_key E n dep fp child chain d"
  show ?case
  proof (cases "child_scalar E chain d i = 0")
    case True
    then have step: "pr_deriveWithNumber E ?k i False nc = pr_deriveWithNumber E ?k (i + 1) False nc"
      "pb_deriveWithNumber E ?p i False = pb_deriveWithNumber E ?p (i + 1) False"
      using pr_derive_step [OF E f less.prems] pb_derive_step [OF E f less.prems] by simp_all
    show ?thesis
    proof (cases "i + 1 = Hardened")
      case True
      have "pb_deriveWithNumber E ?p Hardened False = hd_error ''InvalidIndexCantDeriveHardened''"
        by (subst pb_deriveWithNumber.simps) simp
      then show ?thesis using step True by simp
    next
      case False
      then show ?thesis using less.hyps [of "i + 1"] less.prems step by simp
    qed
  next
    case False
    let ?fp = "key_fingerPrint E (plain_pubkey (he_curve E) n d)" and ?h = "child_hash E chain d i"
    have C: "curve_ok (he_curve E)" and r4: "4 \<le> length (sha256ripemd160 (he_coder E) b)" for b
      using E by (simp_all add: env_ok_def)
    have "fields_ok E n [word_of_int (int (unat (hd dep)) + 1)] ?fp (int_buffer i) (slice ?h 32 64) (child_scalar E chain d i)"
      using False f curve_okD(1) [OF C] r4 length_sha512hmac [OF E]
      by (simp add: fields_ok_def key_fingerPrint_def length_slice child_hash_def in_range_def child_scalar_def)
    from hdPublicKey_priv_key [OF E this] show ?thesis
      using False pr_derive_step [OF E f less.prems] pb_derive_step [OF E f less.prems] by simp
  qed
qed

text \<open>
  C32. Hierarchical derivation.  For every key generated from a seed or derived from one, deriving the
  public child at an index that is not hardened gives the public form of the private child at that
  index, also when invalid indexes are passed over.  The one exception: when no index below the
  hardened ones is valid, the public derivation is refused and the private one goes on with a hardened child.
\<close>

theorem derivations_agree:
  assumes "env_ok E" and "hd_reachable E k" and "0 \<le> i" and "i < Hardened"
  shows "\<exists>p. hdPublicKey E k = Inr p \<and>
    (pb_deriveWithNumber E p i False = rbind (pr_deriveWithNumber E k i False nc) (hdPublicKey E) \<or>
     pb_deriveWithNumber E p i False = hd_error ''InvalidIndexCantDeriveHardened'' \<and>
     pr_deriveWithNumber E k i False nc = pr_deriveWithNumber E k Hardened False nc)"
proof -
  obtain n dep fp child chain d where f: "fields_ok E n dep fp child chain d" and k: "k = priv_key E n dep fp child chain d"
    using reachable_hd_key [OF assms(2,1)] by (auto simp: hd_key_def)
  let ?p = "pub_key E n dep fp child chain d"
  show ?thesis using hdPublicKey_priv_key [OF assms(1) f] derive_agree [OF assms(1) f assms(3,4), of nc] k by blast
qed

section \<open>The text of a key reads back\<close>

lemma serialized_slices:
  assumes "length v = 4" "length dep = 1" "length fp = 4" "length child = 4" "length chain = 32"
  shows "slice (v @ dep @ fp @ child @ chain @ r) 0 4 = v" "slice (v @ dep @ fp @ child @ chain @ r) 4 5 = dep"
    "slice (v @ dep @ fp @ child @ chain @ r) 5 9 = fp" "slice (v @ dep @ fp @ child @ chain @ r) 9 13 = child"
    "slice (v @ dep @ fp @ child @ chain @ r) 13 45 = chain"
    "slice (v @ dep @ fp @ child @ chain @ r) 45 78 = take 33 r" "slice (v @ dep @ fp @ child @ chain @ r) 46 78 = take 32 (drop 1 r)"
    "slice (v @ dep @ fp @ child @ chain @ r) 78 82 = take 4 (drop 33 r)"
  using assms by (simp_all add: slice_def)

text \<open>Serialization.  The texts \<open>xprivkey\<close> and \<open>xpubkey\<close> of a generated or derived key are accepted and give
  the same key and the same public key, with every field; the private text given to the public
  constructor gives the public key as well.
\<close>

theorem hd_text_roundtrip:
  assumes "env_ok E" and "coder_ok (he_coder E)" and "hd_reachable E k"
    and "\<And>b. b \<noteq> [] \<Longrightarrow> validCharacters (b58_encode (he_coder E) b) \<and> b58_encode (he_coder E) b \<noteq> []"
    and "networks_get (he_nets E) (Some (NetText (xprivkey k))) = None"
  shows "\<exists>p. HDPrivateKey E parse random (Some (HdText (xprivkey k))) = Inr k \<and> hdPublicKey E k = Inr p \<and>
    HDPublicKey E parse random (Some (HdText (xpubkey p))) = Inr p \<and>
    HDPublicKey E parse random (Some (HdText (xprivkey k))) = Inr p"
proof -
  let ?K = "he_coder E" and ?C = "he_curve E"
  obtain n dep fp child chain d where f: "fields_ok E n dep fp child chain d" and k: "k = priv_key E n dep fp child chain d"
    using reachable_hd_key [OF assms(3,1)] by (auto simp: hd_key_def)
  define p where "p = pub_key E n dep fp child chain d"
  have C: "curve_ok ?C" and N: "nets_ok (he_nets E)" using assms(1) by (simp_all add: env_ok_def)
  have l: "hd_network (he_nets E) n" "length dep = 1" "length fp = 4" "length child = 4" "length chain = 32" "in_range ?C d"
    using f by (simp_all add: fields_ok_def)
  define priv where "priv = priv_sequence (priv_buffers E n dep fp child chain d)"
  define pub where "pub = pub_sequence (pub_buffers E n dep fp child chain d)"
  have oc: "on_curve ?C (point (plain_pubkey ?C n d))"
    using on_curve_gmul [OF C] l(6) by (auto simp: in_range_def plain_pubkey_def)
  have lder: "length (pk_toDER ?C (plain_pubkey ?C n d)) = 33"
    by (simp add: pk_toDER_compressed [OF C oc]) (simp add: plain_pubkey_def)
  have priv: "priv = int_buffer (int (net_xprivkey n)) @ dep @ fp @ child @ chain @ ([0] @ be_bytes 32 d)"
    by (simp add: priv_def priv_sequence_def priv_buffers_def Let_def)
  have pub: "pub = int_buffer (int (net_xpubkey n)) @ dep @ fp @ child @ chain @ pk_toDER ?C (plain_pubkey ?C n d)"
    by (simp add: pub_def pub_sequence_def pub_buffers_def Let_def)
  have len: "length priv = 78" "length pub = 78" using l lder by (simp_all add: priv pub)
  have texts: "xprivkey k = base58check_encode ?K priv" "xpubkey p = base58check_encode ?K pub"
    by (simp_all add: k p_def priv_key_def pub_key_def priv_def pub_def Let_def)
  have valid: "validCharacters (base58check_encode ?K b)" "base58check_encode ?K b \<noteq> []" if "b \<noteq> []" for b
    using assms(4) [of "b @ base58check_checksum ?K b"] that by (simp_all add: base58check_encode_def)
  have ne: "priv \<noteq> []" "pub \<noteq> []" using len by auto
  note slices = serialized_slices [OF length_int_buffer l(2-5)]
  have "pr_buildFromBuffers E (serialized_object 46 priv) = Inr (priv_key E n dep fp child chain d)"
    by (rule pr_build [OF assms(1) f]) (simp_all add: serialized_object_def priv slices)
  then have sp: "pr_buildFromSerialized E (xprivkey k) = Inr k"
    by (simp add: pr_buildFromSerialized_def texts base58check_roundtrip [OF assms(2)] flip: k)
  have "pb_buildFromBuffers E (serialized_object 45 pub) = Inr p"
    unfolding p_def by (rule pb_build [OF assms(1) f]) (simp_all add: serialized_object_def pub slices lder)
  then have sq: "pb_buildFromSerialized E (xpubkey p) = Inr p"
    by (simp add: pb_buildFromSerialized_def texts base58check_roundtrip [OF assms(2)])
  have e1: "serialized_error E g (xprivkey k) None = (None, priv)" "serialized_error E g (xpubkey p) None = (None, pub)" for g
    using len valid ne by (simp_all add: serialized_error_def texts base58check_roundtrip [OF assms(2)])
  have v1: "integerFromBuffer (slice priv 0 4) = int (net_xprivkey n)" "integerFromBuffer (slice pub 0 4) = int (net_xpubkey n)"
    using l(1) by (auto simp: priv pub slices integerFromBuffer_int_buffer hd_network_def)
  have pr: "HDPrivateKey E parse random (Some (HdText (xprivkey k))) = Inr k"
    using assms(5) valid ne sp e1
    by (simp add: HDPrivateKey_def pr_isValidSerialized_def pr_getSerializedError_def texts)
  have pk: "hdPublicKey E k = Inr p" using hdPublicKey_priv_key [OF assms(1) f] by (simp add: k p_def)
  have "pb_getSerializedError E (xprivkey k) None = Some (LibError ''ArgumentIsPrivateExtended'')"
    using e1 v1 l(1) by (auto simp: pb_getSerializedError_def hd_network_def net_versions Let_def)
  then have "HDPublicKey E parse random (Some (HdText (xprivkey k))) = Inr p"
    using pr pk valid ne by (simp add: HDPublicKey_def texts hdPublicKey_def)
  moreover have "pb_getSerializedError E (xpubkey p) None = None"
    using e1 v1 l(1) by (auto simp: pb_getSerializedError_def hd_network_def net_versions Let_def)
  then have "HDPublicKey E parse random (Some (HdText (xpubkey p))) = Inr p"
    using sq valid ne by (simp add: HDPublicKey_def texts)
  ultimately show ?thesis using pr pk by blast
qed

section \<open>An environment for the witnesses\<close>

definition to_letter :: "char \<Rightarrow> char" where
  "to_letter c = (let k = of_char c :: nat in char_of (if k < 58 then k + 49 else k + 12))"

definition from_letter :: "char \<Rightarrow> char" where
  "from_letter c = (let k = of_char c :: nat in char_of (if k < 107 then k - 49 else k - 12))"

definition safe_coder :: coder where
  "safe_coder = letter_coder\<lparr>b58_encode := (\<lambda>b. map to_letter (to_hex b)),
     b58_decode := (\<lambda>s. Inr (of_hex (map from_letter s)))\<rparr>"

definition letter_fits :: "nat \<Rightarrow> bool" where
  "letter_fits n \<longleftrightarrow> (let c = hex_char n in from_letter (to_letter c) = c \<and> alnum (to_letter c) \<and>
      to_letter c \<in> set ALPHABET)"

lemma letter_fits: "n < 16 \<Longrightarrow> letter_fits n"
proof -
  have "list_all letter_fits [0..<16]" by code_simp
  then have "\<forall>n\<in>set [0..<16]. letter_fits n" unfolding list_all_iff .
  then show "n < 16 \<Longrightarrow> letter_fits n" unfolding set_upt by simp
qed

lemma hex_letters:
  assumes "c \<in> set (to_hex b)"
  shows "from_letter (to_letter c) = c \<and> alnum (to_letter c) \<and> to_letter c \<in> set ALPHABET"
proof -
  from assms obtain x :: byte where "c = hex_char (unat x div 16) \<or> c = hex_char (unat x mod 16)"
    by (auto simp: to_hex_def)
  moreover have "unat x div 16 < 16" using unat_byte_less [of x] by (simp add: div_less_iff_less_mult)
  moreover have "unat x mod 16 < 16" by simp
  ultimately show ?thesis using letter_fits unfolding letter_fits_def Let_def by blast
qed

lemma hex_letters_list:
  "map from_letter (map to_letter (to_hex b)) = to_hex b" "list_all alnum (map to_letter (to_hex b))"
  "list_all (\<lambda>c. c \<in> set ALPHABET) (map to_letter (to_hex b))"
proof -
  show "map from_letter (map to_letter (to_hex b)) = to_hex b"
    unfolding map_map by (rule map_idI) (use hex_letters in \<open>unfold o_apply, blast\<close>)
  show "list_all alnum (map to_letter (to_hex b))" "list_all (\<lambda>c. c \<in> set ALPHABET) (map to_letter (to_hex b))"
    unfolding list_all_iff set_map using hex_letters by blast+
qed

lemma safe_coder_sel: "b58_encode safe_coder b = map to_letter (to_hex b)"
    "b58_decode safe_coder s = Inr (of_hex (map from_letter s))" "sha256 safe_coder = sha256 letter_coder"
  by (simp_all add: safe_coder_def)

lemma safe_coder_ok: "coder_ok safe_coder"
    "b \<noteq> [] \<Longrightarrow> validCharacters (b58_encode safe_coder b) \<and> b58_encode safe_coder b \<noteq> []"
proof -
  show "coder_ok safe_coder"
    unfolding coder_ok_def safe_coder_sel
    using letter_coder_ok hex_letters_list(2) by (simp only: hex_letters_list(1) of_hex_to_hex coder_ok_def simp_thms)
  assume "b \<noteq> []"
  then have "to_hex b \<noteq> []" by (cases b) (simp_all add: to_hex_def)
  then show "validCharacters (b58_encode safe_coder b) \<and> b58_encode safe_coder b \<noteq> []"
    unfolding safe_coder_sel validCharacters_def using hex_letters_list(3) by (simp only: map_is_Nil_conv) simp
qed

text \<open>No network has a name of more than 30 characters.\<close>

lemma long_text_no_network:
  assumes "30 < length t"
  shows "networks_get app_networks (Some (NetText t)) = None"
proof -
  have ne: "t \<noteq> s" if "length s \<le> 30" for s using assms that by auto
  show ?thesis
    unfolding networks_get_def
    by (simp only: option.case net_arg.case arg_key.simps lookup_key_def app_state default_maps get_index
        live_values regtest_values testnet_values xec_live_values xec_test_values)
       (simp add: object_keys_def version_texts ne)
qed

definition toy_env :: "nat hd_env" where
  "toy_env = \<lparr>he_coder = safe_coder, he_sha512 = (\<lambda>b. be_bytes 32 3 @ replicate 32 0), he_curve = seven,
     he_nets = app_networks\<rparr>"

lemma toy_env_ok: "env_ok toy_env"
  using curve_ok_seven nets_ok_app by (simp add: env_ok_def toy_env_def safe_coder_def letter_coder_def min_def)

definition toy_key :: "nat hdpriv" where
  "toy_key = priv_key toy_env xec_livenet [0] (int_buffer 0) (int_buffer 0) (replicate 32 0) 3"

lemma toy_seed: "hd_fromSeed toy_env (Inr (replicate 16 0)) None = Inr toy_key"
proof -
  have f: "fields_ok toy_env xec_livenet [0] (int_buffer 0) (int_buffer 0) (replicate 32 0) 3"
    using app_hd_network [of xec_livenet] by (simp add: fields_ok_def in_range_def toy_env_def seven_def)
  have h: "sha512hmac toy_env b c = be_bytes 32 3 @ replicate 32 0" for b c
    by (simp add: sha512hmac_def hmac_def hmac_pads_def toy_env_def Let_def)
  have n: "networks_get (he_nets toy_env) None = None"
    by (simp add: toy_env_def networks_get_def)
  have l: "networks_get (he_nets toy_env) (Some (NetRef (Net livenet))) = Some (Net livenet)"
    by (simp add: toy_env_def networks_get_def app_state)
  have v: "net_xprivkey livenet = net_xprivkey xec_livenet" by (simp add: net_versions xec_versions)
  have "hd_fromSeed toy_env (Inr (replicate 16 0)) None = pr_buildFromObject toy_env
      (hd_fields (Some (NetRef (Net livenet))) 0 (HNum 0) 0 (replicate 32 0) (HBuf (be_bytes 32 3)))"
    by (simp add: hd_fromSeed_def h n default_net_def slice_def Let_def)
  also have "\<dots> = Inr toy_key"
    using l v by (simp add: pr_buildFromObject_def object_version_def hd_fields_def ref_version_def pr_checksum_value_def
        depth_buffer_def number_buffer_def text_buffer_def pr_key_value_def integerAsSingleByteBuffer_def
        toy_key_def pr_build [OF toy_env_ok f])
  finally show ?thesis .
qed

lemma toy_reachable: "hd_reachable toy_env toy_key"
  using toy_seed by (rule hd_reachable.seed)

theorem derivations_agree_witness:
  "\<exists>p c. hdPublicKey toy_env toy_key = Inr p \<and> pr_deriveWithNumber toy_env toy_key 5 False False = Inr c \<and>
    pb_deriveWithNumber toy_env p 5 False = hdPublicKey toy_env c"
proof -
  have f: "fields_ok toy_env xec_livenet [0] (int_buffer 0) (int_buffer 0) (replicate 32 0) 3"
    using app_hd_network [of xec_livenet] by (simp add: fields_ok_def in_range_def toy_env_def seven_def)
  have h: "child_scalar toy_env (replicate 32 0) 3 5 = 6"
    by (simp add: child_scalar_def child_hash_def sha512hmac_def hmac_def hmac_pads_def toy_env_def seven_def slice_def
        be_val_be_bytes Let_def)
  obtain c where c: "pr_deriveWithNumber toy_env toy_key 5 False False = Inr c"
    using pr_derive_step [OF toy_env_ok f, of 5 False] h by (simp add: toy_key_def Hardened_def)
  obtain p where p: "hdPublicKey toy_env toy_key = Inr p"
      "pb_deriveWithNumber toy_env p 5 False = rbind (pr_deriveWithNumber toy_env toy_key 5 False False) (hdPublicKey toy_env) \<or>
       pb_deriveWithNumber toy_env p 5 False = hd_error ''InvalidIndexCantDeriveHardened''"
    using derivations_agree [OF toy_env_ok toy_reachable, of 5 False] by (auto simp: Hardened_def)
  have pk: "p = pub_key toy_env xec_livenet [0] (int_buffer 0) (int_buffer 0) (replicate 32 0) 3"
    using p(1) hdPublicKey_priv_key [OF toy_env_ok f] by (simp add: toy_key_def)
  have "pb_deriveWithNumber toy_env p 5 False \<noteq> hd_error ''InvalidIndexCantDeriveHardened''"
    using pb_derive_step [OF toy_env_ok f, of 5] h pk by (simp add: Hardened_def hd_error_def)
  then show ?thesis using p c by auto
qed

theorem hd_text_roundtrip_witness:
  "\<exists>p. HDPrivateKey toy_env (\<lambda>_. None) [] (Some (HdText (xprivkey toy_key))) = Inr toy_key \<and>
    hdPublicKey toy_env toy_key = Inr p \<and>
    HDPublicKey toy_env (\<lambda>_. None) [] (Some (HdText (xpubkey p))) = Inr p"
proof -
  have c: "he_coder toy_env = safe_coder" by (simp add: toy_env_def)
  have "networks_get app_networks (Some (NetText (xprivkey toy_key))) = None"
    by (rule long_text_no_network)
       (simp add: toy_key_def priv_key_def base58check_encode_def c safe_coder_def priv_sequence_def priv_buffers_def Let_def)
  then have "networks_get (he_nets toy_env) (Some (NetText (xprivkey toy_key))) = None" by (simp add: toy_env_def)
  from hd_text_roundtrip [OF toy_env_ok _ toy_reachable _ this, of "\<lambda>_. None" "[]"] show ?thesis
    using safe_coder_ok by (auto simp: c)
qed

end
