(* ===== verification/MessageKeys.thy ===== *)
theory MessageKeys
  imports HDResults
begin

text \<open>
  \<^verbatim>\<open>src/cashweb/relay/crypto.ts\<close> and the stamp and stealth keys of \<^verbatim>\<open>constructors.ts\<close>, \<^verbatim>\<open>index.ts\<close> and
  \<^verbatim>\<open>decode-entry.ts\<close>: the keys two parties agree on.  \<open>name\<close> is the network of the constructor; the
  cipher of the package node-forge is a parameter.
\<close>

section \<open>Keys both parties compute\<close>

definition new_payload_constructor :: "string \<Rightarrow> string res" where
  "new_payload_constructor name = (if name = [] then Inl (LibError ''AssertionError'') else Inr name)"

text \<open>The shared key is the data and the digest the key.\<close>

definition constructPayloadHmac :: "'p hd_env \<Rightarrow> bytes \<Rightarrow> bytes \<Rightarrow> bytes" where
  "constructPayloadHmac E sharedKey payloadDigest = sha256hmac (he_coder E) sharedKey payloadDigest"

definition constructMergedKey :: "'p hd_env \<Rightarrow> privkey \<Rightarrow> 'p pubkey \<Rightarrow> 'p pubkey res" where
  "constructMergedKey E priv pub =
     fromPoint (he_curve E) (he_nets E) (pmul (he_curve E) (point pub) (bn priv)) None"

definition constructSharedKey :: "'p hd_env \<Rightarrow> privkey \<Rightarrow> 'p pubkey \<Rightarrow> bytes \<Rightarrow> bytes res" where
  "constructSharedKey E priv pub salt =
     rmap (\<lambda>mergedKey. sha256hmac (he_coder E) salt (pk_toDER (he_curve E) mergedKey)) (constructMergedKey E priv pub)"

text \<open>\<^verbatim>\<open>PrivateKey.fromBuffer(digest, networkName).toPublicKey()\<close>.\<close>

definition digest_pubkey :: "'p hd_env \<Rightarrow> string \<Rightarrow> bytes \<Rightarrow> 'p pubkey res" where
  "digest_pubkey E name digest =
     rbind (rbind (priv_transformBuffer (he_nets E) digest (Some (NetText name))) (make_privkey (he_curve E)))
       (toPublicKey (he_curve E) (he_nets E))"

text \<open>The point \<open>H G + P\<close> of a digest \<open>H\<close> and a public key.\<close>

definition shifted_pubkey :: "'p hd_env \<Rightarrow> string \<Rightarrow> bytes \<Rightarrow> 'p pubkey \<Rightarrow> 'p pubkey res" where
  "shifted_pubkey E name digest dest =
     rbind (digest_pubkey E name digest) (\<lambda>digestPublicKey.
       fromPoint (he_curve E) (he_nets E) (padd (he_curve E) (point digestPublicKey) (point dest)) None)"

text \<open>The key \<open>H + b\<close> modulo the order.\<close>

definition shifted_privkey :: "'p hd_env \<Rightarrow> bytes \<Rightarrow> privkey \<Rightarrow> privkey res" where
  "shifted_privkey E digest dest =
     priv_of_BN (he_curve E) (he_nets E) ((be_val digest + bn dest) mod getN (he_curve E)) None"

definition stealth_digest :: "'p hd_env \<Rightarrow> 'p pubkey \<Rightarrow> privkey \<Rightarrow> bytes" where
  "stealth_digest E pub priv =
     sha256 (he_coder E) (pointToCompressed (he_curve E) (pmul (he_curve E) (point pub) (bn priv)))"

definition constructStealthPublicKey :: "'p hd_env \<Rightarrow> string \<Rightarrow> privkey \<Rightarrow> 'p pubkey \<Rightarrow> ('p pubkey \<times> bytes) res" where
  "constructStealthPublicKey E name ephemeral dest =
     (let digest = stealth_digest E dest ephemeral
      in rmap (\<lambda>stealthPublicKey. (stealthPublicKey, digest)) (shifted_pubkey E name digest dest))"

definition constructStealthPrivateKey :: "'p hd_env \<Rightarrow> 'p pubkey \<Rightarrow> privkey \<Rightarrow> (privkey \<times> bytes) res" where
  "constructStealthPrivateKey E ephemeral dest =
     (let digest = stealth_digest E ephemeral dest
      in rmap (\<lambda>stealthPrivateKey. (stealthPrivateKey, digest)) (shifted_privkey E digest dest))"

definition root_pub :: "'p hd_env \<Rightarrow> string \<Rightarrow> 'p pubkey \<Rightarrow> bytes \<Rightarrow> 'p hdpub res" where
  "root_pub E name key digest =
     pb_buildFromObject E (hd_fields (Some (NetText name)) 0 (HNum 0) 0 digest (HBuf (pk_toDER (he_curve E) key)))"

definition root_priv :: "'p hd_env \<Rightarrow> string \<Rightarrow> privkey \<Rightarrow> bytes \<Rightarrow> 'p hdpriv res" where
  "root_priv E name key digest =
     pr_buildFromObject E (hd_fields (Some (NetText name)) 0 (HNum 0) 0 digest (HBuf (priv_toBuffer key)))"

definition constructHDStealthPublicKey :: "'p hd_env \<Rightarrow> string \<Rightarrow> privkey \<Rightarrow> 'p pubkey \<Rightarrow> 'p hdpub res" where
  "constructHDStealthPublicKey E name ephemeral dest =
     rbind (constructStealthPublicKey E name ephemeral dest) (\<lambda>(key, digest). root_pub E name key digest)"

definition constructHDStealthPrivateKey :: "'p hd_env \<Rightarrow> string \<Rightarrow> 'p pubkey \<Rightarrow> privkey \<Rightarrow> 'p hdpriv res" where
  "constructHDStealthPrivateKey E name ephemeral dest =
     rbind (constructStealthPrivateKey E ephemeral dest) (\<lambda>(key, digest). root_priv E name key digest)"

definition constructStampPublicKey :: "'p hd_env \<Rightarrow> string \<Rightarrow> bytes \<Rightarrow> 'p pubkey \<Rightarrow> 'p pubkey res" where
  "constructStampPublicKey = shifted_pubkey"

definition constructStampPrivateKey :: "'p hd_env \<Rightarrow> bytes \<Rightarrow> privkey \<Rightarrow> privkey res" where
  "constructStampPrivateKey = shifted_privkey"

definition constructStampHDPublicKey :: "'p hd_env \<Rightarrow> string \<Rightarrow> bytes \<Rightarrow> 'p pubkey \<Rightarrow> 'p hdpub res" where
  "constructStampHDPublicKey E name digest dest =
     rbind (constructStampPublicKey E name digest dest) (\<lambda>key. root_pub E name key digest)"

definition constructStampHDPrivateKey :: "'p hd_env \<Rightarrow> string \<Rightarrow> bytes \<Rightarrow> privkey \<Rightarrow> 'p hdpriv res" where
  "constructStampHDPrivateKey E name digest dest =
     rbind (constructStampPrivateKey E digest dest) (\<lambda>key. root_priv E name key digest)"

section \<open>The keys of the outputs\<close>

text \<open>\<^verbatim>\<open>deriveChild\<close> along a list of numbers.\<close>

definition pub_path :: "'p hd_env \<Rightarrow> int list \<Rightarrow> 'p hdpub \<Rightarrow> 'p hdpub res" where
  "pub_path E path k = fold_res (\<lambda>i k. pb_deriveChild E (\<lambda>_. None) k (PathNumber i) False) path k"

definition priv_path :: "'p hd_env \<Rightarrow> int list \<Rightarrow> 'p hdpriv \<Rightarrow> 'p hdpriv res" where
  "priv_path E path k = fold_res (\<lambda>i k. pr_deriveChild E (\<lambda>_. None) k (PathNumber i) False) path k"

text \<open>
  The address generators of the sender: a transaction number, and the outputs asked of it one after
  the other.  The inner function counts the transaction number up, so the second output would be
  derived under the next number.
\<close>

definition output_pubkey :: "'p hd_env \<Rightarrow> 'p hdpub \<Rightarrow> int \<Rightarrow> int \<Rightarrow> 'p pubkey res" where
  "output_pubkey E base transactionNumber outputNumber =
     rbind (pub_path E [44, 145, transactionNumber, outputNumber] base) (\<lambda>k.
       PublicKey (he_curve E) (he_nets E) (PkBuffer (pointToCompressed (he_curve E) (point (pb_publicKey k)))) no_extra)"

definition generator_pubkeys :: "'p hd_env \<Rightarrow> 'p hdpub \<Rightarrow> int \<Rightarrow> int list \<Rightarrow> 'p pubkey res list" where
  "generator_pubkeys E base transactionNumber outputNumbers =
     map (\<lambda>(c, j). output_pubkey E base (transactionNumber + int c) j) (enumerate 0 outputNumbers)"

text \<open>The private key of the recipient for transaction \<open>i\<close> and output \<open>j\<close>, and the key its address is computed of.\<close>

definition output_privkey :: "'p hd_env \<Rightarrow> 'p hdpriv \<Rightarrow> int \<Rightarrow> int \<Rightarrow> privkey res" where
  "output_privkey E base i j = rmap pr_privateKey (priv_path E [44, 145, i, j] base)"

definition computed_pubkey :: "'p hd_env \<Rightarrow> privkey \<Rightarrow> 'p pubkey res" where
  "computed_pubkey E k =
     rbind (toPublicKey (he_curve E) (he_nets E) k) (\<lambda>pub.
       PublicKey (he_curve E) (he_nets E) (PkBuffer (pointToCompressed (he_curve E) (point pub))) no_extra)"

section \<open>Encryption\<close>

text \<open>\<open>cbc_encrypt key iv\<close> and \<open>cbc_decrypt key iv\<close>; the answer of \<^verbatim>\<open>finish\<close> is not looked at.\<close>

record cipher =
  cbc_encrypt :: "bytes \<Rightarrow> bytes \<Rightarrow> bytes \<Rightarrow> bytes"
  cbc_decrypt :: "bytes \<Rightarrow> bytes \<Rightarrow> bytes \<Rightarrow> bytes"

definition payload_encrypt :: "cipher \<Rightarrow> bytes \<Rightarrow> bytes \<Rightarrow> bytes" where
  "payload_encrypt A sharedKey plainText = cbc_encrypt A (drop 16 sharedKey) (slice sharedKey 0 16) plainText"

definition payload_decrypt :: "cipher \<Rightarrow> bytes \<Rightarrow> bytes \<Rightarrow> bytes" where
  "payload_decrypt A sharedKey cipherText = cbc_decrypt A (drop 16 sharedKey) (slice sharedKey 0 16) cipherText"

definition cipher_ok :: "cipher \<Rightarrow> bool" where
  "cipher_ok A \<longleftrightarrow> (\<forall>key iv p. length key = 16 \<longrightarrow> length iv = 16 \<longrightarrow> cbc_decrypt A key iv (cbc_encrypt A key iv p) = p)"

lemma decrypt_encrypt: "cipher_ok A \<Longrightarrow> length sharedKey = 32 \<Longrightarrow> payload_decrypt A sharedKey (payload_encrypt A sharedKey p) = p"
  by (simp add: cipher_ok_def payload_encrypt_def payload_decrypt_def slice_def)

section \<open>Agreement\<close>

text \<open>A private key of the identity, and the public key made of it.\<close>

definition identity :: "'p hd_env \<Rightarrow> privkey \<Rightarrow> 'p pubkey \<Rightarrow> bool" where
  "identity E priv pub \<longleftrightarrow> in_range (he_curve E) (bn priv) \<and> point pub = gmul (he_curve E) (bn priv)"

lemma order_prime:
  assumes C: "curve_ok C" and "in_range C a" and "in_range C b"
  shows "a * b mod getN C \<noteq> 0"
proof
  assume "a * b mod getN C = 0"
  then have "getN C dvd a * b" by auto
  moreover have "coprime (getN C) a"
    using curve_okD(3) [OF C, of a] assms(2) by (simp add: in_range_def coprime_commute)
  ultimately have "getN C dvd b" by (simp add: coprime_dvd_mult_right_iff)
  then show False using assms(3) by (auto simp: in_range_def dest: dvd_imp_le)
qed

lemma constructMergedKey_eq:
  assumes E: "env_ok E" and "in_range (he_curve E) (bn a)" and "identity E b pub"
  shows "constructMergedKey E a pub = Inr (plain_pubkey (he_curve E) livenet (bn a * bn b mod getN (he_curve E)))"
proof -
  have C: "curve_ok (he_curve E)" using E by (simp add: env_ok_def)
  have "pmul (he_curve E) (point pub) (bn a) = gmul (he_curve E) (bn a * bn b)"
    using assms(3) curve_okD(6) [OF C] by (simp add: identity_def mult.commute)
  then show ?thesis
    using order_prime [OF C assms(2), of "bn b"] assms(3)
    by (simp add: constructMergedKey_def fromPoint_gmul [OF E] identity_def)
qed

lemma shifted_pubkey_eq:
  assumes E: "env_ok E" and "length digest = 32" and "identity E b pub"
  shows "shifted_pubkey E name digest pub =
    (if \<not> in_range (he_curve E) (be_val digest) then Inl TypeErr
     else if (be_val digest + bn b) mod getN (he_curve E) = 0
     then Inl (PlainError ''Point cannot be equal to Infinity'')
     else Inr (plain_pubkey (he_curve E) livenet ((be_val digest + bn b) mod getN (he_curve E))))"
proof -
  have C: "curve_ok (he_curve E)" using E by (simp add: env_ok_def)
  show ?thesis
  proof (cases "in_range (he_curve E) (be_val digest)")
    case True
    then have "validate (he_curve E) (gmul (he_curve E) (be_val digest)) = Inr (gmul (he_curve E) (be_val digest))"
      using validate_on_curve [OF C] on_curve_gmul [OF C] by (auto simp: in_range_def)
    then obtain net where "digest_pubkey E name digest =
        Inr \<lparr>point = gmul (he_curve E) (be_val digest), pub_compressed = False, pub_network = net\<rparr>"
      using True assms(2)
      by (auto simp: digest_pubkey_def priv_transformBuffer_def transformBNBuffer_def make_privkey_def in_range_def
          toPublicKey_def fromPrivateKey_def PublicKey_def classifyArgs_def transformPrivateKey_def make_pubkey_def
          extra_compressed_def extra_network_def gmul_def Let_def)
    moreover have "padd (he_curve E) (gmul (he_curve E) (be_val digest)) (point pub) =
        gmul (he_curve E) (be_val digest + bn b)"
      using assms(3) curve_okD(5) [OF C] by (simp add: identity_def)
    ultimately show ?thesis using True by (simp add: shifted_pubkey_def fromPoint_gmul [OF E])
  next
    case False
    then show ?thesis
      using assms(2) by (auto simp: shifted_pubkey_def digest_pubkey_def priv_transformBuffer_def transformBNBuffer_def
          make_privkey_def in_range_def)
  qed
qed

lemma shifted_privkey_eq:
  assumes E: "env_ok E"
  shows "shifted_privkey E digest b =
    (if (be_val digest + bn b) mod getN (he_curve E) = 0 then Inl TypeErr
     else Inr (plain_privkey livenet ((be_val digest + bn b) mod getN (he_curve E))))"
proof -
  have "0 < getN (he_curve E)" using E curve_okD(1) [of "he_curve E"] by (simp add: env_ok_def)
  then show ?thesis
    by (simp add: shifted_privkey_def priv_of_BN_def make_privkey_def truthy_net_def default_net_def plain_privkey_def)
qed

text \<open>A network name that is known, and the network whose versions the keys of that name have.\<close>

lemma known_name:
  assumes "env_ok E" and "networks_get (he_nets E) (Some (NetText name)) = Some (Net n)"
  obtains m where "hd_network (he_nets E) m" and "net_xprivkey n = net_xprivkey m" and "net_xpubkey n = net_xpubkey m"
  using assms unfolding env_ok_def nets_ok_def by blast

lemma root_keys:
  assumes E: "env_ok E" and n: "networks_get (he_nets E) (Some (NetText name)) = Some (Net n)" and ne: "name \<noteq> []"
    and m: "hd_network (he_nets E) m" "net_xprivkey n = net_xprivkey m" "net_xpubkey n = net_xpubkey m"
    and "length digest = 32" and d: "in_range (he_curve E) d"
  shows "fields_ok E m [0] (int_buffer 0) (int_buffer 0) digest d"
    "root_pub E name (plain_pubkey (he_curve E) q d) digest = Inr (pub_key E m [0] (int_buffer 0) (int_buffer 0) digest d)"
    "root_priv E name (plain_privkey q d) digest = Inr (priv_key E m [0] (int_buffer 0) (int_buffer 0) digest d)"
proof -
  show f: "fields_ok E m [0] (int_buffer 0) (int_buffer 0) digest d" using assms by (simp add: fields_ok_def)
  have t: "truthy_net (Some (NetText name))" using ne by (simp add: truthy_net_def)
  have der: "pk_toDER (he_curve E) (plain_pubkey (he_curve E) q d) = pk_toDER (he_curve E) (plain_pubkey (he_curve E) m d)"
    by (simp add: pk_toDER_def plain_pubkey_def)
  show "root_pub E name (plain_pubkey (he_curve E) q d) digest = Inr (pub_key E m [0] (int_buffer 0) (int_buffer 0) digest d)"
    using n t m by (simp add: root_pub_def pb_buildFromObject_def object_version_def hd_fields_def ref_version_def pb_key_value_def
        depth_buffer_def number_buffer_def text_buffer_def integerAsSingleByteBuffer_def der pb_build [OF E f])
  have "priv_toBuffer (plain_privkey q d) = be_bytes 32 d"
    using in_range_32 [OF E d] by (simp add: priv_toBuffer_def plain_privkey_def toBuffer_fixed)
  then show "root_priv E name (plain_privkey q d) digest = Inr (priv_key E m [0] (int_buffer 0) (int_buffer 0) digest d)"
    using n t m by (simp add: root_priv_def pr_buildFromObject_def object_version_def hd_fields_def ref_version_def
        pr_checksum_value_def pr_key_value_def depth_buffer_def number_buffer_def text_buffer_def
        integerAsSingleByteBuffer_def pr_build [OF E f])
qed

text \<open>A private key and its public form, with the same fields.\<close>

definition hd_pair :: "'p hd_env \<Rightarrow> 'p hdpriv \<Rightarrow> 'p hdpub \<Rightarrow> bool" where
  "hd_pair E k p \<longleftrightarrow> (\<exists>n dep fp child chain d. fields_ok E n dep fp child chain d \<and>
     k = priv_key E n dep fp child chain d \<and> p = pub_key E n dep fp child chain d)"

lemma hd_pair_child:
  assumes E: "env_ok E" and "hd_pair E k p" and "0 \<le> i" "i < Hardened"
    and "pb_deriveChild E co p (PathNumber i) False = Inr q"
  shows "\<exists>c. pr_deriveChild E co k (PathNumber i) False = Inr c \<and> hd_pair E c q"
proof -
  obtain n dep fp child chain d where f: "fields_ok E n dep fp child chain d"
      and k: "k = priv_key E n dep fp child chain d" and p: "p = pub_key E n dep fp child chain d"
    using assms(2) by (auto simp: hd_pair_def)
  have "rbind (pr_deriveWithNumber E k i False False) (hdPublicKey E) = Inr q"
    using derive_agree [OF E f assms(3,4), of False] assms(5) by (auto simp: k p pb_deriveChild_def hd_error_def)
  then obtain c where c: "pr_deriveWithNumber E k i False False = Inr c" "hdPublicKey E c = Inr q"
    by (auto simp: rbind_Inr_iff)
  have "hd_key E k" unfolding hd_key_def using f k by blast
  from derive_hd_key [OF E this c(1)] have "hd_key E c" .
  then have "hd_pair E c q" using c(2) hdPublicKey_priv_key [OF E] by (fastforce simp: hd_key_def hd_pair_def)
  then show ?thesis using c(1) by (simp add: pr_deriveChild_def)
qed

lemma fold_res_simps [simp]:
  "fold_res f [] b = Inr b" "fold_res f (x # xs) b = rbind (f x b) (fold_res f xs)"
proof -
  have e: "fold (\<lambda>x r. rbind r (f x)) xs (Inl e) = Inl e" for e by (induction xs) simp_all
  show "fold_res f [] b = Inr b" "fold_res f (x # xs) b = rbind (f x b) (fold_res f xs)"
    by (cases "f x b"; simp add: fold_res_def e)+
qed

lemma hd_pair_path:
  assumes E: "env_ok E"
  shows "hd_pair E k p \<Longrightarrow> list_all (\<lambda>i. 0 \<le> i \<and> i < Hardened) path \<Longrightarrow> pub_path E path p = Inr q \<Longrightarrow>
    \<exists>c. priv_path E path k = Inr c \<and> hd_pair E c q"
proof (induction path arbitrary: k p)
  case (Cons i path)
  obtain p1 where p1: "pb_deriveChild E (\<lambda>_. None) p (PathNumber i) False = Inr p1" "pub_path E path p1 = Inr q"
    using Cons.prems(3) by (auto simp: pub_path_def rbind_Inr_iff)
  obtain k1 where k1: "pr_deriveChild E (\<lambda>_. None) k (PathNumber i) False = Inr k1" "hd_pair E k1 p1"
    using hd_pair_child [OF E Cons.prems(1) _ _ p1(1)] Cons.prems(2) by auto
  obtain c where "priv_path E path k1 = Inr c" "hd_pair E c q"
    using Cons.IH [OF k1(2) _ p1(2)] Cons.prems(2) by auto
  then show ?case using k1(1) by (auto simp: priv_path_def)
qed (simp add: pub_path_def priv_path_def)

lemma output_keys_agree:
  assumes E: "env_ok E" and "hd_pair E k p" and "0 \<le> i" "i < Hardened" "0 \<le> j" "j < Hardened"
    and "output_pubkey E p i j = Inr P"
  shows "\<exists>c. output_privkey E k i j = Inr c \<and> identity E c P \<and> computed_pubkey E c = Inr P"
proof -
  let ?C = "he_curve E"
  have C: "curve_ok ?C" using E by (simp add: env_ok_def)
  obtain q where q: "pub_path E [44, 145, i, j] p = Inr q"
      "PublicKey ?C (he_nets E) (PkBuffer (pointToCompressed ?C (point (pb_publicKey q)))) no_extra = Inr P"
    using assms(7) by (auto simp: output_pubkey_def rbind_Inr_iff)
  obtain c where c: "priv_path E [44, 145, i, j] k = Inr c" "hd_pair E c q"
    using hd_pair_path [OF E assms(2) _ q(1)] assms(3-6) by (auto simp: Hardened_def)
  obtain n dep fp child chain d where f: "fields_ok E n dep fp child chain d"
      and cq: "c = priv_key E n dep fp child chain d" "q = pub_key E n dep fp child chain d"
    using c(2) by (auto simp: hd_pair_def)
  have d: "hd_network (he_nets E) n" "in_range ?C d" using f by (simp_all add: fields_ok_def)
  have oc: "on_curve ?C (gmul ?C d)" using on_curve_gmul [OF C] d(2) by (auto simp: in_range_def)
  have "PublicKey ?C (he_nets E) (PkBuffer (pointToCompressed ?C (gmul ?C d))) no_extra = Inr (plain_pubkey ?C livenet d)"
    using transformDER_toDER [OF C, of "plain_pubkey ?C livenet d"] oc validate_on_curve [OF C oc]
      pointToCompressed_toDER [of ?C "gmul ?C d" "Net livenet"]
    by (simp add: PublicKey_def classifyArgs_def make_pubkey_def extra_network_def no_extra_def default_net_def Let_def)
       (simp add: plain_pubkey_def make_pubkey_def default_net_def)
  then show ?thesis
    using q(2) c(1) d(2) plain_keys(2) [OF E d]
    by (auto simp: output_privkey_def computed_pubkey_def cq identity_def plain_pubkey_def plain_privkey_def)
qed

lemma root_pair:
  assumes E: "env_ok E" and "networks_get (he_nets E) (Some (NetText name)) = Some (Net n)" and "name \<noteq> []"
    and "length digest = 32" and "identity E b pub" and "shifted_pubkey E name digest pub = Inr P"
  shows "\<exists>c k p. shifted_privkey E digest b = Inr c \<and> root_priv E name c digest = Inr k \<and>
    root_pub E name P digest = Inr p \<and> hd_pair E k p"
proof -
  let ?d = "(be_val digest + bn b) mod getN (he_curve E)"
  have "0 < getN (he_curve E)" using E curve_okD(1) [of "he_curve E"] by (simp add: env_ok_def)
  then have P: "P = plain_pubkey (he_curve E) livenet ?d" and r: "in_range (he_curve E) ?d"
    using assms(6) by (auto simp: shifted_pubkey_eq [OF E assms(4,5)] in_range_def split: if_splits)
  have c: "shifted_privkey E digest b = Inr (plain_privkey livenet ?d)"
    using r by (simp add: shifted_privkey_eq [OF E] in_range_def)
  obtain m where m: "hd_network (he_nets E) m" "net_xprivkey n = net_xprivkey m" "net_xpubkey n = net_xpubkey m"
    using known_name [OF E assms(2)] .
  note rk = root_keys [OF E assms(2,3) m assms(4) r]
  show ?thesis using c rk P unfolding hd_pair_def by blast
qed

text \<open>
  C7. Stamp keys.  Whatever public key the sender derives for output \<open>j\<close> of stamp transaction \<open>i\<close> from the
  recipient's public key and the payload digest, the recipient derives its private key from the
  identity key and the same digest, and computes the same key, and so the same address, from it.
\<close>

theorem stamp_keys_agree:
  assumes "env_ok E" and "networks_get (he_nets E) (Some (NetText name)) = Some (Net n)" and "name \<noteq> []"
    and "length digest = 32" and "identity E b pub" and "0 \<le> i" "i < Hardened" "0 \<le> j" "j < Hardened"
    and "rbind (constructStampHDPublicKey E name digest pub) (\<lambda>p. output_pubkey E p i j) = Inr P"
  shows "\<exists>k. rbind (constructStampHDPrivateKey E name digest b) (\<lambda>p. output_privkey E p i j) = Inr k \<and>
    identity E k P \<and> computed_pubkey E k = Inr P"
proof -
  obtain S p where s: "shifted_pubkey E name digest pub = Inr S" "root_pub E name S digest = Inr p" "output_pubkey E p i j = Inr P"
    using assms(10) by (auto simp: constructStampHDPublicKey_def constructStampPublicKey_def rbind_Inr_iff)
  obtain c k where k: "shifted_privkey E digest b = Inr c" "root_priv E name c digest = Inr k" "hd_pair E k p"
    using root_pair [OF assms(1-5) s(1)] s(2) by auto
  show ?thesis
    using output_keys_agree [OF assms(1) k(3) assms(6-9) s(3)] k(1,2)
    by (simp add: constructStampHDPrivateKey_def constructStampPrivateKey_def)
qed

lemma stealth_digest_eq:
  assumes E: "env_ok E" and "identity E a pa" and "identity E b pb"
  shows "stealth_digest E pb a = stealth_digest E pa b"
proof -
  have C: "curve_ok (he_curve E)" using E by (simp add: env_ok_def)
  show ?thesis using assms(2,3) curve_okD(6) [OF C] by (simp add: stealth_digest_def identity_def mult.commute)
qed

text \<open>
  C8. Stealth keys.  The public key the sender of a stealth payment derives with the ephemeral private
  key belongs to the private key the recipient derives from the ephemeral public key and the identity key.
\<close>

theorem stealth_keys_agree:
  assumes "env_ok E" and "networks_get (he_nets E) (Some (NetText name)) = Some (Net n)" and "name \<noteq> []"
    and "\<And>b. length (sha256 (he_coder E) b) = 32" and "identity E b pub" and "identity E e epub"
    and "0 \<le> i" "i < Hardened" "0 \<le> j" "j < Hardened"
    and "rbind (constructHDStealthPublicKey E name e pub) (\<lambda>p. output_pubkey E p i j) = Inr P"
  shows "\<exists>k. rbind (constructHDStealthPrivateKey E name epub b) (\<lambda>p. output_privkey E p i j) = Inr k \<and>
    identity E k P \<and> computed_pubkey E k = Inr P"
proof -
  let ?dg = "stealth_digest E pub e"
  have l: "length ?dg = 32" using assms(4) by (simp add: stealth_digest_def)
  have dg: "stealth_digest E epub b = ?dg" using stealth_digest_eq [OF assms(1,5,6)] by simp
  obtain S p where s: "shifted_pubkey E name ?dg pub = Inr S" "root_pub E name S ?dg = Inr p" "output_pubkey E p i j = Inr P"
    using assms(11) by (cases "shifted_pubkey E name ?dg pub")
      (auto simp: constructHDStealthPublicKey_def constructStealthPublicKey_def rbind_Inr_iff Let_def)
  obtain c k where k: "shifted_privkey E ?dg b = Inr c" "root_priv E name c ?dg = Inr k" "hd_pair E k p"
    using root_pair [OF assms(1-3) l assms(5) s(1)] s(2) by auto
  show ?thesis
    using output_keys_agree [OF assms(1) k(3) assms(7-10) s(3)] k(1,2)
    by (simp add: constructHDStealthPrivateKey_def constructStealthPrivateKey_def dg)
qed

section \<open>Witnesses\<close>

definition agree_env :: "nat hd_env" where
  "agree_env = toy_env\<lparr>he_coder := safe_coder\<lparr>sha256 := (\<lambda>_. be_bytes 32 1)\<rparr>\<rparr>"

lemma agree_env_ok: "env_ok agree_env"
  using toy_env_ok by (simp add: agree_env_def env_ok_def toy_env_def safe_coder_def letter_coder_def)

lemma agree_name: "networks_get (he_nets agree_env) (Some (NetText ''xec-livenet'')) = Some (Net xec_livenet)"
  by (simp add: agree_env_def toy_env_def networks_get_def)

lemma agree_child:
  assumes f: "fields_ok agree_env n dep fp child chain d" and i: "0 \<le> i" "i < Hardened" and d: "(3 + d) mod 7 \<noteq> 0"
  shows "\<exists>dep' fp' child' chain'. fields_ok agree_env n dep' fp' child' chain' ((3 + d) mod 7) \<and>
    pb_deriveChild agree_env co (pub_key agree_env n dep fp child chain d) (PathNumber i) False =
      Inr (pub_key agree_env n dep' fp' child' chain' ((3 + d) mod 7))"
proof -
  have N: "getN (he_curve agree_env) = 7" by (simp add: agree_env_def toy_env_def seven_def)
  have h: "child_scalar agree_env chain d i = (3 + d) mod 7"
    by (simp add: child_scalar_def child_hash_def sha512hmac_def hmac_def hmac_pads_def agree_env_def toy_env_def seven_def
        slice_def be_val_be_bytes Let_def)
  have r4: "4 \<le> length (sha256ripemd160 (he_coder agree_env) b)" for b using agree_env_ok by (simp add: env_ok_def)
  have step: "pb_deriveWithNumber agree_env (pub_key agree_env n dep fp child chain d) i False =
      Inr (pub_key agree_env n [word_of_int (int (unat (hd dep)) + 1)]
        (key_fingerPrint agree_env (plain_pubkey (he_curve agree_env) n d)) (int_buffer i)
        (slice (child_hash agree_env chain d i) 32 64) ((3 + d) mod 7))"
    using pb_derive_step [OF agree_env_ok f i] d h by simp
  have "fields_ok agree_env n [word_of_int (int (unat (hd dep)) + 1)]
        (key_fingerPrint agree_env (plain_pubkey (he_curve agree_env) n d)) (int_buffer i)
        (slice (child_hash agree_env chain d i) 32 64) ((3 + d) mod 7)"
    using f d r4 length_sha512hmac [OF agree_env_ok]
    by (simp add: fields_ok_def key_fingerPrint_def length_slice child_hash_def in_range_def N)
  then show ?thesis using step by (auto simp: pb_deriveChild_def)
qed

lemma agree_output:
  assumes f: "fields_ok agree_env n dep fp child chain 3" and i: "0 \<le> i" "i < Hardened" "0 \<le> j" "j < Hardened"
  shows "\<exists>P. output_pubkey agree_env (pub_key agree_env n dep fp child chain 3) i j = Inr P"
proof -
  have h: "0 \<le> (44 :: int)" "44 < Hardened" "0 \<le> (145 :: int)" "145 < Hardened" by (simp_all add: Hardened_def)
  obtain a1 b1 c1 d1 where 1: "fields_ok agree_env n a1 b1 c1 d1 6"
      "pb_deriveChild agree_env (\<lambda>_. None) (pub_key agree_env n dep fp child chain 3) (PathNumber 44) False =
        Inr (pub_key agree_env n a1 b1 c1 d1 6)"
    using agree_child [OF f h(1,2), of "\<lambda>_. None"] by auto
  obtain a2 b2 c2 d2 where 2: "fields_ok agree_env n a2 b2 c2 d2 2"
      "pb_deriveChild agree_env (\<lambda>_. None) (pub_key agree_env n a1 b1 c1 d1 6) (PathNumber 145) False =
        Inr (pub_key agree_env n a2 b2 c2 d2 2)"
    using agree_child [OF 1(1) h(3,4), of "\<lambda>_. None"] by auto
  obtain a3 b3 c3 d3 where 3: "fields_ok agree_env n a3 b3 c3 d3 5"
      "pb_deriveChild agree_env (\<lambda>_. None) (pub_key agree_env n a2 b2 c2 d2 2) (PathNumber i) False =
        Inr (pub_key agree_env n a3 b3 c3 d3 5)"
    using agree_child [OF 2(1) i(1,2), of "\<lambda>_. None"] by auto
  obtain a4 b4 c4 d4 where 4: "fields_ok agree_env n a4 b4 c4 d4 1"
      "pb_deriveChild agree_env (\<lambda>_. None) (pub_key agree_env n a3 b3 c3 d3 5) (PathNumber j) False =
        Inr (pub_key agree_env n a4 b4 c4 d4 1)"
    using agree_child [OF 3(1) i(3,4), of "\<lambda>_. None"] by auto
  let ?C = "he_curve agree_env"
  have C: "curve_ok ?C" using agree_env_ok by (simp add: env_ok_def)
  have oc: "on_curve ?C (gmul ?C 1)" using on_curve_gmul [OF C, of 1] curve_okD(1) [OF C] by simp
  have "PublicKey ?C (he_nets agree_env) (PkBuffer (pointToCompressed ?C (gmul ?C 1))) no_extra =
      Inr (plain_pubkey ?C livenet 1)"
    using transformDER_toDER [OF C, of "plain_pubkey ?C livenet 1"] oc validate_on_curve [OF C oc]
      pointToCompressed_toDER [of ?C "gmul ?C 1" "Net livenet"]
    by (simp add: PublicKey_def classifyArgs_def make_pubkey_def extra_network_def no_extra_def default_net_def Let_def)
       (simp add: plain_pubkey_def make_pubkey_def default_net_def)
  then show ?thesis using 1(2) 2(2) 3(2) 4(2) by (simp add: output_pubkey_def pub_path_def plain_pubkey_def)
qed

lemma agree_identity: "in_range (he_curve agree_env) d \<Longrightarrow>
    identity agree_env (plain_privkey livenet d) (plain_pubkey (he_curve agree_env) livenet d)"
  by (simp add: identity_def plain_privkey_def plain_pubkey_def)

lemma agree_range: "in_range (he_curve agree_env) d \<longleftrightarrow> 0 < d \<and> d < 7"
  by (auto simp: in_range_def agree_env_def toy_env_def seven_def)

lemma agree_root:
  assumes "0 \<le> i" "i < Hardened" "0 \<le> j" "j < Hardened"
  shows "\<exists>S p P. shifted_pubkey agree_env ''xec-livenet'' (be_bytes 32 1) (plain_pubkey (he_curve agree_env) livenet 2) = Inr S \<and>
    root_pub agree_env ''xec-livenet'' S (be_bytes 32 1) = Inr p \<and> output_pubkey agree_env p i j = Inr P"
proof -
  have N: "getN (he_curve agree_env) = 7" by (simp add: agree_env_def toy_env_def seven_def)
  have b: "be_val (be_bytes 32 1) = 1" by (rule be_val_be_bytes) simp
  have id: "identity agree_env (plain_privkey livenet 2) (plain_pubkey (he_curve agree_env) livenet 2)"
    by (rule agree_identity) (simp add: agree_range)
  have l: "length (be_bytes 32 1) = 32" by simp
  have s: "shifted_pubkey agree_env ''xec-livenet'' (be_bytes 32 1) (plain_pubkey (he_curve agree_env) livenet 2) =
      Inr (plain_pubkey (he_curve agree_env) livenet 3)"
    by (subst shifted_pubkey_eq [OF agree_env_ok l id]) (simp only: b N agree_range plain_privkey_def privkey.simps, simp)
  obtain m where m: "hd_network (he_nets agree_env) m" "net_xprivkey xec_livenet = net_xprivkey m" "net_xpubkey xec_livenet = net_xpubkey m"
    using known_name [OF agree_env_ok agree_name] .
  have r: "in_range (he_curve agree_env) 3" by (simp add: agree_range)
  note rk = root_keys [OF agree_env_ok agree_name _ m l r]
  show ?thesis using s rk(2) agree_output [OF rk(1) assms] by auto
qed

theorem stamp_keys_agree_witness:
  "\<exists>P k. rbind (constructStampHDPublicKey agree_env ''xec-livenet'' (be_bytes 32 1) (plain_pubkey (he_curve agree_env) livenet 2))
      (\<lambda>p. output_pubkey agree_env p 0 0) = Inr P \<and>
    rbind (constructStampHDPrivateKey agree_env ''xec-livenet'' (be_bytes 32 1) (plain_privkey livenet 2))
      (\<lambda>p. output_privkey agree_env p 0 0) = Inr k \<and>
    identity agree_env k P \<and> computed_pubkey agree_env k = Inr P"
proof -
  have h: "0 \<le> (0 :: int)" "0 < Hardened" by (simp_all add: Hardened_def)
  obtain P where P: "rbind (constructStampHDPublicKey agree_env ''xec-livenet'' (be_bytes 32 1)
      (plain_pubkey (he_curve agree_env) livenet 2)) (\<lambda>p. output_pubkey agree_env p 0 0) = Inr P"
    using agree_root [OF h h] by (auto simp: constructStampHDPublicKey_def constructStampPublicKey_def)
  have id: "identity agree_env (plain_privkey livenet 2) (plain_pubkey (he_curve agree_env) livenet 2)"
    by (rule agree_identity) (simp add: agree_range)
  show ?thesis
    using stamp_keys_agree [OF agree_env_ok agree_name _ _ id h h P] P by simp
qed

theorem stealth_keys_agree_witness:
  "\<exists>P k. rbind (constructHDStealthPublicKey agree_env ''xec-livenet'' (plain_privkey livenet 5)
        (plain_pubkey (he_curve agree_env) livenet 2)) (\<lambda>p. output_pubkey agree_env p 0 0) = Inr P \<and>
    rbind (constructHDStealthPrivateKey agree_env ''xec-livenet'' (plain_pubkey (he_curve agree_env) livenet 5)
        (plain_privkey livenet 2)) (\<lambda>p. output_privkey agree_env p 0 0) = Inr k \<and>
    identity agree_env k P \<and> computed_pubkey agree_env k = Inr P"
proof -
  have h: "0 \<le> (0 :: int)" "0 < Hardened" by (simp_all add: Hardened_def)
  have sh: "sha256 (he_coder agree_env) b = be_bytes 32 1" for b by (simp add: agree_env_def)
  have dg: "stealth_digest agree_env q a = be_bytes 32 1" for q a by (simp add: stealth_digest_def sh)
  obtain P where P: "rbind (constructHDStealthPublicKey agree_env ''xec-livenet'' (plain_privkey livenet 5)
      (plain_pubkey (he_curve agree_env) livenet 2)) (\<lambda>p. output_pubkey agree_env p 0 0) = Inr P"
    using agree_root [OF h h] by (auto simp: constructHDStealthPublicKey_def constructStealthPublicKey_def dg Let_def)
  have id: "identity agree_env (plain_privkey livenet d) (plain_pubkey (he_curve agree_env) livenet d)" if "0 < d" "d < 7" for d
    by (rule agree_identity) (simp add: agree_range that)
  have id2: "identity agree_env (plain_privkey livenet 2) (plain_pubkey (he_curve agree_env) livenet 2)"
    and id5: "identity agree_env (plain_privkey livenet 5) (plain_pubkey (he_curve agree_env) livenet 5)"
    by (rule id; simp)+
  show ?thesis
    using stealth_keys_agree [OF agree_env_ok agree_name _ _ id2 id5 h h P] P by (simp add: sh)
qed

end
