(* ===== verification/Messages.thy ===== *)
theory Messages
  imports MessageKeys AddressResults WalletResults
begin

text \<open>
  \<^verbatim>\<open>src/cashweb/relay/extension.ts\<close> and \<^verbatim>\<open>constructMessage\<close> of \<^verbatim>\<open>constructors.ts\<close>: the envelope of a message, how
  it is made, parsed and opened.  A protocol buffer is a record of its fields with the defaults of the
  format for those that are not set.
\<close>

record 'p msg_env =
  me_hd :: "'p hd_env"
  me_cipher :: cipher
  me_valid :: "bytes \<Rightarrow> bool"
  networkName :: string
  displayNetwork :: string

abbreviation me_curve :: "'p msg_env \<Rightarrow> 'p curve" where "me_curve M \<equiv> he_curve (me_hd M)"
abbreviation me_nets :: "'p msg_env \<Rightarrow> net_state" where "me_nets M \<equiv> he_nets (me_hd M)"
abbreviation me_coder :: "'p msg_env \<Rightarrow> coder" where "me_coder M \<equiv> he_coder (me_hd M)"

section \<open>Addresses of keys and scripts\<close>

text \<open>\<^verbatim>\<open>PublicKey.prototype.toAddress\<close> and \<^verbatim>\<open>Script.prototype.toAddress\<close>, which is \<^verbatim>\<open>false\<close> without an address.\<close>

definition pub_toAddress :: "'p msg_env \<Rightarrow> 'p pubkey \<Rightarrow> string \<Rightarrow> address res" where
  "pub_toAddress M pub net =
     fromPublicKey (me_valid M) (me_coder M) (me_nets M) (pk_toDER (me_curve M) pub)
       (if net = [] then Some (NetRef (pub_network pub)) else Some (NetText net))"

definition script_toAddress :: "'p msg_env \<Rightarrow> bool \<Rightarrow> bool \<Rightarrow> script \<Rightarrow> string \<Rightarrow> address option res" where
  "script_toAddress M isInput isOutput script net =
     rbind (getAddressInfo (me_valid M) (XAddress.sha256ripemd160 (me_coder M)) isInput isOutput script) (\<lambda>info.
       case info of
         None \<Rightarrow> Inr None
       | Some (t, h) \<Rightarrow>
           rmap Some (address_new (me_valid M) (me_coder M) (me_nets M)
             (AddrObject \<lparr>o_hash = None, o_hashBuffer = Some h,
                o_network = Some (NetRef (net_or (me_nets M) (Some (NetText net)))),
                o_type = Some (type_text t), o_prefix = None\<rparr>) None None))"

text \<open>The script of an output that was parsed; a script that cannot be read is \<^verbatim>\<open>null\<close>.\<close>

definition output_toAddress :: "'p msg_env \<Rightarrow> tx_output \<Rightarrow> string \<Rightarrow> address option res" where
  "output_toAddress M out net =
     rbind (output_script out) (\<lambda>s. case s of None \<Rightarrow> Inl TypeErr | Some script \<Rightarrow> script_toAddress M False True script net)"

definition pub_cashAddress :: "'p msg_env \<Rightarrow> 'p pubkey \<Rightarrow> string \<Rightarrow> string res" where
  "pub_cashAddress M pub net = rbind (pub_toAddress M pub net) (toCashAddress False)"

section \<open>The envelope\<close>

record wire_message =
  w_source :: bytes
  w_destination :: bytes
  w_receivedTime :: int
  w_payloadDigest :: bytes
  w_payload :: bytes
  w_payloadHmac :: bytes
  w_payloadSize :: nat
  w_salt :: bytes
  w_stamp :: "(bytes \<times> nat list) list option"
  w_scheme :: nat

definition EPHEMERALDH :: nat where "EPHEMERALDH = 1"

record 'p parsed_message =
  p_source :: "'p pubkey"
  p_destination :: "'p pubkey"
  p_receivedTime :: int
  p_salt :: bytes
  p_stamp :: "(bytes \<times> nat list) list"
  p_scheme :: nat
  p_payloadDigest :: bytes
  p_payloadHmac :: bytes
  p_payloadSize :: nat
  p_payload :: bytes

definition wire_digest :: "'p msg_env \<Rightarrow> wire_message \<Rightarrow> bytes res" where
  "wire_digest M m =
     (let dg = w_payloadDigest m; pay = w_payload m
      in if dg = []
         then if pay = [] then Inl (PlainError ''Missing payload and digest'') else Inr (XAddress.sha256 (me_coder M) pay)
         else if length dg = 32
         then if pay \<noteq> [] \<and> XAddress.sha256 (me_coder M) pay \<noteq> dg then Inl (PlainError ''Fraudulent payload digest'') else Inr dg
         else Inl (PlainError ''Unexpected length payload digest''))"

definition wire_parse :: "'p msg_env \<Rightarrow> wire_message \<Rightarrow> 'p parsed_message res" where
  "wire_parse M m =
     rbind (PublicKey (me_curve M) (me_nets M) (PkBuffer (w_source m)) no_extra) (\<lambda>src.
     rbind (PublicKey (me_curve M) (me_nets M) (PkBuffer (w_destination m)) no_extra) (\<lambda>dst.
     rbind (wire_digest M m) (\<lambda>dg.
       if length (w_payloadHmac m) \<noteq> 32 then Inl (PlainError ''Unexpected length payload hmac'')
       else if w_payloadSize m \<noteq> 0 \<and> w_payloadSize m \<noteq> length (w_payload m)
       then Inl (PlainError ''Unexpected payload size'')
       else case w_stamp m of
              None \<Rightarrow> Inl (LibError ''AssertionError'')
            | Some stamp \<Rightarrow>
                Inr \<lparr>p_source = src, p_destination = dst, p_receivedTime = w_receivedTime m, p_salt = w_salt m,
                  p_stamp = stamp, p_scheme = w_scheme m, p_payloadDigest = dg, p_payloadHmac = w_payloadHmac m,
                  p_payloadSize = length (w_payload m), p_payload = w_payload m\<rparr>)))"

section \<open>Opening\<close>

definition parsed_sharedKey :: "'p msg_env \<Rightarrow> privkey \<Rightarrow> 'p parsed_message \<Rightarrow> bytes res" where
  "parsed_sharedKey M priv p = constructSharedKey (me_hd M) priv (p_source p) (p_salt p)"

definition parsed_sharedKeySelf :: "'p msg_env \<Rightarrow> privkey \<Rightarrow> 'p parsed_message \<Rightarrow> bytes res" where
  "parsed_sharedKeySelf M priv p = constructSharedKey (me_hd M) priv (p_destination p) (p_salt p)"

text \<open>Every byte of the claimed code is compared, so a longer computed one would do as well.\<close>

definition authenticate :: "'p msg_env \<Rightarrow> bytes \<Rightarrow> 'p parsed_message \<Rightarrow> bool" where
  "authenticate M sharedKey p =
     (let mac = constructPayloadHmac (me_hd M) sharedKey (p_payloadDigest p)
      in list_all (\<lambda>(i, v). nth_opt mac i = Some v) (enumerate 0 (p_payloadHmac p)))"

definition parsed_decrypt :: "'p msg_env \<Rightarrow> bytes \<Rightarrow> 'p parsed_message \<Rightarrow> bytes res" where
  "parsed_decrypt M sharedKey p =
     (if p_scheme p \<noteq> EPHEMERALDH then Inl (PlainError ''Unsupported message encryption scheme'')
      else Inr (payload_decrypt (me_cipher M) sharedKey (p_payload p)))"

definition open_with :: "'p msg_env \<Rightarrow> 'p parsed_message \<Rightarrow> bytes \<Rightarrow> bytes res" where
  "open_with M p sharedKey =
     (if \<not> authenticate M sharedKey p then Inl (PlainError ''Failed to authenticate message'')
      else parsed_decrypt M sharedKey p)"

definition message_open :: "'p msg_env \<Rightarrow> privkey \<Rightarrow> 'p parsed_message \<Rightarrow> bytes res" where
  "message_open M priv p = rbind (parsed_sharedKey M priv p) (open_with M p)"

definition message_openSelf :: "'p msg_env \<Rightarrow> privkey \<Rightarrow> 'p parsed_message \<Rightarrow> bytes res" where
  "message_openSelf M priv p = rbind (parsed_sharedKeySelf M priv p) (open_with M p)"

section \<open>Constructing\<close>

text \<open>The keys of the outputs are those of the generator, which the wallet asks for output 0 only.\<close>

definition constructStampTransactions ::
  "'p msg_env \<Rightarrow> ('k, 'p pubkey) wallet_env \<Rightarrow> (nat \<Rightarrow> nat) \<Rightarrow> bytes \<Rightarrow> 'p pubkey \<Rightarrow> nat \<Rightarrow> 'k wallet \<Rightarrow>
     ('k tx_bundle list \<times> 'k wallet) res" where
  "constructStampTransactions M W rnd digest dest amount w =
     rbind (constructStampHDPublicKey (me_hd M) (networkName M) digest dest) (\<lambda>hd.
       if amount = 0 then Inr ([], w)
       else constructTransactionSet W rnd (\<lambda>i. output_pubkey (me_hd M) hd (int i) 0) amount w)"

definition constructStealthTransactions ::
  "'p msg_env \<Rightarrow> ('k, 'p pubkey) wallet_env \<Rightarrow> (nat \<Rightarrow> nat) \<Rightarrow> privkey \<Rightarrow> 'p pubkey \<Rightarrow> nat \<Rightarrow> 'k wallet \<Rightarrow>
     ('k tx_bundle list \<times> 'k wallet) res" where
  "constructStealthTransactions M W rnd ephemeral dest amount w =
     rbind (constructHDStealthPublicKey (me_hd M) (networkName M) ephemeral dest) (\<lambda>hd.
       constructTransactionSet W rnd (\<lambda>i. output_pubkey (me_hd M) hd (int i) 0) amount w)"

text \<open>The outpoints of a stamp or a stealth payment: the bytes of each transaction and its output.\<close>

definition bundle_outpoints :: "'k tx_bundle list \<Rightarrow> (bytes \<times> nat list) list res" where
  "bundle_outpoints bs = fold_res (\<lambda>b xs. rmap (\<lambda>raw. xs @ [(raw, [b_vout b])]) (tx_toBuffer (b_tx b))) bs []"

record 'k built_message =
  bm_message :: wire_message
  bm_bundle :: "'k tx_bundle list"
  bm_digest :: bytes

text \<open>What is thrown carries the digest once there is one; coins of a set that was built stay frozen.\<close>

definition message_salt :: "'p msg_env \<Rightarrow> privkey \<Rightarrow> bytes \<Rightarrow> bytes" where
  "message_salt M source plaintext = sha256hmac (me_coder M) (XAddress.sha256 (me_coder M) plaintext) (priv_toBuffer source)"

definition wire_message_of ::
  "'p msg_env \<Rightarrow> 'p pubkey \<Rightarrow> 'p pubkey \<Rightarrow> bytes \<Rightarrow> bytes \<Rightarrow> bytes \<Rightarrow> (bytes \<times> nat list) list \<Rightarrow> wire_message" where
  "wire_message_of M src dest pay mac salt stamp =
     \<lparr>w_source = pk_toDER (me_curve M) src, w_destination = pk_toDER (me_curve M) dest, w_receivedTime = 0,
      w_payloadDigest = [], w_payload = pay, w_payloadHmac = mac, w_payloadSize = 0, w_salt = salt,
      w_stamp = Some stamp, w_scheme = 1\<rparr>"

definition finish_message ::
  "'p msg_env \<Rightarrow> bytes \<Rightarrow> bytes \<Rightarrow> bytes \<Rightarrow> bytes \<Rightarrow> privkey \<Rightarrow> 'p pubkey \<Rightarrow> 'k tx_bundle list \<Rightarrow> 'k built_message res" where
  "finish_message M pay mac salt digest source dest bs =
     rbind (bundle_outpoints bs) (\<lambda>stamp.
     rmap (\<lambda>src. \<lparr>bm_message = wire_message_of M src dest pay mac salt stamp, bm_bundle = bs, bm_digest = digest\<rparr>)
       (toPublicKey (me_curve M) (me_nets M) source))"

definition constructMessage ::
  "'p msg_env \<Rightarrow> ('k, 'p pubkey) wallet_env \<Rightarrow> (nat \<Rightarrow> nat) \<Rightarrow> bytes \<Rightarrow> privkey \<Rightarrow> 'p pubkey \<Rightarrow> nat \<Rightarrow> 'k wallet \<Rightarrow>
     (bytes option \<times> js_error + 'k built_message) \<times> 'k wallet" where
  "constructMessage M W rnd plaintext source dest amount w =
     (let salt = message_salt M source plaintext
      in case constructSharedKey (me_hd M) source dest salt of
           Inl e \<Rightarrow> (Inl (None, e), w)
         | Inr sharedKey \<Rightarrow>
             let pay = payload_encrypt (me_cipher M) sharedKey plaintext;
                 digest = XAddress.sha256 (me_coder M) pay;
                 mac = constructPayloadHmac (me_hd M) sharedKey digest
             in case constructStampTransactions M W rnd digest dest amount w of
                  Inl e \<Rightarrow> (Inl (Some digest, e), w)
                | Inr (bs, w1) \<Rightarrow>
                    (case finish_message M pay mac salt digest source dest bs of
                       Inl e \<Rightarrow> (Inl (Some digest, e), w1) | Inr bm \<Rightarrow> (Inr bm, w1)))"

section \<open>Messages open\<close>

text \<open>What the development relies on: the cipher inverts itself and pads, and SHA-256 has 32 bytes.\<close>

definition msg_env_ok :: "'p msg_env \<Rightarrow> bool" where
  "msg_env_ok M \<longleftrightarrow> env_ok (me_hd M) \<and> cipher_ok (me_cipher M) \<and>
     (\<forall>key iv p. cbc_encrypt (me_cipher M) key iv p \<noteq> []) \<and> (\<forall>b. length (XAddress.sha256 (me_coder M) b) = 32)"

lemma hmac_length: "(\<And>b. length (XAddress.sha256 K b) = 32) \<Longrightarrow> length (sha256hmac K data key) = 32"
  by (simp add: sha256hmac_def hmac_def hmac_pads_def Let_def)

lemma authenticate_iff:
  assumes "\<And>b. length (XAddress.sha256 (me_coder M) b) = 32" and "length (p_payloadHmac p) = 32"
  shows "authenticate M key p \<longleftrightarrow> p_payloadHmac p = constructPayloadHmac (me_hd M) key (p_payloadDigest p)"
proof -
  have l: "length (constructPayloadHmac (me_hd M) key (p_payloadDigest p)) = 32"
    using hmac_length assms(1) by (simp add: constructPayloadHmac_def)
  have "list_all (\<lambda>(i, v). nth_opt ys i = Some v) (enumerate 0 xs) \<longleftrightarrow> xs = ys" if "length xs = length ys"
    for xs ys :: bytes
    using that by (auto simp: list_all_length nth_enumerate_eq nth_opt_def list_eq_iff_nth_eq)
  then show ?thesis using l assms(2) by (simp add: authenticate_def)
qed

text \<open>The key of an identity that is read back from its bytes.\<close>

lemma read_identity:
  assumes E: "env_ok E" and "identity E priv pub"
  shows "\<exists>pub'. PublicKey (he_curve E) (he_nets E) (PkBuffer (pk_toDER (he_curve E) pub)) no_extra = Inr pub' \<and>
    identity E priv pub'"
proof -
  have C: "curve_ok (he_curve E)" using E by (simp add: env_ok_def)
  have oc: "on_curve (he_curve E) (point pub)"
    using on_curve_gmul [OF C] assms(2) by (auto simp: identity_def in_range_def)
  from transformDER_toDER [OF C oc] validate_on_curve [OF C oc] assms(2) show ?thesis
    by (auto simp: PublicKey_def classifyArgs_def make_pubkey_def identity_def Let_def)
qed

lemma toPublicKey_identity:
  assumes E: "env_ok E" and "in_range (he_curve E) (bn priv)"
  shows "\<exists>pub. toPublicKey (he_curve E) (he_nets E) priv = Inr pub \<and> identity E priv pub"
proof -
  have C: "curve_ok (he_curve E)" using E by (simp add: env_ok_def)
  have oc: "on_curve (he_curve E) (gmul (he_curve E) (bn priv))"
    using on_curve_gmul [OF C] assms(2) by (auto simp: in_range_def)
  from validate_on_curve [OF C oc] assms(2) show ?thesis
    by (auto simp: toPublicKey_def fromPrivateKey_def PublicKey_def classifyArgs_def transformPrivateKey_def
        make_pubkey_def identity_def gmul_def Let_def)
qed

lemma sharedKey_agrees:
  assumes E: "env_ok E" and "identity E a pa" and "identity E b pb"
  shows "constructSharedKey E a pb salt = constructSharedKey E b pa salt" "\<exists>k. constructSharedKey E a pb salt = Inr k"
proof -
  have r: "in_range (he_curve E) (bn a)" "in_range (he_curve E) (bn b)" using assms by (simp_all add: identity_def)
  from constructMergedKey_eq [OF E r(1) assms(3)] constructMergedKey_eq [OF E r(2) assms(2)]
  show "constructSharedKey E a pb salt = constructSharedKey E b pa salt" "\<exists>k. constructSharedKey E a pb salt = Inr k"
    by (simp_all add: constructSharedKey_def mult.commute)
qed

lemma identity_unique_shared:
  assumes E: "env_ok E" and "identity E b pb" and "identity E b pb'" and "in_range (he_curve E) (bn a)"
  shows "constructSharedKey E a pb salt = constructSharedKey E a pb' salt"
  using constructMergedKey_eq [OF E assms(4)] assms(2,3) by (simp add: constructSharedKey_def)

lemma constructed_opens:
  assumes "msg_env_ok M" and "identity (me_hd M) dk dest" and "in_range (me_curve M) (bn source)"
    and "constructMessage M W rnd plaintext source dest amount w = (Inr bm, w1)"
  shows "\<exists>p. wire_parse M (bm_message bm) = Inr p \<and> p_payloadDigest p = bm_digest bm \<and>
    identity (me_hd M) source (p_source p) \<and> identity (me_hd M) dk (p_destination p) \<and>
    message_open M dk p = Inr plaintext \<and> message_openSelf M source p = Inr plaintext"
proof -
  let ?E = "me_hd M" and ?K = "me_coder M"
  have E: "env_ok ?E" and A: "cipher_ok (me_cipher M)" and pad: "\<And>key iv p. cbc_encrypt (me_cipher M) key iv p \<noteq> []"
    and sha: "\<And>b. length (XAddress.sha256 ?K b) = 32" using assms(1) by (simp_all add: msg_env_ok_def)
  define salt where "salt = message_salt M source plaintext"
  obtain key where key: "constructSharedKey ?E source dest salt = Inr key"
    using assms(4) by (auto simp: constructMessage_def salt_def Let_def split: sum.splits)
  define pay where "pay = payload_encrypt (me_cipher M) key plaintext"
  define digest where "digest = XAddress.sha256 ?K pay"
  define mac where "mac = constructPayloadHmac ?E key digest"
  obtain bs stamp pub where src: "toPublicKey (he_curve ?E) (he_nets ?E) source = Inr pub"
    and bm: "bm = \<lparr>bm_message = wire_message_of M pub dest pay mac salt stamp, bm_bundle = bs, bm_digest = digest\<rparr>"
    using assms(4) key
    by (auto simp: constructMessage_def salt_def [symmetric] pay_def [symmetric] digest_def [symmetric] mac_def [symmetric]
        finish_message_def rbind_Inr_iff rmap_Inr_iff Let_def split: sum.splits prod.splits)
  have sid: "identity ?E source pub" using toPublicKey_identity [OF E assms(3)] src by simp
  obtain ps pd where ps: "PublicKey (he_curve ?E) (he_nets ?E) (PkBuffer (pk_toDER (he_curve ?E) pub)) no_extra = Inr ps"
      "identity ?E source ps"
    and pd: "PublicKey (he_curve ?E) (he_nets ?E) (PkBuffer (pk_toDER (he_curve ?E) dest)) no_extra = Inr pd"
      "identity ?E dk pd"
    using read_identity [OF E sid] read_identity [OF E assms(2)] by blast
  have lk: "length key = 32"
    using key hmac_length [OF sha] by (auto simp: constructSharedKey_def rmap_Inr_iff)
  have lm: "length mac = 32" using hmac_length [OF sha] by (simp add: mac_def constructPayloadHmac_def)
  have ne: "pay \<noteq> []" using pad by (simp add: pay_def payload_encrypt_def)
  define p where "p = \<lparr>p_source = ps, p_destination = pd, p_receivedTime = 0, p_salt = salt, p_stamp = stamp,
    p_scheme = 1, p_payloadDigest = digest, p_payloadHmac = mac, p_payloadSize = length pay, p_payload = pay\<rparr>"
  have parse: "wire_parse M (bm_message bm) = Inr p"
    using ps(1) pd(1) lm ne by (simp add: wire_parse_def bm wire_message_of_def wire_digest_def digest_def p_def)
  have auth: "authenticate M key p" using authenticate_iff [OF sha, of p key] lm by (simp add: p_def mac_def)
  have opened: "open_with M p key = Inr plaintext"
    using auth decrypt_encrypt [OF A lk] by (simp add: open_with_def parsed_decrypt_def p_def EPHEMERALDH_def pay_def)
  have "constructSharedKey ?E dk ps salt = Inr key"
    using sharedKey_agrees(1) [OF E ps(2) assms(2)] key by simp
  moreover have "constructSharedKey ?E source pd salt = Inr key"
    using identity_unique_shared [OF E assms(2) pd(2) assms(3)] key by simp
  ultimately show ?thesis
    using parse ps(2) pd(2) opened
    by (simp add: message_open_def message_openSelf_def parsed_sharedKey_def parsed_sharedKeySelf_def)
       (simp add: p_def bm)
qed

text \<open>
  C6. A message that was constructed is parsed, and opens to its plain text with the recipient's private
  key, and with the sender's.
\<close>

theorem message_opens:
  assumes "msg_env_ok M" and "identity (me_hd M) dk dest" and "in_range (me_curve M) (bn source)"
    and "constructMessage M W rnd plaintext source dest amount w = (Inr bm, w1)"
  shows "\<exists>p. wire_parse M (bm_message bm) = Inr p \<and> p_payloadDigest p = bm_digest bm \<and>
    identity (me_hd M) source (p_source p) \<and> identity (me_hd M) dk (p_destination p) \<and>
    message_open M dk p = Inr plaintext \<and> message_openSelf M source p = Inr plaintext"
  using assms by (rule constructed_opens)

text \<open>
  C10. Whoever opens a parsed message has checked it: the payload that is there hashes to its digest, and the
  code of the envelope is the keyed hash of that digest under the shared key.
\<close>

theorem opened_is_authentic:
  assumes "\<And>b. length (XAddress.sha256 (me_coder M) b) = 32"
    and "wire_parse M m = Inr p" and "message_open M dk p = Inr plaintext"
  shows "\<exists>key. constructSharedKey (me_hd M) dk (p_source p) (w_salt m) = Inr key \<and>
    w_payloadHmac m = constructPayloadHmac (me_hd M) key (p_payloadDigest p) \<and>
    w_scheme m = EPHEMERALDH \<and> plaintext = payload_decrypt (me_cipher M) key (w_payload m) \<and>
    (w_payload m \<noteq> [] \<longrightarrow> p_payloadDigest p = XAddress.sha256 (me_coder M) (w_payload m))"
proof -
  obtain dg where p: "p_salt p = w_salt m" "p_payloadHmac p = w_payloadHmac m" "length (w_payloadHmac m) = 32"
      "p_payload p = w_payload m" "p_scheme p = w_scheme m" "p_payloadDigest p = dg" "wire_digest M m = Inr dg"
    using assms(2) by (auto simp: wire_parse_def rbind_Inr_iff split: if_splits option.splits)
  obtain key where k: "constructSharedKey (me_hd M) dk (p_source p) (w_salt m) = Inr key" "open_with M p key = Inr plaintext"
    using assms(3) p(1) by (auto simp: message_open_def parsed_sharedKey_def rbind_Inr_iff)
  have a: "authenticate M key p" and d: "parsed_decrypt M key p = Inr plaintext"
    using k(2) by (auto simp: open_with_def split: if_splits)
  have "w_payloadHmac m = constructPayloadHmac (me_hd M) key (p_payloadDigest p)"
    using authenticate_iff [OF assms(1), of p key] a p by simp
  moreover have "w_payload m \<noteq> [] \<longrightarrow> dg = XAddress.sha256 (me_coder M) (w_payload m)"
    using p(7) by (auto simp: wire_digest_def Let_def split: if_splits)
  ultimately show ?thesis using k(1) d p by (auto simp: parsed_decrypt_def split: if_splits)
qed

section \<open>Witnesses\<close>

definition demo_cipher :: cipher where
  "demo_cipher = \<lparr>cbc_encrypt = (\<lambda>key iv p. p @ [1]), cbc_decrypt = (\<lambda>key iv c. butlast c)\<rparr>"

definition demo_msg_env :: "nat msg_env" where
  "demo_msg_env = \<lparr>me_hd = agree_env, me_cipher = demo_cipher, me_valid = (\<lambda>_. True),
     networkName = ''xec-livenet'', displayNetwork = ''xec-livenet''\<rparr>"

lemma demo_msg_env_ok: "msg_env_ok demo_msg_env"
  using agree_env_ok by (simp add: msg_env_ok_def demo_msg_env_def cipher_ok_def demo_cipher_def agree_env_def)

definition demo_key :: "nat \<Rightarrow> privkey" where "demo_key d = plain_privkey livenet d"
definition demo_pub :: "nat \<Rightarrow> nat pubkey" where "demo_pub d = plain_pubkey (me_curve demo_msg_env) livenet d"

lemma demo_identity: "0 < d \<Longrightarrow> d < 7 \<Longrightarrow> identity (me_hd demo_msg_env) (demo_key d) (demo_pub d)"
  using agree_identity agree_range by (simp add: demo_msg_env_def demo_key_def demo_pub_def)

lemma demo_range: "0 < d \<Longrightarrow> d < 7 \<Longrightarrow> in_range (me_curve demo_msg_env) (bn (demo_key d))"
  using demo_identity by (simp add: identity_def)

lemma demo_message:
  fixes W :: "('k, nat pubkey) wallet_env"
  shows "\<exists>bm. constructMessage demo_msg_env W rnd [7, 8] (demo_key 3) (demo_pub 2) 0 w = (Inr bm, w)"
proof -
  let ?E = "me_hd demo_msg_env"
  have E: "env_ok ?E" using demo_msg_env_ok by (simp add: msg_env_ok_def)
  have ids: "identity ?E (demo_key 3) (demo_pub 3)" "identity ?E (demo_key 2) (demo_pub 2)" by (simp_all add: demo_identity)
  obtain key where key: "constructSharedKey ?E (demo_key 3) (demo_pub 2) (message_salt demo_msg_env (demo_key 3) [7, 8]) = Inr key"
    using sharedKey_agrees(2) [OF E ids] by blast
  have sha: "XAddress.sha256 (me_coder demo_msg_env) b = be_bytes 32 1" for b by (simp add: demo_msg_env_def agree_env_def)
  have h: "0 \<le> (0 :: int)" "0 < Hardened" by (simp_all add: Hardened_def)
  obtain hd where hd: "constructStampHDPublicKey ?E ''xec-livenet'' (be_bytes 32 1) (demo_pub 2) = Inr hd"
    using agree_root [OF h h]
    by (auto simp: constructStampHDPublicKey_def constructStampPublicKey_def demo_msg_env_def demo_pub_def)
  obtain pub where pub: "toPublicKey (he_curve ?E) (he_nets ?E) (demo_key 3) = Inr pub"
    using toPublicKey_identity [OF E demo_range [of 3]] by auto
  have "networkName demo_msg_env = ''xec-livenet''" by (simp add: demo_msg_env_def)
  then show ?thesis
    using key hd pub
    by (auto simp: constructMessage_def constructStampTransactions_def sha finish_message_def bundle_outpoints_def Let_def)
qed

theorem message_opens_witness:
  "\<forall>(W :: (nat, nat pubkey) wallet_env) w. \<exists>bm p.
    constructMessage demo_msg_env W (\<lambda>_. 0) [7, 8] (demo_key 3) (demo_pub 2) 0 w = (Inr bm, w) \<and>
    wire_parse demo_msg_env (bm_message bm) = Inr p \<and> message_open demo_msg_env (demo_key 2) p = Inr [7, 8]"
proof (intro allI)
  fix W :: "(nat, nat pubkey) wallet_env" and w
  obtain bm where bm: "constructMessage demo_msg_env W (\<lambda>_. 0) [7, 8] (demo_key 3) (demo_pub 2) 0 w = (Inr bm, w)"
    using demo_message by blast
  have "identity (me_hd demo_msg_env) (demo_key 2) (demo_pub 2)" by (simp add: demo_identity)
  from message_opens [OF demo_msg_env_ok this demo_range bm] bm
  show "\<exists>bm p. constructMessage demo_msg_env W (\<lambda>_. 0) [7, 8] (demo_key 3) (demo_pub 2) 0 w = (Inr bm, w) \<and>
    wire_parse demo_msg_env (bm_message bm) = Inr p \<and> message_open demo_msg_env (demo_key 2) p = Inr [7, 8]" by auto
qed

theorem opened_is_authentic_witness:
  "\<exists>m p key. wire_parse demo_msg_env m = Inr p \<and> message_open demo_msg_env (demo_key 2) p = Inr [7, 8] \<and>
    w_payloadHmac m = constructPayloadHmac (me_hd demo_msg_env) key (p_payloadDigest p)"
proof -
  obtain bm where bm: "constructMessage demo_msg_env (undefined :: (nat, nat pubkey) wallet_env) (\<lambda>_. 0) [7, 8] (demo_key 3)
      (demo_pub 2) 0 undefined = (Inr bm, undefined)"
    using demo_message by blast
  have "identity (me_hd demo_msg_env) (demo_key 2) (demo_pub 2)" by (simp add: demo_identity)
  from constructed_opens [OF demo_msg_env_ok this demo_range bm] obtain p where
    p: "wire_parse demo_msg_env (bm_message bm) = Inr p" "message_open demo_msg_env (demo_key 2) p = Inr [7, 8]" by auto
  have sha: "length (XAddress.sha256 (me_coder demo_msg_env) b) = 32" for b using demo_msg_env_ok by (simp add: msg_env_ok_def)
  from opened_is_authentic [OF sha p] p show ?thesis by blast
qed

end
