(* ===== verification/Receive.thy ===== *)
theory Receive
  imports Messages
begin

text \<open>
  \<^verbatim>\<open>receiveMessage\<close>, \<^verbatim>\<open>receiveSelfSend\<close> and \<^verbatim>\<open>deriveReceivedStampKeys\<close> of \<^verbatim>\<open>src/cashweb/relay/index.ts\<close>, and
  \<^verbatim>\<open>decode-entry.ts\<close>: what an incoming message does to the wallet.  The store of the wallet is threaded
  through, and an exception keeps the changes made before it.  A message is handled as one operation: the payloads
  the handler fetches are arguments, and nothing else changes the store while it waits for them.
\<close>

section \<open>Surroundings\<close>

record entry =
  en_kind :: string
  en_body :: bytes
  en_headers :: "(string \<times> string) list"

text \<open>
  The message store and the relay as the handler sees them, the readers of the protocol buffers inside a
  payload, the decoder of text and base 64.
\<close>

record receiver =
  rc_known :: "string \<Rightarrow> bool"
  rc_fetch :: "string \<Rightarrow> bytes \<Rightarrow> bytes res"
  rc_entries :: "bytes \<Rightarrow> entry list res"
  rc_stealth :: "bytes \<Rightarrow> (bytes \<times> (bytes \<times> nat list) list) res"
  rc_p2pkh :: "bytes \<Rightarrow> bytes res"
  rc_text :: "bytes \<Rightarrow> string"
  rc_base64 :: "bytes \<Rightarrow> string"
  rc_identity :: "privkey option"
  rc_address :: "string option"

type_synonym coins = "privkey utxo_store"

text \<open>An outpoint of a message has no key.\<close>

definition message_outpoint :: "string \<Rightarrow> string \<Rightarrow> nat \<Rightarrow> string \<Rightarrow> nat \<Rightarrow> unit utxo" where
  "message_outpoint kind addr sats tid k =
     \<lparr>address = addr, privKey = (), amount_sats = sats, txId = tid, vout = k, utype = kind, frozen = False\<rparr>"

definition spendable :: "privkey \<Rightarrow> unit utxo \<Rightarrow> privkey utxo" where
  "spendable k u = \<lparr>address = utxo.address u, privKey = k, amount_sats = amount_sats u, txId = txId u,
     vout = utxo.vout u, utype = utype u, frozen = frozen u\<rparr>"

definition hash256d :: "'p msg_env \<Rightarrow> bytes \<Rightarrow> bytes" where
  "hash256d M b = XAddress.sha256 (me_coder M) (XAddress.sha256 (me_coder M) b)"

text \<open>The inputs of a transaction the user sent leave the wallet.\<close>

definition delete_inputs :: "tx \<Rightarrow> coins \<Rightarrow> coins" where
  "delete_inputs t s = fold (\<lambda>i. deleteById (calcId (to_hex (prevTxId i)) (outputIndex i))) (inputs t) s"

text \<open>\<^verbatim>\<open>toBuffer\<close> and \<^verbatim>\<open>toCashAddress\<close> of what \<^verbatim>\<open>toAddress\<close> returned: \<^verbatim>\<open>false\<close> has neither.\<close>

definition address_bytes :: "address option \<Rightarrow> bytes res" where
  "address_bytes a = (case a of None \<Rightarrow> Inl TypeErr | Some a \<Rightarrow> Inr (address_toBuffer a))"

definition address_text :: "address option \<Rightarrow> string res" where
  "address_text a = (case a of None \<Rightarrow> Inl TypeErr | Some a \<Rightarrow> toCashAddress False a)"

definition computed_address :: "'p msg_env \<Rightarrow> privkey \<Rightarrow> address res" where
  "computed_address M k =
     rbind (computed_pubkey (me_hd M) k) (\<lambda>pub. pub_toAddress M pub (networkName M))"

text \<open>An outgoing transaction is not compared: its outputs belong to the other party.\<close>

definition address_matches :: "bool \<Rightarrow> address option \<Rightarrow> address \<Rightarrow> bool res" where
  "address_matches outbound found computed =
     (if outbound then Inr True else rmap (\<lambda>b. b = address_toBuffer computed) (address_bytes found))"

section \<open>Stamps\<close>

record receipt =
  rr_outpoints :: "unit utxo list"
  rr_value :: nat
  rr_coins :: coins

text \<open>
  One output of a stamp transaction: the output and its address, the amount that is counted, the
  derived key and the address computed of it.
\<close>

definition child_privkey :: "'p msg_env \<Rightarrow> 'p hdpriv \<Rightarrow> int \<Rightarrow> privkey res" where
  "child_privkey M k i = rmap pr_privateKey (priv_path (me_hd M) [i] k)"

definition output_found :: "'p msg_env \<Rightarrow> tx \<Rightarrow> nat \<Rightarrow> (tx_output \<times> address option) res" where
  "output_found M t k =
     (case nth_opt (outputs t) k of None \<Rightarrow> Inl TypeErr
      | Some out \<Rightarrow> rmap (\<lambda>a. (out, a)) (output_toAddress M out (networkName M)))"

definition output_key :: "'p msg_env \<Rightarrow> bool \<Rightarrow> address option \<Rightarrow> privkey res \<Rightarrow> (privkey \<times> bool) res" where
  "output_key M outbound a key =
     rbind key (\<lambda>k. rbind (computed_address M k) (\<lambda>c. rmap (\<lambda>b. (k, b)) (address_matches outbound a c)))"

definition add_coin :: "bool \<Rightarrow> privkey \<Rightarrow> unit utxo \<Rightarrow> coins \<Rightarrow> coins" where
  "add_coin outbound k u s = (if outbound then s else UtxoStore.put (spendable k u) s)"

definition stamp_output ::
  "'p msg_env \<Rightarrow> bool \<Rightarrow> 'p hdpriv \<Rightarrow> tx \<Rightarrow> string \<Rightarrow> nat \<Rightarrow> nat \<Rightarrow> receipt \<Rightarrow> js_error option \<times> receipt" where
  "stamp_output M outbound txKey t tid j k r =
     (case output_found M t k of Inl e \<Rightarrow> (Some e, r)
      | Inr (out, a) \<Rightarrow>
          let r1 = r\<lparr>rr_value := add_double (rr_value r) (satoshis out)\<rparr>
          in case output_key M outbound a (child_privkey M txKey (int j)) of
               Inl e \<Rightarrow> (Some e, r1)
             | Inr (key, matches) \<Rightarrow>
                 if \<not> matches then (None, r1)
                 else case address_text a of
                        Inl e \<Rightarrow> (Some e, r1)
                      | Inr text_a \<Rightarrow>
                          let u = message_outpoint ''stamp'' text_a (satoshis out) tid k
                          in (None, r1\<lparr>rr_outpoints := rr_outpoints r1 @ [u], rr_coins := add_coin outbound key u (rr_coins r1)\<rparr>))"

fun received_outputs :: "'p msg_env \<Rightarrow> bool \<Rightarrow> 'p hdpriv \<Rightarrow> tx \<Rightarrow> string \<Rightarrow> nat \<Rightarrow> nat list \<Rightarrow> receipt \<Rightarrow> js_error option \<times> receipt" where
  "received_outputs M outbound txKey t tid j [] r = (None, r)"
| "received_outputs M outbound txKey t tid j (k # ks) r =
     (case stamp_output M outbound txKey t tid j k r of
        (Some e, r1) \<Rightarrow> (Some e, r1) | (None, r1) \<Rightarrow> received_outputs M outbound txKey t tid (Suc j) ks r1)"

text \<open>The transaction, its tid and the key for it, and then the inputs of an outgoing one are deleted.\<close>

definition read_tx :: "'p msg_env \<Rightarrow> bytes \<Rightarrow> (tx \<times> string) res" where
  "read_tx M raw = rbind (tx_fromBuffer raw) (\<lambda>t. rmap (\<lambda>tid. (t, tid)) (txid (hash256d M) t))"

definition sent_inputs :: "bool \<Rightarrow> tx \<Rightarrow> receipt \<Rightarrow> receipt" where
  "sent_inputs outbound t r = (if outbound then r\<lparr>rr_coins := delete_inputs t (rr_coins r)\<rparr> else r)"

fun received_txs :: "'p msg_env \<Rightarrow> bool \<Rightarrow> 'p hdpriv \<Rightarrow> nat \<Rightarrow> (bytes \<times> nat list) list \<Rightarrow> receipt \<Rightarrow> js_error option \<times> receipt" where
  "received_txs M outbound base i [] r = (None, r)"
| "received_txs M outbound base i ((raw, ks) # rest) r =
     (case rbind (read_tx M raw) (\<lambda>(t, tid). rmap (\<lambda>k. (t, tid, k)) (priv_path (me_hd M) [int i] base)) of
        Inl e \<Rightarrow> (Some e, r)
      | Inr (t, tid, txKey) \<Rightarrow>
          (case received_outputs M outbound txKey t tid 0 ks (sent_inputs outbound t r) of
             (Some e, r1) \<Rightarrow> (Some e, r1) | (None, r1) \<Rightarrow> received_txs M outbound base (Suc i) rest r1))"

definition stamp_base :: "'p msg_env \<Rightarrow> bytes \<Rightarrow> privkey \<Rightarrow> 'p hdpriv res" where
  "stamp_base M digest ik =
     rbind (constructStampHDPrivateKey (me_hd M) (networkName M) digest ik) (priv_path (me_hd M) [44, 145])"

section \<open>Entries\<close>

datatype item = ReplyItem string | TextItem string | StealthItem nat | ImageItem string

text \<open>The outputs of a stealth payment: \<open>None\<close> as soon as one is not for this identity.\<close>

record stealth_state =
  ss_outpoints :: "unit utxo list"
  ss_value :: nat
  ss_coins :: coins

datatype 'a entry_result = Failed js_error | Ignored | Done 'a

fun stealth_outputs ::
  "'p msg_env \<Rightarrow> bool \<Rightarrow> 'p hdpriv \<Rightarrow> tx \<Rightarrow> string \<Rightarrow> nat \<Rightarrow> nat \<Rightarrow> nat list \<Rightarrow> stealth_state \<Rightarrow>
     unit entry_result \<times> stealth_state" where
  "stealth_outputs M outbound base t tid i j [] s = (Done (), s)"
| "stealth_outputs M outbound base t tid i j (k # ks) s =
     (case nth_opt (outputs t) k of None \<Rightarrow> (Failed TypeErr, s)
      | Some out \<Rightarrow>
          (case rbind (output_privkey (me_hd M) base (int i) (int j)) (\<lambda>key.
                rbind (output_toAddress M out (networkName M)) (\<lambda>a. rmap (\<lambda>x. (a, x)) (output_key M outbound a (Inr key)))) of
             Inl e \<Rightarrow> (Failed e, s)
           | Inr (a, key, matches) \<Rightarrow>
               if \<not> matches then (Ignored, s)
               else let s1 = s\<lparr>ss_value := add_double (ss_value s) (satoshis out)\<rparr>
                    in case address_text a of
                         Inl e \<Rightarrow> (Failed e, s1)
                       | Inr text_a \<Rightarrow>
                           let u = message_outpoint ''stealth'' text_a (satoshis out) tid k
                           in stealth_outputs M outbound base t tid i (Suc j) ks
                                (s1\<lparr>ss_outpoints := ss_outpoints s1 @ [u], ss_coins := add_coin outbound key u (ss_coins s1)\<rparr>)))"

fun stealth_txs ::
  "'p msg_env \<Rightarrow> bool \<Rightarrow> 'p hdpriv \<Rightarrow> nat \<Rightarrow> (bytes \<times> nat list) list \<Rightarrow> stealth_state \<Rightarrow> unit entry_result \<times> stealth_state" where
  "stealth_txs M outbound base i [] s = (Done (), s)"
| "stealth_txs M outbound base i ((raw, ks) # rest) s =
     (case read_tx M raw of
        Inl e \<Rightarrow> (Failed e, s)
      | Inr (t, tid) \<Rightarrow>
          let s1 = (if outbound then s\<lparr>ss_coins := delete_inputs t (ss_coins s)\<rparr> else s)
          in case stealth_outputs M outbound base t tid i 0 ks s1 of
               (Done (), s2) \<Rightarrow> stealth_txs M outbound base (Suc i) rest s2
             | (x, s2) \<Rightarrow> (x, s2))"

definition stealth_start ::
  "'p msg_env \<Rightarrow> receiver \<Rightarrow> privkey \<Rightarrow> bytes \<Rightarrow> ('p hdpriv \<times> (bytes \<times> nat list) list) res" where
  "stealth_start M R ik body =
     rbind (rc_stealth R body) (\<lambda>(ephemeral, outs).
     rbind (pk_fromDER (me_curve M) (me_nets M) ephemeral None) (\<lambda>pub.
     rmap (\<lambda>base. (base, outs)) (constructHDStealthPrivateKey (me_hd M) (networkName M) pub ik)))"

definition entryToImage :: "receiver \<Rightarrow> entry \<Rightarrow> string res" where
  "entryToImage R e =
     (case en_headers e of [] \<Rightarrow> Inl TypeErr
      | (_, value) # _ \<Rightarrow> Inr (''data:'' @ value @ '';base64,'' @ rc_base64 R (en_body e)))"

definition decodeEntry ::
  "'p msg_env \<Rightarrow> receiver \<Rightarrow> privkey \<Rightarrow> bool \<Rightarrow> entry \<Rightarrow> coins \<Rightarrow> (item \<times> unit utxo list) entry_result \<times> coins" where
  "decodeEntry M R ik outbound e s =
     (if en_kind e = ''reply'' then (Done (ReplyItem (to_hex (en_body e)), []), s)
      else if en_kind e = ''text-utf8'' then (Done (TextItem (rc_text R (en_body e)), []), s)
      else if en_kind e = ''stealth-payment''
      then (case stealth_start M R ik (en_body e) of
              Inl err \<Rightarrow> (Failed err, s)
            | Inr (base, outs) \<Rightarrow>
                (case stealth_txs M outbound base 0 outs \<lparr>ss_outpoints = [], ss_value = 0, ss_coins = s\<rparr> of
                   (Done (), s1) \<Rightarrow> (Done (StealthItem (ss_value s1), ss_outpoints s1), ss_coins s1)
                 | (Ignored, s1) \<Rightarrow> (Ignored, ss_coins s1)
                 | (Failed err, s1) \<Rightarrow> (Failed err, ss_coins s1)))
      else if en_kind e = ''image''
      then (case entryToImage R e of Inl err \<Rightarrow> (Failed err, s) | Inr i \<Rightarrow> (Done (ImageItem i, []), s))
      else (Ignored, s))"

fun decode_entries ::
  "'p msg_env \<Rightarrow> receiver \<Rightarrow> privkey \<Rightarrow> bool \<Rightarrow> entry list \<Rightarrow> item list \<times> unit utxo list \<Rightarrow> coins \<Rightarrow>
     (item list \<times> unit utxo list) res \<times> coins" where
  "decode_entries M R ik outbound [] acc s = (Inr acc, s)"
| "decode_entries M R ik outbound (e # es) (items, outs) s =
     (case decodeEntry M R ik outbound e s of
        (Failed err, s1) \<Rightarrow> (Inl err, s1)
      | (Ignored, s1) \<Rightarrow> decode_entries M R ik outbound es (items, outs) s1
      | (Done (i, us), s1) \<Rightarrow> decode_entries M R ik outbound es (items @ [i], outs @ us) s1)"

text \<open>A message to oneself: the coins a payment to an address spent leave the wallet.\<close>

fun receiveSelfSend :: "receiver \<Rightarrow> entry list \<Rightarrow> coins \<Rightarrow> js_error option \<times> coins" where
  "receiveSelfSend R [] s = (None, s)"
| "receiveSelfSend R (e # es) s =
     (if en_kind e = ''p2pkh''
      then (case rbind (rc_p2pkh R (en_body e)) tx_fromBuffer of
              Inl err \<Rightarrow> (Some err, s) | Inr t \<Rightarrow> receiveSelfSend R es (delete_inputs t s))
      else receiveSelfSend R es s)"

section \<open>The handler\<close>

record 'p received =
  rv_outbound :: bool
  rv_senderAddress :: string
  rv_copartyAddress :: string
  rv_copartyPubKey :: "'p pubkey"
  rv_index :: string
  rv_stampValue :: nat
  rv_items :: "item list"
  rv_serverTime :: int
  rv_receivedTime :: int
  rv_outpoints :: "unit utxo list"
  rv_destinationAddress :: string

text \<open>What is known before the wallet is touched; \<open>None\<close> when the message is passed over.\<close>

record 'p accepted_message =
  ac_parsed :: "'p parsed_message"
  ac_sender :: string
  ac_me :: string
  ac_digest :: bytes
  ac_destination :: string
  ac_identity :: privkey
  ac_base :: "'p hdpriv"

definition required :: "'a option \<Rightarrow> 'a res" where
  "required x = (case x of None \<Rightarrow> Inl (LibError ''AssertionError'') | Some a \<Rightarrow> Inr a)"

definition payload_of :: "receiver \<Rightarrow> string \<Rightarrow> 'p parsed_message \<Rightarrow> bytes res" where
  "payload_of R me p = (if p_payload p \<noteq> [] then Inr (p_payload p) else rc_fetch R me (p_payloadDigest p))"

definition accept_message :: "'p msg_env \<Rightarrow> receiver \<Rightarrow> wire_message \<Rightarrow> 'p accepted_message option res" where
  "accept_message M R m =
     rbind (wire_parse M m) (\<lambda>p0.
     rbind (pub_cashAddress M (p_source p0) (displayNetwork M)) (\<lambda>sender.
     rbind (required (rc_address R)) (\<lambda>me.
       if p_payloadDigest p0 \<noteq> [] \<and> rc_known R (to_hex (p_payloadDigest p0)) then Inr None
       else rbind (payload_of R me p0) (\<lambda>raw.
         let p = p0\<lparr>p_payload := raw\<rparr>; digest = XAddress.sha256 (me_coder M) raw
         in if digest \<noteq> p_payloadDigest p then Inr None
            else rbind (pub_cashAddress M (p_destination p) (displayNetwork M)) (\<lambda>dest.
                 rbind (required (rc_identity R)) (\<lambda>ik.
                 rmap (\<lambda>base. Some \<lparr>ac_parsed = p, ac_sender = sender, ac_me = me, ac_digest = digest,
                     ac_destination = dest, ac_identity = ik, ac_base = base\<rparr>)
                   (stamp_base M digest ik)))))))"

text \<open>The message is opened only after the coins of the stamp were added or taken away.\<close>

definition open_accepted :: "'p msg_env \<Rightarrow> receiver \<Rightarrow> bool \<Rightarrow> 'p accepted_message \<Rightarrow> entry list res" where
  "open_accepted M R outbound a =
     rbind (if outbound then message_openSelf M (ac_identity a) (ac_parsed a)
            else message_open M (ac_identity a) (ac_parsed a)) (rc_entries R)"

definition finalized_message ::
  "'p msg_env \<Rightarrow> bool \<Rightarrow> 'p accepted_message \<Rightarrow> int \<Rightarrow> nat \<Rightarrow> item list \<times> unit utxo list \<Rightarrow> 'p received res" where
  "finalized_message M outbound a now value contents =
     (let p = ac_parsed a; coparty = (if outbound then p_destination p else p_source p)
      in rmap (\<lambda>addr. \<lparr>rv_outbound = outbound, rv_senderAddress = ac_sender a, rv_copartyAddress = addr,
             rv_copartyPubKey = coparty, rv_index = to_hex (ac_digest a), rv_stampValue = value, rv_items = fst contents,
             rv_serverTime = p_receivedTime p, rv_receivedTime = now, rv_outpoints = snd contents,
             rv_destinationAddress = ac_destination a\<rparr>)
           (pub_cashAddress M coparty (displayNetwork M)))"

definition process_accepted ::
  "'p msg_env \<Rightarrow> receiver \<Rightarrow> int \<Rightarrow> 'p accepted_message \<Rightarrow> coins \<Rightarrow> 'p received option res \<times> coins" where
  "process_accepted M R now a s =
     (let outbound = (ac_sender a = ac_me a)
      in case received_txs M outbound (ac_base a) 0 (p_stamp (ac_parsed a)) \<lparr>rr_outpoints = [], rr_value = 0, rr_coins = s\<rparr> of
           (Some e, r) \<Rightarrow> (Inl e, rr_coins r)
         | (None, r) \<Rightarrow>
             (case open_accepted M R outbound a of
                Inl e \<Rightarrow> (Inl e, rr_coins r)
              | Inr entries \<Rightarrow>
                  if outbound \<and> ac_me a = ac_destination a
                  then (case receiveSelfSend R entries (rr_coins r) of
                          (Some e, s1) \<Rightarrow> (Inl e, s1) | (None, s1) \<Rightarrow> (Inr None, s1))
                  else (case decode_entries M R (ac_identity a) outbound entries ([], rr_outpoints r) (rr_coins r) of
                          (Inl e, s1) \<Rightarrow> (Inl e, s1)
                        | (Inr contents, s1) \<Rightarrow> (rmap Some (finalized_message M outbound a now (rr_value r) contents), s1))))"

definition receiveMessage ::
  "'p msg_env \<Rightarrow> receiver \<Rightarrow> int \<Rightarrow> wire_message \<Rightarrow> coins \<Rightarrow> 'p received option res \<times> coins" where
  "receiveMessage M R now m s =
     (case accept_message M R m of
        Inl e \<Rightarrow> (Inl e, s) | Inr None \<Rightarrow> (Inr None, s) | Inr (Some a) \<Rightarrow> process_accepted M R now a s)"

section \<open>Deriving the keys of a stored message again\<close>

text \<open>The stored stamps grouped by transaction, in the order they were met.\<close>

fun group_stamps :: "'k utxo list \<Rightarrow> (string \<times> 'k utxo list) list \<Rightarrow> (string \<times> 'k utxo list) list" where
  "group_stamps [] gs = gs"
| "group_stamps (u # us) gs =
     group_stamps us (if txId u \<in> set (map fst gs)
       then map (\<lambda>(t, vs). if t = txId u then (t, vs @ [u]) else (t, vs)) gs else gs @ [(txId u, [u])])"

definition digest_text :: "string \<Rightarrow> bool" where
  "digest_text s \<longleftrightarrow> length s = 64 \<and> list_all (\<lambda>c. hex_value c \<noteq> None) s"

fun derive_group ::
  "'p msg_env \<Rightarrow> 'p hdpriv \<Rightarrow> nat \<Rightarrow> unit utxo list \<Rightarrow> (unit utxo \<times> privkey) list res" where
  "derive_group M txKey j [] = Inr []"
| "derive_group M txKey j (u # us) =
     rbind (child_privkey M txKey (int j)) (\<lambda>k.
     rbind (rbind (computed_address M k) (toCashAddress False)) (\<lambda>addr.
     rmap (\<lambda>xs. if utxo.address u \<noteq> addr then xs else (u, k) # xs) (derive_group M txKey (Suc j) us)))"

fun derive_groups ::
  "'p msg_env \<Rightarrow> 'p hdpriv \<Rightarrow> nat \<Rightarrow> (string \<times> unit utxo list) list \<Rightarrow> (unit utxo \<times> privkey) list res" where
  "derive_groups M base i [] = Inr []"
| "derive_groups M base i ((t, us) # gs) =
     rbind (priv_path (me_hd M) [int i] base) (\<lambda>txKey.
     rbind (derive_group M txKey 0 us) (\<lambda>xs. rmap (\<lambda>ys. xs @ ys) (derive_groups M base (Suc i) gs)))"

definition deriveReceivedStampKeys ::
  "'p msg_env \<Rightarrow> receiver \<Rightarrow> string \<Rightarrow> unit utxo list \<Rightarrow> (unit utxo \<times> privkey) list res" where
  "deriveReceivedStampKeys M R digest persisted =
     rbind (required (rc_identity R)) (\<lambda>ik.
       if \<not> digest_text digest then Inl (LibError ''AssertionError'')
       else rbind (stamp_base M (of_hex digest) ik) (\<lambda>base. derive_groups M base 0 (group_stamps persisted [])))"

end
