(* ===== verification/ReceiveResults.thy ===== *)
theory ReceiveResults
  imports Receive
begin

text \<open>
  What receiving a message does: stamps a sender constructs arrive with their keys, every coin added can be
  spent by the key it carries, and what a message that was never authenticated can do.
\<close>

section \<open>The addresses of stamp outputs\<close>

text \<open>The networks and names of the application, and RIPEMD-160 with its 20 bytes.\<close>

definition app_env_ok :: "'p msg_env \<Rightarrow> bool" where
  "app_env_ok M \<longleftrightarrow> msg_env_ok M \<and> me_nets M = app_networks \<and> networkName M = ''xec-livenet'' \<and>
     displayNetwork M = ''xec-livenet'' \<and> (\<forall>b. length (XAddress.sha256ripemd160 (me_coder M) b) = 20)"

lemma app_env_okD:
  assumes "app_env_ok M"
  shows "env_ok (me_hd M)" "me_nets M = app_networks" "networkName M = ''xec-livenet''" "displayNetwork M = ''xec-livenet''"
    "length (XAddress.sha256ripemd160 (me_coder M) b) = 20" "length (XAddress.sha256 (me_coder M) b) = 32" "msg_env_ok M"
    "networks_get (me_nets M) (Some (NetText ''xec-livenet'')) = Some (Net xec_livenet)"
  using assms by (simp_all add: app_env_ok_def msg_env_ok_def networks_get_def)

definition xec_address :: "bytes \<Rightarrow> address" where
  "xec_address h = \<lparr>hashBuffer = h, addr_network = Net xec_livenet, addr_type = PayToPublicKeyHash_text\<rparr>"

definition key_hash :: "'p msg_env \<Rightarrow> 'p pubkey \<Rightarrow> bytes" where
  "key_hash M pub = XAddress.sha256ripemd160 (me_coder M) (pk_toDER (me_curve M) pub)"

lemma pub_toAddress_eq: "app_env_ok M \<Longrightarrow> pub_toAddress M pub ''xec-livenet'' = Inr (xec_address (key_hash M pub))"
  using app_env_okD [of M]
  by (simp add: pub_toAddress_def fromPublicKey_def transformPublicKey_def address_new_def net_default_def truthy_net_def
      checkArgument_def known_type_def classifyArguments_def transformHash_def net_or_def xec_address_def key_hash_def
      truthy_text_def PayToPublicKeyHash_text_def Let_def)

lemma xec_ref: "networks_get app_networks (Some (NetRef (Net xec_livenet))) = Some (Net xec_livenet)"
  by (simp add: networks_get_def app_state)

lemma script_toAddress_p2pkh:
  assumes "app_env_ok M" and "length h = 20"
  shows "script_toAddress M False True (p2pkh h) ''xec-livenet'' = Inr (Some (xec_address h))"
  using app_env_okD(2,8) [OF assms(1)] getOutputAddressInfo_p2pkh [OF assms(2)] xec_ref
  by (simp add: script_toAddress_def getAddressInfo_def address_new_def net_or_def truthy_net_def checkArgument_def
      known_type_def classifyArguments_def transformObject_def type_text_def truthy_text_def xec_address_def
      PayToPublicKeyHash_text_def)

lemma output_toAddress_p2pkh:
  assumes "app_env_ok M" and "length h = 20" and "out_script out = script_bytes (p2pkh h)"
  shows "output_toAddress M out ''xec-livenet'' = Inr (Some (xec_address h))"
  using p2pkh_bytes_eq [OF assms(2)] script_toAddress_p2pkh [OF assms(1,2)] assms(3)
  by (simp add: output_toAddress_def output_script_def)

lemma xec_prefix: "net_prefix xec_livenet = net_prefix livenet" "net_prefixArray xec_livenet = net_prefixArray livenet"
  by (simp_all add: xec_defs network_defs)

lemma xec_cash_livenet: "toCashAddress bare (xec_address h) =
    toCashAddress bare \<lparr>hashBuffer = h, addr_network = Net livenet, addr_type = PayToPublicKeyHash_text\<rparr>"
  unfolding toCashAddress_def xec_address_def by (simp only: address.simps net_ref.case xec_prefix)

lemma xec_cash: "length h = 20 \<Longrightarrow> \<exists>s. toCashAddress False (xec_address h) = Inr s"
proof -
  assume "length h = 20"
  then have "length h \<in> set hash_sizes" by (simp add: hash_sizes_def)
  from toCashAddress_text [of livenet PayToPublicKeyHash_text h False, OF _ _ this]
  obtain s where "toCashAddress False \<lparr>hashBuffer = h, addr_network = Net livenet, addr_type = PayToPublicKeyHash_text\<rparr> = Inr s"
    by auto
  then show ?thesis by (simp add: xec_cash_livenet)
qed

definition cash_text :: "bytes \<Rightarrow> string" where
  "cash_text h = (case toCashAddress False (xec_address h) of Inr s \<Rightarrow> s | Inl _ \<Rightarrow> [])"

lemma cash_text: "length h = 20 \<Longrightarrow> toCashAddress False (xec_address h) = Inr (cash_text h)"
  using xec_cash [of h] by (auto simp: cash_text_def)

lemma pub_cashAddress_eq: "app_env_ok M \<Longrightarrow> pub_cashAddress M pub ''xec-livenet'' = Inr (cash_text (key_hash M pub))"
  using cash_text [of "key_hash M pub"] app_env_okD(5) [of M]
  by (simp add: pub_cashAddress_def pub_toAddress_eq) (simp add: key_hash_def)

section \<open>A transaction as it is read back\<close>

definition wire_input :: "tx_input \<Rightarrow> tx_input" where
  "wire_input i = i\<lparr>in_output := None, in_kind := Plain\<rparr>"

definition wire_tx :: "tx \<Rightarrow> tx" where
  "wire_tx t = t\<lparr>inputs := map wire_input (inputs t), cachedInput := None, cachedOutput := None, tx_fee := None\<rparr>"

lemma wire_tx_bytes: "tx_bytes (wire_tx t) = tx_bytes t"
proof -
  have "input_bytes (wire_input i) = input_bytes i" for i by (simp add: input_bytes_def wire_input_def)
  then have "input_bytes \<circ> wire_input = input_bytes" by (simp add: fun_eq_iff)
  then show ?thesis by (simp add: tx_bytes_def wire_tx_def)
qed

definition writable :: "tx \<Rightarrow> bool" where
  "writable t \<longleftrightarrow> fits t \<and> list_all valid_output (outputs t)"

lemma read_back:
  assumes "writable t"
  shows "tx_toBuffer t = Inr (tx_bytes t)" "tx_fromBuffer (tx_bytes t) = Inr (wire_tx t)"
    "read_tx M (tx_bytes t) = Inr (wire_tx t, to_hex (rev (hash256d M (tx_bytes t))))"
proof -
  have f: "fits t" using assms by (simp add: writable_def)
  then show "tx_toBuffer t = Inr (tx_bytes t)" by (rule tx_toBuffer_bytes)
  have fw: "fits (wire_tx t)"
    using f by (simp add: fits_def wire_tx_def list_all_iff wire_input_def)
  have "valid_tx (wire_tx t)"
    using assms fw
    by (simp add: valid_tx_def writable_def fits_def list_all_iff valid_input_def)
       (simp add: wire_tx_def wire_input_def)
  from tx_codec.get_put_start [OF this, of "[]"] show rd: "tx_fromBuffer (tx_bytes t) = Inr (wire_tx t)"
    by (simp add: tx_fromBuffer_def wire_tx_bytes)
  show "read_tx M (tx_bytes t) = Inr (wire_tx t, to_hex (rev (hash256d M (tx_bytes t))))"
    using tx_toBuffer_bytes [OF fw] by (simp add: read_tx_def rd txid_def tx_getHash_def wire_tx_bytes)
qed

section \<open>Stamps that were constructed for the recipient\<close>

lemma fold_res_append: "fold_res f (xs @ ys) b = rbind (fold_res f xs b) (fold_res f ys)"
  by (induction xs arbitrary: b) (auto simp: rbind_def split: sum.splits)

lemma priv_path_append: "priv_path E (xs @ ys) k = rbind (priv_path E xs k) (priv_path E ys)"
  unfolding priv_path_def fold_res_append rbind_def by (simp split: sum.splits)

lemma derived_child:
  assumes "priv_path E [44, 145] k = Inr base" and "output_privkey E k i j = Inr c"
  shows "\<exists>txKey. priv_path E [i] base = Inr txKey \<and> rmap pr_privateKey (priv_path E [j] txKey) = Inr c"
proof -
  have "priv_path E ([44, 145] @ [i] @ [j]) k = rbind (priv_path E [44, 145] k) (\<lambda>b. rbind (priv_path E [i] b) (priv_path E [j]))"
    unfolding priv_path_append [of E "[44, 145]"] using priv_path_append [of E "[i]" "[j]"]
    by (simp add: rbind_def split: sum.splits)
  then have "priv_path E [44, 145, i, j] k = rbind (priv_path E [i] base) (priv_path E [j])" using assms(1) by simp
  then show ?thesis using assms(2) by (auto simp: output_privkey_def rmap_Inr_iff rbind_Inr_iff)
qed

text \<open>The keys of the wallet are those of the library, and its addresses are made of the same hash.\<close>

definition wallet_keys :: "'p msg_env \<Rightarrow> ('k, 'p pubkey) wallet_env \<Rightarrow> bool" where
  "wallet_keys M W \<longleftrightarrow> key_bytes W = pk_toDER (me_curve M) \<and> key_hash160 W = XAddress.sha256ripemd160 (me_coder M)"

definition tx_name :: "'p msg_env \<Rightarrow> tx \<Rightarrow> string" where
  "tx_name M t = to_hex (rev (hash256d M (tx_bytes t)))"

text \<open>The outpoint and the key that belong to a bundle.\<close>

definition stamp_coin :: "'p msg_env \<Rightarrow> 'k tx_bundle \<Rightarrow> unit utxo \<times> privkey \<Rightarrow> bool" where
  "stamp_coin M b c \<longleftrightarrow> (\<exists>P. identity (me_hd M) (snd c) P \<and>
     fst c = message_outpoint ''stamp'' (cash_text (key_hash M P)) (paid b) (tx_name M (b_tx b)) (b_vout b) \<and>
     out_script (outputs (b_tx b) ! b_vout b) = script_bytes (p2pkh (key_hash M P)))"

text \<open>The key of a coin is derived under the number of its transaction, and its address is computed of it.\<close>

definition derived_coin :: "'p msg_env \<Rightarrow> 'p hdpriv \<Rightarrow> nat \<Rightarrow> unit utxo \<times> privkey \<Rightarrow> bool" where
  "derived_coin M base i c \<longleftrightarrow> (\<exists>txKey. priv_path (me_hd M) [int i] base = Inr txKey \<and>
     child_privkey M txKey 0 = Inr (snd c) \<and>
     rbind (computed_address M (snd c)) (toCashAddress False) = Inr (utxo.address (fst c)))"

definition bundle_fits :: "'k tx_bundle \<Rightarrow> bool" where
  "bundle_fits b \<longleftrightarrow> writable (b_tx b) \<and> b_vout b < length (outputs (b_tx b))"

lemma key_hash_length: "app_env_ok M \<Longrightarrow> length (key_hash M P) = 20"
  using app_env_okD(5) by (simp add: key_hash_def)

lemma paid_script:
  assumes "app_env_ok M" and "wallet_keys M W" and "pays W (Inr P) b"
  shows "out_script (outputs (b_tx b) ! b_vout b) = script_bytes (p2pkh (key_hash M P))"
  using assms(2,3) p2pkh_bytes_eq [OF key_hash_length [OF assms(1), of P]]
  by (simp add: pays_def key_script_def wallet_keys_def key_hash_def)

lemma receive_one:
  assumes M: "app_env_ok M" and W: "wallet_keys M W" and fits: "bundle_fits b"
    and "hd_pair (me_hd M) k p" and base: "priv_path (me_hd M) [44, 145] k = Inr base"
    and i: "int i < Hardened" and pay: "pays W (output_pubkey (me_hd M) p (int i) 0) b"
    and sum: "rr_value r + paid b < 2 ^ 53"
  shows "\<exists>c txKey. priv_path (me_hd M) [int i] base = Inr txKey \<and> stamp_coin M b c \<and> derived_coin M base i c \<and>
    stamp_output M False txKey (wire_tx (b_tx b)) (tx_name M (b_tx b)) 0 (b_vout b) r =
      (None, r\<lparr>rr_value := rr_value r + paid b, rr_outpoints := rr_outpoints r @ [fst c],
               rr_coins := UtxoStore.put (spendable (snd c) (fst c)) (rr_coins r)\<rparr>)"
proof -
  let ?E = "me_hd M" and ?t = "wire_tx (b_tx b)" and ?out = "outputs (b_tx b) ! b_vout b"
  note D = app_env_okD [OF M]
  obtain P where P: "output_pubkey ?E p (int i) 0 = Inr P"
    using pay by (auto simp: pays_def rbind_Inr_iff)
  have h: "(0 :: int) \<le> 0" "0 < Hardened" by (simp_all add: Hardened_def)
  obtain c where c: "output_privkey ?E k (int i) 0 = Inr c" "identity ?E c P" "computed_pubkey ?E c = Inr P"
    using output_keys_agree [OF D(1) assms(4) _ i h P] by auto
  obtain txKey where t: "priv_path ?E [int i] base = Inr txKey" "rmap pr_privateKey (priv_path ?E [0] txKey) = Inr c"
    using derived_child [OF base c(1)] by blast
  let ?h = "key_hash M P"
  have l: "length ?h = 20" by (rule key_hash_length [OF M])
  have script: "out_script ?out = script_bytes (p2pkh ?h)" using paid_script [OF M W] pay P by simp
  have found: "output_found M ?t (b_vout b) = Inr (?out, Some (xec_address ?h))"
    using fits output_toAddress_p2pkh [OF M l script] D(3)
    by (simp add: output_found_def bundle_fits_def wire_tx_def nth_opt_def)
  have key: "output_key M False (Some (xec_address ?h)) (child_privkey M txKey 0) = Inr (c, True)"
    using t(2) c(3) pub_toAddress_eq [OF M, of P] D(3)
    by (simp add: output_key_def child_privkey_def computed_address_def address_matches_def address_bytes_def)
  have cash: "address_text (Some (xec_address ?h)) = Inr (cash_text ?h)" using cash_text [OF l] by (simp add: address_text_def)
  have paid: "paid b = satoshis ?out" by (simp add: paid_def)
  have add: "add_double (rr_value r) (satoshis ?out) = rr_value r + satoshis ?out"
    using sum by (simp add: add_double_def paid)
  let ?c = "(message_outpoint ''stamp'' (cash_text ?h) (paid b) (tx_name M (b_tx b)) (b_vout b), c)"
  have "stamp_coin M b ?c" using c(2) script by (auto simp: stamp_coin_def)
  moreover have "derived_coin M base i ?c"
    using t c(3) pub_toAddress_eq [OF M, of P] D(3) cash_text [OF l]
    by (simp add: derived_coin_def child_privkey_def computed_address_def) (simp add: message_outpoint_def)
  moreover have "stamp_output M False txKey ?t (tx_name M (b_tx b)) 0 (b_vout b) r =
      (None, r\<lparr>rr_value := rr_value r + paid b, rr_outpoints := rr_outpoints r @ [fst ?c],
               rr_coins := UtxoStore.put (spendable (snd ?c) (fst ?c)) (rr_coins r)\<rparr>)"
    unfolding stamp_output_def found
    by (simp add: key cash add Let_def add_coin_def paid)
  ultimately show ?thesis using t(1) by blast
qed

lemma receive_stamps:
  assumes M: "app_env_ok M" and W: "wallet_keys M W" and hd: "hd_pair (me_hd M) k p"
    and base: "priv_path (me_hd M) [44, 145] k = Inr base"
  shows "list_all bundle_fits bs \<Longrightarrow> int n + int (length bs) \<le> Hardened \<Longrightarrow>
    (\<And>i. i < length bs \<Longrightarrow> pays W (output_pubkey (me_hd M) p (int (n + i)) 0) (bs ! i)) \<Longrightarrow>
    rr_value r + sum_list (map paid bs) < 2 ^ 53 \<Longrightarrow>
    \<exists>cs. received_txs M False base n (map (\<lambda>b. (tx_bytes (b_tx b), [b_vout b])) bs) r =
        (None, \<lparr>rr_outpoints = rr_outpoints r @ map fst cs, rr_value = rr_value r + sum_list (map paid bs),
                rr_coins = fold (\<lambda>c. UtxoStore.put (spendable (snd c) (fst c))) cs (rr_coins r)\<rparr>) \<and>
      list_all2 (stamp_coin M) bs cs \<and> (\<forall>i < length cs. derived_coin M base (n + i) (cs ! i))"
proof (induction bs arbitrary: n r)
  case (Cons b bs)
  have b: "bundle_fits b" "writable (b_tx b)" using Cons.prems(1) by (simp_all add: bundle_fits_def)
  have i: "int n < Hardened" using Cons.prems(2) by simp
  have pay: "pays W (output_pubkey (me_hd M) p (int n) 0) b" using Cons.prems(3) [of 0] by simp
  have "rr_value r + paid b < 2 ^ 53" using Cons.prems(4) by simp
  from receive_one [OF M W b(1) hd base i pay this] obtain c txKey where
    t: "priv_path (me_hd M) [int n] base = Inr txKey" and c: "stamp_coin M b c" "derived_coin M base n c"
    and out: "stamp_output M False txKey (wire_tx (b_tx b)) (tx_name M (b_tx b)) 0 (b_vout b) r =
      (None, r\<lparr>rr_value := rr_value r + paid b, rr_outpoints := rr_outpoints r @ [fst c],
               rr_coins := UtxoStore.put (spendable (snd c) (fst c)) (rr_coins r)\<rparr>)" by blast
  let ?r = "r\<lparr>rr_value := rr_value r + paid b, rr_outpoints := rr_outpoints r @ [fst c],
               rr_coins := UtxoStore.put (spendable (snd c) (fst c)) (rr_coins r)\<rparr>"
  have "pays W (output_pubkey (me_hd M) p (int (Suc n + i)) 0) (bs ! i)" if "i < length bs" for i
    using Cons.prems(3) [of "Suc i"] that by simp
  from Cons.IH [OF _ _ this, of ?r] Cons.prems obtain cs where
    cs: "received_txs M False base (Suc n) (map (\<lambda>b. (tx_bytes (b_tx b), [b_vout b])) bs) ?r =
        (None, \<lparr>rr_outpoints = rr_outpoints ?r @ map fst cs, rr_value = rr_value ?r + sum_list (map paid bs),
                rr_coins = fold (\<lambda>c. UtxoStore.put (spendable (snd c) (fst c))) cs (rr_coins ?r)\<rparr>)"
      "list_all2 (stamp_coin M) bs cs" "\<forall>i < length cs. derived_coin M base (Suc n + i) (cs ! i)" by auto
  have "received_txs M False base n (map (\<lambda>b. (tx_bytes (b_tx b), [b_vout b])) (b # bs)) r =
      received_txs M False base (Suc n) (map (\<lambda>b. (tx_bytes (b_tx b), [b_vout b])) bs) ?r"
    using read_back(3) [OF b(2), of M] t out by (simp add: sent_inputs_def tx_name_def)
  moreover have "derived_coin M base (n + i) ((c # cs) ! i)" if "i < length (c # cs)" for i
    using that c(2) cs(3) by (cases i) auto
  ultimately show ?case using cs c by (intro exI [of _ "c # cs"]) simp
qed simp

lemma bundle_outpoints_eq:
  assumes "list_all bundle_fits bs"
  shows "bundle_outpoints bs = Inr (map (\<lambda>b. (tx_bytes (b_tx b), [b_vout b])) bs)"
proof -
  have "fold_res (\<lambda>b xs. rmap (\<lambda>raw. xs @ [(raw, [b_vout b])]) (tx_toBuffer (b_tx b))) bs xs =
      Inr (xs @ map (\<lambda>b. (tx_bytes (b_tx b), [b_vout b])) bs)" for xs
    using assms by (induction bs arbitrary: xs) (simp_all add: bundle_fits_def read_back(1))
  then show ?thesis by (simp add: bundle_outpoints_def)
qed

text \<open>The key of the sender is read back from its bytes, and is written the same.\<close>

lemma reread_key:
  assumes E: "env_ok E" and "identity E priv pub"
    and "PublicKey (he_curve E) (he_nets E) (PkBuffer (pk_toDER (he_curve E) pub)) no_extra = Inr pub'"
  shows "pk_toDER (he_curve E) pub' = pk_toDER (he_curve E) pub"
proof -
  have C: "curve_ok (he_curve E)" using E by (simp add: env_ok_def)
  have oc: "on_curve (he_curve E) (point pub)"
    using on_curve_gmul [OF C] assms(2) by (auto simp: identity_def in_range_def)
  from transformDER_toDER [OF C oc] validate_on_curve [OF C oc] assms(3) show ?thesis
    by (auto simp: PublicKey_def classifyArgs_def make_pubkey_def pk_toDER_def extra_network_def no_extra_def Let_def)
qed

text \<open>The parts of a constructed message with a stamp.\<close>

lemma constructed_stamp:
  assumes M: "app_env_ok M" and dest: "identity (me_hd M) dk dest" and src: "toPublicKey (me_curve M) (me_nets M) source = Inr sp"
    and w: "store_ok (storage w)" "random_ok rnd" "length (changeKeys w) < 2 ^ 53 - 2" "total_sats (usable_coins (storage w)) < 2 ^ 53"
    and amount: "0 < amount"
    and built: "constructMessage M W rnd plaintext source dest amount w = (Inr bm, w1)"
    and fits: "list_all bundle_fits (bm_bundle bm)"
  shows "\<exists>p k. hd_pair (me_hd M) k p \<and> constructStampHDPrivateKey (me_hd M) (networkName M) (bm_digest bm) dk = Inr k \<and>
    sum_list (map paid (bm_bundle bm)) = amount \<and> length (bm_bundle bm) \<le> length (usable_coins (storage w)) \<and>
    (\<forall>i < length (bm_bundle bm). pays W (output_pubkey (me_hd M) p (int i) 0) (bm_bundle bm ! i)) \<and>
    w_stamp (bm_message bm) = Some (map (\<lambda>b. (tx_bytes (b_tx b), [b_vout b])) (bm_bundle bm)) \<and>
    w_source (bm_message bm) = pk_toDER (me_curve M) sp \<and> w_payloadDigest (bm_message bm) = [] \<and>
    bm_digest bm = XAddress.sha256 (me_coder M) (w_payload (bm_message bm))"
proof -
  let ?E = "me_hd M" and ?bs = "bm_bundle bm"
  note D = app_env_okD [OF M]
  obtain digest where d: "bm_digest bm = digest" "digest = XAddress.sha256 (me_coder M) (w_payload (bm_message bm))"
      "constructStampTransactions M W rnd digest dest amount w = Inr (?bs, w1)"
      "w_source (bm_message bm) = pk_toDER (me_curve M) sp" "Inr (the (w_stamp (bm_message bm))) = bundle_outpoints ?bs"
      "w_stamp (bm_message bm) \<noteq> None" "w_payloadDigest (bm_message bm) = []"
    using built src
    by (auto simp: constructMessage_def finish_message_def wire_message_of_def rbind_Inr_iff rmap_Inr_iff Let_def
        split: sum.splits prod.splits)
  have l: "length digest = 32" using D(6) by (simp add: d(2))
  obtain S p where p: "shifted_pubkey ?E (networkName M) digest dest = Inr S" "root_pub ?E (networkName M) S digest = Inr p"
      "constructTransactionSet W rnd (\<lambda>i. output_pubkey ?E p (int i) 0) amount w = Inr (?bs, w1)"
    using d(3) amount
    by (auto simp: constructStampTransactions_def constructStampHDPublicKey_def constructStampPublicKey_def rbind_Inr_iff
        split: if_splits)
  have n: "networks_get (he_nets ?E) (Some (NetText (networkName M))) = Some (Net xec_livenet)" "networkName M \<noteq> []"
    using D(3,8) by simp_all
  obtain k where k: "constructStampHDPrivateKey ?E (networkName M) digest dk = Inr k" "hd_pair ?E k p"
    using root_pair [OF D(1) n l dest p(1)] p(2)
    by (auto simp: constructStampHDPrivateKey_def constructStampPrivateKey_def)
  have facts: "sum_list (map paid ?bs) = amount" "length ?bs \<le> length (usable_coins (storage w))"
      "\<forall>i < length ?bs. pays W (output_pubkey ?E p (int i) 0) (?bs ! i)"
    using transaction_set_facts [OF w p(3)] by simp_all
  have "w_stamp (bm_message bm) = Some (map (\<lambda>b. (tx_bytes (b_tx b), [b_vout b])) ?bs)"
    using d(5,6) bundle_outpoints_eq [OF fits] by auto
  with k facts d show ?thesis by (intro exI [of _ p] exI [of _ k]) simp
qed

lemma stamp_arrives:
  assumes M: "app_env_ok M" and W: "wallet_keys M W" and dest: "identity (me_hd M) dk dest"
    and src: "in_range (me_curve M) (bn source)" "toPublicKey (me_curve M) (me_nets M) source = Inr sp"
    and w: "store_ok (storage w)" "random_ok rnd" "length (changeKeys w) < 2 ^ 53 - 2" "total_sats (usable_coins (storage w)) < 2 ^ 53"
    and few: "int (length (usable_coins (storage w))) \<le> Hardened" and amount: "0 < amount" "amount < 2 ^ 53"
    and built: "constructMessage M W rnd plaintext source dest amount w = (Inr bm, w1)"
    and fits: "list_all bundle_fits (bm_bundle bm)"
    and R: "rc_address R = Some me" "cash_text (key_hash M sp) \<noteq> me" "\<not> rc_known R (to_hex (bm_digest bm))"
      "rc_identity R = Some dk" "rc_entries R plaintext = Inr [e]" "en_kind e = ''text-utf8''"
  shows "\<exists>v cs. receiveMessage M R now (bm_message bm) s =
      (Inr (Some v), fold (\<lambda>c. UtxoStore.put (spendable (snd c) (fst c))) cs s) \<and>
    rv_stampValue v = amount \<and> rv_items v = [TextItem (rc_text R (en_body e))] \<and> rv_outpoints v = map fst cs \<and>
    \<not> rv_outbound v \<and> rv_senderAddress v = cash_text (key_hash M sp) \<and> list_all2 (stamp_coin M) (bm_bundle bm) cs \<and> rv_index v = to_hex (bm_digest bm) \<and>
    (\<exists>base. stamp_base M (bm_digest bm) dk = Inr base \<and> (\<forall>i < length cs. derived_coin M base i (cs ! i)))"
proof -
  let ?E = "me_hd M" and ?bs = "bm_bundle bm" and ?m = "bm_message bm"
  note D = app_env_okD [OF M]
  obtain p k where pk: "hd_pair ?E k p" "constructStampHDPrivateKey ?E (networkName M) (bm_digest bm) dk = Inr k"
    and sum: "sum_list (map paid ?bs) = amount" and few_bs: "length ?bs \<le> length (usable_coins (storage w))"
    and pay: "\<forall>i < length ?bs. pays W (output_pubkey ?E p (int i) 0) (?bs ! i)"
    and stamp: "w_stamp ?m = Some (map (\<lambda>b. (tx_bytes (b_tx b), [b_vout b])) ?bs)"
    and source: "w_source ?m = pk_toDER (me_curve M) sp" "w_payloadDigest ?m = []"
    and digest: "bm_digest bm = XAddress.sha256 (me_coder M) (w_payload ?m)"
    using constructed_stamp [OF M dest src(2) w amount(1) built fits] by blast
  obtain q where q: "wire_parse M ?m = Inr q" "p_payloadDigest q = bm_digest bm" "message_open M dk q = Inr plaintext"
    using constructed_opens [OF D(7) dest src(1) built] by blast
  have fields: "p_payload q = w_payload ?m" "w_payload ?m \<noteq> []" "p_stamp q = map (\<lambda>b. (tx_bytes (b_tx b), [b_vout b])) ?bs"
      "PublicKey (me_curve M) (me_nets M) (PkBuffer (pk_toDER (me_curve M) sp)) no_extra = Inr (p_source q)"
    using q(1) source stamp
    by (auto simp: wire_parse_def wire_digest_def rbind_Inr_iff Let_def split: if_splits)
  have "identity ?E source sp" using toPublicKey_identity [OF D(1) src(1)] src(2) by simp
  from reread_key [OF D(1) this fields(4)] have sender: "key_hash M (p_source q) = key_hash M sp" by (simp add: key_hash_def)
  have "?bs \<noteq> []" using sum amount(1) by auto
  then have "pays W (output_pubkey ?E p 0 0) (?bs ! 0)" using pay by auto
  then obtain P where P: "output_pubkey ?E p 0 0 = Inr P" by (auto simp: pays_def rbind_Inr_iff)
  obtain base where base: "priv_path ?E [44, 145] k = Inr base"
    using output_keys_agree [OF D(1) pk(1) _ _ _ _ P] priv_path_append [of ?E "[44, 145]" "[0, 0]" k]
    by (auto simp: output_privkey_def rmap_Inr_iff rbind_Inr_iff Hardened_def)
  let ?r = "\<lparr>rr_outpoints = [], rr_value = 0, rr_coins = s\<rparr>"
  have "rr_value ?r + sum_list (map paid ?bs) < 2 ^ 53" using sum amount(2) by simp
  then obtain cs where cs: "received_txs M False base 0 (p_stamp q) ?r =
        (None, \<lparr>rr_outpoints = map fst cs, rr_value = amount,
                rr_coins = fold (\<lambda>c. UtxoStore.put (spendable (snd c) (fst c))) cs s\<rparr>)"
      "list_all2 (stamp_coin M) ?bs cs" "\<forall>i < length cs. derived_coin M base i (cs ! i)"
    using receive_stamps [OF M W pk(1) base fits, of 0 ?r] pay few few_bs sum fields(3) by auto
  let ?a = "\<lparr>ac_parsed = q, ac_sender = cash_text (key_hash M sp), ac_me = me, ac_digest = bm_digest bm,
     ac_destination = cash_text (key_hash M (p_destination q)), ac_identity = dk, ac_base = base\<rparr>"
  have accepted: "accept_message M R ?m = Inr (Some ?a)"
    using q fields(1,2) R pub_cashAddress_eq [OF M] D(4) pk(2) base digest sender
    by (simp add: accept_message_def required_def payload_of_def stamp_base_def Let_def)
  let ?v = "\<lparr>rv_outbound = False, rv_senderAddress = cash_text (key_hash M sp), rv_copartyAddress = cash_text (key_hash M sp),
     rv_copartyPubKey = p_source q, rv_index = to_hex (bm_digest bm), rv_stampValue = amount,
     rv_items = [TextItem (rc_text R (en_body e))], rv_serverTime = p_receivedTime q, rv_receivedTime = now,
     rv_outpoints = map fst cs, rv_destinationAddress = cash_text (key_hash M (p_destination q))\<rparr>"
  have decoded: "decode_entries M R dk False [e] ([], map fst cs) t = (Inr ([TextItem (rc_text R (en_body e))], map fst cs), t)" for t
    using R(6) by (simp add: decodeEntry_def)
  have "process_accepted M R now ?a s = (Inr (Some ?v), fold (\<lambda>c. UtxoStore.put (spendable (snd c) (fst c))) cs s)"
    using cs(1) q(3) R(2,5) pub_cashAddress_eq [OF M] D(4) sender decoded
    by (simp add: process_accepted_def open_accepted_def finalized_message_def Let_def del: decode_entries.simps)
  moreover have "stamp_base M (bm_digest bm) dk = Inr base" using pk(2) base by (simp add: stamp_base_def)
  ultimately show ?thesis using accepted cs(2,3)
    by (intro exI [of _ ?v] exI [of _ cs]) (simp add: receiveMessage_def)
qed

text \<open>
  C2. From the sender's wallet to the recipient's.  A message that is constructed with a stamp of an
  amount is received by its recipient: the text is read, the stamp counts the whole amount, and for every stamp
  transaction the wallet of the recipient gains the output the transaction paid, together with the private key whose
  hash the output is locked to.
\<close>

theorem stamp_received:
  assumes M: "app_env_ok M" and W: "wallet_keys M W" and dest: "identity (me_hd M) dk dest"
    and src: "in_range (me_curve M) (bn source)" "toPublicKey (me_curve M) (me_nets M) source = Inr sp"
    and w: "store_ok (storage w)" "random_ok rnd" "length (changeKeys w) < 2 ^ 53 - 2" "total_sats (usable_coins (storage w)) < 2 ^ 53"
    and few: "int (length (usable_coins (storage w))) \<le> Hardened" and amount: "0 < amount" "amount < 2 ^ 53"
    and built: "constructMessage M W rnd plaintext source dest amount w = (Inr bm, w1)"
    and fits: "list_all bundle_fits (bm_bundle bm)"
    and R: "rc_address R = Some me" "cash_text (key_hash M sp) \<noteq> me" "\<not> rc_known R (to_hex (bm_digest bm))"
      "rc_identity R = Some dk" "rc_entries R plaintext = Inr [e]" "en_kind e = ''text-utf8''"
  shows "\<exists>v cs. receiveMessage M R now (bm_message bm) s =
      (Inr (Some v), fold (\<lambda>c. UtxoStore.put (spendable (snd c) (fst c))) cs s) \<and>
    rv_stampValue v = amount \<and> rv_items v = [TextItem (rc_text R (en_body e))] \<and> rv_outpoints v = map fst cs \<and>
    \<not> rv_outbound v \<and> rv_senderAddress v = cash_text (key_hash M sp) \<and> list_all2 (stamp_coin M) (bm_bundle bm) cs"
  using stamp_arrives [OF assms, of now s] by blast

section \<open>A message with a stamp\<close>

definition demo_wallet_env :: "(nat, nat pubkey) wallet_env" where
  "demo_wallet_env = \<lparr>sc_sign = \<lambda>_ _ _. Inl TypeErr, sc_verify = \<lambda>_ _ _ _. Inr False, public_key = \<lambda>_. demo_pub 2,
     key_bytes = pk_toDER (me_curve demo_msg_env), key_hash160 = XAddress.sha256ripemd160 (me_coder demo_msg_env), key_valid = \<lambda>_. True,
     sha256d = \<lambda>_. replicate 32 0, oom = \<lambda>n. n, address_hash = \<lambda>_. Inr (replicate 20 1)\<rparr>"

definition demo_txid :: string where "demo_txid = replicate 64 (CHR ''a'')"

definition demo_receiver :: receiver where
  "demo_receiver = \<lparr>rc_known = \<lambda>_. False, rc_fetch = \<lambda>_ _. Inl TypeErr,
     rc_entries = \<lambda>_. Inr [\<lparr>en_kind = ''text-utf8'', en_body = [104, 105], en_headers = []\<rparr>], rc_stealth = \<lambda>_. Inl TypeErr,
     rc_p2pkh = \<lambda>_. Inl TypeErr, rc_text = map (\<lambda>b. char_of (unat b)), rc_base64 = \<lambda>_. [], rc_identity = Some (demo_key 2),
     rc_address = Some (cash_text (key_hash demo_msg_env (demo_pub 2)))\<rparr>"

lemma demo_app_ok: "app_env_ok demo_msg_env"
  using demo_msg_env_ok
  by (simp add: app_env_ok_def) (auto simp: demo_msg_env_def agree_env_def toy_env_def safe_coder_def letter_coder_def)

lemma demo_wallet_keys: "wallet_keys demo_msg_env demo_wallet_env"
  by (simp add: wallet_keys_def demo_wallet_env_def)

lemma demo_DER:
  assumes "0 < d" and "d < 7"
  shows "pk_toDER (me_curve demo_msg_env) (demo_pub d) = (if d \<le> 3 then 3 else 2) # be_bytes 32 (min d (7 - d))"
proof -
  have C: "curve_ok (me_curve demo_msg_env)" using demo_msg_env_ok by (simp add: msg_env_ok_def env_ok_def)
  have "in_range (me_curve demo_msg_env) d" using demo_identity [OF assms] by (simp add: identity_def demo_key_def plain_privkey_def)
  then have "on_curve (me_curve demo_msg_env) (point (demo_pub d))"
    using on_curve_gmul [OF C] by (auto simp: in_range_def demo_pub_def plain_pubkey_def)
  from pk_toDER_compressed [OF C this] show ?thesis
    using assms by (simp add: demo_pub_def plain_pubkey_def) (simp add: demo_msg_env_def agree_env_def toy_env_def seven_def gmul_def field_prime_def)
qed

lemma demo_key_hash: "hd (key_hash demo_msg_env (demo_pub 5)) = 2" "hd (key_hash demo_msg_env (demo_pub 2)) = 3" "length (key_hash demo_msg_env pub) = 20"
  using demo_DER [of 5] demo_DER [of 2]
  by (auto simp: key_hash_def) (simp_all add: demo_msg_env_def agree_env_def toy_env_def safe_coder_def letter_coder_def)

lemma cash_text_inj:
  assumes "length h = 20" and "length h' = 20" and "cash_text h = cash_text h'"
  shows "h = h'"
proof -
  have known: "\<exists>payload. cash_text g = prefixed ''ecash'' (chars32 (encoded ''ecash'' payload)) \<and>
      length payload = 34 \<and> list_all (\<lambda>d. d < 32) payload \<and>
      transformString undefined default_networks (cash_text g) None None =
        Inr \<lparr>i_hashBuffer = Some g, i_network = Some (Net livenet), i_type = Some PayToPublicKeyHash_text\<rparr>"
    if "length g = 20" for g
  proof -
    have pre: "livenet \<in> {livenet, testnet, regtest}" "PayToPublicKeyHash_text \<in> {PayToPublicKeyHash_text, PayToScriptHash_text}"
      "length g \<in> set hash_sizes" "None \<in> {None, Some (NetRef (Net livenet))}" "None \<in> {None, Some PayToPublicKeyHash_text}"
      using that by (simp_all add: hash_sizes_def)
    have eq: "toCashAddress False \<lparr>hashBuffer = g, addr_network = Net livenet, addr_type = PayToPublicKeyHash_text\<rparr> = Inr (cash_text g)"
      using cash_text [OF that] by (simp add: xec_cash_livenet)
    from toCashAddress_text [OF pre(1-3), of False] obtain p ds payload where
      c: "toCashAddress False \<lparr>hashBuffer = g, addr_network = Net livenet, addr_type = PayToPublicKeyHash_text\<rparr> =
           Inr (prefixed (if False then [] else p) (chars32 (encoded p payload)))"
      "net_prefix livenet = Some p" "length payload = (8 * (length g + 1) + 4) div 5" "list_all (\<lambda>d. d < 32) payload" by blast
    have p: "p = ''ecash''" using c(2) known_prefixes(1) by simp
    have t: "cash_text g = prefixed ''ecash'' (chars32 (encoded ''ecash'' payload))" using c(1) eq p by simp
    have l: "length payload = 34" using c(3) that by simp
    have "length (cash_text g) \<le> 100"
      using encoded_props(3) [OF c(4), of p] l p by (simp add: t prefixed_def chars32_def)
    with transform_printed [OF pre, of False undefined] eq
    have "transformString undefined default_networks (cash_text g) None None =
        Inr \<lparr>i_hashBuffer = Some g, i_network = Some (Net livenet), i_type = Some PayToPublicKeyHash_text\<rparr>"
      by (metis (no_types, lifting) sum.inject(2))
    then show ?thesis using t l c(4) by blast
  qed
  from known [OF assms(1)] known [OF assms(2)] assms(3) show ?thesis by auto
qed

text \<open>A coin of 10,000 satoshis, of which a stamp of 9,000 is made.\<close>

lemma demo_stamp:
  "\<exists>bm w1. constructMessage demo_msg_env demo_wallet_env (\<lambda>_. 0) [7, 8] (demo_key 5) (demo_pub 2) 9000 (holder demo_txid 10000) =
      (Inr bm, w1) \<and> list_all bundle_fits (bm_bundle bm) \<and> length (bm_bundle bm) = 1"
proof -
  let ?E = "me_hd demo_msg_env"
  have E: "env_ok ?E" using demo_msg_env_ok by (simp add: msg_env_ok_def)
  have ids: "identity ?E (demo_key 5) (demo_pub 5)" "identity ?E (demo_key 2) (demo_pub 2)" by (simp_all add: demo_identity)
  obtain key where key: "constructSharedKey ?E (demo_key 5) (demo_pub 2) (message_salt demo_msg_env (demo_key 5) [7, 8]) = Inr key"
    using sharedKey_agrees(2) [OF E ids] by blast
  have sha: "XAddress.sha256 (me_coder demo_msg_env) b = be_bytes 32 1" for b by (simp add: demo_msg_env_def agree_env_def)
  have h: "0 \<le> (0 :: int)" "0 < Hardened" by (simp_all add: Hardened_def)
  obtain hd P where hd: "constructStampHDPublicKey ?E ''xec-livenet'' (be_bytes 32 1) (demo_pub 2) = Inr hd"
      "output_pubkey ?E hd 0 0 = Inr P"
    using agree_root [OF h h]
    by (auto simp: constructStampHDPublicKey_def constructStampPublicKey_def demo_msg_env_def demo_pub_def)
  let ?g = "\<lambda>i. output_pubkey ?E hd (int i) 0" and ?h = "key_hash demo_msg_env P"
  have b: "rbind (?g 0) (key_script demo_wallet_env) = Inr (script_bytes (p2pkh ?h))"
    using hd(2) p2pkh_bytes_eq [OF demo_key_hash(3) [of P]]
    by (simp add: key_script_def demo_wallet_env_def) (simp add: key_hash_def)
  have a: "address_hash demo_wallet_env x = Inr (replicate 20 1)" for x by (simp add: demo_wallet_env_def)
  have other: "key_hash160 demo_wallet_env (key_bytes demo_wallet_env (public_key demo_wallet_env 0)) \<noteq> replicate 20 1"
    using demo_key_hash(2) by (auto simp: demo_wallet_env_def key_hash_def)
  have tid: "isHexa demo_txid" "length demo_txid \<le> 64" "length (of_hex demo_txid) = 32" by code_simp+
  obtain u v where u: "constructTransactionSet demo_wallet_env (\<lambda>_. 0) ?g 9000 (holder demo_txid 10000) =
      Inr ([\<lparr>b_tx = u, b_vout = 0, b_used = [demo_coin demo_txid 10000]\<rparr>], v)"
    "inputs u = [\<lparr>prevTxId = of_hex demo_txid, outputIndex = 0, sequenceNumber = DEFAULT_SEQNUMBER, in_script = [],
     in_output = Some \<lparr>satoshis = 10000, satoshisBN = 10000, out_script = script_bytes (p2pkh (replicate 20 1))\<rparr>,
     in_kind = PublicKeyHashInput\<rparr>]"
    "outputs u = [\<lparr>satoshis = 9000, satoshisBN = 9000, out_script = script_bytes (p2pkh ?h)\<rparr>]"
    "version u = version new_tx" "nLockTime u = nLockTime new_tx"
    using set_of_one [where E = demo_wallet_env and gen = ?g, OF a other tid(1,2) b] by blast
  let ?bs = "[\<lparr>b_tx = u, b_vout = 0, b_used = [demo_coin demo_txid 10000]\<rparr>]"
  have "length (script_bytes (p2pkh ?h)) \<le> 2 ^ 53" using script_lengths [OF demo_key_hash(3) [of P]] by simp
  then have w: "writable u" using u(2-) tid(3)
    by (simp add: writable_def fits_def valid_output_def new_tx_def DEFAULT_SEQNUMBER_def)
  have fits: "list_all bundle_fits ?bs" using w u(3) by (simp add: bundle_fits_def)
  obtain pub where pub: "toPublicKey (he_curve ?E) (he_nets ?E) (demo_key 5) = Inr pub"
    using toPublicKey_identity [OF E demo_range [of 5]] by auto
  have "networkName demo_msg_env = ''xec-livenet''" by (simp add: demo_msg_env_def)
  then show ?thesis
    using key hd(1) pub u(1) fits bundle_outpoints_eq [OF fits]
    by (auto simp: constructMessage_def constructStampTransactions_def sha finish_message_def Let_def)
qed

text \<open>The example satisfies the hypotheses.\<close>

lemma demo_sender:
  "\<exists>sp. toPublicKey (me_curve demo_msg_env) (me_nets demo_msg_env) (demo_key 5) = Inr sp \<and>
    key_hash demo_msg_env sp = key_hash demo_msg_env (demo_pub 5)"
proof -
  let ?C = "me_curve demo_msg_env"
  have C: "curve_ok ?C" using demo_msg_env_ok by (simp add: msg_env_ok_def env_ok_def)
  have oc: "on_curve ?C (gmul ?C 5)"
    using on_curve_gmul [OF C, of 5] demo_range [of 5] by (auto simp: in_range_def demo_key_def plain_privkey_def)
  show ?thesis
    using validate_on_curve [OF C oc]
    by (auto simp: toPublicKey_def fromPrivateKey_def PublicKey_def classifyArgs_def transformPrivateKey_def make_pubkey_def
        demo_key_def demo_pub_def plain_privkey_def plain_pubkey_def key_hash_def pk_toDER_def gmul_def
        extra_compressed_def Let_def)
qed

lemma demo_senders_differ: "cash_text (key_hash demo_msg_env (demo_pub 5)) \<noteq> cash_text (key_hash demo_msg_env (demo_pub 2))"
  using cash_text_inj [OF demo_key_hash(3) demo_key_hash(3), of "demo_pub 5" "demo_pub 2"] demo_key_hash(1,2) by auto

lemma demo_hypotheses:
  "app_env_ok demo_msg_env" "wallet_keys demo_msg_env demo_wallet_env" "identity (me_hd demo_msg_env) (demo_key 2) (demo_pub 2)"
  "in_range (me_curve demo_msg_env) (bn (demo_key 5))"
  "store_ok (storage (holder demo_txid 10000))" "random_ok (\<lambda>_. 0)" "length (changeKeys (holder demo_txid 10000)) < 2 ^ 53 - 2"
  "total_sats (usable_coins (storage (holder demo_txid 10000))) < 2 ^ 53"
  "int (length (usable_coins (storage (holder demo_txid 10000)))) \<le> Hardened" "0 < (9000 :: nat)" "(9000 :: nat) < 2 ^ 53"
  using demo_app_ok demo_wallet_keys demo_identity [of 2] demo_range [of 5] holder_ok spender_random
  by (simp_all add: holder_coins total_sats_def Hardened_def) (simp add: holder_def demo_wallet_def)

lemma demo_receiver_facts:
  "rc_address demo_receiver = Some (cash_text (key_hash demo_msg_env (demo_pub 2)))" "\<not> rc_known demo_receiver d"
  "rc_identity demo_receiver = Some (demo_key 2)"
  "rc_entries demo_receiver x = Inr [\<lparr>en_kind = ''text-utf8'', en_body = [104, 105], en_headers = []\<rparr>]"
  by (simp_all add: demo_receiver_def)

theorem stamp_received_witness:
  "\<exists>bm w1 v cs. constructMessage demo_msg_env demo_wallet_env (\<lambda>_. 0) [7, 8] (demo_key 5) (demo_pub 2) 9000 (holder demo_txid 10000) =
      (Inr bm, w1) \<and>
    receiveMessage demo_msg_env demo_receiver 0 (bm_message bm) (empty_store []) =
      (Inr (Some v), fold (\<lambda>c. UtxoStore.put (spendable (snd c) (fst c))) cs (empty_store [])) \<and>
    rv_stampValue v = 9000 \<and> rv_items v = [TextItem ''hi''] \<and> list_all2 (stamp_coin demo_msg_env) (bm_bundle bm) cs"
proof -
  obtain bm w1 where bm: "constructMessage demo_msg_env demo_wallet_env (\<lambda>_. 0) [7, 8] (demo_key 5) (demo_pub 2) 9000
      (holder demo_txid 10000) = (Inr bm, w1)" "list_all bundle_fits (bm_bundle bm)" using demo_stamp by blast
  obtain sp where sp: "toPublicKey (me_curve demo_msg_env) (me_nets demo_msg_env) (demo_key 5) = Inr sp"
      "key_hash demo_msg_env sp = key_hash demo_msg_env (demo_pub 5)" using demo_sender by blast
  have differ: "cash_text (key_hash demo_msg_env sp) \<noteq> cash_text (key_hash demo_msg_env (demo_pub 2))"
    using demo_senders_differ sp(2) by simp
  have "rc_text demo_receiver [104, 105] = ''hi''" by (simp add: demo_receiver_def) code_simp
  then show ?thesis
    using stamp_received [OF demo_hypotheses(1-4) sp(1) demo_hypotheses(5-) bm demo_receiver_facts(1) differ
        demo_receiver_facts(2-4), of 0 "empty_store []"] bm(1)
    by auto
qed

end
