(* ===== verification/ReceiveSafety.thy ===== *)
theory ReceiveSafety
  imports ReceiveResults
begin

text \<open>
  What any message, also one that was never authenticated, can do to the coins of the wallet.
\<close>

section \<open>Changes of the store\<close>

text \<open>A coin whose address is the one computed of its key.\<close>

definition own_coin :: "'p msg_env \<Rightarrow> privkey utxo \<Rightarrow> bool" where
  "own_coin M u \<longleftrightarrow> (\<exists>a c. computed_address M (privKey u) = Inr c \<and> address_toBuffer a = address_toBuffer c \<and>
     toCashAddress False a = Inr (utxo.address u))"

text \<open>
  Coins come with their keys; a tombstone stays; nothing is taken out unless the message is an outgoing one.
\<close>

definition coins_grow :: "'p msg_env \<Rightarrow> bool \<Rightarrow> coins \<Rightarrow> coins \<Rightarrow> bool" where
  "coins_grow M outbound s t \<longleftrightarrow> (store_ok s \<longrightarrow> store_ok t) \<and>
     (\<forall>i u. getById i t = Some u \<longrightarrow> getById i s = Some u \<or> own_coin M u) \<and> deletedUtxos s \<subseteq> deletedUtxos t \<and>
     (\<not> outbound \<longrightarrow> deletedUtxos t = deletedUtxos s \<and> (\<forall>i. getById i s \<noteq> None \<longrightarrow> getById i t \<noteq> None))"

lemma coins_grow_refl [simp, intro]: "coins_grow M outbound s s"
  by (simp add: coins_grow_def)

lemma coins_grow_trans [trans]: "coins_grow M outbound s t \<Longrightarrow> coins_grow M outbound t u \<Longrightarrow> coins_grow M outbound s u"
  unfolding coins_grow_def by (intro conjI; (blast | simp))

lemma coins_grow_put: "own_coin M u \<Longrightarrow> coins_grow M outbound s (UtxoStore.put u s)"
  by (auto simp: coins_grow_def put_ok getById_put)

lemma coins_grow_delete: "coins_grow M True s (deleteById i s)"
  by (auto simp: coins_grow_def deleteById_ok)

lemma coins_grow_delete_inputs: "coins_grow M True s (delete_inputs t s)"
proof -
  have "coins_grow M True s (fold (\<lambda>i. deleteById (calcId (to_hex (prevTxId i)) (outputIndex i))) is s)" for "is"
    by (induction "is" arbitrary: s) (auto intro: coins_grow_trans [OF coins_grow_delete])
  then show ?thesis by (simp add: delete_inputs_def)
qed

text \<open>An output whose address matches belongs to the key it is stored with.\<close>

lemma output_key_own:
  assumes "output_key M outbound a key = Inr (k, True)" and "address_text a = Inr t"
  shows "coins_grow M outbound s (add_coin outbound k (message_outpoint kind t v tid n) s)"
proof (cases outbound)
  case False
  with assms have "own_coin M (spendable k (message_outpoint kind t v tid n))"
    by (cases a) (auto simp: output_key_def address_matches_def address_bytes_def address_text_def own_coin_def
        spendable_def message_outpoint_def rbind_Inr_iff rmap_Inr_iff)
  then show ?thesis using False by (simp add: add_coin_def coins_grow_put)
qed (simp add: add_coin_def)

section \<open>The handler\<close>

lemma stamp_output_grows: "coins_grow M outbound (rr_coins r) (rr_coins (snd (stamp_output M outbound txKey t tid j k r)))"
  by (auto simp: stamp_output_def Let_def split: sum.splits prod.splits intro: output_key_own)

lemma received_outputs_grow: "coins_grow M outbound (rr_coins r) (rr_coins (snd (received_outputs M outbound txKey t tid j ks r)))"
proof (induction ks arbitrary: j r)
  case (Cons k ks)
  then show ?case
    using stamp_output_grows [of M outbound r txKey t tid j k]
    by (auto split: prod.splits option.splits intro: coins_grow_trans)
qed simp

lemma sent_inputs_grows: "coins_grow M outbound (rr_coins r) (rr_coins (sent_inputs outbound t r))"
  by (cases outbound) (simp_all add: sent_inputs_def coins_grow_delete_inputs)

lemma received_txs_grow: "coins_grow M outbound (rr_coins r) (rr_coins (snd (received_txs M outbound base i xs r)))"
proof (induction xs arbitrary: i r)
  case (Cons x xs)
  obtain raw ks where x: "x = (raw, ks)" by (cases x)
  have "coins_grow M outbound (rr_coins r) (rr_coins (snd (received_outputs M outbound txKey t tid 0 ks (sent_inputs outbound t r))))"
    for txKey t tid
    using sent_inputs_grows received_outputs_grow by (rule coins_grow_trans)
  then show ?case
    using Cons.IH unfolding x
    by (auto split: sum.splits prod.splits option.splits) (metis coins_grow_trans snd_conv)+
qed simp

lemma stealth_outputs_grows: "coins_grow M outbound (ss_coins s) (ss_coins (snd (stealth_outputs M outbound base t tid i j ks s)))"
proof (induction ks arbitrary: j s)
  case (Cons k ks)
  have step: "coins_grow M outbound (ss_coins s) (ss_coins (snd (stealth_outputs M outbound base t tid i (Suc j) ks
      (s\<lparr>ss_value := v, ss_outpoints := us, ss_coins := add_coin outbound key u (ss_coins s)\<rparr>))))"
    if "coins_grow M outbound (ss_coins s) (add_coin outbound key u (ss_coins s))" for v us key u
    using coins_grow_trans [OF that] Cons.IH [of "s\<lparr>ss_value := v, ss_outpoints := us, ss_coins := add_coin outbound key u (ss_coins s)\<rparr>" "Suc j"]
    by simp
  show ?case
    by (auto simp: Let_def rbind_Inr_iff rmap_Inr_iff split: option.splits sum.splits intro!: step output_key_own)
qed simp

lemma stealth_txs_grows: "coins_grow M outbound (ss_coins s) (ss_coins (snd (stealth_txs M outbound base i xs s)))"
proof (induction xs arbitrary: i s)
  case (Cons x xs)
  obtain raw ks where x: "x = (raw, ks)" by (cases x)
  have d: "coins_grow M outbound (ss_coins s) (ss_coins (if outbound then s\<lparr>ss_coins := delete_inputs t (ss_coins s)\<rparr> else s))" for t
    by (simp add: coins_grow_delete_inputs)
  have "coins_grow M outbound (ss_coins s) (ss_coins (snd (stealth_outputs M outbound base t tid i 0 ks
      (if outbound then s\<lparr>ss_coins := delete_inputs t (ss_coins s)\<rparr> else s))))" for t tid
    using d stealth_outputs_grows by (rule coins_grow_trans)
  note g = this
  show ?case
  proof (cases "read_tx M raw")
    case (Inr p)
    obtain t tid where p: "p = (t, tid)" by (cases p)
    let ?s = "if outbound then s\<lparr>ss_coins := delete_inputs t (ss_coins s)\<rparr> else s"
    obtain o2 s2 where o: "stealth_outputs M outbound base t tid i 0 ks ?s = (o2, s2)" by (rule prod.exhaust)
    have "coins_grow M outbound (ss_coins s) (ss_coins s2)" using g [of t tid] by (simp only: o snd_conv)
    then show ?thesis
      unfolding x using Inr p o coins_grow_trans [OF _ Cons.IH [of s2 "Suc i"]]
      by (cases o2) (auto simp: Let_def split: unit.splits)
  qed (simp add: x)
qed simp

lemma decodeEntry_grows: "coins_grow M outbound s (snd (decodeEntry M R ik outbound e s))"
proof -
  have "coins_grow M outbound s (ss_coins (snd (stealth_txs M outbound base 0 outs \<lparr>ss_outpoints = [], ss_value = 0, ss_coins = s\<rparr>)))"
    for base outs
    using stealth_txs_grows [of M outbound "\<lparr>ss_outpoints = [], ss_value = 0, ss_coins = s\<rparr>"] by simp
  note g = this
  show ?thesis
  proof (cases "stealth_start M R ik (en_body e)")
    case (Inr p)
    obtain base outs where p: "p = (base, outs)" by (cases p)
    obtain x s1 where o: "stealth_txs M outbound base 0 outs \<lparr>ss_outpoints = [], ss_value = 0, ss_coins = s\<rparr> = (x, s1)"
      by (rule prod.exhaust)
    have "coins_grow M outbound s (ss_coins s1)" using g [of base outs] by (simp only: o snd_conv)
    then show ?thesis using Inr p o by (cases x) (auto simp: decodeEntry_def split: sum.splits unit.splits)
  qed (simp add: decodeEntry_def split: sum.splits)
qed

lemma decode_entries_grows: "coins_grow M outbound s (snd (decode_entries M R ik outbound es acc s))"
proof (induction es arbitrary: acc s)
  case (Cons e es)
  then show ?case
    using decodeEntry_grows [of M outbound s R ik e]
    by (cases acc) (auto split: prod.splits entry_result.splits intro: coins_grow_trans)
qed simp

lemma receiveSelfSend_grows: "coins_grow M True s (snd (receiveSelfSend R es s))"
proof (induction es arbitrary: s)
  case (Cons e es)
  then show ?case by (auto split: sum.splits intro: coins_grow_trans [OF coins_grow_delete_inputs])
qed simp

lemma process_accepted_grows: "coins_grow M (ac_sender a = ac_me a) s (snd (process_accepted M R now a s))"
proof -
  let ?o = "ac_sender a = ac_me a"
  let ?r = "\<lparr>rr_outpoints = [], rr_value = 0, rr_coins = s\<rparr>"
  obtain e r where r: "received_txs M ?o (ac_base a) 0 (p_stamp (ac_parsed a)) ?r = (e, r)" by (rule prod.exhaust)
  have 1: "coins_grow M ?o s (rr_coins r)" using received_txs_grow [of M ?o ?r "ac_base a" 0 "p_stamp (ac_parsed a)"] by (simp add: r)
  have 2: "coins_grow M ?o s (snd (decode_entries M R ik ?o es acc (rr_coins r)))" for ik es acc
    using 1 decode_entries_grows by (rule coins_grow_trans)
  have 3: "coins_grow M ?o s (snd (receiveSelfSend R es (rr_coins r)))" if ?o for es
    using coins_grow_trans [OF 1] receiveSelfSend_grows [of M "rr_coins r" R es] that by simp
  show ?thesis
    using 1 2 3 unfolding process_accepted_def Let_def r
    by (auto split: sum.splits prod.splits option.splits) (metis snd_conv)+
qed

text \<open>
  C5. Whatever message arrives, and also when its handling fails halfway: every coin that is new in the wallet is
  stored with a private key whose address is the one of the output, tombstones stay, and the store
  keeps its invariant.
\<close>

theorem received_coins_are_own:
  assumes "store_ok s" and "receiveMessage M R now m s = (r, t)"
  shows "store_ok t \<and> deletedUtxos s \<subseteq> deletedUtxos t \<and>
    (\<forall>i u. getById i t = Some u \<longrightarrow> getById i s = Some u \<or> own_coin M u)"
proof -
  have "\<exists>outbound. coins_grow M outbound s t"
    using assms(2) process_accepted_grows [of M _ s R now] unfolding receiveMessage_def
    by (auto split: sum.splits option.splits) (metis snd_conv)
  then show ?thesis using assms(1) by (auto simp: coins_grow_def)
qed

text \<open>
  C13. A message of another party takes no coin out of the wallet.
\<close>

theorem inbound_keeps_coins:
  assumes "accept_message M R m = Inr (Some a)" and "ac_sender a \<noteq> ac_me a"
    and "receiveMessage M R now m s = (r, t)" and "getById i s \<noteq> None"
  shows "getById i t \<noteq> None \<and> deletedUtxos t = deletedUtxos s"
  using process_accepted_grows [of M a s R now] assms by (simp add: receiveMessage_def coins_grow_def)

text \<open>
  C11. Whether a message is outgoing is decided by the public key it names as its source, before the message is
  authenticated.  A message that names the user's own key and carries any transaction deletes the
  user's coins that transaction spends, although it then fails to open.
\<close>

theorem forged_source_deletes_coins:
  assumes "accept_message M R m = Inr (Some a)" and "ac_sender a = ac_me a"
    and "p_stamp (ac_parsed a) = [(raw, [])]" and "read_tx M raw = Inr (t, tid)" and "priv_path (me_hd M) [0] (ac_base a) = Inr k"
    and "message_openSelf M (ac_identity a) (ac_parsed a) = Inl e"
  shows "receiveMessage M R now m s = (Inl e, delete_inputs t s) \<and>
    (\<forall>i \<in> set (inputs t). let j = calcId (to_hex (prevTxId i)) (outputIndex i)
      in getById j (delete_inputs t s) = None \<and> j \<in> deletedUtxos (delete_inputs t s))"
proof -
  have gone: "getById j (fold (\<lambda>i. deleteById (calcId (to_hex (prevTxId i)) (outputIndex i))) is s) = None \<and>
      j \<in> deletedUtxos (fold (\<lambda>i. deleteById (calcId (to_hex (prevTxId i)) (outputIndex i))) is s)"
    if "j \<in> deletedUtxos s \<and> getById j s = None \<or> (\<exists>i \<in> set is. j = calcId (to_hex (prevTxId i)) (outputIndex i))" for j "is" s
    using that
  proof (induction "is" arbitrary: s)
    case (Cons a "is")
    then show ?case using Cons.IH [of "deleteById (calcId (to_hex (prevTxId a)) (outputIndex a)) s"] by auto
  qed simp
  have "receiveMessage M R now m s = (Inl e, delete_inputs t s)"
    using assms by (simp add: receiveMessage_def process_accepted_def sent_inputs_def open_accepted_def)
  then show ?thesis using gone by (auto simp: delete_inputs_def Let_def)
qed

section \<open>Witnesses\<close>

lemma demo_received:
  "\<exists>m v t a. receiveMessage demo_msg_env demo_receiver 0 m s = (Inr (Some v), t) \<and> rv_stampValue v = 9000 \<and>
    accept_message demo_msg_env demo_receiver m = Inr (Some a) \<and> ac_sender a \<noteq> ac_me a"
proof -
  obtain bm w1 where bm: "constructMessage demo_msg_env demo_wallet_env (\<lambda>_. 0) [7, 8] (demo_key 5) (demo_pub 2) 9000
      (holder demo_txid 10000) = (Inr bm, w1)" "list_all bundle_fits (bm_bundle bm)" using demo_stamp by blast
  obtain sp where sp: "toPublicKey (me_curve demo_msg_env) (me_nets demo_msg_env) (demo_key 5) = Inr sp"
      "key_hash demo_msg_env sp = key_hash demo_msg_env (demo_pub 5)" using demo_sender by blast
  have differ: "cash_text (key_hash demo_msg_env sp) \<noteq> cash_text (key_hash demo_msg_env (demo_pub 2))"
    using demo_senders_differ sp(2) by simp
  obtain v t where v: "receiveMessage demo_msg_env demo_receiver 0 (bm_message bm) s = (Inr (Some v), t)"
      "rv_stampValue v = 9000" "\<not> rv_outbound v"
    using stamp_arrives [OF demo_hypotheses(1-4) sp(1) demo_hypotheses(5-) bm demo_receiver_facts(1) differ
        demo_receiver_facts(2-4), of 0 s] by auto
  then obtain a where a: "accept_message demo_msg_env demo_receiver (bm_message bm) = Inr (Some a)"
      "process_accepted demo_msg_env demo_receiver 0 a s = (Inr (Some v), t)"
    by (auto simp: receiveMessage_def split: sum.splits option.splits)
  have "rv_outbound v = (ac_sender a = ac_me a)"
    using a(2) by (auto simp: process_accepted_def finalized_message_def rmap_Inr_iff Let_def
        split: sum.splits option.splits prod.splits if_splits)
  then show ?thesis using v a(1) by blast
qed

theorem received_coins_are_own_witness:
  "\<exists>m v t. receiveMessage demo_msg_env demo_receiver 0 m (empty_store []) = (Inr (Some v), t) \<and> rv_stampValue v = 9000 \<and>
    store_ok t \<and> (\<forall>i u. getById i t = Some u \<longrightarrow> own_coin demo_msg_env u)"
proof -
  obtain m v t where m: "receiveMessage demo_msg_env demo_receiver 0 m (empty_store []) = (Inr (Some v), t)" "rv_stampValue v = 9000"
    using demo_received by blast
  have "store_ok (empty_store [] :: coins)" by (simp add: store_ok_empty well_keyed_def)
  moreover have "getById i (empty_store [] :: coins) = None" for i by (simp add: getById_def empty_store_def map_get_def)
  ultimately show ?thesis using received_coins_are_own [OF _ m(1)] m by auto
qed

definition demo_coins :: coins where
  "demo_coins = UtxoStore.put (spendable (demo_key 2) (message_outpoint ''stamp'' ''a'' 1000 demo_txid 0)) (empty_store [])"

lemma demo_coins_id: "getById (calcId demo_txid 0) demo_coins \<noteq> None"
  by (simp add: demo_coins_def getById_put calcUtxoId_def spendable_def message_outpoint_def empty_store_def)

theorem inbound_keeps_coins_witness:
  "\<exists>m v t. receiveMessage demo_msg_env demo_receiver 0 m demo_coins = (Inr (Some v), t) \<and> getById (calcId demo_txid 0) t \<noteq> None"
proof -
  obtain m v t a where m: "receiveMessage demo_msg_env demo_receiver 0 m demo_coins = (Inr (Some v), t)"
      "accept_message demo_msg_env demo_receiver m = Inr (Some a)" "ac_sender a \<noteq> ac_me a"
    using demo_received by blast
  from inbound_keeps_coins [OF m(2,3,1) demo_coins_id] m(1) show ?thesis by blast
qed

text \<open>The attacker's transaction spends the coin of \<open>demo_coins\<close>; the code of the envelope is all zeros.\<close>

definition demo_theft :: tx where
  "demo_theft = new_tx\<lparr>inputs := [\<lparr>prevTxId = of_hex demo_txid, outputIndex = 0, sequenceNumber = 0, in_script = [],
     in_output = None, in_kind = Plain\<rparr>]\<rparr>"

definition demo_forgery :: wire_message where
  "demo_forgery = \<lparr>w_source = pk_toDER (me_curve demo_msg_env) (demo_pub 2), w_destination = pk_toDER (me_curve demo_msg_env) (demo_pub 2),
     w_receivedTime = 0, w_payloadDigest = [], w_payload = [9], w_payloadHmac = replicate 32 0, w_payloadSize = 0, w_salt = [],
     w_stamp = Some [(tx_bytes demo_theft, [])], w_scheme = 1\<rparr>"

lemma demo_theft_read: "\<exists>t tid. read_tx demo_msg_env (tx_bytes demo_theft) = Inr (t, tid) \<and>
    map (\<lambda>i. (prevTxId i, outputIndex i)) (inputs t) = [(of_hex demo_txid, 0)]"
proof -
  have "length (of_hex demo_txid) = 32" by code_simp
  then have "writable demo_theft" by (simp add: writable_def fits_def demo_theft_def new_tx_def)
  from read_back(3) [OF this, of demo_msg_env] show ?thesis
    by (simp add: wire_tx_def) (simp add: demo_theft_def wire_input_def)
qed

lemma demo_forgery_accepted:
  "\<exists>a k. accept_message demo_msg_env demo_receiver demo_forgery = Inr (Some a) \<and> ac_sender a = ac_me a \<and>
    p_stamp (ac_parsed a) = [(tx_bytes demo_theft, [])] \<and> priv_path (me_hd demo_msg_env) [0] (ac_base a) = Inr k \<and>
    message_openSelf demo_msg_env (ac_identity a) (ac_parsed a) = Inl (PlainError ''Failed to authenticate message'')"
proof -
  let ?E = "me_hd demo_msg_env" and ?M = demo_msg_env
  note D = app_env_okD [OF demo_app_ok]
  have sha: "XAddress.sha256 (me_coder demo_msg_env) b = be_bytes 32 1" for b by (simp add: demo_msg_env_def agree_env_def)
  have id: "identity ?E (demo_key 2) (demo_pub 2)" by (simp add: demo_identity)
  obtain q where q: "PublicKey (me_curve ?M) (me_nets ?M) (PkBuffer (pk_toDER (me_curve ?M) (demo_pub 2))) no_extra = Inr q"
      "identity ?E (demo_key 2) q" using read_identity [OF D(1) id] by blast
  have kh: "key_hash ?M q = key_hash ?M (demo_pub 2)" using reread_key [OF D(1) id q(1)] by (simp add: key_hash_def)
  define p where "p = \<lparr>p_source = q, p_destination = q, p_receivedTime = 0, p_salt = [], p_stamp = [(tx_bytes demo_theft, [])],
    p_scheme = 1, p_payloadDigest = be_bytes 32 1, p_payloadHmac = replicate 32 0, p_payloadSize = 1, p_payload = [9]\<rparr>"
  have parse: "wire_parse ?M demo_forgery = Inr p"
    using q(1) by (simp add: wire_parse_def demo_forgery_def wire_digest_def sha p_def)
  have h: "0 \<le> (0 :: int)" "0 < Hardened" by (simp_all add: Hardened_def)
  have n: "networks_get (he_nets ?E) (Some (NetText (networkName ?M))) = Some (Net xec_livenet)" "networkName ?M \<noteq> []"
    using D(3,8) by simp_all
  obtain S hp P where hp: "shifted_pubkey ?E ''xec-livenet'' (be_bytes 32 1) (demo_pub 2) = Inr S"
      "root_pub ?E ''xec-livenet'' S (be_bytes 32 1) = Inr hp" "output_pubkey ?E hp 0 0 = Inr P"
    using agree_root [OF h h] by (auto simp: demo_msg_env_def demo_pub_def)
  obtain k where k: "constructStampHDPrivateKey ?E ''xec-livenet'' (be_bytes 32 1) (demo_key 2) = Inr k" "hd_pair ?E k hp"
    using root_pair [OF D(1) n _ id, of "be_bytes 32 1" S] hp(1,2) D(3)
    by (auto simp: constructStampHDPrivateKey_def constructStampPrivateKey_def)
  obtain base txKey where base: "priv_path ?E [44, 145] k = Inr base" "priv_path ?E [0] base = Inr txKey"
    using output_keys_agree [OF D(1) k(2) h h hp(3)] priv_path_append [of ?E "[44, 145]" "[0, 0]" k] priv_path_append [of ?E "[0]" "[0]"]
    by (auto simp: output_privkey_def rmap_Inr_iff rbind_Inr_iff)
  let ?me = "cash_text (key_hash ?M (demo_pub 2))"
  define a where "a = \<lparr>ac_parsed = p, ac_sender = ?me, ac_me = ?me, ac_digest = be_bytes 32 1, ac_destination = ?me,
    ac_identity = demo_key 2, ac_base = base\<rparr>"
  have accepted: "accept_message ?M demo_receiver demo_forgery = Inr (Some a)"
    using parse pub_cashAddress_eq [OF demo_app_ok] D(3,4) kh demo_receiver_facts(1-3) k(1) base(1)
    by (simp add: accept_message_def required_def payload_of_def stamp_base_def sha Let_def a_def) (simp add: p_def)
  obtain key where key: "constructSharedKey ?E (demo_key 2) q [] = Inr key" using sharedKey_agrees(2) [OF D(1) id q(2)] by blast
  have "hd (be_bytes 32 1) = (0 :: byte)" "last (be_bytes 32 1) = (1 :: byte)" by code_simp+
  then have "replicate 32 0 \<noteq> (be_bytes 32 1 :: bytes)" by (metis last_replicate zero_neq_numeral zero_neq_one)
  moreover have "constructPayloadHmac ?E key d = be_bytes 32 1" for d
    using sha by (simp add: constructPayloadHmac_def sha256hmac_def hmac_def hmac_pads_def Let_def)
  ultimately have "\<not> authenticate ?M key p" using authenticate_iff [of ?M p key] D(6) by (simp add: p_def)
  then have "message_openSelf ?M (demo_key 2) p = Inl (PlainError ''Failed to authenticate message'')"
    using key by (simp add: message_openSelf_def parsed_sharedKeySelf_def open_with_def p_def)
  then show ?thesis using accepted base(2) by (intro exI [of _ a] exI [of _ txKey]) (simp add: a_def p_def)
qed

theorem forged_source_deletes_coins_witness:
  "getById (calcId demo_txid 0) demo_coins \<noteq> None \<and>
    (\<exists>t. receiveMessage demo_msg_env demo_receiver 0 demo_forgery demo_coins =
      (Inl (PlainError ''Failed to authenticate message''), t) \<and> getById (calcId demo_txid 0) t = None)"
proof -
  obtain a k where a: "accept_message demo_msg_env demo_receiver demo_forgery = Inr (Some a)" "ac_sender a = ac_me a"
    "p_stamp (ac_parsed a) = [(tx_bytes demo_theft, [])]" "priv_path (me_hd demo_msg_env) [0] (ac_base a) = Inr k"
    "message_openSelf demo_msg_env (ac_identity a) (ac_parsed a) = Inl (PlainError ''Failed to authenticate message'')"
    using demo_forgery_accepted by blast
  obtain t tid where t: "read_tx demo_msg_env (tx_bytes demo_theft) = Inr (t, tid)"
      "map (\<lambda>i. (prevTxId i, outputIndex i)) (inputs t) = [(of_hex demo_txid, 0)]" using demo_theft_read by auto
  have hex: "to_hex (of_hex demo_txid) = demo_txid" by code_simp
  from forged_source_deletes_coins [OF a(1-3) t(1) a(4,5), of 0 demo_coins] t(2) hex demo_coins_id show ?thesis
    by (auto simp: Let_def)
qed

end
