(* ===== verification/Restore.thy ===== *)
theory Restore
  imports ReceiveSafety Json
begin

text \<open>
  Received stamps after a restart: \<^verbatim>\<open>resolveLiveReceivedStamp\<close>, \<^verbatim>\<open>rehydrateReceivedStampUtxos\<close>,
  \<^verbatim>\<open>redeemStampForProof\<close> and \<^verbatim>\<open>deleteMessage\<close> of \<^verbatim>\<open>src/cashweb/relay/index.ts\<close>.  The store of messages keeps the
  outpoints of a message without their keys; what Chronik reports for an address is a parameter.  The pass over
  the stored messages runs as one operation.
\<close>

section \<open>Operations\<close>

record live_output =
  lo_txid :: string
  lo_outIdx :: nat
  lo_sats :: nat

definition live_id :: "live_output \<Rightarrow> string" where
  "live_id l = calcId (lo_txid l) (lo_outIdx l)"

text \<open>The output at the address of the stamp with its amount: the one of the stored id, or else the only one.\<close>

definition resolveLiveReceivedStamp ::
  "(string \<Rightarrow> live_output list res) \<Rightarrow> unit utxo \<Rightarrow> privkey \<Rightarrow> privkey utxo option res" where
  "resolveLiveReceivedStamp chain stamp key =
     rbind (chain (utxo.address stamp)) (\<lambda>live.
       let matching = filter (\<lambda>l. lo_sats l = amount_sats stamp) live;
           exact = find (\<lambda>l. live_id l = calcUtxoId stamp) matching;
           found = (case exact of Some l \<Rightarrow> Some l | None \<Rightarrow> if length matching = 1 then nth_opt matching 0 else None)
       in if matching = [] then Inr None
          else case found of
                 None \<Rightarrow> Inl (LibError ''AssertionError'')
               | Some l \<Rightarrow> Inr (Some ((spendable key stamp)\<lparr>txId := lo_txid l, utxo.vout := lo_outIdx l, amount_sats := lo_sats l\<rparr>)))"

text \<open>What the message store keeps of a message; \<open>None\<close> for a record without one.\<close>

record stored_message =
  sm_index :: string
  sm_content :: "(bool \<times> unit utxo list) option"

definition stored_stamps :: "unit utxo list \<Rightarrow> unit utxo list" where
  "stored_stamps us = filter (\<lambda>u. utype u = ''stamp'') us"

fun restore_coins ::
  "(string \<Rightarrow> live_output list res) \<Rightarrow> (unit utxo \<times> privkey) list \<Rightarrow> nat \<times> coins \<Rightarrow> nat \<times> coins" where
  "restore_coins chain [] (n, s) = (n, s)"
| "restore_coins chain ((u, k) # cs) (n, s) =
     restore_coins chain cs
       (case resolveLiveReceivedStamp chain u k of Inr (Some live) \<Rightarrow> (Suc n, UtxoStore.put live s) | _ \<Rightarrow> (n, s))"

text \<open>An error while keys are derived ends the pass over the messages; one about a coin does not.\<close>

fun rehydrate ::
  "'p msg_env \<Rightarrow> receiver \<Rightarrow> (string \<Rightarrow> live_output list res) \<Rightarrow> string option \<Rightarrow> stored_message list \<Rightarrow> nat \<times> coins \<Rightarrow>
     nat res \<times> coins" where
  "rehydrate M R chain target [] (n, s) = (Inr n, s)"
| "rehydrate M R chain target (m # ms) (n, s) =
     (case sm_content m of
        None \<Rightarrow> rehydrate M R chain target ms (n, s)
      | Some (outbound, us) \<Rightarrow>
          if outbound \<or> truthy_text target \<and> target \<noteq> Some (sm_index m) \<or> \<not> digest_text (sm_index m) \<or> stored_stamps us = []
          then rehydrate M R chain target ms (n, s)
          else case deriveReceivedStampKeys M R (sm_index m) (stored_stamps us) of
                 Inl e \<Rightarrow> (Inl e, s)
               | Inr cs \<Rightarrow> rehydrate M R chain target ms (restore_coins chain cs (n, s)))"

text \<open>
  \<^verbatim>\<open>forwardUTXOsToPubkey\<close> as a whole: \<open>sent\<close> says whether the broadcast went through, \<open>repair\<close> answers about
  addresses when it did not.
\<close>

definition forwardUTXOsToPubkey ::
  "('k, 'p) wallet_env \<Rightarrow> (tx \<Rightarrow> bool) \<Rightarrow> (string \<Rightarrow> string set res) \<Rightarrow> bool \<Rightarrow> 'k utxo list \<Rightarrow> 'p \<Rightarrow> 'k utxo_store \<Rightarrow>
     (tx \<times> 'k utxo list) option res \<times> 'k utxo_store" where
  "forwardUTXOsToPubkey W sent repair allowUnstored us pubkey s =
     (case forward_tx W allowUnstored us pubkey s of
        Inl e \<Rightarrow> (Inl e, s)
      | Inr None \<Rightarrow> (Inr None, s)
      | Inr (Some (t, used)) \<Rightarrow>
          (case forward_done (sent t) repair used s of
             (s1, None) \<Rightarrow> (Inr (Some (t, used)), s1) | (s1, Some e) \<Rightarrow> (Inl e, s1)))"

definition change_key :: "(nat \<Rightarrow> nat) \<Rightarrow> 'k list \<Rightarrow> 'k option" where
  "change_key rnd keys = nth_opt keys (rand_index rnd 0 (length keys))"

text \<open>The coins of the proof: the stamps as they are on the chain, and one ordinary coin for the fee.\<close>

fun resolve_all ::
  "(string \<Rightarrow> live_output list res) \<Rightarrow> (unit utxo \<times> privkey) list \<Rightarrow> privkey utxo list res" where
  "resolve_all chain [] = Inr []"
| "resolve_all chain ((u, k) # cs) =
     rbind (resolveLiveReceivedStamp chain u k) (\<lambda>live.
     rbind (required live) (\<lambda>l. rmap (\<lambda>ls. l # ls) (resolve_all chain cs)))"

definition support_coin :: "privkey utxo list \<Rightarrow> coins \<Rightarrow> privkey utxo option" where
  "support_coin stamps s =
     find (\<lambda>u. utype u = ''p2pkh'' \<and> \<not> frozen u \<and> calcUtxoId u \<notin> set (map calcUtxoId stamps) \<and> 1000 \<le> amount_sats u)
       (map snd (getUtxoMap s))"

definition redeemed_stamps ::
  "'p msg_env \<Rightarrow> receiver \<Rightarrow> (string \<Rightarrow> live_output list res) \<Rightarrow> string \<Rightarrow> stored_message option \<Rightarrow> coins \<Rightarrow> privkey utxo list res" where
  "redeemed_stamps M R chain digest stored s =
     rbind (required stored) (\<lambda>m.
     rbind (case sm_content m of None \<Rightarrow> Inl TypeErr | Some c \<Rightarrow> Inr c) (\<lambda>(outbound, us).
       if outbound \<or> stored_stamps us = [] then Inl (LibError ''AssertionError'')
       else rbind (deriveReceivedStampKeys M R digest (stored_stamps us)) (\<lambda>cs.
         if length cs \<noteq> length (stored_stamps us) then Inl (LibError ''AssertionError'')
         else rbind (resolve_all chain cs) (\<lambda>stamps.
              rmap (\<lambda>support. stamps @ [support]) (required (support_coin stamps s))))))"

definition redeemStampForProof ::
  "'p msg_env \<Rightarrow> (privkey, 'p pubkey) wallet_env \<Rightarrow> receiver \<Rightarrow> (string \<Rightarrow> live_output list res) \<Rightarrow> (string \<Rightarrow> string set res) \<Rightarrow>
     (tx \<Rightarrow> bool) \<Rightarrow> (nat \<Rightarrow> nat) \<Rightarrow> privkey list \<Rightarrow> string \<Rightarrow> stored_message option \<Rightarrow> coins \<Rightarrow> (tx \<times> string list) res \<times> coins" where
  "redeemStampForProof M W R chain answers sent rnd keys digest stored s =
     (case redeemed_stamps M R chain digest stored s of
        Inl e \<Rightarrow> (Inl e, s)
      | Inr staged \<Rightarrow>
          (case checkAndFixUtxos answers False staged s of
             Inl e \<Rightarrow> (Inl e, s)
           | Inr (checks, s1) \<Rightarrow>
               if \<not> list_all (\<lambda>c. c) checks then (Inl (LibError ''AssertionError''), s1)
               else case rbind (required (change_key rnd keys)) (toPublicKey (me_curve M) (me_nets M)) of
                      Inl e \<Rightarrow> (Inl e, s1)
                    | Inr pub \<Rightarrow>
                        (case forwardUTXOsToPubkey W sent answers True staged pub s1 of
                           (Inl e, s2) \<Rightarrow> (Inl e, s2)
                         | (Inr None, s2) \<Rightarrow> (Inl (LibError ''AssertionError''), s2)
                         | (Inr (Some (t, used)), s2) \<Rightarrow> (Inr (t, map calcUtxoId (butlast staged)), s2))))"

text \<open>
  \<^verbatim>\<open>deleteMessage\<close>: the coins of the message that are still in the wallet go to a change address, then the relay
  and the message store forget the message; \<open>gone\<close> is the answer of the relay.  The outpoints of a message have
  no key, and only the coins of the store are used.
\<close>

definition no_key :: privkey where
  "no_key = \<lparr>bn = 0, compressed = True, key_network = Net livenet\<rparr>"

definition deleteMessage ::
  "'p msg_env \<Rightarrow> (privkey, 'p pubkey) wallet_env \<Rightarrow> (tx \<Rightarrow> bool) \<Rightarrow> (string \<Rightarrow> string set res) \<Rightarrow> unit res \<Rightarrow> receiver \<Rightarrow> (nat \<Rightarrow> nat) \<Rightarrow>
     privkey list \<Rightarrow> string \<Rightarrow> (string, stored_message) js_map \<Rightarrow> coins \<Rightarrow> unit res \<times> (string, stored_message) js_map \<times> coins" where
  "deleteMessage M W sent answers gone R rnd keys digest ms s =
     (case rbind (required (map_get ms digest)) (\<lambda>m.
           rbind (case sm_content m of None \<Rightarrow> Inl TypeErr | Some (_, us) \<Rightarrow> Inr us) (\<lambda>us.
           rmap (\<lambda>pub. (us, pub))
             (case change_key rnd keys of None \<Rightarrow> Inl TypeErr | Some k \<Rightarrow> toPublicKey (me_curve M) (me_nets M) k))) of
        Inl e \<Rightarrow> (Inl e, ms, s)
      | Inr (us, pub) \<Rightarrow>
          (case forwardUTXOsToPubkey W sent answers False (map (spendable no_key) us) pub s of
             (Inl e, s1) \<Rightarrow> (Inl e, ms, s1)
           | (Inr _, s1) \<Rightarrow>
               (case rbind (required (rc_address R)) (\<lambda>_. gone) of
                  Inl e \<Rightarrow> (Inl e, ms, s1) | Inr () \<Rightarrow> (Inr (), map_del digest ms, s1))))"

section \<open>Keys are found again\<close>

lemma calcId_inj: "calcId t k = calcId t' k' \<longleftrightarrow> t = t' \<and> k = k'"
proof
  assume e: "calcId t k = calcId t' k'"
  have split: "takeWhile digit_char (rev (calcId a n)) = rev (nat_dec n)" "dropWhile digit_char (rev (calcId a n)) = CHR ''_'' # rev a"
    for a :: string and n
    using nat_dec_digits [of n]
    by (simp_all add: calcId_def list_all_iff takeWhile_append dropWhile_append) (simp_all add: digit_char_def)
  show "t = t' \<and> k = k'" using split [of t k] split [of t' k'] e by simp (metis nat_dec_facts)
qed simp

lemma group_stamps_distinct:
  "distinct (map fst gs @ map txId us) \<Longrightarrow> group_stamps us gs = gs @ map (\<lambda>u. (txId u, [u])) us"
  by (induction us arbitrary: gs) auto

lemma derive_groups_coins:
  "\<forall>i < length cs. derived_coin M base (n + i) (cs ! i) \<Longrightarrow>
    derive_groups M base n (map (\<lambda>u. (txId u, [u])) (map fst cs)) = Inr cs"
proof (induction cs arbitrary: n)
  case (Cons c cs)
  have "derived_coin M base n c" using Cons.prems [rule_format, of 0] by simp
  moreover have "\<forall>i < length cs. derived_coin M base (Suc n + i) (cs ! i)"
    using Cons.prems by (metis Suc_less_eq add_Suc_shift length_Cons nth_Cons_Suc)
  note Cons.IH [OF this]
  ultimately show ?case by (auto simp: derived_coin_def rbind_Inr_iff)
qed simp

lemma digest_text_to_hex: "length d = 32 \<Longrightarrow> digest_text (to_hex d)"
proof -
  have "list_all (\<lambda>c. hex_value c \<noteq> None) (to_hex xs)" for xs
  proof (induction xs)
    case (Cons b xs)
    have "unat b div 16 < 16" using unat_byte_less [of b] by (simp add: div_less_iff_less_mult)
    then show ?case using Cons.IH by (simp add: to_hex_def)
  qed (simp add: to_hex_def)
  then show "length d = 32 \<Longrightarrow> digest_text (to_hex d)" by (simp add: digest_text_def)
qed

lemma find_Some: "\<exists>x \<in> set xs. P x \<Longrightarrow> \<exists>x. find P xs = Some x \<and> x \<in> set xs \<and> P x"
  by (induction xs) auto

lemma resolve_exact:
  assumes "chain (utxo.address u) = Inr live" and "\<exists>l \<in> set live. live_id l = calcUtxoId u \<and> lo_sats l = amount_sats u"
  shows "resolveLiveReceivedStamp chain u k = Inr (Some (spendable k u))"
proof -
  let ?m = "filter (\<lambda>l. lo_sats l = amount_sats u) live"
  have "\<exists>l \<in> set ?m. live_id l = calcUtxoId u" using assms(2) by auto
  from find_Some [OF this] obtain l where l: "find (\<lambda>l. live_id l = calcUtxoId u) ?m = Some l" "l \<in> set ?m" "live_id l = calcUtxoId u"
    by blast
  then have "lo_txid l = txId u" "lo_outIdx l = utxo.vout u" "lo_sats l = amount_sats u"
    by (simp_all add: live_id_def calcUtxoId_def calcId_inj)
  then have "(spendable k u)\<lparr>txId := lo_txid l, utxo.vout := lo_outIdx l, amount_sats := lo_sats l\<rparr> = spendable k u"
    by (simp add: spendable_def)
  moreover have "?m \<noteq> []" using l(2) by (auto simp: filter_empty_conv)
  ultimately show ?thesis using assms(1) l(1) by (simp add: resolveLiveReceivedStamp_def Let_def)
qed

lemma restore_coins_exact:
  assumes "\<forall>c \<in> set cs. resolveLiveReceivedStamp chain (fst c) (snd c) = Inr (Some (spendable (snd c) (fst c)))"
  shows "restore_coins chain cs (n, s) = (n + length cs, fold (\<lambda>c. UtxoStore.put (spendable (snd c) (fst c))) cs s)"
  using assms by (induction cs arbitrary: n s) auto

text \<open>
  C3. Received stamps survive a restart.  The message store keeps the outpoints of a received message without
  their keys.  If the stamp transactions have different ids and Chronik still reports the outputs as unspent, then
  the pass over the stored messages puts exactly the coins into the wallet, keys included, that
  receiving the message had put there.
\<close>

theorem stamps_survive_restart:
  assumes M: "app_env_ok M" and W: "wallet_keys M W" and dest: "identity (me_hd M) dk dest"
    and src: "in_range (me_curve M) (bn source)" "toPublicKey (me_curve M) (me_nets M) source = Inr sp"
    and w: "store_ok (storage w)" "random_ok rnd" "length (changeKeys w) < 2 ^ 53 - 2" "total_sats (usable_coins (storage w)) < 2 ^ 53"
    and few: "int (length (usable_coins (storage w))) \<le> Hardened" and amount: "0 < amount" "amount < 2 ^ 53"
    and built: "constructMessage M W rnd plaintext source dest amount w = (Inr bm, w1)"
    and fits: "list_all bundle_fits (bm_bundle bm)"
    and R: "rc_address R = Some me" "cash_text (key_hash M sp) \<noteq> me" "\<not> rc_known R (to_hex (bm_digest bm))"
      "rc_identity R = Some dk" "rc_entries R plaintext = Inr [e]" "en_kind e = ''text-utf8''"
    and names: "distinct (map (\<lambda>b. tx_name M (b_tx b)) (bm_bundle bm))"
    and received: "receiveMessage M R now (bm_message bm) s = (Inr (Some v), t)"
    and chain: "\<forall>u \<in> set (rv_outpoints v). \<exists>live. chain (utxo.address u) = Inr live \<and>
      (\<exists>l \<in> set live. live_id l = calcUtxoId u \<and> lo_sats l = amount_sats u)"
  shows "\<exists>cs. map fst cs = rv_outpoints v \<and> length cs = length (bm_bundle bm) \<and>
    t = fold (\<lambda>c. UtxoStore.put (spendable (snd c) (fst c))) cs s \<and>
    rehydrate M R chain None [\<lparr>sm_index = rv_index v, sm_content = Some (rv_outbound v, rv_outpoints v)\<rparr>] (0, s0) =
      (Inr (length cs), fold (\<lambda>c. UtxoStore.put (spendable (snd c) (fst c))) cs s0)"
proof -
  obtain cs base where cs: "t = fold (\<lambda>c. UtxoStore.put (spendable (snd c) (fst c))) cs s"
      "rv_outpoints v = map fst cs" "\<not> rv_outbound v" "list_all2 (stamp_coin M) (bm_bundle bm) cs" "rv_index v = to_hex (bm_digest bm)"
      "stamp_base M (bm_digest bm) dk = Inr base" "\<forall>i < length cs. derived_coin M base i (cs ! i)"
    using stamp_arrives [OF M W dest src w few amount built fits R, of now s] received by auto
  have names': "map txId (map fst cs) = map (\<lambda>b. tx_name M (b_tx b)) (bm_bundle bm)"
    using cs(4) by (induction rule: list_all2_induct) (auto simp: stamp_coin_def message_outpoint_def)
  have "\<forall>c \<in> set cs. utype (fst c) = ''stamp''"
    using cs(4) by (induction rule: list_all2_induct) (auto simp: stamp_coin_def message_outpoint_def)
  then have all: "stored_stamps (map fst cs) = map fst cs" by (simp add: stored_stamps_def)
  have l: "length (bm_digest bm) = 32"
    using constructed_stamp [OF M dest src(2) w amount(1) built fits] app_env_okD(6) [OF M] by metis
  have "group_stamps (map fst cs) [] = map (\<lambda>u. (txId u, [u])) (map fst cs)"
    using group_stamps_distinct [of "[]" "map fst cs"] names names' by simp
  then have derived: "deriveReceivedStampKeys M R (rv_index v) (map fst cs) = Inr cs"
    using derive_groups_coins [of cs M base 0] cs(5-7) R(4) digest_text_to_hex [OF l]
    by (simp add: deriveReceivedStampKeys_def required_def)
  have exact: "\<forall>c \<in> set cs. resolveLiveReceivedStamp chain (fst c) (snd c) = Inr (Some (spendable (snd c) (fst c)))"
    using chain resolve_exact unfolding cs(2) by fastforce
  have "rehydrate M R chain None [\<lparr>sm_index = rv_index v, sm_content = Some (rv_outbound v, rv_outpoints v)\<rparr>] (0, s0) =
      (Inr (length cs), fold (\<lambda>c. UtxoStore.put (spendable (snd c) (fst c))) cs s0)"
    using derived digest_text_to_hex [OF l] restore_coins_exact [OF exact, of 0 s0] cs(3,5)
    by (auto simp: cs(2) all truthy_text_def)
  then show ?thesis using cs(1,2) list_all2_lengthD [OF cs(4)] by auto
qed


text \<open>The store that is restored: every new coin has the address of its key.\<close>

lemma derive_group_addresses:
  "derive_group M txKey j us = Inr cs \<Longrightarrow> (u, k) \<in> set cs \<Longrightarrow>
    rbind (computed_address M k) (toCashAddress False) = Inr (utxo.address u)"
  by (induction us arbitrary: j cs) (fastforce simp: rbind_Inr_iff rmap_Inr_iff split: if_splits)+

lemma derived_addresses:
  "derive_groups M base i gs = Inr cs \<Longrightarrow> (u, k) \<in> set cs \<Longrightarrow>
    rbind (computed_address M k) (toCashAddress False) = Inr (utxo.address u)"
  by (induction gs arbitrary: i cs)
    (fastforce simp: rbind_Inr_iff rmap_Inr_iff dest: derive_group_addresses)+

lemma find_SomeD: "find P xs = Some x \<Longrightarrow> x \<in> set xs \<and> P x"
  by (induction xs) (auto split: if_splits)

lemma first_of_filter: "filter P xs \<noteq> [] \<Longrightarrow> P (filter P xs ! 0)"
  using nth_mem [of 0 "filter P xs"] by auto

lemma resolved_own:
  assumes "rbind (computed_address M k) (toCashAddress False) = Inr (utxo.address u)"
    and "resolveLiveReceivedStamp chain u k = Inr (Some v)"
  shows "own_coin M v \<and> utxo.address v = utxo.address u \<and> amount_sats v = amount_sats u"
  using assms
  by (auto simp: resolveLiveReceivedStamp_def rbind_Inr_iff own_coin_def spendable_def Let_def dest!: find_SomeD dest: first_of_filter
      split: if_splits option.splits)

lemma restore_coins_grow:
  assumes "\<forall>(u, k) \<in> set cs. rbind (computed_address M k) (toCashAddress False) = Inr (utxo.address u)"
  shows "coins_grow M False s (snd (restore_coins chain cs (n, s)))"
  using assms
proof (induction cs arbitrary: n s)
  case (Cons c cs)
  obtain u k where c: "c = (u, k)" by (cases c)
  show ?case
  proof (cases "\<exists>v. resolveLiveReceivedStamp chain u k = Inr (Some v)")
    case True
    then obtain v where v: "resolveLiveReceivedStamp chain u k = Inr (Some v)" by blast
    then have "own_coin M v" using resolved_own Cons.prems c by fastforce
    from coins_grow_trans [OF coins_grow_put [OF this] Cons.IH [of "UtxoStore.put v s" "Suc n"]] Cons.prems show ?thesis
      by (simp add: c v)
  next
    case False
    then have "restore_coins chain (c # cs) (n, s) = restore_coins chain cs (n, s)"
      by (auto simp: c split: sum.splits option.splits)
    then show ?thesis using Cons by simp
  qed
qed simp

lemma rehydrate_grows: "coins_grow M False (snd ns) (snd (rehydrate M R chain target ms ns))"
proof (induction M R chain target ms ns rule: rehydrate.induct)
  case (2 M R chain target m ms n s)
  have "coins_grow M False s (snd (rehydrate M R chain target ms (restore_coins chain cs (n, s))))"
    if "sm_content m = Some (out, us)" "\<not> (out \<or> truthy_text target \<and> target \<noteq> Some (sm_index m) \<or> \<not> digest_text (sm_index m) \<or> stored_stamps us = [])"
      "deriveReceivedStampKeys M R (sm_index m) (stored_stamps us) = Inr cs" for out us cs
  proof -
    have "\<forall>(u, k) \<in> set cs. rbind (computed_address M k) (toCashAddress False) = Inr (utxo.address u)"
      using that(3) derived_addresses [of M] by (fastforce simp: deriveReceivedStampKeys_def rbind_Inr_iff split: if_splits)
    from coins_grow_trans [OF restore_coins_grow [OF this] 2(3) [OF that(1) refl that(2,3)]] show ?thesis by simp
  qed
  then show ?case using 2(1,2) by (auto split: option.splits sum.splits)
qed simp

text \<open>
  C12. Whatever the stored messages say and whatever Chronik answers: the pass over them takes no coin out of the
  wallet, brings back none that was deleted, and the coins it adds are stored with the key of their address.
\<close>

theorem rehydrate_only_own_coins:
  assumes "store_ok s" and "rehydrate M R chain target ms (n, s) = (r, t)"
  shows "store_ok t \<and> deletedUtxos t = deletedUtxos s \<and> (\<forall>i. getById i s \<noteq> None \<longrightarrow> getById i t \<noteq> None) \<and>
    (\<forall>i u. getById i t = Some u \<longrightarrow> getById i s = Some u \<or> own_coin M u)"
  using rehydrate_grows [of M "(n, s)" R chain target ms] assms by (simp add: coins_grow_def)

section \<open>Redeeming\<close>

lemma resolve_all_length: "resolve_all chain cs = Inr ls \<Longrightarrow> length ls = length cs"
  by (induction cs arbitrary: ls) (auto simp: rbind_Inr_iff rmap_Inr_iff)

lemma stage_coins_ids:
  "store_ok s \<Longrightarrow> stage_coins E True s cs t sats used = Inr (t1, sats1, used1) \<Longrightarrow>
    map calcUtxoId used1 = map calcUtxoId used @ map calcUtxoId cs"
proof (induction cs arbitrary: t sats used)
  case (Cons c cs)
  have "calcUtxoId u = calcUtxoId c" if "getById (calcUtxoId c) s = Some u" for u
    using that Cons.prems(1) well_keyed_id by (auto simp: store_ok_def getById_def)
  then show ?case using Cons by (auto simp: rbind_Inr_iff split: option.splits)
qed simp

text \<open>
  When the redemption of a message's stamp reports success, all coins of the stamp and one ordinary
  coin were spent, and none of them stays in the wallet.
\<close>

lemma redeemed_stamps_are_spent:
  assumes "store_ok s"
    and "redeemStampForProof M W R chain answers sent rnd keys digest (Some m) s = (Inr (t, ids), s1)"
  shows "\<exists>us cs stamps support. sm_content m = Some (False, us) \<and>
    deriveReceivedStampKeys M R digest (stored_stamps us) = Inr cs \<and> length cs = length (stored_stamps us) \<and>
    resolve_all chain cs = Inr stamps \<and> ids = map calcUtxoId stamps \<and> length ids = length (stored_stamps us) \<and>
    support_coin stamps s = Some support \<and> sent t \<and>
    (\<forall>i \<in> set (ids @ [calcUtxoId support]). i \<in> deletedUtxos s1 \<and> getById i s1 = None)"
proof -
  obtain us cs stamps support where staged: "sm_content m = Some (False, us)"
      "deriveReceivedStampKeys M R digest (stored_stamps us) = Inr cs" "length cs = length (stored_stamps us)"
      "resolve_all chain cs = Inr stamps" "support_coin stamps s = Some support"
      "redeemed_stamps M R chain digest (Some m) s = Inr (stamps @ [support])"
    using assms(2)
    by (auto simp: redeemStampForProof_def redeemed_stamps_def required_def rbind_Inr_iff rmap_Inr_iff
        split: sum.splits if_splits option.splits)
  obtain checks s2 pub used where f: "checkAndFixUtxos answers False (stamps @ [support]) s = Inr (checks, s2)"
      "forwardUTXOsToPubkey W sent answers True (stamps @ [support]) pub s2 = (Inr (Some (t, used)), s1)"
      "ids = map calcUtxoId stamps"
    using assms(2) staged(6)
    by (auto simp: redeemStampForProof_def split: sum.splits if_splits option.splits prod.splits)
  have ok: "store_ok s2" using checkAndFixUtxos_reached [OF f(1)] assms(1) store.reached_ok by blast
  have u: "map calcUtxoId used = ids @ [calcUtxoId support]"
    using f(2) stage_coins_ids [OF ok]
    by (fastforce simp: forwardUTXOsToPubkey_def forward_tx_def rbind_Inr_iff rmap_Inr_iff f(3)
        split: sum.splits option.splits prod.splits if_splits)
  have s1: "s1 = fold deleteById (map calcUtxoId used) s2" "sent t"
    using f(2)
    by (auto simp: forwardUTXOsToPubkey_def forward_done_def split: sum.splits option.splits prod.splits if_splits)
  have gone: "i \<in> deletedUtxos (fold deleteById is z) \<and> getById i (fold deleteById is z) = None"
    if "i \<in> set is \<or> i \<in> deletedUtxos z \<and> getById i z = None" for i "is" and z :: coins
    using that
  proof (induction "is" arbitrary: z)
    case (Cons a "is")
    then show ?case using Cons.IH [of "deleteById a z"] by auto
  qed simp
  have "length (ids) = length (stored_stamps us)"
    using staged(3,4) f(3) by (simp add: resolve_all_length)
  then show ?thesis using staged f(3) u s1 gone [of _ "map calcUtxoId used" s2] by auto
qed

section \<open>Witnesses\<close>

text \<open>Chronik reports the outputs of the received stamp at every address.\<close>

definition live_of :: "unit utxo list \<Rightarrow> string \<Rightarrow> live_output list res" where
  "live_of us a = Inr (map (\<lambda>u. \<lparr>lo_txid = txId u, lo_outIdx = utxo.vout u, lo_sats = amount_sats u\<rparr>) us)"

theorem stamps_survive_restart_witness:
  "\<exists>(bm :: nat built_message) v t. receiveMessage demo_msg_env demo_receiver 0 (bm_message bm) (empty_store []) = (Inr (Some v), t) \<and> rv_stampValue v = 9000 \<and>
    rehydrate demo_msg_env demo_receiver (live_of (rv_outpoints v)) None
      [\<lparr>sm_index = rv_index v, sm_content = Some (rv_outbound v, rv_outpoints v)\<rparr>] (0, empty_store []) = (Inr 1, t)"
proof -
  obtain bm w1 where bm: "constructMessage demo_msg_env demo_wallet_env (\<lambda>_. 0) [7, 8] (demo_key 5) (demo_pub 2) 9000
      (holder demo_txid 10000) = (Inr bm, w1)" "list_all bundle_fits (bm_bundle bm)" "length (bm_bundle bm) = 1"
    using demo_stamp by blast
  obtain sp where sp: "toPublicKey (me_curve demo_msg_env) (me_nets demo_msg_env) (demo_key 5) = Inr sp"
      "key_hash demo_msg_env sp = key_hash demo_msg_env (demo_pub 5)" using demo_sender by blast
  have differ: "cash_text (key_hash demo_msg_env sp) \<noteq> cash_text (key_hash demo_msg_env (demo_pub 2))"
    using demo_senders_differ sp(2) by simp
  obtain v t where v: "receiveMessage demo_msg_env demo_receiver 0 (bm_message bm) (empty_store []) = (Inr (Some v), t)"
      "rv_stampValue v = 9000"
    using stamp_arrives [OF demo_hypotheses(1-4) sp(1) demo_hypotheses(5-) bm(1,2) demo_receiver_facts(1) differ
        demo_receiver_facts(2-4), of 0 "empty_store []"] by auto
  have names: "distinct (map (\<lambda>b. tx_name demo_msg_env (b_tx b)) (bm_bundle bm))"
    using bm(3) by (cases "bm_bundle bm") auto
  have chain: "\<forall>u \<in> set (rv_outpoints v). \<exists>live. live_of (rv_outpoints v) (utxo.address u) = Inr live \<and>
      (\<exists>l \<in> set live. live_id l = calcUtxoId u \<and> lo_sats l = amount_sats u)"
    by (auto simp: live_of_def live_id_def calcUtxoId_def intro!: rev_image_eqI)
  from stamps_survive_restart [OF demo_hypotheses(1-4) sp(1) demo_hypotheses(5-) bm(1,2) demo_receiver_facts(1) differ
      demo_receiver_facts(2-4) _ names v(1) chain, of "empty_store []"] bm(3)
  have "rehydrate demo_msg_env demo_receiver (live_of (rv_outpoints v)) None
      [\<lparr>sm_index = rv_index v, sm_content = Some (rv_outbound v, rv_outpoints v)\<rparr>] (0, empty_store []) = (Inr 1, t)"
    by (auto simp del: rehydrate.simps)
  then show ?thesis using v by blast
qed

theorem rehydrate_only_own_coins_witness:
  "\<exists>ms r t. rehydrate demo_msg_env demo_receiver (\<lambda>_. Inr []) None ms (0, demo_coins) = (r, t) \<and> ms \<noteq> [] \<and>
    getById (calcId demo_txid 0) t \<noteq> None"
proof -
  obtain r t where r: "rehydrate demo_msg_env demo_receiver (\<lambda>_. Inr []) None [\<lparr>sm_index = ''a'', sm_content = None\<rparr>] (0, demo_coins) = (r, t)"
    by (rule prod.exhaust)
  have "store_ok demo_coins" by (simp add: demo_coins_def put_ok store_ok_empty well_keyed_def)
  from rehydrate_only_own_coins [OF this r] demo_coins_id r show ?thesis by blast
qed

end
