(* ===== verification/Sending.thy ===== *)
theory Sending
  imports Restore
begin

text \<open>
  The sending half of \<^verbatim>\<open>src/cashweb/relay/index.ts\<close> (\<^verbatim>\<open>sendMessageImpl\<close> and its callers, the pushes to the relay,
  \<^verbatim>\<open>getMessages\<close>, \<^verbatim>\<open>refresh\<close>), \<^verbatim>\<open>encode-entry.ts\<close>, the entries of \<^verbatim>\<open>constructors.ts\<close> and \<^verbatim>\<open>pop.ts\<close>.  What the client
  does to the outside is a list of actions; what the relay and Chronik answer are parameters.  A send runs as one
  operation: nothing else changes the wallet while it waits for an answer.
\<close>

section \<open>Answers of the relay\<close>

text \<open>A failed request has the status of its response, if there was one.\<close>

datatype http = HttpOk | HttpFail "nat option"

definition client_error :: "nat option \<Rightarrow> bool" where
  "client_error status = (case status of None \<Rightarrow> False | Some c \<Rightarrow> 400 \<le> c \<and> c < 500)"

datatype push_result = Delivered | Undelivered "nat option option"

text \<open>The loop over the attempts: how it ends and the number of pushes made.\<close>

function push_loop :: "(nat \<Rightarrow> http) \<Rightarrow> nat \<Rightarrow> nat \<Rightarrow> nat option option \<Rightarrow> push_result \<times> nat" where
  "push_loop answer maxAttempts attempt lastError =
     (if attempt > maxAttempts then (Undelivered lastError, attempt - 1)
      else case answer attempt of
             HttpOk \<Rightarrow> (Delivered, attempt)
           | HttpFail status \<Rightarrow>
               if client_error status then (Undelivered (Some status), attempt)
               else push_loop answer maxAttempts (attempt + 1) (Some status))"
  by pat_completeness auto
termination by (relation "measure (\<lambda>(_, maxAttempts, attempt, _). Suc maxAttempts - attempt)") auto

declare push_loop.simps [simp del]

definition pushMessagesWithRetry :: "(nat \<Rightarrow> http) \<Rightarrow> nat \<Rightarrow> push_result \<times> nat" where
  "pushMessagesWithRetry answer maxAttempts = push_loop answer maxAttempts 1 None"

section \<open>Entries of a message\<close>

datatype send_item = SendReply string | SendText string | SendStealth nat | SendImage string | SendP2PKH string nat

text \<open>
  The clock, the random numbers and keys, the writers of the protocol buffers and of texts, the decoder of base 64,
  the wallet's keys and address, and the address book.
\<close>

record 'p client =
  cl_random :: "nat \<Rightarrow> nat \<Rightarrow> nat"
  cl_ephemeral :: "nat \<Rightarrow> privkey"
  cl_payload :: "entry list \<Rightarrow> bytes"
  cl_stealth :: "bytes \<Rightarrow> (bytes \<times> nat list) list \<Rightarrow> bytes"
  cl_p2pkh :: "bytes \<Rightarrow> bytes"
  cl_text :: "string \<Rightarrow> bytes"
  cl_atob :: "string \<Rightarrow> bytes"
  cl_identity :: "privkey option"
  cl_address :: "string option"
  cl_getPubKey :: "string \<Rightarrow> 'p pubkey option"

text \<open>\<^verbatim>\<open>/:(.*?);/\<close>: what stands between a colon and the next semicolon, on one line.\<close>

fun until_semicolon :: "string \<Rightarrow> string option" where
  "until_semicolon [] = None"
| "until_semicolon (c # s) =
     (if c = CHR '';'' then Some [] else if c \<in> {CHR 0x0A, CHR 0x0D} then None else map_option (\<lambda>t. c # t) (until_semicolon s))"

fun media_type :: "string \<Rightarrow> string option" where
  "media_type [] = None"
| "media_type (c # s) =
     (case (c = CHR '':'', until_semicolon s) of (True, Some t) \<Rightarrow> Some t | _ \<Rightarrow> media_type s)"

definition constructImageEntry :: "'p client \<Rightarrow> string \<Rightarrow> entry res" where
  "constructImageEntry C img =
     (let arr = split_on CHR '','' img
      in rbind (required (media_type (hd arr))) (\<lambda>t.
         case tl arr of [] \<Rightarrow> Inl TypeErr
         | b # _ \<Rightarrow> Inr \<lparr>en_kind = ''image'', en_body = cl_atob C b, en_headers = [(''data'', t)]\<rparr>))"

text \<open>The outputs a bundle adds to a message; the addresses are not kept.\<close>

record ui_output =
  uo_kind :: string
  uo_txId :: string
  uo_sats :: nat
  uo_index :: nat

definition bundle_outputs :: "'p msg_env \<Rightarrow> string \<Rightarrow> 'k tx_bundle list \<Rightarrow> ui_output list res" where
  "bundle_outputs M kind bs =
     fold_res (\<lambda>b xs. rbind (txid (hash256d M) (b_tx b)) (\<lambda>tid.
        rmap (\<lambda>out. xs @ [\<lparr>uo_kind = kind, uo_txId = tid, uo_sats = satoshis out, uo_index = b_vout b\<rparr>])
          (case nth_opt (outputs (b_tx b)) (b_vout b) of None \<Rightarrow> Inl TypeErr | Some out \<Rightarrow> Inr out))) bs []"

text \<open>What the items of a message have gathered: entries, transactions, coins, outputs.\<close>

record 'k gathered =
  sd_entries :: "entry list"
  sd_txs :: "tx list"
  sd_coins :: "'k utxo list"
  sd_outputs :: "ui_output list"

definition no_staged :: "'k gathered" where
  "no_staged = \<lparr>sd_entries = [], sd_txs = [], sd_coins = [], sd_outputs = []\<rparr>"

definition stage_entry :: "entry \<Rightarrow> tx list \<Rightarrow> 'k utxo list \<Rightarrow> ui_output list \<Rightarrow> 'k gathered \<Rightarrow> 'k gathered" where
  "stage_entry e txs coins outs d =
     \<lparr>sd_entries = sd_entries d @ [e], sd_txs = sd_txs d @ txs, sd_coins = sd_coins d @ coins, sd_outputs = sd_outputs d @ outs\<rparr>"

definition constructStealthEntry ::
  "'p msg_env \<Rightarrow> 'p client \<Rightarrow> ('k, 'p pubkey) wallet_env \<Rightarrow> nat \<Rightarrow> 'p pubkey \<Rightarrow> nat \<Rightarrow> 'k wallet \<Rightarrow>
     (entry \<times> 'k tx_bundle list) res \<times> 'k wallet" where
  "constructStealthEntry M C W n dest amount w =
     (case constructStealthTransactions M W (cl_random C n) (cl_ephemeral C n) dest amount w of
        Inl e \<Rightarrow> (Inl e, w)
      | Inr (bs, w1) \<Rightarrow>
          (rbind (toPublicKey (me_curve M) (me_nets M) (cl_ephemeral C n)) (\<lambda>eph.
           rmap (\<lambda>outs. (\<lparr>en_kind = ''stealth-payment'', en_body = cl_stealth C (pk_toDER (me_curve M) eph) outs, en_headers = []\<rparr>, bs))
             (bundle_outpoints bs)), w1))"

definition constructP2PKHEntry ::
  "'p msg_env \<Rightarrow> 'p client \<Rightarrow> ('k, 'p pubkey) wallet_env \<Rightarrow> nat \<Rightarrow> string \<Rightarrow> nat \<Rightarrow> 'k wallet \<Rightarrow>
     (entry \<times> tx \<times> 'k utxo list) res \<times> 'k wallet" where
  "constructP2PKHEntry M C W n addr amount w =
     (case rbind (rbind (address_new (me_valid M) (me_coder M) (me_nets M) (AddrText addr) None None) script_of_address)
             (\<lambda>script. rbind (script_toBuffer script) (mk_output (int amount))) of
        Inl e \<Rightarrow> (Inl e, w)
      | Inr out \<Rightarrow>
          (case constructTransaction W (cl_random C n) [out] w of
             (Inl e, w1) \<Rightarrow> (Inl e, w1)
           | (Inr (t, used), w1) \<Rightarrow>
               (rmap (\<lambda>raw. (\<lparr>en_kind = ''p2pkh'', en_body = cl_p2pkh C raw, en_headers = []\<rparr>, t, used)) (tx_toBuffer t), w1)))"

definition encodeEntry ::
  "'p msg_env \<Rightarrow> 'p client \<Rightarrow> ('k, 'p pubkey) wallet_env \<Rightarrow> nat \<Rightarrow> 'p pubkey \<Rightarrow> send_item \<Rightarrow> 'k gathered \<Rightarrow> 'k wallet \<Rightarrow>
     'k gathered res \<times> 'k wallet" where
  "encodeEntry M C W n dest item d w =
     (case item of
        SendText t \<Rightarrow> (Inr (stage_entry \<lparr>en_kind = ''text-utf8'', en_body = cl_text C t, en_headers = []\<rparr> [] [] [] d), w)
      | SendReply digest \<Rightarrow> (Inr (stage_entry \<lparr>en_kind = ''reply'', en_body = of_hex digest, en_headers = []\<rparr> [] [] [] d), w)
      | SendImage img \<Rightarrow> (rmap (\<lambda>e. stage_entry e [] [] [] d) (constructImageEntry C img), w)
      | SendStealth amount \<Rightarrow>
          (case constructStealthEntry M C W n dest amount w of
             (Inl e, w1) \<Rightarrow> (Inl e, w1)
           | (Inr (e, bs), w1) \<Rightarrow>
               (rmap (\<lambda>outs. stage_entry e (map b_tx bs) (concat (map b_used bs)) outs d) (bundle_outputs M ''stealth'' bs), w1))
      | SendP2PKH addr amount \<Rightarrow>
          (case constructP2PKHEntry M C W n addr amount w of
             (Inl e, w1) \<Rightarrow> (Inl e, w1) | (Inr (e, t, used), w1) \<Rightarrow> (Inr (stage_entry e [t] used [] d), w1)))"

fun encode_items ::
  "'p msg_env \<Rightarrow> 'p client \<Rightarrow> ('k, 'p pubkey) wallet_env \<Rightarrow> nat \<Rightarrow> 'p pubkey \<Rightarrow> send_item list \<Rightarrow> 'k gathered \<Rightarrow> 'k wallet \<Rightarrow>
     'k gathered res \<times> 'k wallet" where
  "encode_items M C W n dest [] d w = (Inr d, w)"
| "encode_items M C W n dest (i # is) d w =
     (case encodeEntry M C W n dest i d w of
        (Inl e, w1) \<Rightarrow> (Inl e, w1) | (Inr d1, w1) \<Rightarrow> encode_items M C W (Suc n) dest is d1 w1)"

section \<open>Sending\<close>

text \<open>What the relay, Chronik and the message store answer.\<close>

record answers =
  an_unspent :: "string \<Rightarrow> string set res"
  an_local :: bool
  an_validate :: http
  an_broadcast :: "string list res"
  an_push :: "nat \<Rightarrow> http"

datatype action =
    MessageSending string | MessageSent string | MessageSendError "string option" bool
  | Validated wire_message | Broadcasted "tx list" | Pushed wire_message | Saved string nat

text \<open>The payload and the recipient; an error here is thrown before anything is announced.\<close>

definition send_start ::
  "'p msg_env \<Rightarrow> 'p client \<Rightarrow> string \<Rightarrow> (privkey \<times> 'p pubkey \<times> string) res" where
  "send_start M C addr =
     rbind (required (cl_identity C)) (\<lambda>source.
     rbind (if cl_address C = Some addr then rmap Some (toPublicKey (me_curve M) (me_nets M) source)
            else Inr (cl_getPubKey C addr)) (\<lambda>dest.
     rbind (required dest) (\<lambda>dest. rmap (\<lambda>sender. (source, dest, sender)) (required (cl_address C)))))"

text \<open>After the broadcast: the pushes, and what follows when the relay has taken the message.\<close>

definition deliver_stamped ::
  "answers \<Rightarrow> wire_message \<Rightarrow> string \<Rightarrow> 'k gathered \<Rightarrow> string list \<Rightarrow> 'k wallet \<Rightarrow> action list \<times> string list option \<times> 'k wallet" where
  "deliver_stamped N m digest d txids w =
     (case pushMessagesWithRetry (an_push N) 3 of
        (Undelivered _, n) \<Rightarrow> (replicate n (Pushed m) @ [MessageSendError (Some digest) True], None, w)
      | (Delivered, n) \<Rightarrow>
          (replicate n (Pushed m) @
             [Saved digest (foldl (\<lambda>a u. add_double a (uo_sats u)) 0 (filter (\<lambda>u. uo_kind u = ''stamp'') (sd_outputs d))),
              MessageSent digest],
           Some txids, w\<lparr>storage := fold deleteById (map calcUtxoId (sd_coins d)) (storage w)\<rparr>))"

definition check_and_broadcast ::
  "answers \<Rightarrow> wire_message \<Rightarrow> string \<Rightarrow> 'k gathered \<Rightarrow> 'k wallet \<Rightarrow> action list \<times> string list option \<times> 'k wallet" where
  "check_and_broadcast N m digest d w =
     (case checkAndFixUtxos (an_unspent N) False (sd_coins d) (storage w) of
        Inl e \<Rightarrow> ([MessageSendError (Some digest) False], None, w)
      | Inr (checks, s) \<Rightarrow>
          let w1 = w\<lparr>storage := s\<rparr>
          in if \<not> list_all (\<lambda>c. c) checks then ([MessageSendError (Some digest) False], None, w1)
             else let asked = (if an_local N then [Validated m] else [])
             in if an_local N \<and> an_validate N \<noteq> HttpOk then (asked @ [MessageSendError (Some digest) False], None, w1)
                else case an_broadcast N of
                       Inl e \<Rightarrow> (asked @ [Broadcasted (sd_txs d), MessageSendError (Some digest) False], None, w1)
                     | Inr txids \<Rightarrow>
                         (case deliver_stamped N m digest d txids w1 of
                            (acts, r, w2) \<Rightarrow> (asked @ Broadcasted (sd_txs d) # acts, r, w2)))"

text \<open>
  From the payload on, every error is caught: it is announced, unless the stamp had been broadcast, and the
  result is \<^verbatim>\<open>undefined\<close>.
\<close>

definition send_payload ::
  "'p msg_env \<Rightarrow> 'p client \<Rightarrow> ('k, 'p pubkey) wallet_env \<Rightarrow> answers \<Rightarrow> privkey \<Rightarrow> 'p pubkey \<Rightarrow> nat \<Rightarrow> nat \<Rightarrow> 'k gathered \<Rightarrow> 'k wallet \<Rightarrow>
     action list \<times> string list option \<times> 'k wallet" where
  "send_payload M C W N source dest n stampAmount d w =
     (case constructMessage M W (cl_random C n) (cl_payload C (sd_entries d)) source dest stampAmount w of
        (Inl _, w1) \<Rightarrow> ([MessageSendError None False], None, w1)
      | (Inr bm, w1) \<Rightarrow>
          let digest = to_hex (bm_digest bm)
          in case bundle_outputs M ''stamp'' (bm_bundle bm) of
               Inl _ \<Rightarrow> ([MessageSendError (Some digest) False], None, w1)
             | Inr outs \<Rightarrow>
                 let d1 = d\<lparr>sd_txs := sd_txs d @ map b_tx (bm_bundle bm), sd_coins := sd_coins d @ concat (map b_used (bm_bundle bm)),
                            sd_outputs := sd_outputs d @ outs\<rparr>
                 in case pub_cashAddress M dest (networkName M) of
                      Inl _ \<Rightarrow> ([MessageSending digest, MessageSendError (Some digest) False], None, w1)
                    | Inr _ \<Rightarrow>
                        (case check_and_broadcast N (bm_message bm) digest d1 w1 of
                           (acts, r, w2) \<Rightarrow> (MessageSending digest # acts, r, w2)))"

definition sendMessageImpl ::
  "'p msg_env \<Rightarrow> 'p client \<Rightarrow> ('k, 'p pubkey) wallet_env \<Rightarrow> answers \<Rightarrow> string \<Rightarrow> send_item list \<Rightarrow> nat \<Rightarrow> 'k wallet \<Rightarrow>
     action list \<times> string list option res \<times> 'k wallet" where
  "sendMessageImpl M C W N addr items stampAmount w =
     (case send_start M C addr of
        Inl e \<Rightarrow> ([], Inl e, w)
      | Inr (source, dest, sender) \<Rightarrow>
          (case encode_items M C W 0 dest items no_staged w of
             (Inl e, w1) \<Rightarrow> ([], Inl e, w1)
           | (Inr d, w1) \<Rightarrow>
               (case send_payload M C W N source dest (length items) stampAmount d w1 of
                  (acts, r, w2) \<Rightarrow> (acts, Inr r, w2))))"

text \<open>The callers.\<close>

definition message_items :: "send_item list \<Rightarrow> string \<Rightarrow> string \<Rightarrow> send_item list" where
  "message_items items caption replyDigest =
     (if replyDigest = [] then [] else [SendReply replyDigest]) @ items @ (if caption = [] then [] else [SendText caption])"

text \<open>Three of them await the send and drop its result: they return \<^verbatim>\<open>undefined\<close>, or throw what it throws.\<close>

definition awaited :: "action list \<times> 'r res \<times> 'w \<Rightarrow> action list \<times> unit res \<times> 'w" where
  "awaited x = (case x of (acts, r, w) \<Rightarrow> (acts, rmap (\<lambda>_. ()) r, w))"

definition sendMessage where
  "sendMessage M C W N addr txt replyDigest stampAmount w =
     awaited (sendMessageImpl M C W N addr (message_items [SendText txt] [] replyDigest) stampAmount w)"

definition sendStealthPayment where
  "sendStealthPayment M C W N addr stampAmount amount memo w =
     awaited (sendMessageImpl M C W N addr (message_items [SendStealth amount] memo []) stampAmount w)"

definition sendImage where
  "sendImage M C W N addr img caption replyDigest stampAmount w =
     awaited (sendMessageImpl M C W N addr (message_items [SendImage img] caption replyDigest) stampAmount w)"

definition sendToPubKeyHash where
  "sendToPubKeyHash M C W N addr amount w =
     (case cl_address C of None \<Rightarrow> ([], Inl (LibError ''AssertionError''), w)
      | Some me \<Rightarrow> sendMessageImpl M C W N me [SendP2PKH addr amount] 0 w)"

end
