(* ===== verification/SendResults.thy ===== *)
theory SendResults
  imports Sending
begin

text \<open>
  What sending a message guarantees: how often a stamp is paid and pushed, when the relay gets the message, what
  becomes of the coins, and that a text arrives.
\<close>

section \<open>Pushes\<close>

definition retried :: "http \<Rightarrow> bool" where
  "retried h = (case h of HttpOk \<Rightarrow> False | HttpFail status \<Rightarrow> \<not> client_error status)"

lemma retried_cases: "retried h \<or> h = HttpOk \<or> (\<exists>st. h = HttpFail st \<and> client_error st)"
  by (cases h) (auto simp: retried_def)

lemma push_loop_outcome:
  "push_loop answer k a err = (r, n) \<Longrightarrow> 1 \<le> a \<Longrightarrow> a \<le> Suc k \<Longrightarrow>
    a - 1 \<le> n \<and> n \<le> k \<and> (\<forall>i. a \<le> i \<and> i < n \<longrightarrow> retried (answer i)) \<and>
    (r = Delivered \<longleftrightarrow> a \<le> n \<and> answer n = HttpOk) \<and>
    (r \<noteq> Delivered \<longrightarrow> (\<forall>i. a \<le> i \<and> i \<le> k \<longrightarrow> retried (answer i)) \<and> n = k \<or> a \<le> n \<and> \<not> retried (answer n))"
proof (induction answer k a err rule: push_loop.induct)
  case (1 answer k a err)
  show ?case
  proof (cases "a > k")
    case True
    then show ?thesis using "1.prems" by (auto simp: push_loop.simps [of answer k a err])
  next
    case False
    show ?thesis
    proof (cases "answer a")
      case HttpOk
      then show ?thesis using "1.prems" False by (auto simp: push_loop.simps [of answer k a err])
    next
      case (HttpFail st)
      show ?thesis
      proof (cases "client_error st")
        case True
        then show ?thesis using "1.prems" False HttpFail
          by (auto simp: push_loop.simps [of answer k a err] retried_def)
      next
        case c: False
        have "push_loop answer k (a + 1) (Some st) = (r, n)"
          using "1.prems"(1) False HttpFail c by (simp add: push_loop.simps [of answer k a err])
        from "1.IH" [OF False HttpFail c this] False
        have IH: "a \<le> n" "n \<le> k" "\<forall>i. a + 1 \<le> i \<and> i < n \<longrightarrow> retried (answer i)"
          "r = Delivered \<longleftrightarrow> a + 1 \<le> n \<and> answer n = HttpOk"
          "r \<noteq> Delivered \<longrightarrow> (\<forall>i. a + 1 \<le> i \<and> i \<le> k \<longrightarrow> retried (answer i)) \<and> n = k \<or> a + 1 \<le> n \<and> \<not> retried (answer n)"
          by auto
        have ra: "retried (answer a)" using HttpFail c by (simp add: retried_def)
        then have "answer a \<noteq> HttpOk" by (auto simp: retried_def)
        have at: "i = a \<or> a + 1 \<le> i" if "a \<le> i" for i using that by auto
        have "\<forall>i. a \<le> i \<and> i < n \<longrightarrow> retried (answer i)" using IH(3) ra at by blast
        moreover have "r = Delivered \<longleftrightarrow> a \<le> n \<and> answer n = HttpOk"
          using IH(1,4) at [of n] \<open>answer a \<noteq> HttpOk\<close> by auto
        moreover have "r \<noteq> Delivered \<longrightarrow> (\<forall>i. a \<le> i \<and> i \<le> k \<longrightarrow> retried (answer i)) \<and> n = k \<or> a \<le> n \<and> \<not> retried (answer n)"
          using IH(1,5) ra at by blast
        ultimately show ?thesis using IH(1,2) by simp
      qed
    qed
  qed
qed

lemma push_settles:
  assumes "pushMessagesWithRetry answer k = (r, n)"
  shows "n \<le> k \<and> (\<forall>i. 1 \<le> i \<and> i < n \<longrightarrow> retried (answer i)) \<and>
    (r = Delivered \<longleftrightarrow> (\<exists>i. 1 \<le> i \<and> i \<le> k \<and> answer i = HttpOk \<and> (\<forall>j. 1 \<le> j \<and> j < i \<longrightarrow> retried (answer j))))"
proof -
  from push_loop_outcome [OF assms [unfolded pushMessagesWithRetry_def]]
  have o: "n \<le> k" "\<forall>i. 1 \<le> i \<and> i < n \<longrightarrow> retried (answer i)" "r = Delivered \<longleftrightarrow> 1 \<le> n \<and> answer n = HttpOk"
    "r \<noteq> Delivered \<longrightarrow> (\<forall>i. 1 \<le> i \<and> i \<le> k \<longrightarrow> retried (answer i)) \<and> n = k \<or> 1 \<le> n \<and> \<not> retried (answer n)" by auto
  have "r = Delivered" if i: "1 \<le> i" "i \<le> k" "answer i = HttpOk" "\<forall>j. 1 \<le> j \<and> j < i \<longrightarrow> retried (answer j)" for i
  proof (rule ccontr)
    assume "r \<noteq> Delivered"
    then consider "\<forall>i. 1 \<le> i \<and> i \<le> k \<longrightarrow> retried (answer i)" | "1 \<le> n" "\<not> retried (answer n)" "answer n \<noteq> HttpOk" using o by auto
    then show False
    proof cases
      case 1
      then show False using i by (auto simp: retried_def)
    next
      case 2
      then have "n < i \<longrightarrow> retried (answer n)" "i < n \<longrightarrow> retried (answer i)" using i(1,4) o(2) by auto
      then show False using 2 i(3) by (cases "n = i") (auto simp: retried_def)
    qed
  qed
  then show ?thesis using o by blast
qed

text \<open>
  C9. Pushing a message to the relay ends.  It makes at most the given number of attempts, goes on exactly
  after a failure that is not a client error, and delivers when some attempt within the limit succeeds and
  only such failures come before it.
\<close>

theorem push_ends_or_delivers:
  "\<exists>r n. pushMessagesWithRetry answer k = (r, n) \<and> n \<le> k \<and> (\<forall>i. 1 \<le> i \<and> i < n \<longrightarrow> retried (answer i)) \<and>
    (r = Delivered \<longleftrightarrow> (\<exists>i. 1 \<le> i \<and> i \<le> k \<and> answer i = HttpOk \<and> (\<forall>j. 1 \<le> j \<and> j < i \<longrightarrow> retried (answer j))))"
proof -
  obtain r n where p: "pushMessagesWithRetry answer k = (r, n)" by (rule prod.exhaust)
  from conjI [OF p push_settles [OF p]] show ?thesis by (intro exI)
qed

section \<open>The trace of a send\<close>

definition quiet :: "action list \<Rightarrow> bool" where
  "quiet acts \<longleftrightarrow> list_all (\<lambda>a. case a of Broadcasted _ \<Rightarrow> False | Pushed _ \<Rightarrow> False | _ \<Rightarrow> True) acts"

lemma quiet_simps [simp]: "quiet []" "quiet (xs @ ys) \<longleftrightarrow> quiet xs \<and> quiet ys"
  "quiet (MessageSending d # xs) = quiet xs" "quiet (MessageSent d # xs) = quiet xs" "quiet (MessageSendError e b # xs) = quiet xs"
  "quiet (Validated m # xs) = quiet xs" "quiet (Saved d n # xs) = quiet xs"
  "\<not> quiet (Broadcasted ts # xs)" "\<not> quiet (Pushed m # xs)"
  by (simp_all add: quiet_def)

text \<open>Nothing reaches the chain or the relay, or one broadcast is followed by at most three pushes of one message.\<close>

definition paid_once :: "answers \<Rightarrow> wire_message \<Rightarrow> tx list \<Rightarrow> action list \<Rightarrow> bool" where
  "paid_once N m ts acts \<longleftrightarrow> quiet acts \<or> (\<exists>pre n rest. acts = pre @ Broadcasted ts # replicate n (Pushed m) @ rest \<and>
     n \<le> 3 \<and> quiet pre \<and> quiet rest \<and> (an_local N \<longrightarrow> Validated m \<in> set pre \<and> an_validate N = HttpOk))"

lemma paid_once_Cons: "quiet [a] \<Longrightarrow> paid_once N m ts acts \<Longrightarrow> paid_once N m ts (a # acts)"
  unfolding paid_once_def using quiet_simps(2) [of "[a]"]
  by (metis (no_types, lifting) append_Cons append_Nil list.set_intros(2))

lemma check_and_broadcast_paid_once:
  assumes "check_and_broadcast N m digest d w = (acts, r, v)"
  shows "paid_once N m (sd_txs d) acts"
proof -
  obtain q n where p: "pushMessagesWithRetry (an_push N) 3 = (q, n)" by (rule prod.exhaust)
  then have n: "n \<le> 3" using push_loop_outcome [of "an_push N" 3 1 None q n] by (simp add: pushMessagesWithRetry_def)
  have shape: "paid_once N m (sd_txs d) (asked @ Broadcasted (sd_txs d) # replicate k (Pushed m) @ rest)"
    if "k \<le> 3" "quiet asked" "quiet rest" "an_local N \<longrightarrow> Validated m \<in> set asked \<and> an_validate N = HttpOk" for asked k rest
    using that unfolding paid_once_def by blast
  have quiet: "paid_once N m (sd_txs d) xs" if "quiet xs" for xs using that by (simp add: paid_once_def)
  show ?thesis
    using assms p n shape [of 0 "[]"] shape [of 0 "[Validated m]"] shape [of n "[]"] shape [of n "[Validated m]"] quiet
    by (auto simp: check_and_broadcast_def deliver_stamped_def Let_def split: sum.splits if_splits push_result.splits prod.splits)
qed


lemma send_payload_paid_once:
  assumes "send_payload M C W N source dest n amount d w = (acts, r, v)"
  shows "quiet acts \<or> (\<exists>bm w1. constructMessage M W (cl_random C n) (cl_payload C (sd_entries d)) source dest amount w = (Inr bm, w1) \<and>
    paid_once N (bm_message bm) (sd_txs d @ map b_tx (bm_bundle bm)) acts)"
  using assms
  by (auto simp: send_payload_def Let_def split: sum.splits prod.splits
      dest!: check_and_broadcast_paid_once intro!: paid_once_Cons)

text \<open>
  C4. A message is paid for at most once.  Whatever the relay and Chronik answer, a send broadcasts the
  transactions of its message and of its items at most once, pushes only that one message, at most three times,
  and only after the broadcast; a local relay has accepted the message before anything is broadcast.
\<close>

theorem stamp_paid_once:
  assumes "sendMessageImpl M C W N addr items amount w = (acts, r, v)"
  shows "quiet acts \<or> (\<exists>source dest sender d w1 bm w2. send_start M C addr = Inr (source, dest, sender) \<and>
    encode_items M C W 0 dest items no_staged w = (Inr d, w1) \<and>
    constructMessage M W (cl_random C (length items)) (cl_payload C (sd_entries d)) source dest amount w1 = (Inr bm, w2) \<and>
    (\<exists>pre n rest. acts = pre @ Broadcasted (sd_txs d @ map b_tx (bm_bundle bm)) # replicate n (Pushed (bm_message bm)) @ rest \<and>
       n \<le> 3 \<and> quiet pre \<and> quiet rest \<and> (an_local N \<longrightarrow> Validated (bm_message bm) \<in> set pre \<and> an_validate N = HttpOk)))"
proof (cases "quiet acts")
  case False
  then obtain source dest sender d w1 q where s: "send_start M C addr = Inr (source, dest, sender)"
      "encode_items M C W 0 dest items no_staged w = (Inr d, w1)"
      "send_payload M C W N source dest (length items) amount d w1 = (acts, q, v)"
    using assms by (auto simp: sendMessageImpl_def split: sum.splits prod.splits)
  from send_payload_paid_once [OF s(3)] False obtain bm w2 where
    bm: "constructMessage M W (cl_random C (length items)) (cl_payload C (sd_entries d)) source dest amount w1 = (Inr bm, w2)"
      "paid_once N (bm_message bm) (sd_txs d @ map b_tx (bm_bundle bm)) acts" by blast
  show ?thesis
    using s(1,2) bm(1) bm(2) [unfolded paid_once_def] False by blast
qed simp

section \<open>A text on its way\<close>

definition text_entry :: "'p client \<Rightarrow> string \<Rightarrow> entry" where
  "text_entry C t = \<lparr>en_kind = ''text-utf8'', en_body = cl_text C t, en_headers = []\<rparr>"

lemma constructMessage_wallet:
  fixes w :: "'k wallet"
  assumes "constructMessage M W rnd plaintext source dest amount w = (Inr bm, w1)"
  shows "w1 = w\<lparr>storage := freeze_all (concat (map b_used (bm_bundle bm))) (storage w)\<rparr>"
proof -
  have e: "freeze_all [] z = z" for z :: "'k utxo_store" by (simp add: freeze_all_def)
  show ?thesis
    using assms
    by (auto simp: constructMessage_def finish_message_def constructStampTransactions_def e rbind_Inr_iff rmap_Inr_iff Let_def
        split: sum.splits prod.splits if_splits dest!: constructTransactionSet_used)
qed

lemma bundle_outputs_eq:
  assumes "list_all bundle_fits bs"
  shows "bundle_outputs M kind bs = Inr (map (\<lambda>b. \<lparr>uo_kind = kind, uo_txId = tx_name M (b_tx b), uo_sats = paid b, uo_index = b_vout b\<rparr>) bs)"
proof -
  have "fold_res (\<lambda>b xs. rbind (txid (hash256d M) (b_tx b)) (\<lambda>tid.
        rmap (\<lambda>out. xs @ [\<lparr>uo_kind = kind, uo_txId = tid, uo_sats = satoshis out, uo_index = b_vout b\<rparr>])
          (case nth_opt (outputs (b_tx b)) (b_vout b) of None \<Rightarrow> Inl TypeErr | Some out \<Rightarrow> Inr out))) bs xs =
      Inr (xs @ map (\<lambda>b. \<lparr>uo_kind = kind, uo_txId = tx_name M (b_tx b), uo_sats = paid b, uo_index = b_vout b\<rparr>) bs)" for xs
    using assms
    by (induction bs arbitrary: xs)
       (simp_all add: bundle_fits_def read_back(1) txid_def tx_getHash_def tx_name_def paid_def)
  then show ?thesis by (simp add: bundle_outputs_def)
qed

lemma stamp_total:
  "a + sum_list (map paid bs) < 2 ^ 53 \<Longrightarrow> foldl (\<lambda>a u. add_double a (uo_sats u)) a
    (map (\<lambda>b. \<lparr>uo_kind = ''stamp'', uo_txId = f b, uo_sats = paid b, uo_index = b_vout b\<rparr>) bs) = a + sum_list (map paid bs)"
  by (induction bs arbitrary: a) (simp_all add: add_double_def)

text \<open>The answers a send hopes for.\<close>

definition all_unspent :: "answers \<Rightarrow> 'k utxo list \<Rightarrow> bool" where
  "all_unspent N us \<longleftrightarrow> (\<forall>u \<in> set us. \<exists>ids. an_unspent N (utxo.address u) = Inr ids \<and> calcUtxoId u \<in> ids)"

definition relay_takes :: "answers \<Rightarrow> bool" where
  "relay_takes N \<longleftrightarrow> (an_local N \<longrightarrow> an_validate N = HttpOk) \<and>
     (\<exists>i. 1 \<le> i \<and> i \<le> 3 \<and> an_push N i = HttpOk \<and> (\<forall>j. 1 \<le> j \<and> j < i \<longrightarrow> retried (an_push N j)))"

lemma all_unspent_checks:
  assumes "all_unspent N us"
  shows "checkAndFixUtxos (an_unspent N) False us s = Inr (replicate (length us) True, s)"
proof -
  have "check_coins (\<lambda>a. case an_unspent N a of Inr ids \<Rightarrow> ids | Inl _ \<Rightarrow> {}) False us s = (replicate (length us) True, s)"
    using assms by (induction us) (fastforce simp: all_unspent_def Let_def)+
  moreover have "find (\<lambda>u. \<not> isOk (an_unspent N (utxo.address u))) us = None"
    using assms by (auto simp: find_None_iff all_unspent_def isOk_def)
  ultimately show ?thesis by (simp add: checkAndFixUtxos_def)
qed

lemma gone_after_delete:
  "i \<in> set is \<Longrightarrow> i \<in> deletedUtxos (fold deleteById is z) \<and> getById i (fold deleteById is z) = None"
proof -
  have "i \<in> deletedUtxos (fold deleteById is z) \<and> getById i (fold deleteById is z) = None"
    if "i \<in> set is \<or> i \<in> deletedUtxos z \<and> getById i z = None" for z :: "'k utxo_store"
    using that
  proof (induction "is" arbitrary: z)
    case (Cons a "is")
    then show ?case using Cons.IH [of "deleteById a z"] by auto
  qed simp
  then show "i \<in> set is \<Longrightarrow> ?thesis" by blast
qed

text \<open>A text without a reply stages one entry and no coins.\<close>

lemma send_text_start:
  assumes "cl_identity C = Some source" and "cl_address C = Some me" and "me \<noteq> addr" and "cl_getPubKey C addr = Some dest"
  shows "send_start M C addr = Inr (source, dest, me)"
    "encode_items M C W 0 dest [SendText txt] no_staged w =
      (Inr \<lparr>sd_entries = [text_entry C txt], sd_txs = [], sd_coins = [], sd_outputs = []\<rparr>, w)"
  using assms
  by (simp_all add: send_start_def required_def encodeEntry_def stage_entry_def no_staged_def text_entry_def)

lemma text_is_sent:
  assumes M: "app_env_ok M" and start: "cl_identity C = Some source" "cl_address C = Some me" "me \<noteq> addr" "cl_getPubKey C addr = Some dest"
    and built: "constructMessage M W (cl_random C 1) (cl_payload C [text_entry C txt]) source dest amount w = (Inr bm, w1)"
    and fits: "list_all bundle_fits (bm_bundle bm)" and sum: "sum_list (map paid (bm_bundle bm)) = amount" "amount < 2 ^ 53"
    and N: "all_unspent N (concat (map b_used (bm_bundle bm)))" "relay_takes N" "an_broadcast N = Inr txids"
  shows "\<exists>acts v. sendMessageImpl M C W N addr [SendText txt] amount w = (acts, Inr (Some txids), v) \<and>
    Broadcasted (map b_tx (bm_bundle bm)) \<in> set acts \<and> Pushed (bm_message bm) \<in> set acts \<and>
    Saved (to_hex (bm_digest bm)) amount \<in> set acts \<and> MessageSent (to_hex (bm_digest bm)) \<in> set acts \<and>
    (\<forall>u \<in> set (concat (map b_used (bm_bundle bm))).
       calcUtxoId u \<in> deletedUtxos (storage v) \<and> getById (calcUtxoId u) (storage v) = None)"
proof -
  let ?d = "\<lparr>sd_entries = [text_entry C txt], sd_txs = map b_tx (bm_bundle bm), sd_coins = concat (map b_used (bm_bundle bm)),
    sd_outputs = map (\<lambda>b. \<lparr>uo_kind = ''stamp'', uo_txId = tx_name M (b_tx b), uo_sats = paid b, uo_index = b_vout b\<rparr>) (bm_bundle bm)\<rparr>"
    and ?digest = "to_hex (bm_digest bm)"
  obtain r n where p: "pushMessagesWithRetry (an_push N) 3 = (r, n)" by (rule prod.exhaust)
  have r: "r = Delivered" using push_settles [OF p] N(2) unfolding relay_takes_def by blast
  have "1 \<le> n" using push_loop_outcome [OF p [unfolded pushMessagesWithRetry_def]] r by simp
  then have pushed: "Pushed (bm_message bm) \<in> set (replicate n (Pushed (bm_message bm)))" by simp
  let ?v = "w1\<lparr>storage := fold deleteById (map calcUtxoId (concat (map b_used (bm_bundle bm)))) (storage w1)\<rparr>"
  have saved: "foldl (\<lambda>a u. add_double a (uo_sats u)) 0 (filter (\<lambda>u. uo_kind u = ''stamp'') (sd_outputs ?d)) = amount"
    using stamp_total [of 0 "bm_bundle bm"] sum by (simp add: o_def)
  have delivered: "deliver_stamped N (bm_message bm) ?digest ?d txids w1 =
      (replicate n (Pushed (bm_message bm)) @ [Saved ?digest amount, MessageSent ?digest], Some txids, ?v)"
    using p r saved by (simp add: deliver_stamped_def)
  let ?asked = "if an_local N then [Validated (bm_message bm)] else []"
  have check: "check_and_broadcast N (bm_message bm) ?digest ?d w1 =
      (?asked @ Broadcasted (map b_tx (bm_bundle bm)) # replicate n (Pushed (bm_message bm)) @ [Saved ?digest amount, MessageSent ?digest],
       Some txids, ?v)"
    using all_unspent_checks [OF N(1), of "storage w1"] N(2,3) delivered
    by (simp add: check_and_broadcast_def relay_takes_def Let_def list_all_iff)
  have paid_send: "send_payload M C W N source dest 1 amount \<lparr>sd_entries = [text_entry C txt], sd_txs = [], sd_coins = [], sd_outputs = []\<rparr> w =
      (MessageSending ?digest # ?asked @ Broadcasted (map b_tx (bm_bundle bm)) # replicate n (Pushed (bm_message bm)) @
        [Saved ?digest amount, MessageSent ?digest], Some txids, ?v)"
    using built check bundle_outputs_eq [OF fits, of M "''stamp''"] pub_cashAddress_eq [OF M, of dest] app_env_okD(3) [OF M]
    by (simp add: send_payload_def Let_def)
  let ?acts = "MessageSending ?digest # ?asked @ Broadcasted (map b_tx (bm_bundle bm)) # replicate n (Pushed (bm_message bm)) @
      [Saved ?digest amount, MessageSent ?digest]"
  have "sendMessageImpl M C W N addr [SendText txt] amount w = (?acts, Inr (Some txids), ?v)"
    using paid_send send_text_start(1) [OF start, of M] send_text_start(2) [OF start, of M W "txt" w]
    by (simp add: sendMessageImpl_def del: encode_items.simps)
  moreover have "calcUtxoId u \<in> deletedUtxos (storage ?v) \<and> getById (calcUtxoId u) (storage ?v) = None"
    if "u \<in> set (concat (map b_used (bm_bundle bm)))" for u
  proof -
    have "calcUtxoId u \<in> set (map calcUtxoId (concat (map b_used (bm_bundle bm))))" using that by auto
    from gone_after_delete [OF this, of "storage w1"] show ?thesis by simp
  qed
  ultimately show ?thesis using pushed by (intro exI [of _ ?acts] exI [of _ ?v]) (auto simp del: set_concat)
qed

text \<open>
  C1. A text reaches its recipient.  If Chronik reports the coins unspent and takes the transactions, and the relay
  takes the message within three attempts, then sending a text with a stamp returns without an error and announces the
  message as sent, the stamp was broadcast, its coins leave the sender's wallet for good, the amount is recorded, and the
  message that was pushed is received as this text with a stamp of this amount.
\<close>

theorem text_reaches_recipient:
  assumes M: "app_env_ok M" and W: "wallet_keys M W" and dest: "identity (me_hd M) dk dest"
    and src: "in_range (me_curve M) (bn source)" "toPublicKey (me_curve M) (me_nets M) source = Inr sp"
    and w: "store_ok (storage w)" "random_ok (cl_random C 1)" "length (changeKeys w) < 2 ^ 53 - 2" "total_sats (usable_coins (storage w)) < 2 ^ 53"
    and few: "int (length (usable_coins (storage w))) \<le> Hardened" and amount: "0 < amount" "amount < 2 ^ 53"
    and start: "cl_identity C = Some source" "cl_address C = Some own" "own \<noteq> addr" "cl_getPubKey C addr = Some dest"
    and built: "constructMessage M W (cl_random C 1) (cl_payload C [text_entry C txt]) source dest amount w = (Inr bm, w1)"
    and fits: "list_all bundle_fits (bm_bundle bm)"
    and N: "all_unspent N (concat (map b_used (bm_bundle bm)))" "relay_takes N" "an_broadcast N = Inr txids"
    and R: "rc_address R = Some me" "cash_text (key_hash M sp) \<noteq> me" "\<not> rc_known R (to_hex (bm_digest bm))"
      "rc_identity R = Some dk" "rc_entries R (cl_payload C [text_entry C txt]) = Inr [text_entry C txt]" "rc_text R (cl_text C txt) = txt"
  shows "\<exists>acts v. sendMessage M C W N addr txt [] amount w = (acts, Inr (), v) \<and>
    Broadcasted (map b_tx (bm_bundle bm)) \<in> set acts \<and> Pushed (bm_message bm) \<in> set acts \<and> Saved (to_hex (bm_digest bm)) amount \<in> set acts \<and>
    MessageSent (to_hex (bm_digest bm)) \<in> set acts \<and>
    (\<forall>u \<in> set (concat (map b_used (bm_bundle bm))).
       calcUtxoId u \<in> deletedUtxos (storage v) \<and> getById (calcUtxoId u) (storage v) = None) \<and>
    (\<exists>x t. receiveMessage M R now (bm_message bm) s = (Inr (Some x), t) \<and> rv_items x = [TextItem txt] \<and> rv_stampValue x = amount)"
proof -
  have sum: "sum_list (map paid (bm_bundle bm)) = amount"
    using constructed_stamp [OF M dest src(2) w amount(1) built fits] by blast
  have "en_kind (text_entry C txt) = ''text-utf8''" "rc_text R (en_body (text_entry C txt)) = txt"
    using R(6) by (simp_all add: text_entry_def)
  with stamp_arrives [OF M W dest src w few amount built fits R(1-5), of now s]
  have "\<exists>x t. receiveMessage M R now (bm_message bm) s = (Inr (Some x), t) \<and> rv_items x = [TextItem txt] \<and> rv_stampValue x = amount"
    by auto
  moreover have "\<exists>acts v. sendMessage M C W N addr txt [] amount w = (acts, Inr (), v) \<and>
    Broadcasted (map b_tx (bm_bundle bm)) \<in> set acts \<and> Pushed (bm_message bm) \<in> set acts \<and> Saved (to_hex (bm_digest bm)) amount \<in> set acts \<and>
    MessageSent (to_hex (bm_digest bm)) \<in> set acts \<and> (\<forall>u \<in> set (concat (map b_used (bm_bundle bm))).
       calcUtxoId u \<in> deletedUtxos (storage v) \<and> getById (calcUtxoId u) (storage v) = None)"
    using text_is_sent [OF M start built fits sum amount(2) N] unfolding sendMessage_def message_items_def
    by (elim exE conjE) (intro exI conjI, simp add: awaited_def, assumption+)
  ultimately show ?thesis by blast
qed

text \<open>
  C14. A message that the local relay refuses before the broadcast costs nothing, but its coins are not given back:
  the send only announces the failure, and no coin the stamp was built of can be used for another transaction.
\<close>

theorem refused_send_keeps_coins_frozen:
  assumes M: "app_env_ok M" and ok: "store_ok (storage w)"
    and start: "cl_identity C = Some source" "cl_address C = Some own" "own \<noteq> addr" "cl_getPubKey C addr = Some dest"
    and built: "constructMessage M W (cl_random C 1) (cl_payload C [text_entry C txt]) source dest amount w = (Inr bm, w1)"
    and fits: "list_all bundle_fits (bm_bundle bm)"
    and N: "all_unspent N (concat (map b_used (bm_bundle bm)))" "an_local N" "an_validate N = HttpFail status"
  shows "\<exists>v. sendMessage M C W N addr txt [] amount w =
      ([MessageSending (to_hex (bm_digest bm)), Validated (bm_message bm), MessageSendError (Some (to_hex (bm_digest bm))) False], Inr (), v) \<and>
    (\<forall>u \<in> set (concat (map b_used (bm_bundle bm))). \<forall>c \<in> set (usable_coins (storage v)). calcUtxoId u \<noteq> calcUtxoId c)"
proof -
  let ?us = "concat (map b_used (bm_bundle bm))" and ?digest = "to_hex (bm_digest bm)"
  have w1: "storage w1 = freeze_all ?us (storage w)" using constructMessage_wallet [OF built] by simp
  have "check_and_broadcast N (bm_message bm) ?digest d w1 = ([Validated (bm_message bm), MessageSendError (Some ?digest) False], None, w1)"
    if "sd_coins d = ?us" for d
    using all_unspent_checks [OF N(1), of "storage w1"] N(2,3) that
    by (simp add: check_and_broadcast_def Let_def list_all_iff)
  then have "send_payload M C W N source dest 1 amount \<lparr>sd_entries = [text_entry C txt], sd_txs = [], sd_coins = [], sd_outputs = []\<rparr> w =
      ([MessageSending ?digest, Validated (bm_message bm), MessageSendError (Some ?digest) False], None, w1)"
    using built bundle_outputs_eq [OF fits, of M "''stamp''"] pub_cashAddress_eq [OF M, of dest] app_env_okD(3) [OF M]
    by (simp add: send_payload_def Let_def)
  then have "sendMessage M C W N addr txt [] amount w =
      ([MessageSending ?digest, Validated (bm_message bm), MessageSendError (Some ?digest) False], Inr (), w1)"
    using send_text_start(1) [OF start, of M] send_text_start(2) [OF start, of M W "txt" w]
    by (simp add: sendMessage_def awaited_def sendMessageImpl_def message_items_def del: encode_items.simps)
  moreover have "calcUtxoId u \<noteq> calcUtxoId c" if "u \<in> set ?us" "c \<in> set (usable_coins (storage w1))" for u c
    using frozen_not_usable [OF ok that(1)] that(2) w1 by simp
  ultimately show ?thesis by blast
qed

section \<open>Witnesses\<close>

definition demo_client :: "nat client" where
  "demo_client = \<lparr>cl_random = \<lambda>_ _. 0, cl_ephemeral = \<lambda>_. demo_key 3, cl_payload = \<lambda>_. [7, 8], cl_stealth = \<lambda>_ _. [],
     cl_p2pkh = \<lambda>b. b, cl_text = map (\<lambda>c. word_of_nat (of_char c)), cl_atob = \<lambda>_. [], cl_identity = Some (demo_key 5),
     cl_address = Some ''sender'', cl_getPubKey = \<lambda>_. Some (demo_pub 2)\<rparr>"

text \<open>The relay is not reached at first and then takes the message.\<close>

definition demo_answers :: answers where
  "demo_answers = \<lparr>an_unspent = \<lambda>_. Inr UNIV, an_local = True, an_validate = HttpOk, an_broadcast = Inr [''id''],
     an_push = \<lambda>i. if i = 1 then HttpFail None else HttpOk\<rparr>"

theorem push_ends_or_delivers_witness:
  "pushMessagesWithRetry (an_push demo_answers) 3 = (Delivered, 2) \<and> fst (pushMessagesWithRetry (\<lambda>_. HttpFail (Some 400)) 3) \<noteq> Delivered"
proof -
  have e: "pushMessagesWithRetry (an_push demo_answers) 3 = (Delivered, 2)" "pushMessagesWithRetry (\<lambda>_. HttpFail (Some 400)) 3 = (Undelivered (Some (Some 400)), 1)"
    by (simp_all add: pushMessagesWithRetry_def push_loop.simps demo_answers_def client_error_def)
  obtain r n where "pushMessagesWithRetry (an_push demo_answers) 3 = (r, n)" "n \<le> 3"
      "r = Delivered \<longleftrightarrow> (\<exists>i. 1 \<le> i \<and> i \<le> 3 \<and> an_push demo_answers i = HttpOk \<and> (\<forall>j. 1 \<le> j \<and> j < i \<longrightarrow> retried (an_push demo_answers j)))"
    using push_ends_or_delivers [of "an_push demo_answers" 3] by (elim exE conjE)
  then show ?thesis using e by simp
qed

lemma demo_answers_ok: "all_unspent demo_answers us" "relay_takes demo_answers" "an_broadcast demo_answers = Inr [''id'']"
proof -
  show "relay_takes demo_answers"
    unfolding relay_takes_def
    by (intro conjI exI [of _ 2]) (auto simp: demo_answers_def retried_def client_error_def)
qed (simp_all add: demo_answers_def all_unspent_def)

lemma demo_client_facts:
  "cl_identity demo_client = Some (demo_key 5)" "cl_address demo_client = Some ''sender''" "''sender'' \<noteq> ''friend''"
  "cl_getPubKey demo_client ''friend'' = Some (demo_pub 2)" "cl_payload demo_client es = [7, 8]" "cl_random demo_client n = (\<lambda>_. 0)"
  by (simp_all add: demo_client_def fun_eq_iff)

lemma demo_text: "text_entry demo_client ''hi'' = \<lparr>en_kind = ''text-utf8'', en_body = [104, 105], en_headers = []\<rparr>"
  by (simp add: text_entry_def demo_client_def)

theorem text_reaches_recipient_witness:
  "\<exists>acts v m x t. sendMessage demo_msg_env demo_client demo_wallet_env demo_answers ''friend'' ''hi'' [] 9000 (holder demo_txid 10000) =
      (acts, Inr (), v) \<and> Pushed m \<in> set acts \<and>
    receiveMessage demo_msg_env demo_receiver 0 m (empty_store []) = (Inr (Some x), t) \<and> rv_items x = [TextItem ''hi''] \<and> rv_stampValue x = 9000"
proof -
  obtain bm w1 where bm: "constructMessage demo_msg_env demo_wallet_env (\<lambda>_. 0) [7, 8] (demo_key 5) (demo_pub 2) 9000
      (holder demo_txid 10000) = (Inr bm, w1)" "list_all bundle_fits (bm_bundle bm)" using demo_stamp by blast
  obtain sp where sp: "toPublicKey (me_curve demo_msg_env) (me_nets demo_msg_env) (demo_key 5) = Inr sp"
      "key_hash demo_msg_env sp = key_hash demo_msg_env (demo_pub 5)" using demo_sender by blast
  have differ: "cash_text (key_hash demo_msg_env sp) \<noteq> cash_text (key_hash demo_msg_env (demo_pub 2))"
    using demo_senders_differ sp(2) by simp
  have built: "constructMessage demo_msg_env demo_wallet_env (cl_random demo_client 1) (cl_payload demo_client [text_entry demo_client ''hi''])
      (demo_key 5) (demo_pub 2) 9000 (holder demo_txid 10000) = (Inr bm, w1)"
    using bm(1) by (simp add: demo_client_facts(5,6))
  have r: "random_ok (cl_random demo_client 1)" using demo_hypotheses(6) by (simp add: demo_client_facts(6))
  have e: "rc_entries demo_receiver (cl_payload demo_client [text_entry demo_client ''hi'']) = Inr [text_entry demo_client ''hi'']"
    using demo_receiver_facts(4) by (simp add: demo_text)
  have t: "rc_text demo_receiver (cl_text demo_client ''hi'') = ''hi''" by (simp add: demo_receiver_def demo_client_def) code_simp
  from text_reaches_recipient [OF demo_hypotheses(1-4) sp(1) demo_hypotheses(5) r demo_hypotheses(7-) demo_client_facts(1-4) built bm(2)
      demo_answers_ok demo_receiver_facts(1) differ demo_receiver_facts(2,3) e t, of 0 "empty_store []"]
  show ?thesis by blast
qed

theorem stamp_paid_once_witness:
  "\<exists>acts v pre ts n m rest. sendMessageImpl demo_msg_env demo_client demo_wallet_env demo_answers ''friend'' [SendText ''hi''] 9000
      (holder demo_txid 10000) = (acts, Inr (Some [''id'']), v) \<and>
    acts = pre @ Broadcasted ts # replicate n (Pushed m) @ rest \<and> quiet pre \<and> quiet rest \<and> n \<le> 3"
proof -
  obtain bm w1 where bm: "constructMessage demo_msg_env demo_wallet_env (\<lambda>_. 0) [7, 8] (demo_key 5) (demo_pub 2) 9000
      (holder demo_txid 10000) = (Inr bm, w1)" "list_all bundle_fits (bm_bundle bm)" using demo_stamp by blast
  obtain sp where sp: "toPublicKey (me_curve demo_msg_env) (me_nets demo_msg_env) (demo_key 5) = Inr sp" using demo_sender by blast
  have sum: "sum_list (map paid (bm_bundle bm)) = 9000"
    using constructed_stamp [OF demo_hypotheses(1,3) sp demo_hypotheses(5-8,10) bm] by blast
  have built: "constructMessage demo_msg_env demo_wallet_env (cl_random demo_client 1) (cl_payload demo_client [text_entry demo_client ''hi''])
      (demo_key 5) (demo_pub 2) 9000 (holder demo_txid 10000) = (Inr bm, w1)"
    using bm(1) by (simp add: demo_client_facts(5,6))
  from text_is_sent [OF demo_hypotheses(1) demo_client_facts(1-4) built bm(2) sum demo_hypotheses(11) demo_answers_ok]
  obtain acts v where a: "sendMessageImpl demo_msg_env demo_client demo_wallet_env demo_answers ''friend'' [SendText ''hi''] 9000
      (holder demo_txid 10000) = (acts, Inr (Some [''id'']), v)" "Pushed (bm_message bm) \<in> set acts"
    by blast
  have "\<not> quiet acts" using a(2) by (force simp: quiet_def list_all_iff)
  with stamp_paid_once [OF a(1)] a(1) show ?thesis by blast
qed

theorem refused_send_keeps_coins_frozen_witness:
  "\<exists>acts v. sendMessage demo_msg_env demo_client demo_wallet_env (demo_answers\<lparr>an_validate := HttpFail (Some 400)\<rparr>) ''friend'' ''hi'' [] 9000
      (holder demo_txid 10000) = (acts, Inr (), v) \<and> quiet acts"
proof -
  let ?N = "demo_answers\<lparr>an_validate := HttpFail (Some 400)\<rparr>"
  obtain bm w1 where bm: "constructMessage demo_msg_env demo_wallet_env (\<lambda>_. 0) [7, 8] (demo_key 5) (demo_pub 2) 9000
      (holder demo_txid 10000) = (Inr bm, w1)" "list_all bundle_fits (bm_bundle bm)"
    using demo_stamp by blast
  have built: "constructMessage demo_msg_env demo_wallet_env (cl_random demo_client 1) (cl_payload demo_client [text_entry demo_client ''hi''])
      (demo_key 5) (demo_pub 2) 9000 (holder demo_txid 10000) = (Inr bm, w1)"
    using bm(1) by (simp add: demo_client_facts(5,6))
  have N: "all_unspent ?N us" "an_local ?N" "an_validate ?N = HttpFail (Some 400)" for us
    by (simp_all add: all_unspent_def demo_answers_def)
  from refused_send_keeps_coins_frozen [OF demo_hypotheses(1,5) demo_client_facts(1-4) built bm(2) N]
  show ?thesis by (elim exE conjE) (intro exI conjI, assumption, simp)
qed

end
