(* ===== verification/Profiles.thy ===== *)
theory Profiles
  imports SendResults
begin

text \<open>
  Signed profiles (\<^verbatim>\<open>profile-validation.ts\<close>, \<^verbatim>\<open>constructProfileMetadata\<close> and \<^verbatim>\<open>constructPriceFilter\<close> of
  \<^verbatim>\<open>constructors.ts\<close>), \<^verbatim>\<open>getMessages\<close> of \<^verbatim>\<open>relay/index.ts\<close> with the payments of \<^verbatim>\<open>pop.ts\<close>, and the store of messages
  \<^verbatim>\<open>relay/storage/level-storage.ts\<close>.  A request for messages with its payments and retries runs as one operation.
\<close>

section \<open>Profiles\<close>

record signed_payload =
  sp_publicKey :: bytes
  sp_signature :: bytes
  sp_scheme :: nat
  sp_payload :: bytes

definition ECDSA_SCHEME :: nat where "ECDSA_SCHEME = 1"
definition COMPACT_SIGNATURE_HEADER :: byte where "COMPACT_SIGNATURE_HEADER = 32"
definition COMPACT_SIGNATURE_LENGTH :: nat where "COMPACT_SIGNATURE_LENGTH = 64"

definition assert_that :: "bool \<Rightarrow> unit res" where
  "assert_that b = (if b then Inr () else Inl (LibError ''AssertionError''))"

lemma assert_that_Inr [simp]: "assert_that b = Inr u \<longleftrightarrow> b" "assert_that True = Inr ()"
  by (simp_all add: assert_that_def)

definition verifyProfileMetadata :: "'p msg_env \<Rightarrow> signed_payload \<Rightarrow> string \<Rightarrow> string \<Rightarrow> ('p pubkey \<times> bytes) res" where
  "verifyProfileMetadata M metadata addr net =
     rbind (assert_that (sp_scheme metadata = ECDSA_SCHEME)) (\<lambda>_.
     rbind (assert_that (length (sp_signature metadata) = COMPACT_SIGNATURE_LENGTH)) (\<lambda>_.
     rbind (pk_fromDER (me_curve M) (me_nets M) (sp_publicKey metadata) None) (\<lambda>publicKey.
     rbind (pub_cashAddress M publicKey net) (\<lambda>profileAddress.
     rbind (assert_that (profileAddress = addr)) (\<lambda>_.
     rbind (fromCompact (COMPACT_SIGNATURE_HEADER # sp_signature metadata)) (\<lambda>signature.
     rbind (ecdsa_verify (me_curve M) (me_nets M) (XAddress.sha256 (me_coder M) (sp_payload metadata)) signature publicKey None) (\<lambda>ok.
     rmap (\<lambda>_. (publicKey, sp_payload metadata)) (assert_that ok))))))))"

text \<open>
  The profile as the user edits it; the text of the card, the writers of the price filter and of the profile with its
  time are those of libraries.
\<close>

record profile_writer =
  pw_card :: "string \<Rightarrow> string \<Rightarrow> bytes"
  pw_filter :: "bool \<times> int \<times> int \<Rightarrow> bytes"
  pw_profile :: "nat \<Rightarrow> entry list \<Rightarrow> bytes"

definition constructPriceFilter :: "bool \<Rightarrow> int \<Rightarrow> int \<Rightarrow> bool \<times> int \<times> int" where
  "constructPriceFilter isPublic acceptancePrice notificationPrice = (isPublic, acceptancePrice, notificationPrice)"

definition profile_entries :: "'p client \<Rightarrow> profile_writer \<Rightarrow> string \<Rightarrow> string \<Rightarrow> string \<Rightarrow> bool \<times> int \<times> int \<Rightarrow> entry list res" where
  "profile_entries C P name bio avatar priceFilter =
     rmap (\<lambda>img. [\<lparr>en_kind = ''vcard'', en_body = pw_card P name bio, en_headers = []\<rparr>, img\<lparr>en_kind := ''avatar''\<rparr>,
                  \<lparr>en_kind = ''price-filter'', en_body = pw_filter P priceFilter, en_headers = []\<rparr>])
       (if avatar = [] then Inr \<lparr>en_kind = ''avatar'', en_body = [], en_headers = []\<rparr> else constructImageEntry C avatar)"

definition sign_profile :: "'p msg_env \<Rightarrow> privkey \<Rightarrow> bytes \<Rightarrow> signed_payload res option" where
  "sign_profile M key rawProfile =
     map_option (\<lambda>r. rbind r (\<lambda>sig.
         rbind (case (sig_r sig, sig_s sig) of (Some r, Some s) \<Rightarrow> toCompact r s 1 True | _ \<Rightarrow> Inl TypeErr) (\<lambda>compact.
         rmap (\<lambda>pub. \<lparr>sp_publicKey = pk_toDER (me_curve M) pub, sp_signature = drop 1 compact, sp_scheme = 1, sp_payload = rawProfile\<rparr>)
           (toPublicKey (me_curve M) (me_nets M) key))))
       (ecdsa_sign (me_coder M) (me_curve M) (me_nets M) (XAddress.sha256 (me_coder M) rawProfile) key None)"

definition constructProfileMetadata ::
  "'p msg_env \<Rightarrow> 'p client \<Rightarrow> profile_writer \<Rightarrow> string \<Rightarrow> string \<Rightarrow> string \<Rightarrow> bool \<times> int \<times> int \<Rightarrow> privkey \<Rightarrow> signed_payload res option" where
  "constructProfileMetadata M C P name bio avatar priceFilter key =
     (case profile_entries C P name bio avatar priceFilter of
        Inl e \<Rightarrow> Some (Inl e)
      | Inr entries \<Rightarrow> sign_profile M key (pw_profile P 31556952 entries))"

lemma signed_profile_verifies:
  assumes M: "app_env_ok M" and key: "in_range (me_curve M) (bn key)" and pub: "toPublicKey (me_curve M) (me_nets M) key = Inr pub"
    and nonce: "usable (me_curve M) (bn key) (digest_number None (XAddress.sha256 (me_coder M) raw))
      (nonce (me_coder M) key (XAddress.sha256 (me_coder M) raw) None i)"
  shows "\<exists>metadata pub'. sign_profile M key raw = Some (Inr metadata) \<and>
    verifyProfileMetadata M metadata (cash_text (key_hash M pub)) ''xec-livenet'' = Inr (pub', raw) \<and> point pub' = point pub"
proof -
  let ?C = "me_curve M" and ?N = "me_nets M" and ?h = "XAddress.sha256 (me_coder M) raw"
  note D = app_env_okD [OF M]
  have C: "curve_ok ?C" using D(1) by (simp add: env_ok_def)
  obtain r s pub0 where sg: "ecdsa_sign (me_coder M) ?C ?N ?h key None = Some (Inr ((mk_sig r s)\<lparr>sig_compressed := Some (pub_compressed pub0)\<rparr>))"
      "r < getN ?C" "s < getN ?C"
      "\<forall>sg q. sig_r sg = Some r \<and> sig_s sg = Some s \<and> point q = gmul ?C (bn key) \<longrightarrow> ecdsa_verify ?C ?N ?h sg q None = Inr True"
      "toPublicKey ?C ?N key = Inr pub0"
    using ecdsa_signs [OF C key D(6) nonce, of ?N] by blast
  have "getN ?C < 2 ^ 256" using C by (simp add: curve_ok_def)
  then have lt: "r < 2 ^ 256" "s < 2 ^ 256" using sg(2,3) by simp_all
  then have c: "toCompact r s 1 True = Inr (32 # be_bytes 32 r @ be_bytes 32 s)"
    by (simp add: toCompact_def toBuffer_fixed)
  have f: "fromCompact (32 # be_bytes 32 r @ be_bytes 32 s) = Inr ((mk_sig r s)\<lparr>sig_i := Some 1, sig_compressed := Some True\<rparr>)"
    using compact_back [of 1 r s True] lt c by (simp only: rbind_simps)
  have id: "identity (me_hd M) key pub" using toPublicKey_identity [OF D(1) key] pub by simp
  then have oc: "on_curve ?C (point pub)" using on_curve_gmul [OF C] key by (auto simp: identity_def in_range_def)
  obtain pub' where p: "pk_fromDER ?C ?N (pk_toDER ?C pub) None = Inr pub'" "point pub' = point pub" "pub_compressed pub' = pub_compressed pub"
    using transformDER_toDER [OF C oc] validate_on_curve [OF C oc]
    by (auto simp: pk_fromDER_def PublicKey_def classifyArgs_def make_pubkey_def extra_compressed_def Let_def)
  have hash: "key_hash M pub' = key_hash M pub" using p(2,3) by (simp add: key_hash_def pk_toDER_def)
  define metadata where "metadata = \<lparr>sp_publicKey = pk_toDER ?C pub, sp_signature = be_bytes 32 r @ be_bytes 32 s, sp_scheme = 1, sp_payload = raw\<rparr>"
  have "sign_profile M key raw = Some (Inr metadata)"
    using sg(1) c pub by (simp add: sign_profile_def mk_sig_def metadata_def)
  moreover have "ecdsa_verify ?C ?N ?h ((mk_sig r s)\<lparr>sig_i := Some 1, sig_compressed := Some True\<rparr>) pub' None = Inr True"
    using id p(2) by (intro sg(4) [rule_format]) (simp add: mk_sig_def identity_def)
  then have "verifyProfileMetadata M metadata (cash_text (key_hash M pub)) ''xec-livenet'' = Inr (pub', raw)"
    using p(1) f hash pub_cashAddress_eq [OF M, of pub']
    by (simp add: verifyProfileMetadata_def metadata_def ECDSA_SCHEME_def COMPACT_SIGNATURE_LENGTH_def COMPACT_SIGNATURE_HEADER_def)
  ultimately show ?thesis using p(2) by blast
qed

text \<open>
  C15. A profile that its owner signs is accepted.  Whatever the entries say, if some nonce of the derivation is
  usable, the signed profile is verified under the cash address of the key, and its payload comes back unchanged.
\<close>

theorem profile_verifies:
  assumes M: "app_env_ok M" and key: "in_range (me_curve M) (bn key)" and pub: "toPublicKey (me_curve M) (me_nets M) key = Inr pub"
    and entries: "profile_entries C P name bio avatar priceFilter = Inr entries" and raw: "raw = pw_profile P 31556952 entries"
    and nonce: "usable (me_curve M) (bn key) (digest_number None (XAddress.sha256 (me_coder M) raw))
      (nonce (me_coder M) key (XAddress.sha256 (me_coder M) raw) None i)"
  shows "\<exists>metadata pub'. constructProfileMetadata M C P name bio avatar priceFilter key = Some (Inr metadata) \<and>
    verifyProfileMetadata M metadata (cash_text (key_hash M pub)) ''xec-livenet'' = Inr (pub', raw) \<and> point pub' = point pub"
  using signed_profile_verifies [OF M key pub nonce] entries raw by (simp add: constructProfileMetadata_def)

definition demo_writer :: profile_writer where
  "demo_writer = \<lparr>pw_card = (\<lambda>name bio. [1]), pw_filter = (\<lambda>_. [2]), pw_profile = (\<lambda>ttl es. concat (map en_body es))\<rparr>"

lemma demo_nonce: "usable (me_curve demo_msg_env) (bn (demo_key 2)) (digest_number None (XAddress.sha256 (me_coder demo_msg_env) raw))
  (nonce (me_coder demo_msg_env) (demo_key 2) (XAddress.sha256 (me_coder demo_msg_env) raw) None 0)"
proof -
  have sha: "XAddress.sha256 (me_coder demo_msg_env) b = be_bytes 32 1" for b by (simp add: demo_msg_env_def agree_env_def)
  have hmac: "sha256hmac (me_coder demo_msg_env) d k = be_bytes 32 1" for d k
    by (simp add: sha256hmac_def hmac_def hmac_pads_def sha Let_def)
  have n: "nonce (me_coder demo_msg_env) (demo_key 2) h None 0 = 1" for h
    by (simp add: nonce_def k_first_def hmac be_val_be_bytes Let_def)
  have e: "digest_number None (be_bytes 32 1) = 1" by (simp add: digest_number_def be_val_be_bytes)
  have inv: "bn_invm (Suc 0) 7 = Inr 1" by code_simp
  show ?thesis
    unfolding n sha e
    by (simp add: usable_def in_range_def signature_with_def demo_msg_env_def agree_env_def toy_env_def demo_key_def plain_privkey_def inv seven_def)
qed

theorem profile_verifies_witness:
  "\<exists>metadata pub pub'. constructProfileMetadata demo_msg_env demo_client demo_writer ''A'' [] [] (True, 0, 0) (demo_key 2) = Some (Inr metadata) \<and>
    verifyProfileMetadata demo_msg_env metadata (cash_text (key_hash demo_msg_env pub)) ''xec-livenet'' = Inr (pub', [1, 2])"
proof -
  obtain pub where pub: "toPublicKey (me_curve demo_msg_env) (me_nets demo_msg_env) (demo_key 2) = Inr pub"
    using toPublicKey_identity [OF app_env_okD(1) [OF demo_hypotheses(1)] demo_range [of 2]] by auto
  have e: "profile_entries demo_client demo_writer ''A'' [] [] (True, 0, 0) = Inr [\<lparr>en_kind = ''vcard'', en_body = [1], en_headers = []\<rparr>,
      \<lparr>en_kind = ''avatar'', en_body = [], en_headers = []\<rparr>, \<lparr>en_kind = ''price-filter'', en_body = [2], en_headers = []\<rparr>]"
    by (simp add: profile_entries_def demo_writer_def)
  have r: "[1, 2] = pw_profile demo_writer 31556952 [\<lparr>en_kind = ''vcard'', en_body = [1], en_headers = []\<rparr>,
      \<lparr>en_kind = ''avatar'', en_body = [], en_headers = []\<rparr>, \<lparr>en_kind = ''price-filter'', en_body = [2], en_headers = []\<rparr>]"
    by (simp add: demo_writer_def)
  show ?thesis using profile_verifies [OF demo_hypotheses(1) demo_range pub e r demo_nonce] by auto
qed

section \<open>The inbox\<close>

text \<open>
  An answer to a request for messages: the page, or an error with its status and, for 402, the payment request of its
  body, if it can be read.  \<open>ib_accept\<close> answers the payment with a token.
\<close>

datatype page_answer = Page "wire_message list" | NoPage "nat option" "((bytes \<times> nat) list \<times> string) option"

record inbox =
  ib_page :: "nat \<Rightarrow> page_answer"
  ib_accept :: "nat \<Rightarrow> string res"
  ib_random :: "nat \<Rightarrow> nat \<Rightarrow> nat"

definition request_outputs :: "(bytes \<times> nat) list \<Rightarrow> tx_output list res" where
  "request_outputs outs = fold_res (\<lambda>(script, sats) xs. rmap (\<lambda>out. xs @ [out]) (mk_output (int sats) script)) outs []"

text \<open>\<^verbatim>\<open>constructPaymentTransaction\<close>: the transaction in the payment, and the url it goes to.\<close>

definition constructPaymentTransaction ::
  "('k, 'p) wallet_env \<Rightarrow> (nat \<Rightarrow> nat) \<Rightarrow> (bytes \<times> nat) list \<times> string \<Rightarrow> 'k wallet \<Rightarrow>
     (tx \<times> string \<times> 'k utxo list) res \<times> 'k wallet" where
  "constructPaymentTransaction W rnd request w =
     (case request_outputs (fst request) of
        Inl e \<Rightarrow> (Inl e, w)
      | Inr outs \<Rightarrow>
          (case constructTransaction W rnd outs w of
             (Inl e, w1) \<Rightarrow> (Inl e, w1)
           | (Inr (t, used), w1) \<Rightarrow> (rmap (\<lambda>raw. (t, snd request, used)) (tx_toBuffer t), w1)))"

text \<open>
  \<^verbatim>\<open>getMessages\<close> with \<open>retries\<close> left, for the request number \<open>n\<close>: the page or an error, the transactions paid, the token and
  the wallet.
\<close>

primrec getMessages ::
  "('k, 'p) wallet_env \<Rightarrow> inbox \<Rightarrow> nat \<Rightarrow> nat \<Rightarrow> string option \<Rightarrow> 'k wallet \<Rightarrow>
     wire_message list res \<times> (tx \<times> 'k utxo list) list \<times> string option \<times> 'k wallet" where
  "getMessages W I 0 n token w =
     (case ib_page I n of Page ms \<Rightarrow> (Inr ms, [], token, w) | NoPage _ _ \<Rightarrow> (Inl (PlainError ''request''), [], token, w))"
| "getMessages W I (Suc retries) n token w =
     (case ib_page I n of
        Page ms \<Rightarrow> (Inr ms, [], token, w)
      | NoPage status request \<Rightarrow>
          if status \<noteq> Some 402 then (Inl (PlainError ''request''), [], token, w)
          else case request of
                 None \<Rightarrow> (Inl (LibError ''AssertionError''), [], token, w)
               | Some r \<Rightarrow>
                   (case constructPaymentTransaction W (ib_random I n) r w of
                      (Inl e, w1) \<Rightarrow> (Inl e, [], token, w1)
                    | (Inr (t, _, used), w1) \<Rightarrow>
                        (case ib_accept I n of
                           Inl e \<Rightarrow> (Inl e, [(t, used)], token, w1)
                         | Inr tok \<Rightarrow>
                             (case getMessages W I retries (Suc n) (Some tok) w1 of
                                (res, payments, token1, w2) \<Rightarrow> (res, (t, used) # payments, token1, w2)))))"

text \<open>What one payment does to the wallet.\<close>

lemma payment_used:
  assumes "constructPaymentTransaction W rnd r w = (Inr (t, url, used), v)"
  shows "set used \<subseteq> set (usable_coins (storage w)) \<and> v = w\<lparr>storage := freeze_all used (storage w)\<rparr>"
proof -
  obtain outs where c: "constructTransaction W rnd outs w = (Inr (t, used), v)"
    using assms by (auto simp: constructPaymentTransaction_def rmap_Inr_iff split: sum.splits prod.splits)
  then have "v = w\<lparr>storage := freeze_all used (storage w)\<rparr>"
    by (auto simp: constructTransaction_def Let_def rbind_Inr_iff rmap_Inr_iff split: sum.splits prod.splits if_splits)
  then show ?thesis using constructTransaction_used [OF c] by blast
qed

lemma usable_after_freeze:
  assumes "store_ok s" and "v \<in> set (usable_coins (freeze_all us s))"
  shows "v \<in> set (usable_coins s) \<and> calcUtxoId v \<notin> calcUtxoId ` set us"
  using assms by (auto simp: usable_coins_iff freeze_all_get freeze_all_ok split: if_splits)

lemma coins_after_freeze:
  assumes ok: "store_ok s" and ps: "\<forall>p \<in> set payments. set (snd p) \<subseteq> set (usable_coins (freeze_all used s))"
  shows "\<forall>p \<in> set payments. set (snd p) \<subseteq> set (usable_coins s)"
    and "\<forall>p \<in> set payments. calcUtxoId ` set used \<inter> calcUtxoId ` set (snd p) = {}"
proof -
  have "x \<in> set (usable_coins s) \<and> calcUtxoId x \<notin> calcUtxoId ` set used" if "p \<in> set payments" "x \<in> set (snd p)" for p x
    using usable_after_freeze [OF ok, of x used] ps that by auto
  then show "\<forall>p \<in> set payments. set (snd p) \<subseteq> set (usable_coins s)"
    and "\<forall>p \<in> set payments. calcUtxoId ` set used \<inter> calcUtxoId ` set (snd p) = {}" by (auto, metis imageI)
qed

text \<open>
  C16. Asking for messages ends, and pays at most once per retry: there are at most as many payments as retries,
  a page that is returned is one the relay sent after them, and no coin is in two payments.
\<close>

theorem page_payments_bounded:
  "store_ok (storage w) \<Longrightarrow> \<exists>res payments token1 v. getMessages W I retries n token w = (res, payments, token1, v) \<and>
    length payments \<le> retries \<and> (\<forall>ms. res = Inr ms \<longrightarrow> ib_page I (n + length payments) = Page ms) \<and>
    (\<forall>p \<in> set payments. set (snd p) \<subseteq> set (usable_coins (storage w))) \<and>
    sorted_wrt (\<lambda>p q. calcUtxoId ` set (snd p) \<inter> calcUtxoId ` set (snd q) = {}) payments"
proof (induction retries arbitrary: n token w)
  case 0
  then show ?case by (auto split: page_answer.splits)
next
  case (Suc retries)
  show ?case
  proof (cases "\<exists>r t url used w1 tok. ib_page I n = NoPage (Some 402) (Some r) \<and>
      constructPaymentTransaction W (ib_random I n) r w = (Inr (t, url, used), w1) \<and> ib_accept I n = Inr tok")
    case True
    then obtain r t url used w1 tok where c: "ib_page I n = NoPage (Some 402) (Some r)"
        "constructPaymentTransaction W (ib_random I n) r w = (Inr (t, url, used), w1)" "ib_accept I n = Inr tok" by blast
    have u: "set used \<subseteq> set (usable_coins (storage w))" "w1 = w\<lparr>storage := freeze_all used (storage w)\<rparr>"
      using payment_used [OF c(2)] by auto
    have "store_ok (storage w1)" using Suc.prems u(2) by (simp add: freeze_all_ok)
    from Suc.IH [OF this, of "Suc n" "Some tok"] obtain res payments token1 v where
      i: "getMessages W I retries (Suc n) (Some tok) w1 = (res, payments, token1, v)" "length payments \<le> retries"
        "\<forall>ms. res = Inr ms \<longrightarrow> ib_page I (Suc n + length payments) = Page ms"
        "\<forall>p \<in> set payments. set (snd p) \<subseteq> set (usable_coins (storage w1))"
        "sorted_wrt (\<lambda>p q. calcUtxoId ` set (snd p) \<inter> calcUtxoId ` set (snd q) = {}) payments" by blast
    note later = coins_after_freeze [OF Suc.prems i(4) [unfolded u(2), simplified]]
    have "getMessages W I (Suc retries) n token w = (res, (t, used) # payments, token1, v)" using c i(1) by simp
    moreover have "length ((t, used) # payments) \<le> Suc retries" using i(2) by simp
    moreover have "\<forall>ms. res = Inr ms \<longrightarrow> ib_page I (n + length ((t, used) # payments)) = Page ms" using i(3) by simp
    moreover have "\<forall>p \<in> set ((t, used) # payments). set (snd p) \<subseteq> set (usable_coins (storage w))" using u(1) later(1) by auto
    moreover have "sorted_wrt (\<lambda>p q. calcUtxoId ` set (snd p) \<inter> calcUtxoId ` set (snd q) = {}) ((t, used) # payments)"
      using i(5) later(2) by simp
    ultimately show ?thesis by blast
  next
    case False
    show ?thesis
      using False
      by (cases "ib_page I n")
         (auto split: option.splits sum.splits prod.splits dest: payment_used)
  qed
qed

definition demo_inbox :: inbox where
  "demo_inbox = \<lparr>ib_page = (\<lambda>n. if n = 0 then NoPage (Some 402) (Some ([([0x6A], 9000)], ''/pay'')) else Page []),
     ib_accept = (\<lambda>_. Inr ''token''), ib_random = (\<lambda>_ _. 0)\<rparr>"

theorem page_payments_bounded_witness:
  "\<exists>res payments token1 v. getMessages demo_wallet_env demo_inbox 3 0 None (holder demo_txid 10000) = (res, payments, token1, v) \<and>
    length payments \<le> 3"
  using page_payments_bounded [OF demo_hypotheses(5), of demo_wallet_env demo_inbox 3 0 None] by blast

section \<open>The store of messages\<close>

text \<open>Messages by their digest, and the time of the last one under a key of its own in the same database.\<close>

datatype 'm stored_value = StoredTime nat | StoredMessage 'm

type_synonym 'm message_db = "(string, 'm stored_value) js_map"

definition lastServerTime :: string where "lastServerTime = ''lastServerTime''"

text \<open>
  The largest server time so far.  \<open>None\<close> is not a number: what \<^verbatim>\<open>Math.max\<close> makes of a message that lies under the key,
  which with no new time is not even parsed.
\<close>

definition mostRecentMessageTime :: "nat \<Rightarrow> 'm message_db \<Rightarrow> nat option res \<times> 'm message_db" where
  "mostRecentMessageTime newTime db =
     (let put = map_set lastServerTime (StoredTime newTime)
      in case map_get db lastServerTime of
           None \<Rightarrow> if newTime \<noteq> 0 then (Inr (Some newTime), put db) else (Inr (Some 0), db)
         | Some (StoredMessage _) \<Rightarrow> if newTime = 0 then (Inl (PlainError ''SyntaxError''), db) else (Inr None, db)
         | Some (StoredTime t) \<Rightarrow>
             let db1 = (if t = 0 then put db else db)
             in if newTime = 0 then (Inr (Some t), db1)
                else (Inr (Some (max newTime t)), if t < newTime then put db1 else db1))"

definition saveMessage :: "string \<Rightarrow> nat \<Rightarrow> 'm \<Rightarrow> 'm message_db \<Rightarrow> js_error option \<times> 'm message_db" where
  "saveMessage index serverTime m db =
     (case mostRecentMessageTime serverTime db of
        (Inl e, db1) \<Rightarrow> (Some e, db1) | (Inr _, db1) \<Rightarrow> (None, map_set index (StoredMessage m) db1))"

definition getMessage :: "string \<Rightarrow> 'm message_db \<Rightarrow> 'm stored_value option" where
  "getMessage payloadDigest db = map_get db payloadDigest"

definition forgetMessage :: "string \<Rightarrow> 'm message_db \<Rightarrow> 'm message_db" where
  "forgetMessage payloadDigest db = map_del payloadDigest db"

definition save_all :: "(string \<times> nat \<times> 'm) list \<Rightarrow> 'm message_db \<Rightarrow> 'm message_db" where
  "save_all = fold (\<lambda>(index, serverTime, m) db. snd (saveMessage index serverTime m db))"

definition last_time :: "'m message_db \<Rightarrow> nat \<Rightarrow> bool" where
  "last_time db t \<longleftrightarrow> map_get db lastServerTime = (if t = 0 then None else Some (StoredTime t))"

lemma saveMessage_get:
  assumes "last_time db t" and "length index = 64"
  shows "last_time (snd (saveMessage index serverTime m db)) (max t serverTime)"
    and "length d = 64 \<Longrightarrow> getMessage d (snd (saveMessage index serverTime m db)) =
      (if d = index then Some (StoredMessage m) else getMessage d db)"
  using assms
  by (auto simp: saveMessage_def mostRecentMessageTime_def last_time_def getMessage_def lastServerTime_def Let_def max_def
      split: if_splits)

lemma save_all_get:
  assumes "last_time db t" and "\<forall>m \<in> set ms. length (fst m) = 64"
  shows "last_time (save_all ms db) (Max (insert t (set (map (\<lambda>m. fst (snd m)) ms))))"
    and "length d = 64 \<Longrightarrow> getMessage d (save_all ms db) =
      (case map_of (rev ms) d of None \<Rightarrow> getMessage d db | Some x \<Rightarrow> Some (StoredMessage (snd x)))"
proof -
  show "last_time (save_all ms db) (Max (insert t (set (map (\<lambda>m. fst (snd m)) ms))))"
    using assms
  proof (induction ms arbitrary: db t)
    case (Cons m ms)
    have "last_time (save_all ms (snd (saveMessage (fst m) (fst (snd m)) (snd (snd m)) db)))
        (Max (insert (max t (fst (snd m))) (set (map (\<lambda>m. fst (snd m)) ms))))"
      using Cons.prems by (intro Cons.IH saveMessage_get) auto
    moreover have "Max (insert (max t (fst (snd m))) (set (map (\<lambda>m. fst (snd m)) ms))) =
        Max (insert t (set (map (\<lambda>m. fst (snd m)) (m # ms))))"
      by (cases "ms = []") (simp_all add: max.assoc)
    ultimately show ?case by (simp add: save_all_def case_prod_beta)
  qed (simp add: save_all_def)
next
  assume d: "length d = 64"
  show "getMessage d (save_all ms db) =
      (case map_of (rev ms) d of None \<Rightarrow> getMessage d db | Some x \<Rightarrow> Some (StoredMessage (snd x)))"
    using assms
  proof (induction ms arbitrary: db t)
    case (Cons m ms)
    have "getMessage d (save_all (m # ms) db) = (case map_of (rev ms) d of
        None \<Rightarrow> getMessage d (snd (saveMessage (fst m) (fst (snd m)) (snd (snd m)) db)) | Some x \<Rightarrow> Some (StoredMessage (snd x)))"
      using Cons.prems Cons.IH [OF saveMessage_get(1) [OF Cons.prems(1)]] by (simp add: save_all_def case_prod_beta)
    then show ?case
      using saveMessage_get(2) [OF Cons.prems(1) _ d] Cons.prems(2)
      by (cases m) (auto simp: map_add_def split: option.splits)
  qed (simp add: save_all_def)
qed

text \<open>After any messages were saved under their digests of 64 characters, the time the next request starts from is the
  latest server time among them, and every message is found under its digest, as it was saved last.
\<close>

theorem saved_messages_found:
  assumes "\<forall>m \<in> set ms. length (fst m) = 64" and "length d = 64"
  shows "fst (mostRecentMessageTime 0 (save_all ms [])) = Inr (Some (Max (insert 0 (set (map (\<lambda>m. fst (snd m)) ms))))) \<and>
    getMessage d (save_all ms []) = map_option (\<lambda>x. StoredMessage (snd x)) (map_of (rev ms) d)"
proof -
  have "last_time [] 0" by (simp add: last_time_def map_get_def)
  from save_all_get [OF this assms(1)] assms(2) show ?thesis
    by (auto simp: last_time_def mostRecentMessageTime_def getMessage_def map_get_def Let_def split: if_splits option.splits)
qed

theorem saved_messages_found_witness:
  "fst (mostRecentMessageTime 0 (save_all [(demo_txid, 5, True), (demo_txid, 3, False)] [])) = Inr (Some 5) \<and>
   getMessage demo_txid (save_all [(demo_txid, 5, True), (demo_txid, 3, False)] []) = Some (StoredMessage False)"
  using saved_messages_found [of "[(demo_txid, 5, True), (demo_txid, 3, False)]" demo_txid]
  by (simp add: demo_txid_def)

end
