(* ===== verification/Chats.thy ===== *)
theory Chats
  imports Profiles
begin

text \<open>
  The store of chats (\<^verbatim>\<open>src/stores/chats.ts\<close>), \<^verbatim>\<open>src/utils/address.ts\<close>, and the part of \<^verbatim>\<open>pinia-relay-adapter.ts\<close> that files
  the events of a send.  A message object is shared between the table of messages and its chat, so both hold a
  reference to a list of objects.
\<close>

section \<open>State\<close>

definition toDisplayAddress :: "'p msg_env \<Rightarrow> string \<Rightarrow> string res" where
  "toDisplayAddress M addr =
     rbind (address_new (me_valid M) (me_coder M) (me_nets M) (AddrText addr) None None) (\<lambda>a.
     rbind (address_new (me_valid M) (me_coder M) (me_nets M) (AddrBuffer (hashBuffer a))
              (map_option NetRef (networks_get (me_nets M) (Some (NetText (displayNetwork M))))) None) (toCashAddress False))"

text \<open>The digest is \<^verbatim>\<open>undefined\<close> for a message that failed before it had one.\<close>

record chat_message =
  cm_payloadDigest :: "string option"
  cm_outbound :: bool
  cm_status :: string
  cm_items :: "send_item list"
  cm_serverTime :: int
  cm_receivedTime :: int
  cm_outpoints :: "(string \<times> nat) list"
  cm_sender :: string

record chat =
  ct_address :: string
  ct_messages :: "nat list"
  ct_totalUnreadMessages :: nat
  ct_totalUnreadValue :: nat
  ct_totalValue :: nat
  ct_lastReceived :: int
  ct_lastRead :: int
  ct_stampAmount :: int

record chats_state =
  ch_objects :: "chat_message list"
  ch_chats :: "(string, chat) js_map"
  ch_messages :: "(string, nat) js_map"
  ch_lastReceived :: "int option"
  ch_active :: "string option"

definition defaultStampAmount :: int where "defaultStampAmount = 546"

definition new_chat :: "string \<Rightarrow> chat" where
  "new_chat addr = \<lparr>ct_address = addr, ct_messages = [], ct_totalUnreadMessages = 0, ct_totalUnreadValue = 0, ct_totalValue = 0,
     ct_lastReceived = 0, ct_lastRead = 0, ct_stampAmount = defaultStampAmount\<rparr>"

definition defaultChatsState :: chats_state where
  "defaultChatsState = \<lparr>ch_objects = [], ch_chats = [], ch_messages = [], ch_lastReceived = None, ch_active = None\<rparr>"

text \<open>A digest as the name of a property.\<close>

definition message_key :: "string option \<Rightarrow> string" where
  "message_key d = (case d of None \<Rightarrow> ''undefined'' | Some d \<Rightarrow> d)"

definition stamp_price :: "(string \<times> nat) list \<Rightarrow> nat" where
  "stamp_price outs = foldl (\<lambda>total u. add_double (snd u) total) 0 (filter (\<lambda>u. fst u = ''stamp'') outs)"

definition message_value :: "chat_message \<Rightarrow> nat" where
  "message_value m = add_double (stamp_price (cm_outpoints m))
     (foldl (\<lambda>total i. case i of SendStealth amount \<Rightarrow> add_double total amount | _ \<Rightarrow> total) 0 (cm_items m))"

definition with_chat :: "string \<Rightarrow> (chat \<Rightarrow> chat) \<Rightarrow> chats_state \<Rightarrow> chats_state" where
  "with_chat d f s =
     (case map_get (ch_chats s) d of None \<Rightarrow> s | Some c \<Rightarrow> s\<lparr>ch_chats := map_set d (f c) (ch_chats s)\<rparr>)"

definition ensure_chat :: "string \<Rightarrow> chats_state \<Rightarrow> chats_state" where
  "ensure_chat d s =
     (if map_get (ch_chats s) d = None then s\<lparr>ch_chats := map_set d (new_chat d) (ch_chats s)\<rparr> else s)"

text \<open>An operation that starts with \<^verbatim>\<open>toDisplayAddress\<close>.\<close>

definition displayed :: "'p msg_env \<Rightarrow> string \<Rightarrow> (string \<Rightarrow> chats_state \<Rightarrow> chats_state) \<Rightarrow> chats_state \<Rightarrow> js_error option \<times> chats_state" where
  "displayed M addr f s = (case toDisplayAddress M addr of Inl e \<Rightarrow> (Some e, s) | Inr d \<Rightarrow> (None, f d s))"

section \<open>Getters\<close>

definition getMessageByPayload :: "chats_state \<Rightarrow> string \<Rightarrow> chat_message option" where
  "getMessageByPayload s digest = map_option (\<lambda>r. ch_objects s ! r) (map_get (ch_messages s) digest)"

definition getNumUnread :: "'p msg_env \<Rightarrow> chats_state \<Rightarrow> string \<Rightarrow> nat res" where
  "getNumUnread M s addr =
     rmap (\<lambda>d. case map_get (ch_chats s) d of None \<Rightarrow> 0 | Some c \<Rightarrow> ct_totalUnreadMessages c) (toDisplayAddress M addr)"

definition totalUnread :: "chats_state \<Rightarrow> nat" where
  "totalUnread s = sum_list (map (\<lambda>(_, c). ct_totalUnreadMessages c) (ch_chats s))"

definition lastRead :: "'p msg_env \<Rightarrow> chats_state \<Rightarrow> string \<Rightarrow> int res" where
  "lastRead M s addr = rmap (\<lambda>d. case map_get (ch_chats s) d of None \<Rightarrow> 0 | Some c \<Rightarrow> ct_lastRead c) (toDisplayAddress M addr)"

definition getStampAmount :: "'p msg_env \<Rightarrow> chats_state \<Rightarrow> string \<Rightarrow> int res" where
  "getStampAmount M s addr =
     rmap (\<lambda>d. case map_get (ch_chats s) d of None \<Rightarrow> defaultStampAmount | Some c \<Rightarrow> ct_stampAmount c) (toDisplayAddress M addr)"

definition getLatestMessage :: "'p msg_env \<Rightarrow> chats_state \<Rightarrow> string \<Rightarrow> (bool \<times> string) option res" where
  "getLatestMessage M s addr =
     rmap (\<lambda>d. case map_get (ch_chats s) d of None \<Rightarrow> Some (False, [])
       | Some c \<Rightarrow>
           if ct_messages c = [] then Some (False, [])
           else let m = ch_objects s ! last (ct_messages c)
                in if cm_items m = [] then None
                   else case last (cm_items m) of
                          SendText t \<Rightarrow> Some (cm_outbound m, t)
                        | SendImage _ \<Rightarrow> Some (cm_outbound m, ''Sent image'')
                        | SendStealth _ \<Rightarrow> Some (cm_outbound m, ''Sent XEC'')
                        | _ \<Rightarrow> Some (False, [])) (toDisplayAddress M addr)"

text \<open>The order of the chats: the sign of the comparison, and a stable sort by it.\<close>

definition chat_order :: "chat \<Rightarrow> chat \<Rightarrow> int" where
  "chat_order a b =
     (let dv = int (ct_totalUnreadValue b) - int (ct_totalUnreadValue a); tv = int (ct_totalValue b) - int (ct_totalValue a);
          um = int (ct_totalUnreadMessages b) - int (ct_totalUnreadMessages a)
      in if dv \<noteq> 0 then dv else if tv \<noteq> 0 then tv else if ct_lastRead b \<noteq> ct_lastRead a then ct_lastRead b - ct_lastRead a
         else if um \<noteq> 0 then um else 0)"

fun insert_by :: "('a \<Rightarrow> 'a \<Rightarrow> int) \<Rightarrow> 'a \<Rightarrow> 'a list \<Rightarrow> 'a list" where
  "insert_by f x [] = [x]"
| "insert_by f x (y # ys) = (if f x y \<le> 0 then x # y # ys else y # insert_by f x ys)"

definition js_sort :: "('a \<Rightarrow> 'a \<Rightarrow> int) \<Rightarrow> 'a list \<Rightarrow> 'a list" where
  "js_sort f xs = foldr (insert_by f) xs []"

definition getSortedChatOrder :: "chats_state \<Rightarrow> chat list" where
  "getSortedChatOrder s = js_sort chat_order (map snd (ch_chats s))"

section \<open>Actions\<close>

text \<open>\<^verbatim>\<open>splice(findIndex(...), 1)\<close>: with no index found, -1 is the last element.\<close>

definition splice_found :: "('a \<Rightarrow> bool) \<Rightarrow> 'a list \<Rightarrow> 'a list" where
  "splice_found P xs = (case find_index P xs of None \<Rightarrow> butlast xs | Some i \<Rightarrow> take i xs @ drop (Suc i) xs)"

definition drop_message :: "chats_state \<Rightarrow> string \<Rightarrow> chat \<Rightarrow> chat" where
  "drop_message s digest c = c\<lparr>ct_messages := splice_found (\<lambda>r. cm_payloadDigest (ch_objects s ! r) = Some digest) (ct_messages c)\<rparr>"

definition chats_deleteMessage :: "'p msg_env \<Rightarrow> string \<Rightarrow> string \<Rightarrow> chats_state \<Rightarrow> js_error option \<times> chats_state" where
  "chats_deleteMessage M addr digest =
     displayed M addr (\<lambda>d s. with_chat d (drop_message s digest) (s\<lparr>ch_messages := map_del digest (ch_messages s)\<rparr>))"

definition read_chat :: "chats_state \<Rightarrow> chat \<Rightarrow> chat" where
  "read_chat s c = c\<lparr>ct_lastRead := (if ct_messages c = [] then 0 else max (cm_serverTime (ch_objects s ! last (ct_messages c))) (ct_lastRead c)),
     ct_totalUnreadMessages := 0, ct_totalUnreadValue := 0\<rparr>"

definition chats_readAll :: "'p msg_env \<Rightarrow> string \<Rightarrow> chats_state \<Rightarrow> js_error option \<times> chats_state" where
  "chats_readAll M addr = displayed M addr (\<lambda>d s. with_chat d (read_chat s) s)"

definition reset_chats :: "chats_state \<Rightarrow> chats_state" where
  "reset_chats s = s\<lparr>ch_chats := map (\<lambda>(a, c). (a, c\<lparr>ct_messages := []\<rparr>)) (ch_chats s), ch_messages := [], ch_lastReceived := None\<rparr>"

definition clearChat :: "'p msg_env \<Rightarrow> string \<Rightarrow> chats_state \<Rightarrow> js_error option \<times> chats_state" where
  "clearChat M addr = displayed M addr (\<lambda>d. with_chat d (\<lambda>c. c\<lparr>ct_messages := []\<rparr>))"

definition deleteChat :: "'p msg_env \<Rightarrow> string \<Rightarrow> chats_state \<Rightarrow> js_error option \<times> chats_state" where
  "deleteChat M addr = displayed M addr (\<lambda>d s. s\<lparr>ch_active := (if ch_active s = Some d then None else ch_active s),
     ch_chats := map_del d (ch_chats s)\<rparr>)"

text \<open>\<^verbatim>\<open>Math.trunc\<close> of a fraction; the address is not normalised here.\<close>

definition setStampAmount :: "string \<Rightarrow> int \<times> int \<Rightarrow> chats_state \<Rightarrow> chats_state" where
  "setStampAmount addr amount =
     with_chat addr (\<lambda>c. c\<lparr>ct_stampAmount := (case amount of (n, m) \<Rightarrow> sgn n * sgn m * (\<bar>n\<bar> div \<bar>m\<bar>))\<rparr>)"

definition setActiveChat :: "'p msg_env \<Rightarrow> string option \<Rightarrow> chats_state \<Rightarrow> js_error option \<times> chats_state" where
  "setActiveChat M addr s =
     (case addr of None \<Rightarrow> (None, s\<lparr>ch_active := None\<rparr>)
      | Some a \<Rightarrow>
          if a = [] then (None, s\<lparr>ch_active := None\<rparr>)
          else displayed M a (\<lambda>d s. (ensure_chat d (with_chat d (read_chat s) s))\<lparr>ch_active := Some d\<rparr>) s)"

text \<open>
  Two places outside the actions write the address of the chat on display: a click on a notification, and
  \<^verbatim>\<open>addDefaultContact\<close> of \<^verbatim>\<open>stores/contacts.ts\<close> for an address that is no contact yet.
\<close>

definition notification_clicked :: "string \<Rightarrow> chats_state \<Rightarrow> chats_state" where
  "notification_clicked copartyAddress s = s\<lparr>ch_active := Some copartyAddress\<rparr>"

definition default_contact_added :: "bool \<Rightarrow> string \<Rightarrow> chats_state \<Rightarrow> chats_state" where
  "default_contact_added isContact addr s = (if isContact then s else s\<lparr>ch_active := Some addr\<rparr>)"

text \<open>A new object, filed in the table and at the end of its chat.\<close>

definition add_message :: "string \<Rightarrow> chat_message \<Rightarrow> chats_state \<Rightarrow> chats_state" where
  "add_message d m s =
     with_chat d (\<lambda>c. c\<lparr>ct_messages := ct_messages c @ [length (ch_objects s)]\<rparr>)
       (s\<lparr>ch_objects := ch_objects s @ [m], ch_messages := map_set (message_key (cm_payloadDigest m)) (length (ch_objects s)) (ch_messages s)\<rparr>)"

definition sent_message :: "int \<Rightarrow> string \<Rightarrow> string option \<Rightarrow> send_item list \<Rightarrow> (string \<times> nat) list \<Rightarrow> string \<Rightarrow> chat_message" where
  "sent_message now sender digest items outs status =
     \<lparr>cm_payloadDigest = digest, cm_outbound = True, cm_status = status, cm_items = items, cm_serverTime = now,
      cm_receivedTime = now, cm_outpoints = outs, cm_sender = sender\<rparr>"

text \<open>
  A known message is overwritten.  A message that replaces a previous one takes that away, and is not added itself.
\<close>

definition place_sent :: "int \<Rightarrow> string \<Rightarrow> chat_message \<Rightarrow> string option \<Rightarrow> chats_state \<Rightarrow> chats_state" where
  "place_sent later d m previousHash s =
     (case previousHash of
        Some p \<Rightarrow> if p \<noteq> [] \<and> map_get (ch_messages s) p \<noteq> None then with_chat d (drop_message s p) s
                  else with_chat d (\<lambda>c. c\<lparr>ct_lastRead := later\<rparr>) (add_message d m s)
      | None \<Rightarrow> with_chat d (\<lambda>c. c\<lparr>ct_lastRead := later\<rparr>) (add_message d m s))"

definition sendMessageLocal ::
  "'p msg_env \<Rightarrow> int \<Rightarrow> int \<Rightarrow> string \<Rightarrow> string \<Rightarrow> string option \<Rightarrow> send_item list \<Rightarrow> (string \<times> nat) list \<Rightarrow> string \<Rightarrow> string option \<Rightarrow>
     chats_state \<Rightarrow> js_error option \<times> chats_state" where
  "sendMessageLocal M now later addr sender digest items outs status previousHash s =
     (case toDisplayAddress M addr of Inl e \<Rightarrow> (Some e, s)
      | Inr d \<Rightarrow>
          let m = sent_message now sender digest items outs status
          in case map_get (ch_messages s) (message_key digest) of
               Some r \<Rightarrow> (None, s\<lparr>ch_objects := (ch_objects s)[r := m]\<rparr>)
             | None \<Rightarrow>
                 if map_get (ch_chats s) d \<noteq> None then (None, place_sent later d m previousHash s)
                 else case toDisplayAddress M sender of Inl e \<Rightarrow> (Some e, s)
                      | Inr own \<Rightarrow> if own = d then (None, s) else (None, place_sent later d m previousHash (ensure_chat d s)))"

text \<open>The events of a send.\<close>

definition relay_event ::
  "'p msg_env \<Rightarrow> int \<Rightarrow> int \<Rightarrow> string \<Rightarrow> string \<Rightarrow> send_item list \<Rightarrow> (string \<times> nat) list \<Rightarrow> action \<Rightarrow> chats_state \<Rightarrow> js_error option \<times> chats_state" where
  "relay_event M now later addr sender items outs a s =
     (case a of
        MessageSending d \<Rightarrow> sendMessageLocal M now later addr sender (Some d) items outs ''sending'' None s
      | MessageSendError d _ \<Rightarrow> sendMessageLocal M now later addr sender d items outs ''error'' None s
      | MessageSent d \<Rightarrow> sendMessageLocal M now later addr sender (Some d) items outs ''confirmed'' None s
      | _ \<Rightarrow> (None, s))"

section \<open>Received messages\<close>

definition shown_item :: "item \<Rightarrow> send_item" where
  "shown_item i = (case i of ReplyItem d \<Rightarrow> SendReply d | TextItem t \<Rightarrow> SendText t | StealthItem a \<Rightarrow> SendStealth a | ImageItem u \<Rightarrow> SendImage u)"

definition shown_message :: "'p received \<Rightarrow> chat_message" where
  "shown_message w = \<lparr>cm_payloadDigest = Some (rv_index w), cm_outbound = rv_outbound w, cm_status = ''confirmed'',
     cm_items = map shown_item (rv_items w), cm_serverTime = rv_serverTime w, cm_receivedTime = rv_receivedTime w,
     cm_outpoints = map (\<lambda>u. (utype u, amount_sats u)) (rv_outpoints w), cm_sender = rv_senderAddress w\<rparr>"

definition count_message :: "bool \<Rightarrow> chat_message \<Rightarrow> chat \<Rightarrow> chat" where
  "count_message active m c =
     (let c1 = c\<lparr>ct_lastReceived := cm_serverTime m\<rparr>;
          c2 = (if \<not> active \<and> ct_lastRead c < cm_serverTime m
                then c1\<lparr>ct_totalUnreadValue := add_double (ct_totalUnreadValue c1) (message_value m),
                        ct_totalUnreadMessages := ct_totalUnreadMessages c1 + 1\<rparr> else c1)
      in c2\<lparr>ct_totalValue := add_double (ct_totalValue c2) (message_value m)\<rparr>)"

definition file_message :: "string \<Rightarrow> chat_message \<Rightarrow> chats_state \<Rightarrow> chats_state" where
  "file_message d m s =
     (with_chat d (count_message (ch_active s = Some d) m) (add_message d m (ensure_chat d s)))\<lparr>ch_lastReceived := Some (cm_serverTime m)\<rparr>"

text \<open>The whole batch is left at the first message that is known already.\<close>

fun file_messages :: "'p msg_env \<Rightarrow> 'p received list \<Rightarrow> chats_state \<Rightarrow> js_error option \<times> chats_state" where
  "file_messages M [] s = (None, s)"
| "file_messages M (w # ws) s =
     (case toDisplayAddress M (rv_copartyAddress w) of Inl e \<Rightarrow> (Some e, s)
      | Inr d \<Rightarrow>
          (case map_get (ch_messages s) (rv_index w) of
             Some r \<Rightarrow> (None, s\<lparr>ch_objects := (ch_objects s)[r := shown_message w]\<rparr>)
           | None \<Rightarrow> file_messages M ws (file_message d (shown_message w) s)))"

text \<open>The first pass asks for the contact and the chat of every message, and so fails for an address it cannot read.\<close>

definition receiveMessages :: "'p msg_env \<Rightarrow> 'p received list \<Rightarrow> chats_state \<Rightarrow> js_error option \<times> chats_state" where
  "receiveMessages M ws s =
     (case fold_res (\<lambda>w _. rmap (\<lambda>_. ()) (toDisplayAddress M (rv_copartyAddress w))) ws () of
        Inl e \<Rightarrow> (Some e, s) | Inr _ \<Rightarrow> file_messages M ws s)"

text \<open>
  Which message raises a notification, and its text: \<open>focus\<close> of the window, the accepted price, whether it came alone,
  the contact with its switch and its name, the printer of amounts.
\<close>

definition notification ::
  "'p msg_env \<Rightarrow> bool \<Rightarrow> nat \<Rightarrow> bool \<Rightarrow> (bool \<times> string option) \<Rightarrow> (nat \<Rightarrow> string) \<Rightarrow> chats_state \<Rightarrow> 'p received \<Rightarrow> (string \<times> string) option res" where
  "notification M focus acceptancePrice alone contact formatBalance s w =
     rmap (\<lambda>seen.
       if focus \<or> rv_outbound w \<or> \<not> acceptancePrice \<le> rv_stampValue w \<or> rv_serverTime w < seen \<or> \<not> alone \<or> \<not> fst contact then None
       else let texts = [t. TextItem t \<leftarrow> rv_items w]; amounts = [a. StealthItem a \<leftarrow> rv_items w]; images = [u. ImageItem u \<leftarrow> rv_items w];
                amount = (case amounts of [] \<Rightarrow> 0 | a # _ \<Rightarrow> a);
                paid_part = (if amount > 0 then ''['' @ formatBalance amount @ ''] '' else []);
                image_part = (case images of u # _ \<Rightarrow> if u \<noteq> [] then ''[Image] '' else [] | [] \<Rightarrow> [])
            in Some (case snd contact of None \<Rightarrow> ''Unknown'' | Some n \<Rightarrow> n,
                     image_part @ paid_part @ (case texts of [] \<Rightarrow> [] | t # _ \<Rightarrow> t)))
       (lastRead M s (rv_copartyAddress w))"

section \<open>Storage\<close>

record saved_chats =
  sv_active :: "string option"
  sv_chats :: "(string, chat) js_map"
  sv_lastReceived :: "int option"

definition save_chats :: "chats_state \<Rightarrow> saved_chats" where
  "save_chats s = \<lparr>sv_active = ch_active s, sv_chats = map (\<lambda>(a, c). (a, c\<lparr>ct_messages := []\<rparr>)) (ch_chats s),
     sv_lastReceived = Some (case ch_lastReceived s of None \<Rightarrow> 0 | Some t \<Rightarrow> t)\<rparr>"

definition restored_chat :: "string \<Rightarrow> chat \<Rightarrow> chat" where
  "restored_chat addr c = (new_chat addr)\<lparr>ct_lastReceived := ct_lastReceived c, ct_lastRead := ct_lastRead c, ct_stampAmount := ct_stampAmount c\<rparr>"

text \<open>One stored message: its digest, the address of the other party, and the message.\<close>

definition recount_message :: "chat_message \<Rightarrow> chat \<Rightarrow> chat" where
  "recount_message m c =
     (let c1 = c\<lparr>ct_lastReceived := cm_serverTime m\<rparr>;
          c2 = (if \<not> cm_outbound m \<and> ct_lastRead c \<noteq> 0 \<and> ct_lastRead c < cm_serverTime m
                then c1\<lparr>ct_totalUnreadValue := add_double (ct_totalUnreadValue c1) (message_value m),
                        ct_totalUnreadMessages := ct_totalUnreadMessages c1 + 1\<rparr> else c1)
      in c2\<lparr>ct_totalValue := add_double (ct_totalValue c2) (message_value m)\<rparr>)"

definition restore_message :: "string \<times> string \<times> chat_message \<Rightarrow> chats_state \<Rightarrow> chats_state" where
  "restore_message x s =
     (case x of (index, coparty, m0) \<Rightarrow>
        let m = m0\<lparr>cm_payloadDigest := Some index\<rparr>
        in (with_chat coparty (recount_message m) (add_message coparty m (ensure_chat coparty s)))\<lparr>ch_lastReceived := Some (cm_serverTime m)\<rparr>)"

definition sort_chat :: "chats_state \<Rightarrow> chat \<Rightarrow> chat" where
  "sort_chat s c = c\<lparr>ct_messages := js_sort (\<lambda>a b. cm_serverTime (ch_objects s ! a) - cm_serverTime (ch_objects s ! b)) (ct_messages c)\<rparr>"

definition rehydateChat :: "saved_chats option \<Rightarrow> (string \<times> string \<times> chat_message) list \<Rightarrow> chats_state" where
  "rehydateChat saved stored =
     (case saved of None \<Rightarrow> defaultChatsState
      | Some v \<Rightarrow>
          let s0 = \<lparr>ch_objects = [], ch_chats = map (\<lambda>(a, c). (a, restored_chat a c)) (sv_chats v), ch_messages = [],
                    ch_lastReceived = sv_lastReceived v, ch_active = sv_active v\<rparr>;
              s1 = fold restore_message stored s0
          in fold (\<lambda>a s. with_chat a (sort_chat s) s) (map fst (sv_chats v)) s1)"

definition restore_chats :: "bool \<Rightarrow> saved_chats option \<Rightarrow> (string \<times> string \<times> chat_message) list \<Rightarrow> chats_state" where
  "restore_chats invalidStore saved stored = (if invalidStore then defaultChatsState else rehydateChat saved stored)"

end
