(* ===== verification/ChatResults.thy ===== *)
theory ChatResults
  imports Chats "HOL-Library.Product_Lexorder" "HOL-Library.Multiset"
begin

text \<open>
  The invariant of the chats, what received and sent messages become in them, what a restart keeps, and two ways a
  message gets lost.
\<close>

section \<open>The order of the chats\<close>

text \<open>The contract of a comparison function, under which the sort of the language returns a sorted list.\<close>

locale comparator =
  fixes f :: "'a \<Rightarrow> 'a \<Rightarrow> int"
  assumes total: "f x y \<le> 0 \<or> f y x \<le> 0"
    and trans: "f x y \<le> 0 \<Longrightarrow> f y z \<le> 0 \<Longrightarrow> f x z \<le> 0"
begin

lemma insert_by_mset: "mset (insert_by f x ys) = add_mset x (mset ys)"
  by (induction ys) auto

lemma insert_by_sorted: "sorted_wrt (\<lambda>a b. f a b \<le> 0) ys \<Longrightarrow> sorted_wrt (\<lambda>a b. f a b \<le> 0) (insert_by f x ys)"
proof (induction ys)
  case (Cons y ys)
  have "set (insert_by f x ys) = insert x (set ys)" using insert_by_mset [of x ys] by (metis set_mset_add_mset_insert set_mset_mset)
  then show ?case using Cons total [of x y] by (auto intro: trans)
qed simp

lemma js_sort_sorted: "sorted_wrt (\<lambda>a b. f a b \<le> 0) (js_sort f xs) \<and> mset (js_sort f xs) = mset xs"
  unfolding js_sort_def by (induction xs) (simp_all add: insert_by_sorted insert_by_mset)

end

interpretation chat_cmp: comparator chat_order
  by unfold_locales (auto simp: chat_order_def Let_def split: if_splits)

text \<open>The chats are listed by unread value, then by value, by last reading and by unread messages, each from the
  largest down, and the list has every chat once.
\<close>

theorem chats_are_sorted:
  "mset (getSortedChatOrder s) = mset (map snd (ch_chats s)) \<and>
   sorted_wrt (\<lambda>a b. (ct_totalUnreadValue b, ct_totalValue b, ct_lastRead b, ct_totalUnreadMessages b) \<le>
     (ct_totalUnreadValue a, ct_totalValue a, ct_lastRead a, ct_totalUnreadMessages a)) (getSortedChatOrder s)"
proof -
  have "chat_order a b \<le> 0 \<longleftrightarrow> (ct_totalUnreadValue b, ct_totalValue b, ct_lastRead b, ct_totalUnreadMessages b) \<le>
     (ct_totalUnreadValue a, ct_totalValue a, ct_lastRead a, ct_totalUnreadMessages a)" for a b
    by (auto simp: chat_order_def Let_def)
  then show ?thesis using chat_cmp.js_sort_sorted [of "map snd (ch_chats s)"] by (simp add: getSortedChatOrder_def)
qed

section \<open>The invariant\<close>

text \<open>References are valid, messages and chats lie under their names, no message is in two places, no more is unread than there is.\<close>

definition chat_ok :: "chats_state \<Rightarrow> string \<Rightarrow> chat \<Rightarrow> bool" where
  "chat_ok s a c \<longleftrightarrow> ct_address c = a \<and> (\<forall>r \<in> set (ct_messages c). r < length (ch_objects s)) \<and> distinct (ct_messages c) \<and>
     ct_totalUnreadValue c \<le> ct_totalValue c \<and> to_double (ct_totalValue c) = ct_totalValue c"

definition chats_ok :: "chats_state \<Rightarrow> bool" where
  "chats_ok s \<longleftrightarrow>
     (\<forall>k r. map_get (ch_messages s) k = Some r \<longrightarrow> r < length (ch_objects s) \<and> message_key (cm_payloadDigest (ch_objects s ! r)) = k) \<and>
     (\<forall>a c. map_get (ch_chats s) a = Some c \<longrightarrow> chat_ok s a c) \<and>
     (\<forall>a b c e. map_get (ch_chats s) a = Some c \<and> map_get (ch_chats s) b = Some e \<and> a \<noteq> b \<longrightarrow> set (ct_messages c) \<inter> set (ct_messages e) = {})"

text \<open>The chat on display has nothing unread.\<close>

definition active_read :: "chats_state \<Rightarrow> bool" where
  "active_read s \<longleftrightarrow> (\<forall>a c. ch_active s = Some a \<and> map_get (ch_chats s) a = Some c \<longrightarrow> ct_totalUnreadMessages c = 0 \<and> ct_totalUnreadValue c = 0)"

lemma map_get_map: "map_get (map (\<lambda>(a, c). (a, f a c)) xs) k = map_option (f k) (map_get xs k)"
  unfolding map_get_def by (induction xs) auto

lemma to_double_idem [simp]: "to_double (to_double x) = to_double x"
proof -
  let ?k = "double_shift x" and ?q = "x div 2 ^ double_shift x"
  have "to_double x = ?q * 2 ^ ?k \<or> to_double x = (?q + 1) * 2 ^ ?k" by (auto simp: to_double_def Let_def)
  moreover have "?q < 2 ^ 53"
    using double_shift_bounds [of x] by (metis div_by_1 power_0)
  ultimately obtain q k where q: "to_double x = q * 2 ^ k" "q \<le> 2 ^ 53"
    by (metis Suc_eq_plus1 Suc_leI less_imp_le)
  show ?thesis
  proof (cases "q = 2 ^ 53")
    case True
    then have "to_double x = 1 * 2 ^ (53 + k)" using q(1) by (simp add: power_add)
    then show ?thesis using to_double_scaled [of 1 "53 + k"] by simp
  next
    case False
    then show ?thesis using q to_double_scaled [of q k] by simp
  qed
qed

lemma with_chat_simps [simp]:
  "ch_objects (with_chat d f s) = ch_objects s" "ch_messages (with_chat d f s) = ch_messages s"
  "ch_active (with_chat d f s) = ch_active s" "ch_lastReceived (with_chat d f s) = ch_lastReceived s"
  "map_get (ch_chats (with_chat d f s)) a = (if a = d then map_option f (map_get (ch_chats s) d) else map_get (ch_chats s) a)"
  by (auto simp: with_chat_def split: option.splits)

lemma ensure_chat_simps [simp]:
  "ch_objects (ensure_chat d s) = ch_objects s" "ch_messages (ensure_chat d s) = ch_messages s"
  "ch_active (ensure_chat d s) = ch_active s" "ch_lastReceived (ensure_chat d s) = ch_lastReceived s"
  "map_get (ch_chats (ensure_chat d s)) a =
     (if a = d then Some (case map_get (ch_chats s) d of None \<Rightarrow> new_chat d | Some c \<Rightarrow> c) else map_get (ch_chats s) a)"
  by (auto simp: ensure_chat_def split: option.splits)

lemma add_message_simps [simp]:
  "ch_objects (add_message d m s) = ch_objects s @ [m]"
  "ch_messages (add_message d m s) = map_set (message_key (cm_payloadDigest m)) (length (ch_objects s)) (ch_messages s)"
  "ch_active (add_message d m s) = ch_active s" "ch_lastReceived (add_message d m s) = ch_lastReceived s"
  "map_get (ch_chats (add_message d m s)) a =
     (if a = d then map_option (\<lambda>c. c\<lparr>ct_messages := ct_messages c @ [length (ch_objects s)]\<rparr>) (map_get (ch_chats s) d)
      else map_get (ch_chats s) a)"
  by (simp_all add: add_message_def)

lemma with_chat_ok:
  assumes "chats_ok s" and f: "\<And>c. map_get (ch_chats s) d = Some c \<Longrightarrow> chat_ok s d c \<Longrightarrow> chat_ok s d (f c) \<and> set (ct_messages (f c)) \<subseteq> set (ct_messages c)"
  shows "chats_ok (with_chat d f s)"
proof -
  have "chat_ok (with_chat d f s) a c \<longleftrightarrow> chat_ok s a c" for a c by (simp add: chat_ok_def)
  with assms show ?thesis unfolding chats_ok_def by (auto split: if_splits) blast+
qed

lemma ensure_chat_ok:
  assumes ok: "chats_ok s"
  shows "chats_ok (ensure_chat d s)"
proof (cases "map_get (ch_chats s) d")
  case None
  have same: "chat_ok (ensure_chat d s) a c \<longleftrightarrow> chat_ok s a c" for a c by (simp add: chat_ok_def)
  have new: "chat_ok s d (new_chat d)" "ct_messages (new_chat d) = []" by (simp_all add: chat_ok_def new_chat_def)
  from ok None show ?thesis unfolding chats_ok_def same by (simp add: new)
next
  case (Some c)
  then show ?thesis using ok by (simp add: ensure_chat_def)
qed

lemma chats_okD:
  assumes "chats_ok s"
  shows "map_get (ch_messages s) k = Some r \<Longrightarrow> r < length (ch_objects s) \<and> message_key (cm_payloadDigest (ch_objects s ! r)) = k"
    and "map_get (ch_chats s) a = Some c \<Longrightarrow> chat_ok s a c"
    and "map_get (ch_chats s) a = Some c \<Longrightarrow> map_get (ch_chats s) b = Some e \<Longrightarrow> a \<noteq> b \<Longrightarrow> r \<in> set (ct_messages c) \<Longrightarrow> r \<notin> set (ct_messages e)"
  using assms unfolding chats_ok_def by blast+

lemma chats_okI:
  assumes "\<And>k r. map_get (ch_messages s) k = Some r \<Longrightarrow> r < length (ch_objects s) \<and> message_key (cm_payloadDigest (ch_objects s ! r)) = k"
    and "\<And>a c. map_get (ch_chats s) a = Some c \<Longrightarrow> chat_ok s a c"
    and "\<And>a b c e r. map_get (ch_chats s) a = Some c \<Longrightarrow> map_get (ch_chats s) b = Some e \<Longrightarrow> a \<noteq> b \<Longrightarrow> r \<in> set (ct_messages c) \<Longrightarrow> r \<notin> set (ct_messages e)"
  shows "chats_ok s"
  unfolding chats_ok_def using assms by (intro conjI allI impI) (blast | simp add: disjoint_iff)+

lemma add_message_ok:
  assumes ok: "chats_ok s"
  shows "chats_ok (add_message d m s)"
proof (rule chats_okI)
  fix k r assume "map_get (ch_messages (add_message d m s)) k = Some r"
  then show "r < length (ch_objects (add_message d m s)) \<and> message_key (cm_payloadDigest (ch_objects (add_message d m s) ! r)) = k"
    using chats_okD(1) [OF ok] by (auto simp: nth_append split: if_splits)
next
  fix a c assume "map_get (ch_chats (add_message d m s)) a = Some c"
  then show "chat_ok (add_message d m s) a c"
    using chats_okD(2) [OF ok] by (fastforce simp: chat_ok_def split: if_splits)
next
  have old: "r < length (ch_objects s)" if "map_get (ch_chats s) a = Some c" "r \<in> set (ct_messages c)" for a c r
    using chats_okD(2) [OF ok that(1)] that(2) by (auto simp: chat_ok_def)
  fix a b c e r assume "map_get (ch_chats (add_message d m s)) a = Some c" "map_get (ch_chats (add_message d m s)) b = Some e"
    "a \<noteq> b" "r \<in> set (ct_messages c)"
  then show "r \<notin> set (ct_messages e)" using chats_okD(3) [OF ok] by (auto split: if_splits dest: old)
qed

lemma splice_found_props: "distinct xs \<Longrightarrow> distinct (splice_found P xs) \<and> set (splice_found P xs) \<subseteq> set xs"
  by (auto simp: splice_found_def distinct_butlast set_take_disj_set_drop_if_distinct split: option.splits
      dest: in_set_butlastD in_set_takeD in_set_dropD)

lemma drop_message_ok: "chat_ok s d c \<Longrightarrow> chat_ok s d (drop_message t k c) \<and> set (ct_messages (drop_message t k c)) \<subseteq> set (ct_messages c)"
  using splice_found_props [of "ct_messages c"] by (auto simp: chat_ok_def drop_message_def)

lemma count_message_ok:
  assumes "chat_ok s d c"
  shows "chat_ok s d (count_message active m c)" "chat_ok s d (recount_message m c)"
proof -
  have more: "ct_totalUnreadValue c \<le> to_double (ct_totalValue c + message_value m)"
    using assms to_double_mono [of "ct_totalValue c" "ct_totalValue c + message_value m"] by (simp add: chat_ok_def)
  have both: "to_double (ct_totalUnreadValue c + message_value m) \<le> to_double (ct_totalValue c + message_value m)"
    using assms by (intro to_double_mono) (simp add: chat_ok_def)
  show "chat_ok s d (count_message active m c)" "chat_ok s d (recount_message m c)"
    using assms more both by (simp_all add: chat_ok_def count_message_def recount_message_def add_double_def Let_def)
qed

lemma file_message_ok: "chats_ok s \<Longrightarrow> chats_ok (file_message d m s)"
proof -
  have last: "chats_ok (t\<lparr>ch_lastReceived := x\<rparr>) \<longleftrightarrow> chats_ok t" for t x by (simp add: chats_ok_def chat_ok_def)
  assume "chats_ok s"
  then show ?thesis unfolding file_message_def last
    by (intro with_chat_ok add_message_ok ensure_chat_ok) (simp_all add: count_message_ok, simp add: count_message_def Let_def)
qed

lemma overwrite_ok:
  assumes ok: "chats_ok s" and r: "map_get (ch_messages s) (message_key (cm_payloadDigest m)) = Some r"
  shows "chats_ok (s\<lparr>ch_objects := (ch_objects s)[r := m]\<rparr>)"
proof (rule chats_okI, goal_cases)
  case (1 k i)
  then show ?case using chats_okD(1) [OF ok r] chats_okD(1) [OF ok, of k i] by (cases "i = r") auto
next
  case (2 a c)
  then show ?case using chats_okD(2) [OF ok, of a c] by (simp add: chat_ok_def)
next
  case (3 a b c e i)
  then show ?case using chats_okD(3) [OF ok, of a c b e] by simp
qed

lemma place_sent_ok: "chats_ok s \<Longrightarrow> chats_ok (place_sent later d m p s)"
proof -
  assume ok: "chats_ok s"
  have read: "chat_ok s a c \<Longrightarrow> chat_ok s a (c\<lparr>ct_lastRead := x\<rparr>)" for s a c x by (simp add: chat_ok_def)
  have "chats_ok (with_chat d (\<lambda>c. c\<lparr>ct_lastRead := later\<rparr>) (add_message d m s))"
    using add_message_ok [OF ok] by (rule with_chat_ok) (simp add: read)
  moreover have "chats_ok (with_chat d (drop_message s p) s)" for p
    using ok by (rule with_chat_ok) (rule drop_message_ok)
  ultimately show ?thesis by (simp add: place_sent_def split: option.split)
qed

lemma sendMessageLocal_ok: "chats_ok s \<Longrightarrow> chats_ok (snd (sendMessageLocal M now later a sender digest items outs status p s))"
  by (auto simp: sendMessageLocal_def Let_def sent_message_def split: sum.split option.split
      intro: overwrite_ok place_sent_ok ensure_chat_ok)

lemma file_messages_ok: "chats_ok s \<Longrightarrow> chats_ok (snd (file_messages M ws s))"
  by (induction ws arbitrary: s)
     (auto simp: shown_message_def message_key_def split: sum.split option.split intro: overwrite_ok file_message_ok)

lemma receiveMessages_ok: "chats_ok s \<Longrightarrow> chats_ok (snd (receiveMessages M ws s))"
  using file_messages_ok [of s M ws] by (simp add: receiveMessages_def split: sum.split)

lemma displayed_ok: "chats_ok s \<Longrightarrow> (\<And>d. chats_ok (f d s)) \<Longrightarrow> chats_ok (snd (displayed M a f s))"
  by (simp add: displayed_def split: sum.split)

lemma chat_actions_ok:
  assumes ok: "chats_ok s"
  shows "chats_ok (snd (chats_deleteMessage M a k s))" "chats_ok (snd (chats_readAll M a s))" "chats_ok (reset_chats s)"
    "chats_ok (snd (clearChat M a s))" "chats_ok (snd (deleteChat M a s))" "chats_ok (setStampAmount b q s)"
    "chats_ok (snd (setActiveChat M x s))"
proof -
  have gone: "chats_ok (s\<lparr>ch_messages := map_del k (ch_messages s)\<rparr>)"
    using chats_okD [OF ok] by (intro chats_okI) (auto simp: chat_ok_def split: if_splits)
  show "chats_ok (snd (chats_deleteMessage M a k s))"
    unfolding chats_deleteMessage_def by (intro displayed_ok ok with_chat_ok gone drop_message_ok)
  have read: "chats_ok (with_chat d (read_chat s) s)" for d
    using ok by (rule with_chat_ok) (auto simp: read_chat_def chat_ok_def)
  then show "chats_ok (snd (chats_readAll M a s))" unfolding chats_readAll_def by (intro displayed_ok ok)
  show "chats_ok (reset_chats s)"
    using chats_okD(2) [OF ok]
    by (intro chats_okI) (auto simp: reset_chats_def chat_ok_def map_get_map split: option.splits)
  show "chats_ok (snd (clearChat M a s))"
    unfolding clearChat_def by (intro displayed_ok ok with_chat_ok) (auto simp: chat_ok_def)
  have "chats_ok (s\<lparr>ch_active := y, ch_chats := map_del d (ch_chats s)\<rparr>)" for d y
    using chats_okD [OF ok] by (intro chats_okI) (auto simp: chat_ok_def split: if_splits)
  then show "chats_ok (snd (deleteChat M a s))" unfolding deleteChat_def by (intro displayed_ok ok)
  show "chats_ok (setStampAmount b q s)"
    unfolding setStampAmount_def using ok by (rule with_chat_ok) (simp add: chat_ok_def)
  have act: "chats_ok (t\<lparr>ch_active := y\<rparr>) \<longleftrightarrow> chats_ok t" for t y by (simp add: chats_ok_def chat_ok_def)
  show "chats_ok (snd (setActiveChat M x s))"
    using ok displayed_ok [OF ok] ensure_chat_ok [OF read] by (auto simp: setActiveChat_def act displayed_def split: option.split sum.split)
qed

text \<open>The actions of the store: what the user, the relay and the sending code call.\<close>

inductive action_step :: "'p msg_env \<Rightarrow> chats_state \<Rightarrow> chats_state \<Rightarrow> bool" for M where
  Deleted: "action_step M s (snd (chats_deleteMessage M a k s))"
| Read: "action_step M s (snd (chats_readAll M a s))"
| Reset: "action_step M s (reset_chats s)"
| Cleared: "action_step M s (snd (clearChat M a s))"
| Removed: "action_step M s (snd (deleteChat M a s))"
| Priced: "action_step M s (setStampAmount b q s)"
| Shown: "action_step M s (snd (setActiveChat M x s))"
| SentLocal: "action_step M s (snd (sendMessageLocal M now later a sender digest items outs status p s))"
| Received: "action_step M s (snd (receiveMessages M ws s))"

lemma action_step_ok: "action_step M s t \<Longrightarrow> chats_ok s \<Longrightarrow> chats_ok t"
  by (induction rule: action_step.induct) (simp_all add: chat_actions_ok sendMessageLocal_ok receiveMessages_ok)

lemma with_chat_read: "active_read s \<Longrightarrow> (\<And>c. ct_totalUnreadMessages c = 0 \<Longrightarrow> ct_totalUnreadValue c = 0 \<Longrightarrow> ch_active s = Some d \<Longrightarrow>
    ct_totalUnreadMessages (f c) = 0 \<and> ct_totalUnreadValue (f c) = 0) \<Longrightarrow> active_read (with_chat d f s)"
  by (auto simp: active_read_def split: if_splits)

lemma ensure_chat_read: "active_read s \<Longrightarrow> active_read (ensure_chat d s)"
  by (auto simp: active_read_def new_chat_def split: if_splits option.splits)

lemma add_message_read: "active_read s \<Longrightarrow> active_read (add_message d m s)"
  by (auto simp: active_read_def split: if_splits)

lemma file_message_read: "active_read s \<Longrightarrow> active_read (file_message d m s)"
proof -
  have last: "active_read (t\<lparr>ch_lastReceived := x\<rparr>) \<longleftrightarrow> active_read t" for t x by (simp add: active_read_def)
  assume "active_read s"
  then show ?thesis unfolding file_message_def last
    by (intro with_chat_read add_message_read ensure_chat_read) (auto simp: count_message_def Let_def)
qed

lemma objects_read: "active_read (s\<lparr>ch_objects := x\<rparr>) \<longleftrightarrow> active_read s" "active_read (s\<lparr>ch_messages := y\<rparr>) \<longleftrightarrow> active_read s"
  by (simp_all add: active_read_def)

lemma place_sent_read: "active_read s \<Longrightarrow> active_read (place_sent later d m p s)"
  by (auto simp: place_sent_def drop_message_def split: option.split intro!: with_chat_read add_message_read)

lemma action_step_read: "action_step M s t \<Longrightarrow> active_read s \<Longrightarrow> active_read t"
proof (induction rule: action_step.induct)
  case (Received s ws)
  have "active_read (snd (file_messages M ws s))"
    using Received
    by (induction ws arbitrary: s) (auto simp: objects_read split: sum.split option.split intro: file_message_read)
  then show ?case using Received by (simp add: receiveMessages_def split: sum.split)
next
  case (SentLocal s now later a sender digest items outs status p)
  then show ?case
    by (auto simp: sendMessageLocal_def Let_def objects_read split: sum.split option.split intro: place_sent_read ensure_chat_read)
next
  case (Shown s x)
  then show ?case
    by (auto simp: setActiveChat_def displayed_def active_read_def read_chat_def new_chat_def split: option.split sum.split if_splits)
next
  case (Reset s)
  then show ?case by (auto simp: reset_chats_def active_read_def map_get_map)
next
  case (Removed s a)
  then show ?case by (auto simp: deleteChat_def displayed_def active_read_def split: sum.split if_splits)
qed (auto simp: chats_deleteMessage_def chats_readAll_def clearChat_def setStampAmount_def displayed_def objects_read drop_message_def read_chat_def
    split: sum.split intro!: with_chat_read)

section \<open>What is shown\<close>

definition shown_in :: "chats_state \<Rightarrow> string \<Rightarrow> chat_message list" where
  "shown_in s d = (case map_get (ch_chats s) d of None \<Rightarrow> [] | Some c \<Rightarrow> map (\<lambda>r. ch_objects s ! r) (ct_messages c))"

definition unread_in :: "chats_state \<Rightarrow> string \<Rightarrow> nat" where
  "unread_in s d = (case map_get (ch_chats s) d of None \<Rightarrow> 0 | Some c \<Rightarrow> ct_totalUnreadMessages c)"

definition last_read_in :: "chats_state \<Rightarrow> string \<Rightarrow> int" where
  "last_read_in s d = (case map_get (ch_chats s) d of None \<Rightarrow> 0 | Some c \<Rightarrow> ct_lastRead c)"

lemma shown_valid:
  assumes ok: "chats_ok s" and "map_get (ch_chats s) a = Some c"
  shows "map (\<lambda>r. (ch_objects s @ xs) ! r) (ct_messages c) = map (\<lambda>r. ch_objects s ! r) (ct_messages c)"
  using chats_okD(2) [OF assms] by (auto simp: chat_ok_def nth_append)

lemma add_message_shown:
  assumes ok: "chats_ok s" and "map_get (ch_chats s) d \<noteq> None"
  shows "shown_in (add_message d m s) a = (if a = d then shown_in s d @ [m] else shown_in s a)"
  using assms(2) shown_valid [OF ok, of a _ "[m]"] by (auto simp: shown_in_def split: option.split)

lemma ensure_chat_shown: "shown_in (ensure_chat d s) a = shown_in s a" "unread_in (ensure_chat d s) a = unread_in s a"
  "last_read_in (ensure_chat d s) a = last_read_in s a"
  by (auto simp: shown_in_def unread_in_def last_read_in_def new_chat_def split: option.split)

lemma add_message_found:
  "getMessageByPayload (add_message d m s) k =
     (if k = message_key (cm_payloadDigest m) then Some m
      else map_option (\<lambda>r. (ch_objects s @ [m]) ! r) (map_get (ch_messages s) k))"
  by (simp add: getMessageByPayload_def)

lemma found_valid: "chats_ok s \<Longrightarrow> map_option (\<lambda>r. (ch_objects s @ xs) ! r) (map_get (ch_messages s) k) = getMessageByPayload s k"
  using chats_okD(1) [of s k] by (cases "map_get (ch_messages s) k") (auto simp: getMessageByPayload_def nth_append)

lemma file_message_facts:
  assumes ok: "chats_ok s"
  shows "shown_in (file_message d m s) a = (if a = d then shown_in s d @ [m] else shown_in s a)"
    and "unread_in (file_message d m s) a = unread_in s a + (if a = d \<and> ch_active s \<noteq> Some d \<and> last_read_in s d < cm_serverTime m then 1 else 0)"
    and "last_read_in (file_message d m s) a = last_read_in s a" and "ch_active (file_message d m s) = ch_active s"
    and "getMessageByPayload (file_message d m s) k = (if k = message_key (cm_payloadDigest m) then Some m else getMessageByPayload s k)"
    and "map_get (ch_messages (file_message d m s)) k =
      (if k = message_key (cm_payloadDigest m) then Some (length (ch_objects s)) else map_get (ch_messages s) k)"
proof -
  have count: "shown_in (with_chat d (count_message b m) t) a = shown_in t a" for b t
    by (auto simp: shown_in_def count_message_def Let_def split: option.split)
  have "shown_in (file_message d m s) a = shown_in (add_message d m (ensure_chat d s)) a"
    by (simp add: file_message_def shown_in_def count_message_def Let_def split: option.split)
  then show "shown_in (file_message d m s) a = (if a = d then shown_in s d @ [m] else shown_in s a)"
    using add_message_shown [OF ensure_chat_ok [OF ok], of d d m a] by (simp add: ensure_chat_shown)
  show "unread_in (file_message d m s) a = unread_in s a + (if a = d \<and> ch_active s \<noteq> Some d \<and> last_read_in s d < cm_serverTime m then 1 else 0)"
    by (auto simp: file_message_def unread_in_def last_read_in_def count_message_def new_chat_def Let_def split: option.split)
  show "last_read_in (file_message d m s) a = last_read_in s a"
    by (auto simp: file_message_def last_read_in_def count_message_def new_chat_def Let_def split: option.split)
  show "ch_active (file_message d m s) = ch_active s" by (simp add: file_message_def)
  show "getMessageByPayload (file_message d m s) k = (if k = message_key (cm_payloadDigest m) then Some m else getMessageByPayload s k)"
    using found_valid [OF ok, of "[m]" k] by (simp add: file_message_def getMessageByPayload_def)
  show "map_get (ch_messages (file_message d m s)) k =
      (if k = message_key (cm_payloadDigest m) then Some (length (ch_objects s)) else map_get (ch_messages s) k)"
    by (simp add: file_message_def)
qed

lemma shown_message_simps [simp]: "cm_payloadDigest (shown_message w) = Some (rv_index w)" "cm_serverTime (shown_message w) = rv_serverTime w"
  "message_key (Some d) = d" "message_key None = ''undefined''"
  by (simp_all add: shown_message_def message_key_def)

definition places :: "'p msg_env \<Rightarrow> 'p received list \<Rightarrow> string list \<Rightarrow> bool" where
  "places M ws ds \<longleftrightarrow> list_all2 (\<lambda>w d. toDisplayAddress M (rv_copartyAddress w) = Inr d) ws ds"

lemma first_pass: "places M ws ds \<Longrightarrow> receiveMessages M ws s = file_messages M ws s"
proof -
  assume "places M ws ds"
  then have "fold_res (\<lambda>w _. rmap (\<lambda>_. ()) (toDisplayAddress M (rv_copartyAddress w))) ws () = Inr ()"
    by (induction ws arbitrary: ds) (auto simp: places_def list_all2_Cons1)
  then show ?thesis by (simp add: receiveMessages_def)
qed

lemma file_messages_facts:
  assumes "chats_ok s" and "places M ws ds" and "\<forall>w \<in> set ws. map_get (ch_messages s) (rv_index w) = None" and "distinct (map rv_index ws)"
  shows "\<exists>t. file_messages M ws s = (None, t) \<and>
    (\<forall>d. shown_in t d = shown_in s d @ map (\<lambda>(w, a). shown_message w) (filter (\<lambda>(w, a). a = d) (zip ws ds))) \<and>
    (\<forall>d. unread_in t d = unread_in s d +
       length (filter (\<lambda>(w, a). a = d \<and> ch_active s \<noteq> Some d \<and> last_read_in s d < rv_serverTime w) (zip ws ds))) \<and>
    (\<forall>k. getMessageByPayload t k = (case find (\<lambda>w. rv_index w = k) ws of None \<Rightarrow> getMessageByPayload s k | Some w \<Rightarrow> Some (shown_message w)))"
  using assms
proof (induction ws arbitrary: s ds)
  case (Cons w ws)
  then obtain d ds' where ds: "ds = d # ds'" "toDisplayAddress M (rv_copartyAddress w) = Inr d" "places M ws ds'"
    by (auto simp: places_def list_all2_Cons1)
  let ?s = "file_message d (shown_message w) s"
  note F = file_message_facts [OF Cons.prems(1), of d "shown_message w"]
  have differ: "rv_index x \<noteq> rv_index w" if "x \<in> set ws" for x using Cons.prems(4) imageI [OF that, of rv_index] by auto
  then have "find (\<lambda>x. rv_index x = rv_index w) ws = None" by (simp add: find_None_iff)
  moreover have next_ok: "chats_ok ?s" "\<forall>x \<in> set ws. map_get (ch_messages ?s) (rv_index x) = None"
    using Cons.prems(1,3) differ by (auto simp: F(6) intro: file_message_ok)
  moreover obtain t where
    "file_messages M ws ?s = (None, t)"
    "\<forall>d. shown_in t d = shown_in ?s d @ map (\<lambda>(w, a). shown_message w) (filter (\<lambda>(w, a). a = d) (zip ws ds'))"
    "\<forall>d. unread_in t d = unread_in ?s d +
       length (filter (\<lambda>(w, a). a = d \<and> ch_active ?s \<noteq> Some d \<and> last_read_in ?s d < rv_serverTime w) (zip ws ds'))"
    "\<forall>k. getMessageByPayload t k = (case find (\<lambda>w. rv_index w = k) ws of None \<Rightarrow> getMessageByPayload ?s k | Some w \<Rightarrow> Some (shown_message w))"
    using Cons.IH [OF next_ok(1) ds(3) next_ok(2)] Cons.prems(4) by auto
  ultimately show ?case using Cons.prems(3) ds(1,2) F
    by (intro exI [of _ t]) (auto simp del: file_messages.simps(1) split: option.split)
qed (simp add: places_def)

text \<open>
  C17. Received messages are shown.  New messages, in whatever order and of whatever parties, end up in the chats
  of these parties, each behind what was there and in the order of the batch; a chat counts those as unread that
  are newer than its last reading, unless it is on display; and every message is found under its digest.
\<close>

theorem received_messages_shown:
  assumes "chats_ok s" and "places M ws ds" and "\<forall>w \<in> set ws. map_get (ch_messages s) (rv_index w) = None" and "distinct (map rv_index ws)"
  shows "\<exists>t. receiveMessages M ws s = (None, t) \<and>
    (\<forall>d. shown_in t d = shown_in s d @ map (\<lambda>(w, a). shown_message w) (filter (\<lambda>(w, a). a = d) (zip ws ds))) \<and>
    (\<forall>d. unread_in t d = unread_in s d +
       length (filter (\<lambda>(w, a). a = d \<and> ch_active s \<noteq> Some d \<and> last_read_in s d < rv_serverTime w) (zip ws ds))) \<and>
    (\<forall>w \<in> set ws. getMessageByPayload t (rv_index w) = Some (shown_message w))"
proof -
  have "find (\<lambda>x. rv_index x = rv_index w) ws = Some w" if "w \<in> set ws" for w
    using that assms(4) by (induction ws) auto
  with file_messages_facts [OF assms] first_pass [OF assms(2)] show ?thesis by (auto split: option.splits)
qed

lemma file_messages_append:
  assumes "chats_ok s" and "places M us ds" and "\<forall>u \<in> set us. map_get (ch_messages s) (rv_index u) = None" and "distinct (map rv_index us)"
  shows "file_messages M (us @ ws) s = file_messages M ws (snd (file_messages M us s))"
  using assms
proof (induction us arbitrary: s ds)
  case (Cons u us)
  then obtain d ds' where d: "toDisplayAddress M (rv_copartyAddress u) = Inr d" "places M us ds'"
    by (auto simp: places_def list_all2_Cons1)
  have "\<forall>x \<in> set us. map_get (ch_messages (file_message d (shown_message u) s)) (rv_index x) = None"
    using Cons.prems(1,3,4) by (auto simp: file_message_facts(6) image_iff)
  with Cons.IH [OF file_message_ok [OF Cons.prems(1)] d(2)] Cons.prems(3,4) d(1) show ?case by simp
qed simp

text \<open>
  C20. A message that is known already, from before or from the same batch, ends the batch.  The new messages before it
  are filed as if they had come alone, the known one only replaces its object, and whatever follows it in the batch is
  neither filed nor shown.
\<close>

theorem known_message_drops_batch:
  assumes ok: "chats_ok s" and places: "places M us ds" "places M (w # ws) es"
    and new: "\<forall>u \<in> set us. map_get (ch_messages s) (rv_index u) = None" "distinct (map rv_index us)"
    and known: "map_get (ch_messages s) (rv_index w) \<noteq> None \<or> rv_index w \<in> rv_index ` set us"
  shows "\<exists>t1 t. receiveMessages M us s = (None, t1) \<and> receiveMessages M (us @ w # ws) s = (None, t) \<and>
    ch_chats t = ch_chats t1 \<and> ch_messages t = ch_messages t1 \<and> getMessageByPayload t (rv_index w) = Some (shown_message w) \<and>
    (\<forall>x \<in> set ws. getMessageByPayload t1 (rv_index x) = None \<longrightarrow> getMessageByPayload t (rv_index x) = None)"
proof -
  obtain t1 where t1: "file_messages M us s = (None, t1)"
    "\<forall>k. getMessageByPayload t1 k = (case find (\<lambda>u. rv_index u = k) us of None \<Rightarrow> getMessageByPayload s k | Some u \<Rightarrow> Some (shown_message u))"
    using file_messages_facts [OF ok places(1) new] by blast
  have "getMessageByPayload t1 (rv_index w) \<noteq> None"
  proof (cases "find (\<lambda>u. rv_index u = rv_index w) us")
    case None
    then have "rv_index w \<notin> rv_index ` set us" by (auto simp: find_None_iff)
    with known have "getMessageByPayload s (rv_index w) \<noteq> None" by (simp add: getMessageByPayload_def)
    with t1(2) None show ?thesis by simp
  qed (use t1(2) in simp)
  then obtain r where r: "map_get (ch_messages t1) (rv_index w) = Some r" by (auto simp: getMessageByPayload_def)
  have "chats_ok t1" using file_messages_ok [OF ok, of M us] t1(1) by simp
  then have valid: "r < length (ch_objects t1)" using chats_okD(1) r by blast
  let ?t = "t1\<lparr>ch_objects := (ch_objects t1)[r := shown_message w]\<rparr>"
  obtain e where "toDisplayAddress M (rv_copartyAddress w) = Inr e" using places(2) by (auto simp: places_def list_all2_Cons1)
  then have "file_messages M (us @ w # ws) s = (None, ?t)"
    using file_messages_append [OF ok places(1) new, of "w # ws"] t1(1) r by simp
  moreover have "places M (us @ w # ws) (ds @ es)" using places by (simp add: places_def list_all2_appendI)
  ultimately show ?thesis
    using t1(1) first_pass [OF places(1)] first_pass [of M "us @ w # ws"] r valid by (simp add: getMessageByPayload_def)
qed

text \<open>
  C22. Deleting a message that is not in the chat deletes another one: when no message of the chat has the digest, its
  last message disappears.
\<close>

theorem deleting_absent_drops_last:
  assumes "toDisplayAddress M addr = Inr d" and "\<forall>m \<in> set (shown_in s d). cm_payloadDigest m \<noteq> Some digest"
  shows "\<exists>t. chats_deleteMessage M addr digest s = (None, t) \<and> shown_in t d = butlast (shown_in s d)"
proof (cases "map_get (ch_chats s) d")
  case (Some c)
  have "find_index (\<lambda>r. cm_payloadDigest (ch_objects s ! r) = Some digest) (ct_messages c) = None"
    using assms(2) Some by (simp add: find_index_None shown_in_def)
  with assms(1) Some show ?thesis
    by (simp add: chats_deleteMessage_def displayed_def shown_in_def drop_message_def splice_found_def map_butlast)
qed (use assms(1) in \<open>simp add: chats_deleteMessage_def displayed_def shown_in_def\<close>)

section \<open>Addresses\<close>

lemma hash_info_network:
  "hash_info N p ds = Inr i \<Longrightarrow> hash_info N' p ds = Inr (i\<lparr>i_network := networks_get N' (Some (NetText p))\<rparr>)"
  by (auto simp: hash_info_def rbind_Inr_iff rmap_Inr_iff split: list.splits prod.splits)

lemma cash_text_read:
  assumes "length h = 20"
  shows "transformString K app_networks (cash_text h) None None =
      Inr \<lparr>i_hashBuffer = Some h, i_network = Some (Net xec_livenet), i_type = Some PayToPublicKeyHash_text\<rparr>"
    and "length (cash_text h) = 48"
proof -
  have pre: "livenet \<in> {livenet, testnet, regtest}" "PayToPublicKeyHash_text \<in> {PayToPublicKeyHash_text, PayToScriptHash_text}"
    "length h \<in> set hash_sizes" using assms by (simp_all add: hash_sizes_def)
  from toCashAddress_text [OF pre, of False, unfolded if_False] obtain p ds payload where
    c: "toCashAddress False \<lparr>hashBuffer = h, addr_network = Net livenet, addr_type = PayToPublicKeyHash_text\<rparr> =
         Inr (prefixed p (chars32 (encoded p payload)))"
      "p \<in> set net_prefixes" "net_prefix livenet = Some p" "list_all (\<lambda>v. v < 256) ds" "convertBits ds 8 5 False = Some (Inr payload)"
      "length payload = (8 * (length h + 1) + 4) div 5" "list_all (\<lambda>d. d < 32) payload"
      "hash_info default_networks p ds = Inr \<lparr>i_hashBuffer = Some h, i_network = Some (Net livenet), i_type = Some PayToPublicKeyHash_text\<rparr>"
    by blast
  have p: "p = ''ecash''" using c(3) known_prefixes(1) by simp
  have t: "cash_text h = prefixed p (chars32 (encoded p payload))" using c(1) cash_text [OF assms] by (simp add: xec_cash_livenet)
  note enc = encoded_props [OF c(7), of p]
  note tx = text_of_plain [OF c(2) enc(2), of p, folded t, simplified]
  have l: "length payload = 34" using c(6) assms by simp
  show len: "length (cash_text h) = 48" using enc(3) l p by (simp add: t prefixed_def chars32_def)
  then have ne: "cash_text h \<noteq> []" by auto
  have choice: "network_choice app_networks p (encoded p payload) = Inr p"
    using enc(1) p by (simp add: network_choice_def checkArgument_def)
  obtain e where "decodeXAddress K app_networks (cash_text h) = Inl e" using decodeX_plain [OF tx(1) ne] by blast
  then have "decode_long K app_networks (cash_text h) =
      Inr \<lparr>i_hashBuffer = Some h, i_network = Some (Net xec_livenet), i_type = Some PayToPublicKeyHash_text\<rparr>"
    using decode_encoded [OF tx(3,4) c(4) choice c(5)] hash_info_network [OF c(8), of app_networks]
    by (simp add: decode_long_def t p networks_get_def)
  then show "transformString K app_networks (cash_text h) None None =
      Inr \<lparr>i_hashBuffer = Some h, i_network = Some (Net xec_livenet), i_type = Some PayToPublicKeyHash_text\<rparr>"
    by (simp add: transformString_def len tx(2) truthy_net_def networks_get_def mismatched_def type_mismatch_def truthy_text_def
        PayToPublicKeyHash_text_def)
qed

lemma display_cash_text:
  assumes M: "app_env_ok M" and h: "length h = 20"
  shows "toDisplayAddress M (cash_text h) = Inr (cash_text h)"
proof -
  have "cash_text h \<noteq> []" using cash_text_read(2) [OF h] by auto
  then show ?thesis
  using cash_text_read [OF h] cash_text [OF h] app_env_okD(2-4) [OF M] h
  by (simp add: toDisplayAddress_def address_new_def checkArgument_def truthy_net_def known_type_def classifyArguments_def transformHash_def
      truthy_text_def net_or_def networks_get_def xec_address_def PayToPublicKeyHash_text_def app_state(1))
qed

section \<open>The events of a send\<close>

definition event_digest :: "action \<Rightarrow> string option option" where
  "event_digest a = (case a of MessageSending d \<Rightarrow> Some (Some d) | MessageSent d \<Rightarrow> Some (Some d) | MessageSendError d _ \<Rightarrow> Some d | _ \<Rightarrow> None)"

definition events :: "action list \<Rightarrow> action list" where
  "events acts = filter (\<lambda>a. event_digest a \<noteq> None) acts"

lemma events_simps [simp]: "events [] = []" "events (xs @ ys) = events xs @ events ys" "events (replicate n (Pushed m)) = []"
  "events (MessageSending d # xs) = MessageSending d # events xs" "events (MessageSent d # xs) = MessageSent d # events xs"
  "events (MessageSendError x b # xs) = MessageSendError x b # events xs" "events (Validated m # xs) = events xs"
  "events (Saved d n # xs) = events xs" "events (Broadcasted ts # xs) = events xs"
  by (simp_all add: events_def event_digest_def)

lemma check_events:
  assumes "check_and_broadcast N m digest d w = (acts, r, v)"
  shows "r \<noteq> None \<and> events acts = [MessageSent digest] \<or> r = None \<and> (\<exists>b. events acts = [MessageSendError (Some digest) b])"
  using assms
  by (auto simp: check_and_broadcast_def deliver_stamped_def Let_def split: sum.splits if_splits push_result.splits prod.splits)

lemma send_events:
  assumes "sendMessageImpl M C W N addr items amount w = (acts, Inr r, v)"
  shows "\<exists>k. r \<noteq> None \<and> events acts = [MessageSending k, MessageSent k] \<or>
    r = None \<and> (\<exists>b. events acts = [MessageSending k, MessageSendError (Some k) b]) \<or>
    r = None \<and> (\<exists>x. events acts = [MessageSendError x False])"
proof -
  obtain source dest d w1 where "send_payload M C W N source dest (length items) amount d w1 = (acts, r, v)"
    using assms by (auto simp: sendMessageImpl_def split: sum.splits prod.splits)
  then show ?thesis
    by (auto simp: send_payload_def Let_def split: sum.splits prod.splits dest!: check_events)
qed

text \<open>A send that throws has announced nothing.\<close>

lemma thrown_send: "sendMessageImpl M C W N addr items amount w = (acts, Inl e, v) \<Longrightarrow> acts = []"
  by (auto simp: sendMessageImpl_def split: sum.splits prod.splits)

definition event_status :: "action \<Rightarrow> string \<Rightarrow> string" where
  "event_status a st = (case a of MessageSending _ \<Rightarrow> ''sending'' | MessageSent _ \<Rightarrow> ''confirmed'' | MessageSendError _ _ \<Rightarrow> ''error'' | _ \<Rightarrow> st)"

definition final_status :: "string \<Rightarrow> action list \<Rightarrow> string" where
  "final_status st acts = fold event_status acts st"

lemma final_status_Cons: "final_status st (a # acts) = final_status (event_status a st) acts"
  by (simp add: final_status_def)

lemma final_status_events: "final_status st acts = final_status st (events acts)"
  unfolding final_status_def
  by (induction acts arbitrary: st) (auto simp: events_def event_digest_def event_status_def split: action.splits)

lemma relay_event_send: "event_digest a = Some x \<Longrightarrow>
    relay_event M now later addr sender items outs a s = sendMessageLocal M now later addr sender x items outs (event_status a st) None s"
  by (auto simp: event_digest_def relay_event_def event_status_def split: action.splits)

lemma relay_event_other:
  assumes "event_digest a = None"
  shows "relay_event M now later addr sender items outs a s = (None, s)" and "event_status a st = st"
  using assms by (auto simp: event_digest_def relay_event_def event_status_def split: action.splits)

text \<open>
  The events are filed one after the other, each at its own time, and anything that removes no message may happen before,
  between and after them: \<open>k\<close> is the name of the message that is sent, and no other message has it.
\<close>

inductive busy_step :: "'p msg_env \<Rightarrow> string \<Rightarrow> chats_state \<Rightarrow> chats_state \<Rightarrow> bool" for M k where
  BusyRead: "busy_step M k s (snd (chats_readAll M a s))"
| BusyPriced: "busy_step M k s (setStampAmount b q s)"
| BusyShown: "busy_step M k s (snd (setActiveChat M x s))"
| BusyClicked: "busy_step M k s (notification_clicked a s)"
| BusyAdded: "busy_step M k s (default_contact_added c a s)"
| BusySent: "message_key digest \<noteq> k \<Longrightarrow> busy_step M k s (snd (sendMessageLocal M now later a sender digest items outs status None s))"
| BusyReceived: "k \<notin> rv_index ` set ws \<Longrightarrow> busy_step M k s (snd (receiveMessages M ws s))"

inductive filing ::
  "'p msg_env \<Rightarrow> string \<Rightarrow> string \<Rightarrow> send_item list \<Rightarrow> (string \<times> nat) list \<Rightarrow> string \<Rightarrow> action list \<Rightarrow> chats_state \<Rightarrow> chats_state \<Rightarrow> bool"
  for M addr sender items outs k where
  Filed: "filing M addr sender items outs k [] s s"
| Other: "busy_step M k s t \<Longrightarrow> filing M addr sender items outs k acts t u \<Longrightarrow> filing M addr sender items outs k acts s u"
| Event: "filing M addr sender items outs k acts (snd (relay_event M now later addr sender items outs a s)) u \<Longrightarrow>
    filing M addr sender items outs k (a # acts) s u"

text \<open>What a step between the events leaves alone: the entry and the object of \<open>k\<close>, and what stands in the chats.\<close>

definition spares :: "string \<Rightarrow> chats_state \<Rightarrow> chats_state \<Rightarrow> bool" where
  "spares k s t \<longleftrightarrow> chats_ok t \<and> map_get (ch_messages t) k = map_get (ch_messages s) k \<and>
     (\<forall>r. map_get (ch_messages s) k = Some r \<longrightarrow> ch_objects t ! r = ch_objects s ! r) \<and>
     (\<forall>a c. map_get (ch_chats s) a = Some c \<longrightarrow> (\<exists>c' zs. map_get (ch_chats t) a = Some c' \<and> ct_messages c' = ct_messages c @ zs))"

lemma spares_refl: "chats_ok s \<Longrightarrow> spares k s s"
  by (auto simp: spares_def)

lemma spares_trans [trans]: "spares k s t \<Longrightarrow> spares k t u \<Longrightarrow> spares k s u"
  unfolding spares_def by (metis append.assoc)

lemma spares_display: "chats_ok s \<Longrightarrow> spares k s (s\<lparr>ch_active := x\<rparr>)" "chats_ok s \<Longrightarrow> spares k s (s\<lparr>ch_lastReceived := y\<rparr>)"
  by (auto simp: spares_def chats_ok_def chat_ok_def)

lemma spares_with_chat: "chats_ok (with_chat d f s) \<Longrightarrow> (\<And>c. ct_messages (f c) = ct_messages c) \<Longrightarrow> spares k s (with_chat d f s)"
  by (auto simp: spares_def)

lemma spares_ensure: "chats_ok s \<Longrightarrow> spares k s (ensure_chat d s)"
  using ensure_chat_ok [of s d] by (auto simp: spares_def)

lemma spares_add: "chats_ok s \<Longrightarrow> message_key (cm_payloadDigest m) \<noteq> k \<Longrightarrow> spares k s (add_message d m s)"
  using add_message_ok [of s d m] chats_okD(1) [of s k] by (auto simp: spares_def nth_append)

lemma spares_overwrite:
  assumes ok: "chats_ok s" and m: "map_get (ch_messages s) (message_key (cm_payloadDigest m)) = Some r" "message_key (cm_payloadDigest m) \<noteq> k"
  shows "spares k s (s\<lparr>ch_objects := (ch_objects s)[r := m]\<rparr>)"
proof -
  have "r \<noteq> i" if "map_get (ch_messages s) k = Some i" for i
    using chats_okD(1) [OF ok m(1)] chats_okD(1) [OF ok that] m(2) by auto
  then show ?thesis using overwrite_ok [OF ok m(1)] by (auto simp: spares_def)
qed

lemma spares_place:
  assumes "chats_ok s" and "message_key (cm_payloadDigest m) \<noteq> k"
  shows "spares k s (with_chat d (\<lambda>c. c\<lparr>ct_lastRead := later\<rparr>) (add_message d m s))"
proof (rule spares_trans [OF spares_add [OF assms]])
  show "spares k (add_message d m s) (with_chat d (\<lambda>c. c\<lparr>ct_lastRead := later\<rparr>) (add_message d m s))"
    using add_message_ok [OF assms(1)] by (intro spares_with_chat with_chat_ok) (auto simp: chat_ok_def)
qed

lemma spares_file:
  assumes "chats_ok s" and "message_key (cm_payloadDigest m) \<noteq> k"
  shows "spares k s (file_message d m s)"
proof -
  let ?t = "add_message d m (ensure_chat d s)" and ?f = "count_message (ch_active s = Some d) m"
  have t: "chats_ok ?t" using assms(1) by (intro add_message_ok ensure_chat_ok)
  have f: "ct_messages (?f c) = ct_messages c" for c by (simp add: count_message_def Let_def)
  have ok: "chats_ok (with_chat d ?f ?t)" using t by (rule with_chat_ok) (simp add: count_message_ok f)
  have "spares k s (ensure_chat d s)" by (rule spares_ensure [OF assms(1)])
  also have "spares k (ensure_chat d s) ?t" using assms by (intro spares_add ensure_chat_ok)
  also have "spares k ?t (with_chat d ?f ?t)" using ok f by (rule spares_with_chat)
  also have "spares k (with_chat d ?f ?t) (file_message d m s)"
    unfolding file_message_def by (rule spares_display(2) [OF ok])
  finally show ?thesis .
qed

lemma spares_received: "chats_ok s \<Longrightarrow> k \<notin> rv_index ` set ws \<Longrightarrow> spares k s (snd (file_messages M ws s))"
proof (induction ws arbitrary: s)
  case (Cons w ws)
  have w: "message_key (cm_payloadDigest (shown_message w)) \<noteq> k" using Cons.prems(2) by auto
  have rest: "spares k s (snd (file_messages M ws (file_message d (shown_message w) s)))" for d
    using Cons.prems(2) by (intro spares_trans [OF spares_file [OF Cons.prems(1) w] Cons.IH [OF file_message_ok [OF Cons.prems(1)]]]) auto
  show ?case
    using spares_overwrite [OF Cons.prems(1) _ w] by (auto simp: spares_refl [OF Cons.prems(1)] rest split: sum.split option.split)
qed (simp add: spares_refl)

lemma busy_spares: "busy_step M k s t \<Longrightarrow> chats_ok s \<Longrightarrow> spares k s t"
proof (induction rule: busy_step.induct)
  case (BusyRead s a)
  have "chats_ok (with_chat d (read_chat s) s)" for d using BusyRead by (rule with_chat_ok) (auto simp: read_chat_def chat_ok_def)
  with BusyRead show ?case
    by (auto simp: chats_readAll_def displayed_def spares_refl read_chat_def split: sum.split intro!: spares_with_chat)
next
  case (BusyPriced s b q)
  then show ?case unfolding setStampAmount_def by (intro spares_with_chat with_chat_ok) (auto simp: chat_ok_def)
next
  case (BusyShown s x)
  have ok: "chats_ok (with_chat d (read_chat s) s)" for d using BusyShown by (rule with_chat_ok) (auto simp: read_chat_def chat_ok_def)
  then have "spares k s (with_chat d (read_chat s) s)" for d by (rule spares_with_chat) (simp add: read_chat_def)
  then have "spares k s ((ensure_chat d (with_chat d (read_chat s) s))\<lparr>ch_active := y\<rparr>)" for d y
    using ok by (blast intro: spares_trans spares_ensure spares_display(1) ensure_chat_ok)
  with BusyShown show ?case
    by (auto simp: setActiveChat_def displayed_def spares_refl spares_display split: option.split sum.split)
next
  case (BusySent digest s now later a sender items outs status)
  have m: "message_key (cm_payloadDigest (sent_message now sender digest items outs status)) \<noteq> k"
    using BusySent by (simp add: sent_message_def)
  have key: "cm_payloadDigest (sent_message now sender digest items outs status) = digest" by (simp add: sent_message_def)
  note ok = BusySent(2)
  note place = spares_place [OF ok m] and fresh = spares_trans [OF spares_ensure [OF ok] spares_place [OF ensure_chat_ok [OF ok] m]]
  show ?case
    using spares_overwrite [OF ok _ m, unfolded key]
    by (auto simp: sendMessageLocal_def Let_def place_sent_def spares_refl [OF ok] place fresh split: sum.split option.split)
next
  case (BusyReceived ws s)
  then show ?case using spares_received [of s k ws M] by (auto simp: receiveMessages_def spares_refl split: sum.split)
qed (auto simp: notification_clicked_def default_contact_added_def spares_refl spares_display)

text \<open>The message stands in the chat, at a place.\<close>

definition in_place :: "chats_state \<Rightarrow> string \<Rightarrow> string \<Rightarrow> nat \<Rightarrow> chat_message \<Rightarrow> bool" where
  "in_place s k d i m \<longleftrightarrow> (\<exists>r c. map_get (ch_messages s) k = Some r \<and> ch_objects s ! r = m \<and> map_get (ch_chats s) d = Some c \<and>
     i < length (ct_messages c) \<and> ct_messages c ! i = r)"

lemma in_place_shown: "in_place s k d i m \<Longrightarrow> getMessageByPayload s k = Some m \<and> i < length (shown_in s d) \<and> shown_in s d ! i = m"
  by (auto simp: in_place_def getMessageByPayload_def shown_in_def)

lemma spares_in_place: "spares k s t \<Longrightarrow> in_place s k d i m \<Longrightarrow> in_place t k d i m"
  unfolding spares_def in_place_def by (fastforce simp: nth_append)

lemma spares_shown: "spares k s t \<Longrightarrow> length (shown_in s d) \<le> length (shown_in t d)"
  unfolding spares_def by (cases "map_get (ch_chats s) d") (fastforce simp: shown_in_def)+

definition placed :: "string \<Rightarrow> int \<Rightarrow> chat_message \<Rightarrow> chats_state \<Rightarrow> chats_state" where
  "placed d later m s = with_chat d (\<lambda>c. c\<lparr>ct_lastRead := later\<rparr>) (add_message d m (ensure_chat d s))"

lemma sent_first:
  assumes d: "toDisplayAddress M addr = Inr d"
    and chat: "map_get (ch_chats s) d \<noteq> None \<or> (\<exists>own. toDisplayAddress M sender = Inr own \<and> own \<noteq> d)"
    and new: "map_get (ch_messages s) (message_key x) = None"
  shows "sendMessageLocal M now later addr sender x items outs status None s = (None, placed d later (sent_message now sender x items outs status) s)"
proof (cases "map_get (ch_chats s) d")
  case None
  then show ?thesis using d chat new by (auto simp: sendMessageLocal_def place_sent_def placed_def Let_def)
next
  case (Some c)
  then show ?thesis using d new by (simp add: sendMessageLocal_def place_sent_def placed_def Let_def ensure_chat_def)
qed

lemma placed_in_place:
  assumes ok: "chats_ok s" and k: "message_key (cm_payloadDigest m) = k"
  shows "in_place (placed d later m s) k d (length (shown_in s d)) m \<and> chats_ok (placed d later m s)"
proof -
  have "chats_ok (placed d later m s)"
    unfolding placed_def using add_message_ok [OF ensure_chat_ok [OF ok]] by (rule with_chat_ok) (auto simp: chat_ok_def)
  then show ?thesis using k by (auto simp: in_place_def placed_def shown_in_def new_chat_def nth_append split: option.split)
qed

lemma sent_again:
  assumes ok: "chats_ok s" and d: "toDisplayAddress M addr = Inr d" and k: "message_key x = k" and there: "in_place s k d i m"
  shows "in_place (snd (sendMessageLocal M now later addr sender x items outs status None s)) k d i (sent_message now sender x items outs status) \<and>
    chats_ok (snd (sendMessageLocal M now later addr sender x items outs status None s))"
proof -
  obtain r where r: "map_get (ch_messages s) k = Some r" using there by (auto simp: in_place_def)
  then have "r < length (ch_objects s)" using chats_okD(1) [OF ok] by blast
  then have "in_place (snd (sendMessageLocal M now later addr sender x items outs status None s)) k d i (sent_message now sender x items outs status)"
    using d k r there by (auto simp: sendMessageLocal_def Let_def in_place_def)
  then show ?thesis using sendMessageLocal_ok [OF ok] by blast
qed

lemma filing_again:
  assumes "filing M addr sender items outs k acts s t" and "chats_ok s" and "in_place s k d i (sent_message n sender x items outs st)"
    and d: "toDisplayAddress M addr = Inr d" and k: "message_key x = k" and "\<forall>a \<in> set acts. \<forall>y. event_digest a = Some y \<longrightarrow> y = x"
  shows "\<exists>n. in_place t k d i (sent_message n sender x items outs (final_status st acts))"
  using assms(1,2,3,6)
proof (induction arbitrary: n st rule: filing.induct)
  case (Filed s)
  then show ?case by (auto simp: final_status_def)
next
  case (Other s t acts u)
  then have sp: "spares k s t" by (blast intro: busy_spares)
  then have "chats_ok t" by (simp add: spares_def)
  from Other.IH [OF this spares_in_place [OF sp Other.prems(2)] Other.prems(3)] show ?case .
next
  case (Event acts now later a s u)
  show ?case
  proof (cases "event_digest a")
    case None
    with Event show ?thesis by (simp add: final_status_Cons relay_event_other)
  next
    case (Some y)
    then have y: "y = x" using Event.prems(3) by simp
    from sent_again [OF Event.prems(1) d k Event.prems(2)] relay_event_send [OF Some] Event.IH Event.prems(3) show ?thesis
      unfolding y final_status_Cons by (metis list.set_intros(2))
  qed
qed

lemma filing_first:
  assumes "filing M addr sender items outs k acts s t" and "chats_ok s" and "map_get (ch_messages s) k = None"
    and "map_get (ch_chats s) d \<noteq> None \<or> (\<exists>own. toDisplayAddress M sender = Inr own \<and> own \<noteq> d)"
    and d: "toDisplayAddress M addr = Inr d" and k: "message_key x = k" and "\<forall>a \<in> set acts. \<forall>y. event_digest a = Some y \<longrightarrow> y = x"
    and "events acts \<noteq> []"
  shows "\<exists>n i. length (shown_in s d) \<le> i \<and> in_place t k d i (sent_message n sender x items outs (final_status st acts))"
  using assms(1,2,3,4,7,8)
proof (induction arbitrary: st rule: filing.induct)
  case (Filed s)
  then show ?case by simp
next
  case (Other s t acts u)
  then have sp: "spares k s t" by (blast intro: busy_spares)
  then have "chats_ok t" "map_get (ch_messages t) k = None"
    "map_get (ch_chats t) d \<noteq> None \<or> (\<exists>own. toDisplayAddress M sender = Inr own \<and> own \<noteq> d)"
    using Other.prems(2,3) by (auto simp: spares_def) blast
  from Other.IH [OF this Other.prems(4,5)] spares_shown [OF sp, of d] show ?case by (meson le_trans)
next
  case (Event acts now later a s u)
  show ?case
  proof (cases "event_digest a")
    case None
    with Event show ?thesis by (simp add: final_status_Cons relay_event_other events_def)
  next
    case (Some y)
    then have y: "y = x" using Event.prems(4) by simp
    let ?m = "sent_message now sender x items outs (event_status a st)"
    have "snd (relay_event M now later addr sender items outs a s) = placed d later ?m s"
      using sent_first [OF d Event.prems(3), of x] Event.prems(2) k y by (simp add: relay_event_send [OF Some, where st = st])
    moreover have "message_key (cm_payloadDigest ?m) = k" using k by (simp add: sent_message_def)
    note there = placed_in_place [OF Event.prems(1) this, of d later]
    ultimately obtain n where "in_place u k d (length (shown_in s d)) (sent_message n sender x items outs (final_status (event_status a st) acts))"
      using filing_again [OF _ _ _ d k, of sender items outs acts "placed d later ?m s" u "length (shown_in s d)" now "event_status a st"]
        Event.hyps Event.prems(4) by auto
    then show ?thesis by (auto simp: final_status_Cons)
  qed
qed


section \<open>After a restart\<close>

definition named :: "string \<times> string \<times> chat_message \<Rightarrow> chat_message" where
  "named x = (case x of (index, coparty, m) \<Rightarrow> m\<lparr>cm_payloadDigest := Some index\<rparr>)"

definition stored_for :: "string \<Rightarrow> (string \<times> string \<times> chat_message) list \<Rightarrow> chat_message list" where
  "stored_for a stored = map named (filter (\<lambda>x. fst (snd x) = a) stored)"

definition unread_message :: "int \<Rightarrow> chat_message \<Rightarrow> bool" where
  "unread_message t m \<longleftrightarrow> \<not> cm_outbound m \<and> t \<noteq> 0 \<and> t < cm_serverTime m"

lemma restore_message_ok: "chats_ok s \<Longrightarrow> chats_ok (restore_message x s)"
proof -
  have last: "chats_ok (t\<lparr>ch_lastReceived := y\<rparr>) \<longleftrightarrow> chats_ok t" for t y by (simp add: chats_ok_def chat_ok_def)
  assume "chats_ok s"
  then show ?thesis unfolding restore_message_def Let_def
    by (cases x) (simp add: last, intro with_chat_ok add_message_ok ensure_chat_ok,
        simp_all add: count_message_ok, simp add: recount_message_def Let_def)
qed

lemma restore_message_facts:
  assumes ok: "chats_ok s"
  shows "shown_in (restore_message x s) a = shown_in s a @ stored_for a [x]"
    and "unread_in (restore_message x s) a = unread_in s a + length (filter (unread_message (last_read_in s a)) (stored_for a [x]))"
    and "map_get (ch_chats s) a = Some c \<Longrightarrow> \<exists>c'. map_get (ch_chats (restore_message x s)) a = Some c' \<and>
      ct_lastRead c' = ct_lastRead c \<and> ct_stampAmount c' = ct_stampAmount c"
    and "last_read_in (restore_message x s) a = last_read_in s a"
proof -
  obtain i d m0 where x: "x = (i, d, m0)" by (rule prod_cases3)
  have eq: "restore_message x s = (with_chat d (recount_message (named x)) (add_message d (named x) (ensure_chat d s)))
      \<lparr>ch_lastReceived := Some (cm_serverTime (named x))\<rparr>"
    by (simp add: restore_message_def x named_def Let_def)
  have st: "stored_for a [x] = (if a = d then [named x] else [])" by (simp add: stored_for_def x)
  have "shown_in (restore_message x s) a = shown_in (add_message d (named x) (ensure_chat d s)) a"
    by (auto simp: eq shown_in_def recount_message_def Let_def split: option.split)
  then show "shown_in (restore_message x s) a = shown_in s a @ stored_for a [x]"
    using add_message_shown [OF ensure_chat_ok [OF ok], of d d "named x" a] by (simp add: ensure_chat_shown stored_for_def x)
  show "unread_in (restore_message x s) a = unread_in s a + length (filter (unread_message (last_read_in s a)) (stored_for a [x]))"
    unfolding eq st
    by (auto simp: unread_in_def last_read_in_def recount_message_def unread_message_def new_chat_def Let_def split: option.split)
  show "map_get (ch_chats s) a = Some c \<Longrightarrow> \<exists>c'. map_get (ch_chats (restore_message x s)) a = Some c' \<and>
      ct_lastRead c' = ct_lastRead c \<and> ct_stampAmount c' = ct_stampAmount c"
    by (auto simp: eq recount_message_def Let_def)
  show "last_read_in (restore_message x s) a = last_read_in s a"
    by (auto simp: eq last_read_in_def recount_message_def new_chat_def Let_def split: option.split)
qed

lemma restore_messages_facts:
  assumes "chats_ok s"
  shows "chats_ok (fold restore_message xs s) \<and> shown_in (fold restore_message xs s) a = shown_in s a @ stored_for a xs \<and>
    unread_in (fold restore_message xs s) a = unread_in s a + length (filter (unread_message (last_read_in s a)) (stored_for a xs)) \<and>
    (\<forall>c. map_get (ch_chats s) a = Some c \<longrightarrow> (\<exists>c'. map_get (ch_chats (fold restore_message xs s)) a = Some c' \<and>
      ct_lastRead c' = ct_lastRead c \<and> ct_stampAmount c' = ct_stampAmount c))"
  using assms
proof (induction xs arbitrary: s)
  case (Cons x xs)
  note F = restore_message_facts [OF Cons.prems, where x = x and a = a]
  have "stored_for a (x # xs) = stored_for a [x] @ stored_for a xs" by (simp add: stored_for_def)
  then show ?case
    using Cons.IH [OF restore_message_ok [OF Cons.prems], of x] F(1,2,4) F(3) by simp metis
qed (simp add: stored_for_def)

lemma js_sort_key: "js_sort (\<lambda>a b. k a - k b) xs = sort_key k xs" for k :: "'a \<Rightarrow> int"
proof -
  have "insert_by (\<lambda>a b. k a - k b) x ys = insort_key k x ys" for x ys by (induction ys) auto
  then have "insert_by (\<lambda>a b. k a - k b) = insort_key k" by (intro ext)
  then show ?thesis by (simp add: js_sort_def sort_key_def)
qed

lemma sort_key_map: "map f (sort_key (\<lambda>r. k (f r)) xs) = sort_key k (map f xs)"
proof -
  have "map f (insort_key (\<lambda>r. k (f r)) x ys) = insort_key k (f x) (map f ys)" for x ys by (induction ys) auto
  then show ?thesis by (induction xs) simp_all
qed

lemma sort_chats_facts:
  "shown_in (fold (\<lambda>a s. with_chat a (sort_chat s) s) as s) a = (if a \<in> set as then sort_key cm_serverTime (shown_in s a) else shown_in s a) \<and>
   unread_in (fold (\<lambda>a s. with_chat a (sort_chat s) s) as s) a = unread_in s a \<and>
   (\<forall>c. map_get (ch_chats s) a = Some c \<longrightarrow> (\<exists>c'. map_get (ch_chats (fold (\<lambda>a s. with_chat a (sort_chat s) s) as s)) a = Some c' \<and>
      ct_lastRead c' = ct_lastRead c \<and> ct_stampAmount c' = ct_stampAmount c))"
proof (induction "as" arbitrary: s)
  case (Cons b "as")
  have shown: "shown_in (with_chat b (sort_chat s) s) a = (if a = b then sort_key cm_serverTime (shown_in s a) else shown_in s a)"
    using js_sort_key [of "\<lambda>r. cm_serverTime (ch_objects s ! r)"]
    by (auto simp: shown_in_def sort_chat_def sort_key_map split: option.split)
  have "unread_in (with_chat b (sort_chat s) s) a = unread_in s a"
    by (auto simp: unread_in_def sort_chat_def split: option.split)
  moreover have "sort_key cm_serverTime (sort_key cm_serverTime xs) = sort_key cm_serverTime xs" for xs :: "chat_message list"
    by (rule sort_key_id_if_sorted) (rule sorted_sort_key)
  moreover have "\<exists>c'. map_get (ch_chats (fold (\<lambda>a s. with_chat a (sort_chat s) s) (b # as) s)) a = Some c' \<and>
      ct_lastRead c' = ct_lastRead c \<and> ct_stampAmount c' = ct_stampAmount c" if here: "map_get (ch_chats s) a = Some c" for c
  proof -
    obtain c1 where "map_get (ch_chats (with_chat b (sort_chat s) s)) a = Some c1" "ct_lastRead c1 = ct_lastRead c" "ct_stampAmount c1 = ct_stampAmount c"
      using here by (cases "a = b") (auto simp: sort_chat_def)
    with Cons.IH [of "with_chat b (sort_chat s) s"] show ?thesis by auto
  qed
  ultimately show ?case using Cons.IH [of "with_chat b (sort_chat s) s"] shown by (cases "a = b") simp_all
qed simp

text \<open>
  C21. What a restart keeps of a chat.  A chat that was saved is there again with the time of its last reading and
  its price; it shows exactly the stored messages of its party in the order of their server times; and it counts
  as unread the received ones that are newer than its last reading, but none at all if it was never read.
\<close>

theorem restart_restores_chats:
  assumes "map_get (ch_chats s) a = Some c"
  shows "\<exists>c'. map_get (ch_chats (restore_chats False (Some (save_chats s)) stored)) a = Some c' \<and>
    ct_lastRead c' = ct_lastRead c \<and> ct_stampAmount c' = ct_stampAmount c \<and>
    shown_in (restore_chats False (Some (save_chats s)) stored) a = sort_key cm_serverTime (stored_for a stored) \<and>
    ct_totalUnreadMessages c' = length (filter (unread_message (ct_lastRead c)) (stored_for a stored)) \<and>
    (ct_lastRead c = 0 \<longrightarrow> ct_totalUnreadMessages c' = 0)"
proof -
  let ?v = "save_chats s"
  let ?s0 = "\<lparr>ch_objects = [], ch_chats = map (\<lambda>(a, c). (a, restored_chat a c)) (sv_chats ?v), ch_messages = [],
    ch_lastReceived = sv_lastReceived ?v, ch_active = sv_active ?v\<rparr>"
  let ?s1 = "fold restore_message stored ?s0"
  let ?as = "map fst (sv_chats ?v)"
  have get0: "map_get (ch_chats ?s0) b = map_option (\<lambda>c. restored_chat b (c\<lparr>ct_messages := []\<rparr>)) (map_get (ch_chats s) b)" for b
  proof -
    have "map_get (sv_chats ?v) b = map_option (\<lambda>c. c\<lparr>ct_messages := []\<rparr>) (map_get (ch_chats s) b)"
      by (simp add: save_chats_def map_get_map)
    then show ?thesis by (simp only: chats_state.simps map_get_map option.map_comp comp_def)
  qed
  have ok: "chats_ok ?s0"
    using get0 by (intro chats_okI) (auto simp: chat_ok_def restored_chat_def new_chat_def)
  have here: "a \<in> set ?as" using map_of_SomeD [OF assms [unfolded map_get_def]] by (force simp: save_chats_def)
  have s0: "shown_in ?s0 a = []" "unread_in ?s0 a = 0" "last_read_in ?s0 a = ct_lastRead c"
    using get0 [of a] assms by (simp_all add: shown_in_def unread_in_def last_read_in_def restored_chat_def new_chat_def)
  have t: "restore_chats False (Some ?v) stored = fold (\<lambda>a s. with_chat a (sort_chat s) s) ?as ?s1"
    by (simp add: restore_chats_def rehydateChat_def Let_def)
  obtain c1 where c1: "map_get (ch_chats ?s1) a = Some c1" "ct_lastRead c1 = ct_lastRead c" "ct_stampAmount c1 = ct_stampAmount c"
    using restore_messages_facts [OF ok, of stored a] get0 [of a] assms by (auto simp: restored_chat_def)
  from sort_chats_facts [of ?as ?s1 a] c1 obtain c' where
    c': "map_get (ch_chats (restore_chats False (Some ?v) stored)) a = Some c'" "ct_lastRead c' = ct_lastRead c" "ct_stampAmount c' = ct_stampAmount c"
    unfolding t by auto
  have "shown_in (restore_chats False (Some ?v) stored) a = sort_key cm_serverTime (stored_for a stored)"
    using sort_chats_facts [of ?as ?s1 a] here restore_messages_facts [OF ok, of stored a] s0(1) unfolding t by simp
  moreover have "unread_in (restore_chats False (Some ?v) stored) a = length (filter (unread_message (ct_lastRead c)) (stored_for a stored))"
    using sort_chats_facts [of ?as ?s1 a] restore_messages_facts [OF ok, of stored a] s0(2,3) unfolding t by simp
  ultimately show ?thesis using c' by (auto simp: unread_in_def unread_message_def)
qed

section \<open>Every history\<close>

lemma default_ok: "chats_ok defaultChatsState"
  by (simp add: chats_ok_def defaultChatsState_def)

lemma restored_ok: "chats_ok (restore_chats invalidStore saved stored)"
proof -
  have sort: "chats_ok (with_chat a (sort_chat s) s)" if "chats_ok s" for a s
    using that js_sort_key [of "\<lambda>r. cm_serverTime (ch_objects s ! r)"]
    by (intro with_chat_ok) (auto simp: sort_chat_def chat_ok_def)
  have sorts: "chats_ok (fold (\<lambda>a s. with_chat a (sort_chat s) s) as s)" if "chats_ok s" for "as" s
    using that by (induction "as" arbitrary: s) (simp_all add: sort)
  have messages: "chats_ok (fold restore_message xs s)" if "chats_ok s" for xs s
    using that by (induction xs arbitrary: s) (simp_all add: restore_message_ok)
  have "chats_ok \<lparr>ch_objects = [], ch_chats = map (\<lambda>(a, c). (a, restored_chat a c)) (sv_chats v), ch_messages = [],
      ch_lastReceived = x, ch_active = y\<rparr>" for v x y
    by (intro chats_okI) (auto simp: map_get_map chat_ok_def restored_chat_def new_chat_def)
  then show ?thesis
    by (auto simp: restore_chats_def rehydateChat_def Let_def default_ok split: option.split intro!: sorts messages)
qed

text \<open>
  Everything that changes the chats: the actions, the two writes to the chat on display from outside, and a start of the
  program with whatever was saved.
\<close>

inductive chat_step :: "'p msg_env \<Rightarrow> chats_state \<Rightarrow> chats_state \<Rightarrow> bool" for M where
  Action: "action_step M s t \<Longrightarrow> chat_step M s t"
| Clicked: "chat_step M s (notification_clicked a s)"
| Added: "chat_step M s (default_contact_added known a s)"
| Started: "chat_step M s (restore_chats invalidStore saved stored)"

lemma display_ok: "chats_ok (s\<lparr>ch_active := x\<rparr>) \<longleftrightarrow> chats_ok s"
  by (simp add: chats_ok_def chat_ok_def)

lemma chat_step_ok: "chat_step M s t \<Longrightarrow> chats_ok s \<Longrightarrow> chats_ok t"
  by (induction rule: chat_step.induct)
     (auto simp: action_step_ok restored_ok notification_clicked_def default_contact_added_def display_ok)

lemma opened_read: "setActiveChat M x s = (None, t) \<Longrightarrow> active_read t"
  by (auto simp: setActiveChat_def displayed_def active_read_def read_chat_def new_chat_def split: option.splits sum.splits if_splits)

text \<open>
  C19. Whatever happens to the chats, from an empty store on, restarts included: every message in the table and in a chat
  exists, lies under its digest, and is in one place of one chat only, and no chat has more unread value than value.  And
  once a chat was opened with \<^verbatim>\<open>setActiveChat\<close>, the chat on display has nothing unread, for as long as only actions
  of the store change the chats.
\<close>

theorem chats_invariant:
  assumes "(chat_step M)\<^sup>*\<^sup>* defaultChatsState s"
  shows "chats_ok s \<and> (\<forall>x t u. setActiveChat M x s = (None, t) \<longrightarrow> (action_step M)\<^sup>*\<^sup>* t u \<longrightarrow> active_read u)"
proof
  from assms show "chats_ok s" by (induction rule: rtranclp_induct) (auto simp: default_ok dest: chat_step_ok)
  have "active_read u" if "active_read t" "(action_step M)\<^sup>*\<^sup>* t u" for t u
    using that(2,1) by (induction rule: rtranclp_induct) (auto dest: action_step_read)
  then show "\<forall>x t u. setActiveChat M x s = (None, t) \<longrightarrow> (action_step M)\<^sup>*\<^sup>* t u \<longrightarrow> active_read u"
    using opened_read by blast
qed

text \<open>A click on a notification opens a chat that stays unread.\<close>

theorem click_keeps_unread:
  assumes "map_get (ch_chats s) a = Some c" and "0 < ct_totalUnreadMessages c"
  shows "ch_active (notification_clicked a s) = Some a \<and> \<not> active_read (notification_clicked a s)"
  using assms by (auto simp: notification_clicked_def active_read_def)

section \<open>Witnesses\<close>

definition demo_letter :: "nat \<Rightarrow> nat received" where
  "demo_letter n = \<lparr>rv_outbound = False, rv_senderAddress = cash_text (replicate 20 1), rv_copartyAddress = cash_text (replicate 20 1),
     rv_copartyPubKey = demo_pub 2, rv_index = replicate n (CHR ''a''), rv_stampValue = 1000, rv_items = [TextItem ''hi''], rv_serverTime = 5,
     rv_receivedTime = 6, rv_outpoints = [], rv_destinationAddress = []\<rparr>"

lemma demo_display: "toDisplayAddress demo_msg_env (cash_text (replicate 20 1)) = Inr (cash_text (replicate 20 1))"
  by (rule display_cash_text [OF demo_hypotheses(1)]) simp

lemma demo_places: "places demo_msg_env (map demo_letter ns) (replicate (length ns) (cash_text (replicate 20 1)))"
  by (induction ns) (simp_all add: places_def demo_letter_def demo_display)

theorem chats_invariant_witness:
  "\<exists>s t. s = snd (receiveMessages demo_msg_env [demo_letter 1] (restore_chats False None [])) \<and> chats_ok s \<and>
   setActiveChat demo_msg_env (Some (cash_text (replicate 20 1))) s = (None, t) \<and>
   active_read (snd (receiveMessages demo_msg_env [demo_letter 2] t))"
proof -
  let ?s = "snd (receiveMessages demo_msg_env [demo_letter 1] (restore_chats False None []))" and ?a = "cash_text (replicate 20 1)"
  have "(chat_step demo_msg_env)\<^sup>*\<^sup>* defaultChatsState ?s"
    by (rule rtranclp.rtrancl_into_rtrancl [where b = "restore_chats False None []"], rule r_into_rtranclp, rule chat_step.Started)
       (rule chat_step.Action, rule action_step.Received)
  note inv = chats_invariant [OF this]
  have "?a \<noteq> []" using cash_text_read(2) [of "replicate 20 1"] by auto
  then obtain t where "setActiveChat demo_msg_env (Some ?a) ?s = (None, t)" using demo_display by (simp add: setActiveChat_def displayed_def)
  with inv show ?thesis by (blast intro: r_into_rtranclp action_step.Received)
qed

theorem received_messages_shown_witness:
  "\<exists>t. receiveMessages demo_msg_env (map demo_letter [1, 2]) defaultChatsState = (None, t) \<and>
    shown_in t (cash_text (replicate 20 1)) = map shown_message (map demo_letter [1, 2]) \<and> unread_in t (cash_text (replicate 20 1)) = 2"
proof -
  have new: "\<forall>w \<in> set (map demo_letter [1, 2]). map_get (ch_messages defaultChatsState) (rv_index w) = None"
    by (simp add: defaultChatsState_def)
  have d: "distinct (map rv_index (map demo_letter [1, 2]))" by (simp add: demo_letter_def eval_nat_numeral)
  from received_messages_shown [OF default_ok demo_places [of "[1, 2]"] new d] obtain t where
    "receiveMessages demo_msg_env (map demo_letter [1, 2]) defaultChatsState = (None, t)"
    "\<forall>d. shown_in t d = shown_in defaultChatsState d @ map (\<lambda>(w, a). shown_message w)
      (filter (\<lambda>(w, a). a = d) (zip (map demo_letter [1, 2]) (replicate (length [1 :: nat, 2]) (cash_text (replicate 20 1)))))"
    "\<forall>d. unread_in t d = unread_in defaultChatsState d + length (filter (\<lambda>(w, a). a = d \<and> ch_active defaultChatsState \<noteq> Some d \<and>
      last_read_in defaultChatsState d < rv_serverTime w) (zip (map demo_letter [1, 2]) (replicate (length [1 :: nat, 2]) (cash_text (replicate 20 1)))))"
    by blast
  then show ?thesis
    by (simp add: shown_in_def unread_in_def last_read_in_def defaultChatsState_def eval_nat_numeral demo_letter_def)
qed

theorem known_message_drops_batch_witness:
  "\<exists>t. receiveMessages demo_msg_env [demo_letter 1, demo_letter 1, demo_letter 2] defaultChatsState = (None, t) \<and>
    getMessageByPayload t ''a'' = Some (shown_message (demo_letter 1)) \<and> getMessageByPayload t ''aa'' = None"
proof -
  have new: "\<forall>u \<in> set (map demo_letter [1]). map_get (ch_messages defaultChatsState) (rv_index u) = None"
    by (simp add: defaultChatsState_def)
  obtain t1 t where t: "receiveMessages demo_msg_env (map demo_letter [1]) defaultChatsState = (None, t1)"
      "receiveMessages demo_msg_env (map demo_letter [1] @ demo_letter 1 # [demo_letter 2]) defaultChatsState = (None, t)"
      "getMessageByPayload t (rv_index (demo_letter 1)) = Some (shown_message (demo_letter 1))"
      "\<forall>x \<in> set [demo_letter 2]. getMessageByPayload t1 (rv_index x) = None \<longrightarrow> getMessageByPayload t (rv_index x) = None"
    using known_message_drops_batch [OF default_ok demo_places [of "[1]"] demo_places [of "[1, 2]", unfolded list.map] new] by auto
  have "t1 = file_message (cash_text (replicate 20 1)) (shown_message (demo_letter 1)) defaultChatsState"
    using t(1) first_pass [OF demo_places [of "[1]"]] demo_display by (simp add: demo_letter_def defaultChatsState_def)
  then have "getMessageByPayload t1 (rv_index (demo_letter 2)) = None"
    by (simp add: file_message_facts(5) [OF default_ok]) (simp add: getMessageByPayload_def defaultChatsState_def demo_letter_def eval_nat_numeral)
  with t show ?thesis by (auto simp: demo_letter_def eval_nat_numeral)
qed

theorem deleting_absent_drops_last_witness:
  "\<exists>t. chats_deleteMessage demo_msg_env (cash_text (replicate 20 1)) ''b''
      (file_message (cash_text (replicate 20 1)) (shown_message (demo_letter 1)) defaultChatsState) = (None, t) \<and>
    shown_in (file_message (cash_text (replicate 20 1)) (shown_message (demo_letter 1)) defaultChatsState) (cash_text (replicate 20 1)) =
      [shown_message (demo_letter 1)] \<and> shown_in t (cash_text (replicate 20 1)) = []"
proof -
  have s: "shown_in (file_message (cash_text (replicate 20 1)) (shown_message (demo_letter 1)) defaultChatsState) (cash_text (replicate 20 1)) =
      [shown_message (demo_letter 1)]"
    by (simp add: file_message_facts(1) [OF default_ok]) (simp add: shown_in_def defaultChatsState_def)
  from deleting_absent_drops_last [OF demo_display, of "file_message (cash_text (replicate 20 1)) (shown_message (demo_letter 1)) defaultChatsState" "''b''"] s
  show ?thesis by (simp add: demo_letter_def)
qed

lemma filing_alone: "\<exists>t. filing M addr sender items outs k acts s t"
  by (induction acts arbitrary: s) (blast intro: filing.intros)+


theorem restart_restores_chats_witness:
  "\<exists>c'. map_get (ch_chats (restore_chats False (Some (save_chats (ensure_chat ''a'' defaultChatsState)))
      [(''x'', ''a'', shown_message (demo_letter 1))])) ''a'' = Some c' \<and> ct_totalUnreadMessages c' = 0"
proof -
  have "map_get (ch_chats (ensure_chat ''a'' defaultChatsState)) ''a'' = Some (new_chat ''a'')"
    by (simp add: defaultChatsState_def)
  from restart_restores_chats [OF this] show ?thesis by (auto simp: new_chat_def)
qed

end
