(* ===== verification/Spec2Isabelle.thy ===== *)
theory Spec2Isabelle
  imports InterpreterResults RelayResults SignalStore WalletResults AddressResults HDResults ChatResults
begin

text \<open>
  Verification of Finney, an eCash messenger: a desktop and web client, the local services it
  talks to, and the library \<^verbatim>\<open>bitcore-lib-xec\<close> it carries in its own tree.

  The parts and how they interact.

  A message is paid for by transactions.  The wallet (\<^verbatim>\<open>src/cashweb/wallet\<close>) follows the chain, keeps
  the unspent outputs in a store and builds signed transactions from them with the library
  (\<^verbatim>\<open>local_modules/bitcore-lib-xec/lib\<close>): keys hash to addresses, addresses name output scripts,
  inputs are signed over a digest of the transaction, and the script interpreter decides whether an
  input may spend an output.  The local services (\<^verbatim>\<open>local-services/server.js\<close>) are the relay that
  stores messages with their stamps, and the registry of profiles.  The desktop process
  (\<^verbatim>\<open>src-electron\<close>) keeps the private state of the Signal sessions and publishes the bundle of public
  keys from which others start a session.

  The theories.

  \<^item> \<open>Prelude\<close>: bytes, errors as values (\<open>'a res\<close>, \<open>Inl\<close> an exception, \<open>Inr\<close> a result), the 32-bit
    integers of JavaScript's bit operators, slices and codecs.  \<open>JsText\<close>: texts as lists of bytes,
    splitting, percent encoding, UTF-8 and insertion ordered maps; its locale \<open>kv_store\<close> is the
    contract of the key-value stores.  \<open>Doubles\<close>: rounding of integers to doubles.
  \<^item> \<open>BigNum\<close>, \<open>BufferIO\<close>, \<open>DerSignature\<close>: \<^verbatim>\<open>crypto/bn.js\<close>, \<^verbatim>\<open>encoding/bufferreader.js\<close>,
    \<^verbatim>\<open>bufferwriter.js\<close>, \<^verbatim>\<open>varint.js\<close> and \<^verbatim>\<open>crypto/signature.js\<close>.  Canonical and unique encodings, round
    trips and the precision limits.
  \<^item> \<open>Opcodes\<close>, \<open>Script\<close>: \<^verbatim>\<open>opcode.js\<close> and \<^verbatim>\<open>script/script.js\<close>: scripts as lists of chunks, parsing,
    printing, builders, classification, counting of signature operations.
  \<^item> \<open>JsHeap\<close>, \<open>Interpreter\<close>, \<open>InterpreterSafety\<close>, \<open>InterpreterSpec\<close>, \<open>InterpreterResults\<close>:
    \<^verbatim>\<open>script/interpreter.js\<close>.  Buffers on the stack are views into a heap because the code shares and
    mutates them.  One definition per opcode; \<open>evaluate\<close> runs at most as many steps as the script has
    chunks, since every step consumes one.  The safety theory shows that limits hold in every state
    and that no step throws; \<open>InterpreterSpec\<close> names the result of every operation without jumps and signatures on
    plain byte strings, with a reading of numbers of its own, and shows that the handlers over the heap refine it; the results say when \<^verbatim>\<open>verify\<close> accepts.
  \<^item> \<open>Transaction\<close>, \<open>Sighash\<close>, \<open>Signing\<close>: \<^verbatim>\<open>transaction/transaction.js\<close>, \<^verbatim>\<open>input/*.js\<close>, \<^verbatim>\<open>output.js\<close>,
    \<^verbatim>\<open>sighash.js\<close>: the wire format and its round trip, amounts, checks, the two digests and what they
    commit to, signing of inputs that spend a key or its hash.
  \<^item> \<open>CashAddr\<close>, \<open>Networks\<close>, \<open>XAddress\<close>, \<open>Address\<close>, \<open>AddressResults\<close>: \<^verbatim>\<open>util/base32.js\<close>,
    \<^verbatim>\<open>util/convertBits.js\<close>, \<^verbatim>\<open>networks.js\<close>, \<^verbatim>\<open>encoding/base58check.js\<close>, \<^verbatim>\<open>xaddress.js\<close>, \<^verbatim>\<open>address.js\<close>.  The
    checksum is shown to be a linear map on words of 40 bits; from that follow the round trip and the
    detection of every change within eight consecutive characters.
  \<^item> \<open>BnEuclid\<close>, \<open>Keys\<close>, \<open>EcdsaSig\<close>, \<open>SchnorrSig\<close>: the Euclidean routines and powers of
    \<^verbatim>\<open>local_modules/bn.js\<close>, \<^verbatim>\<open>crypto/hash.js\<close>, \<^verbatim>\<open>point.js\<close>, \<^verbatim>\<open>publickey.js\<close>, \<^verbatim>\<open>privatekey.js\<close>, \<^verbatim>\<open>ecdsa.js\<close> and
    \<^verbatim>\<open>schnorr.js\<close>.  The curve is a parameter with the laws \<open>curve_ok\<close> of a group of prime order.  The
    loops over nonces are partial functions; the properties say when they return.
  \<^item> \<open>HDKeys\<close>, \<open>HDResults\<close>: \<^verbatim>\<open>hdprivatekey.js\<close> and \<^verbatim>\<open>hdpublickey.js\<close>, the invariant of a reachable key and the
    agreement of the private and the public derivation.
  \<^item> \<open>AppNetworks\<close>, \<open>MessageKeys\<close>, \<open>Messages\<close>: \<^verbatim>\<open>src/boot/network-prefix.ts\<close>, \<^verbatim>\<open>src/cashweb/relay/crypto.ts\<close>,
    \<^verbatim>\<open>extension.ts\<close> and \<^verbatim>\<open>constructMessage\<close> of \<^verbatim>\<open>constructors.ts\<close>: the keys two parties agree on, the envelope of a
    message, that it opens for its parties and only when it is authentic.
  \<^item> \<open>Receive\<close>, \<open>ReceiveResults\<close>, \<open>ReceiveSafety\<close>: \<^verbatim>\<open>receiveMessage\<close> of \<^verbatim>\<open>relay/index.ts\<close> and
    \<^verbatim>\<open>decode-entry.ts\<close>.  A handler returns the store of the wallet also when it throws.  The results follow a
    stamp from the wallet that pays it to the wallet that gains it; the safety theory says which
    coins a message can add or take away.
  \<^item> \<open>Restore\<close>: the keys of received stamps derived again from stored messages, redeeming and deleting.
  \<^item> \<open>Sending\<close>, \<open>SendResults\<close>: \<^verbatim>\<open>sendMessageImpl\<close> with \<^verbatim>\<open>encode-entry.ts\<close> and the entries of
    \<^verbatim>\<open>constructors.ts\<close>; what is done to the outside is a list of actions.  A stamp is paid at most once, the pushes
    end, and a text reaches its recipient.
  \<^item> \<open>Profiles\<close>: \<^verbatim>\<open>profile-validation.ts\<close>, profiles in \<^verbatim>\<open>constructors.ts\<close>, \<^verbatim>\<open>getMessages\<close> with the payments of \<^verbatim>\<open>pop.ts\<close>, and
    the store of messages \<^verbatim>\<open>relay/storage/level-storage.ts\<close>.
  \<^item> \<open>Chats\<close>, \<open>ChatResults\<close>: \<^verbatim>\<open>src/stores/chats.ts\<close>, \<^verbatim>\<open>src/utils/address.ts\<close> and the events of
    \<^verbatim>\<open>src/adapters/pinia-relay-adapter.ts\<close>: messages are shared by reference between the table and the chats.  The
    invariant over all actions, restarts and the two writes from outside the actions, what received messages become, what
    becomes of a sent one while other things happen between its events (\<open>filing\<close>), what a restart keeps.
  \<^item> \<open>UtxoStore\<close>, \<open>WalletSync\<close>, \<open>WalletBuild\<close>, \<open>WalletResults\<close>: \<^verbatim>\<open>src/cashweb/wallet\<close>.  The store with its
    tombstones meets the contract \<open>utxo_api\<close>; the handlers that follow the chain are split where they await an
    answer, so that a property of all sequences of steps (\<open>wallet_step\<close>, \<open>keeping_step\<close>) covers their interleavings; coin selection, change and signing build
    transactions whose amounts, sizes and fees are bounded.
  \<^item> \<open>Relay\<close>, \<open>RelayResults\<close>, \<open>Json\<close>: \<^verbatim>\<open>local-services/server.js\<close> as a function from a state and a request
    to a state and a response; the parser and printer of JSON.  The fuel of the parser is twice the
    length of the text, which suffices for every text the printer writes; a text that runs out
    is refused.
  \<^item> \<open>PrivateState\<close>, \<open>ProfileBundle\<close>, \<open>SignalStore\<close>: \<^verbatim>\<open>src-electron/private-state.js\<close>,
    \<^verbatim>\<open>signal-profile-bundle.js\<close>, \<^verbatim>\<open>signal-store.js\<close>, \<^verbatim>\<open>signal-profile.js\<close>: sealed values, the staged
    transactions of the session store, the bundle and its provisioning.

  Conventions.  A class is a record with its methods as functions, \<^verbatim>\<open>undefined\<close> is \<open>None\<close>, an exception
  a value.  An \<^verbatim>\<open>async\<close> method is one function of the state and of the answers it awaits, run without
  interruption: \<open>sendMessageImpl\<close>, \<open>receiveMessage\<close>, \<open>getMessages\<close>, \<open>rehydrate\<close>, \<open>forwardUTXOsToPubkey\<close> and \<open>fixUtxos\<close>
  are such, and what their properties say of the wallet holds when nothing else changes it between their awaits.  Split at
  their awaits, and run in every order, are the handlers of the wallet that follow the chain, the repair among them
  (\<open>fix_stored\<close>, \<open>checkAndFixUtxos\<close>, \<open>fix_unfreeze\<close>), and the events of a send as the store of chats files them.  Numbers are naturals or integers where the code keeps them exact, \<open>32 word\<close>s or
  \<open>to_int32\<close> under the bit operators, and rounded by \<open>to_double\<close> where they exceed 53 bits.

  Parameters.  Code outside the repository is an argument: hashes, signature schemes and curves,
  base 58, AES-GCM, LevelDB (a map), Chronik's answers, the random numbers (a stream), protocol
  buffers, the clock.  Where a property needs one of their laws, the law is a named premise and a
  witness instantiates it.

  Not modelled: code generated by the protocol buffer compiler, the word arithmetic of the vendored big
  number library, the user interface in Vue, translations, Electron windows and menus, scripts and tests: generated,
  third-party or input and output only.
  Also left out: the registry client, the stores of contacts and topics, multisignature inputs,
  blocks, units and payment URIs.
\<close>

end
